(* ===== verification/CBase.thy ===== *)
theory CBase
  imports Main "HOL-Library.Word"
begin

text \<open>
  The prelude of the development: what every component model shares.

  \<^item> the result type of fallible C code: a \<open>fault\<close> (undefined behaviour that the
    model makes visible, or a call of \<open>exit\<close>) or a value, with its bind operator;
  \<^item> guarded buffer reads, little-endian decoding of integers and C strings in byte
    buffers, with the round-trip laws of the integer encoding.

  The data model is the one the tools are compiled for: \<open>int\<close> and \<open>unsigned int\<close>
  have 32 bits, \<open>long\<close> has 64 bits, integers are little endian.
\<close>

subsection \<open>Collections of rewrite rules\<close>

named_theorems fmt_simps \<open>values of format strings on symbolic arguments\<close>
named_theorems res_simps \<open>rewrite rules for results of fallible code\<close>

subsection \<open>Types\<close>

type_synonym byte = "8 word"
type_synonym u16 = "16 word"
type_synonym u32 = "32 word"
type_synonym u64 = "64 word"

text \<open>
  What can go wrong when C code runs. \<open>Exit n\<close> is the deliberate \<open>exit(n)\<close>; \<open>NoReturn\<close> is a
  loop that never ends; the others are the undefined behaviours that the models check for.
\<close>

datatype fault =
    NullDeref        \<comment> \<open>dereference of a null pointer\<close>
  | OutOfBounds      \<comment> \<open>read past the end of an object\<close>
  | BufferOverflow   \<comment> \<open>write past the end of an object\<close>
  | UninitRead       \<comment> \<open>read of a value that was never written\<close>
  | DivByZero
  | SignedOverflow
  | BadFree          \<comment> \<open>free of something that is not a live allocation\<close>
  | UseAfterFree     \<comment> \<open>use of an object that has been freed\<close>
  | NoReturn         \<comment> \<open>a loop that does not end\<close>
  | Exit int

type_synonym 'a res = "fault + 'a"

subsection \<open>Sequencing of fallible computations\<close>

definition bindE :: "'a res \<Rightarrow> ('a \<Rightarrow> 'b res) \<Rightarrow> 'b res" where
  "bindE r f = (case r of Inl e \<Rightarrow> Inl e | Inr x \<Rightarrow> f x)"

lemma bindE_simps [simp, res_simps]:
  "bindE (Inl e) f = Inl e"
  "bindE (Inr x) f = f x"
  by (simp_all add: bindE_def)

lemma bindE_eq_Inr: "bindE r f = Inr y \<longleftrightarrow> (\<exists>x. r = Inr x \<and> f x = Inr y)"
  by (cases r) simp_all

lemma bindE_eq_Inl: "bindE r f = Inl e \<longleftrightarrow> r = Inl e \<or> (\<exists>x. r = Inr x \<and> f x = Inl e)"
  by (cases r) simp_all

lemma bindE_assoc: "bindE (bindE r f) g = bindE r (\<lambda>x. bindE (f x) g)"
  by (cases r) simp_all

lemma bindE_cong [fundef_cong]:
  "r = r' \<Longrightarrow> (\<And>x. r' = Inr x \<Longrightarrow> f x = g x) \<Longrightarrow> bindE r f = bindE r' g"
  by (cases r') simp_all

lemma bindE_Inr_right [simp]: "bindE r Inr = r"
  by (cases r) simp_all

definition guardE :: "bool \<Rightarrow> fault \<Rightarrow> 'a res \<Rightarrow> 'a res" where
  "guardE b e r = (if b then r else Inl e)"

lemma guardE_simps [simp, res_simps]:
  "guardE True e r = r"
  "guardE False e r = Inl e"
  by (simp_all add: guardE_def)

lemma guardE_eq_Inr: "guardE b e r = Inr y \<longleftrightarrow> b \<and> r = Inr y"
  by (simp add: guardE_def)

text \<open>\<open>mapE\<close> runs a fallible function over a list, stopping at the first fault.\<close>

fun mapE :: "('a \<Rightarrow> 'b res) \<Rightarrow> 'a list \<Rightarrow> 'b list res" where
  "mapE f [] = Inr []"
| "mapE f (x # xs) = bindE (f x) (\<lambda>y. bindE (mapE f xs) (\<lambda>ys. Inr (y # ys)))"

lemma mapE_Inr: "(\<And>x. x \<in> set xs \<Longrightarrow> f x = Inr (g x)) \<Longrightarrow> mapE f xs = Inr (map g xs)"
  by (induction xs) simp_all

lemma length_mapE: "mapE f xs = Inr ys \<Longrightarrow> length ys = length xs"
  by (induction xs arbitrary: ys) (auto simp: bindE_eq_Inr)

text \<open>A value that a C declaration or \<open>malloc\<close> leaves indeterminate until it is written.\<close>

datatype 'a cell = Undef | Def 'a

primrec load :: "'a cell \<Rightarrow> 'a res" where
  "load Undef = Inl UninitRead"
| "load (Def x) = Inr x"

text \<open>Dereference of a pointer, \<open>None\<close> being the null pointer.\<close>

primrec deref :: "'a option \<Rightarrow> 'a res" where
  "deref None = Inl NullDeref"
| "deref (Some x) = Inr x"

subsection \<open>Buffers\<close>

definition buf_at :: "'a list \<Rightarrow> nat \<Rightarrow> 'a res" where
  "buf_at xs i = (if i < length xs then Inr (xs ! i) else Inl OutOfBounds)"

lemma buf_at_Inr [res_simps]: "i < length xs \<Longrightarrow> buf_at xs i = Inr (xs ! i)"
  by (simp add: buf_at_def)

lemma buf_at_Inl [res_simps]: "length xs \<le> i \<Longrightarrow> buf_at xs i = Inl OutOfBounds"
  by (simp add: buf_at_def)

definition bslice :: "nat \<Rightarrow> nat \<Rightarrow> 'a list \<Rightarrow> 'a list" where
  "bslice off n xs = take n (drop off xs)"

lemma length_bslice [simp]: "off + n \<le> length xs \<Longrightarrow> length (bslice off n xs) = n"
  by (simp add: bslice_def)

lemma nth_bslice: "off + n \<le> length xs \<Longrightarrow> i < n \<Longrightarrow> bslice off n xs ! i = xs ! (off + i)"
  by (simp add: bslice_def)

lemma bslice_bslice: "i + m \<le> n \<Longrightarrow> bslice i m (bslice off n xs) = bslice (off + i) m xs"
  by (simp add: bslice_def drop_take min_absorb1 add.commute)

lemma bslice_append_right: "off = length xs \<Longrightarrow> n = length ys \<Longrightarrow> bslice off n (xs @ ys @ zs) = ys"
  by (simp add: bslice_def)

lemma bslice_all: "n = length xs \<Longrightarrow> bslice 0 n xs = xs"
  by (simp add: bslice_def)

subsection \<open>Counting in rows of sixteen\<close>

lemma row_step:
  "(j + 1) mod 16 \<noteq> 0 \<Longrightarrow> (j + 1) mod 16 = j mod 16 + 1 \<and> (j + 1) div 16 = j div (16 :: nat)"
  by (simp add: mod_Suc div_Suc split: if_splits)

lemma row_last:
  "(j + 1) mod 16 = 0 \<Longrightarrow> j mod 16 = 15 \<and> (j + 1) div 16 = j div (16 :: nat) + 1"
  by (simp add: mod_Suc div_Suc split: if_splits)

subsection \<open>Little-endian integers\<close>

primrec le_val :: "byte list \<Rightarrow> nat" where
  "le_val [] = 0"
| "le_val (b # bs) = unat b + 256 * le_val bs"

primrec le_bytes :: "nat \<Rightarrow> nat \<Rightarrow> byte list" where
  "le_bytes 0 n = []"
| "le_bytes (Suc k) n = word_of_nat (n mod 256) # le_bytes k (n div 256)"

lemma length_le_bytes [simp]: "length (le_bytes k n) = k"
  by (induction k arbitrary: n) simp_all

lemma unat_byte_bound [simp]: "unat (b :: byte) < 256"
  using unsigned_less [of b] by simp

lemma unat_u32_bound: "unat (w :: u32) < 4294967296"
  using unsigned_less [of w] by simp

lemma unat_u64_bound: "unat (w :: u64) < 18446744073709551616"
  using unsigned_less [of w] by simp

lemma sint_nonneg_unat: "0 \<le> sint (w :: u32) \<longleftrightarrow> unat w < 2147483648"
proof -
  have "unat w < 4294967296" using unsigned_less [of w] by simp
  then have "unat w div 2147483648 = (if unat w < 2147483648 then 0 else 1)" by (auto intro: div_nat_eqI)
  moreover have "bit w 31 = bit (unat w) 31" by (simp add: bit_unsigned_iff)
  ultimately have "bit w 31 \<longleftrightarrow> \<not> unat w < 2147483648" by (simp add: bit_iff_odd)
  moreover have "bit w 31 \<longleftrightarrow> sint w < 0" using bit_last_iff [of w] by simp
  ultimately show ?thesis by linarith
qed

lemma sint_small: "unat (w :: u32) < 2147483648 \<Longrightarrow> sint w = int (unat w)"
proof -
  assume "unat w < 2147483648"
  then have "uint w < 2147483648" using uint_nat [of w] by linarith
  then have "uint w < 2 ^ (LENGTH(32) - 1)" by simp
  moreover have "- (2 ^ (LENGTH(32) - 1)) \<le> uint w"
    by (rule order_trans [OF _ unsigned_greater_eq]) simp
  ultimately have "signed_take_bit (LENGTH(32) - 1) (uint w) = uint w"
    by (intro signed_take_bit_int_eq_self)
  then have "sint w = uint w" by (simp only: sint_uint One_nat_def)
  then show ?thesis by (simp only: uint_nat)
qed

lemma unat_u16_u32: "unat (ucast (n :: u16) :: u32) = unat n"
proof -
  have "unat n < 65536" using unsigned_less [of n, where ?'a = nat] by simp
  then show ?thesis by (simp add: unsigned_ucast_eq take_bit_nat_eq_self)
qed

lemma unat_word_of_nat_byte [simp]: "n < 256 \<Longrightarrow> unat (word_of_nat n :: byte) = n"
  by (simp add: unat_of_nat)

lemma le_val_bound: "le_val bs < 256 ^ length bs"
proof (induction bs)
  case (Cons b bs)
  have "le_val bs + 1 \<le> 256 ^ length bs" using Cons.IH by simp
  then have "256 * (le_val bs + 1) \<le> 256 * 256 ^ length bs" by (rule mult_le_mono2)
  moreover have "unat b < 256" by (rule unat_byte_bound)
  ultimately show ?case by (simp, linarith)
qed simp

lemma le_val_le_bytes: "le_val (le_bytes k n) = n mod 256 ^ k"
  by (induction k arbitrary: n) (simp_all add: mod_mult2_eq)

lemma le_bytes_le_val: "le_bytes (length bs) (le_val bs) = bs"
  by (induction bs) simp_all

text \<open>Reading an unsigned integer of 1, 2, 4 or 8 bytes at an offset of a buffer.\<close>

definition get_le :: "nat \<Rightarrow> byte list \<Rightarrow> nat \<Rightarrow> nat res" where
  "get_le k buf off =
     (if off + k \<le> length buf then Inr (le_val (bslice off k buf)) else Inl OutOfBounds)"

definition get8 :: "byte list \<Rightarrow> nat \<Rightarrow> byte res" where
  "get8 buf off = buf_at buf off"

definition get16 :: "byte list \<Rightarrow> nat \<Rightarrow> u16 res" where
  "get16 buf off = bindE (get_le 2 buf off) (\<lambda>n. Inr (word_of_nat n))"

definition get32 :: "byte list \<Rightarrow> nat \<Rightarrow> u32 res" where
  "get32 buf off = bindE (get_le 4 buf off) (\<lambda>n. Inr (word_of_nat n))"

definition get64 :: "byte list \<Rightarrow> nat \<Rightarrow> u64 res" where
  "get64 buf off = bindE (get_le 8 buf off) (\<lambda>n. Inr (word_of_nat n))"

lemma get_le_at:
  "off = length xs \<Longrightarrow> k = length bs \<Longrightarrow> get_le k (xs @ bs @ ys) off = Inr (le_val bs)"
  by (simp add: get_le_def bslice_append_right)

lemma get_le_bslice:
  "i + k \<le> n \<Longrightarrow> off + n \<le> length buf \<Longrightarrow>
   get_le k (bslice off n buf) i = get_le k buf (off + i)"
  by (simp add: get_le_def bslice_bslice)

text \<open>A C string: the characters up to the first NUL of the buffer.\<close>

definition char_of_byte :: "byte \<Rightarrow> char" where
  "char_of_byte b = char_of (unat b)"

definition cstr_at :: "byte list \<Rightarrow> nat \<Rightarrow> string res" where
  "cstr_at buf off =
     (if 0 \<in> set (drop off buf)
      then Inr (map char_of_byte (takeWhile (\<lambda>b. b \<noteq> 0) (drop off buf)))
      else Inl OutOfBounds)"

lemma cstr_at_ok: "0 \<in> set (drop off buf) \<Longrightarrow> \<exists>s. cstr_at buf off = Inr s"
  by (simp add: cstr_at_def)

lemma cstr_at_beyond: "length buf \<le> off \<Longrightarrow> cstr_at buf off = Inl OutOfBounds"
  by (simp add: cstr_at_def)

end
