(* ===== verification/CFormat.thy ===== *)
theory CFormat
  imports CBase
begin

text \<open>
  The conversions of the \<open>printf\<close> family. \<open>vsprintf fmt args\<close> is the text that
  the C function writes for the format string \<open>fmt\<close>: flags \<open>0\<close> and blank, a
  decimal field width, the length modifier \<open>l\<close>, and the conversions
  \<open>x X d u s c\<close>, which are the ones the sources use. A conversion without an
  argument, or with one of the wrong kind, is undefined behaviour and gives a fault. An
  integer argument of the other size is read by its low bits, as the calling convention
  of the modelled machine passes it.
\<close>

subsection \<open>Digits\<close>

definition hexd :: "nat \<Rightarrow> char" where
  "hexd n = (if n < 10 then char_of (48 + n) else char_of (87 + n))"

definition hexD :: "nat \<Rightarrow> char" where
  "hexD n = (if n < 10 then char_of (48 + n) else char_of (55 + n))"

definition hexval :: "char \<Rightarrow> nat" where
  "hexval c = (let n = of_char c in
     if 48 \<le> n \<and> n < 58 then n - 48 else if 97 \<le> n \<and> n < 103 then n - 87 else n - 55)"

fun digits :: "(nat \<Rightarrow> char) \<Rightarrow> nat \<Rightarrow> nat \<Rightarrow> string" where
  "digits d base n =
     (if n < base \<or> base < 2 then [d n] else digits d base (n div base) @ [d (n mod base)])"

declare digits.simps [simp del]

abbreviation hexn :: "nat \<Rightarrow> string" where "hexn \<equiv> digits hexd 16"
abbreviation hexN :: "nat \<Rightarrow> string" where "hexN \<equiv> digits hexD 16"
abbreviation decn :: "nat \<Rightarrow> string" where "decn \<equiv> digits hexd 10"

definition deci :: "int \<Rightarrow> string" where
  "deci i = (if i < 0 then CHR ''-'' # decn (nat (- i)) else decn (nat i))"

definition pad_left :: "char \<Rightarrow> nat \<Rightarrow> string \<Rightarrow> string" where
  "pad_left c w s = replicate (w - length s) c @ s"

lemma of_char_char_of_nat: "n < 256 \<Longrightarrow> of_char (char_of n) = (n :: nat)"
  by simp

lemma hexval_hexd [simp]: "n < 16 \<Longrightarrow> hexval (hexd n) = n"
  by (simp add: hexval_def hexd_def Let_def)

lemma digits_nonempty [simp]: "digits d base n \<noteq> []"
  by (subst digits.simps) simp

lemma length_digits_bound: "0 < k \<Longrightarrow> 2 \<le> base \<Longrightarrow> n < base ^ k \<Longrightarrow> length (digits d base n) \<le> k"
proof (induction k arbitrary: n)
  case (Suc k)
  show ?case
  proof (cases "n < base")
    case True
    then show ?thesis by (subst digits.simps) simp
  next
    case False
    with Suc.prems have "0 < k" by (cases k) simp_all
    moreover have "n div base < base ^ k"
      using Suc.prems by (simp add: less_mult_imp_div_less mult.commute)
    ultimately have "length (digits d base (n div base)) \<le> k"
      using Suc.IH Suc.prems(2) by blast
    with False Suc.prems(2) show ?thesis by (subst digits.simps) simp
  qed
qed simp

lemma length_digits_lower:
  "base ^ k \<le> n \<Longrightarrow> 2 \<le> base \<Longrightarrow> k < length (digits d base n)"
proof (induction k arbitrary: n)
  case (Suc k)
  have "1 \<le> base ^ k" using Suc.prems(2) by simp
  then have "base * 1 \<le> base * base ^ k" by (rule mult_le_mono2)
  then have "\<not> n < base" using Suc.prems(1) unfolding power_Suc by linarith
  moreover have "base ^ k \<le> n div base"
    using Suc.prems by (simp add: less_eq_div_iff_mult_less_eq mult.commute)
  then have "k < length (digits d base (n div base))" using Suc by blast
  ultimately show ?case using Suc.prems(2) by (subst digits.simps) simp
qed simp

text \<open>The value of a hexadecimal numeral, and the round trip of printing one.\<close>

definition hex_val :: "string \<Rightarrow> nat" where
  "hex_val s = foldl (\<lambda>v c. 16 * v + hexval c) 0 s"

lemma hex_val_snoc: "hex_val (s @ [c]) = 16 * hex_val s + hexval c"
  by (simp add: hex_val_def)

lemma hex_val_hexn [simp]: "hex_val (hexn n) = n"
proof (induction n rule: less_induct)
  case (less n)
  show ?case
  proof (cases "n < 16")
    case True
    then show ?thesis by (subst digits.simps) (simp add: hex_val_def)
  next
    case False
    then have "hex_val (hexn (n div 16)) = n div 16" using less by simp
    with False show ?thesis by (subst digits.simps) (simp add: hex_val_snoc)
  qed
qed

lemma hexval_zero [simp]: "hexval CHR ''0'' = 0"
  by (simp add: hexval_def)

lemma hex_val_pad [simp]: "hex_val (pad_left CHR ''0'' w s) = hex_val s"
proof -
  have "foldl (\<lambda>v c. 16 * v + hexval c) 0 (replicate k CHR ''0'') = 0" for k
    by (induction k) simp_all
  then show ?thesis by (simp add: pad_left_def hex_val_def)
qed

lemma length_pad_left: "length (pad_left c w s) = max w (length s)"
  by (simp add: pad_left_def)

subsection \<open>Format strings\<close>

datatype carg = AInt u32 | ALong u64 | AStr string

fun arg_u :: "bool \<Rightarrow> carg \<Rightarrow> nat res" where
  "arg_u l (AInt w) = Inr (unat w)"
| "arg_u l (ALong w) = Inr (if l then unat w else unat (ucast w :: u32))"
| "arg_u l (AStr s) = Inl UninitRead"

fun arg_s :: "bool \<Rightarrow> carg \<Rightarrow> int res" where
  "arg_s l (AInt w) = Inr (sint w)"
| "arg_s l (ALong w) = Inr (if l then sint w else sint (ucast w :: u32))"
| "arg_s l (AStr s) = Inl UninitRead"

fun arg_str :: "carg \<Rightarrow> string res" where
  "arg_str (AStr s) = Inr s"
| "arg_str _ = Inl UninitRead"

definition convert :: "bool \<Rightarrow> nat \<Rightarrow> bool \<Rightarrow> char \<Rightarrow> carg \<Rightarrow> string res" where
  "convert zero w l c a =
     (let pad = pad_left (if zero then CHR ''0'' else CHR '' '') w in
      if c = CHR ''x'' then bindE (arg_u l a) (\<lambda>n. Inr (pad (hexn n)))
      else if c = CHR ''X'' then bindE (arg_u l a) (\<lambda>n. Inr (pad (hexN n)))
      else if c = CHR ''u'' then bindE (arg_u l a) (\<lambda>n. Inr (pad (decn n)))
      else if c = CHR ''d'' then bindE (arg_s l a) (\<lambda>i. Inr (pad (deci i)))
      else if c = CHR ''c'' then bindE (arg_u l a) (\<lambda>n. Inr (pad [char_of n]))
      else if c = CHR ''s'' then bindE (arg_str a) (\<lambda>s. Inr (pad_left CHR '' '' w s))
      else Inl UninitRead)"

definition is_dig :: "char \<Rightarrow> bool" where
  "is_dig c = (c \<in> set ''0123456789'')"

definition dec_of :: "string \<Rightarrow> nat" where
  "dec_of s = foldl (\<lambda>v c. 10 * v + (of_char c - 48)) 0 s"

text \<open>
  \<open>split_spec cs\<close> reads a conversion specification after its percent sign: is the zero
  flag set, the field width, is there a length modifier, and what follows, which starts
  with the conversion character.
\<close>

definition split_spec :: "string \<Rightarrow> bool \<times> nat \<times> bool \<times> string" where
  "split_spec cs =
     (let cs1 = dropWhile (\<lambda>c. c = CHR '' '') cs;
          ds = takeWhile is_dig cs1; cs2 = dropWhile is_dig cs1;
          cs3 = dropWhile (\<lambda>c. c = CHR ''l'') cs2
      in (take 1 ds = ''0'', dec_of ds, cs3 \<noteq> cs2, cs3))"

lemma split_spec_length: "(z, w, l, c # rest) = split_spec cs \<Longrightarrow> length rest < length cs"
proof -
  assume "(z, w, l, c # rest) = split_spec cs"
  then have "c # rest = dropWhile (\<lambda>c. c = CHR ''l'') (dropWhile is_dig (dropWhile (\<lambda>c. c = CHR '' '') cs))"
    by (simp add: split_spec_def Let_def)
  then have "length (c # rest) \<le> length cs"
    by (metis length_dropWhile_le le_trans)
  then show ?thesis by simp
qed

function vsprintf :: "string \<Rightarrow> carg list \<Rightarrow> string res" where
  "vsprintf [] args = Inr []"
| "vsprintf (c # cs) args =
     (if c \<noteq> CHR ''%'' then bindE (vsprintf cs args) (\<lambda>t. Inr (c # t))
      else (case split_spec cs of (z, w, l, rest) \<Rightarrow>
        (case rest of [] \<Rightarrow> Inl UninitRead
         | k # rest' \<Rightarrow>
           (case args of [] \<Rightarrow> Inl UninitRead
            | a # args' \<Rightarrow>
              bindE (convert z w l k a) (\<lambda>s.
              bindE (vsprintf rest' args') (\<lambda>t. Inr (s @ t)))))))"
  by pat_completeness auto
termination
  by (relation "measure (\<lambda>(fmt, args). length fmt)") (auto dest: split_spec_length)

declare vsprintf.simps(2) [simp del]

lemmas fmt_eval = vsprintf.simps split_spec_def is_dig_def dec_of_def convert_def Let_def

definition NL :: char where "NL = CHR 0x0A"

text \<open>The conversions of the byte dumps, evaluated once for a symbolic argument.\<close>

lemma fmt_plain [fmt_simps]: "CHR ''%'' \<notin> set s \<Longrightarrow> vsprintf s args = Inr s"
  by (induction s) (auto simp: vsprintf.simps)

lemma fmt_02x_blank [fmt_simps]:
  "vsprintf ''%02x '' [AInt w] = Inr (pad_left CHR ''0'' 2 (hexn (unat w)) @ '' '')"
  by (simp add: fmt_eval)

lemma fmt_02x [fmt_simps]: "vsprintf ''%02x'' [AInt w] = Inr (pad_left CHR ''0'' 2 (hexn (unat w)))"
  by (simp add: fmt_eval)

lemma fmt_08x_2blanks [fmt_simps]:
  "vsprintf ''%08x  '' [AInt w] = Inr (pad_left CHR ''0'' 8 (hexn (unat w)) @ ''  '')"
  by (simp add: fmt_eval)

lemma fmt_nl_08x_2blanks [fmt_simps]:
  "vsprintf ''\<newline>%08x  '' [AInt w] = Inr (NL # pad_left CHR ''0'' 8 (hexn (unat w)) @ ''  '')"
  by (simp add: fmt_eval NL_def)

lemma fmt_s [fmt_simps]: "vsprintf ''%s'' [AStr s] = Inr s"
  by (simp add: fmt_eval pad_left_def)

lemma fmt_s_nl [fmt_simps]: "vsprintf ''%s\<newline>'' [AStr s] = Inr (s @ [NL])"
  by (simp add: fmt_eval pad_left_def NL_def)

end
