(* ===== verification/Posix.thy ===== *)
theory Posix
  imports CFormat
begin

text \<open>
  The part of the operating system that the tools call, as explicit state: files,
  the table of file descriptors, the two output streams and the heap. Also the monad of
  fallible computations on that state. A heap object is identified by a number, so that
  the models can say which objects are still allocated; what is in it is the value that
  the models pass around, since the tools never change a buffer after filling it.

  What is modelled of POSIX: \<open>open\<close> gives the lowest free descriptor or \<open>-1\<close>;
  \<open>lseek\<close> refuses a negative position and nothing else; \<open>read\<close> and \<open>pread\<close>
  stop at the end of the file and nowhere else (regular files); \<open>pwrite\<close> and
  \<open>write\<close> past the end fill the gap with zeros; \<open>malloc\<close> fails for requests
  above \<open>avail\<close>.
\<close>

named_theorems sm_simps \<open>rewrite rules for stateful computations\<close>

subsection \<open>State\<close>

record os =
  files :: "string \<Rightarrow> byte list option"
  fdt :: "(string \<times> nat) option list"   \<comment> \<open>open descriptors: path and position\<close>
  avail :: nat
  live :: "nat list"                        \<comment> \<open>heap objects allocated and not freed\<close>
  fresh :: nat
  outs :: string                            \<comment> \<open>what was written to stdout\<close>
  errs :: string                            \<comment> \<open>what was written to stderr\<close>

type_synonym ('a, 's) st = "'s \<Rightarrow> ('a \<times> 's) res"
type_synonym 'a sm = "('a, os) st"

definition returnS :: "'a \<Rightarrow> ('a, 's) st" where "returnS x s = Inr (x, s)"

definition bindS :: "('a, 's) st \<Rightarrow> ('a \<Rightarrow> ('b, 's) st) \<Rightarrow> ('b, 's) st" where
  "bindS m f s = bindE (m s) (\<lambda>(x, s'). f x s')"

definition liftS :: "'a res \<Rightarrow> ('a, 's) st" where
  "liftS r s = bindE r (\<lambda>x. Inr (x, s))"

lemma bindS_returnS [simp, sm_simps]: "bindS (returnS x) f = f x"
  by (rule ext) (simp add: bindS_def returnS_def)

lemma bindS_assoc: "bindS (bindS m f) g = bindS m (\<lambda>x. bindS (f x) g)"
  by (rule ext) (simp add: bindS_def bindE_assoc case_prod_unfold)

lemma liftS_simps [simp, sm_simps]:
  "liftS (Inr x) = returnS x"
  "liftS (Inl e) s = Inl e"
  by (auto simp: liftS_def returnS_def)

lemma bindS_Inr: "m s = Inr (x, s') \<Longrightarrow> bindS m f s = f x s'"
  by (simp add: bindS_def)

lemma bindS_Inl: "m s = Inl e \<Longrightarrow> bindS m f s = Inl e"
  by (simp add: bindS_def)

lemma returnS_apply: "returnS x s = Inr (x, s)"
  by (simp add: returnS_def)

subsection \<open>Output\<close>

definition put_out :: "string \<Rightarrow> unit sm" where
  "put_out t s = Inr ((), s\<lparr>outs := outs s @ t\<rparr>)"

definition put_err :: "string \<Rightarrow> unit sm" where
  "put_err t s = Inr ((), s\<lparr>errs := errs s @ t\<rparr>)"

definition printf :: "string \<Rightarrow> carg list \<Rightarrow> unit sm" where
  "printf fmt args = bindS (liftS (vsprintf fmt args)) put_out"

definition eprintf :: "string \<Rightarrow> carg list \<Rightarrow> unit sm" where
  "eprintf fmt args = bindS (liftS (vsprintf fmt args)) put_err"

lemma printf_text: "vsprintf fmt args = Inr t \<Longrightarrow> printf fmt args s = Inr ((), s\<lparr>outs := outs s @ t\<rparr>)"
  by (simp add: printf_def put_out_def)

lemma eprintf_text: "vsprintf fmt args = Inr t \<Longrightarrow> eprintf fmt args s = Inr ((), s\<lparr>errs := errs s @ t\<rparr>)"
  by (simp add: eprintf_def put_err_def)

subsection \<open>Descriptors\<close>

fun lowest_free :: "'a option list \<Rightarrow> nat" where
  "lowest_free (Some x # xs) = Suc (lowest_free xs)"
| "lowest_free _ = 0"

definition set_slot :: "'a option list \<Rightarrow> nat \<Rightarrow> 'a option \<Rightarrow> 'a option list" where
  "set_slot xs i v = (if i < length xs then xs[i := v] else xs @ [v])"

definition fd_lookup :: "int \<Rightarrow> os \<Rightarrow> (string \<times> nat) option" where
  "fd_lookup fd s = (if 0 \<le> fd \<and> nat fd < length (fdt s) then fdt s ! nat fd else None)"

lemma lowest_free_bound: "lowest_free xs \<le> length xs"
  by (induction xs rule: lowest_free.induct) simp_all

lemma lowest_free_None: "lowest_free xs < length xs \<Longrightarrow> xs ! lowest_free xs = None"
  by (induction xs rule: lowest_free.induct) auto

lemma lowest_free_below: "i < lowest_free xs \<Longrightarrow> xs ! i \<noteq> None"
  by (induction xs arbitrary: i rule: lowest_free.induct) (auto simp: nth_Cons split: nat.splits)

lemma set_slot_lowest:
  "lowest_free xs < length (set_slot xs (lowest_free xs) v) \<and> set_slot xs (lowest_free xs) v ! lowest_free xs = v"
  using lowest_free_bound [of xs] by (auto simp: set_slot_def nth_append le_less)

definition sys_open :: "string \<Rightarrow> int sm" where
  "sys_open path s =
     (case files s path of
        None \<Rightarrow> Inr (- 1, s)
      | Some d \<Rightarrow> Inr (int (lowest_free (fdt s)),
          s\<lparr>fdt := set_slot (fdt s) (lowest_free (fdt s)) (Some (path, 0))\<rparr>))"

definition sys_close :: "int \<Rightarrow> int sm" where
  "sys_close fd s =
     (case fd_lookup fd s of
        None \<Rightarrow> Inr (- 1, s)
      | Some _ \<Rightarrow> Inr (0, s\<lparr>fdt := (fdt s)[nat fd := None]\<rparr>))"

definition sys_lseek :: "int \<Rightarrow> int \<Rightarrow> int sm" where
  "sys_lseek fd off s =
     (case fd_lookup fd s of
        None \<Rightarrow> Inr (- 1, s)
      | Some (path, pos) \<Rightarrow>
          if off < 0 then Inr (- 1, s)
          else Inr (off, s\<lparr>fdt := (fdt s)[nat fd := Some (path, nat off)]\<rparr>))"

text \<open>The contents behind a descriptor.\<close>

definition fd_data :: "int \<Rightarrow> os \<Rightarrow> byte list option" where
  "fd_data fd s = (case fd_lookup fd s of None \<Rightarrow> None | Some (path, pos) \<Rightarrow> files s path)"

text \<open>\<open>read\<close> gives the bytes read, or \<open>None\<close> for a result of \<open>-1\<close>.\<close>

definition sys_read :: "int \<Rightarrow> nat \<Rightarrow> byte list option sm" where
  "sys_read fd n s =
     (case fd_lookup fd s of
        None \<Rightarrow> Inr (None, s)
      | Some (path, pos) \<Rightarrow>
          (case files s path of
             None \<Rightarrow> Inr (None, s)
           | Some d \<Rightarrow> let bs = bslice pos n d in
               Inr (Some bs, s\<lparr>fdt := (fdt s)[nat fd := Some (path, pos + length bs)]\<rparr>)))"

definition sys_pread :: "int \<Rightarrow> nat \<Rightarrow> int \<Rightarrow> byte list option sm" where
  "sys_pread fd n off s =
     (if off < 0 then Inr (None, s)
      else (case fd_data fd s of None \<Rightarrow> Inr (None, s) | Some d \<Rightarrow> Inr (Some (bslice (nat off) n d), s)))"

definition file_write :: "nat \<Rightarrow> byte list \<Rightarrow> byte list \<Rightarrow> byte list" where
  "file_write off bs d =
     take off (d @ replicate (off - length d) 0) @ bs @ drop (off + length bs) d"

text \<open>\<open>pwrite\<close> and \<open>write\<close> give the number of bytes written or \<open>-1\<close>.\<close>

definition sys_pwrite :: "int \<Rightarrow> byte list \<Rightarrow> int \<Rightarrow> int sm" where
  "sys_pwrite fd bs off s =
     (if off < 0 then Inr (- 1, s)
      else (case fd_lookup fd s of None \<Rightarrow> Inr (- 1, s) | Some (path, pos) \<Rightarrow>
        (case files s path of None \<Rightarrow> Inr (- 1, s) | Some d \<Rightarrow>
           Inr (int (length bs), s\<lparr>files := (files s)(path \<mapsto> file_write (nat off) bs d)\<rparr>))))"

definition sys_write :: "int \<Rightarrow> byte list \<Rightarrow> int sm" where
  "sys_write fd bs s =
     (case fd_lookup fd s of None \<Rightarrow> Inr (- 1, s) | Some (path, pos) \<Rightarrow>
        (case files s path of None \<Rightarrow> Inr (- 1, s) | Some d \<Rightarrow>
           Inr (int (length bs), s\<lparr>files := (files s)(path \<mapsto> file_write pos bs d),
             fdt := (fdt s)[nat fd := Some (path, pos + length bs)]\<rparr>)))"

subsection \<open>The heap\<close>

text \<open>\<open>malloc\<close> takes a \<open>size_t\<close>: a negative \<open>int\<close> becomes a huge request.\<close>

definition size_arg :: "int \<Rightarrow> nat" where
  "size_arg n = nat (n mod 18446744073709551616)"

definition sys_malloc :: "int \<Rightarrow> nat option sm" where
  "sys_malloc n s =
     (if size_arg n \<le> avail s then Inr (Some (fresh s), s\<lparr>live := fresh s # live s, fresh := Suc (fresh s)\<rparr>)
      else Inr (None, s))"

definition sys_free :: "nat \<Rightarrow> unit sm" where
  "sys_free p s = (if p \<in> set (live s) then Inr ((), s\<lparr>live := remove1 p (live s)\<rparr>) else Inl BadFree)"

lemma size_arg_nonneg: "0 \<le> n \<Longrightarrow> n < 2147483648 \<Longrightarrow> size_arg n = nat n"
  by (simp add: size_arg_def)

lemma size_arg_neg: "n < 0 \<Longrightarrow> - 2147483648 \<le> n \<Longrightarrow> 18446744071562067968 \<le> size_arg n"
proof -
  assume "n < 0" "- 2147483648 \<le> n"
  then have "n mod 18446744073709551616 = n + 18446744073709551616"
    using mod_add_self2 [of n 18446744073709551616]
      mod_pos_pos_trivial [of "n + 18446744073709551616" 18446744073709551616] by linarith
  then show ?thesis using \<open>- 2147483648 \<le> n\<close> by (simp add: size_arg_def)
qed

subsection \<open>Frame rules of the file operations\<close>

lemma fd_lookup_update:
  "fd_lookup fd s \<noteq> None \<Longrightarrow> fd_lookup fd (s\<lparr>fdt := (fdt s)[nat fd := v]\<rparr>) = v"
  by (auto simp: fd_lookup_def split: if_splits)

lemma length_file_write: "length (file_write off bs d) = max (length d) (off + length bs)"
  by (auto simp: file_write_def)

lemma bslice_file_write: "bslice off (length bs) (file_write off bs d) = bs"
  by (auto simp: bslice_def file_write_def)

lemma nth_file_write:
  "i < length (file_write off bs d) \<Longrightarrow> file_write off bs d ! i =
     (if i < off then (if i < length d then d ! i else 0) else if i < off + length bs then bs ! (i - off) else d ! i)"
proof -
  have "min (length d) off + (off - length d) = off" by simp
  then show "i < length (file_write off bs d) \<Longrightarrow> ?thesis"
    by (auto simp: file_write_def nth_append)
qed

lemma bslice_file_write_before:
  "i + n \<le> off \<Longrightarrow> i + n \<le> length d \<Longrightarrow> bslice i n (file_write off bs d) = bslice i n d"
  by (rule nth_equalityI) (simp_all add: length_file_write nth_bslice nth_file_write)

lemma bslice_file_write_after:
  "off + length bs \<le> i \<Longrightarrow> i + n \<le> length d \<Longrightarrow> bslice i n (file_write off bs d) = bslice i n d"
  by (rule nth_equalityI) (simp_all add: length_file_write nth_bslice nth_file_write)

end
