(* ===== verification/ElfLayout.thy ===== *)
theory ElfLayout
  imports Posix "HOL-Library.Signed_Division"
begin

text \<open>
  The structures of 32-bit ELF files as both tools see them (\<open>Elf32_Ehdr\<close>,
  \<open>Elf32_Shdr\<close>, \<open>Elf32_Sym\<close>, \<open>Elf32_Dyn\<close>, \<open>Elf32_Phdr\<close>): records,
  their layout in a buffer, and the encoding that inverts the decoding. Then the C
  operations on them: access through a pointer into a heap buffer, \<open>strcmp\<close> with a
  string in a table, and arithmetic on \<open>int\<close>.
\<close>

subsection \<open>Structures\<close>

record ehdr =
  e_ident :: "byte list"
  e_type :: u16
  e_machine :: u16
  e_version :: u32
  e_entry :: u32
  e_phoff :: u32
  e_shoff :: u32
  e_flags :: u32
  e_ehsize :: u16
  e_phentsize :: u16
  e_phnum :: u16
  e_shentsize :: u16
  e_shnum :: u16
  e_shstrndx :: u16

record shdr =
  sh_name :: u32
  sh_type :: u32
  sh_flags :: u32
  sh_addr :: u32
  sh_offset :: u32
  sh_size :: u32
  sh_link :: u32
  sh_info :: u32
  sh_addralign :: u32
  sh_entsize :: u32

text \<open>\<open>Elf32_Sym\<close>, quoted in a comment of \<open>elf.c\<close>.\<close>

record elfsym =
  st_name :: u32
  st_value :: u32
  st_size :: u32
  st_info :: byte
  st_other :: byte
  st_shndx :: u16

record elfdyn =
  d_tag :: u32
  d_val :: u32

record phdr =
  p_type :: u32
  p_offset :: u32
  p_vaddr :: u32
  p_paddr :: u32
  p_filesz :: u32
  p_memsz :: u32
  p_flags :: u32
  p_align :: u32

definition EHDR_SIZE :: nat where "EHDR_SIZE = 52"
definition SHDR_SIZE :: nat where "SHDR_SIZE = 40"
definition SYM_SIZE :: nat where "SYM_SIZE = 16"
definition DYN_SIZE :: nat where "DYN_SIZE = 8"
definition PHDR_SIZE :: nat where "PHDR_SIZE = 32"

lemmas elf_sizes = EHDR_SIZE_def SHDR_SIZE_def SYM_SIZE_def DYN_SIZE_def PHDR_SIZE_def

subsection \<open>Decoding\<close>

definition u16_of :: "byte list \<Rightarrow> nat \<Rightarrow> u16" where
  "u16_of b o' = word_of_nat (le_val (bslice o' 2 b))"

definition u32_of :: "byte list \<Rightarrow> nat \<Rightarrow> u32" where
  "u32_of b o' = word_of_nat (le_val (bslice o' 4 b))"

definition ehdr_of :: "byte list \<Rightarrow> nat \<Rightarrow> ehdr" where
  "ehdr_of b k =
     \<lparr>e_ident = bslice k 16 b, e_type = u16_of b (k + 16), e_machine = u16_of b (k + 18),
      e_version = u32_of b (k + 20), e_entry = u32_of b (k + 24), e_phoff = u32_of b (k + 28),
      e_shoff = u32_of b (k + 32), e_flags = u32_of b (k + 36), e_ehsize = u16_of b (k + 40),
      e_phentsize = u16_of b (k + 42), e_phnum = u16_of b (k + 44), e_shentsize = u16_of b (k + 46),
      e_shnum = u16_of b (k + 48), e_shstrndx = u16_of b (k + 50)\<rparr>"

definition shdr_of :: "byte list \<Rightarrow> nat \<Rightarrow> shdr" where
  "shdr_of b k =
     \<lparr>sh_name = u32_of b k, sh_type = u32_of b (k + 4), sh_flags = u32_of b (k + 8),
      sh_addr = u32_of b (k + 12), sh_offset = u32_of b (k + 16), sh_size = u32_of b (k + 20),
      sh_link = u32_of b (k + 24), sh_info = u32_of b (k + 28), sh_addralign = u32_of b (k + 32),
      sh_entsize = u32_of b (k + 36)\<rparr>"

definition sym_of :: "byte list \<Rightarrow> nat \<Rightarrow> elfsym" where
  "sym_of b k =
     \<lparr>st_name = u32_of b k, st_value = u32_of b (k + 4), st_size = u32_of b (k + 8),
      st_info = b ! (k + 12), st_other = b ! (k + 13), st_shndx = u16_of b (k + 14)\<rparr>"

definition dyn_of :: "byte list \<Rightarrow> nat \<Rightarrow> elfdyn" where
  "dyn_of b k = \<lparr>d_tag = u32_of b k, d_val = u32_of b (k + 4)\<rparr>"

definition phdr_of :: "byte list \<Rightarrow> nat \<Rightarrow> phdr" where
  "phdr_of b k =
     \<lparr>p_type = u32_of b k, p_offset = u32_of b (k + 4), p_vaddr = u32_of b (k + 8),
      p_paddr = u32_of b (k + 12), p_filesz = u32_of b (k + 16), p_memsz = u32_of b (k + 20),
      p_flags = u32_of b (k + 24), p_align = u32_of b (k + 28)\<rparr>"

text \<open>Access through a pointer at a byte position of a buffer: the structure must be inside.\<close>

definition struct_at :: "nat \<Rightarrow> (byte list \<Rightarrow> nat \<Rightarrow> 'r) \<Rightarrow> byte list \<Rightarrow> nat \<Rightarrow> 'r res" where
  "struct_at n f b k = (if k + n \<le> length b then Inr (f b k) else Inl OutOfBounds)"

abbreviation ehdr_at :: "byte list \<Rightarrow> nat \<Rightarrow> ehdr res" where "ehdr_at \<equiv> struct_at EHDR_SIZE ehdr_of"
abbreviation shdr_at :: "byte list \<Rightarrow> nat \<Rightarrow> shdr res" where "shdr_at \<equiv> struct_at SHDR_SIZE shdr_of"
abbreviation sym_at :: "byte list \<Rightarrow> nat \<Rightarrow> elfsym res" where "sym_at \<equiv> struct_at SYM_SIZE sym_of"
abbreviation dyn_at :: "byte list \<Rightarrow> nat \<Rightarrow> elfdyn res" where "dyn_at \<equiv> struct_at DYN_SIZE dyn_of"
abbreviation phdr_at :: "byte list \<Rightarrow> nat \<Rightarrow> phdr res" where "phdr_at \<equiv> struct_at PHDR_SIZE phdr_of"

lemma struct_at_ok [res_simps]: "k + n \<le> length b \<Longrightarrow> struct_at n f b k = Inr (f b k)"
  by (simp add: struct_at_def)

lemma struct_at_out [res_simps]: "length b < k + n \<Longrightarrow> struct_at n f b k = Inl OutOfBounds"
  by (simp add: struct_at_def)

lemma u32_of_bslice: "i + 4 \<le> n \<Longrightarrow> u32_of (bslice off n b) i = u32_of b (off + i)"
  by (simp add: u32_of_def bslice_bslice)

lemma u16_of_bslice: "i + 2 \<le> n \<Longrightarrow> u16_of (bslice off n b) i = u16_of b (off + i)"
  by (simp add: u16_of_def bslice_bslice)

lemma shdr_of_bslice: "i + 40 \<le> n \<Longrightarrow> shdr_of (bslice off n b) i = shdr_of b (off + i)"
  by (simp add: shdr_of_def u32_of_bslice add.assoc)

lemma ehdr_of_bslice: "i + 52 \<le> n \<Longrightarrow> ehdr_of (bslice off n b) i = ehdr_of b (off + i)"
  by (simp add: ehdr_of_def u32_of_bslice u16_of_bslice bslice_bslice add.assoc)

subsection \<open>Encoding\<close>

definition enc16 :: "u16 \<Rightarrow> byte list" where "enc16 w = le_bytes 2 (unat w)"
definition enc32 :: "u32 \<Rightarrow> byte list" where "enc32 w = le_bytes 4 (unat w)"

definition enc_ehdr :: "ehdr \<Rightarrow> byte list" where
  "enc_ehdr h = e_ident h @ enc16 (e_type h) @ enc16 (e_machine h) @ enc32 (e_version h) @ enc32 (e_entry h) @
     enc32 (e_phoff h) @ enc32 (e_shoff h) @ enc32 (e_flags h) @ enc16 (e_ehsize h) @ enc16 (e_phentsize h) @
     enc16 (e_phnum h) @ enc16 (e_shentsize h) @ enc16 (e_shnum h) @ enc16 (e_shstrndx h)"

definition enc_shdr :: "shdr \<Rightarrow> byte list" where
  "enc_shdr h = enc32 (sh_name h) @ enc32 (sh_type h) @ enc32 (sh_flags h) @ enc32 (sh_addr h) @
     enc32 (sh_offset h) @ enc32 (sh_size h) @ enc32 (sh_link h) @ enc32 (sh_info h) @
     enc32 (sh_addralign h) @ enc32 (sh_entsize h)"

definition enc_sym :: "elfsym \<Rightarrow> byte list" where
  "enc_sym s = enc32 (st_name s) @ enc32 (st_value s) @ enc32 (st_size s) @ [st_info s, st_other s] @
     enc16 (st_shndx s)"

definition enc_dyn :: "elfdyn \<Rightarrow> byte list" where
  "enc_dyn d = enc32 (d_tag d) @ enc32 (d_val d)"

lemma length_enc [simp]: "length (enc16 w) = 2" "length (enc32 v) = 4"
  by (simp_all add: enc16_def enc32_def)

lemma bslice_skip [simp]: "length xs \<le> k \<Longrightarrow> bslice k n (xs @ ys) = bslice (k - length xs) n ys"
  by (simp add: bslice_def)

lemma u32_of_enc: "u32_of (enc32 w @ ys) 0 = w"
proof -
  have "unat w < 256 ^ 4" using unat_u32_bound [of w] by simp
  then have "le_val (enc32 w) = unat w" by (simp add: enc32_def le_val_le_bytes)
  moreover have "bslice 0 4 (enc32 w @ ys) = enc32 w" by (simp add: bslice_def)
  ultimately show ?thesis by (simp add: u32_of_def)
qed

lemma u16_of_enc: "u16_of (enc16 w @ ys) 0 = w"
proof -
  have "unat w < 256 ^ 2" using unsigned_less [of w, where ?'a = nat] by simp
  then have "le_val (enc16 w) = unat w" by (simp add: enc16_def le_val_le_bytes)
  moreover have "bslice 0 2 (enc16 w @ ys) = enc16 w" by (simp add: bslice_def)
  ultimately show ?thesis by (simp add: u16_of_def)
qed

lemma u32_of_skip: "length xs \<le> k \<Longrightarrow> u32_of (xs @ ys) k = u32_of ys (k - length xs)"
  by (simp add: u32_of_def)

lemma u16_of_skip: "length xs \<le> k \<Longrightarrow> u16_of (xs @ ys) k = u16_of ys (k - length xs)"
  by (simp add: u16_of_def)

lemmas enc_dec = u32_of_enc u16_of_enc u32_of_skip u16_of_skip
  u32_of_enc [of _ "[]", simplified] u16_of_enc [of _ "[]", simplified]

lemma shdr_of_enc: "k = length xs \<Longrightarrow> shdr_of (xs @ enc_shdr h @ ys) k = h"
  by (simp add: shdr_of_def enc_shdr_def enc_dec)

lemma ehdr_of_enc: "length (e_ident h) = 16 \<Longrightarrow> k = length xs \<Longrightarrow> ehdr_of (xs @ enc_ehdr h @ ys) k = h"
  by (simp add: ehdr_of_def enc_ehdr_def enc_dec) (simp add: bslice_def)

lemma sym_of_enc: "k = length xs \<Longrightarrow> sym_of (xs @ enc_sym s @ ys) k = s"
  using u16_of_skip [of "[st_info s, st_other s]" 2 "enc16 (st_shndx s) @ ys"]
  by (simp add: sym_of_def enc_sym_def enc_dec nth_append)

lemma dyn_of_enc: "k = length xs \<Longrightarrow> dyn_of (xs @ enc_dyn d @ ys) k = d"
  by (simp add: dyn_of_def enc_dyn_def enc_dec)

subsection \<open>Heap buffers\<close>

text \<open>A pointer to the start of a heap object: its identity and what is in it, or null.\<close>

type_synonym heapbuf = "(nat \<times> byte list) option"

definition in_buf :: "(byte list \<Rightarrow> nat \<Rightarrow> 'r res) \<Rightarrow> heapbuf \<Rightarrow> nat \<Rightarrow> 'r res" where
  "in_buf f p k = bindE (deref p) (\<lambda>(q, b). f b k)"

lemma in_buf_simps [simp, res_simps]:
  "in_buf f None k = Inl NullDeref"
  "in_buf f (Some (q, b)) k = f b k"
  by (simp_all add: in_buf_def)

subsection \<open>C strings\<close>

text \<open>
  \<open>strcmp_at buf i s\<close>: does \<open>strcmp\<close> of the string at \<open>buf + i\<close> with \<open>s\<close> give 0?
  It reads up to the first difference.
\<close>

primrec strcmp_at :: "string \<Rightarrow> byte list \<Rightarrow> nat \<Rightarrow> bool res" where
  "strcmp_at [] buf i = bindE (buf_at buf i) (\<lambda>b. Inr (b = 0))"
| "strcmp_at (c # cs) buf i =
     bindE (buf_at buf i) (\<lambda>b. if char_of_byte b = c then strcmp_at cs buf (i + 1) else Inr False)"

lemma cstr_at_step:
  "i < length buf \<Longrightarrow> cstr_at buf i =
     (if buf ! i = 0 then Inr [] else bindE (cstr_at buf (i + 1)) (\<lambda>s. Inr (char_of_byte (buf ! i) # s)))"
  by (subst cstr_at_def) (simp add: cstr_at_def Cons_nth_drop_Suc [symmetric] del: Cons_nth_drop_Suc)

lemma char_of_byte_NUL: "char_of_byte b = CHR 0x00 \<longleftrightarrow> b = 0"
proof
  assume "char_of_byte b = CHR 0x00"
  then have "of_char (char_of_byte b) = (0 :: nat)" by simp
  then have "unat b mod 256 = 0" by (simp add: char_of_byte_def)
  then show "b = 0" by (simp add: unat_eq_0 [symmetric])
next
  show "b = 0 \<Longrightarrow> char_of_byte b = CHR 0x00" by (simp add: char_of_byte_def) code_simp
qed

lemma strcmp_at_cstr:
  assumes "cstr_at buf i = Inr s" and "CHR 0x00 \<notin> set name"
  shows "strcmp_at name buf i = Inr (s = name)"
  using assms
proof (induction name arbitrary: i s)
  case Nil
  then have i: "i < length buf" using cstr_at_beyond [of buf i] by (cases "i < length buf") auto
  then show ?case using Nil cstr_at_step [OF i]
    by (auto simp: buf_at_def bindE_eq_Inr split: if_splits)
next
  case (Cons c cs)
  then have i: "i < length buf" using cstr_at_beyond [of buf i] by (cases "i < length buf") auto
  then show ?case using Cons cstr_at_step [OF i] char_of_byte_NUL [of "buf ! i"]
    by (auto simp: buf_at_def bindE_eq_Inr split: if_splits)
qed

subsection \<open>Arithmetic on \<open>int\<close>\<close>

definition INT_OK :: "int \<Rightarrow> bool" where
  "INT_OK n = (- 2147483648 \<le> n \<and> n < 2147483648)"

definition int_res :: "int \<Rightarrow> int res" where
  "int_res n = (if INT_OK n then Inr n else Inl SignedOverflow)"

definition int_div :: "int \<Rightarrow> int \<Rightarrow> int res" where
  "int_div a b = (if b = 0 then Inl DivByZero else int_res (a sdiv b))"

text \<open>The value of an \<open>int\<close> that is assigned a \<open>uint32_t\<close> or a \<open>uint16_t\<close>.\<close>

abbreviation i32 :: "u32 \<Rightarrow> int" where "i32 w \<equiv> sint w"
abbreviation i16 :: "u16 \<Rightarrow> int" where "i16 w \<equiv> uint w"

lemma int_res_ok [res_simps]: "INT_OK n \<Longrightarrow> int_res n = Inr n"
  by (simp add: int_res_def)

lemma INT_OK_i32: "INT_OK (i32 w)"
  using sint_range_size [of w] by (simp add: INT_OK_def word_size)

end
