(* ===== verification/ElfReader.thy ===== *)
theory ElfReader
  imports ElfLayout
begin

text \<open>
  The contract of the two functions called \<open>elf_file_read\<close> (\<open>elfdig.c\<close>,
  \<open>elf.c\<close>), as a locale: a read inside the file gives a new heap object with exactly
  that part of the file, a read that leaves the file gives a null pointer and leaves the
  object it has allocated behind. The clients' lemmas on runs of reads are proved here once.
\<close>

subsection \<open>Allocation traces\<close>

text \<open>\<open>allocated n s s'\<close>: between the two states n objects were allocated, in order, and nothing else is seen.\<close>

definition same_but_heap :: "os \<Rightarrow> os \<Rightarrow> bool" where
  "same_but_heap s s' = (outs s' = outs s \<and> errs s' = errs s \<and> avail s' = avail s \<and> files s' = files s)"

definition allocated :: "nat \<Rightarrow> os \<Rightarrow> os \<Rightarrow> bool" where
  "allocated n s s' = (fresh s' = fresh s + n \<and> live s' = rev [fresh s..<fresh s + n] @ live s \<and> same_but_heap s s')"

lemma allocated_0: "allocated 0 s s"
  by (simp add: allocated_def same_but_heap_def)

lemma allocated_trans: "allocated m s s1 \<Longrightarrow> allocated n s1 s2 \<Longrightarrow> allocated (m + n) s s2"
  using upt_add_eq_append [of "fresh s" "fresh s + m" n]
  by (simp add: allocated_def same_but_heap_def add.assoc)

lemma allocated_Suc: "allocated 1 s s1 \<Longrightarrow> allocated n s1 s2 \<Longrightarrow> allocated (Suc n) s s2"
  using allocated_trans [of 1 s s1 n s2] by simp

subsection \<open>The interface\<close>

definition in_file :: "byte list \<Rightarrow> int \<Rightarrow> int \<Rightarrow> bool" where
  "in_file d off n = (0 \<le> off \<and> 0 \<le> n \<and> off + n \<le> int (length d))"

definition slice_of :: "byte list \<Rightarrow> int \<Rightarrow> int \<Rightarrow> byte list" where
  "slice_of d off n = bslice (nat off) (nat n) d"

lemma length_slice_of [simp]: "in_file d off n \<Longrightarrow> length (slice_of d off n) = nat n"
  by (auto simp: in_file_def slice_of_def bslice_def)

lemma slice_of_nat: "slice_of d (int off) (int n) = bslice off n d"
  by (simp add: slice_of_def)

lemma in_file_nat: "in_file d (int off) (int n) \<longleftrightarrow> off + n \<le> length d"
  by (auto simp: in_file_def)

locale file_reader =
  fixes rd :: "int \<Rightarrow> int \<Rightarrow> heapbuf sm"
    and inv :: "byte list \<Rightarrow> os \<Rightarrow> bool"
  assumes rd_slice: "inv d s \<Longrightarrow> in_file d off n \<Longrightarrow>
      \<exists>s'. rd off n s = Inr (Some (fresh s, slice_of d off n), s') \<and> inv d s' \<and> allocated 1 s s'"
    and rd_beyond: "inv d s \<Longrightarrow> 0 \<le> off \<Longrightarrow> off < 2147483648 \<Longrightarrow> 0 < n \<Longrightarrow> n < 2147483648 \<Longrightarrow>
      \<not> in_file d off n \<Longrightarrow> n \<le> int (avail s) \<Longrightarrow>
      \<exists>s'. rd off n s = Inr (None, s') \<and> inv d s' \<and> fresh s \<in> set (live s')"
begin

lemma rd_nat:
  assumes "inv d s" and "off + n \<le> length d"
  shows "\<exists>s'. rd (int off) (int n) s = Inr (Some (fresh s, bslice off n d), s') \<and> inv d s' \<and> allocated 1 s s'"
  using rd_slice [OF assms(1), of "int off" "int n"] assms(2) by (simp only: in_file_nat slice_of_nat)

primrec rd_list :: "(int \<times> int) list \<Rightarrow> heapbuf list sm" where
  "rd_list [] = returnS []"
| "rd_list (p # ps) = bindS (rd (fst p) (snd p)) (\<lambda>b. bindS (rd_list ps) (\<lambda>bs. returnS (b # bs)))"

lemma rd_list_slices:
  assumes "inv d s" and "\<forall>p \<in> set ps. in_file d (fst p) (snd p)"
  shows "\<exists>s'. rd_list ps s =
      Inr (map2 (\<lambda>i p. Some (i, slice_of d (fst p) (snd p))) [fresh s..<fresh s + length ps] ps, s') \<and>
    inv d s' \<and> allocated (length ps) s s'"
  using assms
proof (induction ps arbitrary: s)
  case Nil
  then show ?case by (simp add: returnS_def allocated_0)
next
  case (Cons p ps)
  obtain s1 where s1: "rd (fst p) (snd p) s = Inr (Some (fresh s, slice_of d (fst p) (snd p)), s1)" "inv d s1"
    "allocated 1 s s1"
    using rd_slice [of d s "fst p" "snd p"] Cons.prems by auto
  obtain s2 where s2: "rd_list ps s1 =
      Inr (map2 (\<lambda>i p. Some (i, slice_of d (fst p) (snd p))) [fresh s1..<fresh s1 + length ps] ps, s2)"
    "inv d s2" "allocated (length ps) s1 s2"
    using Cons.IH [OF s1(2)] Cons.prems(2) by auto
  have f1: "fresh s1 = Suc (fresh s)" using s1(3) by (simp add: allocated_def)
  have "[fresh s..<fresh s + length (p # ps)] = fresh s # [Suc (fresh s)..<Suc (fresh s) + length ps]"
    using upt_conv_Cons [of "fresh s" "fresh s + length (p # ps)"] by simp
  then show ?case
    using s1 s2 f1 allocated_Suc [OF s1(3) s2(3)] by (simp add: bindS_def returnS_def)
qed

text \<open>A read that is followed by one that fails: the caller sees null, the objects stay.\<close>

lemma rd_then_beyond:
  assumes "inv d s" and "in_file d off n" and "0 \<le> off'" "off' < 2147483648" "0 < n'" "n' < 2147483648"
    and "\<not> in_file d off' n'" and "n' \<le> int (avail s)"
  shows "\<exists>s1 s2. rd off n s = Inr (Some (fresh s, slice_of d off n), s1) \<and> rd off' n' s1 = Inr (None, s2) \<and>
    fresh s1 \<in> set (live s2)"
proof -
  obtain s1 where s1: "rd off n s = Inr (Some (fresh s, slice_of d off n), s1)" "inv d s1" "allocated 1 s s1"
    using rd_slice [OF assms(1,2)] by auto
  then have "n' \<le> int (avail s1)" using assms(8) by (simp add: allocated_def same_but_heap_def)
  then show ?thesis using rd_beyond [OF s1(2) assms(3-7)] s1(1) by auto
qed

end

subsection \<open>What both providers rely on\<close>

text \<open>The descriptor is open on a regular file with these contents, and memory suffices for a copy.\<close>

definition fd_inv :: "int \<Rightarrow> byte list \<Rightarrow> os \<Rightarrow> bool" where
  "fd_inv f d s = (fd_data f s = Some d \<and> length d \<le> avail s \<and> length d < 2147483648)"

lemma fd_data_seek:
  assumes "fd_data f s = Some d" and "0 \<le> off"
  shows "\<exists>path. sys_lseek f off s = Inr (off, s\<lparr>fdt := (fdt s)[nat f := Some (path, nat off)]\<rparr>) \<and> files s path = Some d \<and>
    fd_lookup f s \<noteq> None"
  using assms by (auto simp: fd_data_def sys_lseek_def split: option.splits)

lemma fd_data_moved:
  "fd_lookup f s \<noteq> None \<Longrightarrow> files s path = Some d \<Longrightarrow>
   fd_data f (s\<lparr>fdt := (fdt s)[nat f := Some (path, p)]\<rparr>) = Some d"
  using fd_lookup_update [of f s "Some (path, p)"] by (simp add: fd_data_def)

lemma seek_read:
  assumes "fd_data f s = Some d" and "0 \<le> off"
  shows "\<exists>s1 s2. sys_lseek f off s = Inr (off, s1) \<and> fd_data f s1 = Some d \<and>
    sys_read f n s1 = Inr (Some (bslice (nat off) n d), s2) \<and> fd_data f s2 = Some d \<and> allocated 0 s s2"
proof -
  obtain path where p: "sys_lseek f off s = Inr (off, s\<lparr>fdt := (fdt s)[nat f := Some (path, nat off)]\<rparr>)"
    "files s path = Some d" "fd_lookup f s \<noteq> None"
    using fd_data_seek [OF assms] by blast
  let ?s1 = "s\<lparr>fdt := (fdt s)[nat f := Some (path, nat off)]\<rparr>"
  let ?s2 = "s\<lparr>fdt := (fdt s)[nat f := Some (path, nat off + length (bslice (nat off) n d))]\<rparr>"
  have "fd_lookup f ?s1 = Some (path, nat off)" by (rule fd_lookup_update [OF p(3)])
  then have "sys_read f n ?s1 = Inr (Some (bslice (nat off) n d), ?s2)"
    using p(2) by (simp add: sys_read_def Let_def)
  moreover have "fd_data f ?s1 = Some d" "fd_data f ?s2 = Some d" by (rule fd_data_moved [OF p(3,2)])+
  moreover have "allocated 0 s ?s2" by (simp add: allocated_def same_but_heap_def)
  ultimately show ?thesis using p(1) by blast
qed

lemma malloc_ok:
  "0 \<le> n \<Longrightarrow> n < 2147483648 \<Longrightarrow> n \<le> int (avail s) \<Longrightarrow>
   \<exists>s'. sys_malloc n s = Inr (Some (fresh s), s') \<and> allocated 1 s s' \<and> fdt s' = fdt s"
  by (simp add: sys_malloc_def size_arg_nonneg allocated_def same_but_heap_def)

lemma fd_data_cong: "fdt s' = fdt s \<Longrightarrow> files s' = files s \<Longrightarrow> fd_data f s' = fd_data f s"
  by (auto simp: fd_data_def fd_lookup_def split: option.splits)

lemma length_bslice_beyond: "\<not> off + n \<le> length d \<Longrightarrow> length (bslice off n d) < n \<or> n = 0"
  by (auto simp: bslice_def)

end
