(* ===== verification/ElfNames.thy ===== *)
theory ElfNames
  imports CFormat
begin

text \<open>
  Names of ELF constants: \<open>elfile.h\<close>, the functions \<open>_sym_bind\<close>,
  \<open>_sym_type\<close>, \<open>_sym_idx\<close>, \<open>_ph_type\<close> and \<open>_dyn_type\<close> of
  \<open>elf.c\<close>, and the copy of \<open>_dyn_type\<close> in \<open>elfstring.c\<close>. Each
  \<open>switch\<close> is the list of its cases with its default. The constants that come from
  the system's \<open>elf.h\<close> are those of the ELF specification; \<open>DT_NUM\<close> has the
  value of the C library versions of the time of the sources.
\<close>

subsection \<open>Constants\<close>

abbreviation (input) STB_LOCAL :: byte where "STB_LOCAL \<equiv> 0"
abbreviation (input) STB_GLOBAL :: byte where "STB_GLOBAL \<equiv> 1"
abbreviation (input) STB_WEAK :: byte where "STB_WEAK \<equiv> 2"
abbreviation (input) STB_NUM :: byte where "STB_NUM \<equiv> 3"
abbreviation (input) STB_LOOS :: byte where "STB_LOOS \<equiv> 10"
abbreviation (input) STB_HIOS :: byte where "STB_HIOS \<equiv> 12"
abbreviation (input) STB_LOPROC :: byte where "STB_LOPROC \<equiv> 13"
abbreviation (input) STB_HIPROC :: byte where "STB_HIPROC \<equiv> 15"

abbreviation (input) STT_NOTYPE :: byte where "STT_NOTYPE \<equiv> 0"
abbreviation (input) STT_OBJECT :: byte where "STT_OBJECT \<equiv> 1"
abbreviation (input) STT_FUNC :: byte where "STT_FUNC \<equiv> 2"
abbreviation (input) STT_SECTION :: byte where "STT_SECTION \<equiv> 3"
abbreviation (input) STT_FILE :: byte where "STT_FILE \<equiv> 4"
abbreviation (input) STT_COMMON :: byte where "STT_COMMON \<equiv> 5"
abbreviation (input) STT_TLS :: byte where "STT_TLS \<equiv> 6"
abbreviation (input) STT_NUM :: byte where "STT_NUM \<equiv> 7"
abbreviation (input) STT_LOOS :: byte where "STT_LOOS \<equiv> 10"
abbreviation (input) STT_HIOS :: byte where "STT_HIOS \<equiv> 12"
abbreviation (input) STT_LOPROC :: byte where "STT_LOPROC \<equiv> 13"
abbreviation (input) STT_HIPROC :: byte where "STT_HIPROC \<equiv> 15"

abbreviation (input) SHN_UNDEF :: u16 where "SHN_UNDEF \<equiv> 0"
abbreviation (input) SHN_ABS :: u16 where "SHN_ABS \<equiv> 0xfff1"
abbreviation (input) SHN_COMMON :: u16 where "SHN_COMMON \<equiv> 0xfff2"

abbreviation (input) PT_NULL :: u32 where "PT_NULL \<equiv> 0"
abbreviation (input) PT_LOAD :: u32 where "PT_LOAD \<equiv> 1"
abbreviation (input) PT_DYNAMIC :: u32 where "PT_DYNAMIC \<equiv> 2"
abbreviation (input) PT_INTERP :: u32 where "PT_INTERP \<equiv> 3"
abbreviation (input) PT_NOTE :: u32 where "PT_NOTE \<equiv> 4"
abbreviation (input) PT_SHLIB :: u32 where "PT_SHLIB \<equiv> 5"
abbreviation (input) PT_PHDR :: u32 where "PT_PHDR \<equiv> 6"
abbreviation (input) PT_TLS :: u32 where "PT_TLS \<equiv> 7"
abbreviation (input) PT_NUM :: u32 where "PT_NUM \<equiv> 8"

abbreviation (input) DT_NULL :: u32 where "DT_NULL \<equiv> 0"
abbreviation (input) DT_NEEDED :: u32 where "DT_NEEDED \<equiv> 1"
abbreviation (input) DT_PLTRELSZ :: u32 where "DT_PLTRELSZ \<equiv> 2"
abbreviation (input) DT_PLTGOT :: u32 where "DT_PLTGOT \<equiv> 3"
abbreviation (input) DT_HASH :: u32 where "DT_HASH \<equiv> 4"
abbreviation (input) DT_STRTAB :: u32 where "DT_STRTAB \<equiv> 5"
abbreviation (input) DT_SYMTAB :: u32 where "DT_SYMTAB \<equiv> 6"
abbreviation (input) DT_RELA :: u32 where "DT_RELA \<equiv> 7"
abbreviation (input) DT_RELASZ :: u32 where "DT_RELASZ \<equiv> 8"
abbreviation (input) DT_RELAENT :: u32 where "DT_RELAENT \<equiv> 9"
abbreviation (input) DT_STRSZ :: u32 where "DT_STRSZ \<equiv> 10"
abbreviation (input) DT_SYMENT :: u32 where "DT_SYMENT \<equiv> 11"
abbreviation (input) DT_INIT :: u32 where "DT_INIT \<equiv> 12"
abbreviation (input) DT_FINI :: u32 where "DT_FINI \<equiv> 13"
abbreviation (input) DT_SONAME :: u32 where "DT_SONAME \<equiv> 14"
abbreviation (input) DT_RPATH :: u32 where "DT_RPATH \<equiv> 15"
abbreviation (input) DT_SYMBOLIC :: u32 where "DT_SYMBOLIC \<equiv> 16"
abbreviation (input) DT_REL :: u32 where "DT_REL \<equiv> 17"
abbreviation (input) DT_RELSZ :: u32 where "DT_RELSZ \<equiv> 18"
abbreviation (input) DT_RELENT :: u32 where "DT_RELENT \<equiv> 19"
abbreviation (input) DT_PLTREL :: u32 where "DT_PLTREL \<equiv> 20"
abbreviation (input) DT_DEBUG :: u32 where "DT_DEBUG \<equiv> 21"
abbreviation (input) DT_TEXTREL :: u32 where "DT_TEXTREL \<equiv> 22"
abbreviation (input) DT_JMPREL :: u32 where "DT_JMPREL \<equiv> 23"
abbreviation (input) DT_BIND_NOW :: u32 where "DT_BIND_NOW \<equiv> 24"
abbreviation (input) DT_INIT_ARRAY :: u32 where "DT_INIT_ARRAY \<equiv> 25"
abbreviation (input) DT_FINI_ARRAY :: u32 where "DT_FINI_ARRAY \<equiv> 26"
abbreviation (input) DT_INIT_ARRAYSZ :: u32 where "DT_INIT_ARRAYSZ \<equiv> 27"
abbreviation (input) DT_FINI_ARRAYSZ :: u32 where "DT_FINI_ARRAYSZ \<equiv> 28"
abbreviation (input) DT_RUNPATH :: u32 where "DT_RUNPATH \<equiv> 29"
abbreviation (input) DT_FLAGS :: u32 where "DT_FLAGS \<equiv> 30"
abbreviation (input) DT_ENCODING :: u32 where "DT_ENCODING \<equiv> 32"
abbreviation (input) DT_PREINIT_ARRAYSZ :: u32 where "DT_PREINIT_ARRAYSZ \<equiv> 33"
abbreviation (input) DT_NUM :: u32 where "DT_NUM \<equiv> 34"
abbreviation (input) DT_LOOS :: u32 where "DT_LOOS \<equiv> 0x6000000d"
abbreviation (input) DT_HIOS :: u32 where "DT_HIOS \<equiv> 0x6ffff000"
abbreviation (input) DT_LOPROC :: u32 where "DT_LOPROC \<equiv> 0x70000000"
abbreviation (input) DT_HIPROC :: u32 where "DT_HIPROC \<equiv> 0x7fffffff"

abbreviation (input) ET_NONE :: u16 where "ET_NONE \<equiv> 0"
abbreviation (input) ET_REL :: u16 where "ET_REL \<equiv> 1"
abbreviation (input) ET_EXEC :: u16 where "ET_EXEC \<equiv> 2"
abbreviation (input) ET_DYN :: u16 where "ET_DYN \<equiv> 3"
abbreviation (input) EM_386 :: u16 where "EM_386 \<equiv> 3"
abbreviation (input) EM_X86_64 :: u16 where "EM_X86_64 \<equiv> 62"
abbreviation (input) EM_S390 :: u16 where "EM_S390 \<equiv> 22"
abbreviation (input) SHT_STRTAB :: u32 where "SHT_STRTAB \<equiv> 3"

subsection \<open>The fields of \<open>st_info\<close>\<close>

unbundle bit_operations_syntax

definition SYM_BIND :: "byte \<Rightarrow> byte" where "SYM_BIND val = drop_bit 4 val"

definition SYM_TYPE :: "byte \<Rightarrow> byte" where "SYM_TYPE val = val AND 0xf"

subsection \<open>A switch over constants\<close>

definition switch :: "('k \<times> 'v) list \<Rightarrow> 'v \<Rightarrow> 'k \<Rightarrow> 'v" where
  "switch tbl dflt k = (case map_of tbl k of Some v \<Rightarrow> v | None \<Rightarrow> dflt)"

text \<open>The labels of a switch are different, as C demands, and so are its results.\<close>

definition clear_switch :: "('k \<times> 'v) list \<Rightarrow> 'v \<Rightarrow> bool" where
  "clear_switch tbl dflt = (distinct (map fst tbl) \<and> distinct (map snd tbl) \<and> dflt \<notin> snd ` set tbl)"

lemma switch_default: "clear_switch tbl dflt \<Longrightarrow> switch tbl dflt k = dflt \<longleftrightarrow> k \<notin> fst ` set tbl"
  by (force simp: switch_def clear_switch_def map_of_eq_None_iff dest: map_of_SomeD split: option.splits)

lemma switch_inj:
  assumes "clear_switch tbl dflt" and "switch tbl dflt k = switch tbl dflt k'" and "switch tbl dflt k \<noteq> dflt"
  shows "k = k'"
proof -
  obtain v v' where "map_of tbl k = Some v" "map_of tbl k' = Some v'" "v = v'"
    using assms by (auto simp: switch_def split: option.splits)
  then have "(k, v) \<in> set tbl" "(k', v) \<in> set tbl" by (auto dest: map_of_SomeD)
  moreover have "inj_on snd (set tbl)" using assms(1) by (simp add: clear_switch_def distinct_map)
  ultimately show ?thesis using inj_onD [of snd "set tbl" "(k, v)" "(k', v)"] by simp
qed

lemma switch_case: "clear_switch tbl dflt \<Longrightarrow> (k, v) \<in> set tbl \<Longrightarrow> switch tbl dflt k = v"
  by (simp add: switch_def clear_switch_def)

subsection \<open>The functions\<close>

definition sym_bind_cases :: "(byte \<times> string) list" where
  "sym_bind_cases = [
     (STB_LOCAL, ''LOCAL''),
     (STB_GLOBAL, ''GLOBAL''),
     (STB_WEAK, ''WEAK''),
     (STB_NUM, ''NUM''),
     (STB_LOOS, ''LOOS''),
     (STB_HIOS, ''HIOS''),
     (STB_LOPROC, ''LOPROC''),
     (STB_HIPROC, ''HIPROC'')]"

definition sym_bind :: "byte \<Rightarrow> string" where "sym_bind n = switch sym_bind_cases ''UNKNOW'' n"

definition sym_type_cases :: "(byte \<times> string) list" where
  "sym_type_cases = [
     (STT_NOTYPE, ''NOTYPE''),
     (STT_OBJECT, ''OBJECT''),
     (STT_FUNC, ''FUNC''),
     (STT_SECTION, ''SECTION''),
     (STT_FILE, ''FILE''),
     (STT_COMMON, ''COMMON''),
     (STT_TLS, ''TLS''),
     (STT_NUM, ''NUM''),
     (STT_LOOS, ''LOOS''),
     (STT_HIOS, ''HIOS''),
     (STT_LOPROC, ''LOPROC''),
     (STT_HIPROC, ''HIPROC'')]"

definition sym_type :: "byte \<Rightarrow> string" where "sym_type n = switch sym_type_cases ''UNKNOW'' n"

definition ph_type_cases :: "(u32 \<times> string) list" where
  "ph_type_cases = [
     (PT_NULL, ''NULL''),
     (PT_LOAD, ''LOAD''),
     (PT_DYNAMIC, ''DYN''),
     (PT_INTERP, ''INTERP''),
     (PT_NOTE, ''NOTE''),
     (PT_SHLIB, ''SHLIB''),
     (PT_PHDR, ''PHDR''),
     (PT_TLS, ''TLS''),
     (PT_NUM, ''NUM'')]"

definition ph_type :: "u32 \<Rightarrow> string" where "ph_type n = switch ph_type_cases ''UNK'' n"

definition dyn_type_cases :: "(u32 \<times> string) list" where
  "dyn_type_cases = [
     (DT_NULL, ''NULL''),
     (DT_NEEDED, ''NEEDED''),
     (DT_PLTRELSZ, ''PLTRELSE''),
     (DT_PLTGOT, ''PLTGOT''),
     (DT_HASH, ''HASH''),
     (DT_STRTAB, ''STRTAB''),
     (DT_SYMTAB, ''SYMTAB''),
     (DT_RELA, ''RELA''),
     (DT_RELASZ, ''RELASZ''),
     (DT_RELAENT, ''RELAENT''),
     (DT_STRSZ, ''STRSZ''),
     (DT_SYMENT, ''SYMENT''),
     (DT_INIT, ''INIT''),
     (DT_FINI, ''FINI''),
     (DT_SONAME, ''SONAME''),
     (DT_RPATH, ''RPATH''),
     (DT_SYMBOLIC, ''SYMBOLIC''),
     (DT_REL, ''REL''),
     (DT_RELSZ, ''RELSZ''),
     (DT_RELENT, ''RELENT''),
     (DT_PLTREL, ''PLTREL''),
     (DT_DEBUG, ''DEBUG''),
     (DT_TEXTREL, ''TEXTREL''),
     (DT_JMPREL, ''JMPREL''),
     (DT_BIND_NOW, ''BIND_NOW''),
     (DT_INIT_ARRAY, ''INIT_ARRAY''),
     (DT_FINI_ARRAY, ''FINI_ARRAY''),
     (DT_INIT_ARRAYSZ, ''INIT_ARRAYSZ''),
     (DT_FINI_ARRAYSZ, ''FINI_ARRAYSZ''),
     (DT_RUNPATH, ''RUNPATH''),
     (DT_FLAGS, ''FLAGS''),
     (DT_ENCODING, ''ENCODING''),
     (DT_PREINIT_ARRAYSZ, ''PREINIT_ARRAYSZ''),
     (DT_NUM, ''NUM''),
     (DT_LOOS, ''LOOS''),
     (DT_HIOS, ''HIOS''),
     (DT_LOPROC, ''LOPROC''),
     (DT_HIPROC, ''HIPROC'')]"

definition dyn_type :: "u32 \<Rightarrow> string" where "dyn_type n = switch dyn_type_cases ''UNK'' n"

text \<open>The copy in \<open>elfstring.c\<close>.\<close>

definition dyn_type_lib_cases :: "(u32 \<times> string) list" where
  "dyn_type_lib_cases = [
     (DT_NULL, ''NULL''),
     (DT_NEEDED, ''NEEDED''),
     (DT_PLTRELSZ, ''PLTRELSE''),
     (DT_PLTGOT, ''PLTGOT''),
     (DT_HASH, ''HASH''),
     (DT_STRTAB, ''STRTAB''),
     (DT_SYMTAB, ''SYMTAB''),
     (DT_RELA, ''RELA''),
     (DT_RELASZ, ''RELASZ''),
     (DT_RELAENT, ''RELAENT''),
     (DT_STRSZ, ''STRSZ''),
     (DT_SYMENT, ''SYMENT''),
     (DT_INIT, ''INIT''),
     (DT_FINI, ''FINI''),
     (DT_SONAME, ''SONAME''),
     (DT_RPATH, ''RPATH''),
     (DT_SYMBOLIC, ''SYMBOLIC''),
     (DT_REL, ''REL''),
     (DT_RELSZ, ''RELSZ''),
     (DT_RELENT, ''RELENT''),
     (DT_PLTREL, ''PLTREL''),
     (DT_DEBUG, ''DEBUG''),
     (DT_TEXTREL, ''TEXTREL''),
     (DT_JMPREL, ''JMPREL''),
     (DT_BIND_NOW, ''BIND_NOW''),
     (DT_INIT_ARRAY, ''INIT_ARRAY''),
     (DT_FINI_ARRAY, ''FINI_ARRAY''),
     (DT_INIT_ARRAYSZ, ''INIT_ARRAYSZ''),
     (DT_FINI_ARRAYSZ, ''FINI_ARRAYSZ''),
     (DT_RUNPATH, ''RUNPATH''),
     (DT_FLAGS, ''FLAGS''),
     (DT_ENCODING, ''ENCODING''),
     (DT_PREINIT_ARRAYSZ, ''PREINIT_ARRAYSZ''),
     (DT_NUM, ''NUM''),
     (DT_LOOS, ''LOOS''),
     (DT_HIOS, ''HIOS''),
     (DT_LOPROC, ''LOPROC''),
     (DT_HIPROC, ''HIPROC'')]"

definition dyn_type_lib :: "u32 \<Rightarrow> string" where "dyn_type_lib n = switch dyn_type_lib_cases ''UNK'' n"

text \<open>
  \<open>_sym_idx\<close>: the number is printed into \<open>char num[5]\<close>, then copied; the copy and
  the string constants are modelled by their text.
\<close>

definition sym_idx_num :: "u16 \<Rightarrow> string res" where
  "sym_idx_num n = bindE (vsprintf ''%4d'' [AInt (ucast n)])
     (\<lambda>s. guardE (length s + 1 \<le> 5) BufferOverflow (Inr s))"

definition sym_idx :: "u16 \<Rightarrow> string res" where
  "sym_idx n =
     (if 0 < n \<and> n < 0xff00 then sym_idx_num n
      else Inr (if n = SHN_UNDEF then ''UND'' else if n = SHN_ABS then ''ABS''
        else if n = SHN_COMMON then ''COM'' else '' UN''))"

subsection \<open>Properties\<close>

lemma clear_switches [simp]:
  "clear_switch sym_bind_cases ''UNKNOW''"
  "clear_switch sym_type_cases ''UNKNOW''"
  "clear_switch ph_type_cases ''UNK''"
  "clear_switch dyn_type_cases ''UNK''"
  by (simp_all add: clear_switch_def sym_bind_cases_def sym_type_cases_def ph_type_cases_def dyn_type_cases_def)

lemma sym_info_split: "push_bit 4 (SYM_BIND j) + SYM_TYPE j = j"
proof -
  have "SYM_TYPE j = take_bit 4 j" by (simp add: SYM_TYPE_def take_bit_eq_mask mask_eq_exp_minus_1)
  then show ?thesis using bits_ident [of 4 j] by (simp add: SYM_BIND_def)
qed

lemma dyn_type_lib_eq: "dyn_type_lib = dyn_type"
  by (rule ext) (simp add: dyn_type_lib_def dyn_type_def dyn_type_lib_cases_def dyn_type_cases_def)

text \<open>
  \<open>SYM_BIND\<close> and \<open>SYM_TYPE\<close> split \<open>st_info\<close> without loss, and the names
  printed for the two halves determine the byte whenever both are known.
\<close>

theorem sym_info_names:
  assumes "sym_bind (SYM_BIND i) = sym_bind (SYM_BIND i')" and "sym_bind (SYM_BIND i) \<noteq> ''UNKNOW''"
    and "sym_type (SYM_TYPE i) = sym_type (SYM_TYPE i')" and "sym_type (SYM_TYPE i) \<noteq> ''UNKNOW''"
  shows "i = i'"
proof -
  have "SYM_BIND i = SYM_BIND i'"
    using switch_inj [OF clear_switches(1)] assms(1,2) unfolding sym_bind_def by blast
  moreover have "SYM_TYPE i = SYM_TYPE i'"
    using switch_inj [OF clear_switches(2)] assms(3,4) unfolding sym_type_def by blast
  ultimately show ?thesis by (metis sym_info_split)
qed

theorem sym_info_names_witness: "(0x12 :: byte) = push_bit 4 1 + 2"
  by (rule sym_info_names) (code_simp+)

text \<open>
  the name of a dynamic tag determines the tag, except for the default: two different
  tags never get the same name, and the two copies of the table agree.
\<close>

theorem dyn_type_names:
  assumes "dyn_type n = dyn_type_lib m" and "n \<noteq> m"
  shows "dyn_type n = ''UNK'' \<and> n \<notin> fst ` set dyn_type_cases \<and> m \<notin> fst ` set dyn_type_cases"
proof -
  have eq: "dyn_type n = dyn_type m" using assms(1) by (simp add: dyn_type_lib_eq)
  then have unk: "dyn_type n = ''UNK''"
    using switch_inj [OF clear_switches(4), of n m] assms(2) by (auto simp: dyn_type_def)
  then show ?thesis
    using eq switch_default [OF clear_switches(4)] by (metis dyn_type_def)
qed

theorem dyn_type_names_witness: "dyn_type 31 = ''UNK'' \<and> 31 \<notin> fst ` set dyn_type_cases \<and> 35 \<notin> fst ` set dyn_type_cases"
  by (rule dyn_type_names) (simp_all add: dyn_type_def dyn_type_lib_def switch_def dyn_type_cases_def dyn_type_lib_cases_def)

lemma fmt_4d_u16: "vsprintf ''%4d'' [AInt (ucast (n :: u16))] = Inr (pad_left CHR '' '' 4 (decn (unat n)))"
proof -
  have "unat n < 65536" using unsigned_less [of n, where ?'a = nat] by simp
  then have "sint (ucast n :: u32) = int (unat n)" using sint_small [of "ucast n"] by (simp add: unat_u16_u32)
  then show ?thesis by (simp add: fmt_eval deci_def)
qed

text \<open>
  \<open>_sym_idx\<close> writes past the end of \<open>num\<close> exactly for the section numbers of
  five digits; every text it returns has three or four characters.
\<close>

theorem sym_idx_overflow:
  "if 10000 \<le> unat n \<and> unat n < 0xff00 then sym_idx n = Inl BufferOverflow
   else (\<exists>s. sym_idx n = Inr s \<and> length s \<in> {3, 4})"
proof (cases "0 < n \<and> n < 0xff00")
  case True
  let ?s = "pad_left CHR '' '' 4 (decn (unat n))"
  have r: "sym_idx n = guardE (length ?s + 1 \<le> 5) BufferOverflow (Inr ?s)"
    using True by (simp add: sym_idx_def sym_idx_num_def fmt_4d_u16)
  have lt: "unat n < 0xff00" using True by (simp add: word_less_nat_alt)
  show ?thesis
  proof (cases "10000 \<le> unat n")
    case True
    then have "4 < length (decn (unat n))" using length_digits_lower [of 10 4 "unat n" hexd] by simp
    then show ?thesis using True lt r by (simp add: length_pad_left)
  next
    case False
    then have "length (decn (unat n)) \<le> 4" using length_digits_bound [of 4 10 "unat n" hexd] by simp
    then show ?thesis using False r by (simp add: length_pad_left)
  qed
next
  case False
  then have "\<not> (10000 \<le> unat n \<and> unat n < 0xff00)"
    by (auto simp: word_less_nat_alt)
  then show ?thesis using False by (auto simp: sym_idx_def)
qed

end
