(* ===== verification/BinaryDump.thy ===== *)
theory BinaryDump
  imports CFormat
begin

text \<open>
  Model of \<open>perftools/linux/elf/binary_dump.c\<close>: the hexadecimal dumps of a byte buffer
  (plain, with a character column, with one comment per row, with the lines of a string
  beside the rows) and the static text buffer that \<open>bin_printf\<close> fills.

  A dump function returns the text that the C function writes to the standard error
  stream. A loop over \<open>j\<close> is a recursive function of \<open>j\<close>; \<open>lim\<close> is the
  value of \<open>gap + size\<close>, computed in 32-bit unsigned arithmetic as in the code, and
  incrementing the \<open>int\<close> variable \<open>j\<close> past its range is a fault.
\<close>

subsection \<open>Sequencing of output\<close>

definition emit :: "string res \<Rightarrow> string res \<Rightarrow> string res" where
  "emit a b = bindE a (\<lambda>s. bindE b (\<lambda>t. Inr (s @ t)))"

definition emits :: "string res list \<Rightarrow> string res" where
  "emits ms = foldr emit ms (Inr [])"

lemma emit_simps [simp]:
  "emit (Inr s) (Inr t) = Inr (s @ t)"
  "emit (Inl e) b = Inl e"
  "emit (Inr s) (Inl e) = Inl e"
  by (simp_all add: emit_def)

lemma emits_simps [simp]:
  "emits [] = Inr []"
  "emits (m # ms) = emit m (emits ms)"
  by (simp_all add: emits_def)

lemma emit_Nil [simp]: "emit (Inr []) m = m" "emit m (Inr []) = m"
  by (cases m; simp)+

abbreviation byte_arg :: "byte \<Rightarrow> carg" where "byte_arg b \<equiv> AInt (ucast b)"

definition INT_MAX :: nat where "INT_MAX = 2147483647"

definition blanks3 :: "nat \<Rightarrow> string" where
  "blanks3 n = concat (replicate n ''   '')"

text \<open>\<open>gap + size\<close>: an \<open>int\<close> plus an \<open>unsigned int\<close>, modulo \<open>2 ^ 32\<close>.\<close>

definition dump_lim :: "u32 \<Rightarrow> u32 \<Rightarrow> nat" where
  "dump_lim offset sz = unat (offset mod 16 + sz)"

definition dump_gap :: "u32 \<Rightarrow> nat" where
  "dump_gap offset = unat (offset mod 16)"

definition dump_base :: "u32 \<Rightarrow> u32" where
  "dump_base offset = offset div 16 * 16"

subsection \<open>Plain dump\<close>

function bd_loop :: "byte list \<Rightarrow> nat \<Rightarrow> nat \<Rightarrow> u32 \<Rightarrow> nat \<Rightarrow> string res" where
  "bd_loop buf gap lim offset j =
     (if j < lim then
        if INT_MAX \<le> j then Inl SignedOverflow
        else bindE (buf_at buf (j - gap)) (\<lambda>b.
          if (j + 1) mod 16 = 0 then
            emits [vsprintf ''%02x'' [byte_arg b],
              (if j + 1 \<noteq> lim then vsprintf ''\<newline>%08x  '' [AInt (offset + 16)] else Inr []),
              bd_loop buf gap lim (if j + 1 \<noteq> lim then offset + 16 else offset) (j + 1)]
          else emits [vsprintf ''%02x '' [byte_arg b], bd_loop buf gap lim offset (j + 1)])
      else Inr [])"
  by pat_completeness auto
termination
  by (relation "measure (\<lambda>(buf, gap, lim, offset, j). lim - j)") auto

declare bd_loop.simps [simp del]

definition binary_dump :: "u32 \<Rightarrow> u32 \<Rightarrow> byte list option \<Rightarrow> string res" where
  "binary_dump offset sz buf =
     (case buf of None \<Rightarrow> Inr []
      | Some p \<Rightarrow>
        if sz = 0 then Inr []
        else emits [vsprintf ''%08x  '' [AInt (dump_base offset)],
               Inr (blanks3 (dump_gap offset)),
               bd_loop p (dump_gap offset) (dump_lim offset sz) (dump_base offset) (dump_gap offset),
               vsprintf ''\<newline>\<newline>'' []])"

subsection \<open>Dump with a character column\<close>

definition printable :: "byte \<Rightarrow> char" where
  "printable c =
     (if 97 \<le> c \<and> c \<le> 122 then char_of_byte c
      else if 65 \<le> c \<and> c \<le> 90 then char_of_byte c
      else if 48 \<le> c \<and> c \<le> 57 then char_of_byte c
      else if c = 0 then CHR ''@'' else CHR ''.'')"

function bdc_loop ::
  "byte list \<Rightarrow> nat \<Rightarrow> nat \<Rightarrow> u32 \<Rightarrow> string \<Rightarrow> nat \<Rightarrow> (string \<times> string) res" where
  "bdc_loop buf gap lim offset tailer j =
     (if j < lim then
        if INT_MAX \<le> j then Inl SignedOverflow
        else bindE (buf_at buf (j - gap)) (\<lambda>b.
          if (j + 1) mod 16 = 0 then
            (let tailer1 = tailer[15 := printable b] in
             bindE (emits [vsprintf ''%02x | '' [byte_arg b], vsprintf ''%s'' [AStr tailer1],
                 (if j + 1 \<noteq> lim then vsprintf ''\<newline>%08x  '' [AInt (offset + 16)] else Inr [])])
               (\<lambda>s. bindE (bdc_loop buf gap lim (if j + 1 \<noteq> lim then offset + 16 else offset)
                       (if j + 1 \<noteq> lim then replicate 16 CHR '' '' else tailer1) (j + 1))
               (\<lambda>(t, tl'). Inr (s @ t, tl'))))
          else
            bindE (vsprintf ''%02x '' [byte_arg b]) (\<lambda>s.
            bindE (bdc_loop buf gap lim offset (tailer[j mod 16 := printable b]) (j + 1))
              (\<lambda>(t, tl'). Inr (s @ t, tl'))))
      else Inr ([], tailer))"
  by pat_completeness auto
termination
  by (relation "measure (\<lambda>(buf, gap, lim, offset, tailer, j). lim - j)") auto

declare bdc_loop.simps [simp del]

text \<open>The blank cells that fill the last row; the last of them ends with the column bar.\<close>

definition post_gap_fill :: "nat \<Rightarrow> string res" where
  "post_gap_fill k0 =
     emits (map (\<lambda>k. if k + 1 = 16 then vsprintf ''   | '' [] else vsprintf ''   '' []) [k0..<16])"

definition binary_dump_with_char :: "u32 \<Rightarrow> u32 \<Rightarrow> byte list option \<Rightarrow> string res" where
  "binary_dump_with_char offset sz buf =
     (case buf of None \<Rightarrow> Inr []
      | Some p \<Rightarrow>
        if sz = 0 then Inr []
        else
          let gap = dump_gap offset; lim = dump_lim offset sz; post_gap = max gap lim mod 16 in
          emits [vsprintf ''%08x  '' [AInt (dump_base offset)], Inr (blanks3 gap),
            bindE (bdc_loop p gap lim (dump_base offset) (replicate 16 CHR '' '') gap)
              (\<lambda>(s, tailer).
                emits [Inr s,
                  (if post_gap \<noteq> 0 then emits [post_gap_fill post_gap, vsprintf ''%s'' [AStr tailer]]
                   else Inr []),
                  vsprintf ''\<newline>\<newline>'' []])])"

subsection \<open>Dump with one comment per row\<close>

text \<open>
  The comments are passed to \<open>fprintf\<close> as format strings, so a percent sign in a
  comment is a conversion without an argument. \<open>li\<close> is \<open>line_index\<close>.
\<close>

definition comment_text :: "int \<Rightarrow> string list \<Rightarrow> nat \<Rightarrow> string res" where
  "comment_text argc argv li =
     (if int li < argc then bindE (buf_at argv li) (\<lambda>a. vsprintf a []) else Inr [])"

function bcm_loop ::
  "byte list \<Rightarrow> int \<Rightarrow> string list \<Rightarrow> nat \<Rightarrow> nat \<Rightarrow> u32 \<Rightarrow> nat \<Rightarrow> nat \<Rightarrow> (string \<times> nat) res" where
  "bcm_loop buf argc argv gap lim offset li j =
     (if j < lim then
        if INT_MAX \<le> j then Inl SignedOverflow
        else bindE (buf_at buf (j - gap)) (\<lambda>b.
          if (j + 1) mod 16 = 0 then
            bindE (emits [vsprintf ''%02x | '' [byte_arg b], comment_text argc argv li,
                (if j + 1 \<noteq> lim then vsprintf ''\<newline>%08x  '' [AInt (offset + 16)] else Inr [])])
              (\<lambda>s. bindE (bcm_loop buf argc argv gap lim
                      (if j + 1 \<noteq> lim then offset + 16 else offset) (li + 1) (j + 1))
              (\<lambda>(t, li'). Inr (s @ t, li')))
          else
            bindE (vsprintf ''%02x '' [byte_arg b]) (\<lambda>s.
            bindE (bcm_loop buf argc argv gap lim offset li (j + 1)) (\<lambda>(t, li'). Inr (s @ t, li'))))
      else Inr ([], li))"
  by pat_completeness auto
termination
  by (relation "measure (\<lambda>(buf, argc, argv, gap, lim, offset, li, j). lim - j)") auto

declare bcm_loop.simps [simp del]

fun bcm_fill :: "int \<Rightarrow> string list \<Rightarrow> nat \<Rightarrow> nat list \<Rightarrow> nat \<Rightarrow> (string \<times> nat) res" where
  "bcm_fill argc argv post_gap [] li = Inr ([], li)"
| "bcm_fill argc argv post_gap (k # ks) li =
     (if k + 1 = post_gap then
        bindE (emits [vsprintf ''   | '' [], comment_text argc argv li]) (\<lambda>s.
        bindE (bcm_fill argc argv post_gap ks (if int li < argc then li + 1 else li))
          (\<lambda>(t, li'). Inr (s @ t, li')))
      else
        bindE (vsprintf ''   '' []) (\<lambda>s.
        bindE (bcm_fill argc argv post_gap ks li) (\<lambda>(t, li'). Inr (s @ t, li'))))"

definition indent60 :: string where "indent60 = replicate 60 CHR '' ''"

function bcm_rest :: "int \<Rightarrow> string list \<Rightarrow> nat \<Rightarrow> string res" where
  "bcm_rest argc argv li =
     (if int li < argc then
        emits [bindE (buf_at argv li) (\<lambda>a. vsprintf (indent60 @ ''%s\<newline>'') [AStr a]),
               bcm_rest argc argv (li + 1)]
      else Inr [])"
  by pat_completeness auto
termination
  by (relation "measure (\<lambda>(argc, argv, li). nat argc - li)") auto

declare bcm_rest.simps [simp del]

definition binary_dump_with_comment ::
  "u32 \<Rightarrow> u32 \<Rightarrow> byte list option \<Rightarrow> int \<Rightarrow> string list \<Rightarrow> string res" where
  "binary_dump_with_comment offset sz buf argc argv =
     (case buf of None \<Rightarrow> Inr []
      | Some p \<Rightarrow>
        if sz = 0 then Inr []
        else
          let gap = dump_gap offset; lim = dump_lim offset sz; post_gap = max gap lim mod 16 in
          emits [vsprintf ''%08x  '' [AInt (dump_base offset)], Inr (blanks3 gap),
            bindE (bcm_loop p argc argv gap lim (dump_base offset) 0 gap) (\<lambda>(s, li).
            bindE (if post_gap \<noteq> 0 then bcm_fill argc argv post_gap [post_gap..<16] li
                   else Inr ([], li)) (\<lambda>(t, li').
            emits [Inr s, Inr t, vsprintf ''\<newline>'' [], bcm_rest argc argv li',
              vsprintf ''\<newline>'' []]))])"

subsection \<open>Dump with the lines of a string beside the rows\<close>

text \<open>
  The string is cut into lines in place: \<open>strchr\<close> finds the next newline, the code
  overwrites it by NUL, prints from \<open>head\<close> and moves \<open>head\<close> past it. The state is
  the text already cut (as it now stands in memory) and what \<open>head\<close> points to, which is
  \<open>None\<close> once \<open>strchr\<close> has returned the null pointer. At every use \<open>tail\<close> and
  \<open>head\<close> are equal.
\<close>

type_synonym lines_st = "string \<times> string option"

definition NUL :: char where "NUL = CHR 0x00"

definition has_line :: "lines_st \<Rightarrow> bool" where
  "has_line st = (snd st \<noteq> None \<and> snd st \<noteq> Some [])"

definition next_line :: "lines_st \<Rightarrow> string \<times> lines_st" where
  "next_line st =
     (case st of (pre, None) \<Rightarrow> ([], st)
      | (pre, Some s) \<Rightarrow>
        if NL \<in> set s
        then (let l = takeWhile (\<lambda>c. c \<noteq> NL) s in
              (l, pre @ l @ [NUL], Some (drop (length l + 1) s)))
        else (s, pre @ s, None))"

function bs_loop ::
  "byte list \<Rightarrow> nat \<Rightarrow> nat \<Rightarrow> u32 \<Rightarrow> lines_st \<Rightarrow> nat \<Rightarrow> (string \<times> lines_st) res" where
  "bs_loop buf gap lim offset st j =
     (if j < lim then
        if INT_MAX \<le> j then Inl SignedOverflow
        else bindE (buf_at buf (j - gap)) (\<lambda>b.
          if (j + 1) mod 16 = 0 then
            (let (l, st1) = (if has_line st then next_line st else ([], st)) in
             bindE (emits [vsprintf ''%02x | '' [byte_arg b],
                 (if has_line st then vsprintf ''%s'' [AStr l] else Inr []),
                 (if j + 1 \<noteq> lim then vsprintf ''\<newline>%08x  '' [AInt (offset + 16)] else Inr [])])
               (\<lambda>s. bindE (bs_loop buf gap lim (if j + 1 \<noteq> lim then offset + 16 else offset) st1 (j + 1))
               (\<lambda>(t, st'). Inr (s @ t, st'))))
          else
            bindE (vsprintf ''%02x '' [byte_arg b]) (\<lambda>s.
            bindE (bs_loop buf gap lim offset st (j + 1)) (\<lambda>(t, st'). Inr (s @ t, st'))))
      else Inr ([], st))"
  by pat_completeness auto
termination
  by (relation "measure (\<lambda>(buf, gap, lim, offset, st, j). lim - j)") auto

declare bs_loop.simps [simp del]

lemma next_line_shorter:
  "has_line st \<Longrightarrow>
   (case snd (snd (next_line st)) of None \<Rightarrow> 0 | Some s \<Rightarrow> Suc (length s))
     < (case snd st of None \<Rightarrow> 0 | Some s \<Rightarrow> Suc (length s))"
  by (cases st) (auto simp: has_line_def next_line_def Let_def split: option.splits)

function bs_rest :: "lines_st \<Rightarrow> (string \<times> lines_st) res" where
  "bs_rest st =
     (if has_line st then
        (let (l, st1) = next_line st in
         bindE (vsprintf (indent60 @ ''%s\<newline>'') [AStr l]) (\<lambda>s.
         bindE (bs_rest st1) (\<lambda>(t, st'). Inr (s @ t, st'))))
      else Inr ([], st))"
  by pat_completeness auto
termination
proof (relation "measure (\<lambda>st. case snd st of None \<Rightarrow> 0 | Some s \<Rightarrow> Suc (length s))", goal_cases)
  case (2 st x y s)
  then show ?case using next_line_shorter [of st] by (cases "next_line st") simp
qed simp

declare bs_rest.simps [simp del]

text \<open>The result is the text written and the string \<open>str\<close> as it is left in memory.\<close>

definition binary_dump_with_string ::
  "u32 \<Rightarrow> u32 \<Rightarrow> byte list option \<Rightarrow> string option \<Rightarrow> (string \<times> string option) res" where
  "binary_dump_with_string offset sz buf str =
     (case buf of None \<Rightarrow> Inr ([], str)
      | Some p \<Rightarrow>
        if sz = 0 then Inr ([], str)
        else
          let gap = dump_gap offset; lim = dump_lim offset sz; post_gap = max gap lim mod 16 in
          bindE (emits [vsprintf ''%08x  '' [AInt (dump_base offset)], Inr (blanks3 gap)]) (\<lambda>s0.
          bindE (bs_loop p gap lim (dump_base offset) ([], str) gap) (\<lambda>(s1, st).
          bindE (if has_line st then
                   (let (l, st1) = next_line st in
                    bindE (emits [(if post_gap \<noteq> 0 then post_gap_fill post_gap else Inr []),
                                  vsprintf ''%s\<newline>'' [AStr l]])
                      (\<lambda>s. Inr (s, st1)))
                 else Inr ([], st)) (\<lambda>(s2, st2).
          bindE (bs_rest st2) (\<lambda>(s3, st3).
          bindE (vsprintf ''\<newline>'' []) (\<lambda>s4.
          Inr (s0 @ s1 @ s2 @ s3 @ s4,
            map_option (\<lambda>_. fst st3 @ (case snd st3 of None \<Rightarrow> [] | Some r \<Rightarrow> r)) str)))))))"

subsection \<open>The static text buffer\<close>

definition perr_text :: "string \<Rightarrow> string \<Rightarrow> u32 \<Rightarrow> string \<Rightarrow> string res" where
  "perr_text file fn line msg =
     vsprintf (''\<newline>File:<%s> Fun:[%s] Line:%d\<newline> '' @ msg) [AStr file, AStr fn, AInt line]"

definition SCREEN_MAX :: nat where "SCREEN_MAX = 4096"

record bin_st =
  screen :: string
  buf_index :: u32
  bin_out :: string  \<comment> \<open>the standard output stream\<close>

definition bin_st0 :: bin_st where
  "bin_st0 = \<lparr>screen = replicate SCREEN_MAX NUL, buf_index = 0, bin_out = []\<rparr>"

definition bin_buffer :: "'a bin_st_scheme \<Rightarrow> string" where
  "bin_buffer st = takeWhile (\<lambda>c. c \<noteq> NUL) (screen st)"

definition bin_buffer_reset :: "'a bin_st_scheme \<Rightarrow> 'a bin_st_scheme" where
  "bin_buffer_reset st = st\<lparr>buf_index := 0\<rparr>"

definition overwrite :: "nat \<Rightarrow> 'b list \<Rightarrow> 'b list \<Rightarrow> 'b list" where
  "overwrite i ys xs = take i xs @ ys @ drop (i + length ys) xs"

text \<open>\<open>vsprintf\<close> writes the text and a terminating NUL; past the array it overflows.\<close>

definition bin_printf ::
  "bool \<Rightarrow> string option \<Rightarrow> carg list \<Rightarrow> 'a bin_st_scheme \<Rightarrow> (int \<times> 'a bin_st_scheme) res" where
  "bin_printf first fmt args st0 =
     (let st = (if first then st0\<lparr>buf_index := 0\<rparr> else st0) in
      case fmt of
        None \<Rightarrow> Inr (sint (buf_index st), st)
      | Some f \<Rightarrow>
        if f = [] then Inr (sint (buf_index st), st)
        else if unat (buf_index st) > SCREEN_MAX then
          bindE (perr_text ''binary_dump.c'' ''bin_printf'' 54 ''screen buffer overflow'') (\<lambda>t.
          Inr (- 1, st\<lparr>bin_out := bin_out st @ t\<rparr>))
        else
          bindE (vsprintf f args) (\<lambda>txt.
          guardE (unat (buf_index st) + length txt + 1 \<le> SCREEN_MAX) BufferOverflow
            (let st' = st\<lparr>screen := overwrite (unat (buf_index st)) (txt @ [NUL]) (screen st),
                          buf_index := buf_index st + word_of_nat (length txt)\<rparr>
             in Inr (sint (buf_index st'), st'))))"

subsection \<open>Text of a byte and of an address\<close>

lemma unat_ucast_byte [simp]: "unat (ucast (b :: byte) :: u32) = unat b"
proof -
  have "unat b < 2 ^ 32" by (rule less_le_trans [OF unat_byte_bound]) simp
  then show ?thesis by (simp add: unsigned_ucast_eq take_bit_nat_eq_self)
qed

lemma hexd_0 [simp]: "hexd 0 = CHR ''0''"
  by code_simp

definition hex2 :: "byte \<Rightarrow> string" where
  "hex2 b = [hexd (unat b div 16), hexd (unat b mod 16)]"

definition hex8 :: "u32 \<Rightarrow> string" where
  "hex8 w = pad_left CHR ''0'' 8 (hexn (unat w))"

lemma pad_hexn_byte [fmt_simps]: "pad_left CHR ''0'' 2 (hexn (unat (b :: byte))) = hex2 b"
proof (cases "unat b < 16")
  case True
  then show ?thesis by (subst digits.simps) (simp add: pad_left_def hex2_def)
next
  case False
  have "unat b div 16 < 16" using unat_byte_bound [of b] by linarith
  then have "hexn (unat b div 16) = [hexd (unat b div 16)]" by (subst digits.simps) simp
  with False show ?thesis by (subst digits.simps) (simp add: pad_left_def hex2_def)
qed

lemma length_hex8 [simp]: "length (hex8 w) = 8"
proof -
  have "unat w < 16 ^ 8" using unsigned_less [of w] by simp
  then have "length (hexn (unat w)) \<le> 8" by (intro length_digits_bound) simp_all
  then show ?thesis by (simp add: hex8_def length_pad_left)
qed

lemma hex_val_hex8 [simp]: "hex_val (hex8 w) = unat w"
  by (simp add: hex8_def)

lemma fmt_indent_line [fmt_simps]: "vsprintf (indent60 @ ''%s\<newline>'') [AStr l] = Inr (indent60 @ l @ [NL])"
proof -
  have "vsprintf (replicate n CHR '' '' @ f) args = bindE (vsprintf f args) (\<lambda>t. Inr (replicate n CHR '' '' @ t))" for n f args
    by (induction n) (simp_all add: vsprintf.simps bindE_assoc)
  then show ?thesis by (simp add: indent60_def fmt_s_nl)
qed

lemma of_char_hexd: "n < 16 \<Longrightarrow> (of_char (hexd n) :: nat) = (if n < 10 then 48 + n else 87 + n)"
  by (simp add: hexd_def)

lemma hexd_neq [simp]:
  assumes "n < 16"
  shows "hexd n \<noteq> CHR '' ''" and "hexd n \<noteq> NL"
proof -
  have "(of_char (hexd n) :: nat) \<ge> 48" using assms by (simp add: of_char_hexd)
  moreover have "(of_char CHR '' '' :: nat) = 32" and "(of_char NL :: nat) = 10"
    by (simp_all add: NL_def)
  ultimately show "hexd n \<noteq> CHR '' ''" and "hexd n \<noteq> NL" by force+
qed

subsection \<open>Reading a dump back\<close>

text \<open>
  \<open>parse_dump\<close> is a reader of the dump format, written independently of the dump: a
  row is an address of eight digits and two blanks, then cells of three characters, blank
  for a cell before the first byte; it gives every byte with the address of its cell.
\<close>

definition hex_byte :: "char \<Rightarrow> char \<Rightarrow> byte" where
  "hex_byte a b = word_of_nat (16 * hexval a + hexval b)"

function parse_cells :: "nat \<Rightarrow> string \<Rightarrow> (nat \<times> byte) list" where
  "parse_cells addr s =
     (case s of
        a # b # c # r \<Rightarrow>
          if a = NL then []
          else if a = CHR '' '' then parse_cells (addr + 1) r
          else (addr, hex_byte a b) #
            (if c = NL
             then (if take 1 r = [NL] then [] else parse_cells (hex_val (take 8 r)) (drop 10 r))
             else parse_cells (addr + 1) r)
      | _ \<Rightarrow> [])"
  by pat_completeness auto
termination
  by (relation "measure (\<lambda>(addr, s). length s)") auto

declare parse_cells.simps [simp del]

lemma set_digits: "2 \<le> base \<Longrightarrow> set (digits d base n) \<subseteq> d ` {..<base}"
proof (induction d base n rule: digits.induct)
  case (1 d base n)
  then show ?case by (subst digits.simps) auto
qed

lemma NL_notin_hex8: "NL \<notin> set (hex8 w)"
proof -
  have "NL \<notin> hexd ` {..<16}" by (auto dest: sym)
  then have "NL \<notin> set (hexn (unat w))" using set_digits [of 16 hexd "unat w"] by auto
  then show ?thesis by (auto simp: hex8_def pad_left_def NL_def)
qed

definition parse_dump :: "string \<Rightarrow> (nat \<times> byte) list" where
  "parse_dump s = parse_cells (hex_val (take 8 s)) (drop 10 s)"

lemma hex_byte_hex2: "hex_byte (hexd (unat b div 16)) (hexd (unat b mod 16)) = b"
proof -
  have "unat b div 16 < 16" using less_mult_imp_div_less [of "unat b" 16 16] by simp
  then show ?thesis by (simp add: hex_byte_def)
qed

lemma parse_blank: "parse_cells addr (CHR '' '' # CHR '' '' # CHR '' '' # s) = parse_cells (addr + 1) s"
  by (subst parse_cells.simps) (simp add: NL_def)

lemma parse_gap: "parse_cells addr (blanks3 n @ s) = parse_cells (addr + n) s"
  by (induction n arbitrary: addr) (simp_all add: blanks3_def parse_blank)

lemma parse_end: "parse_cells addr [NL, NL] = []"
  by (simp add: parse_cells.simps)

lemma parse_cell: "parse_cells addr (hex2 b @ CHR '' '' # s) = (addr, b) # parse_cells (addr + 1) s"
proof -
  have "unat b div 16 < 16" using less_mult_imp_div_less [of "unat b" 16 16] by simp
  then show ?thesis
    by (subst parse_cells.simps) (simp add: hex2_def hex_byte_hex2, simp add: NL_def)
qed

lemma parse_last_cell: "parse_cells addr (hex2 b @ [NL, NL]) = [(addr, b)]"
proof -
  have "unat b div 16 < 16" using less_mult_imp_div_less [of "unat b" 16 16] by simp
  then show ?thesis by (subst parse_cells.simps) (simp add: hex2_def hex_byte_hex2)
qed

lemma parse_row_end:
  "parse_cells addr (hex2 b @ NL # hex8 w @ ''  '' @ s) = (addr, b) # parse_cells (unat w) s"
proof -
  have "unat b div 16 < 16" using less_mult_imp_div_less [of "unat b" 16 16] by simp
  moreover have "take 1 (hex8 w @ ''  '' @ s) \<noteq> [NL]"
    using NL_notin_hex8 [of w] length_hex8 [of w] by (cases "hex8 w") auto
  ultimately show ?thesis by (subst parse_cells.simps) (simp add: hex2_def hex_byte_hex2)
qed

lemma unat_dump_base: "unat (dump_base offset) = unat offset div 16 * 16"
proof -
  have "unat offset < 2 ^ 32" using unat_u32_bound [of offset] by simp
  then have "unat offset div 16 * 16 < 2 ^ 32" and "unat offset div 16 < 2 ^ 32"
    by linarith+
  then show ?thesis by (simp add: dump_base_def unat_word_ariths unat_div)
qed

lemma unat_dump_base_mod: "unat (dump_base offset) mod 16 = 0"
  by (simp add: unat_dump_base)

lemma dump_offset_split: "unat (dump_base offset) + dump_gap offset = unat offset"
  by (simp add: unat_dump_base dump_gap_def unat_mod)

lemma dump_gap_less [simp]: "dump_gap offset < 16"
  by (simp add: dump_gap_def unat_mod)

lemma dump_lim_eq:
  assumes "dump_gap offset + unat sz < 2 ^ 32"
  shows "dump_lim offset sz = dump_gap offset + unat sz"
  using assms by (simp add: dump_lim_def dump_gap_def unat_word_ariths)

text \<open>
  The loop at \<open>j\<close>, read back from the address of \<open>j\<close>, gives the bytes from
  \<open>j\<close> on, each at its own address.
\<close>

lemma bd_loop_parse:
  assumes "lim = gap + length buf" and "gap \<le> j" and "j \<le> lim" and "lim \<le> INT_MAX"
    and "unat offset mod 16 = 0" and "unat offset + (lim - j div 16 * 16) < 2 ^ 32"
  shows "\<exists>s. bd_loop buf gap lim offset j = Inr s \<and>
           parse_cells (unat offset + j mod 16) (s @ [NL, NL]) =
             zip [unat offset + j mod 16 ..< unat offset + j mod 16 + (lim - j)] (drop (j - gap) buf)"
  using assms
proof (induction buf gap lim offset j rule: bd_loop.induct)
  case (1 buf gap lim offset j)
  show ?case
  proof (cases "j < lim")
    case False
    then have "j = lim" using "1.prems" by simp
    then show ?thesis using "1.prems" by (subst bd_loop.simps) (simp add: parse_end)
  next
    case True
    define b where "b = buf ! (j - gap)"
    have at: "buf_at buf (j - gap) = Inr b" and dr: "drop (j - gap) buf = b # drop (j + 1 - gap) buf"
      using True "1.prems" by (auto simp: buf_at_def b_def Cons_nth_drop_Suc Suc_diff_le)
    have ok: "\<not> INT_MAX \<le> j" using True "1.prems" by simp
    let ?A = "unat offset + j mod 16"
    have "?A + (lim - j) = ?A + 1 + (lim - (j + 1))" using True by linarith
    then have up: "[?A ..< ?A + (lim - j)] = ?A # [?A + 1 ..< ?A + 1 + (lim - (j + 1))]"
      using upt_conv_Cons [of ?A "?A + 1 + (lim - (j + 1))"] by simp
    show ?thesis
    proof (cases "(j + 1) mod 16 = 0")
      case False
      have m: "(j + 1) mod 16 = j mod 16 + 1" by (rule row_step [OF False, THEN conjunct1])
      have d: "(j + 1) div 16 = j div 16" by (rule row_step [OF False, THEN conjunct2])
      obtain t where t: "bd_loop buf gap lim offset (j + 1) = Inr t"
        "parse_cells (unat offset + (j + 1) mod 16) (t @ [NL, NL]) =
           zip [unat offset + (j + 1) mod 16 ..< unat offset + (j + 1) mod 16 + (lim - (j + 1))]
             (drop (j + 1 - gap) buf)"
        using "1.IH"(2) [OF True ok at] False "1.prems" True d by auto
      have "bd_loop buf gap lim offset j = Inr (hex2 b @ '' '' @ t)"
        using True ok at False t(1) by (subst bd_loop.simps) (simp add: fmt_simps)
      then show ?thesis using t(2) m up dr by (simp add: parse_cell)
    next
      case row: True
      have j15: "j mod 16 = 15" by (rule row_last [OF row, THEN conjunct1])
      have d: "(j + 1) div 16 = j div 16 + 1" by (rule row_last [OF row, THEN conjunct2])
      show ?thesis
      proof (cases "j + 1 = lim")
        case last: True
        have "bd_loop buf gap lim offset j = Inr (hex2 b)"
          using True ok at row last
          by (subst bd_loop.simps, subst bd_loop.simps) (simp add: fmt_simps)
        moreover have "zip [?A ..< ?A + (lim - j)] (drop (j - gap) buf) = [(?A, b)]"
          unfolding up dr using last by simp
        ultimately show ?thesis using parse_last_cell by simp
      next
        case more: False
        have lt: "unat offset + 16 < 2 ^ 32" using "1.prems"(6) True more j15 div_mult_mod_eq [of j 16] by linarith
        then have o: "unat (offset + 16) = unat offset + 16" by (simp add: unat_word_ariths)
        obtain t where t: "bd_loop buf gap lim (offset + 16) (j + 1) = Inr t"
          "parse_cells (unat offset + 16) (t @ [NL, NL]) =
             zip [unat offset + 16 ..< unat offset + 16 + (lim - (j + 1))] (drop (j + 1 - gap) buf)"
          using "1.IH"(1) [OF True ok at row] more True "1.prems" o d row by auto
        have "bd_loop buf gap lim offset j = Inr (hex2 b @ NL # hex8 (offset + 16) @ ''  '' @ t)"
          using True ok at row more t(1)
          by (subst bd_loop.simps) (simp add: fmt_simps hex8_def)
        then show ?thesis using t(2) o up dr j15 by (simp add: parse_row_end [simplified] add.commute)
      qed
    qed
  qed
qed

lemma binary_dump_parses:
  assumes "0 < length buf" and "unat offset mod 16 + length buf \<le> INT_MAX"
    and "unat offset + length buf < 2 ^ 32"
  shows "\<exists>s. binary_dump offset (word_of_nat (length buf)) (Some buf) = Inr s \<and>
           parse_dump s = zip [unat offset ..< unat offset + length buf] buf"
proof -
  let ?sz = "word_of_nat (length buf) :: u32" and ?gap = "dump_gap offset"
  have sz: "unat ?sz = length buf" using assms(3) by (simp add: unat_of_nat)
  then have sz0: "?sz \<noteq> 0" using assms(1) by auto
  have gap: "?gap = unat offset mod 16" by (simp add: dump_gap_def unat_mod)
  have lim: "dump_lim offset ?sz = ?gap + length buf"
    using assms(2) sz by (simp add: dump_lim_eq gap INT_MAX_def)
  note base = unat_dump_base_mod [of offset]
  obtain t where t: "bd_loop buf ?gap (?gap + length buf) (dump_base offset) ?gap = Inr t"
    "parse_cells (unat (dump_base offset) + ?gap mod 16) (t @ [NL, NL]) =
       zip [unat (dump_base offset) + ?gap mod 16 ..<
            unat (dump_base offset) + ?gap mod 16 + length buf] buf"
    using bd_loop_parse [of "?gap + length buf" ?gap buf ?gap "dump_base offset"]
      assms base dump_offset_split [of offset] by (auto simp: gap)
  have "binary_dump offset ?sz (Some buf) =
      Inr (hex8 (dump_base offset) @ ''  '' @ blanks3 ?gap @ t @ [NL, NL])"
    using sz0 lim t(1) by (simp add: binary_dump_def fmt_simps hex8_def NL_def)
  then show ?thesis
    using t(2) dump_offset_split [of offset] by (simp add: parse_dump_def parse_gap)
qed

text \<open>C1: reading the plain dump back gives every byte of the buffer at its own file offset.\<close>

theorem binary_dump_roundtrip:
  assumes "0 < length buf" and "unat offset mod 16 + length buf \<le> INT_MAX"
    and "unat offset + length buf < 2 ^ 32"
  shows "\<exists>s. binary_dump offset (word_of_nat (length buf)) (Some buf) = Inr s \<and>
           parse_dump s = zip [unat offset ..< unat offset + length buf] buf"
  by (rule binary_dump_parses [OF assms])

theorem binary_dump_roundtrip_witness:
  "\<exists>s. binary_dump 30 (word_of_nat (length [1 :: byte, 2, 255])) (Some [1, 2, 255]) = Inr s \<and>
       parse_dump s = zip [unat (30 :: u32) ..< unat (30 :: u32) + length [1 :: byte, 2, 255]] [1, 2, 255]"
  by (rule binary_dump_roundtrip) (simp_all add: INT_MAX_def)

end
