(* ===== verification/BinText.thy ===== *)
theory BinText
  imports BinaryDump
begin

text \<open>
  The contract of the static text buffer of \<open>binary_dump.c\<close>: an append-only text of
  bounded capacity, stated as a locale for the clients that fill the buffer piece by piece,
  and its interpretation on \<open>bin_printf\<close>, \<open>bin_buffer_reset\<close> and
  \<open>bin_buffer\<close>. Also the comment column of \<open>binary_dump_with_comment\<close>.
\<close>

subsection \<open>The interface\<close>

locale text_buffer =
  fixes reset :: "'s \<Rightarrow> 's"
    and put :: "string \<Rightarrow> 's \<Rightarrow> 's res"
    and content :: "'s \<Rightarrow> string"
    and reader :: "'s \<Rightarrow> string"
    and capacity :: nat
    and inv :: "'s \<Rightarrow> bool"
  assumes inv_reset: "inv s \<Longrightarrow> inv (reset s) \<and> content (reset s) = []"
    and put_fits: "inv s \<Longrightarrow> NUL \<notin> set t \<Longrightarrow> length (content s) + length t < capacity \<Longrightarrow>
      \<exists>s'. put t s = Inr s' \<and> inv s' \<and> content s' = content s @ t \<and> reader s' = content s'"
    and put_overflows: "inv s \<Longrightarrow> capacity \<le> length (content s) + length t \<Longrightarrow>
      put t s = Inl BufferOverflow"
    and content_bound: "inv s \<Longrightarrow> length (content s) < capacity"
begin

primrec puts :: "string list \<Rightarrow> 's \<Rightarrow> 's res" where
  "puts [] s = Inr s"
| "puts (t # ts) s = bindE (put t s) (puts ts)"

lemma puts_fits:
  assumes "inv s" and "\<forall>t \<in> set ts. NUL \<notin> set t"
    and "length (content s) + length (concat ts) < capacity"
  shows "\<exists>s'. puts ts s = Inr s' \<and> inv s' \<and> content s' = content s @ concat ts \<and>
    (ts \<noteq> [] \<longrightarrow> reader s' = content s')"
  using assms
proof (induction ts arbitrary: s)
  case (Cons t ts)
  then obtain s1 where s1: "put t s = Inr s1" "inv s1" "content s1 = content s @ t" "reader s1 = content s1"
    using put_fits [of s t] by auto
  with Cons.prems Cons.IH [of s1] show ?case by (cases "ts = []") auto
qed simp

lemma puts_overflow:
  assumes "inv s" and "\<forall>t \<in> set ts. NUL \<notin> set t"
    and "capacity \<le> length (content s) + length (concat ts)"
  shows "puts ts s = Inl BufferOverflow"
  using assms
proof (induction ts arbitrary: s)
  case Nil
  then show ?case using content_bound by fastforce
next
  case (Cons t ts)
  show ?case
  proof (cases "length (content s) + length t < capacity")
    case True
    then obtain s1 where "put t s = Inr s1" "inv s1" "content s1 = content s @ t"
      using put_fits [of s t] Cons.prems by auto
    with Cons show ?thesis by simp
  next
    case False
    then show ?thesis using put_overflows [of s t] Cons.prems(1) by simp
  qed
qed

lemma fill_after_reset:
  assumes "inv s" and "\<forall>t \<in> set ts. NUL \<notin> set t" and "ts \<noteq> []" and "length (concat ts) < capacity"
  shows "\<exists>s'. puts ts (reset s) = Inr s' \<and> inv s' \<and> reader s' = concat ts"
  using puts_fits [of "reset s" ts] inv_reset [of s] assms by auto

end

subsection \<open>The provider\<close>

definition bin_content :: "'a bin_st_scheme \<Rightarrow> string" where
  "bin_content st = take (unat (buf_index st)) (screen st)"

definition bin_inv :: "'a bin_st_scheme \<Rightarrow> bool" where
  "bin_inv st = (length (screen st) = SCREEN_MAX \<and> unat (buf_index st) < SCREEN_MAX \<and>
     NUL \<notin> set (bin_content st))"

text \<open>Appending a text whose conversion has been done: \<open>bin_printf(0, "%s", t)\<close>.\<close>

definition bin_put :: "string \<Rightarrow> 'a bin_st_scheme \<Rightarrow> 'a bin_st_scheme res" where
  "bin_put t st = bindE (bin_printf False (Some ''%s'') [AStr t] st) (\<lambda>r. Inr (snd r))"

lemma bin_printf_text:
  assumes "vsprintf f args = Inr t" and "f \<noteq> []" and "unat (buf_index st) \<le> SCREEN_MAX"
  shows "bindE (bin_printf False (Some f) args st) (\<lambda>r. Inr (snd r)) = bin_put t st"
  using assms by (simp add: bin_put_def bin_printf_def fmt_simps Let_def guardE_def)

lemma bin_inv_reset: "bin_inv st \<Longrightarrow> bin_inv (bin_buffer_reset st) \<and> bin_content (bin_buffer_reset st) = []"
  by (simp add: bin_inv_def bin_content_def bin_buffer_reset_def SCREEN_MAX_def)

lemma bin_put_overflows:
  "bin_inv st \<Longrightarrow> SCREEN_MAX \<le> length (bin_content st) + length t \<Longrightarrow> bin_put t st = Inl BufferOverflow"
  by (simp add: bin_put_def bin_printf_def fmt_simps bin_inv_def bin_content_def Let_def guardE_def)

lemma bin_put_fits:
  assumes "bin_inv st" and "NUL \<notin> set t" and "length (bin_content st) + length t < SCREEN_MAX"
  shows "\<exists>st'. bin_put t st = Inr st' \<and> bin_inv st' \<and> bin_content st' = bin_content st @ t \<and>
    bin_buffer st' = bin_content st'"
proof -
  let ?i = "unat (buf_index st)"
  let ?scr = "overwrite ?i (t @ [NUL]) (screen st)" and ?idx = "buf_index st + word_of_nat (length t)"
  have len: "length (screen st) = SCREEN_MAX" and i: "?i < SCREEN_MAX" and c: "length (bin_content st) = ?i"
    and nul: "NUL \<notin> set (take ?i (screen st))"
    using assms(1) by (simp_all add: bin_inv_def bin_content_def)
  have fit: "?i + length t < SCREEN_MAX" using assms(3) c by simp
  then have "unat (word_of_nat (length t) :: u32) = length t"
    by (simp add: unat_of_nat SCREEN_MAX_def)
  then have idx: "unat ?idx = ?i + length t"
    using fit by (simp add: unat_word_ariths SCREEN_MAX_def)
  have scr: "?scr = take ?i (screen st) @ t @ [NUL] @ drop (?i + length t + 1) (screen st)"
    by (simp add: overwrite_def)
  have put: "bin_put t st = Inr (st\<lparr>screen := ?scr, buf_index := ?idx\<rparr>)" (is "_ = Inr ?st'")
    using fit i by (simp add: bin_put_def bin_printf_def fmt_simps Let_def)
  have "length (take ?i (screen st)) = ?i" using len i by simp
  then have cont: "bin_content ?st' = take ?i (screen st) @ t"
    using idx by (simp add: bin_content_def scr)
  moreover have "length ?scr = SCREEN_MAX" using len fit i unfolding scr by simp
  then have "bin_inv ?st'" using cont idx fit nul assms(2) by (simp add: bin_inv_def)
  moreover have "bin_buffer ?st' = take ?i (screen st) @ t"
    using nul assms(2) by (simp add: bin_buffer_def scr takeWhile_append2 flip: append_assoc)
       (subst takeWhile_append2; auto)
  ultimately show ?thesis using put by (simp add: bin_content_def [of st])
qed

interpretation bt: text_buffer
  bin_buffer_reset bin_put bin_content bin_buffer SCREEN_MAX bin_inv
proof unfold_locales
  fix s :: "'a bin_st_scheme" and t
  show "bin_inv s \<Longrightarrow> bin_inv (bin_buffer_reset s) \<and> bin_content (bin_buffer_reset s) = []"
    by (rule bin_inv_reset)
  show "bin_inv s \<Longrightarrow> NUL \<notin> set t \<Longrightarrow> length (bin_content s) + length t < SCREEN_MAX \<Longrightarrow>
      \<exists>s'. bin_put t s = Inr s' \<and> bin_inv s' \<and> bin_content s' = bin_content s @ t \<and> bin_buffer s' = bin_content s'"
    by (rule bin_put_fits)
  show "bin_inv s \<Longrightarrow> SCREEN_MAX \<le> length (bin_content s) + length t \<Longrightarrow> bin_put t s = Inl BufferOverflow"
    by (rule bin_put_overflows)
  show "bin_inv s \<Longrightarrow> length (bin_content s) < SCREEN_MAX"
    by (simp add: bin_inv_def bin_content_def)
qed

subsection \<open>Sequences of \<open>bin_printf\<close> calls\<close>

text \<open>The calls \<open>bin_printf(0, fmt, ...)\<close> in a row, as the dump functions make them.\<close>

primrec bin_calls :: "(string \<times> carg list) list \<Rightarrow> 'a bin_st_scheme \<Rightarrow> 'a bin_st_scheme res" where
  "bin_calls [] st = Inr st"
| "bin_calls (c # cs) st =
     bindE (bin_printf False (Some (fst c)) (snd c) st) (\<lambda>r. bin_calls cs (snd r))"

definition call_text :: "string \<times> carg list \<Rightarrow> string \<Rightarrow> bool" where
  "call_text c t = (fst c \<noteq> [] \<and> vsprintf (fst c) (snd c) = Inr t \<and> NUL \<notin> set t)"

lemma bin_calls_puts:
  assumes "list_all2 call_text cs ts" and "bin_inv st"
  shows "bin_calls cs st = bt.puts ts st"
  using assms
proof (induction arbitrary: st rule: list_all2_induct)
  case (Cons c cs t ts)
  have "bindE (bin_printf False (Some (fst c)) (snd c) st) (\<lambda>r. Inr (snd r)) = bin_put t st"
    using Cons.hyps(1) Cons.prems by (intro bin_printf_text) (simp_all add: call_text_def bin_inv_def)
  moreover have "bin_calls (c # cs) st =
      bindE (bindE (bin_printf False (Some (fst c)) (snd c) st) (\<lambda>r. Inr (snd r))) (bin_calls cs)"
    by (simp add: bindE_assoc)
  ultimately have step: "bin_calls (c # cs) st = bindE (bin_put t st) (bin_calls cs)" by simp
  have nul: "NUL \<notin> set t" using Cons.hyps(1) by (simp add: call_text_def)
  show ?case
  proof (cases "length (bin_content st) + length t < SCREEN_MAX")
    case True
    then obtain st1 where "bin_put t st = Inr st1" "bin_inv st1"
      using bin_put_fits [OF Cons.prems nul] by blast
    then show ?thesis using step Cons.IH by simp
  next
    case False
    then have "bin_put t st = Inl BufferOverflow"
      using bin_put_overflows [OF Cons.prems, of t] by simp
    then show ?thesis using step by simp
  qed
qed simp

lemma call_texts_NUL: "list_all2 call_text cs ts \<Longrightarrow> \<forall>t \<in> set ts. NUL \<notin> set t"
  by (induction rule: list_all2_induct) (auto simp: call_text_def)

text \<open>
  C2: after a reset, a sequence of \<open>bin_printf\<close> calls leaves in the buffer exactly the
  concatenation of their texts when that is shorter than the array; otherwise some call
  writes past the end of the array, although none of them fails the check at its start.
\<close>

theorem bin_printf_sequence:
  assumes "bin_inv st" and "list_all2 call_text cs ts" and "cs \<noteq> []"
  shows "if length (concat ts) < SCREEN_MAX
    then \<exists>st'. bin_calls cs (bin_buffer_reset st) = Inr st' \<and> bin_inv st' \<and> bin_buffer st' = concat ts
    else bin_calls cs (bin_buffer_reset st) = Inl BufferOverflow"
proof -
  note inv = bin_inv_reset [OF assms(1)]
  have "bin_calls cs (bin_buffer_reset st) = bt.puts ts (bin_buffer_reset st)"
    using assms(2) inv by (intro bin_calls_puts) simp_all
  moreover have "ts \<noteq> []" using assms(2,3) by auto
  ultimately show ?thesis
    using bt.fill_after_reset [OF assms(1) call_texts_NUL [OF assms(2)]]
      bt.puts_overflow [OF _ call_texts_NUL [OF assms(2)], of "bin_buffer_reset st"] inv
    by auto
qed

lemma bin_inv_st0: "bin_inv bin_st0"
  by (simp add: bin_inv_def bin_st0_def bin_content_def SCREEN_MAX_def)

theorem bin_printf_sequence_witness:
  "\<exists>st'. bin_calls [(''%s\<newline>'', [AStr ''NULL'']), (''add %08x\<newline>'', [AInt 255])] (bin_buffer_reset bin_st0) = Inr st' \<and>
     bin_inv st' \<and> bin_buffer st' = ''NULL\<newline>add 000000ff\<newline>''"
proof -
  have "vsprintf ''add %08x\<newline>'' [AInt 255] = Inr ''add 000000ff\<newline>''" by code_simp
  then have "list_all2 call_text [(''%s\<newline>'', [AStr ''NULL'']), (''add %08x\<newline>'', [AInt 255])]
      [''NULL\<newline>'', ''add 000000ff\<newline>'']"
    by (simp add: call_text_def fmt_simps NL_def NUL_def)
  from bin_printf_sequence [OF bin_inv_st0 this] show ?thesis
    by (simp add: SCREEN_MAX_def)
qed

subsection \<open>The comment column\<close>

lemma bcm_fill_blank:
  "\<forall>k \<in> set ks. post_gap \<le> k \<Longrightarrow> bcm_fill argc argv post_gap ks li = Inr (blanks3 (length ks), li)"
  by (induction ks) (auto simp: fmt_simps blanks3_def)

lemma bcm_rest_all:
  assumes "li \<le> length argv"
  shows "bcm_rest (int (length argv)) argv li = Inr (concat (map (\<lambda>c. indent60 @ c @ [NL]) (drop li argv)))"
  using assms
proof (induction "length argv - li" arbitrary: li)
  case 0
  then show ?case by (subst bcm_rest.simps) simp
next
  case (Suc n)
  then have lt: "li < length argv" by simp
  have "bcm_rest (int (length argv)) argv (li + 1) =
      Inr (concat (map (\<lambda>c. indent60 @ c @ [NL]) (drop (li + 1) argv)))"
    using Suc.hyps(1) [of "li + 1"] Suc.hyps(2) Suc.prems by simp
  then show ?case using lt
    by (subst bcm_rest.simps) (simp add: fmt_simps buf_at_def flip: Cons_nth_drop_Suc)
qed

lemma bcm_loop_cells:
  assumes "lim = gap + length buf" and "gap \<le> j" and "j \<le> lim" and "lim < 16"
  shows "bcm_loop buf argc argv gap lim offset li j =
    Inr (concat (map (\<lambda>b. hex2 b @ '' '') (drop (j - gap) buf)), li)"
  using assms
proof (induction "lim - j" arbitrary: j)
  case 0
  then show ?case by (subst bcm_loop.simps) simp
next
  case (Suc n)
  then have lt: "j < lim" and "(j + 1) mod 16 \<noteq> 0" and "j < INT_MAX" by (simp_all add: INT_MAX_def)
  moreover have "drop (j - gap) buf = buf ! (j - gap) # drop (j + 1 - gap) buf" and "j - gap < length buf"
    using lt Suc.prems by (auto simp: Cons_nth_drop_Suc Suc_diff_le)
  moreover have "bcm_loop buf argc argv gap lim offset li (j + 1) =
      Inr (concat (map (\<lambda>b. hex2 b @ '' '') (drop (j + 1 - gap) buf)), li)"
    using Suc lt by simp
  ultimately show ?case by (subst bcm_loop.simps) (simp add: fmt_simps buf_at_def)
qed

text \<open>
  no comment is ever printed beside a partial row: a buffer that ends before the last
  column of its first row is followed by blanks only, and every comment, the first
  included, goes to a row of its own after it. The test \<open>k + 1 == post_gap\<close> in the loop
  that starts at \<open>k = post_gap\<close> never holds.
\<close>

theorem binary_dump_with_comment_partial:
  assumes "0 < length buf" and "dump_gap offset + length buf < 16"
  shows "binary_dump_with_comment offset (word_of_nat (length buf)) (Some buf) (int (length argv)) argv =
    Inr (hex8 (dump_base offset) @ ''  '' @ blanks3 (dump_gap offset) @
         concat (map (\<lambda>b. hex2 b @ '' '') buf) @ blanks3 (16 - (dump_gap offset + length buf)) @ [NL] @
         concat (map (\<lambda>c. indent60 @ c @ [NL]) argv) @ [NL])"
proof -
  let ?sz = "word_of_nat (length buf) :: u32" and ?gap = "dump_gap offset"
  let ?lim = "?gap + length buf"
  have sz: "unat ?sz = length buf" using assms(2) by (simp add: unat_of_nat)
  then have sz0: "?sz \<noteq> 0" using assms(1) by auto
  have lim: "dump_lim offset ?sz = ?lim" using assms(2) sz by (simp add: dump_lim_eq)
  have "bcm_fill (int (length argv)) argv ?lim [?lim..<16] li = Inr (blanks3 (16 - ?lim), li)" for li
    using bcm_fill_blank [of "[?lim..<16]" ?lim] by simp
  then show ?thesis
    using sz0 lim assms bcm_loop_cells [of ?lim ?gap buf ?gap] bcm_rest_all [of 0 argv]
    by (simp add: binary_dump_with_comment_def Let_def fmt_simps hex8_def [symmetric] NL_def)
qed

theorem binary_dump_with_comment_partial_witness:
  "binary_dump_with_comment 2 (word_of_nat (length [1 :: byte, 2])) (Some [1, 2]) (int (length [''ab''])) [''ab''] =
    Inr (hex8 (dump_base 2) @ ''  '' @ blanks3 (dump_gap 2) @
         concat (map (\<lambda>b. hex2 b @ '' '') [1, 2]) @ blanks3 (16 - (dump_gap 2 + length [1 :: byte, 2])) @ [NL] @
         concat (map (\<lambda>c. indent60 @ c @ [NL]) [''ab'']) @ [NL])"
  by (rule binary_dump_with_comment_partial) (simp_all add: dump_gap_def)

end
