(* ===== verification/ElfDump.thy ===== *)
theory ElfDump
  imports ElfReader ElfNames BinText
begin

text \<open>
  The program of \<open>elf.c\<close>. Its global variables, the static buffer of
  \<open>binary_dump.c\<close> and the state of the system are one record; every function of the
  file is a computation on it. What the dump functions print goes to the error stream.
\<close>

subsection \<open>State\<close>

record elf_globals =
  world :: os
  bin :: bin_st
  dump_raw :: bool
  dump_content :: bool
  dump_header :: bool
  dump_section_header :: bool
  dump_strtab :: bool
  dump_symtab :: bool
  dump_comment :: bool
  dump_rodata :: bool
  dump_data :: bool
  dump_bss :: bool
  dump_text :: bool
  dump_pheader :: bool
  dump_dyn :: bool
  in_fd :: int
  elf_header :: heapbuf
  elf_shstrtab_header :: heapbuf
  elf_shstrtab :: heapbuf
  section_offset :: int
  section_size :: int
  section_count :: int          \<comment> \<open>\<open>section_num\<close>\<close>
  section_heads :: "heapbuf list" \<comment> \<open>\<open>elf_section_head[100]\<close>\<close>
  strtab_index :: int
  symtab_index :: int
  elf_ph_buf :: heapbuf
  elf_strtab_buf :: heapbuf
  elf_sym_buf :: heapbuf

type_synonym 'a dm = "('a, elf_globals) st"

text \<open>The globals at the start of the program.\<close>

definition elf_start :: "os \<Rightarrow> elf_globals" where
  "elf_start w =
     \<lparr>world = w, bin = bin_st0, dump_raw = True, dump_content = False, dump_header = True,
      dump_section_header = True, dump_strtab = True, dump_symtab = True, dump_comment = False,
      dump_rodata = True, dump_data = True, dump_bss = True, dump_text = True, dump_pheader = True,
      dump_dyn = True, in_fd = 0, elf_header = None, elf_shstrtab_header = None, elf_shstrtab = None,
      section_offset = 0, section_size = 0, section_count = 0, section_heads = replicate 100 None,
      strtab_index = 0, symtab_index = 0, elf_ph_buf = None, elf_strtab_buf = None, elf_sym_buf = None\<rparr>"

definition on_os :: "'a sm \<Rightarrow> 'a dm" where
  "on_os m g = bindE (m (world g)) (\<lambda>(x, w). Inr (x, g\<lparr>world := w\<rparr>))"

definition getsS :: "('s \<Rightarrow> 'a) \<Rightarrow> ('a, 's) st" where "getsS f g = Inr (f g, g)"

definition modifyS :: "('s \<Rightarrow> 's) \<Rightarrow> (unit, 's) st" where "modifyS f g = Inr ((), f g)"

definition eprint :: "string \<Rightarrow> carg list \<Rightarrow> unit dm" where
  "eprint fmt args = on_os (eprintf fmt args)"

text \<open>Calls of \<open>bin_printf\<close>, with its first argument, and of the dump functions.\<close>

definition bprintf :: "bool \<Rightarrow> string \<Rightarrow> carg list \<Rightarrow> unit dm" where
  "bprintf first fmt args g =
     bindE (bin_printf first (Some fmt) args (bin g)) (\<lambda>(n, b). Inr ((), g\<lparr>bin := b\<rparr>))"

definition bin_reset :: "unit dm" where
  "bin_reset = modifyS (\<lambda>g. g\<lparr>bin := bin_buffer_reset (bin g)\<rparr>)"

definition dump_plain :: "u32 \<Rightarrow> u32 \<Rightarrow> byte list option \<Rightarrow> unit dm" where
  "dump_plain off n buf = bindS (liftS (binary_dump off n buf)) (\<lambda>t. on_os (put_err t))"

definition dump_char :: "u32 \<Rightarrow> u32 \<Rightarrow> byte list option \<Rightarrow> unit dm" where
  "dump_char off n buf = bindS (liftS (binary_dump_with_char off n buf)) (\<lambda>t. on_os (put_err t))"

text \<open>\<open>binary_dump_with_string(off, n, buf, bin_buffer())\<close>, which overwrites the newlines of the buffer.\<close>

definition dump_screen :: "u32 \<Rightarrow> u32 \<Rightarrow> byte list option \<Rightarrow> unit dm" where
  "dump_screen off n buf g =
     bindE (binary_dump_with_string off n buf (Some (bin_buffer (bin g)))) (\<lambda>(t, str).
     bindE (deref str) (\<lambda>str'.
     on_os (put_err t) (g\<lparr>bin := (bin g)\<lparr>screen := overwrite 0 str' (screen (bin g))\<rparr>\<rparr>)))"

text \<open>The bytes at a pointer, and an \<open>int\<close> passed as \<open>unsigned int\<close>.\<close>

definition ptr_bytes :: "heapbuf \<Rightarrow> nat \<Rightarrow> byte list option" where
  "ptr_bytes p k = map_option (\<lambda>(q, b). drop k b) p"

definition u32_arg :: "int \<Rightarrow> u32" where "u32_arg n = word_of_int n"

definition str_at :: "heapbuf \<Rightarrow> int \<Rightarrow> string res" where
  "str_at p k = bindE (deref p) (\<lambda>(q, b). if k < 0 then Inl OutOfBounds else cstr_at b (nat k))"

subsection \<open>Headers\<close>

definition elf_header_dump :: "unit dm" where
  "elf_header_dump =
     bindS bin_reset (\<lambda>_.
     bindS (getsS elf_header) (\<lambda>hp.
     bindS (liftS (in_buf ehdr_at hp 0)) (\<lambda>h.
     bindS (if e_type h = ET_NONE then bprintf False ''unknown type\<newline>'' []
            else if e_type h = ET_REL then bprintf False ''Relocable file\<newline>'' []
            else if e_type h = ET_EXEC then bprintf False ''Executable file\<newline>'' []
            else if e_type h = ET_DYN then bprintf False ''DYN file\<newline>'' []
            else bprintf False ''unknow\<newline>'' []) (\<lambda>_.
     bindS (if e_machine h = EM_386 then bprintf False ''i386\<newline>'' []
            else if e_machine h = EM_X86_64 then bprintf False ''x84_64\<newline>'' []
            else if e_machine h = EM_S390 then bprintf False ''s390\<newline>'' []
            else bprintf False ''other\<newline>'' []) (\<lambda>_.
     bindS (bprintf False ''entry %08lX\<newline>'' [AInt (e_entry h)]) (\<lambda>_.
     bindS (bprintf False ''PROGRAM HEADER\<newline>'' []) (\<lambda>_.
     bindS (bprintf False ''OFFSET     : %X\<newline>'' [ALong (ucast (e_phoff h))]) (\<lambda>_.
     bindS (bprintf False ''ENTRY SIZE : %X\<newline>'' [AInt (ucast (e_phentsize h))]) (\<lambda>_.
     bindS (bprintf False ''ENTRY NUM  : %X\<newline>'' [AInt (ucast (e_phnum h))]) (\<lambda>_.
     bindS (bprintf False ''SECTION HEADER\<newline>'' []) (\<lambda>_.
     bindS (bprintf False ''OFFSET     : %X\<newline>'' [AInt (e_shoff h)]) (\<lambda>_.
     bindS (bprintf False ''ENTRY SIZE : %X\<newline>'' [AInt (ucast (e_shentsize h))]) (\<lambda>_.
     bindS (bprintf False ''ENTRY NUM  : %X\<newline>'' [AInt (ucast (e_shnum h))]) (\<lambda>_.
     bindS (bprintf False ''shstrndx   : %X\<newline>'' [AInt (ucast (e_shstrndx h))]) (\<lambda>_.
     dump_screen 0 (word_of_nat EHDR_SIZE) (ptr_bytes hp 0))))))))))))))))"

definition elf_section_header_dump :: "heapbuf \<Rightarrow> heapbuf \<Rightarrow> int \<Rightarrow> unit dm" where
  "elf_section_header_dump hp section_name offset_in_file =
     bindS (liftS (in_buf shdr_at hp 0)) (\<lambda>h.
     bindS (liftS (in_buf cstr_at section_name (unat (sh_name h)))) (\<lambda>nm.
     bindS (bprintf True ''NAME %s\<newline>'' [AStr nm]) (\<lambda>_.
     bindS (bprintf False ''OFF %8x\<newline>'' [AInt (sh_offset h)]) (\<lambda>_.
     bindS (bprintf False ''SIZ %8x END %8x\<newline>'' [AInt (sh_size h), AInt (sh_offset h + sh_size h)]) (\<lambda>_.
     bindS (bprintf False ''add %08x\<newline>'' [AInt (sh_addr h)]) (\<lambda>_.
     dump_screen (u32_arg offset_in_file) (word_of_nat SHDR_SIZE) (ptr_bytes hp 0)))))))"

subsection \<open>String tables\<close>

text \<open>The loop \<open>while(*p == 0)\<close>; \<open>p\<close> is always \<open>strtab + i\<close>.\<close>

function skip_nuls :: "byte list \<Rightarrow> nat \<Rightarrow> nat res" where
  "skip_nuls b i = bindE (buf_at b i) (\<lambda>c. if c = 0 then skip_nuls b (i + 1) else Inr i)"
  by pat_completeness auto
termination
  by (relation "measure (\<lambda>(b, i). length b - i)") (auto simp: buf_at_def split: if_splits)

declare skip_nuls.simps [simp del]

lemma skip_nuls_Inr: "skip_nuls b i = Inr j \<Longrightarrow> i \<le> j \<and> j < length b \<and> b ! j \<noteq> 0 \<and> (\<forall>k. i \<le> k \<and> k < j \<longrightarrow> b ! k = 0)"
proof (induction b i rule: skip_nuls.induct)
  case (1 b i)
  then have i: "i < length b"
    by (subst (asm) (2) skip_nuls.simps) (auto simp: buf_at_def split: if_splits)
  show ?case
  proof (cases "b ! i = 0")
    case True
    then have "skip_nuls b (i + 1) = Inr j" using 1(2) i by (subst (asm) skip_nuls.simps) (simp add: buf_at_def)
    then have j: "i + 1 \<le> j" "j < length b" "b ! j \<noteq> 0" "\<forall>k. i + 1 \<le> k \<and> k < j \<longrightarrow> b ! k = 0"
      using 1(1) [of "b ! i"] True i by (simp_all add: buf_at_def)
    have "b ! k = 0" if "i \<le> k" "k < j" for k
      using that j(4) True by (cases "k = i") auto
    then show ?thesis using j by auto
  next
    case False
    then show ?thesis using 1(2) i by (subst (asm) skip_nuls.simps) (auto simp: buf_at_def)
  qed
qed

lemma cstr_at_nonempty: "i < length b \<Longrightarrow> b ! i \<noteq> 0 \<Longrightarrow> cstr_at b i = Inr s \<Longrightarrow> s \<noteq> []"
  using cstr_at_step [of i b] by (auto simp: bindE_eq_Inr)

function strtab_loop :: "byte list \<Rightarrow> int \<Rightarrow> nat \<Rightarrow> string res" where
  "strtab_loop b n i =
     (if int i < n - 1 then
        bindE (skip_nuls b i) (\<lambda>j.
        bindE (cstr_at b j) (\<lambda>s.
        emits [vsprintf ''index %4x %s\<newline>'' [AInt (word_of_nat j), AStr s], strtab_loop b n (j + length s)]))
      else Inr [])"
  by pat_completeness auto
termination
proof (relation "measure (\<lambda>(b, n, i). length b - i)")
  fix b :: "byte list" and n :: int and i j s
  assume "skip_nuls b i = Inr j" "cstr_at b j = Inr s"
  then have "i \<le> j" "j < length b" "s \<noteq> []" using skip_nuls_Inr cstr_at_nonempty by blast+
  then have "length b - (j + length s) < length b - i" by (cases s) auto
  then show "((b, n, j + length s), b, n, i) \<in> measure (\<lambda>(b, n, i). length b - i)" by simp
qed simp

declare strtab_loop.simps [simp del]

definition elf_shstrtab_dump :: "heapbuf \<Rightarrow> int \<Rightarrow> unit dm" where  \<comment> \<open>\<open>_elf_shstrtab_dump\<close>\<close>
  "elf_shstrtab_dump strtab n =
     bindS (eprint ''section head string table\<newline>'' []) (\<lambda>_.
     bindS (liftS (if n \<le> 1 then Inr [] else bindE (deref strtab) (\<lambda>(q, b). strtab_loop b n 0))) (\<lambda>t.
     bindS (on_os (put_err t)) (\<lambda>_. eprint ''\<newline>'' [])))"

definition elf_strtab_dump :: "heapbuf \<Rightarrow> int \<Rightarrow> unit dm" where
  "elf_strtab_dump strtab n =
     bindS (eprint ''string table\<newline>'' []) (\<lambda>_.
     bindS (liftS (if n \<le> 1 then Inr [] else bindE (deref strtab) (\<lambda>(q, b). strtab_loop b n 0))) (\<lambda>t.
     bindS (on_os (put_err t)) (\<lambda>_. eprint ''\<newline>'' [])))"

text \<open>An entry of the static array of section headers.\<close>

definition head_at :: "heapbuf list \<Rightarrow> int \<Rightarrow> heapbuf res" where
  "head_at heads i = (if i < 0 then Inl OutOfBounds else buf_at heads (nat i))"

primrec find_shstrtab :: "nat \<Rightarrow> heapbuf list \<Rightarrow> heapbuf \<Rightarrow> string \<Rightarrow> nat \<Rightarrow> int res" where
  "find_shstrtab 0 heads str name i = Inr (- 1)"
| "find_shstrtab (Suc k) heads str name i =
     bindE (head_at heads (int i)) (\<lambda>hp.
     bindE (in_buf shdr_at hp 0) (\<lambda>h.
     bindE (in_buf (strcmp_at name) str (unat (sh_name h))) (\<lambda>eq.
     if eq then Inr (int i) else find_shstrtab k heads str name (i + 1))))"

definition elf_find_shstrtab :: "heapbuf list \<Rightarrow> int \<Rightarrow> heapbuf \<Rightarrow> string \<Rightarrow> int res" where
  "elf_find_shstrtab heads num str name = find_shstrtab (nat num) heads str name 0"

subsection \<open>Symbols\<close>

text \<open>The name of a symbol, with the read of the string; \<open>strtab\<close> is the pointer to the table.\<close>

definition elf_sym_name_c :: "heapbuf \<Rightarrow> u32 \<Rightarrow> string res" where
  "elf_sym_name_c strtab index = str_at strtab (i32 index)"

primrec symtab_loop :: "nat \<Rightarrow> int \<Rightarrow> heapbuf \<Rightarrow> heapbuf \<Rightarrow> int \<Rightarrow> int \<Rightarrow> unit dm" where
  "symtab_loop 0 sym_size symbuf strtab offset_in_file i = returnS ()"
| "symtab_loop (Suc k) sym_size symbuf strtab offset_in_file i =
     bindS (liftS (bindE (int_res (i * sym_size)) (\<lambda>d. int_res (offset_in_file + d)))) (\<lambda>offset1.
     bindS (liftS (in_buf sym_at symbuf (nat (i * sym_size)))) (\<lambda>s.
     bindS (liftS (elf_sym_name_c strtab (st_name s))) (\<lambda>nm.
     bindS (eprint ''name  %x (%s)\<newline>'' [AInt (st_name s), AStr nm]) (\<lambda>_.
     bindS (eprint ''value %x size %x shndx %x\<newline>'' [AInt (st_value s), AInt (st_size s), AInt (ucast (st_shndx s))]) (\<lambda>_.
     bindS (eprint ''offset(value) into section(shndx) with length(size)\<newline>'' []) (\<lambda>_.
     bindS (eprint ''info  %d (Type and Bind)\<newline>'' [AInt (ucast (st_info s))]) (\<lambda>_.
     bindS (eprint ''other %d (Visiable)\<newline>'' [AInt (ucast (st_other s))]) (\<lambda>_.
     bindS (eprint ''The Raw Data:\<newline>\<newline>'' []) (\<lambda>_.
     bindS (dump_plain (u32_arg offset1) (u32_arg sym_size) (ptr_bytes symbuf (nat (i * sym_size)))) (\<lambda>_.
     bindS (eprint ''\<newline>'' []) (\<lambda>_.
     symtab_loop k sym_size symbuf strtab offset1 (i + 1))))))))))))"

definition elf_dump_symtab :: "heapbuf \<Rightarrow> heapbuf \<Rightarrow> heapbuf \<Rightarrow> unit dm" where
  "elf_dump_symtab header symbuf strtab =
     bindS (liftS (in_buf shdr_at header 0)) (\<lambda>h.
     let offset_in_file = i32 (sh_offset h); size_of = i32 (sh_size h); sym_size = i32 (sh_entsize h) in
     bindS (liftS (int_div size_of sym_size)) (\<lambda>sym_num.
     if sym_size \<noteq> int SYM_SIZE then liftS (Inl (Exit (- 1)))
     else if size_of smod sym_size \<noteq> 0 then liftS (Inl (Exit (- 1)))
     else
       bindS (eprint ''Symbol size : %d\<newline>'' [AInt (u32_arg sym_size)]) (\<lambda>_.
       bindS (eprint ''Symbol num  : %d\<newline>'' [AInt (u32_arg sym_num)]) (\<lambda>_.
       symtab_loop (nat sym_num) sym_size symbuf strtab offset_in_file 0))))"

definition elf_rodata_dump :: "heapbuf \<Rightarrow> heapbuf \<Rightarrow> unit dm" where
  "elf_rodata_dump header buf =
     bindS (liftS (in_buf shdr_at header 0)) (\<lambda>h.
     dump_plain (sh_offset h) (sh_size h) (ptr_bytes buf 0))"

text \<open>
  The loop over the symbols of one section, which \<open>elf_data_dump\<close>,
  \<open>elf_bss_dump\<close> and \<open>elf_text_dump\<close> contain each; \<open>j\<close> counts the lines.
\<close>

primrec section_syms_loop :: "nat \<Rightarrow> int \<Rightarrow> heapbuf \<Rightarrow> heapbuf \<Rightarrow> nat \<Rightarrow> u32 \<Rightarrow> unit dm" where
  "section_syms_loop 0 index symbuf strbuf i j = returnS ()"
| "section_syms_loop (Suc k) index symbuf strbuf i j =
     bindS (liftS (in_buf sym_at symbuf (SYM_SIZE * i))) (\<lambda>s.
     if i16 (st_shndx s) = index then
       bindS (liftS (elf_sym_name_c strbuf (st_name s))) (\<lambda>nm.
       bindS (eprint ''%6d: %08x %8x %8s %8s %s\<newline>''
         [AInt j, AInt (st_value s), AInt (st_size s), AStr (sym_type (SYM_TYPE (st_info s))),
          AStr (sym_bind (SYM_BIND (st_info s))), AStr nm]) (\<lambda>_.
       section_syms_loop k index symbuf strbuf (i + 1) (j + 1)))
     else section_syms_loop k index symbuf strbuf (i + 1) j)"

definition section_syms :: "string \<Rightarrow> int \<Rightarrow> heapbuf \<Rightarrow> heapbuf \<Rightarrow> heapbuf \<Rightarrow> unit dm" where
  "section_syms title index sym_head symbuf strbuf =
     bindS (liftS (in_buf shdr_at sym_head 0)) (\<lambda>h.
     let sym_section_size = i32 (sh_size h); sym_size = i32 (sh_entsize h) in
     if sym_size \<noteq> int SYM_SIZE then liftS (Inl (Exit (- 1)))
     else
       bindS (liftS (int_div sym_section_size sym_size)) (\<lambda>sym_num.
       bindS (eprint title []) (\<lambda>_.
       bindS (eprint ''   Num:   offset     Size     Tpye     Bind Name\<newline>'' []) (\<lambda>_.
       section_syms_loop (nat sym_num) index symbuf strbuf 0 0))))"

definition elf_data_dump :: "int \<Rightarrow> heapbuf \<Rightarrow> heapbuf \<Rightarrow> heapbuf \<Rightarrow> heapbuf \<Rightarrow> heapbuf \<Rightarrow> unit dm" where
  "elf_data_dump data_index header buf sym_head symbuf strbuf =
     bindS (liftS (in_buf shdr_at header 0)) (\<lambda>h.
     bindS (section_syms ''Symbol contained in .data section\<newline>'' data_index sym_head symbuf strbuf) (\<lambda>_.
     bindS (eprint ''Raw data :\<newline>'' []) (\<lambda>_.
     dump_plain (sh_offset h) (sh_size h) (ptr_bytes buf 0))))"

definition elf_bss_dump :: "int \<Rightarrow> heapbuf \<Rightarrow> heapbuf \<Rightarrow> heapbuf \<Rightarrow> unit dm" where
  "elf_bss_dump bss_index sym_head symbuf strbuf =
     bindS (section_syms ''Symbol contained in .bss section\<newline>'' bss_index sym_head symbuf strbuf) (\<lambda>_.
     eprint ''.bss has no data in file\<newline>\<newline>'' [])"

definition elf_text_dump :: "int \<Rightarrow> heapbuf \<Rightarrow> heapbuf \<Rightarrow> heapbuf \<Rightarrow> heapbuf \<Rightarrow> heapbuf \<Rightarrow> unit dm" where
  "elf_text_dump text_index header buf sym_head symbuf strbuf =
     bindS (liftS (in_buf shdr_at header 0)) (\<lambda>h.
     bindS (section_syms ''Symbol contained in .text section\<newline>'' text_index sym_head symbuf strbuf) (\<lambda>_.
     bindS (eprint ''Raw data :\<newline>'' []) (\<lambda>_.
     dump_plain (sh_offset h) (sh_size h) (ptr_bytes buf 0))))"

primrec summary_loop :: "nat \<Rightarrow> heapbuf \<Rightarrow> heapbuf \<Rightarrow> nat \<Rightarrow> unit dm" where
  "summary_loop 0 symbuf strbuf i = returnS ()"
| "summary_loop (Suc k) symbuf strbuf i =
     bindS (liftS (in_buf sym_at symbuf (SYM_SIZE * i))) (\<lambda>s.
     bindS (liftS (sym_idx (st_shndx s))) (\<lambda>ndx.
     bindS (liftS (elf_sym_name_c strbuf (st_name s))) (\<lambda>nm.
     bindS (eprint ''%6d: %08x %8x %8s %8s %4s %s\<newline>''
       [AInt (word_of_nat i), AInt (st_value s), AInt (st_size s), AStr (sym_type (SYM_TYPE (st_info s))),
        AStr (sym_bind (SYM_BIND (st_info s))), AStr ndx, AStr nm]) (\<lambda>_.
     summary_loop k symbuf strbuf (i + 1)))))"

definition elf_summary_symtab :: "heapbuf \<Rightarrow> heapbuf \<Rightarrow> heapbuf \<Rightarrow> unit dm" where
  "elf_summary_symtab header symbuf strbuf =
     bindS (liftS (in_buf shdr_at header 0)) (\<lambda>h.
     let size_of = i32 (sh_size h); sym_size = i32 (sh_entsize h) in
     bindS (liftS (int_div size_of sym_size)) (\<lambda>sym_num.
     if sym_size \<noteq> int SYM_SIZE then liftS (Inl (Exit (- 1)))
     else if size_of smod sym_size \<noteq> 0 then liftS (Inl (Exit (- 1)))
     else
       bindS (eprint ''   Num:   offset     Size     Tpye     Bind  Ndx Name\<newline>'' []) (\<lambda>_.
       summary_loop (nat sym_num) symbuf strbuf 0)))"

subsection \<open>Program headers and the dynamic section\<close>

definition TAB :: char where "TAB = CHR 0x09"

primrec ph_loop :: "nat \<Rightarrow> heapbuf \<Rightarrow> nat \<Rightarrow> unit dm" where
  "ph_loop 0 buf i = returnS ()"
| "ph_loop (Suc k) buf i =
     bindS (liftS (in_buf phdr_at buf (PHDR_SIZE * i))) (\<lambda>p.
     bindS (eprint (''%s'' @ [TAB, TAB] @ '' 0x%06x 0x%08x 0x%08x 0x%05x 0x%05x\<newline>'')
       [AStr (ph_type (p_type p)), AInt (p_offset p), AInt (p_vaddr p), AInt (p_paddr p), AInt (p_filesz p),
        AInt (p_memsz p)]) (\<lambda>_. ph_loop k buf (i + 1)))"

definition elf_ph_dump :: "heapbuf \<Rightarrow> heapbuf \<Rightarrow> unit dm" where
  "elf_ph_dump header buf =
     bindS (liftS (in_buf ehdr_at header 0)) (\<lambda>h.
     let ph_off = i32 (e_phoff h); ph_size = i16 (e_phentsize h); ph_num = i16 (e_phnum h) in
     bindS (liftS (int_res (ph_size * ph_num))) (\<lambda>total.
     bindS (eprint ''\<newline>Program Headers: offset:0x%08x size 0x%x (%d)\<newline>''
       [AInt (u32_arg ph_off), AInt (u32_arg total), AInt (u32_arg total)]) (\<lambda>_.
     bindS (eprint (''TYPE'' @ [TAB, TAB] @ '' Offset   BirtAddr   PhyAddr    Flg Align\<newline>'') []) (\<lambda>_.
     bindS (ph_loop (nat ph_num) buf 0) (\<lambda>_.
     dump_plain (u32_arg ph_off) (u32_arg total) (ptr_bytes buf 0))))))"

primrec ph2_loop :: "nat \<Rightarrow> int \<Rightarrow> int \<Rightarrow> heapbuf \<Rightarrow> nat \<Rightarrow> unit dm" where
  "ph2_loop 0 ph_off ph_size buf i = returnS ()"
| "ph2_loop (Suc k) ph_off ph_size buf i =
     bindS bin_reset (\<lambda>_.
     bindS (liftS (in_buf phdr_at buf (PHDR_SIZE * i))) (\<lambda>p.
     bindS (bprintf False ''%s\<newline>'' [AStr (ph_type (p_type p))]) (\<lambda>_.
     bindS (bprintf False ''0x%06x\<newline>'' [AInt (p_vaddr p)]) (\<lambda>_.
     bindS (bprintf False ''0x%06x\<newline>'' [AInt (p_paddr p)]) (\<lambda>_.
     bindS (liftS (bindE (int_res (ph_size * int i)) (\<lambda>d. int_res (ph_off + d)))) (\<lambda>offset_in_file.
     bindS (dump_screen (u32_arg offset_in_file) (u32_arg ph_size) (ptr_bytes buf (PHDR_SIZE * i))) (\<lambda>_.
     ph2_loop k ph_off ph_size buf (i + 1))))))))"

definition elf_ph_dump2 :: "heapbuf \<Rightarrow> heapbuf \<Rightarrow> unit dm" where
  "elf_ph_dump2 header buf =
     bindS (liftS (in_buf ehdr_at header 0)) (\<lambda>h.
     ph2_loop (nat (i16 (e_phnum h))) (i32 (e_phoff h)) (i16 (e_phentsize h)) buf 0)"

primrec dynamic_loop :: "nat \<Rightarrow> u32 \<Rightarrow> heapbuf \<Rightarrow> nat \<Rightarrow> unit dm" where
  "dynamic_loop 0 off buf i = returnS ()"
| "dynamic_loop (Suc k) off buf i =
     bindS (bprintf True ''Dyn %d\<newline>'' [AInt (word_of_nat i)]) (\<lambda>_.
     bindS (liftS (in_buf dyn_at buf (DYN_SIZE * i))) (\<lambda>d.
     bindS (bprintf False ''%s\<newline>'' [AStr (dyn_type (d_tag d))]) (\<lambda>_.
     bindS (bprintf False ''%08x'' [AInt (d_val d)]) (\<lambda>_.
     bindS (dump_screen (off + word_of_nat (DYN_SIZE * i)) (word_of_nat DYN_SIZE) (ptr_bytes buf (DYN_SIZE * i))) (\<lambda>_.
     dynamic_loop k off buf (i + 1))))))"

text \<open>\<open>size / sizeof(Elf32_Dyn)\<close>: the \<open>int\<close> is converted to \<open>unsigned long\<close>, the quotient back.\<close>

definition dyn_count :: "u32 \<Rightarrow> int" where
  "dyn_count n = i32 (word_of_int ((i32 n mod 18446744073709551616) div int DYN_SIZE))"

definition elf_dynamic_dump :: "heapbuf \<Rightarrow> heapbuf \<Rightarrow> unit dm" where
  "elf_dynamic_dump header buf =
     bindS (liftS (in_buf shdr_at header 0)) (\<lambda>h.
     dynamic_loop (nat (dyn_count (sh_size h))) (sh_offset h) buf 0)"

subsection \<open>Reading\<close>

definition mem_get :: "int \<Rightarrow> nat option sm" where "mem_get n = sys_malloc n"

definition eperr :: "string \<Rightarrow> u32 \<Rightarrow> string \<Rightarrow> unit sm" where
  "eperr fn line msg = bindS (liftS (perr_text ''elf.c'' fn line msg)) put_out"

definition elf_file_read_c :: "int \<Rightarrow> int \<Rightarrow> int \<Rightarrow> heapbuf sm" where
  "elf_file_read_c fd offset sz =
     bindS (mem_get sz) (\<lambda>ret.
       case ret of
         None \<Rightarrow> bindS (eperr ''elf_file_read'' 739 ''no memory'') (\<lambda>_. returnS None)
       | Some p \<Rightarrow>
           bindS (sys_lseek fd offset) (\<lambda>tmp.
           bindS (sys_lseek fd offset) (\<lambda>r.
             if r \<noteq> offset then bindS (eperr ''elf_file_read'' 744 ''lseek'') (\<lambda>_. returnS None)
             else bindS (sys_read fd (size_arg sz)) (\<lambda>bs.
               case bs of
                 None \<Rightarrow> bindS (eperr ''elf_file_read'' 748 ''read'') (\<lambda>_. returnS None)
               | Some d \<Rightarrow>
                   if int (length d) \<noteq> sz then bindS (eperr ''elf_file_read'' 748 ''read'') (\<lambda>_. returnS None)
                   else returnS (Some (p, d))))))"

definition file_read :: "int \<Rightarrow> int \<Rightarrow> heapbuf dm" where
  "file_read offset sz g = on_os (elf_file_read_c (in_fd g) offset sz) g"

definition elf_section_dump_by_name :: "string \<Rightarrow> unit dm" where  \<comment> \<open>\<open>_elf_section_dump_by_name\<close>\<close>
  "elf_section_dump_by_name name =
     bindS (getsS (\<lambda>g. elf_find_shstrtab (section_heads g) (section_count g) (elf_shstrtab g) name)) (\<lambda>r.
     bindS (liftS r) (\<lambda>index.
     bindS (getsS section_heads) (\<lambda>heads.
     bindS (liftS (bindE (head_at heads index) (\<lambda>hp. in_buf shdr_at hp 0))) (\<lambda>h.
     bindS (file_read (i32 (sh_offset h)) (i32 (sh_size h))) (\<lambda>data.
     dump_plain (sh_offset h) (sh_size h) (ptr_bytes data 0))))))"

primrec read_heads :: "nat \<Rightarrow> nat \<Rightarrow> unit dm" where
  "read_heads 0 i = returnS ()"
| "read_heads (Suc k) i =
     bindS (getsS (\<lambda>g. (section_offset g, section_size g))) (\<lambda>(off, sz).
     bindS (liftS (bindE (int_res (sz * int i)) (\<lambda>d. int_res (off + d)))) (\<lambda>p.
     bindS (file_read p sz) (\<lambda>hp.
     bindS (getsS section_heads) (\<lambda>heads.
     if i < length heads then
       bindS (modifyS (\<lambda>g. g\<lparr>section_heads := (section_heads g)[i := hp]\<rparr>)) (\<lambda>_. read_heads k (i + 1))
     else liftS (Inl BufferOverflow)))))"

definition elf_init_read :: "unit dm" where
  "elf_init_read =
     bindS (file_read 0 (int EHDR_SIZE)) (\<lambda>hp.
     bindS (modifyS (\<lambda>g. g\<lparr>elf_header := hp\<rparr>)) (\<lambda>_.
     bindS (liftS (in_buf ehdr_at hp 0)) (\<lambda>h.
     let off = i32 (e_shoff h); sz = i16 (e_shentsize h); num = i16 (e_shnum h) in
     bindS (modifyS (\<lambda>g. g\<lparr>section_offset := off, section_size := sz, section_count := num\<rparr>)) (\<lambda>_.
     bindS (liftS (bindE (int_res (i16 (e_shstrndx h) * sz)) (\<lambda>d. int_res (off + d)))) (\<lambda>p.
     bindS (file_read p sz) (\<lambda>shp.
     bindS (modifyS (\<lambda>g. g\<lparr>elf_shstrtab_header := shp\<rparr>)) (\<lambda>_.
     bindS (liftS (in_buf shdr_at shp 0)) (\<lambda>sh.
     bindS (if sh_type sh \<noteq> SHT_STRTAB then on_os (eperr ''elf_init_read'' 786 ''err'') else returnS ()) (\<lambda>_.
     bindS (file_read (i32 (sh_offset sh)) (i32 (sh_size sh))) (\<lambda>str.
     bindS (modifyS (\<lambda>g. g\<lparr>elf_shstrtab := str\<rparr>)) (\<lambda>_.
     read_heads (nat num) 0)))))))))))"

subsection \<open>The program\<close>

primrec section_headers_loop :: "nat \<Rightarrow> nat \<Rightarrow> unit dm" where
  "section_headers_loop 0 i = returnS ()"
| "section_headers_loop (Suc k) i =
     bindS (getsS (\<lambda>g. (section_offset g, section_size g, section_heads g, elf_shstrtab g))) (\<lambda>(off, sz, heads, str).
     bindS (liftS (bindE (int_res (int i * sz)) (\<lambda>d. int_res (off + d)))) (\<lambda>offset_in_file.
     bindS (liftS (head_at heads (int i))) (\<lambda>hp.
     bindS (elf_section_header_dump hp str offset_in_file) (\<lambda>_. section_headers_loop k (i + 1)))))"

text \<open>Finding a section and reading it; the index is \<open>-1\<close> when there is none.\<close>

definition find_index :: "string \<Rightarrow> int dm" where
  "find_index name =
     bindS (getsS (\<lambda>g. elf_find_shstrtab (section_heads g) (section_count g) (elf_shstrtab g) name)) liftS"

definition head_fields :: "int \<Rightarrow> (heapbuf \<times> shdr) dm" where
  "head_fields index =
     bindS (getsS section_heads) (\<lambda>heads.
     liftS (bindE (head_at heads index) (\<lambda>hp. bindE (in_buf shdr_at hp 0) (\<lambda>h. Inr (hp, h)))))"

definition read_section :: "int \<Rightarrow> heapbuf dm" where
  "read_section index =
     bindS (head_fields index) (\<lambda>(hp, h). file_read (i32 (sh_offset h)) (i32 (sh_size h)))"

definition when_flag :: "(elf_globals \<Rightarrow> bool) \<Rightarrow> unit dm \<Rightarrow> unit dm" where
  "when_flag f m = bindS (getsS f) (\<lambda>b. if b then m else returnS ())"

definition GAP :: "string \<Rightarrow> unit dm" where
  "GAP s =
     bindS (eprint ''\<newline>\<newline>'' []) (\<lambda>_.
     bindS (eprint s []) (\<lambda>_.
     eprint ''\<newline>================================================================\<newline>\<newline>'' []))"

definition elf_file_dump_all :: "unit dm" where  \<comment> \<open>\<open>_elf_file_dump\<close>\<close>
  "elf_file_dump_all =
     bindS (when_flag dump_header elf_header_dump) (\<lambda>_.
     bindS (when_flag dump_section_header
       (bindS (eprint ''===================Section===============\<newline>'' []) (\<lambda>_.
        bindS (eprint ''Size Section Header %d\<newline>'' [AInt (word_of_nat SHDR_SIZE)]) (\<lambda>_.
        bindS (getsS section_count) (\<lambda>n. section_headers_loop (nat n) 0))))) (\<lambda>_.
     bindS (find_index ''.strtab'') (\<lambda>ix.
     bindS (modifyS (\<lambda>g. g\<lparr>strtab_index := ix\<rparr>)) (\<lambda>_.
     bindS (read_section ix) (\<lambda>str.
     bindS (modifyS (\<lambda>g. g\<lparr>elf_strtab_buf := str\<rparr>)) (\<lambda>_.
     bindS (when_flag dump_strtab
       (bindS (head_fields ix) (\<lambda>(hp, h). dump_char (sh_offset h) (sh_size h) (ptr_bytes str 0)))) (\<lambda>_.
     bindS (find_index ''.symtab'') (\<lambda>iy.
     bindS (modifyS (\<lambda>g. g\<lparr>symtab_index := iy\<rparr>)) (\<lambda>_.
     bindS (read_section iy) (\<lambda>sy.
     bindS (modifyS (\<lambda>g. g\<lparr>elf_sym_buf := sy\<rparr>)) (\<lambda>_.
     bindS (when_flag dump_symtab (bindS (head_fields iy) (\<lambda>(hp, h). elf_dump_symtab hp sy str))) (\<lambda>_.
     bindS (GAP ''THE CONTENT OF TEXT DATA BSS RODATA'') (\<lambda>_.
     bindS (when_flag dump_rodata (elf_section_dump_by_name ''.rodata'')) (\<lambda>_.
     bindS (when_flag dump_data (elf_section_dump_by_name ''.data'')) (\<lambda>_.
     bindS (when_flag dump_bss (elf_section_dump_by_name ''.bss'')) (\<lambda>_.
     bindS (when_flag dump_text (elf_section_dump_by_name ''.text'')) (\<lambda>_.
     when_flag dump_dyn
       (bindS (find_index ''.dynamic'') (\<lambda>id.
        bindS (read_section id) (\<lambda>db.
        bindS (head_fields id) (\<lambda>(hp, h). elf_dynamic_dump hp db)))))))))))))))))))))"

text \<open>Is section i, with this name, one of those that the flags have dumped?\<close>

definition section_dumped :: "elf_globals \<Rightarrow> int \<Rightarrow> int \<Rightarrow> string \<Rightarrow> bool" where
  "section_dumped g shstrndx i name =
     (i = shstrndx \<or> (dump_strtab g \<and> i = strtab_index g) \<or> (dump_symtab g \<and> i = symtab_index g) \<or>
      (dump_comment g \<and> name = ''.comment'') \<or> (dump_rodata g \<and> name = ''.rodata'') \<or>
      (dump_data g \<and> name = ''.data'') \<or> (dump_bss g \<and> name = ''.bss'') \<or> (dump_bss g \<and> name = ''.text''))"

primrec dump_summary_loop :: "nat \<Rightarrow> int \<Rightarrow> nat \<Rightarrow> unit dm" where
  "dump_summary_loop 0 shstrndx i = returnS ()"
| "dump_summary_loop (Suc k) shstrndx i =
     bindS (head_fields (int i)) (\<lambda>(hp, h).
     bindS (getsS (\<lambda>g. (g, elf_shstrtab g))) (\<lambda>(g, str).
     bindS (liftS (str_at str (i32 (sh_name h)))) (\<lambda>name.
     bindS (eprint ''%s %8d %s\<newline>''
       [AStr (if section_dumped g shstrndx (int i) name then ''YES'' else ''   ''), AInt (word_of_nat i), AStr name]) (\<lambda>_.
     dump_summary_loop k shstrndx (i + 1)))))"

definition elf_dump_summary :: "unit dm" where
  "elf_dump_summary =
     bindS (eprint ''\<newline>\<newline>Summary\<newline>\<newline>'' []) (\<lambda>_.
     bindS (eprint ''Not dumped section :\<newline>       index name \<newline>'' []) (\<lambda>_.
     bindS (getsS (\<lambda>g. (section_count g, elf_header g))) (\<lambda>(n, hp).
     bindS (if n \<le> 0 then returnS ()
            else bindS (liftS (in_buf ehdr_at hp 0)) (\<lambda>eh. dump_summary_loop (nat n) (i16 (e_shstrndx eh)) 0)) (\<lambda>_.
     bindS (getsS (\<lambda>g. (symtab_index g, elf_sym_buf g, elf_strtab_buf g))) (\<lambda>(ix, symb, strb).
     bindS (getsS section_heads) (\<lambda>heads.
     bindS (liftS (head_at heads ix)) (\<lambda>hp. elf_summary_symtab hp symb strb)))))))"

definition free_buf :: "heapbuf \<Rightarrow> unit dm" where
  "free_buf p = on_os (case p of None \<Rightarrow> returnS () | Some (q, b) \<Rightarrow> sys_free q)"

definition open_in :: "string \<Rightarrow> unit dm" where
  "open_in name =
     bindS (on_os (sys_open name)) (\<lambda>f.
     bindS (modifyS (\<lambda>g. g\<lparr>in_fd := f\<rparr>)) (\<lambda>_.
     if f < 0 then liftS (Inl (Exit (- 1))) else returnS ()))"

definition elf_file_dump :: "string \<Rightarrow> unit dm" where
  "elf_file_dump elf_file_name =
     bindS (open_in elf_file_name) (\<lambda>_.
     bindS elf_init_read (\<lambda>_.
     bindS elf_file_dump_all (\<lambda>_.
     bindS (bindS (getsS elf_shstrtab) free_buf) (\<lambda>_.
     bindS (bindS (getsS elf_strtab_buf) free_buf) (\<lambda>_.
     bindS (getsS elf_sym_buf) free_buf)))))"

primrec liner_loop :: "nat \<Rightarrow> nat \<Rightarrow> unit dm" where
  "liner_loop 0 i = returnS ()"
| "liner_loop (Suc k) i =
     (if i = 0 then liner_loop k (i + 1)
      else
        bindS (head_fields (int i)) (\<lambda>(hp, h).
        bindS (file_read (i32 (sh_offset h)) (i32 (sh_size h))) (\<lambda>buf.
        bindS bin_reset (\<lambda>_.
        bindS (bindS (getsS elf_shstrtab) (\<lambda>str. liftS (str_at str (i32 (sh_name h))))) (\<lambda>name.
        bindS (bprintf False ''%s\<newline>'' [AStr name]) (\<lambda>_.
        bindS (dump_screen (sh_offset h) (sh_size h) (ptr_bytes buf 0)) (\<lambda>_.
        bindS (free_buf buf) (\<lambda>_. liner_loop k (i + 1)))))))))"

definition elf_liner_dump :: "string \<Rightarrow> unit dm" where
  "elf_liner_dump elf_file_name =
     bindS (open_in elf_file_name) (\<lambda>_.
     bindS elf_init_read (\<lambda>_.
     bindS (when_flag dump_header elf_header_dump) (\<lambda>_.
     bindS (getsS elf_header) (\<lambda>hp.
     bindS (liftS (in_buf ehdr_at hp 0)) (\<lambda>h.
     bindS (liftS (int_res (i16 (e_phentsize h) * i16 (e_phnum h)))) (\<lambda>total.
     bindS (file_read (i32 (e_phoff h)) total) (\<lambda>buf.
     bindS (modifyS (\<lambda>g. g\<lparr>elf_ph_buf := buf\<rparr>)) (\<lambda>_.
     bindS (when_flag dump_pheader (elf_ph_dump2 hp buf)) (\<lambda>_.
     bindS (getsS section_count) (\<lambda>n. liner_loop (nat n) 0))))))))))"

definition dump_usage :: "unit dm" where  \<comment> \<open>\<open>usage\<close>\<close>
  "dump_usage =
     bindS (eprint ''cmd [-r|-s] inputfile\<newline>'' []) (\<lambda>_.
     bindS (eprint ''    -r dump out all raw data\<newline>'' []) (\<lambda>_.
     eprint ''    -s dump out all readable context\<newline>\<newline>'' []))"

definition show_version :: "unit dm" where
  "show_version = eprint ''%s\<newline>'' [AStr ''v0.2'']"

text \<open>
  The loop over the options. \<open>getopt\<close> is the library's: \<open>opts\<close> are the characters it
  returns for the command line, in order, \<open>?\<close> for an unknown option. The result is the
  exit status when the program ends in the loop.
\<close>

fun dump_opts :: "char list \<Rightarrow> int option dm" where
  "dump_opts [] = returnS None"
| "dump_opts (c # cs) =
     (if c = CHR ''h'' then bindS dump_usage (\<lambda>_. returnS (Some 0))
      else if c = CHR ''v'' then bindS show_version (\<lambda>_. returnS (Some 0))
      else if c = CHR ''z'' then dump_opts cs
      else if c = CHR ''r'' then bindS (modifyS (\<lambda>g. g\<lparr>dump_raw := True\<rparr>)) (\<lambda>_. dump_opts cs)
      else if c = CHR ''s'' then
        bindS (modifyS (\<lambda>g. g\<lparr>dump_raw := False, dump_content := True\<rparr>)) (\<lambda>_. dump_opts cs)
      else bindS (on_os (printf ''unknow option %c'' [AInt (word_of_nat (of_char c))])) (\<lambda>_.
        bindS dump_usage (\<lambda>_. returnS (Some 1))))"

text \<open>\<open>file\<close> is \<open>argv[optind]\<close>.\<close>

definition elf_main :: "nat \<Rightarrow> char list \<Rightarrow> string \<Rightarrow> int dm" where
  "elf_main argc opts file =
     bindS (if argc \<noteq> 3 then dump_usage else returnS ()) (\<lambda>_.
     bindS (dump_opts opts) (\<lambda>r.
     case r of Some n \<Rightarrow> returnS n
     | None \<Rightarrow>
         bindS (getsS (\<lambda>g. (dump_raw g, dump_content g))) (\<lambda>(raw, content).
         if raw then
           bindS (modifyS (\<lambda>g. g\<lparr>dump_header := True, dump_pheader := True\<rparr>)) (\<lambda>_.
           bindS (elf_liner_dump file) (\<lambda>_. returnS 0))
         else bindS (if content then elf_file_dump file else returnS ()) (\<lambda>_. returnS 0))))"

end
