(* ===== verification/ElfView.thy ===== *)
theory ElfView
  imports ElfLayout
begin

text \<open>
  The abstract view of a 32-bit ELF file: the file header, the list of section headers, the
  name and the contents of a section, symbols and dynamic entries, as functions of the bytes
  of the file. It is the specification that the models of \<open>elfdig.c\<close> and \<open>elf.c\<close> are
  compared with.
\<close>

subsection \<open>The section table\<close>

definition file_ehdr :: "byte list \<Rightarrow> ehdr" where "file_ehdr d = ehdr_of d 0"

definition shoff :: "byte list \<Rightarrow> nat" where "shoff d = unat (e_shoff (file_ehdr d))"
definition shnum :: "byte list \<Rightarrow> nat" where "shnum d = unat (e_shnum (file_ehdr d))"
definition shstrndx :: "byte list \<Rightarrow> nat" where "shstrndx d = unat (e_shstrndx (file_ehdr d))"

definition sec_hdr :: "byte list \<Rightarrow> nat \<Rightarrow> shdr" where
  "sec_hdr d i = shdr_of d (shoff d + SHDR_SIZE * i)"

definition sec_off :: "byte list \<Rightarrow> nat \<Rightarrow> nat" where "sec_off d i = unat (sh_offset (sec_hdr d i))"
definition sec_size :: "byte list \<Rightarrow> nat \<Rightarrow> nat" where "sec_size d i = unat (sh_size (sec_hdr d i))"

definition sec_bytes :: "byte list \<Rightarrow> nat \<Rightarrow> byte list" where
  "sec_bytes d i = bslice (sec_off d i) (sec_size d i) d"

definition sec_inside :: "byte list \<Rightarrow> nat \<Rightarrow> bool" where
  "sec_inside d i = (i < shnum d \<and> sec_off d i + sec_size d i \<le> length d)"

subsection \<open>Names\<close>

definition names :: "byte list \<Rightarrow> byte list" where "names d = sec_bytes d (shstrndx d)"

text \<open>The string at a position of a table; of a table that ends with a NUL, every position has one.\<close>

definition str_of :: "byte list \<Rightarrow> nat \<Rightarrow> string" where
  "str_of b k = map char_of_byte (takeWhile (\<lambda>x. x \<noteq> 0) (drop k b))"

definition is_strtab :: "byte list \<Rightarrow> bool" where
  "is_strtab b = (b \<noteq> [] \<and> last b = 0)"

definition sec_name :: "byte list \<Rightarrow> nat \<Rightarrow> string" where
  "sec_name d i = str_of (names d) (unat (sh_name (sec_hdr d i)))"

definition sec_named :: "byte list \<Rightarrow> string \<Rightarrow> nat option" where
  "sec_named d name = find (\<lambda>i. sec_name d i = name) [0..<shnum d]"

lemma cstr_at_strtab: "is_strtab b \<Longrightarrow> k < length b \<Longrightarrow> cstr_at b k = Inr (str_of b k)"
  using last_in_set [of "drop k b"] by (simp add: is_strtab_def cstr_at_def str_of_def)

subsection \<open>Well-formed files\<close>

definition wf_elf :: "byte list \<Rightarrow> bool" where
  "wf_elf d =
     (length d < 2147483648 \<and> EHDR_SIZE \<le> length d \<and> unat (e_shentsize (file_ehdr d)) = SHDR_SIZE \<and>
      shoff d + SHDR_SIZE * shnum d \<le> length d \<and> sec_inside d (shstrndx d) \<and> is_strtab (names d) \<and>
      (\<forall>i \<in> set [0..<shnum d]. unat (sh_name (sec_hdr d i)) < length (names d)))"

lemma wf_elfD:
  assumes "wf_elf d"
  shows "length d < 2147483648" "EHDR_SIZE \<le> length d" "unat (e_shentsize (file_ehdr d)) = SHDR_SIZE"
    "shoff d + SHDR_SIZE * shnum d \<le> length d" "sec_inside d (shstrndx d)" "is_strtab (names d)"
    "i < shnum d \<Longrightarrow> unat (sh_name (sec_hdr d i)) < length (names d)"
  using assms by (simp_all add: wf_elf_def)

lemma shnum_bound: "shnum d < 65536"
  using unsigned_less [of "e_shnum (file_ehdr d)", where ?'a = nat] by (simp add: shnum_def)

lemma sec_named_bound: "sec_named d name = Some i \<Longrightarrow> i < shnum d \<and> sec_name d i = name"
  by (auto simp: sec_named_def find_Some_iff)

text \<open>A C assignment of an unsigned field to an \<open>int\<close> keeps a value that lies inside the file.\<close>

lemma i32_small: "unat w < 2147483648 \<Longrightarrow> i32 w = int (unat w)"
  by (rule sint_small)

lemma i16_nat: "i16 w = int (unat w)"
  by (rule uint_nat)

lemma sec_ints:
  assumes "length d < 2147483648" and "sec_inside d i"
  shows "i32 (sh_offset (sec_hdr d i)) = int (sec_off d i)" "i32 (sh_size (sec_hdr d i)) = int (sec_size d i)"
  using assms by (simp_all add: sec_inside_def sec_off_def sec_size_def i32_small del: of_nat_unat)

lemma shoff_int: "wf_elf d \<Longrightarrow> i32 (e_shoff (file_ehdr d)) = int (shoff d)"
  using wf_elfD(1,4) [of d] by (simp add: shoff_def i32_small del: of_nat_unat)

subsection \<open>Symbols and dynamic entries\<close>

definition sec_syms :: "byte list \<Rightarrow> nat \<Rightarrow> elfsym list" where
  "sec_syms d i = map (\<lambda>k. sym_of (sec_bytes d i) (SYM_SIZE * k)) [0..<sec_size d i div SYM_SIZE]"

definition sec_dyns :: "byte list \<Rightarrow> nat \<Rightarrow> elfdyn list" where
  "sec_dyns d i = map (\<lambda>k. dyn_of (sec_bytes d i) (DYN_SIZE * k)) [0..<sec_size d i div DYN_SIZE]"

lemma length_sec_bytes: "sec_inside d i \<Longrightarrow> length (sec_bytes d i) = sec_size d i"
  by (simp add: sec_inside_def sec_bytes_def)

end
