(* ===== verification/DumpLayout.thy ===== *)
theory DumpLayout
  imports BinaryDump
begin

text \<open>
  What the dumps of \<open>BinaryDump\<close> look like: a row-wise description of the dump with a
  character column, the behaviour of the comment and line columns, and the contract of the
  static text buffer as an append-only text of bounded length.
\<close>

subsection \<open>Rows of sixteen cells\<close>

primrec gutter :: "byte option \<Rightarrow> char" where
  "gutter None = CHR '' ''"
| "gutter (Some b) = printable b"

definition cell_text :: "nat \<Rightarrow> byte option \<Rightarrow> string" where
  "cell_text col c =
     (case c of None \<Rightarrow> ''  '' | Some b \<Rightarrow> hex2 b) @ (if col = 15 then '' | '' else '' '')"

primrec cells_text :: "nat \<Rightarrow> byte option list \<Rightarrow> string" where
  "cells_text col [] = []"
| "cells_text col (c # cs) = cell_text col c @ cells_text (col + 1) cs"

definition row_text :: "u32 \<Rightarrow> byte option list \<Rightarrow> string" where
  "row_text addr cs = hex8 addr @ ''  '' @ cells_text 0 cs @ map gutter cs"

function rows_text :: "u32 \<Rightarrow> byte option list \<Rightarrow> string" where
  "rows_text addr cs =
     (if length cs \<le> 16 then row_text addr cs
      else row_text addr (take 16 cs) @ NL # rows_text (addr + 16) (drop 16 cs))"
  by pat_completeness auto
termination
  by (relation "measure (\<lambda>(addr, cs). length cs)") auto

declare rows_text.simps [simp del]

text \<open>The cells of a buffer at an offset: blank cells before and after fill whole rows.\<close>

definition fill_len :: "nat \<Rightarrow> nat" where
  "fill_len n = (16 - n mod 16) mod 16"

definition dump_cells :: "nat \<Rightarrow> byte list \<Rightarrow> byte option list" where
  "dump_cells gap buf =
     replicate gap None @ map Some buf @ replicate (fill_len (gap + length buf)) None"

lemma rows_text_row:
  assumes "length row = 16" and "R \<noteq> []"
  shows "rows_text addr (row @ R) = row_text addr row @ NL # rows_text (addr + 16) R"
proof -
  have "\<not> length (row @ R) \<le> 16" using assms by simp
  moreover have "take 16 (row @ R) = row" and "drop 16 (row @ R) = R" using assms by simp_all
  ultimately show ?thesis by (subst rows_text.simps) (simp only: if_False)
qed

lemma cells_text_append:
  "cells_text col (cs @ ds) = cells_text col cs @ cells_text (col + length cs) ds"
  by (induction cs arbitrary: col) simp_all

lemma cells_text_blanks: "col + n \<le> 15 \<Longrightarrow> cells_text col (replicate n None) = blanks3 n"
  by (induction n arbitrary: col) (simp_all add: cell_text_def blanks3_def)

lemma post_gap_fill_eq: "k0 \<le> 16 \<Longrightarrow> post_gap_fill k0 = Inr (cells_text k0 (replicate (16 - k0) None))"
proof (induction "16 - k0" arbitrary: k0)
  case (Suc n)
  then have "[k0 ..< 16] = k0 # [k0 + 1 ..< 16]" and "16 - k0 = Suc (16 - (k0 + 1))"
    by (simp_all add: upt_conv_Cons)
  moreover have "post_gap_fill (k0 + 1) = Inr (cells_text (k0 + 1) (replicate (16 - (k0 + 1)) None))"
    using Suc by simp
  ultimately show ?case
    by (simp add: post_gap_fill_def fmt_simps cell_text_def)
qed (simp add: post_gap_fill_def)

lemma fmt_02x_cell: "vsprintf ''%02x '' [byte_arg b] = Inr (hex2 b @ '' '')"
  by (simp add: fmt_simps)

lemma fmt_02x_bar [fmt_simps]: "vsprintf ''%02x | '' [byte_arg b] = Inr (hex2 b @ '' | '')"
  by (simp add: fmt_eval pad_hexn_byte)

text \<open>
  The loop of the dump with characters, entered at column \<open>length pre\<close> of a row whose
  earlier cells are \<open>pre\<close>; \<open>tail\<close> is what the code writes after the loop.
\<close>

definition char_tail :: "nat \<Rightarrow> string \<Rightarrow> string" where
  "char_tail lim tailer =
     (if lim mod 16 \<noteq> 0 then cells_text (lim mod 16) (replicate (16 - lim mod 16) None) @ tailer else [])"

lemma bdc_loop_rows:
  assumes "lim = gap + length buf" and "gap \<le> j" and "j < lim" and "lim \<le> INT_MAX"
    and "length pre = j mod 16" and "tailer = map gutter pre @ replicate (16 - j mod 16) CHR '' ''"
  shows "\<exists>s tl'. bdc_loop buf gap lim offset tailer j = Inr (s, tl') \<and>
    hex8 offset @ ''  '' @ cells_text 0 pre @ s @ char_tail lim tl' =
      rows_text offset (pre @ map Some (drop (j - gap) buf) @ replicate (fill_len lim) None)"
  using assms
proof (induction buf gap lim offset tailer j arbitrary: pre rule: bdc_loop.induct)
  case (1 buf gap lim offset tailer j)
  note lt = \<open>j < lim\<close>
  define b where "b = buf ! (j - gap)"
  have at: "buf_at buf (j - gap) = Inr b"
    and dr: "drop (j - gap) buf = b # drop (j + 1 - gap) buf"
    using "1.prems" by (auto simp: buf_at_def b_def Cons_nth_drop_Suc Suc_diff_le)
  have ok: "\<not> INT_MAX \<le> j" using "1.prems" by simp
  have col: "j mod 16 < 16" by simp
  let ?pre = "pre @ [Some b]"
  have upd: "tailer[j mod 16 := printable b] = map gutter ?pre @ replicate (16 - (j mod 16 + 1)) CHR '' ''"
  proof -
    have "16 - j mod 16 = Suc (16 - (j mod 16 + 1))" using col by linarith
    then show ?thesis using "1.prems"(5,6) by (simp add: list_update_append)
  qed
  show ?case
  proof (cases "(j + 1) mod 16 = 0")
    case False
    have m: "(j + 1) mod 16 = j mod 16 + 1" by (rule row_step [OF False, THEN conjunct1])
    have ct: "cells_text 0 ?pre = cells_text 0 pre @ hex2 b @ '' ''"
      using "1.prems"(5) m False by (simp add: cells_text_append cell_text_def)
    have c2: "cells_text (j mod 16) (Some b # cs) = hex2 b @ '' '' @ cells_text (j mod 16 + 1) cs" for cs
      using m False by (simp add: cell_text_def)
    show ?thesis
    proof (cases "j + 1 = lim")
      case True
      have "bdc_loop buf gap lim offset tailer j = Inr (hex2 b @ '' '', map gutter ?pre @ replicate (16 - (j mod 16 + 1)) CHR '' '')"
        using lt ok at False True upd
        by (subst bdc_loop.simps, subst bdc_loop.simps) (simp add: fmt_simps)
      moreover have "fill_len lim = 16 - (j mod 16 + 1)" and "lim mod 16 = j mod 16 + 1"
        using True m by (auto simp: fill_len_def)
      ultimately show ?thesis
        using True dr "1.prems"(1,5) ct
        by (subst rows_text.simps)
           (simp add: char_tail_def row_text_def cells_text_append c2 del: cells_text.simps)
    next
      case more: False
      have "\<exists>s tl'. bdc_loop buf gap lim offset (tailer[j mod 16 := printable b]) (j + 1) = Inr (s, tl') \<and>
        hex8 offset @ ''  '' @ cells_text 0 ?pre @ s @ char_tail lim tl' =
          rows_text offset (?pre @ map Some (drop (j + 1 - gap) buf) @ replicate (fill_len lim) None)"
        by (rule "1.IH"(2) [OF lt ok at False fmt_02x_cell]) (use "1.prems" more m upd in auto)
      then obtain s tl' where s: "bdc_loop buf gap lim offset (tailer[j mod 16 := printable b]) (j + 1) = Inr (s, tl')"
        "hex8 offset @ ''  '' @ cells_text 0 ?pre @ s @ char_tail lim tl' =
          rows_text offset (?pre @ map Some (drop (j + 1 - gap) buf) @ replicate (fill_len lim) None)"
        by blast
      have "bdc_loop buf gap lim offset tailer j = Inr (hex2 b @ '' '' @ s, tl')"
        using lt ok at False s(1) by (subst bdc_loop.simps) (simp add: fmt_simps)
      then show ?thesis using s(2) ct dr by simp
    qed
  next
    case row: True
    have j15: "j mod 16 = 15" by (rule row_last [OF row, THEN conjunct1])
    then have full: "tailer[15 := printable b] = map gutter ?pre" using upd by simp
    have len: "length ?pre = 16" using "1.prems"(5) j15 by simp
    have ct: "cells_text 0 ?pre = cells_text 0 pre @ hex2 b @ '' | ''"
      using "1.prems"(5) j15 by (simp add: cells_text_append cell_text_def)
    show ?thesis
    proof (cases "j + 1 = lim")
      case True
      have "bdc_loop buf gap lim offset tailer j = Inr (hex2 b @ '' | '' @ map gutter ?pre, map gutter ?pre)"
        using lt ok at row True full
        by (subst bdc_loop.simps, subst bdc_loop.simps) (simp add: fmt_simps Let_def)
      moreover have "lim mod 16 = 0" using row True by simp
      ultimately show ?thesis
        using True dr "1.prems"(1) ct len
        by (subst rows_text.simps) (simp add: char_tail_def fill_len_def row_text_def)
    next
      case more: False
      have ems: "emits [vsprintf ''%02x | '' [byte_arg b], vsprintf ''%s'' [AStr (tailer[15 := printable b])],
          (if j + 1 \<noteq> lim then vsprintf ''\<newline>%08x  '' [AInt (offset + 16)] else Inr [])] =
          Inr (hex2 b @ '' | '' @ map gutter ?pre @ NL # hex8 (offset + 16) @ ''  '')"
        using more full by (simp add: fmt_simps hex8_def)
      have "\<exists>s tl'. bdc_loop buf gap lim (offset + 16) (replicate 16 CHR '' '') (j + 1) = Inr (s, tl') \<and>
        hex8 (offset + 16) @ ''  '' @ cells_text 0 [] @ s @ char_tail lim tl' =
          rows_text (offset + 16) ([] @ map Some (drop (j + 1 - gap) buf) @ replicate (fill_len lim) None)"
        using "1.IH"(1) [OF lt ok at row refl ems] more "1.prems" row by auto
      then obtain s tl' where s: "bdc_loop buf gap lim (offset + 16) (replicate 16 CHR '' '') (j + 1) = Inr (s, tl')"
        "hex8 (offset + 16) @ ''  '' @ s @ char_tail lim tl' =
          rows_text (offset + 16) (map Some (drop (j + 1 - gap) buf) @ replicate (fill_len lim) None)"
        by auto
      have "bdc_loop buf gap lim offset tailer j =
          Inr (hex2 b @ '' | '' @ map gutter ?pre @ NL # hex8 (offset + 16) @ ''  '' @ s, tl')"
        using lt ok at row more s(1) full
        by (subst bdc_loop.simps) (simp add: fmt_simps hex8_def Let_def)
      moreover have "rows_text offset (pre @ map Some (drop (j - gap) buf) @ replicate (fill_len lim) None) =
          row_text offset ?pre @ NL #
            rows_text (offset + 16) (map Some (drop (j + 1 - gap) buf) @ replicate (fill_len lim) None)"
      proof -
        have "drop (j + 1 - gap) buf \<noteq> []" using more lt "1.prems"(1,2) by simp
        then show ?thesis using rows_text_row [OF len] dr by simp
      qed
      ultimately show ?thesis using s(2) ct by (simp add: row_text_def)
    qed
  qed
qed

text \<open>
  The dump with a character column is, row by row, the address, the sixteen cells and
  the printable characters of exactly the bytes of that row.
\<close>

theorem binary_dump_with_char_layout:
  assumes "0 < length buf" and "dump_gap offset + length buf \<le> INT_MAX"
  shows "binary_dump_with_char offset (word_of_nat (length buf)) (Some buf) =
    Inr (rows_text (dump_base offset) (dump_cells (dump_gap offset) buf) @ [NL, NL])"
proof -
  let ?sz = "word_of_nat (length buf) :: u32" and ?gap = "dump_gap offset"
  let ?lim = "?gap + length buf" and ?base = "dump_base offset"
  have sz: "unat ?sz = length buf" using assms(2) by (simp add: unat_of_nat INT_MAX_def)
  then have sz0: "?sz \<noteq> 0" using assms(1) by auto
  have lim: "dump_lim offset ?sz = ?lim" using assms(2) sz by (simp add: dump_lim_eq INT_MAX_def)
  have gap: "?gap mod 16 = ?gap" by simp
  obtain s tl' where s: "bdc_loop buf ?gap ?lim ?base (replicate 16 CHR '' '') ?gap = Inr (s, tl')"
    "hex8 ?base @ ''  '' @ blanks3 ?gap @ s @ char_tail ?lim tl' =
       rows_text ?base (dump_cells ?gap buf)"
    using bdc_loop_rows [of ?lim ?gap buf ?gap "replicate ?gap None" "replicate 16 CHR '' ''" ?base]
      assms dump_gap_less [of offset]
    by (auto simp: dump_cells_def cells_text_blanks simp flip: replicate_add)
  then show ?thesis
    using sz0 lim
    by (cases "?lim mod 16 = 0")
       (auto simp: binary_dump_with_char_def Let_def fmt_simps hex8_def [symmetric] char_tail_def
          post_gap_fill_eq less_imp_le NL_def)
qed

theorem binary_dump_with_char_layout_witness:
  "binary_dump_with_char 30 (word_of_nat (length [65, 2 :: byte, 255])) (Some [65, 2, 255]) =
    Inr (rows_text (dump_base 30) (dump_cells (dump_gap 30) [65, 2, 255]) @ [NL, NL])"
  by (rule binary_dump_with_char_layout) (simp_all add: dump_gap_def INT_MAX_def)

end
