(* ===== verification/DumpLines.thy ===== *)
theory DumpLines
  imports DumpLayout
begin

text \<open>
  The dump with the lines of a string beside its rows: which line stands beside which row,
  where the lines go that have no row, and what is left of the string in memory.
\<close>

subsection \<open>Lines of a string\<close>

fun text_lines :: "string \<Rightarrow> string list" where
  "text_lines [] = []"
| "text_lines (c # cs) =
     (if c = NL then [] # text_lines cs
      else (case text_lines cs of [] \<Rightarrow> [[c]] | l # ls \<Rightarrow> (c # l) # ls))"

definition cut_char :: "char \<Rightarrow> char" where
  "cut_char c = (if c = NL then NUL else c)"

definition st_lines :: "lines_st \<Rightarrow> string list" where
  "st_lines st = (case snd st of None \<Rightarrow> [] | Some s \<Rightarrow> text_lines s)"

text \<open>The text in memory once every remaining newline has been overwritten.\<close>

definition cut_mem :: "lines_st \<Rightarrow> string" where
  "cut_mem st = fst st @ (case snd st of None \<Rightarrow> [] | Some s \<Rightarrow> map cut_char s)"

lemma text_lines_no_NL: "NL \<notin> set s \<Longrightarrow> s \<noteq> [] \<Longrightarrow> text_lines s = [s]"
proof (induction s)
  case (Cons c s)
  then show ?case by (cases "s = []") auto
qed simp

lemma text_lines_NL: "NL \<notin> set l \<Longrightarrow> text_lines (l @ NL # s) = l # text_lines s"
  by (induction l) auto

lemma split_NL:
  assumes "NL \<in> set s"
  shows "s = takeWhile (\<lambda>c. c \<noteq> NL) s @ NL # drop (length (takeWhile (\<lambda>c. c \<noteq> NL) s) + 1) s"
proof -
  have "dropWhile (\<lambda>c. c \<noteq> NL) s \<noteq> []" using assms by (simp add: dropWhile_eq_Nil_conv)
  then obtain c r where r: "dropWhile (\<lambda>c. c \<noteq> NL) s = c # r" by (cases "dropWhile (\<lambda>c. c \<noteq> NL) s") auto
  moreover have "c = NL" using hd_dropWhile [of "\<lambda>c. c \<noteq> NL" s] r by simp
  moreover have "drop (length (takeWhile (\<lambda>c. c \<noteq> NL) s) + 1) s = r"
    using r by (metis Suc_eq_plus1 drop_Suc dropWhile_eq_drop drop_drop list.sel(3) plus_1_eq_Suc tl_drop)
  ultimately show ?thesis by (metis takeWhile_dropWhile_id)
qed

lemma st_lines_next: "has_line st \<Longrightarrow> st_lines st = fst (next_line st) # st_lines (snd (next_line st))"
proof -
  assume "has_line st"
  then obtain p s where st: "st = (p, Some s)" "s \<noteq> []" by (cases st) (auto simp: has_line_def)
  show ?thesis
  proof (cases "NL \<in> set s")
    case True
    let ?l = "takeWhile (\<lambda>c. c \<noteq> NL) s" and ?r = "drop (length (takeWhile (\<lambda>c. c \<noteq> NL) s) + 1) s"
    have "NL \<notin> set ?l" by (auto dest: set_takeWhileD)
    then have "text_lines (?l @ NL # ?r) = ?l # text_lines ?r" by (rule text_lines_NL)
    then have "text_lines s = ?l # text_lines ?r" using split_NL [OF True] by simp
    then show ?thesis using True st by (simp add: st_lines_def next_line_def Let_def)
  next
    case False
    then show ?thesis using st by (simp add: st_lines_def next_line_def text_lines_no_NL)
  qed
qed

lemma st_lines_none: "\<not> has_line st \<Longrightarrow> st_lines st = []"
  by (auto simp: has_line_def st_lines_def)

lemma map_cut_char: "NL \<notin> set s \<Longrightarrow> map cut_char s = s"
  by (induction s) (auto simp: cut_char_def)

lemma cut_mem_next: "has_line st \<Longrightarrow> cut_mem (snd (next_line st)) = cut_mem st"
proof -
  assume "has_line st"
  then obtain p s where st: "st = (p, Some s)" by (cases st) (auto simp: has_line_def)
  show ?thesis
  proof (cases "NL \<in> set s")
    case True
    let ?l = "takeWhile (\<lambda>c. c \<noteq> NL) s" and ?r = "drop (length (takeWhile (\<lambda>c. c \<noteq> NL) s) + 1) s"
    have "NL \<notin> set ?l" by (auto dest: set_takeWhileD)
    then have "map cut_char (?l @ NL # ?r) = ?l @ NUL # map cut_char ?r"
      by (simp add: map_cut_char cut_char_def)
    moreover have "map cut_char s = map cut_char (?l @ NL # ?r)"
      by (rule arg_cong [OF split_NL [OF True]])
    ultimately have "map cut_char s = ?l @ NUL # map cut_char ?r" by (rule trans [rotated])
    then show ?thesis using True st by (simp add: cut_mem_def next_line_def Let_def)
  next
    case False
    then show ?thesis using st by (simp add: cut_mem_def next_line_def map_cut_char)
  qed
qed

lemma cut_mem_none: "\<not> has_line st \<Longrightarrow> fst st @ (case snd st of None \<Rightarrow> [] | Some r \<Rightarrow> r) = cut_mem st"
  by (auto simp: has_line_def cut_mem_def)

definition line_here :: "lines_st \<Rightarrow> string" where
  "line_here st = (if has_line st then fst (next_line st) else [])"

definition line_step :: "lines_st \<Rightarrow> lines_st" where
  "line_step st = (if has_line st then snd (next_line st) else st)"

lemma line_here_eq: "line_here st = (case st_lines st of [] \<Rightarrow> [] | l # _ \<Rightarrow> l)"
  by (cases "has_line st") (simp_all add: line_here_def st_lines_next st_lines_none)

lemma line_step_simps [simp]:
  "st_lines (line_step st) = tl (st_lines st)"
  "cut_mem (line_step st) = cut_mem st"
  by (cases "has_line st"; simp add: line_step_def st_lines_next st_lines_none cut_mem_next)+

subsection \<open>One step of the loop\<close>

lemma bs_loop_cell:
  assumes "j < lim" and "j < INT_MAX" and "j - gap < length buf" and "(j + 1) mod 16 \<noteq> 0"
  shows "bs_loop buf gap lim offset st j =
    bindE (bs_loop buf gap lim offset st (j + 1))
      (\<lambda>(t, st'). Inr (hex2 (buf ! (j - gap)) @ '' '' @ t, st'))"
  using assms by (subst bs_loop.simps) (simp add: fmt_simps buf_at_def split: prod.splits)

lemma bs_loop_row:
  assumes "j < lim" and "j < INT_MAX" and "j - gap < length buf" and "(j + 1) mod 16 = 0"
  shows "bs_loop buf gap lim offset st j =
    bindE (bs_loop buf gap lim (if j + 1 \<noteq> lim then offset + 16 else offset) (line_step st) (j + 1))
      (\<lambda>(t, st'). Inr (hex2 (buf ! (j - gap)) @ '' | '' @ line_here st @
         (if j + 1 \<noteq> lim then NL # hex8 (offset + 16) @ ''  '' else []) @ t, st'))"
  using assms
  by (subst bs_loop.simps)
     (simp add: fmt_simps buf_at_def line_here_def line_step_def hex8_def [symmetric] case_prod_beta)

lemma bs_loop_done: "lim \<le> j \<Longrightarrow> bs_loop buf gap lim offset st j = Inr ([], st)"
  by (subst bs_loop.simps) simp


lemma bs_rest_eq:
  "\<exists>st'. bs_rest st = Inr (concat (map (\<lambda>l. indent60 @ l @ [NL]) (st_lines st)), st') \<and>
     \<not> has_line st' \<and> cut_mem st' = cut_mem st"
proof (induction st rule: bs_rest.induct)
  case (1 st)
  show ?case
  proof (cases "has_line st")
    case True
    obtain l st1 where n: "next_line st = (l, st1)" by (cases "next_line st")
    obtain st' where "bs_rest st1 = Inr (concat (map (\<lambda>l. indent60 @ l @ [NL]) (st_lines st1)), st')"
      "\<not> has_line st'" "cut_mem st' = cut_mem st1"
      using "1.IH" [OF True refl n [symmetric] fmt_indent_line] n by auto
    then show ?thesis using True n st_lines_next [OF True] cut_mem_next [OF True]
      by (subst bs_rest.simps) (simp add: fmt_simps)
  next
    case False
    then show ?thesis by (subst bs_rest.simps) (simp add: st_lines_none)
  qed
qed

subsection \<open>Layout\<close>

text \<open>
  The lines that are left after the last row: the first goes beside a partial last row, or,
  after a full one, directly behind what that row already shows; the others get rows of
  their own.
\<close>

definition rest_lines :: "nat \<Rightarrow> string list \<Rightarrow> string" where
  "rest_lines col ls =
     (case ls of [] \<Rightarrow> []
      | l # ls' \<Rightarrow> (if col \<noteq> 0 then cells_text col (replicate (16 - col) None) else []) @ l @ NL #
          concat (map (\<lambda>l. indent60 @ l @ [NL]) ls'))"

function lines_rows :: "u32 \<Rightarrow> byte option list \<Rightarrow> string list \<Rightarrow> string" where
  "lines_rows addr cs ls =
     (let l = (case ls of [] \<Rightarrow> [] | l # _ \<Rightarrow> l); row = hex8 addr @ ''  '' @ cells_text 0 (take 16 cs) in
      if length cs < 16 then row @ rest_lines (length cs) ls
      else if length cs = 16 then row @ l @ rest_lines 0 (tl ls)
      else row @ l @ NL # lines_rows (addr + 16) (drop 16 cs) (tl ls))"
  by pat_completeness auto
termination
  by (relation "measure (\<lambda>(addr, cs, ls). length cs)") auto

declare lines_rows.simps [simp del]

lemma lines_rows_row:
  assumes "length row = 16" and "R \<noteq> []"
  shows "lines_rows addr (row @ R) ls =
    hex8 addr @ ''  '' @ cells_text 0 row @ (case ls of [] \<Rightarrow> [] | l # _ \<Rightarrow> l) @ NL #
    lines_rows (addr + 16) R (tl ls)"
proof -
  have "\<not> length (row @ R) < 16" and "length (row @ R) \<noteq> 16" using assms by simp_all
  moreover have "take 16 (row @ R) = row" and "drop 16 (row @ R) = R" using assms by simp_all
  ultimately show ?thesis
    by (subst lines_rows.simps) (simp only: Let_def if_False append.assoc)
qed

lemma drop_gap_Cons:
  "lim = gap + length buf \<Longrightarrow> gap \<le> j \<Longrightarrow> j < lim \<Longrightarrow>
   j - gap < length buf \<and> drop (j - gap) buf = buf ! (j - gap) # drop (j + 1 - gap) buf"
  by (auto simp: Cons_nth_drop_Suc Suc_diff_le)

lemma bs_loop_rows:
  assumes "lim = gap + length buf" and "gap \<le> j" and "j < lim" and "lim \<le> INT_MAX"
    and "length pre = j mod 16"
  shows "\<exists>s st'. bs_loop buf gap lim offset st j = Inr (s, st') \<and> cut_mem st' = cut_mem st \<and>
    hex8 offset @ ''  '' @ cells_text 0 pre @ s @ rest_lines (lim mod 16) (st_lines st') =
      lines_rows offset (pre @ map Some (drop (j - gap) buf)) (st_lines st)"
  using assms
proof (induction "lim - j" arbitrary: j pre offset st rule: less_induct)
  case less
  let ?b = "buf ! (j - gap)" and ?pre = "pre @ [Some (buf ! (j - gap))]"
  have dr: "j - gap < length buf" "drop (j - gap) buf = ?b # drop (j + 1 - gap) buf"
    using drop_gap_Cons less.prems(1-3) by blast+
  have lt: "j < lim" "j < INT_MAX" using less.prems by simp_all
  then have dec: "lim - (j + 1) < lim - j" and gj: "gap \<le> j + 1" using less.prems(2) by linarith+
  have cs: "pre @ map Some (drop (j - gap) buf) = ?pre @ map Some (drop (j + 1 - gap) buf)" using dr by simp
  have last: "drop (j + 1 - gap) buf = []" if "j + 1 = lim" using that less.prems(1) by simp
  show ?case
  proof (cases "(j + 1) mod 16 = 0")
    case False
    have m: "(j + 1) mod 16 = j mod 16 + 1" by (rule row_step [OF False, THEN conjunct1])
    have ct: "cells_text 0 ?pre = cells_text 0 pre @ hex2 ?b @ '' ''"
      using less.prems(5) m False by (simp add: cells_text_append cell_text_def)
    show ?thesis
    proof (cases "j + 1 = lim")
      case True
      have "length ?pre = lim mod 16" and "lim mod 16 < 16" using True m less.prems(5) by simp_all
      then show ?thesis using bs_loop_cell [OF lt dr(1) False] True cs last ct
        by (subst lines_rows.simps) (simp add: bs_loop_done)
    next
      case more: False
      obtain s st' where "bs_loop buf gap lim offset st (j + 1) = Inr (s, st')" "cut_mem st' = cut_mem st"
        "hex8 offset @ ''  '' @ cells_text 0 ?pre @ s @ rest_lines (lim mod 16) (st_lines st') =
           lines_rows offset (?pre @ map Some (drop (j + 1 - gap) buf)) (st_lines st)"
        using less.hyps [OF dec less.prems(1) gj _ less.prems(4), of ?pre offset st] less.prems(5) more lt m
        by (auto simp del: cells_text.simps)
      then show ?thesis using bs_loop_cell [OF lt dr(1) False] cs ct by simp
    qed
  next
    case row: True
    have j15: "j mod 16 = 15" by (rule row_last [OF row, THEN conjunct1])
    have len: "length ?pre = 16" using less.prems(5) j15 by simp
    have ct: "cells_text 0 ?pre = cells_text 0 pre @ hex2 ?b @ '' | ''"
      using less.prems(5) j15 by (simp add: cells_text_append cell_text_def)
    show ?thesis
    proof (cases "j + 1 = lim")
      case True
      then have "lim mod 16 = 0" using row by simp
      then show ?thesis using bs_loop_row [OF lt dr(1) row] True cs last ct len
        by (subst lines_rows.simps) (simp add: bs_loop_done line_here_eq)
    next
      case more: False
      let ?R = "map Some (drop (j + 1 - gap) buf)"
      obtain s st' where s: "bs_loop buf gap lim (offset + 16) (line_step st) (j + 1) = Inr (s, st')"
        "cut_mem st' = cut_mem st"
        "hex8 (offset + 16) @ ''  '' @ s @ rest_lines (lim mod 16) (st_lines st') =
           lines_rows (offset + 16) ?R (tl (st_lines st))"
        using less.hyps [OF dec less.prems(1) gj _ less.prems(4), of "[]" "offset + 16" "line_step st"] more lt row
        by auto
      have "?R \<noteq> []" using more lt less.prems(1,2) by simp
      then have "lines_rows offset (?pre @ ?R) (st_lines st) =
          hex8 offset @ ''  '' @ cells_text 0 ?pre @ line_here st @ NL #
          lines_rows (offset + 16) ?R (tl (st_lines st))"
        using lines_rows_row [OF len, of ?R offset "st_lines st"] by (simp add: line_here_eq)
      then show ?thesis using bs_loop_row [OF lt dr(1) row] s more cs ct by simp
    qed
  qed
qed

lemma string_dump_layout:
  assumes "0 < length buf" and "dump_gap offset + length buf \<le> INT_MAX"
  shows "binary_dump_with_string offset (word_of_nat (length buf)) (Some buf) (Some str) =
    Inr (lines_rows (dump_base offset) (replicate (dump_gap offset) None @ map Some buf) (text_lines str)
           @ [NL],
         Some (map cut_char str))"
proof -
  let ?sz = "word_of_nat (length buf) :: u32" and ?gap = "dump_gap offset"
  let ?lim = "?gap + length buf" and ?base = "dump_base offset"
  have sz: "unat ?sz = length buf" using assms(2) by (simp add: unat_of_nat INT_MAX_def)
  then have sz0: "?sz \<noteq> 0" using assms(1) by auto
  have lim: "dump_lim offset ?sz = ?lim" using assms(2) sz by (simp add: dump_lim_eq INT_MAX_def)
  obtain s st where s: "bs_loop buf ?gap ?lim ?base ([], Some str) ?gap = Inr (s, st)"
    "cut_mem st = map cut_char str"
    "hex8 ?base @ ''  '' @ blanks3 ?gap @ s @ rest_lines (?lim mod 16) (st_lines st) =
       lines_rows ?base (replicate ?gap None @ map Some buf) (text_lines str)"
    using bs_loop_rows [of ?lim ?gap buf ?gap "replicate ?gap None" ?base "([], Some str)"] assms
      dump_gap_less [of offset]
    by (auto simp: cells_text_blanks cut_mem_def st_lines_def)
  obtain st' where st': "bs_rest (line_step st) =
      Inr (concat (map (\<lambda>l. indent60 @ l @ [NL]) (tl (st_lines st))), st')"
    "\<not> has_line st'" "cut_mem st' = map cut_char str"
    using bs_rest_eq [of "line_step st"] s(2) by auto
  show ?thesis
  proof (cases "has_line st")
    case True
    then obtain l st1 where n: "next_line st = (l, st1)" by (cases "next_line st")
    show ?thesis
      using sz0 lim s st' True n cut_mem_none [OF st'(2)] st_lines_next [OF True]
      by (cases "?lim mod 16 = 0")
         (auto simp: binary_dump_with_string_def Let_def fmt_simps hex8_def [symmetric] NL_def
            post_gap_fill_eq less_imp_le rest_lines_def line_step_def)
  next
    case False
    then show ?thesis
      using sz0 lim s st' cut_mem_none [OF st'(2)] st_lines_none [OF False]
      by (auto simp: binary_dump_with_string_def Let_def fmt_simps hex8_def [symmetric] NL_def
            rest_lines_def line_step_def)
  qed
qed

text \<open>
  Beside the k-th full row of the dump stands the k-th line of the string, the remaining
  lines follow the last row in order, and in memory every newline of the string has become
  a NUL.
\<close>

theorem binary_dump_with_string_layout:
  assumes "0 < length buf" and "dump_gap offset + length buf \<le> INT_MAX"
  shows "binary_dump_with_string offset (word_of_nat (length buf)) (Some buf) (Some str) =
    Inr (lines_rows (dump_base offset) (replicate (dump_gap offset) None @ map Some buf) (text_lines str)
           @ [NL],
         Some (map cut_char str))"
  by (rule string_dump_layout [OF assms])

theorem binary_dump_with_string_layout_witness:
  "binary_dump_with_string 30 (word_of_nat (length [65 :: byte, 2, 255])) (Some [65, 2, 255]) (Some ''a\<newline>b'') =
    Inr (lines_rows (dump_base 30) (replicate (dump_gap 30) None @ map Some [65, 2, 255]) (text_lines ''a\<newline>b'')
           @ [NL],
         Some (map cut_char ''a\<newline>b''))"
  by (rule binary_dump_with_string_layout) (simp_all add: dump_gap_def INT_MAX_def)

end
