(* ===== verification/ElfDumpSpec.thy ===== *)
theory ElfDumpSpec
  imports ElfDump ElfView DumpLines
begin

text \<open>
  Correctness of the operations of \<open>elf.c\<close>: its reader meets the contract of
  \<open>file_reader\<close>; string tables, the search by name, and the start-up of the program,
  with the inputs on which they leave their arrays.
\<close>

subsection \<open>String tables\<close>

lemma skip_nuls_step:
  "i < length b \<Longrightarrow> skip_nuls b i = (if b ! i = 0 then skip_nuls b (i + 1) else Inr i)"
  by (subst skip_nuls.simps) (simp add: buf_at_def)

lemma skip_nuls_out: "length b \<le> i \<Longrightarrow> skip_nuls b i = Inl OutOfBounds"
  by (subst skip_nuls.simps) (simp add: buf_at_def)

lemma skip_nuls_all: "\<forall>k. i \<le> k \<and> k < length b \<longrightarrow> b ! k = 0 \<Longrightarrow> skip_nuls b i = Inl OutOfBounds"
proof (induction "length b - i" arbitrary: i)
  case 0
  then show ?case by (simp add: skip_nuls_out)
next
  case (Suc n)
  then show ?case using Suc.hyps(1) [of "i + 1"] by (simp add: skip_nuls_step)
qed

lemma skip_nuls_found: "i \<le> k \<Longrightarrow> k < length b \<Longrightarrow> b ! k \<noteq> 0 \<Longrightarrow> \<exists>j. skip_nuls b i = Inr j \<and> j \<le> k"
proof (induction "k - i" arbitrary: i)
  case 0
  then show ?case by (simp add: skip_nuls_step)
next
  case (Suc n)
  then have "i < length b" by simp
  then show ?case using Suc.hyps(1) [of "i + 1"] Suc.hyps(2) Suc.prems
    by (cases "b ! i = 0") (auto simp: skip_nuls_step)
qed

text \<open>The string at a position of a table ends at a NUL of the table.\<close>

lemma cstr_at_end:
  assumes "cstr_at b j = Inr s" and "j \<le> k" and "k < length b" and "b ! k = 0"
  shows "j + length s \<le> k"
proof (rule ccontr)
  let ?r = "drop j b" and ?n = "length (takeWhile (\<lambda>x. x \<noteq> 0) (drop j b))"
  assume "\<not> j + length s \<le> k"
  moreover have "length s = ?n" using assms(1) by (auto simp: cstr_at_def split: if_splits)
  ultimately have lt: "k - j < ?n" using assms(2) by simp
  then have "takeWhile (\<lambda>x. x \<noteq> 0) ?r ! (k - j) \<noteq> 0"
    using nth_mem [OF lt] by (blast dest: set_takeWhileD)
  moreover have "takeWhile (\<lambda>x. x \<noteq> 0) ?r ! (k - j) = b ! k"
    using lt assms(2,3) by (simp add: takeWhile_nth)
  ultimately show False using assms(4) by simp
qed

lemma vsprintf_index: "\<exists>t. vsprintf ''index %4x %s\<newline>'' [AInt w, AStr s] = Inr t"
  by (simp add: fmt_eval)

lemma strtab_loop_end: "int (length b) - 1 \<le> int i \<Longrightarrow> strtab_loop b (int (length b)) i = Inr []"
  by (subst strtab_loop.simps) simp

lemma strtab_loop_ok:
  assumes "is_strtab b" and "2 \<le> length b" and "b ! (length b - 2) \<noteq> 0"
  shows "\<exists>t. strtab_loop b (int (length b)) i = Inr t"
proof (induction "length b - i" arbitrary: i rule: less_induct)
  case less
  show ?case
  proof (cases "int i < int (length b) - 1")
    case True
    then have "i \<le> length b - 2" "length b - 2 < length b" using assms(2) by auto
    then obtain j where j: "skip_nuls b i = Inr j" "j \<le> length b - 2"
      using skip_nuls_found assms(3) by blast
    have ij: "i \<le> j" "j < length b" "b ! j \<noteq> 0" using skip_nuls_Inr [OF j(1)] by auto
    have c: "cstr_at b j = Inr (str_of b j)" using cstr_at_strtab assms(1) ij(2) by blast
    then have "str_of b j \<noteq> []" using cstr_at_nonempty ij(2,3) by blast
    then have "length b - (j + length (str_of b j)) < length b - i" using ij by (cases "str_of b j") auto
    then obtain t where "strtab_loop b (int (length b)) (j + length (str_of b j)) = Inr t" using less by blast
    then show ?thesis using True j(1) c vsprintf_index [of "word_of_nat j" "str_of b j"]
      by (subst strtab_loop.simps) (auto simp: emits_def emit_def)
  qed (simp add: strtab_loop_end)
qed

lemma strtab_loop_runs_out:
  assumes "is_strtab b" and "2 \<le> length b" and "b ! (length b - 2) = 0" and "i \<le> length b - 2"
  shows "strtab_loop b (int (length b)) i = Inl OutOfBounds"
  using assms(4)
proof (induction "length b - i" arbitrary: i rule: less_induct)
  case less
  have True: "int i < int (length b) - 1" using less.prems assms(2) by linarith
  show ?case
  proof (cases "\<exists>k. i \<le> k \<and> k < length b \<and> b ! k \<noteq> 0")
    case False
    then have "skip_nuls b i = Inl OutOfBounds" using skip_nuls_all by blast
    then show ?thesis using True by (subst strtab_loop.simps) simp
  next
    case ex: True
    then obtain j where j: "skip_nuls b i = Inr j" using skip_nuls_found by blast
    have ij: "i \<le> j" "j < length b" "b ! j \<noteq> 0" using skip_nuls_Inr [OF j] by auto
    have c: "cstr_at b j = Inr (str_of b j)" using cstr_at_strtab assms(1) ij(2) by blast
    have ne: "str_of b j \<noteq> []" using c cstr_at_nonempty ij(2,3) by blast
    have "b ! (length b - 1) = 0" using assms(1) last_conv_nth [of b] by (auto simp: is_strtab_def)
    then have "j \<noteq> length b - 1" "j \<noteq> length b - 2" using ij(3) assms(3) by auto
    then have "j \<le> length b - 2" using ij(2) by simp
    then have "j + length (str_of b j) \<le> length b - 2"
      using cstr_at_end [OF c _ _ assms(3)] assms(2) by simp
    moreover have "length b - (j + length (str_of b j)) < length b - i" using ne ij by (cases "str_of b j") auto
    ultimately have "strtab_loop b (int (length b)) (j + length (str_of b j)) = Inl OutOfBounds" using less by blast
    then show ?thesis using True j c vsprintf_index [of "word_of_nat j" "str_of b j"]
      by (subst strtab_loop.simps) (auto simp: emits_def emit_def)
  qed
qed

text \<open>
  the dump of a string table reads past the table exactly when the table ends with
  two NULs: the inner loop that skips NULs does not look at the size.
\<close>

theorem elf_strtab_dump_overrun:
  assumes "is_strtab b" and "2 \<le> length b"
  shows "if b ! (length b - 2) = 0 then elf_strtab_dump (Some (q, b)) (int (length b)) g = Inl OutOfBounds
    else \<exists>g'. elf_strtab_dump (Some (q, b)) (int (length b)) g = Inr ((), g')"
proof -
  have t: "vsprintf ''string table\<newline>'' [] = Inr ''string table\<newline>''" "vsprintf ''\<newline>'' [] = Inr ''\<newline>''"
    by (simp_all add: fmt_plain)
  have n: "\<not> int (length b) \<le> 1" using assms(2) by simp
  show ?thesis
  proof (cases "b ! (length b - 2) = 0")
    case True
    then show ?thesis using strtab_loop_runs_out [OF assms True, of 0] n
      by (simp add: elf_strtab_dump_def eprint_def on_os_def bindS_def eprintf_text [OF t(1)])
  next
    case False
    then obtain u where "strtab_loop b (int (length b)) 0 = Inr u" using strtab_loop_ok [OF assms] by blast
    then show ?thesis using False n
      by (simp add: elf_strtab_dump_def eprint_def on_os_def bindS_def eprintf_text [OF t(1)] eprintf_text [OF t(2)]
          put_err_def)
  qed
qed

theorem elf_strtab_dump_overrun_witness:
  "elf_strtab_dump (Some (0, [0, 97, 0, 0])) (int (length [0, 97, 0, 0 :: byte])) 
      (elf_start \<lparr>files = (\<lambda>_. None), fdt = [], avail = 0, live = [], fresh = 0, outs = [], errs = []\<rparr>) = Inl OutOfBounds"
  using elf_strtab_dump_overrun [of "[0, 97, 0, 0]" 0
      "elf_start \<lparr>files = (\<lambda>_. None), fdt = [], avail = 0, live = [], fresh = 0, outs = [], errs = []\<rparr>"] by (simp add: is_strtab_def)

subsection \<open>The reader\<close>

lemma eperr_read: "eperr ''elf_file_read'' 748 ''read'' s =
    Inr ((), s\<lparr>outs := outs s @ ''\<newline>File:<elf.c> Fun:[elf_file_read] Line:748\<newline> read''\<rparr>)"
proof -
  have "perr_text ''elf.c'' ''elf_file_read'' 748 ''read'' = Inr ''\<newline>File:<elf.c> Fun:[elf_file_read] Line:748\<newline> read''"
    by code_simp
  then show ?thesis by (simp add: eperr_def put_out_def)
qed

lemma seek_seek_read:
  assumes "fd_data f s = Some d" and "0 \<le> off"
  shows "\<exists>s0 s1 s2. sys_lseek f off s = Inr (off, s0) \<and> sys_lseek f off s0 = Inr (off, s1) \<and>
    sys_read f n s1 = Inr (Some (bslice (nat off) n d), s2) \<and> fd_data f s2 = Some d \<and> allocated 0 s s2"
proof -
  obtain path where p: "sys_lseek f off s = Inr (off, s\<lparr>fdt := (fdt s)[nat f := Some (path, nat off)]\<rparr>)"
    "files s path = Some d" "fd_lookup f s \<noteq> None"
    using fd_data_seek [OF assms] by blast
  let ?s0 = "s\<lparr>fdt := (fdt s)[nat f := Some (path, nat off)]\<rparr>"
  have "fd_data f ?s0 = Some d" using p(2,3) by (intro fd_data_moved)
  from seek_read [OF this assms(2), of n] obtain s1 s2 where
    s12: "sys_lseek f off ?s0 = Inr (off, s1)" "sys_read f n s1 = Inr (Some (bslice (nat off) n d), s2)"
    "fd_data f s2 = Some d" "allocated 0 ?s0 s2" by blast
  have "allocated 0 s ?s0" by (simp add: allocated_def same_but_heap_def)
  then have "allocated 0 s s2" using allocated_trans [of 0 s ?s0 0 s2] s12(4) by simp
  then show ?thesis using p(1) s12 by blast
qed

lemma file_read_slice:
  assumes "fd_inv f d s" and "in_file d off n"
  shows "\<exists>s'. elf_file_read_c f off n s = Inr (Some (fresh s, slice_of d off n), s') \<and> fd_inv f d s' \<and> allocated 1 s s'"
proof -
  have n: "0 \<le> off" "0 \<le> n" "n < 2147483648" "n \<le> int (avail s)" and inside: "nat off + nat n \<le> length d"
    using assms by (auto simp: fd_inv_def in_file_def)
  obtain s0 where s0: "sys_malloc n s = Inr (Some (fresh s), s0)" "allocated 1 s s0" "fdt s0 = fdt s"
    using malloc_ok [OF n(2-4)] by blast
  have d0: "fd_data f s0 = Some d"
    using fd_data_cong [OF s0(3), of f] s0(2) assms(1) by (simp add: allocated_def same_but_heap_def fd_inv_def)
  obtain sa s1 s2 where s12: "sys_lseek f off s0 = Inr (off, sa)" "sys_lseek f off sa = Inr (off, s1)"
    "sys_read f (size_arg n) s1 = Inr (Some (bslice (nat off) (size_arg n) d), s2)"
    "fd_data f s2 = Some d" "allocated 0 s0 s2"
    using seek_seek_read [OF d0 n(1), of "size_arg n"] by blast
  have "elf_file_read_c f off n s = Inr (Some (fresh s, slice_of d off n), s2)"
    using s0(1) s12(1-3) n inside
    by (simp add: elf_file_read_c_def mem_get_def bindS_def returnS_def slice_of_def size_arg_nonneg)
  moreover have "allocated 1 s s2" using allocated_trans [OF s0(2) s12(5)] by simp
  ultimately show ?thesis using s12(4) assms(1)
    by (auto simp: fd_inv_def allocated_def same_but_heap_def)
qed

lemma file_read_beyond:
  assumes "fd_inv f d s" and "0 \<le> off" "off < 2147483648" "0 < n" "n < 2147483648"
    and "\<not> in_file d off n" and "n \<le> int (avail s)"
  shows "\<exists>s'. elf_file_read_c f off n s = Inr (None, s') \<and> fd_inv f d s' \<and> fresh s \<in> set (live s')"
proof -
  have n: "0 \<le> n" using assms(4) by simp
  obtain s0 where s0: "sys_malloc n s = Inr (Some (fresh s), s0)" "allocated 1 s s0" "fdt s0 = fdt s"
    using malloc_ok [OF n assms(5,7)] by blast
  have d0: "fd_data f s0 = Some d"
    using fd_data_cong [OF s0(3), of f] s0(2) assms(1) by (simp add: allocated_def same_but_heap_def fd_inv_def)
  obtain sa s1 s2 where s12: "sys_lseek f off s0 = Inr (off, sa)" "sys_lseek f off sa = Inr (off, s1)"
    "sys_read f (size_arg n) s1 = Inr (Some (bslice (nat off) (size_arg n) d), s2)"
    "fd_data f s2 = Some d" "allocated 0 s0 s2"
    using seek_seek_read [OF d0 assms(2), of "size_arg n"] by blast
  have "\<not> nat off + nat n \<le> length d" using assms by (auto simp: in_file_def)
  then have short: "length (bslice (nat off) (nat n) d) < nat n" using length_bslice_beyond assms(4) by fastforce
  let ?s3 = "s2\<lparr>outs := outs s2 @ ''\<newline>File:<elf.c> Fun:[elf_file_read] Line:748\<newline> read''\<rparr>"
  have "elf_file_read_c f off n s = Inr (None, ?s3)"
    using s0(1) s12(1-3) short assms(4,5)
    by (simp add: elf_file_read_c_def mem_get_def bindS_def returnS_def size_arg_nonneg eperr_read)
  moreover have "fd_data f ?s3 = Some d"
    using fd_data_cong [of ?s3 s2] s12(4) by simp
  moreover have "avail s2 = avail s" "fresh s \<in> set (live s2)"
    using allocated_trans [OF s0(2) s12(5)] by (auto simp: allocated_def same_but_heap_def)
  ultimately show ?thesis using assms(1) by (auto simp: fd_inv_def)
qed

interpretation er: file_reader "elf_file_read_c f" "fd_inv f" for f
proof
  show "fd_inv f d s \<Longrightarrow> in_file d off n \<Longrightarrow>
      \<exists>s'. elf_file_read_c f off n s = Inr (Some (fresh s, slice_of d off n), s') \<and> fd_inv f d s' \<and> allocated 1 s s'"
    for f d s off n by (rule file_read_slice)
  show "fd_inv f d s \<Longrightarrow> 0 \<le> off \<Longrightarrow> off < 2147483648 \<Longrightarrow> 0 < n \<Longrightarrow> n < 2147483648 \<Longrightarrow>
      \<not> in_file d off n \<Longrightarrow> n \<le> int (avail s) \<Longrightarrow>
      \<exists>s'. elf_file_read_c f off n s = Inr (None, s') \<and> fd_inv f d s' \<and> fresh s \<in> set (live s')"
    for f d s off n by (rule file_read_beyond)
qed

text \<open>
  \<open>elf_file_read_c\<close> of \<open>elf.c\<close>: a range inside the file gives a new buffer with
  exactly those bytes; a range that leaves the file gives null, and the buffer stays
  allocated although no pointer to it is left.
\<close>

theorem elf_file_read_contract:
  assumes "fd_inv f d s" and "0 \<le> off" and "off < 2147483648" and "0 < n" and "n \<le> int (avail s)" and "n < 2147483648"
  shows "if off + n \<le> int (length d)
    then \<exists>s'. elf_file_read_c f off n s = Inr (Some (fresh s, bslice (nat off) (nat n) d), s') \<and> allocated 1 s s'
    else \<exists>s'. elf_file_read_c f off n s = Inr (None, s') \<and> fresh s \<in> set (live s')"
proof (cases "off + n \<le> int (length d)")
  case True
  then have "in_file d off n" using assms(2,4) by (simp add: in_file_def)
  then show ?thesis using True er.rd_slice [OF assms(1)] by (auto simp: slice_of_def)
next
  case False
  then have "\<not> in_file d off n" by (simp add: in_file_def)
  then show ?thesis using False er.rd_beyond [OF assms(1-4,6) _ assms(5)] by auto
qed

theorem elf_file_read_contract_witness:
  "\<exists>s'. elf_file_read_c 0 2 9 \<lparr>files = [''a'' \<mapsto> [1, 2, 3]], fdt = [Some (''a'', 0)], avail = 9, live = [], fresh = 5,
      outs = [], errs = []\<rparr> = Inr (None, s') \<and> 5 \<in> set (live s')"
  using elf_file_read_contract [of 0 "[1, 2, 3]" "\<lparr>files = [''a'' \<mapsto> [1, 2, 3]], fdt = [Some (''a'', 0)], avail = 9,
      live = [], fresh = 5, outs = [], errs = []\<rparr>" 2 9]
  by (simp add: fd_inv_def fd_data_def fd_lookup_def)

subsection \<open>Start-up\<close>

text \<open>The globals after \<open>elf_init_read\<close> of a well-formed file.\<close>

definition dump_loaded :: "byte list \<Rightarrow> elf_globals \<Rightarrow> bool" where
  "dump_loaded d g =
     ((\<exists>p. elf_header g = Some (p, bslice 0 EHDR_SIZE d)) \<and> (\<exists>p. elf_shstrtab g = Some (p, names d)) \<and>
      section_offset g = int (shoff d) \<and> section_size g = int SHDR_SIZE \<and> section_count g = int (shnum d) \<and>
      length (section_heads g) = 100 \<and>
      (\<forall>i < shnum d. \<exists>p. section_heads g ! i = Some (p, bslice (shoff d + SHDR_SIZE * i) SHDR_SIZE d)))"

definition reading :: "byte list \<Rightarrow> elf_globals \<Rightarrow> bool" where
  "reading d g = fd_inv (in_fd g) d (world g)"

lemma file_read_nat:
  assumes "reading d g" and "off + n \<le> length d"
  shows "\<exists>w. file_read (int off) (int n) g = Inr (Some (fresh (world g), bslice off n d), g\<lparr>world := w\<rparr>) \<and>
    reading d (g\<lparr>world := w\<rparr>) \<and> allocated 1 (world g) w"
  using er.rd_nat [of "in_fd g" d "world g" off n] assms
  by (auto simp: reading_def file_read_def on_os_def)

lemma head_position:
  assumes "wf_elf d" and "i < shnum d"
  shows "bindE (int_res (int SHDR_SIZE * int i)) (\<lambda>x. int_res (int (shoff d) + x)) = Inr (int (shoff d + SHDR_SIZE * i))"
    and "shoff d + SHDR_SIZE * i + SHDR_SIZE \<le> length d"
proof -
  have b: "shoff d + SHDR_SIZE * shnum d \<le> length d" "length d < 2147483648" using wf_elfD [OF assms(1)] by simp_all
  have "SHDR_SIZE * Suc i \<le> SHDR_SIZE * shnum d" using assms(2) by (intro mult_le_mono2) simp
  then show le: "shoff d + SHDR_SIZE * i + SHDR_SIZE \<le> length d" using b(1) by simp
  have "shoff d + SHDR_SIZE * i < 2147483648" using le b(2) by (simp add: SHDR_SIZE_def)
  then have "INT_OK (int (SHDR_SIZE * i))" "INT_OK (int (shoff d + SHDR_SIZE * i))"
    unfolding INT_OK_def by linarith+
  then show "bindE (int_res (int SHDR_SIZE * int i)) (\<lambda>x. int_res (int (shoff d) + x)) = Inr (int (shoff d + SHDR_SIZE * i))"
    by (simp add: int_res_ok)
qed

definition heads_from :: "byte list \<Rightarrow> heapbuf list \<Rightarrow> nat \<Rightarrow> nat \<Rightarrow> bool" where
  "heads_from d hs i n =
     (length hs = 100 \<and> (\<forall>j. i \<le> j \<and> j < n \<longrightarrow> (\<exists>p. hs ! j = Some (p, bslice (shoff d + SHDR_SIZE * j) SHDR_SIZE d))))"

lemma read_heads_step:
  assumes "wf_elf d" and "i < shnum d" and "reading d g"
    and "section_offset g = int (shoff d)" and "section_size g = int SHDR_SIZE" and "length (section_heads g) = 100"
  shows "\<exists>w. allocated 1 (world g) w \<and> reading d (g\<lparr>world := w\<rparr>) \<and>
    read_heads (Suc k) i g =
      (if i < 100 then read_heads k (i + 1) (g\<lparr>world := w, section_heads := (section_heads g)[i :=
         Some (fresh (world g), bslice (shoff d + SHDR_SIZE * i) SHDR_SIZE d)]\<rparr>)
       else Inl BufferOverflow)"
  using file_read_nat [OF assms(3) head_position(2) [OF assms(1,2)]] head_position(1) [OF assms(1,2)] assms(4-6)
  by (auto simp: bindS_def getsS_def modifyS_def)

lemma read_heads_loads:
  assumes "wf_elf d" and "i + k = shnum d" and "shnum d \<le> 100" and "reading d g"
    and "section_offset g = int (shoff d)" and "section_size g = int SHDR_SIZE" and "length (section_heads g) = 100"
  shows "\<exists>w hs. read_heads k i g = Inr ((), g\<lparr>world := w, section_heads := hs\<rparr>) \<and> reading d (g\<lparr>world := w\<rparr>) \<and>
    allocated k (world g) w \<and> heads_from d hs i (i + k) \<and> (\<forall>j < i. hs ! j = section_heads g ! j)"
  using assms(2,4-7)
proof (induction k arbitrary: i g)
  case 0
  then show ?case
    by (intro exI [of _ "world g"] exI [of _ "section_heads g"]) (auto simp: returnS_def allocated_0 heads_from_def)
next
  case (Suc k)
  have i: "i < shnum d" "i < 100" using Suc.prems(1) assms(3) by simp_all
  let ?b = "Some (fresh (world g), bslice (shoff d + SHDR_SIZE * i) SHDR_SIZE d)"
  obtain w where w: "allocated 1 (world g) w" "reading d (g\<lparr>world := w\<rparr>)"
    "read_heads (Suc k) i g = read_heads k (i + 1) (g\<lparr>world := w, section_heads := (section_heads g)[i := ?b]\<rparr>)"
    using read_heads_step [OF assms(1) i(1) Suc.prems(2-5), of k] i(2) by auto
  let ?g1 = "g\<lparr>world := w, section_heads := (section_heads g)[i := ?b]\<rparr>"
  have "reading d ?g1" using w(2) by (simp add: reading_def)
  then obtain w' hs where r: "read_heads k (i + 1) ?g1 = Inr ((), ?g1\<lparr>world := w', section_heads := hs\<rparr>)"
    "reading d (?g1\<lparr>world := w'\<rparr>)" "allocated k (world ?g1) w'" "heads_from d hs (i + 1) (i + 1 + k)"
    "\<forall>j < i + 1. hs ! j = section_heads ?g1 ! j"
    using Suc.IH [of "i + 1" ?g1] Suc.prems by auto
  have "hs ! i = ?b" using r(5) i(2) Suc.prems(5) by simp
  then have "heads_from d hs i (i + Suc k)"
    using r(4) unfolding heads_from_def by (metis (no_types, lifting) Suc_eq_plus1 add_Suc_right add_Suc le_eq_less_or_eq less_eq_Suc_le)
  moreover have "\<forall>j < i. hs ! j = section_heads g ! j" using r(5) by simp
  moreover have "allocated (Suc k) (world g) w'" using allocated_Suc [OF w(1)] r(3) by simp
  ultimately show ?case using w(3) r(1,2) by (auto simp: reading_def)
qed

lemma read_heads_overflow:
  assumes "wf_elf d" and "i + k = shnum d" and "100 < shnum d" and "i \<le> 100" and "reading d g"
    and "section_offset g = int (shoff d)" and "section_size g = int SHDR_SIZE" and "length (section_heads g) = 100"
  shows "read_heads k i g = Inl BufferOverflow"
  using assms(2,4-8)
proof (induction k arbitrary: i g)
  case 0
  then show ?case using assms(3) by simp
next
  case (Suc k)
  have i: "i < shnum d" using Suc.prems(1) by simp
  let ?b = "Some (fresh (world g), bslice (shoff d + SHDR_SIZE * i) SHDR_SIZE d)"
  obtain w where w: "reading d (g\<lparr>world := w\<rparr>)"
    "read_heads (Suc k) i g = (if i < 100 then read_heads k (i + 1) (g\<lparr>world := w, section_heads := (section_heads g)[i := ?b]\<rparr>)
      else Inl BufferOverflow)"
    using read_heads_step [OF assms(1) i Suc.prems(3-6), of k] by auto
  have "reading d (g\<lparr>world := w, section_heads := (section_heads g)[i := ?b]\<rparr>)" using w(1) by (simp add: reading_def)
  then show ?case using w(2) Suc.IH [of "i + 1" "g\<lparr>world := w, section_heads := (section_heads g)[i := ?b]\<rparr>"] Suc.prems by auto
qed

lemma init_ints:
  assumes "wf_elf d"
  shows "i32 (e_shoff (file_ehdr d)) = int (shoff d)" "i16 (e_shentsize (file_ehdr d)) = int SHDR_SIZE"
    "i16 (e_shnum (file_ehdr d)) = int (shnum d)" "i16 (e_shstrndx (file_ehdr d)) = int (shstrndx d)"
  using shoff_int [OF assms] wf_elfD(3) [OF assms]
  by (simp_all add: i16_nat shnum_def shstrndx_def del: of_nat_unat)

text \<open>The part of \<open>elf_init_read\<close> before the loop over the section headers.\<close>

lemma elf_init_read_prefix:
  assumes "wf_elf d" and "reading d g" and "sh_type (sec_hdr d (shstrndx d)) = SHT_STRTAB"
  shows "\<exists>w p q r. elf_init_read g = read_heads (shnum d) 0
      (g\<lparr>world := w, elf_header := Some (p, bslice 0 EHDR_SIZE d), section_offset := int (shoff d),
         section_size := int SHDR_SIZE, section_count := int (shnum d), elf_shstrtab_header := q,
         elf_shstrtab := Some (r, names d)\<rparr>) \<and>
    reading d (g\<lparr>world := w\<rparr>) \<and> allocated 3 (world g) w"
proof -
  note wf = wf_elfD [OF assms(1)]
  have str: "shstrndx d < shnum d" "sec_off d (shstrndx d) + sec_size d (shstrndx d) \<le> length d"
    using wf(5) by (simp_all add: sec_inside_def)
  obtain w1 where w1: "file_read 0 (int EHDR_SIZE) g = Inr (Some (fresh (world g), bslice 0 EHDR_SIZE d), g\<lparr>world := w1\<rparr>)"
    "reading d (g\<lparr>world := w1\<rparr>)" "allocated 1 (world g) w1"
    using file_read_nat [OF assms(2), of 0 EHDR_SIZE] wf(2) by auto
  have eh: "in_buf ehdr_at (Some (p, bslice 0 EHDR_SIZE d)) 0 = Inr (file_ehdr d)" for p
    using wf(2) by (simp add: struct_at_def ehdr_of_bslice elf_sizes file_ehdr_def)
  let ?g1 = "g\<lparr>world := w1, elf_header := Some (fresh (world g), bslice 0 EHDR_SIZE d), section_offset := int (shoff d),
     section_size := int SHDR_SIZE, section_count := int (shnum d)\<rparr>"
  have r1: "reading d ?g1" using w1(2) by (simp add: reading_def)
  have pos: "bindE (int_res (int (shstrndx d) * int SHDR_SIZE)) (\<lambda>x. int_res (int (shoff d) + x)) =
      Inr (int (shoff d + SHDR_SIZE * shstrndx d))"
    using head_position(1) [OF assms(1) str(1)] by (simp add: mult.commute)
  obtain w2 where w2: "file_read (int (shoff d + SHDR_SIZE * shstrndx d)) (int SHDR_SIZE) ?g1 =
      Inr (Some (fresh w1, bslice (shoff d + SHDR_SIZE * shstrndx d) SHDR_SIZE d), ?g1\<lparr>world := w2\<rparr>)"
    "reading d (?g1\<lparr>world := w2\<rparr>)" "allocated 1 w1 w2"
    using file_read_nat [OF r1 head_position(2) [OF assms(1) str(1)]] by auto
  have sh: "in_buf shdr_at (Some (p, bslice (shoff d + SHDR_SIZE * shstrndx d) SHDR_SIZE d)) 0 = Inr (sec_hdr d (shstrndx d))" for p
    using head_position(2) [OF assms(1) str(1)] by (simp add: struct_at_def shdr_of_bslice elf_sizes sec_hdr_def)
  let ?g2 = "?g1\<lparr>world := w2, elf_shstrtab_header := Some (fresh w1, bslice (shoff d + SHDR_SIZE * shstrndx d) SHDR_SIZE d)\<rparr>"
  have r2: "reading d ?g2" using w2(2) by (simp add: reading_def)
  obtain w3 where w3: "file_read (int (sec_off d (shstrndx d))) (int (sec_size d (shstrndx d))) ?g2 =
      Inr (Some (fresh w2, names d), ?g2\<lparr>world := w3\<rparr>)" "reading d (?g2\<lparr>world := w3\<rparr>)" "allocated 1 w2 w3"
    using file_read_nat [OF r2 str(2)] by (auto simp: names_def sec_bytes_def)
  have "elf_init_read g = read_heads (shnum d) 0 (?g2\<lparr>world := w3, elf_shstrtab := Some (fresh w2, names d)\<rparr>)"
    unfolding elf_init_read_def
    using w1(1) eh pos w2(1) sh w3(1) init_ints [OF assms(1)] sec_ints [OF wf(1,5)] assms(3)
    by (simp add: bindS_def modifyS_def returnS_def Let_def shnum_def [symmetric])
  moreover have "?g2\<lparr>world := w3, elf_shstrtab := Some (fresh w2, names d)\<rparr> =
      g\<lparr>world := w3, elf_header := Some (fresh (world g), bslice 0 EHDR_SIZE d), section_offset := int (shoff d),
         section_size := int SHDR_SIZE, section_count := int (shnum d), elf_shstrtab_header := elf_shstrtab_header ?g2,
         elf_shstrtab := Some (fresh w2, names d)\<rparr>"
    by (rule elf_globals.equality) simp_all
  moreover have "allocated 3 (world g) w3"
    using allocated_Suc [OF w1(3) allocated_Suc [OF w2(3) w3(3)]] by (simp add: numeral_3_eq_3)
  moreover have "reading d (g\<lparr>world := w3\<rparr>)" using w3(2) by (simp add: reading_def)
  ultimately show ?thesis by metis
qed

lemma elf_init_read_loads:
  assumes "wf_elf d" and "reading d g" and "sh_type (sec_hdr d (shstrndx d)) = SHT_STRTAB"
    and "shnum d \<le> 100" and "length (section_heads g) = 100"
  shows "\<exists>w p q r hs. elf_init_read g = Inr ((),
      g\<lparr>world := w, elf_header := Some (p, bslice 0 EHDR_SIZE d), section_offset := int (shoff d),
         section_size := int SHDR_SIZE, section_count := int (shnum d), elf_shstrtab_header := q,
         elf_shstrtab := Some (r, names d), section_heads := hs\<rparr>) \<and>
    heads_from d hs 0 (shnum d) \<and> reading d (g\<lparr>world := w\<rparr>) \<and> allocated (3 + shnum d) (world g) w"
proof -
  obtain w p q r where e: "elf_init_read g = read_heads (shnum d) 0
      (g\<lparr>world := w, elf_header := Some (p, bslice 0 EHDR_SIZE d), section_offset := int (shoff d),
         section_size := int SHDR_SIZE, section_count := int (shnum d), elf_shstrtab_header := q,
         elf_shstrtab := Some (r, names d)\<rparr>)" (is "_ = read_heads _ _ ?g")
    and rd: "reading d (g\<lparr>world := w\<rparr>)" and al: "allocated 3 (world g) w"
    using elf_init_read_prefix [OF assms(1-3)] by blast
  have "reading d ?g" using rd by (simp add: reading_def)
  then obtain w' hs where "read_heads (shnum d) 0 ?g = Inr ((), ?g\<lparr>world := w', section_heads := hs\<rparr>)"
    "reading d (?g\<lparr>world := w'\<rparr>)" "allocated (shnum d) w w'" "heads_from d hs 0 (shnum d)"
    using read_heads_loads [OF assms(1) _ assms(4), of 0 "shnum d" ?g] assms(5) by auto
  then show ?thesis using e allocated_trans [OF al]
    by - (rule exI [of _ w'], rule exI [of _ p], rule exI [of _ q], rule exI [of _ r], rule exI [of _ hs],
        auto simp: reading_def)
qed

text \<open>
  \<open>elf_init_read\<close> loads the file header, the section names and every section header
  of a well-formed file that has at most 100 sections, and writes past the end of the
  array \<open>elf_section_head[100]\<close> when the file has more.
\<close>

theorem elf_init_read_outcomes:
  assumes "wf_elf d" and "reading d g" and "sh_type (sec_hdr d (shstrndx d)) = SHT_STRTAB"
    and "length (section_heads g) = 100"
  shows "if shnum d \<le> 100 then \<exists>g'. elf_init_read g = Inr ((), g') \<and> dump_loaded d g' \<and> allocated (3 + shnum d) (world g) (world g')
    else elf_init_read g = Inl BufferOverflow"
proof (cases "shnum d \<le> 100")
  case True
  then show ?thesis using elf_init_read_loads [OF assms(1-3) True assms(4)]
    by (auto simp: dump_loaded_def heads_from_def)
next
  case False
  obtain w p q r where "elf_init_read g = read_heads (shnum d) 0
      (g\<lparr>world := w, elf_header := Some (p, bslice 0 EHDR_SIZE d), section_offset := int (shoff d),
         section_size := int SHDR_SIZE, section_count := int (shnum d), elf_shstrtab_header := q,
         elf_shstrtab := Some (r, names d)\<rparr>)" "reading d (g\<lparr>world := w\<rparr>)"
    using elf_init_read_prefix [OF assms(1-3)] by blast
  then show ?thesis using False read_heads_overflow [OF assms(1), of 0 "shnum d"] assms(4)
    by (simp add: reading_def)
qed

subsection \<open>Search by name\<close>

lemma head_loaded:
  assumes "wf_elf d" and "dump_loaded d g" and "shnum d \<le> 100" and "i < shnum d"
  shows "\<exists>p. head_at (section_heads g) (int i) = Inr (Some (p, bslice (shoff d + SHDR_SIZE * i) SHDR_SIZE d)) \<and>
    in_buf shdr_at (Some (p, bslice (shoff d + SHDR_SIZE * i) SHDR_SIZE d)) 0 = Inr (sec_hdr d i)"
proof -
  obtain p where "section_heads g ! i = Some (p, bslice (shoff d + SHDR_SIZE * i) SHDR_SIZE d)" "length (section_heads g) = 100"
    using assms(2,4) by (auto simp: dump_loaded_def)
  moreover have "in_buf shdr_at (Some (p, bslice (shoff d + SHDR_SIZE * i) SHDR_SIZE d)) 0 = Inr (sec_hdr d i)"
    using head_position(2) [OF assms(1,4)] by (simp add: struct_at_def shdr_of_bslice elf_sizes sec_hdr_def)
  ultimately show ?thesis using assms(3,4) by (simp add: head_at_def buf_at_def)
qed

lemma find_shstrtab_first:
  assumes "wf_elf d" and "dump_loaded d g" and "shnum d \<le> 100" and "CHR 0x00 \<notin> set name" and "i + k = shnum d"
  shows "find_shstrtab k (section_heads g) (Some (q, names d)) name i =
    Inr (case find (\<lambda>i. sec_name d i = name) [i..<i + k] of None \<Rightarrow> - 1 | Some j \<Rightarrow> int j)"
  using assms(5)
proof (induction k arbitrary: i)
  case (Suc k)
  note wf = wf_elfD [OF assms(1)]
  have i: "i < shnum d" using Suc.prems by simp
  have "strcmp_at name (names d) (unat (sh_name (sec_hdr d i))) = Inr (sec_name d i = name)"
    unfolding sec_name_def by (rule strcmp_at_cstr [OF cstr_at_strtab [OF wf(6) wf(7) [OF i]] assms(4)])
  moreover have "find (\<lambda>i. sec_name d i = name) [i..<i + Suc k] =
      (if sec_name d i = name then Some i else find (\<lambda>i. sec_name d i = name) [Suc i..<Suc i + k])"
  proof -
    have "[i..<i + Suc k] = i # [Suc i..<Suc i + k]" by (simp add: upt_conv_Cons)
    then show ?thesis by (simp only: find.simps)
  qed
  moreover obtain p where "head_at (section_heads g) (int i) = Inr (Some (p, bslice (shoff d + SHDR_SIZE * i) SHDR_SIZE d))"
    "in_buf shdr_at (Some (p, bslice (shoff d + SHDR_SIZE * i) SHDR_SIZE d)) 0 = Inr (sec_hdr d i)"
    using head_loaded [OF assms(1-3) i] by blast
  ultimately show ?case using Suc.IH [of "Suc i"] Suc.prems by (simp del: upt_Suc)
qed simp

lemma find_shstrtab_spec:
  assumes "wf_elf d" and "dump_loaded d g" and "shnum d \<le> 100" and "CHR 0x00 \<notin> set name"
  shows "elf_find_shstrtab (section_heads g) (section_count g) (elf_shstrtab g) name =
    Inr (case sec_named d name of None \<Rightarrow> - 1 | Some j \<Rightarrow> int j)"
  using find_shstrtab_first [OF assms, of 0 "shnum d"] assms(2)
  by (auto simp: elf_find_shstrtab_def dump_loaded_def sec_named_def)

text \<open>
  \<open>_elf_section_dump_by_name\<close> dumps the contents of the first section of that name
  at its file offset; when there is none, the index \<open>-1\<close> that the search returns is used
  to index the array of section headers.
\<close>

theorem elf_section_dump_by_name_outcomes:
  assumes "wf_elf d" and "dump_loaded d g" and "shnum d \<le> 100" and "reading d g" and "CHR 0x00 \<notin> set name"
    and "\<forall>i. sec_named d name = Some i \<longrightarrow> sec_inside d i"
  shows "case sec_named d name of
      None \<Rightarrow> elf_section_dump_by_name name g = Inl OutOfBounds
    | Some i \<Rightarrow> \<exists>w. elf_section_dump_by_name name g =
        bindE (binary_dump (sh_offset (sec_hdr d i)) (sh_size (sec_hdr d i)) (Some (sec_bytes d i)))
          (\<lambda>t. Inr ((), g\<lparr>world := w\<lparr>errs := errs w @ t\<rparr>\<rparr>)) \<and> errs w = errs (world g)"
proof (cases "sec_named d name")
  case None
  then show ?thesis using find_shstrtab_spec [OF assms(1-3,5)]
    by (simp add: elf_section_dump_by_name_def bindS_def getsS_def head_at_def returnS_apply)
next
  case (Some i)
  then have i: "i < shnum d" "sec_inside d i" "sec_off d i + sec_size d i \<le> length d"
    using sec_named_bound assms(6) by (auto simp: sec_inside_def)
  note h = head_loaded [OF assms(1-3) i(1)]
  obtain w where w: "file_read (int (sec_off d i)) (int (sec_size d i)) g = Inr (Some (fresh (world g), sec_bytes d i), g\<lparr>world := w\<rparr>)"
    "allocated 1 (world g) w"
    using file_read_nat [OF assms(4) i(3)] by (auto simp: sec_bytes_def)
  have "elf_section_dump_by_name name g =
      bindE (binary_dump (sh_offset (sec_hdr d i)) (sh_size (sec_hdr d i)) (Some (sec_bytes d i)))
          (\<lambda>t. Inr ((), g\<lparr>world := w\<lparr>errs := errs w @ t\<rparr>\<rparr>))"
    using find_shstrtab_spec [OF assms(1-3,5)] Some h w(1) sec_ints [OF wf_elfD(1) [OF assms(1)] i(2)]
    by (auto simp: elf_section_dump_by_name_def bindS_def getsS_def returnS_apply dump_plain_def ptr_bytes_def on_os_def put_err_def
        liftS_def bindE_assoc)
  moreover have "errs w = errs (world g)" using w(2) by (simp add: allocated_def same_but_heap_def)
  ultimately show ?thesis unfolding Some option.case by blast
qed

end
