(* ===== verification/ElfDig.thy ===== *)
theory ElfDig
  imports ElfLayout ElfNames BinaryDump
begin

text \<open>
  The library and the program of \<open>elfdig.c\<close>. \<open>struct elf_obj\<close> comes from
  \<open>malloc\<close>, so each of its fields but \<open>fd\<close> is a cell that may never have been
  written; its pointer fields hold heap buffers. A pointer to a section header, a symbol
  or a dynamic entry is a byte position in the buffer that holds the table. Functions that
  change the object return it.
\<close>

subsection \<open>State\<close>

record elf_obj =
  fd :: int
  head :: "heapbuf cell"
  section_tab :: "heapbuf cell"   \<comment> \<open>\<open>section\<close>\<close>
  section_num :: "int cell"
  sym :: "heapbuf cell"
  sym_num :: "int cell"
  dynsym :: "heapbuf cell"
  dynsym_num :: "int cell"
  dyn :: "heapbuf cell"
  dyn_num :: "int cell"
  shstrtab :: "heapbuf cell"
  shstrtab_len :: "int cell"
  strtab :: "heapbuf cell"
  strtab_len :: "int cell"
  dynstr :: "heapbuf cell"
  dynstr_len :: "int cell"

text \<open>The object as \<open>malloc\<close> gives it, with the descriptor stored.\<close>

definition new_obj :: "int \<Rightarrow> elf_obj" where
  "new_obj f =
     \<lparr>fd = f, head = Undef, section_tab = Undef, section_num = Undef, sym = Undef, sym_num = Undef,
      dynsym = Undef, dynsym_num = Undef, dyn = Undef, dyn_num = Undef, shstrtab = Undef,
      shstrtab_len = Undef, strtab = Undef, strtab_len = Undef, dynstr = Undef, dynstr_len = Undef\<rparr>"

definition sizeof_elf_obj :: int where "sizeof_elf_obj = 128"

definition perr :: "string \<Rightarrow> u32 \<Rightarrow> string \<Rightarrow> unit sm" where
  "perr fn line msg = bindS (liftS (perr_text ''elfdig.c'' fn line msg)) put_out"

subsection \<open>Reading\<close>

definition elf_file_read :: "elf_obj \<Rightarrow> int \<Rightarrow> int \<Rightarrow> heapbuf sm" where
  "elf_file_read obj offset sz =
     bindS (sys_malloc sz) (\<lambda>ret.
       case ret of
         None \<Rightarrow> bindS (perr ''elf_file_read'' 74 ''no memory'') (\<lambda>_. returnS None)
       | Some p \<Rightarrow>
           bindS (sys_lseek (fd obj) offset) (\<lambda>r.
             if r \<noteq> offset then bindS (perr ''elf_file_read'' 79 ''lseek'') (\<lambda>_. returnS None)
             else bindS (sys_read (fd obj) (size_arg sz)) (\<lambda>bs.
               case bs of
                 None \<Rightarrow> bindS (perr ''elf_file_read'' 83 ''read'') (\<lambda>_. returnS None)
               | Some d \<Rightarrow>
                   if int (length d) \<noteq> sz then bindS (perr ''elf_file_read'' 83 ''read'') (\<lambda>_. returnS None)
                   else returnS (Some (p, d)))))"

definition elf_section_head_read :: "elf_obj \<Rightarrow> (int \<times> elf_obj) sm" where
  "elf_section_head_read obj =
     bindS (elf_file_read obj 0 (int EHDR_SIZE)) (\<lambda>h.
     bindS (liftS (in_buf ehdr_at h 0)) (\<lambda>eh.
     let section_offset = i32 (e_shoff eh); section_size = i16 (e_shentsize eh); num = i16 (e_shnum eh) in
     bindS (liftS (int_res (section_size * num))) (\<lambda>total.
     bindS (elf_file_read obj section_offset total) (\<lambda>tab.
     let obj1 = obj\<lparr>head := Def h, section_tab := Def tab, section_num := Def num\<rparr> in
     bindS (liftS (in_buf shdr_at tab (SHDR_SIZE * unat (e_shstrndx eh)))) (\<lambda>sh.
     bindS (elf_file_read obj1 (i32 (sh_offset sh)) (i32 (sh_size sh))) (\<lambda>str.
     returnS (0, obj1\<lparr>shstrtab := Def str, shstrtab_len := Def (i32 (sh_size sh))\<rparr>)))))))"

subsection \<open>Sections\<close>

text \<open>The result is a pointer, given by its distance from the start of \<open>shstrtab\<close>.\<close>

definition elf_section_name :: "elf_obj \<Rightarrow> int \<Rightarrow> int res" where
  "elf_section_name obj index =
     bindE (load (shstrtab_len obj)) (\<lambda>max_length.
     bindE (load (shstrtab obj)) (\<lambda>_.
     Inr (if index > max_length then 0 else index)))"

text \<open>Reading the string at a pointer into a buffer.\<close>

definition str_in :: "heapbuf \<Rightarrow> int \<Rightarrow> string res" where
  "str_in p k = bindE (deref p) (\<lambda>(q, b). if k < 0 then Inl OutOfBounds else cstr_at b (nat k))"

primrec find_section :: "nat \<Rightarrow> heapbuf \<Rightarrow> heapbuf \<Rightarrow> string \<Rightarrow> nat \<Rightarrow> nat option res" where
  "find_section 0 tab str name i = Inr None"
| "find_section (Suc k) tab str name i =
     bindE (in_buf shdr_at tab (SHDR_SIZE * i)) (\<lambda>sh.
     bindE (in_buf (strcmp_at name) str (unat (sh_name sh))) (\<lambda>eq.
     if eq then Inr (Some (SHDR_SIZE * i)) else find_section k tab str name (i + 1)))"

definition elf_section_head :: "elf_obj \<Rightarrow> string \<Rightarrow> nat option res" where
  "elf_section_head obj name =
     bindE (load (section_num obj)) (\<lambda>num.
     bindE (load (section_tab obj)) (\<lambda>tab.
     bindE (load (shstrtab obj)) (\<lambda>str.
     find_section (nat num) tab str name 0)))"

definition elf_section_at :: "elf_obj \<Rightarrow> nat option \<Rightarrow> heapbuf sm" where  \<comment> \<open>\<open>_elf_section\<close>\<close>
  "elf_section_at obj h =
     bindS (liftS (deref h)) (\<lambda>k.
     bindS (liftS (bindE (load (section_tab obj)) (\<lambda>tab. in_buf shdr_at tab k))) (\<lambda>sh.
     elf_file_read obj (i32 (sh_offset sh)) (i32 (sh_size sh))))"

definition elf_section :: "elf_obj \<Rightarrow> string \<Rightarrow> heapbuf sm" where
  "elf_section obj name = bindS (liftS (elf_section_head obj name)) (elf_section_at obj)"

definition elf_section_head_by_index :: "elf_obj option \<Rightarrow> int \<Rightarrow> int option res" where
  "elf_section_head_by_index obj index =
     (case obj of None \<Rightarrow> Inr None
      | Some ob \<Rightarrow>
          bindE (load (section_num ob)) (\<lambda>num.
          if index \<ge> num then Inr None
          else bindE (load (section_tab ob)) (\<lambda>_. Inr (Some (int SHDR_SIZE * index)))))"

text \<open>\<open>free\<close> of a pointer that may be null.\<close>

definition elf_free :: "heapbuf \<Rightarrow> unit sm" where
  "elf_free p = (case p of None \<Rightarrow> returnS () | Some (q, b) \<Rightarrow> sys_free q)"

primrec each_section ::
  "nat \<Rightarrow> elf_obj \<Rightarrow> (heapbuf \<Rightarrow> nat \<Rightarrow> heapbuf \<Rightarrow> unit sm) \<Rightarrow> heapbuf \<Rightarrow> nat \<Rightarrow> unit sm" where
  "each_section 0 obj callback tab i = returnS ()"
| "each_section (Suc k) obj callback tab i =
     bindS (elf_section_at obj (Some (SHDR_SIZE * i))) (\<lambda>d.
     bindS (callback tab (SHDR_SIZE * i) d) (\<lambda>_.
     bindS (elf_free d) (\<lambda>_. each_section k obj callback tab (i + 1))))"

definition elf_for_each_section :: "elf_obj \<Rightarrow> (heapbuf \<Rightarrow> nat \<Rightarrow> heapbuf \<Rightarrow> unit sm) \<Rightarrow> unit sm" where
  "elf_for_each_section obj callback =
     bindS (liftS (load (section_tab obj))) (\<lambda>tab.
     bindS (liftS (load (section_num obj))) (\<lambda>num. each_section (nat num) obj callback tab 0))"

subsection \<open>Symbols\<close>

definition elf_sym_read :: "elf_obj option \<Rightarrow> (int \<times> elf_obj option) sm" where
  "elf_sym_read p =
     (case p of None \<Rightarrow> returnS (- 1, None)
      | Some obj \<Rightarrow>
          bindS (elf_section obj ''.strtab'') (\<lambda>str.
          if str = None then
            bindS (perr ''elf_sym_read'' 213 ''can not get .strtab section'') (\<lambda>_. returnS (- 1, Some obj))
          else let obj1 = obj\<lparr>strtab := Def str\<rparr> in
          bindS (liftS (elf_section_head obj1 ''.symtab'')) (\<lambda>sym_head.
          case sym_head of
            None \<Rightarrow> bindS (perr ''elf_sym_read'' 220 ''sym tab'') (\<lambda>_. returnS (- 1, Some obj1))
          | Some k \<Rightarrow>
              bindS (liftS (bindE (load (section_tab obj1)) (\<lambda>tab. in_buf shdr_at tab k))) (\<lambda>sh.
              let obj2 = obj1\<lparr>sym_num := Def (int (unat (sh_size sh) div SYM_SIZE))\<rparr> in
              bindS (elf_section_at obj2 (Some k)) (\<lambda>s. returnS (0, Some (obj2\<lparr>sym := Def s\<rparr>)))))))"

definition elf_sym_name :: "elf_obj \<Rightarrow> u32 \<Rightarrow> string res" where  \<comment> \<open>with the read of the string\<close>
  "elf_sym_name obj index = bindE (load (strtab obj)) (\<lambda>p. str_in p (i32 index))"

type_synonym sym_callback = "elf_obj \<Rightarrow> heapbuf \<Rightarrow> nat \<Rightarrow> unit sm"

primrec each_entry :: "nat \<Rightarrow> nat \<Rightarrow> elf_obj \<Rightarrow> sym_callback \<Rightarrow> heapbuf \<Rightarrow> nat \<Rightarrow> unit sm" where
  "each_entry 0 stride obj callback tab i = returnS ()"
| "each_entry (Suc k) stride obj callback tab i =
     bindS (callback obj tab (stride * i)) (\<lambda>_. each_entry k stride obj callback tab (i + 1))"

definition elf_for_each_sym :: "elf_obj option \<Rightarrow> sym_callback \<Rightarrow> unit sm" where
  "elf_for_each_sym p callback =
     bindS (liftS (deref p)) (\<lambda>obj.
     bindS (liftS (load (sym_num obj))) (\<lambda>num.
     bindS (liftS (load (sym obj))) (\<lambda>tab. each_entry (nat num) SYM_SIZE obj callback tab 0)))"

text \<open>The name of the section of a symbol, for printing; \<open>EMPTY\<close> is the empty string.\<close>

definition sym_section_name :: "elf_obj \<Rightarrow> elfsym \<Rightarrow> string res" where
  "sym_section_name obj s =
     bindE (elf_section_head_by_index (Some obj) (i16 (st_shndx s))) (\<lambda>sh.
     case sh of None \<Rightarrow> Inr []
     | Some k \<Rightarrow>
         bindE (load (section_tab obj)) (\<lambda>tab.
         bindE (in_buf shdr_at tab (nat k)) (\<lambda>h.
         bindE (elf_section_name obj (i32 (sh_name h))) (\<lambda>n.
         bindE (load (shstrtab obj)) (\<lambda>str. str_in str n)))))"

definition SYM_LINE :: string where
  "SYM_LINE = ''value %08x size %08x shndx %16s name %s\<newline>''"

definition elf_sym_show_all :: sym_callback where
  "elf_sym_show_all obj tab k =
     bindS (liftS (in_buf sym_at tab k)) (\<lambda>s.
     bindS (liftS (sym_section_name obj s)) (\<lambda>section_name.
     bindS (liftS (elf_sym_name obj (st_name s))) (\<lambda>name.
     eprintf SYM_LINE [AInt (st_value s), AInt (st_size s), AStr section_name, AStr name])))"

definition elf_sym_show_func :: sym_callback where
  "elf_sym_show_func obj tab k =
     bindS (liftS (in_buf sym_at tab k)) (\<lambda>s.
     if SYM_TYPE (st_info s) \<noteq> STT_FUNC then returnS ()
     else
       let flag = (if st_size s \<noteq> 0 then ''*'' else []) in
       bindS (liftS (sym_section_name obj s)) (\<lambda>section_name.
       bindS (liftS (elf_sym_name obj (st_name s))) (\<lambda>name.
       eprintf ''%02s value %08x size %08x %16s name %s\<newline>''
         [AStr flag, AInt (st_value s), AInt (st_size s), AStr section_name, AStr name])))"

subsection \<open>Dynamic symbols\<close>

definition elf_dynsym_read :: "elf_obj option \<Rightarrow> (int \<times> elf_obj option) sm" where
  "elf_dynsym_read p =
     (case p of None \<Rightarrow> returnS (- 1, None)
      | Some obj \<Rightarrow>
          bindS (elf_section obj ''.dynstr'') (\<lambda>str.
          if str = None then
            bindS (perr ''elf_dynsym_read'' 309 ''can not get .dynstr section'') (\<lambda>_.
            returnS (0, Some (obj\<lparr>dynstr := Def None\<rparr>)))
          else let obj1 = obj\<lparr>dynstr := Def str\<rparr> in
          bindS (liftS (elf_section_head obj1 ''.dynsym'')) (\<lambda>dynsym_head.
          case dynsym_head of
            None \<Rightarrow> bindS (perr ''elf_dynsym_read'' 317 ''no sym tab'') (\<lambda>_.
              returnS (0, Some (obj1\<lparr>dynsym := Def None, dynsym_num := Def 0\<rparr>)))
          | Some k \<Rightarrow>
              bindS (liftS (bindE (load (section_tab obj1)) (\<lambda>tab. in_buf shdr_at tab k))) (\<lambda>sh.
              let obj2 = obj1\<lparr>dynsym_num := Def (int (unat (sh_size sh) div SYM_SIZE))\<rparr> in
              bindS (elf_section_at obj2 (Some k)) (\<lambda>s. returnS (0, Some (obj2\<lparr>dynsym := Def s\<rparr>)))))))"

definition elf_dynsym_name :: "elf_obj \<Rightarrow> u32 \<Rightarrow> string res" where
  "elf_dynsym_name obj index = bindE (load (dynstr obj)) (\<lambda>p. str_in p (i32 index))"

definition elf_for_each_dynsym :: "elf_obj option \<Rightarrow> sym_callback \<Rightarrow> unit sm" where
  "elf_for_each_dynsym p callback =
     bindS (liftS (deref p)) (\<lambda>obj.
     bindS (liftS (load (dynsym_num obj))) (\<lambda>num.
     bindS (liftS (load (dynsym obj))) (\<lambda>tab. each_entry (nat num) SYM_SIZE obj callback tab 0)))"

definition elf_dynsym_show_all :: sym_callback where
  "elf_dynsym_show_all obj tab k =
     bindS (liftS (in_buf sym_at tab k)) (\<lambda>s.
     bindS (liftS (sym_section_name obj s)) (\<lambda>section_name.
     bindS (liftS (elf_dynsym_name obj (st_name s))) (\<lambda>name.
     eprintf SYM_LINE [AInt (st_value s), AInt (st_size s), AStr section_name, AStr name])))"

subsection \<open>The dynamic section\<close>

definition elf_dyn_read :: "elf_obj option \<Rightarrow> (int \<times> elf_obj option) sm" where
  "elf_dyn_read p =
     (case p of None \<Rightarrow> returnS (- 1, None)
      | Some obj \<Rightarrow>
          bindS (liftS (elf_section_head obj ''.dynamic'')) (\<lambda>h.
          case h of
            None \<Rightarrow> bindS (perr ''elf_dyn_read'' 380 ''no .dynamic section'') (\<lambda>_. returnS (- 1, Some obj))
          | Some k \<Rightarrow>
              bindS (liftS (bindE (load (section_tab obj)) (\<lambda>tab. in_buf shdr_at tab k))) (\<lambda>sh.
              let entsize = i32 (sh_entsize sh) in
              if entsize \<noteq> 0 \<and> entsize \<noteq> int DYN_SIZE then returnS (- 1, Some obj)
              else
                bindS (liftS (int_div (i32 (sh_size sh)) entsize)) (\<lambda>num.
                bindS (elf_section_at obj (Some k)) (\<lambda>d.
                returnS (0, Some (obj\<lparr>dyn := Def d, dyn_num := Def num\<rparr>)))))))"

primrec each_dyn :: "nat \<Rightarrow> elf_obj \<Rightarrow> sym_callback \<Rightarrow> heapbuf \<Rightarrow> nat \<Rightarrow> unit sm" where
  "each_dyn 0 obj callback tab i = returnS ()"
| "each_dyn (Suc k) obj callback tab i =
     bindS (liftS (in_buf dyn_at tab (DYN_SIZE * i))) (\<lambda>d.
     if d_tag d = 0 then returnS ()
     else bindS (callback obj tab (DYN_SIZE * i)) (\<lambda>_. each_dyn k obj callback tab (i + 1)))"

definition elf_for_each_dyn :: "elf_obj option \<Rightarrow> sym_callback \<Rightarrow> unit sm" where
  "elf_for_each_dyn p callback =
     bindS (liftS (deref p)) (\<lambda>obj.
     bindS (liftS (load (dyn obj))) (\<lambda>tab.
     bindS (liftS (load (dyn_num obj))) (\<lambda>num. each_dyn (nat num) obj callback tab 0)))"

definition elf_dyn_show_all :: sym_callback where
  "elf_dyn_show_all obj tab k =
     bindS (liftS (in_buf dyn_at tab k)) (\<lambda>d.
     bindS (eprintf ''%08x'' [AInt (d_tag d)]) (\<lambda>_.
     bindS (eprintf ''%16s'' [AStr (dyn_type_lib (d_tag d))]) (\<lambda>_.
     eprintf ''  %08x\<newline>'' [AInt (d_val d)])))"

subsection \<open>Opening and closing\<close>

text \<open>The pointer to the object is its heap identity with its contents.\<close>

definition elf_init :: "string \<Rightarrow> (nat \<times> elf_obj) option sm" where
  "elf_init elf_file_name =
     bindS (sys_open elf_file_name) (\<lambda>f.
     if f < 0 then returnS None
     else (\<lambda>s. case fd_data f s of
         None \<Rightarrow> returnS None s
       | Some d \<Rightarrow>
           if length d = 0 then returnS None s
           else bindS (sys_malloc sizeof_elf_obj) (\<lambda>p.
             case p of None \<Rightarrow> returnS None
             | Some q \<Rightarrow>
                 bindS (elf_section_head_read (new_obj f)) (\<lambda>r0.
                 bindS (elf_sym_read (Some (snd r0))) (\<lambda>r1.
                 bindS (elf_dynsym_read (snd r1)) (\<lambda>r2.
                 bindS (elf_dyn_read (snd r2)) (\<lambda>r3.
                 returnS (map_option (Pair q) (snd r3))))))) s))"

definition free_field :: "heapbuf cell \<Rightarrow> unit sm" where
  "free_field c = bindS (liftS (load c)) elf_free"

definition elf_fini :: "(nat \<times> elf_obj) option \<Rightarrow> unit sm" where
  "elf_fini p =
     bindS (liftS (deref p)) (\<lambda>(q, obj).
     bindS (if fd obj \<noteq> 0 then bindS (sys_close (fd obj)) (\<lambda>_. returnS ()) else returnS ()) (\<lambda>_.
     bindS (free_field (head obj)) (\<lambda>_.
     bindS (free_field (section_tab obj)) (\<lambda>_.
     bindS (free_field (sym obj)) (\<lambda>_.
     bindS (free_field (shstrtab obj)) (\<lambda>_.
     bindS (free_field (strtab obj)) (\<lambda>_.
     free_field (dyn obj))))))))"

definition elfdig_main :: "string list \<Rightarrow> int sm" where
  "elfdig_main argv =
     (if argv = [] then (\<lambda>_. Inl NullDeref)   \<comment> \<open>\<open>argv[0]\<close> is null\<close>
      else if length argv \<noteq> 2 then
        bindS (liftS (vsprintf ''\<newline>File:<%s> Fun:[%s] Line:%d\<newline> Usage: %s inputfile''
            [AStr ''elfdig.c'', AStr ''main'', AInt 470, AStr (argv ! 0)])) (\<lambda>t.
        bindS (put_out t) (\<lambda>_. returnS (- 1)))
      else
        bindS (elf_init (argv ! 1)) (\<lambda>p.
        bindS (elf_for_each_sym (map_option snd p) elf_sym_show_all) (\<lambda>_.
        bindS (elf_for_each_dynsym (map_option snd p) elf_dynsym_show_all) (\<lambda>_.
        bindS (elf_for_each_dyn (map_option snd p) elf_dyn_show_all) (\<lambda>_.
        bindS (elf_fini p) (\<lambda>_. returnS 0))))))"

end
