(* ===== verification/ElfDigSpec.thy ===== *)
theory ElfDigSpec
  imports ElfDig ElfReader ElfView
begin

text \<open>
  Correctness of \<open>elfdig.c\<close>: its reader meets the contract of \<open>file_reader\<close>, and
  on well-formed files each operation computes what the abstract view of the file says.
  Also the inputs on which it does not.
\<close>

subsection \<open>The reader\<close>

lemma perr_read_texts:
  "perr ''elf_file_read'' 83 ''read'' s = Inr ((), s\<lparr>outs := outs s @ ''\<newline>File:<elfdig.c> Fun:[elf_file_read] Line:83\<newline> read''\<rparr>)"
proof -
  have "perr_text ''elfdig.c'' ''elf_file_read'' 83 ''read'' = Inr ''\<newline>File:<elfdig.c> Fun:[elf_file_read] Line:83\<newline> read''"
    by code_simp
  then show ?thesis by (simp add: perr_def put_out_def)
qed

lemma elf_file_read_slice:
  assumes "fd_inv (fd obj) d s" and "in_file d off n"
  shows "\<exists>s'. elf_file_read obj off n s = Inr (Some (fresh s, slice_of d off n), s') \<and> fd_inv (fd obj) d s' \<and> allocated 1 s s'"
proof -
  have n: "0 \<le> off" "0 \<le> n" "n < 2147483648" "n \<le> int (avail s)" and inside: "nat off + nat n \<le> length d"
    using assms by (auto simp: fd_inv_def in_file_def)
  obtain s0 where s0: "sys_malloc n s = Inr (Some (fresh s), s0)" "allocated 1 s s0" "fdt s0 = fdt s"
    using malloc_ok [OF n(2-4)] by blast
  have d0: "fd_data (fd obj) s0 = Some d"
    using fd_data_cong [OF s0(3), of "fd obj"] s0(2) assms(1) by (simp add: allocated_def same_but_heap_def fd_inv_def)
  obtain s1 s2 where s12: "sys_lseek (fd obj) off s0 = Inr (off, s1)"
    "sys_read (fd obj) (size_arg n) s1 = Inr (Some (bslice (nat off) (size_arg n) d), s2)"
    "fd_data (fd obj) s2 = Some d" "allocated 0 s0 s2"
    using seek_read [OF d0 n(1), of "size_arg n"] by blast
  have "elf_file_read obj off n s = Inr (Some (fresh s, slice_of d off n), s2)"
    using s0(1) s12(1,2) n inside
    by (simp add: elf_file_read_def bindS_def returnS_def slice_of_def size_arg_nonneg)
  moreover have "allocated 1 s s2" using allocated_trans [OF s0(2) s12(4)] by simp
  ultimately show ?thesis using s12(3) assms(1)
    by (auto simp: fd_inv_def allocated_def same_but_heap_def)
qed

lemma elf_file_read_beyond:
  assumes "fd_inv (fd obj) d s" and "0 \<le> off" "off < 2147483648" "0 < n" "n < 2147483648"
    and "\<not> in_file d off n" and "n \<le> int (avail s)"
  shows "\<exists>s'. elf_file_read obj off n s = Inr (None, s') \<and> fd_inv (fd obj) d s' \<and> fresh s \<in> set (live s')"
proof -
  have n: "0 \<le> n" using assms(4) by simp
  obtain s0 where s0: "sys_malloc n s = Inr (Some (fresh s), s0)" "allocated 1 s s0" "fdt s0 = fdt s"
    using malloc_ok [OF n assms(5,7)] by blast
  have d0: "fd_data (fd obj) s0 = Some d"
    using fd_data_cong [OF s0(3), of "fd obj"] s0(2) assms(1) by (simp add: allocated_def same_but_heap_def fd_inv_def)
  obtain s1 s2 where s12: "sys_lseek (fd obj) off s0 = Inr (off, s1)"
    "sys_read (fd obj) (size_arg n) s1 = Inr (Some (bslice (nat off) (size_arg n) d), s2)"
    "fd_data (fd obj) s2 = Some d" "allocated 0 s0 s2"
    using seek_read [OF d0 assms(2), of "size_arg n"] by blast
  have "\<not> nat off + nat n \<le> length d" using assms by (auto simp: in_file_def)
  then have short: "length (bslice (nat off) (nat n) d) < nat n" using length_bslice_beyond assms(4) by fastforce
  let ?s3 = "s2\<lparr>outs := outs s2 @ ''\<newline>File:<elfdig.c> Fun:[elf_file_read] Line:83\<newline> read''\<rparr>"
  have "elf_file_read obj off n s = Inr (None, ?s3)"
    using s0(1) s12(1,2) short assms(4,5)
    by (simp add: elf_file_read_def bindS_def returnS_def size_arg_nonneg perr_read_texts)
  moreover have "fd_data (fd obj) ?s3 = Some d"
    using fd_data_cong [of ?s3 s2] s12(3) by simp
  moreover have "avail s2 = avail s" "fresh s \<in> set (live s2)"
    using allocated_trans [OF s0(2) s12(4)] by (auto simp: allocated_def same_but_heap_def)
  ultimately show ?thesis using assms(1) by (auto simp: fd_inv_def)
qed

interpretation dig: file_reader "elf_file_read obj" "fd_inv (fd obj)" for obj
proof
  show "fd_inv (fd obj) d s \<Longrightarrow> in_file d off n \<Longrightarrow>
      \<exists>s'. elf_file_read obj off n s = Inr (Some (fresh s, slice_of d off n), s') \<and> fd_inv (fd obj) d s' \<and> allocated 1 s s'"
    for obj d s off n by (rule elf_file_read_slice)
  show "fd_inv (fd obj) d s \<Longrightarrow> 0 \<le> off \<Longrightarrow> off < 2147483648 \<Longrightarrow> 0 < n \<Longrightarrow> n < 2147483648 \<Longrightarrow>
      \<not> in_file d off n \<Longrightarrow> n \<le> int (avail s) \<Longrightarrow>
      \<exists>s'. elf_file_read obj off n s = Inr (None, s') \<and> fd_inv (fd obj) d s' \<and> fresh s \<in> set (live s')"
    for obj d s off n by (rule elf_file_read_beyond)
qed


subsection \<open>Loading the section table\<close>

text \<open>What an object holds after \<open>elf_section_head_read\<close> of a well-formed file.\<close>

definition loaded :: "byte list \<Rightarrow> nat \<Rightarrow> elf_obj \<Rightarrow> bool" where
  "loaded d n obj =
     (head obj = Def (Some (n, bslice 0 EHDR_SIZE d)) \<and>
      section_tab obj = Def (Some (Suc n, bslice (shoff d) (SHDR_SIZE * shnum d) d)) \<and>
      section_num obj = Def (int (shnum d)) \<and>
      shstrtab obj = Def (Some (Suc (Suc n), names d)) \<and> shstrtab_len obj = Def (int (length (names d))))"

lemma elf_section_head_read_loads:
  assumes "wf_elf d" and "fd_inv (fd obj) d s"
  shows "\<exists>obj' s'. elf_section_head_read obj s = Inr ((0, obj'), s') \<and> loaded d (fresh s) obj' \<and> fd obj' = fd obj \<and> dyn obj' = dyn obj \<and>
    fd_inv (fd obj) d s' \<and> allocated 3 s s'"
proof -
  note wf = wf_elfD [OF assms(1)]
  obtain s1 where s1: "elf_file_read obj 0 (int EHDR_SIZE) s = Inr (Some (fresh s, bslice 0 EHDR_SIZE d), s1)"
    "fd_inv (fd obj) d s1" "allocated 1 s s1"
    using dig.rd_nat [OF assms(2), of 0 EHDR_SIZE] wf(2) by auto
  have eh: "in_buf ehdr_at (Some (fresh s, bslice 0 EHDR_SIZE d)) 0 = Inr (file_ehdr d)"
    using wf(2) by (simp add: struct_at_def ehdr_of_bslice elf_sizes file_ehdr_def)
  have sz: "i16 (e_shentsize (file_ehdr d)) * i16 (e_shnum (file_ehdr d)) = int (SHDR_SIZE * shnum d)"
    using wf(3) by (simp add: i16_nat shnum_def del: of_nat_unat)
  have ok: "int_res (int (SHDR_SIZE * shnum d)) = Inr (int (SHDR_SIZE * shnum d))"
    using shnum_bound [of d] by (simp add: int_res_def INT_OK_def elf_sizes)
  obtain s2 where s2: "elf_file_read obj (int (shoff d)) (int (SHDR_SIZE * shnum d)) s1 =
      Inr (Some (fresh s1, bslice (shoff d) (SHDR_SIZE * shnum d) d), s2)"
    "fd_inv (fd obj) d s2" "allocated 1 s1 s2"
    using dig.rd_nat [OF s1(2) wf(4)] by blast
  have sh: "in_buf shdr_at (Some (q, bslice (shoff d) (SHDR_SIZE * shnum d) d)) (SHDR_SIZE * shstrndx d) =
      Inr (sec_hdr d (shstrndx d))" for q
    using wf(4,5) by (simp add: struct_at_def shdr_of_bslice elf_sizes sec_hdr_def sec_inside_def)
  let ?obj = "obj\<lparr>head := Def (Some (fresh s, bslice 0 EHDR_SIZE d)),
      section_tab := Def (Some (fresh s1, bslice (shoff d) (SHDR_SIZE * shnum d) d)), section_num := Def (int (shnum d))\<rparr>"
  have inv2: "fd_inv (fd ?obj) d s2" using s2(2) by simp
  have in2: "sec_off d (shstrndx d) + sec_size d (shstrndx d) \<le> length d" using wf(5) by (simp add: sec_inside_def)
  obtain s3 where s3: "elf_file_read ?obj (int (sec_off d (shstrndx d))) (int (sec_size d (shstrndx d))) s2 =
      Inr (Some (fresh s2, names d), s3)" "fd_inv (fd obj) d s3" "allocated 1 s2 s3"
    using dig.rd_nat [OF inv2 in2] by (auto simp: names_def sec_bytes_def)
  have f: "fresh s1 = Suc (fresh s)" "fresh s2 = Suc (Suc (fresh s))"
    using s1(3) s2(3) by (simp_all add: allocated_def)
  have num: "i16 (e_shnum (file_ehdr d)) = int (shnum d)" by (simp add: i16_nat shnum_def del: of_nat_unat)
  have len: "length (names d) = sec_size d (shstrndx d)"
    using length_sec_bytes [OF wf(5)] by (simp add: names_def)
  let ?obj' = "?obj\<lparr>shstrtab := Def (Some (fresh s2, names d)), shstrtab_len := Def (int (length (names d)))\<rparr>"
  have "elf_section_head_read obj s = Inr ((0, ?obj'), s3)"
    unfolding elf_section_head_read_def
    using s1(1) eh sz ok s2(1) sh s3(1) num len sec_ints [OF wf(1,5)] shoff_int [OF assms(1)]
    by (simp add: bindS_def returnS_def Let_def shstrndx_def [symmetric] del: of_nat_mult)
  moreover have "loaded d (fresh s) ?obj'" by (simp add: loaded_def f)
  moreover have "allocated 3 s s3"
    using allocated_Suc [OF s1(3) allocated_Suc [OF s2(3) s3(3)]] by (simp add: numeral_3_eq_3)
  ultimately show ?thesis using s3(2) by fastforce
qed

subsection \<open>Sections by name\<close>

lemma loaded_hdr:
  assumes "wf_elf d" and "loaded d n obj" and "i < shnum d"
  shows "bindE (load (section_tab obj)) (\<lambda>tab. in_buf shdr_at tab (SHDR_SIZE * i)) = Inr (sec_hdr d i)"
  using assms wf_elfD(4) [OF assms(1)]
  by (simp add: loaded_def struct_at_def shdr_of_bslice elf_sizes sec_hdr_def)

lemma find_section_first:
  assumes "wf_elf d" and "CHR 0x00 \<notin> set name" and "i + k \<le> shnum d"
  shows "find_section k (Some (p, bslice (shoff d) (SHDR_SIZE * shnum d) d)) (Some (q, names d)) name i =
    Inr (map_option ((*) SHDR_SIZE) (find (\<lambda>i. sec_name d i = name) [i..<i + k]))"
  using assms(3)
proof (induction k arbitrary: i)
  case (Suc k)
  note wf = wf_elfD [OF assms(1)]
  have i: "i < shnum d" using Suc.prems by simp
  have "struct_at SHDR_SIZE shdr_of (bslice (shoff d) (SHDR_SIZE * shnum d) d) (SHDR_SIZE * i) = Inr (sec_hdr d i)"
    using i wf(4) by (simp add: struct_at_def shdr_of_bslice elf_sizes sec_hdr_def)
  moreover have "strcmp_at name (names d) (unat (sh_name (sec_hdr d i))) = Inr (sec_name d i = name)"
    unfolding sec_name_def by (rule strcmp_at_cstr [OF cstr_at_strtab [OF wf(6) wf(7) [OF i]] assms(2)])
  moreover have "[i..<i + Suc k] = i # [Suc i..<Suc i + k]" by (simp add: upt_conv_Cons)
  ultimately show ?case using Suc.IH [of "Suc i"] Suc.prems by simp
qed simp

lemma section_head_first:
  assumes "wf_elf d" and "loaded d n obj" and "CHR 0x00 \<notin> set name"
  shows "elf_section_head obj name = Inr (map_option ((*) SHDR_SIZE) (sec_named d name))"
  using find_section_first [OF assms(1,3), of 0 "shnum d"] assms(2)
  by (simp add: elf_section_head_def loaded_def sec_named_def)

text \<open>
  \<open>elf_section_head\<close> finds the first section of the file that has the name, and
  returns null when there is none.
\<close>

theorem elf_section_head_first:
  assumes "wf_elf d" and "loaded d n obj" and "CHR 0x00 \<notin> set name"
  shows "elf_section_head obj name = Inr (map_option ((*) SHDR_SIZE) (sec_named d name))"
  by (rule section_head_first [OF assms])

lemma elf_section_at_reads:
  assumes "wf_elf d" and "loaded d n obj" and "fd_inv (fd obj) d s" and "sec_inside d i"
  shows "\<exists>s'. elf_section_at obj (Some (SHDR_SIZE * i)) s = Inr (Some (fresh s, sec_bytes d i), s') \<and>
    fd_inv (fd obj) d s' \<and> allocated 1 s s'"
proof -
  have i: "i < shnum d" "sec_off d i + sec_size d i \<le> length d" using assms(4) by (simp_all add: sec_inside_def)
  show ?thesis
    using loaded_hdr [OF assms(1,2) i(1)] dig.rd_nat [OF assms(3) i(2)] sec_ints [OF wf_elfD(1) [OF assms(1)] assms(4)]
    by (simp add: elf_section_at_def bindS_def returnS_def sec_bytes_def)
qed

text \<open>
  \<open>elf_section\<close> returns a fresh copy of the contents of the first section of that
  name; when the file has no section of that name it dereferences a null pointer, so that
  its callers' tests of the result for null never see a missing section.
\<close>

theorem elf_section_reads:
  assumes "wf_elf d" and "loaded d n obj" and "fd_inv (fd obj) d s" and "CHR 0x00 \<notin> set name"
    and "\<forall>i. sec_named d name = Some i \<longrightarrow> sec_inside d i"
  shows "case sec_named d name of
      None \<Rightarrow> elf_section obj name s = Inl NullDeref
    | Some i \<Rightarrow> \<exists>s'. elf_section obj name s = Inr (Some (fresh s, sec_bytes d i), s') \<and> allocated 1 s s'"
  using section_head_first [OF assms(1,2,4)] elf_section_at_reads [OF assms(1-3)] assms(5)
  by (cases "sec_named d name") (auto simp: elf_section_def elf_section_at_def bindS_def)

lemma section_reads:
  assumes "wf_elf d" and "loaded d n obj" and "fd_inv (fd obj) d s" and "CHR 0x00 \<notin> set name"
    and "sec_named d name = Some i" and "sec_inside d i"
  shows "\<exists>s'. elf_section obj name s = Inr (Some (fresh s, sec_bytes d i), s') \<and> fd_inv (fd obj) d s' \<and> allocated 1 s s'"
  using section_head_first [OF assms(1,2,4)] elf_section_at_reads [OF assms(1-3) assms(6)] assms(5)
  by (simp add: elf_section_def bindS_def)

text \<open>
  the bounds check of \<open>elf_section_name\<close> admits one position too many: with a
  string table that ends in a NUL, the name it returns can be read exactly if the
  index is not negative and is not the length of the table.
\<close>

theorem elf_section_name_readable:
  assumes "shstrtab obj = Def (Some (q, b))" and "shstrtab_len obj = Def (int (length b))" and "is_strtab b"
  shows "(\<exists>t. bindE (elf_section_name obj index) (str_in (Some (q, b))) = Inr t) \<longleftrightarrow> 0 \<le> index \<and> index \<noteq> int (length b)"
proof -
  have b: "0 < length b" using assms(3) by (simp add: is_strtab_def)
  consider "index < 0" | "0 \<le> index" "index < int (length b)" | "index = int (length b)" | "int (length b) < index"
    by linarith
  then show ?thesis
  proof cases
    case 2
    then have "nat index < length b" by linarith
    then show ?thesis using 2 assms cstr_at_strtab [OF assms(3)] by (simp add: elf_section_name_def str_in_def)
  next
    case 4
    then show ?thesis using assms cstr_at_strtab [OF assms(3) b] by (simp add: elf_section_name_def str_in_def)
  qed (use assms in \<open>simp_all add: elf_section_name_def str_in_def cstr_at_beyond\<close>)
qed

subsection \<open>Symbol tables and the dynamic section\<close>

text \<open>The section that a program reading this file by name gets.\<close>

definition the_sec :: "byte list \<Rightarrow> string \<Rightarrow> nat" where
  "the_sec d name = the (sec_named d name)"

definition has_sec :: "byte list \<Rightarrow> string \<Rightarrow> bool" where
  "has_sec d name = (case sec_named d name of None \<Rightarrow> False | Some i \<Rightarrow> sec_inside d i)"

lemma has_secD: "has_sec d name \<Longrightarrow> sec_named d name = Some (the_sec d name) \<and> sec_inside d (the_sec d name)"
  by (simp add: has_sec_def the_sec_def split: option.splits)

definition tab :: "byte list \<Rightarrow> string \<Rightarrow> byte list" where
  "tab d name = sec_bytes d (the_sec d name)"

lemmas dig_read_rules = has_secD section_head_first section_reads elf_section_at_reads loaded_hdr

lemma loaded_update [simp]:
  "loaded d n (obj\<lparr>strtab := v\<rparr>) = loaded d n obj" "loaded d n (obj\<lparr>sym := v\<rparr>) = loaded d n obj"
  "loaded d n (obj\<lparr>sym_num := w\<rparr>) = loaded d n obj" "loaded d n (obj\<lparr>dynstr := v\<rparr>) = loaded d n obj"
  "loaded d n (obj\<lparr>dynsym := v\<rparr>) = loaded d n obj" "loaded d n (obj\<lparr>dynsym_num := w\<rparr>) = loaded d n obj"
  "loaded d n (obj\<lparr>dyn := v\<rparr>) = loaded d n obj" "loaded d n (obj\<lparr>dyn_num := w\<rparr>) = loaded d n obj"
  by (simp_all add: loaded_def)

lemma elf_sym_read_loads:
  assumes "wf_elf d" and "loaded d n obj" and "fd_inv (fd obj) d s" and "has_sec d ''.strtab''" and "has_sec d ''.symtab''"
  shows "\<exists>s'. elf_sym_read (Some obj) s =
      Inr ((0, Some (obj\<lparr>strtab := Def (Some (fresh s, tab d ''.strtab'')),
        sym_num := Def (int (sec_size d (the_sec d ''.symtab'') div SYM_SIZE)),
        sym := Def (Some (Suc (fresh s), tab d ''.symtab''))\<rparr>)), s') \<and>
    fd_inv (fd obj) d s' \<and> allocated 2 s s'"
proof -
  let ?i = "the_sec d ''.symtab''"
  note str = has_secD [OF assms(4)] and symt = has_secD [OF assms(5)]
  have nul: "CHR 0x00 \<notin> set ''.strtab''" "CHR 0x00 \<notin> set ''.symtab''" by simp_all
  obtain s1 where s1: "elf_section obj ''.strtab'' s = Inr (Some (fresh s, tab d ''.strtab''), s1)"
    "fd_inv (fd obj) d s1" "allocated 1 s s1"
    using section_reads [OF assms(1-3) nul(1)] str by (auto simp: tab_def)
  let ?obj1 = "obj\<lparr>strtab := Def (Some (fresh s, tab d ''.strtab''))\<rparr>"
  let ?obj2 = "?obj1\<lparr>sym_num := Def (int (sec_size d ?i div SYM_SIZE))\<rparr>"
  have l1: "loaded d n ?obj1" and l2: "loaded d n ?obj2" using assms(2) by simp_all
  have inv1: "fd_inv (fd ?obj2) d s1" using s1(2) by simp
  obtain s2 where s2: "elf_section_at ?obj2 (Some (SHDR_SIZE * ?i)) s1 = Inr (Some (fresh s1, tab d ''.symtab''), s2)"
    "fd_inv (fd ?obj2) d s2" "allocated 1 s1 s2"
    using elf_section_at_reads [OF assms(1) l2 inv1] symt by (auto simp: tab_def)
  have h: "elf_section_head ?obj1 ''.symtab'' = Inr (Some (SHDR_SIZE * ?i))"
    using section_head_first [OF assms(1) l1 nul(2)] symt by simp
  have g: "bindE (load (section_tab ?obj1)) (\<lambda>tab. in_buf shdr_at tab (SHDR_SIZE * ?i)) = Inr (sec_hdr d ?i)"
    using loaded_hdr [OF assms(1) l1] symt by (simp add: sec_inside_def)
  have f1: "fresh s1 = Suc (fresh s)" using s1(3) by (simp add: allocated_def)
  have "allocated 2 s s2" using allocated_Suc [OF s1(3) s2(3)] by (simp add: numeral_2_eq_2)
  then show ?thesis using s1(1) h g s2(1,2) f1
    by (simp add: elf_sym_read_def bindS_def returnS_def Let_def sec_size_def)
qed

lemma elf_dynsym_read_loads:
  assumes "wf_elf d" and "loaded d n obj" and "fd_inv (fd obj) d s" and "has_sec d ''.dynstr''" and "has_sec d ''.dynsym''"
  shows "\<exists>s'. elf_dynsym_read (Some obj) s =
      Inr ((0, Some (obj\<lparr>dynstr := Def (Some (fresh s, tab d ''.dynstr'')),
        dynsym_num := Def (int (sec_size d (the_sec d ''.dynsym'') div SYM_SIZE)),
        dynsym := Def (Some (Suc (fresh s), tab d ''.dynsym''))\<rparr>)), s') \<and>
    fd_inv (fd obj) d s' \<and> allocated 2 s s'"
proof -
  let ?i = "the_sec d ''.dynsym''"
  note str = has_secD [OF assms(4)] and symt = has_secD [OF assms(5)]
  have nul: "CHR 0x00 \<notin> set ''.dynstr''" "CHR 0x00 \<notin> set ''.dynsym''" by simp_all
  obtain s1 where s1: "elf_section obj ''.dynstr'' s = Inr (Some (fresh s, tab d ''.dynstr''), s1)"
    "fd_inv (fd obj) d s1" "allocated 1 s s1"
    using section_reads [OF assms(1-3) nul(1)] str by (auto simp: tab_def)
  let ?obj1 = "obj\<lparr>dynstr := Def (Some (fresh s, tab d ''.dynstr''))\<rparr>"
  let ?obj2 = "?obj1\<lparr>dynsym_num := Def (int (sec_size d ?i div SYM_SIZE))\<rparr>"
  have l1: "loaded d n ?obj1" and l2: "loaded d n ?obj2" using assms(2) by simp_all
  have inv1: "fd_inv (fd ?obj2) d s1" using s1(2) by simp
  obtain s2 where s2: "elf_section_at ?obj2 (Some (SHDR_SIZE * ?i)) s1 = Inr (Some (fresh s1, tab d ''.dynsym''), s2)"
    "fd_inv (fd ?obj2) d s2" "allocated 1 s1 s2"
    using elf_section_at_reads [OF assms(1) l2 inv1] symt by (auto simp: tab_def)
  have h: "elf_section_head ?obj1 ''.dynsym'' = Inr (Some (SHDR_SIZE * ?i))"
    using section_head_first [OF assms(1) l1 nul(2)] symt by simp
  have g: "bindE (load (section_tab ?obj1)) (\<lambda>tab. in_buf shdr_at tab (SHDR_SIZE * ?i)) = Inr (sec_hdr d ?i)"
    using loaded_hdr [OF assms(1) l1] symt by (simp add: sec_inside_def)
  have f1: "fresh s1 = Suc (fresh s)" using s1(3) by (simp add: allocated_def)
  have "allocated 2 s s2" using allocated_Suc [OF s1(3) s2(3)] by (simp add: numeral_2_eq_2)
  then show ?thesis using s1(1) h g s2(1,2) f1
    by (simp add: elf_dynsym_read_def bindS_def returnS_def Let_def sec_size_def)
qed

lemma i32_eq: "k < 2147483648 \<Longrightarrow> i32 w = int k \<longleftrightarrow> unat w = k"
proof
  assume k: "k < 2147483648" and "i32 w = int k"
  then have "word_of_int (sint w) = (word_of_nat k :: u32)" by simp
  then have "w = word_of_nat k" by simp
  then show "unat w = k" using k by (simp add: unat_of_nat)
qed (simp add: i32_small del: of_nat_unat)

lemma int_div_entries: "0 < k \<Longrightarrow> n < 2147483648 \<Longrightarrow> int_div (int n) (int k) = Inr (int (n div k))"
proof -
  assume k: "0 < k" and n: "n < 2147483648"
  have "int n sdiv int k = int (n div k)"
    using k by (simp add: signed_divide_int_def zdiv_int sgn_if)
  moreover have "n div k \<le> n" by simp
  then have "int (n div k) < 2147483648" using n by linarith
  ultimately show ?thesis using k by (simp add: int_div_def int_res_def INT_OK_def)
qed

lemma dyn_read_table:
  assumes "wf_elf d" and "loaded d n obj" and "fd_inv (fd obj) d s" and "has_sec d ''.dynamic''"
    and "unat (sh_entsize (sec_hdr d (the_sec d ''.dynamic''))) = DYN_SIZE"
  shows "\<exists>s'. elf_dyn_read (Some obj) s =
      Inr ((0, Some (obj\<lparr>dyn := Def (Some (fresh s, tab d ''.dynamic'')),
        dyn_num := Def (int (sec_size d (the_sec d ''.dynamic'') div DYN_SIZE))\<rparr>)), s') \<and>
    fd_inv (fd obj) d s' \<and> allocated 1 s s'"
proof -
  let ?i = "the_sec d ''.dynamic''"
  note sec = has_secD [OF assms(4)]
  have h: "elf_section_head obj ''.dynamic'' = Inr (Some (SHDR_SIZE * ?i))"
    using section_head_first [OF assms(1,2), of "''.dynamic''"] sec by simp
  have g: "bindE (load (section_tab obj)) (\<lambda>tab. in_buf shdr_at tab (SHDR_SIZE * ?i)) = Inr (sec_hdr d ?i)"
    using loaded_hdr [OF assms(1,2)] sec by (simp add: sec_inside_def)
  have e: "i32 (sh_entsize (sec_hdr d ?i)) = 8" using i32_eq [of 8] assms(5) by (simp add: elf_sizes)
  have "sec_size d ?i < 2147483648" using sec wf_elfD(1) [OF assms(1)] by (simp add: sec_inside_def)
  then have n: "int_div (i32 (sh_size (sec_hdr d ?i))) 8 = Inr (int (sec_size d ?i div DYN_SIZE))"
    using int_div_entries [of 8 "sec_size d ?i"] sec_ints(2) [OF wf_elfD(1) [OF assms(1)]] sec by (simp add: elf_sizes)
  obtain s2 where s2: "elf_section_at obj (Some (SHDR_SIZE * ?i)) s = Inr (Some (fresh s, tab d ''.dynamic''), s2)"
    "fd_inv (fd obj) d s2" "allocated 1 s s2"
    using elf_section_at_reads [OF assms(1-3)] sec by (auto simp: tab_def)
  then show ?thesis using h g e n
    by (simp add: elf_dyn_read_def bindS_def returnS_def Let_def DYN_SIZE_def)
qed

text \<open>
  every outcome of \<open>elf_dyn_read\<close>: an entry size of 8 gives the table with its
  number of entries, an entry size of 0, which the check before the division lets
  pass, divides by zero, any other is refused.
\<close>

theorem elf_dyn_read_outcomes:
  assumes "wf_elf d" and "loaded d n obj" and "fd_inv (fd obj) d s" and "has_sec d ''.dynamic''"
  shows "let i = the_sec d ''.dynamic''; e = unat (sh_entsize (sec_hdr d i)) in
    if e = 0 then elf_dyn_read (Some obj) s = Inl DivByZero
    else if e = DYN_SIZE then \<exists>s'. elf_dyn_read (Some obj) s =
      Inr ((0, Some (obj\<lparr>dyn := Def (Some (fresh s, tab d ''.dynamic'')),
        dyn_num := Def (int (sec_size d i div DYN_SIZE))\<rparr>)), s') \<and> allocated 1 s s'
    else elf_dyn_read (Some obj) s = Inr ((- 1, Some obj), s)"
proof -
  let ?i = "the_sec d ''.dynamic''" and ?e = "sh_entsize (sec_hdr d (the_sec d ''.dynamic''))"
  note sec = has_secD [OF assms(4)]
  have h: "elf_section_head obj ''.dynamic'' = Inr (Some (SHDR_SIZE * ?i))"
    using section_head_first [OF assms(1,2), of "''.dynamic''"] sec by simp
  have g: "bindE (load (section_tab obj)) (\<lambda>tab. in_buf shdr_at tab (SHDR_SIZE * ?i)) = Inr (sec_hdr d ?i)"
    using loaded_hdr [OF assms(1,2)] sec by (simp add: sec_inside_def)
  have z: "i32 ?e = 0 \<longleftrightarrow> unat ?e = 0" and dy: "i32 ?e = 8 \<longleftrightarrow> unat ?e = 8"
    using i32_eq [of 0 ?e] i32_eq [of 8 ?e] by simp_all
  consider "unat ?e = 0" | "unat ?e = 8" | "unat ?e \<noteq> 0" "unat ?e \<noteq> 8" by blast
  then show ?thesis
  proof cases
    case 1
    then have "elf_dyn_read (Some obj) s = Inl DivByZero" using h g z
      by (simp add: elf_dyn_read_def bindS_def returnS_def Let_def int_div_def)
    then show ?thesis using 1 by (simp add: Let_def)
  next
    case 2
    then show ?thesis using dyn_read_table [OF assms] by (auto simp: Let_def elf_sizes)
  next
    case 3
    then have "elf_dyn_read (Some obj) s = Inr ((- 1, Some obj), s)" using h g z dy
      by (simp add: elf_dyn_read_def bindS_def returnS_def Let_def DYN_SIZE_def)
    then show ?thesis using 3 by (simp add: Let_def DYN_SIZE_def)
  qed
qed

subsection \<open>Listing\<close>

text \<open>A computation that only writes a text to the error stream.\<close>

definition says :: "unit sm \<Rightarrow> string \<Rightarrow> bool" where
  "says m t = (\<forall>s. m s = Inr ((), s\<lparr>errs := errs s @ t\<rparr>))"

lemma says_bind: "says m t \<Longrightarrow> says k u \<Longrightarrow> says (bindS m (\<lambda>_. k)) (t @ u)"
  by (simp add: says_def bindS_def)

lemma says_return: "says (returnS ()) []"
  by (simp add: says_def returnS_def)

lemma says_eprintf: "vsprintf fmt args = Inr t \<Longrightarrow> says (eprintf fmt args) t"
  by (simp add: says_def eprintf_text)

lemma says_lift: "r = Inr x \<Longrightarrow> says (f x) t \<Longrightarrow> says (bindS (liftS r) f) t"
  by simp

lemma says_entries:
  assumes "\<And>k. i \<le> k \<Longrightarrow> k < i + n \<Longrightarrow> says (callback obj tb (stride * k)) (line k)"
  shows "says (each_entry n stride obj callback tb i) (concat (map line [i..<i + n]))"
  using assms
proof (induction n arbitrary: i)
  case (Suc n)
  have "[i..<i + Suc n] = i # [Suc i..<Suc i + n]" by (simp add: upt_conv_Cons)
  moreover have "says (each_entry n stride obj callback tb (i + 1)) (concat (map line [Suc i..<Suc i + n]))"
    using Suc.IH [of "i + 1"] Suc.prems by simp
  ultimately show ?case using says_bind [OF Suc.prems [of i]] by simp
qed (simp add: says_return)

definition sym_line :: "string \<Rightarrow> string \<Rightarrow> elfsym \<Rightarrow> string" where
  "sym_line section_name name s =
     ''value '' @ hex8 (st_value s) @ '' size '' @ hex8 (st_size s) @
     '' shndx '' @ pad_left CHR '' '' 16 section_name @ '' name '' @ name @ [NL]"

definition sym_section :: "byte list \<Rightarrow> elfsym \<Rightarrow> string" where
  "sym_section d s = (if unat (st_shndx s) < shnum d then sec_name d (unat (st_shndx s)) else [])"

definition dyn_line :: "elfdyn \<Rightarrow> string" where
  "dyn_line x = hex8 (d_tag x) @ pad_left CHR '' '' 16 (dyn_type (d_tag x)) @ ''  '' @ hex8 (d_val x) @ [NL]"

definition sym_lines :: "byte list \<Rightarrow> string \<Rightarrow> string \<Rightarrow> string" where
  "sym_lines d symtab strtab' =
     concat (map (\<lambda>s. sym_line (sym_section d s) (str_of (tab d strtab') (unat (st_name s))) s)
       (sec_syms d (the_sec d symtab)))"

definition dyn_lines :: "byte list \<Rightarrow> string" where
  "dyn_lines d = concat (map dyn_line (takeWhile (\<lambda>x. d_tag x \<noteq> 0) (sec_dyns d (the_sec d ''.dynamic''))))"

lemma fmt_sym_line: "vsprintf SYM_LINE [AInt v, AInt z, AStr n, AStr m] =
    Inr (''value '' @ hex8 v @ '' size '' @ hex8 z @ '' shndx '' @ pad_left CHR '' '' 16 n @ '' name '' @ m @ [NL])"
  by (simp add: SYM_LINE_def fmt_eval hex8_def NL_def pad_left_def)

lemma fmt_08x: "vsprintf ''%08x'' [AInt w] = Inr (hex8 w)"
  by (simp add: fmt_eval hex8_def)

lemma fmt_16s: "vsprintf ''%16s'' [AStr t] = Inr (pad_left CHR '' '' 16 t)"
  by (simp add: fmt_eval)

lemma fmt_08x_line: "vsprintf ''  %08x\<newline>'' [AInt w] = Inr (''  '' @ hex8 w @ [NL])"
  by (simp add: fmt_eval hex8_def NL_def)

lemma says_dyn_line:
  "in_buf dyn_at tb k = Inr x \<Longrightarrow> says (elf_dyn_show_all obj tb k) (dyn_line x)"
  unfolding elf_dyn_show_all_def dyn_line_def
  by (rule says_lift, assumption, unfold dyn_type_lib_eq,
      rule says_bind [OF says_eprintf [OF fmt_08x] says_bind [OF says_eprintf [OF fmt_16s] says_eprintf [OF fmt_08x_line]]])

text \<open>
  The parts of \<open>struct elf_obj\<close> that the symbol callbacks read: the section table, and the
  string table of the symbols.
\<close>

lemma sym_section_name_spec:
  assumes "wf_elf d" and "loaded d n obj"
  shows "sym_section_name obj s = Inr (sym_section d s)"
proof (cases "unat (st_shndx s) < shnum d")
  case True
  let ?i = "unat (st_shndx s)" and ?h = "sec_hdr d (unat (st_shndx s))"
  note wf = wf_elfD [OF assms(1)]
  have nm: "unat (sh_name ?h) < length (names d)" by (rule wf(7) [OF True])
  have "length (names d) \<le> length d" by (simp add: names_def sec_bytes_def bslice_def)
  then have small: "i32 (sh_name ?h) = int (unat (sh_name ?h))" using nm wf(1) by (intro i32_small) simp
  have "in_buf shdr_at (Some (Suc n, bslice (shoff d) (SHDR_SIZE * shnum d) d)) (SHDR_SIZE * ?i) = Inr ?h"
    using loaded_hdr [OF assms True] assms(2) by (simp add: loaded_def)
  moreover have "i16 (st_shndx s) < int (shnum d)" and "nat (int SHDR_SIZE * i16 (st_shndx s)) = SHDR_SIZE * ?i"
    using True by (simp_all add: i16_nat nat_mult_distrib del: of_nat_unat)
  ultimately show ?thesis
    using assms(2) small nm cstr_at_strtab [OF wf(6) nm] True
    by (simp add: sym_section_name_def elf_section_head_by_index_def loaded_def elf_section_name_def str_in_def
        sym_section_def sec_name_def del: of_nat_unat)
next
  case False
  then have "\<not> i16 (st_shndx s) < int (shnum d)" by (simp add: i16_nat del: of_nat_unat)
  then show ?thesis using False assms(2)
    by (simp add: sym_section_name_def elf_section_head_by_index_def loaded_def sym_section_def)
qed

text \<open>The names of all symbols lie in their string table.\<close>

definition names_ok :: "byte list \<Rightarrow> string \<Rightarrow> string \<Rightarrow> bool" where
  "names_ok d symtab strtab' =
     (is_strtab (tab d strtab') \<and>
      (\<forall>s \<in> set (sec_syms d (the_sec d symtab)). unat (st_name s) < length (tab d strtab')))"

lemma sym_at_entry:
  "sec_inside d i \<Longrightarrow> k < sec_size d i div SYM_SIZE \<Longrightarrow>
   in_buf sym_at (Some (q, sec_bytes d i)) (SYM_SIZE * k) = Inr (sym_of (sec_bytes d i) (SYM_SIZE * k))"
  by (simp add: struct_at_def length_sec_bytes SYM_SIZE_def)

lemma dyn_at_entry:
  "sec_inside d i \<Longrightarrow> k < sec_size d i div DYN_SIZE \<Longrightarrow>
   in_buf dyn_at (Some (q, sec_bytes d i)) (DYN_SIZE * k) = Inr (dyn_of (sec_bytes d i) (DYN_SIZE * k))"
  by (simp add: struct_at_def length_sec_bytes DYN_SIZE_def)

lemma str_in_table:
  assumes "length d < 2147483648" and "names_ok d symtab strtab'" and "s \<in> set (sec_syms d (the_sec d symtab))"
  shows "str_in (Some (q, tab d strtab')) (i32 (st_name s)) = Inr (str_of (tab d strtab') (unat (st_name s)))"
proof -
  have l: "unat (st_name s) < length (tab d strtab')" using assms(2,3) by (simp add: names_ok_def)
  have "length (tab d strtab') \<le> length d" by (simp add: tab_def sec_bytes_def bslice_def)
  then have "i32 (st_name s) = int (unat (st_name s))" using l assms(1) by (intro i32_small) simp
  then show ?thesis using cstr_at_strtab l assms(2) by (simp add: str_in_def names_ok_def del: of_nat_unat)
qed

lemma says_sym_line:
  assumes "sec = Inr sn" and "nm = Inr name" and "in_buf sym_at tb k = Inr s"
  shows "says (bindS (liftS (in_buf sym_at tb k)) (\<lambda>s. bindS (liftS sec) (\<lambda>sn. bindS (liftS nm) (\<lambda>name.
    eprintf SYM_LINE [AInt (st_value s), AInt (st_size s), AStr sn, AStr name])))) (sym_line sn name s)"
  using assms says_eprintf [OF fmt_sym_line] by (simp add: sym_line_def)

lemma says_symbols:
  assumes "wf_elf d" and "loaded d n obj" and "sec_inside d (the_sec d symtab)" and "names_ok d symtab strtab'"
    and cb: "\<And>tb k s. in_buf sym_at tb k = Inr s \<Longrightarrow> s \<in> set (sec_syms d (the_sec d symtab)) \<Longrightarrow>
      says (callback obj tb k) (sym_line (sym_section d s) (str_of (tab d strtab') (unat (st_name s))) s)"
  shows "says (each_entry (sec_size d (the_sec d symtab) div SYM_SIZE) SYM_SIZE obj callback
    (Some (q, tab d symtab)) 0) (sym_lines d symtab strtab')"
proof -
  let ?i = "the_sec d symtab" and ?N = "sec_size d (the_sec d symtab) div SYM_SIZE"
  let ?line = "\<lambda>s. sym_line (sym_section d s) (str_of (tab d strtab') (unat (st_name s))) s"
  let ?sym = "\<lambda>k. sym_of (sec_bytes d ?i) (SYM_SIZE * k)"
  have "says (callback obj (Some (q, tab d symtab)) (SYM_SIZE * k)) (?line (?sym k))" if "k < ?N" for k
    using cb [OF sym_at_entry [OF assms(3) that, of q]] that by (simp add: tab_def sec_syms_def)
  then have "says (each_entry ?N SYM_SIZE obj callback (Some (q, tab d symtab)) 0) (concat (map (\<lambda>k. ?line (?sym k)) [0..<?N]))"
    using says_entries [of 0 ?N callback obj "Some (q, tab d symtab)" SYM_SIZE] by simp
  moreover have "map (\<lambda>k. ?line (?sym k)) [0..<?N] = map ?line (sec_syms d ?i)"
    by (simp add: sec_syms_def)
  ultimately show ?thesis by (simp only: sym_lines_def)
qed

end
