(* ===== verification/ElfDigMain.thy ===== *)
theory ElfDigMain
  imports ElfDigSpec
begin

text \<open>
  The whole run of the program \<open>elfdig\<close>: what it prints for a well-formed file and what
  it leaves allocated, and how it fails on files without some of the sections.
\<close>

subsection \<open>The dynamic entries\<close>

lemma takeWhile_map: "takeWhile P (map f xs) = map f (takeWhile (P \<circ> f) xs)"
  by (induction xs) simp_all

lemma says_each_dyn:
  assumes "\<And>k. i \<le> k \<Longrightarrow> k < i + n \<Longrightarrow> in_buf dyn_at tb (DYN_SIZE * k) = Inr (e k)"
    and "\<And>k x. in_buf dyn_at tb k = Inr x \<Longrightarrow> says (callback obj tb k) (line x)"
  shows "says (each_dyn n obj callback tb i)
    (concat (map line (takeWhile (\<lambda>x. d_tag x \<noteq> 0) (map e [i..<i + n]))))"
  using assms(1)
proof (induction n arbitrary: i)
  case (Suc n)
  have e: "in_buf dyn_at tb (DYN_SIZE * i) = Inr (e i)" using Suc.prems by simp
  have "[i..<i + Suc n] = i # [Suc i..<Suc i + n]" by (simp add: upt_conv_Cons)
  moreover have "says (each_dyn n obj callback tb (i + 1))
      (concat (map line (takeWhile (\<lambda>x. d_tag x \<noteq> 0) (map e [Suc i..<Suc i + n]))))"
    using Suc.IH [of "i + 1"] Suc.prems by simp
  ultimately show ?case using says_bind [OF assms(2) [OF e]] e by (simp add: says_return)
qed (simp add: says_return)

text \<open>
  \<open>elf_for_each_dyn\<close> hands to the callback exactly the entries before the first
  \<open>DT_NULL\<close>, in order, whatever follows it in the section.
\<close>

theorem elf_for_each_dyn_until_null:
  assumes "dyn obj = Def (Some (q, sec_bytes d i))" and "dyn_num obj = Def (int (sec_size d i div DYN_SIZE))"
    and "sec_inside d i" and "\<And>p k x. in_buf dyn_at p k = Inr x \<Longrightarrow> says (callback obj p k) (line x)"
  shows "says (elf_for_each_dyn (Some obj) callback)
    (concat (map line (takeWhile (\<lambda>x. d_tag x \<noteq> 0) (sec_dyns d i))))"
  using says_each_dyn [of 0 "sec_size d i div DYN_SIZE" "Some (q, sec_bytes d i)" "\<lambda>k. dyn_of (sec_bytes d i) (DYN_SIZE * k)"
      callback obj line] assms dyn_at_entry [OF assms(3)]
  by (simp add: elf_for_each_dyn_def sec_dyns_def)

lemma says_dyns:
  assumes "dyn obj = Def (Some (q, sec_bytes d i))" and "dyn_num obj = Def (int (sec_size d i div DYN_SIZE))"
    and "sec_inside d i"
  shows "says (elf_for_each_dyn (Some obj) elf_dyn_show_all)
    (concat (map dyn_line (takeWhile (\<lambda>x. d_tag x \<noteq> 0) (sec_dyns d i))))"
  using says_each_dyn [of 0 "sec_size d i div DYN_SIZE" "Some (q, sec_bytes d i)" "\<lambda>k. dyn_of (sec_bytes d i) (DYN_SIZE * k)"
      elf_dyn_show_all obj dyn_line, OF _ says_dyn_line] assms dyn_at_entry [OF assms(3)]
  by (simp add: elf_for_each_dyn_def sec_dyns_def)

subsection \<open>Initialisation\<close>

definition dig_base :: "byte list \<Rightarrow> bool" where
  "dig_base d =
     (wf_elf d \<and> has_sec d ''.strtab'' \<and> has_sec d ''.symtab'' \<and> has_sec d ''.dynstr'' \<and> has_sec d ''.dynsym'' \<and>
      names_ok d ''.symtab'' ''.strtab'' \<and> names_ok d ''.dynsym'' ''.dynstr'')"

definition dig_ok :: "byte list \<Rightarrow> bool" where
  "dig_ok d = (dig_base d \<and> has_sec d ''.dynamic'' \<and> unat (sh_entsize (sec_hdr d (the_sec d ''.dynamic''))) = DYN_SIZE)"

lemma dig_baseD:
  assumes "dig_base d"
  shows "wf_elf d" "has_sec d ''.strtab''" "has_sec d ''.symtab''" "has_sec d ''.dynstr''" "has_sec d ''.dynsym''"
    "names_ok d ''.symtab'' ''.strtab''" "names_ok d ''.dynsym'' ''.dynstr''"
  using assms by (simp_all add: dig_base_def)

lemma dig_okD:
  assumes "dig_ok d"
  shows "dig_base d" "has_sec d ''.dynamic''" "unat (sh_entsize (sec_hdr d (the_sec d ''.dynamic''))) = DYN_SIZE"
  using assms by (simp_all add: dig_ok_def)

text \<open>The object with its symbol tables, its buffers numbered from n, and the complete object.\<close>

definition with_syms :: "byte list \<Rightarrow> nat \<Rightarrow> elf_obj \<Rightarrow> bool" where
  "with_syms d n obj =
     (loaded d n obj \<and>
      strtab obj = Def (Some (n + 3, tab d ''.strtab'')) \<and> sym obj = Def (Some (n + 4, tab d ''.symtab'')) \<and>
      sym_num obj = Def (int (sec_size d (the_sec d ''.symtab'') div SYM_SIZE)) \<and>
      dynstr obj = Def (Some (n + 5, tab d ''.dynstr'')) \<and> dynsym obj = Def (Some (n + 6, tab d ''.dynsym'')) \<and>
      dynsym_num obj = Def (int (sec_size d (the_sec d ''.dynsym'') div SYM_SIZE)))"

definition complete :: "byte list \<Rightarrow> nat \<Rightarrow> elf_obj \<Rightarrow> bool" where
  "complete d n obj =
     (with_syms d n obj \<and> dyn obj = Def (Some (n + 7, tab d ''.dynamic'')) \<and>
      dyn_num obj = Def (int (sec_size d (the_sec d ''.dynamic'') div DYN_SIZE)))"

lemma sys_open_file:
  assumes "files s path = Some d"
  shows "\<exists>f s'. sys_open path s = Inr (int f, s') \<and> fd_data (int f) s' = Some d \<and> allocated 0 s s'"
proof -
  let ?f = "lowest_free (fdt s)"
  let ?s' = "s\<lparr>fdt := set_slot (fdt s) ?f (Some (path, 0))\<rparr>"
  have "fd_lookup (int ?f) ?s' = Some (path, 0)"
    using set_slot_lowest [of "fdt s" "Some (path, 0)"] by (simp add: fd_lookup_def)
  then have "fd_data (int ?f) ?s' = Some d" using assms by (simp add: fd_data_def)
  moreover have "sys_open path s = Inr (int ?f, ?s')" using assms by (simp add: sys_open_def)
  moreover have "allocated 0 s ?s'" by (simp add: allocated_def same_but_heap_def)
  ultimately show ?thesis by blast
qed

lemma elf_init_syms:
  assumes "dig_base d" and "files s path = Some d" and "length d \<le> avail s" and "128 \<le> avail s"
  shows "\<exists>obj s'. elf_init path s =
      bindS (elf_dyn_read (Some obj)) (\<lambda>r. returnS (map_option (Pair (fresh s)) (snd r))) s' \<and>
    with_syms d (Suc (fresh s)) obj \<and> dyn obj = Undef \<and> fd_inv (fd obj) d s' \<and> allocated 8 s s'"
proof -
  note ok = dig_baseD [OF assms(1)] and wf = wf_elfD [OF dig_baseD(1) [OF assms(1)]]
  obtain f s0 where s0: "sys_open path s = Inr (int f, s0)" "fd_data (int f) s0 = Some d" "allocated 0 s s0"
    using sys_open_file [OF assms(2)] by blast
  have a0: "avail s0 = avail s" "fresh s0 = fresh s" using s0(3) by (simp_all add: allocated_def same_but_heap_def)
  obtain s1 where s1: "sys_malloc sizeof_elf_obj s0 = Inr (Some (fresh s), s1)" "allocated 1 s0 s1" "fdt s1 = fdt s0"
    using malloc_ok [of sizeof_elf_obj s0] assms(4) a0 by (auto simp: sizeof_elf_obj_def)
  have "fd_data (int f) s1 = Some d"
    using fd_data_cong [OF s1(3), of "int f"] s0(2) s1(2) by (simp add: allocated_def same_but_heap_def)
  then have inv1: "fd_inv (fd (new_obj (int f))) d s1"
    using s1(2) a0 assms(3) wf(1) by (simp add: fd_inv_def new_obj_def allocated_def same_but_heap_def)
  have f1: "fresh s1 = Suc (fresh s)" using s1(2) a0 by (simp add: allocated_def)
  obtain o2 s2 where s2: "elf_section_head_read (new_obj (int f)) s1 = Inr ((0, o2), s2)" "loaded d (fresh s1) o2"
    "dyn o2 = Undef" "fd_inv (fd o2) d s2" "allocated 3 s1 s2"
    using elf_section_head_read_loads [OF ok(1) inv1] by (auto simp: new_obj_def)
  obtain o3 s3 where s3: "elf_sym_read (Some o2) s2 = Inr ((0, Some o3), s3)"
    "o3 = o2\<lparr>strtab := Def (Some (fresh s2, tab d ''.strtab'')),
        sym_num := Def (int (sec_size d (the_sec d ''.symtab'') div SYM_SIZE)),
        sym := Def (Some (Suc (fresh s2), tab d ''.symtab''))\<rparr>"
    "fd_inv (fd o3) d s3" "allocated 2 s2 s3"
    using elf_sym_read_loads [OF ok(1) s2(2,4) ok(2,3)] by auto
  have l3: "loaded d (fresh s1) o3" using s2(2) s3(2) by simp
  obtain o4 s4 where s4: "elf_dynsym_read (Some o3) s3 = Inr ((0, Some o4), s4)"
    "o4 = o3\<lparr>dynstr := Def (Some (fresh s3, tab d ''.dynstr'')),
        dynsym_num := Def (int (sec_size d (the_sec d ''.dynsym'') div SYM_SIZE)),
        dynsym := Def (Some (Suc (fresh s3), tab d ''.dynsym''))\<rparr>"
    "fd_inv (fd o4) d s4" "allocated 2 s3 s4"
    using elf_dynsym_read_loads [OF ok(1) l3 s3(3) ok(4,5)] by auto
  have "fresh s2 = fresh s1 + 3" "fresh s3 = fresh s1 + 5"
    using s2(5) s3(4) by (simp_all add: allocated_def)
  then have "with_syms d (Suc (fresh s)) o4" "dyn o4 = Undef"
    using l3 f1 s2(3) s3(2) s4(2) by (simp_all add: with_syms_def numeral_eq_Suc)
  moreover have "d \<noteq> []" using wf(2) by (auto simp: EHDR_SIZE_def)
  then have "elf_init path s = bindS (elf_dyn_read (Some o4)) (\<lambda>r. returnS (map_option (Pair (fresh s)) (snd r))) s4"
    using s0(1,2) s1(1) s2(1) s3(1) s4(1) by (simp add: elf_init_def bindS_Inr)
  moreover have "allocated 8 s s4"
    using allocated_trans [OF s0(3) allocated_trans [OF s1(2) allocated_trans [OF s2(5)
      allocated_trans [OF s3(4) s4(4)]]]] by simp
  ultimately show ?thesis using s4(3) by blast
qed

lemma elf_init_loads:
  assumes "dig_ok d" and "files s path = Some d" and "length d \<le> avail s" and "128 \<le> avail s"
  shows "\<exists>obj s'. elf_init path s = Inr (Some (fresh s, obj), s') \<and> complete d (Suc (fresh s)) obj \<and> allocated 9 s s'"
proof -
  note ok = dig_okD [OF assms(1)]
  obtain o4 s4 where s4: "elf_init path s = bindS (elf_dyn_read (Some o4)) (\<lambda>r. returnS (map_option (Pair (fresh s)) (snd r))) s4"
    "with_syms d (Suc (fresh s)) o4" "fd_inv (fd o4) d s4" "allocated 8 s s4"
    using elf_init_syms [OF ok(1) assms(2-4)] by blast
  have l4: "loaded d (Suc (fresh s)) o4" using s4(2) by (simp add: with_syms_def)
  obtain o5 s5 where s5: "elf_dyn_read (Some o4) s4 = Inr ((0, Some o5), s5)"
    "o5 = o4\<lparr>dyn := Def (Some (fresh s4, tab d ''.dynamic'')),
        dyn_num := Def (int (sec_size d (the_sec d ''.dynamic'') div DYN_SIZE))\<rparr>" "allocated 1 s4 s5"
    using dyn_read_table [OF dig_baseD(1) [OF ok(1)] l4 s4(3) ok(2,3)] by auto
  have "complete d (Suc (fresh s)) o5"
    using s4(2,4) s5(2) by (simp add: complete_def with_syms_def allocated_def)
  moreover have "elf_init path s = Inr (Some (fresh s, o5), s5)"
    using s4(1) s5(1) by (simp add: bindS_Inr returnS_apply)
  moreover have "allocated 9 s s5" using allocated_trans [OF s4(4) s5(3)] by simp
  ultimately show ?thesis by blast
qed

subsection \<open>Closing\<close>

lemma sys_free_live: "p \<in> set (live s) \<Longrightarrow> sys_free p s = Inr ((), s\<lparr>live := remove1 p (live s)\<rparr>)"
  by (simp add: sys_free_def)

lemma free_field_live:
  "c = Def (Some (p, b)) \<Longrightarrow> p \<in> set (live s) \<Longrightarrow> free_field c s = Inr ((), s\<lparr>live := remove1 p (live s)\<rparr>)"
  by (simp add: free_field_def elf_free_def sys_free_live)

lemma close_quiet: "\<exists>s'. (if f \<noteq> 0 then bindS (sys_close f) (\<lambda>_. returnS ()) else returnS ()) s = Inr ((), s') \<and> allocated 0 s s'"
  by (auto simp: sys_close_def bindS_def returnS_def allocated_def same_but_heap_def split: option.splits)

lemma elf_fini_leaks:
  assumes "complete d (Suc q) obj" and "live s = rev [q..<q + 9] @ L"
  shows "\<exists>s'. elf_fini (Some (q, obj)) s = Inr ((), s') \<and> live s' = [q + 7, q + 6, q] @ L \<and> errs s' = errs s \<and> outs s' = outs s"
proof -
  obtain s1 where s1: "(if fd obj \<noteq> 0 then bindS (sys_close (fd obj)) (\<lambda>_. returnS ()) else returnS ()) s = Inr ((), s1)"
    "allocated 0 s s1"
    using close_quiet [of "fd obj" s] by blast
  have live1: "live s1 = [q + 8, q + 7, q + 6, q + 5, q + 4, q + 3, q + 2, q + 1, q] @ L"
    using s1(2) assms(2) by (simp add: allocated_def numeral_eq_Suc)
  let ?free = "\<lambda>p s. s\<lparr>live := remove1 p (live s)\<rparr>"
  let ?s' = "s1\<lparr>live := [q + 7, q + 6, q] @ L\<rparr>"
  have "elf_fini (Some (q, obj)) s = Inr ((), ?s')"
    using s1(1) assms(1) live1
    by (simp add: elf_fini_def bindS_def complete_def with_syms_def loaded_def free_field_live returnS_def)
  then show ?thesis using s1(2) by (auto simp: allocated_def same_but_heap_def)
qed

subsection \<open>The program\<close>

definition listing :: "byte list \<Rightarrow> string" where
  "listing d = sym_lines d ''.symtab'' ''.strtab'' @ sym_lines d ''.dynsym'' ''.dynstr'' @ dyn_lines d"

lemma says_all_syms:
  assumes "dig_base d" and "with_syms d n obj"
  shows "says (elf_for_each_sym (Some obj) elf_sym_show_all) (sym_lines d ''.symtab'' ''.strtab'')"
proof -
  note ok = dig_baseD [OF assms(1)]
  have l: "loaded d n obj" using assms(2) by (simp add: with_syms_def)
  note sn = sym_section_name_spec [OF ok(1) l]
  have "says (elf_sym_show_all obj tb k) (sym_line (sym_section d s) (str_of (tab d ''.strtab'') (unat (st_name s))) s)"
    if "in_buf sym_at tb k = Inr s" "s \<in> set (sec_syms d (the_sec d ''.symtab''))" for tb k s
    using that(1) sn [of s] str_in_table [OF wf_elfD(1) [OF ok(1)] ok(6) that(2)] assms(2) says_eprintf [OF fmt_sym_line]
    by (simp add: elf_sym_show_all_def elf_sym_name_def sym_line_def with_syms_def)
  then have "says (each_entry (sec_size d (the_sec d ''.symtab'') div SYM_SIZE) SYM_SIZE obj elf_sym_show_all
      (Some (n + 4, tab d ''.symtab'')) 0) (sym_lines d ''.symtab'' ''.strtab'')"
    using says_symbols [OF ok(1) l _ ok(6)] has_secD [OF ok(3)] by blast
  then show ?thesis using assms(2) by (simp add: elf_for_each_sym_def with_syms_def)
qed

lemma says_all_dynsyms:
  assumes "dig_base d" and "with_syms d n obj"
  shows "says (elf_for_each_dynsym (Some obj) elf_dynsym_show_all) (sym_lines d ''.dynsym'' ''.dynstr'')"
proof -
  note ok = dig_baseD [OF assms(1)]
  have l: "loaded d n obj" using assms(2) by (simp add: with_syms_def)
  note sn = sym_section_name_spec [OF ok(1) l]
  have "says (elf_dynsym_show_all obj tb k) (sym_line (sym_section d s) (str_of (tab d ''.dynstr'') (unat (st_name s))) s)"
    if "in_buf sym_at tb k = Inr s" "s \<in> set (sec_syms d (the_sec d ''.dynsym''))" for tb k s
    using that(1) sn [of s] str_in_table [OF wf_elfD(1) [OF ok(1)] ok(7) that(2)] assms(2) says_eprintf [OF fmt_sym_line]
    by (simp add: elf_dynsym_show_all_def elf_dynsym_name_def sym_line_def with_syms_def)
  then have "says (each_entry (sec_size d (the_sec d ''.dynsym'') div SYM_SIZE) SYM_SIZE obj elf_dynsym_show_all
      (Some (n + 6, tab d ''.dynsym'')) 0) (sym_lines d ''.dynsym'' ''.dynstr'')"
    using says_symbols [OF ok(1) l _ ok(7)] has_secD [OF ok(5)] by blast
  then show ?thesis using assms(2) by (simp add: elf_for_each_dynsym_def with_syms_def)
qed

lemma says_all_dyns:
  assumes "dig_ok d" and "complete d n obj"
  shows "says (elf_for_each_dyn (Some obj) elf_dyn_show_all) (dyn_lines d)"
  using says_dyns [of obj "n + 7" d "the_sec d ''.dynamic''"] assms(2) has_secD [OF dig_okD(2) [OF assms(1)]]
  by (simp add: complete_def dyn_lines_def tab_def)

text \<open>
  C3: for a well-formed file that has the five sections, \<open>elfdig file\<close> returns 0, writes
  to the error stream the symbols, the dynamic symbols and the dynamic entries as the
  abstract view of the file gives them and nothing to the output, and frees all it
  has allocated except three objects: the object itself, the dynamic string table and
  the dynamic symbols.
\<close>

theorem elfdig_main_listing:
  assumes "dig_ok d" and "files s path = Some d" and "length d \<le> avail s" and "128 \<le> avail s"
  shows "\<exists>s'. elfdig_main [prog, path] s = Inr (0, s') \<and> errs s' = errs s @ listing d \<and> outs s' = outs s \<and>
    live s' = [fresh s + 7, fresh s + 6, fresh s] @ live s"
proof -
  obtain obj s1 where s1: "elf_init path s = Inr (Some (fresh s, obj), s1)" "complete d (Suc (fresh s)) obj" "allocated 9 s s1"
    using elf_init_loads [OF assms] by blast
  note base = dig_okD(1) [OF assms(1)]
  have syms: "with_syms d (Suc (fresh s)) obj" using s1(2) by (simp add: complete_def)
  have says: "says (bindS (elf_for_each_sym (Some obj) elf_sym_show_all) (\<lambda>_.
      bindS (elf_for_each_dynsym (Some obj) elf_dynsym_show_all) (\<lambda>_. elf_for_each_dyn (Some obj) elf_dyn_show_all))) (listing d)"
    unfolding listing_def
    by (rule says_bind [OF says_all_syms [OF base syms] says_bind [OF says_all_dynsyms [OF base syms]
        says_all_dyns [OF assms(1) s1(2)]]])
  let ?s2 = "s1\<lparr>errs := errs s1 @ listing d\<rparr>"
  have "live ?s2 = rev [fresh s..<fresh s + 9] @ live s" using s1(3) by (simp add: allocated_def)
  then obtain s3 where s3: "elf_fini (Some (fresh s, obj)) ?s2 = Inr ((), s3)"
    "live s3 = [fresh s + 7, fresh s + 6, fresh s] @ live s" "errs s3 = errs ?s2" "outs s3 = outs ?s2"
    using elf_fini_leaks [OF s1(2), of ?s2 "live s"] by blast
  have "elfdig_main [prog, path] s = bindS (bindS (elf_for_each_sym (Some obj) elf_sym_show_all) (\<lambda>_.
      bindS (elf_for_each_dynsym (Some obj) elf_dynsym_show_all) (\<lambda>_. elf_for_each_dyn (Some obj) elf_dyn_show_all)))
      (\<lambda>_. bindS (elf_fini (Some (fresh s, obj))) (\<lambda>_. returnS 0)) s1"
    using s1(1) by (simp add: elfdig_main_def bindS_Inr bindS_assoc)
  also have "\<dots> = Inr (0, s3)"
    using says s3(1) unfolding says_def by (simp add: bindS_Inr returnS_apply)
  finally show ?thesis using s3 s1(3) by (auto simp: allocated_def same_but_heap_def)
qed


end
