(* ===== verification/ElfSample.thy ===== *)
theory ElfSample
  imports ElfDigMain
begin

text \<open>
  A builder of ELF files from headers and contents, its inverse laws with the abstract view,
  and small files that satisfy the hypotheses of the properties: \<open>sample 43\<close> has all the
  sections that \<open>elfdig\<close> reads, \<open>sample 0\<close> has no section called
  \<open>.dynamic\<close>. Then the properties of \<open>elfdig.c\<close>, applied to them.
\<close>

definition elf_image :: "ehdr \<Rightarrow> shdr list \<Rightarrow> byte list \<Rightarrow> byte list" where
  "elf_image h hs content = enc_ehdr h @ concat (map enc_shdr hs) @ content"

lemma length_enc_ehdr: "length (e_ident h) = 16 \<Longrightarrow> length (enc_ehdr h) = 52"
  by (simp add: enc_ehdr_def)

lemma length_enc_shdr [simp]: "length (enc_shdr h) = 40"
  by (simp add: enc_shdr_def)

lemma length_enc_shdrs [simp]: "length (concat (map enc_shdr hs)) = 40 * length hs"
  by (induction hs) simp_all

lemma file_ehdr_image: "length (e_ident h) = 16 \<Longrightarrow> file_ehdr (elf_image h hs c) = h"
  using ehdr_of_enc [of h 0 "[]" "concat (map enc_shdr hs) @ c"] by (simp add: file_ehdr_def elf_image_def)

lemma sec_hdr_image:
  assumes "length (e_ident h) = 16" and "unat (e_shoff h) = 52" and "i < length hs"
  shows "sec_hdr (elf_image h hs c) i = hs ! i"
proof -
  have "concat (map enc_shdr hs) = concat (map enc_shdr (take i hs)) @ enc_shdr (hs ! i) @ concat (map enc_shdr (drop (Suc i) hs))"
    using id_take_nth_drop [OF assms(3)] by (metis concat_append concat.simps(2) map_append list.simps(9))
  then have "elf_image h hs c = (enc_ehdr h @ concat (map enc_shdr (take i hs))) @ enc_shdr (hs ! i) @
      (concat (map enc_shdr (drop (Suc i) hs)) @ c)"
    by (simp add: elf_image_def)
  moreover have "52 + SHDR_SIZE * i = length (enc_ehdr h @ concat (map enc_shdr (take i hs)))"
    using assms by (simp add: length_enc_ehdr SHDR_SIZE_def)
  ultimately have "shdr_of (elf_image h hs c) (52 + SHDR_SIZE * i) = hs ! i" by (simp only: shdr_of_enc)
  then show ?thesis using assms file_ehdr_image [OF assms(1)] by (simp add: sec_hdr_def shoff_def)
qed

lemma bslice_image:
  assumes "length (e_ident h) = 16" and "52 + 40 * length hs \<le> off"
  shows "bslice off n (elf_image h hs c) = bslice (off - (52 + 40 * length hs)) n c"
  using assms by (simp add: elf_image_def length_enc_ehdr)

lemma length_elf_image: "length (e_ident h) = 16 \<Longrightarrow> length (elf_image h hs c) = 52 + 40 * length hs + length c"
  by (simp add: elf_image_def length_enc_ehdr)

definition bytes_of :: "string \<Rightarrow> byte list" where
  "bytes_of s = map (\<lambda>c. word_of_nat (of_char c)) s"

definition sample_ehdr :: ehdr where
  "sample_ehdr = \<lparr>e_ident = replicate 16 0, e_type = ET_EXEC, e_machine = EM_386, e_version = 1, e_entry = 0,
     e_phoff = 0, e_shoff = 52, e_flags = 0, e_ehsize = 52, e_phentsize = 32, e_phnum = 0, e_shentsize = 40,
     e_shnum = 7, e_shstrndx = 1\<rparr>"

definition sample_shdr :: "u32 \<Rightarrow> u32 \<Rightarrow> u32 \<Rightarrow> u32 \<Rightarrow> u32 \<Rightarrow> shdr" where
  "sample_shdr n ty off sz ent = \<lparr>sh_name = n, sh_type = ty, sh_flags = 0, sh_addr = 0, sh_offset = off, sh_size = sz,
     sh_link = 0, sh_info = 0, sh_addralign = 1, sh_entsize = ent\<rparr>"

definition sample_shdrs :: "u32 \<Rightarrow> shdr list" where
  "sample_shdrs k = [sample_shdr 0 0 0 0 0, sample_shdr 1 3 332 52 0, sample_shdr 11 3 384 3 0,
     sample_shdr 19 2 387 16 16, sample_shdr 27 3 403 3 0, sample_shdr 35 11 406 16 16, sample_shdr k 6 422 16 8]"

definition sample_names :: "byte list" where
  "sample_names = 0 # bytes_of ''.shstrtab'' @ 0 # bytes_of ''.strtab'' @ 0 # bytes_of ''.symtab'' @ 0 #
     bytes_of ''.dynstr'' @ 0 # bytes_of ''.dynsym'' @ 0 # bytes_of ''.dynamic'' @ [0]"

definition sample_strtab :: "byte list" where "sample_strtab = 0 # bytes_of ''f'' @ [0]"
definition sample_dynstr :: "byte list" where "sample_dynstr = 0 # bytes_of ''g'' @ [0]"

definition sample_sym :: elfsym where
  "sample_sym = \<lparr>st_name = 1, st_value = 4096, st_size = 8, st_info = 18, st_other = 0, st_shndx = 2\<rparr>"

definition sample_dynsym :: elfsym where
  "sample_dynsym = \<lparr>st_name = 1, st_value = 0, st_size = 0, st_info = 18, st_other = 0, st_shndx = 0\<rparr>"

definition sample_dyns :: "elfdyn list" where
  "sample_dyns = [\<lparr>d_tag = 1, d_val = 1\<rparr>, \<lparr>d_tag = 0, d_val = 0\<rparr>]"

definition sample_content :: "byte list" where
  "sample_content = sample_names @ sample_strtab @ enc_sym sample_sym @ sample_dynstr @ enc_sym sample_dynsym @
     concat (map enc_dyn sample_dyns)"

definition sample :: "u32 \<Rightarrow> byte list" where "sample k = elf_image sample_ehdr (sample_shdrs k) sample_content"

lemmas sample_defs = sample_ehdr_def sample_shdr_def sample_shdrs_def

lemma sample_lengths [simp]:
  "length sample_names = 52" "length sample_strtab = 3" "length sample_dynstr = 3"
  "length (enc_sym s) = 16" "length (enc_dyn x) = 8" "length (concat (map enc_dyn sample_dyns)) = 16"
  by (simp_all add: sample_names_def sample_strtab_def sample_dynstr_def bytes_of_def enc_sym_def enc_dyn_def sample_dyns_def)

lemma sample_ehdr_image: "file_ehdr (sample k) = sample_ehdr"
  unfolding sample_def by (rule file_ehdr_image) (simp add: sample_ehdr_def)

lemma sample_nums [simp]: "shnum (sample k) = 7" "shoff (sample k) = 52" "shstrndx (sample k) = Suc 0"
  by (simp_all add: shnum_def shoff_def shstrndx_def sample_ehdr_image, simp_all add: sample_ehdr_def)

lemma sample_hdr: "i < 7 \<Longrightarrow> sec_hdr (sample k) i = (sample_shdrs k) ! i"
  unfolding sample_def by (rule sec_hdr_image) (simp_all add: sample_defs)

lemma sample_slice: "332 \<le> off \<Longrightarrow> bslice off n (sample k) = bslice (off - 332) n sample_content"
  unfolding sample_def using bslice_image [of sample_ehdr "sample_shdrs k" off n sample_content] by (simp add: sample_defs)

lemma length_sample: "length (sample k) = 438"
  unfolding sample_def using length_elf_image [of sample_ehdr "sample_shdrs k" sample_content]
  by (simp add: sample_content_def) (simp add: sample_defs)

lemma sample_secs:
  "sec_off (sample k) (Suc 0) = 332" "sec_size (sample k) (Suc 0) = 52" "sec_off (sample k) 2 = 384" "sec_size (sample k) 2 = 3"
  "sec_off (sample k) 3 = 387" "sec_size (sample k) 3 = 16" "sec_off (sample k) 4 = 403" "sec_size (sample k) 4 = 3"
  "sec_off (sample k) 5 = 406" "sec_size (sample k) 5 = 16" "sec_off (sample k) 6 = 422" "sec_size (sample k) 6 = 16"
  by (simp_all add: sec_off_def sec_size_def sample_hdr, simp_all add: sample_defs)

lemma sample_bytes:
  "sec_bytes (sample k) (Suc 0) = sample_names" "sec_bytes (sample k) 2 = sample_strtab" "sec_bytes (sample k) 3 = enc_sym sample_sym"
  "sec_bytes (sample k) 4 = sample_dynstr" "sec_bytes (sample k) 5 = enc_sym sample_dynsym"
  "sec_bytes (sample k) 6 = concat (map enc_dyn sample_dyns)"
  by (simp_all add: sec_bytes_def sample_secs sample_slice sample_content_def, simp_all add: bslice_def)

lemma sample_inside: "0 < i \<Longrightarrow> i < 7 \<Longrightarrow> sec_inside (sample k) i"
proof -
  assume "0 < i" "i < 7"
  then have "i = 1 \<or> i = 2 \<or> i = 3 \<or> i = 4 \<or> i = 5 \<or> i = 6" by linarith
  then show ?thesis by (auto simp: sec_inside_def length_sample sample_secs)
qed

lemma sample_names_eq: "names (sample k) = sample_names"
  by (simp add: names_def sample_bytes)

lemma sample_str:
  "str_of sample_names 0 = []" "str_of sample_names (Suc 0) = ''.shstrtab''" "str_of sample_names 11 = ''.strtab''"
  "str_of sample_names 19 = ''.symtab''" "str_of sample_names 27 = ''.dynstr''"
  "str_of sample_names 35 = ''.dynsym''" "str_of sample_names 43 = ''.dynamic''"
  by code_simp+

lemma sample_sec_names: "map (sec_name (sample k)) [0..<7] =
    [[], ''.shstrtab'', ''.strtab'', ''.symtab'', ''.dynstr'', ''.dynsym'', str_of sample_names (unat k)]"
proof -
  have "[0..<7] = [0, Suc 0, 2, 3, 4, 5, 6 :: nat]" by code_simp
  then show ?thesis
    by (simp add: sec_name_def sample_hdr sample_names_eq) (simp add: sample_defs sample_str)
qed

lemma sample_named [simp]:
  "sec_named (sample k) ''.strtab'' = Some 2" "sec_named (sample k) ''.symtab'' = Some 3"
  "sec_named (sample k) ''.dynstr'' = Some 4" "sec_named (sample k) ''.dynsym'' = Some 5"
  "sec_named (sample k) ''.dynamic'' = (if str_of sample_names (unat k) = ''.dynamic'' then Some 6 else None)"
proof -
  have ix: "[0..<7] = [0, Suc 0, 2, 3, 4, 5, 6 :: nat]" by code_simp
  have nm: "sec_name (sample k) 0 = []" "sec_name (sample k) (Suc 0) = ''.shstrtab''" "sec_name (sample k) 2 = ''.strtab''"
    "sec_name (sample k) 3 = ''.symtab''" "sec_name (sample k) 4 = ''.dynstr''" "sec_name (sample k) 5 = ''.dynsym''"
    "sec_name (sample k) 6 = str_of sample_names (unat k)"
    using sample_sec_names unfolding ix by simp_all
  show "sec_named (sample k) ''.strtab'' = Some 2" "sec_named (sample k) ''.symtab'' = Some 3"
    "sec_named (sample k) ''.dynstr'' = Some 4" "sec_named (sample k) ''.dynsym'' = Some 5"
  "sec_named (sample k) ''.dynamic'' = (if str_of sample_names (unat k) = ''.dynamic'' then Some 6 else None)"
    by (simp_all add: sec_named_def ix nm)
qed

lemma wf_sample:
  assumes "unat k < 52"
  shows "wf_elf (sample k)"
proof -
  have "\<forall>i \<in> set [0..<7]. unat (sh_name (sec_hdr (sample k) i)) < 52"
  proof
    fix i assume "i \<in> set [0..<7 :: nat]"
    then have "i = 0 \<or> i = 1 \<or> i = 2 \<or> i = 3 \<or> i = 4 \<or> i = 5 \<or> i = 6" by auto
    then show "unat (sh_name (sec_hdr (sample k) i)) < 52"
      using assms by (elim disjE; simp add: sample_hdr; simp add: sample_defs)
  qed
  moreover have "is_strtab sample_names" by (simp add: is_strtab_def sample_names_def)
  ultimately show ?thesis
    using sample_inside [of "Suc 0"]
    by (simp add: wf_elf_def sample_names_eq length_sample sample_ehdr_image elf_sizes) (simp add: sample_ehdr_def)
qed

lemma sample_syms: "sec_syms (sample k) 3 = [sample_sym]" "sec_syms (sample k) 5 = [sample_dynsym]"
  using sym_of_enc [of 0 "[]" _ "[]"] by (simp_all add: sec_syms_def sample_secs sample_bytes SYM_SIZE_def)

lemma sample_dyn_entries: "sec_dyns (sample k) 6 = sample_dyns"
proof -
  have "[0..<2] = [0, Suc 0]" by code_simp
  then show ?thesis
    using dyn_of_enc [of 0 "[]" "sample_dyns ! 0" "enc_dyn (sample_dyns ! 1)"]
      dyn_of_enc [of 8 "enc_dyn (sample_dyns ! 0)" "sample_dyns ! 1" "[]"]
    by (simp add: sec_dyns_def sample_secs sample_bytes DYN_SIZE_def) (simp add: sample_dyns_def)
qed

lemma dig_base_sample: "unat k < 52 \<Longrightarrow> dig_base (sample k)"
  using wf_sample [of k] sample_inside [of _ k]
  by (simp add: dig_base_def has_sec_def names_ok_def the_sec_def tab_def sample_bytes sample_syms,
      simp add: is_strtab_def sample_strtab_def sample_dynstr_def sample_sym_def sample_dynsym_def bytes_of_def)

lemma dig_ok_sample: "dig_ok (sample 43)"
  using dig_base_sample [of 43] sample_inside [of 6 43]
  by (simp add: dig_ok_def has_sec_def the_sec_def sample_hdr sample_str) (simp add: sample_defs DYN_SIZE_def)

definition sample_os :: "byte list \<Rightarrow> os" where
  "sample_os d = \<lparr>files = [''a.out'' \<mapsto> d], fdt = [Some (''tty'', 0), None], avail = 4096, live = [], fresh = 0,
     outs = [], errs = []\<rparr>"

subsection \<open>The properties at the samples\<close>

definition sample_obj :: "byte list \<Rightarrow> elf_obj" where
  "sample_obj d = (new_obj 1)\<lparr>head := Def (Some (0, bslice 0 EHDR_SIZE d)),
     section_tab := Def (Some (1, bslice (shoff d) (SHDR_SIZE * shnum d) d)), section_num := Def (int (shnum d)),
     shstrtab := Def (Some (2, names d)), shstrtab_len := Def (int (length (names d)))\<rparr>"

definition opened_os :: "byte list \<Rightarrow> os" where
  "opened_os d = (sample_os d)\<lparr>fdt := [Some (''tty'', 0), Some (''a.out'', 0)]\<rparr>"

lemma loaded_sample: "loaded d 0 (sample_obj d)"
  by (simp add: loaded_def sample_obj_def)

lemma fd_sample [simp]: "fd (sample_obj d) = 1"
  by (simp add: sample_obj_def new_obj_def)

lemma fd_inv_sample: "fd_inv 1 (sample k) (opened_os (sample k))"
  by (simp add: fd_inv_def fd_data_def fd_lookup_def opened_os_def sample_os_def length_sample)

lemma wf_sample_43: "wf_elf (sample 43)"
  by (rule wf_sample) simp

theorem elf_section_head_first_witness:
  "elf_section_head (sample_obj (sample 43)) ''.dynsym'' = Inr (map_option ((*) SHDR_SIZE) (sec_named (sample 43) ''.dynsym''))"
  by (rule elf_section_head_first [OF wf_sample_43 loaded_sample]) simp

theorem elf_section_reads_witness:
  "case sec_named (sample 43) ''.dynstr'' of
      None \<Rightarrow> elf_section (sample_obj (sample 43)) ''.dynstr'' (opened_os (sample 43)) = Inl NullDeref
    | Some i \<Rightarrow> \<exists>s'. elf_section (sample_obj (sample 43)) ''.dynstr'' (opened_os (sample 43)) =
        Inr (Some (fresh (opened_os (sample 43)), sec_bytes (sample 43) i), s') \<and> allocated 1 (opened_os (sample 43)) s'"
  by (rule elf_section_reads [OF wf_sample_43 loaded_sample]) (simp_all add: fd_inv_sample sample_inside)

theorem elf_section_name_readable_witness:
  "\<not> (\<exists>t. bindE (elf_section_name ((new_obj 1)\<lparr>shstrtab := Def (Some (0, [46, 0])), shstrtab_len := Def 2\<rparr>) 2)
      (str_in (Some (0, [46, 0]))) = Inr t)"
  using elf_section_name_readable [of "(new_obj 1)\<lparr>shstrtab := Def (Some (0, [46, 0])), shstrtab_len := Def 2\<rparr>" 0 "[46, 0]" 2]
  by (simp add: is_strtab_def)

theorem elf_dyn_read_outcomes_witness:
  "\<exists>s'. elf_dyn_read (Some (sample_obj (sample 43))) (opened_os (sample 43)) =
      Inr ((0, Some ((sample_obj (sample 43))\<lparr>dyn := Def (Some (0, tab (sample 43) ''.dynamic'')), dyn_num := Def 2\<rparr>)), s')"
proof -
  have e: "the_sec (sample 43) ''.dynamic'' = 6" by (simp add: the_sec_def sample_str)
  have "unat (sh_entsize (sec_hdr (sample 43) 6)) = 8" by (simp add: sample_hdr) (simp add: sample_defs)
  moreover have "has_sec (sample 43) ''.dynamic''" using dig_okD(2) [OF dig_ok_sample] .
  moreover have "fresh (opened_os (sample 43)) = 0" by (simp add: opened_os_def sample_os_def)
  moreover have "fd_inv (fd (sample_obj (sample 43))) (sample 43) (opened_os (sample 43))" by (simp add: fd_inv_sample)
  ultimately show ?thesis
    using elf_dyn_read_outcomes [OF wf_sample_43 loaded_sample, of "opened_os (sample 43)"]
    by (auto simp: Let_def e sample_secs DYN_SIZE_def)
qed

theorem elf_for_each_dyn_until_null_witness:
  "says (elf_for_each_dyn (Some ((sample_obj (sample 43))\<lparr>dyn := Def (Some (9, sec_bytes (sample 43) 6)), dyn_num := Def 2\<rparr>))
      elf_dyn_show_all) (concat (map dyn_line (takeWhile (\<lambda>x. d_tag x \<noteq> 0) (sec_dyns (sample 43) 6))))"
  by (rule elf_for_each_dyn_until_null [OF _ _ _ says_dyn_line])
     (simp_all add: sample_inside sample_secs DYN_SIZE_def)

theorem elfdig_main_listing_witness:
  "\<exists>s'. elfdig_main [''elfdig'', ''a.out''] (sample_os (sample 43)) = Inr (0, s') \<and>
    errs s' = errs (sample_os (sample 43)) @ listing (sample 43) \<and> outs s' = outs (sample_os (sample 43)) \<and>
    live s' = [fresh (sample_os (sample 43)) + 7, fresh (sample_os (sample 43)) + 6, fresh (sample_os (sample 43))] @
      live (sample_os (sample 43))"
  by (rule elfdig_main_listing [OF dig_ok_sample]) (simp_all add: sample_os_def length_sample)


end
