(* ===== verification/ElfDumpMain.thy ===== *)
theory ElfDumpMain
  imports ElfDumpSpec ElfSample
begin

text \<open>
  What the dumps of \<open>elf.c\<close> print: the symbol table, and the whole raw dump of a file
  (\<open>elf -r\<close>), in terms of the abstract view of the file and of the layout of
  \<open>binary_dump_with_string\<close>.
\<close>

subsection \<open>Dumping a prefix of a buffer\<close>

lemma bs_loop_extra:
  "lim \<le> gap + length bs \<Longrightarrow> gap \<le> j \<Longrightarrow> bs_loop (bs @ e) gap lim offset st j = bs_loop bs gap lim offset st j"
proof (induction bs gap lim offset st j rule: bs_loop.induct)
  case (1 bs gap lim offset st j)
  then show ?case
    apply (subst (1 2) bs_loop.simps)
    by (auto simp: buf_at_def nth_append cong: bindE_cong split: prod.splits)
qed

lemma string_dump_prefix:
  assumes "bs \<noteq> []" and "dump_gap off + length bs \<le> INT_MAX"
  shows "binary_dump_with_string off (word_of_nat (length bs)) (Some (bs @ e)) str =
    binary_dump_with_string off (word_of_nat (length bs)) (Some bs) str"
proof -
  have sz: "unat (word_of_nat (length bs) :: u32) = length bs" using assms(2) by (simp add: unat_of_nat INT_MAX_def)
  then have "dump_lim off (word_of_nat (length bs)) = dump_gap off + length bs"
    using assms(2) by (simp add: dump_lim_eq INT_MAX_def)
  then have "bs_loop (bs @ e) (dump_gap off) (dump_lim off (word_of_nat (length bs))) (dump_base off) ([], str) (dump_gap off) =
      bs_loop bs (dump_gap off) (dump_lim off (word_of_nat (length bs))) (dump_base off) ([], str) (dump_gap off)"
    by (intro bs_loop_extra) simp_all
  then show ?thesis by (simp add: binary_dump_with_string_def Let_def)
qed

text \<open>What \<open>binary_dump_with_string\<close> prints for these bytes at this offset with this text beside them.\<close>

definition beside :: "u32 \<Rightarrow> byte list \<Rightarrow> string \<Rightarrow> string" where
  "beside off bs t =
     (if bs = [] then []
      else lines_rows (dump_base off) (replicate (dump_gap off) None @ map Some bs) (text_lines t) @ [NL])"

lemma string_dump_beside:
  assumes "dump_gap off + length bs \<le> INT_MAX"
  shows "\<exists>str. binary_dump_with_string off (word_of_nat (length bs)) (Some (bs @ e)) (Some t) = Inr (beside off bs t, Some str) \<and>
    length str = length t"
proof (cases "bs = []")
  case True
  then show ?thesis by (simp add: binary_dump_with_string_def beside_def)
next
  case False
  have "binary_dump_with_string off (word_of_nat (length bs)) (Some bs) (Some t) = Inr (beside off bs t, Some (map cut_char t))"
    using string_dump_layout [of bs off t] False assms by (simp add: beside_def)
  then show ?thesis using string_dump_prefix [OF False assms] by simp
qed

subsection \<open>Printing\<close>

definition add_err :: "string \<Rightarrow> elf_globals \<Rightarrow> elf_globals" where
  "add_err t g = g\<lparr>world := (world g)\<lparr>errs := errs (world g) @ t\<rparr>\<rparr>"

definition screen_ok :: "elf_globals \<Rightarrow> bool" where
  "screen_ok g = (length (screen (bin g)) = SCREEN_MAX)"

text \<open>\<open>prints m t g\<close>: started in g, the computation writes the text t and changes nothing else but the static buffer.\<close>

definition prints :: "unit dm \<Rightarrow> string \<Rightarrow> elf_globals \<Rightarrow> bool" where
  "prints m t g = (\<exists>b. m g = Inr ((), add_err t (g\<lparr>bin := b\<rparr>)) \<and> length (screen b) = SCREEN_MAX)"

lemma add_err_simps [simp]:
  "add_err u (add_err t g) = add_err (t @ u) g"
  "bin (add_err t g) = bin g" "(add_err t g)\<lparr>bin := b\<rparr> = add_err t (g\<lparr>bin := b\<rparr>)"
  "elf_header (add_err t g) = elf_header g" "section_heads (add_err t g) = section_heads g"
  "elf_shstrtab (add_err t g) = elf_shstrtab g" "section_count (add_err t g) = section_count g"
  "add_err [] g = g"
  by (simp_all add: add_err_def)

lemma prints_bind:
  assumes "prints m t g" and "\<And>b. length (screen b) = SCREEN_MAX \<Longrightarrow> prints k u (add_err t (g\<lparr>bin := b\<rparr>))"
  shows "prints (bindS m (\<lambda>_. k)) (t @ u) g"
proof -
  obtain b where b: "m g = Inr ((), add_err t (g\<lparr>bin := b\<rparr>))" "length (screen b) = SCREEN_MAX"
    using assms(1) by (auto simp: prints_def)
  then obtain b' where "k (add_err t (g\<lparr>bin := b\<rparr>)) = Inr ((), add_err u ((add_err t (g\<lparr>bin := b\<rparr>))\<lparr>bin := b'\<rparr>))"
    "length (screen b') = SCREEN_MAX"
    using assms(2) by (auto simp: prints_def)
  then show ?thesis using b(1) by (auto simp: prints_def bindS_def)
qed

text \<open>The calls that fill the static buffer, then the dump beside its text.\<close>

fun filled :: "(string \<times> carg list) list \<Rightarrow> unit dm \<Rightarrow> unit dm" where
  "filled [] m = m"
| "filled (c # cs) m = bindS (bprintf False (fst c) (snd c)) (\<lambda>_. filled cs m)"

lemma filled_calls:
  "filled cs m g = bindE (bin_calls cs (bin g)) (\<lambda>b. m (g\<lparr>bin := b\<rparr>))"
proof (induction cs arbitrary: g)
  case (Cons c cs)
  then show ?case by (simp add: bindS_def bprintf_def bindE_assoc case_prod_unfold)
qed simp

lemma overwrite_length: "length ys \<le> length xs \<Longrightarrow> length (overwrite 0 ys xs) = length xs"
  by (simp add: overwrite_def)

lemma prints_dump_screen:
  assumes "screen_ok g" and "dump_gap off + length bs \<le> INT_MAX"
  shows "prints (dump_screen off (word_of_nat (length bs)) (Some (bs @ e))) (beside off bs (bin_buffer (bin g))) g"
proof -
  obtain str where str: "binary_dump_with_string off (word_of_nat (length bs)) (Some (bs @ e)) (Some (bin_buffer (bin g))) =
      Inr (beside off bs (bin_buffer (bin g)), Some str)" "length str = length (bin_buffer (bin g))"
    using string_dump_beside [OF assms(2)] by blast
  have "length str \<le> length (screen (bin g))" using str(2) by (simp add: bin_buffer_def length_takeWhile_le)
  then have "length (overwrite 0 str (screen (bin g))) = SCREEN_MAX"
    using assms(1) overwrite_length [of str "screen (bin g)"] by (simp add: screen_ok_def)
  then show ?thesis using str(1)
    by (auto simp: prints_def dump_screen_def on_os_def put_err_def add_err_def
        intro!: exI [of _ "(bin g)\<lparr>screen := overwrite 0 str (screen (bin g))\<rparr>"])
qed

lemma reset_inv: "screen_ok g \<Longrightarrow> bin_inv (bin_buffer_reset (bin g)) \<and> bin_content (bin_buffer_reset (bin g)) = []"
  by (simp add: screen_ok_def bin_inv_def bin_content_def bin_buffer_reset_def SCREEN_MAX_def)

lemma prints_filled:
  assumes "screen_ok g" and "list_all2 call_text cs ts" and "ts \<noteq> []" and "length (concat ts) < SCREEN_MAX"
    and "dump_gap off + length bs \<le> INT_MAX"
  shows "prints (bindS bin_reset (\<lambda>_. filled cs (dump_screen off (word_of_nat (length bs)) (Some (bs @ e)))))
    (beside off bs (concat ts)) g"
proof -
  note r = reset_inv [OF assms(1)]
  have "bin_calls cs (bin_buffer_reset (bin g)) = bt.puts ts (bin_buffer_reset (bin g))"
    using bin_calls_puts [OF assms(2)] r by blast
  then obtain b where b: "bin_calls cs (bin_buffer_reset (bin g)) = Inr b" "bin_inv b" "bin_buffer b = concat ts"
    using bt.puts_fits [of "bin_buffer_reset (bin g)" ts] r call_texts_NUL [OF assms(2)] assms(3,4) by auto
  have "screen_ok (g\<lparr>bin := b\<rparr>)" using b(2) by (simp add: screen_ok_def bin_inv_def)
  from prints_dump_screen [OF this assms(5), of e] show ?thesis
    using b by (auto simp: prints_def bindS_def bin_reset_def modifyS_def filled_calls)
qed

subsection \<open>The file header\<close>

lemma digits_chars: "2 \<le> base \<Longrightarrow> set (digits f base n) \<subseteq> f ` {..<base}"
proof (induction n rule: less_induct)
  case (less n)
  show ?case
  proof (cases "n < base")
    case True
    then show ?thesis by (subst digits.simps) simp
  next
    case False
    then have "n div base < n" using less.prems by simp
    then show ?thesis using less False by (subst digits.simps) auto
  qed
qed

lemma hexd_NUL: "n < 16 \<Longrightarrow> hexd n \<noteq> NUL"
proof
  assume "n < 16" "hexd n = NUL"
  then have "of_char (hexd n) = (0 :: nat)" by (simp add: NUL_def)
  then show False using \<open>n < 16\<close> by (simp add: hexd_def split: if_splits)
qed

lemma hexD_NUL: "n < 16 \<Longrightarrow> hexD n \<noteq> NUL"
proof
  assume "n < 16" "hexD n = NUL"
  then have "of_char (hexD n) = (0 :: nat)" by (simp add: NUL_def)
  then show False using \<open>n < 16\<close> by (simp add: hexD_def split: if_splits)
qed

lemma no_NUL [simp]: "NUL \<notin> set (hexN n)" "NUL \<notin> set (hexn n)" "NUL \<noteq> NL" "NL \<noteq> NUL"
proof -
  show "NUL \<notin> set (hexN n)"
  proof
    assume "NUL \<in> set (hexN n)"
    then obtain k where "k < 16" "hexD k = NUL" using digits_chars [of 16 hexD n] by auto
    then show False using hexD_NUL by blast
  qed
  show "NUL \<notin> set (hexn n)"
  proof
    assume "NUL \<in> set (hexn n)"
    then obtain k where "k < 16" "hexd k = NUL" using digits_chars [of 16 hexd n] by auto
    then show False using hexd_NUL by blast
  qed
qed (simp_all add: NUL_def NL_def)

lemma ucast_u64_u32 [simp]: "ucast (ucast (w :: u32) :: u64) = w"
  by (rule bit_word_eqI) (simp add: bit_unsigned_iff)

lemma no_NUL_pad [simp]: "c \<noteq> NUL \<Longrightarrow> NUL \<notin> set t \<Longrightarrow> NUL \<notin> set (pad_left c n t)"
  by (auto simp: pad_left_def)

lemma hexN_u32: "length (hexN (unat (w :: u32))) \<le> 8"
  using length_digits_bound [of 8 16 "unat w" hexD] unat_u32_bound [of w] by simp

lemma hexN_u16: "length (hexN (unat (w :: u16))) \<le> 4"
  using length_digits_bound [of 4 16 "unat w" hexD] unsigned_less [of w, where ?'a = nat] by simp

definition type_line :: "ehdr \<Rightarrow> string" where
  "type_line h =
     (if e_type h = ET_NONE then ''unknown type\<newline>'' else if e_type h = ET_REL then ''Relocable file\<newline>''
      else if e_type h = ET_EXEC then ''Executable file\<newline>'' else if e_type h = ET_DYN then ''DYN file\<newline>''
      else ''unknow\<newline>'')"

definition machine_line :: "ehdr \<Rightarrow> string" where
  "machine_line h =
     (if e_machine h = EM_386 then ''i386\<newline>'' else if e_machine h = EM_X86_64 then ''x84_64\<newline>''
      else if e_machine h = EM_S390 then ''s390\<newline>'' else ''other\<newline>'')"

definition header_calls :: "ehdr \<Rightarrow> (string \<times> carg list) list" where
  "header_calls h =
     [(type_line h, []), (machine_line h, []), (''entry %08lX\<newline>'', [AInt (e_entry h)]), (''PROGRAM HEADER\<newline>'', []),
      (''OFFSET     : %X\<newline>'', [ALong (ucast (e_phoff h))]), (''ENTRY SIZE : %X\<newline>'', [AInt (ucast (e_phentsize h))]),
      (''ENTRY NUM  : %X\<newline>'', [AInt (ucast (e_phnum h))]), (''SECTION HEADER\<newline>'', []),
      (''OFFSET     : %X\<newline>'', [AInt (e_shoff h)]), (''ENTRY SIZE : %X\<newline>'', [AInt (ucast (e_shentsize h))]),
      (''ENTRY NUM  : %X\<newline>'', [AInt (ucast (e_shnum h))]), (''shstrndx   : %X\<newline>'', [AInt (ucast (e_shstrndx h))])]"

definition hex_line :: "string \<Rightarrow> nat \<Rightarrow> string" where
  "hex_line label n = label @ hexN n @ [NL]"

definition header_texts :: "ehdr \<Rightarrow> string list" where
  "header_texts h =
     [type_line h, machine_line h, ''entry '' @ pad_left CHR ''0'' 8 (hexN (unat (e_entry h))) @ [NL], ''PROGRAM HEADER\<newline>'',
      hex_line ''OFFSET     : '' (unat (e_phoff h)), hex_line ''ENTRY SIZE : '' (unat (e_phentsize h)),
      hex_line ''ENTRY NUM  : '' (unat (e_phnum h)), ''SECTION HEADER\<newline>'',
      hex_line ''OFFSET     : '' (unat (e_shoff h)), hex_line ''ENTRY SIZE : '' (unat (e_shentsize h)),
      hex_line ''ENTRY NUM  : '' (unat (e_shnum h)), hex_line ''shstrndx   : '' (unat (e_shstrndx h))]"

lemma fmt_hex_lines:
  "vsprintf ''OFFSET     : %X\<newline>'' [AInt w] = Inr (hex_line ''OFFSET     : '' (unat w))"
  "vsprintf ''OFFSET     : %X\<newline>'' [ALong (ucast w)] = Inr (hex_line ''OFFSET     : '' (unat w))"
  "vsprintf ''ENTRY SIZE : %X\<newline>'' [AInt w] = Inr (hex_line ''ENTRY SIZE : '' (unat w))"
  "vsprintf ''ENTRY NUM  : %X\<newline>'' [AInt w] = Inr (hex_line ''ENTRY NUM  : '' (unat w))"
  "vsprintf ''shstrndx   : %X\<newline>'' [AInt w] = Inr (hex_line ''shstrndx   : '' (unat w))"
  "vsprintf ''entry %08lX\<newline>'' [AInt w] = Inr (''entry '' @ pad_left CHR ''0'' 8 (hexN (unat w)) @ [NL])"
  by (simp_all add: fmt_eval hex_line_def NL_def pad_left_def)

lemma call_text_hex: "vsprintf f a = Inr (hex_line l n) \<Longrightarrow> f \<noteq> [] \<Longrightarrow> NUL \<notin> set l \<Longrightarrow> call_text (f, a) (hex_line l n)"
  by (simp add: call_text_def) (simp add: hex_line_def)

lemma call_text_plain: "CHR ''%'' \<notin> set f \<Longrightarrow> f \<noteq> [] \<Longrightarrow> NUL \<notin> set f \<Longrightarrow> call_text (f, []) f"
  by (simp add: call_text_def fmt_plain)

lemma header_call_texts: "list_all2 call_text (header_calls h) (header_texts h)"
proof -
  have 1: "call_text (type_line h, []) (type_line h)" "call_text (machine_line h, []) (machine_line h)"
    by (rule call_text_plain; simp add: type_line_def machine_line_def NUL_def)+
  have 2: "call_text (''PROGRAM HEADER\<newline>'', []) ''PROGRAM HEADER\<newline>''" "call_text (''SECTION HEADER\<newline>'', []) ''SECTION HEADER\<newline>''"
    by (rule call_text_plain; simp add: NUL_def)+
  have 3: "call_text (''entry %08lX\<newline>'', [AInt w]) (''entry '' @ pad_left CHR ''0'' 8 (hexN (unat w)) @ [NL])" for w
  proof -
    have "NUL \<notin> set ''entry ''" "CHR ''0'' \<noteq> NUL" by (simp_all add: NUL_def)
    then show ?thesis unfolding call_text_def fst_conv snd_conv fmt_hex_lines set_append by auto
  qed
  have 4: "unat (ucast v :: u32) = unat v" for v :: u16 by (rule unat_u16_u32)
  have n: "NUL \<notin> set ''OFFSET     : ''" "NUL \<notin> set ''ENTRY SIZE : ''" "NUL \<notin> set ''ENTRY NUM  : ''" "NUL \<notin> set ''shstrndx   : ''"
    by (simp_all add: NUL_def)
  have 5: "call_text (''OFFSET     : %X\<newline>'', [AInt w]) (hex_line ''OFFSET     : '' (unat w))"
    "call_text (''OFFSET     : %X\<newline>'', [ALong (ucast w)]) (hex_line ''OFFSET     : '' (unat w))"
    "call_text (''ENTRY SIZE : %X\<newline>'', [AInt w]) (hex_line ''ENTRY SIZE : '' (unat w))"
    "call_text (''ENTRY NUM  : %X\<newline>'', [AInt w]) (hex_line ''ENTRY NUM  : '' (unat w))"
    "call_text (''shstrndx   : %X\<newline>'', [AInt w]) (hex_line ''shstrndx   : '' (unat w))" for w
    using n by (auto intro: call_text_hex fmt_hex_lines)
  show ?thesis
    unfolding header_calls_def header_texts_def
    using 1 2 3 5 5(3,4,5) [of "ucast _", unfolded 4] by (simp add: 4 [symmetric])
qed

lemma header_texts_length: "length (concat (header_texts h)) < SCREEN_MAX"
proof -
  have "length (type_line h) \<le> 17" "length (machine_line h) \<le> 7" by (simp_all add: type_line_def machine_line_def)
  moreover have "length (hexN (unat (e_entry h))) \<le> 8" "length (hexN (unat (e_phoff h))) \<le> 8" "length (hexN (unat (e_shoff h))) \<le> 8"
    by (rule hexN_u32)+
  moreover have "length (hexN (unat (e_phentsize h))) \<le> 4" "length (hexN (unat (e_phnum h))) \<le> 4"
    "length (hexN (unat (e_shentsize h))) \<le> 4" "length (hexN (unat (e_shnum h))) \<le> 4" "length (hexN (unat (e_shstrndx h))) \<le> 4"
    by (rule hexN_u16)+
  ultimately show ?thesis by (simp add: header_texts_def hex_line_def length_pad_left SCREEN_MAX_def)
qed

lemma elf_header_dump_calls:
  assumes "elf_header g = hp" and "in_buf ehdr_at hp 0 = Inr h"
  shows "elf_header_dump g = bindS bin_reset (\<lambda>_. filled (header_calls h) (dump_screen 0 (word_of_nat EHDR_SIZE) (ptr_bytes hp 0))) g"
proof -
  have t: "(if e_type h = ET_NONE then bprintf False ''unknown type\<newline>'' []
      else if e_type h = ET_REL then bprintf False ''Relocable file\<newline>'' []
      else if e_type h = ET_EXEC then bprintf False ''Executable file\<newline>'' []
      else if e_type h = ET_DYN then bprintf False ''DYN file\<newline>'' []
      else bprintf False ''unknow\<newline>'' []) = bprintf False (type_line h) []"
    by (simp add: type_line_def)
  have m: "(if e_machine h = EM_386 then bprintf False ''i386\<newline>'' []
      else if e_machine h = EM_X86_64 then bprintf False ''x84_64\<newline>'' []
      else if e_machine h = EM_S390 then bprintf False ''s390\<newline>'' []
      else bprintf False ''other\<newline>'' []) = bprintf False (machine_line h) []"
    by (simp add: machine_line_def)
  have g: "bindS (getsS elf_header) k g' = k hp g'" if "elf_header g' = hp" for k :: "heapbuf \<Rightarrow> unit dm" and g'
    using that by (simp add: bindS_def getsS_def)
  show ?thesis
    unfolding elf_header_dump_def bin_reset_def
    using assms
    by (simp add: bindS_def [of "modifyS _"] modifyS_def g t m header_calls_def)
qed

lemma prints_header:
  assumes "screen_ok g" and "elf_header g = Some (p, bslice 0 EHDR_SIZE d)" and "EHDR_SIZE \<le> length d"
  shows "prints elf_header_dump (beside 0 (bslice 0 EHDR_SIZE d) (concat (header_texts (file_ehdr d)))) g"
proof -
  have eh: "in_buf ehdr_at (Some (p, bslice 0 EHDR_SIZE d)) 0 = Inr (file_ehdr d)"
    using assms(3) by (simp add: struct_at_def ehdr_of_bslice elf_sizes file_ehdr_def)
  have len: "length (bslice 0 EHDR_SIZE d) = EHDR_SIZE" using assms(3) by simp
  have "prints (bindS bin_reset (\<lambda>_. filled (header_calls (file_ehdr d))
      (dump_screen 0 (word_of_nat EHDR_SIZE) (Some (bslice 0 EHDR_SIZE d @ [])))))
      (beside 0 (bslice 0 EHDR_SIZE d) (concat (header_texts (file_ehdr d)))) g"
    using prints_filled [OF assms(1) header_call_texts _ header_texts_length, of "file_ehdr d" 0 "bslice 0 EHDR_SIZE d" "[]"] len
    by (simp add: header_texts_def dump_gap_def INT_MAX_def EHDR_SIZE_def)
  then show ?thesis
    using elf_header_dump_calls [OF assms(2) eh] by (simp add: prints_def ptr_bytes_def)
qed

subsection \<open>The program headers\<close>

definition phoff :: "byte list \<Rightarrow> nat" where "phoff d = unat (e_phoff (file_ehdr d))"
definition phnum :: "byte list \<Rightarrow> nat" where "phnum d = unat (e_phnum (file_ehdr d))"

definition ph_calls :: "phdr \<Rightarrow> (string \<times> carg list) list" where
  "ph_calls p = [(''%s\<newline>'', [AStr (ph_type (p_type p))]), (''0x%06x\<newline>'', [AInt (p_vaddr p)]), (''0x%06x\<newline>'', [AInt (p_paddr p)])]"

definition addr_line :: "u32 \<Rightarrow> string" where
  "addr_line w = ''0x'' @ pad_left CHR ''0'' 6 (hexn (unat w)) @ [NL]"

definition ph_texts :: "phdr \<Rightarrow> string list" where
  "ph_texts p = [ph_type (p_type p) @ [NL], addr_line (p_vaddr p), addr_line (p_paddr p)]"

lemma ph_type_text: "NUL \<notin> set (ph_type w)" "length (ph_type w) \<le> 6"
proof -
  have "ph_type w \<in> insert ''UNK'' (snd ` set ph_type_cases)"
    by (cases "map_of ph_type_cases w") (auto simp: ph_type_def switch_def intro: rev_image_eqI dest!: map_of_SomeD)
  then show "NUL \<notin> set (ph_type w)" "length (ph_type w) \<le> 6"
    by (auto simp: ph_type_cases_def NUL_def)
qed

lemma fmt_addr: "vsprintf ''0x%06x\<newline>'' [AInt w] = Inr (addr_line w)"
  by (simp add: fmt_eval addr_line_def NL_def)

lemma ph_call_texts: "list_all2 call_text (ph_calls p) (ph_texts p)"
proof -
  have "call_text (''0x%06x\<newline>'', [AInt w]) (addr_line w)" for w
  proof -
    have "NUL \<notin> set ''0x''" "CHR ''0'' \<noteq> NUL" by (simp_all add: NUL_def)
    then show ?thesis unfolding call_text_def fst_conv snd_conv fmt_addr addr_line_def set_append by auto
  qed
  moreover have "call_text (''%s\<newline>'', [AStr (ph_type w)]) (ph_type w @ [NL])" for w
    using ph_type_text(1) by (simp add: call_text_def fmt_s_nl)
  ultimately show ?thesis by (simp add: ph_calls_def ph_texts_def)
qed

lemma ph_texts_length: "length (concat (ph_texts p)) < SCREEN_MAX"
proof -
  have "length (hexn (unat w)) \<le> 8" for w :: u32
    using length_digits_bound [of 8 16 "unat w" hexd] unat_u32_bound [of w] by simp
  then have "length (addr_line w) \<le> 11" for w
    by (simp add: addr_line_def length_pad_left)
  from add_mono [OF this [of "p_vaddr p"] this [of "p_paddr p"]] ph_type_text(2) [of "p_type p"]
  show ?thesis by (simp add: ph_texts_def SCREEN_MAX_def)
qed

text \<open>The program header table lies in the file and its entries have the size the program assumes.\<close>

definition ph_ok :: "byte list \<Rightarrow> bool" where
  "ph_ok d = (unat (e_phentsize (file_ehdr d)) = PHDR_SIZE \<and> phoff d + PHDR_SIZE * phnum d \<le> length d)"

definition ph_entry :: "byte list \<Rightarrow> nat \<Rightarrow> string" where
  "ph_entry d i = beside (word_of_nat (phoff d + PHDR_SIZE * i)) (bslice (phoff d + PHDR_SIZE * i) PHDR_SIZE d)
     (concat (ph_texts (phdr_of d (phoff d + PHDR_SIZE * i))))"

lemma dump_gap_16: "dump_gap off < 16"
  by (rule dump_gap_less)

lemma gap_small: "n \<le> 100 \<Longrightarrow> dump_gap off + n \<le> INT_MAX"
  using dump_gap_16 [of off] unfolding INT_MAX_def by linarith

lemma phdr_of_bslice: "i + 32 \<le> n \<Longrightarrow> phdr_of (bslice off n b) i = phdr_of b (off + i)"
  by (simp add: phdr_of_def u32_of_bslice add.assoc)

lemma prints_ph2_step:
  assumes "ph_ok d" and "length d < 2147483648" and "i < phnum d" and "screen_ok g"
    and "\<And>b. length (screen b) = SCREEN_MAX \<Longrightarrow>
      prints (ph2_loop k (int (phoff d)) (int PHDR_SIZE) (Some (q, bslice (phoff d) (PHDR_SIZE * phnum d) d)) (i + 1)) u
        (add_err (ph_entry d i) (g\<lparr>bin := b\<rparr>))"
  shows "prints (ph2_loop (Suc k) (int (phoff d)) (int PHDR_SIZE) (Some (q, bslice (phoff d) (PHDR_SIZE * phnum d) d)) i)
    (ph_entry d i @ u) g"
proof -
  let ?buf = "bslice (phoff d) (PHDR_SIZE * phnum d) d" and ?pos = "phoff d + PHDR_SIZE * i"
  let ?p = "phdr_of d ?pos" and ?e = "bslice ?pos PHDR_SIZE d"
  have inside: "phoff d + PHDR_SIZE * phnum d \<le> length d" using assms(1) by (simp add: ph_ok_def)
  have "PHDR_SIZE * Suc i \<le> PHDR_SIZE * phnum d" using assms(3) by (intro mult_le_mono2) simp
  then have pos: "PHDR_SIZE * i + PHDR_SIZE \<le> PHDR_SIZE * phnum d" by simp
  then have small: "?pos + PHDR_SIZE \<le> length d" using inside by simp
  have ph: "in_buf phdr_at (Some (q, ?buf)) (PHDR_SIZE * i) = Inr ?p"
    using pos inside by (simp add: struct_at_def phdr_of_bslice PHDR_SIZE_def)
  have lt: "?pos < 2147483648" using small assms(2) by (simp add: PHDR_SIZE_def)
  then have "INT_OK (int (PHDR_SIZE * i))" "INT_OK (int ?pos)" unfolding INT_OK_def by linarith+
  then have int: "bindE (int_res (int PHDR_SIZE * int i)) (\<lambda>x. int_res (int (phoff d) + x)) = Inr (int ?pos)"
    by (simp add: int_res_ok)
  have "drop (PHDR_SIZE * i) ?buf = ?e @ drop (PHDR_SIZE * i + PHDR_SIZE) ?buf"
    using pos bslice_bslice [of "PHDR_SIZE * i" PHDR_SIZE "PHDR_SIZE * phnum d" "phoff d" d]
      append_take_drop_id [of PHDR_SIZE "drop (PHDR_SIZE * i) ?buf"]
    by (simp add: bslice_def [of "PHDR_SIZE * i"] add.commute)
  then obtain r where r: "drop (PHDR_SIZE * i) ?buf = ?e @ r" by blast
  have len: "length ?e = PHDR_SIZE" using small by simp
  let ?m = "bindS bin_reset (\<lambda>_. filled (ph_calls ?p) (dump_screen (word_of_nat ?pos) (word_of_nat PHDR_SIZE) (Some (?e @ r))))"
  have gap: "dump_gap (word_of_nat ?pos) + length ?e \<le> INT_MAX"
    unfolding len by (rule gap_small) (simp add: PHDR_SIZE_def)
  have ne: "ph_texts ?p \<noteq> []" by (simp add: ph_texts_def)
  have "prints ?m (ph_entry d i) g"
    using prints_filled [OF assms(4) ph_call_texts ne ph_texts_length gap, of r] unfolding len ph_entry_def .
  then have "prints (bindS ?m (\<lambda>_. ph2_loop k (int (phoff d)) (int PHDR_SIZE) (Some (q, ?buf)) (i + 1))) (ph_entry d i @ u) g"
    using assms(5) by (rule prints_bind)
  moreover have "u32_arg (int ?pos) = word_of_nat ?pos" "u32_arg (int PHDR_SIZE) = word_of_nat PHDR_SIZE"
    by (simp_all only: u32_arg_def of_int_of_nat_eq)
  ultimately show ?thesis
    using ph int by (simp add: bindS_assoc ph_calls_def ptr_bytes_def r)
qed

lemma prints_ph2:
  assumes "ph_ok d" and "length d < 2147483648" and "i + k = phnum d" and "screen_ok g"
  shows "prints (ph2_loop k (int (phoff d)) (int PHDR_SIZE) (Some (q, bslice (phoff d) (PHDR_SIZE * phnum d) d)) i)
    (concat (map (ph_entry d) [i..<phnum d])) g"
  using assms(3,4)
proof (induction k arbitrary: i g)
  case 0
  then show ?case by (auto simp: prints_def returnS_def screen_ok_def intro!: exI [of _ "bin g"])
next
  case (Suc k)
  then have i: "i < phnum d" by simp
  then have e: "concat (map (ph_entry d) [i..<phnum d]) = ph_entry d i @ concat (map (ph_entry d) [i + 1..<phnum d])"
    by (simp add: upt_conv_Cons)
  show ?case unfolding e
    by (rule prints_ph2_step [OF assms(1,2) i Suc.prems(2)], rule Suc.IH)
       (use Suc.prems in \<open>simp_all add: screen_ok_def\<close>)
qed

subsection \<open>The sections\<close>

definition sec_entry :: "byte list \<Rightarrow> nat \<Rightarrow> string" where
  "sec_entry d i = beside (sh_offset (sec_hdr d i)) (sec_bytes d i) (sec_name d i @ [NL])"

text \<open>The files that the raw dump is described for.\<close>

definition raw_ok :: "byte list \<Rightarrow> bool" where
  "raw_ok d =
     (wf_elf d \<and> sh_type (sec_hdr d (shstrndx d)) = SHT_STRTAB \<and> ph_ok d \<and> shnum d \<le> 100 \<and>
      length d < 2147483632 \<and> length (names d) < SCREEN_MAX \<and> (\<forall>i \<in> set [1..<shnum d]. sec_inside d i))"

lemma raw_okD:
  assumes "raw_ok d"
  shows "wf_elf d" "sh_type (sec_hdr d (shstrndx d)) = SHT_STRTAB" "ph_ok d" "shnum d \<le> 100"
    "length d < 2147483632" "length (names d) < SCREEN_MAX" "1 \<le> i \<Longrightarrow> i < shnum d \<Longrightarrow> sec_inside d i"
  using assms by (simp_all add: raw_ok_def)

lemma dump_loaded_update [simp]:
  "dump_loaded d (g\<lparr>world := w\<rparr>) = dump_loaded d g" "dump_loaded d (g\<lparr>bin := b\<rparr>) = dump_loaded d g"
  "dump_loaded d (add_err t g) = dump_loaded d g"
  by (simp_all add: dump_loaded_def add_err_def)

lemma reading_update [simp]:
  "reading d (add_err t g) = reading d g" "reading d (g\<lparr>bin := b\<rparr>) = reading d g"
proof -
  have "fd_data f (s\<lparr>errs := u\<rparr>) = fd_data f s" for f s u by (rule fd_data_cong) simp_all
  then show "reading d (add_err t g) = reading d g" by (simp add: reading_def fd_inv_def add_err_def)
qed (simp add: reading_def)

lemma screen_ok_update [simp]:
  "screen_ok (g\<lparr>world := w\<rparr>) = screen_ok g" "screen_ok (add_err t g) = screen_ok g"
  "screen_ok (g\<lparr>bin := b\<rparr>) = (length (screen b) = SCREEN_MAX)"
  by (simp_all add: screen_ok_def add_err_def)

lemma str_of_name:
  assumes "raw_ok d" and "i < shnum d"
  shows "str_at (Some (q, names d)) (i32 (sh_name (sec_hdr d i))) = Inr (sec_name d i)"
    and "call_text (''%s\<newline>'', [AStr (sec_name d i)]) (sec_name d i @ [NL])"
    and "length (sec_name d i @ [NL]) < SCREEN_MAX"
proof -
  note ok = raw_okD [OF assms(1)] and wf = wf_elfD [OF raw_okD(1) [OF assms(1)]]
  have k: "unat (sh_name (sec_hdr d i)) < length (names d)" by (rule wf(7) [OF assms(2)])
  have "length (names d) < 2147483648" using ok(6) by (simp add: SCREEN_MAX_def)
  then have "i32 (sh_name (sec_hdr d i)) = int (unat (sh_name (sec_hdr d i)))" using k by (intro i32_small) simp
  then show "str_at (Some (q, names d)) (i32 (sh_name (sec_hdr d i))) = Inr (sec_name d i)"
    using cstr_at_strtab [OF wf(6) k] by (simp add: str_at_def sec_name_def del: of_nat_unat)
  have "b \<noteq> 0" if "b \<in> set (takeWhile (\<lambda>x. x \<noteq> 0) (drop n (names d)))" for b n
    using that by (blast dest: set_takeWhileD)
  then have "\<forall>b \<in> set (takeWhile (\<lambda>x. x \<noteq> 0) (drop n (names d))). char_of_byte b \<noteq> NUL" for n
    unfolding NUL_def char_of_byte_NUL by blast
  from this [of "unat (sh_name (sec_hdr d i))"] have "NUL \<notin> set (sec_name d i)"
    unfolding sec_name_def str_of_def set_map by auto
  then show "call_text (''%s\<newline>'', [AStr (sec_name d i)]) (sec_name d i @ [NL])"
    by (simp add: call_text_def fmt_s_nl)
  let ?r = "drop (unat (sh_name (sec_hdr d i))) (names d)"
  have "?r \<noteq> []" "last ?r = 0" using k wf(6) by (simp_all add: is_strtab_def)
  then have "0 \<in> set ?r" using last_in_set [of ?r] by simp
  then have "dropWhile (\<lambda>x. x \<noteq> 0) ?r \<noteq> []" by (auto simp: dropWhile_eq_Nil_conv)
  moreover have "length (takeWhile (\<lambda>x. x \<noteq> 0) ?r) + length (dropWhile (\<lambda>x. x \<noteq> 0) ?r) = length ?r"
    by (metis length_append takeWhile_dropWhile_id)
  ultimately have "length (takeWhile (\<lambda>x. x \<noteq> 0) ?r) < length (names d)" by (cases "dropWhile (\<lambda>x. x \<noteq> 0) ?r") auto
  then show "length (sec_name d i @ [NL]) < SCREEN_MAX" using ok(6) by (simp add: sec_name_def str_of_def SCREEN_MAX_def)
qed

lemma prints_section:
  assumes "raw_ok d" and "i < shnum d" and "1 \<le> i" and "screen_ok g"
  shows "prints (bindS bin_reset (\<lambda>_. bindS (bprintf False ''%s\<newline>'' [AStr (sec_name d i)])
      (\<lambda>_. dump_screen (sh_offset (sec_hdr d i)) (sh_size (sec_hdr d i)) (Some (sec_bytes d i))))) (sec_entry d i) g"
proof -
  note sec = raw_okD(7) [OF assms(1,3,2)]
  have len: "length (sec_bytes d i) = sec_size d i" by (rule length_sec_bytes [OF sec])
  then have sz: "sh_size (sec_hdr d i) = word_of_nat (length (sec_bytes d i))" by (simp add: sec_size_def)
  have "sec_size d i \<le> length d" using sec by (simp add: sec_inside_def)
  then have gap: "dump_gap (sh_offset (sec_hdr d i)) + length (sec_bytes d i) \<le> INT_MAX"
    using dump_gap_16 [of "sh_offset (sec_hdr d i)"] raw_okD(5) [OF assms(1)] unfolding len INT_MAX_def by linarith
  have "list_all2 call_text [(''%s\<newline>'', [AStr (sec_name d i)])] [sec_name d i @ [NL]]"
    using str_of_name(2) [OF assms(1,2)] by simp
  from prints_filled [OF assms(4) this _ _ gap, of "[]"] str_of_name(3) [OF assms(1,2)]
  show ?thesis by (simp add: sec_entry_def sz)
qed

text \<open>The part of the loop body between the read of a section and its release.\<close>

definition section_block :: "shdr \<Rightarrow> heapbuf \<Rightarrow> unit dm" where
  "section_block h buf =
     bindS bin_reset (\<lambda>_.
     bindS (bindS (getsS elf_shstrtab) (\<lambda>str. liftS (str_at str (i32 (sh_name h))))) (\<lambda>name.
     bindS (bprintf False ''%s\<newline>'' [AStr name]) (\<lambda>_.
     dump_screen (sh_offset h) (sh_size h) (ptr_bytes buf 0))))"

lemma liner_unfold:
  "i \<noteq> 0 \<Longrightarrow> liner_loop (Suc k) i =
     bindS (head_fields (int i)) (\<lambda>(hp, h). bindS (file_read (i32 (sh_offset h)) (i32 (sh_size h))) (\<lambda>buf.
     bindS (section_block h buf) (\<lambda>_. bindS (free_buf buf) (\<lambda>_. liner_loop k (i + 1)))))"
  by (simp add: section_block_def bindS_assoc case_prod_unfold)

lemma section_block_named:
  assumes "elf_shstrtab g = str" and "str_at str (i32 (sh_name h)) = Inr name"
  shows "section_block h buf g =
    bindS bin_reset (\<lambda>_. bindS (bprintf False ''%s\<newline>'' [AStr name]) (\<lambda>_.
      dump_screen (sh_offset h) (sh_size h) (ptr_bytes buf 0))) g"
  using assms by (simp add: section_block_def bindS_def bin_reset_def modifyS_def getsS_def returnS_def)

text \<open>One round of the loop over the sections: the section is read, dumped and freed.\<close>

lemma liner_step:
  assumes "raw_ok d" and "i < shnum d" and "1 \<le> i" and "screen_ok g" and "dump_loaded d g" and "reading d g"
  shows "\<exists>g'. liner_loop (Suc k) i g = liner_loop k (i + 1) g' \<and> screen_ok g' \<and> dump_loaded d g' \<and> reading d g' \<and>
    errs (world g') = errs (world g) @ sec_entry d i \<and> outs (world g') = outs (world g) \<and> live (world g') = live (world g)"
proof -
  note ok = raw_okD [OF assms(1)] and sec = raw_okD(7) [OF assms(1,3,2)]
  have inside: "sec_off d i + sec_size d i \<le> length d" using sec by (simp add: sec_inside_def)
  obtain p where hd: "head_at (section_heads g) (int i) = Inr (Some (p, bslice (shoff d + SHDR_SIZE * i) SHDR_SIZE d))"
    "in_buf shdr_at (Some (p, bslice (shoff d + SHDR_SIZE * i) SHDR_SIZE d)) 0 = Inr (sec_hdr d i)"
    using head_loaded [OF ok(1) assms(5) ok(4) assms(2)] by blast
  obtain w where w: "file_read (int (sec_off d i)) (int (sec_size d i)) g = Inr (Some (fresh (world g), sec_bytes d i), g\<lparr>world := w\<rparr>)"
    "reading d (g\<lparr>world := w\<rparr>)" "allocated 1 (world g) w"
    using file_read_nat [OF assms(6) inside] by (auto simp: sec_bytes_def)
  obtain q where str: "elf_shstrtab g = Some (q, names d)" using assms(5) by (auto simp: dump_loaded_def)
  have s1: "screen_ok (g\<lparr>world := w\<rparr>)" using assms(4) by simp
  let ?buf = "Some (fresh (world g), sec_bytes d i)"
  have named: "section_block (sec_hdr d i) ?buf (g\<lparr>world := w\<rparr>) = bindS bin_reset (\<lambda>_. bindS (bprintf False ''%s\<newline>'' [AStr (sec_name d i)])
      (\<lambda>_. dump_screen (sh_offset (sec_hdr d i)) (sh_size (sec_hdr d i)) (Some (sec_bytes d i)))) (g\<lparr>world := w\<rparr>)"
    using section_block_named [of "g\<lparr>world := w\<rparr>" "Some (q, names d)" "sec_hdr d i" "sec_name d i" ?buf]
      str str_of_name(1) [OF assms(1,2), of q] by (simp add: ptr_bytes_def)
  obtain b where b: "section_block (sec_hdr d i) ?buf (g\<lparr>world := w\<rparr>) =
      Inr ((), add_err (sec_entry d i) (g\<lparr>world := w, bin := b\<rparr>))" "length (screen b) = SCREEN_MAX"
    using prints_section [OF assms(1-3) s1] unfolding named prints_def by blast
  let ?w' = "w\<lparr>errs := errs w @ sec_entry d i, live := live (world g)\<rparr>"
  let ?g' = "g\<lparr>world := ?w', bin := b\<rparr>"
  have "sys_free (fresh (world g)) (w\<lparr>errs := errs w @ sec_entry d i\<rparr>) = Inr ((), ?w')"
    using w(3) by (simp add: sys_free_def allocated_def)
  then have free: "free_buf ?buf (add_err (sec_entry d i) (g\<lparr>world := w, bin := b\<rparr>)) = Inr ((), ?g')"
    by (simp add: free_buf_def on_os_def add_err_def)
  have hf: "head_fields (int i) g = Inr ((Some (p, bslice (shoff d + SHDR_SIZE * i) SHDR_SIZE d), sec_hdr d i), g)"
    using hd by (simp add: head_fields_def bindS_def getsS_def returnS_def)
  have rd: "file_read (i32 (sh_offset (sec_hdr d i))) (i32 (sh_size (sec_hdr d i))) g = Inr (?buf, g\<lparr>world := w\<rparr>)"
    unfolding sec_ints [OF wf_elfD(1) [OF ok(1)] sec] by (rule w(1))
  have "i \<noteq> 0" using assms(3) by simp
  have "liner_loop (Suc k) i g = liner_loop k (i + 1) ?g'"
    unfolding liner_unfold [OF \<open>i \<noteq> 0\<close>] by (simp only: bindS_def hf rd b(1) free bindE_simps prod.case)
  moreover have "fd_data (in_fd g) ?w' = fd_data (in_fd g) w" by (rule fd_data_cong) simp_all
  then have "reading d ?g'" using w(2) by (simp add: reading_def fd_inv_def)
  moreover have "errs w = errs (world g)" "outs w = outs (world g)" using w(3) by (simp_all add: allocated_def same_but_heap_def)
  ultimately show ?thesis using b(2) assms(5)
    by (intro exI [of _ ?g']) simp
qed

lemma liner_loop_prints:
  assumes "raw_ok d" and "i + k = shnum d" and "1 \<le> i" and "screen_ok g" and "dump_loaded d g" and "reading d g"
  shows "\<exists>g'. liner_loop k i g = Inr ((), g') \<and> errs (world g') = errs (world g) @ concat (map (sec_entry d) [i..<shnum d]) \<and>
    outs (world g') = outs (world g) \<and> live (world g') = live (world g)"
  using assms(2-6)
proof (induction k arbitrary: i g)
  case 0
  then show ?case by (simp add: returnS_def)
next
  case (Suc k)
  then have i: "i < shnum d" by simp
  obtain g1 where g1: "liner_loop (Suc k) i g = liner_loop k (i + 1) g1" "screen_ok g1" "dump_loaded d g1" "reading d g1"
    "errs (world g1) = errs (world g) @ sec_entry d i" "outs (world g1) = outs (world g)" "live (world g1) = live (world g)"
    using liner_step [OF assms(1) i Suc.prems(2-5)] by blast
  have e: "[i..<shnum d] = i # [i + 1..<shnum d]" using i by (simp add: upt_conv_Cons)
  show ?case using Suc.IH [of "i + 1" g1] g1 Suc.prems(1) unfolding e by auto
qed

subsection \<open>The whole raw dump\<close>

definition raw_listing :: "byte list \<Rightarrow> string" where
  "raw_listing d =
     beside 0 (bslice 0 EHDR_SIZE d) (concat (header_texts (file_ehdr d))) @
     concat (map (ph_entry d) [0..<phnum d]) @ concat (map (sec_entry d) [1..<shnum d])"

lemma open_in_file:
  assumes "files (world g) path = Some d" and "length d \<le> avail (world g)" and "length d < 2147483648"
  shows "\<exists>f w. open_in path g = Inr ((), g\<lparr>world := w, in_fd := f\<rparr>) \<and> fd_inv f d w \<and> allocated 0 (world g) w"
proof -
  obtain f w where "sys_open path (world g) = Inr (int f, w)" "fd_data (int f) w = Some d" "allocated 0 (world g) w"
    using sys_open_file [OF assms(1)] by blast
  then show ?thesis using assms(2,3)
    by (intro exI [of _ "int f"] exI [of _ w])
      (auto simp: open_in_def bindS_def on_os_def modifyS_def returnS_def fd_inv_def allocated_def same_but_heap_def)
qed

lemma ph2_whole:
  assumes "raw_ok d" and "screen_ok g" and "in_buf ehdr_at hp 0 = Inr (file_ehdr d)"
  shows "prints (elf_ph_dump2 hp (Some (q, bslice (phoff d) (PHDR_SIZE * phnum d) d))) (concat (map (ph_entry d) [0..<phnum d])) g"
proof -
  note ok = raw_okD [OF assms(1)]
  have l: "length d < 2147483648" using ok(5) by simp
  have "i32 (e_phoff (file_ehdr d)) = int (phoff d)"
    using ok(3) l by (simp add: ph_ok_def phoff_def i32_small del: of_nat_unat)
  moreover have "i16 (e_phentsize (file_ehdr d)) = int PHDR_SIZE" "nat (i16 (e_phnum (file_ehdr d))) = phnum d"
    using ok(3) by (simp_all add: ph_ok_def i16_nat phnum_def del: of_nat_unat)
  moreover have "prints (ph2_loop (phnum d) (int (phoff d)) (int PHDR_SIZE) (Some (q, bslice (phoff d) (PHDR_SIZE * phnum d) d)) 0)
      (concat (map (ph_entry d) [0..<phnum d])) g"
    using prints_ph2 [OF ok(3) l _ assms(2), of 0 "phnum d"] by simp
  ultimately show ?thesis using assms(3) by (simp add: elf_ph_dump2_def)
qed

text \<open>
  The state between two steps of the raw dump: n heap objects have been allocated and the
  text t has been written since the start in w.
\<close>

definition running :: "byte list \<Rightarrow> os \<Rightarrow> nat \<Rightarrow> string \<Rightarrow> elf_globals \<Rightarrow> bool" where
  "running d w n t g =
     (dump_loaded d g \<and> screen_ok g \<and> reading d g \<and> dump_header g \<and> dump_pheader g \<and>
      errs (world g) = errs w @ t \<and> allocated n w ((world g)\<lparr>errs := errs w\<rparr>))"

lemma running_loaded:
  assumes "running d w n t g"
  obtains p where "elf_header g = Some (p, bslice 0 EHDR_SIZE d)" "section_count g = int (shnum d)"
    "dump_header g" "dump_pheader g" "screen_ok g" "reading d g" "dump_loaded d g"
  using assms by (auto simp: running_def dump_loaded_def)

lemma running_start:
  assumes "raw_ok d" and "files w path = Some d" and "length d \<le> avail w"
  shows "\<exists>g. bindS (open_in path) (\<lambda>_. elf_init_read) (elf_start w) = Inr ((), g) \<and> running d w (3 + shnum d) [] g"
proof -
  note ok = raw_okD [OF assms(1)] and wf = wf_elfD [OF raw_okD(1) [OF assms(1)]]
  obtain f w0 where opn: "open_in path (elf_start w) = Inr ((), (elf_start w)\<lparr>world := w0, in_fd := f\<rparr>)"
    "fd_inv f d w0" "allocated 0 w w0"
    using open_in_file [of "elf_start w" path d] assms(2,3) wf(1) by (auto simp: elf_start_def)
  let ?g0 = "(elf_start w)\<lparr>world := w0, in_fd := f\<rparr>"
  have "reading d ?g0" "length (section_heads ?g0) = 100" using opn(2) by (simp_all add: reading_def elf_start_def)
  then obtain w1 p q r hs where init: "elf_init_read ?g0 = Inr ((),
      ?g0\<lparr>world := w1, elf_header := Some (p, bslice 0 EHDR_SIZE d), section_offset := int (shoff d),
         section_size := int SHDR_SIZE, section_count := int (shnum d), elf_shstrtab_header := q,
         elf_shstrtab := Some (r, names d), section_heads := hs\<rparr>)" (is "_ = Inr ((), ?g1)")
    and hs: "heads_from d hs 0 (shnum d)" and rd1: "fd_inv f d w1" and al1: "allocated (3 + shnum d) w0 w1"
    using elf_init_read_loads [OF ok(1) _ ok(2,4), of ?g0] by (auto simp: reading_def)
  have "running d w (3 + shnum d) [] ?g1"
    using hs rd1 allocated_trans [OF opn(3) al1]
    by (simp add: running_def dump_loaded_def heads_from_def screen_ok_def elf_start_def bin_st0_def reading_def
        allocated_def same_but_heap_def)
  then show ?thesis using opn(1) init by (simp add: bindS_def)
qed

lemma running_prints:
  assumes "running d w n t g" and "prints m u g"
  shows "\<exists>g'. m g = Inr ((), g') \<and> running d w n (t @ u) g'"
proof -
  obtain b where m: "m g = Inr ((), add_err u (g\<lparr>bin := b\<rparr>))" "length (screen b) = SCREEN_MAX"
    using assms(2) by (auto simp: prints_def)
  have "dump_loaded d (add_err u (g\<lparr>bin := b\<rparr>))" "reading d (add_err u (g\<lparr>bin := b\<rparr>))"
    using assms(1) by (simp_all add: running_def)
  then have "running d w n (t @ u) (add_err u (g\<lparr>bin := b\<rparr>))"
    using assms(1) m(2) by (simp add: running_def add_err_def screen_ok_def)
  with m(1) show ?thesis by blast
qed

lemma running_reads:
  assumes "running d w n t g" and "off + k \<le> length d"
  shows "\<exists>q g'. file_read (int off) (int k) g = Inr (Some (q, bslice off k d), g') \<and> running d w (Suc n) t g' \<and>
    (\<forall>b. running d w (Suc n) t (g'\<lparr>elf_ph_buf := b\<rparr>))"
proof -
  have rd: "reading d g" using assms(1) by (simp add: running_def)
  obtain w3 where r: "file_read (int off) (int k) g = Inr (Some (fresh (world g), bslice off k d), g\<lparr>world := w3\<rparr>)"
    "reading d (g\<lparr>world := w3\<rparr>)" "allocated 1 (world g) w3"
    using file_read_nat [OF rd assms(2)] by blast
  have "allocated 1 ((world g)\<lparr>errs := errs w\<rparr>) (w3\<lparr>errs := errs w\<rparr>)"
    using r(3) by (simp add: allocated_def same_but_heap_def)
  then have "allocated (Suc n) w (w3\<lparr>errs := errs w\<rparr>)"
    using assms(1) allocated_trans [of n w _ 1] by (fastforce simp: running_def)
  then have "running d w (Suc n) t (g\<lparr>world := w3\<rparr>)" "\<forall>b. running d w (Suc n) t (g\<lparr>world := w3, elf_ph_buf := b\<rparr>)"
    using assms(1) r(2,3)
    by (simp_all add: running_def screen_ok_def dump_loaded_def reading_def allocated_def same_but_heap_def)
  with r(1) show ?thesis by blast
qed

lemma ph_table_size:
  assumes "raw_ok d"
  shows "phoff d + PHDR_SIZE * phnum d \<le> length d" "i32 (e_phoff (file_ehdr d)) = int (phoff d)"
    "int_res (i16 (e_phentsize (file_ehdr d)) * i16 (e_phnum (file_ehdr d))) = Inr (int (PHDR_SIZE * phnum d))"
proof -
  note ok = raw_okD [OF assms] and wf = wf_elfD [OF raw_okD(1) [OF assms]]
  show ph: "phoff d + PHDR_SIZE * phnum d \<le> length d" using ok(3) by (simp add: ph_ok_def)
  then show "i32 (e_phoff (file_ehdr d)) = int (phoff d)"
    using wf(1) by (simp add: phoff_def i32_small del: of_nat_unat)
  have "i16 (e_phentsize (file_ehdr d)) * i16 (e_phnum (file_ehdr d)) = int (PHDR_SIZE * phnum d)"
    using ok(3) by (simp add: ph_ok_def i16_nat phnum_def del: of_nat_unat)
  moreover have "INT_OK (int (PHDR_SIZE * phnum d))" using ph wf(1) unfolding INT_OK_def by linarith
  ultimately show "int_res (i16 (e_phentsize (file_ehdr d)) * i16 (e_phnum (file_ehdr d))) = Inr (int (PHDR_SIZE * phnum d))"
    by (simp only: int_res_ok)
qed

lemma when_flag_set: "f g \<Longrightarrow> when_flag f m g = m g"
  by (simp add: when_flag_def bindS_def getsS_def)

text \<open>The two headers, then the sections.\<close>

lemma liner_sections:
  assumes "raw_ok d" and "running d w n t g"
  shows "\<exists>g'. liner_loop (nat (section_count g)) 0 g = Inr ((), g') \<and> outs (world g') = outs w \<and>
    live (world g') = rev [fresh w..<fresh w + n] @ live w \<and> errs (world g') = errs w @ t @ concat (map (sec_entry d) [1..<shnum d])"
proof -
  obtain p where g: "section_count g = int (shnum d)" "screen_ok g" "reading d g" "dump_loaded d g"
    using running_loaded [OF assms(2)] by metis
  obtain k where k: "shnum d = Suc k"
    using wf_elfD(5) [OF raw_okD(1) [OF assms(1)]] by (cases "shnum d") (simp_all add: sec_inside_def)
  then obtain g' where "liner_loop k 1 g = Inr ((), g')"
    "errs (world g') = errs (world g) @ concat (map (sec_entry d) [1..<shnum d])"
    "outs (world g') = outs (world g)" "live (world g') = live (world g)"
    using liner_loop_prints [OF assms(1), of 1 k g] g by auto
  then show ?thesis
    using assms(2) unfolding g(1) nat_int k
    by (intro exI [of _ g']) (simp add: running_def allocated_def same_but_heap_def)
qed

lemma liner_dump_runs:
  assumes "raw_ok d" and "files w path = Some d" and "length d \<le> avail w"
  shows "\<exists>g'. elf_liner_dump path (elf_start w) = Inr ((), g') \<and> errs (world g') = errs w @ raw_listing d \<and>
    outs (world g') = outs w \<and> live (world g') = rev [fresh w..<fresh w + (4 + shnum d)] @ live w"
proof -
  have size: "EHDR_SIZE \<le> length d" using wf_elfD(2) [OF raw_okD(1) [OF assms(1)]] .
  obtain g1 where init: "bindS (open_in path) (\<lambda>_. elf_init_read) (elf_start w) = Inr ((), g1)" and r1: "running d w (3 + shnum d) [] g1"
    using running_start [OF assms] by blast
  obtain p where f1: "elf_header g1 = Some (p, bslice 0 EHDR_SIZE d)" "dump_header g1" "screen_ok g1"
    using running_loaded [OF r1] by metis
  obtain g2 where hd: "elf_header_dump g1 = Inr ((), g2)"
    and r2: "running d w (3 + shnum d) ([] @ beside 0 (bslice 0 EHDR_SIZE d) (concat (header_texts (file_ehdr d)))) g2"
    using running_prints [OF r1 prints_header [OF f1(3,1) size]] by blast
  obtain q where f2: "elf_header g2 = Some (q, bslice 0 EHDR_SIZE d)" using running_loaded [OF r2] by metis
  have eh: "in_buf ehdr_at (elf_header g2) 0 = Inr (file_ehdr d)"
    using size by (simp add: f2 struct_at_def ehdr_of_bslice elf_sizes file_ehdr_def)
  define buf where "buf r = Some (r :: nat, bslice (phoff d) (PHDR_SIZE * phnum d) d)" for r
  obtain r g3 where rd: "file_read (int (phoff d)) (int (PHDR_SIZE * phnum d)) g2 = Inr (buf r, g3)"
    and r3: "running d w (Suc (3 + shnum d)) ([] @ beside 0 (bslice 0 EHDR_SIZE d) (concat (header_texts (file_ehdr d)))) (g3\<lparr>elf_ph_buf := buf r\<rparr>)"
    using running_reads [OF r2 ph_table_size(1) [OF assms(1)]] unfolding buf_def by blast
  have sc3: "screen_ok (g3\<lparr>elf_ph_buf := buf r\<rparr>)" "dump_pheader (g3\<lparr>elf_ph_buf := buf r\<rparr>)" using running_loaded [OF r3] by metis+
  obtain g4 where pd: "elf_ph_dump2 (elf_header g2) (buf r) (g3\<lparr>elf_ph_buf := buf r\<rparr>) = Inr ((), g4)"
    and r4: "running d w (Suc (3 + shnum d)) (([] @ beside 0 (bslice 0 EHDR_SIZE d) (concat (header_texts (file_ehdr d)))) @
      concat (map (ph_entry d) [0..<phnum d])) g4"
    using running_prints [OF r3] ph2_whole [OF assms(1) sc3(1) eh] unfolding buf_def by blast
  obtain g5 where "liner_loop (nat (section_count g4)) 0 g4 = Inr ((), g5)" "outs (world g5) = outs w"
    "live (world g5) = rev [fresh w..<fresh w + (4 + shnum d)] @ live w" "errs (world g5) = errs w @ raw_listing d"
    using liner_sections [OF assms(1) r4] by (auto simp: raw_listing_def)
  moreover have "elf_liner_dump path (elf_start w) = liner_loop (nat (section_count g4)) 0 g4"
  proof -
    obtain g0 where "open_in path (elf_start w) = Inr ((), g0)" "elf_init_read g0 = Inr ((), g1)"
      using init by (auto simp: bindS_def bindE_eq_Inr)
    then show ?thesis
      unfolding elf_liner_dump_def
      by (simp only: bindS_def when_flag_set [of dump_header, OF f1(2)] when_flag_set [of dump_pheader, OF sc3(2)] hd getsS_def eh
          liftS_simps returnS_apply bindE_simps prod.case ph_table_size [OF assms(1)] rd modifyS_def pd)
  qed
  ultimately show ?thesis by auto
qed

text \<open>
  C5: \<open>elf -r file\<close> returns 0 for a well-formed file of at most 100 sections and writes
  to the error stream, in this order, the file header beside its description, every
  program header beside its type and addresses, and every section but the first beside
  its name, each at its offset in the file. It frees the sections and leaves the other
  buffers allocated.
\<close>

theorem elf_main_raw:
  assumes "raw_ok d" and "files w path = Some d" and "length d \<le> avail w"
  shows "\<exists>g'. elf_main 3 ''r'' path (elf_start w) = Inr (0, g') \<and> errs (world g') = errs w @ raw_listing d \<and>
    outs (world g') = outs w \<and> live (world g') = rev [fresh w..<fresh w + (4 + shnum d)] @ live w"
proof -
  have "(elf_start w)\<lparr>dump_raw := True, dump_header := True, dump_pheader := True\<rparr> = elf_start w"
    by (simp add: elf_start_def)
  then have "elf_liner_dump path (elf_start w) = Inr ((), g') \<Longrightarrow> elf_main 3 ''r'' path (elf_start w) = Inr (0, g')" for g'
    by (simp add: elf_main_def bindS_def modifyS_def returnS_def getsS_def)
  then show ?thesis using liner_dump_runs [OF assms] by blast
qed

subsection \<open>The properties at the sample\<close>

lemma raw_ok_sample: "raw_ok (sample 43)"
  using wf_sample_43 sample_inside [of _ 43]
  by (simp add: raw_ok_def ph_ok_def phoff_def phnum_def sample_ehdr_image sample_hdr length_sample sample_names_eq SCREEN_MAX_def)
    (simp add: sample_defs PHDR_SIZE_def)

definition opened_globals :: elf_globals where
  "opened_globals = (elf_start (opened_os (sample 43)))\<lparr>in_fd := 1\<rparr>"

lemma reading_sample: "reading (sample 43) opened_globals" "length (section_heads opened_globals) = 100"
  by (simp_all add: reading_def opened_globals_def elf_start_def fd_inv_sample)

theorem elf_main_raw_witness:
  "\<exists>g'. elf_main 3 ''r'' ''a.out'' (elf_start (sample_os (sample 43))) = Inr (0, g') \<and>
    errs (world g') = errs (sample_os (sample 43)) @ raw_listing (sample 43) \<and> outs (world g') = outs (sample_os (sample 43)) \<and>
    live (world g') = rev [fresh (sample_os (sample 43))..<fresh (sample_os (sample 43)) + (4 + shnum (sample 43))] @
      live (sample_os (sample 43))"
  by (rule elf_main_raw [OF raw_ok_sample]) (simp_all add: sample_os_def length_sample)

theorem elf_init_read_outcomes_witness:
  "\<exists>g'. elf_init_read opened_globals = Inr ((), g') \<and> dump_loaded (sample 43) g' \<and>
    allocated (3 + shnum (sample 43)) (world opened_globals) (world g')"
  using elf_init_read_outcomes [OF wf_sample_43 reading_sample(1) raw_okD(2) [OF raw_ok_sample] reading_sample(2)]
  by simp

text \<open>The globals that \<open>elf_init_read\<close> gives, written out.\<close>

definition loaded_globals :: elf_globals where
  "loaded_globals = opened_globals\<lparr>elf_header := Some (0, bslice 0 EHDR_SIZE (sample 43)),
     section_offset := int (shoff (sample 43)), section_size := int SHDR_SIZE, section_count := int (shnum (sample 43)),
     elf_shstrtab := Some (1, names (sample 43)),
     section_heads := map (\<lambda>i. Some (i, bslice (shoff (sample 43) + SHDR_SIZE * i) SHDR_SIZE (sample 43))) [0..<100]\<rparr>"

lemma loaded_globals: "dump_loaded (sample 43) loaded_globals" "reading (sample 43) loaded_globals"
  using reading_sample(1) by (auto simp: dump_loaded_def loaded_globals_def reading_def)

theorem elf_section_dump_by_name_outcomes_witness:
  "elf_section_dump_by_name ''.bss'' loaded_globals = Inl OutOfBounds"
proof -
  have "sec_named (sample 43) ''.bss'' = None"
  proof -
    have "''.bss'' \<notin> set (map (sec_name (sample 43)) [0..<7])"
      unfolding sample_sec_names by (simp add: sample_str)
    then have "\<forall>i \<in> set [0..<7]. sec_name (sample 43) i \<noteq> ''.bss''" unfolding set_map by (metis imageI)
    then show ?thesis by (simp add: sec_named_def find_None_iff)
  qed
  then show ?thesis
    using elf_section_dump_by_name_outcomes [OF wf_sample_43 loaded_globals(1) raw_okD(4) [OF raw_ok_sample] loaded_globals(2), of "''.bss''"]
    by simp
qed

end
