(* ===== verification/ElfDumpSym.thy ===== *)
theory ElfDumpSym
  imports ElfDumpMain
begin

text \<open>
  The symbol table dump of \<open>elf.c\<close>: what it prints for each symbol, and the file offsets
  that it prints the raw symbols at.
\<close>

lemma bd_loop_extra:
  "lim \<le> gap + length bs \<Longrightarrow> gap \<le> j \<Longrightarrow> bd_loop (bs @ e) gap lim offset j = bd_loop bs gap lim offset j"
proof (induction bs gap lim offset j rule: bd_loop.induct)
  case (1 bs gap lim offset j)
  then show ?case
    apply (subst (1 2) bd_loop.simps)
    by (auto simp: buf_at_def nth_append)
qed

lemma dump_prefix_parses:
  assumes "0 < length bs" and "unat off mod 16 + length bs \<le> INT_MAX" and "unat off + length bs < 2 ^ 32"
  shows "\<exists>t. binary_dump off (word_of_nat (length bs)) (Some (bs @ e)) = Inr t \<and>
    parse_dump t = zip [unat off ..< unat off + length bs] bs"
proof -
  have sz: "unat (word_of_nat (length bs) :: u32) = length bs" using assms(3) by (simp add: unat_of_nat)
  then have "dump_lim off (word_of_nat (length bs)) = dump_gap off + length bs"
    using assms(2) by (simp add: dump_lim_eq dump_gap_def unat_mod INT_MAX_def)
  then have "bd_loop (bs @ e) (dump_gap off) (dump_lim off (word_of_nat (length bs))) (dump_base off) (dump_gap off) =
      bd_loop bs (dump_gap off) (dump_lim off (word_of_nat (length bs))) (dump_base off) (dump_gap off)"
    by (intro bd_loop_extra) simp_all
  then have "binary_dump off (word_of_nat (length bs)) (Some (bs @ e)) = binary_dump off (word_of_nat (length bs)) (Some bs)"
    by (simp add: binary_dump_def Let_def)
  then show ?thesis using binary_dump_parses [OF assms] by simp
qed

text \<open>The lines printed for a symbol before its raw data.\<close>

definition sym_text :: "elfsym \<Rightarrow> string \<Rightarrow> string" where
  "sym_text s name =
     ''name  '' @ hexn (unat (st_name s)) @ '' ('' @ name @ '')\<newline>value '' @ hexn (unat (st_value s)) @
     '' size '' @ hexn (unat (st_size s)) @ '' shndx '' @ hexn (unat (st_shndx s)) @
     ''\<newline>offset(value) into section(shndx) with length(size)\<newline>info  '' @ decn (unat (st_info s)) @
     '' (Type and Bind)\<newline>other '' @ decn (unat (st_other s)) @ '' (Visiable)\<newline>The Raw Data:\<newline>\<newline>''"

lemma eprint_adds: "vsprintf fmt args = Inr t \<Longrightarrow> eprint fmt args g = Inr ((), add_err t g)"
  by (simp add: eprint_def on_os_def eprintf_text add_err_def)

lemma fmt_byte_d: "sint (ucast (b :: byte) :: u32) = int (unat b)"
proof -
  have "unat (ucast b :: u32) = unat b"
    using unsigned_less [of b, where ?'a = nat] by (simp add: unsigned_ucast_eq take_bit_nat_eq_self)
  moreover have "unat b < 2147483648" by (rule less_trans [OF unat_byte_bound]) simp
  ultimately show ?thesis using sint_small [of "ucast b"] by metis
qed

lemma sym_formats:
  "vsprintf ''name  %x (%s)\<newline>'' [AInt w, AStr t] = Inr (''name  '' @ hexn (unat w) @ '' ('' @ t @ '')\<newline>'')"
  "vsprintf ''value %x size %x shndx %x\<newline>'' [AInt w, AInt w', AInt (ucast (v :: u16))] =
    Inr (''value '' @ hexn (unat w) @ '' size '' @ hexn (unat w') @ '' shndx '' @ hexn (unat v) @ ''\<newline>'')"
  "vsprintf ''offset(value) into section(shndx) with length(size)\<newline>'' [] = Inr ''offset(value) into section(shndx) with length(size)\<newline>''"
  "vsprintf ''info  %d (Type and Bind)\<newline>'' [AInt (ucast (b :: byte))] = Inr (''info  '' @ decn (unat b) @ '' (Type and Bind)\<newline>'')"
  "vsprintf ''other %d (Visiable)\<newline>'' [AInt (ucast (b :: byte))] = Inr (''other '' @ decn (unat b) @ '' (Visiable)\<newline>'')"
  "vsprintf ''The Raw Data:\<newline>\<newline>'' [] = Inr ''The Raw Data:\<newline>\<newline>''"
  "vsprintf ''\<newline>'' [] = Inr ''\<newline>''"
  by (simp_all add: fmt_plain, simp_all add: fmt_eval pad_left_def unat_u16_u32 fmt_byte_d deci_def)

text \<open>
  The offset printed for symbol i of a table at offset base: the loop adds i entries to the
  offset that it has already moved.
\<close>

definition printed_offset :: "nat \<Rightarrow> nat \<Rightarrow> nat" where
  "printed_offset base i = base + 8 * (i * (i + 1))"

lemma printed_offset_step: "printed_offset base i + 16 * (i + 1) = printed_offset base (i + 1)"
  by (simp add: printed_offset_def algebra_simps)

definition names_in :: "byte list \<Rightarrow> byte list \<Rightarrow> nat \<Rightarrow> bool" where
  "names_in symb strb n =
     (is_strtab strb \<and> length strb < 2147483648 \<and>
      (\<forall>i < n. unat (st_name (sym_of symb (SYM_SIZE * i))) < length strb))"

definition sym_block :: "byte list \<Rightarrow> byte list \<Rightarrow> nat \<Rightarrow> string \<Rightarrow> string" where
  "sym_block symb strb i t =
     sym_text (sym_of symb (SYM_SIZE * i)) (str_of strb (unat (st_name (sym_of symb (SYM_SIZE * i))))) @ t @ ''\<newline>''"

lemma symtab_step:
  assumes "length symb = SYM_SIZE * n" and "names_in symb strb n" and "i < n"
    and "printed_offset base i + 16 < 2147483648" and "off + 16 * i = printed_offset base i"
  shows "\<exists>t. symtab_loop (Suc k) (int SYM_SIZE) (Some (p, symb)) (Some (q, strb)) (int off) (int i) g =
      symtab_loop k (int SYM_SIZE) (Some (p, symb)) (Some (q, strb)) (int (printed_offset base i)) (int (i + 1))
        (add_err (sym_block symb strb i t) g) \<and>
    parse_dump t = zip [printed_offset base i ..< printed_offset base i + 16] (bslice (16 * i) 16 symb)"
proof -
  let ?o = "printed_offset base i" and ?s = "sym_of symb (SYM_SIZE * i)"
  have fit: "SYM_SIZE * i + SYM_SIZE \<le> length symb"
  proof -
    have "SYM_SIZE * Suc i \<le> SYM_SIZE * n" using assms(3) by (intro mult_le_mono2) simp
    then show ?thesis using assms(1) by simp
  qed
  have nat: "nat (int i * int SYM_SIZE) = SYM_SIZE * i" by (simp add: nat_mult_distrib mult.commute)
  have sum: "int off + int i * int SYM_SIZE = int ?o" using assms(5) by (simp add: SYM_SIZE_def)
  have "INT_OK (int i * int SYM_SIZE)" "INT_OK (int ?o)"
    using assms(4,5) by (simp_all add: INT_OK_def SYM_SIZE_def)
  then have int: "bindE (int_res (int i * int SYM_SIZE)) (\<lambda>x. int_res (int off + x)) = Inr (int ?o)"
    by (simp add: int_res_ok sum)
  have sym: "in_buf sym_at (Some (p, symb)) (SYM_SIZE * i) = Inr ?s"
    using fit by (simp add: struct_at_def)
  have nm: "unat (st_name ?s) < length strb" using assms(2,3) by (simp add: names_in_def)
  then have "i32 (st_name ?s) = int (unat (st_name ?s))"
    using assms(2) by (intro i32_small) (simp add: names_in_def)
  then have name: "elf_sym_name_c (Some (q, strb)) (st_name ?s) = Inr (str_of strb (unat (st_name ?s)))"
    using cstr_at_strtab nm assms(2) by (simp add: elf_sym_name_c_def str_at_def names_in_def del: of_nat_unat)
  have o: "unat (word_of_nat ?o :: u32) = ?o" using assms(4) by (simp add: unat_of_nat)
  let ?bs = "bslice (16 * i) 16 symb"
  have len: "length ?bs = 16" using fit by (simp add: SYM_SIZE_def)
  have "drop (SYM_SIZE * i) symb = ?bs @ drop 16 (drop (16 * i) symb)"
    unfolding bslice_def SYM_SIZE_def by (rule append_take_drop_id [symmetric])
  moreover obtain t where t: "binary_dump (word_of_nat ?o) (word_of_nat (length ?bs)) (Some (?bs @ drop 16 (drop (16 * i) symb))) = Inr t"
    "parse_dump t = zip [?o ..< ?o + 16] ?bs"
    using dump_prefix_parses [of ?bs "word_of_nat ?o" "drop 16 (drop (16 * i) symb)"] o len assms(4) mod_less_divisor [of 16 ?o]
    by (auto simp: INT_MAX_def simp del: mod_less_divisor)
  ultimately have dump: "dump_plain (u32_arg (int ?o)) (u32_arg (int SYM_SIZE)) (ptr_bytes (Some (p, symb)) (SYM_SIZE * i)) g' =
      Inr ((), add_err t g')" for g'
    using len by (simp add: dump_plain_def ptr_bytes_def u32_arg_def SYM_SIZE_def on_os_def put_err_def add_err_def)
  note say = eprint_adds [OF sym_formats(1)] eprint_adds [OF sym_formats(2)] eprint_adds [OF sym_formats(3)]
    eprint_adds [OF sym_formats(4)] eprint_adds [OF sym_formats(5)] eprint_adds [OF sym_formats(6)] eprint_adds [OF sym_formats(7)]
  have "symtab_loop (Suc k) (int SYM_SIZE) (Some (p, symb)) (Some (q, strb)) (int off) (int i) g =
      symtab_loop k (int SYM_SIZE) (Some (p, symb)) (Some (q, strb)) (int ?o) (int (i + 1)) (add_err (sym_block symb strb i t) g)"
    unfolding symtab_loop.simps nat int sym name liftS_simps bindS_returnS
    by (simp only: bindS_def say dump bindE_simps prod.case add_err_simps) (simp only: sym_block_def sym_text_def append_assoc append.simps of_nat_add of_nat_1)
  then show ?thesis using t(2) by blast
qed

lemma symtab_loop_prints:
  assumes "length symb = SYM_SIZE * n" and "names_in symb strb n" and "printed_offset base n < 2147483648"
    and "i + k = n" and "off + 16 * i = printed_offset base i"
  shows "\<exists>ts. length ts = k \<and>
    symtab_loop k (int SYM_SIZE) (Some (p, symb)) (Some (q, strb)) (int off) (int i) g =
      Inr ((), add_err (concat (map2 (sym_block symb strb) [i..<n] ts)) g) \<and>
    (\<forall>j < k. parse_dump (ts ! j) =
      zip [printed_offset base (i + j) ..< printed_offset base (i + j) + 16] (bslice (16 * (i + j)) 16 symb))"
  using assms(4,5)
proof (induction k arbitrary: i off g)
  case 0
  then show ?case by (simp add: returnS_def)
next
  case (Suc k)
  have i: "i < n" using Suc.prems(1) by simp
  have "(i + 1) * (i + 2) \<le> n * (n + 1)" using i by (intro mult_le_mono) simp_all
  then have "printed_offset base (i + 1) \<le> printed_offset base n" by (simp add: printed_offset_def)
  then have lt: "printed_offset base i + 16 < 2147483648"
  proof -
    have "printed_offset base i + 16 \<le> printed_offset base (i + 1)"
      unfolding printed_offset_step [of base i, symmetric] by simp
    then show ?thesis using \<open>printed_offset base (i + 1) \<le> printed_offset base n\<close> assms(3)
      by (meson le_trans le_less_trans)
  qed
  obtain t where t: "symtab_loop (Suc k) (int SYM_SIZE) (Some (p, symb)) (Some (q, strb)) (int off) (int i) g =
      symtab_loop k (int SYM_SIZE) (Some (p, symb)) (Some (q, strb)) (int (printed_offset base i)) (int (i + 1))
        (add_err (sym_block symb strb i t) g)"
    "parse_dump t = zip [printed_offset base i ..< printed_offset base i + 16] (bslice (16 * i) 16 symb)"
    using symtab_step [OF assms(1,2) i lt Suc.prems(2)] by blast
  have n: "i + 1 + k = n" using Suc.prems(1) by simp
  obtain ts where ts: "length ts = k"
    "symtab_loop k (int SYM_SIZE) (Some (p, symb)) (Some (q, strb)) (int (printed_offset base i)) (int (i + 1))
        (add_err (sym_block symb strb i t) g) =
      Inr ((), add_err (concat (map2 (sym_block symb strb) [i + 1..<n] ts)) (add_err (sym_block symb strb i t) g))"
    "\<forall>j < k. parse_dump (ts ! j) =
      zip [printed_offset base (i + 1 + j) ..< printed_offset base (i + 1 + j) + 16] (bslice (16 * (i + 1 + j)) 16 symb)"
    using Suc.IH [OF n printed_offset_step] by blast
  have up: "[i..<n] = i # [i + 1..<n]" using i by (simp add: upt_conv_Cons)
  have "parse_dump ((t # ts) ! j) =
      zip [printed_offset base (i + j) ..< printed_offset base (i + j) + 16] (bslice (16 * (i + j)) 16 symb)"
    if "j < Suc k" for j
    using that t(2) ts(3) by (cases j) simp_all
  then show ?case using t(1) ts(1,2) unfolding up
    by (intro exI [of _ "t # ts"]) simp
qed

text \<open>
  \<open>elf_dump_symtab\<close> prints every symbol with the fields and the name that the file
  gives it, but prints its raw bytes at the offset \<open>base + 8 * i * (i + 1)\<close> instead of
  \<open>base + 16 * i\<close>: from the third symbol on the offsets beside the bytes are not those
  of the bytes in the file.
\<close>

theorem elf_dump_symtab_offsets:
  assumes "in_buf shdr_at header 0 = Inr h" and "unat (sh_entsize h) = SYM_SIZE" and "unat (sh_size h) = SYM_SIZE * n"
    and "length symb = SYM_SIZE * n" and "names_in symb strb n" and "printed_offset (unat (sh_offset h)) n < 2147483648"
  shows "\<exists>ts first. length ts = n \<and>
    elf_dump_symtab header (Some (p, symb)) (Some (q, strb)) g =
      Inr ((), add_err (first @ concat (map2 (sym_block symb strb) [0..<n] ts)) g) \<and>
    (\<forall>i < n. parse_dump (ts ! i) =
      zip [unat (sh_offset h) + 8 * (i * (i + 1)) ..< unat (sh_offset h) + 8 * (i * (i + 1)) + 16] (bslice (16 * i) 16 symb))"
proof -
  have "8 * (n * (n + 1)) < 2147483648" using assms(6) unfolding printed_offset_def by linarith
  moreover have "2 * n \<le> n * (n + 1)" by (cases n) simp_all
  ultimately have n: "SYM_SIZE * n < 2147483648" unfolding SYM_SIZE_def by linarith
  have ints: "i32 (sh_entsize h) = int SYM_SIZE" "i32 (sh_size h) = int (SYM_SIZE * n)" "i32 (sh_offset h) = int (unat (sh_offset h))"
    using assms(2,3,6) n i32_eq [of SYM_SIZE] i32_eq [of "SYM_SIZE * n"] i32_small [of "sh_offset h"]
    by (simp_all add: SYM_SIZE_def printed_offset_def del: of_nat_unat)
  have div: "int_div (int (SYM_SIZE * n)) (int SYM_SIZE) = Inr (int n)"
    using int_div_entries [of SYM_SIZE "SYM_SIZE * n"] n by (simp add: SYM_SIZE_def)
  have md: "int (SYM_SIZE * n) smod int SYM_SIZE = 0" by (simp add: signed_modulo_int_def SYM_SIZE_def sgn_if signed_divide_int_def)
  obtain t1 where t1: "vsprintf ''Symbol size : %d\<newline>'' [AInt (u32_arg (int SYM_SIZE))] = Inr t1"
    by (simp add: fmt_eval)
  obtain t2 where t2: "vsprintf ''Symbol num  : %d\<newline>'' [AInt (u32_arg (int n))] = Inr t2"
    by (simp add: fmt_eval)
  obtain ts where ts: "length ts = n"
    "symtab_loop n (int SYM_SIZE) (Some (p, symb)) (Some (q, strb)) (int (unat (sh_offset h))) 0 (add_err (t1 @ t2) g) =
      Inr ((), add_err (concat (map2 (sym_block symb strb) [0..<n] ts)) (add_err (t1 @ t2) g))"
    "\<forall>j < n. parse_dump (ts ! j) = zip [printed_offset (unat (sh_offset h)) j ..< printed_offset (unat (sh_offset h)) j + 16] (bslice (16 * j) 16 symb)"
    using symtab_loop_prints [OF assms(4-6), of 0 n "unat (sh_offset h)" p q "add_err (t1 @ t2) g"]
    by (auto simp: printed_offset_def)
  have "elf_dump_symtab header (Some (p, symb)) (Some (q, strb)) g =
      Inr ((), add_err ((t1 @ t2) @ concat (map2 (sym_block symb strb) [0..<n] ts)) g)"
    unfolding elf_dump_symtab_def assms(1) liftS_simps bindS_returnS Let_def ints div md
    using ts(2) by (simp add: bindS_def eprint_adds [OF t1] eprint_adds [OF t2])
  then show ?thesis using ts(1,3) unfolding printed_offset_def by blast
qed

definition three_syms :: "byte list" where
  "three_syms = enc_sym sample_sym @ enc_sym sample_sym @ enc_sym sample_sym"

lemma three_syms: "length three_syms = SYM_SIZE * 3" "names_in three_syms sample_strtab 3"
proof -
  show "length three_syms = SYM_SIZE * 3" by (simp add: three_syms_def SYM_SIZE_def)
  have syms: "sym_of three_syms 0 = sample_sym" "sym_of three_syms 16 = sample_sym" "sym_of three_syms 32 = sample_sym"
    using sym_of_enc [of 0 "[]" sample_sym "enc_sym sample_sym @ enc_sym sample_sym"]
      sym_of_enc [of 16 "enc_sym sample_sym" sample_sym "enc_sym sample_sym"]
      sym_of_enc [of 32 "enc_sym sample_sym @ enc_sym sample_sym" sample_sym "[]"]
    by (simp_all add: three_syms_def)
  have "unat (st_name (sym_of three_syms (SYM_SIZE * i))) < 3" if "i < 3" for i
  proof -
    have "i = 0 \<or> i = 1 \<or> i = 2" using that by linarith
    then show ?thesis by (elim disjE; simp add: SYM_SIZE_def syms; simp add: sample_sym_def)
  qed
  moreover have "is_strtab sample_strtab" by (simp add: is_strtab_def sample_strtab_def)
  ultimately show "names_in three_syms sample_strtab 3" by (simp add: names_in_def)
qed

theorem elf_dump_symtab_offsets_witness:
  "\<exists>ts first. length ts = 3 \<and>
    elf_dump_symtab (Some (0, enc_shdr (sample_shdr 19 2 64 48 16))) (Some (1, three_syms)) (Some (2, sample_strtab)) loaded_globals =
      Inr ((), add_err (first @ concat (map2 (sym_block three_syms sample_strtab) [0..<3] ts)) loaded_globals) \<and>
    (\<forall>i < 3. parse_dump (ts ! i) = zip [64 + 8 * (i * (i + 1)) ..< 64 + 8 * (i * (i + 1)) + 16] (bslice (16 * i) 16 three_syms))"
proof -
  have h: "in_buf shdr_at (Some (0, enc_shdr (sample_shdr 19 2 64 48 16))) 0 = Inr (sample_shdr 19 2 64 48 16)"
    using shdr_of_enc [of 0 "[]" "sample_shdr 19 2 64 48 16" "[]"] by (simp add: struct_at_def SHDR_SIZE_def)
  have e: "unat (sh_entsize (sample_shdr 19 2 64 48 16)) = SYM_SIZE" "unat (sh_size (sample_shdr 19 2 64 48 16)) = SYM_SIZE * 3"
    and o: "unat (sh_offset (sample_shdr 19 2 64 48 16)) = 64" and p: "printed_offset 64 3 < 2147483648"
    by (simp_all add: sample_shdr_def SYM_SIZE_def printed_offset_def)
  show ?thesis by (rule elf_dump_symtab_offsets [OF h e three_syms, unfolded o, OF p])
qed

end
