(* ===== verification/CLib.thy ===== *)
theory CLib
  imports Posix
begin

text \<open>
  The conversions of the C library that the command line tools use: \<open>strtoul\<close> with base 0
  and \<open>atoi\<close>, with their behaviour on signs, prefixes and overflow.
\<close>

definition is_blank :: "char \<Rightarrow> bool" where
  "is_blank c = (c = CHR '' '' \<or> c \<in> {CHR 0x09, CHR 0x0A, CHR 0x0B, CHR 0x0C, CHR 0x0D})"

definition digit_value :: "char \<Rightarrow> nat option" where
  "digit_value c = (let n = of_char c :: nat in
     if 48 \<le> n \<and> n < 58 then Some (n - 48)
     else if 97 \<le> n \<and> n < 123 then Some (n - 87)
     else if 65 \<le> n \<and> n < 91 then Some (n - 55) else None)"

fun number :: "nat \<Rightarrow> nat \<Rightarrow> string \<Rightarrow> nat" where
  "number base v [] = v"
| "number base v (c # cs) =
     (case digit_value c of
        Some k \<Rightarrow> if k < base then number base (base * v + k) cs else v
      | None \<Rightarrow> v)"

text \<open>A sign and what follows it.\<close>

definition signed_part :: "string \<Rightarrow> bool \<times> string" where
  "signed_part s =
     (case dropWhile is_blank s of
        [] \<Rightarrow> (False, [])
      | c # cs \<Rightarrow> if c = CHR ''-'' then (True, cs) else if c = CHR ''+'' then (False, cs) else (False, c # cs))"

text \<open>The prefix \<open>0x\<close> counts only before a hexadecimal digit; otherwise the \<open>0\<close> is the number.\<close>

definition is_hex :: "char \<Rightarrow> bool" where
  "is_hex c = (case digit_value c of Some k \<Rightarrow> k < 16 | None \<Rightarrow> False)"

definition based_number :: "string \<Rightarrow> nat" where
  "based_number s =
     (if take 1 s = ''0'' then
        (if (take 1 (drop 1 s) = ''x'' \<or> take 1 (drop 1 s) = ''X'') \<and> (case drop 2 s of [] \<Rightarrow> False | c # _ \<Rightarrow> is_hex c)
         then number 16 0 (drop 2 s) else number 8 0 s)
      else number 10 0 s)"

definition strtoul :: "string \<Rightarrow> u64" where
  "strtoul s =
     (let (neg, t) = signed_part s; n = based_number t in
      if 18446744073709551615 < n then - 1
      else if neg then - word_of_nat n else word_of_nat n)"

text \<open>\<open>atoi\<close> is \<open>strtol\<close> with base 10, clamped to \<open>long\<close>, then cut to \<open>int\<close>.\<close>

definition atoi :: "string \<Rightarrow> int" where
  "atoi s =
     (let (neg, t) = signed_part s; n = int (number 10 0 t);
          l = (if neg then max (- 9223372036854775808) (- n) else min 9223372036854775807 n)
      in sint (word_of_int l :: u32))"

text \<open>Printed decimal numbers are read back.\<close>

lemma digit_value_hexd: "k < 10 \<Longrightarrow> digit_value (hexd k) = Some k"
  by (simp add: digit_value_def hexd_def Let_def)

lemma number_append_digits:
  "(\<And>c. c \<in> set s \<Longrightarrow> \<exists>k < base. digit_value c = Some k) \<Longrightarrow> number base v (s @ t) = number base (number base v s) t"
proof (induction s arbitrary: v)
  case (Cons c s)
  then obtain k where "k < base" "digit_value c = Some k" by (meson list.set_intros(1))
  then show ?case using Cons by simp
qed simp

lemma decn_chars: "c \<in> set (decn n) \<Longrightarrow> \<exists>k < 10. c = hexd k"
proof (induction n rule: less_induct)
  case (less n)
  show ?case
  proof (cases "n < 10")
    case True
    then show ?thesis using less.prems by (subst (asm) digits.simps) auto
  next
    case False
    then have "decn n = decn (n div 10) @ [hexd (n mod 10)]" by (subst digits.simps) simp
    then have "c \<in> set (decn (n div 10)) \<or> c = hexd (n mod 10)" using less.prems by auto
    moreover have "n mod 10 < 10" by simp
    moreover have "n div 10 < n" using False by simp
    ultimately show ?thesis using less.IH [of "n div 10"] by blast
  qed
qed

lemma number_decn: "number 10 0 (decn n) = n"
proof (induction n rule: less_induct)
  case (less n)
  show ?case
  proof (cases "n < 10")
    case True
    then show ?thesis by (subst digits.simps) (simp add: digit_value_hexd)
  next
    case False
    have "\<exists>k < 10. digit_value c = Some k" if "c \<in> set (decn (n div 10))" for c
      using decn_chars [OF that] digit_value_hexd by auto
    then have "number 10 0 (decn (n div 10) @ [hexd (n mod 10)]) = number 10 (number 10 0 (decn (n div 10))) [hexd (n mod 10)]"
      by (rule number_append_digits)
    then show ?thesis using False less.IH [of "n div 10"]
      by (subst digits.simps) (simp add: digit_value_hexd)
  qed
qed

lemma hexd_not_special: "k < 10 \<Longrightarrow> \<not> is_blank (hexd k) \<and> hexd k \<noteq> CHR ''-'' \<and> hexd k \<noteq> CHR ''+''"
proof -
  assume "k < 10"
  then have "k = 0 \<or> k = 1 \<or> k = 2 \<or> k = 3 \<or> k = 4 \<or> k = 5 \<or> k = 6 \<or> k = 7 \<or> k = 8 \<or> k = 9" by presburger
  then show ?thesis by (elim disjE; hypsubst; code_simp)
qed

lemma signed_part_decn: "signed_part (decn n) = (False, decn n)"
proof -
  obtain c cs where c: "decn n = c # cs" by (cases "decn n") auto
  then obtain k where "k < 10" "c = hexd k" using decn_chars [of c n] by auto
  then show ?thesis using hexd_not_special [of k] c by (simp add: signed_part_def)
qed

lemma atoi_decn: "n < 2147483648 \<Longrightarrow> atoi (decn n) = int n"
proof -
  assume n: "n < 2147483648"
  have "atoi (decn n) = sint (word_of_nat n :: u32)"
    using n by (simp add: atoi_def signed_part_decn number_decn)
  also have "\<dots> = int n" using n sint_small [of "word_of_nat n"] by (simp add: unat_of_nat)
  finally show ?thesis .
qed

end
