(* ===== verification/IoTools.thy ===== *)
theory IoTools
  imports CLib ElfReader
begin

text \<open>
  The file tools of \<open>perftools/io\<close>: \<open>preadb\<close>, \<open>preadl\<close>, \<open>pwriteb\<close>,
  \<open>pwritel\<close>, \<open>read8\<close>, \<open>read32\<close>, \<open>write32\<close> and the record printer
  \<open>t.c\<close>. Each program is a function of its arguments \<open>argv\<close>; its
  result is the exit status. A file can be opened when it exists, so the only reason that
  the message of a failed \<open>open\<close> names is that there is no such file.
\<close>

subsection \<open>pread and pwrite\<close>

definition close_ignoring :: "int \<Rightarrow> unit sm" where
  "close_ignoring fd = bindS (sys_close fd) (\<lambda>_. returnS ())"

text \<open>A decoded argument that is stored in an \<open>int\<close>.\<close>

definition int_arg :: "string \<Rightarrow> u32" where "int_arg s = ucast (strtoul s)"

text \<open>The two readers differ in \<open>IOLEN\<close> and in how they report a failed \<open>open\<close>.\<close>

definition pread_result :: "nat \<Rightarrow> u32 \<Rightarrow> int \<Rightarrow> int sm" where
  "pread_result iolen offset fd =
     bindS (sys_pread fd iolen (sint offset)) (\<lambda>r.
     case r of
       Some bs \<Rightarrow>
         if length bs \<noteq> iolen then
           bindS (printf ''read fialed\<newline>'' []) (\<lambda>_. bindS (close_ignoring fd) (\<lambda>_. returnS (- 1)))
         else
           bindS (printf ''offset 0x%x: 0x%x\<newline>'' [AInt offset, AInt (word_of_nat (le_val bs))]) (\<lambda>_.
           bindS (close_ignoring fd) (\<lambda>_. returnS 0))
     | None \<Rightarrow> bindS (printf ''read fialed\<newline>'' []) (\<lambda>_. bindS (close_ignoring fd) (\<lambda>_. returnS (- 1))))"

definition preadb_main :: "string list \<Rightarrow> int sm" where
  "preadb_main argv =
     (if length argv \<noteq> 3 then bindS (printf ''%s filename offset\<newline>'' []) (\<lambda>_. returnS (- 1))
      else
        let offset = int_arg (argv ! 2) in
        bindS (sys_open (argv ! 1)) (\<lambda>fd.
        if fd = - 1 then bindS (put_err ''open error\<newline>: No such file or directory\<newline>'') (\<lambda>_. returnS (- 1))
        else pread_result 1 offset fd))"

definition preadl_main :: "string list \<Rightarrow> int sm" where
  "preadl_main argv =
     (if length argv \<noteq> 3 then bindS (printf ''%s filename offset\<newline>'' []) (\<lambda>_. returnS (- 1))
      else
        let offset = int_arg (argv ! 2) in
        bindS (sys_open (argv ! 1)) (\<lambda>fd.
        if fd = - 1 then bindS (printf ''open error\<newline>'' []) (\<lambda>_. returnS (- 1))
        else pread_result 4 offset fd))"

definition pwrite_result :: "byte list \<Rightarrow> int \<Rightarrow> int \<Rightarrow> int sm" where
  "pwrite_result bs offset fd =
     bindS (sys_pwrite fd bs offset) (\<lambda>ret.
     if ret \<noteq> int (length bs) then
       bindS (printf ''write fialed\<newline>'' []) (\<lambda>_. bindS (close_ignoring fd) (\<lambda>_. returnS (- 1)))
     else bindS (close_ignoring fd) (\<lambda>_. returnS 0))"

text \<open>The offset of \<open>pwriteb\<close> is an \<open>unsigned long\<close>, that of \<open>pwritel\<close> an \<open>int\<close>.\<close>

definition pwriteb_main :: "string list \<Rightarrow> int sm" where
  "pwriteb_main argv =
     (if length argv \<noteq> 4 then bindS (printf ''%s filename offset char\<newline>'' []) (\<lambda>_. returnS (- 1))
      else
        let offset = strtoul (argv ! 2); ch = ucast (strtoul (argv ! 3)) :: byte in
        bindS (sys_open (argv ! 1)) (\<lambda>fd.
        if fd = - 1 then bindS (printf ''open error\<newline>'' []) (\<lambda>_. returnS (- 1))
        else pwrite_result [ch] (sint offset) fd))"

definition pwritel_main :: "string list \<Rightarrow> int sm" where
  "pwritel_main argv =
     (if length argv \<noteq> 4 then bindS (printf ''%s filename offset char\<newline>'' []) (\<lambda>_. returnS (- 1))
      else
        let offset = int_arg (argv ! 2); ch = int_arg (argv ! 3) in
        bindS (sys_open (argv ! 1)) (\<lambda>fd.
        if fd = - 1 then bindS (printf ''open error\<newline>'' []) (\<lambda>_. returnS (- 1))
        else pwrite_result (le_bytes 4 (unat ch)) (sint offset) fd))"

subsection \<open>lseek, read and write\<close>

definition usage_read :: "unit sm" where
  "usage_read = bindS (printf ''read a char from offset in file\<newline>'' []) (\<lambda>_.
     put_out ([CHR 0x09] @ ''command file offset\<newline>''))"

definition usage_write :: "unit sm" where
  "usage_write = bindS (printf ''write int to offset in file\<newline>'' []) (\<lambda>_.
     put_out ([CHR 0x09] @ ''command file offset value\<newline>''))"

text \<open>An \<open>int\<close> assigned to an \<open>unsigned long\<close>.\<close>

definition ulong_of :: "int \<Rightarrow> u64" where "ulong_of n = word_of_int n"

definition read32_main :: "string list \<Rightarrow> int sm" where
  "read32_main argv =
     (if length argv \<noteq> 3 then bindS usage_read (\<lambda>_. returnS (- 1))
      else
        bindS (sys_open (argv ! 1)) (\<lambda>fd.
        if fd = - 1 then bindS (printf ''open error\<newline>'' []) (\<lambda>_. returnS (- 1))
        else
          let offset_in_file = ulong_of (atoi (argv ! 2)) in
          bindS (sys_lseek fd (sint offset_in_file)) (\<lambda>ret.
          if ret = - 1 then bindS (printf ''lseek error\<newline>'' []) (\<lambda>_. returnS (- 1))
          else
            bindS (sys_read fd 4) (\<lambda>r.
            case r of
              Some bs \<Rightarrow>
                if length bs < 4 then bindS (printf ''read error'' []) (\<lambda>_. returnS (- 1))
                else
                  bindS (printf ''read int from offset 0x%lx -> '' [ALong offset_in_file]) (\<lambda>_.
                  bindS (printf ''0x%08x\<newline>'' [AInt (word_of_nat (le_val bs))]) (\<lambda>_.
                  bindS (close_ignoring fd) (\<lambda>_. returnS 0)))
            | None \<Rightarrow> bindS (printf ''read error'' []) (\<lambda>_. returnS (- 1))))))"

text \<open>\<open>char ch\<close> is signed and promoted to \<open>int\<close>; at the end of the file it is never written.\<close>

definition read8_main :: "string list \<Rightarrow> int sm" where
  "read8_main argv =
     (if length argv \<noteq> 3 then bindS usage_read (\<lambda>_. returnS (- 1))
      else
        bindS (sys_open (argv ! 1)) (\<lambda>fd.
        if fd = - 1 then bindS (printf ''open error\<newline>'' []) (\<lambda>_. returnS (- 1))
        else
          let offset_in_file = ulong_of (atoi (argv ! 2)) in
          bindS (sys_lseek fd (sint offset_in_file)) (\<lambda>ret.
          if ret = - 1 then bindS (printf ''lseek error\<newline>'' []) (\<lambda>_. returnS (- 1))
          else
            bindS (sys_read fd 1) (\<lambda>r.
            case r of
              None \<Rightarrow> bindS (printf ''read error'' []) (\<lambda>_. returnS (- 1))
            | Some bs \<Rightarrow>
                bindS (liftS (load (case bs of [] \<Rightarrow> Undef | b # _ \<Rightarrow> Def (scast b :: u32)))) (\<lambda>ch.
                bindS (printf ''%02x\<newline>'' [AInt ch]) (\<lambda>_.
                bindS (printf ''%c\<newline>'' [AInt ch]) (\<lambda>_.
                bindS (close_ignoring fd) (\<lambda>_. returnS 0))))))))"

definition write32_main :: "string list \<Rightarrow> int sm" where
  "write32_main argv =
     (if length argv \<noteq> 4 then bindS usage_write (\<lambda>_. returnS (- 1))
      else
        bindS (sys_open (argv ! 1)) (\<lambda>fd.
        if fd = - 1 then bindS (printf ''open error\<newline>'' []) (\<lambda>_. returnS (- 1))
        else
          let offset_in_file = ulong_of (atoi (argv ! 2)) in
          bindS (sys_lseek fd (sint offset_in_file)) (\<lambda>ret.
          if ret = - 1 then bindS (printf ''lseek error\<newline>'' []) (\<lambda>_. returnS (- 1))
          else
            let value_to_write = ulong_of (atoi (argv ! 3)) in
            bindS (sys_write fd (take 4 (le_bytes 8 (unat value_to_write)))) (\<lambda>ret.
            if ret < 4 then bindS (printf ''write error'' []) (\<lambda>_. returnS (- 1))
            else
              bindS (printf ''write int 0x%08x to offset 0x%lx\<newline>'' [ALong value_to_write, ALong offset_in_file]) (\<lambda>_.
              bindS (close_ignoring fd) (\<lambda>_. returnS 0))))))"

subsection \<open>Records of \<open>t.c\<close>\<close>

primrec hex_down :: "byte list \<Rightarrow> nat \<Rightarrow> string res" where
  "hex_down buf 0 = Inr []"
| "hex_down buf (Suc k) =
     bindE (buf_at buf (8 + k)) (\<lambda>b.
     bindE (vsprintf ''%02x'' [AInt (ucast b)]) (\<lambda>s. bindE (hex_down buf k) (\<lambda>t. Inr (s @ t))))"

text \<open>One record: the time, byte by byte from the last, then the two identifiers.\<close>

definition record_line :: "byte list \<Rightarrow> string res" where
  "record_line buf =
     bindE (hex_down buf 8) (\<lambda>s.
     bindE (get32 buf 16) (\<lambda>pid.
     bindE (get32 buf 20) (\<lambda>tid.
     bindE (vsprintf '' '' []) (\<lambda>s1.
     bindE (vsprintf ''pid=%d '' [AInt pid]) (\<lambda>s2.
     bindE (vsprintf ''tid=%d'' [AInt tid]) (\<lambda>s3.
     bindE (vsprintf ''\<newline>'' []) (\<lambda>s4. Inr (s @ s1 @ s2 @ s3 @ s4))))))))"

text \<open>
  The loop \<open>while(!done)\<close> with a bound on its rounds: a run that needs more of them is the
  fault \<open>NoReturn\<close>, so a status of the program says that the loop has ended.
\<close>

primrec records_loop :: "nat \<Rightarrow> int \<Rightarrow> unit sm" where
  "records_loop 0 fd = liftS (Inl NoReturn)"
| "records_loop (Suc fuel) fd =
     bindS (sys_read fd 24) (\<lambda>r.
     case r of
       None \<Rightarrow> printf ''read error'' []
     | Some buf \<Rightarrow>
         if buf = [] then printf ''read finished\<newline>'' []
         else if length buf \<noteq> 24 then returnS ()
         else bindS (liftS (record_line buf)) (\<lambda>t. bindS (put_out t) (\<lambda>_. records_loop fuel fd)))"

text \<open>
  The options as \<open>getopt\<close> returns them, with their arguments; the result is the status
  when the program ends there, or the number of bytes to skip.
\<close>

definition t_usage :: "unit sm" where  \<comment> \<open>\<open>usage\<close>\<close>
  "t_usage =
     bindS (printf ''tools to parse perf.data'' []) (\<lambda>_.
     bindS (printf ''command [option] file\<newline>'' []) (\<lambda>_.
     bindS (printf ''option can be used:\<newline>'' []) (\<lambda>_.
     put_out ([CHR 0x09] @ ''-h\<newline>'' @ [CHR 0x09, CHR 0x09] @ ''show this message\<newline>'' @
       [CHR 0x09] @ ''-v\<newline>'' @ [CHR 0x09, CHR 0x09] @ ''show version\<newline>'' @
       [CHR 0x09] @ ''-s num\<newline>'' @ [CHR 0x09, CHR 0x09] @ ''skip num'' @ [CHR 0x27] @ ''s byte when read\<newline>''))))"

fun t_opts :: "(char \<times> string) list \<Rightarrow> int \<Rightarrow> (int + int) sm" where
  "t_opts [] arg_skip = returnS (Inr arg_skip)"
| "t_opts ((c, optarg) # os) arg_skip =
     (if c = CHR ''h'' then bindS t_usage (\<lambda>_. returnS (Inl 0))
      else if c = CHR ''s'' then t_opts os (atoi optarg)
      else if c = CHR ''v'' then bindS (printf ''%s\<newline>'' [AStr ''0.1'']) (\<lambda>_. returnS (Inl 0))
      else bindS (printf ''unknow option %c'' [AInt (word_of_nat (of_char c))]) (\<lambda>_. returnS (Inl 1)))"

definition t_main :: "nat \<Rightarrow> (char \<times> string) list \<Rightarrow> string \<Rightarrow> int sm" where
  "t_main fuel opts file =
     bindS (t_opts opts 0) (\<lambda>r.
     case r of Inl status \<Rightarrow> returnS status
     | Inr arg_skip \<Rightarrow>
         bindS (printf ''%s\<newline>'' [AStr file]) (\<lambda>_.
         bindS (sys_open file) (\<lambda>fd.
         bindS (if fd = - 1 then printf ''open error\<newline>'' [] else returnS ()) (\<lambda>_.
         bindS (sys_lseek fd arg_skip) (\<lambda>ret.
         bindS (if ret = - 1 then printf ''lseek error\<newline>'' [] else returnS ()) (\<lambda>_.
         bindS (records_loop fuel fd) (\<lambda>_.
         bindS (close_ignoring fd) (\<lambda>_. returnS 0))))))))"

end
