(* ===== verification/FileStore.thy ===== *)
theory FileStore
  imports IoTools
begin

text \<open>
  The contract behind \<open>perftools/io\<close>: bytes put at a position of an open file are the
  bytes that are got there, and nothing else in the file changes. Two pairs of calls keep
  it, \<open>pwrite\<close> with \<open>pread\<close> and \<open>lseek; write\<close> with \<open>lseek; read\<close>.
\<close>

subsection \<open>Open descriptors\<close>

text \<open>The descriptor is new since the state s, is open on the path, and the other descriptors are as in s.\<close>

definition opened :: "int \<Rightarrow> string \<Rightarrow> os \<Rightarrow> os \<Rightarrow> bool" where
  "opened fd path s s' =
     (0 \<le> fd \<and> fd_lookup fd s = None \<and> (\<exists>pos. fd_lookup fd s' = Some (path, pos)) \<and>
      (\<forall>g. g \<noteq> fd \<longrightarrow> fd_lookup g s' = fd_lookup g s))"

definition same_fds :: "os \<Rightarrow> os \<Rightarrow> bool" where
  "same_fds s s' = (\<forall>g. fd_lookup g s' = fd_lookup g s)"

lemma same_fds_refl [simp]: "same_fds s s"
  by (simp add: same_fds_def)

lemma same_fds_trans: "same_fds s s1 \<Longrightarrow> same_fds s1 s2 \<Longrightarrow> same_fds s s2"
  by (simp add: same_fds_def)

lemma fd_lookup_other_fields [simp]:
  "fd_lookup fd (s\<lparr>outs := t\<rparr>) = fd_lookup fd s"
  "fd_lookup fd (s\<lparr>errs := t\<rparr>) = fd_lookup fd s"
  "fd_lookup fd (s\<lparr>files := fs\<rparr>) = fd_lookup fd s"
  by (simp_all add: fd_lookup_def)

lemma opened_other_fields [simp]:
  "opened fd path s (s1\<lparr>outs := t\<rparr>) = opened fd path s s1"
  "opened fd path s (s1\<lparr>errs := t\<rparr>) = opened fd path s s1"
  "opened fd path s (s1\<lparr>files := fs\<rparr>) = opened fd path s s1"
  by (simp_all add: opened_def)

lemma fd_lookup_list_update:
  "0 \<le> fd \<Longrightarrow> g \<noteq> fd \<Longrightarrow> fd_lookup g (s\<lparr>fdt := (fdt s)[nat fd := v]\<rparr>) = fd_lookup g s"
  by (auto simp: fd_lookup_def nth_list_update)

lemma opened_moved:
  "opened fd path s s1 \<Longrightarrow> opened fd path s (s1\<lparr>fdt := (fdt s1)[nat fd := Some (path, pos)]\<rparr>)"
  using fd_lookup_update [of fd s1 "Some (path, pos)"]
  by (auto simp: opened_def fd_lookup_list_update)

lemma fd_lookup_set_slot:
  "fd_lookup fd (s\<lparr>fdt := set_slot (fdt s) (lowest_free (fdt s)) v\<rparr>) =
     (if fd = int (lowest_free (fdt s)) then v else fd_lookup fd s)"
proof -
  have "lowest_free (fdt s) \<le> length (fdt s)" by (rule lowest_free_bound)
  then show ?thesis
    by (auto simp: fd_lookup_def set_slot_def nth_list_update nth_append)
qed

lemma sys_open_opens:
  assumes "files s path = Some d"
  shows "\<exists>fd s1. sys_open path s = Inr (fd, s1) \<and> fd \<noteq> - 1 \<and> opened fd path s s1 \<and> s1 = s\<lparr>fdt := fdt s1\<rparr>"
proof -
  let ?n = "lowest_free (fdt s)"
  let ?s1 = "s\<lparr>fdt := set_slot (fdt s) ?n (Some (path, 0))\<rparr>"
  have "fd_lookup (int ?n) s = None"
    using lowest_free_None [of "fdt s"] by (auto simp: fd_lookup_def)
  then have "opened (int ?n) path s ?s1" by (simp add: opened_def fd_lookup_set_slot)
  moreover have "sys_open path s = Inr (int ?n, ?s1)" using assms by (simp add: sys_open_def)
  ultimately show ?thesis by force
qed

lemma sys_open_missing: "files s path = None \<Longrightarrow> sys_open path s = Inr (- 1, s)"
  by (simp add: sys_open_def)

lemma close_opened:
  assumes "opened fd path s s1"
  shows "\<exists>s2. close_ignoring fd s1 = Inr ((), s2) \<and> same_fds s s2 \<and> s2 = s1\<lparr>fdt := fdt s2\<rparr>"
proof -
  let ?s2 = "s1\<lparr>fdt := (fdt s1)[nat fd := None]\<rparr>"
  obtain pos where l: "fd_lookup fd s1 = Some (path, pos)" "0 \<le> fd" "fd_lookup fd s = None"
    using assms by (auto simp: opened_def)
  have "close_ignoring fd s1 = Inr ((), ?s2)"
    by (simp add: close_ignoring_def bindS_def sys_close_def l returnS_def)
  moreover have "fd_lookup g ?s2 = fd_lookup g s" for g
    using l fd_lookup_update [of fd s1 None] assms fd_lookup_list_update [of fd g s1 None]
    by (cases "g = fd") (auto simp: opened_def)
  then have "same_fds s ?s2" by (simp add: same_fds_def)
  ultimately show ?thesis by force
qed

subsection \<open>The interface\<close>

locale file_store =
  fixes put :: "int \<Rightarrow> int \<Rightarrow> byte list \<Rightarrow> int sm"
    and get :: "int \<Rightarrow> int \<Rightarrow> nat \<Rightarrow> byte list option sm"
  assumes put_ok: "opened fd path s0 s \<Longrightarrow> files s path = Some d \<Longrightarrow> 0 \<le> off \<Longrightarrow>
      \<exists>s'. put fd off bs s = Inr (int (length bs), s') \<and> opened fd path s0 s' \<and>
        s' = s\<lparr>files := (files s)(path \<mapsto> file_write (nat off) bs d), fdt := fdt s'\<rparr>"
    and get_ok: "opened fd path s0 s \<Longrightarrow> files s path = Some d \<Longrightarrow> 0 \<le> off \<Longrightarrow>
      \<exists>s'. get fd off n s = Inr (Some (bslice (nat off) n d), s') \<and> opened fd path s0 s' \<and> s' = s\<lparr>fdt := fdt s'\<rparr>"
    and put_neg: "opened fd path s0 s \<Longrightarrow> off < 0 \<Longrightarrow> put fd off bs s = Inr (- 1, s)"
    and get_neg: "opened fd path s0 s \<Longrightarrow> off < 0 \<Longrightarrow> get fd off n s = Inr (None, s)"
begin

lemma put_get:
  assumes "opened fd path s0 s" and "files s path = Some d" and "0 \<le> off" and "0 \<le> off'"
  shows "\<exists>s'. bindS (put fd off bs) (\<lambda>_. get fd off' n) s =
      Inr (Some (bslice (nat off') n (file_write (nat off) bs d)), s') \<and> opened fd path s0 s' \<and>
    s' = s\<lparr>files := (files s)(path \<mapsto> file_write (nat off) bs d), fdt := fdt s'\<rparr>"
proof -
  obtain s1 where s1: "put fd off bs s = Inr (int (length bs), s1)" "opened fd path s0 s1"
    "s1 = s\<lparr>files := (files s)(path \<mapsto> file_write (nat off) bs d), fdt := fdt s1\<rparr>"
    using put_ok [OF assms(1-3)] by blast
  have "files s1 path = Some (file_write (nat off) bs d)" by (subst s1(3)) simp
  then obtain s2 where s2: "get fd off' n s1 = Inr (Some (bslice (nat off') n (file_write (nat off) bs d)), s2)"
    "opened fd path s0 s2" "s2 = s1\<lparr>fdt := fdt s2\<rparr>"
    using get_ok [OF s1(2) _ assms(4)] by blast
  have "s2 = s\<lparr>files := (files s)(path \<mapsto> file_write (nat off) bs d), fdt := fdt s2\<rparr>"
    by (subst s2(3), subst s1(3)) simp
  then show ?thesis using s1(1) s2(1,2) by (auto simp: bindS_def)
qed

lemma put_get_same:
  "opened fd path s0 s \<Longrightarrow> files s path = Some d \<Longrightarrow> 0 \<le> off \<Longrightarrow>
   \<exists>s'. bindS (put fd off bs) (\<lambda>_. get fd off (length bs)) s = Inr (Some bs, s')"
  using put_get [of fd path s0 s d off off bs "length bs"] by (auto simp: bslice_file_write)

text \<open>What does not meet the bytes written is read as before.\<close>

lemma put_get_apart:
  assumes "opened fd path s0 s" and "files s path = Some d" and "0 \<le> off" and "0 \<le> off'"
    and "off' + int n \<le> int (length d)" and "off' + int n \<le> off \<or> off + int (length bs) \<le> off'"
  shows "\<exists>s'. bindS (put fd off bs) (\<lambda>_. get fd off' n) s = Inr (Some (bslice (nat off') n d), s')"
proof -
  have "bslice (nat off') n (file_write (nat off) bs d) = bslice (nat off') n d"
    using assms(3-6) bslice_file_write_before [of "nat off'" n "nat off" d bs]
      bslice_file_write_after [of "nat off" bs "nat off'" n d] by linarith
  then show ?thesis using put_get [OF assms(1-4), of bs n] by auto
qed

end

subsection \<open>The two providers\<close>

definition seek_write :: "int \<Rightarrow> int \<Rightarrow> byte list \<Rightarrow> int sm" where
  "seek_write fd off bs = bindS (sys_lseek fd off) (\<lambda>r. if r = - 1 then returnS (- 1) else sys_write fd bs)"

definition seek_get :: "int \<Rightarrow> int \<Rightarrow> nat \<Rightarrow> byte list option sm" where
  "seek_get fd off n = bindS (sys_lseek fd off) (\<lambda>r. if r = - 1 then returnS None else sys_read fd n)"

lemma lseek_opened:
  assumes "opened fd path s0 s"
  shows "0 \<le> off \<Longrightarrow> \<exists>s'. sys_lseek fd off s = Inr (off, s') \<and> opened fd path s0 s' \<and>
      fd_lookup fd s' = Some (path, nat off) \<and> s' = s\<lparr>fdt := fdt s'\<rparr>"
    and "off < 0 \<Longrightarrow> sys_lseek fd off s = Inr (- 1, s)"
proof -
  obtain pos where l: "fd_lookup fd s = Some (path, pos)" using assms by (auto simp: opened_def)
  let ?s = "s\<lparr>fdt := (fdt s)[nat fd := Some (path, nat off)]\<rparr>"
  show "\<exists>s'. sys_lseek fd off s = Inr (off, s') \<and> opened fd path s0 s' \<and>
      fd_lookup fd s' = Some (path, nat off) \<and> s' = s\<lparr>fdt := fdt s'\<rparr>" if "0 \<le> off"
    using l that opened_moved [OF assms] fd_lookup_update [of fd s "Some (path, nat off)"]
    by (intro exI [of _ ?s]) (simp add: sys_lseek_def)
  show "sys_lseek fd off s = Inr (- 1, s)" if "off < 0"
    using l that by (simp add: sys_lseek_def)
qed

lemma read_opened:
  assumes "opened fd path s0 s" and "fd_lookup fd s = Some (path, pos)" and "files s path = Some d"
  shows "\<exists>s'. sys_read fd n s = Inr (Some (bslice pos n d), s') \<and> opened fd path s0 s' \<and>
    fd_lookup fd s' = Some (path, pos + length (bslice pos n d)) \<and> s' = s\<lparr>fdt := fdt s'\<rparr>"
  using assms opened_moved [OF assms(1)] fd_lookup_update [of fd s "Some (path, pos + length (bslice pos n d))"]
  by (intro exI [of _ "s\<lparr>fdt := (fdt s)[nat fd := Some (path, pos + length (bslice pos n d))]\<rparr>"])
    (simp add: sys_read_def Let_def)

lemma write_opened:
  assumes "opened fd path s0 s" and "fd_lookup fd s = Some (path, pos)" and "files s path = Some d"
  shows "\<exists>s'. sys_write fd bs s = Inr (int (length bs), s') \<and> opened fd path s0 s' \<and>
    s' = s\<lparr>files := (files s)(path \<mapsto> file_write pos bs d), fdt := fdt s'\<rparr>"
proof -
  let ?s = "s\<lparr>fdt := (fdt s)[nat fd := Some (path, pos + length bs)]\<rparr>"
  have "opened fd path s0 (?s\<lparr>files := (files s)(path \<mapsto> file_write pos bs d)\<rparr>)"
    using opened_moved [OF assms(1)] by simp
  then show ?thesis using assms
    by (intro exI [of _ "?s\<lparr>files := (files s)(path \<mapsto> file_write pos bs d)\<rparr>"]) (simp add: sys_write_def)
qed

interpretation positioned: file_store "\<lambda>fd off bs. sys_pwrite fd bs off" "\<lambda>fd off n. sys_pread fd n off"
proof unfold_locales
  fix fd path s0 s d off bs
  assume a: "opened fd path s0 s" and d: "files s path = Some d" and o: "(0 :: int) \<le> off"
  then show "\<exists>s'. sys_pwrite fd bs off s = Inr (int (length bs), s') \<and> opened fd path s0 s' \<and>
      s' = s\<lparr>files := (files s)(path \<mapsto> file_write (nat off) bs d), fdt := fdt s'\<rparr>"
    by (intro exI [of _ "s\<lparr>files := (files s)(path \<mapsto> file_write (nat off) bs d)\<rparr>"])
      (auto simp: sys_pwrite_def opened_def)
  fix n
  show "\<exists>s'. sys_pread fd n off s = Inr (Some (bslice (nat off) n d), s') \<and> opened fd path s0 s' \<and>
      s' = s\<lparr>fdt := fdt s'\<rparr>"
    using a d o by (intro exI [of _ s]) (auto simp: sys_pread_def fd_data_def opened_def)
qed (simp_all add: sys_pwrite_def sys_pread_def)

interpretation seeking: file_store seek_write seek_get
proof unfold_locales
  fix fd path s0 s d off bs n
  assume a: "opened fd path s0 s" and d: "files s path = Some d" and o: "(0 :: int) \<le> off"
  obtain s1 where s1: "sys_lseek fd off s = Inr (off, s1)" "opened fd path s0 s1"
    "fd_lookup fd s1 = Some (path, nat off)" "s1 = s\<lparr>fdt := fdt s1\<rparr>"
    using lseek_opened(1) [OF a o] by blast
  have f: "files s1 = files s" by (subst s1(4)) simp
  obtain s2 where s2: "sys_write fd bs s1 = Inr (int (length bs), s2)" "opened fd path s0 s2"
    "s2 = s1\<lparr>files := (files s1)(path \<mapsto> file_write (nat off) bs d), fdt := fdt s2\<rparr>"
    using write_opened [OF s1(2,3)] f d by metis
  have "s2 = s\<lparr>files := (files s)(path \<mapsto> file_write (nat off) bs d), fdt := fdt s2\<rparr>"
    by (subst s2(3), subst s1(4)) (simp add: f)
  then show "\<exists>s'. seek_write fd off bs s = Inr (int (length bs), s') \<and> opened fd path s0 s' \<and>
      s' = s\<lparr>files := (files s)(path \<mapsto> file_write (nat off) bs d), fdt := fdt s'\<rparr>"
    using s1(1) s2(1,2) o by (auto simp: seek_write_def bindS_def)
  obtain s3 where s3: "sys_read fd n s1 = Inr (Some (bslice (nat off) n d), s3)" "opened fd path s0 s3"
    "s3 = s1\<lparr>fdt := fdt s3\<rparr>"
    using read_opened [OF s1(2,3)] f d by metis
  have "s3 = s\<lparr>fdt := fdt s3\<rparr>" by (subst s3(3), subst s1(4)) simp
  then show "\<exists>s'. seek_get fd off n s = Inr (Some (bslice (nat off) n d), s') \<and> opened fd path s0 s' \<and>
      s' = s\<lparr>fdt := fdt s'\<rparr>"
    using s1(1) s3(1,2) o by (auto simp: seek_get_def bindS_def)
qed (auto simp: seek_write_def seek_get_def bindS_def returnS_def dest: lseek_opened(2))

end
