(* ===== verification/FileTools.thy ===== *)
theory FileTools
  imports FileStore
begin

text \<open>
  What the programs of \<open>perftools/io/pread\<close> and \<open>perftools/io/read_write_tool\<close> do:
  the round trips of the writers with the readers, and the wrong argument counts.
\<close>

subsection \<open>Messages\<close>

lemma fmt_offset [fmt_simps]:
  "vsprintf ''offset 0x%x: 0x%x\<newline>'' [AInt a, AInt b] =
     Inr (''offset 0x'' @ hexn (unat a) @ '': 0x'' @ hexn (unat b) @ [NL])"
  by (simp add: fmt_eval pad_left_def NL_def)

lemma fmt_read_int [fmt_simps]:
  "vsprintf ''read int from offset 0x%lx -> '' [ALong a] = Inr (''read int from offset 0x'' @ hexn (unat a) @ '' -> '')"
  by (simp add: fmt_eval pad_left_def)

lemma fmt_0x08x [fmt_simps]:
  "vsprintf ''0x%08x\<newline>'' [AInt a] = Inr (''0x'' @ pad_left CHR ''0'' 8 (hexn (unat a)) @ [NL])"
  by (simp add: fmt_eval NL_def)

lemma fmt_wrote_int [fmt_simps]:
  "vsprintf ''write int 0x%08x to offset 0x%lx\<newline>'' [ALong a, ALong b] =
     Inr (''write int 0x'' @ pad_left CHR ''0'' 8 (hexn (unat (ucast a :: u32))) @ '' to offset 0x'' @ hexn (unat b) @ [NL])"
  by (simp add: fmt_eval pad_left_def NL_def)

lemma fmt_02x_nl [fmt_simps]: "vsprintf ''%02x\<newline>'' [AInt a] = Inr (pad_left CHR ''0'' 2 (hexn (unat a)) @ [NL])"
  by (simp add: fmt_eval NL_def)

lemma fmt_c_nl [fmt_simps]: "vsprintf ''%c\<newline>'' [AInt a] = Inr [char_of (unat a), NL]"
  by (simp add: fmt_eval NL_def pad_left_def)

lemma fmt_missing:
  "vsprintf ''%s filename offset\<newline>'' [] = Inl UninitRead"
  "vsprintf ''%s filename offset char\<newline>'' [] = Inl UninitRead"
  by (simp_all add: fmt_eval)

lemma bindS_liftS_Inl: "bindS (liftS (Inl e)) f s = Inl e"
  by (simp add: bindS_def)

subsection \<open>preadb, preadl, pwriteb and pwritel\<close>

definition offset_line :: "u32 \<Rightarrow> byte list \<Rightarrow> string" where
  "offset_line off bs = ''offset 0x'' @ hexn (unat off) @ '': 0x'' @ hexn (le_val bs) @ [NL]"

lemma fmt_offset_line:
  assumes "length bs \<le> 4"
  shows "vsprintf ''offset 0x%x: 0x%x\<newline>'' [AInt off, AInt (word_of_nat (le_val bs))] = Inr (offset_line off bs)"
proof -
  have "(256 :: nat) ^ length bs \<le> 256 ^ 4" using assms by (intro power_increasing) simp_all
  then have "le_val bs < 4294967296" using le_val_bound [of bs] by simp
  then have "unat (word_of_nat (le_val bs) :: u32) = le_val bs" by (simp add: unat_of_nat)
  then show ?thesis by (simp only: fmt_offset offset_line_def)
qed

lemma pread_result_ok:
  assumes "opened fd path s0 s" and "files s path = Some d" and "0 \<le> sint off"
    and "nat (sint off) + n \<le> length d" and "n \<le> 4"
  shows "\<exists>s'. pread_result n off fd s = Inr (0, s') \<and> same_fds s0 s' \<and>
    s' = s\<lparr>outs := outs s @ offset_line off (bslice (nat (sint off)) n d), fdt := fdt s'\<rparr>"
proof -
  let ?bs = "bslice (nat (sint off)) n d"
  let ?t = "offset_line off ?bs"
  obtain s1 where s1: "sys_pread fd n (sint off) s = Inr (Some ?bs, s1)" "opened fd path s0 s1" "s1 = s\<lparr>fdt := fdt s1\<rparr>"
    using positioned.get_ok [OF assms(1-3)] by blast
  have l: "length ?bs = n" using assms(4) by simp
  have "printf ''offset 0x%x: 0x%x\<newline>'' [AInt off, AInt (word_of_nat (le_val ?bs))] s1 = Inr ((), s1\<lparr>outs := outs s1 @ ?t\<rparr>)"
    by (rule printf_text, rule fmt_offset_line) (simp add: l assms(5))
  note p = this
  have "opened fd path s0 (s1\<lparr>outs := outs s1 @ ?t\<rparr>)" using s1(2) by simp
  then obtain s2 where s2: "close_ignoring fd (s1\<lparr>outs := outs s1 @ ?t\<rparr>) = Inr ((), s2)" "same_fds s0 s2"
    "s2 = s1\<lparr>outs := outs s1 @ ?t, fdt := fdt s2\<rparr>"
    using close_opened by fastforce
  have "s2 = s\<lparr>outs := outs s @ ?t, fdt := fdt s2\<rparr>" by (subst s2(3), subst s1(3), subst s1(3)) simp
  then show ?thesis using s1(1) l p s2(1,2) by (simp add: pread_result_def bindS_def returnS_def)
qed

lemma preadl_main_ok:
  assumes "files s path = Some d" and "0 \<le> sint (int_arg off)" and "nat (sint (int_arg off)) + 4 \<le> length d"
  shows "\<exists>s'. preadl_main [prog, path, off] s = Inr (0, s') \<and> same_fds s s' \<and>
    s' = s\<lparr>outs := outs s @ offset_line (int_arg off) (bslice (nat (sint (int_arg off))) 4 d), fdt := fdt s'\<rparr>"
proof -
  obtain fd s1 where s1: "sys_open path s = Inr (fd, s1)" "fd \<noteq> - 1" "opened fd path s s1" "s1 = s\<lparr>fdt := fdt s1\<rparr>"
    using sys_open_opens [of s path, OF assms(1)] by blast
  have "files s1 path = Some d" by (subst s1(4)) (simp add: assms(1))
  then obtain s2 where s2: "pread_result 4 (int_arg off) fd s1 = Inr (0, s2)" "same_fds s s2"
    "s2 = s1\<lparr>outs := outs s1 @ offset_line (int_arg off) (bslice (nat (sint (int_arg off))) 4 d), fdt := fdt s2\<rparr>"
    using pread_result_ok [OF s1(3) _ assms(2,3)] by fastforce
  have "s2 = s\<lparr>outs := outs s @ offset_line (int_arg off) (bslice (nat (sint (int_arg off))) 4 d), fdt := fdt s2\<rparr>"
    by (subst s2(3), subst s1(4), subst s1(4)) simp
  then show ?thesis using s1(1,2) s2(1,2) by (simp add: preadl_main_def bindS_def)
qed

lemma pwrite_result_ok:
  assumes "opened fd path s0 s" and "files s path = Some d" and "0 \<le> off"
  shows "\<exists>s'. pwrite_result bs off fd s = Inr (0, s') \<and> same_fds s0 s' \<and>
    s' = s\<lparr>files := (files s)(path \<mapsto> file_write (nat off) bs d), fdt := fdt s'\<rparr>"
proof -
  obtain s1 where s1: "sys_pwrite fd bs off s = Inr (int (length bs), s1)" "opened fd path s0 s1"
    "s1 = s\<lparr>files := (files s)(path \<mapsto> file_write (nat off) bs d), fdt := fdt s1\<rparr>"
    using positioned.put_ok [OF assms] by blast
  obtain s2 where s2: "close_ignoring fd s1 = Inr ((), s2)" "same_fds s0 s2" "s2 = s1\<lparr>fdt := fdt s2\<rparr>"
    using close_opened [OF s1(2)] by blast
  have "s2 = s\<lparr>files := (files s)(path \<mapsto> file_write (nat off) bs d), fdt := fdt s2\<rparr>"
    by (subst s2(3), subst s1(3)) simp
  then show ?thesis using s1(1) s2(1,2) by (simp add: pwrite_result_def bindS_def returnS_def)
qed

lemma pwritel_main_ok:
  assumes "files s path = Some d" and "0 \<le> sint (int_arg off)"
  shows "\<exists>s'. pwritel_main [prog, path, off, v] s = Inr (0, s') \<and> same_fds s s' \<and>
    s' = s\<lparr>files := (files s)(path \<mapsto> file_write (nat (sint (int_arg off))) (le_bytes 4 (unat (int_arg v))) d), fdt := fdt s'\<rparr>"
proof -
  obtain fd s1 where s1: "sys_open path s = Inr (fd, s1)" "fd \<noteq> - 1" "opened fd path s s1" "s1 = s\<lparr>fdt := fdt s1\<rparr>"
    using sys_open_opens [of s path, OF assms(1)] by blast
  have "files s1 path = Some d" by (subst s1(4)) (simp add: assms(1))
  then obtain s2 where s2: "pwrite_result (le_bytes 4 (unat (int_arg v))) (sint (int_arg off)) fd s1 = Inr (0, s2)" "same_fds s s2"
    "s2 = s1\<lparr>files := (files s1)(path \<mapsto> file_write (nat (sint (int_arg off))) (le_bytes 4 (unat (int_arg v))) d), fdt := fdt s2\<rparr>"
    using pwrite_result_ok [OF s1(3) _ assms(2)] by blast
  have "s2 = s\<lparr>files := (files s)(path \<mapsto> file_write (nat (sint (int_arg off))) (le_bytes 4 (unat (int_arg v))) d), fdt := fdt s2\<rparr>"
    by (subst s2(3), subst s1(4), subst s1(4)) simp
  then show ?thesis using s1(1,2) s2(1,2) by (simp add: pwritel_main_def bindS_def Let_def)
qed

lemma le_val_le_bytes_u32: "le_val (le_bytes 4 (unat (w :: u32))) = unat w"
  using unat_u32_bound [of w] by (simp add: le_val_le_bytes)

lemma pwritel_preadl_run:
  assumes "files s path = Some d" and "0 \<le> sint (int_arg off)"
  shows "\<exists>s'. bindS (pwritel_main [p, path, off, v]) (\<lambda>_. preadl_main [q, path, off]) s = Inr (0, s') \<and> same_fds s s' \<and>
    s' = s\<lparr>files := (files s)(path \<mapsto> file_write (nat (sint (int_arg off))) (le_bytes 4 (unat (int_arg v))) d),
      outs := outs s @ ''offset 0x'' @ hexn (unat (int_arg off)) @ '': 0x'' @ hexn (unat (int_arg v)) @ [NL], fdt := fdt s'\<rparr>"
proof -
  let ?o = "nat (sint (int_arg off))" and ?bs = "le_bytes 4 (unat (int_arg v))"
  obtain s1 where s1: "pwritel_main [p, path, off, v] s = Inr (0, s1)" "same_fds s s1"
    "s1 = s\<lparr>files := (files s)(path \<mapsto> file_write ?o ?bs d), fdt := fdt s1\<rparr>"
    using pwritel_main_ok [OF assms] by blast
  have f: "files s1 path = Some (file_write ?o ?bs d)" by (subst s1(3)) simp
  have "?o + 4 \<le> length (file_write ?o ?bs d)" by (simp add: length_file_write)
  from preadl_main_ok [OF f assms(2) this]
  obtain s2 where s2: "preadl_main [q, path, off] s1 = Inr (0, s2)" "same_fds s1 s2"
    "s2 = s1\<lparr>outs := outs s1 @ offset_line (int_arg off) (bslice ?o 4 (file_write ?o ?bs d)), fdt := fdt s2\<rparr>" by blast
  have "bslice ?o 4 (file_write ?o ?bs d) = ?bs" using bslice_file_write [of ?o ?bs d] by simp
  then have "s2 = s\<lparr>files := (files s)(path \<mapsto> file_write ?o ?bs d),
      outs := outs s @ offset_line (int_arg off) ?bs, fdt := fdt s2\<rparr>"
    by (subst s2(3), subst s1(3), subst s1(3)) simp
  then show ?thesis
    using s1(1) s2(1) same_fds_trans [OF s1(2) s2(2)] by (simp add: bindS_def offset_line_def le_val_le_bytes_u32)
qed

text \<open>
  C6: What \<open>pwritel\<close> stores, \<open>preadl\<close> reports: after \<open>pwritel file off v\<close>,
  \<open>preadl file off\<close> prints v, both end with status 0 and no open descriptor more, and
  the file has changed in the four bytes at the offset only (zeros fill a gap before them).
\<close>

theorem pwritel_preadl:
  assumes "files s path = Some d" and "0 \<le> sint (int_arg off)"
  shows "\<exists>s'. bindS (pwritel_main [p, path, off, v]) (\<lambda>_. preadl_main [q, path, off]) s = Inr (0, s') \<and> same_fds s s' \<and>
    s' = s\<lparr>files := (files s)(path \<mapsto> file_write (nat (sint (int_arg off))) (le_bytes 4 (unat (int_arg v))) d),
      outs := outs s @ ''offset 0x'' @ hexn (unat (int_arg off)) @ '': 0x'' @ hexn (unat (int_arg v)) @ [NL], fdt := fdt s'\<rparr>"
  using assms by (rule pwritel_preadl_run)

definition small_os :: os where
  "small_os = \<lparr>files = [''f'' \<mapsto> [1, 2, 200, 4, 5, 6]], fdt = [None], avail = 0, live = [], fresh = 0, outs = [], errs = []\<rparr>"

lemma strtoul_2: "strtoul ''2'' = 2"
  by (simp add: strtoul_def signed_part_def is_blank_def based_number_def digit_value_def)

lemma int_arg_2: "sint (int_arg ''2'') = 2"
  by (simp add: int_arg_def strtoul_2)

theorem pwritel_preadl_witness:
  "\<exists>s'. bindS (pwritel_main [''p'', ''f'', ''2'', ''0x1234'']) (\<lambda>_. preadl_main [''q'', ''f'', ''2'']) small_os = Inr (0, s')"
  using pwritel_preadl [of small_os "''f''" "[1, 2, 200, 4, 5, 6]" "''2''" "''p''" "''0x1234''" "''q''"]
  by (auto simp: small_os_def int_arg_2)

lemma wrong_argc:
  "length argv \<noteq> 3 \<Longrightarrow> preadb_main argv s = Inl UninitRead"
  "length argv \<noteq> 3 \<Longrightarrow> preadl_main argv s = Inl UninitRead"
  "length argv \<noteq> 4 \<Longrightarrow> pwriteb_main argv s = Inl UninitRead"
  "length argv \<noteq> 4 \<Longrightarrow> pwritel_main argv s = Inl UninitRead"
  by (simp_all add: preadb_main_def preadl_main_def pwriteb_main_def pwritel_main_def printf_def bindS_def liftS_def fmt_missing)

text \<open>
  With a wrong number of arguments the four programs do not print their usage: the
  format string has a \<open>%s\<close> and the call of \<open>printf\<close> no argument for it.
\<close>

theorem pread_wrong_argc:
  assumes "length argv \<noteq> 3" and "length argv' \<noteq> 4"
  shows "preadb_main argv s = Inl UninitRead \<and> preadl_main argv s = Inl UninitRead \<and>
    pwriteb_main argv' s = Inl UninitRead \<and> pwritel_main argv' s = Inl UninitRead"
  using assms by (simp add: wrong_argc)

theorem pread_wrong_argc_witness: "preadl_main [''preadl''] small_os = Inl UninitRead"
  using pread_wrong_argc [of "[''preadl'']" "[]" small_os] by simp

subsection \<open>read32, write32 and read8\<close>

lemma sint_ulong_of: "sint (ulong_of (sint (w :: u32))) = sint w"
proof -
  have "sint w < 2 ^ (LENGTH(32) - 1)" "- (2 ^ (LENGTH(32) - 1)) \<le> sint w" by (rule sint_lt, rule sint_ge)
  then show ?thesis
    unfolding ulong_of_def by (simp only: sint_sbintrunc', intro signed_take_bit_int_eq_self) simp_all
qed

lemma unat_ulong_of: "0 \<le> sint (w :: u32) \<Longrightarrow> unat (ulong_of (sint w)) = nat (sint w)"
proof -
  assume w: "0 \<le> sint w"
  have "sint w < 2 ^ (LENGTH(32) - 1)" by (rule sint_lt)
  then have "uint (word_of_int (sint w) :: u64) = sint w"
    by (simp only: uint_word_of_int, intro mod_pos_pos_trivial w) simp
  then show ?thesis by (simp only: ulong_of_def unat_eq_nat_uint)
qed

lemma ucast_ulong_of: "ucast (ulong_of i) = (word_of_int i :: u32)"
  unfolding ulong_of_def by (rule bit_word_eqI) (simp add: bit_simps)

lemma atoi_word: "\<exists>w :: u32. atoi s = sint w"
  by (auto simp: atoi_def Let_def case_prod_unfold)

lemma atoi_ulong: "sint (ulong_of (atoi s)) = atoi s" "0 \<le> atoi s \<Longrightarrow> unat (ulong_of (atoi s)) = nat (atoi s)"
  using atoi_word [of s] sint_ulong_of unat_ulong_of by metis+

lemma take_le_bytes: "k \<le> m \<Longrightarrow> take k (le_bytes m n) = le_bytes k n"
proof (induction k arbitrary: m n)
  case (Suc k)
  then obtain m' where "m = Suc m'" by (cases m) simp_all
  with Suc show ?case by simp
qed simp

lemma le_val_low_bytes: "le_val (le_bytes 4 (unat (w :: u64))) = unat (ucast w :: u32)"
  by (simp add: le_val_le_bytes unsigned_ucast_eq take_bit_eq_mod)

text \<open>The code's \<open>lseek\<close>, test, \<open>read\<close> is the operation of the interface.\<close>

lemma seek_get_bind:
  assumes "opened fd path s0 s" and "0 \<le> off"
  shows "bindS (sys_lseek fd off) (\<lambda>r. if r = - 1 then a else bindS (sys_read fd n) g) s = bindS (seek_get fd off n) g s"
  using lseek_opened(1) [OF assms] assms(2) by (auto simp: seek_get_def bindS_def)

lemma seek_write_bind:
  assumes "opened fd path s0 s" and "0 \<le> off"
  shows "bindS (sys_lseek fd off) (\<lambda>r. if r = - 1 then a else bindS (sys_write fd bs) g) s = bindS (seek_write fd off bs) g s"
  using lseek_opened(1) [OF assms] assms(2) by (auto simp: seek_write_def bindS_def)

definition read32_text :: "int \<Rightarrow> byte list \<Rightarrow> string" where
  "read32_text off bs = ''read int from offset 0x'' @ hexn (nat off) @ '' -> 0x'' @ pad_left CHR ''0'' 8 (hexn (le_val bs)) @ [NL]"

lemma read32_main_ok:
  assumes "files s path = Some d" and "0 \<le> atoi off" and "nat (atoi off) + 4 \<le> length d"
  shows "\<exists>s'. read32_main [prog, path, off] s = Inr (0, s') \<and> same_fds s s' \<and>
    s' = s\<lparr>outs := outs s @ read32_text (atoi off) (bslice (nat (atoi off)) 4 d), fdt := fdt s'\<rparr>"
proof -
  let ?bs = "bslice (nat (atoi off)) 4 d"
  define t1 where "t1 = ''read int from offset 0x'' @ hexn (nat (atoi off)) @ '' -> ''"
  define t2 where "t2 = ''0x'' @ pad_left CHR ''0'' 8 (hexn (le_val ?bs)) @ [NL]"
  obtain fd s1 where s1: "sys_open path s = Inr (fd, s1)" "fd \<noteq> - 1" "opened fd path s s1" "s1 = s\<lparr>fdt := fdt s1\<rparr>"
    using sys_open_opens [of s path, OF assms(1)] by blast
  have "files s1 path = Some d" by (subst s1(4)) (simp add: assms(1))
  then obtain s2 where s2: "seek_get fd (atoi off) 4 s1 = Inr (Some ?bs, s2)" "opened fd path s s2" "s2 = s1\<lparr>fdt := fdt s2\<rparr>"
    using seeking.get_ok [OF s1(3) _ assms(2)] by blast
  have l: "length ?bs = 4" using assms(3) by simp
  have p1: "printf ''read int from offset 0x%lx -> '' [ALong (ulong_of (atoi off))] s2 = Inr ((), s2\<lparr>outs := outs s2 @ t1\<rparr>)"
    by (rule printf_text) (simp add: t1_def fmt_read_int atoi_ulong(2) [OF assms(2)])
  have "unat (word_of_nat (le_val ?bs) :: u32) = le_val ?bs"
    using le_val_bound [of ?bs] l by (simp add: unat_of_nat)
  then have p2: "printf ''0x%08x\<newline>'' [AInt (word_of_nat (le_val ?bs))] (s2\<lparr>outs := outs s2 @ t1\<rparr>) =
      Inr ((), s2\<lparr>outs := outs s2 @ t1 @ t2\<rparr>)"
    by (simp only: printf_text [OF fmt_0x08x]) (simp add: t2_def)
  have "opened fd path s (s2\<lparr>outs := outs s2 @ t1 @ t2\<rparr>)" using s2(2) by simp
  then obtain s3 where s3: "close_ignoring fd (s2\<lparr>outs := outs s2 @ t1 @ t2\<rparr>) = Inr ((), s3)" "same_fds s s3"
    "s3 = s2\<lparr>outs := outs s2 @ t1 @ t2, fdt := fdt s3\<rparr>"
    using close_opened by fastforce
  have "s3 = s\<lparr>outs := outs s @ read32_text (atoi off) ?bs, fdt := fdt s3\<rparr>"
    by (subst s3(3), subst s2(3), subst s2(3), subst s1(4), subst s1(4)) (simp add: read32_text_def t1_def t2_def)
  then show ?thesis
    using s1(2) s3(2) l
    by (simp add: read32_main_def bindS_Inr [where m = "sys_open path" and s = s, OF s1(1)] atoi_ulong(1) Let_def
        seek_get_bind [OF s1(3) assms(2)] bindS_Inr [where m = "seek_get fd (atoi off) 4" and s = s1, OF s2(1)]
        bindS_Inr [where m = "printf f a" for f a, OF p1] bindS_Inr [where m = "printf f a" for f a, OF p2]
        bindS_Inr [where m = "close_ignoring fd", OF s3(1)] returnS_apply)
qed

definition write32_text :: "int \<Rightarrow> u32 \<Rightarrow> string" where
  "write32_text off w = ''write int 0x'' @ pad_left CHR ''0'' 8 (hexn (unat w)) @ '' to offset 0x'' @ hexn (nat off) @ [NL]"

lemma write32_main_ok:
  assumes "files s path = Some d" and "0 \<le> atoi off"
  shows "\<exists>s'. write32_main [prog, path, off, v] s = Inr (0, s') \<and> same_fds s s' \<and>
    s' = s\<lparr>files := (files s)(path \<mapsto> file_write (nat (atoi off)) (le_bytes 4 (unat (ulong_of (atoi v)))) d),
      outs := outs s @ write32_text (atoi off) (word_of_int (atoi v)), fdt := fdt s'\<rparr>"
proof -
  let ?bs = "le_bytes 4 (unat (ulong_of (atoi v)))" and ?t = "write32_text (atoi off) (word_of_int (atoi v))"
  obtain fd s1 where s1: "sys_open path s = Inr (fd, s1)" "fd \<noteq> - 1" "opened fd path s s1" "s1 = s\<lparr>fdt := fdt s1\<rparr>"
    using sys_open_opens [of s path, OF assms(1)] by blast
  have "files s1 path = Some d" by (subst s1(4)) (simp add: assms(1))
  then obtain s2 where s2: "seek_write fd (atoi off) ?bs s1 = Inr (int (length ?bs), s2)" "opened fd path s s2"
    "s2 = s1\<lparr>files := (files s1)(path \<mapsto> file_write (nat (atoi off)) ?bs d), fdt := fdt s2\<rparr>"
    using seeking.put_ok [OF s1(3) _ assms(2)] by blast
  have p: "printf ''write int 0x%08x to offset 0x%lx\<newline>'' [ALong (ulong_of (atoi v)), ALong (ulong_of (atoi off))] s2 =
      Inr ((), s2\<lparr>outs := outs s2 @ ?t\<rparr>)"
    by (rule printf_text) (simp add: fmt_wrote_int write32_text_def ucast_ulong_of atoi_ulong(2) [OF assms(2)])
  have "opened fd path s (s2\<lparr>outs := outs s2 @ ?t\<rparr>)" using s2(2) by simp
  then obtain s3 where s3: "close_ignoring fd (s2\<lparr>outs := outs s2 @ ?t\<rparr>) = Inr ((), s3)" "same_fds s s3"
    "s3 = s2\<lparr>outs := outs s2 @ ?t, fdt := fdt s3\<rparr>"
    using close_opened by fastforce
  have "s3 = s\<lparr>files := (files s)(path \<mapsto> file_write (nat (atoi off)) ?bs d), outs := outs s @ ?t, fdt := fdt s3\<rparr>"
    by (subst s3(3), subst s2(3), subst s2(3), subst s1(4), subst s1(4), subst s1(4)) simp
  then show ?thesis
    using s1(2) s3(2)
    by (simp add: write32_main_def bindS_Inr [where m = "sys_open path" and s = s, OF s1(1)] atoi_ulong(1) Let_def
        take_le_bytes seek_write_bind [OF s1(3) assms(2)] bindS_Inr [where m = "seek_write fd (atoi off) ?bs" and s = s1, OF s2(1)]
        bindS_Inr [where m = "printf f a" and s = s2 for f a, OF p] bindS_Inr [where m = "close_ignoring fd", OF s3(1)] returnS_apply
        cong: if_cong)
qed

lemma write32_read32_run:
  assumes "files s path = Some d" and "0 \<le> atoi off"
  shows "\<exists>s'. bindS (write32_main [p, path, off, v]) (\<lambda>_. read32_main [q, path, off]) s = Inr (0, s') \<and> same_fds s s' \<and>
    outs s' = outs s @ ''write int 0x'' @ pad_left CHR ''0'' 8 (hexn (unat (word_of_int (atoi v) :: u32))) @
      '' to offset 0x'' @ hexn (nat (atoi off)) @ [NL] @ ''read int from offset 0x'' @ hexn (nat (atoi off)) @
      '' -> 0x'' @ pad_left CHR ''0'' 8 (hexn (unat (word_of_int (atoi v) :: u32))) @ [NL]"
proof -
  let ?o = "nat (atoi off)" and ?bs = "le_bytes 4 (unat (ulong_of (atoi v)))"
  obtain s1 where s1: "write32_main [p, path, off, v] s = Inr (0, s1)" "same_fds s s1"
    "s1 = s\<lparr>files := (files s)(path \<mapsto> file_write ?o ?bs d),
      outs := outs s @ write32_text (atoi off) (word_of_int (atoi v)), fdt := fdt s1\<rparr>"
    using write32_main_ok [OF assms] by blast
  have f: "files s1 path = Some (file_write ?o ?bs d)" by (subst s1(3)) simp
  have o1: "outs s1 = outs s @ write32_text (atoi off) (word_of_int (atoi v))" by (subst s1(3)) simp
  have "?o + 4 \<le> length (file_write ?o ?bs d)" by (simp add: length_file_write)
  from read32_main_ok [OF f assms(2) this]
  obtain s2 where s2: "read32_main [q, path, off] s1 = Inr (0, s2)" "same_fds s1 s2"
    "s2 = s1\<lparr>outs := outs s1 @ read32_text (atoi off) (bslice ?o 4 (file_write ?o ?bs d)), fdt := fdt s2\<rparr>" by blast
  have "bslice ?o 4 (file_write ?o ?bs d) = ?bs" using bslice_file_write [of ?o ?bs d] by simp
  then have "outs s2 = outs s1 @ read32_text (atoi off) ?bs" by (subst s2(3)) simp
  then show ?thesis
    using s1(1) s2(1) same_fds_trans [OF s1(2) s2(2)] o1
    by (simp add: bindS_def write32_text_def read32_text_def le_val_low_bytes ucast_ulong_of)
qed

text \<open>
  What \<open>write32\<close> stores, \<open>read32\<close> reports: for an offset that is not negative both
  succeed and print the same eight hexadecimal digits, those of the value cut to 32 bits.
\<close>

theorem write32_read32:
  assumes "files s path = Some d" and "0 \<le> atoi off"
  shows "\<exists>s'. bindS (write32_main [p, path, off, v]) (\<lambda>_. read32_main [q, path, off]) s = Inr (0, s') \<and> same_fds s s' \<and>
    outs s' = outs s @ ''write int 0x'' @ pad_left CHR ''0'' 8 (hexn (unat (word_of_int (atoi v) :: u32))) @
      '' to offset 0x'' @ hexn (nat (atoi off)) @ [NL] @ ''read int from offset 0x'' @ hexn (nat (atoi off)) @
      '' -> 0x'' @ pad_left CHR ''0'' 8 (hexn (unat (word_of_int (atoi v) :: u32))) @ [NL]"
  using assms by (rule write32_read32_run)

theorem write32_read32_witness:
  "\<exists>s'. bindS (write32_main [''p'', ''f'', decn 2, ''-1'']) (\<lambda>_. read32_main [''q'', ''f'', decn 2]) small_os = Inr (0, s')"
  using write32_read32 [of small_os "''f''" "[1, 2, 200, 4, 5, 6]" "decn 2" "''p''" "''-1''" "''q''"]
  by (auto simp: small_os_def atoi_decn)

text \<open>\<open>%c\<close> takes the \<open>int\<close> back to a character.\<close>

lemma char_of_scast: "char_of (unat (scast (b :: byte) :: u32)) = char_of_byte b"
proof -
  have "ucast (scast b :: u32) = b"
    by (rule bit_word_eqI) (auto simp: bit_simps)
  moreover have "unat (ucast (scast b :: u32) :: byte) = unat (scast b :: u32) mod 256"
    by (simp only: unsigned_ucast_eq take_bit_eq_mod) simp
  ultimately have "unat (scast b :: u32) mod 256 = unat b" by simp
  then show ?thesis unfolding char_of_byte_def by (metis char_of_mod_256)
qed

text \<open>A character of 128 or more is promoted to a negative \<open>int\<close>: eight digits instead of two.\<close>

lemma sint_byte: "sint (b :: byte) = (if unat b < 128 then int (unat b) else int (unat b) - 256)"
proof -
  define u where "u = uint b"
  have u: "0 \<le> u" "u < 256" using unsigned_less [of b, where ?'a = int] by (simp_all add: u_def)
  have "sint b = signed_take_bit 7 u" by (simp add: sint_uint u_def)
  also have "\<dots> = (u + 128) mod 256 - 128" by (simp add: signed_take_bit_eq_take_bit_shift take_bit_eq_mod)
  finally have s: "sint b = (u + 128) mod 256 - 128" .
  have n: "unat b = nat u" by (simp only: u_def unat_eq_nat_uint)
  show ?thesis
  proof (cases "u < 128")
    case True
    then have "(u + 128) mod 256 = u + 128" using u by (intro mod_pos_pos_trivial) simp_all
    then show ?thesis using s n u True by simp
  next
    case False
    then have "(u + 128) mod 256 = u - 128" 
      using u mod_pos_pos_trivial [of "u - 128" 256] mod_add_self2 [of "u - 128" 256] by (simp add: algebra_simps)
    then show ?thesis using s n u False by simp
  qed
qed

lemma unat_scast_byte:
  "unat (scast (b :: byte) :: u32) = (if unat b < 128 then unat b else 4294967040 + unat b)"
proof -
  have u: "uint (scast b :: u32) = sint b mod 4294967296"
    by (simp only: scast_eq uint_word_of_int) simp
  have b: "unat b < 256" by (rule unat_byte_bound)
  show ?thesis
  proof (cases "unat b < 128")
    case True
    then have "sint b mod 4294967296 = int (unat b)" using b mod_pos_pos_trivial [of "int (unat b)" 4294967296] by (simp only: sint_byte if_True)
    then show ?thesis using True u by (simp only: unat_eq_nat_uint [of "scast b"] if_True nat_int)
  next
    case False
    then have "sint b mod 4294967296 = int (4294967040 + unat b)"
      using b mod_pos_pos_trivial [of "int (unat b) - 256 + 4294967296" 4294967296] mod_add_self2 [of "int (unat b) - 256" 4294967296]
      by (simp only: sint_byte if_False)
    then show ?thesis using False u by (simp only: unat_eq_nat_uint [of "scast b"] if_False nat_int)
  qed
qed

lemma hexn_ffffff: "hexn 0xffffff = ''ffffff''" by (simp add: digits.simps hexd_def; code_simp)

lemma hexn_sign_extended: "128 \<le> n \<Longrightarrow> n < 256 \<Longrightarrow> hexn (4294967040 + n) = ''ffffff'' @ hexn n"
proof -
  assume n: "128 \<le> n" "n < 256"
  have d: "(4294967040 + n) div 16 div 16 = 0xffffff" "(4294967040 + n) div 16 mod 16 = n div 16"
    "(4294967040 + n) mod 16 = n mod 16" "n div 16 < 16" "\<not> n < 16"
  proof -
    have a: "4294967040 + n = n + 268435440 * 16" by simp
    then have q: "(4294967040 + n) div 16 = n div 16 + 16777215 * 16" by simp
    show "n div 16 < 16" "\<not> n < 16" using n by simp_all
    then show "(4294967040 + n) div 16 div 16 = 0xffffff" "(4294967040 + n) div 16 mod 16 = n div 16"
      unfolding q by (simp, simp only: mod_mult_self1 mod_less)
    show "(4294967040 + n) mod 16 = n mod 16" unfolding a by (rule mod_mult_self1)
  qed
  have "hexn (4294967040 + n) = hexn ((4294967040 + n) div 16) @ [hexd ((4294967040 + n) mod 16)]"
    by (subst digits.simps) simp
  also have "hexn ((4294967040 + n) div 16) = hexn ((4294967040 + n) div 16 div 16) @ [hexd ((4294967040 + n) div 16 mod 16)]"
    by (subst digits.simps) (simp add: div_less_iff_less_mult)
  finally have "hexn (4294967040 + n) = ''ffffff'' @ [hexd (n div 16), hexd (n mod 16)]"
    by (simp only: d hexn_ffffff) simp
  moreover have "hexn n = hexn (n div 16) @ [hexd (n mod 16)]" using d(5) by (subst digits.simps) simp
  moreover have "hexn (n div 16) = [hexd (n div 16)]" using d(4) by (subst digits.simps) simp
  ultimately show ?thesis by simp
qed

definition read8_digits :: "byte \<Rightarrow> string" where
  "read8_digits b = (if unat b < 128 then pad_left CHR ''0'' 2 (hexn (unat b)) else ''ffffff'' @ hexn (unat b))"

lemma fmt_char_digits: "vsprintf ''%02x\<newline>'' [AInt (scast (b :: byte))] = Inr (read8_digits b @ [NL])"
proof (cases "unat b < 128")
  case True
  then show ?thesis by (simp add: fmt_02x_nl unat_scast_byte read8_digits_def)
next
  case False
  then have "hexn (unat (scast b :: u32)) = ''ffffff'' @ hexn (unat b)"
    using hexn_sign_extended [of "unat b"] unat_byte_bound [of b] by (simp only: unat_scast_byte if_False)
  then show ?thesis using False by (simp add: fmt_02x_nl read8_digits_def pad_left_def)
qed

lemma read8_main_cases:
  assumes "files s path = Some d" and "0 \<le> atoi off"
  shows "nat (atoi off) < length d \<Longrightarrow> \<exists>s'. read8_main [prog, path, off] s = Inr (0, s') \<and> same_fds s s' \<and>
      s' = s\<lparr>outs := outs s @ read8_digits (d ! nat (atoi off)) @ [NL, char_of_byte (d ! nat (atoi off)), NL], fdt := fdt s'\<rparr>"
    and "length d \<le> nat (atoi off) \<Longrightarrow> read8_main [prog, path, off] s = Inl UninitRead"
proof -
  let ?o = "nat (atoi off)" and ?b = "d ! nat (atoi off)"
  obtain fd s1 where s1: "sys_open path s = Inr (fd, s1)" "fd \<noteq> - 1" "opened fd path s s1" "s1 = s\<lparr>fdt := fdt s1\<rparr>"
    using sys_open_opens [of s path, OF assms(1)] by blast
  have "files s1 path = Some d" by (subst s1(4)) (simp add: assms(1))
  then obtain s2 where s2: "seek_get fd (atoi off) 1 s1 = Inr (Some (bslice ?o 1 d), s2)" "opened fd path s s2" "s2 = s1\<lparr>fdt := fdt s2\<rparr>"
    using seeking.get_ok [OF s1(3) _ assms(2)] by blast
  note step = read8_main_def bindS_Inr [where m = "sys_open path" and s = s, OF s1(1)] atoi_ulong(1) Let_def
    seek_get_bind [OF s1(3) assms(2)] bindS_Inr [where m = "seek_get fd (atoi off) 1" and s = s1, OF s2(1)]
  show "read8_main [prog, path, off] s = Inl UninitRead" if "length d \<le> ?o"
    using that s1(2) by (simp add: step bslice_def bindS_liftS_Inl del: One_nat_def)
  assume l: "?o < length d"
  have b: "bslice ?o 1 d = [?b]" using l by (simp add: bslice_def take_Suc_conv_app_nth Cons_nth_drop_Suc [symmetric])
  define t1 where "t1 = read8_digits ?b @ [NL]"
  define t2 where "t2 = [char_of_byte ?b, NL]"
  have p1: "printf ''%02x\<newline>'' [AInt (scast ?b)] s2 = Inr ((), s2\<lparr>outs := outs s2 @ t1\<rparr>)"
    by (rule printf_text) (simp add: fmt_char_digits t1_def)
  have p2: "printf ''%c\<newline>'' [AInt (scast ?b)] (s2\<lparr>outs := outs s2 @ t1\<rparr>) = Inr ((), s2\<lparr>outs := outs s2 @ t1 @ t2\<rparr>)"
    by (simp only: printf_text [OF fmt_c_nl] char_of_scast) (simp add: t2_def)
  have "opened fd path s (s2\<lparr>outs := outs s2 @ t1 @ t2\<rparr>)" using s2(2) by simp
  then obtain s3 where s3: "close_ignoring fd (s2\<lparr>outs := outs s2 @ t1 @ t2\<rparr>) = Inr ((), s3)" "same_fds s s3"
    "s3 = s2\<lparr>outs := outs s2 @ t1 @ t2, fdt := fdt s3\<rparr>"
    using close_opened by fastforce
  have "s3 = s\<lparr>outs := outs s @ read8_digits ?b @ [NL, char_of_byte ?b, NL], fdt := fdt s3\<rparr>"
    by (subst s3(3), subst s2(3), subst s2(3), subst s1(4), subst s1(4)) (simp add: t1_def t2_def)
  then show "\<exists>s'. read8_main [prog, path, off] s = Inr (0, s') \<and> same_fds s s' \<and>
      s' = s\<lparr>outs := outs s @ read8_digits ?b @ [NL, char_of_byte ?b, NL], fdt := fdt s'\<rparr>"
    using s1(2) s3(2)
    by (simp add: step b bindS_Inr [where m = "printf f a" for f a, OF p1] bindS_Inr [where m = "printf f a" for f a, OF p2]
        bindS_Inr [where m = "close_ignoring fd", OF s3(1)] returnS_apply del: One_nat_def)
qed

text \<open>
  \<open>read8\<close> inside the file prints the byte in hexadecimal and as a character, but a
  byte of 128 or more with six digits \<open>f\<close> in front, because \<open>char\<close> is signed; at or
  past the end of the file it prints a variable that was never written.
\<close>

theorem read8_outcomes:
  assumes "files s path = Some d" and "0 \<le> atoi off"
  shows "if nat (atoi off) < length d
    then \<exists>s'. read8_main [prog, path, off] s = Inr (0, s') \<and> same_fds s s' \<and>
      outs s' = outs s @ (if unat (d ! nat (atoi off)) < 128 then pad_left CHR ''0'' 2 (hexn (unat (d ! nat (atoi off))))
        else ''ffffff'' @ hexn (unat (d ! nat (atoi off)))) @ [NL, char_of_byte (d ! nat (atoi off)), NL]
    else read8_main [prog, path, off] s = Inl UninitRead"
proof (cases "nat (atoi off) < length d")
  case True
  then obtain s' where "read8_main [prog, path, off] s = Inr (0, s')" "same_fds s s'"
    "s' = s\<lparr>outs := outs s @ read8_digits (d ! nat (atoi off)) @ [NL, char_of_byte (d ! nat (atoi off)), NL], fdt := fdt s'\<rparr>"
    using read8_main_cases(1) [OF assms] by blast
  moreover from this(3) have "outs s' = outs s @ read8_digits (d ! nat (atoi off)) @ [NL, char_of_byte (d ! nat (atoi off)), NL]"
    by (metis os.select_convs(6) os.surjective os.update_convs(2) os.update_convs(6))
  ultimately show ?thesis using True by (simp add: read8_digits_def)
next
  case False
  then show ?thesis using read8_main_cases(2) [OF assms] by simp
qed

theorem read8_outcomes_witness:
  "(\<exists>s'. read8_main [''p'', ''f'', decn 2] small_os = Inr (0, s')) \<and> read8_main [''p'', ''f'', decn 6] small_os = Inl UninitRead"
  using read8_outcomes [of small_os "''f''" "[1, 2, 200, 4, 5, 6]" "decn 2" "''p''"]
    read8_outcomes [of small_os "''f''" "[1, 2, 200, 4, 5, 6]" "decn 6" "''p''"]
  by (auto simp: small_os_def atoi_decn)

end
