(* ===== verification/RecordTool.thy ===== *)
theory RecordTool
  imports FileTools
begin

text \<open>
  What \<open>perftools/io/t.c\<close> prints: one line for every complete record of 24 bytes, with
  the time stamp as a 16-digit number although it is printed byte by byte, and how it ends
  for files that are missing, cut short or skipped into.
\<close>

subsection \<open>Hexadecimal numbers of fixed width\<close>

primrec hex_fixed :: "nat \<Rightarrow> nat \<Rightarrow> string" where
  "hex_fixed 0 n = []"
| "hex_fixed (Suc k) n = hex_fixed k (n div 16) @ [hexd (n mod 16)]"

lemma length_hex_fixed [simp]: "length (hex_fixed k n) = k"
  by (induction k arbitrary: n) simp_all

lemma hex_fixed_zero: "hex_fixed k 0 = replicate k CHR ''0''"
proof (induction k)
  case (Suc k)
  have "hexd 0 = CHR ''0''" by (simp add: hexd_def; code_simp)
  then show ?case using Suc by (simp add: replicate_append_same)
qed simp

lemma pad_hexn: "n < 16 ^ Suc k \<Longrightarrow> pad_left CHR ''0'' (Suc k) (hexn n) = hex_fixed (Suc k) n"
proof (induction k arbitrary: n)
  case 0
  then show ?case by (subst digits.simps) (simp add: pad_left_def)
next
  case (Suc k)
  show ?case
  proof (cases "n < 16")
    case True
    then have "hexn n = [hexd n]" by (subst digits.simps) simp
    then show ?thesis using True by (simp add: pad_left_def hex_fixed_zero replicate_append_same del: replicate.simps) 
  next
    case False
    then have h: "hexn n = hexn (n div 16) @ [hexd (n mod 16)]" by (subst digits.simps) simp
    have "n div 16 < 16 ^ Suc k" using Suc.prems by (simp add: less_mult_imp_div_less mult.commute)
    then have "pad_left CHR ''0'' (Suc k) (hexn (n div 16)) = hex_fixed (Suc k) (n div 16)" by (rule Suc.IH)
    then show ?thesis unfolding h by (simp add: pad_left_def)
  qed
qed

lemma hex_fixed_add: "hex_fixed (a + b) n = hex_fixed a (n div 16 ^ b) @ hex_fixed b n"
  by (induction b arbitrary: n) (simp_all add: div_mult2_eq)

lemma hex_fixed_mod: "hex_fixed b (x * 16 ^ b + y) = hex_fixed b y"
proof (induction b arbitrary: y)
  case (Suc b)
  have "(x * 16 ^ Suc b + y) div 16 = x * 16 ^ b + y div 16"
    by (simp add: mult.assoc [symmetric] mult.commute [of 16] div_mult_self4)
  moreover have "(x * 16 ^ Suc b + y) mod 16 = y mod 16"
    by (simp add: mult.left_commute [of x])
  ultimately show ?case using Suc by simp
qed simp

subsection \<open>A record\<close>

lemma le_val_append: "le_val (xs @ ys) = le_val xs + 256 ^ length xs * le_val ys"
  by (induction xs) (simp_all add: algebra_simps)

lemma unat_byte_int: "unat (ucast (b :: byte) :: u32) = unat b"
proof -
  have "unat b < 4294967296" by (rule less_trans [OF unat_byte_bound]) simp
  then show ?thesis by (simp add: unsigned_ucast_eq take_bit_nat_eq_self)
qed

lemma hex_down_fixed:
  "k + 8 \<le> length buf \<Longrightarrow> hex_down buf k = Inr (hex_fixed (2 * k) (le_val (bslice 8 k buf)))"
proof (induction k)
  case 0
  then show ?case by simp
next
  case (Suc k)
  let ?b = "buf ! (8 + k)" and ?v = "le_val (bslice 8 k buf)"
  have "vsprintf ''%02x'' [AInt (ucast ?b)] = Inr (pad_left CHR ''0'' (Suc 1) (hexn (unat ?b)))"
    by (simp add: fmt_02x unat_byte_int numeral_2_eq_2)
  also have "pad_left CHR ''0'' (Suc 1) (hexn (unat ?b)) = hex_fixed 2 (unat ?b)"
    by (subst pad_hexn) (simp_all add: numeral_2_eq_2 unat_byte_bound [of ?b, simplified])
  finally have f: "vsprintf ''%02x'' [AInt (ucast ?b)] = Inr (hex_fixed 2 (unat ?b))" .
  have "bslice 8 (Suc k) buf = bslice 8 k buf @ [?b]"
    using Suc.prems by (simp add: bslice_def take_Suc_conv_app_nth)
  then have "le_val (bslice 8 (Suc k) buf) = unat ?b * 16 ^ (2 * k) + ?v"
    using Suc.prems by (simp add: le_val_append power_mult)
  moreover have "?v < 16 ^ (2 * k)"
    using le_val_bound [of "bslice 8 k buf"] Suc.prems by (simp add: power_mult)
  ultimately have "hex_fixed (2 + 2 * k) (le_val (bslice 8 (Suc k) buf)) = hex_fixed 2 (unat ?b) @ hex_fixed (2 * k) ?v"
    by (simp only: hex_fixed_add hex_fixed_mod) simp
  then show ?case using Suc f by (simp add: buf_at_Inr)
qed

text \<open>What is printed for one record: time, process and thread.\<close>

definition record_text :: "byte list \<Rightarrow> string" where
  "record_text r =
     pad_left CHR ''0'' 16 (hexn (le_val (bslice 8 8 r))) @ '' pid='' @ deci (sint (word_of_nat (le_val (bslice 16 4 r)) :: u32)) @
     '' tid='' @ deci (sint (word_of_nat (le_val (bslice 20 4 r)) :: u32)) @ [NL]"

lemma fmt_pid_tid [fmt_simps]:
  "vsprintf ''pid=%d '' [AInt a] = Inr (''pid='' @ deci (sint a) @ '' '')"
  "vsprintf ''tid=%d'' [AInt a] = Inr (''tid='' @ deci (sint a))"
  by (simp_all add: fmt_eval pad_left_def)

lemma record_line_text: "length r = 24 \<Longrightarrow> record_line r = Inr (record_text r)"
proof -
  assume l: "length r = 24"
  have "le_val (bslice 8 8 r) < 256 ^ 8" using le_val_bound [of "bslice 8 8 r"] l by simp
  then have "pad_left CHR ''0'' (Suc 15) (hexn (le_val (bslice 8 8 r))) = hex_fixed (Suc 15) (le_val (bslice 8 8 r))"
    by (intro pad_hexn) simp
  moreover have "Suc 15 = 16" "2 * 8 = (16 :: nat)" by simp_all
  ultimately have "hex_down r 8 = Inr (pad_left CHR ''0'' 16 (hexn (le_val (bslice 8 8 r))))"
    using hex_down_fixed [of 8 r] l by simp
  then show ?thesis using l
    by (simp add: record_line_def record_text_def get32_def get_le_def fmt_pid_tid fmt_plain NL_def)
qed

subsection \<open>The loop\<close>

definition records :: "byte list \<Rightarrow> byte list list" where
  "records d = map (\<lambda>i. bslice (24 * i) 24 d) [0..<length d div 24]"

definition records_text :: "byte list \<Rightarrow> string" where
  "records_text d = concat (map record_text (records d)) @ (if length d mod 24 = 0 then ''read finished\<newline>'' else [])"

lemma records_text_Cons:
  assumes "24 \<le> length d"
  shows "records_text d = record_text (take 24 d) @ records_text (drop 24 d)"
proof -
  have "length d div 24 = Suc (length (drop 24 d) div 24)" using assms by (simp add: le_div_geq)
  then have "records d = take 24 d # records (drop 24 d)"
    by (simp add: records_def bslice_def upt_conv_Cons map_Suc_upt [symmetric] add.commute del: upt_Suc)
  moreover have "length d mod 24 = length (drop 24 d) mod 24" using assms by (simp add: le_mod_geq)
  ultimately show ?thesis by (simp add: records_text_def)
qed

lemma records_text_short: "length d < 24 \<Longrightarrow> records_text d = (if d = [] then ''read finished\<newline>'' else [])"
  by (simp add: records_text_def records_def)

lemma records_loop_text:
  assumes "opened fd path s0 s" and "fd_lookup fd s = Some (path, pos)" and "files s path = Some d"
    and "length (drop pos d) div 24 < fuel"
  shows "\<exists>s'. records_loop fuel fd s = Inr ((), s') \<and> opened fd path s0 s' \<and>
    s' = s\<lparr>outs := outs s @ records_text (drop pos d), fdt := fdt s'\<rparr>"
  using assms
proof (induction fuel arbitrary: s pos)
  case (Suc fuel)
  define r where "r = drop pos d"
  obtain s1 where s1: "sys_read fd 24 s = Inr (Some (take 24 r), s1)" "opened fd path s0 s1"
    "fd_lookup fd s1 = Some (path, pos + length (take 24 r))" "s1 = s\<lparr>fdt := fdt s1\<rparr>"
    using read_opened [OF Suc.prems(1-3), of 24] by (auto simp: bslice_def r_def)
  note step = bindS_Inr [where m = "sys_read fd 24" and s = s, OF s1(1)]
  consider (full) "24 \<le> length r" | (none) "r = []" | (part) "length r < 24" "r \<noteq> []" by (cases "r = []") force+
  then show ?case
  proof cases
    case full
    define s2 where "s2 = s1\<lparr>outs := outs s1 @ record_text (take 24 r)\<rparr>"
    have "length (take 24 r) = 24" "take 24 r \<noteq> []" using full by auto
    then have "records_loop (Suc fuel) fd s = records_loop fuel fd s2"
      by (simp add: step record_line_text s2_def) (simp add: bindS_def put_out_def)
    moreover have "opened fd path s0 s2" "fd_lookup fd s2 = Some (path, pos + 24)"
      using s1(2,3) full by (simp_all add: s2_def)
    moreover have "files s2 path = Some d" using Suc.prems(3) by (simp add: s2_def, subst s1(4)) simp
    moreover have "length (drop (pos + 24) d) div 24 < fuel"
      using Suc.prems(4) full by (simp add: le_div_geq r_def)
    ultimately obtain s3 where s3: "records_loop (Suc fuel) fd s = Inr ((), s3)" "opened fd path s0 s3"
      "s3 = s2\<lparr>outs := outs s2 @ records_text (drop (pos + 24) d), fdt := fdt s3\<rparr>"
      using Suc.IH by metis
    have "drop (pos + 24) d = drop 24 r" by (simp add: add.commute r_def)
    then have "s3 = s\<lparr>outs := outs s @ records_text r, fdt := fdt s3\<rparr>"
      by (subst s3(3), simp only: s2_def records_text_Cons [OF full]) (subst s1(4), subst s1(4), simp)
    then show ?thesis using s3(1,2) unfolding r_def by blast
  next
    case none
    have "records_loop (Suc fuel) fd s = Inr ((), s1\<lparr>outs := outs s1 @ ''read finished\<newline>''\<rparr>)"
      using none by (simp add: step) (simp add: bindS_def printf_text [OF fmt_plain] returnS_def)
    moreover have "s1\<lparr>outs := outs s1 @ ''read finished\<newline>''\<rparr> =
        s\<lparr>outs := outs s @ records_text r, fdt := fdt (s1\<lparr>outs := outs s1 @ ''read finished\<newline>''\<rparr>)\<rparr>"
      using none by (subst s1(4), subst s1(4)) (simp add: records_text_short)
    ultimately show ?thesis using s1(2) unfolding r_def by (metis opened_other_fields(1))
  next
    case part
    have "records_loop (Suc fuel) fd s = Inr ((), s1)" using part by (simp add: step returnS_def)
    moreover have "s1 = s\<lparr>outs := outs s @ records_text r, fdt := fdt s1\<rparr>"
      using part by (subst s1(4)) (simp add: records_text_short)
    ultimately show ?thesis using s1(2) unfolding r_def by blast
  qed
qed simp

subsection \<open>The program\<close>

text \<open>Between two states this text was printed, and only descriptors changed besides.\<close>

definition printed :: "string \<Rightarrow> os \<Rightarrow> os \<Rightarrow> bool" where
  "printed t s s' = (s' = s\<lparr>outs := outs s @ t, fdt := fdt s'\<rparr>)"

lemma printed_trans: "printed t s s1 \<Longrightarrow> printed u s1 s2 \<Longrightarrow> printed (t @ u) s s2"
  by (cases s; cases s1; cases s2) (simp add: printed_def)

lemma printed_nothing: "s1 = s\<lparr>fdt := fdt s1\<rparr> \<Longrightarrow> printed [] s s1"
  by (simp add: printed_def)

lemma printed_text: "printed t s (s\<lparr>outs := outs s @ t\<rparr>)"
  by (simp add: printed_def)

lemma t_opts_skip: "t_opts (map (\<lambda>a. (CHR ''s'', a)) args) k = returnS (Inr (if args = [] then k else atoi (last args)))"
  by (induction args arbitrary: k) simp_all

definition skip_of :: "string list \<Rightarrow> int" where
  "skip_of args = (if args = [] then 0 else atoi (last args))"

lemma t_main_present:
  assumes "files s file = Some d" and "length d div 24 < fuel"
  shows "\<exists>s'. t_main fuel (map (\<lambda>a. (CHR ''s'', a)) args) file s = Inr (0, s') \<and> same_fds s s' \<and>
    s' = s\<lparr>outs := outs s @ file @ [NL] @ (if skip_of args < 0 then ''lseek error\<newline>'' @ records_text d
      else records_text (drop (nat (skip_of args)) d)), fdt := fdt s'\<rparr>"
proof -
  define sa where "sa = s\<lparr>outs := outs s @ file @ [NL]\<rparr>"
  define p where "p = (if skip_of args < 0 then 0 else nat (skip_of args))"
  define e where "e = (if skip_of args < 0 then ''lseek error\<newline>'' else [])"
  have fa: "files sa file = Some d" by (simp add: sa_def assms(1))
  obtain fd s1 where s1: "sys_open file sa = Inr (fd, s1)" "fd \<noteq> - 1" "opened fd file sa s1" "s1 = sa\<lparr>fdt := fdt s1\<rparr>"
    using sys_open_opens [OF fa] by blast
  have "\<exists>s2. sys_lseek fd (skip_of args) s1 = Inr ((if skip_of args < 0 then - 1 else skip_of args), s2) \<and>
      opened fd file sa s2 \<and> fd_lookup fd s2 = Some (file, p) \<and> s2 = s1\<lparr>fdt := fdt s2\<rparr>"
  proof (cases "skip_of args < 0")
    case True
    have "fd_lookup fd s1 = Some (file, 0)" using s1(1) by (auto simp: sys_open_def fa fd_lookup_set_slot)
    then show ?thesis using True lseek_opened(2) [OF s1(3) True] s1(3) by (intro exI [of _ s1]) (simp add: p_def)
  next
    case False
    then show ?thesis using lseek_opened(1) [OF s1(3)] by (fastforce simp: p_def)
  qed
  then obtain s2 where s2: "sys_lseek fd (skip_of args) s1 = Inr ((if skip_of args < 0 then - 1 else skip_of args), s2)"
    "opened fd file sa s2" "fd_lookup fd s2 = Some (file, p)" "s2 = s1\<lparr>fdt := fdt s2\<rparr>" by (elim exE conjE) (rule that)
  define s3 where "s3 = s2\<lparr>outs := outs s2 @ e\<rparr>"
  have "files s3 file = Some d" by (simp add: s3_def, subst s2(4), subst s1(4)) (simp add: sa_def assms(1))
  moreover have "length (drop p d) div 24 < fuel"
    using assms(2) div_le_mono [of "length (drop p d)" "length d" 24] by simp
  ultimately obtain s4 where s4: "records_loop fuel fd s3 = Inr ((), s4)" "opened fd file sa s4"
    "s4 = s3\<lparr>outs := outs s3 @ records_text (drop p d), fdt := fdt s4\<rparr>"
    using records_loop_text [of fd "file" sa s3 p d fuel] s2(2,3) by (auto simp: s3_def)
  obtain s5 where s5: "close_ignoring fd s4 = Inr ((), s5)" "same_fds sa s5" "s5 = s4\<lparr>fdt := fdt s5\<rparr>"
    using close_opened [OF s4(2)] by blast
  note run = t_main_def t_opts_skip skip_of_def [symmetric]
    bindS_Inr [where m = "printf f a" and s = s for f a, OF printf_text [OF fmt_s_nl]] sa_def [symmetric]
    bindS_Inr [where m = "sys_open file" and s = sa, OF s1(1)] s1(2)
    bindS_Inr [where m = "records_loop fuel fd", OF s4(1)] bindS_Inr [where m = "close_ignoring fd", OF s5(1)] returnS_apply
  have r1: "t_main fuel (map (\<lambda>a. (CHR ''s'', a)) args) file s = Inr (0, s5)"
  proof (cases "skip_of args < 0")
    case True
    have l: "sys_lseek fd (skip_of args) s1 = Inr (- 1, s2)" using s2(1) True by simp
    have "printf ''lseek error\<newline>'' [] s2 = Inr ((), s3)" using True by (simp add: s3_def e_def printf_text [OF fmt_plain])
    note m = bindS_Inr [where m = "printf f a" and s = s2 for f a, OF this]
    show ?thesis by (simp add: run bindS_Inr [where m = "sys_lseek fd (skip_of args)" and s = s1, OF l] m del: append_assoc)
  next
    case False
    then have l: "sys_lseek fd (skip_of args) s1 = Inr (skip_of args, s3)" using s2(1) by (simp add: s3_def e_def)
    have "skip_of args \<noteq> - 1" using False by simp
    then show ?thesis by (simp add: run bindS_Inr [where m = "sys_lseek fd (skip_of args)" and s = s1, OF l] del: append_assoc)
  qed
  have "printed ((file @ [NL]) @ [] @ [] @ e @ records_text (drop p d) @ []) s s5"
    using printed_text [of "file @ [NL]" s] printed_nothing [OF s1(4)] printed_nothing [OF s2(4)]
      printed_text [of e s2] s4(3) printed_nothing [OF s5(3)]
    unfolding sa_def [symmetric] s3_def [symmetric] printed_def [of "records_text (drop p d)", symmetric]
    by - ((rule printed_trans, assumption)+, assumption)
  then have r2: "s5 = s\<lparr>outs := outs s @ file @ [NL] @ e @ records_text (drop p d), fdt := fdt s5\<rparr>"
    by (simp add: printed_def)
  have r3: "e @ records_text (drop p d) = (if skip_of args < 0 then ''lseek error\<newline>'' @ records_text d
      else records_text (drop (nat (skip_of args)) d))" by (simp add: e_def p_def)
  have r4: "same_fds s s5" using s5(2) by (simp add: same_fds_def sa_def)
  show ?thesis by (intro exI [of _ s5] conjI r1 r4) (rule r2 [unfolded r3])
qed

text \<open>
  C7: \<open>t [-s num]... file\<close> prints the file name and then one line for each complete
  record after the skipped bytes, with the time as one number; a rest that is no complete
  record ends the run without a message. A negative skip is reported and then ignored. The
  loop ends within one round more than there are records in the file: with that bound the
  run does not reach \<open>NoReturn\<close>.
\<close>

theorem t_main_lists:
  assumes "files s file = Some d" and "length d div 24 < fuel"
  shows "\<exists>s'. t_main fuel (map (\<lambda>a. (CHR ''s'', a)) args) file s = Inr (0, s') \<and> same_fds s s' \<and>
    s' = s\<lparr>outs := outs s @ file @ [NL] @ (if skip_of args < 0 then ''lseek error\<newline>'' @ records_text d
      else records_text (drop (nat (skip_of args)) d)), fdt := fdt s'\<rparr>"
  using assms by (rule t_main_present)

text \<open>A file of one byte to skip, two records and two bytes more.\<close>

definition two_records :: "byte list" where
  "two_records = 9 # map word_of_nat [0..<48] @ [1, 2]"

theorem t_main_lists_witness:
  "\<exists>s'. t_main 3 (map (\<lambda>a. (CHR ''s'', a)) [decn 1]) ''f'' (small_os\<lparr>files := [''f'' \<mapsto> two_records]\<rparr>) = Inr (0, s') \<and>
     outs s' = outs small_os @ ''f'' @ [NL] @ record_text (map word_of_nat [0..<24]) @ record_text (map word_of_nat [24..<48])"
proof -
  have "length (drop 1 two_records) = 50" by (simp add: two_records_def)
  moreover have "bslice 0 24 (drop 1 two_records) = map word_of_nat [0..<24]" "bslice 24 24 (drop 1 two_records) = map word_of_nat [24..<48]"
    by (simp_all add: two_records_def bslice_def take_map drop_map)
  ultimately have r: "records_text (drop 1 two_records) = record_text (map word_of_nat [0..<24]) @ record_text (map word_of_nat [24..<48])"
    by (simp add: records_text_def records_def numeral_2_eq_2)
  have k: "skip_of [decn 1] = 1" by (simp add: skip_of_def atoi_decn del: One_nat_def)
  have l: "length two_records div 24 < 3" by (simp add: two_records_def)
  define s0 where "s0 = small_os\<lparr>files := [''f'' \<mapsto> two_records]\<rparr>"
  have f: "files s0 ''f'' = Some two_records" and o: "outs s0 = outs small_os" by (simp_all add: s0_def)
  have n: "\<not> skip_of [decn 1] < 0" "nat (skip_of [decn 1]) = 1" unfolding k by simp_all
  obtain s' where s': "t_main 3 (map (\<lambda>a. (CHR ''s'', a)) [decn 1]) ''f'' s0 = Inr (0, s')"
    "s' = s0\<lparr>outs := outs s0 @ ''f'' @ [NL] @ records_text (drop 1 two_records), fdt := fdt s'\<rparr>"
    using t_main_lists [OF f l, of "[decn 1]", unfolded n if_not_P [OF n(1)]] by blast
  moreover have "outs s' = outs s0 @ ''f'' @ [NL] @ records_text (drop 1 two_records)" by (subst s'(2)) simp
  ultimately show ?thesis unfolding s0_def [symmetric] r o by blast
qed

lemma t_main_absent:
  assumes "files s file = None" and "0 < fuel"
  shows "t_main fuel (map (\<lambda>a. (CHR ''s'', a)) args) file s =
    Inr (0, s\<lparr>outs := outs s @ file @ [NL] @ ''open error\<newline>'' @ ''lseek error\<newline>'' @ ''read error''\<rparr>)"
proof -
  obtain k where k: "fuel = Suc k" using assms(2) by (cases fuel) simp_all
  have l: "fd_lookup (- 1) s1 = None" for s1 by (simp add: fd_lookup_def)
  show ?thesis unfolding t_main_def t_opts_skip k
    by (simp add: bindS_def printf_text [OF fmt_s_nl] printf_text [OF fmt_plain] sys_open_def assms(1)
        sys_lseek_def sys_read_def l close_ignoring_def sys_close_def returnS_def)
qed

text \<open>
  When the file is missing, \<open>t\<close> goes on with the descriptor -1: it reports three
  errors one after the other and ends with status 0.
\<close>

theorem t_main_missing_file:
  assumes "files s file = None" and "0 < fuel"
  shows "t_main fuel (map (\<lambda>a. (CHR ''s'', a)) args) file s =
    Inr (0, s\<lparr>outs := outs s @ file @ [NL] @ ''open error\<newline>'' @ ''lseek error\<newline>'' @ ''read error''\<rparr>)"
  using assms by (rule t_main_absent)

theorem t_main_missing_file_witness: "\<exists>s'. t_main 5 [] ''g'' small_os = Inr (0, s')"
  using t_main_missing_file [of small_os "''g''" 5 "[]"] by (simp add: small_os_def)

end
