(* ===== verification/Mmapcat.thy ===== *)
theory Mmapcat
  imports FileStore
begin

unbundle bit_operations_syntax

text \<open>
  \<open>perftools/io/mmap/mmapcat.c\<close>: print a range of a file through a mapping. The page size
  is a parameter (\<open>sysconf\<close>). \<open>mmap\<close> refuses an empty range, a position that is not
  a multiple of the page size or is negative, and a range above \<open>avail\<close>; the mapping holds
  the file from that position, filled with zeros up to the end of a page. \<open>write\<close> fails
  for a count above \<open>SSIZE_MAX\<close> and for memory outside of the mapping. The result of the
  program is its exit status, \<open>handle_error\<close> being a message and status 1.
\<close>

definition sys_fstat :: "int \<Rightarrow> nat option sm" where
  "sys_fstat fd s = Inr (map_option length (fd_data fd s), s)"

definition round_up :: "nat \<Rightarrow> nat \<Rightarrow> nat" where "round_up ps n = (n + ps - 1) div ps * ps"

definition sys_mmap :: "nat \<Rightarrow> int \<Rightarrow> u64 \<Rightarrow> int \<Rightarrow> (string + byte list) sm" where
  "sys_mmap ps fd len off s =
     (if len = 0 \<or> off mod int ps \<noteq> 0 then Inr (Inl ''Invalid argument'', s)
      else if off < 0 then Inr (Inl ''Value too large for defined data type'', s)
      else if avail s < unat len then Inr (Inl ''Cannot allocate memory'', s)
      else (case fd_data fd s of
          None \<Rightarrow> Inr (Inl ''Bad file descriptor'', s)
        | Some d \<Rightarrow>
            let bs = bslice (nat off) (unat len) d
            in Inr (Inr (bs @ replicate (round_up ps (length bs) - length bs) 0), s)))"

definition write_stdout :: "byte list \<Rightarrow> nat \<Rightarrow> u64 \<Rightarrow> (string + u64) sm" where
  "write_stdout m off len s =
     (if 9223372036854775808 \<le> unat len then Inr (Inl ''Invalid argument'', s)
      else if length m < off + unat len then Inr (Inl ''Bad address'', s)
      else Inr (Inr len, s\<lparr>outs := outs s @ map char_of_byte (bslice off (unat len) m)\<rparr>))"

definition handle_error :: "string \<Rightarrow> string \<Rightarrow> int sm" where
  "handle_error msg why = bindS (put_err (msg @ '': '' @ why @ [NL])) (\<lambda>_. returnS 1)"

definition mmapcat_usage :: "unit sm" where
  "mmapcat_usage =
     bindS (put_err ([CHR 0x09] @ '' offset mush page aligned\<newline>'')) (\<lambda>_.
     put_err ([CHR 0x09] @ '' length default to size between offset and the end of file if ignored\<newline>''))"

text \<open>\<open>offset & ~(page size - 1)\<close>, on \<open>long\<close>.\<close>

definition page_start :: "nat \<Rightarrow> int \<Rightarrow> int" where
  "page_start ps offset = offset AND NOT (int ps - 1)"

text \<open>The length to print: \<open>offset + length > st_size\<close> compares as \<open>unsigned long\<close>.\<close>

definition mmapcat_length :: "string list \<Rightarrow> int \<Rightarrow> nat \<Rightarrow> u64" where
  "mmapcat_length argv offset fsize =
     (let rest = word_of_int (int fsize - offset)
      in if length argv = 4 then
           let l = ulong_of (atoi (argv ! 3))
           in if word_of_nat fsize < word_of_int offset + l then rest else l
         else rest)"

definition mmapcat_main :: "nat \<Rightarrow> string list \<Rightarrow> int sm" where
  "mmapcat_main ps argv =
     (if length argv < 3 \<or> 4 < length argv then
        bindS (eprintf ''%s file offset [length]\<newline>'' [AStr (argv ! 0)]) (\<lambda>_.
        bindS mmapcat_usage (\<lambda>_. returnS 1))
      else
        bindS (sys_open (argv ! 1)) (\<lambda>fd.
        if fd = - 1 then handle_error ''open'' ''No such file or directory''
        else
          bindS (sys_fstat fd) (\<lambda>sb.
          case sb of
            None \<Rightarrow> handle_error ''fstat'' ''Bad file descriptor''
          | Some fsize \<Rightarrow>
              let offset = atoi (argv ! 2); pa_offset = page_start ps offset
              in if int fsize \<le> offset then
                   bindS (put_err ''offset is past end of file\<newline>'') (\<lambda>_. returnS 1)
                 else
                   let len = mmapcat_length argv offset fsize
                   in bindS (sys_mmap ps fd (len + word_of_int offset - word_of_int pa_offset) pa_offset) (\<lambda>m.
                      case m of
                        Inl why \<Rightarrow> handle_error ''mmap'' why
                      | Inr addr \<Rightarrow>
                          bindS (write_stdout addr (nat (offset - pa_offset)) len) (\<lambda>r.
                          let s = (case r of Inl _ \<Rightarrow> - 1 | Inr n \<Rightarrow> n)
                          in if s \<noteq> len then
                               if s = - 1 then handle_error ''write'' (case r of Inl why \<Rightarrow> why | Inr _ \<Rightarrow> ''Success'')
                               else bindS (put_err ''partial write'') (\<lambda>_. returnS 1)
                             else returnS 0)))))"

subsection \<open>Page arithmetic\<close>

lemma page_start_multiple: "page_start (2 ^ k) i = i - i mod 2 ^ k"
proof -
  have "NOT (int (2 ^ k) - 1) = NOT (mask k :: int)" by (simp add: mask_eq_exp_minus_1)
  then have "page_start (2 ^ k) i = i AND NOT (mask k)" by (simp only: page_start_def)
  also have "\<dots> = push_bit k (drop_bit k i)" by (rule bit_eqI) (auto simp: bit_simps)
  also have "\<dots> = i - take_bit k i" using bits_ident [of k i] by linarith
  finally show ?thesis by (simp add: take_bit_eq_mod)
qed

lemma page_start_bounds:
  assumes "ps = 2 ^ k"
  shows "page_start ps (int n) = int (n - n mod ps)" and "page_start ps (int n) mod int ps = 0"
proof -
  have "int n mod 2 ^ k = int (n mod ps)" by (simp add: assms zmod_int)
  moreover have "n mod ps \<le> n" by simp
  ultimately show "page_start ps (int n) = int (n - n mod ps)"
    by (simp add: assms page_start_multiple of_nat_diff)
  show "page_start ps (int n) mod int ps = 0"
    by (simp add: assms page_start_multiple mod_diff_left_eq [symmetric])
qed

subsection \<open>What it prints\<close>

lemma word_of_nat_length: "n < 18446744073709551616 \<Longrightarrow> unat (word_of_nat n :: u64) = n"
  by (simp add: unat_of_nat)

text \<open>The map request, without wrap-around.\<close>

lemma map_request:
  assumes "ps = 2 ^ k"
  shows "len + word_of_nat n - word_of_int (page_start ps (int n)) = (len + word_of_nat (n mod ps) :: u64)"
proof -
  have "int n - page_start ps (int n) = int (n mod ps)"
    using page_start_bounds(1) [OF assms, of n] by (simp add: of_nat_diff)
  then have "word_of_nat n - word_of_int (page_start ps (int n)) = (word_of_nat (n mod ps) :: u64)"
    by (metis of_int_diff of_int_of_nat_eq)
  then show ?thesis by (metis add_diff_eq)
qed

lemma sys_mmap_ok:
  assumes "ps = 2 ^ k" and "fd_data fd s = Some d" and "len \<noteq> 0" and "unat len \<le> avail s"
  shows "\<exists>z. sys_mmap ps fd len (page_start ps (int n)) s =
    Inr (Inr (bslice (n - n mod ps) (unat len) d @ replicate z 0), s)"
proof -
  define a where "a = n - n mod ps"
  have p: "page_start ps (int n) = int a" "int a mod int ps = 0"
    using page_start_bounds [OF assms(1), of n] by (simp_all add: a_def)
  show ?thesis unfolding p(1) a_def [symmetric] using assms(2-4) p(2) by (auto simp: sys_mmap_def Let_def)
qed

text \<open>The part of the program after \<open>open\<close> and \<open>fstat\<close>.\<close>

definition mmapcat_tail :: "nat \<Rightarrow> string list \<Rightarrow> int \<Rightarrow> nat \<Rightarrow> int sm" where
  "mmapcat_tail ps argv fd fsize =
     (let offset = atoi (argv ! 2); pa_offset = page_start ps offset; len = mmapcat_length argv offset fsize
      in bindS (sys_mmap ps fd (len + word_of_int offset - word_of_int pa_offset) pa_offset) (\<lambda>m.
         case m of
           Inl why \<Rightarrow> handle_error ''mmap'' why
         | Inr addr \<Rightarrow>
             bindS (write_stdout addr (nat (offset - pa_offset)) len) (\<lambda>r.
             let s = (case r of Inl _ \<Rightarrow> - 1 | Inr n \<Rightarrow> n)
             in if s \<noteq> len then
                  if s = - 1 then handle_error ''write'' (case r of Inl why \<Rightarrow> why | Inr _ \<Rightarrow> ''Success'')
                  else bindS (put_err ''partial write'') (\<lambda>_. returnS 1)
                else returnS 0)))"

lemma mmapcat_main_tail:
  assumes "files s path = Some d" and "length argv = 3 \<or> length argv = 4" and "argv ! 1 = path"
    and "atoi (argv ! 2) < int (length d)"
  shows "\<exists>fd s1. mmapcat_main ps argv s = mmapcat_tail ps argv fd (length d) s1 \<and> fd_data fd s1 = Some d \<and>
    s1 = s\<lparr>fdt := fdt s1\<rparr>"
proof -
  obtain fd s1 where s1: "sys_open path s = Inr (fd, s1)" "fd \<noteq> - 1" "opened fd path s s1" "s1 = s\<lparr>fdt := fdt s1\<rparr>"
    using sys_open_opens [OF assms(1)] by blast
  have "files s1 path = Some d" by (subst s1(4)) (simp add: assms(1))
  then have d: "fd_data fd s1 = Some d" using s1(3) by (auto simp: fd_data_def opened_def)
  have "sys_fstat fd s1 = Inr (Some (length d), s1)" by (simp add: sys_fstat_def d)
  then have "mmapcat_main ps argv s = mmapcat_tail ps argv fd (length d) s1"
    using assms(2-4) s1(1,2) by (auto simp: mmapcat_main_def mmapcat_tail_def bindS_def Let_def)
  then show ?thesis using d s1(4) by blast
qed

lemma mmapcat_tail_prints:
  assumes "ps = 2 ^ k" and "fd_data fd s = Some d" and "atoi (argv ! 2) = int n"
    and "unat (mmapcat_length argv (int n) (length d)) = l" and "n + l \<le> length d" and "0 < l + n mod ps"
    and "length d + ps \<le> avail s" and "length d + ps < 9223372036854775808"
  shows "mmapcat_tail ps argv fd (length d) s = Inr (0, s\<lparr>outs := outs s @ map char_of_byte (bslice n l d)\<rparr>)"
proof -
  define len where "len = mmapcat_length argv (int n) (length d)"
  define q where "q = n mod ps"
  have "0 < ps" using assms(1) by simp
  then have q: "q < ps" "q \<le> n" by (simp_all add: q_def)
  then have "l + q < 18446744073709551616" using assms(5,8) by linarith
  moreover have "len + word_of_nat q = word_of_nat (l + q)" unfolding len_def assms(4) [symmetric] by simp
  ultimately have u: "unat (len + word_of_nat q) = l + q" by (simp only: word_of_nat_length)
  then have "len + word_of_nat q \<noteq> 0" using assms(6) by (auto simp: q_def)
  moreover have "unat (len + word_of_nat q) \<le> avail s" using u q assms(5,7) by linarith
  ultimately obtain z where m: "sys_mmap ps fd (len + word_of_nat q) (page_start ps (int n)) s =
      Inr (Inr (bslice (n - q) (l + q) d @ replicate z 0), s)"
    using sys_mmap_ok [OF assms(1,2), of "len + word_of_nat q" n] u by (auto simp: q_def)
  have o: "nat (int n - page_start ps (int n)) = q" using page_start_bounds(1) [OF assms(1), of n] q by (simp add: q_def)
  have "length (bslice (n - q) (l + q) d) = l + q" using assms(5) q by simp
  then have "bslice q l (bslice (n - q) (l + q) d @ replicate z 0) = bslice q l (bslice (n - q) (l + q) d)"
    by (simp add: bslice_def)
  also have "\<dots> = bslice n l d" using q by (simp add: bslice_bslice)
  finally have "write_stdout (bslice (n - q) (l + q) d @ replicate z 0) q len s =
      Inr (Inr len, s\<lparr>outs := outs s @ map char_of_byte (bslice n l d)\<rparr>)"
    using assms(4,5,8) q \<open>length (bslice (n - q) (l + q) d) = l + q\<close> by (simp add: write_stdout_def len_def)
  then show ?thesis
    using m o by (simp add: mmapcat_tail_def assms(3) Let_def map_request [OF assms(1)] len_def [symmetric] q_def [symmetric]
        bindS_def returnS_def)
qed

lemma unat_ulong_atoi: "atoi a = int m \<Longrightarrow> unat (ulong_of (atoi a)) = m \<and> m < 2147483648"
proof -
  assume a: "atoi a = int m"
  obtain w :: u32 where w: "atoi a = sint w"
    using that [of "word_of_int (if fst (signed_part a) then max (- 9223372036854775808) (- int (number 10 0 (snd (signed_part a))))
      else min 9223372036854775807 (int (number 10 0 (snd (signed_part a)))))"]
    by (auto simp: atoi_def Let_def case_prod_unfold)
  have "sint w < 2 ^ (LENGTH(32) - 1)" by (rule sint_lt)
  then have m: "m < 2147483648" using a w by simp
  then have "unat (ulong_of (int m)) = m" by (simp add: ulong_of_def unat_of_nat)
  then show ?thesis using m a by simp
qed

lemma mmapcat_length_min:
  assumes "length argv = 4" and "atoi (argv ! 3) = int m" and "n < length d" and "length d < 9223372036854775808"
  shows "unat (mmapcat_length argv (int n) (length d)) = min m (length d - n)"
proof -
  have m: "unat (ulong_of (atoi (argv ! 3))) = m" "m < 2147483648" using unat_ulong_atoi [OF assms(2)] by auto
  then have l: "ulong_of (int m) = word_of_nat m" by (simp add: ulong_of_def)
  have "word_of_nat n + word_of_nat m = (word_of_nat (n + m) :: u64)" by simp
  moreover have "n + m < 18446744073709551616" using m(2) assms(3,4) by linarith
  then have "unat (word_of_nat (n + m) :: u64) = n + m" by (rule word_of_nat_length)
  ultimately have c: "(word_of_nat (length d) < word_of_nat n + (word_of_nat m :: u64)) = (length d < n + m)"
    using word_of_nat_length [of "length d"] assms(4) by (simp only: word_less_nat_alt)
  have "unat (word_of_nat (length d - n) :: u64) = length d - n" "unat (word_of_nat m :: u64) = m"
    using assms(4) m(2) by (simp_all add: word_of_nat_length)
  moreover have "word_of_int (int (length d) - int n) = (word_of_nat (length d - n) :: u64)"
    using assms(3) by (metis of_int_of_nat_eq of_nat_diff less_imp_le)
  ultimately show ?thesis using assms(1-3) c by (simp add: mmapcat_length_def Let_def l)
qed

lemma mmapcat_length_rest:
  assumes "length argv = 3" and "n < length d" and "length d < 9223372036854775808"
  shows "unat (mmapcat_length argv (int n) (length d)) = length d - n"
proof -
  have "word_of_nat (length d) - word_of_nat n = (word_of_nat (length d - n) :: u64)"
    using assms(2) by (simp add: of_nat_diff)
  then have "unat (word_of_nat (length d) - word_of_nat n :: u64) = length d - n"
    using assms(3) by (simp only:) (rule word_of_nat_length, linarith)
  then show ?thesis using assms by (simp add: mmapcat_length_def Let_def word_of_nat_length)
qed

text \<open>How many bytes are asked for: all the rest without a third argument, never more than the rest.\<close>

definition asked :: "string list \<Rightarrow> nat \<Rightarrow> nat" where
  "asked argv rest = (if length argv = 4 then min (nat (atoi (argv ! 3))) rest else rest)"

lemma mmapcat_prints:
  assumes "files s path = Some d" and "length argv = 3 \<or> length argv = 4 \<and> 0 \<le> atoi (argv ! 3)" and "argv ! 1 = path"
    and "atoi (argv ! 2) = int n" and "n < length d" and "ps = 2 ^ k"
    and "length d + ps \<le> avail s" and "length d + ps < 9223372036854775808"
    and "asked argv (length d - n) \<noteq> 0 \<or> n mod ps \<noteq> 0"
  shows "\<exists>s'. mmapcat_main ps argv s = Inr (0, s') \<and>
    s' = s\<lparr>outs := outs s @ map char_of_byte (bslice n (asked argv (length d - n)) d), fdt := fdt s'\<rparr>"
proof -
  let ?l = "asked argv (length d - n)"
  have a: "length argv = 3 \<or> length argv = 4" using assms(2) by blast
  have o: "atoi (argv ! 2) < int (length d)" using assms(4,5) by simp
  have s8: "length d < 9223372036854775808" using assms(8) by linarith
  obtain fd s1 where s1: "mmapcat_main ps argv s = mmapcat_tail ps argv fd (length d) s1" "fd_data fd s1 = Some d"
    "s1 = s\<lparr>fdt := fdt s1\<rparr>"
    using mmapcat_main_tail [OF assms(1) a assms(3) o, of ps] by blast
  have l: "unat (mmapcat_length argv (int n) (length d)) = ?l"
    using assms(2,5) s8 mmapcat_length_rest [of argv n d] mmapcat_length_min [of argv "nat (atoi (argv ! 3))" n d]
    by (auto simp: asked_def)
  have "n + ?l \<le> length d" using assms(5) by (auto simp: asked_def)
  moreover have "length d + ps \<le> avail s1" by (subst s1(3)) (simp add: assms(7))
  ultimately have t: "mmapcat_tail ps argv fd (length d) s1 = Inr (0, s1\<lparr>outs := outs s1 @ map char_of_byte (bslice n ?l d)\<rparr>)"
    using mmapcat_tail_prints [OF assms(6) s1(2) assms(4) l _ _ _ assms(8)] assms(9) by auto
  define s2 where "s2 = s1\<lparr>outs := outs s1 @ map char_of_byte (bslice n ?l d)\<rparr>"
  have "s2 = s\<lparr>outs := outs s @ map char_of_byte (bslice n ?l d), fdt := fdt s2\<rparr>"
    unfolding s2_def by (subst s1(3), subst s1(3)) simp
  then show ?thesis using s1(1) t by (auto simp: s2_def)
qed

text \<open>
  C8: For an offset inside the file and a length that is not negative \<open>mmapcat\<close> prints
  exactly the bytes from the offset on, cut at the end of the file (all of them without a
  length), and ends with status 0; only no bytes at a page boundary are refused.
\<close>

theorem mmapcat_slice:
  assumes "files s path = Some d" and "length argv = 3 \<or> length argv = 4 \<and> 0 \<le> atoi (argv ! 3)" and "argv ! 1 = path"
    and "atoi (argv ! 2) = int n" and "n < length d" and "ps = 2 ^ k"
    and "length d + ps \<le> avail s" and "length d + ps < 9223372036854775808"
    and "asked argv (length d - n) \<noteq> 0 \<or> n mod ps \<noteq> 0"
  shows "\<exists>s'. mmapcat_main ps argv s = Inr (0, s') \<and>
    s' = s\<lparr>outs := outs s @ map char_of_byte (bslice n (asked argv (length d - n)) d), fdt := fdt s'\<rparr>"
  using assms by (rule mmapcat_prints)

definition mapped_os :: os where
  "mapped_os = \<lparr>files = [''f'' \<mapsto> [65, 66, 67, 68, 69, 70]], fdt = [None], avail = 100, live = [], fresh = 0, outs = [], errs = []\<rparr>"

theorem mmapcat_slice_witness:
  "\<exists>s'. mmapcat_main 4 [''m'', ''f'', decn 1] mapped_os = Inr (0, s')"
proof -
  have "\<exists>s'. mmapcat_main 4 [''m'', ''f'', decn 1] mapped_os = Inr (0, s') \<and> s' = mapped_os\<lparr>outs := outs mapped_os @
      map char_of_byte (bslice 1 (asked [''m'', ''f'', decn 1] (length [65, 66, 67, 68, 69, 70 :: byte] - 1)) [65, 66, 67, 68, 69, 70]),
      fdt := fdt s'\<rparr>"
    by (rule mmapcat_slice [of _ "''f''" _ _ _ _ 2]) (simp_all add: mapped_os_def atoi_decn asked_def)
  then show ?thesis by blast
qed

text \<open>A length of -1 is the value that marks a failed \<open>write\<close>.\<close>

lemma mmapcat_minus_one:
  assumes "files s path = Some d" and "length argv = 4" and "argv ! 1 = path" and "atoi (argv ! 3) = - 1"
    and "atoi (argv ! 2) = int n" and "n < length d" and "ps = 2 ^ k"
    and "length d + ps \<le> avail s" and "length d + ps < 9223372036854775808" and "2 \<le> n mod ps"
  shows "\<exists>s'. mmapcat_main ps argv s = Inr (0, s') \<and> s' = s\<lparr>fdt := fdt s'\<rparr>"
proof -
  have a: "length argv = 3 \<or> length argv = 4" and o: "atoi (argv ! 2) < int (length d)" using assms(2,5,6) by simp_all
  obtain fd s1 where s1: "mmapcat_main ps argv s = mmapcat_tail ps argv fd (length d) s1" "fd_data fd s1 = Some d"
    "s1 = s\<lparr>fdt := fdt s1\<rparr>"
    using mmapcat_main_tail [OF assms(1) a assms(3) o, of ps] by blast
  define q where "q = n mod ps"
  have q: "q \<le> n" "2 \<le> q" using assms(10) by (simp_all add: q_def)
  have "word_of_nat n + (- 1) = (word_of_nat (n - 1) :: u64)"
    using q by (simp add: of_nat_diff)
  moreover have "unat (word_of_nat (n - 1) :: u64) = n - 1" "unat (word_of_nat (length d) :: u64) = length d"
    using assms(6,9) by (simp_all add: word_of_nat_length)
  ultimately have "\<not> word_of_nat (length d) < (word_of_nat n + (- 1) :: u64)"
    using assms(6) by (simp only: word_less_nat_alt)
  then have len: "mmapcat_length argv (int n) (length d) = - 1"
    using assms(2,4) by (simp add: mmapcat_length_def Let_def ulong_of_def)
  have r: "- 1 + word_of_nat q = (word_of_nat (q - 1) :: u64)" using q by (simp add: of_nat_diff)
  have u: "unat (word_of_nat (q - 1) :: u64) = q - 1" using q assms(6,9) by (intro word_of_nat_length) linarith
  then have "word_of_nat (q - 1) \<noteq> (0 :: u64)" using q by auto
  moreover have "avail s1 = avail s" by (subst s1(3)) simp
  then have "unat (word_of_nat (q - 1) :: u64) \<le> avail s1" using u q assms(6,8) by linarith
  ultimately obtain b where m: "sys_mmap ps fd (word_of_nat (q - 1)) (page_start ps (int n)) s1 = Inr (Inr b, s1)"
    using sys_mmap_ok [OF assms(7) s1(2), of "word_of_nat (q - 1)" n] by blast
  have "write_stdout b x (- 1) s1 = Inr (Inl ''Invalid argument'', s1)" for x
    by (simp add: write_stdout_def unsigned_minus_1_eq_mask mask_eq_exp_minus_1)
  moreover have "word_of_nat n - 1 - word_of_int (page_start ps (int n)) = (word_of_nat (q - 1) :: u64)"
    using map_request [OF assms(7), of "- 1" n] r by (simp add: q_def diff_right_commute [of "word_of_nat n" 1])
  ultimately have "mmapcat_tail ps argv fd (length d) s1 = Inr (0, s1)"
    using m by (simp add: mmapcat_tail_def assms(5) Let_def len bindS_def returnS_def)
  then show ?thesis using s1(1,3) by auto
qed

text \<open>
  With the length -1 and an offset two bytes or more into a page \<open>mmapcat\<close> prints
  nothing and still reports success: the failed \<open>write\<close> returns -1, which equals the
  length.
\<close>

theorem mmapcat_silent_failure:
  assumes "files s path = Some d" and "length argv = 4" and "argv ! 1 = path" and "atoi (argv ! 3) = - 1"
    and "atoi (argv ! 2) = int n" and "n < length d" and "ps = 2 ^ k"
    and "length d + ps \<le> avail s" and "length d + ps < 9223372036854775808" and "2 \<le> n mod ps"
  shows "\<exists>s'. mmapcat_main ps argv s = Inr (0, s') \<and> s' = s\<lparr>fdt := fdt s'\<rparr>"
  using assms by (rule mmapcat_minus_one)

lemma atoi_minus_1: "atoi ''-1'' = - 1"
  by (simp add: atoi_def signed_part_def is_blank_def digit_value_def)

theorem mmapcat_silent_failure_witness:
  "\<exists>s'. mmapcat_main 4 [''m'', ''f'', decn 3, ''-1''] mapped_os = Inr (0, s')"
proof -
  have "\<exists>s'. mmapcat_main 4 [''m'', ''f'', decn 3, ''-1''] mapped_os = Inr (0, s') \<and> s' = mapped_os\<lparr>fdt := fdt s'\<rparr>"
    by (rule mmapcat_silent_failure [of _ "''f''" "[65, 66, 67, 68, 69, 70]" _ 3 _ 2]) (simp_all add: mapped_os_def atoi_decn atoi_minus_1)
  then show ?thesis by blast
qed

end
