(* ===== verification/Threads.thy ===== *)
theory Threads
  imports CFormat
begin

text \<open>
  The programs of \<open>perftools/c/thread\<close>: threads that count to a common total under a
  mutex (\<open>mutex.c\<close>), under a spin lock (\<open>spin.c\<close>) and, with the two calls commented
  out, under no lock at all (\<open>tid.c\<close>). One step relation models all three: the two lock
  operations, the number of threads and the number of rounds are its parameters. An
  increment is a load and a store; a thread that waits for a lock has no step. The contract
  of a lock is a locale; what the programs guarantee is proved from it.
\<close>

subsection \<open>The program\<close>

text \<open>Where a thread is: at the loop test, in the body between two statements, or returned.\<close>

datatype pc =
    NotRun            \<comment> \<open>not created\<close>
  | Top               \<comment> \<open>before the test \<open>i < loop\<close>\<close>
  | Held              \<comment> \<open>has the lock\<close>
  | Loaded int        \<comment> \<open>in \<open>counter++\<close>, with the value loaded\<close>
  | Stored            \<comment> \<open>before \<open>printf\<close>\<close>
  | Printed           \<comment> \<open>before the unlock\<close>
  | Gone

text \<open>Where \<open>main\<close> is: creating or joining the k-th thread.\<close>

datatype main_pc = Creating nat | Joining nat | Finished | Faulted

record 'l tst =
  lck :: 'l
  counter :: int
  log :: "(nat \<times> int) list"     \<comment> \<open>the lines printed: thread and value\<close>
  pcs :: "nat \<Rightarrow> pc"
  idx :: "nat \<Rightarrow> nat"           \<comment> \<open>the loop variables \<open>i\<close>\<close>
  mpc :: main_pc
  failed :: "int list"            \<comment> \<open>the results of the calls that failed to create a thread\<close>

definition threads_start :: "'l \<Rightarrow> 'l tst" where
  "threads_start l0 = \<lparr>lck = l0, counter = 0, log = [], pcs = (\<lambda>_. NotRun), idx = (\<lambda>_. 0), mpc = Creating 1, failed = []\<rparr>"

definition after_create :: "nat \<Rightarrow> nat \<Rightarrow> main_pc" where
  "after_create n k = (if k < n then Creating (Suc k) else Joining 1)"

definition after_join :: "nat \<Rightarrow> nat \<Rightarrow> main_pc" where
  "after_join n k = (if k < n then Joining (Suc k) else Finished)"

text \<open>
  A thread that could not be created has an indeterminate handle, which \<open>main\<close> joins all
  the same: undefined behaviour.
\<close>

inductive tstep :: "(nat \<Rightarrow> 'l \<Rightarrow> 'l \<Rightarrow> bool) \<Rightarrow> (nat \<Rightarrow> 'l \<Rightarrow> 'l \<Rightarrow> bool) \<Rightarrow> nat \<Rightarrow> nat \<Rightarrow> 'l tst \<Rightarrow> 'l tst \<Rightarrow> bool"
  for acq rel n loop where
  create: "mpc s = Creating k \<Longrightarrow>
     tstep acq rel n loop s (s\<lparr>pcs := (pcs s)(k := Top), mpc := after_create n k\<rparr>)"
| create_failed: "mpc s = Creating k \<Longrightarrow> rc \<noteq> 0 \<Longrightarrow>
     tstep acq rel n loop s (s\<lparr>mpc := after_create n k, failed := failed s @ [rc]\<rparr>)"
| join: "mpc s = Joining k \<Longrightarrow> pcs s k = Gone \<Longrightarrow> tstep acq rel n loop s (s\<lparr>mpc := after_join n k\<rparr>)"
| join_bad: "mpc s = Joining k \<Longrightarrow> pcs s k = NotRun \<Longrightarrow> tstep acq rel n loop s (s\<lparr>mpc := Faulted\<rparr>)"
| lock: "pcs s t = Top \<Longrightarrow> idx s t < loop \<Longrightarrow> acq t (lck s) l' \<Longrightarrow>
     tstep acq rel n loop s (s\<lparr>lck := l', pcs := (pcs s)(t := Held)\<rparr>)"
| load: "pcs s t = Held \<Longrightarrow> tstep acq rel n loop s (s\<lparr>pcs := (pcs s)(t := Loaded (counter s))\<rparr>)"
| store: "pcs s t = Loaded v \<Longrightarrow> tstep acq rel n loop s (s\<lparr>counter := v + 1, pcs := (pcs s)(t := Stored)\<rparr>)"
| print: "pcs s t = Stored \<Longrightarrow>
     tstep acq rel n loop s (s\<lparr>log := log s @ [(t, counter s)], pcs := (pcs s)(t := Printed)\<rparr>)"
| unlock: "pcs s t = Printed \<Longrightarrow> rel t (lck s) l' \<Longrightarrow>
     tstep acq rel n loop s (s\<lparr>lck := l', pcs := (pcs s)(t := Top), idx := (idx s)(t := Suc (idx s t))\<rparr>)"
| leave: "pcs s t = Top \<Longrightarrow> \<not> idx s t < loop \<Longrightarrow> tstep acq rel n loop s (s\<lparr>pcs := (pcs s)(t := Gone)\<rparr>)"

inductive treach :: "(nat \<Rightarrow> 'l \<Rightarrow> 'l \<Rightarrow> bool) \<Rightarrow> (nat \<Rightarrow> 'l \<Rightarrow> 'l \<Rightarrow> bool) \<Rightarrow> nat \<Rightarrow> nat \<Rightarrow> 'l \<Rightarrow> 'l tst \<Rightarrow> bool"
  for acq rel n loop l0 where
  treach_start: "treach acq rel n loop l0 (threads_start l0)"
| treach_step: "treach acq rel n loop l0 s \<Longrightarrow> tstep acq rel n loop s s' \<Longrightarrow> treach acq rel n loop l0 s'"

inductive_cases tstep_elim: "tstep acq rel n loop s s'"

subsection \<open>The lines printed\<close>

text \<open>The two threads of \<open>mutex.c\<close> and \<open>spin.c\<close>, and those of \<open>tid.c\<close>.\<close>

definition counter_line :: "nat \<times> int \<Rightarrow> string res" where
  "counter_line e = vsprintf (if fst e = 1 then ''thread 1 counter = %d\<newline>'' else ''thread 2 counter = %d\<newline>'')
     [AInt (word_of_int (snd e))]"

definition tid_line :: "(nat \<Rightarrow> u32) \<Rightarrow> u32 \<Rightarrow> nat \<times> int \<Rightarrow> string res" where
  "tid_line tids pid e = vsprintf ''Counter %d. tid %d pid %d.\<newline>'' [AInt (word_of_int (snd e)), AInt (tids (fst e)), AInt pid]"

text \<open>The message of \<open>mutex.c\<close> and \<open>spin.c\<close> for a thread that was not created, and the last line of \<open>tid.c\<close>.\<close>

definition creation_failed_line :: "int \<Rightarrow> string res" where
  "creation_failed_line rc = vsprintf ''Thread creation failed: %d\<newline>'' [AInt (word_of_int rc)]"

definition tid_last_line :: "u32 \<Rightarrow> u32 \<Rightarrow> string res" where
  "tid_last_line tid pid = vsprintf ''all thread is finished. my tid is %d mypid is %d\<newline>'' [AInt tid, AInt pid]"

subsection \<open>The contract of a lock\<close>

locale lock =
  fixes acq :: "nat \<Rightarrow> 'l \<Rightarrow> 'l \<Rightarrow> bool" and rel :: "nat \<Rightarrow> 'l \<Rightarrow> 'l \<Rightarrow> bool"
    and holds :: "nat \<Rightarrow> 'l \<Rightarrow> bool" and is_free :: "'l \<Rightarrow> bool" and l0 :: 'l
  assumes acq_takes: "acq t l l' \<Longrightarrow> is_free l \<and> \<not> is_free l' \<and> holds t l'"
    and acq_possible: "is_free l \<Longrightarrow> \<exists>l'. acq t l l'"
    and rel_frees: "rel t l l' \<Longrightarrow> is_free l'"
    and rel_possible: "holds t l \<Longrightarrow> \<exists>l'. rel t l l'"
    and initially_free: "is_free l0"

definition critical :: "pc \<Rightarrow> bool" where
  "critical p = (p \<noteq> NotRun \<and> p \<noteq> Top \<and> p \<noteq> Gone)"

lemma critical_simps [simp]:
  "\<not> critical NotRun" "\<not> critical Top" "critical Held" "critical (Loaded v)" "critical Stored" "critical Printed" "\<not> critical Gone"
  by (simp_all add: critical_def)

text \<open>Lines printed by a thread.\<close>

definition printed_by :: "nat \<Rightarrow> 'l tst \<Rightarrow> nat" where
  "printed_by t s = length (filter (\<lambda>e. fst e = t) (log s))"

text \<open>The parts of the invariant: the lock, the counter, and the bookkeeping of each thread.\<close>

definition one_inside :: "(nat \<Rightarrow> 'l \<Rightarrow> bool) \<Rightarrow> ('l \<Rightarrow> bool) \<Rightarrow> 'l tst \<Rightarrow> bool" where
  "one_inside hld fr s =
     ((\<forall>t u. critical (pcs s t) \<and> critical (pcs s u) \<longrightarrow> t = u) \<and>
      (\<forall>t. critical (pcs s t) \<longrightarrow> hld t (lck s) \<and> \<not> fr (lck s)) \<and>
      ((\<forall>t. \<not> critical (pcs s t)) \<longrightarrow> fr (lck s)))"

definition counted :: "'l tst \<Rightarrow> bool" where
  "counted s =
     ((\<forall>t v. pcs s t = Loaded v \<longrightarrow> v = counter s) \<and>
      map snd (log s) = map (\<lambda>i. int i + 1) [0..<length (log s)] \<and>
      counter s = int (length (log s)) + (if \<exists>t. pcs s t = Stored then 1 else 0))"

definition thread_ok :: "nat \<Rightarrow> nat \<Rightarrow> nat \<Rightarrow> pc \<Rightarrow> nat \<Rightarrow> nat \<Rightarrow> bool" where
  "thread_ok n loop t p i c =
     (i \<le> loop \<and> c = i + (if p = Printed then 1 else 0) \<and> (critical p \<longrightarrow> i < loop) \<and> (p = Gone \<longrightarrow> i = loop) \<and>
      (p = NotRun \<longrightarrow> i = 0) \<and> (p \<noteq> NotRun \<longrightarrow> 1 \<le> t \<and> t \<le> n))"

definition main_ok :: "nat \<Rightarrow> main_pc \<Rightarrow> (nat \<Rightarrow> pc) \<Rightarrow> bool" where
  "main_ok n m ps =
     (case m of
        Creating k \<Rightarrow> 1 \<le> k \<and> k \<le> n \<and> (\<forall>t \<ge> k. ps t = NotRun)
      | Joining k \<Rightarrow> 1 \<le> k \<and> k \<le> n \<and> (\<forall>t. 1 \<le> t \<and> t < k \<longrightarrow> ps t = Gone)
      | Finished \<Rightarrow> (\<forall>t. 1 \<le> t \<and> t \<le> n \<longrightarrow> ps t = Gone)
      | Faulted \<Rightarrow> True)"

definition rounds_ok :: "nat \<Rightarrow> nat \<Rightarrow> 'l tst \<Rightarrow> bool" where
  "rounds_ok n loop s = ((\<forall>t. thread_ok n loop t (pcs s t) (idx s t) (printed_by t s)) \<and> main_ok n (mpc s) (pcs s))"

lemma rounds_okD: "rounds_ok n loop s \<Longrightarrow> thread_ok n loop t (pcs s t) (idx s t) (printed_by t s)"
  by (simp add: rounds_ok_def)

lemma rounds_ok_main: "rounds_ok n loop s \<Longrightarrow> main_ok n (mpc s) (pcs s)"
  by (simp add: rounds_ok_def)

lemma rounds_ok_critical: "rounds_ok n loop s \<Longrightarrow> critical (pcs s t) \<Longrightarrow> idx s t < loop"
  using rounds_okD [of n loop s t] by (simp add: thread_ok_def)

lemma rounds_ok_start: "1 \<le> n \<Longrightarrow> rounds_ok n loop (threads_start l)"
  by (simp add: rounds_ok_def thread_ok_def main_ok_def threads_start_def printed_by_def)

lemma main_ok_moves: "main_ok n m ps \<Longrightarrow> ps t \<noteq> NotRun \<Longrightarrow> ps t \<noteq> Gone \<Longrightarrow> main_ok n m (ps(t := p))"
  by (auto simp: main_ok_def split: main_pc.splits)

text \<open>The bookkeeping does not depend on the lock: one thread moves, or \<open>main\<close> does.\<close>

lemma rounds_ok_moves:
  assumes "rounds_ok n loop s" and "pcs s t \<noteq> NotRun" and "pcs s t \<noteq> Gone" and "mpc s' = mpc s"
    and "pcs s' = (pcs s)(t := p)" and "thread_ok n loop t p (idx s' t) (printed_by t s')"
    and "\<And>u. u \<noteq> t \<Longrightarrow> idx s' u = idx s u \<and> printed_by u s' = printed_by u s"
  shows "rounds_ok n loop s'"
  using assms main_ok_moves [of n "mpc s" "pcs s" t p] by (simp add: rounds_ok_def)

lemma rounds_ok_step: "tstep acq rel n loop s s' \<Longrightarrow> rounds_ok n loop s \<Longrightarrow> rounds_ok n loop s'"
proof (induction rule: tstep.induct)
  case (create s k)
  then show ?case by (auto simp: rounds_ok_def main_ok_def thread_ok_def printed_by_def after_create_def)
next
  case (create_failed s k rc)
  then show ?case by (auto simp: rounds_ok_def main_ok_def printed_by_def after_create_def)
next
  case (join s k)
  then have m: "main_ok n (Joining k) (pcs s)" using rounds_ok_main [of n loop s] by simp
  then have k: "1 \<le> k" "k \<le> n" and b: "\<forall>t. 1 \<le> t \<and> t < k \<longrightarrow> pcs s t = Gone" by (simp_all add: main_ok_def)
  have "pcs s t = Gone" if "1 \<le> t" "t \<le> k" for t
    using join(2) b that by (cases "t = k") simp_all
  then have "main_ok n (after_join n k) (pcs s)"
    using k by (simp add: main_ok_def after_join_def)
  then show ?case using join by (simp add: rounds_ok_def printed_by_def)
next
  case (join_bad s k)
  then show ?case by (simp add: rounds_ok_def main_ok_def printed_by_def)
next
  case (lock s t l')
  then show ?case using rounds_okD [of n loop s t]
    by - (rule rounds_ok_moves [of n loop s t _ Held]; simp add: thread_ok_def printed_by_def)
next
  case (load s t)
  then show ?case using rounds_okD [of n loop s t]
    by - (rule rounds_ok_moves [of n loop s t _ "Loaded (counter s)"]; simp add: thread_ok_def printed_by_def)
next
  case (store s t v)
  then show ?case using rounds_okD [of n loop s t]
    by - (rule rounds_ok_moves [of n loop s t _ Stored]; simp add: thread_ok_def printed_by_def)
next
  case (print s t)
  then show ?case using rounds_okD [of n loop s t]
    by - (rule rounds_ok_moves [of n loop s t _ Printed]; simp add: thread_ok_def printed_by_def)
next
  case (unlock s t l')
  then show ?case using rounds_okD [of n loop s t]
    by - (rule rounds_ok_moves [of n loop s t _ Top]; simp add: thread_ok_def printed_by_def)
next
  case (leave s t)
  then show ?case using rounds_okD [of n loop s t]
    by - (rule rounds_ok_moves [of n loop s t _ Gone]; simp add: thread_ok_def printed_by_def)
qed

text \<open>As long as no creation has failed, every thread that is joined exists.\<close>

definition unfailed_ok :: "nat \<Rightarrow> 'l tst \<Rightarrow> bool" where
  "unfailed_ok n s =
     (failed s = [] \<longrightarrow>
      (case mpc s of
         Creating k \<Rightarrow> (\<forall>t. 1 \<le> t \<and> t < k \<longrightarrow> pcs s t \<noteq> NotRun)
       | Joining k \<Rightarrow> (\<forall>t. 1 \<le> t \<and> t \<le> n \<longrightarrow> pcs s t \<noteq> NotRun)
       | Finished \<Rightarrow> True
       | Faulted \<Rightarrow> False))"

lemma unfailed_ok_start: "unfailed_ok n (threads_start l)"
  by (simp add: unfailed_ok_def threads_start_def)

lemma unfailed_ok_moves:
  assumes "unfailed_ok n s" and "failed s' = failed s" and "mpc s' = mpc s" and "pcs s' = (pcs s)(t := p)" and "p \<noteq> NotRun"
  shows "unfailed_ok n s'"
  using assms by (auto simp: unfailed_ok_def split: main_pc.splits)

lemma unfailed_ok_step: "tstep acq rel n loop s s' \<Longrightarrow> rounds_ok n loop s \<Longrightarrow> unfailed_ok n s \<Longrightarrow> unfailed_ok n s'"
proof (induction rule: tstep.induct)
  case (create s k)
  then have k: "1 \<le> k" "k \<le> n" using rounds_ok_main [of n loop s] by (simp_all add: main_ok_def)
  have "((pcs s)(k := Top)) t \<noteq> NotRun" if "failed s = []" "1 \<le> t" "t \<le> k" for t
    using create(1,3) that by (cases "t = k") (simp_all add: unfailed_ok_def)
  then show ?case using k by (auto simp: unfailed_ok_def after_create_def simp del: fun_upd_apply)
next
  case (create_failed s k rc)
  then show ?case by (simp add: unfailed_ok_def)
next
  case (join s k)
  then show ?case by (simp add: unfailed_ok_def after_join_def)
next
  case (join_bad s k)
  then have "1 \<le> k" "k \<le> n" using rounds_ok_main [of n loop s] by (simp_all add: main_ok_def)
  then show ?case using join_bad by (auto simp: unfailed_ok_def)
next
  case (lock s t l')
  then show ?case by - (rule unfailed_ok_moves [of n s _ t Held]; simp)
next
  case (load s t)
  then show ?case by - (rule unfailed_ok_moves [of n s _ t "Loaded (counter s)"]; simp)
next
  case (store s t v)
  then show ?case by - (rule unfailed_ok_moves [of n s _ t Stored]; simp)
next
  case (print s t)
  then show ?case by - (rule unfailed_ok_moves [of n s _ t Printed]; simp)
next
  case (unlock s t l')
  then show ?case by - (rule unfailed_ok_moves [of n s _ t Top]; simp)
next
  case (leave s t)
  then show ?case by - (rule unfailed_ok_moves [of n s _ t Gone]; simp)
qed

text \<open>The work left, which every step makes less.\<close>

definition thread_work :: "nat \<Rightarrow> 'l tst \<Rightarrow> nat \<Rightarrow> nat" where
  "thread_work loop s t =
     6 * (loop - idx s t) +
     (case pcs s t of NotRun \<Rightarrow> 1 | Top \<Rightarrow> 1 | Held \<Rightarrow> 0 | _ \<Rightarrow> 0) -
     (case pcs s t of Loaded _ \<Rightarrow> 1 | Stored \<Rightarrow> 2 | Printed \<Rightarrow> 3 | _ \<Rightarrow> 0)"

definition main_work :: "nat \<Rightarrow> main_pc \<Rightarrow> nat" where
  "main_work n p = (case p of Creating k \<Rightarrow> 2 * n + 2 - k | Joining k \<Rightarrow> n + 1 - k | _ \<Rightarrow> 0)"

definition work :: "nat \<Rightarrow> nat \<Rightarrow> 'l tst \<Rightarrow> nat" where
  "work n loop s = main_work n (mpc s) + (\<Sum>t = 1..n. thread_work loop s t)"

lemma sum_less_at:
  fixes f g :: "nat \<Rightarrow> nat"
  assumes "1 \<le> k" "k \<le> n" and "f k < g k" and "\<And>t. t \<noteq> k \<Longrightarrow> f t = g t"
  shows "(\<Sum>t = 1..n. f t) < (\<Sum>t = 1..n. g t)"
proof (rule sum_strict_mono_ex1)
  show "\<forall>t \<in> {1..n}. f t \<le> g t" using assms(3,4) by (metis less_imp_le order_refl)
  show "\<exists>t \<in> {1..n}. f t < g t" using assms(1-3) by auto
qed simp

lemma work_thread:
  assumes "rounds_ok n loop s" and "pcs s k \<noteq> NotRun" and "mpc s' = mpc s"
    and "thread_work loop s' k < thread_work loop s k" and "\<And>t. t \<noteq> k \<Longrightarrow> thread_work loop s' t = thread_work loop s t"
  shows "work n loop s' < work n loop s"
proof -
  have "1 \<le> k" "k \<le> n" using rounds_okD [OF assms(1), of k] assms(2) by (simp_all add: thread_ok_def)
  then show ?thesis using sum_less_at [of k n "thread_work loop s'" "thread_work loop s"] assms(3-5) by (simp add: work_def)
qed

lemma work_decreases:
  "tstep acq rel n loop s s' \<Longrightarrow> rounds_ok n loop s \<Longrightarrow> work n loop s' < work n loop s"
proof (induction rule: tstep.induct)
  case (create s k)
  have "thread_work loop (s\<lparr>pcs := (pcs s)(k := Top), mpc := after_create n k\<rparr>) = thread_work loop s"
    using create by (intro ext) (simp add: rounds_ok_def main_ok_def thread_work_def)
  then show ?case using create by (auto simp: work_def main_work_def after_create_def rounds_ok_def main_ok_def)
next
  case (create_failed s k rc)
  have "thread_work loop (s\<lparr>mpc := after_create n k, failed := failed s @ [rc]\<rparr>) = thread_work loop s"
    by (intro ext) (simp add: thread_work_def)
  then show ?case using create_failed by (auto simp: work_def main_work_def after_create_def rounds_ok_def main_ok_def)
next
  case (join s k)
  have "thread_work loop (s\<lparr>mpc := after_join n k\<rparr>) = thread_work loop s"
    by (intro ext) (simp add: thread_work_def)
  then show ?case using join by (auto simp: work_def main_work_def after_join_def rounds_ok_def main_ok_def)
next
  case (join_bad s k)
  have "thread_work loop (s\<lparr>mpc := Faulted\<rparr>) = thread_work loop s"
    by (intro ext) (simp add: thread_work_def)
  then show ?case using join_bad by (auto simp: work_def main_work_def rounds_ok_def main_ok_def)
next
  case (lock s t l')
  then show ?case by - (rule work_thread [of n loop s t]; auto simp: thread_work_def)
next
  case (load s t)
  then have "idx s t < loop" by (simp add: rounds_ok_critical)
  then show ?case using load by - (rule work_thread [of n loop s t]; auto simp: thread_work_def)
next
  case (store s t v)
  then have "idx s t < loop" by (simp add: rounds_ok_critical)
  then show ?case using store by - (rule work_thread [of n loop s t]; auto simp: thread_work_def)
next
  case (print s t)
  then have "idx s t < loop" by (simp add: rounds_ok_critical)
  then show ?case using print by - (rule work_thread [of n loop s t]; auto simp: thread_work_def)
next
  case (unlock s t l')
  then have "idx s t < loop" by (simp add: rounds_ok_critical)
  then show ?case using unlock by - (rule work_thread [of n loop s t]; auto simp: thread_work_def)
next
  case (leave s t)
  then show ?case by - (rule work_thread [of n loop s t]; auto simp: thread_work_def)
qed

text \<open>When all have returned, the lines add up.\<close>

lemma length_by_thread:
  "(\<And>e. e \<in> set xs \<Longrightarrow> fst e \<in> A) \<Longrightarrow> finite A \<Longrightarrow> length xs = (\<Sum>t \<in> A. length (filter (\<lambda>e. fst e = t) xs))"
proof (induction xs)
  case (Cons e xs)
  have "(\<Sum>t \<in> A. length (filter (\<lambda>e. fst e = t) (e # xs))) =
      (\<Sum>t \<in> A. (if t = fst e then 1 else 0) + length (filter (\<lambda>e. fst e = t) xs))"
    by (rule sum.cong [OF refl]) simp
  also have "\<dots> = (\<Sum>t \<in> A. if t = fst e then 1 else 0) + (\<Sum>t \<in> A. length (filter (\<lambda>e. fst e = t) xs))"
    by (rule sum.distrib)
  also have "\<dots> = 1 + length xs"
    using Cons.prems by (simp add: sum.delta Cons.IH [symmetric])
  finally show ?case by simp
qed simp

lemma log_by_created:
  assumes "rounds_ok n loop s" and "e \<in> set (log s)" shows "fst e \<in> {1..n}"
proof -
  have "filter (\<lambda>x. fst x = fst e) (log s) \<noteq> []" using assms(2) by (metis (mono_tags, lifting) filter_empty_conv)
  then have "0 < printed_by (fst e) s" by (simp add: printed_by_def)
  then show ?thesis using rounds_okD [OF assms(1), of "fst e"] by (auto simp: thread_ok_def)
qed

lemma finished_total:
  assumes "rounds_ok n loop s" and "mpc s = Finished"
  shows "length (log s) = n * loop" and "1 \<le> t \<Longrightarrow> t \<le> n \<Longrightarrow> printed_by t s = loop"
proof -
  have t: "printed_by t s = loop" if "1 \<le> t" "t \<le> n" for t
    using rounds_okD [OF assms(1), of t] rounds_ok_main [OF assms(1)] assms(2) that by (simp add: thread_ok_def main_ok_def)
  then have "(\<Sum>t \<in> {1..n}. length (filter (\<lambda>e. fst e = t) (log s))) = (\<Sum>t \<in> {1..n}. loop)"
    by (intro sum.cong) (simp_all add: printed_by_def)
  then show "length (log s) = n * loop"
    using length_by_thread [of "log s" "{1..n}", OF log_by_created [OF assms(1)]] by simp
  show "1 \<le> t \<Longrightarrow> t \<le> n \<Longrightarrow> printed_by t s = loop" by (rule t)
qed

subsection \<open>What the contract gives\<close>

text \<open>A step of a thread that is not in the critical section, and one of a thread that is.\<close>

lemma counted_outside:
  assumes "counted s" and "counter s' = counter s" and "log s' = log s"
    and "pcs s' = (pcs s)(t := p)" and "pcs s t \<noteq> Stored" and "p \<noteq> Stored" and "\<And>v. p = Loaded v \<Longrightarrow> v = counter s"
  shows "counted s'"
proof -
  have e: "(\<exists>u. pcs s' u = Stored) = (\<exists>u. pcs s u = Stored)" using assms(4-6) by auto
  have c: "\<And>u v. pcs s u = Loaded v \<Longrightarrow> v = counter s"
    "map snd (log s) = map (\<lambda>i. int i + 1) [0..<length (log s)]"
    "counter s = int (length (log s)) + (if \<exists>t. pcs s t = Stored then 1 else 0)"
    using assms(1) unfolding counted_def by blast+
  have "\<forall>u v. pcs s' u = Loaded v \<longrightarrow> v = counter s'" using c(1) assms(2,4,7) by (auto split: if_splits)
  then show ?thesis unfolding counted_def e assms(3) using assms(2) c(2,3) by metis
qed

lemma counted_cong:
  assumes "counted s" and "counter s' = counter s" and "log s' = log s" and "pcs s' = pcs s" shows "counted s'"
proof -
  have "counted s' = counted s" unfolding counted_def assms(2-4) by simp
  then show ?thesis using assms(1) by simp
qed

lemma counted_start: "counted (threads_start l)"
  by (simp add: counted_def threads_start_def)

lemma counted_store:
  assumes "counted s" and "pcs s t = Loaded v" and "\<And>u. critical (pcs s u) \<Longrightarrow> u = t"
  shows "counted (s\<lparr>counter := v + 1, pcs := (pcs s)(t := Stored)\<rparr>)"
proof -
  have "pcs s u \<noteq> Stored" for u
  proof
    assume "pcs s u = Stored"
    then have "u = t" using assms(3) [of u] by simp
    with \<open>pcs s u = Stored\<close> assms(2) show False by simp
  qed
  moreover have "pcs s u \<noteq> Loaded w" if "u \<noteq> t" for u w
  proof
    assume "pcs s u = Loaded w"
    then have "u = t" using assms(3) [of u] by simp
    with that show False by simp
  qed
  ultimately show ?thesis using assms(1,2) by (auto simp: counted_def)
qed

lemma counted_print:
  assumes "counted s" and "pcs s t = Stored" and "\<And>u. critical (pcs s u) \<Longrightarrow> u = t"
  shows "counted (s\<lparr>log := log s @ [(t, counter s)], pcs := (pcs s)(t := Printed)\<rparr>)"
proof -
  have n: "\<not> (\<exists>u. ((pcs s)(t := Printed)) u = Stored)"
  proof
    assume "\<exists>u. ((pcs s)(t := Printed)) u = Stored"
    then obtain u where u: "((pcs s)(t := Printed)) u = Stored" by blast
    then have "u \<noteq> t" "pcs s u = Stored" by (auto split: if_splits)
    then show False using assms(3) [of u] by simp
  qed
  have "\<exists>u. pcs s u = Stored" using assms(2) by blast
  then have c: "counter s = int (length (log s)) + 1" using assms(1) by (simp add: counted_def)
  have l: "((pcs s)(t := Printed)) u = Loaded v \<Longrightarrow> v = counter s" for u v
    using assms(1) by (auto simp: counted_def split: if_splits)
  show ?thesis using assms(1) c l n by (simp add: counted_def)
qed

context lock
begin

lemma one_inside_start: "one_inside holds is_free (threads_start l0)"
  by (simp add: one_inside_def threads_start_def initially_free)

lemma one_inside_alone: "one_inside holds is_free s \<Longrightarrow> critical (pcs s t) \<Longrightarrow> critical (pcs s u) \<Longrightarrow> u = t"
  unfolding one_inside_def by blast

lemma one_inside_same:
  assumes "one_inside holds is_free s" and "lck s' = lck s" and "\<And>t. critical (pcs s' t) = critical (pcs s t)"
  shows "one_inside holds is_free s'"
  using assms by (simp add: one_inside_def)

lemma one_inside_step: "tstep acq rel n loop s s' \<Longrightarrow> rounds_ok n loop s \<Longrightarrow> one_inside holds is_free s \<Longrightarrow> one_inside holds is_free s'"
proof (induction rule: tstep.induct)
  case (create s k)
  then have "pcs s k = NotRun" by (simp add: rounds_ok_def main_ok_def)
  then show ?case by - (rule one_inside_same [OF create(3)]; simp)
next
  case (lock s t l')
  then have "is_free (lck s)" "\<not> is_free l'" "holds t l'" using acq_takes by auto
  moreover from this(1) have "\<not> critical (pcs s u)" for u using lock(5) by (auto simp: one_inside_def)
  ultimately show ?case by (simp add: one_inside_def)
next
  case (unlock s t l')
  then have "is_free l'" using rel_frees by blast
  moreover have "\<not> critical (pcs s u)" if "u \<noteq> t" for u
    using one_inside_alone [OF unlock(4), of t u] unlock(1) that by auto
  ultimately show ?case by (auto simp: one_inside_def)
next
  case (create_failed s k rc)
  then show ?case by - (rule one_inside_same [of s]; simp)
next
  case (join s k)
  then show ?case by - (rule one_inside_same [of s]; simp)
next
  case (join_bad s k)
  then show ?case by - (rule one_inside_same [of s]; simp)
next
  case (load s t)
  then show ?case by - (rule one_inside_same [of s]; simp)
next
  case (store s t v)
  then show ?case by - (rule one_inside_same [of s]; simp)
next
  case (print s t)
  then show ?case by - (rule one_inside_same [of s]; simp)
next
  case (leave s t)
  then show ?case by - (rule one_inside_same [of s]; simp)
qed

lemma counted_step: "tstep acq rel n loop s s' \<Longrightarrow> rounds_ok n loop s \<Longrightarrow> one_inside holds is_free s \<Longrightarrow> counted s \<Longrightarrow> counted s'"
proof (induction rule: tstep.induct)
  case (create s k)
  then have "pcs s k = NotRun" by (simp add: rounds_ok_def main_ok_def)
  with create show ?case by - (rule counted_outside [of s _ k Top]; simp)
next
  case (lock s t l')
  then show ?case by - (rule counted_outside [of s _ t Held]; simp)
next
  case (load s t)
  then show ?case by - (rule counted_outside [of s _ t "Loaded (counter s)"]; simp)
next
  case (store s t v)
  then show ?case using one_inside_alone [of s t] by - (rule counted_store; simp)
next
  case (print s t)
  then show ?case using one_inside_alone [of s t] by - (rule counted_print; simp)
next
  case (unlock s t l')
  then show ?case by - (rule counted_outside [of s _ t Top]; simp)
next
  case (leave s t)
  then show ?case by - (rule counted_outside [of s _ t Gone]; simp)
next
  case (create_failed s k rc)
  then show ?case by - (rule counted_cong [of s]; simp)
next
  case (join s k)
  then show ?case by - (rule counted_cong [of s]; simp)
next
  case (join_bad s k)
  then show ?case by - (rule counted_cong [of s]; simp)
qed

lemma reachable_ok:
  assumes "treach acq rel n loop l0 s" and "1 \<le> n"
  shows "rounds_ok n loop s \<and> one_inside holds is_free s \<and> counted s \<and> unfailed_ok n s"
  using assms
proof (induction rule: treach.induct)
  case treach_start
  then show ?case by (simp add: rounds_ok_start one_inside_start counted_start unfailed_ok_start)
next
  case (treach_step s s')
  then show ?case using rounds_ok_step one_inside_step counted_step unfailed_ok_step by blast
qed

text \<open>Nobody waits for ever: a state without a step is the end of \<open>main\<close>.\<close>

lemma not_stuck:
  assumes "treach acq rel n loop l0 s" and "1 \<le> n" and "\<And>s'. \<not> tstep acq rel n loop s s'"
  shows "mpc s = Finished \<or> mpc s = Faulted"
proof (rule ccontr)
  assume a: "\<not> (mpc s = Finished \<or> mpc s = Faulted)"
  have ok: "rounds_ok n loop s" "one_inside holds is_free s" using reachable_ok [OF assms(1,2)] by auto
  have nocrit: "\<not> critical (pcs s t)" for t
  proof
    assume c: "critical (pcs s t)"
    then have "holds t (lck s)" using ok(2) by (simp add: one_inside_def)
    then obtain l' where "rel t (lck s) l'" using rel_possible by blast
    then show False using c assms(3) tstep.load [of s t] tstep.store [of s t] tstep.print [of s t] tstep.unlock [of s t]
      by (cases "pcs s t") (auto, blast+)
  qed
  then have "is_free (lck s)" using ok(2) by (simp add: one_inside_def)
  obtain k where k: "mpc s = Joining k" using a assms(3) tstep.create [of s] by (cases "mpc s") blast+
  then have "pcs s k \<noteq> Gone" "pcs s k \<noteq> NotRun" using assms(3) tstep.join [of s k] tstep.join_bad [of s k] by blast+
  then have "pcs s k = Top" using nocrit [of k] by (simp add: critical_def)
  then show False using assms(3) tstep.leave [of s k] tstep.lock [of s k] acq_possible [OF \<open>is_free (lck s)\<close>, of k] by blast
qed

lemma finished_run:
  assumes "treach acq rel n loop l0 s" and "1 \<le> n" and "mpc s = Finished"
  shows "counter s = int (n * loop)" and "map snd (log s) = map (\<lambda>i. int i + 1) [0..<n * loop]"
    and "1 \<le> t \<Longrightarrow> t \<le> n \<Longrightarrow> printed_by t s = loop"
proof -
  have ok: "rounds_ok n loop s" "counted s" using reachable_ok [OF assms(1,2)] by auto
  note f = finished_total [OF ok(1) assms(3)]
  have "pcs s t \<noteq> Stored" for t
  proof
    assume s: "pcs s t = Stored"
    then have "1 \<le> t" "t \<le> n" using rounds_okD [OF ok(1), of t] by (simp_all add: thread_ok_def)
    then have "pcs s t = Gone" using rounds_ok_main [OF ok(1)] assms(3) by (simp add: main_ok_def)
    then show False using s by simp
  qed
  then show "counter s = int (n * loop)" "map snd (log s) = map (\<lambda>i. int i + 1) [0..<n * loop]"
    using ok(2) f(1) by (simp_all add: counted_def)
  show "1 \<le> t \<Longrightarrow> t \<le> n \<Longrightarrow> printed_by t s = loop" by (rule f(2))
qed

lemma never_faulted: "treach acq rel n loop l0 s \<Longrightarrow> 1 \<le> n \<Longrightarrow> failed s = [] \<Longrightarrow> mpc s \<noteq> Faulted"
  using reachable_ok [of n loop s] by (auto simp: unfailed_ok_def)

text \<open>As long as no creation fails, the end can be reached from everywhere.\<close>

lemma can_finish:
  assumes "treach acq rel n loop l0 s" and "1 \<le> n" and "failed s = []"
  shows "\<exists>s'. treach acq rel n loop l0 s' \<and> mpc s' = Finished \<and> failed s' = []"
  using assms
proof (induction "work n loop s" arbitrary: s rule: less_induct)
  case less
  show ?case
  proof (cases "mpc s = Finished")
    case True
    then show ?thesis using less.prems by blast
  next
    case False
    have "\<exists>s'. tstep acq rel n loop s s' \<and> failed s' = []"
    proof (cases "\<exists>k. mpc s = Creating k")
      case True
      then obtain k where "mpc s = Creating k" by blast
      then show ?thesis using tstep.create [of s k] less.prems(3) by fastforce
    next
      case nc: False
      obtain s' where "tstep acq rel n loop s s'"
        using not_stuck [OF less.prems(1,2)] False never_faulted [OF less.prems] by blast
      moreover from this have "failed s' = failed s" by (rule tstep_elim) (use nc in auto)
      ultimately show ?thesis using less.prems(3) by auto
    qed
    then obtain s' where s': "tstep acq rel n loop s s'" "failed s' = []" by blast
    have "rounds_ok n loop s" using reachable_ok [OF less.prems(1,2)] by blast
    then have "work n loop s' < work n loop s" by (rule work_decreases [OF s'(1)])
    moreover have "treach acq rel n loop l0 s'" by (rule treach_step [OF less.prems(1) s'(1)])
    ultimately show ?thesis using less.hyps less.prems(2) s'(2) by blast
  qed
qed

end

subsection \<open>The three programs\<close>

definition mutex_lock :: "nat \<Rightarrow> nat option \<Rightarrow> nat option \<Rightarrow> bool" where
  "mutex_lock t l l' = (l = None \<and> l' = Some t)"

definition mutex_unlock :: "nat \<Rightarrow> nat option \<Rightarrow> nat option \<Rightarrow> bool" where
  "mutex_unlock t l l' = (l = Some t \<and> l' = None)"

definition spin_lock :: "nat \<Rightarrow> bool \<Rightarrow> bool \<Rightarrow> bool" where "spin_lock t l l' = (\<not> l \<and> l')"

definition spin_unlock :: "nat \<Rightarrow> bool \<Rightarrow> bool \<Rightarrow> bool" where "spin_unlock t l l' = (l \<and> \<not> l')"

definition no_lock :: "nat \<Rightarrow> unit \<Rightarrow> unit \<Rightarrow> bool" where "no_lock t l l' = True"

definition rounds :: nat where "rounds = 1000"

definition mutex_step :: "nat option tst \<Rightarrow> nat option tst \<Rightarrow> bool" where
  "mutex_step = tstep mutex_lock mutex_unlock 2 rounds"

definition mutex_run :: "nat option tst \<Rightarrow> bool" where
  "mutex_run = treach mutex_lock mutex_unlock 2 rounds None"

definition spin_step :: "bool tst \<Rightarrow> bool tst \<Rightarrow> bool" where
  "spin_step = tstep spin_lock spin_unlock 2 rounds"

definition spin_run :: "bool tst \<Rightarrow> bool" where
  "spin_run = treach spin_lock spin_unlock 2 rounds False"

definition tid_step :: "unit tst \<Rightarrow> unit tst \<Rightarrow> bool" where
  "tid_step = tstep no_lock no_lock 3 5"

definition tid_run :: "unit tst \<Rightarrow> bool" where
  "tid_run = treach no_lock no_lock 3 5 ()"

interpretation mutex: lock mutex_lock mutex_unlock "\<lambda>t l. l = Some t" "\<lambda>l. l = None" None
  by unfold_locales (auto simp: mutex_lock_def mutex_unlock_def)

interpretation spin: lock spin_lock spin_unlock "\<lambda>t l. l" "\<lambda>l. \<not> l" False
  by unfold_locales (auto simp: spin_lock_def spin_unlock_def)

end
