(* ===== verification/ThreadRuns.thy ===== *)
theory ThreadRuns
  imports Threads
begin

text \<open>
  The properties of the three thread programs. Those of \<open>mutex.c\<close> and \<open>spin.c\<close> are
  the facts of the lock contract at its two interpretations; \<open>tid.c\<close> has no lock, and a
  run that loses updates is built by a scheduler.
\<close>

subsection \<open>With a lock\<close>

text \<open>Both threads have been created, and the first has taken the lock.\<close>

lemma first_locked:
  assumes "acq 1 l0 l1"
  shows "\<exists>s. treach acq rel 2 rounds l0 s \<and> pcs s 1 = Held \<and> pcs s 2 = Top"
proof -
  let ?r = "treach acq rel 2 rounds l0" and ?s0 = "threads_start l0"
  let ?s1 = "?s0\<lparr>pcs := (pcs ?s0)(1 := Top), mpc := after_create 2 1\<rparr>"
  let ?s2 = "?s1\<lparr>pcs := (pcs ?s1)(2 := Top), mpc := after_create 2 2\<rparr>"
  let ?s3 = "?s2\<lparr>lck := l1, pcs := (pcs ?s2)(1 := Held)\<rparr>"
  have "?r ?s1" by (rule treach_step [OF treach_start tstep.create]) (simp add: threads_start_def)
  then have "?r ?s2" by (rule treach_step [OF _ tstep.create]) (simp add: after_create_def)
  then have "?r ?s3" by (rule treach_step [OF _ tstep.lock]) (simp_all add: threads_start_def rounds_def assms [simplified])
  then show ?thesis by (intro exI [of _ ?s3]) simp
qed

text \<open>
  C10: In every reachable state of \<open>mutex.c\<close> and of \<open>spin.c\<close> at most one thread is
  between its lock and its unlock, the lines printed so far carry the numbers 1, 2, 3, ...
  without gap or repetition, and the counter is at most one ahead of them.
\<close>

theorem threads_exclusive:
  assumes "mutex_run s" and "spin_run s'"
  shows "(critical (pcs s t) \<and> critical (pcs s u) \<longrightarrow> t = u) \<and> (critical (pcs s' t) \<and> critical (pcs s' u) \<longrightarrow> t = u) \<and>
    map snd (log s) = map (\<lambda>i. int i + 1) [0..<length (log s)] \<and> map snd (log s') = map (\<lambda>i. int i + 1) [0..<length (log s')] \<and>
    counter s \<le> int (length (log s)) + 1 \<and> counter s' \<le> int (length (log s')) + 1"
proof -
  have m: "one_inside (\<lambda>t l. l = Some t) (\<lambda>l. l = None) s" "counted s"
    using mutex.reachable_ok [of 2 rounds s] assms(1) by (auto simp: mutex_run_def)
  have p: "one_inside (\<lambda>t l. l) (\<lambda>l. \<not> l) s'" "counted s'"
    using spin.reachable_ok [of 2 rounds s'] assms(2) by (auto simp: spin_run_def)
  show ?thesis using m p unfolding one_inside_def counted_def by auto
qed

theorem threads_exclusive_witness:
  "\<exists>s s'. mutex_run s \<and> spin_run s' \<and> critical (pcs s 1) \<and> \<not> critical (pcs s 2) \<and> critical (pcs s' 1) \<and> \<not> critical (pcs s' 2) \<and>
     counter s \<le> int (length (log s)) + 1"
proof -
  obtain s s' where r: "mutex_run s" "spin_run s'" and p: "pcs s 1 = Held" "pcs s' 1 = Held"
    using first_locked [of mutex_lock None "Some 1" mutex_unlock] first_locked [of spin_lock False True spin_unlock]
    by (auto simp: mutex_run_def spin_run_def mutex_lock_def spin_lock_def)
  have "critical (pcs s 1)" "critical (pcs s' 1)" using p by (simp_all add: critical_def)
  then show ?thesis using threads_exclusive [OF r, of 1 2] r by auto
qed

text \<open>
  C9: When \<open>main\<close> of \<open>mutex.c\<close> or \<open>spin.c\<close> has joined both threads, the counter is
  2000 and 2000 lines with the numbers 1 to 2000 in order have been printed, 1000 by each thread.
\<close>

theorem threads_total:
  assumes "mutex_run s" and "mpc s = Finished" and "spin_run s'" and "mpc s' = Finished"
  shows "counter s = 2000 \<and> map snd (log s) = map (\<lambda>i. int i + 1) [0..<2000] \<and> printed_by 1 s = 1000 \<and> printed_by 2 s = 1000 \<and>
    counter s' = 2000 \<and> map snd (log s') = map (\<lambda>i. int i + 1) [0..<2000] \<and> printed_by 1 s' = 1000 \<and> printed_by 2 s' = 1000"
proof -
  have m: "treach mutex_lock mutex_unlock 2 rounds None s" and p: "treach spin_lock spin_unlock 2 rounds False s'"
    using assms(1,3) by (simp_all add: mutex_run_def spin_run_def)
  have n: "(1 :: nat) \<le> 2" "2 * rounds = 2000" "rounds = 1000" by (simp_all add: rounds_def)
  show ?thesis
    using mutex.finished_run(1,2) [OF m n(1) assms(2)] mutex.finished_run(3) [OF m n(1) assms(2)]
      spin.finished_run(1,2) [OF p n(1) assms(4)] spin.finished_run(3) [OF p n(1) assms(4)]
    unfolding n(2) unfolding n(3) by simp
qed

theorem threads_total_witness: "\<exists>s. mutex_run s \<and> mpc s = Finished \<and> counter s = 2000"
proof -
  have "mutex_run (threads_start None)" "spin_run (threads_start False)"
    by (simp_all add: mutex_run_def spin_run_def treach.treach_start)
  then obtain s s' where "mutex_run s" "mpc s = Finished" "spin_run s'" "mpc s' = Finished"
    using mutex.can_finish [of 2 rounds "threads_start None"] spin.can_finish [of 2 rounds "threads_start False"]
    by (auto simp: mutex_run_def spin_run_def threads_start_def)
  then show ?thesis using threads_total [of s s'] by blast
qed

text \<open>
  C11: Every run of \<open>mutex.c\<close> and of \<open>spin.c\<close> ends: each step makes the work left
  smaller, a state in which nobody can move is the end of \<open>main\<close>, and, unless the
  creation of a thread failed, the regular one; no thread waits for a lock for ever.
\<close>

theorem threads_terminate:
  assumes "mutex_run s" and "spin_run s'"
  shows "(\<forall>s1. mutex_step s s1 \<longrightarrow> work 2 rounds s1 < work 2 rounds s) \<and> (\<forall>s1. spin_step s' s1 \<longrightarrow> work 2 rounds s1 < work 2 rounds s') \<and>
    ((\<forall>s1. \<not> mutex_step s s1) \<longrightarrow> mpc s = Finished \<or> mpc s = Faulted \<and> failed s \<noteq> []) \<and>
    ((\<forall>s1. \<not> spin_step s' s1) \<longrightarrow> mpc s' = Finished \<or> mpc s' = Faulted \<and> failed s' \<noteq> [])"
proof -
  have m: "treach mutex_lock mutex_unlock 2 rounds None s" and p: "treach spin_lock spin_unlock 2 rounds False s'"
    using assms by (simp_all add: mutex_run_def spin_run_def)
  have n: "(1 :: nat) \<le> 2" by simp
  have "rounds_ok 2 rounds s" "rounds_ok 2 rounds s'"
    using mutex.reachable_ok [OF m n] spin.reachable_ok [OF p n] by auto
  then show ?thesis
    unfolding mutex_step_def spin_step_def
    using work_decreases [of mutex_lock mutex_unlock 2 rounds s] work_decreases [of spin_lock spin_unlock 2 rounds s']
      mutex.not_stuck [OF m n] spin.not_stuck [OF p n] mutex.never_faulted [OF m n] spin.never_faulted [OF p n] by blast
qed

theorem threads_terminate_witness:
  "\<exists>s s'. mutex_run s \<and> spin_run s' \<and> (\<forall>s1. mutex_step s s1 \<longrightarrow> work 2 rounds s1 < work 2 rounds s)"
proof -
  have r: "mutex_run (threads_start None)" "spin_run (threads_start False)"
    by (simp_all add: mutex_run_def spin_run_def treach.treach_start)
  show ?thesis using r threads_terminate [OF r] by blast
qed

subsection \<open>Without one\<close>

text \<open>A scheduler: \<open>turn t\<close> lets thread t (or \<open>main\<close>, for 0) take its next step.\<close>

definition turn :: "nat \<Rightarrow> unit tst \<Rightarrow> unit tst" where
  "turn t s =
     (if t = 0 then
        (case mpc s of
           Creating k \<Rightarrow> s\<lparr>pcs := (pcs s)(k := Top), mpc := after_create 3 k\<rparr>
         | Joining k \<Rightarrow> if pcs s k = Gone then s\<lparr>mpc := after_join 3 k\<rparr> else s
         | _ \<Rightarrow> s)
      else
        (case pcs s t of
           Top \<Rightarrow> if idx s t < 5 then s\<lparr>pcs := (pcs s)(t := Held)\<rparr> else s\<lparr>pcs := (pcs s)(t := Gone)\<rparr>
         | Held \<Rightarrow> s\<lparr>pcs := (pcs s)(t := Loaded (counter s))\<rparr>
         | Loaded v \<Rightarrow> s\<lparr>counter := v + 1, pcs := (pcs s)(t := Stored)\<rparr>
         | Stored \<Rightarrow> s\<lparr>log := log s @ [(t, counter s)], pcs := (pcs s)(t := Printed)\<rparr>
         | Printed \<Rightarrow> s\<lparr>pcs := (pcs s)(t := Top), idx := (idx s)(t := Suc (idx s t))\<rparr>
         | _ \<Rightarrow> s))"

lemma turn_step: "turn t s = s \<or> tid_step s (turn t s)"
proof (cases "t = 0")
  case True
  then show ?thesis
    using tstep.create [of s _ no_lock no_lock 3 5] tstep.join [of s _ no_lock no_lock 3 5]
    by (cases "mpc s") (auto simp: turn_def tid_step_def)
next
  case False
  have l: "tid_step s (s\<lparr>pcs := (pcs s)(t := Held)\<rparr>)" if "pcs s t = Top" "idx s t < 5"
  proof -
    have "s\<lparr>lck := (), pcs := (pcs s)(t := Held)\<rparr> = s\<lparr>pcs := (pcs s)(t := Held)\<rparr>" by (cases s) simp
    moreover have "tstep no_lock no_lock 3 5 s (s\<lparr>lck := (), pcs := (pcs s)(t := Held)\<rparr>)"
      by (rule tstep.lock) (simp_all add: that no_lock_def)
    ultimately show ?thesis unfolding tid_step_def by metis
  qed
  have u: "tid_step s (s\<lparr>pcs := (pcs s)(t := Top), idx := (idx s)(t := Suc (idx s t))\<rparr>)" if "pcs s t = Printed"
  proof -
    have "s\<lparr>lck := (), pcs := (pcs s)(t := Top), idx := (idx s)(t := Suc (idx s t))\<rparr> =
        s\<lparr>pcs := (pcs s)(t := Top), idx := (idx s)(t := Suc (idx s t))\<rparr>" by (cases s) simp
    moreover have "tstep no_lock no_lock 3 5 s (s\<lparr>lck := (), pcs := (pcs s)(t := Top), idx := (idx s)(t := Suc (idx s t))\<rparr>)"
      by (rule tstep.unlock) (simp_all add: that no_lock_def)
    ultimately show ?thesis unfolding tid_step_def by metis
  qed
  show ?thesis using False l u tstep.leave [of s t 5 no_lock no_lock 3] tstep.load [of s t no_lock no_lock 3 5]
      tstep.store [of s t _ no_lock no_lock 3 5] tstep.print [of s t no_lock no_lock 3 5]
    by (cases "pcs s t") (auto simp: turn_def tid_step_def)
qed

lemma turns_reach: "tid_run s \<Longrightarrow> tid_run (fold turn ts s)"
proof (induction ts arbitrary: s)
  case (Cons t ts)
  have "tid_run (turn t s)" using Cons.prems turn_step [of t s] treach.treach_step by (auto simp: tid_run_def tid_step_def)
  then show ?case using Cons.IH by simp
qed simp

text \<open>All three threads load the counter before the first of them stores it, in every round.\<close>

definition bad_round :: "nat list" where
  "bad_round = [1, 2, 3, 1, 2, 3, 1, 2, 3, 1, 2, 3, 1, 2, 3]"

lemma bad_round_counts:
  assumes "pcs s 1 = Top" "pcs s 2 = Top" "pcs s 3 = Top" and "idx s 1 = k" "idx s 2 = k" "idx s 3 = k" and "k < 5"
  shows "(let s' = fold turn bad_round s in pcs s' 1 = Top \<and> pcs s' 2 = Top \<and> pcs s' 3 = Top \<and>
    idx s' 1 = Suc k \<and> idx s' 2 = Suc k \<and> idx s' 3 = Suc k \<and> counter s' = counter s + 1 \<and>
    length (log s') = length (log s) + 3 \<and> mpc s' = mpc s \<and> failed s' = failed s)"
proof -
  define s1 where "s1 = fold turn [1, 2, 3] s"
  have 1: "pcs s1 1 = Held" "pcs s1 2 = Held" "pcs s1 3 = Held" "idx s1 = idx s" "counter s1 = counter s" "log s1 = log s"
    "mpc s1 = mpc s" "failed s1 = failed s" using assms by (simp_all add: s1_def turn_def)
  define s2 where "s2 = fold turn [1, 2, 3] s1"
  have 2: "pcs s2 1 = Loaded (counter s)" "pcs s2 2 = Loaded (counter s)" "pcs s2 3 = Loaded (counter s)" "idx s2 = idx s"
    "log s2 = log s" "mpc s2 = mpc s" "failed s2 = failed s" using 1 by (simp_all add: s2_def turn_def)
  define s3 where "s3 = fold turn [1, 2, 3] s2"
  have 3: "pcs s3 1 = Stored" "pcs s3 2 = Stored" "pcs s3 3 = Stored" "idx s3 = idx s" "counter s3 = counter s + 1"
    "log s3 = log s" "mpc s3 = mpc s" "failed s3 = failed s" using 2 by (simp_all add: s3_def turn_def)
  define s4 where "s4 = fold turn [1, 2, 3] s3"
  have 4: "pcs s4 1 = Printed" "pcs s4 2 = Printed" "pcs s4 3 = Printed" "idx s4 = idx s" "counter s4 = counter s + 1"
    "length (log s4) = length (log s) + 3" "mpc s4 = mpc s" "failed s4 = failed s" using 3 by (simp_all add: s4_def turn_def)
  define s5 where "s5 = fold turn [1, 2, 3] s4"
  have 5: "pcs s5 1 = Top" "pcs s5 2 = Top" "pcs s5 3 = Top" "idx s5 1 = Suc k" "idx s5 2 = Suc k" "idx s5 3 = Suc k"
    "counter s5 = counter s + 1" "length (log s5) = length (log s) + 3" "mpc s5 = mpc s" "failed s5 = failed s"
    using 4 assms(4-6) by (simp_all add: s5_def turn_def)
  have "fold turn bad_round s = s5" by (simp add: bad_round_def s5_def s4_def s3_def s2_def s1_def)
  then show ?thesis using 5 by (simp add: Let_def)
qed

lemma bad_rounds:
  "j \<le> 5 \<Longrightarrow> pcs s 1 = Top \<and> pcs s 2 = Top \<and> pcs s 3 = Top \<and> idx s 1 = 0 \<and> idx s 2 = 0 \<and> idx s 3 = 0 \<Longrightarrow>
   (let s' = fold turn (concat (replicate j bad_round)) s in pcs s' 1 = Top \<and> pcs s' 2 = Top \<and> pcs s' 3 = Top \<and>
    idx s' 1 = j \<and> idx s' 2 = j \<and> idx s' 3 = j \<and> counter s' = counter s + int j \<and>
    length (log s') = length (log s) + 3 * j \<and> mpc s' = mpc s \<and> failed s' = failed s)"
proof (induction j)
  case (Suc j)
  have r: "concat (replicate (Suc j) bad_round) = concat (replicate j bad_round) @ bad_round"
    using concat_append [of "replicate j bad_round" "[bad_round]"] by (simp add: replicate_append_same)
  define s1 where "s1 = fold turn (concat (replicate j bad_round)) s"
  have 1: "pcs s1 1 = Top" "pcs s1 2 = Top" "pcs s1 3 = Top" "idx s1 1 = j" "idx s1 2 = j" "idx s1 3 = j"
    "counter s1 = counter s + int j" "length (log s1) = length (log s) + 3 * j" "mpc s1 = mpc s" "failed s1 = failed s"
    using Suc by (simp_all add: s1_def Let_def)
  have f: "fold turn (concat (replicate (Suc j) bad_round)) s = fold turn bad_round s1"
    unfolding r s1_def by simp
  show ?case unfolding f using bad_round_counts [OF 1(1-6)] Suc.prems(1) 1(7-10) by (simp add: Let_def)
qed simp

definition bad_schedule :: "nat list" where
  "bad_schedule = [0, 0, 0] @ concat (replicate 5 bad_round) @ [1, 2, 3, 0, 0, 0]"

lemma bad_run:
  "(let s = fold turn bad_schedule (threads_start ()) in mpc s = Finished \<and> failed s = [] \<and> counter s = 5 \<and> length (log s) = 15)"
proof -
  define s0 where "s0 = fold turn [0, 0, 0] (threads_start ())"
  have 0: "pcs s0 1 = Top \<and> pcs s0 2 = Top \<and> pcs s0 3 = Top \<and> idx s0 1 = 0 \<and> idx s0 2 = 0 \<and> idx s0 3 = 0"
    "counter s0 = 0" "log s0 = []" "mpc s0 = Joining 1" "failed s0 = []"
    by (simp_all add: s0_def turn_def threads_start_def after_create_def)
  define s1 where "s1 = fold turn (concat (replicate 5 bad_round)) s0"
  have 1: "pcs s1 1 = Top" "pcs s1 2 = Top" "pcs s1 3 = Top" "idx s1 1 = 5" "idx s1 2 = 5" "idx s1 3 = 5"
    "counter s1 = 5" "length (log s1) = 15" "mpc s1 = Joining 1" "failed s1 = []"
    using bad_rounds [of 5 s0, OF _ 0(1)] 0(2-5) by (simp_all add: s1_def [symmetric] Let_def)
  have "fold turn bad_schedule (threads_start ()) = fold turn [1, 2, 3, 0, 0, 0] s1"
    by (simp add: bad_schedule_def s1_def s0_def)
  moreover define s2 where "s2 = fold turn [1, 2, 3] s1"
  have 2: "pcs s2 1 = Gone" "pcs s2 2 = Gone" "pcs s2 3 = Gone" "counter s2 = 5" "length (log s2) = 15"
    "mpc s2 = Joining 1" "failed s2 = []"
    using 1 by (simp_all add: s2_def turn_def)
  define s3 where "s3 = fold turn [0, 0, 0] s2"
  have 3: "mpc s3 = Finished" "failed s3 = []" "counter s3 = 5" "length (log s3) = 15"
    using 2 by (simp_all add: s3_def turn_def after_join_def eval_nat_numeral)
  ultimately have "fold turn bad_schedule (threads_start ()) = s3" by (simp add: s3_def s2_def)
  then show ?thesis using 3 by (simp add: Let_def)
qed

text \<open>Stores so far, the bound of the counter whatever the locks do.\<close>

definition stores :: "'l tst \<Rightarrow> nat \<Rightarrow> nat" where
  "stores s t = idx s t + (if pcs s t = Stored \<or> pcs s t = Printed then 1 else 0)"

definition counter_bounded :: "nat \<Rightarrow> 'l tst \<Rightarrow> bool" where
  "counter_bounded n s =
     (counter s \<le> int (\<Sum>t = 1..n. stores s t) \<and> (\<forall>t v. pcs s t = Loaded v \<longrightarrow> v \<le> int (\<Sum>t = 1..n. stores s t)))"

lemma counter_bounded_same:
  assumes "counter_bounded n s" and "counter s' = counter s" and "\<And>t. stores s' t = stores s t"
    and "pcs s' = (pcs s)(t := p)" and "\<And>v. p = Loaded v \<Longrightarrow> v = counter s"
  shows "counter_bounded n s'"
proof -
  have "(\<Sum>t = 1..n. stores s' t) = (\<Sum>t = 1..n. stores s t)" by (simp add: assms(3))
  then show ?thesis using assms(1,2,5) unfolding counter_bounded_def assms(4) by auto
qed

lemma counter_bounded_store:
  assumes "counter_bounded n s" and "pcs s t = Loaded v" and "1 \<le> t" and "t \<le> n"
  shows "counter_bounded n (s\<lparr>counter := v + 1, pcs := (pcs s)(t := Stored)\<rparr>)" (is "counter_bounded n ?s")
proof -
  define a b where "a = (\<Sum>u = 1..n. stores s u)" and "b = (\<Sum>u = 1..n. stores ?s u)"
  have "a < b" unfolding a_def b_def
    by (rule sum_less_at [OF assms(3,4)]) (simp_all add: assms(2) stores_def)
  then have ab: "int a + 1 \<le> int b" by linarith
  have l: "w \<le> int a" if "pcs s u = Loaded w" for u w using assms(1) that unfolding counter_bounded_def a_def by blast
  have "w \<le> int b" if "pcs ?s u = Loaded w" for u w
    using l [of u w] that ab by (auto split: if_splits)
  moreover have "counter ?s \<le> int b" using l [OF assms(2)] ab by simp
  ultimately show ?thesis unfolding counter_bounded_def b_def [symmetric] by blast
qed

lemma counter_bounded_cong:
  assumes "counter_bounded n s" and "counter s' = counter s" and "idx s' = idx s" and "pcs s' = pcs s"
  shows "counter_bounded n s'"
proof -
  have "stores s' = stores s" by (rule ext) (simp add: stores_def assms)
  then have "counter_bounded n s' = counter_bounded n s" unfolding counter_bounded_def assms(2,4) by simp
  then show ?thesis using assms(1) by simp
qed

lemma counter_bounded_step:
  "tstep acq rel n loop s s' \<Longrightarrow> rounds_ok n loop s \<Longrightarrow> counter_bounded n s \<Longrightarrow> counter_bounded n s'"
proof (induction rule: tstep.induct)
  case (create s k)
  then have "pcs s k = NotRun" by (simp add: rounds_ok_def main_ok_def)
  then show ?case by - (rule counter_bounded_same [OF create(3), of _ k Top]; simp add: stores_def)
next
  case (create_failed s k rc)
  then show ?case by - (rule counter_bounded_cong [of n s]; simp)
next
  case (join s k)
  then show ?case by - (rule counter_bounded_cong [of n s]; simp)
next
  case (join_bad s k)
  then show ?case by - (rule counter_bounded_cong [of n s]; simp)
next
  case (lock s t l')
  then show ?case by - (rule counter_bounded_same [of n s _ t Held]; simp add: stores_def)
next
  case (load s t)
  then show ?case by - (rule counter_bounded_same [of n s _ t "Loaded (counter s)"]; simp add: stores_def)
next
  case (store s t v)
  then have "1 \<le> t" "t \<le> n" using rounds_okD [of n loop s t] by (simp_all add: thread_ok_def)
  with store show ?case by - (rule counter_bounded_store)
next
  case (print s t)
  then show ?case by - (rule counter_bounded_same [of n s _ t Printed]; simp add: stores_def)
next
  case (unlock s t l')
  then show ?case by - (rule counter_bounded_same [of n s _ t Top]; simp add: stores_def)
next
  case (leave s t)
  then show ?case by - (rule counter_bounded_same [of n s _ t Gone]; simp add: stores_def)
qed

lemma counter_bound:
  "treach acq rel n loop l0 s \<Longrightarrow> 1 \<le> n \<Longrightarrow> rounds_ok n loop s \<and> counter_bounded n s"
proof (induction rule: treach.induct)
  case treach_start
  have "counter_bounded n (threads_start l0)"
    by (simp add: counter_bounded_def threads_start_def sum_nonneg)
  then show ?case using treach_start by (simp add: rounds_ok_start)
next
  case (treach_step s s')
  then show ?case using rounds_ok_step counter_bounded_step by blast
qed

lemma tid_counter_le: "tid_run s \<Longrightarrow> counter s \<le> 15"
proof -
  assume "tid_run s"
  then have s: "rounds_ok 3 5 s" "counter_bounded 3 s" using counter_bound [of no_lock no_lock 3 5 "()" s] by (auto simp: tid_run_def)
  have "stores s t \<le> 5" for t
    using rounds_okD [OF s(1), of t] rounds_ok_critical [OF s(1), of t] by (auto simp: stores_def thread_ok_def critical_def)
  then have "(\<Sum>t = 1..(3 :: nat). stores s t) \<le> (\<Sum>t = 1..(3 :: nat). (5 :: nat))" by (intro sum_mono)
  also have "\<dots> = 15" by simp
  finally have "int (\<Sum>t = 1..(3 :: nat). stores s t) \<le> 15" by linarith
  then show ?thesis using s(2) unfolding counter_bounded_def by linarith
qed

text \<open>
  Without the lock \<open>tid.c\<close> loses updates: there is a run in which the three threads
  return after printing 15 lines and the counter is 5. It is never more than 15.
\<close>

theorem tid_lost_updates:
  "(\<exists>s. tid_run s \<and> mpc s = Finished \<and> failed s = [] \<and> length (log s) = 15 \<and> counter s = 5) \<and>
   \<not> (\<exists>s. tid_run s \<and> 15 < counter s)"
proof -
  have "tid_run (fold turn bad_schedule (threads_start ()))"
    by (rule turns_reach) (simp add: tid_run_def treach.treach_start)
  then have "\<exists>s. tid_run s \<and> mpc s = Finished \<and> failed s = [] \<and> length (log s) = 15 \<and> counter s = 5"
    using bad_run by (auto simp: Let_def)
  then show ?thesis using tid_counter_le by fastforce
qed

end
