(* ===== verification/ScsiLog.thy ===== *)
theory ScsiLog
  imports CLib
begin

unbundle bit_operations_syntax

text \<open>
  \<open>perftools/linux/scsi_tool/scsi_log_ctl.c\<close>: print the shell command that reads or sets
  the SCSI logging level, a word with three bits for each group. The options are those that
  \<open>getopt_long\<close> returns, with their arguments. A shift of an \<open>int\<close> moves bits, as the
  compiler of the tools defines it.
\<close>

definition log_groups :: "(string \<times> nat) list" where
  "log_groups = [(''error'', 0), (''timeout'', 3), (''scan'', 6), (''mlqueue'', 9), (''mlcomplete'', 12),
     (''llqueue'', 15), (''llcomplete'', 18), (''hlqueue'', 21), (''hlcomplete'', 24), (''ioctl'', 27)]"

fun scsi_list :: "(string \<times> nat) list \<Rightarrow> unit sm" where
  "scsi_list [] = returnS ()"
| "scsi_list (g # gs) = bindS (printf ''%s\<newline>'' [AStr (fst g)]) (\<lambda>_. scsi_list gs)"

fun name_to_group :: "(string \<times> nat) list \<Rightarrow> string \<Rightarrow> (string \<times> nat) option" where
  "name_to_group [] grp = None"
| "name_to_group (g # gs) grp = (if fst g = grp then Some g else name_to_group gs grp)"

definition scsi_get :: "string \<Rightarrow> unit sm" where
  "scsi_get grp =
     (case name_to_group log_groups grp of
        None \<Rightarrow> printf ''could not found %s\<newline>'' [AStr grp]
      | Some (_, shift) \<Rightarrow>
          printf ''cat /proc/sys/dev/scsi/logging_level & %x\<newline>'' [AInt (push_bit shift 1)])"

definition scsi_set :: "string \<Rightarrow> u32 \<Rightarrow> unit sm" where
  "scsi_set grp value =
     (case name_to_group log_groups grp of
        None \<Rightarrow> printf ''could not found %s\<newline>'' [AStr grp]
      | Some (_, shift) \<Rightarrow>
          printf ''echo 0x%x > /proc/sys/dev/scsi/logging_level\<newline>'' [AInt (push_bit shift value)])"

definition scsi_help :: "unit sm" where
  "scsi_help =
     bindS (printf ''This tool helps setting scsi logglevel\<newline>'' []) (\<lambda>_.
     bindS (printf '' -h --help       show this message\<newline>'' []) (\<lambda>_.
     bindS (printf '' -l --list       list avaiable logging levels\<newline>'' []) (\<lambda>_.
     bindS (printf '' -s --set        setup log group\<newline>'' []) (\<lambda>_.
     bindS (printf '' -g --get        get current log group level\<newline>'' []) (\<lambda>_.
     printf '' -c --clear-all  clear all log group logging level\<newline>'' [])))))"

text \<open>The local variables of \<open>main\<close>.\<close>

record scsi_args =
  get_mode :: bool
  set_mode :: bool
  grp :: "string option"
  val :: u32

definition scsi_args0 :: scsi_args where
  "scsi_args0 = \<lparr>get_mode = False, set_mode = False, grp = None, val = 0\<rparr>"

fun scsi_opts :: "(char \<times> string) list \<Rightarrow> scsi_args \<Rightarrow> (int + scsi_args) sm" where
  "scsi_opts [] a = returnS (Inr a)"
| "scsi_opts ((c, optarg) # os) a =
     (if c = CHR ''h'' \<or> c = CHR ''?'' then bindS scsi_help (\<lambda>_. scsi_opts os a)
      else if c = CHR ''l'' then bindS (scsi_list log_groups) (\<lambda>_. returnS (Inl 0))
      else if c = CHR ''c'' then scsi_opts os a
      else if c = CHR ''g'' then scsi_opts os (a\<lparr>get_mode := True, grp := Some optarg\<rparr>)
      else if c = CHR ''s'' then scsi_opts os (a\<lparr>set_mode := True, grp := Some optarg\<rparr>)
      else if c = CHR ''v'' then scsi_opts os (a\<lparr>val := word_of_int (atoi optarg)\<rparr>)
      else bindS scsi_help (\<lambda>_. returnS (Inl 1)))"

definition scsi_main :: "(char \<times> string) list \<Rightarrow> int sm" where
  "scsi_main opts =
     bindS (scsi_opts opts scsi_args0) (\<lambda>r.
     case r of
       Inl status \<Rightarrow> returnS status
     | Inr a \<Rightarrow>
         if \<not> get_mode a \<and> \<not> set_mode a then bindS scsi_help (\<lambda>_. returnS 1)
         else
           bindS (liftS (deref (grp a))) (\<lambda>g.
           bindS (if get_mode a then scsi_get g else if set_mode a then scsi_set g (val a) else returnS ()) (\<lambda>_.
           returnS 0)))"

subsection \<open>What the options mean\<close>

text \<open>Of the options that only set variables the last of a kind counts.\<close>

definition quiet :: "(char \<times> string) list \<Rightarrow> bool" where
  "quiet opts = (\<forall>p \<in> set opts. fst p \<in> {CHR ''c'', CHR ''g'', CHR ''s'', CHR ''v''})"

fun last_arg :: "(char \<times> string) list \<Rightarrow> char set \<Rightarrow> string option \<Rightarrow> string option" where
  "last_arg [] cs d = d"
| "last_arg ((c, x) # os) cs d = last_arg os cs (if c \<in> cs then Some x else d)"

lemma quiet_Cons: "quiet (p # os) \<longleftrightarrow> fst p \<in> {CHR ''c'', CHR ''g'', CHR ''s'', CHR ''v''} \<and> quiet os"
  by (simp add: quiet_def)

lemma last_arg_Some: "last_arg os cs (Some y) = (case last_arg os cs None of None \<Rightarrow> Some y | Some x \<Rightarrow> Some x)"
proof (induction os arbitrary: y)
  case (Cons q qs)
  obtain c x where "q = (c, x)" by (cases q)
  then show ?case using Cons.IH [of x] Cons.IH [of y] by (cases "last_arg qs cs None") simp_all
qed simp

definition level_of :: "string option \<Rightarrow> u32 \<Rightarrow> u32" where
  "level_of x d = (case x of None \<Rightarrow> d | Some t \<Rightarrow> word_of_int (atoi t))"

lemma scsi_opts_quiet:
  "quiet opts \<Longrightarrow> scsi_opts opts a = returnS (Inr \<lparr>get_mode = get_mode a \<or> CHR ''g'' \<in> fst ` set opts,
     set_mode = set_mode a \<or> CHR ''s'' \<in> fst ` set opts, grp = last_arg opts {CHR ''g'', CHR ''s''} (grp a),
     val = level_of (last_arg opts {CHR ''v''} None) (val a)\<rparr>)"
proof (induction opts arbitrary: a)
  case Nil
  then show ?case by (cases a) (simp add: level_of_def)
next
  case (Cons p os)
  obtain c x where p: "p = (c, x)" by (cases p)
  have d: "level_of (last_arg os {CHR ''v''} (Some y)) z = level_of (last_arg os {CHR ''v''} None) (word_of_int (atoi y))" for y z
    unfolding last_arg_Some [of os _ y] by (cases "last_arg os {CHR ''v''} None") (simp_all add: level_of_def)
  consider "c = CHR ''c''" | "c = CHR ''g''" | "c = CHR ''s''" | "c = CHR ''v''"
    using Cons.prems by (auto simp: quiet_Cons p)
  then show ?case using Cons by cases (simp_all add: p quiet_Cons d)
qed

lemma name_to_group_distinct: "distinct (map fst gs) \<Longrightarrow> (g, k) \<in> set gs \<Longrightarrow> name_to_group gs g = Some (g, k)"
  by (induction gs) (force simp: image_iff)+

lemma log_group_found: "(g, k) \<in> set log_groups \<Longrightarrow> name_to_group log_groups g = Some (g, k)"
  by (rule name_to_group_distinct) (simp_all add: log_groups_def)

lemma fmt_echo:
  "vsprintf ''echo 0x%x > /proc/sys/dev/scsi/logging_level\<newline>'' [AInt w] =
     Inr (''echo 0x'' @ hexn (unat w) @ '' > /proc/sys/dev/scsi/logging_level\<newline>'')"
  by (simp add: fmt_eval pad_left_def)

text \<open>A level below 8 stays in the bits of its group.\<close>

lemma group_bits:
  fixes n :: nat
  assumes "(g, k) \<in> set log_groups" and "(g', k') \<in> set log_groups" and "n < 8"
  shows "n * 2 ^ k div 2 ^ k' mod 8 = (if g' = g then n else 0)"
proof -
  have "3 dvd k" "3 dvd k'" using assms(1,2) by (auto simp: log_groups_def)
  then obtain a b where k: "k = 3 * a" "k' = 3 * b" by (elim dvdE)
  have d: "distinct (map fst log_groups)" "distinct (map snd log_groups)" by (simp_all add: log_groups_def)
  have "a = b \<longleftrightarrow> g = g'"
  proof
    assume "a = b"
    then have "snd (g, k) = snd (g', k')" using k by simp
    then show "g = g'" using d(2) assms(1,2) unfolding distinct_map inj_on_def by blast
  next
    assume "g = g'"
    then have "k = k'" using eq_key_imp_eq_value [OF d(1)] assms(1,2) by blast
    then show "a = b" using k by simp
  qed
  moreover have "n * 2 ^ k div 2 ^ k' mod 8 = (if a = b then n else 0)"
  proof (cases a b rule: linorder_cases)
    case less
    then obtain d where "b = a + Suc d" by (metis add_Suc_right less_iff_Suc_add)
    then have "(2 :: nat) ^ k' = 8 ^ Suc d * 2 ^ k" using k by (simp add: power_mult power_add)
    then have "n * 2 ^ k div 2 ^ k' = n div 8 ^ Suc d" by (simp only: div_mult_mult2) simp
    moreover have "n < 8 ^ Suc d" using assms(3) by (rule less_le_trans) simp
    ultimately show ?thesis using less by simp
  next
    case equal
    then show ?thesis using k assms(3) by simp
  next
    case greater
    then obtain d where "a = b + Suc d" by (metis add_Suc_right less_iff_Suc_add)
    then have "n * 2 ^ k = n * 8 ^ Suc d * 2 ^ k'" using k by (simp add: power_mult power_add)
    then have "n * 2 ^ k div 2 ^ k' = 8 * (n * 8 ^ d)" by (simp only: nonzero_mult_div_cancel_right) simp
    then show ?thesis using greater by (simp only:) simp
  qed
  ultimately show ?thesis by auto
qed

lemma group_level:
  assumes "(g, k) \<in> set log_groups" and "n < 8"
  shows "unat (push_bit k (word_of_nat n) :: u32) = n * 2 ^ k"
proof -
  have "k \<in> {0, 3, 6, 9, 12, 15, 18, 21, 24, 27}" using assms(1) by (auto simp: log_groups_def)
  then have "(2 :: nat) ^ k \<le> 2 ^ 27" by (intro power_increasing) auto
  then have "n * 2 ^ k \<le> 7 * 2 ^ 27" using assms(2) by (intro mult_le_mono) simp_all
  then have "n * 2 ^ k < 4294967296" by simp
  then have "unat (word_of_nat (n * 2 ^ k) :: u32) = n * 2 ^ k" by (simp only: unat_of_nat) simp
  moreover have "push_bit k (word_of_nat n) = (word_of_nat (n * 2 ^ k) :: u32)" by (simp add: push_bit_eq_mult)
  ultimately show ?thesis by (simp only:)
qed

subsection \<open>The program\<close>

lemma scsi_set_echo:
  assumes "(g, k) \<in> set log_groups" and "n < 8"
  shows "scsi_set g (word_of_nat n) s =
    Inr ((), s\<lparr>outs := outs s @ ''echo 0x'' @ hexn (n * 2 ^ k) @ '' > /proc/sys/dev/scsi/logging_level\<newline>''\<rparr>)"
  by (simp add: scsi_set_def log_group_found [OF assms(1)] printf_text [OF fmt_echo] group_level [OF assms])

lemma scsi_main_set:
  assumes "quiet opts" and "CHR ''s'' \<in> fst ` set opts" and "CHR ''g'' \<notin> fst ` set opts"
    and "last_arg opts {CHR ''g'', CHR ''s''} None = Some g" and "level_of (last_arg opts {CHR ''v''} None) 0 = word_of_nat n"
    and "(g, k) \<in> set log_groups" and "n < 8"
  shows "scsi_main opts s = Inr (0, s\<lparr>outs := outs s @ ''echo 0x'' @ hexn (n * 2 ^ k) @ '' > /proc/sys/dev/scsi/logging_level\<newline>''\<rparr>)"
  using assms(2-5) scsi_set_echo [OF assms(6,7), of s]
  by (simp add: scsi_main_def scsi_opts_quiet [OF assms(1)] scsi_args0_def bindS_def returnS_def)

text \<open>
  C12: For options that name a group with \<open>-s\<close> and a level below 8 with \<open>-v\<close>, in any
  order and repeated (the last of each counts, \<open>-c\<close> does nothing), the command printed
  writes a word in which that group has that level and every other group has level 0: setting
  one group clears all the others.
\<close>

theorem scsi_set_clears_others:
  assumes "quiet opts" and "CHR ''s'' \<in> fst ` set opts" and "CHR ''g'' \<notin> fst ` set opts"
    and "last_arg opts {CHR ''g'', CHR ''s''} None = Some g" and "level_of (last_arg opts {CHR ''v''} None) 0 = word_of_nat n"
    and "(g, k) \<in> set log_groups" and "n < 8"
  shows "\<exists>w. scsi_main opts s = Inr (0, s\<lparr>outs := outs s @ ''echo 0x'' @ hexn w @ '' > /proc/sys/dev/scsi/logging_level\<newline>''\<rparr>) \<and>
    (\<forall>(g', k') \<in> set log_groups. w div 2 ^ k' mod 8 = (if g' = g then n else 0))"
  using scsi_main_set [OF assms, of s] group_bits [OF assms(6) _ assms(7)] by (intro exI [of _ "n * 2 ^ k"]) auto

theorem scsi_set_clears_others_witness:
  "\<exists>w. scsi_main [(CHR ''v'', decn 5), (CHR ''c'', []), (CHR ''s'', ''scan'')]
      \<lparr>files = Map.empty, fdt = [], avail = 0, live = [], fresh = 0, outs = [], errs = []\<rparr> =
    Inr (0, \<lparr>files = Map.empty, fdt = [], avail = 0, live = [], fresh = 0,
      outs = ''echo 0x'' @ hexn w @ '' > /proc/sys/dev/scsi/logging_level\<newline>'', errs = []\<rparr>)"
  using scsi_set_clears_others [of "[(CHR ''v'', decn 5), (CHR ''c'', []), (CHR ''s'', ''scan'')]" "''scan''" 5 6
      "\<lparr>files = Map.empty, fdt = [], avail = 0, live = [], fresh = 0, outs = [], errs = []\<rparr>"]
  by (auto simp: quiet_def level_of_def atoi_decn log_groups_def)

text \<open>An unknown group is reported, and the status is still 0; without a group there is the help text and status 1.\<close>

lemma scsi_unknown_group:
  "name_to_group log_groups g = None \<Longrightarrow> scsi_get g s = Inr ((), s\<lparr>outs := outs s @ ''could not found '' @ g @ [NL]\<rparr>)"
proof -
  assume n: "name_to_group log_groups g = None"
  have "vsprintf ''could not found %s\<newline>'' [AStr g] = Inr (''could not found '' @ g @ [NL])"
    by (simp add: fmt_eval pad_left_def NL_def)
  then show ?thesis by (simp add: scsi_get_def n printf_text)
qed

text \<open>The mask that \<open>-g\<close> prints is the lowest bit of the group, not its three bits.\<close>

lemma scsi_get_mask:
  assumes "(g, k) \<in> set log_groups"
  shows "scsi_get g s = Inr ((), s\<lparr>outs := outs s @ ''cat /proc/sys/dev/scsi/logging_level & '' @ hexn (2 ^ k) @ [NL]\<rparr>)"
proof -
  have "vsprintf ''cat /proc/sys/dev/scsi/logging_level & %x\<newline>'' [AInt w] =
      Inr (''cat /proc/sys/dev/scsi/logging_level & '' @ hexn (unat w) @ [NL])" for w
    by (simp add: fmt_eval pad_left_def NL_def)
  moreover have "unat (push_bit k 1 :: u32) = 2 ^ k" using group_level [OF assms, of 1] by simp
  ultimately show ?thesis by (simp add: scsi_get_def log_group_found [OF assms] printf_text)
qed

end
