(* ===== verification/WordDump.thy ===== *)
theory WordDump
  imports Posix "HOL-Library.Signed_Division"
begin

text \<open>
  \<open>perftools/c/hexdump.c\<close>: a dump of memory in words of eight bytes, four in a row. The
  pointer is an index into a buffer that lies at the address \<open>base\<close>; a word that does
  not lie in the buffer is a fault.
\<close>

definition at_addr :: "u64 \<Rightarrow> nat \<Rightarrow> u64" where "at_addr base p = base + word_of_nat p"

text \<open>A full row: \<open>line\<close> times, the pointer moving on by 32.\<close>

primrec dump_rows :: "u64 \<Rightarrow> byte list \<Rightarrow> nat \<Rightarrow> nat \<Rightarrow> unit sm" where
  "dump_rows base buf p 0 = returnS ()"
| "dump_rows base buf p (Suc line) =
     bindS (liftS (get64 buf p)) (\<lambda>w0.
     bindS (liftS (get64 buf (p + 8))) (\<lambda>w1.
     bindS (liftS (get64 buf (p + 16))) (\<lambda>w2.
     bindS (liftS (get64 buf (p + 24))) (\<lambda>w3.
     bindS (printf ''[0x%016lx]: 0x%016lx 0x%016lx 0x%016lx 0x%016lx\<newline>''
       [ALong (at_addr base p), ALong w0, ALong w1, ALong w2, ALong w3]) (\<lambda>_.
     dump_rows base buf (p + 32) line)))))"

text \<open>The words of the last row, with the positions as they stand in the three cases.\<close>

definition dump_tail :: "u64 \<Rightarrow> byte list \<Rightarrow> nat \<Rightarrow> int \<Rightarrow> unit sm" where
  "dump_tail base buf p num =
     (if num = 1 then
        bindS (liftS (get64 buf p)) (\<lambda>w0.
        printf ''[0x%016lx] 0x%016lx\<newline>'' [ALong (at_addr base p), ALong w0])
      else if num = 2 then
        bindS (liftS (get64 buf p)) (\<lambda>w0.
        bindS (liftS (get64 buf (p + 8))) (\<lambda>w1.
        printf ''[0x%016lx] 0x%016lx 0x%016lx\<newline>'' [ALong (at_addr base p), ALong w0, ALong w1]))
      else if num = 3 then
        bindS (liftS (get64 buf (p + 8))) (\<lambda>w1.
        bindS (liftS (get64 buf (p + 16))) (\<lambda>w2.
        bindS (liftS (get64 buf (p + 24))) (\<lambda>w3.
        printf ''[0x%016lx] 0x%016lx 0x%016lx 0x%016lx\<newline>'' [ALong (at_addr base p), ALong w1, ALong w2, ALong w3])))
      else returnS ())"

definition dump_data :: "u64 \<Rightarrow> byte list \<Rightarrow> int \<Rightarrow> string \<Rightarrow> unit sm" where
  "dump_data base buf len message =
     (let line = len sdiv 32; remain = len smod 32; num = remain sdiv 8
      in bindS (printf ''%s\<newline>'' [AStr message]) (\<lambda>_.
         bindS (dump_rows base buf 0 (nat line)) (\<lambda>_.
         dump_tail base buf (32 * nat line) num)))"

definition hexdump_main :: "u64 \<Rightarrow> int sm" where
  "hexdump_main base =
     (let buf = map word_of_nat [0..<128] in
      bindS (dump_data base buf 3 ''aa'') (\<lambda>_.
      bindS (dump_data base buf 4 ''bb'') (\<lambda>_.
      bindS (dump_data base buf 5 ''cc'') (\<lambda>_.
      bindS (dump_data base buf 8 ''dd'') (\<lambda>_.
      bindS (dump_data base buf 16 ''dd16'') (\<lambda>_.
      bindS (dump_data base buf 32 ''dd'') (\<lambda>_.
      bindS (dump_data base buf 64 ''dd'') (\<lambda>_.
      bindS (dump_data base buf 72 ''dd'') (\<lambda>_. returnS 0)))))))))"

subsection \<open>What a dump should print\<close>

text \<open>A word in sixteen digits, and the rows of a list of words.\<close>

definition hex16 :: "nat \<Rightarrow> string" where "hex16 n = pad_left CHR ''0'' 16 (hexn n)"

definition word_at :: "byte list \<Rightarrow> nat \<Rightarrow> nat" where "word_at buf p = le_val (bslice p 8 buf)"

definition row_text :: "u64 \<Rightarrow> nat \<Rightarrow> string \<Rightarrow> nat list \<Rightarrow> string" where
  "row_text base p sep ws = ''[0x'' @ hex16 (unat (at_addr base p)) @ '']'' @ sep @
     concat (map (\<lambda>w. '' 0x'' @ hex16 w) ws) @ [NL]"

lemma get64_ok: "p + 8 \<le> length buf \<Longrightarrow> get64 buf p = Inr (word_of_nat (word_at buf p)) \<and> word_at buf p < 18446744073709551616"
proof -
  assume p: "p + 8 \<le> length buf"
  have "word_at buf p < 256 ^ 8" using le_val_bound [of "bslice p 8 buf"] p by (simp add: word_at_def)
  then show ?thesis using p by (simp add: get64_def get_le_def word_at_def)
qed

lemma unat_word_at: "p + 8 \<le> length buf \<Longrightarrow> unat (word_of_nat (word_at buf p) :: u64) = word_at buf p"
  using get64_ok [of p buf] by (simp add: unat_of_nat)

lemma get64_beyond: "\<not> p + 8 \<le> length buf \<Longrightarrow> get64 buf p = Inl OutOfBounds"
  by (simp add: get64_def get_le_def)

lemma fmt_rows [fmt_simps]:
  "vsprintf ''[0x%016lx]: 0x%016lx 0x%016lx 0x%016lx 0x%016lx\<newline>'' [ALong a, ALong w0, ALong w1, ALong w2, ALong w3] =
     Inr (''[0x'' @ hex16 (unat a) @ '']: 0x'' @ hex16 (unat w0) @ '' 0x'' @ hex16 (unat w1) @ '' 0x'' @ hex16 (unat w2) @
       '' 0x'' @ hex16 (unat w3) @ [NL])"
  "vsprintf ''[0x%016lx] 0x%016lx\<newline>'' [ALong a, ALong w0] = Inr (''[0x'' @ hex16 (unat a) @ ''] 0x'' @ hex16 (unat w0) @ [NL])"
  "vsprintf ''[0x%016lx] 0x%016lx 0x%016lx\<newline>'' [ALong a, ALong w0, ALong w1] =
     Inr (''[0x'' @ hex16 (unat a) @ ''] 0x'' @ hex16 (unat w0) @ '' 0x'' @ hex16 (unat w1) @ [NL])"
  "vsprintf ''[0x%016lx] 0x%016lx 0x%016lx 0x%016lx\<newline>'' [ALong a, ALong w0, ALong w1, ALong w2] =
     Inr (''[0x'' @ hex16 (unat a) @ ''] 0x'' @ hex16 (unat w0) @ '' 0x'' @ hex16 (unat w1) @ '' 0x'' @ hex16 (unat w2) @ [NL])"
  by (simp_all add: fmt_eval hex16_def NL_def)

definition full_rows :: "u64 \<Rightarrow> byte list \<Rightarrow> nat \<Rightarrow> nat \<Rightarrow> string" where
  "full_rows base buf p line =
     concat (map (\<lambda>i. row_text base (p + 32 * i) '':'' (map (\<lambda>j. word_at buf (p + 32 * i + 8 * j)) [0, 1, 2, 3])) [0..<line])"

lemma full_rows_Suc:
  "full_rows base buf p (Suc line) =
     row_text base p '':'' [word_at buf p, word_at buf (p + 8), word_at buf (p + 16), word_at buf (p + 24)] @
     full_rows base buf (p + 32) line"
  by (simp add: full_rows_def upt_conv_Cons map_Suc_upt [symmetric] comp_def algebra_simps del: upt_Suc)

lemma dump_rows_text:
  "p + 32 * line \<le> length buf \<Longrightarrow> dump_rows base buf p line s = Inr ((), s\<lparr>outs := outs s @ full_rows base buf p line\<rparr>)"
proof (induction line arbitrary: p s)
  case 0
  then show ?case by (simp add: returnS_def full_rows_def)
next
  case (Suc line)
  have g: "get64 buf (p + k) = Inr (word_of_nat (word_at buf (p + k)))" "unat (word_of_nat (word_at buf (p + k)) :: u64) = word_at buf (p + k)"
    if "k \<in> {0, 8, 16, 24}" for k
    using that Suc.prems get64_ok [of "p + k" buf] unat_word_at [of "p + k" buf] by auto
  have "dump_rows base buf p (Suc line) s = dump_rows base buf (p + 32) line
      (s\<lparr>outs := outs s @ row_text base p '':'' [word_at buf p, word_at buf (p + 8), word_at buf (p + 16), word_at buf (p + 24)]\<rparr>)"
    using g [of 0] g [of 8] g [of 16] g [of 24]
    by (simp add: bindS_def [of "printf f a" for f a] printf_text [OF fmt_rows(1)] row_text_def)
  also have "\<dots> = Inr ((), s\<lparr>outs := outs s @ full_rows base buf p (Suc line)\<rparr>)"
    using Suc.prems Suc.IH by (simp add: full_rows_Suc)
  finally show ?case .
qed

text \<open>
  The words of the last row: the ones that are left, except in the case of three.
\<close>

definition tail_text :: "u64 \<Rightarrow> byte list \<Rightarrow> nat \<Rightarrow> nat \<Rightarrow> string" where
  "tail_text base buf p num =
     (if num = 0 then [] else row_text base p [] (map (\<lambda>j. word_at buf (p + 8 * (if num = 3 then Suc j else j))) [0..<num]))"

lemma dump_tail_text:
  assumes "num \<le> 3" and "p + 8 * (if num = 3 then 4 else num) \<le> length buf"
  shows "dump_tail base buf p (int num) s = Inr ((), s\<lparr>outs := outs s @ tail_text base buf p num\<rparr>)"
proof -
  have g: "get64 buf (p + k) = Inr (word_of_nat (word_at buf (p + k)))" "unat (word_of_nat (word_at buf (p + k)) :: u64) = word_at buf (p + k)"
    if "p + k + 8 \<le> length buf" for k
    using that get64_ok [of "p + k" buf] unat_word_at [of "p + k" buf] by auto
  consider "num = 0" | "num = 1" | "num = 2" | "num = 3" using assms(1) by linarith
  then show ?thesis
  proof cases
    case 1
    then show ?thesis by (simp add: dump_tail_def tail_text_def returnS_def)
  next
    case 2
    then show ?thesis using g [of 0] assms(2)
      by (simp add: dump_tail_def tail_text_def printf_text [OF fmt_rows(2)] row_text_def)
  next
    case 3
    then show ?thesis using g [of 0] g [of 8] assms(2)
      by (simp add: dump_tail_def tail_text_def printf_text [OF fmt_rows(3)] row_text_def upt_rec)
  next
    case 4
    then show ?thesis using g [of 8] g [of 16] g [of 24] assms(2)
      by (simp add: dump_tail_def tail_text_def printf_text [OF fmt_rows(4)] row_text_def upt_rec)
  qed
qed

lemma dump_tail_beyond:
  "p + 24 \<le> length buf \<Longrightarrow> length buf < p + 32 \<Longrightarrow> dump_tail base buf p 3 s = Inl OutOfBounds"
  using get64_ok [of "p + 8" buf] get64_ok [of "p + 16" buf]
  by (auto simp: dump_tail_def get64_beyond bindS_def liftS_def)

lemma truncated_division:
  assumes "0 < k" shows "int n sdiv int k = int (n div k)" and "int n smod int k = int (n mod k)"
  using assms by (auto simp: signed_divide_int_def signed_modulo_int_def sgn_if zdiv_int zmod_int)

lemma dump_data_text:
  assumes "n \<le> length buf" and "line = n div 32" and "num = n mod 32 div 8"
  shows "num \<noteq> 3 \<or> 32 * line + 32 \<le> length buf \<Longrightarrow> dump_data base buf (int n) message s =
      Inr ((), s\<lparr>outs := outs s @ message @ [NL] @ full_rows base buf 0 line @ tail_text base buf (32 * line) num\<rparr>)"
    and "num = 3 \<and> length buf < 32 * line + 32 \<Longrightarrow> dump_data base buf (int n) message s = Inl OutOfBounds"
proof -
  have d: "int n sdiv 32 = int line" "int n smod 32 = int (n mod 32)" "int (n mod 32) sdiv 8 = int num"
    using truncated_division [of 32 n] truncated_division [of 8 "n mod 32"] by (simp_all add: assms)
  have n: "n = 32 * line + n mod 32" "n mod 32 < 32" using assms(2) by simp_all
  have m: "num \<le> 3" "8 * num \<le> n mod 32" using assms(3) n(2) by linarith+
  have r: "0 + 32 * line \<le> length buf" using n(1) assms(1) by linarith
  have "dump_data base buf (int n) message s =
      dump_tail base buf (32 * line) (int num) (s\<lparr>outs := outs s @ message @ [NL] @ full_rows base buf 0 line\<rparr>)"
    using dump_rows_text [OF r] by (simp add: dump_data_def d Let_def bindS_def printf_text [OF fmt_s_nl])
  note e = this
  show "dump_data base buf (int n) message s =
      Inr ((), s\<lparr>outs := outs s @ message @ [NL] @ full_rows base buf 0 line @ tail_text base buf (32 * line) num\<rparr>)"
    if "num \<noteq> 3 \<or> 32 * line + 32 \<le> length buf"
  proof -
    have "32 * line + 8 * (if num = 3 then 4 else num) \<le> length buf" using that n assms(1) m by auto
    then show ?thesis unfolding e using dump_tail_text [OF m(1)] by simp
  qed
  show "dump_data base buf (int n) message s = Inl OutOfBounds" if "num = 3 \<and> length buf < 32 * line + 32"
    unfolding e using that n assms(1) m by (simp add: dump_tail_beyond)
qed

text \<open>
  \<open>dump_data\<close> prints the rows of four words and then, when one or two words are left,
  those; the bytes that do not fill a word are not printed. When three words are left it
  leaves out the first of them and prints the word after the last instead, which is a read
  out of bounds if the buffer ends there.
\<close>

theorem dump_data_rows:
  assumes "n \<le> length buf"
  shows "dump_data base buf (int n) message s =
    (if n mod 32 div 8 = 3 \<and> length buf < 32 * (n div 32) + 32 then Inl OutOfBounds
     else Inr ((), s\<lparr>outs := outs s @ message @ [NL] @
       concat (map (\<lambda>i. row_text base (32 * i) '':'' (map (\<lambda>j. word_at buf (32 * i + 8 * j)) [0, 1, 2, 3])) [0..<n div 32]) @
       (if n mod 32 div 8 = 0 then []
        else row_text base (32 * (n div 32)) [] (map (\<lambda>j. word_at buf (32 * (n div 32) + 8 * (if n mod 32 div 8 = 3 then Suc j else j)))
          [0..<n mod 32 div 8]))\<rparr>))"
proof (cases "n mod 32 div 8 = 3 \<and> length buf < 32 * (n div 32) + 32")
  case True
  then show ?thesis using dump_data_text(2) [OF assms refl refl, of base message s] by simp
next
  case False
  then have "n mod 32 div 8 \<noteq> 3 \<or> 32 * (n div 32) + 32 \<le> length buf" by linarith
  from dump_data_text(1) [OF assms refl refl this, of base message s] False
  show ?thesis by (simp only: if_False full_rows_def tail_text_def add_0)
qed

definition quiet_os :: os where
  "quiet_os = \<lparr>files = Map.empty, fdt = [], avail = 0, live = [], fresh = 0, outs = [], errs = []\<rparr>"

theorem dump_data_rows_witness:
  "dump_data 0 (replicate 24 1) 24 ''m'' quiet_os = Inl OutOfBounds \<and>
   (\<exists>s'. dump_data 0 (replicate 24 1) 16 ''m'' quiet_os = Inr ((), s'))"
  using dump_data_rows [of 24 "replicate 24 1" 0 "''m''" quiet_os] dump_data_rows [of 16 "replicate 24 1" 0 "''m''" quiet_os]
  by simp

lemma bindS_runs:
  "\<exists>s'. m s = Inr ((), s') \<Longrightarrow> (\<And>s'. \<exists>s''. f () s' = Inr (y, s'')) \<Longrightarrow> \<exists>s''. bindS m f s = Inr (y, s'')"
  by (auto simp: bindS_def)

text \<open>The calls of \<open>main\<close> never leave three words over.\<close>

lemma hexdump_main_ok: "\<exists>s'. hexdump_main base s = Inr (0, s')"
proof -
  define buf where "buf = map (word_of_nat :: nat \<Rightarrow> byte) [0..<128]"
  have "\<exists>s'. dump_data base buf (int n) m s = Inr ((), s')" if "n \<le> 128" "n mod 32 div 8 \<noteq> 3" for n m s
    using dump_data_text(1) [of n buf, OF _ refl refl, of base m s] that by (auto simp: buf_def)
  note ok = this
  have "\<exists>s'. dump_data base buf (numeral k) m s = Inr ((), s')"
    if "numeral k \<le> (128 :: nat)" "numeral k mod 32 div 8 \<noteq> (3 :: nat)" for k m s
    using ok [OF that] by simp
  then show ?thesis unfolding hexdump_main_def buf_def [symmetric] Let_def
    by (intro bindS_runs) (simp_all add: returnS_def)
qed

end
