(* ===== verification/BitPack.thy ===== *)
theory BitPack
  imports CBase
begin

unbundle bit_operations_syntax

text \<open>
  \<open>perftools/security/encrypt.c\<close>: eight bytes as 64 characters that hold one bit each, and
  back, around the library functions \<open>setkey\<close> and \<open>encrypt\<close>. These two are a
  parameter: \<open>des key block flag\<close> is the block that \<open>encrypt\<close> leaves. \<open>char\<close> is
  signed, so it enters \<open>int\<close> arithmetic by sign extension; a shift of \<open>int\<close> moves bits.
\<close>

text \<open>One byte to eight characters: \<open>*cp++ = (t & (0x01 << (7-j))) != 0\<close> for j from 0 to 7.\<close>

definition get8_byte :: "byte \<Rightarrow> byte list" where
  "get8_byte c = (let t = scast c :: u32 in map (\<lambda>j. if t AND push_bit (7 - j) 1 \<noteq> 0 then 1 else 0) [0..<8])"

primrec get8_loop :: "byte list \<Rightarrow> nat \<Rightarrow> nat \<Rightarrow> byte list res" where
  "get8_loop src i 0 = Inr []"
| "get8_loop src i (Suc k) =
     bindE (buf_at src i) (\<lambda>c. bindE (get8_loop src (Suc i) k) (\<lambda>bs. Inr (get8_byte c @ bs)))"

definition get8_c :: "byte list \<Rightarrow> byte list res" where "get8_c src = get8_loop src 0 8"

text \<open>Eight characters to one byte: \<open>t = (t<<1) | *cp++\<close>, then \<open>*dst = t\<close>.\<close>

primrec put8_byte :: "byte list \<Rightarrow> nat \<Rightarrow> nat \<Rightarrow> u32 \<Rightarrow> u32 res" where
  "put8_byte cp p 0 t = Inr t"
| "put8_byte cp p (Suc k) t = bindE (buf_at cp p) (\<lambda>c. put8_byte cp (Suc p) k (push_bit 1 t OR scast c))"

primrec put8_loop :: "byte list \<Rightarrow> nat \<Rightarrow> nat \<Rightarrow> byte list res" where
  "put8_loop cp p 0 = Inr []"
| "put8_loop cp p (Suc k) =
     bindE (put8_byte cp p 8 0) (\<lambda>t. bindE (put8_loop cp (p + 8) k) (\<lambda>bs. Inr (ucast t # bs)))"

definition put8_c :: "byte list \<Rightarrow> byte list res" where "put8_c cp = put8_loop cp 0 8"

definition des_key :: "byte list" where
  "des_key = concat (replicate 32 [1, 0])"

definition hello_block :: "byte list" where
  "hello_block = [104, 101, 108, 108, 111, 0, 0, 0]"

text \<open>The main program: its result is the array \<open>res\<close>.\<close>

definition encrypt_main :: "(byte list \<Rightarrow> byte list \<Rightarrow> int \<Rightarrow> byte list) \<Rightarrow> byte list res" where
  "encrypt_main des =
     bindE (get8_c hello_block) (\<lambda>txt.
     let txt = des des_key txt 0; txt = des des_key txt 1
     in put8_c txt)"

subsection \<open>One byte\<close>

definition bit_block :: "byte list \<Rightarrow> bool" where
  "bit_block bs = (length bs = 64 \<and> set bs \<subseteq> {0, 1})"

lemma length_get8_byte [simp]: "length (get8_byte c) = 8"
  by (simp add: get8_byte_def)

lemma set_get8_byte: "set (get8_byte c) \<subseteq> {0, 1}"
  by (auto simp: get8_byte_def)

lemma bit_scast_byte: "n < 8 \<Longrightarrow> bit (scast (c :: byte) :: u32) n = bit c n"
  by (auto simp: bit_simps)

lemma nth_get8_byte: "j < 8 \<Longrightarrow> get8_byte c ! j = (if bit c (7 - j) then 1 else 0)"
proof -
  assume j: "j < 8"
  have "(x AND push_bit n 1 \<noteq> 0) = bit x n" if "n < 32" for x :: u32 and n
  proof
    assume "x AND push_bit n 1 \<noteq> 0"
    then obtain m where "bit (x AND push_bit n 1) m" by (metis bit_eq_iff bit_0_eq bot_apply bot_bool_def)
    then show "bit x n" by (auto simp: bit_simps)
  next
    assume "bit x n"
    then have "bit (x AND push_bit n 1) n" using that by (simp add: bit_simps)
    then show "x AND push_bit n 1 \<noteq> 0" by auto
  qed
  then show ?thesis using j bit_scast_byte [of "7 - j" c] by (simp add: get8_byte_def Let_def)
qed

text \<open>The value that has been shifted in after k characters.\<close>

lemma put8_byte_bits:
  assumes "p + k \<le> length cp" and "\<And>i. i < k \<Longrightarrow> cp ! (p + i) = (if b i then 1 else 0)"
  shows "\<exists>r. put8_byte cp p k t = Inr r \<and> (\<forall>n < 32. bit r n = (if n < k then b (k - 1 - n) else bit t (n - k)))"
  using assms
proof (induction k arbitrary: p t b)
  case 0
  then show ?case by simp
next
  case (Suc k)
  have c: "cp ! p = (if b 0 then 1 else 0)" using Suc.prems(2) [of 0] by simp
  define t' where "t' = (push_bit 1 t OR scast (cp ! p) :: u32)"
  have "Suc p + k \<le> length cp" "\<And>i. i < k \<Longrightarrow> cp ! (Suc p + i) = (if (b \<circ> Suc) i then 1 else 0)"
    using Suc.prems(1) Suc.prems(2) [of "Suc _"] by simp_all
  from Suc.IH [OF this, of t'] obtain r where r: "put8_byte cp (Suc p) k t' = Inr r"
    "\<And>n. n < 32 \<Longrightarrow> bit r n = (if n < k then (b \<circ> Suc) (k - 1 - n) else bit t' (n - k))" by blast
  have t': "bit t' n = (if n = 0 then b 0 else bit t (n - 1))" if "n < 32" for n
  proof -
    have "bit (push_bit 1 t) n = (n \<noteq> 0 \<and> bit t (n - 1))" using that by (auto simp only: bit_push_bit_iff) (auto simp: not_less)
    moreover have "bit (scast (cp ! p) :: u32) n = (n = 0 \<and> b 0)" using c by (cases "b 0") (auto simp: bit_1_iff)
    ultimately show ?thesis unfolding t'_def bit_or_iff by auto
  qed
  have "bit r n = (if n < Suc k then b (Suc k - 1 - n) else bit t (n - Suc k))" if "n < 32" for n
    using r(2) [OF that] t' [of "n - k"] that by (auto simp: Suc_diff_Suc not_less less_Suc_eq_le)
  moreover have "put8_byte cp p (Suc k) t = Inr r"
    using Suc.prems(1) r(1) by (simp add: buf_at_Inr t'_def)
  ultimately show ?case by blast
qed

lemma put8_get8_byte:
  assumes "p + 8 \<le> length cp" and "bslice p 8 cp = get8_byte c"
  shows "\<exists>t. put8_byte cp p 8 0 = Inr t \<and> ucast t = c"
proof -
  have "cp ! (p + i) = (if bit c (7 - i) then 1 else 0)" if "i < 8" for i
    using nth_bslice [OF assms(1) that] nth_get8_byte [OF that, of c] assms(2) by simp
  from put8_byte_bits [OF assms(1) this, where t = 0]
  obtain t where t: "put8_byte cp p 8 0 = Inr t" "\<forall>n < 32. bit t n = (if n < 8 then bit c (7 - (8 - 1 - n)) else bit (0 :: u32) (n - 8))"
    by blast
  have "ucast t = c"
  proof (rule bit_word_eqI)
    fix n assume "n < LENGTH(8)"
    then have "n < 8" by simp
    then show "bit (ucast t :: byte) n = bit c n" using t(2) by (simp add: bit_simps)
  qed
  then show ?thesis using t(1) by blast
qed

subsection \<open>Eight bytes\<close>

lemma get8_loop_bits: "i + k \<le> length src \<Longrightarrow> get8_loop src i k = Inr (concat (map get8_byte (bslice i k src)))"
proof (induction k arbitrary: i)
  case 0
  then show ?case by (simp add: bslice_def)
next
  case (Suc k)
  then have "bslice i (Suc k) src = src ! i # bslice (Suc i) k src"
    by (simp add: bslice_def Cons_nth_drop_Suc [symmetric])
  then show ?case using Suc by (simp add: buf_at_Inr)
qed

lemma put8_loop_bytes:
  "p + 8 * length cs \<le> length cp \<Longrightarrow> bslice p (8 * length cs) cp = concat (map get8_byte cs) \<Longrightarrow>
   put8_loop cp p (length cs) = Inr cs"
proof (induction cs arbitrary: p)
  case (Cons c cs)
  have "take 8 (bslice p (8 * length (c # cs)) cp) = get8_byte c" "drop 8 (bslice p (8 * length (c # cs)) cp) = concat (map get8_byte cs)"
    using Cons.prems(2) by simp_all
  then have s: "bslice p 8 cp = get8_byte c" "bslice (p + 8) (8 * length cs) cp = concat (map get8_byte cs)"
    by (simp_all add: bslice_def min_def drop_take add.commute)
  obtain t where "put8_byte cp p 8 0 = Inr t" "ucast t = c"
    using put8_get8_byte [of p cp c] Cons.prems(1) s(1) by auto
  moreover have "put8_loop cp (p + 8) (length cs) = Inr cs"
    using Cons.prems(1) s(2) by (intro Cons.IH) simp_all
  ultimately show ?case by simp
qed simp

lemma bslice_concat_blocks:
  assumes "\<forall>b \<in> set bss. length b = k" and "i < length bss"
  shows "bslice (k * i) k (concat bss) = bss ! i"
  using assms
proof (induction bss arbitrary: i)
  case (Cons b bss)
  then show ?case by (cases i) (simp_all add: bslice_def)
qed simp

text \<open>What \<open>get8\<close> makes of eight bytes.\<close>

lemma get8_c_blocks: "8 \<le> length src \<Longrightarrow> get8_c src = Inr (concat (map get8_byte (take 8 src)))"
  using get8_loop_bits [of 0 8 src] by (simp add: get8_c_def bslice_def)

lemma blocks_length: "8 \<le> length src \<Longrightarrow> length (concat (map get8_byte (take 8 src))) = 64"
  by (simp add: length_concat comp_def sum_list_triv)

lemma blocks_nth:
  assumes "8 \<le> length src" "i < 8" "j < 8"
  shows "concat (map get8_byte (take 8 src)) ! (8 * i + j) = (if bit (src ! i) (7 - j) then 1 else 0)"
proof -
  let ?bs = "concat (map get8_byte (take 8 src))"
  have "bslice (8 * i) 8 ?bs = get8_byte (src ! i)"
    using assms by (subst bslice_concat_blocks) auto
  moreover have "bslice (8 * i) 8 ?bs ! j = ?bs ! (8 * i + j)"
    using assms blocks_length [OF assms(1)] by (intro nth_bslice) simp_all
  ultimately show ?thesis using nth_get8_byte [OF assms(3)] by simp
qed

lemma put8_blocks:
  assumes "8 \<le> length src"
  shows "put8_c (concat (map get8_byte (take 8 src))) = Inr (take 8 src)"
proof -
  have "put8_loop (concat (map get8_byte (take 8 src))) 0 (length (take 8 src)) = Inr (take 8 src)"
    using assms blocks_length [OF assms] by (intro put8_loop_bytes) (simp_all add: bslice_def)
  then show ?thesis using assms by (simp add: put8_c_def)
qed

text \<open>Every block of bits is what \<open>get8\<close> makes of some eight bytes.\<close>

lemma eight_bits_byte:
  assumes "length bs = 8" "set bs \<subseteq> {0, 1}"
  shows "\<exists>c. get8_byte c = bs"
proof (intro exI nth_equalityI)
  let ?c = "word_of_nat (horner_sum of_bool 2 (map (\<lambda>j. bs ! (7 - j) = 1) [0..<8])) :: byte"
  show "length (get8_byte ?c) = length bs" using assms(1) by simp
  fix j assume "j < length (get8_byte ?c)"
  then have j: "j < 8" by simp
  have "[0..<8] ! (7 - j) = 7 - j" using j by (subst nth_upt) simp_all
  moreover have "7 - j < 8" by simp
  ultimately have "bit ?c (7 - j) = (bs ! j = 1)"
    using j by (simp add: bit_simps bit_horner_sum_bit_iff)
  moreover have "bs ! j \<in> {0, 1}" using subsetD [OF assms(2) nth_mem] assms(1) j by simp
  ultimately show "get8_byte ?c ! j = bs ! j" using nth_get8_byte [OF j, of ?c] by auto
qed

lemma bits_blocks: "length bs = 8 * n \<Longrightarrow> set bs \<subseteq> {0, 1} \<Longrightarrow> \<exists>cs. length cs = n \<and> concat (map get8_byte cs) = bs"
proof (induction n arbitrary: bs)
  case (Suc n)
  have "set (take 8 bs) \<subseteq> {0, 1}" "set (drop 8 bs) \<subseteq> {0, 1}"
    using Suc.prems(2) set_take_subset [of 8 bs] set_drop_subset [of 8 bs] by blast+
  then obtain c cs where "get8_byte c = take 8 bs" "length cs = n" "concat (map get8_byte cs) = drop 8 bs"
    using eight_bits_byte [of "take 8 bs"] Suc.IH [of "drop 8 bs"] Suc.prems(1) by auto
  then show ?case by (intro exI [of _ "c # cs"]) simp
qed simp

lemma get8_put8_run:
  assumes "bit_block bs"
  shows "\<exists>d. put8_c bs = Inr d \<and> length d = 8 \<and> get8_c d = Inr bs"
proof -
  obtain d where "length d = 8" "concat (map get8_byte d) = bs"
    using bits_blocks [of bs 8] assms by (auto simp: bit_block_def)
  then show ?thesis using put8_blocks [of d] get8_c_blocks [of d] by auto
qed

lemma put8_get8_run:
  assumes "8 \<le> length src"
  shows "\<exists>bs. get8_c src = Inr bs \<and> bit_block bs \<and> (\<forall>i < 8. \<forall>j < 8. bs ! (8 * i + j) = (if bit (src ! i) (7 - j) then 1 else 0)) \<and>
    put8_c bs = Inr (take 8 src)"
proof -
  let ?bs = "concat (map get8_byte (take 8 src))"
  have "set ?bs \<subseteq> {0, 1}" using set_get8_byte by auto
  then have "bit_block ?bs" using blocks_length [OF assms] by (simp add: bit_block_def)
  then show ?thesis using get8_c_blocks [OF assms] blocks_nth [OF assms] put8_blocks [OF assms] by auto
qed

text \<open>
  C13: \<open>get8\<close> makes 64 characters 0 or 1 of the first eight bytes, with bit \<open>7 - j\<close> of byte
  \<open>i\<close> at \<open>8 * i + j\<close>, and \<open>put8\<close> makes the same bytes of them again, also of those that are
  negative as \<open>char\<close>; and of any 64 characters 0 or 1 \<open>put8\<close> makes eight bytes of which
  \<open>get8\<close> makes these characters again.
\<close>

theorem put8_get8:
  assumes "8 \<le> length src" and "bit_block block"
  shows "(\<exists>bs. get8_c src = Inr bs \<and> bit_block bs \<and>
      (\<forall>i < 8. \<forall>j < 8. bs ! (8 * i + j) = (if bit (src ! i) (7 - j) then 1 else 0)) \<and> put8_c bs = Inr (take 8 src)) \<and>
    (\<exists>d. put8_c block = Inr d \<and> length d = 8 \<and> get8_c d = Inr block)"
  using put8_get8_run [OF assms(1)] get8_put8_run [OF assms(2)] by blast

theorem put8_get8_witness:
  "(\<exists>bs. get8_c [1, 2, 3, 4, 255, 128, 7, 8] = Inr bs \<and> put8_c bs = Inr [1, 2, 3, 4, 255, 128, 7, 8]) \<and>
   (\<exists>d. put8_c des_key = Inr d \<and> length d = 8 \<and> get8_c d = Inr des_key)"
proof -
  have "bit_block des_key" by (simp add: bit_block_def des_key_def numeral_eq_Suc)
  then show ?thesis using put8_get8 [of "[1, 2, 3, 4, 255, 128, 7, 8]" des_key] by auto
qed

text \<open>The whole program, for any cipher that decodes what it encoded: the plain text comes back.\<close>

lemma encrypt_main_plain:
  assumes "\<And>b. bit_block b \<Longrightarrow> des des_key (des des_key b 0) 1 = b"
  shows "encrypt_main des = Inr hello_block"
proof -
  obtain bs where "get8_c hello_block = Inr bs" "bit_block bs" "put8_c bs = Inr (take 8 hello_block)"
    using put8_get8_run [of hello_block] by (auto simp: hello_block_def)
  then show ?thesis using assms by (simp add: encrypt_main_def Let_def hello_block_def)
qed

end
