(* ===== verification/Chat.thy ===== *)
theory Chat
  imports Posix
begin

text \<open>
  The two chat programs of \<open>perftools/net/socket\<close>. The state of a program is what it can
  still read from its terminal, the messages that will arrive on its socket (what each
  \<open>read\<close> returns; when there are none left the connection is closed and a \<open>read\<close>
  gives nothing), the messages it has sent and the text it has shown. The results of
  \<open>socket\<close>, \<open>connect\<close>, \<open>bind\<close>, \<open>listen\<close> and \<open>accept\<close> are parameters.
\<close>

record chat =
  stdin :: string
  inbox :: "byte list list"
  sent :: "byte list list"
  shown :: string

type_synonym 'a chat_m = "('a, chat) st"

definition BUFF :: nat where "BUFF = 80"

definition show_text :: "string \<Rightarrow> unit chat_m" where
  "show_text t s = Inr ((), s\<lparr>shown := shown s @ t\<rparr>)"

definition show_fmt :: "string \<Rightarrow> carg list \<Rightarrow> unit chat_m" where
  "show_fmt fmt args = bindS (liftS (vsprintf fmt args)) show_text"

text \<open>
  \<open>while ((buff[n++] = getchar()) != '\n')\<close>: the characters stored from index n on, and
  what is left. At the end of the input \<open>getchar\<close> gives -1 for ever.
\<close>

function fill_buff :: "nat \<Rightarrow> string \<Rightarrow> (byte list \<times> string) res" where
  "fill_buff n input =
     (if BUFF \<le> n then Inl BufferOverflow
      else (case input of
          [] \<Rightarrow> bindE (fill_buff (Suc n) []) (\<lambda>(b, r). Inr (255 # b, r))
        | c # cs \<Rightarrow>
            if c = NL then Inr ([10], cs)
            else bindE (fill_buff (Suc n) cs) (\<lambda>(b, r). Inr (of_char c # b, r))))"
  by pat_completeness auto
termination
  by (relation "measure (\<lambda>(n, input). BUFF - n)") (auto simp: BUFF_def)

declare fill_buff.simps [simp del]

text \<open>\<open>bzero\<close>, then the loop: the whole array.\<close>

definition zero_filled :: "byte list \<Rightarrow> byte list" where
  "zero_filled b = b @ replicate (BUFF - length b) 0"

definition read_terminal :: "byte list chat_m" where
  "read_terminal s = bindE (fill_buff 0 (stdin s)) (\<lambda>(b, r). Inr (zero_filled b, s\<lparr>stdin := r\<rparr>))"

definition send :: "byte list \<Rightarrow> unit chat_m" where
  "send b s = Inr ((), s\<lparr>sent := sent s @ [b]\<rparr>)"

definition receive :: "byte list chat_m" where
  "receive s = (case inbox s of
     [] \<Rightarrow> Inr (zero_filled [], s)
   | b # bs \<Rightarrow> Inr (zero_filled (take BUFF b), s\<lparr>inbox := bs\<rparr>))"

text \<open>\<open>strncmp(buff, "exit", 4) == 0\<close>\<close>

definition says_exit :: "byte list \<Rightarrow> bool" where
  "says_exit b = (take 4 b = [101, 120, 105, 116])"

text \<open>One round of \<open>func\<close> in \<open>client.c\<close>; the result says whether the loop ends.\<close>

definition client_round :: "bool chat_m" where
  "client_round =
     bindS (show_fmt ''Enter the string : '' []) (\<lambda>_.
     bindS read_terminal (\<lambda>buff.
     bindS (send buff) (\<lambda>_.
     bindS receive (\<lambda>buff.
     bindS (liftS (cstr_at buff 0)) (\<lambda>t.
     bindS (show_fmt ''From Server : %s'' [AStr t]) (\<lambda>_.
     if says_exit buff then bindS (show_fmt ''Client Exit...\<newline>'' []) (\<lambda>_. returnS True)
     else returnS False))))))"

text \<open>One round of \<open>func\<close> in \<open>server.c\<close>.\<close>

definition server_round :: "bool chat_m" where
  "server_round =
     bindS receive (\<lambda>buff.
     bindS (liftS (cstr_at buff 0)) (\<lambda>t.
     bindS (show_text (''From client: '' @ t @ [CHR 0x09] @ '' To client : '')) (\<lambda>_.
     bindS read_terminal (\<lambda>buff.
     bindS (send buff) (\<lambda>_.
     if says_exit buff then bindS (show_fmt ''Server Exit...\<newline>'' []) (\<lambda>_. returnS True)
     else returnS False)))))"

text \<open>The endless loops, with a bound on the rounds; the result says whether \<open>break\<close> was reached.\<close>

primrec chat_loop :: "bool chat_m \<Rightarrow> nat \<Rightarrow> bool chat_m" where
  "chat_loop round 0 = returnS False"
| "chat_loop round (Suc k) = bindS round (\<lambda>done. if done then returnS True else chat_loop round k)"

definition client_func :: "nat \<Rightarrow> bool chat_m" where "client_func = chat_loop client_round"

definition server_func :: "nat \<Rightarrow> bool chat_m" where "server_func = chat_loop server_round"

definition client_main :: "nat \<Rightarrow> int \<Rightarrow> int \<Rightarrow> int chat_m" where
  "client_main rounds sockfd connected =
     (if sockfd = - 1 then bindS (show_fmt ''socket creation failed...\<newline>'' []) (\<lambda>_. returnS 0)
      else
        bindS (show_fmt ''Socket successfully created..\<newline>'' []) (\<lambda>_.
        if connected \<noteq> 0 then bindS (show_fmt ''connection with the server failed...\<newline>'' []) (\<lambda>_. returnS 0)
        else
          bindS (show_fmt ''connected to the server..\<newline>'' []) (\<lambda>_.
          bindS (client_func rounds) (\<lambda>_. returnS 0))))"

definition server_main :: "nat \<Rightarrow> int \<Rightarrow> int \<Rightarrow> int \<Rightarrow> int \<Rightarrow> int chat_m" where
  "server_main rounds sockfd bound listening connfd =
     (if sockfd = - 1 then bindS (show_fmt ''socket creation failed...\<newline>'' []) (\<lambda>_. returnS 0)
      else
        bindS (show_fmt ''Socket successfully created..\<newline>'' []) (\<lambda>_.
        if bound \<noteq> 0 then bindS (show_fmt ''socket bind failed...\<newline>'' []) (\<lambda>_. returnS 0)
        else
          bindS (show_fmt ''Socket successfully binded..\<newline>'' []) (\<lambda>_.
          if listening \<noteq> 0 then bindS (show_fmt ''Listen failed...\<newline>'' []) (\<lambda>_. returnS 0)
          else
            bindS (show_fmt ''Server listening..\<newline>'' []) (\<lambda>_.
            if connfd < 0 then bindS (show_fmt ''server acccept failed...\<newline>'' []) (\<lambda>_. returnS 0)
            else
              bindS (show_fmt ''server acccept the client...\<newline>'' []) (\<lambda>_.
              bindS (server_func rounds) (\<lambda>_. returnS 0))))))"

subsection \<open>Lines and messages\<close>

text \<open>A line that fits with its newline and a final NUL, and the message that carries it.\<close>

definition sendable :: "string \<Rightarrow> bool" where
  "sendable l = (length l \<le> 78 \<and> NL \<notin> set l \<and> char_of (0 :: nat) \<notin> set l)"

definition line_bytes :: "string \<Rightarrow> byte list" where
  "line_bytes l = map of_char l @ [10]"

definition message :: "string \<Rightarrow> byte list" where
  "message l = zero_filled (line_bytes l)"

definition exit_line :: "string \<Rightarrow> bool" where
  "exit_line l = says_exit (message l)"

lemma fill_buff_line:
  "NL \<notin> set l \<Longrightarrow> n + length l < BUFF \<Longrightarrow> fill_buff n (l @ NL # rest) = Inr (line_bytes l, rest)"
proof (induction l arbitrary: n)
  case Nil
  then show ?case by (subst fill_buff.simps) (simp add: line_bytes_def)
next
  case (Cons c l)
  then show ?case by (subst fill_buff.simps) (auto simp: line_bytes_def)
qed

text \<open>A line that does not fit is stored past the end of the array, and so is the end of the input.\<close>

lemma fill_buff_overflow:
  "NL \<notin> set (take (BUFF - n) input) \<Longrightarrow> fill_buff n input = Inl BufferOverflow"
proof (induction n input rule: fill_buff.induct)
  case (1 n input)
  show ?case
  proof (cases "BUFF \<le> n")
    case True
    then show ?thesis by (subst fill_buff.simps) simp
  next
    case False
    then have b: "BUFF - n = Suc (BUFF - Suc n)" by simp
    show ?thesis
    proof (cases input)
      case Nil
      then have "fill_buff (Suc n) [] = Inl BufferOverflow" using 1(1) [OF False Nil] by simp
      then show ?thesis using False Nil by (subst fill_buff.simps) simp
    next
      case (Cons c cs)
      then have "c \<noteq> NL" "NL \<notin> set (take (BUFF - Suc n) cs)" using 1(3) b by auto
      then show ?thesis using 1(2) [OF False Cons] False Cons by (subst fill_buff.simps) simp
    qed
  qed
qed

lemma length_message: "sendable l \<Longrightarrow> length (message l) = 80"
  by (simp add: message_def zero_filled_def line_bytes_def BUFF_def sendable_def)

lemma char_of_byte_of_char [simp]: "char_of_byte (of_char c) = c"
proof -
  have "(of_char c :: byte) = word_of_nat (of_char c)" by (simp add: of_nat_of_char)
  moreover have "(of_char c :: nat) < 256" by (rule nat_of_char_less_256)
  ultimately show ?thesis by (simp add: char_of_byte_def)
qed

lemma of_char_byte_eq [simp]: "(of_char c = (of_char d :: byte)) = (c = d)"
  by (metis char_of_byte_of_char)

lemma of_char_byte_zero: "(of_char c = (0 :: byte)) = (c = char_of (0 :: nat))"
proof -
  have "(of_char (char_of (0 :: nat)) :: byte) = 0" by code_simp
  then show ?thesis by (metis of_char_byte_eq)
qed

lemma cstr_at_message:
  assumes "sendable l" shows "cstr_at (message l) 0 = Inr (l @ [NL])"
proof -
  let ?z = "replicate (BUFF - length (line_bytes l)) (0 :: byte)"
  have m: "message l = line_bytes l @ ?z" by (simp add: message_def zero_filled_def)
  have "BUFF - length (line_bytes l) \<noteq> 0" using assms by (simp add: sendable_def line_bytes_def BUFF_def)
  then obtain k where k: "BUFF - length (line_bytes l) = Suc k" by (cases "BUFF - length (line_bytes l)") simp_all
  have z: "?z = 0 # replicate k 0" unfolding k by simp
  have nz: "\<forall>b \<in> set (line_bytes l). b \<noteq> 0"
    using assms by (auto simp: sendable_def line_bytes_def of_char_byte_zero)
  have "takeWhile (\<lambda>b. b \<noteq> 0) (message l) = line_bytes l" unfolding m z using nz by (simp add: takeWhile_append2)
  moreover have "0 \<in> set (message l)" unfolding m z by simp
  moreover have "char_of_byte 10 = NL" by code_simp
  ultimately show ?thesis by (simp add: cstr_at_def line_bytes_def comp_def)
qed

lemma take_message: "sendable l \<Longrightarrow> take BUFF (message l) = message l"
  by (simp add: length_message BUFF_def)

lemma zero_filled_message: "sendable l \<Longrightarrow> zero_filled (message l) = message l"
  by (simp add: zero_filled_def length_message BUFF_def)

lemma exit_chars: "[101, 120, 105, 116] = (map of_char ''exit'' :: byte list)"
  by code_simp

lemma exit_line_chars: "exit_line l = (take 4 l = ''exit'')"
proof (cases "4 \<le> length l")
  case True
  then have "take 4 (message l) = map of_char (take 4 l)"
    by (simp add: message_def zero_filled_def line_bytes_def take_map)
  moreover have "map of_char (take 4 l) = (map of_char ''exit'' :: byte list) \<longleftrightarrow> take 4 l = ''exit''"
    by (rule inj_map_eq_map) (simp add: inj_def)
  ultimately show ?thesis by (simp only: exit_line_def says_exit_def exit_chars)
next
  case False
  have "message l ! length l = 10" by (simp add: message_def zero_filled_def line_bytes_def nth_append)
  then have "take 4 (message l) ! length l = 10" using False by simp
  moreover have "([101, 120, 105, 116] :: byte list) ! length l \<noteq> 10"
  proof -
    have "length l = 0 \<or> length l = 1 \<or> length l = 2 \<or> length l = 3" using False by linarith
    then show ?thesis by auto
  qed
  moreover have "take 4 l \<noteq> ''exit''" using False by (auto dest: arg_cong [where f = length])
  ultimately show ?thesis by (auto simp: exit_line_def says_exit_def)
qed

subsection \<open>The rounds\<close>

lemma show_fmt_text: "vsprintf fmt args = Inr t \<Longrightarrow> show_fmt fmt args s = Inr ((), s\<lparr>shown := shown s @ t\<rparr>)"
  by (simp add: show_fmt_def show_text_def)

lemma fmt_from_server: "vsprintf ''From Server : %s'' [AStr t] = Inr (''From Server : '' @ t)"
  by (simp add: fmt_eval pad_left_def)

lemma read_terminal_line:
  "sendable l \<Longrightarrow> stdin s = l @ NL # r \<Longrightarrow> read_terminal s = Inr (message l, s\<lparr>stdin := r\<rparr>)"
  using fill_buff_line [of l 0 r] by (simp add: read_terminal_def sendable_def BUFF_def message_def)

lemma receive_message: "sendable m \<Longrightarrow> inbox s = message m # ms \<Longrightarrow> receive s = Inr (message m, s\<lparr>inbox := ms\<rparr>)"
  by (simp add: receive_def take_message zero_filled_message)

definition client_text :: "string \<Rightarrow> string" where
  "client_text m = ''Enter the string : '' @ ''From Server : '' @ m @ [NL] @ (if exit_line m then ''Client Exit...\<newline>'' else [])"

definition server_text :: "string \<Rightarrow> string \<Rightarrow> string" where
  "server_text c m = ''From client: '' @ c @ [NL] @ [CHR 0x09] @ '' To client : '' @ (if exit_line m then ''Server Exit...\<newline>'' else [])"

lemma client_round_line:
  assumes "sendable l" and "sendable m" and "stdin s = l @ NL # r" and "inbox s = message m # ms"
  shows "client_round s = Inr (exit_line m, s\<lparr>stdin := r, inbox := ms, sent := sent s @ [message l], shown := shown s @ client_text m\<rparr>)"
proof -
  have a: "read_terminal (s\<lparr>shown := t\<rparr>) = Inr (message l, s\<lparr>stdin := r, shown := t\<rparr>)" for t
    using read_terminal_line [OF assms(1), of "s\<lparr>shown := t\<rparr>" r] assms(3) by simp
  have b: "receive s' = Inr (message m, s'\<lparr>inbox := ms\<rparr>)" if "inbox s' = inbox s" for s'
    using receive_message [OF assms(2), of s' ms] assms(4) that by simp
  show ?thesis
    by (simp add: client_round_def bindS_def show_fmt_text [OF fmt_plain] show_fmt_text [OF fmt_from_server] a b send_def
        cstr_at_message [OF assms(2)] returnS_def client_text_def exit_line_def liftS_def)
qed

lemma server_round_line:
  assumes "sendable l" and "sendable c" and "stdin s = l @ NL # r" and "inbox s = message c # ms"
  shows "server_round s = Inr (exit_line l, s\<lparr>stdin := r, inbox := ms, sent := sent s @ [message l], shown := shown s @ server_text c l\<rparr>)"
proof -
  have a: "read_terminal (s\<lparr>inbox := i, shown := t\<rparr>) = Inr (message l, s\<lparr>stdin := r, inbox := i, shown := t\<rparr>)" for t i
    using read_terminal_line [OF assms(1), of "s\<lparr>inbox := i, shown := t\<rparr>" r] assms(3) by simp
  show ?thesis
    by (simp add: server_round_def bindS_def show_fmt_text [OF fmt_plain] show_text_def receive_message [OF assms(2,4)] a send_def
        cstr_at_message [OF assms(2)] returnS_def server_text_def exit_line_def liftS_def)
qed

subsection \<open>A whole conversation\<close>

text \<open>What is typed, and a conversation: it goes on until the server's line starts with \<open>exit\<close>.\<close>

definition typed :: "string list \<Rightarrow> string" where
  "typed ls = concat (map (\<lambda>l. l @ [NL]) ls)"

definition ends_at_exit :: "string list \<Rightarrow> bool" where
  "ends_at_exit ms = (ms \<noteq> [] \<and> take 4 (last ms) = ''exit'' \<and> (\<forall>m \<in> set (butlast ms). take 4 m \<noteq> ''exit''))"

lemma ends_at_exit_Cons:
  "ends_at_exit (m # ms) \<longleftrightarrow> (if exit_line m then ms = [] else ends_at_exit ms)"
  by (auto simp: ends_at_exit_def exit_line_chars)

lemma typed_Cons: "typed (l # ls) @ r = l @ NL # (typed ls @ r)"
  by (simp add: typed_def)

lemma client_session:
  assumes "length cs = length ms" and "\<forall>l \<in> set cs \<union> set ms. sendable l" and "ends_at_exit ms" and "length ms \<le> n"
    and "stdin s = typed cs @ r" and "inbox s = map message ms @ later"
  shows "client_func n s = Inr (True, s\<lparr>stdin := r, inbox := later, sent := sent s @ map message cs,
    shown := shown s @ concat (map client_text ms)\<rparr>)"
  using assms
proof (induction cs ms arbitrary: n s rule: list_induct2)
  case Nil
  then show ?case by (simp add: ends_at_exit_def)
next
  case (Cons c cs m ms)
  obtain k where n: "n = Suc k" using Cons.prems(3) by (cases n) simp_all
  let ?s = "s\<lparr>stdin := typed cs @ r, inbox := map message ms @ later, sent := sent s @ [message c], shown := shown s @ client_text m\<rparr>"
  have r: "client_round s = Inr (exit_line m, ?s)"
    using Cons.prems by (intro client_round_line) (simp_all add: typed_Cons)
  show ?case
  proof (cases "exit_line m")
    case True
    then have "ms = []" "cs = []" using Cons.prems(2) Cons.hyps by (simp_all add: ends_at_exit_Cons)
    then show ?thesis using True r by (simp add: n client_func_def bindS_Inr [where m = client_round, OF r] returnS_def typed_def)
  next
    case False
    then have "client_func k ?s = Inr (True, ?s\<lparr>stdin := r, inbox := later, sent := sent ?s @ map message cs,
        shown := shown ?s @ concat (map client_text ms)\<rparr>)"
      using Cons.prems by (intro Cons.IH) (simp_all add: n ends_at_exit_Cons)
    then show ?thesis using False by (simp add: n client_func_def bindS_Inr [where m = client_round, OF r])
  qed
qed

lemma server_session:
  assumes "length cs = length ms" and "\<forall>l \<in> set cs \<union> set ms. sendable l" and "ends_at_exit ms" and "length ms \<le> n"
    and "stdin s = typed ms @ r" and "inbox s = map message cs @ later"
  shows "server_func n s = Inr (True, s\<lparr>stdin := r, inbox := later, sent := sent s @ map message ms,
    shown := shown s @ concat (map2 server_text cs ms)\<rparr>)"
  using assms
proof (induction cs ms arbitrary: n s rule: list_induct2)
  case Nil
  then show ?case by (simp add: ends_at_exit_def)
next
  case (Cons c cs m ms)
  obtain k where n: "n = Suc k" using Cons.prems(3) by (cases n) simp_all
  let ?s = "s\<lparr>stdin := typed ms @ r, inbox := map message cs @ later, sent := sent s @ [message m], shown := shown s @ server_text c m\<rparr>"
  have r: "server_round s = Inr (exit_line m, ?s)"
    using Cons.prems by (intro server_round_line) (simp_all add: typed_Cons)
  show ?case
  proof (cases "exit_line m")
    case True
    then have "ms = []" "cs = []" using Cons.prems(2) Cons.hyps by (simp_all add: ends_at_exit_Cons)
    then show ?thesis using True r by (simp add: n server_func_def bindS_Inr [where m = server_round, OF r] returnS_def typed_def)
  next
    case False
    then have "server_func k ?s = Inr (True, ?s\<lparr>stdin := r, inbox := later, sent := sent ?s @ map message ms,
        shown := shown ?s @ concat (map2 server_text cs ms)\<rparr>)"
      using Cons.prems by (intro Cons.IH) (simp_all add: n ends_at_exit_Cons)
    then show ?thesis using False by (simp add: n server_func_def bindS_Inr [where m = server_round, OF r])
  qed
qed

lemma read_terminal_long: "NL \<notin> set (take BUFF (stdin s)) \<Longrightarrow> read_terminal s = Inl BufferOverflow"
  using fill_buff_overflow [of 0 "stdin s"] by (simp add: read_terminal_def)

lemma client_round_long: "NL \<notin> set (take BUFF (stdin s)) \<Longrightarrow> client_round s = Inl BufferOverflow"
  by (simp add: client_round_def bindS_def show_fmt_text [OF fmt_plain] read_terminal_long)

text \<open>
  C14: The two programs together: when the client's user types the lines cs and the server's
  user the lines ms, as many as there are up to the first of ms that starts with \<open>exit\<close>,
  and each program receives what the other sends, then what each sends is its lines, each
  shows the other's, and both end in the round of that line.
\<close>

theorem chat_conversation:
  assumes "length cs = length ms" and "\<forall>l \<in> set cs \<union> set ms. sendable l" and "ends_at_exit ms" and "length ms \<le> n"
    and "stdin c = typed cs" and "stdin v = typed ms" and "sent c = []" and "sent v = []"
    and "inbox c = map message ms" and "inbox v = map message cs"
  shows "\<exists>c' v'. client_func n c = Inr (True, c') \<and> server_func n v = Inr (True, v') \<and> sent c' = inbox v \<and> sent v' = inbox c \<and>
    inbox c' = [] \<and> inbox v' = [] \<and>
    shown c' = shown c @ concat (map (\<lambda>m. ''Enter the string : '' @ ''From Server : '' @ m @ [NL] @
      (if take 4 m = ''exit'' then ''Client Exit...\<newline>'' else [])) ms) \<and>
    shown v' = shown v @ concat (map2 (\<lambda>c m. ''From client: '' @ c @ [NL] @ [CHR 0x09] @ '' To client : '' @
      (if take 4 m = ''exit'' then ''Server Exit...\<newline>'' else [])) cs ms)"
  using client_session [OF assms(1-4), of c "[]" "[]"] server_session [OF assms(1-4), of v "[]" "[]"] assms(5-10)
  by (simp add: client_text_def [abs_def] server_text_def [abs_def] exit_line_chars)

theorem chat_conversation_witness:
  "\<exists>c'. client_func 2 \<lparr>stdin = typed [''a'', ''b''], inbox = map message [''hello'', ''exit now''], sent = [], shown = []\<rparr> = Inr (True, c')"
proof -
  define c v :: chat where "c = \<lparr>stdin = typed [''a'', ''b''], inbox = map message [''hello'', ''exit now''], sent = [], shown = []\<rparr>"
    and "v = \<lparr>stdin = typed [''hello'', ''exit now''], inbox = map message [''a'', ''b''], sent = [], shown = []\<rparr>"
  have "sendable ''a''" "sendable ''b''" "sendable ''hello''" "sendable ''exit now''" by code_simp+
  moreover have "ends_at_exit [''hello'', ''exit now'']" by code_simp
  ultimately show ?thesis
    unfolding c_def [symmetric]
    using chat_conversation [of "[''a'', ''b'']" "[''hello'', ''exit now'']" 2 c v] by (auto simp: c_def v_def)
qed

text \<open>
  A line of 80 characters or later, and the end of the input, write past the end of the
  array of either program: the loop that fills it has no bound.
\<close>

theorem chat_overflow:
  assumes "NL \<notin> set (take BUFF (stdin s))"
  shows "client_round s = Inl BufferOverflow \<and> (inbox s = [] \<longrightarrow> server_round s = Inl BufferOverflow)"
proof -
  have "server_round s = Inl BufferOverflow" if "inbox s = []"
  proof -
    have "receive s = Inr (zero_filled [], s)" using that by (simp add: receive_def)
    moreover have "cstr_at (zero_filled []) 0 = Inr []" by (simp add: cstr_at_def zero_filled_def BUFF_def)
    ultimately show ?thesis using assms by (simp add: server_round_def bindS_def show_text_def read_terminal_long returnS_def)
  qed
  then show ?thesis using client_round_long [OF assms] by blast
qed

theorem chat_overflow_witness:
  "client_round \<lparr>stdin = replicate 80 CHR ''x'', inbox = [], sent = [], shown = []\<rparr> = Inl BufferOverflow"
  using chat_overflow [of "\<lparr>stdin = replicate 80 CHR ''x'', inbox = [], sent = [], shown = []\<rparr>"] by (simp add: NL_def)

end
