(* ===== verification/Looper.thy ===== *)
theory Looper
  imports CLib
begin

unbundle bit_operations_syntax

text \<open>
  The misc device of \<open>perftools/modules/helloworld\<close>, in its two versions: the names
  of \<open>helloworld.c\<close> carry the prefix \<open>hw\<close>, those of \<open>k_looper.c\<close> are the code's:
  a number written to it becomes the count of an empty loop that a read runs. The kernel's
  functions enter by what they are documented to do: \<open>copy_from_user\<close> copies what is
  readable and fills the rest of the requested bytes with zeros, \<open>simple_strtoull\<close> reads
  digits until the first other character, \<open>misc_register\<close> gives the result that is a
  parameter. \<open>ubuf\<close> is what is readable at the user's pointer.
\<close>

record looper =
  maxv :: u64
  users :: nat           \<comment> \<open>references to the module\<close>
  registered :: bool
  notifiers :: nat       \<comment> \<open>callbacks given to \<open>perf_cpu_notifier\<close>\<close>
  klog :: string

type_synonym 'a km = "('a, looper) st"

definition looper_start :: looper where
  "looper_start = \<lparr>maxv = 10000, users = 0, registered = False, notifiers = 0, klog = []\<rparr>"

definition printk :: "string \<Rightarrow> carg list \<Rightarrow> unit km" where
  "printk fmt args = bindS (liftS (vsprintf fmt args)) (\<lambda>t s. Inr ((), s\<lparr>klog := klog s @ t\<rparr>))"

subsection \<open>open and release\<close>

definition hw_open :: "bool \<Rightarrow> int km" where
  "hw_open got s = (if got then Inr (0, s\<lparr>users := Suc (users s)\<rparr>) else Inr (- 22, s))"

definition hw_release :: "int km" where
  "hw_release s = Inr (0, s\<lparr>users := users s - 1\<rparr>)"

definition k_looper_open :: "bool \<Rightarrow> int km" where
  "k_looper_open got = bindS (printk ''k_looper: open called\<newline>'' []) (\<lambda>_. hw_open got)"

definition k_looper_release :: "int km" where "k_looper_release = hw_release"

subsection \<open>write\<close>

text \<open>
  Reading a number from the start of \<open>kbuf[100]\<close>, of which only the first bytes were
  written: a scan that needs the character after them reads what was never written, or past
  the array.
\<close>

definition past_end :: "string \<Rightarrow> 'a res" where
  "past_end cs = Inl (if length cs < 100 then UninitRead else OutOfBounds)"

definition scan_number :: "nat \<Rightarrow> string \<Rightarrow> string \<Rightarrow> u64 res" where
  "scan_number base all cs =
     (if \<forall>c \<in> set cs. \<exists>k < base. digit_value c = Some k then past_end all else Inr (word_of_nat (number base 0 cs)))"

definition simple_strtoull :: "string \<Rightarrow> u64 res" where
  "simple_strtoull cs =
     (case cs of
        [] \<Rightarrow> past_end cs
      | c # r \<Rightarrow>
          if c = CHR ''0'' then
            (case r of
               [] \<Rightarrow> past_end cs
             | c1 # r1 \<Rightarrow>
                 if c1 = CHR ''x'' \<or> c1 = CHR ''X'' then
                   (case r1 of
                      [] \<Rightarrow> past_end cs
                    | c2 # _ \<Rightarrow> if is_hex c2 then scan_number 16 cs r1 else scan_number 8 cs cs)
                 else scan_number 8 cs cs)
          else scan_number 10 cs cs)"

text \<open>What \<open>copy_from_user\<close> leaves in the array, and how many bytes it could not copy.\<close>

definition copied :: "byte list \<Rightarrow> nat \<Rightarrow> byte list" where
  "copied ubuf count = take count ubuf @ replicate (count - length ubuf) 0"

definition not_copied :: "byte list \<Rightarrow> nat \<Rightarrow> nat" where
  "not_copied ubuf count = count - length ubuf"

definition hw_write :: "byte list \<Rightarrow> nat \<Rightarrow> int km" where
  "hw_write ubuf count =
     (if 100 < count then liftS (Inl BufferOverflow)
      else
        bindS (if not_copied ubuf count \<noteq> 0 then bindS (printk ''k_looper : err copy_from_user\<newline>'' []) (\<lambda>_. returnS (- 14))
               else returnS (int count)) (\<lambda>rc.
        bindS (liftS (simple_strtoull (map char_of_byte (copied ubuf count)))) (\<lambda>tmp.
        bindS (if 0 < tmp then
                 bindS (\<lambda>s. Inr ((), s\<lparr>maxv := tmp\<rparr>)) (\<lambda>_. printk ''k_looper : set new max %llu \<newline>'' [ALong tmp])
               else returnS ()) (\<lambda>_. returnS rc))))"

definition k_looper_write :: "byte list \<Rightarrow> nat \<Rightarrow> int km" where "k_looper_write = hw_write"

subsection \<open>read\<close>

text \<open>
  \<open>for(i = 0; i < max; i++)\<close>: \<open>i\<close> is an \<open>int\<close>, which wraps in the kernel, and is
  extended with its sign for the comparison with the \<open>unsigned long long\<close>. The value of
  \<open>i\<close> after the loop.
\<close>

partial_function (option) spin_loop :: "u64 \<Rightarrow> u32 \<Rightarrow> u32 option" where
  "spin_loop bound i = (if scast i < bound then spin_loop bound (i + 1) else Some i)"

text \<open>A loop that does not return is the fault \<open>NoReturn\<close>.\<close>

definition hw_read :: "u64 \<times> u64 \<Rightarrow> u64 \<times> u64 \<Rightarrow> int km" where
  "hw_read t0 t1 =
     bindS (printk ''k_looper : read start time sec %llu usec %llu\<newline>'' [ALong (fst t0), ALong (snd t0)]) (\<lambda>_.
     bindS (\<lambda>s. case spin_loop (maxv s) 0 of None \<Rightarrow> Inl NoReturn | Some _ \<Rightarrow> Inr ((), s)) (\<lambda>_.
     bindS (printk ''k_looper : read stop  time sec %llu usec %llu\<newline>'' [ALong (fst t1), ALong (snd t1)]) (\<lambda>_.
     returnS 0)))"

text \<open>\<open>dump_stack\<close> writes the given text to the log.\<close>

definition k_looper_read :: "string \<Rightarrow> u64 \<times> u64 \<Rightarrow> u64 \<times> u64 \<Rightarrow> int km" where
  "k_looper_read stack t0 t1 =
     bindS (hw_read t0 t1) (\<lambda>rc. bindS (\<lambda>s. Inr ((), s\<lparr>klog := klog s @ stack\<rparr>)) (\<lambda>_. returnS rc))"

subsection \<open>Loading and unloading\<close>

definition misc_register :: "int \<Rightarrow> int km" where
  "misc_register rc s = Inr (rc, if rc = 0 then s\<lparr>registered := True\<rparr> else s)"

definition hw_init :: "int \<Rightarrow> int km" where
  "hw_init reg =
     bindS (printk ''k_looper init\<newline>'' []) (\<lambda>_.
     bindS (misc_register reg) (\<lambda>rc.
     bindS (if rc \<noteq> 0 then printk ''k_looper : can not register driver'' [] else returnS ()) (\<lambda>_. returnS rc)))"

definition hw_exit :: "unit km" where
  "hw_exit = bindS (printk ''k_looper exti\<newline>'' []) (\<lambda>_ s. Inr ((), s\<lparr>registered := False\<rparr>))"

definition k_looper_init :: "int \<Rightarrow> int km" where
  "k_looper_init reg =
     bindS (printk ''k_looper init\<newline>'' []) (\<lambda>_.
     bindS (misc_register reg) (\<lambda>rc.
     if rc \<noteq> 0 then bindS (printk ''k_looper : can not register driver'' []) (\<lambda>_. returnS rc)
     else bindS (\<lambda>s. Inr ((), s\<lparr>notifiers := Suc (notifiers s)\<rparr>)) (\<lambda>_. returnS 0)))"

definition k_looper_exit :: "unit km" where
  "k_looper_exit = bindS (printk ''k_looper exti\<newline>'' []) (\<lambda>_ s. Inr ((), s\<lparr>registered := False\<rparr>))"

text \<open>
  The callback for processors that come and go. \<open>setup_pmc_cpu\<close> is not declared in the
  file: what it does on a processor is the parameter \<open>setup\<close>. The numbers are those of the
  kernel's \<open>cpu.h\<close>; \<open>hcpu\<close> carries the number of the processor.
\<close>

definition CPU_TASKS_FROZEN :: u64 where "CPU_TASKS_FROZEN = 16"
definition CPU_ONLINE :: u64 where "CPU_ONLINE = 2"
definition CPU_ONLINE_FROZEN :: u64 where "CPU_ONLINE_FROZEN = CPU_ONLINE OR CPU_TASKS_FROZEN"
definition CPU_DOWN_PREPARE :: u64 where "CPU_DOWN_PREPARE = 5"

definition k_looper_cpu_notifier :: "(u32 \<Rightarrow> unit km) \<Rightarrow> u64 \<Rightarrow> u64 \<Rightarrow> int km" where
  "k_looper_cpu_notifier setup action hcpu =
     (let cpu = ucast hcpu; a = action AND NOT CPU_TASKS_FROZEN
      in bindS
           (if a = CPU_ONLINE \<or> a = CPU_ONLINE_FROZEN then bindS (printk ''k_looper: CPU_online'' []) (\<lambda>_. setup cpu)
            else if a = CPU_DOWN_PREPARE then bindS (printk ''k_looper: CPU_down'' []) (\<lambda>_. setup cpu)
            else returnS ()) (\<lambda>_. returnS 1))"

subsection \<open>The number that is read\<close>

lemma sint_big: "2147483648 \<le> unat (w :: u32) \<Longrightarrow> sint w = int (unat w) - 4294967296"
proof -
  assume a: "2147483648 \<le> unat w"
  then have d: "uint w div 2147483648 = 1" and b: "uint w < 4294967296"
    using unat_u32_bound [of w] uint_nat [of w] by linarith+
  have "bit (uint w) 31" using d by (simp add: bit_iff_odd)
  moreover have "take_bit (Suc 31) (uint w) = uint w" using b by (simp add: take_bit_eq_mod)
  ultimately have "signed_take_bit 31 (uint w) = uint w - 4294967296"
    by (simp only: signed_take_bit_eq_take_bit_minus) simp
  then show ?thesis by (simp add: sint_uint uint_nat [of w, symmetric] del: of_nat_unat)
qed

lemma unat_scast_u32: "unat (scast (w :: u32) :: u64) = (if unat w < 2147483648 then unat w else unat w + 18446744069414584320)"
proof -
  have u: "unat (scast w :: u64) = nat (sint w mod 18446744073709551616)"
    unfolding unat_eq_nat_uint scast_eq uint_word_of_int by simp
  show ?thesis
  proof (cases "unat w < 2147483648")
    case True
    then have "sint w mod 18446744073709551616 = int (unat w)"
      by (simp add: sint_small del: of_nat_unat)
    with True show ?thesis by (simp only: u if_True nat_int)
  next
    case False
    then have "sint w = int (unat w) - 4294967296" by (simp only: sint_big not_less)
    moreover have "(int (unat w) - 4294967296) mod 18446744073709551616 = int (unat w + 18446744069414584320)"
    proof -
      have "(int (unat w) - 4294967296) mod 18446744073709551616 = (int (unat w) - 4294967296 + 18446744073709551616) mod 18446744073709551616"
        by (rule mod_add_self2 [symmetric])
      also have "\<dots> = int (unat w) - 4294967296 + 18446744073709551616"
        using False unat_u32_bound [of w] by (intro mod_pos_pos_trivial) linarith+
      finally show ?thesis by simp
    qed
    ultimately show ?thesis using False by (simp only: u if_False nat_int)
  qed
qed
lemma spin_loop_up:
  "\<forall>j < k. scast (i + word_of_nat j) < bound \<Longrightarrow> spin_loop bound i = spin_loop bound (i + word_of_nat k)"
proof (induction k)
  case (Suc k)
  then have "spin_loop bound i = spin_loop bound (i + word_of_nat k)"
    by simp
  also have "\<dots> = spin_loop bound (i + word_of_nat k + 1)"
    using Suc.prems by (subst spin_loop.simps) simp
  finally show ?case by (simp add: ac_simps)
qed simp

text \<open>The number of rounds: the count, but an \<open>int\<close> leaves the range from 2147483648 on as if negative.\<close>

definition spin_rounds :: "u64 \<Rightarrow> nat" where
  "spin_rounds bound =
     (if unat bound \<le> 2147483648 then unat bound
      else if unat bound \<le> 18446744071562067968 then 2147483648
      else unat bound - 18446744069414584320)"

lemma spin_loop_value: "spin_loop bound 0 = Some (word_of_nat (spin_rounds bound))"
proof -
  let ?k = "spin_rounds bound"
  have k: "?k < 4294967296"
    using unat_u64_bound [of bound] by (simp add: spin_rounds_def) linarith
  have at: "(scast (0 + word_of_nat j :: u32) < bound) = ((if j < 2147483648 then j else j + 18446744069414584320) < unat bound)"
    if "j \<le> ?k" for j
  proof -
    have "unat (word_of_nat j :: u32) = j" using that k by (simp add: unat_of_nat)
    then show ?thesis by (simp add: word_less_nat_alt unat_scast_u32)
  qed
  have "\<forall>j < ?k. scast (0 + word_of_nat j :: u32) < bound"
  proof (intro allI impI)
    fix j assume "j < ?k"
    then show "scast (0 + word_of_nat j :: u32) < bound"
      unfolding at [OF less_imp_le [OF \<open>j < ?k\<close>]] by (auto simp: spin_rounds_def split: if_splits)
  qed
  from spin_loop_up [OF this] have "spin_loop bound 0 = spin_loop bound (0 + word_of_nat ?k)" .
  moreover have "\<not> scast (0 + word_of_nat ?k :: u32) < bound"
    unfolding at [OF order_refl] by (auto simp: spin_rounds_def split: if_splits)
  ultimately show ?thesis by (subst (asm) (2) spin_loop.simps) simp
qed

lemma digit_value_NL: "digit_value NL = None"
  by (simp add: digit_value_def NL_def)

lemma decn_digits: "c \<in> set (decn n) \<Longrightarrow> \<exists>k < 10. digit_value c = Some k"
  using decn_chars [of c n] digit_value_hexd by auto

lemma number_decn_line: "number 10 0 (decn n @ NL # r) = n"
  using number_append_digits [of "decn n" 10 0 "NL # r"] decn_digits by (simp add: number_decn digit_value_NL)

lemma hd_decn: "0 < n \<Longrightarrow> hd (decn n) \<noteq> CHR ''0''"
proof (induction n rule: less_induct)
  case (less n)
  show ?case
  proof (cases "n < 10")
    case True
    then have "n = 1 \<or> n = 2 \<or> n = 3 \<or> n = 4 \<or> n = 5 \<or> n = 6 \<or> n = 7 \<or> n = 8 \<or> n = 9" using less.prems by presburger
    moreover have "hexd n \<noteq> CHR ''0''" using calculation by (elim disjE; hypsubst; code_simp)
    ultimately show ?thesis using True by (subst digits.simps) simp
  next
    case False
    then have "hd (decn (n div 10)) \<noteq> CHR ''0''" using less.IH [of "n div 10"] by simp
    then show ?thesis using False by (subst digits.simps) simp
  qed
qed

lemma strtoull_line:
  assumes "0 < n" shows "simple_strtoull (decn n @ NL # r) = Inr (word_of_nat n)"
proof -
  obtain c cs where d: "decn n = c # cs" by (cases "decn n") auto
  then have c: "c \<noteq> CHR ''0''" using hd_decn [OF assms] by simp
  have "\<not> (\<forall>x \<in> set (c # cs @ NL # r). \<exists>k < 10. digit_value x = Some k)" using digit_value_NL by auto
  then have "scan_number 10 (c # cs @ NL # r) (c # cs @ NL # r) = Inr (word_of_nat n)"
    using number_decn_line [of n r] unfolding d scan_number_def append_Cons by (simp only: if_False)
  then show ?thesis using c by (simp add: simple_strtoull_def d)
qed

lemma strtoull_unterminated:
  assumes "0 < n" shows "simple_strtoull (decn n) = past_end (decn n)"
proof -
  obtain c cs where d: "decn n = c # cs" by (cases "decn n") auto
  then have c: "c \<noteq> CHR ''0''" using hd_decn [OF assms] by simp
  have "\<forall>x \<in> set (c # cs). \<exists>k < 10. digit_value x = Some k" using decn_digits [of _ n] d by simp
  then have "scan_number 10 (c # cs) (c # cs) = past_end (c # cs)" unfolding scan_number_def by (rule if_P)
  then show ?thesis using c by (simp add: simple_strtoull_def d)
qed

subsection \<open>Setting the count and running it\<close>

lemma fmt_new_max:
  "vsprintf ''k_looper : set new max %llu \<newline>'' [ALong w] = Inr (''k_looper : set new max '' @ decn (unat w) @ '' \<newline>'')"
  by (simp add: fmt_eval pad_left_def)

lemma printk_text: "vsprintf fmt args = Inr t \<Longrightarrow> printk fmt args s = Inr ((), s\<lparr>klog := klog s @ t\<rparr>)"
  by (simp add: printk_def)

definition text_bytes :: "string \<Rightarrow> byte list" where "text_bytes t = map of_char t"

lemma char_of_text_bytes [simp]: "map char_of_byte (text_bytes t) = t"
proof -
  have "char_of_byte (of_char c) = c" for c
  proof -
    have "(of_char c :: byte) = word_of_nat (of_char c)" by (simp add: of_nat_of_char)
    moreover have "(of_char c :: nat) < 256" by (rule nat_of_char_less_256)
    ultimately show ?thesis by (simp add: char_of_byte_def)
  qed
  then show ?thesis by (induction t) (simp_all add: text_bytes_def)
qed

lemma hw_write_parsed:
  assumes "count \<le> 100" and "simple_strtoull (map char_of_byte (copied ubuf count)) = Inr w" and "0 < w"
  shows "hw_write ubuf count s = Inr (if not_copied ubuf count = 0 then int count else - 14,
    s\<lparr>maxv := w, klog := klog s @ (if not_copied ubuf count = 0 then [] else ''k_looper : err copy_from_user\<newline>'') @
      ''k_looper : set new max '' @ decn (unat w) @ '' \<newline>''\<rparr>)"
  using assms by (simp add: hw_write_def bindS_def returnS_def printk_text [OF fmt_new_max] printk_text [OF fmt_plain])

lemma hw_write_faulty:
  assumes "count \<le> 100" and "simple_strtoull (map char_of_byte (copied ubuf count)) = Inl e"
  shows "hw_write ubuf count s = Inl e"
  using assms by (simp add: hw_write_def bindS_def returnS_def printk_text [OF fmt_plain])

lemma copied_line:
  "length l < count \<Longrightarrow> map char_of_byte (copied (text_bytes (l @ [NL])) count) = l @ NL # map char_of_byte (replicate (count - Suc (length l)) 0)"
proof -
  assume "length l < count"
  then have "take count (text_bytes (l @ [NL])) = text_bytes (l @ [NL])" "length (text_bytes (l @ [NL])) = Suc (length l)"
    by (simp_all add: text_bytes_def)
  then show ?thesis unfolding copied_def by simp
qed

lemma copied_exact: "map char_of_byte (copied (text_bytes l) (length l)) = l"
proof -
  have "take (length l) (text_bytes l) = text_bytes l" "length (text_bytes l) = length l" by (simp_all add: text_bytes_def)
  then show ?thesis unfolding copied_def by simp
qed

lemma hw_read_runs:
  "hw_read t0 t1 s = Inr (0, s\<lparr>klog := klog s @
       ''k_looper : read start time sec '' @ decn (unat (fst t0)) @ '' usec '' @ decn (unat (snd t0)) @ [NL] @
       ''k_looper : read stop  time sec '' @ decn (unat (fst t1)) @ '' usec '' @ decn (unat (snd t1)) @ [NL]\<rparr>)"
proof -
  have f: "vsprintf ''k_looper : read start time sec %llu usec %llu\<newline>'' [ALong a, ALong b] =
      Inr (''k_looper : read start time sec '' @ decn (unat a) @ '' usec '' @ decn (unat b) @ [NL])"
    "vsprintf ''k_looper : read stop  time sec %llu usec %llu\<newline>'' [ALong a, ALong b] =
      Inr (''k_looper : read stop  time sec '' @ decn (unat a) @ '' usec '' @ decn (unat b) @ [NL])" for a b
    by (simp_all add: fmt_eval pad_left_def NL_def)
  show ?thesis
    by (simp add: hw_read_def bindS_def printk_text [OF f(1)] printk_text [OF f(2)] spin_loop_value returnS_def)
qed

lemma k_looper_read_runs: "\<exists>s'. k_looper_read stack t0 t1 s = Inr (0, s') \<and> maxv s' = maxv s"
  by (simp add: k_looper_read_def bindS_def hw_read_runs returnS_def)

lemma hw_write_digits:
  assumes "0 < n" and "n < 18446744073709551616"
  shows "\<exists>s'. hw_write (text_bytes (decn n @ [NL])) (Suc (length (decn n))) s = Inr (int (Suc (length (decn n))), s') \<and>
      maxv s' = word_of_nat n"
    and "hw_write (text_bytes (decn n)) (length (decn n)) s = Inl UninitRead"
    and "100 < count \<Longrightarrow> hw_write ubuf count s = Inl BufferOverflow"
proof -
  have len: "length (decn n) \<le> 20" using assms(2) by (intro length_digits_bound) simp_all
  have u: "unat (word_of_nat n :: u64) = n" using assms(2) by (simp add: unat_of_nat)
  then have w: "0 < (word_of_nat n :: u64)" using assms(1) by (metis unat_0 word_gt_0 less_irrefl)
  have p: "simple_strtoull (map char_of_byte (copied (text_bytes (decn n @ [NL])) (Suc (length (decn n))))) = Inr (word_of_nat n)"
    by (simp only: copied_line lessI strtoull_line [OF assms(1)])
  have c: "not_copied (text_bytes (decn n @ [NL])) (Suc (length (decn n))) = 0" by (simp add: not_copied_def text_bytes_def)
  have "Suc (length (decn n)) \<le> 100" using len by simp
  from hw_write_parsed [OF this p w, of s] c
  show "\<exists>s'. hw_write (text_bytes (decn n @ [NL])) (Suc (length (decn n))) s = Inr (int (Suc (length (decn n))), s') \<and>
      maxv s' = word_of_nat n"
    by simp
  have "simple_strtoull (map char_of_byte (copied (text_bytes (decn n)) (length (decn n)))) = Inl UninitRead"
    using len by (simp only: copied_exact strtoull_unterminated [OF assms(1)] past_end_def) simp
  then show "hw_write (text_bytes (decn n)) (length (decn n)) s = Inl UninitRead"
    using len by (intro hw_write_faulty) simp_all
  show "100 < count \<Longrightarrow> hw_write ubuf count s = Inl BufferOverflow"
    by (simp add: hw_write_def)
qed

text \<open>
  \<open>echo n > /dev/k_looper_dev\<close>, newline included, sets the count to n, for every n
  from 1 to the largest \<open>unsigned long long\<close>; a read of the device then returns 0 for
  every count: its loop always ends, after n rounds up to 2147483648 and after fewer
  than n from there on, since its variable is an \<open>int\<close>. Without a newline the
  scan of the number runs into what was never written, and more than 100 bytes overflow the array.
\<close>

theorem k_looper_count:
  assumes "0 < n" and "n < 18446744073709551616" and "100 < count"
  shows "(\<exists>s' s''. k_looper_write (text_bytes (decn n @ [NL])) (Suc (length (decn n))) s = Inr (int (Suc (length (decn n))), s') \<and>
      maxv s' = word_of_nat n \<and> k_looper_read stack t0 t1 s' = Inr (0, s'')) \<and>
    spin_loop (word_of_nat n) 0 = Some (word_of_nat (spin_rounds (word_of_nat n))) \<and>
    (if n \<le> 2147483648 then spin_rounds (word_of_nat n) = n else spin_rounds (word_of_nat n) < n) \<and>
    k_looper_write (text_bytes (decn n)) (length (decn n)) s = Inl UninitRead \<and>
    k_looper_write ubuf count s = Inl BufferOverflow"
proof -
  have u: "unat (word_of_nat n :: u64) = n" using assms(2) by (simp add: unat_of_nat)
  have "if n \<le> 2147483648 then spin_rounds (word_of_nat n) = n else spin_rounds (word_of_nat n) < n"
    by (simp add: spin_rounds_def u)
  moreover obtain s' where "hw_write (text_bytes (decn n @ [NL])) (Suc (length (decn n))) s = Inr (int (Suc (length (decn n))), s')"
    "maxv s' = word_of_nat n"
    using hw_write_digits(1) [OF assms(1,2)] by blast
  moreover obtain s'' where "k_looper_read stack t0 t1 s' = Inr (0, s'')"
    using k_looper_read_runs by blast
  ultimately show ?thesis
    unfolding k_looper_write_def using hw_write_digits(2,3) [OF assms(1,2)] assms(3) spin_loop_value by blast
qed

theorem k_looper_count_witness:
  "k_looper_write (text_bytes (decn 5)) (length (decn 5)) looper_start = Inl UninitRead \<and>
   k_looper_write [] 101 looper_start = Inl BufferOverflow"
  using k_looper_count [of 5 101 looper_start "[]" "(0, 0)" "(0, 0)" "[]"] by simp

text \<open>\<open>k_looper.c\<close> leaves its callback registered when it is unloaded.\<close>

lemma k_looper_unload:
  assumes "k_looper_init 0 s = Inr (rc, s1)" and "k_looper_exit s1 = Inr ((), s2)"
  shows "rc = 0 \<and> registered s1 \<and> \<not> registered s2 \<and> notifiers s2 = Suc (notifiers s)"
  using assms by (auto simp: k_looper_init_def k_looper_exit_def bindS_def printk_text [OF fmt_plain] misc_register_def returnS_def)

text \<open>
  The actions of the callback that are told apart: the case for \<open>CPU_ONLINE_FROZEN\<close> can
  never be reached, since the flag is masked out before.
\<close>

lemma k_looper_cpu_notifier_frozen:
  "k_looper_cpu_notifier setup CPU_ONLINE_FROZEN cpu = k_looper_cpu_notifier setup CPU_ONLINE cpu"
proof -
  have "CPU_ONLINE_FROZEN AND NOT CPU_TASKS_FROZEN = CPU_ONLINE" "CPU_ONLINE AND NOT CPU_TASKS_FROZEN = CPU_ONLINE"
    by (simp_all add: CPU_ONLINE_FROZEN_def CPU_ONLINE_def CPU_TASKS_FROZEN_def)
  then show ?thesis by (simp add: k_looper_cpu_notifier_def)
qed

end
