(* ===== verification/DemoModule.thy ===== *)
theory DemoModule
  imports Posix
begin

text \<open>
  The example kernel module \<open>perftools/modules/mydemo/mydemo.c\<close>: a kernel thread, works on
  a kthread worker and on a workqueue, a timer on the system workqueue that multicasts a
  netlink message, and a netlink command. The kernel's queues enter as the set of items
  that are queued: queueing an item that is queued already is refused, and an item is taken
  off its queue before its function runs. What the kernel's calls return is a parameter of
  the functions that make them. A counter is an \<open>int\<close> of the kernel, which wraps.
\<close>

datatype item = Work | DWork | WqWork | WqDWork | SysDWork

record mydemo =
  thread_count :: u32
  kthread_work_count :: u32
  wq_count :: u32
  system_wq_count :: u32
  thread_runs :: bool
  queued :: "item set"
  skbs :: nat                       \<comment> \<open>message buffers that are allocated\<close>
  mcasts :: "(u32 \<times> u32) list"       \<comment> \<open>the messages sent: attributes 1 and 2\<close>
  klog :: "string list"

type_synonym 'a dm = "('a, mydemo) st"

definition mydemo_start :: mydemo where
  "mydemo_start = \<lparr>thread_count = 0, kthread_work_count = 0, wq_count = 0, system_wq_count = 0, thread_runs = False,
     queued = {}, skbs = 0, mcasts = [], klog = []\<rparr>"

definition pr_err :: "string \<Rightarrow> carg list \<Rightarrow> unit dm" where
  "pr_err fmt args = bindS (liftS (vsprintf fmt args)) (\<lambda>t s. Inr ((), s\<lparr>klog := klog s @ [t]\<rparr>))"

text \<open>\<open>queue_work\<close> and its relatives.\<close>

definition queue_item :: "item \<Rightarrow> bool dm" where
  "queue_item x s = (if x \<in> queued s then Inr (False, s) else Inr (True, s\<lparr>queued := insert x (queued s)\<rparr>))"

definition queue_or_complain :: "item \<Rightarrow> string \<Rightarrow> unit dm" where
  "queue_or_complain x msg = bindS (queue_item x) (\<lambda>ok. if \<not> ok then pr_err msg [] else returnS ())"

subsection \<open>The kernel thread\<close>

definition my_thread_tick :: "unit dm" where  \<comment> \<open>one round of the loop of \<open>my_thread_fn\<close>\<close>
  "my_thread_tick s = bindS (pr_err ''kthread count=%d\<newline>'' [AInt (thread_count s)])
     (\<lambda>_ s. Inr ((), s\<lparr>thread_count := thread_count s + 1\<rparr>)) s"

definition my_kthread_init :: "bool \<Rightarrow> unit dm" where
  "my_kthread_init created =
     bindS (pr_err ''called'' []) (\<lambda>_.
     if created then (\<lambda>s. Inr ((), s\<lparr>thread_runs := True\<rparr>)) else pr_err ''create kthread failed\<newline>'' [])"

subsection \<open>Works\<close>

definition my_kthread_work_fn :: "unit dm" where
  "my_kthread_work_fn = pr_err ''kthread_work_fn\<newline>'' []"

definition my_kthread_dwork_fn :: "unit dm" where
  "my_kthread_dwork_fn s =
     bindS (pr_err ''kthread_work_count=%d\<newline>'' [AInt (kthread_work_count s)]) (\<lambda>_.
     bindS (\<lambda>s. Inr ((), s\<lparr>kthread_work_count := kthread_work_count s + 1\<rparr>)) (\<lambda>_.
     queue_or_complain DWork ''count not queue delayed work.\<newline>'')) s"

text \<open>An error pointer for the worker is reported and then used.\<close>

definition my_kthread_work_init :: "bool \<Rightarrow> unit dm" where
  "my_kthread_work_init created =
     bindS (if \<not> created then pr_err ''create kthread worker failed\<newline>'' [] else returnS ()) (\<lambda>_.
     bindS (\<lambda>s. Inr ((), s\<lparr>kthread_work_count := 0\<rparr>)) (\<lambda>_.
     if \<not> created then liftS (Inl NullDeref)
     else
       bindS (queue_or_complain Work ''could not queue work. work already queued or is canceling\<newline>'') (\<lambda>_.
       queue_or_complain DWork ''count not queue delayed work.\<newline>'')))"

definition my_workqueue_fn :: "unit dm" where
  "my_workqueue_fn = pr_err ''workqueue_fn\<newline>'' []"

definition my_workqueue_d_fn :: "unit dm" where
  "my_workqueue_d_fn s =
     bindS (pr_err ''wq_count %d\<newline>'' [AInt (wq_count s)]) (\<lambda>_.
     bindS (\<lambda>s. Inr ((), s\<lparr>wq_count := wq_count s + 1\<rparr>)) (\<lambda>_.
     queue_or_complain WqDWork ''could not queue work. work already on a queue\<newline>'')) s"

definition my_workqueue_init :: "bool \<Rightarrow> unit dm" where
  "my_workqueue_init allocated =
     bindS (if \<not> allocated then pr_err ''alloc workqueue failed\<newline>'' [] else returnS ()) (\<lambda>_.
     bindS (\<lambda>s. Inr ((), s\<lparr>wq_count := 0\<rparr>)) (\<lambda>_.
     if \<not> allocated then liftS (Inl NullDeref)
     else
       bindS (queue_or_complain WqWork ''queue work failed\<newline>'') (\<lambda>_.
       queue_or_complain WqDWork ''could not queue work. work already on a queue\<newline>'')))"

subsection \<open>Netlink\<close>

text \<open>The attributes that the sender of the command gave.\<close>

definition my_genl_cmd_1 :: "u32 option \<Rightarrow> u32 option \<Rightarrow> int dm" where
  "my_genl_cmd_1 a1 a2 =
     bindS (pr_err ''a=%d b=%d\<newline>'' [AInt (case a1 of None \<Rightarrow> 0 | Some a \<Rightarrow> a), AInt (case a2 of None \<Rightarrow> 0 | Some b \<Rightarrow> b)]) (\<lambda>_.
     returnS 0)"

text \<open>
  A message buffer is asked for with room for one attribute of four bytes, which takes
  eight; \<open>slack\<close> is what the allocator adds. \<open>nla_put_u32\<close> fails when the room left is
  not enough.
\<close>

definition nla_total :: nat where "nla_total = 8"

definition my_mcast :: "bool \<Rightarrow> bool \<Rightarrow> nat \<Rightarrow> u32 \<Rightarrow> u32 \<Rightarrow> unit dm" where
  "my_mcast skb_ok head_ok slack a b =
     (if \<not> skb_ok then returnS ()
      else
        bindS (\<lambda>s. Inr ((), s\<lparr>skbs := Suc (skbs s)\<rparr>)) (\<lambda>_.
        let room = nla_total + slack; freed = (\<lambda>s. Inr ((), s\<lparr>skbs := skbs s - 1\<rparr>))
        in if \<not> head_ok then freed
           else if room < nla_total then freed
           else if room - nla_total < nla_total then freed
           else (\<lambda>s. Inr ((), s\<lparr>skbs := skbs s - 1, mcasts := mcasts s @ [(a, b)]\<rparr>))))"

definition my_mcast_trigger :: "bool \<Rightarrow> bool \<Rightarrow> nat \<Rightarrow> unit dm" where
  "my_mcast_trigger skb_ok head_ok slack s =
     bindS (pr_err ''trigger %d\<newline>'' [AInt (system_wq_count s)]) (\<lambda>_.
     bindS (my_mcast skb_ok head_ok slack (system_wq_count s) (system_wq_count s + 1)) (\<lambda>_.
     bindS (\<lambda>s. Inr ((), s\<lparr>system_wq_count := system_wq_count s + 1\<rparr>)) (\<lambda>_.
     bindS (queue_item SysDWork) (\<lambda>_. returnS ())))) s"

definition my_netlink_init :: "bool \<Rightarrow> unit dm" where
  "my_netlink_init registered =
     bindS (if \<not> registered then pr_err ''register genetlink failed\<newline>'' [] else returnS ()) (\<lambda>_.
     bindS (\<lambda>s. Inr ((), s\<lparr>system_wq_count := 0\<rparr>)) (\<lambda>_.
     bindS (queue_item SysDWork) (\<lambda>_. returnS ())))"

subsection \<open>Loading and unloading\<close>

definition my_init :: "bool \<Rightarrow> bool \<Rightarrow> bool \<Rightarrow> bool \<Rightarrow> int dm" where
  "my_init thread_ok worker_ok wq_ok family_ok =
     bindS (my_kthread_init thread_ok) (\<lambda>_.
     bindS (my_kthread_work_init worker_ok) (\<lambda>_.
     bindS (my_workqueue_init wq_ok) (\<lambda>_.
     bindS (my_netlink_init family_ok) (\<lambda>_. returnS 0))))"

definition my_cleanup :: "unit dm" where "my_cleanup = returnS ()"

subsection \<open>The running module\<close>

text \<open>The kernel takes a queued item and runs its function.\<close>

definition run_item :: "bool \<Rightarrow> bool \<Rightarrow> nat \<Rightarrow> item \<Rightarrow> unit dm" where
  "run_item skb_ok head_ok slack x s =
     (case x of
        Work \<Rightarrow> my_kthread_work_fn
      | DWork \<Rightarrow> my_kthread_dwork_fn
      | WqWork \<Rightarrow> my_workqueue_fn
      | WqDWork \<Rightarrow> my_workqueue_d_fn
      | SysDWork \<Rightarrow> my_mcast_trigger skb_ok head_ok slack) (s\<lparr>queued := queued s - {x}\<rparr>)"

inductive dstep :: "mydemo \<Rightarrow> mydemo \<Rightarrow> bool" where
  dstep_item: "x \<in> queued s \<Longrightarrow> run_item skb_ok head_ok slack x s = Inr ((), s') \<Longrightarrow> dstep s s'"
| dstep_tick: "thread_runs s \<Longrightarrow> my_thread_tick s = Inr ((), s') \<Longrightarrow> dstep s s'"
| dstep_cmd: "my_genl_cmd_1 a1 a2 s = Inr (r, s') \<Longrightarrow> dstep s s'"

inductive dreach :: "mydemo \<Rightarrow> bool" where
  dreach_init: "my_init thread_ok True True family_ok mydemo_start = Inr (0, s) \<Longrightarrow> dreach s"
| dreach_step: "dreach s \<Longrightarrow> dstep s s' \<Longrightarrow> dreach s'"

inductive_cases dstep_elim: "dstep s s'"

subsection \<open>The periodic works\<close>

lemma fmt_counts:
  "vsprintf ''kthread count=%d\<newline>'' [AInt a] = Inr (''kthread count='' @ deci (sint a) @ [NL])"
  "vsprintf ''kthread_work_count=%d\<newline>'' [AInt a] = Inr (''kthread_work_count='' @ deci (sint a) @ [NL])"
  "vsprintf ''wq_count %d\<newline>'' [AInt a] = Inr (''wq_count '' @ deci (sint a) @ [NL])"
  "vsprintf ''trigger %d\<newline>'' [AInt a] = Inr (''trigger '' @ deci (sint a) @ [NL])"
  "vsprintf ''a=%d b=%d\<newline>'' [AInt a, AInt b] = Inr (''a='' @ deci (sint a) @ '' b='' @ deci (sint b) @ [NL])"
  by (simp_all add: fmt_eval pad_left_def NL_def)

lemma pr_err_text: "vsprintf fmt args = Inr t \<Longrightarrow> pr_err fmt args s = Inr ((), s\<lparr>klog := klog s @ [t]\<rparr>)"
  by (simp add: pr_err_def)

lemma queue_free: "x \<notin> queued s \<Longrightarrow> queue_or_complain x msg s = Inr ((), s\<lparr>queued := insert x (queued s)\<rparr>)"
  by (simp add: queue_or_complain_def queue_item_def bindS_def returnS_def)

lemma my_mcast_outcome:
  "my_mcast skb_ok head_ok slack a b s =
     Inr ((), if skb_ok \<and> head_ok \<and> nla_total \<le> slack then s\<lparr>mcasts := mcasts s @ [(a, b)]\<rparr> else s)"
  by (auto simp: my_mcast_def bindS_def returnS_def Let_def not_less)

text \<open>The effect of each function, in one equation.\<close>

lemma run_items:
  assumes "x \<in> queued s"
  shows "\<exists>s' t. run_item skb_ok head_ok slack x s = Inr ((), s') \<and> klog s' = klog s @ [t] \<and>
    queued s' = (if x \<in> {DWork, WqDWork, SysDWork} then queued s else queued s - {x}) \<and> skbs s' = skbs s \<and>
    mcasts s' = mcasts s @ (if x = SysDWork \<and> skb_ok \<and> head_ok \<and> nla_total \<le> slack then [(system_wq_count s, system_wq_count s + 1)] else []) \<and>
    (t \<noteq> ''count not queue delayed work.\<newline>'' \<and> t \<noteq> ''could not queue work. work already on a queue\<newline>'')"
proof (cases x)
  case Work
  then show ?thesis using assms by (simp add: run_item_def my_kthread_work_fn_def pr_err_text [OF fmt_plain])
next
  case DWork
  then show ?thesis using assms
    by (simp add: run_item_def my_kthread_dwork_fn_def bindS_def pr_err_text [OF fmt_counts(2)] queue_free insert_absorb)
next
  case WqWork
  then show ?thesis using assms by (simp add: run_item_def my_workqueue_fn_def pr_err_text [OF fmt_plain])
next
  case WqDWork
  then show ?thesis using assms
    by (simp add: run_item_def my_workqueue_d_fn_def bindS_def pr_err_text [OF fmt_counts(3)] queue_free insert_absorb)
next
  case SysDWork
  then show ?thesis using assms
    by (simp add: run_item_def my_mcast_trigger_def bindS_def pr_err_text [OF fmt_counts(4)] my_mcast_outcome queue_item_def
        returnS_def insert_absorb)
qed

text \<open>What holds from the end of \<open>my_init\<close> on.\<close>

definition demo_inv :: "mydemo \<Rightarrow> bool" where
  "demo_inv s =
     ({DWork, WqDWork, SysDWork} \<subseteq> queued s \<and> skbs s = 0 \<and> (\<forall>(a, b) \<in> set (mcasts s). b = a + 1) \<and>
      ''count not queue delayed work.\<newline>'' \<notin> set (klog s) \<and> ''could not queue work. work already on a queue\<newline>'' \<notin> set (klog s))"

lemma demo_inv_init:
  "\<exists>s. my_init thread_ok True True family_ok mydemo_start = Inr (0, s) \<and> demo_inv s"
proof -
  have t: "\<exists>s. my_kthread_init thread_ok mydemo_start = Inr ((), s) \<and> queued s = {} \<and> skbs s = 0 \<and> mcasts s = [] \<and>
      set (klog s) \<subseteq> {''called'', ''create kthread failed\<newline>''}"
    by (simp add: my_kthread_init_def bindS_def pr_err_text [OF fmt_plain] mydemo_start_def)
  then obtain s1 where s1: "my_kthread_init thread_ok mydemo_start = Inr ((), s1)" "queued s1 = {}" "skbs s1 = 0" "mcasts s1 = []"
      "set (klog s1) \<subseteq> {''called'', ''create kthread failed\<newline>''}" by blast
  show ?thesis using s1
    by (auto simp: my_init_def bindS_def my_kthread_work_init_def my_workqueue_init_def my_netlink_init_def queue_free queue_item_def
        pr_err_text [OF fmt_plain] returnS_def demo_inv_def)
qed

lemma demo_inv_step: "dstep s s' \<Longrightarrow> demo_inv s \<Longrightarrow> demo_inv s'"
proof (induction rule: dstep.induct)
  case (dstep_item x s skb_ok head_ok slack s')
  obtain s1 t where r: "run_item skb_ok head_ok slack x s = Inr ((), s1)" "klog s1 = klog s @ [t]"
    "queued s1 = (if x \<in> {DWork, WqDWork, SysDWork} then queued s else queued s - {x})" "skbs s1 = skbs s"
    "mcasts s1 = mcasts s @ (if x = SysDWork \<and> skb_ok \<and> head_ok \<and> nla_total \<le> slack then [(system_wq_count s, system_wq_count s + 1)] else [])"
    "t \<noteq> ''count not queue delayed work.\<newline>''" "t \<noteq> ''could not queue work. work already on a queue\<newline>''"
    using run_items [OF dstep_item(1), of skb_ok head_ok slack] by blast
  then have "s' = s1" using dstep_item(2) by simp
  then show ?case using dstep_item(3) r by (auto simp: demo_inv_def)
next
  case (dstep_tick s s')
  then show ?case by (auto simp: my_thread_tick_def bindS_def pr_err_text [OF fmt_counts(1)] demo_inv_def)
next
  case (dstep_cmd a1 a2 s r s')
  then show ?case by (auto simp: my_genl_cmd_1_def bindS_def pr_err_text [OF fmt_counts(5)] demo_inv_def returnS_def)
qed

lemma dreach_inv: "dreach s \<Longrightarrow> demo_inv s"
proof (induction rule: dreach.induct)
  case (dreach_init thread_ok family_ok s)
  then show ?case using demo_inv_init [of thread_ok family_ok] by auto
next
  case (dreach_step s s')
  then show ?case using demo_inv_step by blast
qed

text \<open>
  C15: Once the module is loaded, whatever happens in whatever order, the two delayed works
  and the timer are queued between their runs and queueing them is never refused, no message
  buffer is lost, a message carries a number and its successor, and none of the works ever
  faults. \<open>my_cleanup\<close> takes nothing off the queues: the works are still queued, with
  functions in a module that is gone.
\<close>

theorem demo_periodic:
  assumes "dreach s"
  shows "{DWork, WqDWork, SysDWork} \<subseteq> queued s \<and> skbs s = 0 \<and> (\<forall>(a, b) \<in> set (mcasts s). b = a + 1) \<and>
    ''count not queue delayed work.\<newline>'' \<notin> set (klog s) \<and> ''could not queue work. work already on a queue\<newline>'' \<notin> set (klog s) \<and>
    (\<forall>x \<in> queued s. \<exists>s'. run_item skb_ok head_ok slack x s = Inr ((), s') \<and> dreach s') \<and>
    (\<exists>s'. my_cleanup s = Inr ((), s') \<and> {DWork, WqDWork, SysDWork} \<subseteq> queued s')"
proof -
  have i: "demo_inv s" by (rule dreach_inv [OF assms])
  have "\<exists>s'. run_item skb_ok head_ok slack x s = Inr ((), s') \<and> dreach s'" if "x \<in> queued s" for x
    using run_items [OF that, of skb_ok head_ok slack] dstep_item [OF that] dreach_step [OF assms] by blast
  then show ?thesis using i by (simp add: demo_inv_def my_cleanup_def returnS_def)
qed

theorem demo_periodic_witness: "\<exists>s. dreach s \<and> skbs s = 0"
proof -
  obtain s where "my_init True True True True mydemo_start = Inr (0, s)" using demo_inv_init [of True True] by blast
  then have "dreach s" by (rule dreach_init)
  then show ?thesis using demo_periodic [of s True True 0] by blast
qed

text \<open>
  \<open>my_mcast\<close> asks for a buffer with room for one attribute and puts two into it: the
  message goes out only when the allocator has added room for eight more bytes, and the
  buffer is given back in every other case.
\<close>

theorem my_mcast_room:
  "my_mcast True True slack a b s = Inr ((), if 8 \<le> slack then s\<lparr>mcasts := mcasts s @ [(a, b)]\<rparr> else s) \<and>
   my_mcast False head_ok slack a b s = Inr ((), s) \<and> my_mcast True False slack a b s = Inr ((), s)"
  by (simp add: my_mcast_outcome nla_total_def)

end
