(* ===== verification/IoQueue.thy ===== *)
theory IoQueue
  imports CLib "HOL-Library.Multiset"
begin

text \<open>
  \<open>perftools/io/aio/io_queue.c\<close>: keep a number of asynchronous requests in flight, and
  resubmit each one when it completes. The calls of libaio enter by their results:
  \<open>io_setup\<close>, the number of requests that the first \<open>io_submit\<close> takes, and for
  every \<open>io_getevents\<close> either a negative number or the requests that have completed, each with
  what the \<open>io_submit\<close> returns that submits it again (the program ignores it). The
  requests in flight are a multiset of their indices. The clock is not modelled (its value
  is not used).
\<close>

definition MAX_DEPTH :: nat where "MAX_DEPTH = 1024"

record prog_opt =
  dbg_on :: bool
  do_write :: bool
  bs :: int
  total :: int             \<comment> \<open>the field \<open>count\<close>\<close>
  depth :: int
  path :: "string option"

text \<open>A request: the operation, the number of bytes and the offset.\<close>

record iocb =
  is_write :: bool
  nbytes :: u64
  offset :: u64

record aio =
  popt :: prog_opt
  ios :: "iocb list"              \<comment> \<open>the requests that have been filled in\<close>
  inflight :: "nat multiset"
  ctx_live :: bool
  fd_closed :: nat                \<comment> \<open>how often the descriptor was closed\<close>
  ndone :: int
  tout :: string
  terr :: string

type_synonym 'a aio_m = "('a, aio) st"

definition info :: "string \<Rightarrow> carg list \<Rightarrow> unit aio_m" where
  "info fmt args = bindS (liftS (vsprintf fmt args)) (\<lambda>t s. Inr ((), s\<lparr>tout := tout s @ t\<rparr>))"

definition dbg :: "string \<Rightarrow> carg list \<Rightarrow> unit aio_m" where
  "dbg fmt args s = (if dbg_on (popt s) then info fmt args s else Inr ((), s))"

text \<open>The macro \<open>err\<close>: a message to the error stream and \<open>exit(-1)\<close>; here the status.\<close>

definition err :: "string \<Rightarrow> int aio_m" where
  "err msg s = Inr (- 1, s\<lparr>terr := terr s @ msg\<rparr>)"

subsection \<open>Options\<close>

definition opt_help :: "unit aio_m" where
  "opt_help = bindS (info ''--write\<newline>'' []) (\<lambda>_. bindS (info ''--bs=4k\<newline>'' []) (\<lambda>_. bindS (info ''--count=1\<newline>'' []) (\<lambda>_.
     bindS (info ''--depth=1\<newline>'' []) (\<lambda>_. info ''--file=/dev/sdb1\<newline>'' []))))"

definition opt_init :: prog_opt where
  "opt_init = \<lparr>dbg_on = False, do_write = False, bs = 4096, total = 1, depth = 1, path = None\<rparr>"

definition set_popt :: "(prog_opt \<Rightarrow> prog_opt) \<Rightarrow> unit aio_m" where
  "set_popt f s = Inr ((), s\<lparr>popt := f (popt s)\<rparr>)"

fun opt_loop :: "(char \<times> string) list \<Rightarrow> unit aio_m" where
  "opt_loop [] = returnS ()"
| "opt_loop ((c, optarg) # os) =
     bindS
       (if c = CHR ''h'' then opt_help
        else if c = CHR ''d'' then set_popt (\<lambda>p. p\<lparr>dbg_on := True\<rparr>)
        else if c = CHR ''b'' then set_popt (\<lambda>p. p\<lparr>bs := atoi optarg\<rparr>)
        else if c = CHR ''c'' then set_popt (\<lambda>p. p\<lparr>total := atoi optarg\<rparr>)
        else if c = CHR ''D'' then set_popt (\<lambda>p. p\<lparr>depth := atoi optarg\<rparr>)
        else if c = CHR ''w'' then set_popt (\<lambda>p. p\<lparr>do_write := True\<rparr>)
        else if c = CHR ''f'' then set_popt (\<lambda>p. p\<lparr>path := Some optarg\<rparr>)
        else info ''unknow opcode\<newline>'' []) (\<lambda>_. opt_loop os)"

text \<open>\<open>None\<close> when the program goes on.\<close>

definition opt_parse :: "(char \<times> string) list \<Rightarrow> int option aio_m" where
  "opt_parse opts =
     bindS (opt_loop opts) (\<lambda>_ s.
     if path (popt s) = None then bindS (err ''specify --file\<newline>'') (\<lambda>r. returnS (Some r)) s else Inr (None, s))"

subsection \<open>Requests\<close>

text \<open>
  \<open>init_ios\<close>: a buffer of \<open>bs\<close> bytes for each, with ten bytes of text in it.
  \<open>room\<close> is the largest allocation that succeeds.
\<close>

primrec init_ios_loop :: "nat \<Rightarrow> int \<Rightarrow> nat \<Rightarrow> nat \<Rightarrow> int option aio_m" where
  "init_ios_loop room b i 0 = returnS None"
| "init_ios_loop room b i (Suc k) =
     (if MAX_DEPTH \<le> i then liftS (Inl BufferOverflow)
      else if room < size_arg b then bindS (info ''err\<newline>'' []) (\<lambda>_. returnS (Some 1))
      else if size_arg b < 10 then liftS (Inl BufferOverflow)
      else init_ios_loop room b (Suc i) k)"

definition init_ios :: "nat \<Rightarrow> int option aio_m" where
  "init_ios room s = init_ios_loop room (bs (popt s)) 0 (nat (depth (popt s))) s"

text \<open>The loop of \<open>main\<close> that fills in the requests: its index is an \<open>unsigned long\<close>.\<close>

primrec fill_loop :: "nat \<Rightarrow> nat \<Rightarrow> unit aio_m" where
  "fill_loop i 0 = returnS ()"
| "fill_loop i (Suc k) =
     (if MAX_DEPTH \<le> i then liftS (Inl BufferOverflow)
      else
        bindS (\<lambda>s. Inr ((), s\<lparr>ios := ios s @ [\<lparr>is_write = do_write (popt s), nbytes = word_of_int (bs (popt s)),
          offset = word_of_int (bs (popt s)) * word_of_nat i\<rparr>]\<rparr>)) (\<lambda>_. fill_loop (Suc i) k))"

definition fill_requests :: "unit aio_m" where
  "fill_requests s = fill_loop 0 (unat (word_of_int (depth (popt s)) :: u64)) s"

subsection \<open>The event loop\<close>

datatype events = Failed int | Completed "(nat \<times> int) list"

text \<open>The result of \<open>io_submit\<close> is 1 when it takes the request, else 0 or an error, which is not looked at.\<close>

definition resubmit :: "nat \<Rightarrow> int \<Rightarrow> unit aio_m" where
  "resubmit i submitted s =
     bindS (dbg ''resubmit %ld\<newline>'' [ALong (word_of_nat i)]) returnS
       (if ctx_live s \<and> 0 < submitted then s\<lparr>inflight := add_mset i (inflight s)\<rparr> else s)"

primrec resubmit_all :: "(nat \<times> int) list \<Rightarrow> unit aio_m" where
  "resubmit_all [] = returnS ()"
| "resubmit_all (e # es) = bindS (resubmit (fst e) (snd e)) (\<lambda>_. resubmit_all es)"

definition close_and_destroy :: "unit aio_m" where
  "close_and_destroy s = Inr ((), s\<lparr>fd_closed := Suc (fd_closed s), ctx_live := False\<rparr>)"

text \<open>\<open>done += n\<close> on an \<open>int\<close>\<close>

definition add_done :: "int \<Rightarrow> unit aio_m" where
  "add_done n s =
     (if ndone s + n < - 2147483648 \<or> 2147483647 < ndone s + n then Inl SignedOverflow
      else
        bindS (info ''total %d this round %d completion\<newline>'' [AInt (word_of_int (ndone s + n)), AInt (word_of_int n)]) returnS
          (s\<lparr>ndone := ndone s + n\<rparr>))"

text \<open>The results of the calls of \<open>io_getevents\<close>, one a round; the result says whether \<open>break\<close> was reached.\<close>

fun event_loop :: "events list \<Rightarrow> bool aio_m" where
  "event_loop [] = returnS False"
| "event_loop (Completed [] # es) = event_loop es"
| "event_loop (Failed n # es) =
     bindS (info ''error getevents\<newline>'' []) (\<lambda>_.
     bindS close_and_destroy (\<lambda>_.
     bindS (add_done n) (\<lambda>_ s. if total (popt s) \<le> ndone s then Inr (True, s) else event_loop es s)))"
| "event_loop (Completed ps # es) =
     bindS (\<lambda>s. Inr ((), s\<lparr>inflight := inflight s - mset (map fst ps)\<rparr>)) (\<lambda>_.
     bindS (add_done (int (length ps))) (\<lambda>_.
     bindS (resubmit_all ps) (\<lambda>_ s. if total (popt s) \<le> ndone s then Inr (True, s) else event_loop es s)))"

text \<open>
  The program. \<open>opened\<close>, \<open>setup\<close> and \<open>room\<close> are what \<open>open\<close>, \<open>io_setup\<close> and the
  allocator do, \<open>taken\<close> what \<open>io_submit\<close> returns; None: it is still waiting for events.
\<close>

definition io_queue_main :: "nat \<Rightarrow> int \<Rightarrow> int \<Rightarrow> int \<Rightarrow> (char \<times> string) list \<Rightarrow> events list \<Rightarrow> int option aio_m" where
  "io_queue_main room opened setup taken opts es =
     bindS (set_popt (\<lambda>_. opt_init)) (\<lambda>_.
     bindS (opt_parse opts) (\<lambda>r.
     case r of Some status \<Rightarrow> returnS (Some status)
     | None \<Rightarrow>
         if opened < 0 then
           bindS (info ''open: No such file or directory\<newline>'' []) (\<lambda>_. bindS (err ''could not open\<newline>'') (\<lambda>r. returnS (Some r)))
         else if setup \<noteq> 0 then bindS (err ''io_setup err\<newline>'') (\<lambda>r. returnS (Some r))
         else
           bindS (\<lambda>s. Inr ((), s\<lparr>ctx_live := True\<rparr>)) (\<lambda>_.
           bindS (init_ios room) (\<lambda>r.
           case r of Some status \<Rightarrow> returnS (Some status)
           | None \<Rightarrow>
               bindS fill_requests (\<lambda>_.
               bindS (\<lambda>s. Inr ((), if taken < 0 then s\<lparr>terr := terr s @ ''io_sbumit\<newline>: Resource temporarily unavailable\<newline>''\<rparr>
                                   else s\<lparr>inflight := mset [0..<nat taken]\<rparr>)) (\<lambda>_.
               bindS (event_loop es) (\<lambda>ended.
               if ended then bindS close_and_destroy (\<lambda>_. returnS (Some 0)) else returnS None)))))))"

definition aio_start :: aio where
  "aio_start = \<lparr>popt = opt_init, ios = [], inflight = {#}, ctx_live = False, fd_closed = 0, ndone = 0, tout = [], terr = []\<rparr>"

subsection \<open>The lines printed\<close>

lemma info_text: "vsprintf fmt args = Inr t \<Longrightarrow> info fmt args s = Inr ((), s\<lparr>tout := tout s @ t\<rparr>)"
  by (simp add: info_def)

lemma fmt_round: "\<exists>t. vsprintf ''total %d this round %d completion\<newline>'' [AInt a, AInt b] = Inr t"
  by (simp add: fmt_eval)

lemma fmt_resubmit: "\<exists>t. vsprintf ''resubmit %ld\<newline>'' [ALong a] = Inr t"
  by (simp add: fmt_eval)

lemma add_done_runs:
  "- 2147483648 \<le> ndone s + n \<Longrightarrow> ndone s + n < 2147483648 \<Longrightarrow>
   \<exists>t. add_done n s = Inr ((), s\<lparr>ndone := ndone s + n, tout := t\<rparr>)"
  using fmt_round [of "word_of_int (ndone s + n)" "word_of_int n"]
  by (auto simp: add_done_def bindS_def info_text returnS_def)

text \<open>The requests of a round that were submitted again, and those that were refused.\<close>

definition again :: "(nat \<times> int) list \<Rightarrow> nat multiset" where
  "again ps = mset (map fst (filter (\<lambda>p. 0 < snd p) ps))"

definition refused :: "(nat \<times> int) list \<Rightarrow> nat multiset" where
  "refused ps = mset (map fst (filter (\<lambda>p. \<not> 0 < snd p) ps))"

lemma again_refused: "again ps + refused ps = mset (map fst ps)"
  by (induction ps) (simp_all add: again_def refused_def)

lemma resubmit_runs:
  "ctx_live s \<Longrightarrow> \<exists>t. resubmit i r s = Inr ((), s\<lparr>inflight := again [(i, r)] + inflight s, tout := t\<rparr>)"
  using fmt_resubmit [of "word_of_nat i"]
  by (cases "dbg_on (popt s)"; cases "0 < r")
    (auto simp: resubmit_def dbg_def bindS_def info_text returnS_def again_def intro: exI [of _ "tout s"])

lemma resubmit_all_runs:
  "ctx_live s \<Longrightarrow> \<exists>t. resubmit_all ps s = Inr ((), s\<lparr>inflight := again ps + inflight s, tout := t\<rparr>)"
proof (induction ps arbitrary: s)
  case Nil
  then show ?case by (auto simp: returnS_def again_def intro: exI [of _ "tout s"])
next
  case (Cons p ps)
  obtain t where 1: "resubmit (fst p) (snd p) s = Inr ((), s\<lparr>inflight := again [p] + inflight s, tout := t\<rparr>)"
    using resubmit_runs [OF Cons.prems, of "fst p" "snd p"] by auto
  obtain u where "resubmit_all ps (s\<lparr>inflight := again [p] + inflight s, tout := t\<rparr>) =
      Inr ((), s\<lparr>inflight := again ps + (again [p] + inflight s), tout := u\<rparr>)"
    using Cons.IH [of "s\<lparr>inflight := again [p] + inflight s, tout := t\<rparr>"] Cons.prems by auto
  moreover have "again ps + (again [p] + inflight s) = again (p # ps) + inflight s"
    by (simp add: again_def)
  ultimately show ?case using 1 by (auto simp: bindS_def)
qed

subsection \<open>Rounds\<close>

text \<open>What a round of completions leaves as it is, beside the requests in flight.\<close>

definition same_queue :: "aio \<Rightarrow> aio \<Rightarrow> bool" where
  "same_queue s s' = (popt s' = popt s \<and> ctx_live s' = ctx_live s \<and> fd_closed s' = fd_closed s \<and> ios s' = ios s)"

lemma round_runs:
  assumes "ctx_live s" "mset (map fst ps) \<subseteq># inflight s" "ps \<noteq> []" "0 \<le> ndone s" "ndone s + int (length ps) < 2147483648"
  shows "\<exists>s'. same_queue s s' \<and> ndone s' = ndone s + int (length ps) \<and> inflight s' + refused ps = inflight s \<and>
     event_loop (Completed ps # es) s = (if total (popt s) \<le> ndone s' then Inr (True, s') else event_loop es s')"
proof -
  let ?s1 = "s\<lparr>inflight := inflight s - mset (map fst ps)\<rparr>"
  obtain t where 1: "add_done (int (length ps)) ?s1 = Inr ((), ?s1\<lparr>ndone := ndone s + int (length ps), tout := t\<rparr>)"
    using add_done_runs [of ?s1 "int (length ps)"] assms(4,5) by auto
  obtain u where 2: "resubmit_all ps (?s1\<lparr>ndone := ndone s + int (length ps), tout := t\<rparr>) =
      Inr ((), ?s1\<lparr>ndone := ndone s + int (length ps), inflight := again ps + (inflight s - mset (map fst ps)), tout := u\<rparr>)"
    using resubmit_all_runs [of "?s1\<lparr>ndone := ndone s + int (length ps), tout := t\<rparr>" ps] assms(1) by auto
  have "again ps + (inflight s - mset (map fst ps)) + refused ps = mset (map fst ps) + (inflight s - mset (map fst ps))"
    unfolding again_refused [symmetric] by (simp add: ac_simps)
  then have 3: "again ps + (inflight s - mset (map fst ps)) + refused ps = inflight s"
    using assms(2) by (simp only: subset_mset.add_diff_inverse)
  obtain j js where "ps = j # js"
    using assms(3) by (cases ps) auto
  then have "event_loop (Completed ps # es) s =
      (let s' = ?s1\<lparr>ndone := ndone s + int (length ps), inflight := again ps + (inflight s - mset (map fst ps)), tout := u\<rparr>
       in if total (popt s) \<le> ndone s' then Inr (True, s') else event_loop es s')"
    using 1 2 by (simp add: bindS_def)
  then show ?thesis using 3
    by (intro exI [of _ "?s1\<lparr>ndone := ndone s + int (length ps), inflight := again ps + (inflight s - mset (map fst ps)), tout := u\<rparr>"])
      (simp add: same_queue_def)
qed

definition completions :: "events list \<Rightarrow> int" where
  "completions es = (\<Sum>e\<leftarrow>es. case e of Completed ps \<Rightarrow> int (length ps) | Failed n \<Rightarrow> n)"

lemma completions_simps [simp]:
  "completions [] = 0"
  "completions (Completed ps # es) = int (length ps) + completions es"
  "completions (Failed n # es) = n + completions es"
  by (simp_all add: completions_def)

definition refusals :: "events list \<Rightarrow> nat multiset" where
  "refusals es = (\<Sum>e\<leftarrow>es. case e of Completed ps \<Rightarrow> refused ps | Failed n \<Rightarrow> {#})"

lemma refusals_simps [simp]:
  "refusals [] = {#}"
  "refusals (Completed ps # es) = refused ps + refusals es"
  by (simp_all add: refusals_def)

text \<open>The loop ends at the first round after which the completions reach the total.\<close>

definition ends_at :: "int \<Rightarrow> nat \<Rightarrow> bool \<Rightarrow> int \<Rightarrow> events list \<Rightarrow> bool" where
  "ends_at goal k ended start es =
     (k \<le> length es \<and> (\<forall>j < k. start + completions (take j es) < goal) \<and>
      (if ended then goal \<le> start + completions (take k es) else k = length es \<and> start + completions es < goal))"

lemma ends_at_Suc:
  "start < goal \<Longrightarrow> ends_at goal k ended (start + completions [e]) es \<Longrightarrow> ends_at goal (Suc k) ended start (e # es)"
  by (cases e) (auto simp: ends_at_def less_Suc_eq_0_disj add.assoc)

text \<open>The kernel reports only requests that are in flight.\<close>

fun delivers :: "nat multiset \<Rightarrow> events list \<Rightarrow> bool" where
  "delivers m [] = True"
| "delivers m (Completed ps # es) = (mset (map fst ps) \<subseteq># m \<and> delivers (m - refused ps) es)"
| "delivers m (Failed n # es) = False"

lemma event_loop_runs:
  "ctx_live s \<Longrightarrow> 0 \<le> ndone s \<Longrightarrow> ndone s < total (popt s) \<Longrightarrow> total (popt s) + int (size (inflight s)) \<le> 2147483648 \<Longrightarrow>
   delivers (inflight s) es \<Longrightarrow>
   \<exists>k ended s'. event_loop es s = Inr (ended, s') \<and> same_queue s s' \<and> ndone s' = ndone s + completions (take k es) \<and>
     inflight s' + refusals (take k es) = inflight s \<and> ends_at (total (popt s)) k ended (ndone s) es"
proof (induction es arbitrary: s)
  case Nil
  then show ?case
    by (intro exI [of _ 0] exI [of _ False] exI [of _ s]) (simp add: returnS_def same_queue_def ends_at_def)
next
  case (Cons e es)
  from Cons.prems(5) obtain ps where e: "e = Completed ps" "mset (map fst ps) \<subseteq># inflight s" "delivers (inflight s - refused ps) es"
    by (cases e) auto
  show ?case
  proof (cases "ps = []")
    case True
    then have "refused ps = {#}" by (simp add: refused_def)
    then obtain k ended s' where "event_loop es s = Inr (ended, s')" "same_queue s s'"
      "ndone s' = ndone s + completions (take k es)" "inflight s' + refusals (take k es) = inflight s" "ends_at (total (popt s)) k ended (ndone s) es"
      using Cons.IH [OF Cons.prems(1-4)] e(3) by auto
    moreover from this(5) have "ends_at (total (popt s)) (Suc k) ended (ndone s) (e # es)"
      using ends_at_Suc [OF Cons.prems(3), of k ended e es] e(1) True by simp
    moreover have "event_loop (e # es) s = event_loop es s" "completions (take (Suc k) (e # es)) = completions (take k es)"
      "refusals (take (Suc k) (e # es)) = refusals (take k es)"
      using e(1) True by (simp_all add: refused_def)
    ultimately show ?thesis
      by metis
  next
    case False
    have "length ps \<le> size (inflight s)" using size_mset_mono [OF e(2)] by simp
    then have "ndone s + int (length ps) < 2147483648" using Cons.prems(3,4) by simp
    then obtain s1 where s1: "same_queue s s1" "ndone s1 = ndone s + int (length ps)" "inflight s1 + refused ps = inflight s"
      "event_loop (e # es) s = (if total (popt s) \<le> ndone s1 then Inr (True, s1) else event_loop es s1)"
      using round_runs [OF Cons.prems(1) e(2) False Cons.prems(2), of es] e(1) by auto
    show ?thesis
    proof (cases "total (popt s) \<le> ndone s1")
      case True
      with s1 e(1) Cons.prems(3) show ?thesis
        by (intro exI [of _ 1] exI [of _ True] exI [of _ s1]) (simp add: ends_at_def)
    next
      case False
      have m: "inflight s1 = inflight s - refused ps" "size (inflight s1) \<le> size (inflight s)"
        unfolding s1(3) [symmetric] by simp_all
      have "ctx_live s1" "0 \<le> ndone s1" "ndone s1 < total (popt s1)" "total (popt s1) + int (size (inflight s1)) \<le> 2147483648"
        "delivers (inflight s1) es"
        using s1(1,2) False Cons.prems(1,2,4) m(2) e(3) by (simp_all add: same_queue_def m(1) [symmetric])
      from Cons.IH [OF this] obtain k ended s' where "event_loop es s1 = Inr (ended, s')" "same_queue s1 s'"
        "ndone s' = ndone s1 + completions (take k es)" "inflight s' + refusals (take k es) = inflight s1"
        "ends_at (total (popt s1)) k ended (ndone s1) es"
        by blast
      note loop = this
      have "ends_at (total (popt s)) (Suc k) ended (ndone s) (e # es)"
        using ends_at_Suc [OF Cons.prems(3), of k ended e es] loop(5) s1(1,2) e(1) by (simp add: same_queue_def)
      moreover have "same_queue s s'"
        using s1(1) loop(2) by (simp add: same_queue_def)
      moreover have "event_loop (e # es) s = Inr (ended, s')" "ndone s' = ndone s + completions (take (Suc k) (e # es))"
        using s1 loop(1,3) False e(1) by simp_all
      moreover have "inflight s' + refusals (take (Suc k) (e # es)) = inflight s"
        using e(1) by (simp add: s1(3) [symmetric] loop(4) [symmetric] ac_simps)
      ultimately show ?thesis
        by blast
    qed
  qed
qed

subsection \<open>Before the loop\<close>

lemma init_ios_runs:
  "i + k \<le> MAX_DEPTH \<Longrightarrow> size_arg b \<le> room \<Longrightarrow> 10 \<le> size_arg b \<Longrightarrow> init_ios_loop room b i k s = Inr (None, s)"
  by (induction k arbitrary: i) (auto simp: returnS_def)

definition request :: "prog_opt \<Rightarrow> nat \<Rightarrow> iocb" where
  "request p i = \<lparr>is_write = do_write p, nbytes = word_of_int (bs p), offset = word_of_int (bs p) * word_of_nat i\<rparr>"

lemma fill_loop_runs:
  "i + k \<le> MAX_DEPTH \<Longrightarrow> fill_loop i k s = Inr ((), s\<lparr>ios := ios s @ map (request (popt s)) [i..<i + k]\<rparr>)"
proof (induction k arbitrary: i s)
  case (Suc k)
  have "[i..<i + Suc k] = i # [Suc i..<Suc i + k]"
    by (simp add: upt_rec)
  with Suc show ?case
    by (simp add: bindS_def request_def [abs_def])
qed (simp add: returnS_def)

definition asked :: "string \<Rightarrow> nat \<Rightarrow> nat \<Rightarrow> nat \<Rightarrow> (char \<times> string) list" where
  "asked f d b c = [(CHR ''f'', f), (CHR ''D'', decn d), (CHR ''b'', decn b), (CHR ''c'', decn c)]"

definition chosen :: "string \<Rightarrow> nat \<Rightarrow> nat \<Rightarrow> nat \<Rightarrow> prog_opt" where
  "chosen f d b c = \<lparr>dbg_on = False, do_write = False, bs = int b, total = int c, depth = int d, path = Some f\<rparr>"

lemma opt_parse_asked:
  assumes "d < 2147483648" "b < 2147483648" "c < 2147483648"
  shows "opt_parse (asked f d b c) (s\<lparr>popt := opt_init\<rparr>) = Inr (None, s\<lparr>popt := chosen f d b c\<rparr>)"
  using assms
  by (simp add: opt_parse_def asked_def set_popt_def bindS_def returnS_def opt_init_def chosen_def atoi_decn del: One_nat_def)

definition ready :: "nat \<Rightarrow> nat \<Rightarrow> nat \<Rightarrow> nat \<Rightarrow> string \<Rightarrow> bool" where
  "ready room d b c f = (d \<le> MAX_DEPTH \<and> 10 \<le> b \<and> b \<le> room \<and> b < 2147483648 \<and> c < 2147483648 \<and> c + d \<le> 2147483648)"

definition submitted :: "nat \<Rightarrow> string \<Rightarrow> nat \<Rightarrow> nat \<Rightarrow> nat \<Rightarrow> aio" where
  "submitted n f d b c =
     aio_start\<lparr>popt := chosen f d b c, ctx_live := True, ios := map (request (chosen f d b c)) [0..<d], inflight := mset [0..<n]\<rparr>"

lemma io_queue_main_ready:
  assumes "ready room d b c f" "0 \<le> fd"
  shows "io_queue_main room fd 0 (int n) (asked f d b c) es aio_start =
     bindS (event_loop es) (\<lambda>ended. if ended then bindS close_and_destroy (\<lambda>_. returnS (Some 0)) else returnS None)
       (submitted n f d b c)"
proof -
  have d: "d < 2147483648" "b < 2147483648" "c < 2147483648"
    using assms(1) by (simp_all add: ready_def MAX_DEPTH_def)
  have 1: "init_ios room (aio_start\<lparr>popt := chosen f d b c, ctx_live := True\<rparr>) =
      Inr (None, aio_start\<lparr>popt := chosen f d b c, ctx_live := True\<rparr>)"
    using assms(1) d by (simp add: init_ios_def init_ios_runs ready_def chosen_def size_arg_def)
  have "unat (word_of_int (int d) :: u64) = d"
    using d by (simp add: unat_of_nat take_bit_nat_eq_self)
  then have 2: "fill_requests (aio_start\<lparr>popt := chosen f d b c, ctx_live := True\<rparr>) =
      Inr ((), aio_start\<lparr>popt := chosen f d b c, ctx_live := True, ios := map (request (chosen f d b c)) [0..<d]\<rparr>)"
    using assms(1) fill_loop_runs [of 0 d "aio_start\<lparr>popt := chosen f d b c, ctx_live := True\<rparr>"]
    by (simp add: fill_requests_def ready_def chosen_def aio_start_def)
  show ?thesis
    using opt_parse_asked [OF d, of f aio_start] assms(2) 1 2
    by (simp add: io_queue_main_def bindS_def set_popt_def submitted_def case_prod_unfold)
qed

subsection \<open>When every call of \<open>io_getevents\<close> fails\<close>

lemma event_loop_failing:
  "\<forall>e \<in> set es. \<exists>n < 0. e = Failed n \<Longrightarrow> ndone s < total (popt s) \<Longrightarrow> ndone s < 2147483648 \<Longrightarrow>
   - 2147483648 \<le> ndone s + completions es \<Longrightarrow>
   \<exists>s'. event_loop es s = Inr (False, s') \<and> fd_closed s' = fd_closed s + length es"
proof (induction es arbitrary: s)
  case (Cons e es)
  from Cons.prems obtain n where e: "e = Failed n" "n < 0"
    by auto
  define s1 where "s1 = s\<lparr>tout := tout s @ ''error getevents\<newline>'', fd_closed := Suc (fd_closed s), ctx_live := False\<rparr>"
  have "\<forall>e \<in> set es. \<exists>n < 0. e = Failed n \<Longrightarrow> completions es \<le> 0" for es
    by (induction es) auto
  then have "completions es \<le> 0" using Cons.prems(1) by simp
  then obtain t where 1: "add_done n s1 = Inr ((), s1\<lparr>ndone := ndone s + n, tout := t\<rparr>)"
    using add_done_runs [of s1 n] Cons.prems(3,4) e by (auto simp: s1_def)
  obtain s' where "event_loop es (s1\<lparr>ndone := ndone s + n, tout := t\<rparr>) = Inr (False, s')" "fd_closed s' = Suc (fd_closed s) + length es"
    using Cons.IH [of "s1\<lparr>ndone := ndone s + n, tout := t\<rparr>"] Cons.prems e by (auto simp: s1_def)
  with 1 e Cons.prems(2) show ?case
    by (auto simp: bindS_def info_text fmt_simps close_and_destroy_def s1_def)
qed (auto simp: returnS_def)

text \<open>
  A failing \<open>io_getevents\<close> does not end the program: the descriptor is closed again at every call, as long as \<open>done\<close>,
  from which every error number is taken, does not overflow.
\<close>

lemma io_queue_never_ends:
  assumes "ready room d b c f" "0 \<le> fd" "0 < c" "\<forall>e \<in> set es. \<exists>n < 0. e = Failed n" "- 2147483648 \<le> completions es"
  shows "\<exists>s'. io_queue_main room fd 0 (int n) (asked f d b c) es aio_start = Inr (None, s') \<and> fd_closed s' = length es"
proof -
  obtain s' where "event_loop es (submitted n f d b c) = Inr (False, s')" "fd_closed s' = length es"
    using event_loop_failing [OF assms(4), of "submitted n f d b c"] assms(3,5)
    by (auto simp: submitted_def chosen_def aio_start_def)
  then show ?thesis
    using io_queue_main_ready [OF assms(1,2)] by (simp add: bindS_def returnS_def)
qed

subsection \<open>The program\<close>

definition queue_end :: "nat \<Rightarrow> int option \<Rightarrow> aio \<Rightarrow> bool" where
  "queue_end c r s =
     (if int c \<le> ndone s then r = Some 0 \<and> fd_closed s = 1 \<and> \<not> ctx_live s else r = None \<and> fd_closed s = 0 \<and> ctx_live s)"

text \<open>
  C16: With options for a depth of \<open>d\<close> up to 1024, a block size of at least ten bytes and
  a positive number of requests, and as long as the kernel reports only requests that are
  in flight, a request is lost only if the \<open>io_submit\<close> that submits it again refuses it: those in flight and the
  refused ones together are just the requests \<open>0..n-1\<close> that the first \<open>io_submit\<close> took, and all of these are in
  flight if none was refused. Request \<open>i\<close> is at the offset of block \<open>i\<close>. The program ends with status 0 at the first round after which the
  completions reach the number asked for, having closed the descriptor once, and else waits; the count does not overflow.
\<close>

theorem io_queue_keeps_depth:
  assumes "ready room d b c f" "0 \<le> fd" "0 < c" "n \<le> d" "delivers (mset [0..<n]) es"
  shows "\<exists>k r s'. io_queue_main room fd 0 (int n) (asked f d b c) es aio_start = Inr (r, s') \<and>
     inflight s' + refusals (take k es) = mset [0..<n] \<and> (refusals es = {#} \<longrightarrow> inflight s' = mset [0..<n]) \<and>
     ndone s' = completions (take k es) \<and> ends_at (int c) k (r = Some 0) 0 es \<and> queue_end c r s' \<and>
     map offset (ios s') = map (\<lambda>i. word_of_nat (b * i)) [0..<d]"
proof -
  have start: "ctx_live (submitted n f d b c)" "ndone (submitted n f d b c) = 0" "popt (submitted n f d b c) = chosen f d b c"
    "inflight (submitted n f d b c) = mset [0..<n]" "fd_closed (submitted n f d b c) = 0"
    "map offset (ios (submitted n f d b c)) = map (\<lambda>i. word_of_nat (b * i)) [0..<d]" "total (chosen f d b c) = int c"
    by (simp_all add: submitted_def aio_start_def chosen_def request_def)
  have "size (mset [0..<n]) = n" by (simp del: mset_upt)
  then have "int c + int (size (mset [0..<n])) \<le> 2147483648" using assms(1,4) by (simp add: ready_def del: mset_upt)
  then obtain k ended s' where loop: "event_loop es (submitted n f d b c) = Inr (ended, s')" "same_queue (submitted n f d b c) s'"
    "ndone s' = completions (take k es)" "inflight s' + refusals (take k es) = mset [0..<n]" "ends_at (int c) k ended 0 es"
    using event_loop_runs [of "submitted n f d b c" es] assms(3,5) by (auto simp: start simp del: mset_upt)
  have at: "int c \<le> ndone s' \<longleftrightarrow> ended"
    using loop(3,5) by (auto simp: ends_at_def split: if_splits)
  let ?s = "if ended then s'\<lparr>fd_closed := Suc (fd_closed s'), ctx_live := False\<rparr> else s'"
  let ?r = "if ended then Some 0 else None"
  have run: "io_queue_main room fd 0 (int n) (asked f d b c) es aio_start = Inr (?r, ?s)"
    using io_queue_main_ready [OF assms(1,2)] loop(1) by (simp add: bindS_def returnS_def close_and_destroy_def)
  have all: "inflight ?s + refusals (take k es) = mset [0..<n]"
    using loop(4) by simp
  have "refusals es = refusals (take k es) + refusals (drop k es)"
    by (simp add: refusals_def flip: sum_list_append map_append)
  then have "refusals es = {#} \<longrightarrow> inflight ?s = mset [0..<n]"
    using all by (cases ended) (auto simp del: mset_upt)
  moreover have "ndone ?s = completions (take k es)" "map offset (ios ?s) = map (\<lambda>i. word_of_nat (b * i)) [0..<d]"
    using loop(2,3) start(6) by (simp_all add: same_queue_def)
  moreover have "queue_end c ?r ?s"
    using at loop(2) start(1,5) by (auto simp: queue_end_def same_queue_def)
  moreover have "ends_at (int c) k (?r = Some 0) 0 es"
    using loop(5) by (cases ended) simp_all
  ultimately show ?thesis
    using run all by blast
qed

text \<open>Two requests, of which the second is refused the second time.\<close>

definition queue_events :: "events list" where
  "queue_events = [Completed [(1, 1)], Completed [(0, 1), (1, - 11)], Completed [(0, 1)]]"

theorem io_queue_keeps_depth_witness:
  "\<exists>s'. io_queue_main 4096 3 0 (int 2) (asked ''/dev/sdb1'' 2 4096 4) queue_events aio_start = Inr (Some 0, s') \<and>
     inflight s' = {#0#} \<and> ndone s' = 4"
proof -
  have m: "mset [0..<2] = {#0, 1 :: nat#}"
    by (simp add: numeral_2_eq_2)
  have "ready 4096 2 4096 4 ''/dev/sdb1''" "delivers (mset [0..<2]) queue_events"
    unfolding m by (simp_all add: ready_def MAX_DEPTH_def queue_events_def refused_def)
  from io_queue_keeps_depth [OF this(1) _ _ order_refl this(2), of 3] obtain k r s' where
    r: "io_queue_main 4096 3 0 (int 2) (asked ''/dev/sdb1'' 2 4096 4) queue_events aio_start = Inr (r, s')"
    "inflight s' + refusals (take k queue_events) = {#0, 1#}" "ndone s' = completions (take k queue_events)"
    "ends_at 4 k (r = Some 0) 0 queue_events" unfolding m by auto
  have "k = 3" "r = Some 0"
    using r(4) by (auto simp: ends_at_def queue_events_def less_Suc_eq numeral_eq_Suc take_Cons split: if_splits nat.splits)
  then show ?thesis using r by (auto simp: queue_events_def refused_def numeral_3_eq_3)
qed

end
