(* ===== verification/Modeset.thy ===== *)
theory Modeset
  imports Posix
begin

unbundle bit_operations_syntax

text \<open>
  \<open>perftools/X/drm-howto/modeset.c\<close>: find the connected monitors of a graphics card, give
  each a CRTC and a framebuffer, draw into them and put the card back as it was. The card
  enters as a record of functions, what the calls of libdrm and of the kernel return: an
  error number or a value. What the program holds of the card is the state: buffers,
  framebuffers, mappings, the configuration of every CRTC, and the objects of libdrm and
  the devices that are allocated. \<open>%m\<close> in a message is the text of the error number.
\<close>

subsection \<open>The card\<close>

record mode_info =
  hdisplay :: u16
  vdisplay :: u16
  mode_name :: string

record connector =
  connector_id :: u32
  connected :: bool
  modes :: "mode_info list"
  encoder_id :: u32
  encoders :: "u32 list"

record encoder =
  crtc_id :: u32
  possible_crtcs :: u32

record resources =
  connectors :: "u32 list"
  crtcs :: "u32 list"

text \<open>\<open>drmModeCrtc\<close>\<close>

record crtc_info =
  cr_id :: u32
  buffer_id :: u32
  cr_x :: u32
  cr_y :: u32
  cr_mode :: mode_info

text \<open>\<open>struct modeset_dev\<close>; the mapping is known by the handle of its buffer.\<close>

record modeset_dev =
  width :: u32
  height :: u32
  stride :: u32
  dev_size :: u32
  handle :: u32
  dev_mode :: mode_info
  fb :: u32
  conn :: u32
  crtc :: u32
  saved_crtc :: "crtc_info option"

record gpu =
  modeset_list :: "modeset_dev list"
  handles :: "u32 set"                     \<comment> \<open>dumb buffers\<close>
  fbs :: "u32 \<Rightarrow> u32 option"              \<comment> \<open>framebuffers and their buffers\<close>
  maps :: "u32 \<Rightarrow> byte list option"       \<comment> \<open>mapped buffers and what is in them\<close>
  crtc_conf :: "u32 \<Rightarrow> crtc_info option"
  fds :: nat                               \<comment> \<open>open descriptors\<close>
  objs :: nat                              \<comment> \<open>objects of libdrm that are allocated\<close>
  devs :: nat                              \<comment> \<open>devices that are allocated\<close>
  rands :: nat                             \<comment> \<open>how often \<open>rand\<close> was called\<close>
  merr :: string

record card =
  open_of :: "string \<Rightarrow> int + unit"
  dumb_cap :: "u64 option"
  res_of :: "int + resources"
  conn_of :: "u32 \<Rightarrow> int + connector"
  enc_of :: "u32 \<Rightarrow> int + encoder"
  dumb_of :: "gpu \<Rightarrow> u32 \<Rightarrow> u32 \<Rightarrow> int + u32 \<times> u32 \<times> u64"   \<comment> \<open>handle, pitch, size\<close>
  fb_of :: "gpu \<Rightarrow> u32 \<Rightarrow> int + u32"
  offset_of :: "gpu \<Rightarrow> u32 \<Rightarrow> int + u64"
  mmap_of :: "gpu \<Rightarrow> u32 \<Rightarrow> int + unit"
  set_of :: "gpu \<Rightarrow> crtc_info \<Rightarrow> u32 list \<Rightarrow> int + (u32 \<Rightarrow> crtc_info option)"
  rand_of :: "nat \<Rightarrow> u32"
  strerror :: "int \<Rightarrow> string"

type_synonym 'a mm = "('a, gpu) st"

definition upd :: "(gpu \<Rightarrow> gpu) \<Rightarrow> unit mm" where "upd f g = Inr ((), f g)"

definition say :: "string \<Rightarrow> carg list \<Rightarrow> unit mm" where
  "say fmt args = bindS (liftS (vsprintf fmt args)) (\<lambda>t. upd (\<lambda>g. g\<lparr>merr := merr g @ t\<rparr>))"

text \<open>The arguments for \<open>(%d): %m\<close>.\<close>

definition errno_args :: "card \<Rightarrow> int \<Rightarrow> carg list" where
  "errno_args c e = [AInt (word_of_int e), AStr (strerror c e)]"

abbreviation (input) new_obj :: "unit mm" where "new_obj \<equiv> upd (\<lambda>g. g\<lparr>objs := objs g + 1\<rparr>)"
abbreviation (input) free_obj :: "unit mm" where "free_obj \<equiv> upd (\<lambda>g. g\<lparr>objs := objs g - 1\<rparr>)"

subsection \<open>Opening the card\<close>

definition EOPNOTSUPP :: int where "EOPNOTSUPP = 95"
definition ENOENT :: int where "ENOENT = 2"
definition EFAULT :: int where "EFAULT = 14"

definition QUOTE :: string where "QUOTE = [CHR 0x27]"

definition modeset_open :: "card \<Rightarrow> string \<Rightarrow> int mm" where
  "modeset_open c node =
     (case open_of c node of
        Inl e \<Rightarrow>
          bindS (say (''cannot open '' @ QUOTE @ ''%s'' @ QUOTE @ '': %s\<newline>'') [AStr node, AStr (strerror c e)]) (\<lambda>_. returnS (- e))
      | Inr _ \<Rightarrow>
          bindS (upd (\<lambda>g. g\<lparr>fds := fds g + 1\<rparr>)) (\<lambda>_.
          if dumb_cap c = None \<or> dumb_cap c = Some 0 then
            bindS (say (''drm device '' @ QUOTE @ ''%s'' @ QUOTE @ '' does not support dumb buffers\<newline>'') [AStr node]) (\<lambda>_.
            bindS (upd (\<lambda>g. g\<lparr>fds := fds g - 1\<rparr>)) (\<lambda>_. returnS (- EOPNOTSUPP)))
          else returnS 0))"

subsection \<open>A CRTC for a connector\<close>

text \<open>
  The loops over \<open>modeset_list\<close>: \<open>crtc\<close> is an \<open>int32_t\<close>, which becomes -1 when a device
  has it already. The comparison is one of unsigned numbers.
\<close>

fun claim_crtc :: "modeset_dev list \<Rightarrow> int \<Rightarrow> int" where
  "claim_crtc [] cr = cr"
| "claim_crtc (d # ds) cr = (if crtc d = word_of_int cr then - 1 else claim_crtc ds cr)"

text \<open>The loop over the CRTCs of the card: a shift of an \<open>int\<close> by 32 or more is undefined.\<close>

fun crtc_loop :: "encoder \<Rightarrow> modeset_dev list \<Rightarrow> u32 list \<Rightarrow> nat \<Rightarrow> int option res" where
  "crtc_loop enc l [] j = Inr None"
| "crtc_loop enc l (cr # crs) j =
     (if 32 \<le> j then Inl SignedOverflow
      else if possible_crtcs enc AND push_bit j 1 = 0 then crtc_loop enc l crs (Suc j)
      else let k = claim_crtc l (sint cr) in if 0 \<le> k then Inr (Some k) else crtc_loop enc l crs (Suc j))"

fun encoder_loop :: "card \<Rightarrow> resources \<Rightarrow> u32 list \<Rightarrow> nat \<Rightarrow> int option mm" where
  "encoder_loop c res [] i = returnS None"
| "encoder_loop c res (e # es) i =
     (case enc_of c e of
        Inl err \<Rightarrow>
          bindS (say ''cannot retrieve encoder %u:%u (%d): %s\<newline>'' ([AInt (word_of_nat i), AInt e] @ errno_args c err)) (\<lambda>_.
          encoder_loop c res es (Suc i))
      | Inr enc \<Rightarrow>
          bindS new_obj (\<lambda>_.
          bindS (\<lambda>g. liftS (crtc_loop enc (modeset_list g) (crtcs res) 0) g) (\<lambda>r.
          bindS free_obj (\<lambda>_.
          case r of Some k \<Rightarrow> returnS (Some k) | None \<Rightarrow> encoder_loop c res es (Suc i)))))"

text \<open>The encoder that the connector is bound to.\<close>

definition current_crtc :: "card \<Rightarrow> connector \<Rightarrow> int option mm" where
  "current_crtc c co =
     (if encoder_id co = 0 then returnS None
      else case enc_of c (encoder_id co) of
        Inl _ \<Rightarrow> returnS None
      | Inr enc \<Rightarrow>
          bindS new_obj (\<lambda>_.
          bindS (\<lambda>g. Inr (if crtc_id enc \<noteq> 0 then claim_crtc (modeset_list g) (sint (crtc_id enc)) else - 1, g)) (\<lambda>k.
          bindS free_obj (\<lambda>_. returnS (if crtc_id enc \<noteq> 0 \<and> 0 \<le> k then Some k else None)))))"

definition modeset_find_crtc :: "card \<Rightarrow> resources \<Rightarrow> connector \<Rightarrow> modeset_dev \<Rightarrow> (int \<times> modeset_dev) mm" where
  "modeset_find_crtc c res co d =
     bindS (current_crtc c co) (\<lambda>r.
     case r of
       Some k \<Rightarrow> returnS (0, d\<lparr>crtc := word_of_int k\<rparr>)
     | None \<Rightarrow>
         bindS (encoder_loop c res (encoders co) 0) (\<lambda>r.
         case r of
           Some k \<Rightarrow> returnS (0, d\<lparr>crtc := word_of_int k\<rparr>)
         | None \<Rightarrow>
             bindS (say ''cannot find suitable CRTC for connector %u\<newline>'' [AInt (connector_id co)]) (\<lambda>_. returnS (- ENOENT, d))))"

subsection \<open>A framebuffer\<close>

definition destroy_dumb :: "u32 \<Rightarrow> unit mm" where
  "destroy_dumb h = upd (\<lambda>g. g\<lparr>handles := handles g - {h}\<rparr>)"

definition rm_fb :: "u32 \<Rightarrow> unit mm" where
  "rm_fb f = upd (\<lambda>g. g\<lparr>fbs := (fbs g)(f := None)\<rparr>)"

text \<open>The calls that create the three things, each with its error number.\<close>

definition create_dumb :: "card \<Rightarrow> u32 \<Rightarrow> u32 \<Rightarrow> (int + u32 \<times> u32 \<times> u64) mm" where
  "create_dumb c w h g =
     (case dumb_of c g w h of
        Inl e \<Rightarrow> Inr (Inl e, g)
      | Inr (bo, pitch, sz) \<Rightarrow> Inr (Inr (bo, pitch, sz), g\<lparr>handles := insert bo (handles g)\<rparr>))"

definition add_fb :: "card \<Rightarrow> u32 \<Rightarrow> (int + u32) mm" where
  "add_fb c bo g =
     (case fb_of c g bo of Inl e \<Rightarrow> Inr (Inl e, g) | Inr f \<Rightarrow> Inr (Inr f, g\<lparr>fbs := (fbs g)(f := Some bo)\<rparr>))"

text \<open>\<open>mmap\<close>, and the \<open>memset\<close> that follows.\<close>

definition map_dumb :: "card \<Rightarrow> u32 \<Rightarrow> u32 \<Rightarrow> (int + unit) mm" where
  "map_dumb c bo sz g =
     (case mmap_of c g bo of
        Inl e \<Rightarrow> Inr (Inl e, g)
      | Inr _ \<Rightarrow> Inr (Inr (), g\<lparr>maps := (maps g)(bo := Some (replicate (unat sz) 0))\<rparr>))"

text \<open>The function from its end: the mapping, the framebuffer object, the buffer; each undoes the earlier ones.\<close>

definition map_fb :: "card \<Rightarrow> modeset_dev \<Rightarrow> (int \<times> modeset_dev) mm" where
  "map_fb c d =
     bindS (\<lambda>g. Inr (offset_of c g (handle d), g)) (\<lambda>r.
     case r of
       Inl e \<Rightarrow>
         bindS (say ''cannot map dumb buffer (%d): %s\<newline>'' (errno_args c e)) (\<lambda>_.
         bindS (rm_fb (fb d)) (\<lambda>_. bindS (destroy_dumb (handle d)) (\<lambda>_. returnS (- e, d))))
     | Inr _ \<Rightarrow>
         bindS (map_dumb c (handle d) (dev_size d)) (\<lambda>r.
         case r of
           Inl e \<Rightarrow>
             bindS (say ''cannot mmap dumb buffer (%d): %s\<newline>'' (errno_args c e)) (\<lambda>_.
             bindS (rm_fb (fb d)) (\<lambda>_. bindS (destroy_dumb (handle d)) (\<lambda>_. returnS (- e, d))))
         | Inr _ \<Rightarrow> returnS (0, d)))"

definition fb_on_dumb :: "card \<Rightarrow> modeset_dev \<Rightarrow> (int \<times> modeset_dev) mm" where
  "fb_on_dumb c d =
     bindS (add_fb c (handle d)) (\<lambda>r.
     case r of
       Inl e \<Rightarrow>
         bindS (say ''cannot create framebuffer (%d): %s\<newline>'' (errno_args c e)) (\<lambda>_.
         bindS (destroy_dumb (handle d)) (\<lambda>_. returnS (- e, d)))
     | Inr f \<Rightarrow> map_fb c (d\<lparr>fb := f\<rparr>))"

definition modeset_create_fb :: "card \<Rightarrow> modeset_dev \<Rightarrow> (int \<times> modeset_dev) mm" where
  "modeset_create_fb c d =
     bindS (create_dumb c (width d) (height d)) (\<lambda>r.
     case r of
       Inl e \<Rightarrow> bindS (say ''cannot create dumb buffer (%d): %s\<newline>'' (errno_args c e)) (\<lambda>_. returnS (- e, d))
     | Inr (bo, pitch, sz) \<Rightarrow> fb_on_dumb c (d\<lparr>stride := pitch, dev_size := ucast sz, handle := bo\<rparr>))"

subsection \<open>All connectors\<close>

text \<open>The part of \<open>modeset_setup_dev\<close> from the choice of a mode on.\<close>

definition setup_mode :: "card \<Rightarrow> resources \<Rightarrow> connector \<Rightarrow> modeset_dev \<Rightarrow> mode_info \<Rightarrow> (int \<times> modeset_dev) mm" where
  "setup_mode c res co d m =
     (let d = d\<lparr>dev_mode := m, width := ucast (hdisplay m), height := ucast (vdisplay m)\<rparr> in
      bindS (say ''mode for connector %u is %ux%u\<newline>'' [AInt (connector_id co), AInt (width d), AInt (height d)]) (\<lambda>_.
      bindS (modeset_find_crtc c res co d) (\<lambda>(ret, d).
      if ret \<noteq> 0 then
        bindS (say ''no valid crtc for connector %u\<newline>'' [AInt (connector_id co)]) (\<lambda>_. returnS (ret, d))
      else
        bindS (modeset_create_fb c d) (\<lambda>(ret, d).
        if ret \<noteq> 0 then
          bindS (say ''cannot create framebuffer for connector %u\<newline>'' [AInt (connector_id co)]) (\<lambda>_. returnS (ret, d))
        else returnS (0, d)))))"

definition modeset_setup_dev :: "card \<Rightarrow> resources \<Rightarrow> connector \<Rightarrow> modeset_dev \<Rightarrow> (int \<times> modeset_dev) mm" where
  "modeset_setup_dev c res co d =
     (if \<not> connected co then
        bindS (say ''ignoring unused connector %u\<newline>'' [AInt (connector_id co)]) (\<lambda>_. returnS (- ENOENT, d))
      else case modes co of
        [] \<Rightarrow> bindS (say ''no valid mode for connector %u\<newline>'' [AInt (connector_id co)]) (\<lambda>_. returnS (- EFAULT, d))
      | m # _ \<Rightarrow> setup_mode c res co d m)"

definition zero_mode :: mode_info where
  "zero_mode = \<lparr>hdisplay = 0, vdisplay = 0, mode_name = []\<rparr>"

definition zero_dev :: modeset_dev where
  "zero_dev = \<lparr>width = 0, height = 0, stride = 0, dev_size = 0, handle = 0, dev_mode = zero_mode, fb = 0, conn = 0, crtc = 0,
     saved_crtc = None\<rparr>"

text \<open>
  The loop of \<open>modeset_prepare\<close> and \<open>modeset_prepare\<close> itself, with the function that sets up one device as an argument: it is all in which
  the programs \<open>modeset.c\<close>, \<open>modeset13.c\<close> and \<open>modeset_list_mode.c\<close> differ here.
\<close>

type_synonym setup_fun = "card \<Rightarrow> resources \<Rightarrow> connector \<Rightarrow> modeset_dev \<Rightarrow> (int \<times> modeset_dev) mm"

fun connector_loop :: "setup_fun \<Rightarrow> card \<Rightarrow> resources \<Rightarrow> u32 list \<Rightarrow> nat \<Rightarrow> unit mm" where
  "connector_loop set_dev c res [] i = returnS ()"
| "connector_loop set_dev c res (k # ks) i =
     (case conn_of c k of
        Inl e \<Rightarrow>
          bindS (say ''cannot retrieve DRM connector %u:%u (%d): %s\<newline>'' ([AInt (word_of_nat i), AInt k] @ errno_args c e)) (\<lambda>_.
          connector_loop set_dev c res ks (Suc i))
      | Inr co \<Rightarrow>
          bindS new_obj (\<lambda>_.
          bindS (upd (\<lambda>g. g\<lparr>devs := devs g + 1\<rparr>)) (\<lambda>_.
          bindS (set_dev c res co (zero_dev\<lparr>conn := connector_id co\<rparr>)) (\<lambda>(ret, d).
          if ret \<noteq> 0 then
            bindS (if ret \<noteq> - ENOENT then
                     say ''cannot setup device for connector %u:%u (%d): %s\<newline>''
                       ([AInt (word_of_nat i), AInt k] @ errno_args c (- ret))
                   else returnS ()) (\<lambda>_.
            bindS (upd (\<lambda>g. g\<lparr>devs := devs g - 1\<rparr>)) (\<lambda>_.
            bindS free_obj (\<lambda>_. connector_loop set_dev c res ks (Suc i))))
          else
            bindS free_obj (\<lambda>_.
            bindS (upd (\<lambda>g. g\<lparr>modeset_list := d # modeset_list g\<rparr>)) (\<lambda>_. connector_loop set_dev c res ks (Suc i)))))))"

definition prepare_with :: "setup_fun \<Rightarrow> card \<Rightarrow> int mm" where
  "prepare_with set_dev c =
     (case res_of c of
        Inl e \<Rightarrow> bindS (say ''cannot retrieve DRM resources (%d): %s\<newline>'' (errno_args c e)) (\<lambda>_. returnS (- e))
      | Inr res \<Rightarrow>
          bindS new_obj (\<lambda>_.
          bindS (connector_loop set_dev c res (connectors res) 0) (\<lambda>_.
          bindS free_obj (\<lambda>_. returnS 0))))"

definition modeset_prepare :: "card \<Rightarrow> int mm" where
  "modeset_prepare = prepare_with modeset_setup_dev"

subsection \<open>Drawing\<close>

text \<open>\<open>cur + (*up ? 1 : -1) * (rand() % mod)\<close> in unsigned arithmetic, stored in 8 bits.\<close>

definition next_color :: "card \<Rightarrow> bool \<Rightarrow> byte \<Rightarrow> u32 \<Rightarrow> (byte \<times> bool) mm" where
  "next_color c up cur md g =
     (let step = rand_of c (rands g) mod md;
          nxt = ucast (ucast cur + (if up then step else - step)) :: byte
      in Inr (if up \<and> nxt < cur \<or> \<not> up \<and> cur < nxt then (cur, \<not> up) else (nxt, up), g\<lparr>rands := rands g + 1\<rparr>))"

text \<open>\<open>*(uint32_t*)&iter->map[off] = v\<close>\<close>

definition put_pixel :: "u32 \<Rightarrow> u32 \<Rightarrow> u32 \<Rightarrow> unit mm" where
  "put_pixel bo off v g =
     (case maps g bo of
        None \<Rightarrow> Inl NullDeref
      | Some b \<Rightarrow>
          if length b < unat off + 4 then Inl BufferOverflow
          else Inr ((), g\<lparr>maps := (maps g)(bo := Some (take (unat off) b @ le_bytes 4 (unat v) @ drop (unat off + 4) b))\<rparr>))"

text \<open>The loops over columns and rows, with the number of rounds left.\<close>

primrec draw_row :: "modeset_dev \<Rightarrow> u32 \<Rightarrow> nat \<Rightarrow> nat \<Rightarrow> nat \<Rightarrow> unit mm" where
  "draw_row d v j k 0 = returnS ()"
| "draw_row d v j k (Suc n) =
     bindS (put_pixel (handle d) (stride d * word_of_nat j + word_of_nat k * 4) v) (\<lambda>_. draw_row d v j (Suc k) n)"

primrec draw_rows :: "modeset_dev \<Rightarrow> u32 \<Rightarrow> nat \<Rightarrow> nat \<Rightarrow> unit mm" where
  "draw_rows d v j 0 = returnS ()"
| "draw_rows d v j (Suc n) = bindS (draw_row d v j 0 (unat (width d))) (\<lambda>_. draw_rows d v (Suc j) n)"

primrec draw_devs :: "u32 \<Rightarrow> modeset_dev list \<Rightarrow> unit mm" where
  "draw_devs v [] = returnS ()"
| "draw_devs v (d # ds) = bindS (draw_rows d v 0 (unat (height d))) (\<lambda>_. draw_devs v ds)"

definition color_word :: "byte \<Rightarrow> byte \<Rightarrow> byte \<Rightarrow> u32" where
  "color_word r g b = push_bit 16 (ucast r) OR push_bit 8 (ucast g) OR ucast b"

primrec draw_rounds :: "card \<Rightarrow> nat \<Rightarrow> byte \<times> bool \<Rightarrow> byte \<times> bool \<Rightarrow> byte \<times> bool \<Rightarrow> unit mm" where
  "draw_rounds c 0 r g b = returnS ()"
| "draw_rounds c (Suc n) r g b =
     bindS (next_color c (snd r) (fst r) 20) (\<lambda>r.
     bindS (next_color c (snd g) (fst g) 10) (\<lambda>g.
     bindS (next_color c (snd b) (fst b) 5) (\<lambda>b.
     bindS (\<lambda>s. draw_devs (color_word (fst r) (fst g) (fst b)) (modeset_list s) s) (\<lambda>_. draw_rounds c n r g b))))"

definition rand_byte :: "card \<Rightarrow> byte mm" where
  "rand_byte c g = Inr (ucast (rand_of c (rands g) mod 255), g\<lparr>rands := rands g + 1\<rparr>)"

definition modeset_draw :: "card \<Rightarrow> unit mm" where
  "modeset_draw c =
     bindS (rand_byte c) (\<lambda>r. bindS (rand_byte c) (\<lambda>g. bindS (rand_byte c) (\<lambda>b.
     draw_rounds c 50 (r, True) (g, True) (b, True))))"

subsection \<open>Putting it back\<close>

text \<open>
  \<open>drmModeSetCrtc\<close> with the connectors that it is to drive: an error, or the configurations of all CRTCs, since a connector
  may be taken away from another one.
\<close>

definition set_crtc :: "card \<Rightarrow> crtc_info \<Rightarrow> u32 list \<Rightarrow> (int + unit) mm" where
  "set_crtc c ci ks g =
     (case set_of c g ci ks of
        Inl e \<Rightarrow> Inr (Inl e, g)
      | Inr conf \<Rightarrow> Inr (Inr (), g\<lparr>crtc_conf := conf\<rparr>))"

definition unmap :: "u32 \<Rightarrow> unit mm" where
  "unmap bo = upd (\<lambda>g. g\<lparr>maps := (maps g)(bo := None)\<rparr>)"

primrec cleanup_loop :: "card \<Rightarrow> modeset_dev list \<Rightarrow> unit mm" where
  "cleanup_loop c [] = returnS ()"
| "cleanup_loop c (d # ds) =
     bindS (upd (\<lambda>g. g\<lparr>modeset_list := ds\<rparr>)) (\<lambda>_.
     bindS (liftS (deref (saved_crtc d))) (\<lambda>old.
     bindS (set_crtc c old [conn d]) (\<lambda>_.
     bindS free_obj (\<lambda>_.
     bindS (unmap (handle d)) (\<lambda>_.
     bindS (rm_fb (fb d)) (\<lambda>_.
     bindS (destroy_dumb (handle d)) (\<lambda>_.
     bindS (upd (\<lambda>g. g\<lparr>devs := devs g - 1\<rparr>)) (\<lambda>_. cleanup_loop c ds))))))))"

definition modeset_cleanup :: "card \<Rightarrow> unit mm" where
  "modeset_cleanup c g = cleanup_loop c (modeset_list g) g"

subsection \<open>The program\<close>

text \<open>The loop that sets every CRTC; the devices with their saved configurations.\<close>

primrec set_loop :: "card \<Rightarrow> modeset_dev list \<Rightarrow> modeset_dev list mm" where
  "set_loop c [] = returnS []"
| "set_loop c (d # ds) =
     bindS (\<lambda>g. Inr (crtc_conf g (crtc d), g)) (\<lambda>old.
     bindS (if old = None then returnS () else new_obj) (\<lambda>_.
     bindS (set_crtc c \<lparr>cr_id = crtc d, buffer_id = fb d, cr_x = 0, cr_y = 0, cr_mode = dev_mode d\<rparr> [conn d]) (\<lambda>r.
     bindS (case r of
              Inl e \<Rightarrow> say ''cannot set CRTC for connector %u (%d): %s\<newline>'' ([AInt (conn d)] @ errno_args c e)
            | Inr _ \<Rightarrow> returnS ()) (\<lambda>_.
     bindS (set_loop c ds) (\<lambda>ds. returnS (d\<lparr>saved_crtc := old\<rparr> # ds))))))"

text \<open>The part of \<open>main\<close> between preparing and closing the card, with what is drawn.\<close>

definition session_with :: "(card \<Rightarrow> unit mm) \<Rightarrow> card \<Rightarrow> unit mm" where
  "session_with draw c =
     bindS (\<lambda>g. set_loop c (modeset_list g) g) (\<lambda>ds.
     bindS (upd (\<lambda>g. g\<lparr>modeset_list := ds\<rparr>)) (\<lambda>_.
     bindS (draw c) (\<lambda>_. modeset_cleanup c)))"

definition modeset_session :: "card \<Rightarrow> unit mm" where
  "modeset_session = session_with modeset_draw"

definition modeset_report :: "card \<Rightarrow> int \<Rightarrow> int mm" where
  "modeset_report c ret =
     bindS (if ret \<noteq> 0 then say ''modeset failed with error %d: %s\<newline>'' (errno_args c (- ret)) else say ''exiting\<newline>'' [])
       (\<lambda>_. returnS ret)"

text \<open>\<open>main\<close> from the message with the name of the card on.\<close>

definition main_with :: "setup_fun \<Rightarrow> (card \<Rightarrow> unit mm) \<Rightarrow> card \<Rightarrow> string \<Rightarrow> int mm" where
  "main_with set_dev draw c node =
     bindS (say (''using card '' @ QUOTE @ ''%s'' @ QUOTE @ ''\<newline>'') [AStr node]) (\<lambda>_.
     bindS (modeset_open c node) (\<lambda>ret.
     if ret \<noteq> 0 then modeset_report c ret
     else
       bindS (prepare_with set_dev c) (\<lambda>ret.
       bindS (if ret \<noteq> 0 then returnS () else session_with draw c) (\<lambda>_.
       bindS (upd (\<lambda>g. g\<lparr>fds := fds g - 1\<rparr>)) (\<lambda>_. modeset_report c ret)))))"

definition modeset_main :: "card \<Rightarrow> string list \<Rightarrow> int mm" where
  "modeset_main c argv = main_with modeset_setup_dev modeset_draw c (if 1 < length argv then argv ! 1 else ''/dev/dri/card0'')"

end
