(* ===== verification/ModesetSpec.thy ===== *)
theory ModesetSpec
  imports Modeset
begin

unbundle bit_operations_syntax

text \<open>
  What \<open>modeset.c\<close> does: which CRTC a connector gets, what a device owns, what is drawn
  and how the card is left.
\<close>

subsection \<open>Messages\<close>

text \<open>Two states that differ in nothing but the messages.\<close>

definition silent :: "gpu \<Rightarrow> gpu \<Rightarrow> bool" where
  "silent g g' = (\<exists>t. g' = g\<lparr>merr := t\<rparr>)"

lemma silent_refl: "silent g g"
proof -
  have "g = g\<lparr>merr := merr g\<rparr>" by simp
  then show ?thesis unfolding silent_def by blast
qed

lemma silent_trans: "silent g1 g2 \<Longrightarrow> silent g2 g3 \<Longrightarrow> silent g1 g3"
  by (auto simp: silent_def)

definition formats :: "string \<Rightarrow> carg list \<Rightarrow> bool" where
  "formats fmt args = (\<exists>t. vsprintf fmt args = Inr t)"

lemma say_silent: "formats fmt args \<Longrightarrow> \<exists>g'. say fmt args g = Inr ((), g') \<and> silent g g'"
  by (auto simp: formats_def say_def bindS_def upd_def silent_def returnS_def)

lemma modeset_formats:
  "formats ''cannot retrieve encoder %u:%u (%d): %s\<newline>'' ([AInt a, AInt b] @ errno_args c e)"
  "formats ''cannot find suitable CRTC for connector %u\<newline>'' [AInt a]"
  "formats ''cannot create dumb buffer (%d): %s\<newline>'' (errno_args c e)"
  "formats ''cannot create framebuffer (%d): %s\<newline>'' (errno_args c e)"
  "formats ''cannot map dumb buffer (%d): %s\<newline>'' (errno_args c e)"
  "formats ''cannot mmap dumb buffer (%d): %s\<newline>'' (errno_args c e)"
  "formats ''ignoring unused connector %u\<newline>'' [AInt a]"
  "formats ''no valid mode for connector %u\<newline>'' [AInt a]"
  "formats ''mode for connector %u is %ux%u\<newline>'' [AInt a, AInt x, AInt y]"
  "formats ''no valid crtc for connector %u\<newline>'' [AInt a]"
  "formats ''cannot create framebuffer for connector %u\<newline>'' [AInt a]"
  "formats ''cannot retrieve DRM connector %u:%u (%d): %s\<newline>'' ([AInt a, AInt b] @ errno_args c e)"
  "formats ''cannot setup device for connector %u:%u (%d): %s\<newline>'' ([AInt a, AInt b] @ errno_args c e)"
  "formats ''cannot retrieve DRM resources (%d): %s\<newline>'' (errno_args c e)"
  "formats ''cannot set CRTC for connector %u (%d): %s\<newline>'' ([AInt a] @ errno_args c e)"
  "formats ''modeset failed with error %d: %s\<newline>'' (errno_args c e)"
  "formats ''exiting\<newline>'' []"
  "formats (''using card '' @ QUOTE @ ''%s'' @ QUOTE @ ''\<newline>'') [AStr t]"
  "formats (''cannot open '' @ QUOTE @ ''%s'' @ QUOTE @ '': %s\<newline>'') [AStr t, AStr u]"
  "formats (''drm device '' @ QUOTE @ ''%s'' @ QUOTE @ '' does not support dumb buffers\<newline>'') [AStr t]"
  by (simp_all add: formats_def errno_args_def QUOTE_def fmt_eval)

text \<open>A message before the rest of a computation.\<close>

lemma say_bind: "formats fmt args \<Longrightarrow> \<exists>g'. silent g g' \<and> (\<forall>k. bindS (say fmt args) k g = k () g')"
  using say_silent [of fmt args g] by (auto simp: bindS_def)

lemma obj_simps [simp]: "g\<lparr>objs := objs g\<rparr> = g"
  by simp_all

subsection \<open>A CRTC for a connector\<close>

definition crtc_free :: "modeset_dev list \<Rightarrow> u32 \<Rightarrow> bool" where
  "crtc_free l x = (x \<notin> crtc ` set l)"

lemma claim_crtc_spec: "claim_crtc l (sint x) = (if crtc_free l x then sint x else - 1)"
  by (induction l) (auto simp: crtc_free_def)

lemma bit_mask: "((x :: u32) AND 2 ^ j = 0) = (\<not> bit x j)"
  by (simp add: bit_iff_and_push_bit_not_eq_0)

definition takes :: "encoder \<Rightarrow> modeset_dev list \<Rightarrow> u32 list \<Rightarrow> nat \<Rightarrow> nat \<Rightarrow> bool" where
  "takes enc l crs j i = (i < length crs \<and> bit (possible_crtcs enc) (j + i) \<and> crtc_free l (crs ! i) \<and> 0 \<le> sint (crs ! i))"

lemma takes_Suc: "takes enc l (cr # crs) j (Suc i) = takes enc l crs (Suc j) i"
  by (simp add: takes_def)

lemma crtc_loop_spec:
  "j + length crs \<le> 32 \<Longrightarrow> \<exists>r. crtc_loop enc l crs j = Inr r \<and>
     (case r of None \<Rightarrow> \<forall>i. \<not> takes enc l crs j i
      | Some k \<Rightarrow> \<exists>i. takes enc l crs j i \<and> k = sint (crs ! i) \<and> (\<forall>i' < i. \<not> takes enc l crs j i'))"
proof (induction crs arbitrary: j)
  case Nil
  then show ?case by (simp add: takes_def)
next
  case (Cons cr crs)
  have j: "j < 32" "Suc j + length crs \<le> 32" using Cons.prems by simp_all
  show ?case
  proof (cases "takes enc l (cr # crs) j 0")
    case True
    then show ?thesis using j(1)
      by (intro exI [of _ "Some (sint cr)"]) (auto simp: takes_def bit_mask claim_crtc_spec Let_def intro!: exI [of _ 0])
  next
    case False
    then have e: "crtc_loop enc l (cr # crs) j = crtc_loop enc l crs (Suc j)"
      using j(1) by (auto simp: takes_def bit_mask claim_crtc_spec Let_def)
    obtain r where r: "crtc_loop enc l crs (Suc j) = Inr r" "case r of None \<Rightarrow> \<forall>i. \<not> takes enc l crs (Suc j) i
      | Some k \<Rightarrow> \<exists>i. takes enc l crs (Suc j) i \<and> k = sint (crs ! i) \<and> (\<forall>i' < i. \<not> takes enc l crs (Suc j) i')"
      using Cons.IH [OF j(2)] by blast
    show ?thesis
    proof (cases r)
      case None
      then have "\<not> takes enc l (cr # crs) j i" for i using False r(2) by (cases i) (simp_all add: takes_Suc)
      then show ?thesis using e r(1) None by simp
    next
      case (Some k)
      then obtain i where i: "takes enc l crs (Suc j) i" "k = sint (crs ! i)" "\<forall>i' < i. \<not> takes enc l crs (Suc j) i'"
        using r(2) by auto
      have "\<not> takes enc l (cr # crs) j i'" if "i' < Suc i" for i'
        using that False i(3) by (cases i') (simp_all add: takes_Suc)
      then show ?thesis using e r(1) Some i(1,2)
        by (auto simp: takes_Suc intro!: exI [of _ "Suc i"])
    qed
  qed
qed

lemma silent_list: "silent g g' \<Longrightarrow> modeset_list g' = modeset_list g"
  by (auto simp: silent_def)

text \<open>An object of libdrm that is freed again.\<close>

lemma borrowed:
  assumes "m (g\<lparr>objs := Suc (objs g)\<rparr>) = Inr (r, g\<lparr>objs := Suc (objs g)\<rparr>)"
  shows "bindS new_obj (\<lambda>_. bindS m (\<lambda>r. bindS free_obj (\<lambda>_. k r))) g = k r g"
  using assms by (simp add: bindS_def upd_def)

definition offers :: "card \<Rightarrow> resources \<Rightarrow> modeset_dev list \<Rightarrow> u32 \<Rightarrow> nat \<Rightarrow> bool" where
  "offers c res l e i = (case enc_of c e of Inl _ \<Rightarrow> False | Inr enc \<Rightarrow> takes enc l (crtcs res) 0 i)"

lemma encoder_loop_spec:
  "length (crtcs res) \<le> 32 \<Longrightarrow> \<exists>r g'. encoder_loop c res es i g = Inr (r, g') \<and> silent g g' \<and>
     (case r of None \<Rightarrow> \<forall>e \<in> set es. \<forall>i. \<not> offers c res (modeset_list g) e i
      | Some k \<Rightarrow> \<exists>e \<in> set es. \<exists>i. offers c res (modeset_list g) e i \<and> k = sint (crtcs res ! i))"
proof (induction es arbitrary: i g)
  case Nil
  then show ?case by (simp add: returnS_def silent_refl)
next
  case (Cons e es)
  show ?case
  proof (cases "enc_of c e")
    case (Inl err)
    obtain g1 where g1: "silent g g1" "encoder_loop c res (e # es) i g = encoder_loop c res es (Suc i) g1"
      using say_bind [OF modeset_formats(1)] unfolding encoder_loop.simps Inl sum.case by blast
    obtain r g' where "encoder_loop c res es (Suc i) g1 = Inr (r, g')" "silent g1 g'"
      "case r of None \<Rightarrow> \<forall>e \<in> set es. \<forall>i. \<not> offers c res (modeset_list g1) e i
      | Some k \<Rightarrow> \<exists>e \<in> set es. \<exists>i. offers c res (modeset_list g1) e i \<and> k = sint (crtcs res ! i)"
      using Cons.IH [OF Cons.prems] by blast
    then show ?thesis using g1 Inl silent_trans [OF g1(1)] silent_list [OF g1(1)]
      by (intro exI [of _ r] exI [of _ g']) (auto simp: offers_def split: option.splits)
  next
    case (Inr enc)
    obtain r where r: "crtc_loop enc (modeset_list g) (crtcs res) 0 = Inr r"
      "case r of None \<Rightarrow> \<forall>i. \<not> takes enc (modeset_list g) (crtcs res) 0 i
      | Some k \<Rightarrow> \<exists>i. takes enc (modeset_list g) (crtcs res) 0 i \<and> k = sint (crtcs res ! i) \<and>
          (\<forall>i' < i. \<not> takes enc (modeset_list g) (crtcs res) 0 i')"
      using crtc_loop_spec [of 0 "crtcs res" enc "modeset_list g"] Cons.prems by auto
    have e: "encoder_loop c res (e # es) i g = (case r of Some k \<Rightarrow> returnS (Some k) | None \<Rightarrow> encoder_loop c res es (Suc i)) g"
      by (simp only: encoder_loop.simps Inr sum.case, rule borrowed) (simp add: r(1) returnS_def)
    show ?thesis
    proof (cases r)
      case None
      then have o: "\<forall>i. \<not> offers c res (modeset_list g) e i" using r(2) Inr by (simp add: offers_def)
      obtain r' g' where "encoder_loop c res es (Suc i) g = Inr (r', g')" "silent g g'"
        "case r' of None \<Rightarrow> \<forall>e \<in> set es. \<forall>i. \<not> offers c res (modeset_list g) e i
        | Some k \<Rightarrow> \<exists>e \<in> set es. \<exists>i. offers c res (modeset_list g) e i \<and> k = sint (crtcs res ! i)"
        using Cons.IH [OF Cons.prems] by blast
      then show ?thesis using e None o
        by (intro exI [of _ r'] exI [of _ g']) (auto split: option.splits)
    next
      case (Some k)
      then obtain i where "offers c res (modeset_list g) e i" "k = sint (crtcs res ! i)" using r(2) Inr by (auto simp: offers_def)
      then show ?thesis using e Some silent_refl
        by (intro exI [of _ "Some k"] exI [of _ g]) (auto simp: returnS_def)
    qed
  qed
qed

definition bound_crtc :: "card \<Rightarrow> connector \<Rightarrow> u32 option" where
  "bound_crtc c co =
     (if encoder_id co = 0 then None
      else case enc_of c (encoder_id co) of Inl _ \<Rightarrow> None | Inr enc \<Rightarrow> if crtc_id enc = 0 then None else Some (crtc_id enc))"

lemma current_crtc_spec:
  "current_crtc c co g = Inr (case bound_crtc c co of None \<Rightarrow> None
     | Some x \<Rightarrow> if crtc_free (modeset_list g) x \<and> 0 \<le> sint x then Some (sint x) else None, g)"
proof (cases "encoder_id co = 0 \<or> (\<exists>e. enc_of c (encoder_id co) = Inl e)")
  case True
  then show ?thesis by (auto simp: current_crtc_def bound_crtc_def returnS_def)
next
  case False
  then obtain enc where e: "encoder_id co \<noteq> 0" "enc_of c (encoder_id co) = Inr enc" by (cases "enc_of c (encoder_id co)") auto
  have "current_crtc c co g = (\<lambda>k. returnS (if crtc_id enc \<noteq> 0 \<and> 0 \<le> k then Some k else None))
      (if crtc_id enc \<noteq> 0 then claim_crtc (modeset_list g) (sint (crtc_id enc)) else - 1) g"
    unfolding current_crtc_def using e by (simp only: if_False sum.case, intro borrowed) simp
  then show ?thesis using e by (simp add: bound_crtc_def claim_crtc_spec returnS_def)
qed

text \<open>What the search promises: a CRTC that works with the connector and that no device has.\<close>

definition usable :: "card \<Rightarrow> resources \<Rightarrow> connector \<Rightarrow> u32 \<Rightarrow> bool" where
  "usable c res co x =
     (bound_crtc c co = Some x \<or>
      (\<exists>e \<in> set (encoders co). \<exists>enc i. enc_of c e = Inr enc \<and> i < length (crtcs res) \<and> bit (possible_crtcs enc) i \<and> crtcs res ! i = x))"

lemma find_crtc_exact:
  assumes "length (crtcs res) \<le> 32"
  shows "\<exists>ret d' g'. modeset_find_crtc c res co d g = Inr ((ret, d'), g') \<and> silent g g' \<and>
    (if ret = 0 then \<exists>x. d' = d\<lparr>crtc := x\<rparr> \<and> usable c res co x \<and> crtc_free (modeset_list g) x \<and> 0 \<le> sint x \<and>
         (\<forall>y. bound_crtc c co = Some y \<and> crtc_free (modeset_list g) y \<and> 0 \<le> sint y \<longrightarrow> y = x)
     else ret = - ENOENT \<and> d' = d \<and> (\<forall>x. usable c res co x \<and> 0 \<le> sint x \<longrightarrow> \<not> crtc_free (modeset_list g) x))"
proof -
  have w: "word_of_int (sint x) = x" for x :: u32 by simp
  show ?thesis
  proof (cases "\<exists>x. bound_crtc c co = Some x \<and> crtc_free (modeset_list g) x \<and> 0 \<le> sint x")
    case True
    then show ?thesis
      by (auto simp: modeset_find_crtc_def bindS_def current_crtc_spec returnS_def w usable_def silent_refl
          intro!: exI [of _ "(0 :: int)"])
  next
    case False
    then have "current_crtc c co g = Inr (None, g)" by (auto simp: current_crtc_spec split: option.splits)
    then have m: "modeset_find_crtc c res co d g = bindS (encoder_loop c res (encoders co) 0) (\<lambda>r.
         case r of
           Some k \<Rightarrow> returnS (0, d\<lparr>crtc := word_of_int k\<rparr>)
         | None \<Rightarrow>
             bindS (say ''cannot find suitable CRTC for connector %u\<newline>'' [AInt (connector_id co)]) (\<lambda>_. returnS (- ENOENT, d))) g"
      by (simp add: modeset_find_crtc_def bindS_def)
    obtain r g1 where r: "encoder_loop c res (encoders co) 0 g = Inr (r, g1)" "silent g g1"
      "case r of None \<Rightarrow> \<forall>e \<in> set (encoders co). \<forall>i. \<not> offers c res (modeset_list g) e i
      | Some k \<Rightarrow> \<exists>e \<in> set (encoders co). \<exists>i. offers c res (modeset_list g) e i \<and> k = sint (crtcs res ! i)"
      using encoder_loop_spec [OF assms] by blast
    show ?thesis
    proof (cases r)
      case (Some k)
      then obtain e i where "e \<in> set (encoders co)" "offers c res (modeset_list g) e i" "k = sint (crtcs res ! i)" using r(3) by auto
      then have "usable c res co (crtcs res ! i)" "crtc_free (modeset_list g) (crtcs res ! i)" "word_of_int k = crtcs res ! i"
        "0 \<le> sint (crtcs res ! i)"
        by (auto simp: offers_def takes_def usable_def w split: sum.splits)
      moreover have "modeset_find_crtc c res co d g = Inr ((0, d\<lparr>crtc := word_of_int k\<rparr>), g1)"
        using m r(1) Some by (simp add: bindS_def returnS_def)
      ultimately show ?thesis using r(2) False
        by (intro exI [of _ 0] exI [of _ "d\<lparr>crtc := word_of_int k\<rparr>"] exI [of _ g1]) auto
    next
      case None
      obtain g2 where "silent g1 g2" "modeset_find_crtc c res co d g = Inr ((- ENOENT, d), g2)"
        using say_silent [OF modeset_formats(2), of "connector_id co" g1] m r(1) None by (auto simp: bindS_Inr returnS_apply)
      moreover have "\<not> crtc_free (modeset_list g) x" if "usable c res co x" "0 \<le> sint x" for x
        using that None r(3) False by (fastforce simp: usable_def offers_def takes_def)
      ultimately show ?thesis using silent_trans [OF r(2)] by (auto simp: ENOENT_def)
    qed
  qed
qed

lemma find_crtc_spec:
  assumes "length (crtcs res) \<le> 32"
  shows "\<exists>ret d' g'. modeset_find_crtc c res co d g = Inr ((ret, d'), g') \<and> silent g g' \<and>
    (if ret = 0 then \<exists>x. d' = d\<lparr>crtc := x\<rparr> \<and> usable c res co x \<and> crtc_free (modeset_list g) x
     else ret = - ENOENT \<and> (\<forall>x. usable c res co x \<and> 0 \<le> sint x \<longrightarrow> \<not> crtc_free (modeset_list g) x))"
proof -
  obtain ret d' g' where "modeset_find_crtc c res co d g = Inr ((ret, d'), g')" "silent g g'"
    "if ret = 0 then \<exists>x. d' = d\<lparr>crtc := x\<rparr> \<and> usable c res co x \<and> crtc_free (modeset_list g) x \<and> 0 \<le> sint x \<and>
         (\<forall>y. bound_crtc c co = Some y \<and> crtc_free (modeset_list g) y \<and> 0 \<le> sint y \<longrightarrow> y = x)
     else ret = - ENOENT \<and> d' = d \<and> (\<forall>x. usable c res co x \<and> 0 \<le> sint x \<longrightarrow> \<not> crtc_free (modeset_list g) x)"
    using find_crtc_exact [OF assms] by blast
  then show ?thesis by (cases "ret = 0") auto
qed

subsection \<open>A framebuffer\<close>

text \<open>
  What is documented of the kernel: error numbers are positive, a new buffer has a handle
  that is not in use, a new framebuffer an identifier that is not in use; the rows
  of a buffer hold its pixels of four bytes, and its size, below 4 GB, its rows.
\<close>

definition card_ok :: "card \<Rightarrow> bool" where
  "card_ok c =
     ((\<forall>g w h e. dumb_of c g w h = Inl e \<longrightarrow> 0 < e) \<and> (\<forall>g bo e. fb_of c g bo = Inl e \<longrightarrow> 0 < e) \<and>
      (\<forall>g bo e. offset_of c g bo = Inl e \<longrightarrow> 0 < e) \<and> (\<forall>g bo e. mmap_of c g bo = Inl e \<longrightarrow> 0 < e) \<and>
      (\<forall>g w h bo p sz. dumb_of c g w h = Inr (bo, p, sz) \<longrightarrow> bo \<notin> handles g \<and> 4 * unat w \<le> unat p \<and>
         unat p * unat h \<le> unat sz \<and> unat sz < 4294967296) \<and>
      (\<forall>g bo f. fb_of c g bo = Inr f \<longrightarrow> fbs g f = None))"

lemma card_okD:
  assumes "card_ok c"
  shows "dumb_of c g w h = Inl e \<Longrightarrow> 0 < e" "fb_of c g bo = Inl e \<Longrightarrow> 0 < e"
    "offset_of c g bo = Inl e \<Longrightarrow> 0 < e" "mmap_of c g bo = Inl e \<Longrightarrow> 0 < e"
    "dumb_of c g w h = Inr (bo, p, sz) \<Longrightarrow> bo \<notin> handles g" "fb_of c g bo = Inr f \<Longrightarrow> fbs g f = None"
    "dumb_of c g w h = Inr (bo, p, sz) \<Longrightarrow> 4 * unat w \<le> unat p \<and> unat p * unat h \<le> unat sz \<and> unat sz < 4294967296"
  using assms by (simp_all add: card_ok_def)

definition fits :: "modeset_dev \<Rightarrow> bool" where
  "fits d = (4 * unat (width d) \<le> unat (stride d) \<and> unat (stride d) * unat (height d) \<le> unat (dev_size d))"

definition gets_buffer :: "modeset_dev \<Rightarrow> gpu \<Rightarrow> gpu \<Rightarrow> bool" where
  "gets_buffer d g g' =
     (handle d \<notin> handles g \<and> fbs g (fb d) = None \<and>
      (\<exists>t. g' = g\<lparr>handles := insert (handle d) (handles g), fbs := (fbs g)(fb d := Some (handle d)),
         maps := (maps g)(handle d := Some (replicate (unat (dev_size d)) 0)), merr := t\<rparr>))"

definition same_screen :: "modeset_dev \<Rightarrow> modeset_dev \<Rightarrow> bool" where
  "same_screen d d' = (width d' = width d \<and> height d' = height d \<and> dev_mode d' = dev_mode d \<and> conn d' = conn d \<and> crtc d' = crtc d)"

lemma say_text: "formats fmt args \<Longrightarrow> \<exists>t. say fmt args g = Inr ((), g\<lparr>merr := t\<rparr>)"
  using say_silent [of fmt args g] by (auto simp: silent_def)

definition fb_result :: "gpu \<Rightarrow> modeset_dev \<Rightarrow> (fault + (int \<times> modeset_dev) \<times> gpu) \<Rightarrow> bool" where
  "fb_result g d r =
     (\<exists>ret d' g'. r = Inr ((ret, d'), g') \<and>
        (if ret = 0 then gets_buffer d' g g' \<and> fits d' \<and> same_screen d d' else silent g g'))"

lemma fb_failed: "0 < e \<Longrightarrow> fb_result g d (Inr ((- e, d'), g\<lparr>merr := t\<rparr>))"
  by (auto simp: fb_result_def silent_def)

lemma fb_result_screen: "fb_result g d r \<Longrightarrow> same_screen d0 d \<Longrightarrow> fb_result g d0 r"
proof -
  assume a: "fb_result g d r" "same_screen d0 d"
  then obtain ret d' g' where "r = Inr ((ret, d'), g')"
    "if ret = 0 then gets_buffer d' g g' \<and> fits d' \<and> same_screen d d' else silent g g'"
    unfolding fb_result_def by blast
  with a(2) show ?thesis unfolding fb_result_def
    by (intro exI [of _ ret] exI [of _ d'] exI [of _ g']) (cases "ret = 0"; simp add: same_screen_def)
qed

lemma same_screen_dumb: "same_screen d (d\<lparr>stride := p, dev_size := z, handle := bo\<rparr>)"
  by (simp add: same_screen_def)

lemma map_fb_spec:
  assumes "card_ok c" and "handle d \<notin> handles g" and "fbs g (fb d) = None" and "fits d"
  shows "fb_result g d (map_fb c d (g\<lparr>handles := insert (handle d) (handles g), fbs := (fbs g)(fb d := Some (handle d))\<rparr>))"
    (is "fb_result g d (map_fb c d ?g)")
proof -
  have nofb: "(fbs g)(fb d := None) = fbs g" using assms(3) by auto
  have undo: "bindS (rm_fb (fb d)) (\<lambda>_. bindS (destroy_dumb (handle d)) (\<lambda>_. returnS (- e, d))) (?g\<lparr>merr := t\<rparr>) =
      Inr ((- e, d), g\<lparr>merr := t\<rparr>)" for e t
    using assms(2) nofb by (simp add: bindS_def returnS_def destroy_dumb_def rm_fb_def upd_def)
  show ?thesis
  proof (cases "offset_of c ?g (handle d)")
    case (Inl e)
    obtain t where "say ''cannot map dumb buffer (%d): %s\<newline>'' (errno_args c e) ?g = Inr ((), ?g\<lparr>merr := t\<rparr>)"
      using say_text [OF modeset_formats(5)] by blast
    with Inl have "map_fb c d ?g = Inr ((- e, d), g\<lparr>merr := t\<rparr>)"
      by (simp only: map_fb_def bindS_def [of "\<lambda>g. Inr (offset_of c g (handle d), g)"] bindE_simps prod.case sum.case bindS_Inr undo)
    then show ?thesis using card_okD(3) [OF assms(1) Inl] by (simp only: fb_failed)
  next
    case off: (Inr o)
    have m: "map_fb c d ?g = bindS (map_dumb c (handle d) (dev_size d)) (\<lambda>r. case r of
           Inl e \<Rightarrow>
             bindS (say ''cannot mmap dumb buffer (%d): %s\<newline>'' (errno_args c e)) (\<lambda>_.
             bindS (rm_fb (fb d)) (\<lambda>_. bindS (destroy_dumb (handle d)) (\<lambda>_. returnS (- e, d))))
         | Inr _ \<Rightarrow> returnS (0, d)) ?g"
      by (simp only: map_fb_def bindS_def [of "\<lambda>g. Inr (offset_of c g (handle d), g)"] bindE_simps prod.case off sum.case)
    show ?thesis
    proof (cases "mmap_of c ?g (handle d)")
      case (Inl e)
      obtain t where "say ''cannot mmap dumb buffer (%d): %s\<newline>'' (errno_args c e) ?g = Inr ((), ?g\<lparr>merr := t\<rparr>)"
        using say_text [OF modeset_formats(6)] by blast
      with Inl have "map_fb c d ?g = Inr ((- e, d), g\<lparr>merr := t\<rparr>)"
        by (simp only: m bindS_def [of "map_dumb c (handle d) (dev_size d)"] map_dumb_def sum.case bindE_simps prod.case bindS_Inr undo)
      then show ?thesis using card_okD(4) [OF assms(1) Inl] by (simp only: fb_failed)
    next
      case (Inr u)
      let ?g' = "?g\<lparr>maps := (maps g)(handle d := Some (replicate (unat (dev_size d)) 0))\<rparr>"
      have "map_fb c d ?g = Inr ((0, d), ?g')"
        using Inr by (simp add: m map_dumb_def bindS_def returnS_def)
      moreover have "gets_buffer d g ?g'"
        using assms(2,3) by (auto simp: gets_buffer_def intro: exI [of _ "merr g"])
      ultimately show ?thesis using assms(4) by (simp add: fb_result_def same_screen_def)
    qed
  qed
qed

lemma fb_on_dumb_spec:
  assumes "card_ok c" and "handle d \<notin> handles g" and "fits d"
  shows "fb_result g d (fb_on_dumb c d (g\<lparr>handles := insert (handle d) (handles g)\<rparr>))" (is "fb_result g d (fb_on_dumb c d ?g)")
proof (cases "fb_of c ?g (handle d)")
  case (Inl e)
  obtain t where "say ''cannot create framebuffer (%d): %s\<newline>'' (errno_args c e) ?g = Inr ((), ?g\<lparr>merr := t\<rparr>)"
    using say_text [OF modeset_formats(4)] by blast
  with Inl assms(2) have "fb_on_dumb c d ?g = Inr ((- e, d), g\<lparr>merr := t\<rparr>)"
    by (simp add: fb_on_dumb_def add_fb_def bindS_def returnS_def destroy_dumb_def upd_def)
  then show ?thesis using card_okD(2) [OF assms(1) Inl] by (simp only: fb_failed)
next
  case (Inr f)
  then have free: "fbs g f = None" using card_okD(6) [OF assms(1) Inr] by simp
  have e: "fb_on_dumb c d ?g = map_fb c (d\<lparr>fb := f\<rparr>) (?g\<lparr>fbs := (fbs g)(f := Some (handle d))\<rparr>)"
    using Inr by (simp add: fb_on_dumb_def add_fb_def bindS_def)
  have "fb_result g (d\<lparr>fb := f\<rparr>) (map_fb c (d\<lparr>fb := f\<rparr>) (?g\<lparr>fbs := (fbs g)(f := Some (handle d))\<rparr>))"
    using map_fb_spec [OF assms(1), of "d\<lparr>fb := f\<rparr>" g] assms(2,3) free by (simp add: fits_def)
  then show ?thesis unfolding e by (rule fb_result_screen) (simp add: same_screen_def)
qed

lemma create_fb_spec:
  assumes "card_ok c"
  shows "fb_result g d (modeset_create_fb c d g)"
proof (cases "dumb_of c g (width d) (height d)")
  case (Inl e)
  obtain t where "say ''cannot create dumb buffer (%d): %s\<newline>'' (errno_args c e) g = Inr ((), g\<lparr>merr := t\<rparr>)"
    using say_text [OF modeset_formats(3)] by blast
  with Inl have "modeset_create_fb c d g = Inr ((- e, d), g\<lparr>merr := t\<rparr>)"
    by (simp add: modeset_create_fb_def create_dumb_def bindS_def returnS_def)
  then show ?thesis using card_okD(1) [OF assms Inl] by (simp only: fb_failed)
next
  case (Inr x)
  obtain bo pitch sz where x: "dumb_of c g (width d) (height d) = Inr (bo, pitch, sz)" using Inr by (cases x) auto
  let ?d = "d\<lparr>stride := pitch, dev_size := ucast sz, handle := bo\<rparr>"
  have "unat (ucast sz :: u32) = unat sz"
    using card_okD(7) [OF assms x] by (simp add: unsigned_ucast_eq take_bit_nat_eq_self)
  then have "fits ?d" using card_okD(7) [OF assms x] by (simp add: fits_def)
  then have "fb_result g ?d (fb_on_dumb c ?d (g\<lparr>handles := insert bo (handles g)\<rparr>))"
    using fb_on_dumb_spec [OF assms, of ?d g] card_okD(5) [OF assms x] by simp
  moreover have e: "modeset_create_fb c d g = fb_on_dumb c ?d (g\<lparr>handles := insert bo (handles g)\<rparr>)"
    using x by (simp add: modeset_create_fb_def create_dumb_def bindS_def)
  ultimately show ?thesis unfolding e by (blast intro: fb_result_screen [where d = ?d] same_screen_dumb)
qed

subsection \<open>All connectors\<close>

lemma gets_buffer_silent: "silent g g1 \<Longrightarrow> gets_buffer d g1 g' \<Longrightarrow> gets_buffer d g g'"
  by (auto simp: silent_def gets_buffer_def)

text \<open>What is known of a device that has been set up for a connector.\<close>

definition set_up :: "card \<Rightarrow> resources \<Rightarrow> connector \<Rightarrow> modeset_dev \<Rightarrow> bool" where
  "set_up c res co d =
     (connected co \<and> usable c res co (crtc d) \<and> fits d \<and>
      (\<exists>m ms. modes co = m # ms \<and> dev_mode d = m \<and> width d = ucast (hdisplay m) \<and> height d = ucast (vdisplay m)))"

definition setup_result :: "card \<Rightarrow> resources \<Rightarrow> connector \<Rightarrow> modeset_dev \<Rightarrow> gpu \<Rightarrow> (fault + (int \<times> modeset_dev) \<times> gpu) \<Rightarrow> bool" where
  "setup_result c res co d g r =
     (\<exists>ret d' g'. r = Inr ((ret, d'), g') \<and>
        (if ret = 0 then set_up c res co d' \<and> conn d' = conn d \<and> crtc_free (modeset_list g) (crtc d') \<and> gets_buffer d' g g'
         else silent g g'))"

lemma setup_failed: "silent g g' \<Longrightarrow> ret \<noteq> 0 \<Longrightarrow> setup_result c res co d g (Inr ((ret, d'), g'))"
  by (simp add: setup_result_def)

lemma setup_dev_spec:
  assumes "card_ok c" and "length (crtcs res) \<le> 32"
  shows "setup_result c res co d g (modeset_setup_dev c res co d g)"
proof (cases "connected co \<and> modes co \<noteq> []")
  case False
  obtain g1 g2 where "say ''ignoring unused connector %u\<newline>'' [AInt (connector_id co)] g = Inr ((), g1)" "silent g g1"
    "say ''no valid mode for connector %u\<newline>'' [AInt (connector_id co)] g = Inr ((), g2)" "silent g g2"
    using say_silent [OF modeset_formats(7)] say_silent [OF modeset_formats(8)] by metis
  then show ?thesis using False setup_failed [of g g1 "- ENOENT" c res co d d] setup_failed [of g g2 "- EFAULT" c res co d d]
    by (cases "connected co") (simp_all add: modeset_setup_dev_def setup_mode_def bindS_def returnS_def ENOENT_def EFAULT_def)
next
  case True
  then obtain m ms where m: "connected co" "modes co = m # ms" by (cases "modes co") auto
  define d1 where "d1 = d\<lparr>dev_mode := m, width := ucast (hdisplay m), height := ucast (vdisplay m)\<rparr>"
  obtain g1 where g1: "say ''mode for connector %u is %ux%u\<newline>'' [AInt (connector_id co), AInt (width d1), AInt (height d1)] g = Inr ((), g1)"
    "silent g g1" using say_silent [OF modeset_formats(9)] by blast
  obtain ret d2 g2 where f: "modeset_find_crtc c res co d1 g1 = Inr ((ret, d2), g2)" "silent g1 g2"
    "if ret = 0 then \<exists>x. d2 = d1\<lparr>crtc := x\<rparr> \<and> usable c res co x \<and> crtc_free (modeset_list g1) x
     else ret = - ENOENT \<and> (\<forall>x. usable c res co x \<and> 0 \<le> sint x \<longrightarrow> \<not> crtc_free (modeset_list g1) x)"
    using find_crtc_spec [OF assms(2)] by blast
  have s2: "silent g g2" using silent_trans [OF g1(2) f(2)] .
  show ?thesis
  proof (cases "ret = 0")
    case False
    obtain g3 where "say ''no valid crtc for connector %u\<newline>'' [AInt (connector_id co)] g2 = Inr ((), g3)" "silent g2 g3"
      using say_silent [OF modeset_formats(10)] by blast
    then show ?thesis using m g1(1) f(1) False setup_failed [OF silent_trans [OF s2] False]
      by (simp add: modeset_setup_dev_def setup_mode_def bindS_def returnS_def d1_def [symmetric])
  next
    case True
    then obtain x where x: "d2 = d1\<lparr>crtc := x\<rparr>" "usable c res co x" "crtc_free (modeset_list g) x"
      using f(3) silent_list [OF g1(2)] by auto
    obtain ret' d3 g3 where b: "modeset_create_fb c d2 g2 = Inr ((ret', d3), g3)"
      "if ret' = 0 then gets_buffer d3 g2 g3 \<and> fits d3 \<and> same_screen d2 d3 else silent g2 g3"
      using create_fb_spec [OF assms(1), of g2 d2] by (auto simp: fb_result_def)
    show ?thesis
    proof (cases "ret' = 0")
      case False
      then have s3: "silent g g3" using b(2) silent_trans [OF s2] by simp
      obtain g4 where "say ''cannot create framebuffer for connector %u\<newline>'' [AInt (connector_id co)] g3 = Inr ((), g4)" "silent g3 g4"
        using say_silent [OF modeset_formats(11)] by blast
      then show ?thesis using m g1(1) f(1) b(1) \<open>ret = 0\<close> False setup_failed [OF silent_trans [OF s3] False]
        by (simp add: modeset_setup_dev_def setup_mode_def bindS_def returnS_def d1_def [symmetric])
    next
      case True
      have "modeset_setup_dev c res co d g = Inr ((0, d3), g3)"
        using m g1(1) f(1) b(1) \<open>ret = 0\<close> True by (simp add: modeset_setup_dev_def setup_mode_def bindS_def returnS_def d1_def [symmetric])
      moreover have "set_up c res co d3" "conn d3 = conn d" "crtc d3 = x"
        using b(2) True x m by (simp_all add: set_up_def same_screen_def d1_def)
      moreover have "gets_buffer d3 g g3" using gets_buffer_silent [OF s2] b(2) True by simp
      ultimately show ?thesis using x(3) by (simp add: setup_result_def)
    qed
  qed
qed

text \<open>
  What the list of devices guarantees: no CRTC, buffer or framebuffer twice, every device set
  up for a connector of the card, and what is allocated is what the devices hold.
\<close>

definition devs_ok :: "card \<Rightarrow> resources \<Rightarrow> gpu \<Rightarrow> bool" where
  "devs_ok c res g =
     (let l = modeset_list g in
      distinct (map crtc l) \<and> distinct (map handle l) \<and> distinct (map fb l) \<and>
      handles g = handle ` set l \<and> dom (maps g) = handle ` set l \<and> dom (fbs g) = fb ` set l \<and> devs g = length l \<and>
      (\<forall>d \<in> set l. (\<exists>k \<in> set (connectors res). \<exists>co. conn_of c k = Inr co \<and> conn d = connector_id co \<and> set_up c res co d) \<and>
         fbs g (fb d) = Some (handle d) \<and> (\<exists>b. maps g (handle d) = Some b \<and> length b = unat (dev_size d))))"

definition same_rest :: "gpu \<Rightarrow> gpu \<Rightarrow> bool" where
  "same_rest g g' = (objs g' = objs g \<and> fds g' = fds g \<and> crtc_conf g' = crtc_conf g)"

lemma devs_ok_silent: "silent g g' \<Longrightarrow> devs_ok c res g \<Longrightarrow> devs_ok c res g' \<and> same_rest g g'"
  by (auto simp: silent_def devs_ok_def same_rest_def)

lemma devs_ok_new:
  assumes "devs_ok c res g" and "gets_buffer d g g'" and "crtc_free (modeset_list g) (crtc d)"
    and "k \<in> set (connectors res)" and "conn_of c k = Inr co" and "conn d = connector_id co" and "set_up c res co d"
  shows "devs_ok c res (g'\<lparr>devs := Suc (devs g), modeset_list := d # modeset_list g\<rparr>) \<and> same_rest g g'"
proof -
  let ?l = "modeset_list g"
  obtain t where g': "g' = g\<lparr>handles := insert (handle d) (handles g), fbs := (fbs g)(fb d := Some (handle d)),
         maps := (maps g)(handle d := Some (replicate (unat (dev_size d)) 0)), merr := t\<rparr>"
    and new: "handle d \<notin> handles g" "fbs g (fb d) = None" using assms(2) by (auto simp: gets_buffer_def)
  have l: "distinct (map crtc ?l)" "distinct (map handle ?l)" "distinct (map fb ?l)" "handles g = handle ` set ?l"
    "dom (maps g) = handle ` set ?l" "dom (fbs g) = fb ` set ?l" "devs g = length ?l"
    using assms(1) by (simp_all add: devs_ok_def Let_def)
  have d: "handle d \<notin> handle ` set ?l" "fb d \<notin> fb ` set ?l" "crtc d \<notin> crtc ` set ?l"
    using new(1) l(4) domIff [of "fb d" "fbs g"] new(2) l(6) assms(3) by (simp_all add: crtc_free_def)
  have e: "(\<exists>k \<in> set (connectors res). \<exists>co. conn_of c k = Inr co \<and> conn x = connector_id co \<and> set_up c res co x) \<and>
      fbs g' (fb x) = Some (handle x) \<and> (\<exists>b. maps g' (handle x) = Some b \<and> length b = unat (dev_size x))"
    if "x \<in> set (d # ?l)" for x
  proof (cases "x = d")
    case True
    then show ?thesis using assms(4-7) by (auto simp: g')
  next
    case False
    then have "x \<in> set ?l" using that by simp
    then have "handle x \<noteq> handle d" "fb x \<noteq> fb d"
      using d(1,2) by (metis image_eqI)+
    moreover have "(\<exists>k \<in> set (connectors res). \<exists>co. conn_of c k = Inr co \<and> conn x = connector_id co \<and> set_up c res co x) \<and>
      fbs g (fb x) = Some (handle x) \<and> (\<exists>b. maps g (handle x) = Some b \<and> length b = unat (dev_size x))"
      using \<open>x \<in> set ?l\<close> assms(1) by (simp add: devs_ok_def Let_def)
    ultimately show ?thesis by (simp add: g')
  qed
  have dom: "handles g' = handle ` set (d # ?l)" "dom (maps g') = handle ` set (d # ?l)" "dom (fbs g') = fb ` set (d # ?l)"
    using l(4-6) by (simp_all add: g')
  have "distinct (map crtc (d # ?l))" "distinct (map handle (d # ?l))" "distinct (map fb (d # ?l))" "Suc (devs g) = length (d # ?l)"
    using l(1-3,7) d by simp_all
  moreover define g2 where "g2 = g'\<lparr>devs := Suc (devs g), modeset_list := d # ?l\<rparr>"
  moreover have "modeset_list g2 = d # ?l" "handles g2 = handles g'" "maps g2 = maps g'" "fbs g2 = fbs g'" "devs g2 = Suc (devs g)"
    by (simp_all add: g2_def)
  ultimately have "devs_ok c res g2"
    using dom e unfolding devs_ok_def Let_def by metis
  then show ?thesis by (simp add: same_rest_def g' g2_def)
qed

lemma gets_buffer_counts:
  assumes "gets_buffer d (g\<lparr>objs := m, devs := n\<rparr>) g2"
  shows "gets_buffer d g (g2\<lparr>objs := objs g, devs := devs g\<rparr>)" "objs g2 = m" "devs g2 = n" "modeset_list g2 = modeset_list g"
proof -
  obtain t where "g2 = g\<lparr>objs := m, devs := n, handles := insert (handle d) (handles g), fbs := (fbs g)(fb d := Some (handle d)),
         maps := (maps g)(handle d := Some (replicate (unat (dev_size d)) 0)), merr := t\<rparr>"
    and n: "handle d \<notin> handles g" "fbs g (fb d) = None" using assms by (auto simp: gets_buffer_def)
  then have "g2\<lparr>objs := objs g, devs := devs g\<rparr> = g\<lparr>handles := insert (handle d) (handles g), fbs := (fbs g)(fb d := Some (handle d)),
         maps := (maps g)(handle d := Some (replicate (unat (dev_size d)) 0)), merr := t\<rparr>"
    and s: "objs g2 = m" "devs g2 = n" "modeset_list g2 = modeset_list g"
    by simp_all
  then show "gets_buffer d g (g2\<lparr>objs := objs g, devs := devs g\<rparr>)" using n unfolding gets_buffer_def by blast
  show "objs g2 = m" "devs g2 = n" "modeset_list g2 = modeset_list g" using s by simp_all
qed

lemma silent_counts:
  assumes "silent (g\<lparr>objs := m, devs := n\<rparr>) g2"
  shows "silent g (g2\<lparr>objs := objs g, devs := devs g\<rparr>)" "objs g2 = m" "devs g2 = n"
  using assms by (auto simp: silent_def)

definition idle :: "gpu \<Rightarrow> bool" where
  "idle g = (modeset_list g = [] \<and> handles g = {} \<and> fbs g = Map.empty \<and> maps g = Map.empty \<and> devs g = 0 \<and> objs g = 0)"

text \<open>The card with another view of its connectors.\<close>

definition viewed :: "(connector \<Rightarrow> connector) \<Rightarrow> card \<Rightarrow> card" where
  "viewed view c = c\<lparr>conn_of := \<lambda>k. map_sum id view (conn_of c k)\<rparr>"

lemma viewed_conn: "conn_of c k = Inr co \<Longrightarrow> conn_of (viewed view c) k = Inr (view co)"
  by (simp add: viewed_def)

lemma viewed_same [simp]: "viewed (\<lambda>co. co) c = c"
proof -
  have "map_sum id (\<lambda>co. co) r = r" for r :: "int + connector" by (cases r) simp_all
  then show ?thesis by (simp add: viewed_def)
qed

lemma viewed_simps [simp]: "card_ok (viewed view c) = card_ok c" "usable (viewed view c) = usable c"
  by (simp_all add: viewed_def card_ok_def usable_def bound_crtc_def fun_eq_iff)

text \<open>
  Programs that set up a device for every connector. On what is a fine card for it the set-up keeps the contract
  \<open>setup_result\<close> for the modes from the one that it takes on; what the list of devices then guarantees is shown here for all of them.
\<close>

locale device_setup =
  fixes set_dev :: setup_fun and view :: "connector \<Rightarrow> connector" and fine :: "card \<Rightarrow> resources \<Rightarrow> bool"
  assumes sets_up: "fine c res \<Longrightarrow> conn_of c k = Inr co \<Longrightarrow> setup_result (viewed view c) res (view co) d g (set_dev c res co d g)"
    and same_id: "connector_id (view co) = connector_id co"
begin

lemma connector_step:
  assumes "fine c res" and "k \<in> set (connectors res)" and "devs_ok (viewed view c) res g"
  shows "\<exists>g1. connector_loop set_dev c res (k # ks) i g = connector_loop set_dev c res ks (Suc i) g1 \<and>
    devs_ok (viewed view c) res g1 \<and> same_rest g g1"
proof (cases "conn_of c k")
  case (Inl e)
  obtain g1 where "say ''cannot retrieve DRM connector %u:%u (%d): %s\<newline>'' ([AInt (word_of_nat i), AInt k] @ errno_args c e) g = Inr ((), g1)"
    "silent g g1" using say_silent [OF modeset_formats(12)] by blast
  then show ?thesis using Inl devs_ok_silent [OF _ assms(3)] by (auto simp: bindS_def)
next
  case (Inr co)
  define g0 where "g0 = g\<lparr>objs := objs g + 1, devs := devs g + 1\<rparr>"
  define d0 where "d0 = zero_dev\<lparr>conn := connector_id co\<rparr>"
  obtain ret d g2 where r: "set_dev c res co d0 g0 = Inr ((ret, d), g2)"
    "if ret = 0 then set_up (viewed view c) res (view co) d \<and> conn d = conn d0 \<and> crtc_free (modeset_list g0) (crtc d) \<and> gets_buffer d g0 g2
     else silent g0 g2"
    using sets_up [OF assms(1) Inr, of d0 g0] by (auto simp: setup_result_def)
  show ?thesis
  proof (cases "ret = 0")
    case True
    have b: "gets_buffer d (g\<lparr>objs := objs g + 1, devs := devs g + 1\<rparr>) g2" using r(2) True by (simp add: g0_def)
    note counts = gets_buffer_counts [OF b]
    define g3 where "g3 = g2\<lparr>objs := objs g, devs := devs g\<rparr>"
    have same: "g2\<lparr>objs := objs g, devs := Suc (devs g), modeset_list := l\<rparr> = g2\<lparr>objs := objs g, modeset_list := l\<rparr>" for l
      using counts(3) by (cases g2) simp
    have "connector_loop set_dev c res (k # ks) i g = connector_loop set_dev c res ks (Suc i) (g3\<lparr>devs := Suc (devs g), modeset_list := d # modeset_list g\<rparr>)"
      using r(1) counts(2-4) True by (simp add: Inr bindS_def upd_def d0_def [symmetric] g0_def g3_def same)
    moreover have "devs_ok (viewed view c) res (g3\<lparr>devs := Suc (devs g), modeset_list := d # modeset_list g\<rparr>) \<and> same_rest g g3"
      using devs_ok_new [OF assms(3) counts(1) [folded g3_def] _ assms(2) viewed_conn [OF Inr]] r(2) True by (simp add: d0_def g0_def same_id)
    ultimately show ?thesis by (auto simp: same_rest_def)
  next
    case False
    then have s: "silent (g\<lparr>objs := objs g + 1, devs := devs g + 1\<rparr>) g2" using r(2) by (simp add: g0_def)
    define a where "a = AInt (word_of_nat i) # AInt k # errno_args c (- ret)"
    obtain g3 where "(if ret \<noteq> - ENOENT then say ''cannot setup device for connector %u:%u (%d): %s\<newline>'' a else returnS ()) g2 = Inr ((), g3)"
      "silent g2 g3"
      using say_silent [OF modeset_formats(13), of "word_of_nat i" k c "- ret" g2] silent_refl [of g2]
      by (cases "ret = - ENOENT") (auto simp: a_def returnS_def)
    moreover from this(2) have s3: "silent (g\<lparr>objs := objs g + 1, devs := devs g + 1\<rparr>) g3" by (rule silent_trans [OF s])
    ultimately have "connector_loop set_dev c res (k # ks) i g = connector_loop set_dev c res ks (Suc i) (g3\<lparr>devs := devs g, objs := objs g\<rparr>)"
      using r(1) False silent_counts(2,3) [OF s3]
      by (cases "ret = - ENOENT") (simp_all add: Inr bindS_def upd_def returnS_def d0_def [symmetric] g0_def a_def [symmetric])
    moreover have "g3\<lparr>devs := devs g, objs := objs g\<rparr> = g3\<lparr>objs := objs g, devs := devs g\<rparr>" by simp
    ultimately show ?thesis using devs_ok_silent [OF silent_counts(1) [OF s3] assms(3)] by metis
  qed
qed

lemma connector_loop_spec:
  assumes "fine c res"
  shows "set ks \<subseteq> set (connectors res) \<Longrightarrow> devs_ok (viewed view c) res g \<Longrightarrow>
    \<exists>g'. connector_loop set_dev c res ks i g = Inr ((), g') \<and> devs_ok (viewed view c) res g' \<and> same_rest g g'"
proof (induction ks arbitrary: i g)
  case Nil
  then show ?case by (simp add: returnS_def same_rest_def)
next
  case (Cons k ks)
  obtain g1 where "connector_loop set_dev c res (k # ks) i g = connector_loop set_dev c res ks (Suc i) g1" "devs_ok (viewed view c) res g1" "same_rest g g1"
    using connector_step [OF assms, of k g ks i] Cons.prems by auto
  then show ?case using Cons.IH [of g1 "Suc i"] Cons.prems(1) by (auto simp: same_rest_def)
qed

lemma prepare_runs:
  assumes "fine c res" and "res_of c = Inr res" and "idle g"
  shows "\<exists>g'. prepare_with set_dev c g = Inr (0, g') \<and> devs_ok (viewed view c) res g' \<and> same_rest g g'"
proof -
  have "devs_ok (viewed view c) res (g\<lparr>objs := Suc (objs g)\<rparr>)" using assms(3) by (simp add: devs_ok_def idle_def)
  then obtain g' where "connector_loop set_dev c res (connectors res) 0 (g\<lparr>objs := Suc (objs g)\<rparr>) = Inr ((), g')" "devs_ok (viewed view c) res g'"
    "same_rest (g\<lparr>objs := Suc (objs g)\<rparr>) g'"
    using connector_loop_spec [OF assms(1) order_refl] by blast
  then show ?thesis using assms(2)
    by (intro exI [of _ "g'\<lparr>objs := objs g\<rparr>"]) (simp add: prepare_with_def bindS_def upd_def returnS_def same_rest_def devs_ok_def)
qed

end

text \<open>The set-up of \<open>modeset.c\<close>, which takes the first mode.\<close>

definition small_card :: "card \<Rightarrow> resources \<Rightarrow> bool" where
  "small_card c res = (card_ok c \<and> length (crtcs res) \<le> 32)"

interpretation first_mode: device_setup modeset_setup_dev "\<lambda>co. co" small_card
  by unfold_locales (simp_all add: small_card_def setup_dev_spec)

end
