(* ===== verification/ModesetRun.thy ===== *)
theory ModesetRun
  imports ModesetSpec
begin

unbundle bit_operations_syntax

text \<open>
  Drawing into the framebuffers of \<open>modeset.c\<close>, and its whole run: set up, draw, put back.
\<close>

subsection \<open>One pixel\<close>

definition poke :: "nat \<Rightarrow> u32 \<Rightarrow> byte list \<Rightarrow> byte list" where
  "poke p v b = take p b @ le_bytes 4 (unat v) @ drop (p + 4) b"

lemma length_poke [simp]: "p + 4 \<le> length b \<Longrightarrow> length (poke p v b) = length b"
  by (simp add: poke_def)

lemma bslice_poke: "p + 4 \<le> length b \<Longrightarrow> bslice p 4 (poke p v b) = le_bytes 4 (unat v)"
  by (simp add: poke_def bslice_def)

lemma nth_poke: "p + 4 \<le> length b \<Longrightarrow> i < p \<or> p + 4 \<le> i \<Longrightarrow> poke p v b ! i = b ! i"
  by (auto simp: poke_def nth_append)

lemma bslice_cong: "p + n \<le> length b \<Longrightarrow> length b' = length b \<Longrightarrow> \<forall>i. p \<le> i \<and> i < p + n \<longrightarrow> b' ! i = b ! i \<Longrightarrow>
    bslice p n b' = bslice p n b"
  by (intro nth_equalityI) (auto simp: nth_bslice)

text \<open>The position of a pixel.\<close>

definition pos :: "modeset_dev \<Rightarrow> nat \<Rightarrow> nat \<Rightarrow> nat" where
  "pos d j i = unat (stride d) * j + 4 * i"

lemma pos_inside:
  assumes "fits d" and "j < unat (height d)" and "i < unat (width d)"
  shows "pos d j i + 4 \<le> unat (dev_size d)" "unat (stride d * word_of_nat j + word_of_nat i * 4) = pos d j i"
    "pos d j i + 4 \<le> pos d (Suc j) 0"
proof -
  have row: "pos d j i + 4 \<le> unat (stride d) * Suc j" using assms(1,3) by (simp add: pos_def fits_def)
  also have "\<dots> \<le> unat (stride d) * unat (height d)" using assms(2) by (intro mult_le_mono) simp_all
  also have "\<dots> \<le> unat (dev_size d)" using assms(1) by (simp add: fits_def)
  finally show le: "pos d j i + 4 \<le> unat (dev_size d)" .
  show "pos d j i + 4 \<le> pos d (Suc j) 0" using row by (simp add: pos_def)
  have "unat (stride d) * j + i * 4 < 4294967296" using le unat_u32_bound [of "dev_size d"] by (simp add: pos_def)
  then have "stride d * word_of_nat j + word_of_nat i * 4 = word_of_nat (pos d j i)"
    by (simp add: pos_def)
  then show "unat (stride d * word_of_nat j + word_of_nat i * 4) = pos d j i"
    using le unat_u32_bound [of "dev_size d"] by (simp add: unat_of_nat)
qed

lemma put_pixel_runs:
  assumes "fits d" and "j < unat (height d)" and "i < unat (width d)" and "maps g (handle d) = Some b" and "length b = unat (dev_size d)"
  shows "put_pixel (handle d) (stride d * word_of_nat j + word_of_nat i * 4) v g =
    Inr ((), g\<lparr>maps := (maps g)(handle d := Some (poke (pos d j i) v b))\<rparr>)"
  using assms(4,5) pos_inside(1,2) [OF assms(1-3)] by (simp add: put_pixel_def poke_def)

subsection \<open>Rows, devices, rounds\<close>

lemma remap: "maps g h = Some b \<Longrightarrow> g\<lparr>maps := (maps g)(h := Some b)\<rparr> = g"
  by (simp add: fun_upd_idem)

lemma draw_row_runs:
  assumes "fits d" and "j < unat (height d)"
  shows "i + n \<le> unat (width d) \<Longrightarrow> maps g (handle d) = Some b \<Longrightarrow> length b = unat (dev_size d) \<Longrightarrow>
    \<exists>b'. draw_row d v j i n g = Inr ((), g\<lparr>maps := (maps g)(handle d := Some b')\<rparr>) \<and> length b' = length b \<and>
      (\<forall>k. i \<le> k \<and> k < i + n \<longrightarrow> bslice (pos d j k) 4 b' = le_bytes 4 (unat v)) \<and>
      (\<forall>p. p < pos d j i \<or> pos d j (i + n) \<le> p \<longrightarrow> b' ! p = b ! p)"
proof (induction n arbitrary: i g b)
  case 0
  then show ?case by (intro exI [of _ b]) (simp only: draw_row.simps returnS_apply remap, auto)
next
  case (Suc n)
  have i: "i < unat (width d)" using Suc.prems by simp
  let ?b = "poke (pos d j i) v b"
  note p = pos_inside(1) [OF assms i, folded Suc.prems(3)]
  let ?g = "g\<lparr>maps := (maps g)(handle d := Some ?b)\<rparr>"
  have pre: "Suc i + n \<le> unat (width d)" "maps ?g (handle d) = Some ?b" "length ?b = unat (dev_size d)"
    using Suc.prems p by simp_all
  obtain b' where b': "draw_row d v j (Suc i) n ?g = Inr ((), ?g\<lparr>maps := (maps ?g)(handle d := Some b')\<rparr>)" "length b' = length ?b"
    "\<forall>k. Suc i \<le> k \<and> k < Suc i + n \<longrightarrow> bslice (pos d j k) 4 b' = le_bytes 4 (unat v)"
    "\<forall>q. q < pos d j (Suc i) \<or> pos d j (Suc i + n) \<le> q \<longrightarrow> b' ! q = ?b ! q"
    using Suc.IH [OF pre] by blast
  have "bslice (pos d j i) 4 b' = bslice (pos d j i) 4 ?b"
    using b'(2,4) p by (intro bslice_cong) (auto simp: pos_def)
  then have "bslice (pos d j i) 4 b' = le_bytes 4 (unat v)" by (simp only: bslice_poke [OF p])
  then have "\<forall>k. i \<le> k \<and> k < i + Suc n \<longrightarrow> bslice (pos d j k) 4 b' = le_bytes 4 (unat v)"
    using b'(3) by (metis add_Suc_right add_Suc le_neq_implies_less less_eq_Suc_le)
  moreover have "\<forall>q. q < pos d j i \<or> pos d j (i + Suc n) \<le> q \<longrightarrow> b' ! q = b ! q"
    using b'(4) nth_poke [OF p, of _ v] by (auto simp: pos_def)
  moreover have "draw_row d v j i (Suc n) g = Inr ((), g\<lparr>maps := (maps g)(handle d := Some b')\<rparr>)"
    using b'(1) by (simp add: bindS_def put_pixel_runs [OF assms i Suc.prems(2,3)])
  moreover have "length b' = length b" using b'(2) p by simp
  ultimately show ?case by blast
qed

lemma draw_rows_runs:
  assumes "fits d"
  shows "j + n \<le> unat (height d) \<Longrightarrow> maps g (handle d) = Some b \<Longrightarrow> length b = unat (dev_size d) \<Longrightarrow>
    \<exists>b'. draw_rows d v j n g = Inr ((), g\<lparr>maps := (maps g)(handle d := Some b')\<rparr>) \<and> length b' = length b \<and>
      (\<forall>r k. j \<le> r \<and> r < j + n \<and> k < unat (width d) \<longrightarrow> bslice (pos d r k) 4 b' = le_bytes 4 (unat v)) \<and>
      (\<forall>p < pos d j 0. b' ! p = b ! p)"
proof (induction n arbitrary: j g b)
  case 0
  then show ?case by (intro exI [of _ b]) (simp only: draw_rows.simps returnS_apply remap, auto)
next
  case (Suc n)
  have j: "j < unat (height d)" using Suc.prems by simp
  obtain b1 where b1: "draw_row d v j 0 (unat (width d)) g = Inr ((), g\<lparr>maps := (maps g)(handle d := Some b1)\<rparr>)" "length b1 = length b"
    "\<forall>k < unat (width d). bslice (pos d j k) 4 b1 = le_bytes 4 (unat v)" "\<forall>p < pos d j 0. b1 ! p = b ! p"
    using draw_row_runs [OF assms j, of 0 "unat (width d)" g b v] Suc.prems by auto
  let ?g = "g\<lparr>maps := (maps g)(handle d := Some b1)\<rparr>"
  have pre: "Suc j + n \<le> unat (height d)" "maps ?g (handle d) = Some b1" "length b1 = unat (dev_size d)"
    using Suc.prems b1(2) by simp_all
  obtain b' where b': "draw_rows d v (Suc j) n ?g = Inr ((), ?g\<lparr>maps := (maps ?g)(handle d := Some b')\<rparr>)" "length b' = length b1"
    "\<forall>r k. Suc j \<le> r \<and> r < Suc j + n \<and> k < unat (width d) \<longrightarrow> bslice (pos d r k) 4 b' = le_bytes 4 (unat v)"
    "\<forall>p < pos d (Suc j) 0. b' ! p = b1 ! p"
    using Suc.IH [OF pre] by blast
  have "bslice (pos d j k) 4 b' = le_bytes 4 (unat v)" if k: "k < unat (width d)" for k
  proof -
    have "bslice (pos d j k) 4 b' = bslice (pos d j k) 4 b1"
      using b'(2,4) b1(2) Suc.prems(3) pos_inside(1,3) [OF assms j k] by (intro bslice_cong) auto
    then show ?thesis using b1(3) k by simp
  qed
  then have "\<forall>r k. j \<le> r \<and> r < j + Suc n \<and> k < unat (width d) \<longrightarrow> bslice (pos d r k) 4 b' = le_bytes 4 (unat v)"
    using b'(3) by (metis add_Suc_right add_Suc le_neq_implies_less less_eq_Suc_le)
  moreover have "\<forall>p < pos d j 0. b' ! p = b ! p" using b'(4) b1(4) by (auto simp: pos_def)
  moreover have "draw_rows d v j (Suc n) g = Inr ((), g\<lparr>maps := (maps g)(handle d := Some b')\<rparr>)"
    using b1(1) b'(1) by (simp add: bindS_def)
  moreover have "length b' = length b" using b'(2) b1(2) by simp
  ultimately show ?case by blast
qed

text \<open>A device all of whose pixels have the value v.\<close>

definition painted :: "u32 \<Rightarrow> gpu \<Rightarrow> modeset_dev \<Rightarrow> bool" where
  "painted v g d =
     (\<exists>b. maps g (handle d) = Some b \<and>
        (\<forall>j < unat (height d). \<forall>i < unat (width d). bslice (pos d j i) 4 b = le_bytes 4 (unat v)))"

text \<open>Drawing changes what is in the mappings and nothing else.\<close>

definition redrawn :: "gpu \<Rightarrow> gpu \<Rightarrow> bool" where
  "redrawn g g' =
     ((\<exists>m n. g' = g\<lparr>maps := m, rands := n\<rparr>) \<and> (\<forall>h. map_option length (maps g' h) = map_option length (maps g h)))"

lemma redrawn_refl: "redrawn g g"
proof -
  have "g = g\<lparr>maps := maps g, rands := rands g\<rparr>" by simp
  then show ?thesis unfolding redrawn_def by blast
qed

lemma redrawn_trans: "redrawn g1 g2 \<Longrightarrow> redrawn g2 g3 \<Longrightarrow> redrawn g1 g3"
  unfolding redrawn_def by (elim conjE exE, hypsubst) auto

lemma redrawn_keeps:
  assumes "redrawn g g'"
  shows "modeset_list g' = modeset_list g" "same_rest g g'" "devs_ok c res g \<Longrightarrow> devs_ok c res g'"
proof -
  obtain m n where g': "g' = g\<lparr>maps := m, rands := n\<rparr>" and len: "\<And>h. map_option length (m h) = map_option length (maps g h)"
    using assms by (auto simp: redrawn_def)
  show "modeset_list g' = modeset_list g" "same_rest g g'" by (simp_all add: g' same_rest_def)
  have b: "(\<exists>b. m h = Some b \<and> length b = l) = (\<exists>b. maps g h = Some b \<and> length b = l)" for h l
    using len [of h] by (cases "m h"; cases "maps g h") auto
  have "dom m = dom (maps g)" using len by (metis (mono_tags, lifting) domIff map_option_is_None subsetI subset_antisym)
  then show "devs_ok c res g \<Longrightarrow> devs_ok c res g'" by (simp add: g' devs_ok_def Let_def b)
qed

lemma draw_devs_runs:
  assumes "\<forall>d \<in> set ds. fits d \<and> (\<exists>b. maps g (handle d) = Some b \<and> length b = unat (dev_size d))" and "distinct (map handle ds)"
  shows "\<exists>g'. draw_devs v ds g = Inr ((), g') \<and> redrawn g g' \<and> (\<forall>d \<in> set ds. painted v g' d) \<and>
    (\<forall>h. h \<notin> handle ` set ds \<longrightarrow> maps g' h = maps g h)"
  using assms
proof (induction ds arbitrary: g)
  case Nil
  then show ?case by (simp add: returnS_def redrawn_refl)
next
  case (Cons d ds)
  obtain b where b: "fits d" "maps g (handle d) = Some b" "length b = unat (dev_size d)" using Cons.prems(1) by auto
  obtain b' where b': "draw_rows d v 0 (unat (height d)) g = Inr ((), g\<lparr>maps := (maps g)(handle d := Some b')\<rparr>)" "length b' = length b"
    "\<forall>r k. r < unat (height d) \<and> k < unat (width d) \<longrightarrow> bslice (pos d r k) 4 b' = le_bytes 4 (unat v)"
    using draw_rows_runs [OF b(1) _ b(2,3), of 0 "unat (height d)" v] by auto
  define g1 where "g1 = g\<lparr>maps := (maps g)(handle d := Some b')\<rparr>"
  have "g1 = g\<lparr>maps := (maps g)(handle d := Some b'), rands := rands g\<rparr>" by (simp add: g1_def)
  then have "\<exists>m n. g1 = g\<lparr>maps := m, rands := n\<rparr>" by blast
  moreover have "\<forall>h. map_option length (maps g1 h) = map_option length (maps g h)" using b'(2) b(2) by (simp add: g1_def)
  ultimately have 1: "redrawn g g1" unfolding redrawn_def by blast
  have new: "handle d \<notin> handle ` set ds" using Cons.prems(2) by simp
  have "maps g1 (handle x) = maps g (handle x)" if "x \<in> set ds" for x
  proof -
    have "handle x \<noteq> handle d" using that new by (metis image_eqI)
    then show ?thesis by (simp add: g1_def)
  qed
  then obtain g' where g': "draw_devs v ds g1 = Inr ((), g')" "redrawn g1 g'" "\<forall>d \<in> set ds. painted v g' d"
    "\<forall>h. h \<notin> handle ` set ds \<longrightarrow> maps g' h = maps g1 h"
    using Cons.IH [of g1] Cons.prems by auto
  have "painted v g' d" using g'(4) new b'(3) by (simp add: painted_def g1_def)
  moreover have "draw_devs v (d # ds) g = Inr ((), g')" using b'(1) g'(1) by (simp add: bindS_def g1_def)
  moreover have "\<forall>h. h \<notin> handle ` set (d # ds) \<longrightarrow> maps g' h = maps g h" using g'(4) by (simp add: g1_def)
  ultimately show ?case using g'(3) redrawn_trans [OF 1 g'(2)] by auto
qed

lemma draw_all_runs:
  assumes "devs_ok c res g"
  shows "\<exists>g'. draw_devs v (modeset_list g) g = Inr ((), g') \<and> redrawn g g' \<and> (\<forall>d \<in> set (modeset_list g). painted v g' d)"
proof -
  have "\<forall>d \<in> set (modeset_list g). fits d \<and> (\<exists>b. maps g (handle d) = Some b \<and> length b = unat (dev_size d))"
    and "distinct (map handle (modeset_list g))"
    using assms by (auto simp: devs_ok_def Let_def set_up_def)
  from draw_devs_runs [OF this] show ?thesis by blast
qed

lemma redrawn_rand: "redrawn g (g\<lparr>rands := n\<rparr>)"
proof -
  have "g\<lparr>rands := n\<rparr> = g\<lparr>maps := maps g, rands := n\<rparr>" by simp
  then show ?thesis unfolding redrawn_def by (metis gpu.select_convs(4) gpu.surjective gpu.update_convs(4,9))
qed

lemma next_color_runs: "\<exists>x. next_color c up cur md g = Inr (x, g\<lparr>rands := rands g + 1\<rparr>)"
  by (simp add: next_color_def Let_def)

lemma draw_round:
  assumes "devs_ok c res g"
  shows "\<exists>r' g' b' s'. draw_rounds c (Suc n) r gr b g = draw_rounds c n r' g' b' s' \<and> redrawn g s' \<and>
    (\<forall>d \<in> set (modeset_list g). painted (color_word (fst r') (fst g') (fst b')) s' d)"
proof -
  obtain r' where 1: "next_color c (snd r) (fst r) 20 g = Inr (r', g\<lparr>rands := rands g + 1\<rparr>)" (is "_ = Inr (_, ?g1)")
    using next_color_runs by blast
  obtain g' where 2: "next_color c (snd gr) (fst gr) 10 ?g1 = Inr (g', ?g1\<lparr>rands := rands ?g1 + 1\<rparr>)" (is "_ = Inr (_, ?g2)")
    using next_color_runs by blast
  obtain b' where 3: "next_color c (snd b) (fst b) 5 ?g2 = Inr (b', ?g2\<lparr>rands := rands ?g2 + 1\<rparr>)" (is "_ = Inr (_, ?g3)")
    using next_color_runs by blast
  have r: "redrawn g ?g3" using redrawn_rand [of g "rands g + 3"] by (simp add: numeral_3_eq_3)
  obtain s' where 4: "draw_devs (color_word (fst r') (fst g') (fst b')) (modeset_list ?g3) ?g3 = Inr ((), s')" "redrawn ?g3 s'"
    "\<forall>d \<in> set (modeset_list ?g3). painted (color_word (fst r') (fst g') (fst b')) s' d"
    using draw_all_runs [OF redrawn_keeps(3) [OF r assms]] by blast
  have "draw_rounds c (Suc n) r gr b g = draw_rounds c n r' g' b' s'"
    by (simp only: draw_rounds.simps bindS_def 1 2 3 4(1) bindE_simps prod.case)
  moreover have "redrawn g s'" using redrawn_trans [OF r 4(2)] .
  moreover have "\<forall>d \<in> set (modeset_list g). painted (color_word (fst r') (fst g') (fst b')) s' d" using 4(3) by simp
  ultimately show ?thesis by blast
qed

lemma draw_rounds_runs:
  "devs_ok c res g \<Longrightarrow> \<exists>s'. draw_rounds c n r gr b g = Inr ((), s') \<and> redrawn g s' \<and>
     (0 < n \<longrightarrow> (\<exists>v. \<forall>d \<in> set (modeset_list g). painted v s' d))"
proof (induction n arbitrary: r gr b g)
  case 0
  then show ?case by (simp add: returnS_def redrawn_refl)
next
  case (Suc n)
  obtain r1 g1 b1 s1 where 1: "draw_rounds c (Suc n) r gr b g = draw_rounds c n r1 g1 b1 s1" "redrawn g s1"
    "\<forall>d \<in> set (modeset_list g). painted (color_word (fst r1) (fst g1) (fst b1)) s1 d"
    using draw_round [OF Suc.prems] by blast
  obtain s' where 2: "draw_rounds c n r1 g1 b1 s1 = Inr ((), s')" "redrawn s1 s'"
    "0 < n \<longrightarrow> (\<exists>v. \<forall>d \<in> set (modeset_list s1). painted v s' d)"
    using Suc.IH [OF redrawn_keeps(3) [OF 1(2) Suc.prems]] by blast
  have "\<exists>v. \<forall>d \<in> set (modeset_list g). painted v s' d"
  proof (cases n)
    case 0
    then have "s' = s1" using 2(1) by (simp add: returnS_def)
    then show ?thesis using 1(3) by blast
  next
    case (Suc k)
    then show ?thesis using 2(3) redrawn_keeps(1) [OF 1(2)] by simp
  qed
  then show ?case using 1(1) 2(1) redrawn_trans [OF 1(2) 2(2)] by auto
qed

lemma draw_runs:
  assumes "devs_ok c res g"
  shows "\<exists>g' v. modeset_draw c g = Inr ((), g') \<and> redrawn g g' \<and> (\<forall>d \<in> set (modeset_list g). painted v g' d)"
proof -
  have r: "redrawn g (g\<lparr>rands := Suc (Suc (Suc (rands g)))\<rparr>)" by (rule redrawn_rand)
  obtain x y z where m: "modeset_draw c g = draw_rounds c 50 x y z (g\<lparr>rands := Suc (Suc (Suc (rands g)))\<rparr>)"
    by (simp add: modeset_draw_def rand_byte_def bindS_def)
  obtain g' v where "draw_rounds c 50 x y z (g\<lparr>rands := Suc (Suc (Suc (rands g)))\<rparr>) = Inr ((), g')"
    "redrawn (g\<lparr>rands := Suc (Suc (Suc (rands g)))\<rparr>) g'" "\<forall>d \<in> set (modeset_list g). painted v g' d"
    using draw_rounds_runs [OF redrawn_keeps(3) [OF r assms], where n = 50] by (metis gpu.select_convs(1) gpu.surjective gpu.update_convs(9) zero_less_numeral)
  then show ?thesis using m redrawn_trans [OF r] by auto
qed

subsection \<open>Setting and restoring the CRTCs\<close>

definition saved :: "(u32 \<Rightarrow> crtc_info option) \<Rightarrow> modeset_dev \<Rightarrow> modeset_dev" where
  "saved conf d = d\<lparr>saved_crtc := conf (crtc d)\<rparr>"

text \<open>
  A CRTC that can be set without a change of the others (no connector is taken away from one of them), and one whose
  configuration can moreover be read and set again.
\<close>

definition sets_only :: "card \<Rightarrow> u32 \<Rightarrow> bool" where
  "sets_only c x = (\<forall>g ci ks conf. cr_id ci = x \<and> set_of c g ci ks = Inr conf \<longrightarrow> conf = (crtc_conf g)(x := Some ci))"

definition restorable :: "card \<Rightarrow> (u32 \<Rightarrow> crtc_info option) \<Rightarrow> u32 \<Rightarrow> bool" where
  "restorable c conf x =
     (sets_only c x \<and> (\<exists>s. conf x = Some s \<and> cr_id s = x \<and> (\<forall>g ks. \<exists>conf'. set_of c g s ks = Inr conf')))"

lemma sets_onlyD: "sets_only c x \<Longrightarrow> set_of c g ci ks = Inr conf \<Longrightarrow> cr_id ci = x \<Longrightarrow> conf = (crtc_conf g)(x := Some ci)"
  by (simp add: sets_only_def)

lemma restorable_some: "restorable c conf x \<Longrightarrow> \<exists>s. conf x = Some s"
  by (auto simp: restorable_def)

lemma restorableD:
  assumes "restorable c conf x"
  obtains s where "conf x = Some s" "cr_id s = x" "\<And>g ks. set_of c g s ks = Inr ((crtc_conf g)(x := Some s))"
proof -
  obtain s where s: "conf x = Some s" "cr_id s = x" "\<And>g ks. \<exists>conf'. set_of c g s ks = Inr conf'" using assms by (auto simp: restorable_def)
  moreover have "set_of c g s ks = Inr ((crtc_conf g)(x := Some s))" for g ks
    using s(3) [of g ks] sets_onlyD [of c x g s ks] assms s(2) by (auto simp: restorable_def)
  ultimately show thesis using that by blast
qed

lemma set_loop_runs:
  "distinct (map crtc ds) \<Longrightarrow> \<forall>d \<in> set ds. sets_only c (crtc d) \<Longrightarrow> \<forall>d \<in> set ds. conf (crtc d) \<noteq> None \<and> crtc_conf g (crtc d) = conf (crtc d) \<Longrightarrow>
   \<exists>f t. set_loop c ds g = Inr (map (saved conf) ds, g\<lparr>objs := objs g + length ds, crtc_conf := f, merr := t\<rparr>) \<and>
     (\<forall>x. x \<notin> crtc ` set ds \<longrightarrow> f x = crtc_conf g x)"
proof (induction ds arbitrary: g)
  case Nil
  then show ?case by (intro exI [of _ "crtc_conf g"] exI [of _ "merr g"]) (simp add: returnS_def)
next
  case (Cons d ds)
  define ci where "ci = \<lparr>cr_id = crtc d, buffer_id = fb d, cr_x = 0, cr_y = 0, cr_mode = dev_mode d\<rparr>"
  define g1 where "g1 = g\<lparr>objs := objs g + 1\<rparr>"
  obtain old where old: "crtc_conf g (crtc d) = Some old" "conf (crtc d) = Some old" using Cons.prems(3) by (cases "conf (crtc d)") auto
  obtain f1 t1 where 1: "bindS (set_crtc c ci [conn d]) (\<lambda>r. case r of
        Inl e \<Rightarrow> say ''cannot set CRTC for connector %u (%d): %s\<newline>'' ([AInt (conn d)] @ errno_args c e)
      | Inr _ \<Rightarrow> returnS ()) g1 = Inr ((), g1\<lparr>crtc_conf := f1, merr := t1\<rparr>)"
    "\<forall>x. x \<noteq> crtc d \<longrightarrow> f1 x = crtc_conf g x"
  proof (cases "set_of c g1 ci [conn d]")
    case (Inl e)
    obtain t where "say ''cannot set CRTC for connector %u (%d): %s\<newline>'' ([AInt (conn d)] @ errno_args c e) g1 = Inr ((), g1\<lparr>merr := t\<rparr>)"
      using say_text [OF modeset_formats(15)] by blast
    then show thesis using Inl that [of t "crtc_conf g"] by (simp add: bindS_def set_crtc_def g1_def)
  next
    case (Inr u)
    have "u = (crtc_conf g1)(crtc d := Some ci)" using sets_onlyD [OF _ Inr] Cons.prems(2) by (simp add: ci_def)
    then show thesis using Inr that [of "merr g" "(crtc_conf g)(crtc d := Some ci)"]
      by (simp add: bindS_def set_crtc_def g1_def returnS_def)
  qed
  define g2 where "g2 = g1\<lparr>crtc_conf := f1, merr := t1\<rparr>"
  have "\<forall>x \<in> set ds. conf (crtc x) \<noteq> None \<and> crtc_conf g2 (crtc x) = conf (crtc x)"
  proof
    fix x assume x: "x \<in> set ds"
    then have "crtc x \<noteq> crtc d" using Cons.prems(1) by (metis distinct.simps(2) image_eqI list.set_map list.simps(9))
    then show "conf (crtc x) \<noteq> None \<and> crtc_conf g2 (crtc x) = conf (crtc x)"
      using Cons.prems(3) x 1(2) by (simp add: g2_def)
  qed
  then obtain f t where 2: "set_loop c ds g2 = Inr (map (saved conf) ds, g2\<lparr>objs := objs g2 + length ds, crtc_conf := f, merr := t\<rparr>)"
    "\<forall>x. x \<notin> crtc ` set ds \<longrightarrow> f x = crtc_conf g2 x"
    using Cons.IH [of g2] Cons.prems(1,2) by auto
  have "set_loop c (d # ds) g = bindS (bindS (set_crtc c ci [conn d]) (\<lambda>r. case r of
        Inl e \<Rightarrow> say ''cannot set CRTC for connector %u (%d): %s\<newline>'' ([AInt (conn d)] @ errno_args c e)
      | Inr _ \<Rightarrow> returnS ())) (\<lambda>_. bindS (set_loop c ds) (\<lambda>ds. returnS (d\<lparr>saved_crtc := Some old\<rparr> # ds))) g1"
    by (simp add: bindS_assoc) (simp add: bindS_def old upd_def g1_def ci_def [symmetric])
  also have "\<dots> = Inr (map (saved conf) (d # ds), g2\<lparr>objs := objs g2 + length ds, crtc_conf := f, merr := t\<rparr>)"
    using 1(1) 2(1) by (simp add: bindS_def returnS_def g2_def saved_def old)
  also have "g2\<lparr>objs := objs g2 + length ds, crtc_conf := f, merr := t\<rparr> = g\<lparr>objs := objs g + length (d # ds), crtc_conf := f, merr := t\<rparr>"
    by (simp add: g2_def g1_def)
  finally show ?case using 2(2) 1(2) by (auto simp: g2_def)
qed

lemma cleanup_runs:
  "modeset_list g = ds \<Longrightarrow> \<forall>d \<in> set ds. saved_crtc d = conf (crtc d) \<and> restorable c conf (crtc d) \<Longrightarrow>
   \<exists>g'. cleanup_loop c ds g = Inr ((), g') \<and> modeset_list g' = [] \<and> handles g' = handles g - handle ` set ds \<and>
     maps g' = maps g |` (- (handle ` set ds)) \<and> fbs g' = fbs g |` (- (fb ` set ds)) \<and>
     devs g' = devs g - length ds \<and> objs g' = objs g - length ds \<and> fds g' = fds g \<and>
     crtc_conf g' = (\<lambda>x. if x \<in> crtc ` set ds then conf x else crtc_conf g x)"
proof (induction ds arbitrary: g)
  case Nil
  then show ?case by (simp add: returnS_def)
next
  case (Cons d ds)
  have "restorable c conf (crtc d)" "saved_crtc d = conf (crtc d)" using Cons.prems(2) by simp_all
  then obtain s where s: "saved_crtc d = Some s" "cr_id s = crtc d" "conf (crtc d) = Some s"
    "\<And>g ks. set_of c g s ks = Inr ((crtc_conf g)(crtc d := Some s))"
    by (metis restorableD)
  define g1 where "g1 = g\<lparr>modeset_list := ds, crtc_conf := (crtc_conf g)(crtc d := Some s), objs := objs g - 1,
     maps := (maps g)(handle d := None), fbs := (fbs g)(fb d := None), handles := handles g - {handle d}, devs := devs g - 1\<rparr>"
  have "cleanup_loop c (d # ds) g = cleanup_loop c ds g1"
    using s by (simp add: bindS_def upd_def set_crtc_def unmap_def rm_fb_def destroy_dumb_def returnS_def g1_def)
  moreover have g1: "modeset_list g1 = ds" "\<forall>d \<in> set ds. saved_crtc d = conf (crtc d) \<and> restorable c conf (crtc d)"
    using Cons.prems by (simp_all add: g1_def)
  moreover obtain g' where g': "cleanup_loop c ds g1 = Inr ((), g')" "modeset_list g' = []" "handles g' = handles g1 - handle ` set ds"
     "maps g' = maps g1 |` (- (handle ` set ds))" "fbs g' = fbs g1 |` (- (fb ` set ds))"
     "devs g' = devs g1 - length ds" "objs g' = objs g1 - length ds" "fds g' = fds g1"
     "crtc_conf g' = (\<lambda>x. if x \<in> crtc ` set ds then conf x else crtc_conf g1 x)"
    using Cons.IH [OF g1] by blast
  have r: "m(x := None) |` (- A) = m |` (- insert x A)" for m :: "u32 \<Rightarrow> 'a option" and x A
    by (auto simp: restrict_map_def fun_eq_iff)
  have "maps g1 = (maps g)(handle d := None)" "fbs g1 = (fbs g)(fb d := None)" by (simp_all add: g1_def)
  then have "maps g' = maps g |` (- (handle ` set (d # ds)))" "fbs g' = fbs g |` (- (fb ` set (d # ds)))"
    by (simp_all only: g'(4,5) r list.set image_insert)
  moreover have "handles g' = handles g - handle ` set (d # ds)" "devs g' = devs g - length (d # ds)" "objs g' = objs g - length (d # ds)" "fds g' = fds g"
    using g'(3,6-8) by (auto simp: g1_def)
  moreover have "crtc_conf g' = (\<lambda>x. if x \<in> crtc ` set (d # ds) then conf x else crtc_conf g x)"
    using g'(9) s(3) by (auto simp: g1_def fun_eq_iff)
  ultimately show ?case using g'(1,2) by auto
qed

subsection \<open>The whole run\<close>

lemma saved_simps [simp]:
  "crtc (saved conf d) = crtc d" "handle (saved conf d) = handle d" "fb (saved conf d) = fb d" "conn (saved conf d) = conn d"
  "dev_size (saved conf d) = dev_size d" "saved_crtc (saved conf d) = conf (crtc d)"
  "set_up c res co (saved conf d) = set_up c res co d"
  by (simp_all add: saved_def set_up_def fits_def)

lemma devs_ok_saved:
  "devs_ok c res g \<Longrightarrow> devs_ok c res (g\<lparr>objs := n, crtc_conf := f, merr := t, modeset_list := map (saved conf) (modeset_list g)\<rparr>)"
  by (simp add: devs_ok_def Let_def image_image comp_def)

lemma restrict_own: "dom m = A \<Longrightarrow> m |` (- A) = Map.empty"
  by (auto simp: restrict_map_def fun_eq_iff domIff)

lemma report_silent: "\<exists>g'. modeset_report c ret g = Inr (ret, g') \<and> silent g g'"
  using say_silent [OF modeset_formats(16), of c "- ret" g] say_silent [OF modeset_formats(17), of g]
  by (auto simp: modeset_report_def bindS_def returnS_def)

lemma idle_silent: "silent g g' \<Longrightarrow> idle g' = idle g \<and> fds g' = fds g \<and> crtc_conf g' = crtc_conf g"
  by (auto simp: silent_def idle_def)

text \<open>Programs that set up devices and draw: when drawing is safe for the devices, a run leaves the card as it was.\<close>

locale mode_program = device_setup +
  fixes draw :: "card \<Rightarrow> unit mm"
  assumes draws: "fine c res \<Longrightarrow> res_of c = Inr res \<Longrightarrow> devs_ok (viewed view c) res g \<Longrightarrow> \<exists>g'. draw c g = Inr ((), g') \<and> redrawn g g'"
begin

lemma session_runs:
  assumes "fine c res" and "res_of c = Inr res" and "devs_ok (viewed view c) res g" and "objs g = 0" and "\<forall>co x. usable c res co x \<longrightarrow> restorable c (crtc_conf g) x"
  shows "\<exists>g'. session_with draw c g = Inr ((), g') \<and> idle g' \<and> fds g' = fds g \<and> crtc_conf g' = crtc_conf g"
proof -
  let ?l = "modeset_list g" and ?conf = "crtc_conf g"
  have rest: "restorable c ?conf (crtc d)" if "d \<in> set ?l" for d
    using that assms(3,5) by (fastforce simp: devs_ok_def Let_def set_up_def)
  have "distinct (map crtc ?l)" using assms(3) by (simp add: devs_ok_def Let_def)
  moreover have "\<forall>d \<in> set ?l. ?conf (crtc d) \<noteq> None \<and> ?conf (crtc d) = ?conf (crtc d)" using restorable_some [where conf = ?conf and c = c] rest by auto
  moreover have "\<forall>d \<in> set ?l. sets_only c (crtc d)" using rest by (auto simp: restorable_def)
  ultimately obtain f t where s: "set_loop c ?l g = Inr (map (saved ?conf) ?l, g\<lparr>objs := objs g + length ?l, crtc_conf := f, merr := t\<rparr>)"
    "\<forall>x. x \<notin> crtc ` set ?l \<longrightarrow> f x = ?conf x"
    using set_loop_runs [of ?l c ?conf g] by blast
  define g1 where "g1 = g\<lparr>objs := objs g + length ?l, crtc_conf := f, merr := t, modeset_list := map (saved ?conf) ?l\<rparr>"
  have ok1: "devs_ok (viewed view c) res g1" unfolding g1_def by (rule devs_ok_saved [OF assms(3)])
  obtain g2 where d: "draw c g1 = Inr ((), g2)" "redrawn g1 g2" using draws [OF assms(1,2) ok1] by blast
  note k = redrawn_keeps(1,2) [OF d(2)] redrawn_keeps(3) [OF d(2) ok1]
  have l2: "modeset_list g2 = map (saved ?conf) ?l" "objs g2 = length ?l" "fds g2 = fds g" "crtc_conf g2 = f"
    using k(1,2) assms(4) by (simp_all add: g1_def same_rest_def)
  have "\<forall>d \<in> set (modeset_list g2). saved_crtc d = ?conf (crtc d) \<and> restorable c ?conf (crtc d)"
    using rest by (auto simp: l2(1))
  from cleanup_runs [OF refl this] obtain g' where g': "cleanup_loop c (modeset_list g2) g2 = Inr ((), g')" "modeset_list g' = []"
     "handles g' = handles g2 - handle ` set (modeset_list g2)" "maps g' = maps g2 |` (- (handle ` set (modeset_list g2)))"
     "fbs g' = fbs g2 |` (- (fb ` set (modeset_list g2)))" "devs g' = devs g2 - length (modeset_list g2)"
     "objs g' = objs g2 - length (modeset_list g2)" "fds g' = fds g2"
     "crtc_conf g' = (\<lambda>x. if x \<in> crtc ` set (modeset_list g2) then ?conf x else crtc_conf g2 x)"
    by blast
  have own: "handles g2 = handle ` set (modeset_list g2)" "dom (maps g2) = handle ` set (modeset_list g2)"
    "dom (fbs g2) = fb ` set (modeset_list g2)" "devs g2 = length (modeset_list g2)"
    using k(3) by (simp_all add: devs_ok_def Let_def)
  have i: "idle g'"
    using g'(2-7) own restrict_own [OF own(2)] restrict_own [OF own(3)] l2(1,2) by (simp add: idle_def)
  have c: "crtc_conf g' = ?conf"
  proof
    fix x
    have "crtc ` set (modeset_list g2) = crtc ` set ?l" by (simp add: l2(1) image_image)
    then show "crtc_conf g' x = ?conf x" using s(2) by (simp add: g'(9) l2(4))
  qed
  have r: "session_with draw c g = Inr ((), g')"
  proof -
    have "upd (\<lambda>g. g\<lparr>modeset_list := map (saved ?conf) ?l\<rparr>) (g\<lparr>objs := objs g + length ?l, crtc_conf := f, merr := t\<rparr>) = Inr ((), g1)"
      by (simp add: upd_def g1_def)
    then show ?thesis
      by (simp only: session_with_def bindS_def s(1) bindE_simps prod.case d(1) modeset_cleanup_def g'(1))
  qed
  show ?thesis by (rule exI [of _ g']) (simp only: r i c g'(8) l2(3) simp_thms)
qed

lemma main_runs:
  assumes "fine c res" and "res_of c = Inr res" and "idle g"
    and "open_of c node = Inr ()" and "dumb_cap c = Some cap" and "cap \<noteq> 0"
    and "\<forall>co x. usable c res co x \<longrightarrow> restorable c (crtc_conf g) x"
  shows "\<exists>g'. main_with set_dev draw c node g = Inr (0, g') \<and> idle g' \<and> fds g' = fds g \<and> crtc_conf g' = crtc_conf g"
proof -
  obtain g1 where 1: "say (''using card '' @ QUOTE @ ''%s'' @ QUOTE @ ''\<newline>'') [AStr node] g = Inr ((), g1)" "silent g g1"
    using say_silent [OF modeset_formats(18)] by blast
  define g2 where "g2 = g1\<lparr>fds := fds g1 + 1\<rparr>"
  have 2: "modeset_open c node g1 = Inr (0, g2)"
    using assms(4-6) by (simp add: modeset_open_def bindS_def upd_def returnS_def g2_def)
  have idle: "idle g2" "fds g2 = fds g + 1" "crtc_conf g2 = crtc_conf g"
    using idle_silent [OF 1(2)] assms(3) by (simp_all add: g2_def idle_def)
  obtain g3 where 3: "prepare_with set_dev c g2 = Inr (0, g3)" "devs_ok (viewed view c) res g3" "same_rest g2 g3"
    using prepare_runs [OF assms(1,2) idle(1)] by blast
  have r3: "objs g3 = 0" "fds g3 = fds g + 1" "crtc_conf g3 = crtc_conf g"
    using 3(3) idle by (simp_all add: same_rest_def idle_def)
  obtain g4 where 4: "session_with draw c g3 = Inr ((), g4)" "idle g4" "fds g4 = fds g3" "crtc_conf g4 = crtc_conf g3"
    using session_runs [OF assms(1,2) 3(2) r3(1)] assms(7) r3(3) by auto
  define g5 where "g5 = g4\<lparr>fds := fds g4 - 1\<rparr>"
  obtain g' where 5: "modeset_report c 0 g5 = Inr (0, g')" "silent g5 g'" using report_silent by blast
  have "main_with set_dev draw c node g = Inr (0, g')"
    unfolding main_with_def
    using 5(1) by (simp add: bindS_def 1(1) [simplified] 2 3(1) upd_def returnS_def 4(1) g5_def)
  moreover have "idle g'" "fds g' = fds g" "crtc_conf g' = crtc_conf g"
    using idle_silent [OF 5(2)] 4(2-4) r3 by (simp_all add: g5_def idle_def)
  ultimately show ?thesis by blast
qed

text \<open>
  Whatever fails: the status is 0 exactly if the card could be opened, has dumb buffers and gave its resources, and the card is
  left as it was in every case.
\<close>

lemma main_always:
  assumes "\<And>res. res_of c = Inr res \<Longrightarrow> fine c res \<and> (\<forall>co x. usable c res co x \<longrightarrow> restorable c (crtc_conf g) x)" and "idle g"
    and "\<And>e. open_of c node = Inl e \<Longrightarrow> 0 < e" and "\<And>e. res_of c = Inl e \<Longrightarrow> 0 < e"
  shows "\<exists>ret g'. main_with set_dev draw c node g = Inr (ret, g') \<and> idle g' \<and> fds g' = fds g \<and> crtc_conf g' = crtc_conf g \<and>
    (ret = 0 \<longleftrightarrow> (\<exists>u. open_of c node = Inr u) \<and> dumb_cap c \<noteq> None \<and> dumb_cap c \<noteq> Some 0 \<and> (\<exists>res. res_of c = Inr res))"
proof -
  obtain g1 where 1: "say (''using card '' @ QUOTE @ ''%s'' @ QUOTE @ ''\<newline>'') [AStr node] g = Inr ((), g1)" "silent g g1"
    using say_silent [OF modeset_formats(18)] by blast
  have start: "main_with set_dev draw c node g = bindS (modeset_open c node) (\<lambda>ret.
     if ret \<noteq> 0 then modeset_report c ret
     else
       bindS (prepare_with set_dev c) (\<lambda>ret.
       bindS (if ret \<noteq> 0 then returnS () else session_with draw c) (\<lambda>_.
       bindS (upd (\<lambda>g. g\<lparr>fds := fds g - 1\<rparr>)) (\<lambda>_. modeset_report c ret)))) g1"
    unfolding main_with_def by (rule bindS_Inr [where m = "say f a" for f a, OF 1(1)])
  have refused: "\<exists>g'. main_with set_dev draw c node g = Inr (ret, g') \<and> idle g' \<and> fds g' = fds g \<and> crtc_conf g' = crtc_conf g"
    if "modeset_open c node g1 = Inr (ret, g2)" "ret \<noteq> 0" "silent g1 g2" for ret g2
  proof -
    obtain g' where "modeset_report c ret g2 = Inr (ret, g')" "silent g2 g'" using report_silent by blast
    then show ?thesis unfolding start bindS_Inr [where m = "modeset_open c node", OF that(1)]
      using that(2) idle_silent [OF silent_trans [OF silent_trans [OF 1(2) that(3)]]] assms(2) by auto
  qed
  show ?thesis
  proof (cases "open_of c node")
    case (Inl e)
    obtain g2 where "say (''cannot open '' @ QUOTE @ ''%s'' @ QUOTE @ '': %s\<newline>'') [AStr node, AStr (strerror c e)] g1 = Inr ((), g2)" "silent g1 g2"
      using say_silent [OF modeset_formats(19)] by blast
    then have "modeset_open c node g1 = Inr (- e, g2)" by (simp add: modeset_open_def Inl bindS_Inr returnS_def)
    then show ?thesis using refused [of "- e" g2] assms(3) [OF Inl] \<open>silent g1 g2\<close> Inl by auto
  next
    case op: (Inr u)
    let ?g = "g1\<lparr>fds := fds g1 + 1\<rparr>"
    show ?thesis
    proof (cases "dumb_cap c = None \<or> dumb_cap c = Some 0")
      case True
      obtain g2 where g2: "say (''drm device '' @ QUOTE @ ''%s'' @ QUOTE @ '' does not support dumb buffers\<newline>'') [AStr node] ?g = Inr ((), g2)" "silent ?g g2"
        using say_silent [OF modeset_formats(20)] by blast
      have o: "modeset_open c node g1 = Inr (- EOPNOTSUPP, g2\<lparr>fds := fds g2 - 1\<rparr>)"
        using True by (simp add: modeset_open_def op bindS_def [of "upd f" for f] bindS_def [of "say f a" for f a] upd_def g2(1) [simplified] returnS_def)
      have "silent g1 (g2\<lparr>fds := fds g2 - 1\<rparr>)" using g2(2) by (auto simp: silent_def)
      from refused [OF o _ this] True show ?thesis by (auto simp: EOPNOTSUPP_def)
    next
      case False
      then obtain cap where cap: "dumb_cap c = Some cap" "cap \<noteq> 0" by auto
      show ?thesis
      proof (cases "res_of c")
        case (Inr res)
        from main_runs [OF _ Inr assms(2) _ cap, of node] assms(1) [OF Inr] op obtain g' where
          "main_with set_dev draw c node g = Inr (0, g')" "idle g'" "fds g' = fds g" "crtc_conf g' = crtc_conf g" by auto
        then show ?thesis using op cap Inr by auto
      next
        case (Inl e)
        have o: "modeset_open c node g1 = Inr (0, ?g)"
          using op cap by (simp add: modeset_open_def bindS_def upd_def returnS_def)
        obtain g2 where g2: "say ''cannot retrieve DRM resources (%d): %s\<newline>'' (errno_args c e) ?g = Inr ((), g2)" "silent ?g g2"
          using say_silent [OF modeset_formats(14)] by blast
        have p: "prepare_with set_dev c ?g = Inr (- e, g2)"
          by (simp add: prepare_with_def Inl bindS_def [of "say f a" for f a] g2(1) [simplified] returnS_def)
        obtain g' where g': "modeset_report c (- e) (g2\<lparr>fds := fds g2 - 1\<rparr>) = Inr (- e, g')" "silent (g2\<lparr>fds := fds g2 - 1\<rparr>) g'"
          using report_silent by blast
        have "main_with set_dev draw c node g = Inr (- e, g')"
          unfolding start bindS_Inr [where m = "modeset_open c node", OF o]
          using assms(4) [OF Inl] g'(1) by (simp add: bindS_def p [simplified] returnS_def upd_def)
        moreover have "silent g1 (g2\<lparr>fds := fds g2 - 1\<rparr>)" using g2(2) by (auto simp: silent_def)
        from idle_silent [OF silent_trans [OF silent_trans [OF 1(2) this] g'(2)]]
        have "idle g'" "fds g' = fds g" "crtc_conf g' = crtc_conf g" using assms(2) by simp_all
        ultimately show ?thesis using assms(4) [OF Inl] Inl by auto
      qed
    qed
  qed
qed

end

interpretation modeset_c: mode_program modeset_setup_dev "\<lambda>co. co" small_card modeset_draw
  by unfold_locales (metis draw_runs viewed_same)

text \<open>A CRTC whose configuration cannot be read is used all the same: the null pointer is dereferenced at the end.\<close>

lemma cleanup_unsaved:
  "modeset_list g = d # ds \<Longrightarrow> saved_crtc d = None \<Longrightarrow> modeset_cleanup c g = Inl NullDeref"
  by (simp add: modeset_cleanup_def bindS_def upd_def)

subsection \<open>A card with two CRTCs\<close>

definition demo_mode :: mode_info where "demo_mode = \<lparr>hdisplay = 3, vdisplay = 2, mode_name = ''3x2''\<rparr>"

definition demo_res :: resources where "demo_res = \<lparr>connectors = [7, 8], crtcs = [40, 41]\<rparr>"

definition demo_connector :: "u32 \<Rightarrow> connector" where
  "demo_connector k = \<lparr>connector_id = k, connected = (k = 7), modes = [demo_mode], encoder_id = 20, encoders = [20]\<rparr>"

definition demo_crtc :: "u32 \<Rightarrow> crtc_info option" where
  "demo_crtc x = (if x = 40 \<or> x = 41 then Some \<lparr>cr_id = x, buffer_id = 60, cr_x = 0, cr_y = 0, cr_mode = demo_mode\<rparr> else None)"

definition demo_card :: card where
  "demo_card = \<lparr>open_of = (\<lambda>_. Inr ()), dumb_cap = Some 1, res_of = Inr demo_res, conn_of = (\<lambda>k. Inr (demo_connector k)),
     enc_of = (\<lambda>e. if e = 20 then Inr \<lparr>crtc_id = 40, possible_crtcs = 3\<rparr> else Inl 2),
     dumb_of = (\<lambda>g w h. if w = 3 \<and> h = 2 \<and> 1 \<notin> handles g then Inr (1, 16, 32) else Inl 12),
     fb_of = (\<lambda>g bo. if fbs g 50 = None then Inr 50 else Inl 12), offset_of = (\<lambda>g bo. Inr 4096), mmap_of = (\<lambda>g bo. Inr ()),
     set_of = (\<lambda>g ci ks. Inr ((crtc_conf g)(cr_id ci := Some ci))), rand_of = (\<lambda>n. word_of_nat n), strerror = (\<lambda>e. ''error'')\<rparr>"

definition demo_gpu :: "modeset_dev list \<Rightarrow> gpu" where
  "demo_gpu l = \<lparr>modeset_list = l, handles = handle ` set l, fbs = map_of (map (\<lambda>d. (fb d, handle d)) l),
     maps = map_of (map (\<lambda>d. (handle d, replicate (unat (dev_size d)) 0)) l), crtc_conf = demo_crtc, fds = 0, objs = 0, devs = length l,
     rands = 0, merr = []\<rparr>"

definition demo_dev :: modeset_dev where
  "demo_dev = \<lparr>width = 3, height = 2, stride = 16, dev_size = 32, handle = 1, dev_mode = demo_mode, fb = 50, conn = 7, crtc = 40,
     saved_crtc = None\<rparr>"

lemma demo_card_ok: "card_ok demo_card"
  by (simp add: card_ok_def demo_card_def)

lemma demo_idle: "idle (demo_gpu [])"
  by (simp add: idle_def demo_gpu_def)

lemma demo_res_ok: "res_of demo_card = Inr demo_res" "length (crtcs demo_res) \<le> 32"
  by (simp_all add: demo_card_def demo_res_def)

lemma demo_restorable: "usable demo_card demo_res co x \<longrightarrow> restorable demo_card demo_crtc x"
proof
  assume "usable demo_card demo_res co x"
  then have "x = 40 \<or> x \<in> set (crtcs demo_res)"
    by (auto simp: usable_def bound_crtc_def demo_card_def split: if_splits)
  then show "restorable demo_card demo_crtc x"
    by (auto simp: demo_res_def restorable_def sets_only_def demo_card_def demo_crtc_def)
qed

lemma demo_dev_ok: "devs_ok demo_card demo_res (demo_gpu [demo_dev])"
  by (auto simp: devs_ok_def Let_def demo_gpu_def demo_dev_def demo_card_def demo_res_def demo_connector_def set_up_def usable_def
      bound_crtc_def fits_def demo_mode_def intro!: exI [of _ "demo_connector 7"])

subsection \<open>The properties\<close>

text \<open>
  C19: The search for a CRTC finds one exactly if there is one that works with the connector (the one it is
  bound to, or one of the list that an encoder of the connector can drive), that no
  device has and whose number is below \<open>2 ^ 31\<close>: it then returns such a CRTC, the one the connector is bound to if that is among them,
  and otherwise \<open>-ENOENT\<close> with the device as it was. A free CRTC with a larger number is not found, since the code
  keeps the number in an \<open>int32_t\<close>. The search changes nothing else.
\<close>

theorem modeset_find_crtc_free:
  assumes "length (crtcs res) \<le> 32"
  shows "\<exists>ret d' g'. modeset_find_crtc c res co d g = Inr ((ret, d'), g') \<and> silent g g' \<and>
    (if \<exists>x. usable c res co x \<and> x \<notin> crtc ` set (modeset_list g) \<and> unat x < 2147483648
     then ret = 0 \<and> (\<exists>x. d' = d\<lparr>crtc := x\<rparr> \<and> usable c res co x \<and> x \<notin> crtc ` set (modeset_list g) \<and> unat x < 2147483648 \<and>
       (\<forall>y. bound_crtc c co = Some y \<and> y \<notin> crtc ` set (modeset_list g) \<and> unat y < 2147483648 \<longrightarrow> x = y))
     else ret = - ENOENT \<and> d' = d)"
proof -
  have pos: "0 \<le> sint x \<longleftrightarrow> unat x < 2147483648" for x :: u32 by (rule sint_nonneg_unat)
  obtain ret d' g' where r: "modeset_find_crtc c res co d g = Inr ((ret, d'), g')" "silent g g'"
    "if ret = 0 then \<exists>x. d' = d\<lparr>crtc := x\<rparr> \<and> usable c res co x \<and> crtc_free (modeset_list g) x \<and> 0 \<le> sint x \<and>
         (\<forall>y. bound_crtc c co = Some y \<and> crtc_free (modeset_list g) y \<and> 0 \<le> sint y \<longrightarrow> y = x)
     else ret = - ENOENT \<and> d' = d \<and> (\<forall>x. usable c res co x \<and> 0 \<le> sint x \<longrightarrow> \<not> crtc_free (modeset_list g) x)"
    using find_crtc_exact [OF assms] by blast
  show ?thesis
    by (rule exI [of _ ret], rule exI [of _ d'], rule exI [of _ g'])
      (use r in \<open>cases "ret = 0"; auto simp: crtc_free_def pos\<close>)
qed

text \<open>The second CRTC is free for a connector whose own is taken.\<close>

theorem modeset_find_crtc_free_witness:
  "\<exists>d' g'. modeset_find_crtc demo_card demo_res (demo_connector 7) zero_dev (demo_gpu [demo_dev]) = Inr ((0, d'), g') \<and>
     silent (demo_gpu [demo_dev]) g' \<and> crtc d' = 41"
proof -
  have u: "usable demo_card demo_res (demo_connector 7) x \<longleftrightarrow> x = 40 \<or> x = 41" for x
  proof -
    have "bound_crtc demo_card (demo_connector 7) = Some 40" by (simp add: bound_crtc_def demo_card_def demo_connector_def)
    moreover have "enc_of demo_card 20 = Inr \<lparr>crtc_id = 40, possible_crtcs = 3\<rparr>" by (simp add: demo_card_def)
    moreover have "bit (3 :: u32) 1" by simp
    ultimately show ?thesis
      by (auto simp: usable_def demo_res_def demo_connector_def less_2_cases_iff less_Suc_eq intro: exI [of _ "Suc 0"])
  qed
  have t: "crtc ` set (modeset_list (demo_gpu [demo_dev])) = {40}" by (simp add: demo_gpu_def demo_dev_def)
  have "\<exists>x. usable demo_card demo_res (demo_connector 7) x \<and> x \<notin> crtc ` set (modeset_list (demo_gpu [demo_dev])) \<and> unat x < 2147483648"
    unfolding t by (intro exI [of _ 41]) (simp add: u)
  then show ?thesis
    using modeset_find_crtc_free [OF demo_res_ok(2), of demo_card "demo_connector 7" zero_dev "demo_gpu [demo_dev]"]
    unfolding t by (auto simp: u)
qed

text \<open>
  C18: On an idle card \<open>modeset_prepare\<close> succeeds, whatever fails for single connectors, and
  leaves devices that share no CRTC, buffer or framebuffer, each set up for a connected
  connector with its first mode, a CRTC it can use and a buffer that holds all its rows;
  the buffers, framebuffers, mappings and devices that are allocated are those of the list, and no
  object of libdrm is left.
\<close>

theorem modeset_prepare_devices:
  assumes "card_ok c" and "res_of c = Inr res" and "length (crtcs res) \<le> 32" and "idle g"
  shows "\<exists>g'. modeset_prepare c g = Inr (0, g') \<and> devs_ok c res g' \<and> distinct (map crtc (modeset_list g')) \<and>
    objs g' = 0 \<and> fds g' = fds g \<and> crtc_conf g' = crtc_conf g"
proof -
  obtain g' where "modeset_prepare c g = Inr (0, g')" "devs_ok c res g'" "same_rest g g'"
    using first_mode.prepare_runs [of c res g] assms by (auto simp: small_card_def modeset_prepare_def)
  then show ?thesis using assms(4) by (auto simp: same_rest_def idle_def devs_ok_def Let_def)
qed

theorem modeset_prepare_devices_witness:
  "\<exists>g'. modeset_prepare demo_card (demo_gpu []) = Inr (0, g') \<and> devs_ok demo_card demo_res g' \<and> objs g' = 0"
  using modeset_prepare_devices [OF demo_card_ok demo_res_ok demo_idle] by blast

text \<open>
  C20: \<open>modeset_draw\<close> stays inside the mappings, and when it is done all pixels of all devices
  have the same value; nothing but the contents of the mappings has changed.
\<close>

theorem modeset_draw_paints:
  assumes "devs_ok c res g"
  shows "\<exists>g' v. modeset_draw c g = Inr ((), g') \<and> devs_ok c res g' \<and> modeset_list g' = modeset_list g \<and>
    crtc_conf g' = crtc_conf g \<and> (\<forall>d \<in> set (modeset_list g). painted v g' d)"
proof -
  obtain g' v where r: "modeset_draw c g = Inr ((), g')" "redrawn g g'" "\<forall>d \<in> set (modeset_list g). painted v g' d"
    using draw_runs [OF assms] by blast
  then show ?thesis using redrawn_keeps(1,2) [OF r(2)] redrawn_keeps(3) [OF r(2) assms] by (auto simp: same_rest_def)
qed

theorem modeset_draw_paints_witness:
  "\<exists>g' v. modeset_draw demo_card (demo_gpu [demo_dev]) = Inr ((), g') \<and> painted v g' demo_dev"
  using modeset_draw_paints [OF demo_dev_ok] by (auto simp: demo_gpu_def)

text \<open>
  C17: A run of the program on an idle card leaves the card as it was, whichever of the calls fail that open the card, ask for its
  capabilities, resources, connectors and encoders and create buffers, framebuffers and mappings: every CRTC has its old configuration, and no
  buffer, framebuffer, mapping, object, device or descriptor is left. This supposes that of every CRTC that a connector can use the
  configuration can be read and set again, and that setting it changes no other CRTC (\<open>restorable\<close>): a
  configuration that cannot be read is a null pointer at the end (\<open>cleanup_unsaved\<close>). The status is 0 exactly
  if the card could be opened, has dumb buffers and gave its resources.
\<close>

theorem modeset_main_restores:
  assumes "card_ok c" and "idle g" and "\<forall>node e. open_of c node = Inl e \<longrightarrow> 0 < e" and "\<forall>e. res_of c = Inl e \<longrightarrow> 0 < e"
    and "\<forall>res. res_of c = Inr res \<longrightarrow> length (crtcs res) \<le> 32 \<and> (\<forall>co x. usable c res co x \<longrightarrow> restorable c (crtc_conf g) x)"
  shows "\<exists>ret g'. modeset_main c argv g = Inr (ret, g') \<and> idle g' \<and> fds g' = fds g \<and> crtc_conf g' = crtc_conf g \<and>
    (ret = 0 \<longleftrightarrow> (\<exists>u. open_of c (if 1 < length argv then argv ! 1 else ''/dev/dri/card0'') = Inr u) \<and>
       dumb_cap c \<noteq> None \<and> dumb_cap c \<noteq> Some 0 \<and> (\<exists>res. res_of c = Inr res))"
  unfolding modeset_main_def by (rule modeset_c.main_always) (use assms in \<open>auto simp: small_card_def\<close>)

theorem modeset_main_restores_witness:
  "(\<exists>g'. modeset_main demo_card [''modeset''] (demo_gpu []) = Inr (0, g') \<and> idle g' \<and> crtc_conf g' = demo_crtc) \<and>
   (\<exists>ret g'. modeset_main (demo_card\<lparr>res_of := Inl 13\<rparr>) [''modeset''] (demo_gpu []) = Inr (ret, g') \<and> ret \<noteq> 0 \<and> idle g' \<and> fds g' = 0)"
proof
  have o: "open_of demo_card node = Inr ()" "dumb_cap demo_card = Some 1" "crtc_conf (demo_gpu []) = demo_crtc" "fds (demo_gpu []) = 0" for node
    by (simp_all add: demo_card_def demo_gpu_def)
  show "\<exists>g'. modeset_main demo_card [''modeset''] (demo_gpu []) = Inr (0, g') \<and> idle g' \<and> crtc_conf g' = demo_crtc"
    using modeset_main_restores [OF demo_card_ok demo_idle, of "[''modeset'']"] demo_restorable demo_res_ok by (auto simp: o)
  have "card_ok (demo_card\<lparr>res_of := Inl 13\<rparr>)" using demo_card_ok by (simp add: card_ok_def)
  then show "\<exists>ret g'. modeset_main (demo_card\<lparr>res_of := Inl 13\<rparr>) [''modeset''] (demo_gpu []) = Inr (ret, g') \<and> ret \<noteq> 0 \<and> idle g' \<and> fds g' = 0"
    using modeset_main_restores [OF _ demo_idle, of "demo_card\<lparr>res_of := Inl 13\<rparr>" "[''modeset'']"] by (auto simp: o)
qed

end
