(* ===== verification/Flip.thy ===== *)
theory Flip
  imports ModesetRun
begin

unbundle bit_operations_syntax

text \<open>
  The two programs with two framebuffers for each device,
  \<open>perftools/X/drm-howto/modeset-double-buffered.c\<close> and \<open>modeset-vsync.c\<close>: what both
  have in common, which is all but drawing and cleaning up, and the drawing and cleaning up of the
  first. Opening the card, searching a CRTC and creating one framebuffer are, line by line,
  the functions of \<open>modeset.c\<close>, and are those of the theory \<open>Modeset\<close> here; they
  run on the part of the state that is the card.
\<close>

subsection \<open>Devices\<close>

text \<open>\<open>struct modeset_buf\<close>; the mapping is known by the handle.\<close>

record modeset_buf =
  buf_width :: u32
  buf_height :: u32
  buf_stride :: u32
  buf_size :: u32
  buf_handle :: u32
  buf_fb :: u32

text \<open>
  \<open>struct modeset_dev\<close>. The fields from \<open>pflip_pending\<close> on are those of \<open>modeset-vsync.c\<close>; a
  colour is its value with its direction.
\<close>

record flip_dev =
  front_buf :: u32
  bufs :: "modeset_buf list"
  flip_mode :: mode_info
  flip_conn :: u32
  flip_crtc :: u32
  flip_saved :: "crtc_info option"
  pflip_pending :: bool
  cleanup :: bool
  red :: "byte \<times> bool"
  green :: "byte \<times> bool"
  blue :: "byte \<times> bool"

text \<open>
  The state: the card, the global list, the device that \<open>modeset_cleanup\<close> has taken off
  the list and not yet freed, and of the kernel the flips that wait for the next
  vertical blank, CRTC and framebuffer, and the CRTCs of the flips that are done and whose events have not been
  read. The last two count the calls of \<open>time\<close>, \<open>select\<close> and \<open>drmHandleEvent\<close>, and the page flips that
  were asked for while the last flip of their CRTC was still on its way.
\<close>

record flip_gpu =
  card_state :: gpu
  flip_list :: "flip_dev list"
  taken :: "flip_dev option"
  scheduled :: "u32 \<Rightarrow> u32 option"
  flip_queue :: "u32 list"
  ticks :: nat
  busy_calls :: nat

type_synonym 'a fm = "('a, flip_gpu) st"

definition fupd :: "(flip_gpu \<Rightarrow> flip_gpu) \<Rightarrow> unit fm" where "fupd f s = Inr ((), f s)"

text \<open>The devices that are allocated.\<close>

definition live :: "flip_gpu \<Rightarrow> flip_dev list" where
  "live s = (case taken s of None \<Rightarrow> [] | Some d \<Rightarrow> [d]) @ flip_list s"

text \<open>A function of \<open>modeset.c\<close> sees of the list what it reads there, the CRTCs.\<close>

definition as_dev :: "modeset_buf \<Rightarrow> modeset_dev" where
  "as_dev b = zero_dev\<lparr>width := buf_width b, height := buf_height b, stride := buf_stride b, dev_size := buf_size b,
     handle := buf_handle b, fb := buf_fb b\<rparr>"

definition crtc_view :: "flip_dev \<Rightarrow> modeset_dev" where
  "crtc_view d = zero_dev\<lparr>conn := flip_conn d, crtc := flip_crtc d\<rparr>"

definition on_card :: "'a mm \<Rightarrow> 'a fm" where
  "on_card m s =
     bindE (m ((card_state s)\<lparr>modeset_list := map crtc_view (flip_list s)\<rparr>)) (\<lambda>(r, g).
     Inr (r, s\<lparr>card_state := g\<lparr>modeset_list := modeset_list (card_state s)\<rparr>\<rparr>))"

subsection \<open>Setting up\<close>

definition flip_create_fb :: "card \<Rightarrow> modeset_buf \<Rightarrow> (int \<times> modeset_buf) fm" where
  "flip_create_fb c b =
     bindS (on_card (modeset_create_fb c (as_dev b))) (\<lambda>(ret, d).
     returnS (ret, b\<lparr>buf_stride := stride d, buf_size := dev_size d, buf_handle := handle d, buf_fb := fb d\<rparr>))"

definition modeset_destroy_fb :: "modeset_buf \<Rightarrow> unit fm" where
  "modeset_destroy_fb b =
     on_card (bindS (unmap (buf_handle b)) (\<lambda>_.
     bindS (rm_fb (buf_fb b)) (\<lambda>_. destroy_dumb (buf_handle b))))"

definition flip_find_crtc :: "card \<Rightarrow> resources \<Rightarrow> connector \<Rightarrow> flip_dev \<Rightarrow> (int \<times> flip_dev) fm" where
  "flip_find_crtc c res co d =
     bindS (on_card (modeset_find_crtc c res co (crtc_view d))) (\<lambda>(ret, v). returnS (ret, d\<lparr>flip_crtc := crtc v\<rparr>))"

text \<open>Both framebuffers: when the second one fails, the first is destroyed.\<close>

definition create_fbs :: "card \<Rightarrow> connector \<Rightarrow> flip_dev \<Rightarrow> modeset_buf \<Rightarrow> (int \<times> flip_dev) fm" where
  "create_fbs c co d b =
     bindS (flip_create_fb c b) (\<lambda>(ret, b0).
     if ret \<noteq> 0 then
       bindS (on_card (say ''cannot create framebuffer for connector %u\<newline>'' [AInt (connector_id co)])) (\<lambda>_.
       returnS (ret, d\<lparr>bufs := [b0, b]\<rparr>))
     else
       bindS (flip_create_fb c b) (\<lambda>(ret, b1).
       if ret \<noteq> 0 then
         bindS (on_card (say ''cannot create framebuffer for connector %u\<newline>'' [AInt (connector_id co)])) (\<lambda>_.
         bindS (modeset_destroy_fb b0) (\<lambda>_. returnS (ret, d\<lparr>bufs := [b0, b1]\<rparr>)))
       else returnS (0, d\<lparr>bufs := [b0, b1]\<rparr>)))"

definition zero_buf :: modeset_buf where
  "zero_buf = \<lparr>buf_width = 0, buf_height = 0, buf_stride = 0, buf_size = 0, buf_handle = 0, buf_fb = 0\<rparr>"

definition flip_setup_dev :: "card \<Rightarrow> resources \<Rightarrow> connector \<Rightarrow> flip_dev \<Rightarrow> (int \<times> flip_dev) fm" where
  "flip_setup_dev c res co d =
     (if \<not> connected co then
        bindS (on_card (say ''ignoring unused connector %u\<newline>'' [AInt (connector_id co)])) (\<lambda>_. returnS (- ENOENT, d))
      else case modes co of
        [] \<Rightarrow> bindS (on_card (say ''no valid mode for connector %u\<newline>'' [AInt (connector_id co)])) (\<lambda>_. returnS (- EFAULT, d))
      | m # _ \<Rightarrow>
          let b = zero_buf\<lparr>buf_width := ucast (hdisplay m), buf_height := ucast (vdisplay m)\<rparr>;
              d = d\<lparr>flip_mode := m, bufs := [b, b]\<rparr>
          in
          bindS (on_card (say ''mode for connector %u is %ux%u\<newline>'' [AInt (connector_id co), AInt (buf_width b), AInt (buf_height b)])) (\<lambda>_.
          bindS (flip_find_crtc c res co d) (\<lambda>(ret, d).
          if ret \<noteq> 0 then
            bindS (on_card (say ''no valid crtc for connector %u\<newline>'' [AInt (connector_id co)])) (\<lambda>_. returnS (ret, d))
          else create_fbs c co d b)))"

definition zero_flip_dev :: flip_dev where
  "zero_flip_dev = \<lparr>front_buf = 0, bufs = [zero_buf, zero_buf], flip_mode = zero_mode, flip_conn = 0, flip_crtc = 0, flip_saved = None,
     pflip_pending = False, cleanup = False, red = (0, False), green = (0, False), blue = (0, False)\<rparr>"

fun flip_connectors :: "card \<Rightarrow> resources \<Rightarrow> u32 list \<Rightarrow> nat \<Rightarrow> unit fm" where
  "flip_connectors c res [] i = returnS ()"
| "flip_connectors c res (k # ks) i =
     (case conn_of c k of
        Inl e \<Rightarrow>
          bindS (on_card (say ''cannot retrieve DRM connector %u:%u (%d): %s\<newline>'' ([AInt (word_of_nat i), AInt k] @ errno_args c e))) (\<lambda>_.
          flip_connectors c res ks (Suc i))
      | Inr co \<Rightarrow>
          bindS (on_card new_obj) (\<lambda>_.
          bindS (on_card (upd (\<lambda>g. g\<lparr>devs := devs g + 1\<rparr>))) (\<lambda>_.
          bindS (flip_setup_dev c res co (zero_flip_dev\<lparr>flip_conn := connector_id co\<rparr>)) (\<lambda>(ret, d).
          if ret \<noteq> 0 then
            bindS (if ret \<noteq> - ENOENT then
                     on_card (say ''cannot setup device for connector %u:%u (%d): %s\<newline>''
                       ([AInt (word_of_nat i), AInt k] @ errno_args c (- ret)))
                   else returnS ()) (\<lambda>_.
            bindS (on_card (upd (\<lambda>g. g\<lparr>devs := devs g - 1\<rparr>))) (\<lambda>_.
            bindS (on_card free_obj) (\<lambda>_. flip_connectors c res ks (Suc i))))
          else
            bindS (on_card free_obj) (\<lambda>_.
            bindS (fupd (\<lambda>s. s\<lparr>flip_list := d # flip_list s\<rparr>)) (\<lambda>_. flip_connectors c res ks (Suc i)))))))"

definition flip_prepare :: "card \<Rightarrow> int fm" where
  "flip_prepare c =
     (case res_of c of
        Inl e \<Rightarrow> bindS (on_card (say ''cannot retrieve DRM resources (%d): %s\<newline>'' (errno_args c e))) (\<lambda>_. returnS (- e))
      | Inr res \<Rightarrow>
          bindS (on_card new_obj) (\<lambda>_.
          bindS (flip_connectors c res (connectors res) 0) (\<lambda>_.
          bindS (on_card free_obj) (\<lambda>_. returnS 0))))"

subsection \<open>The program\<close>

definition show_buf :: "card \<Rightarrow> flip_dev \<Rightarrow> modeset_buf \<Rightarrow> (int + unit) fm" where
  "show_buf c d b =
     on_card (set_crtc c \<lparr>cr_id = flip_crtc d, buffer_id = buf_fb b, cr_x = 0, cr_y = 0, cr_mode = flip_mode d\<rparr> [flip_conn d])"

text \<open>The loop that sets every CRTC to the front buffer; the devices with their saved configurations.\<close>

primrec flip_set_loop :: "card \<Rightarrow> flip_dev list \<Rightarrow> flip_dev list fm" where
  "flip_set_loop c [] = returnS []"
| "flip_set_loop c (d # ds) =
     bindS (\<lambda>s. Inr (crtc_conf (card_state s) (flip_crtc d), s)) (\<lambda>old.
     bindS (if old = None then returnS () else on_card new_obj) (\<lambda>_.
     bindS (liftS (buf_at (bufs d) (unat (front_buf d)))) (\<lambda>b.
     bindS (show_buf c d b) (\<lambda>r.
     bindS (case r of
              Inl e \<Rightarrow> on_card (say ''cannot set CRTC for connector %u (%d): %s\<newline>'' ([AInt (flip_conn d)] @ errno_args c e))
            | Inr _ \<Rightarrow> returnS ()) (\<lambda>_.
     bindS (flip_set_loop c ds) (\<lambda>ds. returnS (d\<lparr>flip_saved := old\<rparr> # ds)))))))"

text \<open>The part of \<open>main\<close> between preparing and closing the card, for a way of drawing and of cleaning up.\<close>

definition flip_session :: "card \<Rightarrow> unit fm \<Rightarrow> unit fm \<Rightarrow> unit fm" where
  "flip_session c draw clean =
     bindS (\<lambda>s. flip_set_loop c (flip_list s) s) (\<lambda>ds.
     bindS (fupd (\<lambda>s. s\<lparr>flip_list := ds\<rparr>)) (\<lambda>_.
     bindS draw (\<lambda>_. clean)))"

definition flip_main :: "card \<Rightarrow> unit fm \<Rightarrow> unit fm \<Rightarrow> string list \<Rightarrow> int fm" where
  "flip_main c draw clean argv =
     (let node = if 1 < length argv then argv ! 1 else ''/dev/dri/card0'' in
      bindS (on_card (say (''using card '' @ QUOTE @ ''%s'' @ QUOTE @ ''\<newline>'') [AStr node])) (\<lambda>_.
      bindS (on_card (modeset_open c node)) (\<lambda>ret.
      if ret \<noteq> 0 then on_card (modeset_report c ret)
      else
        bindS (flip_prepare c) (\<lambda>ret.
        bindS (if ret \<noteq> 0 then returnS () else flip_session c draw clean) (\<lambda>_.
        bindS (on_card (upd (\<lambda>g. g\<lparr>fds := fds g - 1\<rparr>))) (\<lambda>_. on_card (modeset_report c ret)))))))"

subsection \<open>Drawing with \<open>drmModeSetCrtc\<close>\<close>

text \<open>The loops over rows and columns of the back buffer.\<close>

definition fill_buf :: "modeset_buf \<Rightarrow> u32 \<Rightarrow> unit fm" where
  "fill_buf b v = on_card (draw_rows (as_dev b) v 0 (unat (buf_height b)))"

definition back_buf :: "flip_dev \<Rightarrow> modeset_buf res" where
  "back_buf d = buf_at (bufs d) (unat (front_buf d XOR 1))"

definition swap_dev :: "card \<Rightarrow> u32 \<Rightarrow> flip_dev \<Rightarrow> flip_dev fm" where
  "swap_dev c v d =
     bindS (liftS (back_buf d)) (\<lambda>b.
     bindS (fill_buf b v) (\<lambda>_.
     bindS (show_buf c d b) (\<lambda>r.
     case r of
       Inl e \<Rightarrow>
         bindS (on_card (say ''cannot flip CRTC for connector %u (%d): %s\<newline>'' ([AInt (flip_conn d)] @ errno_args c e))) (\<lambda>_. returnS d)
     | Inr _ \<Rightarrow> returnS (d\<lparr>front_buf := front_buf d XOR 1\<rparr>))))"

primrec swap_devs :: "card \<Rightarrow> u32 \<Rightarrow> flip_dev list \<Rightarrow> flip_dev list fm" where
  "swap_devs c v [] = returnS []"
| "swap_devs c v (d # ds) = bindS (swap_dev c v d) (\<lambda>d. bindS (swap_devs c v ds) (\<lambda>ds. returnS (d # ds)))"

primrec swap_rounds :: "card \<Rightarrow> nat \<Rightarrow> byte \<times> bool \<Rightarrow> byte \<times> bool \<Rightarrow> byte \<times> bool \<Rightarrow> unit fm" where
  "swap_rounds c 0 r g b = returnS ()"
| "swap_rounds c (Suc n) r g b =
     bindS (on_card (next_color c (snd r) (fst r) 20)) (\<lambda>r.
     bindS (on_card (next_color c (snd g) (fst g) 10)) (\<lambda>g.
     bindS (on_card (next_color c (snd b) (fst b) 5)) (\<lambda>b.
     bindS (\<lambda>s. swap_devs c (color_word (fst r) (fst g) (fst b)) (flip_list s) s) (\<lambda>ds.
     bindS (fupd (\<lambda>s. s\<lparr>flip_list := ds\<rparr>)) (\<lambda>_. swap_rounds c n r g b)))))"

definition double_draw :: "card \<Rightarrow> unit fm" where
  "double_draw c =
     bindS (on_card (rand_byte c)) (\<lambda>r. bindS (on_card (rand_byte c)) (\<lambda>g. bindS (on_card (rand_byte c)) (\<lambda>b.
     swap_rounds c 50 (r, True) (g, True) (b, True))))"

text \<open>The end of both loops of \<open>modeset_cleanup\<close>: free the saved configuration, both framebuffers and the device.\<close>

definition free_dev :: "flip_dev \<Rightarrow> unit fm" where
  "free_dev d =
     bindS (if flip_saved d = None then returnS () else on_card free_obj) (\<lambda>_.
     bindS (liftS (buf_at (bufs d) 1)) (\<lambda>b1.
     bindS (modeset_destroy_fb b1) (\<lambda>_.
     bindS (liftS (buf_at (bufs d) 0)) (\<lambda>b0.
     bindS (modeset_destroy_fb b0) (\<lambda>_.
     bindS (on_card (upd (\<lambda>g. g\<lparr>devs := devs g - 1\<rparr>))) (\<lambda>_.
     fupd (\<lambda>s. s\<lparr>taken := None\<rparr>)))))))"

definition take_dev :: "flip_dev \<Rightarrow> flip_dev list \<Rightarrow> unit fm" where
  "take_dev d ds = fupd (\<lambda>s. s\<lparr>taken := Some d, flip_list := ds\<rparr>)"

primrec double_cleanup_loop :: "card \<Rightarrow> flip_dev list \<Rightarrow> unit fm" where
  "double_cleanup_loop c [] = returnS ()"
| "double_cleanup_loop c (d # ds) =
     bindS (take_dev d ds) (\<lambda>_.
     bindS (liftS (deref (flip_saved d))) (\<lambda>old.
     bindS (on_card (set_crtc c old [flip_conn d])) (\<lambda>_.
     bindS (free_dev d) (\<lambda>_. double_cleanup_loop c ds))))"

definition double_cleanup :: "card \<Rightarrow> unit fm" where
  "double_cleanup c s = double_cleanup_loop c (flip_list s) s"

definition double_main :: "card \<Rightarrow> string list \<Rightarrow> int fm" where
  "double_main c = flip_main c (double_draw c) (double_cleanup c)"

end
