(* ===== verification/VSync.thy ===== *)
theory VSync
  imports Flip
begin

unbundle bit_operations_syntax

text \<open>
  \<open>perftools/X/drm-howto/modeset-vsync.c\<close>: drawing with page flips, which the kernel does at
  the next vertical blank of the CRTC and reports with an event. What the world does is the
  record \<open>world\<close>: the clock, what \<open>select\<close> and the reads of \<open>drmHandleEvent\<close> return and which CRTCs have had a
  vertical blank before, all by the number of the call. An event carries the device that was passed with the
  flip; CRTCs of devices differ, so the CRTC of the flip stands for it. Of the kernel and libdrm
  \<open>page_flip\<close>, \<open>vblank\<close> and \<open>drmHandleEvent\<close> state what the comments of the source say of
  them: a flip is busy until the vertical blank that does it, and then there is one event for it.
\<close>

subsection \<open>Page flips\<close>

record world =
  flip_of :: "flip_gpu \<Rightarrow> u32 \<Rightarrow> u32 \<Rightarrow> int + unit"     \<comment> \<open>CRTC and framebuffer\<close>
  time_of :: "nat \<Rightarrow> int"
  select_of :: "nat \<Rightarrow> int + bool \<times> bool"             \<comment> \<open>input and card are readable\<close>
  vblank_of :: "nat \<Rightarrow> u32 list"
  read_of :: "nat \<Rightarrow> int + nat"                        \<comment> \<open>how many events fit\<close>

definition EBUSY :: int where "EBUSY = 16"

text \<open>\<open>drmModePageFlip\<close>: a CRTC whose last flip is not done yet is busy.\<close>

definition page_flip :: "world \<Rightarrow> u32 \<Rightarrow> u32 \<Rightarrow> (int + unit) fm" where
  "page_flip w x f s =
     (if scheduled s x \<noteq> None then Inr (Inl EBUSY, s\<lparr>busy_calls := busy_calls s + 1\<rparr>)
      else case flip_of w s x f of
        Inl e \<Rightarrow> Inr (Inl e, s)
      | Inr _ \<Rightarrow> Inr (Inr (), s\<lparr>scheduled := (scheduled s)(x := Some f)\<rparr>))"

text \<open>A vertical blank: the scheduled flip is done, and its event is there to be read.\<close>

definition vblank :: "u32 \<Rightarrow> flip_gpu \<Rightarrow> flip_gpu" where
  "vblank x s =
     (case scheduled s x of
        None \<Rightarrow> s
      | Some f \<Rightarrow>
          s\<lparr>card_state := (card_state s)\<lparr>crtc_conf :=
                (crtc_conf (card_state s))(x := map_option (\<lambda>ci. ci\<lparr>buffer_id := f\<rparr>) (crtc_conf (card_state s) x))\<rparr>,
            scheduled := (scheduled s)(x := None), flip_queue := flip_queue s @ [x]\<rparr>)"

text \<open>The device that an event is for.\<close>

definition get_dev :: "u32 \<Rightarrow> flip_dev fm" where
  "get_dev x s =
     (case find (\<lambda>d. flip_crtc d = x) (live s) of None \<Rightarrow> Inl UseAfterFree | Some d \<Rightarrow> Inr (d, s))"

definition store_in :: "flip_dev \<Rightarrow> flip_dev \<Rightarrow> flip_dev" where
  "store_in d e = (if flip_crtc e = flip_crtc d then d else e)"

definition put_dev :: "flip_dev \<Rightarrow> unit fm" where
  "put_dev d = fupd (\<lambda>s. s\<lparr>taken := map_option (store_in d) (taken s), flip_list := map (store_in d) (flip_list s)\<rparr>)"

subsection \<open>Drawing one device\<close>

definition morph_dev :: "card \<Rightarrow> flip_dev \<Rightarrow> flip_dev fm" where
  "morph_dev c d =
     bindS (on_card (next_color c (snd (red d)) (fst (red d)) 20)) (\<lambda>r.
     bindS (on_card (next_color c (snd (green d)) (fst (green d)) 10)) (\<lambda>g.
     bindS (on_card (next_color c (snd (blue d)) (fst (blue d)) 5)) (\<lambda>b.
     returnS (d\<lparr>red := r, green := g, blue := b\<rparr>))))"

definition dev_color :: "flip_dev \<Rightarrow> u32" where
  "dev_color d = color_word (fst (red d)) (fst (green d)) (fst (blue d))"

definition modeset_draw_dev :: "card \<Rightarrow> world \<Rightarrow> flip_dev \<Rightarrow> flip_dev fm" where
  "modeset_draw_dev c w d =
     bindS (morph_dev c d) (\<lambda>d.
     bindS (liftS (back_buf d)) (\<lambda>b.
     bindS (fill_buf b (dev_color d)) (\<lambda>_.
     bindS (page_flip w (flip_crtc d) (buf_fb b)) (\<lambda>r.
     case r of
       Inl e \<Rightarrow>
         bindS (on_card (say ''cannot flip CRTC for connector %u (%d): %s\<newline>'' ([AInt (flip_conn d)] @ errno_args c e))) (\<lambda>_. returnS d)
     | Inr _ \<Rightarrow> returnS (d\<lparr>front_buf := front_buf d XOR 1, pflip_pending := True\<rparr>)))))"

definition modeset_page_flip_event :: "card \<Rightarrow> world \<Rightarrow> u32 \<Rightarrow> unit fm" where
  "modeset_page_flip_event c w x =
     bindS (get_dev x) (\<lambda>d.
     let d = d\<lparr>pflip_pending := False\<rparr> in
     if cleanup d then put_dev d else bindS (modeset_draw_dev c w d) put_dev)"

subsection \<open>Events\<close>

primrec dispatch :: "card \<Rightarrow> world \<Rightarrow> u32 list \<Rightarrow> unit fm" where
  "dispatch c w [] = returnS ()"
| "dispatch c w (x # xs) = bindS (modeset_page_flip_event c w x) (\<lambda>_. dispatch c w xs)"

text \<open>The number of the call, and the vertical blanks before it.\<close>

definition next_tick :: "nat fm" where
  "next_tick s = Inr (ticks s, s\<lparr>ticks := ticks s + 1\<rparr>)"

definition drmHandleEvent :: "card \<Rightarrow> world \<Rightarrow> int fm" where
  "drmHandleEvent c w =
     bindS next_tick (\<lambda>n.
     bindS (fupd (fold vblank (vblank_of w n))) (\<lambda>_.
     case read_of w n of
       Inl e \<Rightarrow> returnS (- 1)
     | Inr k \<Rightarrow>
         bindS (\<lambda>s. Inr (take k (flip_queue s), s\<lparr>flip_queue := drop k (flip_queue s)\<rparr>)) (\<lambda>xs.
         bindS (dispatch c w xs) (\<lambda>_. returnS 0))))"

subsection \<open>The loop that draws\<close>

primrec first_frames :: "card \<Rightarrow> world \<Rightarrow> flip_dev list \<Rightarrow> flip_dev list fm" where
  "first_frames c w [] = returnS []"
| "first_frames c w (d # ds) =
     bindS (on_card (rand_byte c)) (\<lambda>r. bindS (on_card (rand_byte c)) (\<lambda>g. bindS (on_card (rand_byte c)) (\<lambda>b.
     bindS (modeset_draw_dev c w (d\<lparr>red := (r, True), green := (g, True), blue := (b, True)\<rparr>)) (\<lambda>d.
     bindS (first_frames c w ds) (\<lambda>ds. returnS (d # ds))))))"

definition time_call :: "world \<Rightarrow> int fm" where
  "time_call w = bindS next_tick (\<lambda>n. returnS (time_of w n))"

text \<open>One round: whether the loop goes on.\<close>

definition wait_round :: "card \<Rightarrow> world \<Rightarrow> bool fm" where
  "wait_round c w =
     bindS next_tick (\<lambda>n.
     case select_of w n of
       Inl e \<Rightarrow> bindS (on_card (say ''select() failed with %d: %s\<newline>'' (errno_args c e))) (\<lambda>_. returnS False)
     | Inr (input, readable) \<Rightarrow>
         if input then bindS (on_card (say ''exit due to user-input\<newline>'' [])) (\<lambda>_. returnS False)
         else if readable then bindS (drmHandleEvent c w) (\<lambda>_. returnS True)
         else returnS True)"

definition draw_round :: "card \<Rightarrow> world \<Rightarrow> int \<Rightarrow> bool fm" where
  "draw_round c w start =
     bindS (time_call w) (\<lambda>cur. if cur < start + 5 then wait_round c w else returnS False)"

partial_function (option) vsync_loop :: "card \<Rightarrow> world \<Rightarrow> int \<Rightarrow> flip_gpu \<Rightarrow> (unit \<times> flip_gpu) res option" where
  "vsync_loop c w start s =
     (case draw_round c w start s of
        Inl e \<Rightarrow> Some (Inl e)
      | Inr (again, s') \<Rightarrow> if again then vsync_loop c w start s' else Some (Inr ((), s')))"

text \<open>A loop that does not end is the fault \<open>NoReturn\<close>.\<close>

definition run_loop :: "(flip_gpu \<Rightarrow> (unit \<times> flip_gpu) res option) \<Rightarrow> unit fm" where
  "run_loop l s = (case l s of None \<Rightarrow> Inl NoReturn | Some r \<Rightarrow> r)"

definition vsync_draw :: "card \<Rightarrow> world \<Rightarrow> unit fm" where
  "vsync_draw c w =
     bindS (time_call w) (\<lambda>start.
     bindS (\<lambda>s. first_frames c w (flip_list s) s) (\<lambda>ds.
     bindS (fupd (\<lambda>s. s\<lparr>flip_list := ds\<rparr>)) (\<lambda>_. run_loop (vsync_loop c w start))))"

subsection \<open>Cleaning up\<close>

definition taken_dev :: "flip_dev fm" where
  "taken_dev s = bindE (deref (taken s)) (\<lambda>d. Inr (d, s))"

partial_function (option) flip_wait :: "card \<Rightarrow> world \<Rightarrow> flip_gpu \<Rightarrow> (unit \<times> flip_gpu) res option" where
  "flip_wait c w s =
     (case taken_dev s of
        Inl e \<Rightarrow> Some (Inl e)
      | Inr (d, _) \<Rightarrow>
          if pflip_pending d then
            case drmHandleEvent c w s of
              Inl e \<Rightarrow> Some (Inl e)
            | Inr (ret, s') \<Rightarrow> if ret \<noteq> 0 then Some (Inr ((), s')) else flip_wait c w s'
          else Some (Inr ((), s)))"

text \<open>One device: the one at the head of the list.\<close>

definition clean_dev :: "card \<Rightarrow> world \<Rightarrow> flip_dev \<Rightarrow> flip_dev list \<Rightarrow> unit fm" where
  "clean_dev c w d ds =
     bindS (take_dev (d\<lparr>cleanup := True\<rparr>) ds) (\<lambda>_.
     bindS (on_card (say ''wait for pending page-flip to complete...\<newline>'' [])) (\<lambda>_.
     bindS (run_loop (flip_wait c w)) (\<lambda>_.
     bindS taken_dev (\<lambda>d.
     bindS (if pflip_pending d then returnS ()
            else bindS (liftS (deref (flip_saved d))) (\<lambda>old. bindS (on_card (set_crtc c old [flip_conn d])) (\<lambda>_. returnS ()))) (\<lambda>_.
     free_dev d)))))"

text \<open>\<open>while (modeset_list)\<close>; every round takes one device, so the length of the list is enough.\<close>

primrec clean_rounds :: "card \<Rightarrow> world \<Rightarrow> nat \<Rightarrow> unit fm" where
  "clean_rounds c w 0 = returnS ()"
| "clean_rounds c w (Suc n) =
     (\<lambda>s. case flip_list s of
        [] \<Rightarrow> Inr ((), s)
      | d # ds \<Rightarrow> bindS (clean_dev c w d ds) (\<lambda>_. clean_rounds c w n) s)"

definition vsync_cleanup :: "card \<Rightarrow> world \<Rightarrow> unit fm" where
  "vsync_cleanup c w s = clean_rounds c w (length (flip_list s)) s"

definition vsync_main :: "card \<Rightarrow> world \<Rightarrow> string list \<Rightarrow> int fm" where
  "vsync_main c w = flip_main c (vsync_draw c w) (vsync_cleanup c w)"

end
