(* ===== verification/Kms.thy ===== *)
theory Kms
  imports VSync
begin

unbundle bit_operations_syntax

text \<open>
  \<open>perftools/X/drm-howto/modeset-atomic.c\<close>: drawing with atomic commits. A request is a list of settings of
  properties of CRTCs, planes and connectors; the card checks it and takes all of its settings
  or none. Creating one framebuffer, \<open>next_color\<close> and the loops over pixels are, line by line, those of
  \<open>modeset.c\<close> and run on the part of the state that is its state.
\<close>

subsection \<open>Objects with properties\<close>

text \<open>\<open>drmModePropertyRes\<close>\<close>

record prop_info =
  prop_id :: u32
  prop_name :: string

text \<open>
  \<open>struct drm_object\<close>: \<open>props\<close> may be a null pointer; it has the identifiers and the values of
  the properties, and \<open>props_info\<close> what \<open>drmModeGetProperty\<close> returned for each.
\<close>

record drm_object =
  obj_id :: u32
  props :: "(u32 \<times> u64) list option"
  props_info :: "prop_info option list"

record kms_output =
  out_front :: u32
  out_bufs :: "modeset_buf list"
  out_conn :: drm_object
  out_crtc :: drm_object
  out_plane :: drm_object
  out_mode :: mode_info
  mode_blob_id :: u32
  crtc_index :: u32
  out_pending :: bool
  out_cleanup :: bool
  out_red :: "byte \<times> bool"
  out_green :: "byte \<times> bool"
  out_blue :: "byte \<times> bool"

datatype object_type = OBJECT_CONNECTOR | OBJECT_PLANE | OBJECT_CRTC | OBJECT_OTHER

datatype client_cap = UNIVERSAL_PLANES | CLIENT_ATOMIC

datatype commit_flag = TEST_ONLY | ALLOW_MODESET | PAGE_FLIP_EVENT | ATOMIC_NONBLOCK

text \<open>Object, property and value.\<close>

type_synonym request = "(u32 \<times> u32 \<times> u64) list"

text \<open>
  The state: what \<open>modeset.c\<close> has of the card, the global list, and of the kernel the values that
  were set, the requests that wait for a vertical blank, by CRTC, the CRTCs of the events that have not been read and
  the blobs. The requests of \<open>libdrm\<close> and the blocks of memory that are allocated are counted.
\<close>

record kms =
  gpu_state :: gpu
  output_list :: "kms_output list"
  prop_vals :: "u32 \<Rightarrow> u32 \<Rightarrow> u64 option"
  commits :: "u32 \<Rightarrow> request option"
  crtc_events :: "u32 list"
  blobs :: "u32 set"
  reqs :: nat
  mallocs :: nat
  kms_ticks :: nat
  kms_out :: string

type_synonym 'a am = "('a, kms) st"

text \<open>What the calls for atomic commits return, beside the record \<open>card\<close>.\<close>

record kms_card =
  client_cap_of :: "client_cap \<Rightarrow> int"
  vblank_cap :: "u64 option"
  planes_of :: "int + u32 list"
  plane_of :: "u32 \<Rightarrow> int + u32"                      \<comment> \<open>possible CRTCs\<close>
  props_of :: "u32 \<Rightarrow> object_type \<Rightarrow> int + (u32 \<times> u64) list"
  prop_of :: "u32 \<Rightarrow> prop_info option"
  blob_of :: "kms \<Rightarrow> mode_info \<Rightarrow> int + u32"
  add_of :: "request \<Rightarrow> u32 \<times> u32 \<times> u64 \<Rightarrow> int + unit"
  commit_of :: "kms \<Rightarrow> commit_flag list \<Rightarrow> request \<Rightarrow> int + unit"
  stale_errno :: "kms \<Rightarrow> int"                          \<comment> \<open>\<open>errno\<close> when no call has failed\<close>

definition on_gpu :: "'a mm \<Rightarrow> 'a am" where
  "on_gpu m s = bindE (m (gpu_state s)) (\<lambda>(r, g). Inr (r, s\<lparr>gpu_state := g\<rparr>))"

definition kupd :: "(kms \<Rightarrow> kms) \<Rightarrow> unit am" where "kupd f s = Inr ((), f s)"

text \<open>Messages to the standard error and to the standard output.\<close>

definition warn :: "string \<Rightarrow> carg list \<Rightarrow> unit am" where
  "warn fmt args = bindS (liftS (vsprintf fmt args)) (\<lambda>t. kupd (\<lambda>s. s\<lparr>gpu_state := (gpu_state s)\<lparr>merr := merr (gpu_state s) @ t\<rparr>\<rparr>))"

definition tell :: "string \<Rightarrow> carg list \<Rightarrow> unit am" where
  "tell fmt args = bindS (liftS (vsprintf fmt args)) (\<lambda>t. kupd (\<lambda>s. s\<lparr>kms_out := kms_out s @ t\<rparr>))"

text \<open>Objects of libdrm, and memory.\<close>

definition add_objs :: "nat \<Rightarrow> unit am" where
  "add_objs n = kupd (\<lambda>s. s\<lparr>gpu_state := (gpu_state s)\<lparr>objs := objs (gpu_state s) + n\<rparr>\<rparr>)"

definition free_objs :: "nat \<Rightarrow> unit am" where
  "free_objs n = kupd (\<lambda>s. s\<lparr>gpu_state := (gpu_state s)\<lparr>objs := objs (gpu_state s) - n\<rparr>\<rparr>)"

definition malloc1 :: "unit am" where "malloc1 = kupd (\<lambda>s. s\<lparr>mallocs := mallocs s + 1\<rparr>)"
definition free1 :: "unit am" where "free1 = kupd (\<lambda>s. s\<lparr>mallocs := mallocs s - 1\<rparr>)"

subsection \<open>Opening the card\<close>

definition open_fd :: "unit am" where
  "open_fd = kupd (\<lambda>s. s\<lparr>gpu_state := (gpu_state s)\<lparr>fds := fds (gpu_state s) + 1\<rparr>\<rparr>)"

definition close_fd :: "unit am" where
  "close_fd = kupd (\<lambda>s. s\<lparr>gpu_state := (gpu_state s)\<lparr>fds := fds (gpu_state s) - 1\<rparr>\<rparr>)"

definition kms_open :: "card \<Rightarrow> kms_card \<Rightarrow> string \<Rightarrow> int am" where
  "kms_open c k node =
     (case open_of c node of
        Inl e \<Rightarrow>
          bindS (warn (''cannot open '' @ QUOTE @ ''%s'' @ QUOTE @ '': %s\<newline>'') [AStr node, AStr (strerror c e)]) (\<lambda>_. returnS (- e))
      | Inr _ \<Rightarrow>
          bindS open_fd (\<lambda>_.
          let ret = client_cap_of k UNIVERSAL_PLANES in
          if ret \<noteq> 0 then
            bindS (warn ''failed to set universal planes cap, %d\<newline>'' [AInt (word_of_int ret)]) (\<lambda>_. returnS ret)
          else
          let ret = client_cap_of k CLIENT_ATOMIC in
          if ret \<noteq> 0 then
            bindS (warn ''failed to set atomic cap, %d'' [AInt (word_of_int ret)]) (\<lambda>_. returnS ret)
          else if dumb_cap c = None \<or> dumb_cap c = Some 0 then
            bindS (warn (''drm device '' @ QUOTE @ ''%s'' @ QUOTE @ '' does not support dumb buffers\<newline>'') [AStr node]) (\<lambda>_.
            bindS close_fd (\<lambda>_. returnS (- EOPNOTSUPP)))
          else if vblank_cap k = None \<or> vblank_cap k = Some 0 then
            bindS (warn (''drm device '' @ QUOTE @ ''%s'' @ QUOTE @ '' does not support atomic KMS\<newline>'') [AStr node]) (\<lambda>_.
            bindS close_fd (\<lambda>_. returnS (- EOPNOTSUPP)))
          else returnS 0))"

subsection \<open>Properties\<close>

text \<open>The loop of \<open>get_property_value\<close>: every property is read and freed.\<close>

fun value_loop :: "kms_card \<Rightarrow> (u32 \<times> u64) list \<Rightarrow> string \<Rightarrow> u64 option am" where
  "value_loop k [] name = returnS None"
| "value_loop k ((p, v) # ps) name =
     (case prop_of k p of
        None \<Rightarrow> liftS (Inl NullDeref)
      | Some i \<Rightarrow>
          bindS (add_objs 1) (\<lambda>_. bindS (free_objs 1) (\<lambda>_.
          if prop_name i = name then returnS (Some v) else value_loop k ps name)))"

definition get_property_value :: "kms_card \<Rightarrow> (u32 \<times> u64) list option \<Rightarrow> string \<Rightarrow> int am" where
  "get_property_value k ps name =
     bindS (liftS (deref ps)) (\<lambda>ps.
     bindS (value_loop k ps name) (\<lambda>r. returnS (case r of None \<Rightarrow> - 1 | Some v \<Rightarrow> sint v)))"

definition type_str :: "object_type \<Rightarrow> string" where
  "type_str ty = (case ty of OBJECT_CONNECTOR \<Rightarrow> ''connector'' | OBJECT_PLANE \<Rightarrow> ''plane'' | OBJECT_CRTC \<Rightarrow> ''CRTC''
     | OBJECT_OTHER \<Rightarrow> ''unknown type'')"

definition infos :: "prop_info option list \<Rightarrow> nat" where
  "infos is = length (filter (\<lambda>i. i \<noteq> None) is)"

definition get_object_properties :: "card \<Rightarrow> kms_card \<Rightarrow> drm_object \<Rightarrow> object_type \<Rightarrow> drm_object am" where
  "get_object_properties c k ob ty =
     (case props_of k (obj_id ob) ty of
        Inl e \<Rightarrow>
          bindS (warn ''cannot get %s %d properties: %s\<newline>'' [AStr (type_str ty), AInt (obj_id ob), AStr (strerror c e)]) (\<lambda>_.
          returnS (ob\<lparr>props := None\<rparr>))
      | Inr ps \<Rightarrow>
          let is = map (\<lambda>(p, v). prop_of k p) ps in
          bindS (add_objs 1) (\<lambda>_. bindS malloc1 (\<lambda>_. bindS (add_objs (infos is)) (\<lambda>_.
          returnS (ob\<lparr>props := Some ps, props_info := is\<rparr>)))))"

text \<open>The identifier of a property by its name, or 0.\<close>

fun find_prop :: "prop_info option list \<Rightarrow> string \<Rightarrow> u32 res" where
  "find_prop [] name = Inr 0"
| "find_prop (None # is) name = Inl NullDeref"
| "find_prop (Some i # is) name = (if prop_name i = name then Inr (prop_id i) else find_prop is name)"

definition EINVAL :: int where "EINVAL = 22"
definition ENOMEM :: int where "ENOMEM = 12"

definition set_drm_object_property :: "kms_card \<Rightarrow> request \<Rightarrow> drm_object \<Rightarrow> string \<Rightarrow> u64 \<Rightarrow> (int \<times> request) am" where
  "set_drm_object_property k req ob name v =
     bindS (liftS (deref (props ob))) (\<lambda>_.
     bindS (liftS (find_prop (props_info ob) name)) (\<lambda>p.
     if p = 0 then bindS (warn ''no object property: %s\<newline>'' [AStr name]) (\<lambda>_. returnS (- EINVAL, req))
     else case add_of k req (obj_id ob, p, v) of
       Inl e \<Rightarrow> returnS (- e, req)
     | Inr _ \<Rightarrow> returnS (int (length req) + 1, req @ [(obj_id ob, p, v)])))"

subsection \<open>A CRTC and a plane\<close>

text \<open>A CRTC, or 0 when an output has it.\<close>

primrec unless_taken :: "kms_output list \<Rightarrow> u32 \<Rightarrow> u32" where
  "unless_taken [] x = x"
| "unless_taken (d # ds) x = (if obj_id (out_crtc d) = x then 0 else unless_taken ds x)"

fun kms_crtc_loop :: "encoder \<Rightarrow> kms_output list \<Rightarrow> u32 list \<Rightarrow> nat \<Rightarrow> (u32 \<times> nat) option res" where
  "kms_crtc_loop enc l [] j = Inr None"
| "kms_crtc_loop enc l (x # xs) j =
     (if 32 \<le> j then Inl SignedOverflow
      else if possible_crtcs enc AND push_bit j 1 = 0 then kms_crtc_loop enc l xs (Suc j)
      else if unless_taken l x > 0 then Inr (Some (x, j)) else kms_crtc_loop enc l xs (Suc j))"

fun kms_encoder_loop :: "card \<Rightarrow> resources \<Rightarrow> u32 list \<Rightarrow> nat \<Rightarrow> (u32 \<times> nat) option am" where
  "kms_encoder_loop c res [] i = returnS None"
| "kms_encoder_loop c res (e # es) i =
     (case enc_of c e of
        Inl err \<Rightarrow>
          bindS (warn ''cannot retrieve encoder %u:%u (%d): %s\<newline>'' ([AInt (word_of_nat i), AInt e] @ errno_args c err)) (\<lambda>_.
          kms_encoder_loop c res es (Suc i))
      | Inr enc \<Rightarrow>
          bindS (add_objs 1) (\<lambda>_.
          bindS (\<lambda>s. liftS (kms_crtc_loop enc (output_list s) (crtcs res) 0) s) (\<lambda>r.
          case r of
            Some (x, j) \<Rightarrow>
              bindS (tell ''crtc %u found for encoder %u, will need full modeset\<newline>'' [AInt x, AInt e]) (\<lambda>_.
              bindS (free_objs 1) (\<lambda>_. returnS (Some (x, j))))
          | None \<Rightarrow> bindS (free_objs 1) (\<lambda>_. kms_encoder_loop c res es (Suc i)))))"

text \<open>The CRTC of the encoder that the connector is bound to; its index is not looked for.\<close>

definition kms_current_crtc :: "card \<Rightarrow> connector \<Rightarrow> u32 option am" where
  "kms_current_crtc c co =
     (if encoder_id co = 0 then returnS None
      else case enc_of c (encoder_id co) of
        Inl _ \<Rightarrow> returnS None
      | Inr enc \<Rightarrow>
          bindS (add_objs 1) (\<lambda>_.
          bindS (\<lambda>s. Inr (unless_taken (output_list s) (crtc_id enc), s)) (\<lambda>x.
          bindS (free_objs 1) (\<lambda>_. returnS (if crtc_id enc \<noteq> 0 \<and> x > 0 then Some x else None)))))"

definition set_crtc_id :: "u32 \<Rightarrow> kms_output \<Rightarrow> kms_output" where
  "set_crtc_id x d = d\<lparr>out_crtc := (out_crtc d)\<lparr>obj_id := x\<rparr>\<rparr>"

definition kms_find_crtc :: "card \<Rightarrow> resources \<Rightarrow> connector \<Rightarrow> kms_output \<Rightarrow> (int \<times> kms_output) am" where
  "kms_find_crtc c res co d =
     bindS (kms_current_crtc c co) (\<lambda>r.
     case r of
       Some x \<Rightarrow> returnS (0, set_crtc_id x d)
     | None \<Rightarrow>
         bindS (kms_encoder_loop c res (encoders co) 0) (\<lambda>r.
         case r of
           Some (x, j) \<Rightarrow> returnS (0, (set_crtc_id x d)\<lparr>crtc_index := word_of_nat j\<rparr>)
         | None \<Rightarrow>
             bindS (warn ''cannot find suitable crtc for connector %u\<newline>'' [AInt (connector_id co)]) (\<lambda>_. returnS (- ENOENT, d))))"

text \<open>\<open>DRM_PLANE_TYPE_PRIMARY\<close>\<close>

definition PLANE_TYPE_PRIMARY :: int where "PLANE_TYPE_PRIMARY = 1"

text \<open>Whether a plane that works with the CRTC is a primary one.\<close>

definition is_primary :: "kms_card \<Rightarrow> u32 \<Rightarrow> bool am" where
  "is_primary k p =
     (case props_of k p OBJECT_PLANE of
        Inl _ \<Rightarrow> bindS (get_property_value k None ''type'') (\<lambda>v. returnS (v = PLANE_TYPE_PRIMARY))
      | Inr ps \<Rightarrow>
          bindS (add_objs 1) (\<lambda>_.
          bindS (get_property_value k (Some ps) ''type'') (\<lambda>v.
          bindS (free_objs 1) (\<lambda>_. returnS (v = PLANE_TYPE_PRIMARY)))))"

fun plane_loop :: "card \<Rightarrow> kms_card \<Rightarrow> u32 \<Rightarrow> u32 list \<Rightarrow> u32 option am" where
  "plane_loop c k j [] = returnS None"
| "plane_loop c k j (p # ps) =
     (case plane_of k p of
        Inl e \<Rightarrow> bindS (warn ''drmModeGetPlane(%u) failed: %s\<newline>'' [AInt p, AStr (strerror c e)]) (\<lambda>_. plane_loop c k j ps)
      | Inr possible \<Rightarrow>
          bindS (add_objs 1) (\<lambda>_.
          bindS (if 32 \<le> j then liftS (Inl SignedOverflow)
                 else if possible AND push_bit (unat j) 1 \<noteq> 0 then is_primary k p else returnS False) (\<lambda>found.
          bindS (free_objs 1) (\<lambda>_. if found then returnS (Some p) else plane_loop c k j ps))))"

definition kms_find_plane :: "card \<Rightarrow> kms_card \<Rightarrow> kms_output \<Rightarrow> (int \<times> kms_output) am" where
  "kms_find_plane c k d =
     (case planes_of k of
        Inl e \<Rightarrow> bindS (warn ''drmModeGetPlaneResources failed: %s\<newline>'' [AStr (strerror c e)]) (\<lambda>_. returnS (- ENOENT, d))
      | Inr ps \<Rightarrow>
          bindS (add_objs 1) (\<lambda>_.
          bindS (plane_loop c k (crtc_index d) ps) (\<lambda>r.
          bindS (free_objs 1) (\<lambda>_.
          case r of
            Some p \<Rightarrow>
              bindS (tell ''found primary plane, id: %d\<newline>'' [AInt p]) (\<lambda>_.
              returnS (0, d\<lparr>out_plane := (out_plane d)\<lparr>obj_id := p\<rparr>\<rparr>))
          | None \<Rightarrow> bindS (tell (''couldn'' @ QUOTE @ ''t find a primary plane\<newline>'') []) (\<lambda>_. returnS (- EINVAL, d))))))"

subsection \<open>Setting up an output\<close>

definition object_fini :: "drm_object \<Rightarrow> unit am" where
  "object_fini ob =
     bindS (liftS (deref (props ob))) (\<lambda>_.
     bindS (free_objs (infos (props_info ob))) (\<lambda>_. bindS free1 (\<lambda>_. free_objs 1)))"

definition setup_objects :: "card \<Rightarrow> kms_card \<Rightarrow> kms_output \<Rightarrow> (int \<times> kms_output) am" where
  "setup_objects c k d =
     bindS (get_object_properties c k (out_conn d) OBJECT_CONNECTOR) (\<lambda>ob.
     let d = d\<lparr>out_conn := ob\<rparr> in
     if props ob = None then returnS (- ENOMEM, d)
     else
       bindS (get_object_properties c k (out_crtc d) OBJECT_CRTC) (\<lambda>ob.
       let d = d\<lparr>out_crtc := ob\<rparr> in
       if props ob = None then bindS (object_fini (out_conn d)) (\<lambda>_. returnS (- ENOMEM, d))
       else
         bindS (get_object_properties c k (out_plane d) OBJECT_PLANE) (\<lambda>ob.
         let d = d\<lparr>out_plane := ob\<rparr> in
         if props ob = None then
           bindS (object_fini (out_crtc d)) (\<lambda>_. bindS (object_fini (out_conn d)) (\<lambda>_. returnS (- ENOMEM, d)))
         else returnS (0, d))))"

definition destroy_objects :: "kms_output \<Rightarrow> unit am" where
  "destroy_objects d =
     bindS (object_fini (out_conn d)) (\<lambda>_. bindS (object_fini (out_crtc d)) (\<lambda>_. object_fini (out_plane d)))"

definition kms_create_fb :: "card \<Rightarrow> modeset_buf \<Rightarrow> (int \<times> modeset_buf) am" where
  "kms_create_fb c b =
     bindS (on_gpu (modeset_create_fb c (as_dev b))) (\<lambda>(ret, d).
     returnS (ret, b\<lparr>buf_stride := stride d, buf_size := dev_size d, buf_handle := handle d, buf_fb := fb d\<rparr>))"

definition kms_destroy_fb :: "modeset_buf \<Rightarrow> unit am" where
  "kms_destroy_fb b =
     on_gpu (bindS (unmap (buf_handle b)) (\<lambda>_. bindS (rm_fb (buf_fb b)) (\<lambda>_. destroy_dumb (buf_handle b))))"

definition destroy_buf_at :: "kms_output \<Rightarrow> nat \<Rightarrow> unit am" where
  "destroy_buf_at d i = bindS (liftS (buf_at (out_bufs d) i)) kms_destroy_fb"

text \<open>The loop over the two buffers.\<close>

definition setup_buf :: "card \<Rightarrow> connector \<Rightarrow> nat \<Rightarrow> kms_output \<Rightarrow> (int \<times> kms_output) am" where
  "setup_buf c co i d =
     bindS (liftS (buf_at (modes co) 0)) (\<lambda>m.
     bindS (liftS (buf_at (out_bufs d) i)) (\<lambda>b.
     bindS (kms_create_fb c (b\<lparr>buf_width := ucast (hdisplay m), buf_height := ucast (vdisplay m)\<rparr>)) (\<lambda>(ret, b).
     let d = d\<lparr>out_bufs := (out_bufs d)[i := b]\<rparr> in
     bindS (if ret \<noteq> 0 \<and> i = 1 then destroy_buf_at d 0 else returnS ()) (\<lambda>_. returnS (ret, d)))))"

definition setup_framebuffers :: "card \<Rightarrow> connector \<Rightarrow> kms_output \<Rightarrow> (int \<times> kms_output) am" where
  "setup_framebuffers c co d =
     bindS (setup_buf c co 0 d) (\<lambda>(ret, d). if ret \<noteq> 0 then returnS (ret, d) else setup_buf c co 1 d)"

definition destroy_blob :: "u32 \<Rightarrow> unit am" where
  "destroy_blob b = kupd (\<lambda>s. s\<lparr>blobs := blobs s - {b}\<rparr>)"

definition output_destroy :: "kms_output \<Rightarrow> unit am" where
  "output_destroy d =
     bindS (destroy_objects d) (\<lambda>_.
     bindS (destroy_buf_at d 0) (\<lambda>_.
     bindS (destroy_buf_at d 1) (\<lambda>_.
     bindS (destroy_blob (mode_blob_id d)) (\<lambda>_. free1))))"

definition create_blob :: "kms_card \<Rightarrow> mode_info \<Rightarrow> (int + u32) am" where
  "create_blob k m s =
     (case blob_of k s m of Inl e \<Rightarrow> Inr (Inl e, s) | Inr b \<Rightarrow> Inr (Inr b, s\<lparr>blobs := insert b (blobs s)\<rparr>))"

definition zero_object :: drm_object where
  "zero_object = \<lparr>obj_id = 0, props = None, props_info = []\<rparr>"

definition zero_output :: kms_output where
  "zero_output = \<lparr>out_front = 0, out_bufs = [zero_buf, zero_buf], out_conn = zero_object, out_crtc = zero_object, out_plane = zero_object,
     out_mode = zero_mode, mode_blob_id = 0, crtc_index = 0, out_pending = False, out_cleanup = False,
     out_red = (0, False), out_green = (0, False), out_blue = (0, False)\<rparr>"

text \<open>The ends \<open>out_error\<close>, \<open>out_blob\<close> and \<open>out_obj\<close>, after their message.\<close>

definition out_error :: "string \<Rightarrow> carg list \<Rightarrow> kms_output option am" where
  "out_error fmt args = bindS (warn fmt args) (\<lambda>_. bindS free1 (\<lambda>_. returnS None))"

definition out_blob :: "kms_output \<Rightarrow> string \<Rightarrow> carg list \<Rightarrow> kms_output option am" where
  "out_blob d fmt args =
     bindS (warn fmt args) (\<lambda>_. bindS (destroy_blob (mode_blob_id d)) (\<lambda>_. bindS free1 (\<lambda>_. returnS None)))"

definition out_obj :: "kms_output \<Rightarrow> string \<Rightarrow> carg list \<Rightarrow> kms_output option am" where
  "out_obj d fmt args =
     bindS (warn fmt args) (\<lambda>_. bindS (destroy_objects d) (\<lambda>_.
     bindS (destroy_blob (mode_blob_id d)) (\<lambda>_. bindS free1 (\<lambda>_. returnS None))))"

text \<open>The part that has a blob to destroy when it fails, with its second half first: the objects and the buffers.\<close>

definition output_rest :: "card \<Rightarrow> kms_card \<Rightarrow> connector \<Rightarrow> kms_output \<Rightarrow> kms_output option am" where
  "output_rest c k co d =
     bindS (setup_objects c k d) (\<lambda>(ret, d).
     if ret \<noteq> 0 then out_blob d ''cannot get plane properties\<newline>'' []
     else
       bindS (setup_framebuffers c co d) (\<lambda>(ret, d).
       if ret \<noteq> 0 then out_obj d ''cannot create framebuffers for connector %u\<newline>'' [AInt (connector_id co)]
       else returnS (Some d)))"

definition output_fill :: "card \<Rightarrow> kms_card \<Rightarrow> resources \<Rightarrow> connector \<Rightarrow> kms_output \<Rightarrow> kms_output option am" where
  "output_fill c k res co d =
     bindS (kms_find_crtc c res co d) (\<lambda>(ret, d).
     if ret \<noteq> 0 then out_blob d ''no valid crtc for connector %u\<newline>'' [AInt (connector_id co)]
     else
       bindS (kms_find_plane c k d) (\<lambda>(ret, d).
       if ret \<noteq> 0 then out_blob d ''no valid plane for crtc %u\<newline>'' [AInt (obj_id (out_crtc d))]
       else output_rest c k co d))"

definition output_create :: "card \<Rightarrow> kms_card \<Rightarrow> resources \<Rightarrow> connector \<Rightarrow> kms_output option am" where
  "output_create c k res co =
     bindS malloc1 (\<lambda>_.
     let d = zero_output\<lparr>out_conn := zero_object\<lparr>obj_id := connector_id co\<rparr>\<rparr> in
     if \<not> connected co then out_error ''ignoring unused connector %u\<newline>'' [AInt (connector_id co)]
     else case modes co of
       [] \<Rightarrow> out_error ''no valid mode for connector %u\<newline>'' [AInt (connector_id co)]
     | m # _ \<Rightarrow>
         bindS (create_blob k m) (\<lambda>r.
         case r of
           Inl _ \<Rightarrow> out_error (''couldn'' @ QUOTE @ ''t create a blob property\<newline>'') []
         | Inr b \<Rightarrow>
             let d = d\<lparr>out_mode := m, mode_blob_id := b\<rparr> in
             bindS (liftS (buf_at (out_bufs d) 0)) (\<lambda>b0.
             bindS (warn ''mode for connector %u is %ux%u\<newline>'' [AInt (connector_id co), AInt (buf_width b0), AInt (buf_height b0)]) (\<lambda>_.
             output_fill c k res co d))))"

fun output_connectors :: "card \<Rightarrow> kms_card \<Rightarrow> resources \<Rightarrow> u32 list \<Rightarrow> nat \<Rightarrow> unit am" where
  "output_connectors c k res [] i = returnS ()"
| "output_connectors c k res (x # xs) i =
     (case conn_of c x of
        Inl e \<Rightarrow>
          bindS (warn ''cannot retrieve DRM connector %u:%u (%d): %s\<newline>'' ([AInt (word_of_nat i), AInt x] @ errno_args c e)) (\<lambda>_.
          output_connectors c k res xs (Suc i))
      | Inr co \<Rightarrow>
          bindS (add_objs 1) (\<lambda>_.
          bindS (output_create c k res co) (\<lambda>r.
          bindS (free_objs 1) (\<lambda>_.
          bindS (case r of None \<Rightarrow> returnS () | Some d \<Rightarrow> kupd (\<lambda>s. s\<lparr>output_list := d # output_list s\<rparr>)) (\<lambda>_.
          output_connectors c k res xs (Suc i))))))"

definition kms_prepare :: "card \<Rightarrow> kms_card \<Rightarrow> int am" where
  "kms_prepare c k =
     (case res_of c of
        Inl e \<Rightarrow> bindS (warn ''cannot retrieve DRM resources (%d): %s\<newline>'' (errno_args c e)) (\<lambda>_. returnS (- e))
      | Inr res \<Rightarrow>
          bindS (add_objs 1) (\<lambda>_.
          bindS (output_connectors c k res (connectors res) 0) (\<lambda>_.
          bindS (\<lambda>s. Inr (output_list s, s)) (\<lambda>l.
          if l = [] then bindS (warn (''couldn'' @ QUOTE @ ''t create any outputs\<newline>'') []) (\<lambda>_. returnS (- 1))
          else bindS (free_objs 1) (\<lambda>_. returnS 0)))))"

subsection \<open>Requests\<close>

definition obj_prop :: "kms_card \<Rightarrow> request \<Rightarrow> drm_object \<times> string \<times> u64 \<Rightarrow> (int \<times> request) am" where
  "obj_prop k req x = (case x of (ob, name, v) \<Rightarrow> set_drm_object_property k req ob name v)"

text \<open>The calls of \<open>set_drm_object_property\<close> in \<open>modeset_atomic_prepare_commit\<close>, in their order; the first that fails ends it.\<close>

definition settings :: "kms_output \<Rightarrow> modeset_buf \<Rightarrow> (drm_object \<times> string \<times> u64) list" where
  "settings d b =
     [(out_conn d, ''CRTC_ID'', ucast (obj_id (out_crtc d))),
      (out_crtc d, ''MODE_ID'', ucast (mode_blob_id d)),
      (out_crtc d, ''ACTIVE'', 1),
      (out_plane d, ''FB_ID'', ucast (buf_fb b)),
      (out_plane d, ''CRTC_ID'', ucast (obj_id (out_crtc d))),
      (out_plane d, ''SRC_X'', 0),
      (out_plane d, ''SRC_Y'', 0),
      (out_plane d, ''SRC_W'', ucast (push_bit 16 (buf_width b))),
      (out_plane d, ''SRC_H'', ucast (push_bit 16 (buf_height b))),
      (out_plane d, ''CRTC_X'', 0),
      (out_plane d, ''CRTC_Y'', 0),
      (out_plane d, ''CRTC_W'', ucast (buf_width b)),
      (out_plane d, ''CRTC_H'', ucast (buf_height b))]"

primrec set_all :: "kms_card \<Rightarrow> (drm_object \<times> string \<times> u64) list \<Rightarrow> request \<Rightarrow> (int \<times> request) am" where
  "set_all k [] req = returnS (0, req)"
| "set_all k (x # xs) req =
     bindS (obj_prop k req x) (\<lambda>(ret, req). if ret < 0 then returnS (- 1, req) else set_all k xs req)"

definition out_back :: "kms_output \<Rightarrow> modeset_buf res" where
  "out_back d = buf_at (out_bufs d) (unat (out_front d XOR 1))"

definition prepare_commit :: "kms_card \<Rightarrow> kms_output \<Rightarrow> request \<Rightarrow> (int \<times> request) am" where
  "prepare_commit k d req = bindS (liftS (out_back d)) (\<lambda>b. set_all k (settings d b) req)"

text \<open>
  \<open>drmModeAtomicCommit\<close>. A request that does not block is done at the next vertical blank of its CRTC, and until then
  the CRTC is busy; another is done at once. Events are asked for with every request that changes the card.
\<close>

definition is_crtc :: "kms_card \<Rightarrow> u32 \<Rightarrow> bool" where
  "is_crtc k x = (case props_of k x OBJECT_CRTC of Inl _ \<Rightarrow> False | Inr _ \<Rightarrow> True)"

definition req_crtcs :: "kms_card \<Rightarrow> request \<Rightarrow> u32 list" where
  "req_crtcs k req = remdups (filter (is_crtc k) (map fst req))"

definition apply_setting :: "u32 \<times> u32 \<times> u64 \<Rightarrow> (u32 \<Rightarrow> u32 \<Rightarrow> u64 option) \<Rightarrow> u32 \<Rightarrow> u32 \<Rightarrow> u64 option" where
  "apply_setting x vs = (case x of (ob, p, v) \<Rightarrow> vs(ob := (vs ob)(p := Some v)))"

definition apply_request :: "request \<Rightarrow> (u32 \<Rightarrow> u32 \<Rightarrow> u64 option) \<Rightarrow> u32 \<Rightarrow> u32 \<Rightarrow> u64 option" where
  "apply_request req vs = fold apply_setting req vs"

definition atomic_commit :: "kms_card \<Rightarrow> commit_flag list \<Rightarrow> request \<Rightarrow> (int + unit) am" where
  "atomic_commit k flags req s =
     (if ATOMIC_NONBLOCK \<in> set flags \<and> (\<exists>x \<in> set (req_crtcs k req). commits s x \<noteq> None) then Inr (Inl EBUSY, s)
      else case commit_of k s flags req of
        Inl e \<Rightarrow> Inr (Inl e, s)
      | Inr _ \<Rightarrow>
          Inr (Inr (),
            if TEST_ONLY \<in> set flags then s
            else if ATOMIC_NONBLOCK \<in> set flags then
              s\<lparr>commits := (\<lambda>x. if x \<in> set (req_crtcs k req) then Some req else commits s x)\<rparr>
            else s\<lparr>prop_vals := apply_request req (prop_vals s), crtc_events := crtc_events s @ req_crtcs k req\<rparr>))"

definition kms_vblank :: "u32 \<Rightarrow> kms \<Rightarrow> kms" where
  "kms_vblank x s =
     (case commits s x of
        None \<Rightarrow> s
      | Some req \<Rightarrow>
          s\<lparr>prop_vals := apply_request req (prop_vals s), commits := (commits s)(x := None), crtc_events := crtc_events s @ [x]\<rparr>)"

definition alloc_req :: "unit am" where "alloc_req = kupd (\<lambda>s. s\<lparr>reqs := reqs s + 1\<rparr>)"
definition free_req :: "unit am" where "free_req = kupd (\<lambda>s. s\<lparr>reqs := reqs s - 1\<rparr>)"

subsection \<open>Drawing\<close>

definition paint :: "card \<Rightarrow> kms_output \<Rightarrow> kms_output am" where
  "paint c d =
     bindS (on_gpu (next_color c (snd (out_red d)) (fst (out_red d)) 5)) (\<lambda>r.
     bindS (on_gpu (next_color c (snd (out_green d)) (fst (out_green d)) 5)) (\<lambda>g.
     bindS (on_gpu (next_color c (snd (out_blue d)) (fst (out_blue d)) 5)) (\<lambda>b.
     bindS (liftS (out_back d)) (\<lambda>buf.
     bindS (on_gpu (draw_rows (as_dev buf) (color_word (fst r) (fst g) (fst b)) 0 (unat (buf_height buf)))) (\<lambda>_.
     returnS (d\<lparr>out_red := r, out_green := g, out_blue := b\<rparr>))))))"

definition draw_out :: "card \<Rightarrow> kms_card \<Rightarrow> kms_output \<Rightarrow> kms_output am" where
  "draw_out c k d =
     bindS (paint c d) (\<lambda>d.
     bindS alloc_req (\<lambda>_.
     bindS (prepare_commit k d []) (\<lambda>(ret, req).
     if ret < 0 then
       bindS (\<lambda>s. warn ''prepare atomic commit failed, %d\<newline>'' [AInt (word_of_int (stale_errno k s))] s) (\<lambda>_. returnS d)
     else
       bindS (atomic_commit k [PAGE_FLIP_EVENT, ATOMIC_NONBLOCK] req) (\<lambda>r.
       bindS free_req (\<lambda>_.
       case r of
         Inl e \<Rightarrow> bindS (warn ''atomic commit failed, %d\<newline>'' [AInt (word_of_int e)]) (\<lambda>_. returnS d)
       | Inr _ \<Rightarrow> returnS (d\<lparr>out_front := out_front d XOR 1, out_pending := True\<rparr>))))))"

text \<open>The first output with the CRTC is changed in place.\<close>

primrec put_output :: "kms_output \<Rightarrow> kms_output list \<Rightarrow> kms_output list" where
  "put_output d' [] = []"
| "put_output d' (d # ds) = (if obj_id (out_crtc d) = obj_id (out_crtc d') then d' # ds else d # put_output d' ds)"

definition kms_page_flip_event :: "card \<Rightarrow> kms_card \<Rightarrow> u32 \<Rightarrow> unit am" where
  "kms_page_flip_event c k x =
     bindS (\<lambda>s. Inr (find (\<lambda>d. obj_id (out_crtc d) = x) (output_list s), s)) (\<lambda>r.
     case r of
       None \<Rightarrow> returnS ()
     | Some d \<Rightarrow>
         let d = d\<lparr>out_pending := False\<rparr> in
         bindS (if out_cleanup d then returnS d else draw_out c k d) (\<lambda>d.
         kupd (\<lambda>s. s\<lparr>output_list := put_output d (output_list s)\<rparr>)))"

text \<open>The loop that prepares all outputs; the result of the last call, which an empty list leaves unset.\<close>

fun prepare_all :: "kms_card \<Rightarrow> kms_output list \<Rightarrow> request \<Rightarrow> int option \<Rightarrow> (int option \<times> request) am" where
  "prepare_all k [] req ret = returnS (ret, req)"
| "prepare_all k (d # ds) req ret =
     bindS (prepare_commit k d req) (\<lambda>(r, req). if r < 0 then returnS (Some r, req) else prepare_all k ds req (Some r))"

primrec first_paint :: "card \<Rightarrow> kms_output list \<Rightarrow> kms_output list am" where
  "first_paint c [] = returnS []"
| "first_paint c (d # ds) =
     bindS (on_gpu (rand_byte c)) (\<lambda>r. bindS (on_gpu (rand_byte c)) (\<lambda>g. bindS (on_gpu (rand_byte c)) (\<lambda>b.
     bindS (paint c (d\<lparr>out_red := (r, True), out_green := (g, True), out_blue := (b, True)\<rparr>)) (\<lambda>d.
     bindS (first_paint c ds) (\<lambda>ds. returnS (d # ds))))))"

text \<open>After the test: draw, and commit.\<close>

definition modeset_commit :: "card \<Rightarrow> kms_card \<Rightarrow> request \<Rightarrow> int am" where
  "modeset_commit c k req =
     bindS (\<lambda>s. first_paint c (output_list s) s) (\<lambda>ds.
     bindS (kupd (\<lambda>s. s\<lparr>output_list := ds\<rparr>)) (\<lambda>_.
     bindS (atomic_commit k [ALLOW_MODESET, PAGE_FLIP_EVENT] req) (\<lambda>r.
     bindS (case r of Inl e \<Rightarrow> warn ''modeset atomic commit failed, %d\<newline>'' [AInt (word_of_int e)] | Inr _ \<Rightarrow> returnS ()) (\<lambda>_.
     bindS free_req (\<lambda>_. returnS (case r of Inl e \<Rightarrow> - e | Inr _ \<Rightarrow> 0))))))"

definition perform_modeset :: "card \<Rightarrow> kms_card \<Rightarrow> int am" where
  "perform_modeset c k =
     bindS alloc_req (\<lambda>_.
     bindS (\<lambda>s. prepare_all k (output_list s) [] None s) (\<lambda>(ret, req).
     case ret of
       None \<Rightarrow> liftS (Inl UninitRead)
     | Some ret \<Rightarrow>
         if ret < 0 then
           bindS (\<lambda>s. warn ''prepare atomic commit failed, %d\<newline>'' [AInt (word_of_int (stale_errno k s))] s) (\<lambda>_. returnS ret)
         else
           bindS (atomic_commit k [TEST_ONLY, ALLOW_MODESET] req) (\<lambda>r.
           case r of
             Inl e \<Rightarrow>
               bindS (warn ''test-only atomic commit failed, %d\<newline>'' [AInt (word_of_int e)]) (\<lambda>_.
               bindS free_req (\<lambda>_. returnS (- e)))
           | Inr _ \<Rightarrow> modeset_commit c k req)))"

subsection \<open>Events\<close>

primrec kms_dispatch :: "card \<Rightarrow> kms_card \<Rightarrow> u32 list \<Rightarrow> unit am" where
  "kms_dispatch c k [] = returnS ()"
| "kms_dispatch c k (x # xs) = bindS (kms_page_flip_event c k x) (\<lambda>_. kms_dispatch c k xs)"

definition kms_tick :: "nat am" where
  "kms_tick s = Inr (kms_ticks s, s\<lparr>kms_ticks := kms_ticks s + 1\<rparr>)"

definition kms_handle_event :: "card \<Rightarrow> kms_card \<Rightarrow> world \<Rightarrow> int am" where
  "kms_handle_event c k w =
     bindS kms_tick (\<lambda>n.
     bindS (kupd (fold kms_vblank (vblank_of w n))) (\<lambda>_.
     case read_of w n of
       Inl e \<Rightarrow> returnS (- 1)
     | Inr m \<Rightarrow>
         bindS (\<lambda>s. Inr (take m (crtc_events s), s\<lparr>crtc_events := drop m (crtc_events s)\<rparr>)) (\<lambda>xs.
         bindS (kms_dispatch c k xs) (\<lambda>_. returnS 0))))"

text \<open>One round of the loop of \<open>modeset_draw\<close>: whether it goes on.\<close>

definition kms_wait_round :: "card \<Rightarrow> kms_card \<Rightarrow> world \<Rightarrow> bool am" where
  "kms_wait_round c k w =
     bindS kms_tick (\<lambda>n.
     case select_of w n of
       Inl e \<Rightarrow> bindS (warn ''select() failed with %d: %s\<newline>'' (errno_args c e)) (\<lambda>_. returnS False)
     | Inr (input, readable) \<Rightarrow>
         if input then bindS (warn ''exit due to user-input\<newline>'' []) (\<lambda>_. returnS False)
         else if readable then bindS (kms_handle_event c k w) (\<lambda>_. returnS True)
         else returnS True)"

definition kms_draw_round :: "card \<Rightarrow> kms_card \<Rightarrow> world \<Rightarrow> int \<Rightarrow> bool am" where
  "kms_draw_round c k w start =
     bindS kms_tick (\<lambda>n. if time_of w n < start + 5 then kms_wait_round c k w else returnS False)"

partial_function (option) kms_loop :: "card \<Rightarrow> kms_card \<Rightarrow> world \<Rightarrow> int \<Rightarrow> kms \<Rightarrow> (unit \<times> kms) res option" where
  "kms_loop c k w start s =
     (case kms_draw_round c k w start s of
        Inl e \<Rightarrow> Some (Inl e)
      | Inr (again, s') \<Rightarrow> if again then kms_loop c k w start s' else Some (Inr ((), s')))"

definition run_kms :: "(kms \<Rightarrow> (unit \<times> kms) res option) \<Rightarrow> unit am" where
  "run_kms l s = (case l s of None \<Rightarrow> Inl NoReturn | Some r \<Rightarrow> r)"

definition kms_draw :: "card \<Rightarrow> kms_card \<Rightarrow> world \<Rightarrow> unit am" where
  "kms_draw c k w =
     bindS kms_tick (\<lambda>n.
     bindS (perform_modeset c k) (\<lambda>_. run_kms (kms_loop c k w (time_of w n))))"

subsection \<open>Cleaning up\<close>

text \<open>The output that is cleaned up stays at the head of the list while its flip is waited for.\<close>

definition head_output :: "kms_output am" where
  "head_output s = (case output_list s of [] \<Rightarrow> Inl NullDeref | d # _ \<Rightarrow> Inr (d, s))"

partial_function (option) kms_flip_wait :: "card \<Rightarrow> kms_card \<Rightarrow> world \<Rightarrow> kms \<Rightarrow> (unit \<times> kms) res option" where
  "kms_flip_wait c k w s =
     (case head_output s of
        Inl e \<Rightarrow> Some (Inl e)
      | Inr (d, _) \<Rightarrow>
          if out_pending d then
            case kms_handle_event c k w s of
              Inl e \<Rightarrow> Some (Inl e)
            | Inr (ret, s') \<Rightarrow> if ret \<noteq> 0 then Some (Inr ((), s')) else kms_flip_wait c k w s'
          else Some (Inr ((), s)))"

definition clean_output :: "card \<Rightarrow> kms_card \<Rightarrow> world \<Rightarrow> kms_output \<Rightarrow> kms_output list \<Rightarrow> unit am" where
  "clean_output c k w d ds =
     bindS (kupd (\<lambda>s. s\<lparr>output_list := d\<lparr>out_cleanup := True\<rparr> # ds\<rparr>)) (\<lambda>_.
     bindS (warn ''wait for pending page-flip to complete...\<newline>'' []) (\<lambda>_.
     bindS (run_kms (kms_flip_wait c k w)) (\<lambda>_.
     bindS head_output (\<lambda>d.
     bindS (kupd (\<lambda>s. s\<lparr>output_list := tl (output_list s)\<rparr>)) (\<lambda>_. output_destroy d)))))"

text \<open>\<open>while (output_list)\<close>; every round takes one output.\<close>

primrec clean_outputs :: "card \<Rightarrow> kms_card \<Rightarrow> world \<Rightarrow> nat \<Rightarrow> unit am" where
  "clean_outputs c k w 0 = returnS ()"
| "clean_outputs c k w (Suc n) =
     (\<lambda>s. case output_list s of
        [] \<Rightarrow> Inr ((), s)
      | d # ds \<Rightarrow> bindS (clean_output c k w d ds) (\<lambda>_. clean_outputs c k w n) s)"

definition kms_cleanup :: "card \<Rightarrow> kms_card \<Rightarrow> world \<Rightarrow> unit am" where
  "kms_cleanup c k w s = clean_outputs c k w (length (output_list s)) s"

subsection \<open>The program\<close>

definition kms_session :: "card \<Rightarrow> kms_card \<Rightarrow> world \<Rightarrow> unit am" where
  "kms_session c k w = bindS (kms_draw c k w) (\<lambda>_. kms_cleanup c k w)"

definition kms_main :: "card \<Rightarrow> kms_card \<Rightarrow> world \<Rightarrow> string list \<Rightarrow> int am" where
  "kms_main c k w argv =
     (let node = if 1 < length argv then argv ! 1 else ''/dev/dri/card0'' in
      bindS (warn (''using card '' @ QUOTE @ ''%s'' @ QUOTE @ ''\<newline>'') [AStr node]) (\<lambda>_.
      bindS (kms_open c k node) (\<lambda>ret.
      if ret \<noteq> 0 then on_gpu (modeset_report c ret)
      else
        bindS (kms_prepare c k) (\<lambda>ret.
        bindS (if ret \<noteq> 0 then returnS () else kms_session c k w) (\<lambda>_.
        bindS close_fd (\<lambda>_. on_gpu (modeset_report c ret)))))))"

end
