(* ===== verification/FlipSpec.thy ===== *)
theory FlipSpec
  imports Flip "HOL-Library.Multiset"
begin

unbundle bit_operations_syntax

text \<open>
  What the two programs with two framebuffers set up: the devices share no CRTC and no buffer, and
  what is allocated on the card is what they hold.
\<close>

subsection \<open>The card under the devices\<close>

definition crtcs_view :: "flip_gpu \<Rightarrow> gpu" where
  "crtcs_view s = (card_state s)\<lparr>modeset_list := map crtc_view (flip_list s)\<rparr>"

lemma on_card_Inr:
  "m (crtcs_view s) = Inr (r, g) \<Longrightarrow>
   on_card m s = Inr (r, s\<lparr>card_state := g\<lparr>modeset_list := modeset_list (card_state s)\<rparr>\<rparr>)"
  by (simp add: on_card_def crtcs_view_def)

lemma view_list: "modeset_list (crtcs_view s) = map crtc_view (flip_list s)"
  by (simp add: crtcs_view_def)

definition hushed :: "flip_gpu \<Rightarrow> flip_gpu \<Rightarrow> bool" where
  "hushed s s' = (\<exists>t. s' = s\<lparr>card_state := (card_state s)\<lparr>merr := t\<rparr>\<rparr>)"

lemma hushed_refl: "hushed s s"
proof -
  have "s = s\<lparr>card_state := (card_state s)\<lparr>merr := merr (card_state s)\<rparr>\<rparr>" by simp
  then show ?thesis unfolding hushed_def by blast
qed

lemma hushed_trans: "hushed s1 s2 \<Longrightarrow> hushed s2 s3 \<Longrightarrow> hushed s1 s3"
  by (auto simp: hushed_def)

lemma on_card_silent:
  assumes "silent (crtcs_view s) g"
  shows "hushed s (s\<lparr>card_state := g\<lparr>modeset_list := modeset_list (card_state s)\<rparr>\<rparr>)"
proof -
  obtain t where "g = (crtcs_view s)\<lparr>merr := t\<rparr>" using assms by (auto simp: silent_def)
  then have "g\<lparr>modeset_list := modeset_list (card_state s)\<rparr> = (card_state s)\<lparr>merr := t\<rparr>" by (simp add: crtcs_view_def)
  then show ?thesis unfolding hushed_def by metis
qed

lemma say_hushed: "formats fmt args \<Longrightarrow> \<exists>s'. on_card (say fmt args) s = Inr ((), s') \<and> hushed s s'"
  using say_silent [of fmt args "crtcs_view s"] on_card_Inr [where m = "say fmt args"] on_card_silent by blast

text \<open>Nothing but the card is different.\<close>

definition only_card :: "flip_gpu \<Rightarrow> flip_gpu \<Rightarrow> bool" where
  "only_card s s' = (\<exists>g. s' = s\<lparr>card_state := g\<rparr>)"

lemma only_card_trans: "only_card s1 s2 \<Longrightarrow> only_card s2 s3 \<Longrightarrow> only_card s1 s3"
  by (auto simp: only_card_def)

lemma only_card_keeps:
  assumes "only_card s s'"
  shows "flip_list s' = flip_list s" "taken s' = taken s" "scheduled s' = scheduled s" "flip_queue s' = flip_queue s" "ticks s' = ticks s"
  using assms by (auto simp: only_card_def)

lemma only_card_eq: "only_card s s' \<Longrightarrow> s' = s\<lparr>card_state := card_state s'\<rparr>"
  by (auto simp: only_card_def)

lemma hushedI: "only_card s s' \<Longrightarrow> silent (card_state s) (card_state s') \<Longrightarrow> hushed s s'"
  by (auto simp: only_card_def hushed_def silent_def)

lemma hushedD: "hushed s s' \<Longrightarrow> silent (card_state s) (card_state s')" "hushed s s' \<Longrightarrow> only_card s s'"
  by (auto simp: hushed_def silent_def only_card_def)

lemma on_card_upd:
  assumes "\<And>g l. f (g\<lparr>modeset_list := l\<rparr>) = (f g)\<lparr>modeset_list := l\<rparr>"
    and "modeset_list (f (card_state s)) = modeset_list (card_state s)"
  shows "on_card (upd f) s = Inr ((), s\<lparr>card_state := f (card_state s)\<rparr>)"
proof -
  have "f (card_state s) = (f (card_state s))\<lparr>modeset_list := modeset_list (card_state s)\<rparr>"
    using assms(2) by (cases "f (card_state s)") simp
  then show ?thesis by (simp add: on_card_def upd_def assms(1))
qed

subsection \<open>Buffers that are owned\<close>

definition owns :: "gpu \<Rightarrow> modeset_buf list \<Rightarrow> bool" where
  "owns g bs =
     (distinct (map buf_handle bs) \<and> distinct (map buf_fb bs) \<and>
      handles g = buf_handle ` set bs \<and> dom (maps g) = buf_handle ` set bs \<and> dom (fbs g) = buf_fb ` set bs \<and>
      (\<forall>b \<in> set bs. fits (as_dev b) \<and> fbs g (buf_fb b) = Some (buf_handle b) \<and>
         (\<exists>m. maps g (buf_handle b) = Some m \<and> length m = unat (buf_size b))))"

lemma as_dev_simps [simp]:
  "width (as_dev b) = buf_width b" "height (as_dev b) = buf_height b" "stride (as_dev b) = buf_stride b"
  "dev_size (as_dev b) = buf_size b" "handle (as_dev b) = buf_handle b" "fb (as_dev b) = buf_fb b"
  by (simp_all add: as_dev_def)

lemma crtc_view_simps [simp]: "crtc (crtc_view d) = flip_crtc d" "conn (crtc_view d) = flip_conn d"
  by (simp_all add: crtc_view_def)

lemma owns_cong:
  "handles g' = handles g \<Longrightarrow> maps g' = maps g \<Longrightarrow> fbs g' = fbs g \<Longrightarrow> owns g' bs = owns g bs"
  by (simp add: owns_def)

lemma owns_silent: "silent g g' \<Longrightarrow> owns g' bs = owns g bs"
  by (auto simp: silent_def owns_def)

lemma owns_mset:
  assumes "mset bs = mset bs'"
  shows "owns g bs = owns g bs'"
proof -
  have "set bs = set bs'" using assms by (rule mset_eq_setD)
  moreover have "distinct (map f bs) = distinct (map f bs')" for f :: "modeset_buf \<Rightarrow> u32"
    using assms by (intro mset_eq_imp_distinct_iff) simp
  ultimately show ?thesis by (simp add: owns_def)
qed

lemma owns_new:
  assumes "owns g bs" and "gets_buffer (as_dev b) g g'" and "fits (as_dev b)"
  shows "owns g' (b # bs)"
proof -
  obtain t where g': "g' = g\<lparr>handles := insert (buf_handle b) (handles g), fbs := (fbs g)(buf_fb b := Some (buf_handle b)),
      maps := (maps g)(buf_handle b := Some (replicate (unat (buf_size b)) 0)), merr := t\<rparr>"
    and new: "buf_handle b \<notin> handles g" "fbs g (buf_fb b) = None" using assms(2) by (auto simp: gets_buffer_def)
  have n: "buf_handle b \<notin> buf_handle ` set bs" "buf_fb b \<notin> buf_fb ` set bs"
    using new assms(1) by (auto simp: owns_def dom_def)
  then have "buf_handle x \<noteq> buf_handle b" "buf_fb x \<noteq> buf_fb b" if "x \<in> set bs" for x
    using that by (metis image_eqI)+
  then show ?thesis using assms(1,3) n by (auto simp: owns_def g')
qed

text \<open>Destroying a framebuffer that is owned.\<close>

definition without :: "modeset_buf \<Rightarrow> gpu \<Rightarrow> gpu" where
  "without b g = g\<lparr>maps := (maps g)(buf_handle b := None), fbs := (fbs g)(buf_fb b := None), handles := handles g - {buf_handle b}\<rparr>"

lemma destroy_fb_runs: "modeset_destroy_fb b s = Inr ((), s\<lparr>card_state := without b (card_state s)\<rparr>)"
  by (simp add: modeset_destroy_fb_def on_card_def bindS_def unmap_def rm_fb_def destroy_dumb_def upd_def without_def)

lemma owns_without:
  assumes "owns g (b # bs)"
  shows "owns (without b g) bs"
proof -
  have n: "buf_handle b \<notin> buf_handle ` set bs" "buf_fb b \<notin> buf_fb ` set bs" using assms by (simp_all add: owns_def)
  then have "buf_handle x \<noteq> buf_handle b" "buf_fb x \<noteq> buf_fb b" if "x \<in> set bs" for x
    using that by (metis image_eqI)+
  then show ?thesis using assms n by (auto simp: owns_def without_def)
qed

subsection \<open>Creating framebuffers\<close>

definition same_size :: "modeset_buf \<Rightarrow> modeset_buf \<Rightarrow> bool" where
  "same_size b b' = (buf_width b' = buf_width b \<and> buf_height b' = buf_height b)"

lemma gets_buffer_view:
  assumes "gets_buffer d (crtcs_view s) g"
  shows "gets_buffer d (card_state s) (g\<lparr>modeset_list := modeset_list (card_state s)\<rparr>)"
  using assms by (auto simp: gets_buffer_def crtcs_view_def)

lemma gets_buffer_cong: "handle d = handle d' \<Longrightarrow> fb d = fb d' \<Longrightarrow> dev_size d = dev_size d' \<Longrightarrow> gets_buffer d g g' = gets_buffer d' g g'"
  by (simp add: gets_buffer_def)

text \<open>The identifier of a framebuffer came from the card while its CRTCs were set as they are.\<close>

definition new_fb :: "card \<Rightarrow> gpu \<Rightarrow> u32 \<Rightarrow> bool" where
  "new_fb c g f = (\<exists>g' bo. fb_of c g' bo = Inr f \<and> crtc_conf g' = crtc_conf g)"

lemma silent_crtcs: "silent g g' \<Longrightarrow> crtc_conf g' = crtc_conf g"
  by (auto simp: silent_def)

lemma new_fb_cong: "crtc_conf g' = crtc_conf g \<Longrightarrow> new_fb c g' f = new_fb c g f"
  by (simp add: new_fb_def)

lemma map_fb_dev:
  assumes "map_fb c d g = Inr ((ret, d'), g')"
  shows "d' = d"
  using assms
  by (cases "offset_of c g (handle d)"; cases "mmap_of c g (handle d)")
    (auto simp: map_fb_def map_dumb_def bindS_def rm_fb_def destroy_dumb_def upd_def returnS_def bindE_eq_Inr split: prod.splits)

lemma create_fb_new:
  assumes "modeset_create_fb c d g = Inr ((0, d'), g')" and "card_ok c"
  shows "new_fb c g (fb d')"
proof -
  have say: "bindS (say t a) (\<lambda>_. returnS y) s = Inr (x, s') \<Longrightarrow> x = y" for t a s s' and x y :: "int \<times> modeset_dev"
    by (auto simp: bindS_def bindE_eq_Inr returnS_def split: prod.splits)
  obtain bo pitch sz where x: "dumb_of c g (width d) (height d) = Inr (bo, pitch, sz)"
  proof (cases "dumb_of c g (width d) (height d)")
    case (Inl e)
    then show thesis using assms(1) card_okD(1) [OF assms(2) Inl]
      by (auto simp: modeset_create_fb_def create_dumb_def bindS_def [of "create_dumb a b e" for a b e] dest!: say)
  next
    case (Inr r)
    then show thesis using that by (cases r) auto
  qed
  let ?d = "d\<lparr>stride := pitch, dev_size := ucast sz, handle := bo\<rparr>" and ?g = "g\<lparr>handles := insert bo (handles g)\<rparr>"
  have f: "fb_on_dumb c ?d ?g = Inr ((0, d'), g')"
    using assms(1) x by (simp add: modeset_create_fb_def create_dumb_def bindS_def)
  show ?thesis
  proof (cases "fb_of c ?g bo")
    case (Inl e)
    have say2: "bindS (say t a) (\<lambda>_. bindS (destroy_dumb h) (\<lambda>_. returnS y)) s = Inr (x, s') \<Longrightarrow> x = y" for t a h s s' and x y :: "int \<times> modeset_dev"
      by (auto simp: bindS_def bindE_eq_Inr returnS_def destroy_dumb_def upd_def split: prod.splits)
    show ?thesis using f Inl card_okD(2) [OF assms(2) Inl]
      by (auto simp: fb_on_dumb_def add_fb_def bindS_def [of "add_fb a b" for a b] dest!: say2)
  next
    case (Inr n)
    then have "map_fb c (?d\<lparr>fb := n\<rparr>) (?g\<lparr>fbs := (fbs ?g)(n := Some bo)\<rparr>) = Inr ((0, d'), g')"
      using f by (simp add: fb_on_dumb_def add_fb_def bindS_def)
    from map_fb_dev [OF this] have "fb d' = n" by simp
    then show ?thesis using Inr unfolding new_fb_def by (intro exI [of _ ?g] exI [of _ bo]) simp
  qed
qed

lemma flip_create_fb_runs:
  assumes "card_ok c"
  obtains ret b' s' where "flip_create_fb c b s = Inr ((ret, b'), s')"
    and "ret \<noteq> 0 \<Longrightarrow> hushed s s'"
    and "ret = 0 \<Longrightarrow> gets_buffer (as_dev b') (card_state s) (card_state s') \<and> only_card s s' \<and>
          fits (as_dev b') \<and> same_size b b' \<and> new_fb c (card_state s) (buf_fb b')"
proof -
  obtain ret d g where r: "modeset_create_fb c (as_dev b) (crtcs_view s) = Inr ((ret, d), g)"
    "if ret = 0 then gets_buffer d (crtcs_view s) g \<and> fits d \<and> same_screen (as_dev b) d else silent (crtcs_view s) g"
    using create_fb_spec [OF assms] unfolding fb_result_def by blast
  define b' where "b' = b\<lparr>buf_stride := stride d, buf_size := dev_size d, buf_handle := handle d, buf_fb := fb d\<rparr>"
  note o = on_card_Inr [where m = "modeset_create_fb c (as_dev b)", OF r(1)]
  have e: "flip_create_fb c b s = Inr ((ret, b'), s\<lparr>card_state := g\<lparr>modeset_list := modeset_list (card_state s)\<rparr>\<rparr>)"
    by (simp add: flip_create_fb_def bindS_def o returnS_def b'_def)
  show thesis
  proof (rule that [OF e])
    assume "ret \<noteq> 0"
    then have "silent (crtcs_view s) g" using r(2) by simp
    then show "hushed s (s\<lparr>card_state := g\<lparr>modeset_list := modeset_list (card_state s)\<rparr>\<rparr>)" by (rule on_card_silent)
  next
    assume "ret = 0"
    with r(2) have k: "gets_buffer d (crtcs_view s) g" "fits d" "same_screen (as_dev b) d" by simp_all
    then have "fits (as_dev b')" "same_size b b'" by (simp_all add: fits_def b'_def same_screen_def same_size_def)
    moreover have "gets_buffer (as_dev b') (card_state s) (g\<lparr>modeset_list := modeset_list (card_state s)\<rparr>)"
      using gets_buffer_view [OF k(1)] gets_buffer_cong [of "as_dev b'" d] by (simp add: b'_def)
    moreover have "only_card s (s\<lparr>card_state := g\<lparr>modeset_list := modeset_list (card_state s)\<rparr>\<rparr>)" by (auto simp: only_card_def)
    ultimately show "gets_buffer (as_dev b') (card_state s) (card_state (s\<lparr>card_state := g\<lparr>modeset_list := modeset_list (card_state s)\<rparr>\<rparr>)) \<and>
        only_card s (s\<lparr>card_state := g\<lparr>modeset_list := modeset_list (card_state s)\<rparr>\<rparr>) \<and> fits (as_dev b') \<and> same_size b b' \<and>
        new_fb c (card_state s) (buf_fb b')" using create_fb_new [OF _ assms] r(1) \<open>ret = 0\<close> by (force simp: new_fb_def crtcs_view_def b'_def)
  qed
qed

text \<open>Both, or neither: a failure of the second one leaves nothing of the first.\<close>

lemma without_gets:
  assumes "gets_buffer (as_dev b) g g'" and "silent g' g''" and "dom (maps g) = handles g"
  shows "silent g (without b g'')"
proof -
  obtain t where "g'' = g\<lparr>handles := insert (buf_handle b) (handles g), fbs := (fbs g)(buf_fb b := Some (buf_handle b)),
      maps := (maps g)(buf_handle b := Some (replicate (unat (buf_size b)) 0)), merr := t\<rparr>"
    using assms by (auto simp: gets_buffer_def silent_def)
  moreover have "handles g - {buf_handle b} = handles g" "(fbs g)(buf_fb b := None) = fbs g" "(maps g)(buf_handle b := None) = maps g"
    using assms(1,3) by (auto simp: gets_buffer_def dom_def)
  ultimately have "without b g'' = g\<lparr>merr := t\<rparr>" by (simp add: without_def)
  then show ?thesis unfolding silent_def by blast
qed

definition gets_buffers :: "card \<Rightarrow> flip_dev \<Rightarrow> gpu \<Rightarrow> gpu \<Rightarrow> bool" where
  "gets_buffers c d g g' = (\<exists>b0 b1 g1. bufs d = [b0, b1] \<and> gets_buffer (as_dev b0) g g1 \<and> gets_buffer (as_dev b1) g1 g' \<and>
     fits (as_dev b0) \<and> fits (as_dev b1) \<and> new_fb c g (buf_fb b0) \<and> new_fb c g (buf_fb b1))"

lemma create_fbs_runs:
  assumes "card_ok c" and "dom (maps (card_state s)) = handles (card_state s)"
  obtains ret d' s' where "create_fbs c co d b s = Inr ((ret, d'), s')"
    and "ret \<noteq> 0 \<Longrightarrow> hushed s s'"
    and "ret = 0 \<Longrightarrow> (\<exists>bs. d' = d\<lparr>bufs := bs\<rparr>) \<and> gets_buffers c d' (card_state s) (card_state s') \<and> only_card s s' \<and>
           (\<forall>x \<in> set (bufs d'). same_size b x)"
proof -
  obtain ret b0 s1 where 1: "flip_create_fb c b s = Inr ((ret, b0), s1)" "ret \<noteq> 0 \<Longrightarrow> hushed s s1"
    "ret = 0 \<Longrightarrow> gets_buffer (as_dev b0) (card_state s) (card_state s1) \<and> only_card s s1 \<and>
          fits (as_dev b0) \<and> same_size b b0 \<and> new_fb c (card_state s) (buf_fb b0)"
    using flip_create_fb_runs [OF assms(1)] by blast
  show thesis
  proof (cases "ret = 0")
    case False
    obtain s2 where "on_card (say ''cannot create framebuffer for connector %u\<newline>'' [AInt (connector_id co)]) s1 = Inr ((), s2)" "hushed s1 s2"
      using say_hushed [OF modeset_formats(11)] by blast
    then show thesis using that [of ret "d\<lparr>bufs := [b0, b]\<rparr>" s2] 1(1,2) False hushed_trans [of s s1 s2]
      by (simp add: create_fbs_def bindS_def returnS_def)
  next
    case True
    note k = 1(3) [OF True]
    obtain ret' b1 s2 where 2: "flip_create_fb c b s1 = Inr ((ret', b1), s2)" "ret' \<noteq> 0 \<Longrightarrow> hushed s1 s2"
      "ret' = 0 \<Longrightarrow> gets_buffer (as_dev b1) (card_state s1) (card_state s2) \<and> only_card s1 s2 \<and>
          fits (as_dev b1) \<and> same_size b b1 \<and> new_fb c (card_state s1) (buf_fb b1)"
      using flip_create_fb_runs [OF assms(1)] by blast
    show thesis
    proof (cases "ret' = 0")
      case False
      obtain s3 where 3: "on_card (say ''cannot create framebuffer for connector %u\<newline>'' [AInt (connector_id co)]) s2 = Inr ((), s3)" "hushed s2 s3"
        using say_hushed [OF modeset_formats(11)] by blast
      have h: "hushed s1 s3" using hushed_trans [OF 2(2) [OF False] 3(2)] .
      let ?s = "s3\<lparr>card_state := without b0 (card_state s3)\<rparr>"
      have "silent (card_state s) (card_state ?s)"
        using without_gets [of b0 "card_state s" "card_state s1" "card_state s3"] k hushedD(1) [OF h] assms(2) by simp
      moreover have "only_card s3 ?s" by (auto simp: only_card_def)
      then have "only_card s ?s" using k hushedD(2) [OF h] only_card_trans by blast
      ultimately have "hushed s ?s" using hushedI by blast
      then show thesis using that [of ret' "d\<lparr>bufs := [b0, b1]\<rparr>" "s3\<lparr>card_state := without b0 (card_state s3)\<rparr>"] 1(1) True 2(1) False 3(1)
        by (simp add: create_fbs_def bindS_def returnS_def destroy_fb_runs)
    next
      case t2: True
      note k2 = 2(3) [OF t2]
      have "only_card s s2" using k k2 only_card_trans by blast
      moreover have "gets_buffers c (d\<lparr>bufs := [b0, b1]\<rparr>) (card_state s) (card_state s2)"
        using k k2 new_fb_cong [of "card_state s1" "card_state s"] by (auto simp: gets_buffers_def gets_buffer_def)
      moreover have "\<exists>bs. d\<lparr>bufs := [b0, b1]\<rparr> = d\<lparr>bufs := bs\<rparr>" by blast
      ultimately show thesis using that [of 0 "d\<lparr>bufs := [b0, b1]\<rparr>" s2] 1(1) True 2(1) t2 k k2
        by (simp add: create_fbs_def bindS_def returnS_def)
    qed
  qed
qed

subsection \<open>All connectors\<close>

definition all_bufs :: "flip_dev list \<Rightarrow> modeset_buf list" where
  "all_bufs l = concat (map bufs l)"

text \<open>What is known of a device that has been set up for a connector.\<close>

definition dev_ok :: "card \<Rightarrow> resources \<Rightarrow> connector \<Rightarrow> flip_dev \<Rightarrow> bool" where
  "dev_ok c res co d =
     (connected co \<and> usable c res co (flip_crtc d) \<and> length (bufs d) = 2 \<and>
      (\<exists>m ms. modes co = m # ms \<and> flip_mode d = m \<and>
         (\<forall>b \<in> set (bufs d). buf_width b = ucast (hdisplay m) \<and> buf_height b = ucast (vdisplay m))))"

text \<open>A device as \<open>modeset_setup_dev\<close> leaves it.\<close>

definition fresh_dev :: "flip_dev \<Rightarrow> bool" where
  "fresh_dev d = (front_buf d = 0 \<and> \<not> pflip_pending d \<and> \<not> cleanup d)"

lemma formats_mode: "formats ''mode for connector %u is %ux%u\<newline>'' [AInt a, AInt x, AInt y]"
  by (rule modeset_formats)

lemma hushed_list: "hushed s s' \<Longrightarrow> flip_list s' = flip_list s"
  by (auto simp: hushed_def)

lemma crtc_free_view: "crtc_free (map crtc_view l) x = (x \<notin> flip_crtc ` set l)"
  by (auto simp: crtc_free_def image_image)

lemma flip_find_crtc_runs:
  assumes "length (crtcs res) \<le> 32"
  obtains ret d' s' where "flip_find_crtc c res co d s = Inr ((ret, d'), s')" and "hushed s s'"
    and "ret = 0 \<Longrightarrow> \<exists>x. d' = d\<lparr>flip_crtc := x\<rparr> \<and> usable c res co x \<and> x \<notin> flip_crtc ` set (flip_list s)"
proof -
  obtain ret v g where r: "modeset_find_crtc c res co (crtc_view d) (crtcs_view s) = Inr ((ret, v), g)" "silent (crtcs_view s) g"
    "if ret = 0 then \<exists>x. v = (crtc_view d)\<lparr>crtc := x\<rparr> \<and> usable c res co x \<and> crtc_free (modeset_list (crtcs_view s)) x
     else ret = - ENOENT \<and> (\<forall>x. usable c res co x \<and> 0 \<le> sint x \<longrightarrow> \<not> crtc_free (modeset_list (crtcs_view s)) x)"
    using find_crtc_spec [OF assms, of c co "crtc_view d" "crtcs_view s"] by blast
  note o = on_card_Inr [where m = "modeset_find_crtc c res co (crtc_view d)", OF r(1)]
  show thesis
  proof (rule that)
    show "flip_find_crtc c res co d s = Inr ((ret, d\<lparr>flip_crtc := crtc v\<rparr>), s\<lparr>card_state := g\<lparr>modeset_list := modeset_list (card_state s)\<rparr>\<rparr>)"
      by (simp add: flip_find_crtc_def bindS_def o returnS_def)
    show "hushed s (s\<lparr>card_state := g\<lparr>modeset_list := modeset_list (card_state s)\<rparr>\<rparr>)" by (rule on_card_silent [OF r(2)])
    assume "ret = 0"
    then show "\<exists>x. d\<lparr>flip_crtc := crtc v\<rparr> = d\<lparr>flip_crtc := x\<rparr> \<and> usable c res co x \<and> x \<notin> flip_crtc ` set (flip_list s)"
      using r(3) by (auto simp: view_list crtc_free_view)
  qed
qed

lemma flip_setup_dev_runs:
  assumes "card_ok c" and "length (crtcs res) \<le> 32" and "dom (maps (card_state s)) = handles (card_state s)" and "fresh_dev d"
  obtains ret d' s' where "flip_setup_dev c res co d s = Inr ((ret, d'), s')"
    and "ret \<noteq> 0 \<Longrightarrow> hushed s s'"
    and "ret = 0 \<Longrightarrow> dev_ok c res co d' \<and> fresh_dev d' \<and> flip_conn d' = flip_conn d \<and> flip_crtc d' \<notin> flip_crtc ` set (flip_list s) \<and>
           gets_buffers c d' (card_state s) (card_state s') \<and> only_card s s'"
proof (cases "connected co \<and> modes co \<noteq> []")
  case False
  obtain s1 s2 where "on_card (say ''ignoring unused connector %u\<newline>'' [AInt (connector_id co)]) s = Inr ((), s1)" "hushed s s1"
    "on_card (say ''no valid mode for connector %u\<newline>'' [AInt (connector_id co)]) s = Inr ((), s2)" "hushed s s2"
    using say_hushed [OF modeset_formats(7)] say_hushed [OF modeset_formats(8)] by metis
  then show thesis using False that [of "- ENOENT" d s1] that [of "- EFAULT" d s2]
    by (cases "connected co") (simp_all add: flip_setup_dev_def bindS_def returnS_def ENOENT_def EFAULT_def)
next
  case True
  then obtain m ms where m: "connected co" "modes co = m # ms" by (cases "modes co") auto
  define b where "b = zero_buf\<lparr>buf_width := ucast (hdisplay m), buf_height := ucast (vdisplay m)\<rparr>"
  define d1 where "d1 = d\<lparr>flip_mode := m, bufs := [b, b]\<rparr>"
  obtain s1 where s1: "on_card (say ''mode for connector %u is %ux%u\<newline>'' [AInt (connector_id co), AInt (buf_width b), AInt (buf_height b)]) s = Inr ((), s1)"
    "hushed s s1" using say_hushed [OF formats_mode] by blast
  obtain ret d2 s2 where f: "flip_find_crtc c res co d1 s1 = Inr ((ret, d2), s2)" "hushed s1 s2"
    "ret = 0 \<Longrightarrow> \<exists>x. d2 = d1\<lparr>flip_crtc := x\<rparr> \<and> usable c res co x \<and> x \<notin> flip_crtc ` set (flip_list s1)"
    using flip_find_crtc_runs [OF assms(2)] by blast
  have h2: "hushed s s2" using hushed_trans [OF s1(2) f(2)] .
  have e: "flip_setup_dev c res co d s =
      (if ret \<noteq> 0 then bindS (on_card (say ''no valid crtc for connector %u\<newline>'' [AInt (connector_id co)])) (\<lambda>_. returnS (ret, d2))
       else create_fbs c co d2 b) s2"
    using m s1(1) f(1) by (simp add: flip_setup_dev_def bindS_def b_def [symmetric] d1_def [symmetric] Let_def)
  show thesis
  proof (cases "ret = 0")
    case False
    obtain s3 where "on_card (say ''no valid crtc for connector %u\<newline>'' [AInt (connector_id co)]) s2 = Inr ((), s3)" "hushed s2 s3"
      using say_hushed [OF modeset_formats(10)] by blast
    then show thesis using that [of ret d2 s3] e False hushed_trans [OF h2] by (simp add: bindS_def returnS_def)
  next
    case True
    then obtain x where x: "d2 = d1\<lparr>flip_crtc := x\<rparr>" "usable c res co x" "x \<notin> flip_crtc ` set (flip_list s)"
      using f(3) hushed_list [OF s1(2)] by auto
    have "dom (maps (card_state s2)) = handles (card_state s2)" using assms(3) hushedD(1) [OF h2] unfolding silent_def by (elim exE) simp
    then obtain ret' d3 s3 where k: "create_fbs c co d2 b s2 = Inr ((ret', d3), s3)" "ret' \<noteq> 0 \<Longrightarrow> hushed s2 s3"
      "ret' = 0 \<Longrightarrow> (\<exists>bs. d3 = d2\<lparr>bufs := bs\<rparr>) \<and> gets_buffers c d3 (card_state s2) (card_state s3) \<and> only_card s2 s3 \<and>
           (\<forall>x \<in> set (bufs d3). same_size b x)"
      using create_fbs_runs [OF assms(1)] by blast
    show thesis
    proof (rule that [of ret' d3 s3])
      show "flip_setup_dev c res co d s = Inr ((ret', d3), s3)" using e True k(1) by simp
      show "hushed s s3" if "ret' \<noteq> 0" using hushed_trans [OF h2 k(2) [OF that]] .
      assume "ret' = 0"
      note k3 = k(3) [OF this]
      have d: "flip_crtc d3 = x" "flip_mode d3 = m" "front_buf d3 = front_buf d" "pflip_pending d3 = pflip_pending d" "cleanup d3 = cleanup d"
        "flip_conn d3 = flip_conn d"
        using k3 by (auto simp: x(1) d1_def)
      have "gets_buffers c d3 (card_state s) (card_state s3)"
        using k3 gets_buffer_silent [OF hushedD(1) [OF h2]] new_fb_cong [OF silent_crtcs [OF hushedD(1) [OF h2]]]
        unfolding gets_buffers_def by metis
      moreover have "dev_ok c res co d3"
        using k3 d m x(2) by (auto simp: dev_ok_def gets_buffers_def same_size_def b_def)
      moreover have "only_card s s3" using k3 hushedD(2) [OF h2] only_card_trans by blast
      moreover have "fresh_dev d3" using d assms(4) by (simp add: fresh_dev_def)
      ultimately show "dev_ok c res co d3 \<and> fresh_dev d3 \<and> flip_conn d3 = flip_conn d \<and> flip_crtc d3 \<notin> flip_crtc ` set (flip_list s) \<and>
           gets_buffers c d3 (card_state s) (card_state s3) \<and> only_card s s3" using d x(3) by simp
    qed
  qed
qed

text \<open>
  What a list of devices guarantees: no CRTC, buffer or framebuffer twice, every device set up for a
  connector of the card, and what is allocated is what the devices hold.
\<close>

definition devs_hold :: "card \<Rightarrow> resources \<Rightarrow> flip_dev list \<Rightarrow> gpu \<Rightarrow> bool" where
  "devs_hold c res l g =
     (distinct (map flip_crtc l) \<and> owns g (all_bufs l) \<and> devs g = length l \<and>
      (\<forall>d \<in> set l. \<exists>k \<in> set (connectors res). \<exists>co. conn_of c k = Inr co \<and> flip_conn d = connector_id co \<and> dev_ok c res co d))"

definition same_world :: "flip_gpu \<Rightarrow> flip_gpu \<Rightarrow> bool" where
  "same_world s s' = (taken s' = taken s \<and> scheduled s' = scheduled s \<and> flip_queue s' = flip_queue s \<and> ticks s' = ticks s \<and>
     same_rest (card_state s) (card_state s'))"

lemma same_world_trans: "same_world s1 s2 \<Longrightarrow> same_world s2 s3 \<Longrightarrow> same_world s1 s3"
  by (simp add: same_world_def same_rest_def)

lemma same_world_refl: "same_world s s"
  by (simp add: same_world_def same_rest_def)

lemma gets_buffers_owns:
  assumes "gets_buffers c d g g'" and "owns g bs"
  shows "owns g' (bufs d @ bs)" "same_rest g g'" "devs g' = devs g"
proof -
  obtain b0 b1 g1 where b: "bufs d = [b0, b1]" "gets_buffer (as_dev b0) g g1" "gets_buffer (as_dev b1) g1 g'" "fits (as_dev b0)" "fits (as_dev b1)"
    using assms(1) by (auto simp: gets_buffers_def)
  have "owns g' (b1 # b0 # bs)" using owns_new [OF owns_new [OF assms(2) b(2,4)] b(3,5)] .
  moreover have "mset (b1 # b0 # bs) = mset (bufs d @ bs)" by (simp add: b(1))
  ultimately show "owns g' (bufs d @ bs)" using owns_mset by blast
  show "same_rest g g'" "devs g' = devs g" using b(2,3) by (auto simp: gets_buffer_def same_rest_def)
qed

lemma gets_buffers_new: "gets_buffers c d g g' \<Longrightarrow> b \<in> set (bufs d) \<Longrightarrow> new_fb c g (buf_fb b)"
  by (auto simp: gets_buffers_def)

lemma devs_hold_new:
  assumes "devs_hold c res l g" and "gets_buffers c d (g\<lparr>objs := m, devs := n\<rparr>) g'" and "flip_crtc d \<notin> flip_crtc ` set l"
    and "k \<in> set (connectors res)" and "conn_of c k = Inr co" and "flip_conn d = connector_id co" and "dev_ok c res co d"
  shows "devs_hold c res (d # l) (g'\<lparr>objs := m', devs := Suc (devs g)\<rparr>)"
proof -
  have "owns (g\<lparr>objs := m, devs := n\<rparr>) (all_bufs l)" using assms(1) by (simp add: devs_hold_def owns_def)
  from gets_buffers_owns(1) [OF assms(2) this] have "owns (g'\<lparr>objs := m', devs := Suc (devs g)\<rparr>) (bufs d @ all_bufs l)"
    by (simp add: owns_def)
  then show ?thesis using assms by (auto simp: devs_hold_def all_bufs_def)
qed

lemma devs_hold_cong:
  assumes "owns g' (all_bufs l) = owns g (all_bufs l)" and "devs g' = devs g"
  shows "devs_hold c res l g' = devs_hold c res l g"
  using assms by (simp add: devs_hold_def)

lemma devs_hold_silent: "silent g g' \<Longrightarrow> devs_hold c res l g' = devs_hold c res l g"
  by (intro devs_hold_cong owns_silent) (auto simp: silent_def)

lemma hushed_same: "hushed s s' \<Longrightarrow> same_world s s' \<and> flip_list s' = flip_list s"
  by (auto simp: hushed_def same_world_def same_rest_def)

definition listed :: "card \<Rightarrow> resources \<Rightarrow> flip_gpu \<Rightarrow> bool" where
  "listed c res s = (devs_hold c res (flip_list s) (card_state s) \<and> (\<forall>d \<in> set (flip_list s). fresh_dev d) \<and>
     (\<forall>b \<in> set (all_bufs (flip_list s)). new_fb c (card_state s) (buf_fb b)))"

lemma listed_hushed: "hushed s s' \<Longrightarrow> listed c res s' = listed c res s"
  using devs_hold_silent [OF hushedD(1)] hushed_list new_fb_cong [OF silent_crtcs [OF hushedD(1)]] by (fastforce simp: listed_def)

lemma card_counts:
  "on_card new_obj s = Inr ((), s\<lparr>card_state := (card_state s)\<lparr>objs := objs (card_state s) + 1\<rparr>\<rparr>)"
  "on_card free_obj s = Inr ((), s\<lparr>card_state := (card_state s)\<lparr>objs := objs (card_state s) - 1\<rparr>\<rparr>)"
  "on_card (upd (\<lambda>g. g\<lparr>devs := devs g + 1\<rparr>)) s = Inr ((), s\<lparr>card_state := (card_state s)\<lparr>devs := devs (card_state s) + 1\<rparr>\<rparr>)"
  "on_card (upd (\<lambda>g. g\<lparr>devs := devs g - 1\<rparr>)) s = Inr ((), s\<lparr>card_state := (card_state s)\<lparr>devs := devs (card_state s) - 1\<rparr>\<rparr>)"
  "on_card (upd (\<lambda>g. g\<lparr>fds := fds g - 1\<rparr>)) s = Inr ((), s\<lparr>card_state := (card_state s)\<lparr>fds := fds (card_state s) - 1\<rparr>\<rparr>)"
  by (simp_all add: on_card_upd)

lemma bind_counts:
  "bindS (on_card new_obj) f s = f () (s\<lparr>card_state := (card_state s)\<lparr>objs := objs (card_state s) + 1\<rparr>\<rparr>)"
  "bindS (on_card free_obj) f s = f () (s\<lparr>card_state := (card_state s)\<lparr>objs := objs (card_state s) - 1\<rparr>\<rparr>)"
  "bindS (on_card (upd (\<lambda>g. g\<lparr>devs := devs g + 1\<rparr>))) f s = f () (s\<lparr>card_state := (card_state s)\<lparr>devs := devs (card_state s) + 1\<rparr>\<rparr>)"
  "bindS (on_card (upd (\<lambda>g. g\<lparr>devs := devs g - 1\<rparr>))) f s = f () (s\<lparr>card_state := (card_state s)\<lparr>devs := devs (card_state s) - 1\<rparr>\<rparr>)"
  "bindS (on_card (upd (\<lambda>g. g\<lparr>fds := fds g - 1\<rparr>))) f s = f () (s\<lparr>card_state := (card_state s)\<lparr>fds := fds (card_state s) - 1\<rparr>\<rparr>)"
  "bindS (fupd h) f s = f () (h s)"
  by (simp_all only: bindS_def card_counts fupd_def bindE_simps prod.case)

lemmas count_simps = bind_counts bind_counts [simplified]

lemma flip_connector_step:
  assumes "card_ok c" and "length (crtcs res) \<le> 32" and "k \<in> set (connectors res)" and "listed c res s"
  shows "\<exists>s1. flip_connectors c res (k # ks) i s = flip_connectors c res ks (Suc i) s1 \<and> listed c res s1 \<and> same_world s s1"
proof (cases "conn_of c k")
  case (Inl e)
  obtain s1 where "on_card (say ''cannot retrieve DRM connector %u:%u (%d): %s\<newline>'' ([AInt (word_of_nat i), AInt k] @ errno_args c e)) s = Inr ((), s1)"
    "hushed s s1" using say_hushed [OF modeset_formats(12)] by blast
  then show ?thesis using Inl listed_hushed assms(4) hushed_same by (intro exI [of _ s1]) (simp add: bindS_def)
next
  case (Inr co)
  define s0 where "s0 = s\<lparr>card_state := (card_state s)\<lparr>objs := objs (card_state s) + 1, devs := devs (card_state s) + 1\<rparr>\<rparr>"
  define d0 where "d0 = zero_flip_dev\<lparr>flip_conn := connector_id co\<rparr>"
  have "dom (maps (card_state s0)) = handles (card_state s0)"
    using assms(4) by (simp add: listed_def devs_hold_def owns_def s0_def)
  moreover have "fresh_dev d0" by (simp add: fresh_dev_def d0_def zero_flip_dev_def)
  ultimately obtain ret d s2 where r: "flip_setup_dev c res co d0 s0 = Inr ((ret, d), s2)" "ret \<noteq> 0 \<Longrightarrow> hushed s0 s2"
    "ret = 0 \<Longrightarrow> dev_ok c res co d \<and> fresh_dev d \<and> flip_conn d = flip_conn d0 \<and> flip_crtc d \<notin> flip_crtc ` set (flip_list s0) \<and>
           gets_buffers c d (card_state s0) (card_state s2) \<and> only_card s0 s2"
    using flip_setup_dev_runs [OF assms(1,2)] by blast
  have e: "flip_connectors c res (k # ks) i s = (if ret \<noteq> 0 then
            bindS (if ret \<noteq> - ENOENT then
                     on_card (say ''cannot setup device for connector %u:%u (%d): %s\<newline>''
                       ([AInt (word_of_nat i), AInt k] @ errno_args c (- ret)))
                   else returnS ()) (\<lambda>_.
            bindS (on_card (upd (\<lambda>g. g\<lparr>devs := devs g - 1\<rparr>))) (\<lambda>_.
            bindS (on_card free_obj) (\<lambda>_. flip_connectors c res ks (Suc i))))
          else
            bindS (on_card free_obj) (\<lambda>_.
            bindS (fupd (\<lambda>s. s\<lparr>flip_list := d # flip_list s\<rparr>)) (\<lambda>_. flip_connectors c res ks (Suc i)))) s2"
    by (simp add: Inr count_simps bindS_Inr [where m = "flip_setup_dev c res co d0", OF r(1)] s0_def [symmetric, simplified] d0_def [symmetric] del: append.simps)
  show ?thesis
  proof (cases "ret = 0")
    case True
    note k = r(3) [OF True]
    let ?g = "(card_state s2)\<lparr>objs := objs (card_state s2) - 1\<rparr>"
    let ?s = "s2\<lparr>card_state := ?g, flip_list := d # flip_list s2\<rparr>"
    have keep: "flip_list s2 = flip_list s" "taken s2 = taken s" "scheduled s2 = scheduled s" "flip_queue s2 = flip_queue s" "ticks s2 = ticks s"
      using k only_card_keeps [of s0 s2] by (simp_all add: s0_def)
    have g: "gets_buffers c d ((card_state s)\<lparr>objs := objs (card_state s) + 1, devs := devs (card_state s) + 1\<rparr>) (card_state s2)"
      using k by (simp add: s0_def)
    have hold: "devs_hold c res (flip_list s) (card_state s)" using assms(4) by (simp add: listed_def)
    have "owns (card_state s0) (all_bufs (flip_list s))" using hold by (simp add: devs_hold_def owns_def s0_def)
    then have rest: "same_rest (card_state s0) (card_state s2)" "devs (card_state s2) = devs (card_state s) + 1"
      using gets_buffers_owns(2,3) [of c d "card_state s0" "card_state s2"] k by (auto simp: s0_def)
    have "devs_hold c res (d # flip_list s) ((card_state s2)\<lparr>objs := objs (card_state s2) - 1, devs := Suc (devs (card_state s))\<rparr>)"
      using devs_hold_new [OF hold g _ assms(3) Inr] k by (simp add: s0_def d0_def)
    moreover have "(card_state s2)\<lparr>objs := objs (card_state s2) - 1, devs := Suc (devs (card_state s))\<rparr> = ?g" using rest(2) by (cases "card_state s2") simp
    moreover have "new_fb c ?g (buf_fb b)" if "b \<in> set (all_bufs (d # flip_list s))" for b
    proof -
      have "new_fb c (card_state s) (buf_fb b)"
        using that assms(4) gets_buffers_new [OF g] new_fb_cong [of "(card_state s)\<lparr>objs := m, devs := n\<rparr>" "card_state s" for m n]
        by (auto simp: listed_def all_bufs_def)
      then show ?thesis using rest(1) by (simp add: new_fb_def same_rest_def s0_def)
    qed
    ultimately have "listed c res ?s" using assms(4) k by (simp add: listed_def keep)
    moreover have "same_world s ?s" using rest(1) keep by (simp add: same_world_def same_rest_def s0_def)
    moreover have "flip_connectors c res (k # ks) i s = flip_connectors c res ks (Suc i) ?s"
      unfolding e using True by (simp add: count_simps)
    ultimately show ?thesis by blast
  next
    case False
    define a where "a = [AInt (word_of_nat i), AInt k] @ errno_args c (- ret)"
    define msg where "msg = (if ret \<noteq> - ENOENT then
        on_card (say ''cannot setup device for connector %u:%u (%d): %s\<newline>'' a) else returnS ())"
    obtain s3 where s3: "msg s2 = Inr ((), s3)" "hushed s2 s3"
      using say_hushed [OF modeset_formats(13), of "word_of_nat i" k c "- ret" s2] hushed_refl [of s2]
      by (cases "ret = - ENOENT") (auto simp: msg_def a_def returnS_def)
    let ?s = "s3\<lparr>card_state := (card_state s3)\<lparr>devs := devs (card_state s3) - 1, objs := objs (card_state s3) - 1\<rparr>\<rparr>"
    have "hushed s0 s3" using hushed_trans [OF r(2) [OF False] s3(2)] .
    then have "hushed s ?s" by (auto simp: hushed_def s0_def)
    moreover have "flip_connectors c res (k # ks) i s = flip_connectors c res ks (Suc i) ?s"
      unfolding e a_def [symmetric] msg_def [symmetric] using False by (simp add: bindS_Inr [where m = msg, OF s3(1)] count_simps)
    ultimately show ?thesis using listed_hushed assms(4) hushed_same by blast
  qed
qed

lemma flip_connectors_runs:
  assumes "card_ok c" and "length (crtcs res) \<le> 32"
  shows "set ks \<subseteq> set (connectors res) \<Longrightarrow> listed c res s \<Longrightarrow>
    \<exists>s'. flip_connectors c res ks i s = Inr ((), s') \<and> listed c res s' \<and> same_world s s'"
proof (induction ks arbitrary: i s)
  case Nil
  then show ?case by (simp add: returnS_def same_world_refl)
next
  case (Cons k ks)
  obtain s1 where "flip_connectors c res (k # ks) i s = flip_connectors c res ks (Suc i) s1" "listed c res s1" "same_world s s1"
    using flip_connector_step [OF assms, of k s ks i] Cons.prems by auto
  then show ?case using Cons.IH [of s1 "Suc i"] Cons.prems(1) same_world_trans [of s s1] by auto
qed

text \<open>A card that nothing of the program is on, and no flips.\<close>

definition flip_idle :: "flip_gpu \<Rightarrow> bool" where
  "flip_idle s =
     (let g = card_state s in
      flip_list s = [] \<and> taken s = None \<and> scheduled s = Map.empty \<and> flip_queue s = [] \<and>
      handles g = {} \<and> fbs g = Map.empty \<and> maps g = Map.empty \<and> devs g = 0 \<and> objs g = 0)"

lemma flip_prepare_runs:
  assumes "card_ok c" and "res_of c = Inr res" and "length (crtcs res) \<le> 32" and "flip_idle s"
  shows "\<exists>s'. flip_prepare c s = Inr (0, s') \<and> listed c res s' \<and> same_world s s'"
proof -
  let ?s = "s\<lparr>card_state := (card_state s)\<lparr>objs := objs (card_state s) + 1\<rparr>\<rparr>"
  have "listed c res ?s" using assms(4) by (simp add: listed_def devs_hold_def owns_def all_bufs_def flip_idle_def Let_def)
  then obtain s' where s': "flip_connectors c res (connectors res) 0 ?s = Inr ((), s')" "listed c res s'" "same_world ?s s'"
    using flip_connectors_runs [OF assms(1,3) order_refl] by blast
  let ?s' = "s'\<lparr>card_state := (card_state s')\<lparr>objs := objs (card_state s') - 1\<rparr>\<rparr>"
  have "flip_prepare c s = Inr (0, ?s')" using assms(2) by (simp add: flip_prepare_def bindS_Inr [where m = "flip_connectors c res (connectors res) 0", OF s'(1), simplified] count_simps card_counts returnS_def)
  moreover have "listed c res ?s'" using s'(2) by (simp add: listed_def devs_hold_def owns_def new_fb_def)
  moreover have "same_world s ?s'" using s'(3) by (simp add: same_world_def same_rest_def)
  ultimately show ?thesis by blast
qed

end
