(* ===== verification/KmsSpec.thy ===== *)
theory KmsSpec
  imports Kms FlipSpec
begin

unbundle bit_operations_syntax

text \<open>
  What \<open>modeset-atomic.c\<close> sets up: the CRTC and the plane of an output, and an account of everything that
  is allocated.
\<close>

subsection \<open>Steps that change little\<close>

definition muted :: "kms \<Rightarrow> kms \<Rightarrow> bool" where
  "muted s s' = (\<exists>t u. s' = s\<lparr>gpu_state := (gpu_state s)\<lparr>merr := t\<rparr>, kms_out := u\<rparr>)"

lemma muted_refl [simp]: "muted s s"
proof -
  have "s = s\<lparr>gpu_state := (gpu_state s)\<lparr>merr := merr (gpu_state s)\<rparr>, kms_out := kms_out s\<rparr>" by simp
  then show ?thesis unfolding muted_def by blast
qed

lemma mutedI: "muted s (s\<lparr>gpu_state := (gpu_state s)\<lparr>merr := t\<rparr>, kms_out := u\<rparr>)"
  unfolding muted_def by blast

lemma muted_at: "s' = s\<lparr>gpu_state := (gpu_state s)\<lparr>merr := t\<rparr>, kms_out := u\<rparr> \<Longrightarrow> muted s s'"
  using mutedI by simp

lemma mutedE:
  assumes "muted s s'"
  obtains t u where "s' = s\<lparr>gpu_state := (gpu_state s)\<lparr>merr := t\<rparr>, kms_out := u\<rparr>"
  using assms unfolding muted_def by blast

lemma muted_trans: "muted s1 s2 \<Longrightarrow> muted s2 s3 \<Longrightarrow> muted s1 s3"
proof (elim mutedE)
  fix t u t' u' assume "s2 = s1\<lparr>gpu_state := (gpu_state s1)\<lparr>merr := t\<rparr>, kms_out := u\<rparr>" "s3 = s2\<lparr>gpu_state := (gpu_state s2)\<lparr>merr := t'\<rparr>, kms_out := u'\<rparr>"
  then have "s3 = s1\<lparr>gpu_state := (gpu_state s1)\<lparr>merr := t'\<rparr>, kms_out := u'\<rparr>" by simp
  then show "muted s1 s3" using mutedI by simp
qed

lemma muted_keeps:
  assumes "muted s s'"
  shows "silent (gpu_state s) (gpu_state s')" "output_list s' = output_list s" "prop_vals s' = prop_vals s" "commits s' = commits s"
    "crtc_events s' = crtc_events s" "blobs s' = blobs s" "reqs s' = reqs s" "mallocs s' = mallocs s" "kms_ticks s' = kms_ticks s"
  using assms by (auto simp: muted_def silent_def)

lemma bind_kupd [simp]: "bindS (kupd f) m s = m () (f s)"
  by (simp add: bindS_def kupd_def)

lemmas kms_counts = add_objs_def free_objs_def malloc1_def free1_def alloc_req_def free_req_def destroy_blob_def open_fd_def close_fd_def

lemma warn_muted: "formats fmt args \<Longrightarrow> \<exists>s'. warn fmt args s = Inr ((), s') \<and> muted s s'"
proof -
  assume "formats fmt args"
  then obtain t where "vsprintf fmt args = Inr t" by (auto simp: formats_def)
  then have "warn fmt args s = Inr ((), s\<lparr>gpu_state := (gpu_state s)\<lparr>merr := merr (gpu_state s) @ t\<rparr>, kms_out := kms_out s\<rparr>)"
    by (simp add: warn_def bindS_def kupd_def liftS_def)
  then show ?thesis using mutedI by blast
qed

lemma tell_muted: "formats fmt args \<Longrightarrow> \<exists>s'. tell fmt args s = Inr ((), s') \<and> muted s s'"
proof -
  assume "formats fmt args"
  then obtain t where "vsprintf fmt args = Inr t" by (auto simp: formats_def)
  then have "tell fmt args s = Inr ((), s\<lparr>gpu_state := (gpu_state s)\<lparr>merr := merr (gpu_state s)\<rparr>, kms_out := kms_out s @ t\<rparr>)"
    by (simp add: tell_def bindS_def kupd_def liftS_def)
  then show ?thesis using mutedI by blast
qed

lemma warn_bind: "formats fmt args \<Longrightarrow> \<exists>s'. muted s s' \<and> (\<forall>m. bindS (warn fmt args) m s = m () s')"
  using warn_muted [of fmt args s] by (auto simp: bindS_def)

lemma tell_bind: "formats fmt args \<Longrightarrow> \<exists>s'. muted s s' \<and> (\<forall>m. bindS (tell fmt args) m s = m () s')"
  using tell_muted [of fmt args s] by (auto simp: bindS_def)

lemma kms_formats:
  "formats ''cannot get %s %d properties: %s\<newline>'' [AStr t, AInt a, AStr u]"
  "formats ''no object property: %s\<newline>'' [AStr t]"
  "formats ''crtc %u found for encoder %u, will need full modeset\<newline>'' [AInt a, AInt b]"
  "formats ''cannot find suitable crtc for connector %u\<newline>'' [AInt a]"
  "formats ''drmModeGetPlane(%u) failed: %s\<newline>'' [AInt a, AStr t]"
  "formats ''drmModeGetPlaneResources failed: %s\<newline>'' [AStr t]"
  "formats ''found primary plane, id: %d\<newline>'' [AInt a]"
  "formats (''couldn'' @ QUOTE @ ''t find a primary plane\<newline>'') []"
  "formats (''couldn'' @ QUOTE @ ''t create a blob property\<newline>'') []"
  "formats (''couldn'' @ QUOTE @ ''t create any outputs\<newline>'') []"
  "formats ''no valid plane for crtc %u\<newline>'' [AInt a]"
  "formats ''cannot get plane properties\<newline>'' []"
  "formats ''cannot create framebuffers for connector %u\<newline>'' [AInt a]"
  "formats ''prepare atomic commit failed, %d\<newline>'' [AInt a]"
  "formats ''test-only atomic commit failed, %d\<newline>'' [AInt a]"
  "formats ''modeset atomic commit failed, %d\<newline>'' [AInt a]"
  "formats ''atomic commit failed, %d\<newline>'' [AInt a]"
  "formats ''select() failed with %d: %s\<newline>'' (errno_args c e)"
  "formats ''exit due to user-input\<newline>'' []"
  "formats ''wait for pending page-flip to complete...\<newline>'' []"
  "formats ''failed to set universal planes cap, %d\<newline>'' [AInt a]"
  "formats ''failed to set atomic cap, %d'' [AInt a]"
  "formats (''drm device '' @ QUOTE @ ''%s'' @ QUOTE @ '' does not support atomic KMS\<newline>'') [AStr t]"
  by (simp_all add: formats_def errno_args_def QUOTE_def fmt_eval)

lemma kms_same [simp]:
  "s\<lparr>gpu_state := gpu_state s\<rparr> = s" "s\<lparr>mallocs := mallocs s\<rparr> = s" "s\<lparr>blobs := blobs s\<rparr> = s" "s\<lparr>reqs := reqs s\<rparr> = s"
  by simp_all

text \<open>An object of libdrm that is freed again.\<close>

lemma kms_borrowed:
  assumes "m (s\<lparr>gpu_state := (gpu_state s)\<lparr>objs := Suc (objs (gpu_state s))\<rparr>\<rparr>) =
      Inr (r, s'\<lparr>gpu_state := (gpu_state s')\<lparr>objs := Suc (objs (gpu_state s'))\<rparr>\<rparr>)"
  shows "bindS (add_objs 1) (\<lambda>_. bindS m (\<lambda>r. bindS (free_objs 1) (\<lambda>_. f r))) s = f r s'"
  using assms by (simp add: kms_counts bindS_def [of m])

definition with_obj :: "kms \<Rightarrow> kms" where
  "with_obj s = s\<lparr>gpu_state := (gpu_state s)\<lparr>objs := Suc (objs (gpu_state s))\<rparr>\<rparr>"

lemma muted_obj: "muted (with_obj s) s1 \<Longrightarrow> \<exists>s'. s1 = with_obj s' \<and> muted s s'"
proof -
  assume "muted (with_obj s) s1"
  then obtain t u where "s1 = (with_obj s)\<lparr>gpu_state := (gpu_state (with_obj s))\<lparr>merr := t\<rparr>, kms_out := u\<rparr>" by (auto simp: muted_def)
  then have "s1 = with_obj (s\<lparr>gpu_state := (gpu_state s)\<lparr>merr := t\<rparr>, kms_out := u\<rparr>)" by (simp add: with_obj_def)
  then show ?thesis unfolding muted_def by blast
qed

lemma add_obj: "bindS (add_objs 1) f s = f () (with_obj s)"
  by (simp add: kms_counts with_obj_def)

lemma free_obj: "bindS (free_objs 1) f (with_obj s) = f () s"
  by (simp add: kms_counts with_obj_def)

lemma with_obj_list [simp]: "output_list (with_obj s) = output_list s"
  by (simp add: with_obj_def)

subsection \<open>The CRTC of an output\<close>

definition out_crtcs :: "kms_output list \<Rightarrow> u32 set" where
  "out_crtcs l = (\<lambda>d. obj_id (out_crtc d)) ` set l"

lemma unless_taken_eq: "unless_taken l x = (if x \<in> out_crtcs l then 0 else x)"
  by (induction l) (auto simp: out_crtcs_def)

lemma kms_crtc_loop_runs:
  "j + length xs \<le> 32 \<Longrightarrow> \<exists>r. kms_crtc_loop enc l xs j = Inr r \<and>
     (case r of None \<Rightarrow> \<forall>i < length xs. \<not> (bit (possible_crtcs enc) (j + i) \<and> xs ! i \<noteq> 0 \<and> xs ! i \<notin> out_crtcs l)
      | Some (x, n) \<Rightarrow> \<exists>i < length xs. n = j + i \<and> x = xs ! i \<and> bit (possible_crtcs enc) (j + i) \<and> x \<noteq> 0 \<and> x \<notin> out_crtcs l)"
proof (induction xs arbitrary: j)
  case (Cons x xs)
  have j: "j < 32" "Suc j + length xs \<le> 32" using Cons.prems by simp_all
  show ?case
  proof (cases "bit (possible_crtcs enc) j \<and> x \<noteq> 0 \<and> x \<notin> out_crtcs l")
    case True
    then show ?thesis using j(1) by (auto simp: bit_mask unless_taken_eq word_gt_0 intro!: exI [of _ "Some (x, j)"] exI [of _ 0])
  next
    case False
    then have e: "kms_crtc_loop enc l (x # xs) j = kms_crtc_loop enc l xs (Suc j)"
      using j(1) by (auto simp: bit_mask unless_taken_eq word_gt_0)
    obtain r where r: "kms_crtc_loop enc l xs (Suc j) = Inr r"
      "case r of None \<Rightarrow> \<forall>i < length xs. \<not> (bit (possible_crtcs enc) (Suc j + i) \<and> xs ! i \<noteq> 0 \<and> xs ! i \<notin> out_crtcs l)
      | Some (x, n) \<Rightarrow> \<exists>i < length xs. n = Suc j + i \<and> x = xs ! i \<and> bit (possible_crtcs enc) (Suc j + i) \<and> x \<noteq> 0 \<and> x \<notin> out_crtcs l"
      using Cons.IH [OF j(2)] by blast
    show ?thesis
    proof (cases r)
      case None
      then have "\<not> (bit (possible_crtcs enc) (j + i) \<and> (x # xs) ! i \<noteq> 0 \<and> (x # xs) ! i \<notin> out_crtcs l)" if "i < length (x # xs)" for i
        using False r(2) that by (cases i) auto
      then show ?thesis using e r(1) None by simp
    next
      case (Some p)
      then obtain i where i: "i < length xs" "p = (xs ! i, Suc j + i)" "bit (possible_crtcs enc) (Suc j + i)" "xs ! i \<noteq> 0" "xs ! i \<notin> out_crtcs l"
        using r(2) by (cases p) auto
      then have "\<exists>m < length (x # xs). Suc j + i = j + m \<and> xs ! i = (x # xs) ! m \<and> bit (possible_crtcs enc) (j + m)"
        by (intro exI [of _ "Suc i"]) simp
      then show ?thesis unfolding e r(1) Some i(2) using i(4,5) by auto
    qed
  qed
qed simp

text \<open>A CRTC that an encoder of the connector can drive, with its number.\<close>

definition drives :: "card \<Rightarrow> resources \<Rightarrow> connector \<Rightarrow> u32 \<Rightarrow> nat \<Rightarrow> bool" where
  "drives c res co x j =
     (\<exists>e \<in> set (encoders co). \<exists>enc. enc_of c e = Inr enc \<and> j < length (crtcs res) \<and> bit (possible_crtcs enc) j \<and> crtcs res ! j = x)"

definition found_crtc :: "card \<Rightarrow> resources \<Rightarrow> kms_output list \<Rightarrow> u32 list \<Rightarrow> (u32 \<times> nat) option \<Rightarrow> bool" where
  "found_crtc c res l es r =
     (case r of
        None \<Rightarrow> \<forall>e \<in> set es. \<forall>enc j. enc_of c e = Inr enc \<and> j < length (crtcs res) \<and> bit (possible_crtcs enc) j \<longrightarrow>
          crtcs res ! j = 0 \<or> crtcs res ! j \<in> out_crtcs l
      | Some (x, j) \<Rightarrow> x \<noteq> 0 \<and> x \<notin> out_crtcs l \<and>
          (\<exists>e \<in> set es. \<exists>enc. enc_of c e = Inr enc \<and> j < length (crtcs res) \<and> bit (possible_crtcs enc) j \<and> crtcs res ! j = x))"

lemma found_crtc_error: "enc_of c e = Inl err \<Longrightarrow> found_crtc c res l (e # es) r = found_crtc c res l es r"
  by (auto simp: found_crtc_def split: option.splits)

lemma found_crtc_next:
  assumes "kms_crtc_loop enc l (crtcs res) 0 = Inr None" and "enc_of c e = Inr enc" and "length (crtcs res) \<le> 32" and "found_crtc c res l es r"
  shows "found_crtc c res l (e # es) r"
  using assms kms_crtc_loop_runs [of 0 "crtcs res" enc l] by (auto simp: found_crtc_def split: option.splits)

lemma found_crtc_here:
  assumes "kms_crtc_loop enc l (crtcs res) 0 = Inr (Some p)" and "enc_of c e = Inr enc" and "length (crtcs res) \<le> 32"
  shows "found_crtc c res l (e # es) (Some p)"
  using assms kms_crtc_loop_runs [of 0 "crtcs res" enc l] by (cases p) (auto simp: found_crtc_def)

lemma kms_encoder_loop_runs:
  assumes "length (crtcs res) \<le> 32"
  shows "\<exists>r s'. kms_encoder_loop c res es i s = Inr (r, s') \<and> muted s s' \<and> found_crtc c res (output_list s) es r"
proof (induction es arbitrary: i s)
  case Nil
  then show ?case by (simp add: returnS_def found_crtc_def)
next
  case (Cons e es)
  show ?case
  proof (cases "enc_of c e")
    case (Inl err)
    obtain s1 where s1: "muted s s1" "kms_encoder_loop c res (e # es) i s = kms_encoder_loop c res es (Suc i) s1"
      using warn_bind [OF modeset_formats(1)] unfolding kms_encoder_loop.simps Inl sum.case by blast
    obtain r s' where "kms_encoder_loop c res es (Suc i) s1 = Inr (r, s')" "muted s1 s'" "found_crtc c res (output_list s1) es r"
      using Cons.IH by blast
    then show ?thesis using s1 muted_trans [OF s1(1)] muted_keeps(2) [OF s1(1)] found_crtc_error [OF Inl] by metis
  next
    case (Inr enc)
    obtain r where r: "kms_crtc_loop enc (output_list s) (crtcs res) 0 = Inr r"
      using kms_crtc_loop_runs [of 0 "crtcs res" enc "output_list s"] assms by auto
    have q: "(\<lambda>s. liftS (kms_crtc_loop enc (output_list s) (crtcs res) 0) s) (with_obj s) = Inr (r, with_obj s)"
      by (simp add: liftS_def r returnS_def)
    have e: "kms_encoder_loop c res (e # es) i s = (case r of
            Some (x, j) \<Rightarrow>
              bindS (tell ''crtc %u found for encoder %u, will need full modeset\<newline>'' [AInt x, AInt e]) (\<lambda>_.
              bindS (free_objs 1) (\<lambda>_. returnS (Some (x, j))))
          | None \<Rightarrow> bindS (free_objs 1) (\<lambda>_. kms_encoder_loop c res es (Suc i))) (with_obj s)"
      by (simp only: kms_encoder_loop.simps Inr sum.case add_obj bindS_Inr [where m = "\<lambda>s. liftS (kms_crtc_loop enc (output_list s) (crtcs res) 0) s", OF q])
    show ?thesis
    proof (cases r)
      case None
      obtain r' s' where "kms_encoder_loop c res es (Suc i) s = Inr (r', s')" "muted s s'" "found_crtc c res (output_list s) es r'"
        using Cons.IH by blast
      moreover have "kms_encoder_loop c res (e # es) i s = kms_encoder_loop c res es (Suc i) s"
        unfolding e None by (simp only: option.case free_obj)
      ultimately show ?thesis using found_crtc_next [OF _ Inr assms] r None by auto
    next
      case (Some p)
      obtain x j where p: "p = (x, j)" by (cases p)
      obtain s1 where s1: "muted (with_obj s) s1"
        "kms_encoder_loop c res (e # es) i s = bindS (free_objs 1) (\<lambda>_. returnS (Some (x, j))) s1"
        using tell_bind [OF kms_formats(3)] unfolding e Some p option.case prod.case by blast
      obtain s2 where s2: "s1 = with_obj s2" "muted s s2" using muted_obj [OF s1(1)] by blast
      have "kms_encoder_loop c res (e # es) i s = Inr (Some p, s2)" by (simp only: s1(2) s2(1) free_obj returnS_def p)
      then show ?thesis using s2(2) found_crtc_here [OF _ Inr assms] r Some by blast
    qed
  qed
qed

lemma kms_current_crtc_runs:
  "kms_current_crtc c co s = Inr (case bound_crtc c co of None \<Rightarrow> None
     | Some x \<Rightarrow> if x \<in> out_crtcs (output_list s) then None else Some x, s)"
  by (cases "enc_of c (encoder_id co)")
    (auto simp: kms_current_crtc_def bound_crtc_def returnS_def add_obj [simplified] bindS_def [of "\<lambda>s. Inr (f s, s)" for f] free_obj [simplified]
      unless_taken_eq word_gt_0)

definition finds_crtc :: "card \<Rightarrow> resources \<Rightarrow> connector \<Rightarrow> kms_output \<Rightarrow> kms_output \<Rightarrow> bool" where
  "finds_crtc c res co d d' =
     (\<exists>x. (bound_crtc c co = Some x \<and> d' = set_crtc_id x d) \<or>
      (\<exists>j < 32. drives c res co x j \<and> d' = (set_crtc_id x d)\<lparr>crtc_index := word_of_nat j\<rparr>))"

lemma kms_find_crtc_runs:
  assumes "length (crtcs res) \<le> 32"
  shows "\<exists>ret d' s'. kms_find_crtc c res co d s = Inr ((ret, d'), s') \<and> muted s s' \<and>
    (if ret = 0 then finds_crtc c res co d d' \<and> obj_id (out_crtc d') \<noteq> 0 \<and> obj_id (out_crtc d') \<notin> out_crtcs (output_list s)
     else ret = - ENOENT \<and> d' = d \<and> (\<forall>x. bound_crtc c co = Some x \<or> (\<exists>j. drives c res co x j) \<longrightarrow> x = 0 \<or> x \<in> out_crtcs (output_list s)))"
proof -
  have b0: "bound_crtc c co \<noteq> Some 0" by (auto simp: bound_crtc_def split: sum.splits)
  show ?thesis
  proof (cases "\<exists>x. bound_crtc c co = Some x \<and> x \<notin> out_crtcs (output_list s)")
    case True
    then obtain x where x: "bound_crtc c co = Some x" "x \<notin> out_crtcs (output_list s)" by blast
    then have "kms_find_crtc c res co d s = Inr ((0, set_crtc_id x d), s)"
      by (simp add: kms_find_crtc_def bindS_def kms_current_crtc_runs returnS_def)
    then show ?thesis using x b0 by (force simp: finds_crtc_def set_crtc_id_def)
  next
    case False
    then have e: "kms_find_crtc c res co d s = bindS (kms_encoder_loop c res (encoders co) 0) (\<lambda>r.
         case r of
           Some (x, j) \<Rightarrow> returnS (0, (set_crtc_id x d)\<lparr>crtc_index := word_of_nat j\<rparr>)
         | None \<Rightarrow>
             bindS (warn ''cannot find suitable crtc for connector %u\<newline>'' [AInt (connector_id co)]) (\<lambda>_. returnS (- ENOENT, d))) s"
      by (auto simp: kms_find_crtc_def bindS_def [of "kms_current_crtc c co"] kms_current_crtc_runs split: option.splits)
    obtain r s1 where r: "kms_encoder_loop c res (encoders co) 0 s = Inr (r, s1)" "muted s s1" "found_crtc c res (output_list s) (encoders co) r"
      using kms_encoder_loop_runs [OF assms] by blast
    show ?thesis
    proof (cases r)
      case None
      obtain s2 where s2: "muted s1 s2" "warn ''cannot find suitable crtc for connector %u\<newline>'' [AInt (connector_id co)] s1 = Inr ((), s2)"
        using warn_muted [OF kms_formats(4)] by blast
      have "kms_find_crtc c res co d s = Inr ((- ENOENT, d), s2)"
        unfolding e bindS_Inr [where m = "kms_encoder_loop c res (encoders co) 0", OF r(1)] None option.case
          bindS_Inr [where m = "warn a b" for a b, OF s2(2)] by (simp add: returnS_def)
      moreover have "x = 0 \<or> x \<in> out_crtcs (output_list s)" if "bound_crtc c co = Some x \<or> (\<exists>j. drives c res co x j)" for x
        using that r(3) None False by (auto simp: drives_def found_crtc_def)
      ultimately show ?thesis using muted_trans [OF r(2) s2(1)] by (auto simp: ENOENT_def)
    next
      case (Some p)
      obtain x j where p: "p = (x, j)" by (cases p)
      then have k: "x \<noteq> 0" "x \<notin> out_crtcs (output_list s)" "drives c res co x j" "j < 32" using r(3) Some assms by (auto simp: drives_def found_crtc_def)
      have "kms_find_crtc c res co d s = Inr ((0, (set_crtc_id x d)\<lparr>crtc_index := word_of_nat j\<rparr>), s1)"
        using e Some p by (simp add: bindS_Inr [where m = "kms_encoder_loop a b f g" for a b f g, OF r(1)] returnS_def)
      then show ?thesis using k r(2) by (force simp: finds_crtc_def set_crtc_id_def)
    qed
  qed
qed

subsection \<open>The plane of an output\<close>

text \<open>The value of a property.\<close>

fun prop_value :: "kms_card \<Rightarrow> (u32 \<times> u64) list \<Rightarrow> string \<Rightarrow> u64 option" where
  "prop_value k [] name = None"
| "prop_value k ((p, v) # ps) name = (if map_option prop_name (prop_of k p) = Some name then Some v else prop_value k ps name)"

text \<open>
  What is documented of the calls for atomic commits: the objects of the card have identifiers of their own, whatever their
  type, the properties of an object exist, a plane has properties, a new blob has an identifier that is not in use, and error numbers are positive.
\<close>

definition kms_ok :: "kms_card \<Rightarrow> bool" where
  "kms_ok k =
     ((\<forall>x ty ty' ps ps'. props_of k x ty = Inr ps \<and> props_of k x ty' = Inr ps' \<longrightarrow> ty = ty') \<and>
      (\<forall>x ty ps p v. props_of k x ty = Inr ps \<and> (p, v) \<in> set ps \<longrightarrow> prop_of k p \<noteq> None) \<and>
      (\<forall>p n. plane_of k p = Inr n \<longrightarrow> (\<exists>ps. props_of k p OBJECT_PLANE = Inr ps)) \<and>
      (\<forall>s m b. blob_of k s m = Inr b \<longrightarrow> b \<notin> blobs s) \<and>
      (\<forall>req x e. add_of k req x = Inl e \<longrightarrow> 0 < e) \<and> (\<forall>s flags req e. commit_of k s flags req = Inl e \<longrightarrow> 0 < e))"

lemma kms_okD:
  assumes "kms_ok k"
  shows "props_of k x ty = Inr ps \<Longrightarrow> (p, v) \<in> set ps \<Longrightarrow> prop_of k p \<noteq> None"
    "plane_of k p = Inr n \<Longrightarrow> \<exists>ps. props_of k p OBJECT_PLANE = Inr ps" "blob_of k s m = Inr b \<Longrightarrow> b \<notin> blobs s"
    "add_of k req y = Inl e \<Longrightarrow> 0 < e" "commit_of k s flags req = Inl e \<Longrightarrow> 0 < e"
    "props_of k x ty = Inr ps \<Longrightarrow> props_of k x ty' = Inr ps' \<Longrightarrow> ty = ty'"
  using assms unfolding kms_ok_def by meson+

lemma value_loop_runs:
  "\<forall>(p, v) \<in> set ps. prop_of k p \<noteq> None \<Longrightarrow> value_loop k ps name s = Inr (prop_value k ps name, s)"
  by (induction ps) (auto simp: returnS_def add_obj [simplified] free_obj [simplified])

definition primary :: "kms_card \<Rightarrow> u32 \<Rightarrow> bool" where
  "primary k p = (case props_of k p OBJECT_PLANE of Inl _ \<Rightarrow> False | Inr ps \<Rightarrow> prop_value k ps ''type'' = Some 1)"

lemma sint_eq_1: "sint (v :: u64) = 1 \<longleftrightarrow> v = 1"
proof -
  have "sint (1 :: u64) = 1" by simp
  then show ?thesis by (metis signed_word_eqI)
qed

lemma is_primary_runs:
  assumes "kms_ok k" and "plane_of k p = Inr n"
  shows "is_primary k p s = Inr (primary k p, s)"
proof -
  obtain ps where ps: "props_of k p OBJECT_PLANE = Inr ps" using kms_okD(2) [OF assms] by blast
  have "\<forall>(q, v) \<in> set ps. prop_of k q \<noteq> None" using kms_okD(1) [OF assms(1) ps] by blast
  note v = value_loop_runs [OF this]
  have "get_property_value k (Some ps) ''type'' (with_obj s) =
      Inr (case prop_value k ps ''type'' of None \<Rightarrow> - 1 | Some v \<Rightarrow> sint v, with_obj s)"
    by (simp add: get_property_value_def bindS_def v liftS_def returnS_def)
  then have "is_primary k p s = Inr ((case prop_value k ps ''type'' of None \<Rightarrow> - 1 | Some v \<Rightarrow> sint v) = PLANE_TYPE_PRIMARY, s)"
    by (simp only: is_primary_def ps sum.case add_obj bindS_def [of "get_property_value a b d" for a b d] bindE_simps prod.case free_obj returnS_def)
  then show ?thesis by (simp add: primary_def ps PLANE_TYPE_PRIMARY_def sint_eq_1 split: option.splits)
qed

text \<open>A primary plane that works with the CRTC of a number.\<close>

definition good_plane :: "kms_card \<Rightarrow> u32 \<Rightarrow> u32 \<Rightarrow> bool" where
  "good_plane k j p = (case plane_of k p of Inl _ \<Rightarrow> False | Inr possible \<Rightarrow> bit possible (unat j) \<and> primary k p)"

lemma plane_loop_runs:
  assumes "kms_ok k" and "j < 32"
  shows "\<exists>s'. plane_loop c k j ps s = Inr (find (good_plane k j) ps, s') \<and> muted s s'"
proof (induction ps arbitrary: s)
  case Nil
  then show ?case by (simp add: returnS_def)
next
  case (Cons p ps)
  show ?case
  proof (cases "plane_of k p")
    case (Inl e)
    obtain s1 where s1: "muted s s1" "plane_loop c k j (p # ps) s = plane_loop c k j ps s1"
      using warn_bind [OF kms_formats(5)] unfolding plane_loop.simps Inl sum.case by blast
    then show ?thesis using Cons.IH [of s1] muted_trans [OF s1(1)] Inl by (auto simp: good_plane_def)
  next
    case (Inr n)
    have "(if 32 \<le> j then liftS (Inl SignedOverflow) else if n AND push_bit (unat j) 1 \<noteq> 0 then is_primary k p else returnS False) (with_obj s) =
        Inr (good_plane k j p, with_obj s)"
      using assms(2) by (simp add: is_primary_runs [OF assms(1) Inr] bit_mask Inr good_plane_def returnS_def not_le)
    then have "plane_loop c k j (p # ps) s = (if good_plane k j p then returnS (Some p) else plane_loop c k j ps) s"
      by (simp only: plane_loop.simps Inr sum.case add_obj bindS_Inr [where m = "if a then b else d" for a b d] free_obj)
    then show ?thesis using Cons.IH [of s] by (simp add: returnS_def)
  qed
qed

lemma kms_find_plane_runs:
  assumes "kms_ok k" and "crtc_index d < 32"
  shows "\<exists>ret d' s'. kms_find_plane c k d s = Inr ((ret, d'), s') \<and> muted s s' \<and>
    (case planes_of k of Inl _ \<Rightarrow> ret = - ENOENT \<and> d' = d | Inr ps \<Rightarrow>
       (case find (good_plane k (crtc_index d)) ps of
          None \<Rightarrow> ret = - EINVAL \<and> d' = d
        | Some p \<Rightarrow> ret = 0 \<and> d' = d\<lparr>out_plane := (out_plane d)\<lparr>obj_id := p\<rparr>\<rparr>))"
proof (cases "planes_of k")
  case (Inl e)
  obtain s1 where "muted s s1" "kms_find_plane c k d s = returnS (- ENOENT, d) s1"
    using warn_bind [OF kms_formats(6)] unfolding kms_find_plane_def Inl sum.case by blast
  then show ?thesis using Inl by (simp add: returnS_def)
next
  case (Inr ps)
  obtain s1 where s1: "plane_loop c k (crtc_index d) ps (with_obj s) = Inr (find (good_plane k (crtc_index d)) ps, s1)" "muted (with_obj s) s1"
    using plane_loop_runs [OF assms] by blast
  obtain s2 where s2: "s1 = with_obj s2" "muted s s2" using muted_obj [OF s1(2)] by blast
  have e: "kms_find_plane c k d s = (case find (good_plane k (crtc_index d)) ps of
            Some p \<Rightarrow>
              bindS (tell ''found primary plane, id: %d\<newline>'' [AInt p]) (\<lambda>_.
              returnS (0, d\<lparr>out_plane := (out_plane d)\<lparr>obj_id := p\<rparr>\<rparr>))
          | None \<Rightarrow> bindS (tell (''couldn'' @ QUOTE @ ''t find a primary plane\<newline>'') []) (\<lambda>_. returnS (- EINVAL, d))) s2"
    by (simp only: kms_find_plane_def Inr sum.case add_obj bindS_Inr [where m = "plane_loop a b f g" for a b f g, OF s1(1)] s2(1) free_obj)
  show ?thesis
  proof (cases "find (good_plane k (crtc_index d)) ps")
    case None
    obtain s3 where "muted s2 s3" "kms_find_plane c k d s = returnS (- EINVAL, d) s3"
      using tell_bind [OF kms_formats(8)] unfolding e None option.case by blast
    then show ?thesis using muted_trans [OF s2(2)] None Inr by (simp add: returnS_def)
  next
    case (Some p)
    obtain s3 where "muted s2 s3" "kms_find_plane c k d s = returnS (0, d\<lparr>out_plane := (out_plane d)\<lparr>obj_id := p\<rparr>\<rparr>) s3"
      using tell_bind [OF kms_formats(7)] unfolding e Some option.case by blast
    then show ?thesis using muted_trans [OF s2(2)] Some Inr by (simp add: returnS_def)
  qed
qed

end
