(* ===== verification/KmsHold.thy ===== *)
theory KmsHold
  imports KmsSpec
begin

unbundle bit_operations_syntax

text \<open>
  What is allocated while \<open>modeset-atomic.c\<close> sets up its outputs: an output that cannot be set up leaves nothing, and
  after \<open>modeset_prepare\<close> everything that is allocated is what the outputs of the list hold.
\<close>

subsection \<open>Counts\<close>

definition grown :: "nat \<Rightarrow> nat \<Rightarrow> kms \<Rightarrow> kms" where
  "grown m n s = s\<lparr>mallocs := mallocs s + m, gpu_state := (gpu_state s)\<lparr>objs := objs (gpu_state s) + n\<rparr>\<rparr>"

definition shrunk :: "nat \<Rightarrow> nat \<Rightarrow> kms \<Rightarrow> kms" where
  "shrunk m n s = s\<lparr>mallocs := mallocs s - m, gpu_state := (gpu_state s)\<lparr>objs := objs (gpu_state s) - n\<rparr>\<rparr>"

lemma grown_simps [simp]:
  "output_list (grown m n s) = output_list s" "blobs (grown m n s) = blobs s"
  "shrunk m n (grown m n s) = s" "grown a b (grown m n s) = grown (m + a) (n + b) s" "shrunk a b (shrunk m n s) = shrunk (m + a) (n + b) s"
  by (simp_all add: grown_def shrunk_def add.assoc)

lemma muted_grown:
  assumes "muted (grown m n s) s1"
  obtains s2 where "s1 = grown m n s2" "muted s s2"
proof -
  obtain t u where "s1 = (grown m n s)\<lparr>gpu_state := (gpu_state (grown m n s))\<lparr>merr := t\<rparr>, kms_out := u\<rparr>" using assms by (rule mutedE)
  then have "s1 = grown m n (s\<lparr>gpu_state := (gpu_state s)\<lparr>merr := t\<rparr>, kms_out := u\<rparr>)" by (simp add: grown_def)
  then show thesis using that mutedI by blast
qed

lemma grown_muted: "muted s s' \<Longrightarrow> muted (grown m n s) (grown m n s')"
proof (elim mutedE)
  fix t u assume "s' = s\<lparr>gpu_state := (gpu_state s)\<lparr>merr := t\<rparr>, kms_out := u\<rparr>"
  then have "grown m n s' = (grown m n s)\<lparr>gpu_state := (gpu_state (grown m n s))\<lparr>merr := t\<rparr>, kms_out := u\<rparr>" by (simp add: grown_def)
  then show "muted (grown m n s) (grown m n s')" using mutedI by simp
qed

subsection \<open>The three objects\<close>

definition obj_count :: "drm_object \<Rightarrow> nat" where
  "obj_count ob = 1 + infos (props_info ob)"

definition obj_ok :: "kms_card \<Rightarrow> object_type \<Rightarrow> drm_object \<Rightarrow> bool" where
  "obj_ok k ty ob = (\<exists>ps. props_of k (obj_id ob) ty = Inr ps \<and> props ob = Some ps \<and> props_info ob = map (\<lambda>(p, v). prop_of k p) ps)"

lemma get_object_properties_runs:
  "\<exists>ob' s'. get_object_properties c k ob ty s = Inr (ob', s') \<and> obj_id ob' = obj_id ob \<and>
     (if props ob' = None then muted s s' else obj_ok k ty ob' \<and> s' = grown 1 (obj_count ob') s)"
proof (cases "props_of k (obj_id ob) ty")
  case (Inl e)
  obtain s1 where "muted s s1" "get_object_properties c k ob ty s = returnS (ob\<lparr>props := None\<rparr>) s1"
    using warn_bind [OF kms_formats(1)] unfolding get_object_properties_def Inl sum.case by blast
  then show ?thesis by (simp add: returnS_def)
next
  case (Inr ps)
  then show ?thesis by (simp add: get_object_properties_def kms_counts returnS_def obj_ok_def grown_def obj_count_def Let_def)
qed

lemma object_fini_runs: "props ob \<noteq> None \<Longrightarrow> object_fini ob s = Inr ((), shrunk 1 (obj_count ob) s)"
  by (auto simp: object_fini_def kms_counts kupd_def bindS_def [of "liftS a" for a] liftS_def shrunk_def obj_count_def deref_def)

definition out_objs :: "kms_output \<Rightarrow> nat" where
  "out_objs d = obj_count (out_conn d) + obj_count (out_crtc d) + obj_count (out_plane d)"

definition objects_ok :: "kms_card \<Rightarrow> kms_output \<Rightarrow> bool" where
  "objects_ok k d = (obj_ok k OBJECT_CONNECTOR (out_conn d) \<and> obj_ok k OBJECT_CRTC (out_crtc d) \<and> obj_ok k OBJECT_PLANE (out_plane d))"

lemma obj_ok_props: "obj_ok k ty ob \<Longrightarrow> props ob \<noteq> None"
  by (auto simp: obj_ok_def)

lemma destroy_objects_runs: "objects_ok k d \<Longrightarrow> destroy_objects d s = Inr ((), shrunk 3 (out_objs d) s)"
proof -
  assume "objects_ok k d"
  then have p: "props (out_conn d) \<noteq> None" "props (out_crtc d) \<noteq> None" "props (out_plane d) \<noteq> None"
    using obj_ok_props unfolding objects_ok_def by blast+
  show ?thesis
    by (simp add: destroy_objects_def bindS_def object_fini_runs [OF p(1)] object_fini_runs [OF p(2)] object_fini_runs [OF p(3)] out_objs_def
      numeral_3_eq_3 add.assoc)
qed

text \<open>What is the same of an output with and without its objects.\<close>

definition same_ids :: "kms_output \<Rightarrow> kms_output \<Rightarrow> bool" where
  "same_ids d d' =
     (\<exists>co cr pl. d' = d\<lparr>out_conn := co, out_crtc := cr, out_plane := pl\<rparr> \<and>
        obj_id co = obj_id (out_conn d) \<and> obj_id cr = obj_id (out_crtc d) \<and> obj_id pl = obj_id (out_plane d))"

lemma setup_objects_runs:
  "\<exists>ret d' s'. setup_objects c k d s = Inr ((ret, d'), s') \<and> mode_blob_id d' = mode_blob_id d \<and>
     (if ret = 0 then objects_ok k d' \<and> same_ids d d' \<and> s' = grown 3 (out_objs d') s else muted s s')"
proof -
  obtain co s1 where 1: "get_object_properties c k (out_conn d) OBJECT_CONNECTOR s = Inr (co, s1)" "obj_id co = obj_id (out_conn d)"
    "if props co = None then muted s s1 else obj_ok k OBJECT_CONNECTOR co \<and> s1 = grown 1 (obj_count co) s"
    using get_object_properties_runs by blast
  obtain cr s2 where 2: "get_object_properties c k (out_crtc d) OBJECT_CRTC s1 = Inr (cr, s2)" "obj_id cr = obj_id (out_crtc d)"
    "if props cr = None then muted s1 s2 else obj_ok k OBJECT_CRTC cr \<and> s2 = grown 1 (obj_count cr) s1"
    using get_object_properties_runs by blast
  obtain pl s3 where 3: "get_object_properties c k (out_plane d) OBJECT_PLANE s2 = Inr (pl, s3)" "obj_id pl = obj_id (out_plane d)"
    "if props pl = None then muted s2 s3 else obj_ok k OBJECT_PLANE pl \<and> s3 = grown 1 (obj_count pl) s2"
    using get_object_properties_runs by blast
  note b = bindS_Inr [where m = "get_object_properties c k a b" for a b]
  show ?thesis
  proof (cases "props co = None")
    case True
    then show ?thesis using 1 by (simp add: setup_objects_def b [OF 1(1)] returnS_def ENOMEM_def)
  next
    case co: False
    note c = 1(3) [unfolded if_not_P [OF co]]
    show ?thesis
    proof (cases "props cr = None")
      case True
      then obtain s' where s': "s2 = grown 1 (obj_count co) s'" "muted s s'" using c 2(3) muted_grown by metis
      have "setup_objects c k d s = Inr ((- ENOMEM, d\<lparr>out_conn := co, out_crtc := cr\<rparr>), s')"
        by (simp add: True co setup_objects_def b [OF 1(1)] b [OF 2(1)] bindS_Inr [where m = "object_fini co", OF object_fini_runs [OF co]] s'(1) returnS_def Let_def)
      then show ?thesis using s'(2) by (simp add: ENOMEM_def)
    next
      case cr: False
      note c2 = 2(3) [unfolded if_not_P [OF cr]]
      show ?thesis
      proof (cases "props pl = None")
        case True
        then obtain s' where s': "s3 = grown (1 + 1) (obj_count co + obj_count cr) s'" "muted s s'"
          using c c2 3(3) muted_grown [of "1 + 1" "obj_count co + obj_count cr" s s3] by auto
        have e: "shrunk 1 (obj_count co) (shrunk 1 (obj_count cr) s3) = s'"
          using grown_simps(3) [of "1 + 1" "obj_count cr + obj_count co" s'] by (simp add: s'(1) add.commute)
        have "setup_objects c k d s = Inr ((- ENOMEM, d\<lparr>out_conn := co, out_crtc := cr, out_plane := pl\<rparr>), s')"
          using e by (simp add: True co cr setup_objects_def b [OF 1(1)] b [OF 2(1)] b [OF 3(1)]
            bindS_Inr [where m = "object_fini co", OF object_fini_runs [OF co]] bindS_Inr [where m = "object_fini cr", OF object_fini_runs [OF cr]]
            returnS_def Let_def)
        then show ?thesis using s'(2) by (simp add: ENOMEM_def)
      next
        case pl: False
        note c3 = 3(3) [unfolded if_not_P [OF pl]]
        let ?d = "d\<lparr>out_conn := co, out_crtc := cr, out_plane := pl\<rparr>"
        have "setup_objects c k d s = Inr ((0, ?d), s3)"
          by (simp add: co cr pl setup_objects_def b [OF 1(1)] b [OF 2(1)] b [OF 3(1)] returnS_def Let_def)
        moreover have "objects_ok k ?d" using c c2 c3 by (simp add: objects_ok_def)
        moreover have "s3 = grown 3 (out_objs ?d) s" using c c2 c3 by (simp add: out_objs_def numeral_3_eq_3)
        moreover have "same_ids d ?d" using 1(2) 2(2) 3(2) unfolding same_ids_def by blast
        ultimately show ?thesis by simp
      qed
    qed
  qed
qed

subsection \<open>The two buffers\<close>

definition only_gpu :: "kms \<Rightarrow> kms \<Rightarrow> bool" where
  "only_gpu s s' = (\<exists>g. s' = s\<lparr>gpu_state := g\<rparr>)"

lemma only_gpu_trans: "only_gpu s1 s2 \<Longrightarrow> only_gpu s2 s3 \<Longrightarrow> only_gpu s1 s3"
  by (auto simp: only_gpu_def)

lemma only_gpu_eq: "only_gpu s s' \<Longrightarrow> s' = s\<lparr>gpu_state := gpu_state s'\<rparr>"
  by (auto simp: only_gpu_def)

lemma only_gpu_muted:
  assumes "only_gpu s s'" and "silent (gpu_state s) (gpu_state s')"
  shows "muted s s'"
proof -
  obtain t where "gpu_state s' = (gpu_state s)\<lparr>merr := t\<rparr>" using assms(2) by (auto simp: silent_def)
  then have "s' = s\<lparr>gpu_state := (gpu_state s)\<lparr>merr := t\<rparr>, kms_out := kms_out s\<rparr>" using only_gpu_eq [OF assms(1)] by simp
  then show ?thesis using mutedI by metis
qed

lemma kms_destroy_fb_runs: "kms_destroy_fb b s = Inr ((), s\<lparr>gpu_state := without b (gpu_state s)\<rparr>)"
  by (simp add: kms_destroy_fb_def on_gpu_def bindS_def unmap_def rm_fb_def destroy_dumb_def upd_def without_def)

lemma kms_create_fb_runs:
  assumes "card_ok c"
  obtains ret b' s' where "kms_create_fb c b s = Inr ((ret, b'), s')" "only_gpu s s'" "ret \<noteq> 0 \<Longrightarrow> silent (gpu_state s) (gpu_state s')"
    "ret = 0 \<Longrightarrow> gets_buffer (as_dev b') (gpu_state s) (gpu_state s') \<and> fits (as_dev b') \<and> same_size b b'"
proof -
  obtain ret d g where r: "modeset_create_fb c (as_dev b) (gpu_state s) = Inr ((ret, d), g)"
    "if ret = 0 then gets_buffer d (gpu_state s) g \<and> fits d \<and> same_screen (as_dev b) d else silent (gpu_state s) g"
    using create_fb_spec [OF assms] unfolding fb_result_def by blast
  define b' where "b' = b\<lparr>buf_stride := stride d, buf_size := dev_size d, buf_handle := handle d, buf_fb := fb d\<rparr>"
  show thesis
  proof (rule that)
    show "kms_create_fb c b s = Inr ((ret, b'), s\<lparr>gpu_state := g\<rparr>)"
      by (simp add: kms_create_fb_def bindS_def on_gpu_def r(1) returnS_def b'_def)
    show "only_gpu s (s\<lparr>gpu_state := g\<rparr>)" by (auto simp: only_gpu_def)
    show "silent (gpu_state s) (gpu_state (s\<lparr>gpu_state := g\<rparr>))" if "ret \<noteq> 0" using r(2) that by simp
    assume "ret = 0"
    with r(2) have k: "gets_buffer d (gpu_state s) g" "fits d" "same_screen (as_dev b) d" by simp_all
    then show "gets_buffer (as_dev b') (gpu_state s) (gpu_state (s\<lparr>gpu_state := g\<rparr>)) \<and> fits (as_dev b') \<and> same_size b b'"
      using gets_buffer_cong [of "as_dev b'" d] by (simp add: b'_def fits_def same_screen_def same_size_def)
  qed
qed

definition kms_gets :: "kms_output \<Rightarrow> gpu \<Rightarrow> gpu \<Rightarrow> bool" where
  "kms_gets d g g' = (\<exists>b0 b1 g1. out_bufs d = [b0, b1] \<and> gets_buffer (as_dev b0) g g1 \<and> gets_buffer (as_dev b1) g1 g' \<and>
     fits (as_dev b0) \<and> fits (as_dev b1))"

definition sized :: "mode_info \<Rightarrow> modeset_buf \<Rightarrow> bool" where
  "sized m b = (buf_width b = ucast (hdisplay m) \<and> buf_height b = ucast (vdisplay m))"

lemma setup_framebuffers_runs:
  assumes "card_ok c" and "modes co = m # ms" and "out_bufs d = [x0, x1]" and "dom (maps (gpu_state s)) = handles (gpu_state s)"
  shows "\<exists>ret bs s'. setup_framebuffers c co d s = Inr ((ret, d\<lparr>out_bufs := bs\<rparr>), s') \<and> only_gpu s s' \<and>
    (if ret = 0 then kms_gets (d\<lparr>out_bufs := bs\<rparr>) (gpu_state s) (gpu_state s') \<and> (\<forall>b \<in> set bs. sized m b) else muted s s')"
proof -
  let ?b = "\<lambda>x. x\<lparr>buf_width := ucast (hdisplay m), buf_height := ucast (vdisplay m)\<rparr>"
  note n = buf_at_def liftS_def returnS_def
  have step: "setup_buf c co i d' s' = (case kms_create_fb c (?b x) s' of
       Inl e \<Rightarrow> Inl e
     | Inr ((ret, b), s'') \<Rightarrow> bindS (if ret \<noteq> 0 \<and> i = 1 then destroy_buf_at (d'\<lparr>out_bufs := (out_bufs d')[i := b]\<rparr>) 0 else returnS ())
         (\<lambda>_. returnS (ret, d'\<lparr>out_bufs := (out_bufs d')[i := b]\<rparr>)) s'')"
    if "i < length (out_bufs d')" "out_bufs d' ! i = x" for i x d' s'
    using that assms(2) by (simp add: setup_buf_def bindS_def [of "liftS a" for a] n bindS_def [of "kms_create_fb a b" for a b] bindE_def Let_def
      split: sum.split prod.split)
  obtain ret b0 s1 where 1: "kms_create_fb c (?b x0) s = Inr ((ret, b0), s1)" "only_gpu s s1" "ret \<noteq> 0 \<Longrightarrow> silent (gpu_state s) (gpu_state s1)"
    "ret = 0 \<Longrightarrow> gets_buffer (as_dev b0) (gpu_state s) (gpu_state s1) \<and> fits (as_dev b0) \<and> same_size (?b x0) b0"
    using kms_create_fb_runs [OF assms(1)] by blast
  have e1: "setup_buf c co 0 d s = Inr ((ret, d\<lparr>out_bufs := [b0, x1]\<rparr>), s1)" using step [of 0 d x0 s] assms(3) 1(1) by (simp add: returnS_def)
  show ?thesis
  proof (cases "ret = 0")
    case False
    then have "setup_framebuffers c co d s = Inr ((ret, d\<lparr>out_bufs := [b0, x1]\<rparr>), s1)" by (simp add: setup_framebuffers_def bindS_def e1 returnS_def)
    moreover have "muted s s1" using only_gpu_muted 1(2,3) False by blast
    ultimately show ?thesis using 1(2) False by (intro exI [of _ ret] exI [of _ "[b0, x1]"] exI [of _ s1]) simp
  next
    case True
    let ?d = "d\<lparr>out_bufs := [b0, x1]\<rparr>"
    obtain ret2 b1 s2 where 2: "kms_create_fb c (?b x1) s1 = Inr ((ret2, b1), s2)" "only_gpu s1 s2" "ret2 \<noteq> 0 \<Longrightarrow> silent (gpu_state s1) (gpu_state s2)"
      "ret2 = 0 \<Longrightarrow> gets_buffer (as_dev b1) (gpu_state s1) (gpu_state s2) \<and> fits (as_dev b1) \<and> same_size (?b x1) b1"
      using kms_create_fb_runs [OF assms(1)] by blast
    have e: "setup_framebuffers c co d s = bindS (if ret2 \<noteq> 0 then destroy_buf_at (?d\<lparr>out_bufs := [b0, b1]\<rparr>) 0 else returnS ())
        (\<lambda>_. returnS (ret2, ?d\<lparr>out_bufs := [b0, b1]\<rparr>)) s2"
      using step [of 1 ?d x1 s1] True 2(1) by (simp add: setup_framebuffers_def bindS_def [of "setup_buf a b f g" for a b f g] e1)
    have o2: "only_gpu s s2" using only_gpu_trans 1(2) 2(2) by blast
    show ?thesis
    proof (cases "ret2 = 0")
      case False
      let ?s = "s2\<lparr>gpu_state := without b0 (gpu_state s2)\<rparr>"
      have "setup_framebuffers c co d s = Inr ((ret2, d\<lparr>out_bufs := [b0, b1]\<rparr>), ?s)"
        using e False by (simp add: destroy_buf_at_def bindS_def n kms_destroy_fb_runs)
      moreover have "silent (gpu_state s) (gpu_state ?s)"
        using without_gets [of b0 "gpu_state s" "gpu_state s1" "gpu_state s2"] 1(4) [OF True] 2(3) [OF False] assms(4) by simp
      moreover have "only_gpu s ?s" using only_gpu_trans [OF o2] by (auto simp: only_gpu_def)
      ultimately show ?thesis using only_gpu_muted False by (intro exI [of _ ret2] exI [of _ "[b0, b1]"] exI [of _ ?s]) simp
    next
      case t2: True
      have "kms_gets (d\<lparr>out_bufs := [b0, b1]\<rparr>) (gpu_state s) (gpu_state s2)" using 1(4) [OF True] 2(4) [OF t2] by (auto simp: kms_gets_def)
      moreover have "\<forall>b \<in> set [b0, b1]. sized m b" using 1(4) [OF True] 2(4) [OF t2] by (simp add: sized_def same_size_def)
      ultimately show ?thesis using e t2 o2 by (intro exI [of _ 0] exI [of _ "[b0, b1]"] exI [of _ s2]) (simp add: returnS_def)
    qed
  qed
qed

subsection \<open>One output\<close>

definition fresh_out :: "kms_output \<Rightarrow> bool" where
  "fresh_out d = (out_front d = 0 \<and> \<not> out_pending d \<and> \<not> out_cleanup d)"

text \<open>What is known of an output that has been set up: the type of the list.\<close>

definition out_ok :: "kms_card \<Rightarrow> kms_output \<Rightarrow> bool" where
  "out_ok k d = (objects_ok k d \<and> length (out_bufs d) = 2 \<and> out_front d \<in> {0, 1} \<and> obj_id (out_crtc d) \<noteq> 0 \<and>
     (\<exists>ps. planes_of k = Inr ps \<and> find (good_plane k (crtc_index d)) ps = Some (obj_id (out_plane d))) \<and>
     (\<forall>b \<in> set (out_bufs d). sized (out_mode d) b))"

definition freed :: "kms_output \<Rightarrow> kms \<Rightarrow> kms" where
  "freed d s = s\<lparr>blobs := blobs s - {mode_blob_id d}, mallocs := mallocs s - 1\<rparr>"

lemma muted_freed: "muted s s' \<Longrightarrow> muted (freed d s) (freed d s')"
proof (elim mutedE)
  fix t u assume "s' = s\<lparr>gpu_state := (gpu_state s)\<lparr>merr := t\<rparr>, kms_out := u\<rparr>"
  then have "freed d s' = (freed d s)\<lparr>gpu_state := (gpu_state (freed d s))\<lparr>merr := t\<rparr>, kms_out := u\<rparr>" by (simp add: freed_def)
  then show "muted (freed d s) (freed d s')" using mutedI by simp
qed

lemma out_blob_runs:
  assumes "formats fmt args" and "muted s s1" and "mode_blob_id d' = mode_blob_id d"
  shows "\<exists>s'. out_blob d' fmt args s1 = Inr (None, s') \<and> muted (freed d s) s'"
proof -
  obtain s2 where s2: "muted s1 s2" "out_blob d' fmt args s1 = bindS (destroy_blob (mode_blob_id d')) (\<lambda>_. bindS free1 (\<lambda>_. returnS None)) s2"
    using warn_bind [OF assms(1)] unfolding out_blob_def by blast
  have "out_blob d' fmt args s1 = Inr (None, freed d s2)" using s2(2) assms(3) by (simp add: kms_counts returnS_def freed_def)
  then show ?thesis using muted_freed [OF muted_trans [OF assms(2) s2(1)]] by blast
qed

definition adds_out :: "nat \<Rightarrow> kms_output \<Rightarrow> kms \<Rightarrow> kms \<Rightarrow> bool" where
  "adds_out m d s s' = (\<exists>s1. muted (grown m (out_objs d) s) s1 \<and> only_gpu s1 s' \<and> kms_gets d (gpu_state s1) (gpu_state s'))"

definition made :: "kms_card \<Rightarrow> kms \<Rightarrow> kms_output \<Rightarrow> kms_output \<Rightarrow> bool" where
  "made k s d d' = (out_ok k d' \<and> fresh_out d' \<and> obj_id (out_crtc d') \<notin> out_crtcs (output_list s) \<and> mode_blob_id d' = mode_blob_id d)"

lemma muted_maps: "muted s s' \<Longrightarrow> dom (maps (gpu_state s)) = handles (gpu_state s) \<Longrightarrow> dom (maps (gpu_state s')) = handles (gpu_state s')"
  by (elim mutedE) simp

lemma finds_crtc_fields:
  assumes "finds_crtc c res co d d'" and "crtc_index d < 32"
  shows "crtc_index d' < 32" "mode_blob_id d' = mode_blob_id d" "out_bufs d' = out_bufs d" "fresh_out d' = fresh_out d" "out_mode d' = out_mode d"
proof -
  have "(word_of_nat j :: u32) < 32" if "j < 32" for j
    using that by (simp add: word_less_nat_alt unat_of_nat take_bit_nat_eq_self)
  then show "crtc_index d' < 32" using assms by (auto simp: finds_crtc_def set_crtc_id_def)
  show "mode_blob_id d' = mode_blob_id d" "out_bufs d' = out_bufs d" "fresh_out d' = fresh_out d" "out_mode d' = out_mode d"
    using assms(1) by (auto simp: finds_crtc_def set_crtc_id_def fresh_out_def)
qed

lemma output_rest_runs:
  assumes "card_ok c" and "modes co = m # ms" and "out_bufs d = [x0, x1]" and "dom (maps (gpu_state s)) = handles (gpu_state s)"
  shows "\<exists>r s'. output_rest c k co d s = Inr (r, s') \<and>
    (case r of None \<Rightarrow> muted (freed d s) s'
     | Some d' \<Rightarrow> objects_ok k d' \<and> (\<exists>d1 bs. same_ids d d1 \<and> d' = d1\<lparr>out_bufs := bs\<rparr> \<and> (\<forall>b \<in> set bs. sized m b)) \<and> adds_out 3 d' s s')"
proof -
  obtain ret1 d1 s1 where 1: "setup_objects c k d s = Inr ((ret1, d1), s1)" "mode_blob_id d1 = mode_blob_id d"
    "if ret1 = 0 then objects_ok k d1 \<and> same_ids d d1 \<and> s1 = grown 3 (out_objs d1) s else muted s s1"
    using setup_objects_runs by blast
  note b = bindS_Inr [where m = "setup_objects c k d", OF 1(1)]
  show ?thesis
  proof (cases "ret1 = 0")
    case False
    then have e: "output_rest c k co d s = out_blob d1 ''cannot get plane properties\<newline>'' [] s1" by (simp add: output_rest_def b)
    have "muted s s1" using 1(3) False by simp
    from out_blob_runs [OF kms_formats(12) this 1(2)] show ?thesis unfolding e by fastforce
  next
    case r1: True
    have k1: "objects_ok k d1" "same_ids d d1" "s1 = grown 3 (out_objs d1) s" using 1(3) r1 by simp_all
    have bufs: "out_bufs d1 = [x0, x1]" using k1(2) assms(3) by (auto simp: same_ids_def)
    have dom: "dom (maps (gpu_state s1)) = handles (gpu_state s1)" using assms(4) by (simp add: k1(3) grown_def)
    obtain ret2 bs s2 where 2: "setup_framebuffers c co d1 s1 = Inr ((ret2, d1\<lparr>out_bufs := bs\<rparr>), s2)" "only_gpu s1 s2"
      "if ret2 = 0 then kms_gets (d1\<lparr>out_bufs := bs\<rparr>) (gpu_state s1) (gpu_state s2) \<and> (\<forall>b \<in> set bs. sized m b) else muted s1 s2"
      using setup_framebuffers_runs [OF assms(1,2) bufs dom] by blast
    let ?d = "d1\<lparr>out_bufs := bs\<rparr>"
    have e: "output_rest c k co d s = (if ret2 \<noteq> 0 then out_obj ?d ''cannot create framebuffers for connector %u\<newline>'' [AInt (connector_id co)]
       else returnS (Some ?d)) s2"
      using r1 by (simp add: output_rest_def b bindS_Inr [where m = "setup_framebuffers c co d1", OF 2(1)])
    have ok: "objects_ok k ?d" "out_objs ?d = out_objs d1" using k1(1) by (simp_all add: objects_ok_def out_objs_def)
    show ?thesis
    proof (cases "ret2 = 0")
      case False
      obtain s3 where s3: "muted s2 s3" "output_rest c k co d s = bindS (destroy_objects ?d) (\<lambda>_.
           bindS (destroy_blob (mode_blob_id ?d)) (\<lambda>_. bindS free1 (\<lambda>_. returnS None))) s3"
        using warn_bind [OF kms_formats(13)] unfolding e out_obj_def if_P [OF False] by blast
      have "muted s1 s3" using 2(3) False s3(1) muted_trans by auto
      then obtain s4 where s4: "s3 = grown 3 (out_objs d1) s4" "muted s s4" using muted_grown unfolding k1(3) by blast
      have "output_rest c k co d s = Inr (None, freed d s4)"
        using 1(2) by (simp add: s3(2) bindS_Inr [where m = "destroy_objects ?d", OF destroy_objects_runs [OF ok(1)]] ok(2) s4(1) kms_counts
          returnS_def freed_def)
      then show ?thesis using muted_freed [OF s4(2)] by auto
    next
      case r2: True
      have "adds_out 3 ?d s s2" unfolding adds_out_def ok(2)
        using 2(2,3) r2 by (intro exI [of _ s1]) (simp add: k1(3))
      moreover have "\<exists>d1' bs'. same_ids d d1' \<and> ?d = d1'\<lparr>out_bufs := bs'\<rparr> \<and> (\<forall>b \<in> set bs'. sized m b)" using k1(2) 2(3) r2 by auto
      ultimately show ?thesis using e r2 ok(1) by (intro exI [of _ "Some ?d"] exI [of _ s2]) (simp add: returnS_def)
    qed
  qed
qed

lemma adds_out_muted: "muted s s1 \<Longrightarrow> adds_out m d s1 s' \<Longrightarrow> adds_out m d s s'"
  unfolding adds_out_def using muted_trans grown_muted by blast

lemma output_fill_runs:
  assumes "card_ok c" and "kms_ok k" and "length (crtcs res) \<le> 32" and "modes co = m # ms" and "out_bufs d = [x0, x1]" and "crtc_index d < 32"
    and "fresh_out d" and "out_mode d = m" and "dom (maps (gpu_state s)) = handles (gpu_state s)"
  shows "\<exists>r s'. output_fill c k res co d s = Inr (r, s') \<and>
    (case r of None \<Rightarrow> muted (freed d s) s' | Some d' \<Rightarrow> made k s d d' \<and> adds_out 3 d' s s')"
proof -
  obtain ret1 d1 s1 where 1: "kms_find_crtc c res co d s = Inr ((ret1, d1), s1)" "muted s s1"
    "if ret1 = 0 then finds_crtc c res co d d1 \<and> obj_id (out_crtc d1) \<noteq> 0 \<and> obj_id (out_crtc d1) \<notin> out_crtcs (output_list s)
     else ret1 = - ENOENT \<and> d1 = d \<and> (\<forall>x. bound_crtc c co = Some x \<or> (\<exists>j. drives c res co x j) \<longrightarrow> x = 0 \<or> x \<in> out_crtcs (output_list s))"
    using kms_find_crtc_runs [OF assms(3)] by blast
  note b = bindS_Inr [where m = "kms_find_crtc c res co d", OF 1(1)]
  show ?thesis
  proof (cases "ret1 = 0")
    case False
    then have e: "output_fill c k res co d s = out_blob d1 ''no valid crtc for connector %u\<newline>'' [AInt (connector_id co)] s1"
      by (simp add: output_fill_def b)
    show ?thesis unfolding e using out_blob_runs [OF modeset_formats(10) 1(2), of d1 d] 1(3) False by fastforce
  next
    case r1: True
    have f: "finds_crtc c res co d d1" "obj_id (out_crtc d1) \<noteq> 0" "obj_id (out_crtc d1) \<notin> out_crtcs (output_list s)" using 1(3) r1 by simp_all
    note f1 = finds_crtc_fields [OF f(1) assms(6)]
    obtain ret2 d2 s2 where 2: "kms_find_plane c k d1 s1 = Inr ((ret2, d2), s2)" "muted s1 s2"
      "case planes_of k of Inl _ \<Rightarrow> ret2 = - ENOENT \<and> d2 = d1 | Inr ps \<Rightarrow>
       (case find (good_plane k (crtc_index d1)) ps of
          None \<Rightarrow> ret2 = - EINVAL \<and> d2 = d1
        | Some p \<Rightarrow> ret2 = 0 \<and> d2 = d1\<lparr>out_plane := (out_plane d1)\<lparr>obj_id := p\<rparr>\<rparr>)"
      using kms_find_plane_runs [OF assms(2) f1(1)] by blast
    have m2: "muted s s2" using muted_trans 1(2) 2(2) by blast
    have b2: "output_fill c k res co d s =
        (if ret2 \<noteq> 0 then out_blob d2 ''no valid plane for crtc %u\<newline>'' [AInt (obj_id (out_crtc d2))] else output_rest c k co d2) s2"
      using r1 by (simp add: output_fill_def b bindS_Inr [where m = "kms_find_plane c k d1", OF 2(1)])
    have id2: "mode_blob_id d2 = mode_blob_id d" using 2(3) f1(2) by (auto split: sum.splits option.splits)
    show ?thesis
    proof (cases "ret2 = 0")
      case False
      then show ?thesis unfolding b2 using out_blob_runs [OF kms_formats(11) m2 id2] by fastforce
    next
      case r2: True
      then obtain ps p where p: "planes_of k = Inr ps" "find (good_plane k (crtc_index d1)) ps = Some p" "d2 = d1\<lparr>out_plane := (out_plane d1)\<lparr>obj_id := p\<rparr>\<rparr>"
        using 2(3) by (auto simp: ENOENT_def EINVAL_def split: sum.splits option.splits)
      have bufs: "out_bufs d2 = [x0, x1]" using assms(5) f1(3) p(3) by simp
      obtain r s' where r: "output_rest c k co d2 s2 = Inr (r, s')"
        "case r of None \<Rightarrow> muted (freed d2 s2) s'
         | Some d' \<Rightarrow> objects_ok k d' \<and> (\<exists>d1 bs. same_ids d2 d1 \<and> d' = d1\<lparr>out_bufs := bs\<rparr> \<and> (\<forall>b \<in> set bs. sized m b)) \<and> adds_out 3 d' s2 s'"
        using output_rest_runs [OF assms(1,4) bufs muted_maps [OF m2 assms(9)]] by blast
      show ?thesis
      proof (cases r)
        case None
        have "freed d2 s2 = freed d s2" using id2 by (simp add: freed_def)
        then have "muted (freed d s) s'" using r(2) None muted_trans [OF muted_freed [OF m2]] by simp
        then show ?thesis using b2 r2 r(1) None by auto
      next
        case (Some d')
        then obtain d3 bs where d': "objects_ok k d'" "same_ids d2 d3" "d' = d3\<lparr>out_bufs := bs\<rparr>" "\<forall>b \<in> set bs. sized m b" "adds_out 3 d' s2 s'"
          using r(2) by auto
        have len: "length (out_bufs d') = 2" using d'(5) by (auto simp: adds_out_def kms_gets_def)
        have "made k s d d'"
          using d'(1-4) len f(2,3) f1 assms(7,8) p id2 by (auto simp: made_def out_ok_def same_ids_def fresh_out_def)
        then show ?thesis using b2 r2 r(1) Some adds_out_muted [OF m2 d'(5)] by simp
      qed
    qed
  qed
qed

lemma out_error_runs:
  assumes "formats fmt args" and "mallocs s = Suc n"
  shows "\<exists>s'. out_error fmt args s = Inr (None, s') \<and> muted (s\<lparr>mallocs := n\<rparr>) s'"
proof -
  obtain s1 where s1: "muted s s1" "out_error fmt args s = bindS free1 (\<lambda>_. returnS None) s1"
    using warn_bind [OF assms(1)] unfolding out_error_def by blast
  obtain t u where t: "s1 = s\<lparr>gpu_state := (gpu_state s)\<lparr>merr := t\<rparr>, kms_out := u\<rparr>" using s1(1) by (rule mutedE)
  then have "muted (s\<lparr>mallocs := n\<rparr>) (s1\<lparr>mallocs := n\<rparr>)" by (intro muted_at [where t = t and u = u]) simp
  moreover have "out_error fmt args s = Inr (None, s1\<lparr>mallocs := n\<rparr>)" using s1(2) assms(2) by (simp add: kms_counts returnS_def t)
  ultimately show ?thesis by blast
qed

definition with_blob :: "u32 \<Rightarrow> kms \<Rightarrow> kms" where
  "with_blob b s = s\<lparr>blobs := insert b (blobs s), mallocs := Suc (mallocs s)\<rparr>"

lemma with_blob_simps [simp]:
  "output_list (with_blob b s) = output_list s" "gpu_state (with_blob b s) = gpu_state s"
  by (simp_all add: with_blob_def)

text \<open>An output for a connector, or none and nothing allocated.\<close>

lemma output_create_runs:
  assumes "card_ok c" and "kms_ok k" and "length (crtcs res) \<le> 32" and "dom (maps (gpu_state s)) = handles (gpu_state s)"
  shows "\<exists>r s'. output_create c k res co s = Inr (r, s') \<and>
    (case r of None \<Rightarrow> muted s s'
     | Some d \<Rightarrow> connected co \<and> out_ok k d \<and> fresh_out d \<and> obj_id (out_crtc d) \<notin> out_crtcs (output_list s) \<and> mode_blob_id d \<notin> blobs s \<and>
         adds_out 3 d (with_blob (mode_blob_id d) s) s')"
proof -
  let ?s = "s\<lparr>mallocs := Suc (mallocs s)\<rparr>" and ?d = "zero_output\<lparr>out_conn := zero_object\<lparr>obj_id := connector_id co\<rparr>\<rparr>"
  have e0: "output_create c k res co s = (if \<not> connected co then out_error ''ignoring unused connector %u\<newline>'' [AInt (connector_id co)]
     else case modes co of
       [] \<Rightarrow> out_error ''no valid mode for connector %u\<newline>'' [AInt (connector_id co)]
     | m # _ \<Rightarrow>
         bindS (create_blob k m) (\<lambda>r.
         case r of
           Inl _ \<Rightarrow> out_error (''couldn'' @ QUOTE @ ''t create a blob property\<newline>'') []
         | Inr b \<Rightarrow>
             let d = ?d\<lparr>out_mode := m, mode_blob_id := b\<rparr> in
             bindS (liftS (buf_at (out_bufs d) 0)) (\<lambda>b0.
             bindS (warn ''mode for connector %u is %ux%u\<newline>'' [AInt (connector_id co), AInt (buf_width b0), AInt (buf_height b0)]) (\<lambda>_.
             output_fill c k res co d)))) ?s"
    by (simp add: output_create_def malloc1_def Let_def)
  have m: "mallocs ?s = Suc (mallocs s)" "?s\<lparr>mallocs := mallocs s\<rparr> = s" by simp_all
  note err = out_error_runs [OF _ m(1), unfolded m(2)]
  show ?thesis
  proof (cases "connected co")
    case False
    then show ?thesis unfolding e0 using err [OF modeset_formats(7)] by fastforce
  next
    case conn: True
    show ?thesis
    proof (cases "modes co")
      case Nil
      then show ?thesis unfolding e0 using err [OF modeset_formats(8)] conn by fastforce
    next
      case (Cons m ms)
      show ?thesis
      proof (cases "blob_of k ?s m")
        case (Inl e)
        then have "create_blob k m ?s = Inr (Inl e, ?s)" by (simp add: create_blob_def)
        then show ?thesis unfolding e0 using err [OF kms_formats(9)] conn Cons by (fastforce simp: bindS_def [of "create_blob k m"])
      next
        case (Inr b)
        have new: "b \<notin> blobs s" using kms_okD(3) [OF assms(2) Inr] by simp
        have cb: "create_blob k m ?s = Inr (Inr b, with_blob b s)" using Inr by (simp add: create_blob_def with_blob_def)
        let ?d1 = "?d\<lparr>out_mode := m, mode_blob_id := b\<rparr>"
        have b0: "buf_at (out_bufs ?d1) 0 = Inr zero_buf" by (simp add: buf_at_def zero_output_def)
        obtain s1 where s1: "muted (with_blob b s) s1" "output_create c k res co s = output_fill c k res co ?d1 s1"
        proof -
          have "output_create c k res co s = bindS (warn ''mode for connector %u is %ux%u\<newline>''
              [AInt (connector_id co), AInt (buf_width zero_buf), AInt (buf_height zero_buf)]) (\<lambda>_. output_fill c k res co ?d1) (with_blob b s)"
            unfolding e0 using conn Cons by (simp only: if_True simp_thms if_False list.case bindS_Inr [where m = "create_blob k m", OF cb] sum.case Let_def
              b0 liftS_simps bindS_returnS)
          then show thesis using that warn_bind [OF modeset_formats(9), of "with_blob b s"] by metis
        qed
        have f: "out_bufs ?d1 = [zero_buf, zero_buf]" "crtc_index ?d1 < 32" "fresh_out ?d1" "out_mode ?d1 = m"
          by (simp_all add: zero_output_def fresh_out_def)
        have dom: "dom (maps (gpu_state s1)) = handles (gpu_state s1)" using muted_maps [OF s1(1)] assms(4) by simp
        obtain r s' where r: "output_fill c k res co ?d1 s1 = Inr (r, s')"
          "case r of None \<Rightarrow> muted (freed ?d1 s1) s' | Some d' \<Rightarrow> made k s1 ?d1 d' \<and> adds_out 3 d' s1 s'"
          using output_fill_runs [OF assms(1-3) Cons f dom] by blast
        show ?thesis
        proof (cases r)
          case None
          have "freed ?d1 (with_blob b s) = s" using new by (simp add: freed_def with_blob_def)
          then have "muted s s'" using muted_freed [OF s1(1), of ?d1] r(2) None muted_trans by fastforce
          then show ?thesis using s1(2) r(1) None by auto
        next
          case (Some d')
          then have k: "made k s1 ?d1 d'" "adds_out 3 d' s1 s'" using r(2) by simp_all
          have "adds_out 3 d' (with_blob (mode_blob_id d') s) s'" using k adds_out_muted [OF s1(1)] by (simp add: made_def)
          then show ?thesis using s1(2) r(1) Some k(1) new conn muted_keeps(2) [OF s1(1)] by (simp add: made_def)
        qed
      qed
    qed
  qed
qed

subsection \<open>The list of outputs\<close>

definition all_out_bufs :: "kms_output list \<Rightarrow> modeset_buf list" where
  "all_out_bufs l = concat (map out_bufs l)"

text \<open>
  What a list of outputs guarantees: no CRTC, blob, buffer or framebuffer twice, every output set up, and what is allocated is
  what the outputs hold; n objects are held besides.
\<close>

definition kms_holds :: "kms_card \<Rightarrow> nat \<Rightarrow> kms_output list \<Rightarrow> kms \<Rightarrow> bool" where
  "kms_holds k n l s =
     (distinct (map (\<lambda>d. obj_id (out_crtc d)) l) \<and> distinct (map mode_blob_id l) \<and> blobs s = mode_blob_id ` set l \<and>
      owns (gpu_state s) (all_out_bufs l) \<and> mallocs s = 4 * length l \<and> objs (gpu_state s) = n + sum_list (map out_objs l) \<and>
      (\<forall>d \<in> set l. out_ok k d))"

lemma kms_holds_cong:
  assumes "blobs s' = blobs s" and "mallocs s' = mallocs s" and "handles (gpu_state s') = handles (gpu_state s)"
    and "maps (gpu_state s') = maps (gpu_state s)" and "fbs (gpu_state s') = fbs (gpu_state s)" and "objs (gpu_state s') = objs (gpu_state s)"
  shows "kms_holds k n l s' = kms_holds k n l s"
  using assms owns_cong [of "gpu_state s'" "gpu_state s"] by (simp add: kms_holds_def)

lemma kms_holds_muted: "muted s s' \<Longrightarrow> kms_holds k n l s' = kms_holds k n l s"
  by (elim mutedE, rule kms_holds_cong) simp_all

text \<open>What setting up does not touch.\<close>

definition same_kernel :: "kms \<Rightarrow> kms \<Rightarrow> bool" where
  "same_kernel s s' = (prop_vals s' = prop_vals s \<and> commits s' = commits s \<and> crtc_events s' = crtc_events s \<and> reqs s' = reqs s \<and>
     kms_ticks s' = kms_ticks s \<and> fds (gpu_state s') = fds (gpu_state s))"

lemma same_kernel_refl [simp]: "same_kernel s s"
  by (simp add: same_kernel_def)

lemma same_kernel_trans: "same_kernel s1 s2 \<Longrightarrow> same_kernel s2 s3 \<Longrightarrow> same_kernel s1 s3"
  by (simp add: same_kernel_def)

lemma muted_kernel: "muted s s' \<Longrightarrow> same_kernel s s'"
  by (elim mutedE) (simp add: same_kernel_def)

lemma kms_gets_owns:
  assumes "kms_gets d g g'" and "owns g bs"
  shows "owns g' (out_bufs d @ bs)" "fds g' = fds g" "objs g' = objs g"
proof -
  obtain b0 b1 g1 where b: "out_bufs d = [b0, b1]" "gets_buffer (as_dev b0) g g1" "gets_buffer (as_dev b1) g1 g'" "fits (as_dev b0)" "fits (as_dev b1)"
    using assms(1) by (auto simp: kms_gets_def)
  have "owns g' (b1 # b0 # bs)" using owns_new [OF owns_new [OF assms(2) b(2,4)] b(3,5)] .
  moreover have "mset (b1 # b0 # bs) = mset (out_bufs d @ bs)" by (simp add: b(1))
  ultimately show "owns g' (out_bufs d @ bs)" using owns_mset by blast
  show "fds g' = fds g" "objs g' = objs g" using b(2,3) by (auto simp: gets_buffer_def)
qed

lemma holds_adds:
  assumes "kms_holds k n l s" and "adds_out 3 d (with_blob (mode_blob_id d) s) s'" and "mode_blob_id d \<notin> blobs s" and "out_ok k d"
    and "obj_id (out_crtc d) \<notin> out_crtcs l"
  shows "kms_holds k n (d # l) s'" "same_kernel s s'" "output_list s' = output_list s"
proof -
  obtain s1 where a: "muted (grown 3 (out_objs d) (with_blob (mode_blob_id d) s)) s1" "only_gpu s1 s'" "kms_gets d (gpu_state s1) (gpu_state s')"
    using assms(2) unfolding adds_out_def by blast
  obtain t u where t: "s1 = (grown 3 (out_objs d) (with_blob (mode_blob_id d) s))\<lparr>gpu_state :=
      (gpu_state (grown 3 (out_objs d) (with_blob (mode_blob_id d) s)))\<lparr>merr := t\<rparr>, kms_out := u\<rparr>" using a(1) by (rule mutedE)
  have f: "handles (gpu_state s1) = handles (gpu_state s)" "maps (gpu_state s1) = maps (gpu_state s)" "fbs (gpu_state s1) = fbs (gpu_state s)"
    "fds (gpu_state s1) = fds (gpu_state s)" "objs (gpu_state s1) = objs (gpu_state s) + out_objs d"
    by (simp_all add: t grown_def)
  have "owns (gpu_state s1) (all_out_bufs l)" using assms(1) owns_cong [OF f(1-3)] by (simp add: kms_holds_def)
  note o = kms_gets_owns [OF a(3) this]
  obtain g where g: "s' = s1\<lparr>gpu_state := g\<rparr>" using a(2) by (auto simp: only_gpu_def)
  have r: "blobs s' = insert (mode_blob_id d) (blobs s)" "mallocs s' = 4 + mallocs s" "output_list s' = output_list s"
    "prop_vals s' = prop_vals s" "commits s' = commits s" "crtc_events s' = crtc_events s" "reqs s' = reqs s" "kms_ticks s' = kms_ticks s"
    by (simp_all add: g t grown_def with_blob_def)
  show "kms_holds k n (d # l) s'" using assms(1,3-5) o f r by (auto simp: kms_holds_def all_out_bufs_def out_crtcs_def)
  show "same_kernel s s'" "output_list s' = output_list s" using o f r by (simp_all add: same_kernel_def)
qed

lemma holds_with_obj: "kms_holds k n l s \<Longrightarrow> kms_holds k (Suc n) l (with_obj s)"
  by (simp add: kms_holds_def with_obj_def owns_def)

lemma holds_without_obj:
  assumes "kms_holds k (Suc n) l s"
  obtains s' where "s = with_obj s'" "kms_holds k n l s'" "output_list s' = output_list s" "same_kernel s s'"
proof
  let ?s = "s\<lparr>gpu_state := (gpu_state s)\<lparr>objs := objs (gpu_state s) - 1\<rparr>\<rparr>"
  have "Suc (objs (gpu_state s) - 1) = objs (gpu_state s)" using assms by (simp add: kms_holds_def)
  then show "s = with_obj ?s" by (simp add: with_obj_def)
  show "kms_holds k n l ?s" using assms by (simp add: kms_holds_def owns_def)
  show "output_list ?s = output_list s" "same_kernel s ?s" by (simp_all add: same_kernel_def)
qed

definition list_ok :: "kms_card \<Rightarrow> nat \<Rightarrow> kms \<Rightarrow> bool" where
  "list_ok k n s = (kms_holds k n (output_list s) s \<and> (\<forall>d \<in> set (output_list s). fresh_out d))"

lemma holds_maps: "kms_holds k n l s \<Longrightarrow> dom (maps (gpu_state s)) = handles (gpu_state s)"
  by (simp add: kms_holds_def owns_def)

lemma output_connectors_runs:
  assumes "card_ok c" and "kms_ok k" and "length (crtcs res) \<le> 32"
  shows "list_ok k n s \<Longrightarrow> \<exists>s'. output_connectors c k res xs i s = Inr ((), s') \<and> list_ok k n s' \<and> same_kernel s s'"
proof (induction xs arbitrary: i s)
  case Nil
  then show ?case by (simp add: returnS_def)
next
  case (Cons x xs)
  have "\<exists>s1. output_connectors c k res (x # xs) i s = output_connectors c k res xs (Suc i) s1 \<and> list_ok k n s1 \<and> same_kernel s s1"
  proof (cases "conn_of c x")
    case (Inl e)
    obtain s1 where s1: "muted s s1" "output_connectors c k res (x # xs) i s = output_connectors c k res xs (Suc i) s1"
      using warn_bind [OF modeset_formats(12)] unfolding output_connectors.simps Inl sum.case by blast
    then show ?thesis using Cons.prems muted_kernel [OF s1(1)] muted_keeps(2) [OF s1(1)] kms_holds_muted [OF s1(1)]
      by (auto simp: list_ok_def)
  next
    case (Inr co)
    have h: "kms_holds k (Suc n) (output_list s) (with_obj s)" using Cons.prems holds_with_obj by (simp add: list_ok_def)
    obtain r s1 where r: "output_create c k res co (with_obj s) = Inr (r, s1)"
      "case r of None \<Rightarrow> muted (with_obj s) s1
       | Some d \<Rightarrow> connected co \<and> out_ok k d \<and> fresh_out d \<and> obj_id (out_crtc d) \<notin> out_crtcs (output_list (with_obj s)) \<and>
           mode_blob_id d \<notin> blobs (with_obj s) \<and> adds_out 3 d (with_blob (mode_blob_id d) (with_obj s)) s1"
      using output_create_runs [OF assms holds_maps [OF h]] by blast
    have e: "output_connectors c k res (x # xs) i s = bindS (free_objs 1) (\<lambda>_.
          bindS (case r of None \<Rightarrow> returnS () | Some d \<Rightarrow> kupd (\<lambda>s. s\<lparr>output_list := d # output_list s\<rparr>)) (\<lambda>_.
          output_connectors c k res xs (Suc i))) s1"
      by (simp only: output_connectors.simps Inr sum.case add_obj bindS_Inr [where m = "output_create c k res co", OF r(1)])
    have ok: "same_kernel s (with_obj s)" by (simp add: same_kernel_def with_obj_def)
    show ?thesis
    proof (cases r)
      case None
      obtain s2 where s2: "s1 = with_obj s2" "muted s s2" using muted_obj r(2) None by auto
      have "output_connectors c k res (x # xs) i s = output_connectors c k res xs (Suc i) s2"
        unfolding e None option.case s2(1) free_obj by (simp add: bindS_def returnS_def)
      then show ?thesis using Cons.prems muted_kernel [OF s2(2)] muted_keeps(2) [OF s2(2)] kms_holds_muted [OF s2(2)]
        by (auto simp: list_ok_def)
    next
      case (Some d)
      then have d: "out_ok k d" "fresh_out d" "obj_id (out_crtc d) \<notin> out_crtcs (output_list s)" "mode_blob_id d \<notin> blobs (with_obj s)"
        "adds_out 3 d (with_blob (mode_blob_id d) (with_obj s)) s1" using r(2) by simp_all
      note a = holds_adds [OF h d(5,4,1,3)]
      obtain s2 where s2: "s1 = with_obj s2" "kms_holds k n (d # output_list s) s2" "output_list s2 = output_list s1" "same_kernel s1 s2"
        using holds_without_obj [OF a(1)] by blast
      let ?s = "s2\<lparr>output_list := d # output_list s2\<rparr>"
      have "output_connectors c k res (x # xs) i s = output_connectors c k res xs (Suc i) ?s"
        unfolding e Some option.case s2(1) free_obj by simp
      moreover have "list_ok k n ?s" using Cons.prems d(2) s2(2,3) a(3) kms_holds_cong [of ?s s2] by (simp add: list_ok_def)
      moreover have "same_kernel s ?s" using same_kernel_trans [OF same_kernel_trans [OF ok a(2)] s2(4)] by (simp add: same_kernel_def)
      ultimately show ?thesis by blast
    qed
  qed
  then obtain s1 where "output_connectors c k res (x # xs) i s = output_connectors c k res xs (Suc i) s1" "list_ok k n s1" "same_kernel s s1" by blast
  then show ?case using Cons.IH [of s1 "Suc i"] same_kernel_trans [of s s1] by auto
qed

text \<open>A card that nothing of the program is on.\<close>

definition kms_idle :: "kms \<Rightarrow> bool" where
  "kms_idle s =
     (let g = gpu_state s in
      output_list s = [] \<and> commits s = Map.empty \<and> crtc_events s = [] \<and> blobs s = {} \<and> reqs s = 0 \<and> mallocs s = 0 \<and>
      handles g = {} \<and> fbs g = Map.empty \<and> maps g = Map.empty \<and> objs g = 0)"

lemma kms_prepare_runs:
  assumes "card_ok c" and "kms_ok k" and "res_of c = Inr res" and "length (crtcs res) \<le> 32" and "kms_idle s"
  shows "\<exists>ret s'. kms_prepare c k s = Inr (ret, s') \<and> same_kernel s s' \<and>
    (if output_list s' = [] then ret = - 1 \<and> list_ok k 1 s' else ret = 0 \<and> list_ok k 0 s')"
proof -
  have "list_ok k 1 (with_obj s)" using assms(5) by (simp add: list_ok_def kms_holds_def kms_idle_def with_obj_def owns_def all_out_bufs_def Let_def)
  then obtain s1 where s1: "output_connectors c k res (connectors res) 0 (with_obj s) = Inr ((), s1)" "list_ok k 1 s1" "same_kernel (with_obj s) s1"
    using output_connectors_runs [OF assms(1,2,4)] by blast
  have same: "same_kernel s s1" using s1(3) by (simp add: same_kernel_def with_obj_def)
  have e: "kms_prepare c k s = (if output_list s1 = [] then bindS (warn (''couldn'' @ QUOTE @ ''t create any outputs\<newline>'') []) (\<lambda>_. returnS (- 1))
          else bindS (free_objs 1) (\<lambda>_. returnS 0)) s1"
    by (simp only: kms_prepare_def assms(3) sum.case add_obj bindS_Inr [where m = "output_connectors a b d f g" for a b d f g, OF s1(1)]
      bindS_def [of "\<lambda>s. Inr (f s, s)" for f] bindE_simps prod.case)
  show ?thesis
  proof (cases "output_list s1 = []")
    case True
    obtain s2 where s2: "muted s1 s2" "kms_prepare c k s = returnS (- 1) s2"
      using warn_bind [OF kms_formats(10)] unfolding e if_P [OF True] by blast
    then show ?thesis using True s1(2) same_kernel_trans [OF same muted_kernel [OF s2(1)]] muted_keeps(2) [OF s2(1)] kms_holds_muted [OF s2(1)]
      by (simp add: returnS_def list_ok_def)
  next
    case False
    have "kms_holds k (Suc 0) (output_list s1) s1" using s1(2) by (simp add: list_ok_def)
    then obtain s2 where s2: "s1 = with_obj s2" "kms_holds k 0 (output_list s1) s2" "output_list s2 = output_list s1" "same_kernel s1 s2"
      by (rule holds_without_obj)
    have "kms_prepare c k s = Inr (0, s2)" unfolding e if_not_P [OF False] by (simp only: s2(1) free_obj returnS_def)
    then show ?thesis using False s1(2) s2(2,3) same_kernel_trans [OF same s2(4)] by (simp add: list_ok_def)
  qed
qed

end
