(* ===== verification/FlipRun.thy ===== *)
theory FlipRun
  imports FlipSpec
begin

unbundle bit_operations_syntax

text \<open>
  The run of the programs with two framebuffers. What a way of drawing and of cleaning up
  has to promise is a locale, in which the whole run is proved; \<open>modeset-double-buffered.c\<close>
  is its first instance.
\<close>

subsection \<open>Filling a buffer\<close>

lemma owns_buf:
  assumes "owns g bs" and "b \<in> set bs"
  obtains m where "fits (as_dev b)" "maps g (buf_handle b) = Some m" "length m = unat (buf_size b)" "fbs g (buf_fb b) = Some (buf_handle b)"
  using assms by (auto simp: owns_def)

lemma owns_inj: "owns g bs \<Longrightarrow> b \<in> set bs \<Longrightarrow> b' \<in> set bs \<Longrightarrow> buf_handle b = buf_handle b' \<or> buf_fb b = buf_fb b' \<Longrightarrow> b = b'"
  by (auto simp: owns_def distinct_map dest: inj_onD)

lemma owns_fill:
  assumes "owns g bs" and "b \<in> set bs" and "length m = unat (buf_size b)"
  shows "owns (g\<lparr>maps := (maps g)(buf_handle b := Some m)\<rparr>) bs"
proof -
  have "\<exists>n. ((maps g)(buf_handle b := Some m)) (buf_handle x) = Some n \<and> length n = unat (buf_size x)" if "x \<in> set bs" for x
  proof (cases "buf_handle x = buf_handle b")
    case True
    then have "x = b" using owns_inj [OF assms(1) that assms(2)] by simp
    then show ?thesis using assms(3) by simp
  next
    case False
    then show ?thesis using owns_buf [OF assms(1) that] by auto
  qed
  then show ?thesis using assms(1,2) by (auto simp: owns_def)
qed

definition filled :: "modeset_buf \<Rightarrow> u32 \<Rightarrow> gpu \<Rightarrow> gpu \<Rightarrow> bool" where
  "filled b v g g' =
     (\<exists>m. g' = g\<lparr>maps := (maps g)(buf_handle b := Some m)\<rparr> \<and> length m = unat (buf_size b) \<and> painted v g' (as_dev b))"

lemma fill_buf_runs:
  assumes "owns (card_state s) bs" and "b \<in> set bs"
  shows "\<exists>g. fill_buf b v s = Inr ((), s\<lparr>card_state := g\<rparr>) \<and> filled b v (card_state s) g \<and> owns g bs"
proof -
  obtain m where m: "fits (as_dev b)" "maps (card_state s) (buf_handle b) = Some m" "length m = unat (buf_size b)"
    using owns_buf [OF assms] by blast
  obtain m' where m': "draw_rows (as_dev b) v 0 (unat (buf_height b)) (crtcs_view s) =
        Inr ((), (crtcs_view s)\<lparr>maps := (maps (crtcs_view s))(buf_handle b := Some m')\<rparr>)" "length m' = length m"
    "\<forall>r k. r < unat (buf_height b) \<and> k < unat (buf_width b) \<longrightarrow> bslice (pos (as_dev b) r k) 4 m' = le_bytes 4 (unat v)"
    using draw_rows_runs [OF m(1), of 0 "unat (buf_height b)" "crtcs_view s" m v] m(2,3) by (auto simp: crtcs_view_def)
  let ?g = "(card_state s)\<lparr>maps := (maps (card_state s))(buf_handle b := Some m')\<rparr>"
  have "fill_buf b v s = Inr ((), s\<lparr>card_state := ?g\<rparr>)"
    using on_card_Inr [where m = "draw_rows (as_dev b) v 0 (unat (buf_height b))", OF m'(1)] by (simp add: fill_buf_def crtcs_view_def)
  moreover have "filled b v (card_state s) ?g"
    using m'(2,3) m(3) unfolding filled_def by (intro exI [of _ m']) (simp add: painted_def)
  moreover have "owns ?g bs" using owns_fill [OF assms] m'(2) m(3) by simp
  ultimately show ?thesis by blast
qed

subsection \<open>Giving a device back\<close>

lemma dev_bufs: "dev_ok c res co d \<Longrightarrow> \<exists>b0 b1. bufs d = [b0, b1]"
  by (auto simp: dev_ok_def length_Suc_conv numeral_2_eq_2)

lemma hold_bufs: "devs_hold c res l g \<Longrightarrow> d \<in> set l \<Longrightarrow> \<exists>b0 b1. bufs d = [b0, b1]"
  unfolding devs_hold_def using dev_bufs by blast

lemma free_dev_runs:
  assumes "devs_hold c res (d # l) (card_state s)" and "flip_saved d = Some old"
  shows "\<exists>g. free_dev d s = Inr ((), s\<lparr>card_state := g, taken := None\<rparr>) \<and> devs_hold c res l g \<and>
    objs g = objs (card_state s) - 1 \<and> fds g = fds (card_state s) \<and> crtc_conf g = crtc_conf (card_state s)"
proof -
  obtain b0 b1 where b: "bufs d = [b0, b1]" using hold_bufs [OF assms(1) list.set_intros(1)] by blast
  let ?g = "(card_state s)\<lparr>objs := objs (card_state s) - 1\<rparr>"
  let ?g' = "(without b0 (without b1 ?g))\<lparr>devs := devs (card_state s) - 1\<rparr>"
  have "owns ?g (b0 # b1 # all_bufs l)" using assms(1) by (simp add: devs_hold_def all_bufs_def b owns_def)
  moreover have "mset (b0 # b1 # all_bufs l) = mset (b1 # b0 # all_bufs l)" by simp
  ultimately have "owns ?g (b1 # b0 # all_bufs l)" using owns_mset by blast
  then have "owns (without b0 (without b1 ?g)) (all_bufs l)" by (intro owns_without)
  then have "owns ?g' (all_bufs l)" by (simp add: owns_def)
  then have "devs_hold c res l ?g'" using assms(1) by (simp add: devs_hold_def)
  moreover have "free_dev d s = Inr ((), s\<lparr>card_state := ?g', taken := None\<rparr>)"
    using assms(2) b by (simp add: free_dev_def count_simps buf_at_def liftS_def bindS_def destroy_fb_runs fupd_def without_def card_counts [simplified])
  ultimately show ?thesis by (intro exI [of _ ?g']) (simp add: without_def)
qed

subsection \<open>Devices that are on the screen\<close>

text \<open>What drawing keeps of a device.\<close>

definition keeps_dev :: "flip_dev \<Rightarrow> flip_dev \<Rightarrow> bool" where
  "keeps_dev d d' =
     (bufs d' = bufs d \<and> flip_mode d' = flip_mode d \<and> flip_conn d' = flip_conn d \<and> flip_crtc d' = flip_crtc d \<and>
      flip_saved d' = flip_saved d \<and> cleanup d' = cleanup d \<and> (front_buf d \<in> {0, 1} \<longrightarrow> front_buf d' \<in> {0, 1}))"

lemma keeps_refl [simp]: "keeps_dev d d"
  by (simp add: keeps_dev_def)

lemma keeps_trans: "keeps_dev d1 d2 \<Longrightarrow> keeps_dev d2 d3 \<Longrightarrow> keeps_dev d1 d3"
  by (auto simp: keeps_dev_def)

text \<open>
  The state between setting the CRTCs and cleaning up, beside the card before: every device has the old configuration of its
  CRTC, and no other CRTC has been touched, which is the case if setting the CRTC of a device changes no other one.
\<close>

definition running :: "card \<Rightarrow> resources \<Rightarrow> gpu \<Rightarrow> flip_dev list \<Rightarrow> gpu \<Rightarrow> bool" where
  "running c res g0 l g =
     (devs_hold c res l g \<and> objs g = length l \<and> fds g = fds g0 \<and>
      (\<forall>d \<in> set l. flip_saved d = crtc_conf g0 (flip_crtc d) \<and> front_buf d \<in> {0, 1} \<and> sets_only c (flip_crtc d)) \<and>
      (\<forall>x. x \<notin> flip_crtc ` set l \<longrightarrow> crtc_conf g x = crtc_conf g0 x))"

lemma running_card:
  assumes "running c res g0 l g" and "owns g' (all_bufs l)" and "devs g' = devs g" and "objs g' = objs g" and "fds g' = fds g"
    and "\<And>x. x \<notin> flip_crtc ` set l \<Longrightarrow> crtc_conf g' x = crtc_conf g x"
  shows "running c res g0 l g'"
  using assms by (simp add: running_def devs_hold_def)

lemma running_owns: "running c res g0 l g \<Longrightarrow> owns g (all_bufs l)"
  by (simp add: running_def devs_hold_def)

lemma running_silent: "silent g g' \<Longrightarrow> running c res g0 l g \<Longrightarrow> running c res g0 l g'"
  using owns_silent running_owns by (auto intro!: running_card [of c res g0 l g] simp: silent_def owns_def)

lemma running_rands: "running c res g0 l g \<Longrightarrow> running c res g0 l (g\<lparr>rands := n\<rparr>)"
  using running_owns by (auto intro!: running_card [of c res g0 l g] simp: owns_def)

lemma all2_fields:
  assumes "list_all2 keeps_dev l l'"
  shows "map flip_crtc l' = map flip_crtc l" "all_bufs l' = all_bufs l" "length l' = length l"
  using assms by (induction rule: list_all2_induct) (simp_all add: keeps_dev_def all_bufs_def)

lemma dev_ok_keeps: "keeps_dev d d' \<Longrightarrow> dev_ok c res co d' = dev_ok c res co d"
  by (simp add: keeps_dev_def dev_ok_def)

lemma running_keeps:
  assumes "running c res g0 l g" and "list_all2 keeps_dev l l'"
  shows "running c res g0 l' g"
proof -
  note f = all2_fields [OF assms(2)]
  have s: "flip_crtc ` set l' = flip_crtc ` set l" using f(1) by (metis list.set_map)
  have ex: "\<exists>d \<in> set l. keeps_dev d d'" if "d' \<in> set l'" for d'
    using assms(2) that by (metis in_set_conv_nth list_all2_conv_all_nth)
  have each: "(\<exists>k \<in> set (connectors res). \<exists>co. conn_of c k = Inr co \<and> flip_conn d' = connector_id co \<and> dev_ok c res co d') \<and>
      flip_saved d' = crtc_conf g0 (flip_crtc d') \<and> front_buf d' \<in> {0, 1} \<and> sets_only c (flip_crtc d')" if new: "d' \<in> set l'" for d'
  proof -
    obtain d where d: "d \<in> set l" "keeps_dev d d'" using ex [OF new] by blast
    have "(\<exists>k \<in> set (connectors res). \<exists>co. conn_of c k = Inr co \<and> flip_conn d = connector_id co \<and> dev_ok c res co d) \<and>
      flip_saved d = crtc_conf g0 (flip_crtc d) \<and> front_buf d \<in> {0, 1} \<and> sets_only c (flip_crtc d)"
      using assms(1) d(1) by (simp add: running_def devs_hold_def)
    then show ?thesis using d(2) dev_ok_keeps [OF d(2)] by (simp add: keeps_dev_def)
  qed
  show ?thesis using assms(1) f s each by (simp add: running_def devs_hold_def)
qed

subsection \<open>Setting the CRTCs\<close>

definition shown_on :: "flip_dev \<Rightarrow> modeset_buf \<Rightarrow> gpu \<Rightarrow> gpu" where
  "shown_on d b g = g\<lparr>crtc_conf := (crtc_conf g)(flip_crtc d := Some
     \<lparr>cr_id = flip_crtc d, buffer_id = buf_fb b, cr_x = 0, cr_y = 0, cr_mode = flip_mode d\<rparr>)\<rparr>"

lemma show_buf_cases:
  assumes "sets_only c (flip_crtc d)"
  shows "(\<exists>e. show_buf c d b s = Inr (Inl e, s)) \<or> show_buf c d b s = Inr (Inr (), s\<lparr>card_state := shown_on d b (card_state s)\<rparr>)"
proof -
  define ci where "ci = \<lparr>cr_id = flip_crtc d, buffer_id = buf_fb b, cr_x = 0, cr_y = 0, cr_mode = flip_mode d\<rparr>"
  show ?thesis
  proof (cases "set_of c (crtcs_view s) ci [flip_conn d]")
    case (Inl e)
    then show ?thesis by (simp add: show_buf_def on_card_def set_crtc_def crtcs_view_def ci_def)
  next
    case (Inr conf)
    then have "conf = (crtc_conf (crtcs_view s))(flip_crtc d := Some ci)" using sets_onlyD [OF assms] by (simp add: ci_def)
    then show ?thesis using Inr by (simp add: show_buf_def on_card_def set_crtc_def crtcs_view_def shown_on_def ci_def)
  qed
qed

text \<open>A CRTC shows what it showed before, or the front buffer.\<close>

definition shows_front :: "gpu \<Rightarrow> gpu \<Rightarrow> flip_dev \<Rightarrow> bool" where
  "shows_front g0 g d =
     (crtc_conf g (flip_crtc d) = crtc_conf g0 (flip_crtc d) \<or>
      (\<exists>ci b. crtc_conf g (flip_crtc d) = Some ci \<and> buf_at (bufs d) (unat (front_buf d)) = Inr b \<and> buffer_id ci = buf_fb b))"

definition saved_as :: "gpu \<Rightarrow> flip_dev \<Rightarrow> flip_dev" where
  "saved_as g0 d = d\<lparr>flip_saved := crtc_conf g0 (flip_crtc d)\<rparr>"

text \<open>What the loop may change on the card, for the devices in it.\<close>

definition crtcs_set :: "nat \<Rightarrow> flip_dev list \<Rightarrow> gpu \<Rightarrow> gpu \<Rightarrow> bool" where
  "crtcs_set n ds g g' =
     ((\<exists>f t. g' = g\<lparr>objs := objs g + n, crtc_conf := f, merr := t\<rparr>) \<and>
      (\<forall>x. x \<notin> flip_crtc ` set ds \<longrightarrow> crtc_conf g' x = crtc_conf g x) \<and> (\<forall>d \<in> set ds. shows_front g g' d))"

text \<open>Showing a buffer, or the message that it failed.\<close>

lemma show_or_complain:
  assumes "\<And>e. formats fmt ([AInt (flip_conn d)] @ errno_args c e)" and "sets_only c (flip_crtc d)"
  shows "\<exists>g. bindS (show_buf c d b) (\<lambda>r.
     bindS (case r of Inl e \<Rightarrow> on_card (say fmt ([AInt (flip_conn d)] @ errno_args c e)) | Inr _ \<Rightarrow> returnS ()) (\<lambda>_. k)) s =
     k (s\<lparr>card_state := g\<rparr>) \<and> (silent (card_state s) g \<or> g = shown_on d b (card_state s))"
proof (cases "\<exists>e. show_buf c d b s = Inr (Inl e, s)")
  case True
  then obtain e where f: "show_buf c d b s = Inr (Inl e, s)" by blast
  obtain s1 where s1: "on_card (say fmt ([AInt (flip_conn d)] @ errno_args c e)) s = Inr ((), s1)" "hushed s s1"
    using say_hushed [OF assms(1)] by blast
  have "s1 = s\<lparr>card_state := card_state s1\<rparr>" using only_card_eq [OF hushedD(2) [OF s1(2)]] .
  then show ?thesis using hushedD(1) [OF s1(2)]
    unfolding bindS_Inr [where m = "show_buf c d b", OF f] sum.case
      bindS_Inr [where m = "on_card (say fmt ([AInt (flip_conn d)] @ errno_args c e))", OF s1(1)] by metis
next
  case False
  then have f: "show_buf c d b s = Inr (Inr (), s\<lparr>card_state := shown_on d b (card_state s)\<rparr>)" using show_buf_cases [OF assms(2)] by blast
  show ?thesis unfolding bindS_Inr [where m = "show_buf c d b", OF f] sum.case by auto
qed

lemma flip_set_dev:
  assumes "buf_at (bufs d) (unat (front_buf d)) = Inr b" and "crtc_conf (card_state s) (flip_crtc d) = Some old"
    and "sets_only c (flip_crtc d)"
  shows "\<exists>g. flip_set_loop c (d # ds) s =
      bindS (flip_set_loop c ds) (\<lambda>ds. returnS (d\<lparr>flip_saved := Some old\<rparr> # ds)) (s\<lparr>card_state := g\<rparr>) \<and>
    crtcs_set 1 [d] (card_state s) g"
proof -
  let ?g = "(card_state s)\<lparr>objs := objs (card_state s) + 1\<rparr>"
  have "flip_set_loop c (d # ds) s = bindS (show_buf c d b) (\<lambda>r.
     bindS (case r of
              Inl e \<Rightarrow> on_card (say ''cannot set CRTC for connector %u (%d): %s\<newline>'' ([AInt (flip_conn d)] @ errno_args c e))
            | Inr _ \<Rightarrow> returnS ()) (\<lambda>_.
     bindS (flip_set_loop c ds) (\<lambda>ds. returnS (d\<lparr>flip_saved := Some old\<rparr> # ds)))) (s\<lparr>card_state := ?g\<rparr>)"
    using assms by (simp add: count_simps bindS_def [of "\<lambda>s. Inr (f s, s)" for f] bindS_def [of "liftS r" for r] liftS_def)
  then obtain g where g: "flip_set_loop c (d # ds) s =
      bindS (flip_set_loop c ds) (\<lambda>ds. returnS (d\<lparr>flip_saved := Some old\<rparr> # ds)) (s\<lparr>card_state := g\<rparr>)"
    "silent ?g g \<or> g = shown_on d b ?g"
    using show_or_complain [where d = d and c = c and b = b, OF modeset_formats(15) assms(3), where s = "s\<lparr>card_state := ?g\<rparr>"] by auto
  obtain f t where "g = (card_state s)\<lparr>objs := objs (card_state s) + 1, crtc_conf := f, merr := t\<rparr>"
    "f = crtc_conf (card_state s) \<or> f = crtc_conf (shown_on d b ?g)"
  proof -
    have "?g\<lparr>merr := t\<rparr> = ?g\<lparr>crtc_conf := crtc_conf (card_state s), merr := t\<rparr>" for t by simp
    moreover have "shown_on d b ?g = ?g\<lparr>crtc_conf := crtc_conf (shown_on d b ?g), merr := merr (card_state s)\<rparr>" by (simp add: shown_on_def)
    ultimately show thesis using g(2) that unfolding silent_def by metis
  qed
  then have "crtcs_set 1 [d] (card_state s) g" using assms(1) by (auto simp: crtcs_set_def shows_front_def shown_on_def)
  then show ?thesis using g(1) by blast
qed

lemma crtcs_set_step:
  assumes "crtcs_set 1 [d] g g1" and "crtcs_set n ds g1 g2" and "flip_crtc d \<notin> flip_crtc ` set ds"
  shows "crtcs_set (Suc n) (d # ds) g g2"
proof -
  have other: "flip_crtc x \<noteq> flip_crtc d" if "x \<in> set ds" for x using that assms(3) by (metis image_eqI)
  have "shows_front g g2 x" if "x \<in> set (d # ds)" for x
  proof (cases "x \<in> set ds")
    case True
    then have "shows_front g1 g2 x" "crtc_conf g1 (flip_crtc x) = crtc_conf g (flip_crtc x)"
      using assms(1,2) other [OF True] by (simp_all add: crtcs_set_def)
    then show ?thesis by (simp add: shows_front_def)
  next
    case False
    then have "x = d" using that by simp
    then show ?thesis using assms by (simp add: crtcs_set_def shows_front_def)
  qed
  moreover have "\<exists>f t. g2 = g\<lparr>objs := objs g + Suc n, crtc_conf := f, merr := t\<rparr>"
  proof -
    obtain f t where "g2 = g1\<lparr>objs := objs g1 + n, crtc_conf := f, merr := t\<rparr>" using assms(2) by (auto simp: crtcs_set_def)
    then have "g2 = g\<lparr>objs := objs g + Suc n, crtc_conf := f, merr := t\<rparr>" using assms(1) by (auto simp: crtcs_set_def)
    then show ?thesis by blast
  qed
  moreover have "crtc_conf g2 x = crtc_conf g x" if "x \<notin> flip_crtc ` set (d # ds)" for x
    using assms(1,2) that by (simp add: crtcs_set_def)
  ultimately show ?thesis unfolding crtcs_set_def by blast
qed

lemma flip_set_loop_runs:
  "distinct (map flip_crtc ds) \<Longrightarrow> \<forall>d \<in> set ds. (\<exists>b. buf_at (bufs d) (unat (front_buf d)) = Inr b) \<and> (\<exists>ci. crtc_conf (card_state s) (flip_crtc d) = Some ci) \<and>
     sets_only c (flip_crtc d) \<Longrightarrow>
   \<exists>g. flip_set_loop c ds s = Inr (map (saved_as (card_state s)) ds, s\<lparr>card_state := g\<rparr>) \<and> crtcs_set (length ds) ds (card_state s) g"
proof (induction ds arbitrary: s)
  case Nil
  have "\<exists>f t. card_state s = (card_state s)\<lparr>objs := objs (card_state s) + 0, crtc_conf := f, merr := t\<rparr>"
    by (intro exI [of _ "crtc_conf (card_state s)"] exI [of _ "merr (card_state s)"]) simp
  then show ?case by (intro exI [of _ "card_state s"]) (simp add: returnS_def crtcs_set_def)
next
  case (Cons d ds)
  obtain b old where d: "buf_at (bufs d) (unat (front_buf d)) = Inr b" "crtc_conf (card_state s) (flip_crtc d) = Some old"
    using Cons.prems(2) by auto
  obtain g1 where g1: "flip_set_loop c (d # ds) s =
      bindS (flip_set_loop c ds) (\<lambda>ds. returnS (d\<lparr>flip_saved := Some old\<rparr> # ds)) (s\<lparr>card_state := g1\<rparr>)"
    "crtcs_set 1 [d] (card_state s) g1" using flip_set_dev [OF d, of c ds] Cons.prems(2) by (meson list.set_intros(1))
  have new: "flip_crtc d \<notin> flip_crtc ` set ds" using Cons.prems(1) by simp
  have other: "crtc_conf g1 (flip_crtc x) = crtc_conf (card_state s) (flip_crtc x)" if "x \<in> set ds" for x
  proof -
    have "flip_crtc x \<noteq> flip_crtc d" using that new by (metis image_eqI)
    then show ?thesis using g1(2) by (simp add: crtcs_set_def)
  qed
  then obtain g2 where g2: "flip_set_loop c ds (s\<lparr>card_state := g1\<rparr>) = Inr (map (saved_as g1) ds, s\<lparr>card_state := g2\<rparr>)"
    "crtcs_set (length ds) ds g1 g2"
    using Cons.IH [of "s\<lparr>card_state := g1\<rparr>"] Cons.prems by auto
  have "map (saved_as g1) ds = map (saved_as (card_state s)) ds" using other by (simp add: saved_as_def)
  then have "flip_set_loop c (d # ds) s = Inr (map (saved_as (card_state s)) (d # ds), s\<lparr>card_state := g2\<rparr>)"
    using g1(1) g2(1) d(2) by (simp add: bindS_def returnS_def saved_as_def del: flip_set_loop.simps)
  then show ?case using crtcs_set_step [OF g1(2) g2(2) new] by auto
qed

subsection \<open>The contract of drawing and cleaning up\<close>

text \<open>The state after setting the CRTCs: nothing has been drawn, and no flip is on its way.\<close>

definition ready :: "card \<Rightarrow> resources \<Rightarrow> gpu \<Rightarrow> flip_gpu \<Rightarrow> bool" where
  "ready c res g0 s =
     (running c res g0 (flip_list s) (card_state s) \<and> taken s = None \<and> scheduled s = Map.empty \<and> flip_queue s = [] \<and>
      (\<forall>d \<in> set (flip_list s). fresh_dev d \<and> shows_front g0 (card_state s) d) \<and>
      (\<forall>b \<in> set (all_bufs (flip_list s)). new_fb c g0 (buf_fb b)))"

definition all_restorable :: "card \<Rightarrow> resources \<Rightarrow> gpu \<Rightarrow> bool" where
  "all_restorable c res g0 = (\<forall>co x. usable c res co x \<longrightarrow> restorable c (crtc_conf g0) x)"

lemma restorable_dev:
  assumes "all_restorable c res g0" and "devs_hold c res l g" and "d \<in> set l"
  shows "restorable c (crtc_conf g0) (flip_crtc d)"
proof -
  obtain co where "dev_ok c res co d" using assms(2,3) by (auto simp: devs_hold_def)
  then show ?thesis using assms(1) by (auto simp: all_restorable_def dev_ok_def)
qed

lemma running_restorable:
  assumes "all_restorable c res g0" and "running c res g0 l g" and "d \<in> set l"
  obtains ci where "flip_saved d = Some ci" "crtc_conf g0 (flip_crtc d) = Some ci"
    "\<And>g ks. set_of c g ci ks = Inr ((crtc_conf g)(flip_crtc d := Some ci))"
proof -
  have "devs_hold c res l g" using assms(2) by (simp add: running_def)
  from restorableD [OF restorable_dev [OF assms(1) this assms(3)]] obtain ci where
    "crtc_conf g0 (flip_crtc d) = Some ci" "\<And>g ks. set_of c g ci ks = Inr ((crtc_conf g)(flip_crtc d := Some ci))" by metis
  moreover have "flip_saved d = crtc_conf g0 (flip_crtc d)" using assms(2,3) by (simp add: running_def)
  ultimately show thesis using that by simp
qed

text \<open>What the loop that sets the CRTCs needs of the devices.\<close>

lemma listed_settable:
  assumes "listed c res s" and "all_restorable c res (card_state s)" and "d \<in> set (flip_list s)"
  shows "(\<exists>b. buf_at (bufs d) (unat (front_buf d)) = Inr b) \<and> (\<exists>ci. crtc_conf (card_state s) (flip_crtc d) = Some ci) \<and> sets_only c (flip_crtc d)"
proof -
  have hold: "devs_hold c res (flip_list s) (card_state s)" "\<forall>d \<in> set (flip_list s). fresh_dev d" using assms(1) by (simp_all add: listed_def)
  then show ?thesis using restorable_dev [OF assms(2) hold(1) assms(3)] hold_bufs [OF hold(1) assms(3)] assms(3)
    by (auto simp: restorable_def fresh_dev_def buf_at_def)
qed

lemma ready_set:
  assumes "listed c res s" and "crtcs_set (length (flip_list s)) (flip_list s) (card_state s) g" and "taken s = None" and "scheduled s = Map.empty"
    and "flip_queue s = []" and "objs (card_state s) = 0" and "\<forall>d \<in> set (flip_list s). sets_only c (flip_crtc d)"
  shows "ready c res (card_state s) (s\<lparr>card_state := g, flip_list := map (saved_as (card_state s)) (flip_list s)\<rparr>)"
proof -
  let ?l = "flip_list s" and ?f = "saved_as (card_state s)"
  have hold: "devs_hold c res ?l (card_state s)" "\<forall>d \<in> set ?l. fresh_dev d" using assms(1) by (simp_all add: listed_def)
  have f [simp]: "bufs (?f d) = bufs d" "flip_crtc (?f d) = flip_crtc d" "flip_conn (?f d) = flip_conn d" "flip_mode (?f d) = flip_mode d"
    "front_buf (?f d) = front_buf d" "flip_saved (?f d) = crtc_conf (card_state s) (flip_crtc d)" "fresh_dev (?f d) = fresh_dev d"
    "dev_ok c res co (?f d) = dev_ok c res co d" "shows_front g0 g (?f d) = shows_front g0 g d" for d g0 g co
    by (simp_all add: saved_as_def fresh_dev_def dev_ok_def shows_front_def)
  have all: "all_bufs (map ?f ?l) = all_bufs ?l" "map (flip_crtc \<circ> ?f) ?l = map flip_crtc ?l" by (simp_all add: all_bufs_def comp_def)
  have "flip_crtc ` set (map ?f ?l) = flip_crtc ` set ?l" by (simp add: image_image)
  moreover have "owns g (all_bufs ?l)" "devs g = length ?l"
    using hold(1) assms(2) by (auto simp: crtcs_set_def devs_hold_def owns_def)
  moreover have "objs g = length ?l" "fds g = fds (card_state s)" using assms(2,6) by (auto simp: crtcs_set_def)
  ultimately have "running c res (card_state s) (map ?f ?l) g"
    using hold assms(2,7) unfolding running_def devs_hold_def by (simp add: all crtcs_set_def fresh_dev_def)
  moreover have "\<forall>b \<in> set (all_bufs (map ?f ?l)). new_fb c (card_state s) (buf_fb b)" using assms(1) by (simp add: all listed_def)
  ultimately show ?thesis using assms(2-5) hold(2) by (simp add: ready_def crtcs_set_def)
qed

lemma flip_report: "\<exists>s'. on_card (modeset_report c ret) s = Inr (ret, s') \<and> hushed s s'"
proof -
  obtain g where g: "modeset_report c ret (crtcs_view s) = Inr (ret, g)" "silent (crtcs_view s) g" using report_silent by blast
  show ?thesis using on_card_Inr [where m = "modeset_report c ret", OF g(1)] on_card_silent [OF g(2)] by blast
qed

locale flip_program =
  fixes draw :: "card \<Rightarrow> 'w \<Rightarrow> unit fm" and clean :: "card \<Rightarrow> 'w \<Rightarrow> unit fm"
    and fair :: "'w \<Rightarrow> bool" and drawn :: "'w \<Rightarrow> flip_gpu \<Rightarrow> bool"
  assumes draw_ends: "fair w \<Longrightarrow> ready c res g0 s \<Longrightarrow>
      \<exists>s'. draw c w s = Inr ((), s') \<and> taken s' = None \<and> drawn w s' \<and> running c res g0 (flip_list s') (card_state s')"
    and clean_ends: "fair w \<Longrightarrow> all_restorable c res g0 \<Longrightarrow> taken s = None \<Longrightarrow> drawn w s \<Longrightarrow>
      running c res g0 (flip_list s) (card_state s) \<Longrightarrow>
      \<exists>s'. clean c w s = Inr ((), s') \<and> flip_list s' = [] \<and> taken s' = None \<and> scheduled s' = Map.empty \<and> flip_queue s' = [] \<and>
        running c res g0 [] (card_state s')"
begin

lemma session_restores:
  assumes "fair w" and "listed c res s" and "all_restorable c res (card_state s)" and "taken s = None" and "scheduled s = Map.empty"
    and "flip_queue s = []" and "objs (card_state s) = 0"
  shows "\<exists>s'. flip_session c (draw c w) (clean c w) s = Inr ((), s') \<and> flip_idle s' \<and> fds (card_state s') = fds (card_state s) \<and>
    crtc_conf (card_state s') = crtc_conf (card_state s)"
proof -
  let ?g0 = "card_state s" and ?l = "flip_list s"
  have hold: "devs_hold c res ?l ?g0" "\<forall>d \<in> set ?l. fresh_dev d" using assms(2) by (simp_all add: listed_def)
  have settable: "\<forall>d \<in> set ?l. (\<exists>b. buf_at (bufs d) (unat (front_buf d)) = Inr b) \<and> (\<exists>ci. crtc_conf ?g0 (flip_crtc d) = Some ci) \<and> sets_only c (flip_crtc d)"
    using listed_settable [OF assms(2,3)] by blast
  obtain g1 where 1: "flip_set_loop c ?l s = Inr (map (saved_as ?g0) ?l, s\<lparr>card_state := g1\<rparr>)" "crtcs_set (length ?l) ?l ?g0 g1"
    using flip_set_loop_runs [OF _ settable] hold(1) by (auto simp: devs_hold_def)
  define s1 where "s1 = s\<lparr>card_state := g1, flip_list := map (saved_as ?g0) ?l\<rparr>"
  have "ready c res ?g0 s1" using ready_set [OF assms(2) 1(2)] settable assms(4-7) by (simp add: s1_def)
  then obtain s2 where 2: "draw c w s1 = Inr ((), s2)" "taken s2 = None" "drawn w s2" "running c res ?g0 (flip_list s2) (card_state s2)"
    using draw_ends [OF assms(1)] by blast
  obtain s3 where 3: "clean c w s2 = Inr ((), s3)" "flip_list s3 = []" "taken s3 = None" "scheduled s3 = Map.empty" "flip_queue s3 = []"
    "running c res ?g0 [] (card_state s3)"
    using clean_ends [OF assms(1,3) 2(2-4)] by blast
  have "flip_session c (draw c w) (clean c w) s = Inr ((), s3)"
    by (simp add: flip_session_def bindS_def 1(1) fupd_def s1_def [symmetric] 2(1) 3(1))
  moreover have "flip_idle s3" using 3(2-6) by (simp add: flip_idle_def Let_def running_def devs_hold_def owns_def all_bufs_def)
  moreover have "crtc_conf (card_state s3) = crtc_conf ?g0" "fds (card_state s3) = fds ?g0" using 3(6) by (auto simp: running_def)
  ultimately show ?thesis by blast
qed

lemma main_restores:
  assumes "card_ok c" and "res_of c = Inr res" and "length (crtcs res) \<le> 32" and "flip_idle s"
    and "\<forall>node. open_of c node = Inr ()" and "dumb_cap c = Some cap" and "cap \<noteq> 0"
    and "all_restorable c res (card_state s)" and "fair w"
  shows "\<exists>s'. flip_main c (draw c w) (clean c w) argv s = Inr (0, s') \<and> flip_idle s' \<and> fds (card_state s') = fds (card_state s) \<and>
    crtc_conf (card_state s') = crtc_conf (card_state s)"
proof -
  define node where "node = (if 1 < length argv then argv ! 1 else ''/dev/dri/card0'')"
  obtain s1 where 1: "on_card (say (''using card '' @ QUOTE @ ''%s'' @ QUOTE @ ''\<newline>'') [AStr node]) s = Inr ((), s1)" "hushed s s1"
    using say_hushed [OF modeset_formats(18)] by blast
  define s2 where "s2 = s1\<lparr>card_state := (card_state s1)\<lparr>fds := fds (card_state s1) + 1\<rparr>\<rparr>"
  have 2: "on_card (modeset_open c node) s1 = Inr (0, s2)"
    using assms(5-7) by (simp add: on_card_def modeset_open_def bindS_def upd_def returnS_def s2_def)
  have i: "flip_idle s2" "fds (card_state s2) = fds (card_state s) + 1" "crtc_conf (card_state s2) = crtc_conf (card_state s)"
    using 1(2) assms(4) by (auto simp: s2_def flip_idle_def hushed_def Let_def)
  obtain s3 where 3: "flip_prepare c s2 = Inr (0, s3)" "listed c res s3" "same_world s2 s3"
    using flip_prepare_runs [OF assms(1-3) i(1)] by blast
  have r3: "taken s3 = None" "scheduled s3 = Map.empty" "flip_queue s3 = []" "objs (card_state s3) = 0"
    "fds (card_state s3) = fds (card_state s) + 1" "crtc_conf (card_state s3) = crtc_conf (card_state s)"
    using 3(3) i by (simp_all add: same_world_def same_rest_def flip_idle_def Let_def)
  obtain s4 where 4: "flip_session c (draw c w) (clean c w) s3 = Inr ((), s4)" "flip_idle s4" "fds (card_state s4) = fds (card_state s3)"
    "crtc_conf (card_state s4) = crtc_conf (card_state s3)"
    using session_restores [OF assms(9) 3(2) _ r3(1-4)] assms(8) r3(6) by (auto simp: all_restorable_def)
  define s5 where "s5 = s4\<lparr>card_state := (card_state s4)\<lparr>fds := fds (card_state s4) - 1\<rparr>\<rparr>"
  obtain s' where 5: "on_card (modeset_report c 0) s5 = Inr (0, s')" "hushed s5 s'" using flip_report by blast
  have "flip_main c (draw c w) (clean c w) argv s = Inr (0, s')"
    unfolding flip_main_def node_def [symmetric] Let_def
    using 5(1) by (simp add: bindS_def [of "on_card m" for m] 1(1) [simplified] 2 bindS_def [of "flip_prepare c"] 3(1)
      bindS_def [of "flip_session a b d" for a b d] 4(1) card_counts [simplified] s5_def)
  moreover have "flip_idle s'" "fds (card_state s') = fds (card_state s)" "crtc_conf (card_state s') = crtc_conf (card_state s)"
    using 5(2) 4(2-4) r3 by (auto simp: s5_def flip_idle_def hushed_def Let_def)
  ultimately show ?thesis by blast
qed

end

end
