(* ===== verification/KmsReq.thy ===== *)
theory KmsReq
  imports KmsHold FlipRun
begin

unbundle bit_operations_syntax

text \<open>
  The requests of \<open>modeset-atomic.c\<close>: what \<open>modeset_atomic_prepare_commit\<close> puts into one, and what a commit of it does.
\<close>

subsection \<open>Looking for a property\<close>

lemma find_prop_runs:
  assumes "kms_ok k" and "obj_ok k ty ob"
  shows "\<exists>p. find_prop (props_info ob) name = Inr p"
proof -
  obtain ps where ps: "props_of k (obj_id ob) ty = Inr ps" "props_info ob = map (\<lambda>(p, v). prop_of k p) ps" using assms(2) by (auto simp: obj_ok_def)
  have "\<forall>(p, v) \<in> set ps. prop_of k p \<noteq> None" using kms_okD(1) [OF assms(1) ps(1)] by blast
  moreover have "\<forall>(p, v) \<in> set qs. prop_of k p \<noteq> None \<Longrightarrow> \<exists>p. find_prop (map (\<lambda>(p, v). prop_of k p) qs) name = Inr p" for qs
    by (induction qs) auto
  ultimately show ?thesis by (simp add: ps(2))
qed

text \<open>The identifier of a property of an object, or 0.\<close>

definition pid :: "drm_object \<Rightarrow> string \<Rightarrow> u32" where
  "pid ob name = (case find_prop (props_info ob) name of Inl _ \<Rightarrow> 0 | Inr p \<Rightarrow> p)"

definition entry :: "drm_object \<times> string \<times> u64 \<Rightarrow> u32 \<times> u32 \<times> u64" where
  "entry x = (case x of (ob, name, v) \<Rightarrow> (obj_id ob, pid ob name, v))"

text \<open>A setting that can not be added to a request.\<close>

definition setting_fails :: "kms_card \<Rightarrow> request \<Rightarrow> drm_object \<times> string \<times> u64 \<Rightarrow> bool" where
  "setting_fails k req x = (case x of (ob, name, v) \<Rightarrow> pid ob name = 0 \<or> (\<exists>e. add_of k req (entry x) = Inl e))"

lemma obj_prop_runs:
  assumes "kms_ok k" and "obj_ok k ty (fst x)"
  shows "if setting_fails k req x then \<exists>e > 0. \<exists>s'. obj_prop k req x s = Inr ((- e, req), s') \<and> muted s s'
    else \<exists>n > 0. obj_prop k req x s = Inr ((n, req @ [entry x]), s)"
proof -
  obtain ob name v where x: "x = (ob, name, v)" by (cases x) auto
  obtain p where p: "find_prop (props_info ob) name = Inr p" using find_prop_runs [OF assms(1), of ty ob name] assms(2) x by auto
  obtain ps where ps: "props ob = Some ps" using assms(2) x by (auto simp: obj_ok_def)
  have e: "obj_prop k req x s = (if p = 0 then bindS (warn ''no object property: %s\<newline>'' [AStr name]) (\<lambda>_. returnS (- EINVAL, req))
     else case add_of k req (obj_id ob, p, v) of
       Inl e \<Rightarrow> returnS (- e, req)
     | Inr _ \<Rightarrow> returnS (int (length req) + 1, req @ [(obj_id ob, p, v)])) s"
    by (simp add: obj_prop_def x set_drm_object_property_def bindS_def [of "liftS a" for a] liftS_def ps deref_def p)
  have pd: "pid ob name = p" by (simp add: pid_def p)
  show ?thesis
  proof (cases "p = 0")
    case True
    obtain s' where "muted s s'" "obj_prop k req x s = returnS (- EINVAL, req) s'"
      using warn_bind [OF kms_formats(2)] unfolding e if_P [OF True] by blast
    then show ?thesis using True by (auto simp: setting_fails_def x pd EINVAL_def returnS_def intro: exI [of _ "22 :: int"])
  next
    case False
    then show ?thesis using e kms_okD(4) [OF assms(1)]
      by (cases "add_of k req (obj_id ob, p, v)") (auto simp: setting_fails_def x pd entry_def returnS_def intro: muted_refl)
  qed
qed

text \<open>The settings are added one after the other, up to the first that fails.\<close>

lemma set_all_runs:
  assumes "kms_ok k"
  shows "\<forall>x \<in> set xs. \<exists>ty. obj_ok k ty (fst x) \<Longrightarrow>
    \<exists>ret n s'. set_all k xs req s = Inr ((ret, req @ map entry (take n xs)), s') \<and> muted s s' \<and> n \<le> length xs \<and>
      (\<forall>m < n. \<not> setting_fails k (req @ map entry (take m xs)) (xs ! m)) \<and>
      (if n = length xs then ret = 0 else ret = - 1 \<and> setting_fails k (req @ map entry (take n xs)) (xs ! n))"
proof (induction xs arbitrary: req s)
  case Nil
  then show ?case by (simp add: returnS_def)
next
  case (Cons x xs)
  obtain ty where ty: "obj_ok k ty (fst x)" using Cons.prems by auto
  show ?case
  proof (cases "setting_fails k req x")
    case True
    then obtain e s' where e: "0 < e" "obj_prop k req x s = Inr ((- e, req), s')" "muted s s'"
      using obj_prop_runs [OF assms ty, of req s] by auto
    have "set_all k (x # xs) req s = Inr ((- 1, req), s')" using e(1) by (simp add: bindS_Inr [where m = "obj_prop k req x", OF e(2)] returnS_def)
    then show ?thesis using e(3) True by (intro exI [of _ "- 1"] exI [of _ 0] exI [of _ s']) simp
  next
    case False
    then obtain n0 where n0: "0 < n0" "obj_prop k req x s = Inr ((n0, req @ [entry x]), s)" using obj_prop_runs [OF assms ty, of req s] by auto
    obtain ret n s' where r: "set_all k xs (req @ [entry x]) s = Inr ((ret, (req @ [entry x]) @ map entry (take n xs)), s')" "muted s s'" "n \<le> length xs"
      "\<forall>m < n. \<not> setting_fails k ((req @ [entry x]) @ map entry (take m xs)) (xs ! m)"
      "if n = length xs then ret = 0 else ret = - 1 \<and> setting_fails k ((req @ [entry x]) @ map entry (take n xs)) (xs ! n)"
      using Cons.IH [of "req @ [entry x]" s] Cons.prems by auto
    have "set_all k (x # xs) req s = Inr ((ret, req @ map entry (take (Suc n) (x # xs))), s')"
      using n0(1) r(1) by (simp add: bindS_Inr [where m = "obj_prop k req x", OF n0(2)])
    moreover have "\<not> setting_fails k (req @ map entry (take m (x # xs))) ((x # xs) ! m)" if "m < Suc n" for m
      using that False r(4) by (cases m) simp_all
    ultimately show ?thesis using r(2,3,5) 
      by (intro exI [of _ ret] exI [of _ "Suc n"] exI [of _ s']) (cases "n = length xs"; simp)
  qed
qed

subsection \<open>The request for an output\<close>

lemma out_ok_bufs:
  assumes "out_ok k d"
  obtains b0 b1 where "out_bufs d = [b0, b1]" "out_front d = 0 \<and> out_back d = Inr b1 \<or> out_front d = 1 \<and> out_back d = Inr b0"
proof -
  obtain b0 b1 where "out_bufs d = [b0, b1]" using assms by (auto simp: out_ok_def length_Suc_conv numeral_2_eq_2)
  moreover from this have "out_front d = 0 \<and> out_back d = Inr b1 \<or> out_front d = 1 \<and> out_back d = Inr b0"
    using assms by (auto simp: out_ok_def out_back_def buf_at_def)
  ultimately show thesis by (rule that)
qed

lemma settings_objects: "objects_ok k d \<Longrightarrow> \<forall>x \<in> set (settings d b). \<exists>ty. obj_ok k ty (fst x)"
  by (auto simp: settings_def objects_ok_def)

lemma length_settings: "length (settings d b) = 13"
  by (simp add: settings_def)

definition out_request :: "kms_output \<Rightarrow> modeset_buf \<Rightarrow> request" where
  "out_request d b = map entry (settings d b)"

lemma prepare_commit_runs:
  assumes "kms_ok k" and "objects_ok k d" and "out_back d = Inr b"
  shows "\<exists>ret n s'. prepare_commit k d req s = Inr ((ret, req @ take n (out_request d b)), s') \<and> muted s s' \<and> n \<le> 13 \<and>
    (\<forall>m < n. \<not> setting_fails k (req @ take m (out_request d b)) (settings d b ! m)) \<and>
    (if n = 13 then ret = 0 else ret = - 1 \<and> setting_fails k (req @ take n (out_request d b)) (settings d b ! n))"
  using set_all_runs [OF assms(1) settings_objects [OF assms(2), of b], of req s]
  unfolding prepare_commit_def assms(3) liftS_simps bindS_returnS out_request_def take_map length_settings .

text \<open>With all properties there are, the request has all settings.\<close>

definition settable :: "kms_card \<Rightarrow> kms_output \<Rightarrow> bool" where
  "settable k d = (\<forall>b. \<forall>x \<in> set (settings d b). pid (fst x) (fst (snd x)) \<noteq> 0)"

definition adds_ok :: "kms_card \<Rightarrow> bool" where
  "adds_ok k = (\<forall>req x. add_of k req x = Inr ())"

lemma settable_fails: "settable k d \<Longrightarrow> adds_ok k \<Longrightarrow> x \<in> set (settings d b) \<Longrightarrow> \<not> setting_fails k req x"
  by (cases x) (force simp: settable_def adds_ok_def setting_fails_def entry_def)

lemma prepare_commit_full:
  assumes "kms_ok k" and "objects_ok k d" and "out_back d = Inr b" and "settable k d" and "adds_ok k"
  shows "\<exists>s'. prepare_commit k d req s = Inr ((0, req @ out_request d b), s') \<and> muted s s'"
proof -
  obtain ret n s' where r: "prepare_commit k d req s = Inr ((ret, req @ take n (out_request d b)), s')" "muted s s'" "n \<le> 13"
    "if n = 13 then ret = 0 else ret = - 1 \<and> setting_fails k (req @ take n (out_request d b)) (settings d b ! n)"
    using prepare_commit_runs [OF assms(1-3)] by blast
  have "n = 13"
  proof (rule ccontr)
    assume "n \<noteq> 13"
    then have "settings d b ! n \<in> set (settings d b)" "setting_fails k (req @ take n (out_request d b)) (settings d b ! n)"
      using r(3,4) by (simp_all add: length_settings)
    then show False using settable_fails [OF assms(4,5)] by blast
  qed
  then show ?thesis using r by (auto simp: out_request_def length_settings)
qed

text \<open>A card on which all settings of all outputs can be added: then every request is freed.\<close>

definition kms_complete :: "kms_card \<Rightarrow> bool" where
  "kms_complete k = (adds_ok k \<and> (\<forall>d. objects_ok k d \<longrightarrow> settable k d))"

definition reqs_freed :: "kms_card \<Rightarrow> kms \<Rightarrow> bool" where
  "reqs_freed k s = (kms_complete k \<longrightarrow> reqs s = 0)"

lemma reqs_freed_same: "reqs_freed k s \<Longrightarrow> kms_complete k \<longrightarrow> reqs s' = reqs s \<Longrightarrow> reqs_freed k s'"
  by (simp add: reqs_freed_def)

lemma complete_fails: "kms_complete k \<Longrightarrow> objects_ok k d \<Longrightarrow> n < 13 \<Longrightarrow> \<not> setting_fails k req (settings d b ! n)"
  using settable_fails [of k d "settings d b ! n" b req] by (simp add: kms_complete_def length_settings)

text \<open>The CRTCs of requests for outputs.\<close>

lemma is_crtc_other: "kms_ok k \<Longrightarrow> obj_ok k ty ob \<Longrightarrow> is_crtc k (obj_id ob) = (ty = OBJECT_CRTC)"
  using kms_okD(6) [of k "obj_id ob" ty _ OBJECT_CRTC] by (auto simp: is_crtc_def obj_ok_def split: sum.splits)

lemma request_crtcs:
  assumes "kms_ok k" and "objects_ok k d"
  shows "set (req_crtcs k (take n (out_request d b))) \<subseteq> {obj_id (out_crtc d)}"
    and "set (req_crtcs k (out_request d b)) = {obj_id (out_crtc d)}"
proof -
  have c: "is_crtc k (obj_id (out_crtc d))" "\<not> is_crtc k (obj_id (out_conn d))" "\<not> is_crtc k (obj_id (out_plane d))"
    using is_crtc_other [OF assms(1)] assms(2) unfolding objects_ok_def by blast+
  have "x = obj_id (out_crtc d)" if "x \<in> fst ` set (out_request d b)" "is_crtc k x" for x
    using that c by (auto simp: out_request_def settings_def entry_def)
  then show "set (req_crtcs k (take n (out_request d b))) \<subseteq> {obj_id (out_crtc d)}"
    by (auto simp: req_crtcs_def dest: in_set_takeD)
  show "set (req_crtcs k (out_request d b)) = {obj_id (out_crtc d)}" using c by (auto simp: req_crtcs_def out_request_def settings_def entry_def)
qed

lemma req_crtcs_single: "set (req_crtcs k req) = {x} \<Longrightarrow> req_crtcs k req = [x]"
proof -
  assume a: "set (req_crtcs k req) = {x}"
  have "distinct (req_crtcs k req)" by (simp add: req_crtcs_def)
  then have "length (req_crtcs k req) = 1" using a distinct_card by fastforce
  then show ?thesis using a by (cases "req_crtcs k req") auto
qed

end
