(* ===== verification/KmsRun.thy ===== *)
theory KmsRun
  imports KmsReq
begin

unbundle bit_operations_syntax

text \<open>
  Drawing in \<open>modeset-atomic.c\<close>: what one redraw changes, and how the flags of the outputs go together with the commits that wait
  and the events that have not been read.
\<close>

subsection \<open>Painting\<close>

definition recolored :: "modeset_buf \<Rightarrow> gpu \<Rightarrow> gpu \<Rightarrow> bool" where
  "recolored b g g' = (\<exists>v n t. filled b v (g\<lparr>rands := n, merr := t\<rparr>) g')"

lemma on_gpu_color:
  "\<exists>r. on_gpu (next_color c up cur m) s = Inr (r, s\<lparr>gpu_state := (gpu_state s)\<lparr>rands := rands (gpu_state s) + 1\<rparr>\<rparr>)"
  by (simp add: on_gpu_def next_color_def Let_def)

lemma owns_rands: "owns (g\<lparr>rands := n\<rparr>) bs = owns g bs"
  by (simp add: owns_def)

lemma paint_runs:
  assumes "owns (gpu_state s) bs" and "out_back d = Inr b" and "b \<in> set bs"
  shows "\<exists>r gr bl g. paint c d s = Inr (d\<lparr>out_red := r, out_green := gr, out_blue := bl\<rparr>, s\<lparr>gpu_state := g\<rparr>) \<and>
    filled b (color_word (fst r) (fst gr) (fst bl)) ((gpu_state s)\<lparr>rands := rands (gpu_state s) + 3\<rparr>) g \<and> owns g bs"
proof -
  let ?s = "\<lambda>n. s\<lparr>gpu_state := (gpu_state s)\<lparr>rands := rands (gpu_state s) + n\<rparr>\<rparr>"
  obtain r where 1: "on_gpu (next_color c (snd (out_red d)) (fst (out_red d)) 5) s = Inr (r, ?s 1)" using on_gpu_color by blast
  obtain gr where 2: "on_gpu (next_color c (snd (out_green d)) (fst (out_green d)) 5) (?s 1) = Inr (gr, ?s 2)"
    using on_gpu_color [of c "snd (out_green d)" "fst (out_green d)" 5 "?s 1"] by (auto simp: numeral_2_eq_2)
  obtain bl where 3: "on_gpu (next_color c (snd (out_blue d)) (fst (out_blue d)) 5) (?s 2) = Inr (bl, ?s 3)"
    using on_gpu_color [of c "snd (out_blue d)" "fst (out_blue d)" 5 "?s 2"] by (auto simp: numeral_3_eq_3)
  let ?v = "color_word (fst r) (fst gr) (fst bl)" and ?g = "gpu_state (?s 3)"
  have own: "owns ?g bs" using assms(1) by (simp add: owns_rands)
  obtain m where m: "fits (as_dev b)" "maps ?g (buf_handle b) = Some m" "length m = unat (buf_size b)" using owns_buf [OF own assms(3)] by blast
  obtain m' where m': "draw_rows (as_dev b) ?v 0 (unat (buf_height b)) ?g = Inr ((), ?g\<lparr>maps := (maps ?g)(buf_handle b := Some m')\<rparr>)" "length m' = length m"
    "\<forall>i j. i < unat (buf_height b) \<and> j < unat (buf_width b) \<longrightarrow> bslice (pos (as_dev b) i j) 4 m' = le_bytes 4 (unat ?v)"
    using draw_rows_runs [OF m(1), of 0 "unat (buf_height b)" ?g m ?v] m(2,3) by auto
  let ?g' = "?g\<lparr>maps := (maps ?g)(buf_handle b := Some m')\<rparr>"
  have "on_gpu (draw_rows (as_dev b) ?v 0 (unat (buf_height b))) (?s 3) = Inr ((), s\<lparr>gpu_state := ?g'\<rparr>)"
    using m'(1) by (simp add: on_gpu_def)
  then have "paint c d s = Inr (d\<lparr>out_red := r, out_green := gr, out_blue := bl\<rparr>, s\<lparr>gpu_state := ?g'\<rparr>)"
    by (simp only: paint_def bindS_def [of "on_gpu m" for m] 1 2 3 bindE_simps prod.case assms(2) liftS_simps bindS_returnS returnS_def)
  moreover have "filled b ?v ?g ?g'" using m'(2,3) m(3) unfolding filled_def by (intro exI [of _ m']) (simp add: painted_def)
  moreover have "owns ?g' bs" using owns_fill [OF own assms(3)] m'(2) m(3) by simp
  ultimately show ?thesis by (intro exI [of _ r] exI [of _ gr] exI [of _ bl] exI [of _ ?g']) simp
qed

lemma filled_recolored: "filled b v (g\<lparr>rands := n\<rparr>) g' \<Longrightarrow> recolored b g g'"
proof -
  assume "filled b v (g\<lparr>rands := n\<rparr>) g'"
  moreover have "g\<lparr>rands := n\<rparr> = g\<lparr>rands := n, merr := merr g\<rparr>" by simp
  ultimately show ?thesis unfolding recolored_def by metis
qed

lemma recolored_text: "recolored b g g' \<Longrightarrow> recolored b g (g'\<lparr>merr := t\<rparr>)"
proof -
  assume "recolored b g g'"
  then obtain v n t0 m where m: "g' = g\<lparr>rands := n, merr := t0, maps := (maps g)(buf_handle b := Some m)\<rparr>" "length m = unat (buf_size b)"
    "painted v g' (as_dev b)" by (auto simp: recolored_def filled_def)
  have "filled b v (g\<lparr>rands := n, merr := t\<rparr>) (g'\<lparr>merr := t\<rparr>)"
    unfolding filled_def using m by (intro exI [of _ m]) (simp add: painted_def)
  then show ?thesis unfolding recolored_def by blast
qed

lemma recolored_keeps:
  assumes "recolored b g g'"
  shows "handles g' = handles g" "fbs g' = fbs g" "objs g' = objs g" "fds g' = fds g"
    "\<And>h. h \<noteq> buf_handle b \<Longrightarrow> maps g' h = maps g h" "\<exists>v. painted v g' (as_dev b)"
  using assms by (auto simp: recolored_def filled_def)

lemma owns_text: "owns (g\<lparr>merr := t\<rparr>) bs = owns g bs"
  by (simp add: owns_def)

subsection \<open>One redraw\<close>

definition keeps_out :: "u32 list \<Rightarrow> kms_output \<Rightarrow> kms_output \<Rightarrow> bool" where
  "keeps_out xs d d' =
     (\<exists>f p r g b. d' = d\<lparr>out_front := f, out_pending := p, out_red := r, out_green := g, out_blue := b\<rparr> \<and>
        (out_front d \<in> {0, 1} \<longrightarrow> f \<in> {0, 1}) \<and> (out_cleanup d \<longrightarrow> p = (out_pending d \<and> obj_id (out_crtc d) \<notin> set xs)))"

text \<open>The commit that a redraw leaves: the old ones, or one more with the other buffer in front.\<close>

definition committed :: "kms_output \<Rightarrow> modeset_buf \<Rightarrow> kms \<Rightarrow> kms_output \<Rightarrow> (u32 \<Rightarrow> request option) \<Rightarrow> bool" where
  "committed d b s d' cm =
     (cm = commits s \<and> out_front d' = out_front d \<and> out_pending d' = out_pending d \<or>
      commits s (obj_id (out_crtc d)) = None \<and> cm = (commits s)(obj_id (out_crtc d) := Some (out_request d b)) \<and>
      out_front d' = out_front d XOR 1 \<and> out_pending d')"

definition redraws :: "kms_output \<Rightarrow> modeset_buf \<Rightarrow> modeset_buf list \<Rightarrow> kms \<Rightarrow> kms_output \<Rightarrow> kms \<Rightarrow> bool" where
  "redraws d b bs s d' s' =
     (\<exists>f p r g bl cm h u m. d' = d\<lparr>out_front := f, out_pending := p, out_red := r, out_green := g, out_blue := bl\<rparr> \<and>
        s' = s\<lparr>gpu_state := h, kms_out := u, reqs := m, commits := cm\<rparr> \<and> recolored b (gpu_state s) h \<and> owns h bs \<and> committed d b s d' cm)"

lemma redrawsI:
  assumes "muted (s\<lparr>gpu_state := g, reqs := m, commits := cm\<rparr>) s'" and "recolored b (gpu_state s) g" and "owns g bs"
    and "d' = d\<lparr>out_front := f, out_pending := p, out_red := r, out_green := gr, out_blue := bl\<rparr>" and "committed d b s d' cm"
  shows "redraws d b bs s d' s'"
proof -
  obtain t u where t: "s' = (s\<lparr>gpu_state := g, reqs := m, commits := cm\<rparr>)\<lparr>gpu_state :=
      (gpu_state (s\<lparr>gpu_state := g, reqs := m, commits := cm\<rparr>))\<lparr>merr := t\<rparr>, kms_out := u\<rparr>" using assms(1) by (rule mutedE)
  then have "s' = s\<lparr>gpu_state := g\<lparr>merr := t\<rparr>, kms_out := u, reqs := m, commits := cm\<rparr>" by simp
  moreover have "recolored b (gpu_state s) (g\<lparr>merr := t\<rparr>)" "owns (g\<lparr>merr := t\<rparr>) bs" using assms(2,3) recolored_text owns_text by blast+
  ultimately show ?thesis using assms(4,5) unfolding redraws_def by blast
qed

lemma nonblocking:
  "(\<exists>e. atomic_commit k [PAGE_FLIP_EVENT, ATOMIC_NONBLOCK] req s = Inr (Inl e, s)) \<or>
   (\<forall>x \<in> set (req_crtcs k req). commits s x = None) \<and> atomic_commit k [PAGE_FLIP_EVENT, ATOMIC_NONBLOCK] req s =
     Inr (Inr (), s\<lparr>commits := (\<lambda>x. if x \<in> set (req_crtcs k req) then Some req else commits s x)\<rparr>)"
  by (cases "commit_of k s [PAGE_FLIP_EVENT, ATOMIC_NONBLOCK] req") (auto simp: atomic_commit_def)

lemma draw_out_runs:
  assumes "kms_ok k" and "objects_ok k d" and "out_back d = Inr b" and "owns (gpu_state s) bs" and "b \<in> set bs"
  shows "\<exists>d' s'. draw_out c k d s = Inr (d', s') \<and> redraws d b bs s d' s' \<and> (kms_complete k \<longrightarrow> reqs s' = reqs s)"
proof -
  obtain r gr bl g where p: "paint c d s = Inr (d\<lparr>out_red := r, out_green := gr, out_blue := bl\<rparr>, s\<lparr>gpu_state := g\<rparr>)"
    "filled b (color_word (fst r) (fst gr) (fst bl)) ((gpu_state s)\<lparr>rands := rands (gpu_state s) + 3\<rparr>) g" "owns g bs"
    using paint_runs [OF assms(4,3,5)] by blast
  let ?d = "d\<lparr>out_red := r, out_green := gr, out_blue := bl\<rparr>" and ?s = "s\<lparr>gpu_state := g, reqs := Suc (reqs s)\<rparr>"
  have rec: "recolored b (gpu_state s) g" using filled_recolored [OF p(2)] .
  have d: "objects_ok k ?d" "out_back ?d = Inr b" "out_request ?d b = out_request d b" "obj_id (out_crtc ?d) = obj_id (out_crtc d)"
    using assms(2,3) by (simp_all add: objects_ok_def out_back_def out_request_def settings_def)
  obtain ret n s1 where 1: "prepare_commit k ?d [] ?s = Inr ((ret, [] @ take n (out_request ?d b)), s1)" "muted ?s s1" "n \<le> 13"
    "if n = 13 then ret = 0 else ret = - 1 \<and> setting_fails k ([] @ take n (out_request ?d b)) (settings ?d b ! n)"
    using prepare_commit_runs [OF assms(1) d(1,2)] by blast
  let ?req = "take n (out_request d b)"
  have e: "draw_out c k d s = (if ret < 0 then
       bindS (\<lambda>s. warn ''prepare atomic commit failed, %d\<newline>'' [AInt (word_of_int (stale_errno k s))] s) (\<lambda>_. returnS ?d)
     else
       bindS (atomic_commit k [PAGE_FLIP_EVENT, ATOMIC_NONBLOCK] ?req) (\<lambda>r.
       bindS free_req (\<lambda>_.
       case r of
         Inl e \<Rightarrow> bindS (warn ''atomic commit failed, %d\<newline>'' [AInt (word_of_int e)]) (\<lambda>_. returnS ?d)
       | Inr _ \<Rightarrow> returnS (?d\<lparr>out_front := out_front ?d XOR 1, out_pending := True\<rparr>)))) s1"
    by (simp add: draw_out_def bindS_Inr [where m = "paint c d", OF p(1)] alloc_req_def bindS_Inr [where m = "prepare_commit a b f" for a b f, OF 1(1)] d(3))
  obtain t u where t: "s1 = ?s\<lparr>gpu_state := (gpu_state ?s)\<lparr>merr := t\<rparr>, kms_out := u\<rparr>" using 1(2) by (rule mutedE)
  have com: "commits s1 = commits s" by (simp add: t)
  have full: "?d = d\<lparr>out_front := out_front d, out_pending := out_pending d, out_red := r, out_green := gr, out_blue := bl\<rparr>" by simp
  have same: "committed d b s ?d (commits s)" by (simp add: committed_def)
  have s1m: "muted (s\<lparr>gpu_state := g, reqs := m, commits := cm\<rparr>) (s1\<lparr>reqs := m, commits := cm\<rparr>)" for m cm
    by (rule muted_at [where t = t and u = u]) (simp add: t)
  have s1c: "muted (s\<lparr>gpu_state := g, reqs := m, commits := commits s\<rparr>) (s1\<lparr>reqs := m\<rparr>)" for m
    by (rule muted_at [where t = t and u = u]) (simp add: t)
  show ?thesis
  proof (cases "ret < 0")
    case True
    obtain s2 where s2: "warn ''prepare atomic commit failed, %d\<newline>'' [AInt (word_of_int (stale_errno k s1))] s1 = Inr ((), s2)" "muted s1 s2"
      using warn_muted [OF kms_formats(14)] by blast
    have "draw_out c k d s = Inr (?d, s2)" using e True by (simp add: bindS_def s2(1) returnS_def)
    moreover have "muted (s\<lparr>gpu_state := g, reqs := reqs s1, commits := commits s\<rparr>) s2" 
        using muted_trans [OF s1c [of "reqs s1", unfolded kms_same] s2(2)] .
    then have "redraws d b bs s ?d s2" using redrawsI [OF _ rec p(3) full same] by blast
    moreover have "n < 13" "setting_fails k ([] @ take n (out_request ?d b)) (settings ?d b ! n)" using 1(3,4) True by (auto split: if_splits)
    then have "\<not> kms_complete k" using complete_fails [OF _ d(1)] by blast
    ultimately show ?thesis by blast
  next
    case False
    then have n13: "n = 13" "ret = 0" using 1(4) by (auto split: if_splits)
    then have req: "?req = out_request d b" by (simp add: out_request_def length_settings)
    note nb = nonblocking [of k ?req s1]
    show ?thesis
    proof (cases "\<exists>e. atomic_commit k [PAGE_FLIP_EVENT, ATOMIC_NONBLOCK] ?req s1 = Inr (Inl e, s1)")
      case True
      then obtain er where er: "atomic_commit k [PAGE_FLIP_EVENT, ATOMIC_NONBLOCK] ?req s1 = Inr (Inl er, s1)" by blast
      let ?s1 = "s1\<lparr>reqs := reqs s1 - Suc 0\<rparr>"
      obtain s2 where s2: "warn ''atomic commit failed, %d\<newline>'' [AInt (word_of_int er)] ?s1 = Inr ((), s2)" "muted ?s1 s2"
        using warn_muted [OF kms_formats(17)] by blast
      have "draw_out c k d s = Inr (?d, s2)"
        using e False by (simp add: bindS_Inr [where m = "atomic_commit a b f" for a b f, OF er] free_req_def
          bindS_Inr [where m = "warn ''atomic commit failed, %d\<newline>'' a" for a, OF s2(1)] returnS_def)
      moreover have "muted (s\<lparr>gpu_state := g, reqs := reqs s1 - Suc 0, commits := commits s\<rparr>) s2"
        using muted_trans [OF s1c s2(2)] .
      then have "redraws d b bs s ?d s2" using redrawsI [OF _ rec p(3) full same] by blast
      moreover have "reqs s2 = reqs s" using muted_keeps(7) [OF s2(2)] by (simp add: t)
      ultimately show ?thesis by blast
    next
      case F2: False
      have x: "set (req_crtcs k (out_request d b)) = {obj_id (out_crtc d)}" using request_crtcs(2) [OF assms(1,2)] .
      let ?cm = "(commits s)(obj_id (out_crtc d) := Some (out_request d b))"
      have c: "commits s (obj_id (out_crtc d)) = None"
        "atomic_commit k [PAGE_FLIP_EVENT, ATOMIC_NONBLOCK] ?req s1 = Inr (Inr (), s1\<lparr>commits := ?cm\<rparr>)"
        using nb F2 unfolding req x com by (auto simp: fun_upd_def)
      let ?d' = "?d\<lparr>out_front := out_front ?d XOR 1, out_pending := True\<rparr>"
      have "draw_out c k d s = Inr (?d', s1\<lparr>reqs := reqs s1 - 1, commits := ?cm\<rparr>)"
        using e False by (simp add: bindS_Inr [where m = "atomic_commit a b f" for a b f, OF c(2)] free_req_def returnS_def)
      moreover have "committed d b s ?d' ?cm" using c(1) by (simp add: committed_def)
      moreover have "?d' = d\<lparr>out_front := out_front d XOR 1, out_pending := True, out_red := r, out_green := gr, out_blue := bl\<rparr>" by simp
      moreover have "reqs (s1\<lparr>reqs := reqs s1 - 1, commits := ?cm\<rparr>) = reqs s" by (simp add: t)
      ultimately show ?thesis using redrawsI [OF s1m rec p(3)] by blast
    qed
  qed
qed

lemma redraws_keeps:
  assumes "redraws d b bs s d' s'" and "\<not> out_cleanup d"
  shows "keeps_out xs d d'"
proof -
  obtain f p r g bl cm where k: "d' = d\<lparr>out_front := f, out_pending := p, out_red := r, out_green := g, out_blue := bl\<rparr>" "committed d b s d' cm"
    using assms(1) unfolding redraws_def by blast
  then have "f = out_front d \<or> f = out_front d XOR 1" by (auto simp: committed_def)
  then have "out_front d \<in> {0, 1} \<longrightarrow> f \<in> {0, 1}" by auto
  then show ?thesis using k(1) assms(2) unfolding keeps_out_def by blast
qed

lemma redraws_state:
  assumes "redraws d b bs s d' s'"
  shows "output_list s' = output_list s" "prop_vals s' = prop_vals s" "crtc_events s' = crtc_events s" "blobs s' = blobs s"
    "mallocs s' = mallocs s" "kms_ticks s' = kms_ticks s" "recolored b (gpu_state s) (gpu_state s')" "owns (gpu_state s') bs"
    "committed d b s d' (commits s')"
  using assms unfolding redraws_def by auto

subsection \<open>Outputs of the list\<close>

lemma keeps_out_fields:
  assumes "keeps_out xs d d'"
  shows "obj_id (out_crtc d') = obj_id (out_crtc d)" "mode_blob_id d' = mode_blob_id d" "out_bufs d' = out_bufs d" "out_objs d' = out_objs d"
    "out_ok k d \<Longrightarrow> out_ok k d'" "out_cleanup d' = out_cleanup d" "out_plane d' = out_plane d" "out_crtc d' = out_crtc d" "out_conn d' = out_conn d"
  using assms by (auto simp: keeps_out_def out_objs_def out_ok_def objects_ok_def)

lemma keeps_out_refl: "obj_id (out_crtc d) \<notin> set xs \<Longrightarrow> keeps_out xs d d"
proof -
  have "d = d\<lparr>out_front := out_front d, out_pending := out_pending d, out_red := out_red d, out_green := out_green d, out_blue := out_blue d\<rparr>" by simp
  then show "obj_id (out_crtc d) \<notin> set xs \<Longrightarrow> keeps_out xs d d" unfolding keeps_out_def by (metis (no_types))
qed

lemma keeps_out_trans:
  assumes "keeps_out xs d1 d2" and "keeps_out ys d2 d3"
  shows "keeps_out (xs @ ys) d1 d3"
proof -
  obtain f p r g b where 1: "d2 = d1\<lparr>out_front := f, out_pending := p, out_red := r, out_green := g, out_blue := b\<rparr>"
    "out_front d1 \<in> {0, 1} \<longrightarrow> f \<in> {0, 1}" "out_cleanup d1 \<longrightarrow> p = (out_pending d1 \<and> obj_id (out_crtc d1) \<notin> set xs)"
    using assms(1) unfolding keeps_out_def by blast
  obtain f' p' r' g' b' where 2: "d3 = d2\<lparr>out_front := f', out_pending := p', out_red := r', out_green := g', out_blue := b'\<rparr>"
    "out_front d2 \<in> {0, 1} \<longrightarrow> f' \<in> {0, 1}" "out_cleanup d2 \<longrightarrow> p' = (out_pending d2 \<and> obj_id (out_crtc d2) \<notin> set ys)"
    using assms(2) unfolding keeps_out_def by blast
  have "d3 = d1\<lparr>out_front := f', out_pending := p', out_red := r', out_green := g', out_blue := b'\<rparr>" using 1(1) 2(1) by simp
  moreover have "out_front d1 \<in> {0, 1} \<longrightarrow> f' \<in> {0, 1}" "out_cleanup d1 \<longrightarrow> p' = (out_pending d1 \<and> obj_id (out_crtc d1) \<notin> set (xs @ ys))"
    using 1 2(2,3) by auto
  ultimately show ?thesis unfolding keeps_out_def by blast
qed

abbreviation (input) crtc_ids :: "kms_output list \<Rightarrow> u32 list" where
  "crtc_ids l \<equiv> map (\<lambda>d. obj_id (out_crtc d)) l"

lemma all2_keeps:
  assumes "list_all2 (keeps_out xs) l l'"
  shows "crtc_ids l' = crtc_ids l" "map mode_blob_id l' = map mode_blob_id l" "all_out_bufs l' = all_out_bufs l" "map out_objs l' = map out_objs l"
    "length l' = length l" "(\<forall>d \<in> set l. out_ok k d) \<Longrightarrow> \<forall>d \<in> set l'. out_ok k d"
  using assms by (induction rule: list_all2_induct) (simp_all add: keeps_out_fields all_out_bufs_def)

lemma kms_holds_keeps:
  assumes "kms_holds k n l s" and "list_all2 (keeps_out xs) l l'"
  shows "kms_holds k n l' s"
proof -
  note a = all2_keeps [OF assms(2)]
  have "mode_blob_id ` set l' = mode_blob_id ` set l" using a(2) by (metis list.set_map)
  then show ?thesis using assms(1) a by (simp add: kms_holds_def)
qed

lemma put_output_map:
  "distinct (crtc_ids l) \<Longrightarrow> put_output d' l = map (\<lambda>e. if obj_id (out_crtc e) = obj_id (out_crtc d') then d' else e) l"
proof (induction l)
  case (Cons d l)
  then have "obj_id (out_crtc e) \<noteq> obj_id (out_crtc d)" if "e \<in> set l" for e using that by (auto simp: image_iff)
  then have "map (\<lambda>e. if obj_id (out_crtc e) = obj_id (out_crtc d) then d' else e) l = l" by (intro map_idI) simp
  then show ?case using Cons by auto
qed simp

lemma put_output_all2:
  assumes "distinct (crtc_ids l)" and "d \<in> set l" and "keeps_out [obj_id (out_crtc d)] d d'"
  shows "list_all2 (keeps_out [obj_id (out_crtc d)]) l (put_output d' l)"
proof -
  have x: "obj_id (out_crtc d') = obj_id (out_crtc d)" using keeps_out_fields(1) [OF assms(3)] .
  have "e = d" if "e \<in> set l" "obj_id (out_crtc e) = obj_id (out_crtc d)" for e
    using that assms(1,2) by (auto simp: distinct_map dest: inj_onD)
  then show ?thesis using assms(3) keeps_out_refl unfolding put_output_map [OF assms(1)] by (auto simp: list_all2_map2 list_all2_same x)
qed

lemma find_output:
  assumes "distinct (crtc_ids l)" and "d \<in> set l"
  shows "find (\<lambda>e. obj_id (out_crtc e) = obj_id (out_crtc d)) l = Some d"
  using assms by (induction l) (auto simp: image_iff)

subsection \<open>Flips that are under way\<close>

text \<open>
  A commit that waits belongs to an output whose flag is set, and no event of its CRTC is there yet; for an output whose
  flag is set there is the commit or the event.
\<close>

definition kms_flight :: "u32 list \<Rightarrow> (u32 \<Rightarrow> request option) \<Rightarrow> kms_output list \<Rightarrow> bool" where
  "kms_flight q cm l =
     (distinct q \<and> (\<forall>x. cm x \<noteq> None \<longrightarrow> x \<notin> set q \<and> (\<exists>d \<in> set l. obj_id (out_crtc d) = x \<and> out_pending d)) \<and>
      (\<forall>d \<in> set l. out_pending d \<longrightarrow> cm (obj_id (out_crtc d)) \<noteq> None \<or> obj_id (out_crtc d) \<in> set q))"

lemma flight_foreign: "kms_flight (x # q) cm l \<Longrightarrow> x \<notin> out_crtcs l \<Longrightarrow> kms_flight q cm l"
  by (auto simp: kms_flight_def out_crtcs_def)

lemma flight_put:
  assumes "kms_flight (x # q) cm l" and "distinct (crtc_ids l)" and "d \<in> set l" and "obj_id (out_crtc d) = x" and "obj_id (out_crtc d') = x"
    and "cm' = cm \<and> \<not> out_pending d' \<or> cm' = cm(x := Some r) \<and> out_pending d'"
  shows "kms_flight q cm' (put_output d' l)"
proof -
  have q: "x \<notin> set q" "distinct q" "cm x = None" using assms(1) by (auto simp: kms_flight_def)
  have d: "d' \<in> set (put_output d' l)" using assms(3-5) by (auto simp: put_output_map [OF assms(2)])
  have other: "e = d' \<or> e \<in> set l \<and> obj_id (out_crtc e) \<noteq> x" if "e \<in> set (put_output d' l)" for e
    using that assms(5) by (auto simp: put_output_map [OF assms(2)])
  have same: "e \<in> set (put_output d' l)" if "e \<in> set l" "obj_id (out_crtc e) \<noteq> x" for e
    using that assms(5) by (force simp: put_output_map [OF assms(2)])
  have "y \<notin> set q \<and> (\<exists>e \<in> set (put_output d' l). obj_id (out_crtc e) = y \<and> out_pending e)" if y: "cm' y \<noteq> None" for y
  proof (cases "y = x")
    case True
    then show ?thesis using y q d assms(5,6) by auto
  next
    case False
    then have "cm y \<noteq> None" using y assms(6) by auto
    then have "y \<notin> set (x # q) \<and> (\<exists>e \<in> set l. obj_id (out_crtc e) = y \<and> out_pending e)" using assms(1) unfolding kms_flight_def by blast
    then obtain e where "y \<notin> set q" "e \<in> set l" "obj_id (out_crtc e) = y" "out_pending e" by auto
    then show ?thesis using same False by blast
  qed
  moreover have "cm' (obj_id (out_crtc e)) \<noteq> None \<or> obj_id (out_crtc e) \<in> set q" if e: "e \<in> set (put_output d' l)" "out_pending e" for e
    using other [OF e(1)] e(2) assms(1,5,6) by (auto simp: kms_flight_def)
  ultimately show ?thesis using q(2) by (auto simp: kms_flight_def)
qed

definition kms_runs :: "kms_card \<Rightarrow> nat \<Rightarrow> u32 list \<Rightarrow> kms \<Rightarrow> bool" where
  "kms_runs k n q s = (kms_holds k n (output_list s) s \<and> kms_flight (q @ crtc_events s) (commits s) (output_list s) \<and>
     reqs_freed k s)"

definition kms_evolves :: "u32 list \<Rightarrow> kms \<Rightarrow> kms \<Rightarrow> bool" where
  "kms_evolves xs s s' =
     (list_all2 (keeps_out xs) (output_list s) (output_list s') \<and> crtc_events s' = crtc_events s \<and> kms_ticks s' = kms_ticks s \<and>
      fds (gpu_state s') = fds (gpu_state s))"

lemma kms_evolves_refl: "kms_evolves [] s s"
  by (simp add: kms_evolves_def list_all2_same keeps_out_refl)

lemma kms_evolves_trans: "kms_evolves xs s1 s2 \<Longrightarrow> kms_evolves ys s2 s3 \<Longrightarrow> kms_evolves (xs @ ys) s1 s3"
  unfolding kms_evolves_def using list_all2_trans [of "keeps_out xs" "keeps_out ys" "keeps_out (xs @ ys)"] keeps_out_trans by metis

lemma holds_output:
  assumes "kms_holds k n l s" and "d \<in> set l"
  obtains b where "out_ok k d" "objects_ok k d" "out_back d = Inr b" "b \<in> set (out_bufs d)" "b \<in> set (all_out_bufs l)" "owns (gpu_state s) (all_out_bufs l)"
proof -
  have ok: "out_ok k d" using assms by (simp add: kms_holds_def)
  obtain b0 b1 where b: "out_bufs d = [b0, b1]" "out_front d = 0 \<and> out_back d = Inr b1 \<or> out_front d = 1 \<and> out_back d = Inr b0"
    using out_ok_bufs [OF ok] by blast
  then obtain b where "out_back d = Inr b" "b \<in> set (out_bufs d)" by auto
  moreover from this have "b \<in> set (all_out_bufs l)" using assms(2) by (auto simp: all_out_bufs_def)
  ultimately show thesis using that ok assms(1) by (auto simp: out_ok_def kms_holds_def)
qed

lemma holds_redraws:
  assumes "kms_holds k n l s" and "redraws d b (all_out_bufs l) s d' s'"
  shows "kms_holds k n l s'"
proof -
  note r = redraws_state [OF assms(2)]
  show ?thesis using assms(1) r(4,5,8) recolored_keeps(3) [OF r(7)] by (simp add: kms_holds_def)
qed

lemma kms_event_runs:
  assumes "kms_ok k" and "kms_runs k n (x # q) s"
  shows "\<exists>s'. kms_page_flip_event c k x s = Inr ((), s') \<and> kms_runs k n q s' \<and> kms_evolves [x] s s'"
proof -
  let ?l = "output_list s"
  have hold: "kms_holds k n ?l s" and fl: "kms_flight (x # q @ crtc_events s) (commits s) ?l" and free: "reqs_freed k s"
    using assms(2) by (simp_all add: kms_runs_def)
  have dist: "distinct (crtc_ids ?l)" using hold by (simp add: kms_holds_def)
  show ?thesis
  proof (cases "x \<in> out_crtcs ?l")
    case False
    then have f: "find (\<lambda>d. obj_id (out_crtc d) = x) ?l = None" by (auto simp: find_None_iff out_crtcs_def)
    have "kms_page_flip_event c k x s = Inr ((), s)" by (simp add: kms_page_flip_event_def bindS_def f returnS_def)
    moreover have "list_all2 (keeps_out [x]) ?l ?l" using False by (auto simp: list_all2_same out_crtcs_def intro!: keeps_out_refl)
    ultimately show ?thesis using hold flight_foreign [OF fl False] free by (simp add: kms_runs_def kms_evolves_def)
  next
    case True
    then obtain d where d: "d \<in> set ?l" "obj_id (out_crtc d) = x" by (auto simp: out_crtcs_def)
    have f: "find (\<lambda>d. obj_id (out_crtc d) = x) ?l = Some d" using find_output [OF dist d(1)] d(2) by simp
    let ?d = "d\<lparr>out_pending := False\<rparr>"
    have e: "kms_page_flip_event c k x s = bindS (if out_cleanup d then returnS ?d else draw_out c k ?d)
        (\<lambda>d. kupd (\<lambda>s. s\<lparr>output_list := put_output d (output_list s)\<rparr>)) s"
      by (simp add: kms_page_flip_event_def bindS_def [of "\<lambda>s. Inr (f s, s)" for f] f Let_def)
    show ?thesis
    proof (cases "out_cleanup d")
      case True
      let ?s = "s\<lparr>output_list := put_output ?d ?l\<rparr>"
      have "?d = d\<lparr>out_front := out_front d, out_pending := False, out_red := out_red d, out_green := out_green d, out_blue := out_blue d\<rparr>" by simp
      then have k: "keeps_out [obj_id (out_crtc d)] d ?d" unfolding keeps_out_def by (metis list.set_intros(1))
      have all2: "list_all2 (keeps_out [x]) ?l (put_output ?d ?l)" using put_output_all2 [OF dist d(1) k] d(2) by simp
      have "kms_page_flip_event c k x s = Inr ((), ?s)" using e True by (simp add: kupd_def)
      moreover have "kms_holds k n (put_output ?d ?l) ?s" using kms_holds_keeps [OF hold all2] kms_holds_cong [of ?s s] by simp
      moreover have "kms_flight (q @ crtc_events s) (commits s) (put_output ?d ?l)" by (rule flight_put [OF fl dist d]) (simp_all add: d(2))
      moreover have "reqs_freed k ?s" using reqs_freed_same [OF free] by simp
      ultimately show ?thesis using all2 by (simp add: kms_runs_def kms_evolves_def)
    next
      case False
      obtain b where b: "objects_ok k d" "out_back d = Inr b" "b \<in> set (all_out_bufs ?l)" "owns (gpu_state s) (all_out_bufs ?l)"
        using holds_output [OF hold d(1)] by metis
      have "objects_ok k ?d" "out_back ?d = Inr b" using b(1,2) by (simp_all add: objects_ok_def out_back_def)
      then obtain d' s' where r: "draw_out c k ?d s = Inr (d', s')" "redraws ?d b (all_out_bufs ?l) s d' s'" "kms_complete k \<longrightarrow> reqs s' = reqs s"
        using draw_out_runs [OF assms(1) _ _ b(4,3)] by blast
      note rs = redraws_state [OF r(2)]
      have "keeps_out [x] ?d d'" using redraws_keeps [OF r(2)] False by simp
      then have k: "keeps_out [obj_id (out_crtc d)] d d'" using False d(2) unfolding keeps_out_def by auto
      have all2: "list_all2 (keeps_out [x]) ?l (put_output d' ?l)" using put_output_all2 [OF dist d(1) k] d(2) by simp
      let ?s = "s'\<lparr>output_list := put_output d' ?l\<rparr>"
      have "kms_page_flip_event c k x s = Inr ((), ?s)" using e False by (simp add: bindS_Inr [where m = "draw_out c k ?d", OF r(1)] kupd_def rs(1))
      moreover have "kms_holds k n (put_output d' ?l) ?s"
        using kms_holds_keeps [OF holds_redraws [OF hold r(2)] all2] kms_holds_cong [of ?s s'] by simp
      moreover have "kms_flight (q @ crtc_events s) (commits s') (put_output d' ?l)"
      proof (rule flight_put [OF fl dist d])
        show "obj_id (out_crtc d') = x" using keeps_out_fields(1) [OF k] d(2) by simp
        show "commits s' = commits s \<and> \<not> out_pending d' \<or> commits s' = (commits s)(x := Some (out_request ?d b)) \<and> out_pending d'"
          using rs(9) d(2) by (auto simp: committed_def)
      qed
      moreover have "reqs_freed k ?s" using reqs_freed_same [OF free] r(3) by simp
      moreover have "fds (gpu_state s') = fds (gpu_state s)" using recolored_keeps(4) [OF rs(7)] .
      ultimately show ?thesis using all2 rs by (simp add: kms_runs_def kms_evolves_def)
    qed
  qed
qed

lemma kms_dispatch_runs:
  assumes "kms_ok k"
  shows "kms_runs k n (xs @ q) s \<Longrightarrow> \<exists>s'. kms_dispatch c k xs s = Inr ((), s') \<and> kms_runs k n q s' \<and> kms_evolves xs s s'"
proof (induction xs arbitrary: s)
  case Nil
  then show ?case using kms_evolves_refl by (simp add: returnS_def)
next
  case (Cons x xs)
  obtain s1 where s1: "kms_page_flip_event c k x s = Inr ((), s1)" "kms_runs k n (xs @ q) s1" "kms_evolves [x] s s1"
    using kms_event_runs [OF assms, of n x "xs @ q" s] Cons.prems by auto
  obtain s2 where s2: "kms_dispatch c k xs s1 = Inr ((), s2)" "kms_runs k n q s2" "kms_evolves xs s1 s2" using Cons.IH [OF s1(2)] by blast
  have "kms_dispatch c k (x # xs) s = Inr ((), s2)" using s2(1) by (simp add: bindS_def s1(1))
  then show ?case using s2(2) kms_evolves_trans [OF s1(3) s2(3)] by auto
qed

end
