(* ===== verification/FlipWait.thy ===== *)
theory FlipWait
  imports VSync
begin

text \<open>
  The two loops that programs with page flips have in common: the one that handles events for five seconds, and the one that waits for
  the flip of a device that is cleaned up. What one round has to promise is a locale each; in it the loop is
  shown to end in every world whose clock runs and whose card serves vertical blanks and reads.
\<close>

definition clock_runs :: "world \<Rightarrow> bool" where
  "clock_runs w = (\<forall>t. \<exists>N. \<forall>n \<ge> N. t \<le> time_of w n)"

definition serves :: "world \<Rightarrow> bool" where
  "serves w = ((\<forall>n. \<exists>k > 0. read_of w n = Inr k) \<and> (\<forall>x n. \<exists>m \<ge> n. x \<in> set (vblank_of w m)))"

definition world_fair :: "world \<Rightarrow> bool" where
  "world_fair w = (clock_runs w \<and> serves w)"

subsection \<open>The loop of five seconds\<close>

locale timed_loop =
  fixes w :: world and start :: int and loop :: "'s \<Rightarrow> 'r" and stop :: "'s \<Rightarrow> 'r" and inv :: "'s \<Rightarrow> bool" and tick :: "'s \<Rightarrow> nat"
  assumes round: "inv s \<Longrightarrow> \<exists>s'. inv s' \<and> (loop s = stop s' \<or> time_of w (tick s) < start + 5 \<and> tick s < tick s' \<and> loop s = loop s')"
begin

lemma ends:
  assumes "clock_runs w"
  shows "inv s \<Longrightarrow> \<exists>s'. inv s' \<and> loop s = stop s'"
proof -
  obtain N where N: "\<And>n. N \<le> n \<Longrightarrow> start + 5 \<le> time_of w n" using assms unfolding clock_runs_def by blast
  show "inv s \<Longrightarrow> \<exists>s'. inv s' \<and> loop s = stop s'"
  proof (induction "N - tick s" arbitrary: s rule: less_induct)
    case less
    obtain s1 where s1: "inv s1" "loop s = stop s1 \<or> time_of w (tick s) < start + 5 \<and> tick s < tick s1 \<and> loop s = loop s1"
      using round [OF less.prems] by blast
    show ?case
    proof (cases "loop s = stop s1")
      case True
      then show ?thesis using s1(1) by blast
    next
      case False
      then have t: "time_of w (tick s) < start + 5" "tick s < tick s1" "loop s = loop s1" using s1(2) by simp_all
      then have "tick s < N" using N [of "tick s"] by force
      then show ?thesis using less.hyps [OF _ s1(1)] t(2,3) by simp
    qed
  qed
qed

end

subsection \<open>Waiting for a flip\<close>

text \<open>
  One round of waiting for the flip of the CRTC x: the events that were read are a part of the front of the queue, with what
  the vertical blanks have added, and the flip is waited for until its event is among them.
\<close>

locale flip_waits =
  fixes w :: world and x :: "32 word" and wait :: "'s \<Rightarrow> 'r" and inv :: "'s \<Rightarrow> bool" and pending :: "'s \<Rightarrow> bool"
    and queue :: "'s \<Rightarrow> 32 word list" and waiting :: "'s \<Rightarrow> bool" and tick :: "'s \<Rightarrow> nat"
  assumes covered: "inv s \<Longrightarrow> pending s \<Longrightarrow> waiting s \<or> x \<in> set (queue s)"
    and round: "serves w \<Longrightarrow> inv s \<Longrightarrow> pending s \<Longrightarrow>
      \<exists>s' xs new k. wait s = wait s' \<and> inv s' \<and> tick s' = Suc (tick s) \<and> pending s' = (x \<notin> set xs) \<and> 0 < k \<and>
        xs @ queue s' = queue s @ new \<and> xs = take k (queue s @ new) \<and> (x \<in> set (vblank_of w (tick s)) \<longrightarrow> waiting s \<longrightarrow> x \<in> set new)"
begin

text \<open>The event is in the queue: every round takes it forward.\<close>

lemma queued:
  assumes "serves w"
  shows "inv s \<Longrightarrow> queue s = ys @ x # zs \<Longrightarrow> \<exists>s'. wait s = wait s' \<and> inv s' \<and> \<not> pending s'"
proof (induction "length ys" arbitrary: s ys zs rule: less_induct)
  case less
  show ?case
  proof (cases "pending s")
    case True
    obtain s' xs new k where r: "wait s = wait s'" "inv s'" "pending s' = (x \<notin> set xs)" "0 < k" "xs @ queue s' = queue s @ new" "xs = take k (queue s @ new)"
      using round [OF assms less.prems(1) True] by blast
    have "\<exists>s''. wait s' = wait s'' \<and> inv s'' \<and> \<not> pending s''"
    proof (cases "x \<in> set xs")
      case True
      then show ?thesis using r(2,3) by blast
    next
      case False
      have xs: "xs = take k (ys @ x # zs @ new)" using r(6) less.prems(2) by simp
      have "k \<le> length ys"
      proof (rule ccontr)
        assume "\<not> k \<le> length ys"
        then have "x \<in> set xs" unfolding xs by (cases "k - length ys") simp_all
        then show False using False by simp
      qed
      then have "xs = take k ys" using xs by simp
      moreover have "xs @ queue s' = take k ys @ drop k ys @ x # zs @ new" using r(5) less.prems(2) by simp
      ultimately have "queue s' = drop k ys @ x # zs @ new" by simp
      moreover have "ys \<noteq> []" using \<open>k \<le> length ys\<close> r(4) by auto
      then have "length (drop k ys) < length ys" using r(4) by (cases ys) auto
      ultimately show ?thesis using less.hyps r(2) by blast
    qed
    then show ?thesis using r(1) by simp
  qed (use less.prems(1) in blast)
qed

lemma until:
  assumes "serves w"
  shows "tick s \<le> m \<Longrightarrow> x \<in> set (vblank_of w m) \<Longrightarrow> inv s \<Longrightarrow> \<exists>s'. wait s = wait s' \<and> inv s' \<and> \<not> pending s'"
proof (induction "m - tick s" arbitrary: s)
  case (0 s)
  have m: "tick s = m" using "0.hyps" "0.prems"(1) by simp
  show ?case
  proof (cases "pending s")
    case True
    obtain s' xs new k where r: "wait s = wait s'" "inv s'" "pending s' = (x \<notin> set xs)" "xs @ queue s' = queue s @ new"
      "x \<in> set (vblank_of w (tick s)) \<longrightarrow> waiting s \<longrightarrow> x \<in> set new" using round [OF assms "0.prems"(3) True] by blast
    have "x \<in> set (xs @ queue s')" using covered [OF "0.prems"(3) True] r(4,5) "0.prems"(2) m by auto
    then have "\<exists>s''. wait s' = wait s'' \<and> inv s'' \<and> \<not> pending s''" using queued [OF assms r(2)] r(2,3) by (auto dest!: split_list)
    then show ?thesis using r(1) by simp
  qed (use "0.prems"(3) in blast)
next
  case (Suc n s)
  show ?case
  proof (cases "pending s")
    case True
    obtain s' where r: "wait s = wait s'" "inv s'" "tick s' = Suc (tick s)" using round [OF assms Suc.prems(3) True] by blast
    have "\<exists>s''. wait s' = wait s'' \<and> inv s'' \<and> \<not> pending s''" using Suc.hyps(1) [of s'] Suc.hyps(2) Suc.prems(1,2) r(2,3) by simp
    then show ?thesis using r(1) by simp
  qed (use Suc.prems(3) in blast)
qed

lemma ends:
  assumes "serves w" and "inv s"
  shows "\<exists>s'. wait s = wait s' \<and> inv s' \<and> \<not> pending s'"
proof -
  obtain m where "tick s \<le> m" "x \<in> set (vblank_of w m)" using assms(1) unfolding serves_def by blast
  then show ?thesis by (rule until [OF assms(1) _ _ assms(2)])
qed

end

end
