(* ===== verification/KmsLoop.thy ===== *)
theory KmsLoop
  imports KmsRun FlipWait
begin

unbundle bit_operations_syntax

text \<open>
  The loops of \<open>modeset-atomic.c\<close>: handling events while it draws, and waiting for flips while it cleans up; both end in a fair
  world, and what the outputs hold is given back.
\<close>

subsection \<open>Vertical blanks and reads\<close>

definition kms_blanked :: "u32 list \<Rightarrow> kms \<Rightarrow> kms \<Rightarrow> bool" where
  "kms_blanked new s s' =
     (gpu_state s' = gpu_state s \<and> output_list s' = output_list s \<and> blobs s' = blobs s \<and> mallocs s' = mallocs s \<and> reqs s' = reqs s \<and>
      kms_ticks s' = kms_ticks s \<and> crtc_events s' = crtc_events s @ new)"

lemma kms_vblank_runs:
  assumes "kms_runs k n [] s"
  shows "\<exists>new. kms_runs k n [] (kms_vblank x s) \<and> kms_blanked new s (kms_vblank x s) \<and> (commits s x \<noteq> None \<longrightarrow> x \<in> set new) \<and>
    (\<forall>y. y \<noteq> x \<longrightarrow> commits (kms_vblank x s) y = commits s y)"
proof (cases "commits s x")
  case None
  then show ?thesis using assms by (intro exI [of _ "[]"]) (simp add: kms_vblank_def kms_blanked_def)
next
  case (Some req)
  let ?s = "kms_vblank x s"
  have f: "kms_flight (crtc_events s) (commits s) (output_list s)" "kms_holds k n (output_list s) s" "reqs_freed k s" using assms by (simp_all add: kms_runs_def)
  have s: "gpu_state ?s = gpu_state s" "output_list ?s = output_list s" "blobs ?s = blobs s" "mallocs ?s = mallocs s" "kms_ticks ?s = kms_ticks s"
    "crtc_events ?s = crtc_events s @ [x]" "commits ?s = (commits s)(x := None)" "reqs ?s = reqs s" by (simp_all add: kms_vblank_def Some)
  have "kms_flight (crtc_events s @ [x]) ((commits s)(x := None)) (output_list s)" using f(1) Some by (auto simp: kms_flight_def)
  moreover have "kms_holds k n (output_list ?s) ?s" using f(2) kms_holds_cong [of ?s s] s by simp
  moreover have "reqs_freed k ?s" using reqs_freed_same [OF f(3)] s(8) by simp
  ultimately show ?thesis by (intro exI [of _ "[x]"]) (simp add: kms_runs_def kms_blanked_def s)
qed

lemma kms_vblanks_run:
  "kms_runs k n [] s \<Longrightarrow> \<exists>new. kms_runs k n [] (fold kms_vblank xs s) \<and> kms_blanked new s (fold kms_vblank xs s) \<and>
    (\<forall>x \<in> set xs. commits s x \<noteq> None \<longrightarrow> x \<in> set new)"
proof (induction xs arbitrary: s)
  case Nil
  then show ?case by (simp add: kms_blanked_def)
next
  case (Cons x xs)
  obtain new1 where 1: "kms_runs k n [] (kms_vblank x s)" "kms_blanked new1 s (kms_vblank x s)" "commits s x \<noteq> None \<longrightarrow> x \<in> set new1"
    "\<forall>y. y \<noteq> x \<longrightarrow> commits (kms_vblank x s) y = commits s y" using kms_vblank_runs [OF Cons.prems] by blast
  obtain new2 where 2: "kms_runs k n [] (fold kms_vblank xs (kms_vblank x s))" "kms_blanked new2 (kms_vblank x s) (fold kms_vblank xs (kms_vblank x s))"
    "\<forall>y \<in> set xs. commits (kms_vblank x s) y \<noteq> None \<longrightarrow> y \<in> set new2" using Cons.IH [OF 1(1)] by blast
  have "y \<in> set (new1 @ new2)" if "y \<in> set (x # xs)" "commits s y \<noteq> None" for y
    using that 1(3,4) 2(3) by (cases "y = x") auto
  moreover have "kms_blanked (new1 @ new2) s (fold kms_vblank (x # xs) s)" using 1(2) 2(2) by (simp add: kms_blanked_def)
  ultimately show ?case using 2(1) by auto
qed

text \<open>One call of \<open>drmHandleEvent\<close>.\<close>

definition kms_handled :: "world \<Rightarrow> u32 list \<Rightarrow> u32 list \<Rightarrow> kms \<Rightarrow> kms \<Rightarrow> bool" where
  "kms_handled w xs new s s' =
     (kms_ticks s' = Suc (kms_ticks s) \<and> list_all2 (keeps_out xs) (output_list s) (output_list s') \<and> xs @ crtc_events s' = crtc_events s @ new \<and>
      fds (gpu_state s') = fds (gpu_state s) \<and>
      (\<forall>x \<in> set (vblank_of w (kms_ticks s)). commits s x \<noteq> None \<longrightarrow> x \<in> set new) \<and>
      (\<forall>m. read_of w (kms_ticks s) = Inr m \<longrightarrow> xs = take m (crtc_events s @ new)))"

lemma kms_runs_tick: "kms_runs k n q (s\<lparr>kms_ticks := t\<rparr>) = kms_runs k n q s"
  using kms_holds_cong [of "s\<lparr>kms_ticks := t\<rparr>" s] by (simp add: kms_runs_def reqs_freed_def)

lemma kms_handle_runs:
  assumes "kms_ok k" and "kms_runs k n [] s"
  shows "\<exists>s' xs new. kms_handle_event c k w s = Inr (case read_of w (kms_ticks s) of Inl _ \<Rightarrow> - 1 | Inr _ \<Rightarrow> 0, s') \<and>
    kms_runs k n [] s' \<and> kms_handled w xs new s s'"
proof -
  let ?n = "kms_ticks s" and ?s0 = "s\<lparr>kms_ticks := kms_ticks s + 1\<rparr>"
  define s1 where "s1 = fold kms_vblank (vblank_of w ?n) ?s0"
  obtain new where 1: "kms_runs k n [] s1" "kms_blanked new ?s0 s1" "\<forall>x \<in> set (vblank_of w ?n). commits s x \<noteq> None \<longrightarrow> x \<in> set new"
    using kms_vblanks_run [of k n ?s0 "vblank_of w ?n"] assms(2) by (auto simp: kms_runs_tick s1_def)
  have e: "kms_handle_event c k w s = (case read_of w ?n of
       Inl e \<Rightarrow> returnS (- 1)
     | Inr m \<Rightarrow>
         bindS (\<lambda>s. Inr (take m (crtc_events s), s\<lparr>crtc_events := drop m (crtc_events s)\<rparr>)) (\<lambda>xs.
         bindS (kms_dispatch c k xs) (\<lambda>_. returnS 0))) s1"
    by (simp add: kms_handle_event_def bindS_def [of kms_tick] kms_tick_def s1_def)
  show ?thesis
  proof (cases "read_of w ?n")
    case (Inl err)
    have "list_all2 (keeps_out []) (output_list s) (output_list s1)" using 1(2) by (simp add: kms_blanked_def list_all2_same keeps_out_refl)
    then have "kms_handled w [] new s s1" using 1(2,3) Inl by (simp add: kms_handled_def kms_blanked_def)
    then show ?thesis using e Inl 1(1) by (intro exI [of _ s1] exI [of _ "[]"] exI [of _ new]) (simp add: returnS_def)
  next
    case (Inr m)
    let ?xs = "take m (crtc_events s1)" and ?s2 = "s1\<lparr>crtc_events := drop m (crtc_events s1)\<rparr>"
    have "kms_runs k n ?xs ?s2" using 1(1) kms_holds_cong [of ?s2 s1] by (simp add: kms_runs_def reqs_freed_def)
    then obtain s3 where 3: "kms_dispatch c k ?xs ?s2 = Inr ((), s3)" "kms_runs k n [] s3" "kms_evolves ?xs ?s2 s3"
      using kms_dispatch_runs [OF assms(1), of n ?xs "[]" ?s2] by auto
    have q: "crtc_events s1 = crtc_events s @ new" "output_list s1 = output_list s" "kms_ticks s1 = Suc ?n" "gpu_state s1 = gpu_state s"
      using 1(2) by (simp_all add: kms_blanked_def)
    have v: "list_all2 (keeps_out ?xs) (output_list s) (output_list s3)" "crtc_events s3 = drop m (crtc_events s1)"
      "kms_ticks s3 = Suc ?n" "fds (gpu_state s3) = fds (gpu_state s)" using 3(3) q(2-4) by (simp_all add: kms_evolves_def)
    have "?xs @ crtc_events s3 = crtc_events s @ new" unfolding v(2) append_take_drop_id q(1) ..
    then have "kms_handled w ?xs new s s3" using v 1(3) Inr q(1) by (simp only: kms_handled_def sum.inject) simp
    moreover have "kms_handle_event c k w s = Inr (0, s3)" using e Inr by (simp add: bindS_def 3(1) returnS_def)
    ultimately show ?thesis using 3(2) Inr by auto
  qed
qed

subsection \<open>The loop that draws\<close>

text \<open>What the loops keep: everything of the program, on a card with so many descriptors.\<close>

definition kms_on :: "kms_card \<Rightarrow> nat \<Rightarrow> nat \<Rightarrow> kms \<Rightarrow> bool" where
  "kms_on k f m s = (kms_runs k 0 [] s \<and> fds (gpu_state s) = f \<and> length (output_list s) = m)"

lemma kms_on_tick: "kms_on k f m (s\<lparr>kms_ticks := t\<rparr>) = kms_on k f m s"
  by (simp add: kms_on_def kms_runs_tick)

lemma kms_on_muted: "muted s s' \<Longrightarrow> kms_on k f m s \<Longrightarrow> kms_on k f m s' \<and> kms_ticks s' = kms_ticks s"
  using kms_holds_muted [of s s'] by (auto simp: kms_on_def kms_runs_def reqs_freed_def elim!: mutedE)

lemma kms_on_handle:
  assumes "kms_ok k" and "kms_on k f m s"
  shows "\<exists>r s'. kms_handle_event c k w s = Inr (r, s') \<and> kms_on k f m s' \<and> kms_ticks s' = Suc (kms_ticks s)"
proof -
  obtain s' xs new where r: "kms_handle_event c k w s = Inr (case read_of w (kms_ticks s) of Inl _ \<Rightarrow> - 1 | Inr _ \<Rightarrow> 0, s')"
    "kms_runs k 0 [] s'" "kms_handled w xs new s s'" using kms_handle_runs [OF assms(1), of 0 s c w] assms(2) unfolding kms_on_def by blast
  have "kms_on k f m s'" using assms(2) r(2,3) all2_keeps(5) by (auto simp: kms_on_def kms_handled_def)
  then show ?thesis using r(1,3) by (auto simp: kms_handled_def)
qed

lemma kms_wait_round_runs:
  assumes "kms_ok k" and "kms_on k f m s"
  shows "\<exists>b s'. kms_wait_round c k w s = Inr (b, s') \<and> kms_on k f m s' \<and> kms_ticks s < kms_ticks s'"
proof -
  let ?s = "s\<lparr>kms_ticks := kms_ticks s + 1\<rparr>"
  have o: "kms_on k f m ?s" using assms(2) by (simp only: kms_on_tick)
  have e: "kms_wait_round c k w s = (case select_of w (kms_ticks s) of
       Inl e \<Rightarrow> bindS (warn ''select() failed with %d: %s\<newline>'' (errno_args c e)) (\<lambda>_. returnS False)
     | Inr (input, readable) \<Rightarrow>
         if input then bindS (warn ''exit due to user-input\<newline>'' []) (\<lambda>_. returnS False)
         else if readable then bindS (kms_handle_event c k w) (\<lambda>_. returnS True)
         else returnS True) ?s"
    by (simp add: kms_wait_round_def bindS_def [of kms_tick] kms_tick_def)
  have msg: "\<exists>s'. bindS (warn t a) (\<lambda>_. returnS False) ?s = Inr (False, s') \<and> kms_on k f m s' \<and> kms_ticks s < kms_ticks s'"
    if ok: "formats t a" for t a
  proof -
    obtain s1 where s1: "muted ?s s1" "bindS (warn t a) (\<lambda>_. returnS False) ?s = returnS False s1" using warn_bind [OF ok] by blast
    then show ?thesis using kms_on_muted [OF s1(1) o] by (simp add: returnS_def)
  qed
  obtain r s1 where "kms_handle_event c k w ?s = Inr (r, s1)" "kms_on k f m s1" "kms_ticks s1 = Suc (kms_ticks ?s)"
    using kms_on_handle [OF assms(1) o] by blast
  then have h: "\<exists>b s'. bindS (kms_handle_event c k w) (\<lambda>_. returnS True) ?s = Inr (b, s') \<and> kms_on k f m s' \<and> kms_ticks s < kms_ticks s'"
    by (intro exI [of _ True] exI [of _ s1]) (simp add: bindS_def returnS_def)
  show ?thesis
  proof (cases "select_of w (kms_ticks s)")
    case (Inl err)
    show ?thesis unfolding e Inl sum.case using msg [OF kms_formats(18) [of c err]] by blast
  next
    case (Inr p)
    obtain input readable where p: "p = (input, readable)" by (cases p)
    show ?thesis unfolding e Inr p sum.case prod.case using msg [OF kms_formats(19)] h o
      by (cases input; cases readable) (simp_all only: if_True if_False simp_thms, auto simp: returnS_def)
  qed
qed

lemma kms_loop_round:
  assumes "kms_ok k" and "kms_on k f m s"
  shows "\<exists>s'. kms_on k f m s' \<and> (kms_loop c k w start s = Some (Inr ((), s')) \<or>
    time_of w (kms_ticks s) < start + 5 \<and> kms_ticks s < kms_ticks s' \<and> kms_loop c k w start s = kms_loop c k w start s')"
proof -
  let ?s = "s\<lparr>kms_ticks := kms_ticks s + 1\<rparr>"
  have o: "kms_on k f m ?s" using assms(2) by (simp only: kms_on_tick)
  have e: "kms_draw_round c k w start s = (if time_of w (kms_ticks s) < start + 5 then kms_wait_round c k w else returnS False) ?s"
    by (simp add: kms_draw_round_def bindS_def [of kms_tick] kms_tick_def)
  show ?thesis
  proof (cases "time_of w (kms_ticks s) < start + 5")
    case False
    then show ?thesis using e o by (intro exI [of _ ?s]) (subst kms_loop.simps, simp add: returnS_def)
  next
    case True
    obtain b s1 where r: "kms_wait_round c k w ?s = Inr (b, s1)" "kms_on k f m s1" "kms_ticks ?s < kms_ticks s1"
      using kms_wait_round_runs [OF assms(1) o] by blast
    have "kms_loop c k w start s = (if b then kms_loop c k w start s1 else Some (Inr ((), s1)))"
      using e True r(1) by (subst kms_loop.simps) simp
    then show ?thesis using True r(2,3) by (cases b) auto
  qed
qed

interpretation kms_timed: timed_loop w start "kms_loop c k w start" "\<lambda>s. Some (Inr ((), s))" "\<lambda>s. kms_ok k \<and> kms_on k f m s" kms_ticks
  for w start c k f m
  using kms_loop_round by unfold_locales blast

subsection \<open>Waiting for a flip\<close>

text \<open>The output at the head of the list is cleaned up.\<close>

definition kms_waits_for :: "kms_card \<Rightarrow> nat \<Rightarrow> nat \<Rightarrow> u32 \<Rightarrow> kms \<Rightarrow> bool" where
  "kms_waits_for k f m x s = (kms_ok k \<and> kms_on k f m s \<and> (\<exists>d ds. output_list s = d # ds \<and> obj_id (out_crtc d) = x \<and> out_cleanup d))"

definition head_pending :: "kms \<Rightarrow> bool" where
  "head_pending s = (\<exists>d ds. output_list s = d # ds \<and> out_pending d)"

lemma kms_flip_wait_done: "output_list s = d # ds \<Longrightarrow> \<not> out_pending d \<Longrightarrow> kms_flip_wait c k w s = Some (Inr ((), s))"
  by (subst kms_flip_wait.simps) (simp add: head_output_def)

lemma kms_flip_wait_next:
  "output_list s = d # ds \<Longrightarrow> out_pending d \<Longrightarrow> kms_handle_event c k w s = Inr (0, s') \<Longrightarrow> kms_flip_wait c k w s = kms_flip_wait c k w s'"
  by (subst kms_flip_wait.simps) (simp add: head_output_def)

interpretation kms_waits: flip_waits w x "kms_flip_wait c k w" "kms_waits_for k f m x" head_pending crtc_events "\<lambda>s. commits s x \<noteq> None" kms_ticks
  for w x c k f m
proof unfold_locales
  fix s assume "kms_waits_for k f m x s" "head_pending s"
  then show "commits s x \<noteq> None \<or> x \<in> set (crtc_events s)"
    by (auto simp: kms_waits_for_def head_pending_def kms_on_def kms_runs_def kms_flight_def)
next
  fix s assume a: "serves w" "kms_waits_for k f m x s" "head_pending s"
  then obtain d ds where d: "kms_ok k" "kms_on k f m s" "output_list s = d # ds" "obj_id (out_crtc d) = x" "out_cleanup d" "out_pending d"
    by (auto simp: kms_waits_for_def head_pending_def)
  obtain i where i: "read_of w (kms_ticks s) = Inr i" "0 < i" using a(1) unfolding serves_def by blast
  obtain s' xs new where r: "kms_handle_event c k w s = Inr (0, s')" "kms_runs k 0 [] s'" "kms_handled w xs new s s'"
    using kms_handle_runs [OF d(1), of 0 s c w] d(2) i(1) unfolding kms_on_def by auto
  have on: "kms_on k f m s'" using d(2) r(2,3) all2_keeps(5) by (auto simp: kms_on_def kms_handled_def)
  obtain d' ds' where d': "output_list s' = d' # ds'" "keeps_out xs d d'" using r(3) d(3) by (auto simp: kms_handled_def list_all2_Cons1)
  have p: "out_pending d' = (x \<notin> set xs)" using d'(2) d(4-6) unfolding keeps_out_def by auto
  have "kms_waits_for k f m x s'" using on d(1,4,5) d' keeps_out_fields [OF d'(2)] by (auto simp: kms_waits_for_def)
  moreover have "head_pending s' = (x \<notin> set xs)" using d'(1) p by (simp add: head_pending_def)
  moreover have "kms_flip_wait c k w s = kms_flip_wait c k w s'" by (rule kms_flip_wait_next [OF d(3,6) r(1)])
  ultimately show "\<exists>s' xs new i. kms_flip_wait c k w s = kms_flip_wait c k w s' \<and> kms_waits_for k f m x s' \<and> kms_ticks s' = Suc (kms_ticks s) \<and>
      head_pending s' = (x \<notin> set xs) \<and> 0 < i \<and> xs @ crtc_events s' = crtc_events s @ new \<and> xs = take i (crtc_events s @ new) \<and>
      (x \<in> set (vblank_of w (kms_ticks s)) \<longrightarrow> commits s x \<noteq> None \<longrightarrow> x \<in> set new)"
    using r(3) i by (intro exI [of _ s'] exI [of _ xs] exI [of _ new] exI [of _ i]) (auto simp: kms_handled_def)
qed

end
