(* ===== verification/KmsFirst.thy ===== *)
theory KmsFirst
  imports KmsLoop
begin

unbundle bit_operations_syntax

text \<open>
  \<open>modeset_perform_modeset\<close> of \<open>modeset-atomic.c\<close>: one request for all outputs, a test, the first frames and the commit.
\<close>

subsection \<open>One request for all outputs\<close>

definition next_buf :: "kms_output \<Rightarrow> modeset_buf" where
  "next_buf d = (case out_back d of Inl _ \<Rightarrow> zero_buf | Inr b \<Rightarrow> b)"

definition all_request :: "kms_output list \<Rightarrow> request" where
  "all_request l = concat (map (\<lambda>d. out_request d (next_buf d)) l)"

lemma ok_back:
  assumes "out_ok k d"
  shows "objects_ok k d" "out_back d = Inr (next_buf d)" "next_buf d \<in> set (out_bufs d)"
proof -
  obtain b0 b1 where "out_bufs d = [b0, b1]" "out_front d = 0 \<and> out_back d = Inr b1 \<or> out_front d = 1 \<and> out_back d = Inr b0"
    using out_ok_bufs [OF assms] by blast
  then show "out_back d = Inr (next_buf d)" "next_buf d \<in> set (out_bufs d)" by (auto simp: next_buf_def)
  show "objects_ok k d" using assms by (simp add: out_ok_def)
qed

lemma prepare_all_runs:
  assumes "kms_ok k"
  shows "\<forall>d \<in> set l. out_ok k d \<Longrightarrow> \<exists>r req' s'. prepare_all k l req ret s = Inr ((r, req'), s') \<and> muted s s' \<and>
    (r = Some (- 1) \<and> \<not> kms_complete k \<or> r = (if l = [] then ret else Some 0) \<and> req' = req @ all_request l)"
proof (induction l arbitrary: req ret s)
  case Nil
  then show ?case by (simp add: returnS_def all_request_def)
next
  case (Cons d l)
  have d: "objects_ok k d" "out_back d = Inr (next_buf d)" using ok_back [of k d] Cons.prems by simp_all
  obtain r n s1 where 1: "prepare_commit k d req s = Inr ((r, req @ take n (out_request d (next_buf d))), s1)" "muted s s1"
    "if n = 13 then r = 0 else r = - 1 \<and> setting_fails k (req @ take n (out_request d (next_buf d))) (settings d (next_buf d) ! n)" "n \<le> 13"
    using prepare_commit_runs [OF assms d, of req s] by blast
  note b = bindS_Inr [where m = "prepare_commit k d req", OF 1(1)]
  show ?case
  proof (cases "n = 13")
    case False
    then have "prepare_all k (d # l) req ret s = Inr ((Some (- 1), req @ take n (out_request d (next_buf d))), s1)" using 1(3) by (simp add: b returnS_def)
    moreover have "\<not> kms_complete k" using 1(3,4) False complete_fails [OF _ d(1), of n] by auto
    ultimately show ?thesis using 1(2) by blast
  next
    case True
    let ?req = "req @ out_request d (next_buf d)"
    have e: "prepare_all k (d # l) req ret s = prepare_all k l ?req (Some 0) s1"
      using 1(3) True by (simp add: b out_request_def length_settings)
    obtain r' req' s' where "prepare_all k l ?req (Some 0) s1 = Inr ((r', req'), s')" "muted s1 s'"
      "r' = Some (- 1) \<and> \<not> kms_complete k \<or> r' = (if l = [] then Some 0 else Some 0) \<and> req' = ?req @ all_request l"
      using Cons.IH [of ?req "Some 0" s1] Cons.prems by auto
    then show ?thesis using e muted_trans [OF 1(2)] by (auto simp: all_request_def)
  qed
qed

lemma all_crtcs:
  assumes "kms_ok k" and "\<forall>d \<in> set l. out_ok k d"
  shows "set (req_crtcs k (all_request l)) = set (crtc_ids l)"
proof -
  have "set (req_crtcs k (concat rs)) = (\<Union>r \<in> set rs. set (req_crtcs k r))" for rs by (auto simp: req_crtcs_def)
  moreover have "set (req_crtcs k (out_request d (next_buf d))) = {obj_id (out_crtc d)}" if "d \<in> set l" for d
    using request_crtcs(2) [OF assms(1) ok_back(1)] assms(2) that by blast
  ultimately show ?thesis by (simp add: all_request_def UNION_singleton_eq_range)
qed

subsection \<open>The first frames\<close>

definition recolors :: "kms_output \<Rightarrow> kms_output \<Rightarrow> bool" where
  "recolors d d' = (\<exists>r g b. d' = d\<lparr>out_red := r, out_green := g, out_blue := b\<rparr>)"

lemma recolors_keeps:
  assumes "recolors d d'"
  shows "out_front d' = out_front d" "out_pending d' = out_pending d" "next_buf d' = next_buf d" "out_plane d' = out_plane d" "obj_id (out_crtc d') = obj_id (out_crtc d)"
    "out_cleanup d' = out_cleanup d" "keeps_out [] d d'"
proof -
  obtain r g b where d': "d' = d\<lparr>out_red := r, out_green := g, out_blue := b\<rparr>" using assms by (auto simp: recolors_def)
  then show "out_front d' = out_front d" "out_pending d' = out_pending d" "next_buf d' = next_buf d" "out_plane d' = out_plane d"
    "obj_id (out_crtc d') = obj_id (out_crtc d)" "out_cleanup d' = out_cleanup d"
    by (simp_all add: next_buf_def out_back_def)
  have "d' = d\<lparr>out_front := out_front d, out_pending := out_pending d, out_red := r, out_green := g, out_blue := b\<rparr>" using d' by simp
  then show "keeps_out [] d d'" unfolding keeps_out_def by (metis empty_iff list.set(1))
qed

definition same_store :: "gpu \<Rightarrow> gpu \<Rightarrow> bool" where
  "same_store g g' = (handles g' = handles g \<and> fbs g' = fbs g \<and> objs g' = objs g \<and> fds g' = fds g)"

lemma first_paint_one:
  assumes "owns (gpu_state s) bs" and "out_back d = Inr b" and "b \<in> set bs"
  shows "\<exists>d' g. first_paint c (d # l) s = bindS (first_paint c l) (\<lambda>ds. returnS (d' # ds)) (s\<lparr>gpu_state := g\<rparr>) \<and>
    recolors d d' \<and> owns g bs \<and> recolored b (gpu_state s) g"
proof -
  let ?g = "gpu_state s"
  have r: "on_gpu (rand_byte c) t = Inr (ucast (rand_of c (rands (gpu_state t)) mod 255), t\<lparr>gpu_state := (gpu_state t)\<lparr>rands := Suc (rands (gpu_state t))\<rparr>\<rparr>)" for t
    by (simp add: on_gpu_def rand_byte_def)
  let ?s = "s\<lparr>gpu_state := ?g\<lparr>rands := Suc (Suc (Suc (rands ?g)))\<rparr>\<rparr>"
  let ?c = "\<lambda>n. (ucast (rand_of c n mod 255) :: byte, True)"
  let ?d = "d\<lparr>out_red := ?c (rands ?g), out_green := ?c (Suc (rands ?g)), out_blue := ?c (Suc (Suc (rands ?g)))\<rparr>"
  have "owns (gpu_state ?s) bs" "out_back ?d = Inr b" using assms(1,2) by (simp_all add: owns_rands out_back_def)
  from paint_runs [OF this assms(3)] obtain r1 g1 b1 g where p: "paint c ?d ?s = Inr (?d\<lparr>out_red := r1, out_green := g1, out_blue := b1\<rparr>, ?s\<lparr>gpu_state := g\<rparr>)"
    "filled b (color_word (fst r1) (fst g1) (fst b1)) ((gpu_state ?s)\<lparr>rands := rands (gpu_state ?s) + 3\<rparr>) g" "owns g bs"
    by blast
  have "?d\<lparr>out_red := r1, out_green := g1, out_blue := b1\<rparr> = d\<lparr>out_red := r1, out_green := g1, out_blue := b1\<rparr>" by simp
  then have "recolors d (?d\<lparr>out_red := r1, out_green := g1, out_blue := b1\<rparr>)" unfolding recolors_def by blast
  moreover have "recolored b (gpu_state s) g" using p(2) by (intro filled_recolored) simp
  moreover have "first_paint c (d # l) s = bindS (first_paint c l) (\<lambda>ds. returnS (?d\<lparr>out_red := r1, out_green := g1, out_blue := b1\<rparr> # ds)) (s\<lparr>gpu_state := g\<rparr>)"
    using p(1) by (simp add: bindS_def [of "on_gpu m" for m] r bindS_def [of "paint a b" for a b])
  ultimately show ?thesis using p(3) by blast
qed

lemma first_paint_runs:
  assumes "distinct (map buf_handle bs)"
  shows "owns (gpu_state s) bs \<Longrightarrow> \<forall>d \<in> set l. out_back d = Inr (next_buf d) \<and> next_buf d \<in> set bs \<Longrightarrow> distinct (map (buf_handle \<circ> next_buf) l) \<Longrightarrow>
    \<exists>ds g. first_paint c l s = Inr (ds, s\<lparr>gpu_state := g\<rparr>) \<and> list_all2 recolors l ds \<and> owns g bs \<and> same_store (gpu_state s) g \<and>
      (\<forall>h. h \<notin> (buf_handle \<circ> next_buf) ` set l \<longrightarrow> maps g h = maps (gpu_state s) h) \<and> (\<forall>d \<in> set l. \<exists>v. painted v g (as_dev (next_buf d)))"
proof (induction l arbitrary: s)
  case Nil
  then show ?case by (intro exI [of _ "[]"] exI [of _ "gpu_state s"]) (simp add: returnS_def same_store_def)
next
  case (Cons d l)
  obtain d' g where 1: "first_paint c (d # l) s = bindS (first_paint c l) (\<lambda>ds. returnS (d' # ds)) (s\<lparr>gpu_state := g\<rparr>)"
    "recolors d d'" "owns g bs" "recolored (next_buf d) (gpu_state s) g"
    using first_paint_one [OF Cons.prems(1), of d "next_buf d" c l] Cons.prems(2) by auto
  obtain ds g' where 2: "first_paint c l (s\<lparr>gpu_state := g\<rparr>) = Inr (ds, s\<lparr>gpu_state := g'\<rparr>)" "list_all2 recolors l ds" "owns g' bs" "same_store g g'"
    "\<forall>h. h \<notin> (buf_handle \<circ> next_buf) ` set l \<longrightarrow> maps g' h = maps g h" "\<forall>d \<in> set l. \<exists>v. painted v g' (as_dev (next_buf d))"
    using Cons.IH [of "s\<lparr>gpu_state := g\<rparr>"] 1(3) Cons.prems(2,3) by auto
  have e: "first_paint c (d # l) s = Inr (d' # ds, s\<lparr>gpu_state := g'\<rparr>)"
    unfolding 1(1) by (simp add: bindS_Inr [where m = "first_paint c l", OF 2(1)] returnS_def)
  note k = recolored_keeps [OF 1(4)]
  have new: "buf_handle (next_buf d) \<notin> (buf_handle \<circ> next_buf) ` set l" using Cons.prems(3) by simp
  obtain v where "painted v g (as_dev (next_buf d))" using k(6) by blast
  then have "painted v g' (as_dev (next_buf d))" using 2(5) new by (simp add: painted_def)
  then have "\<forall>d \<in> set (d # l). \<exists>v. painted v g' (as_dev (next_buf d))" using 2(6) by auto
  moreover have "maps g' h = maps (gpu_state s) h" if "h \<notin> (buf_handle \<circ> next_buf) ` set (d # l)" for h using that 2(5) k(5) by simp
  moreover have "same_store (gpu_state s) g'" using k(1-4) 2(4) by (simp add: same_store_def)
  ultimately show ?case using e 1(2) 2(2,3) by auto
qed

subsection \<open>The modeset\<close>

text \<open>After a modeset: the outputs are those from before but for their colours, and each of them shows the buffer that it paints next.\<close>

definition shown_first :: "kms_card \<Rightarrow> kms \<Rightarrow> kms \<Rightarrow> bool" where
  "shown_first k s s' =
     (list_all2 recolors (output_list s) (output_list s') \<and> commits s' = commits s \<and> prop_vals s' = apply_request (all_request (output_list s)) (prop_vals s) \<and>
      set (crtc_events s') = set (crtc_ids (output_list s)) \<and> distinct (crtc_events s') \<and>
      (\<forall>d \<in> set (output_list s'). \<exists>v. painted v (gpu_state s') (as_dev (next_buf d))))"

definition same_but_colors :: "kms \<Rightarrow> kms \<Rightarrow> bool" where
  "same_but_colors s s' =
     (list_all2 recolors (output_list s) (output_list s') \<and> commits s' = commits s \<and> prop_vals s' = prop_vals s \<and> crtc_events s' = crtc_events s)"

lemma recolors_refl: "list_all2 recolors l l"
proof -
  have "d = d\<lparr>out_red := out_red d, out_green := out_green d, out_blue := out_blue d\<rparr>" for d :: kms_output by simp
  then have "recolors d d" for d unfolding recolors_def by blast
  then show ?thesis by (simp add: list_all2_same)
qed

lemma recolors_fresh: "recolors d d' \<Longrightarrow> fresh_out d \<Longrightarrow> fresh_out d'"
  by (auto simp: recolors_def fresh_out_def)

lemma all2_recolors:
  assumes "list_all2 recolors l l'"
  shows "list_all2 (keeps_out []) l l'" "set (map next_buf l') = set (map next_buf l)"
    "(\<forall>d \<in> set l. fresh_out d) \<Longrightarrow> \<forall>d \<in> set l'. fresh_out d"
proof -
  show "list_all2 (keeps_out []) l l'" using assms recolors_keeps(7) by (rule list_all2_mono)
  show "set (map next_buf l') = set (map next_buf l)" using assms by induction (simp_all add: recolors_keeps(3))
  show "(\<forall>d \<in> set l. fresh_out d) \<Longrightarrow> \<forall>d \<in> set l'. fresh_out d" using assms by induction (auto intro: recolors_fresh)
qed

lemma kms_holds_same:
  assumes "kms_holds k n l s" and "same_store (gpu_state s) (gpu_state s')" and "owns (gpu_state s') (all_out_bufs l)"
    and "blobs s' = blobs s" and "mallocs s' = mallocs s"
  shows "kms_holds k n l s'"
  using assms by (simp add: kms_holds_def same_store_def)

lemma distinct_next:
  "distinct (map buf_handle (concat (map out_bufs l))) \<Longrightarrow> \<forall>d \<in> set l. next_buf d \<in> set (out_bufs d) \<Longrightarrow>
     distinct (map (buf_handle \<circ> next_buf) l)"
proof (induction l)
  case (Cons d l)
  have "buf_handle (next_buf d) \<notin> (buf_handle \<circ> next_buf) ` set l"
  proof
    assume "buf_handle (next_buf d) \<in> (buf_handle \<circ> next_buf) ` set l"
    then obtain e where e: "e \<in> set l" "buf_handle (next_buf d) = buf_handle (next_buf e)" by auto
    then have "buf_handle (next_buf d) \<in> buf_handle ` set (concat (map out_bufs l))" using Cons.prems(2) by auto
    moreover have "buf_handle (next_buf d) \<in> buf_handle ` set (out_bufs d)" using Cons.prems(2) by simp
    moreover have "buf_handle ` set (out_bufs d) \<inter> buf_handle ` set (concat (map out_bufs l)) = {}" using Cons.prems(1) by simp
    ultimately show False by blast
  qed
  then show ?case using Cons by simp
qed simp

lemma modeset_commit_runs:
  assumes "kms_ok k" and "list_ok k n s" and "commits s = Map.empty" and "crtc_events s = []"
  shows "\<exists>ret s'. modeset_commit c k (all_request (output_list s)) s = Inr (ret, s') \<and> list_ok k n s' \<and> fds (gpu_state s') = fds (gpu_state s) \<and>
    kms_ticks s' = kms_ticks s \<and> reqs s' = reqs s - 1 \<and> (if ret = 0 then shown_first k s s' else same_but_colors s s')"
proof -
  let ?l = "output_list s" and ?req = "all_request (output_list s)"
  have h: "kms_holds k n ?l s" and fresh: "\<forall>d \<in> set ?l. fresh_out d" using assms(2) by (simp_all add: list_ok_def)
  have ok: "\<forall>d \<in> set ?l. out_ok k d" and own: "owns (gpu_state s) (all_out_bufs ?l)" using h by (simp_all add: kms_holds_def)
  have bufs: "\<forall>d \<in> set ?l. out_back d = Inr (next_buf d) \<and> next_buf d \<in> set (all_out_bufs ?l)"
  proof
    fix d assume d: "d \<in> set ?l"
    then have "out_ok k d" using ok by blast
    from ok_back [OF this] show "out_back d = Inr (next_buf d) \<and> next_buf d \<in> set (all_out_bufs ?l)" using d by (auto simp: all_out_bufs_def)
  qed
  have dist: "distinct (map buf_handle (all_out_bufs ?l))" using own by (simp add: owns_def)
  have "distinct (map (buf_handle \<circ> next_buf) ?l)" using distinct_next [of ?l] dist ok ok_back(3) unfolding all_out_bufs_def by blast
  from first_paint_runs [OF dist own bufs this] obtain ds g where p: "first_paint c ?l s = Inr (ds, s\<lparr>gpu_state := g\<rparr>)" "list_all2 recolors ?l ds"
    "owns g (all_out_bufs ?l)" "same_store (gpu_state s) g" "\<forall>d \<in> set ?l. \<exists>v. painted v g (as_dev (next_buf d))" by blast
  let ?s = "s\<lparr>gpu_state := g, output_list := ds\<rparr>"
  note a2 = all2_recolors [OF p(2)]
  have h1: "kms_holds k n ds ?s" using kms_holds_same [OF h, of ?s] p(3,4) by (intro kms_holds_keeps [OF _ a2(1)]) simp
  have f1: "\<forall>d \<in> set ds. fresh_out d" using a2(3) fresh by blast
  have paint: "\<forall>d \<in> set ds. \<exists>v. painted v g (as_dev (next_buf d))" using p(5) a2(2) by auto (metis image_iff)
  have e: "modeset_commit c k ?req s = bindS (atomic_commit k [ALLOW_MODESET, PAGE_FLIP_EVENT] ?req) (\<lambda>r.
     bindS (case r of Inl e \<Rightarrow> warn ''modeset atomic commit failed, %d\<newline>'' [AInt (word_of_int e)] | Inr _ \<Rightarrow> returnS ()) (\<lambda>_.
     bindS free_req (\<lambda>_. returnS (case r of Inl e \<Rightarrow> - e | Inr _ \<Rightarrow> 0)))) ?s"
    by (simp add: modeset_commit_def bindS_def [of "\<lambda>s. first_paint c (output_list s) s"] p(1))
  show ?thesis
  proof (cases "commit_of k ?s [ALLOW_MODESET, PAGE_FLIP_EVENT] ?req")
    case (Inl err)
    then have c: "atomic_commit k [ALLOW_MODESET, PAGE_FLIP_EVENT] ?req ?s = Inr (Inl err, ?s)" by (simp add: atomic_commit_def)
    obtain s2 where s2: "warn ''modeset atomic commit failed, %d\<newline>'' [AInt (word_of_int err)] ?s = Inr ((), s2)" "muted ?s s2"
      using warn_muted [OF kms_formats(16)] by blast
    let ?s' = "s2\<lparr>reqs := reqs s2 - 1\<rparr>"
    have "modeset_commit c k ?req s = Inr (- err, ?s')"
      by (simp add: e bindS_Inr [where m = "atomic_commit a b f" for a b f, OF c] bindS_Inr [where m = "warn a b" for a b, OF s2(1)] free_req_def returnS_def)
    moreover have "kms_holds k n ds ?s'" using h1 kms_holds_muted [OF s2(2)] kms_holds_cong [of ?s' s2] by simp
    then have "list_ok k n ?s'" using muted_keeps(2) [OF s2(2)] f1 by (simp add: list_ok_def)
    moreover have "same_but_colors s ?s'" using p(2) muted_keeps [OF s2(2)] by (simp add: same_but_colors_def)
    moreover have "fds (gpu_state ?s') = fds (gpu_state s)" "kms_ticks ?s' = kms_ticks s" "- err \<noteq> 0" "reqs ?s' = reqs s - 1"
      using s2(2) p(4) kms_okD(5) [OF assms(1) Inl] by (auto simp: same_store_def elim!: mutedE)
    ultimately show ?thesis by (intro exI [of _ "- err"] exI [of _ ?s']) simp
  next
    case (Inr u)
    let ?s' = "?s\<lparr>prop_vals := apply_request ?req (prop_vals s), crtc_events := req_crtcs k ?req, reqs := reqs s - 1\<rparr>"
    have "modeset_commit c k ?req s = Inr (0, ?s')"
      using Inr by (simp add: e bindS_def [of "atomic_commit a b f" for a b f] atomic_commit_def assms(4) free_req_def returnS_def bindS_def [of "\<lambda>s. Inr ((), s)"])
    moreover have "list_ok k n ?s'" using f1 h1 kms_holds_cong [of ?s' ?s] by (simp add: list_ok_def)
    moreover have "shown_first k s ?s'" using p(2) paint all_crtcs [OF assms(1) ok] by (simp add: shown_first_def req_crtcs_def)
    ultimately show ?thesis using p(4) by (intro exI [of _ 0] exI [of _ ?s']) (simp add: same_store_def)
  qed
qed

lemma test_commit:
  "atomic_commit k [TEST_ONLY, ALLOW_MODESET] req s = Inr (Inr (), s) \<or>
   (\<exists>e. commit_of k s [TEST_ONLY, ALLOW_MODESET] req = Inl e \<and> atomic_commit k [TEST_ONLY, ALLOW_MODESET] req s = Inr (Inl e, s))"
  by (cases "commit_of k s [TEST_ONLY, ALLOW_MODESET] req") (simp_all add: atomic_commit_def)

lemma list_ok_muted: "muted s s' \<Longrightarrow> list_ok k n s \<Longrightarrow> list_ok k n s'"
  using kms_holds_muted [of s s'] muted_keeps(2) [of s s'] by (simp add: list_ok_def)

lemma list_ok_reqs: "list_ok k n (s\<lparr>reqs := m\<rparr>) = list_ok k n s"
  using kms_holds_cong [of "s\<lparr>reqs := m\<rparr>" s] by (simp add: list_ok_def)

lemma perform_modeset_runs:
  assumes "kms_ok k" and "list_ok k n s" and "output_list s \<noteq> []" and "commits s = Map.empty" and "crtc_events s = []"
  shows "\<exists>ret s'. perform_modeset c k s = Inr (ret, s') \<and> list_ok k n s' \<and> fds (gpu_state s') = fds (gpu_state s) \<and>
    kms_ticks s' = kms_ticks s \<and> (kms_complete k \<longrightarrow> reqs s' = reqs s) \<and> (if ret = 0 then shown_first k s s' else same_but_colors s s')"
proof -
  let ?l = "output_list s" and ?s = "s\<lparr>reqs := Suc (reqs s)\<rparr>"
  have ok: "\<forall>d \<in> set ?l. out_ok k d" using assms(2) by (simp add: list_ok_def kms_holds_def)
  obtain r req s1 where 1: "prepare_all k ?l [] None ?s = Inr ((r, req), s1)" "muted ?s s1" "r = Some (- 1) \<and> \<not> kms_complete k \<or> r = Some 0 \<and> req = all_request ?l"
    using prepare_all_runs [OF assms(1) ok, of "[]" None ?s] assms(3) by auto
  note m1 = muted_keeps [OF 1(2)]
  have l1: "list_ok k n s1" using list_ok_muted [OF 1(2)] assms(2) by (simp only: list_ok_reqs)
  have f1: "fds (gpu_state s1) = fds (gpu_state s)" using 1(2) by (auto elim: mutedE)
  have quiet: "list_ok k n s'" "same_but_colors s s'" "fds (gpu_state s') = fds (gpu_state s)" "kms_ticks s' = kms_ticks s" if "muted s1 s'" for s'
    using list_ok_muted [OF that l1] muted_keeps [OF that] m1 f1 that by (auto simp: same_but_colors_def recolors_refl elim: mutedE)
  have e: "perform_modeset c k s = (case r of
       None \<Rightarrow> liftS (Inl UninitRead)
     | Some ret \<Rightarrow>
         if ret < 0 then
           bindS (\<lambda>s. warn ''prepare atomic commit failed, %d\<newline>'' [AInt (word_of_int (stale_errno k s))] s) (\<lambda>_. returnS ret)
         else
           bindS (atomic_commit k [TEST_ONLY, ALLOW_MODESET] req) (\<lambda>r.
           case r of
             Inl e \<Rightarrow>
               bindS (warn ''test-only atomic commit failed, %d\<newline>'' [AInt (word_of_int e)]) (\<lambda>_.
               bindS free_req (\<lambda>_. returnS (- e)))
           | Inr _ \<Rightarrow> modeset_commit c k req)) s1"
    using 1(1) by (simp add: perform_modeset_def alloc_req_def bindS_def [of "\<lambda>s. prepare_all k (output_list s) [] None s"])
  show ?thesis
  proof (cases "r = Some (- 1)")
    case True
    obtain s2 where s2: "warn ''prepare atomic commit failed, %d\<newline>'' [AInt (word_of_int (stale_errno k s1))] s1 = Inr ((), s2)" "muted s1 s2"
      using warn_muted [OF kms_formats(14)] by blast
    have "perform_modeset c k s = Inr (- 1, s2)" using e True by (simp add: bindS_def s2(1) returnS_def)
    then show ?thesis using quiet [OF s2(2)] 1(3) True by (intro exI [of _ "- 1"] exI [of _ s2]) simp
  next
    case False
    then have r: "r = Some 0" "req = all_request (output_list s1)" using 1(3) m1(2) by auto
    show ?thesis
    proof (cases "atomic_commit k [TEST_ONLY, ALLOW_MODESET] req s1 = Inr (Inr (), s1)")
      case False
      then obtain er where er: "commit_of k s1 [TEST_ONLY, ALLOW_MODESET] req = Inl er" "atomic_commit k [TEST_ONLY, ALLOW_MODESET] req s1 = Inr (Inl er, s1)"
        using test_commit by blast
      obtain s2 where s2: "warn ''test-only atomic commit failed, %d\<newline>'' [AInt (word_of_int er)] s1 = Inr ((), s2)" "muted s1 s2"
        using warn_muted [OF kms_formats(15)] by blast
      have "perform_modeset c k s = Inr (- er, s2\<lparr>reqs := reqs s2 - 1\<rparr>)"
        using e r(1) by (simp add: bindS_Inr [where m = "atomic_commit a b f" for a b f, OF er(2)] bindS_Inr [where m = "warn a b" for a b, OF s2(1)] free_req_def returnS_def)
      moreover have "reqs s2 - 1 = reqs s" using muted_keeps(7) [OF s2(2)] m1(7) by simp
      ultimately show ?thesis using quiet [OF s2(2)] kms_okD(5) [OF assms(1) er(1)]
        by (intro exI [of _ "- er"] exI [of _ "s2\<lparr>reqs := reqs s2 - 1\<rparr>"]) (simp add: list_ok_reqs same_but_colors_def)
    next
      case True
      then have "perform_modeset c k s = modeset_commit c k (all_request (output_list s1)) s1"
        using e r by (simp add: bindS_def [of "atomic_commit a b f" for a b f])
      moreover obtain ret s' where r: "modeset_commit c k (all_request (output_list s1)) s1 = Inr (ret, s')" "list_ok k n s'"
        "fds (gpu_state s') = fds (gpu_state s1)" "kms_ticks s' = kms_ticks s1" "reqs s' = reqs s1 - 1" "if ret = 0 then shown_first k s1 s' else same_but_colors s1 s'"
        using modeset_commit_runs [OF assms(1) l1, of c] m1(4,5) assms(4,5) by auto
      moreover have "if ret = 0 then shown_first k s s' else same_but_colors s s'"
        using r(6) m1 by (cases "ret = 0") (simp_all add: shown_first_def same_but_colors_def)
      ultimately show ?thesis using r(2-5) m1(7,9) f1 by auto
    qed
  qed
qed

end
