(* ===== verification/KmsMain.thy ===== *)
theory KmsMain
  imports KmsFirst
begin

unbundle bit_operations_syntax

text \<open>
  \<open>modeset_draw\<close>, \<open>modeset_cleanup\<close> and \<open>main\<close> of \<open>modeset-atomic.c\<close>: they end in a fair world, and give back what
  \<open>modeset_prepare\<close> has taken.
\<close>

subsection \<open>Drawing\<close>

lemma list_ok_on:
  assumes "list_ok k 0 s" and "commits s = Map.empty" and "distinct (crtc_events s)" and "reqs_freed k s"
  shows "kms_on k (fds (gpu_state s)) (length (output_list s)) s"
  using assms by (simp add: kms_on_def list_ok_def kms_runs_def kms_flight_def fresh_out_def)

lemma kms_draw_runs:
  assumes "kms_ok k" and "clock_runs w" and "list_ok k 0 s" and "output_list s \<noteq> []" and "commits s = Map.empty" and "crtc_events s = []"
    and "reqs s = 0"
  shows "\<exists>s'. kms_draw c k w s = Inr ((), s') \<and> kms_on k (fds (gpu_state s)) (length (output_list s)) s'"
proof -
  let ?s = "s\<lparr>kms_ticks := Suc (kms_ticks s)\<rparr>" and ?m = "length (output_list s)" and ?f = "fds (gpu_state s)"
  have "list_ok k 0 ?s" using assms(3) kms_holds_cong [of ?s s] by (simp add: list_ok_def)
  from perform_modeset_runs [OF assms(1) this, of c] assms(4-6) obtain ret s1 where 1: "perform_modeset c k ?s = Inr (ret, s1)" "list_ok k 0 s1"
    "fds (gpu_state s1) = ?f" "kms_complete k \<longrightarrow> reqs s1 = reqs ?s" "if ret = 0 then shown_first k ?s s1 else same_but_colors ?s s1" by auto
  have "length (output_list s1) = ?m" "commits s1 = Map.empty" "distinct (crtc_events s1)"
    using 1(5) assms(5,6) by (auto simp: shown_first_def same_but_colors_def dest: list_all2_lengthD split: if_splits)
  then have "kms_on k ?f ?m s1" using list_ok_on [OF 1(2)] 1(3,4) assms(7) by (simp add: reqs_freed_def)
  then obtain s2 where 2: "kms_on k ?f ?m s2" "kms_loop c k w (time_of w (kms_ticks s)) s1 = Some (Inr ((), s2))"
    using kms_timed.ends [OF assms(2), of k ?f ?m s1 c "time_of w (kms_ticks s)"] assms(1) by blast
  have "kms_draw c k w s = Inr ((), s2)"
    by (simp add: kms_draw_def bindS_def [of kms_tick] kms_tick_def bindS_Inr [where m = "perform_modeset c k", OF 1(1)] run_kms_def 2(2))
  then show ?thesis using 2(1) by blast
qed

subsection \<open>Cleaning up\<close>

lemma output_destroy_runs:
  assumes "kms_holds k n (d # ds) s"
  shows "\<exists>s'. output_destroy d s = Inr ((), s') \<and> kms_holds k n ds s' \<and> output_list s' = output_list s \<and> commits s' = commits s \<and>
    crtc_events s' = crtc_events s \<and> kms_ticks s' = kms_ticks s \<and> fds (gpu_state s') = fds (gpu_state s) \<and> reqs s' = reqs s"
proof -
  have ok: "out_ok k d" "objects_ok k d" using assms by (simp_all add: kms_holds_def out_ok_def)
  obtain b0 b1 where b: "out_bufs d = [b0, b1]" using out_ok_bufs [OF ok(1)] by blast
  let ?s1 = "shrunk 3 (out_objs d) s"
  let ?s2 = "?s1\<lparr>gpu_state := without b1 (without b0 (gpu_state ?s1)), blobs := blobs s - {mode_blob_id d}, mallocs := mallocs s - 4\<rparr>"
  have bs: "buf_at (out_bufs d) 0 = Inr b0" "buf_at (out_bufs d) 1 = Inr b1" by (simp_all add: b buf_at_def)
  have "output_destroy d s = Inr ((), ?s2)"
    by (simp add: output_destroy_def bindS_Inr [where m = "destroy_objects d", OF destroy_objects_runs [OF ok(2)]] destroy_buf_at_def bs [simplified]
      bindS_def [of "kms_destroy_fb a" for a] kms_destroy_fb_runs destroy_blob_def free1_def kupd_def bindS_def [of "\<lambda>s. Inr ((), f s)" for f])
      (simp add: shrunk_def)
  moreover have "owns (gpu_state ?s1) (b0 # b1 # all_out_bufs ds)"
    using assms b owns_cong [of "gpu_state ?s1" "gpu_state s"] by (simp add: kms_holds_def all_out_bufs_def shrunk_def)
  from owns_without [OF owns_without [OF this]] have "kms_holds k n ds ?s2" using assms by (auto simp: kms_holds_def shrunk_def without_def)
  ultimately show ?thesis by (auto simp: shrunk_def without_def)
qed

lemma flight_drop: "kms_flight q cm (d # ds) \<Longrightarrow> \<not> out_pending d \<Longrightarrow> kms_flight q cm ds"
  by (auto simp: kms_flight_def)

lemma kms_on_cleanup:
  assumes "kms_on k f m s" and "output_list s = d # ds"
  shows "kms_on k f m (s\<lparr>output_list := d\<lparr>out_cleanup := True\<rparr> # ds\<rparr>)"
proof -
  have "kms_holds k 0 (d\<lparr>out_cleanup := True\<rparr> # ds) s"
    using assms by (simp add: kms_on_def kms_runs_def kms_holds_def all_out_bufs_def out_objs_def out_ok_def objects_ok_def)
  then have "kms_holds k 0 (d\<lparr>out_cleanup := True\<rparr> # ds) (s\<lparr>output_list := d\<lparr>out_cleanup := True\<rparr> # ds\<rparr>)"
    using kms_holds_cong [of "s\<lparr>output_list := d\<lparr>out_cleanup := True\<rparr> # ds\<rparr>" s] by simp
  moreover have "kms_flight (crtc_events s) (commits s) (d\<lparr>out_cleanup := True\<rparr> # ds)" using assms by (auto simp: kms_on_def kms_runs_def kms_flight_def)
  ultimately show ?thesis using assms by (simp add: kms_on_def kms_runs_def reqs_freed_def)
qed

lemma clean_output_runs:
  assumes "kms_ok k" and "serves w" and "kms_on k f (Suc m) s" and "output_list s = d # ds"
  shows "\<exists>s'. clean_output c k w d ds s = Inr ((), s') \<and> kms_on k f m s'"
proof -
  let ?d = "d\<lparr>out_cleanup := True\<rparr>" and ?x = "obj_id (out_crtc d)"
  let ?s = "s\<lparr>output_list := ?d # ds\<rparr>"
  obtain s1 where s1: "warn ''wait for pending page-flip to complete...\<newline>'' [] ?s = Inr ((), s1)" "muted ?s s1" using warn_muted [OF kms_formats(20)] by blast
  have "kms_waits_for k f (Suc m) ?x s1" using kms_on_muted [OF s1(2) kms_on_cleanup [OF assms(3,4)]] muted_keeps(2) [OF s1(2)] assms(1)
    by (simp add: kms_waits_for_def)
  from kms_waits.ends [OF assms(2) this, of c] obtain s2 where s2: "kms_flip_wait c k w s1 = kms_flip_wait c k w s2" "kms_waits_for k f (Suc m) ?x s2"
    "\<not> head_pending s2" by blast
  obtain d' ds' where d': "output_list s2 = d' # ds'" "kms_on k f (Suc m) s2" "\<not> out_pending d'"
    using s2(2,3) by (auto simp: kms_waits_for_def head_pending_def)
  have w: "run_kms (kms_flip_wait c k w) s1 = Inr ((), s2)" by (simp add: run_kms_def s2(1) kms_flip_wait_done [OF d'(1,3)])
  let ?s3 = "s2\<lparr>output_list := ds'\<rparr>"
  have r: "kms_holds k 0 (d' # ds') s2" "kms_flight (crtc_events s2) (commits s2) (d' # ds')" using d'(1,2) by (simp_all add: kms_on_def kms_runs_def)
  then have "kms_holds k 0 (d' # ds') ?s3" using kms_holds_cong [of ?s3 s2] by simp
  from output_destroy_runs [OF this] obtain s4 where s4: "output_destroy d' ?s3 = Inr ((), s4)" "kms_holds k 0 ds' s4" "output_list s4 = ds'"
    "commits s4 = commits s2" "crtc_events s4 = crtc_events s2" "fds (gpu_state s4) = fds (gpu_state s2)"
    "reqs s4 = reqs s2" by auto
  have "clean_output c k w d ds s = Inr ((), s4)"
    by (simp add: clean_output_def bindS_Inr [where m = "warn a b" for a b, OF s1(1)] bindS_Inr [where m = "run_kms a" for a, OF w]
      bindS_def [of head_output] head_output_def d'(1) s4(1))
  moreover have "kms_on k f m s4" using d'(1,2) s4(2-7) flight_drop [OF r(2) d'(3)] by (simp add: kms_on_def kms_runs_def reqs_freed_def)
  ultimately show ?thesis by blast
qed

lemma clean_outputs_run:
  assumes "kms_ok k" and "serves w"
  shows "kms_on k f m s \<Longrightarrow> \<exists>s'. clean_outputs c k w m s = Inr ((), s') \<and> kms_on k f 0 s'"
proof (induction m arbitrary: s)
  case 0
  then show ?case by (simp add: returnS_def)
next
  case (Suc m)
  then obtain d ds where l: "output_list s = d # ds" by (cases "output_list s") (auto simp: kms_on_def)
  obtain s1 where 1: "clean_output c k w d ds s = Inr ((), s1)" "kms_on k f m s1" using clean_output_runs [OF assms Suc.prems l] by blast
  show ?case using Suc.IH [OF 1(2)] 1(1) l by (simp add: bindS_def)
qed

text \<open>
  What is left after a run: so many objects of libdrm, and no request if all settings can be added. A request whose
  preparing fails is never freed.
\<close>

definition kms_clean :: "kms_card \<Rightarrow> nat \<Rightarrow> kms \<Rightarrow> bool" where
  "kms_clean k n s =
     (let g = gpu_state s in
      output_list s = [] \<and> commits s = Map.empty \<and> blobs s = {} \<and> mallocs s = 0 \<and> handles g = {} \<and> fbs g = Map.empty \<and> maps g = Map.empty \<and>
      objs g = n \<and> (kms_complete k \<longrightarrow> reqs s = 0))"

lemma holds_clean: "kms_holds k n [] s \<Longrightarrow> output_list s = [] \<Longrightarrow> commits s = Map.empty \<Longrightarrow> reqs_freed k s \<Longrightarrow> kms_clean k n s"
  by (simp add: kms_clean_def kms_holds_def owns_def all_out_bufs_def reqs_freed_def)

lemma kms_session_runs:
  assumes "kms_ok k" and "world_fair w" and "list_ok k 0 s" and "output_list s \<noteq> []" and "commits s = Map.empty" and "crtc_events s = []"
    and "reqs s = 0"
  shows "\<exists>s'. kms_session c k w s = Inr ((), s') \<and> kms_clean k 0 s' \<and> fds (gpu_state s') = fds (gpu_state s)"
proof -
  have w: "clock_runs w" "serves w" using assms(2) by (simp_all add: world_fair_def)
  obtain s1 where 1: "kms_draw c k w s = Inr ((), s1)" "kms_on k (fds (gpu_state s)) (length (output_list s)) s1"
    using kms_draw_runs [OF assms(1) w(1) assms(3-7)] by blast
  have "length (output_list s1) = length (output_list s)" using 1(2) by (simp add: kms_on_def)
  then obtain s2 where 2: "kms_cleanup c k w s1 = Inr ((), s2)" "kms_on k (fds (gpu_state s)) 0 s2"
    using clean_outputs_run [OF assms(1) w(2) 1(2), of c] by (auto simp: kms_cleanup_def)
  have e: "output_list s2 = []" using 2(2) by (simp add: kms_on_def)
  then have "commits s2 = Map.empty" using 2(2) by (auto simp: kms_on_def kms_runs_def kms_flight_def)
  then have "kms_clean k 0 s2" using holds_clean [of k 0 s2] e 2(2) by (simp add: kms_on_def kms_runs_def)
  moreover have "kms_session c k w s = Inr ((), s2)" by (simp add: kms_session_def bindS_def 1(1) 2(1))
  ultimately show ?thesis using 2(2) by (auto simp: kms_on_def)
qed

subsection \<open>The program\<close>

lemma report_muted: "\<exists>s'. on_gpu (modeset_report c ret) s = Inr (ret, s') \<and> muted s s'"
proof -
  obtain t where "vsprintf ''modeset failed with error %d: %s\<newline>'' (errno_args c (- ret)) = Inr t"
    using kms_formats(18) [of c "- ret"] by (auto simp: formats_def errno_args_def fmt_eval)
  moreover obtain u where "vsprintf ''exiting\<newline>'' [] = Inr u" by (auto simp: fmt_eval)
  ultimately show ?thesis
    by (cases "ret = 0") (auto simp: modeset_report_def say_def on_gpu_def bindS_def liftS_def returnS_def upd_def intro!: muted_at [where u = "kms_out s"])
qed

lemma kms_open_runs:
  assumes "open_of c node = Inr ()" and "client_cap_of k UNIVERSAL_PLANES = 0" and "client_cap_of k CLIENT_ATOMIC = 0"
    and "dumb_cap c = Some n" and "n \<noteq> 0" and "vblank_cap k = Some m" and "m \<noteq> 0"
  shows "kms_open c k node s = Inr (0, s\<lparr>gpu_state := (gpu_state s)\<lparr>fds := Suc (fds (gpu_state s))\<rparr>\<rparr>)"
  using assms by (simp add: kms_open_def open_fd_def returnS_def Let_def)

text \<open>A card that can be opened, and on which the program can start.\<close>

definition kms_opens :: "card \<Rightarrow> kms_card \<Rightarrow> bool" where
  "kms_opens c k =
     ((\<forall>node. open_of c node = Inr ()) \<and> client_cap_of k UNIVERSAL_PLANES = 0 \<and> client_cap_of k CLIENT_ATOMIC = 0 \<and>
      (\<exists>n. dumb_cap c = Some n \<and> n \<noteq> 0) \<and> (\<exists>n. vblank_cap k = Some n \<and> n \<noteq> 0))"

definition kms_startable :: "card \<Rightarrow> kms_card \<Rightarrow> kms \<Rightarrow> bool" where
  "kms_startable c k s =
     (card_ok c \<and> kms_ok k \<and> (\<exists>res. res_of c = Inr res \<and> length (crtcs res) \<le> 32) \<and> kms_idle s)"

lemma startable_prepares:
  assumes "kms_startable c k s"
  shows "\<exists>ret s'. kms_prepare c k s = Inr (ret, s') \<and> same_kernel s s' \<and>
    (if output_list s' = [] then ret = - 1 \<and> list_ok k 1 s' else ret = 0 \<and> list_ok k 0 s')"
  using assms kms_prepare_runs unfolding kms_startable_def by blast

lemma idle_muted: "muted s s' \<Longrightarrow> kms_idle s \<Longrightarrow> kms_idle s'"
  by (elim mutedE) (simp add: kms_idle_def Let_def)


lemma kms_main_runs:
  assumes "kms_startable c k s" and "kms_opens c k" and "world_fair w"
  shows "\<exists>ret s'. kms_main c k w argv s = Inr (ret, s') \<and> (ret = 0 \<and> kms_clean k 0 s' \<or> ret = - 1 \<and> kms_clean k 1 s') \<and>
    fds (gpu_state s') = fds (gpu_state s)"
proof -
  obtain node where node: "node = (if 1 < length argv then argv ! 1 else ''/dev/dri/card0'')" by simp
  have "formats (''using card '' @ QUOTE @ ''%s'' @ QUOTE @ ''\<newline>'') [AStr node]" by (simp add: formats_def QUOTE_def fmt_eval)
  then obtain s1 where s1: "warn (''using card '' @ QUOTE @ ''%s'' @ QUOTE @ ''\<newline>'') [AStr node] s = Inr ((), s1)" "muted s s1"
    using warn_muted by blast
  let ?s = "s1\<lparr>gpu_state := (gpu_state s1)\<lparr>fds := Suc (fds (gpu_state s1))\<rparr>\<rparr>"
  have open1: "kms_open c k node s1 = Inr (0, ?s)" using assms(2) kms_open_runs unfolding kms_opens_def by blast
  have "kms_startable c k ?s" using idle_muted [OF s1(2)] assms(1) by (simp add: kms_startable_def kms_idle_def Let_def)
  from startable_prepares [OF this] obtain ret s2 where 2: "kms_prepare c k ?s = Inr (ret, s2)" "same_kernel ?s s2"
    "if output_list s2 = [] then ret = - 1 \<and> list_ok k 1 s2 else ret = 0 \<and> list_ok k 0 s2" by blast
  have f: "fds (gpu_state s2) = Suc (fds (gpu_state s))" using 2(2) s1(2) by (auto simp: same_kernel_def elim!: mutedE)
  have q: "commits s2 = Map.empty" "crtc_events s2 = []" "reqs s2 = 0"
    using 2(2) idle_muted [OF s1(2)] assms(1) by (simp_all add: same_kernel_def kms_startable_def kms_idle_def Let_def)
  have e: "kms_main c k w argv s = bindS (if ret \<noteq> 0 then returnS () else kms_session c k w) (\<lambda>_.
        bindS close_fd (\<lambda>_. on_gpu (modeset_report c ret))) s2"
    by (simp only: kms_main_def node [symmetric] Let_def bindS_Inr [where m = "warn a b" for a b, OF s1(1)]
      bindS_Inr [where m = "kms_open a b d" for a b d, OF open1] bindS_Inr [where m = "kms_prepare c k", OF 2(1)] simp_thms if_False)
  have "\<exists>s3 n. (if ret \<noteq> 0 then returnS () else kms_session c k w) s2 = Inr ((), s3) \<and> kms_clean k n s3 \<and> (ret = 0 \<and> n = 0 \<or> ret = - 1 \<and> n = 1) \<and>
      fds (gpu_state s3) = fds (gpu_state s2)"
  proof (cases "output_list s2 = []")
    case True
    then show ?thesis using 2(3) holds_clean [of k 1 s2] q by (intro exI [of _ s2] exI [of _ 1]) (simp add: returnS_def list_ok_def reqs_freed_def)
  next
    case False
    then have "ret = 0" "list_ok k 0 s2" using 2(3) by simp_all
    then show ?thesis using kms_session_runs [OF _ assms(3) _ False q, of k c] assms(1) by (auto simp: kms_startable_def)
  qed
  then obtain s3 n where 3: "(if ret \<noteq> 0 then returnS () else kms_session c k w) s2 = Inr ((), s3)" "kms_clean k n s3"
    "ret = 0 \<and> n = 0 \<or> ret = - 1 \<and> n = 1" "fds (gpu_state s3) = fds (gpu_state s2)" by blast
  let ?s4 = "s3\<lparr>gpu_state := (gpu_state s3)\<lparr>fds := fds (gpu_state s3) - 1\<rparr>\<rparr>"
  obtain s5 where s5: "on_gpu (modeset_report c ret) ?s4 = Inr (ret, s5)" "muted ?s4 s5" using report_muted by blast
  have "kms_main c k w argv s = Inr (ret, s5)"
    by (simp only: e bindS_Inr [where m = "if a then b else d" for a b d, OF 3(1)] close_fd_def bind_kupd s5(1))
  moreover obtain t u where t: "s5 = ?s4\<lparr>gpu_state := (gpu_state ?s4)\<lparr>merr := t\<rparr>, kms_out := u\<rparr>" using s5(2) by (rule mutedE)
  have "kms_clean k n s5" using 3(2) unfolding t by (simp add: kms_clean_def Let_def)
  moreover have "fds (gpu_state s5) = fds (gpu_state s)" using 3(4) f by (simp add: t)
  ultimately show ?thesis using 3(3) by auto
qed

end
