(* ===== verification/FlipScreen.thy ===== *)
theory FlipScreen
  imports FlipRun
begin

unbundle bit_operations_syntax

text \<open>
  What is on the screen while the programs with two framebuffers draw: the buffer that is drawn into is on
  no screen. Then the run of \<open>modeset-double-buffered.c\<close>.
\<close>

subsection \<open>The two buffers of a device\<close>

definition front_of :: "flip_dev \<Rightarrow> modeset_buf res" where
  "front_of d = buf_at (bufs d) (unat (front_buf d))"

lemma front_back:
  assumes "bufs d = [b0, b1]" and "front_buf d \<in> {0, 1}"
  shows "front_of d = Inr (if front_buf d = 0 then b0 else b1)" "back_buf d = Inr (if front_buf d = 0 then b1 else b0)"
  using assms by (auto simp: front_of_def back_buf_def buf_at_def)

lemma own_buf:
  "distinct (map buf_fb (all_bufs l)) \<Longrightarrow> d \<in> set l \<Longrightarrow> e \<in> set l \<Longrightarrow> b \<in> set (bufs d) \<Longrightarrow> b' \<in> set (bufs e) \<Longrightarrow> buf_fb b = buf_fb b' \<Longrightarrow> d = e"
proof (induction l)
  case (Cons a l)
  have "buf_fb ` set (bufs a) \<inter> buf_fb ` set (all_bufs l) = {}" using Cons.prems(1) by (simp add: all_bufs_def)
  moreover have "b \<in> set (all_bufs l)" if "d \<in> set l" using Cons.prems(4) that by (auto simp: all_bufs_def)
  moreover have "b' \<in> set (all_bufs l)" if "e \<in> set l" using Cons.prems(5) that by (auto simp: all_bufs_def)
  moreover have "distinct (map buf_fb (all_bufs l))" using Cons.prems(1) by (simp add: all_bufs_def)
  ultimately show ?case using Cons.prems(2-6) Cons.IH by (metis IntI empty_iff image_eqI set_ConsD)
qed simp

lemma buf_in_all: "d \<in> set l \<Longrightarrow> b \<in> set (bufs d) \<Longrightarrow> b \<in> set (all_bufs l)"
  by (auto simp: all_bufs_def)

lemma running_dev:
  assumes "running c res g0 l g" and "d \<in> set l"
  obtains f b where "front_of d = Inr f" "back_buf d = Inr b" "f \<in> set (bufs d)" "b \<in> set (bufs d)" "buf_fb f \<noteq> buf_fb b"
proof -
  have "devs_hold c res l g" using assms(1) by (simp add: running_def)
  then obtain b0 b1 where b: "bufs d = [b0, b1]" using hold_bufs assms(2) by blast
  have f: "front_buf d \<in> {0, 1}" using assms by (simp add: running_def)
  have "distinct (map buf_fb (bufs d))"
    using running_owns [OF assms(1)] assms(2) by (auto simp: owns_def all_bufs_def map_concat distinct_concat_iff)
  then have "buf_fb b0 \<noteq> buf_fb b1" by (simp add: b)
  then show thesis using that front_back [OF b f] b by (cases "front_buf d = 0") auto
qed

lemma flip_front:
  assumes "running c res g0 l g" and "d \<in> set l"
  shows "front_of (d\<lparr>front_buf := front_buf d XOR 1, pflip_pending := p\<rparr>) = back_buf d"
    "front_of (d\<lparr>front_buf := front_buf d XOR 1\<rparr>) = back_buf d"
    "keeps_dev d (d\<lparr>front_buf := front_buf d XOR 1\<rparr>)" "front_buf d XOR 1 \<in> {0, 1}"
  using assms by (auto simp: front_of_def back_buf_def keeps_dev_def running_def)

subsection \<open>What is on the screen\<close>

definition on_screen :: "gpu \<Rightarrow> u32 \<Rightarrow> bool" where
  "on_screen g h = (\<exists>x ci. crtc_conf g x = Some ci \<and> fbs g (buffer_id ci) = Some h)"

definition hidden_back :: "gpu \<Rightarrow> flip_dev \<Rightarrow> bool" where
  "hidden_back g d = (\<forall>b ci. back_buf d = Inr b \<and> crtc_conf g (flip_crtc d) = Some ci \<longrightarrow> buffer_id ci \<noteq> buf_fb b)"

text \<open>
  A buffer of a device is on no screen but its own, and unless a flip is on its way the one on the screen is
  not the back buffer.
\<close>

definition clear :: "flip_dev list \<Rightarrow> (u32 \<Rightarrow> u32 option) \<Rightarrow> gpu \<Rightarrow> bool" where
  "clear l sch g =
     ((\<forall>d \<in> set l. \<forall>b \<in> set (bufs d). \<forall>x ci. crtc_conf g x = Some ci \<and> buffer_id ci = buf_fb b \<longrightarrow> x = flip_crtc d) \<and>
      (\<forall>d \<in> set l. sch (flip_crtc d) = None \<longrightarrow> hidden_back g d))"

lemma clear_cong: "crtc_conf g' = crtc_conf g \<Longrightarrow> clear l sch g' = clear l sch g"
  by (simp add: clear_def hidden_back_def)

lemma back_unseen:
  assumes "running c res g0 l g" and "clear l sch g" and "d \<in> set l" and "sch (flip_crtc d) = None" and "back_buf d = Inr b"
  shows "\<not> on_screen g (buf_handle b)"
proof
  assume "on_screen g (buf_handle b)"
  then obtain x ci where x: "crtc_conf g x = Some ci" "fbs g (buffer_id ci) = Some (buf_handle b)" by (auto simp: on_screen_def)
  have own: "owns g (all_bufs l)" using running_owns [OF assms(1)] .
  have b: "b \<in> set (bufs d)" using running_dev [OF assms(1,3)] assms(5) by (metis sum.inject(2))
  have "buffer_id ci \<in> buf_fb ` set (all_bufs l)" using own x(2) by (auto simp: owns_def)
  then obtain b' where b': "b' \<in> set (all_bufs l)" "buffer_id ci = buf_fb b'" by blast
  then have "buf_handle b' = buf_handle b" using own x(2) by (auto simp: owns_def)
  then have "b' = b" using owns_inj [OF own b'(1) buf_in_all [OF assms(3) b]] by simp
  then have id: "buffer_id ci = buf_fb b" using b'(2) by simp
  then have "x = flip_crtc d" using assms(2,3) b x(1) by (auto simp: clear_def)
  then show False using assms(2-5) x(1) id by (auto simp: clear_def hidden_back_def)
qed

definition hidden_buf :: "flip_dev \<Rightarrow> modeset_buf \<Rightarrow> bool" where
  "hidden_buf d b = (\<forall>b'. back_buf d = Inr b' \<longrightarrow> buf_fb b' \<noteq> buf_fb b)"

text \<open>A device shows one of its buffers, which is its front buffer from then on.\<close>

lemma clear_show:
  assumes "running c res g0 l g" and "clear l sch g" and "d \<in> set l" and "b \<in> set (bufs d)"
    and "crtc_conf g' = (crtc_conf g)(flip_crtc d := conf)" and "\<And>ci. conf = Some ci \<Longrightarrow> buffer_id ci = buf_fb b"
    and "\<And>e'. e' \<in> set l' \<Longrightarrow> \<exists>e \<in> set l. bufs e' = bufs e \<and> flip_crtc e' = flip_crtc e \<and> (flip_crtc e \<noteq> flip_crtc d \<longrightarrow> front_buf e' = front_buf e)"
    and "\<And>e'. e' \<in> set l' \<Longrightarrow> flip_crtc e' = flip_crtc d \<Longrightarrow> hidden_buf e' b"
    and "\<And>x. x \<noteq> flip_crtc d \<Longrightarrow> sch' x = None \<Longrightarrow> sch x = None"
  shows "clear l' sch' g'"
proof -
  have own: "distinct (map buf_fb (all_bufs l))" using running_owns [OF assms(1)] by (simp add: owns_def)
  have "x = flip_crtc e'" if e': "e' \<in> set l'" "b' \<in> set (bufs e')" "crtc_conf g' x = Some ci" "buffer_id ci = buf_fb b'" for e' b' x ci
  proof -
    obtain e where e: "e \<in> set l" "bufs e' = bufs e" "flip_crtc e' = flip_crtc e" using assms(7) [OF e'(1)] by blast
    show ?thesis
    proof (cases "x = flip_crtc d")
      case True
      then have "buf_fb b = buf_fb b'" using e'(3,4) assms(5,6) by simp
      then have "d = e" using own_buf [OF own assms(3) e(1) assms(4)] e(2) e'(2) by simp
      then show ?thesis using True e(3) by simp
    next
      case False
      then have "crtc_conf g x = Some ci" using e'(3) assms(5) by simp
      then show ?thesis using assms(2) e e'(2,4) by (auto simp: clear_def)
    qed
  qed
  moreover have "hidden_back g' e'" if e': "e' \<in> set l'" "sch' (flip_crtc e') = None" for e'
  proof -
    obtain e where e: "e \<in> set l" "bufs e' = bufs e" "flip_crtc e' = flip_crtc e" "flip_crtc e \<noteq> flip_crtc d \<longrightarrow> front_buf e' = front_buf e"
      using assms(7) [OF e'(1)] by blast
    show ?thesis
    proof (cases "flip_crtc e' = flip_crtc d")
      case True
      then show ?thesis using assms(5,6) assms(8) [OF e'(1) True] by (auto simp: hidden_back_def hidden_buf_def)
    next
      case False
      then have "hidden_back g e" using assms(2) e e'(2) assms(9) [of "flip_crtc e"] by (simp add: clear_def)
      then show ?thesis using e False assms(5) by (simp add: hidden_back_def back_buf_def)
    qed
  qed
  ultimately show ?thesis by (auto simp: clear_def)
qed

text \<open>Before anything is drawn: the identifiers of new framebuffers were on no screen.\<close>

definition unseen_fbs :: "card \<Rightarrow> gpu \<Rightarrow> bool" where
  "unseen_fbs c g0 =
     (\<forall>g bo f x ci. crtc_conf g = crtc_conf g0 \<and> fb_of c g bo = Inr f \<and> crtc_conf g0 x = Some ci \<longrightarrow> buffer_id ci \<noteq> f)"

lemma ready_clear:
  assumes "ready c res g0 s" and "unseen_fbs c g0"
  shows "clear (flip_list s) sch (card_state s)"
proof -
  let ?l = "flip_list s" and ?g = "card_state s"
  have run: "running c res g0 ?l ?g" using assms(1) by (simp add: ready_def)
  have own: "distinct (map buf_fb (all_bufs ?l))" using running_owns [OF run] by (simp add: owns_def)
  have unseen: "buffer_id ci \<noteq> buf_fb b" if "crtc_conf g0 x = Some ci" "b \<in> set (all_bufs ?l)" for x ci b
    using assms that by (fastforce simp: ready_def new_fb_def unseen_fbs_def)
  have front: "\<exists>e \<in> set ?l. x = flip_crtc e \<and> (\<exists>f. front_of e = Inr f \<and> buffer_id ci = buf_fb f)"
    if "crtc_conf ?g x = Some ci" "b \<in> set (all_bufs ?l)" "buffer_id ci = buf_fb b" for x ci b
  proof (cases "crtc_conf ?g x = crtc_conf g0 x")
    case True
    then show ?thesis using unseen that by metis
  next
    case False
    then obtain e where "e \<in> set ?l" "x = flip_crtc e" using run by (auto simp: running_def)
    then show ?thesis using assms(1) False that(1) unfolding ready_def shows_front_def front_of_def by fastforce
  qed
  have "x = flip_crtc d" if d: "d \<in> set ?l" "b \<in> set (bufs d)" "crtc_conf ?g x = Some ci" "buffer_id ci = buf_fb b" for d b x ci
  proof -
    obtain e f where e: "e \<in> set ?l" "x = flip_crtc e" "front_of e = Inr f" "buffer_id ci = buf_fb f"
      using front [OF d(3) buf_in_all [OF d(1,2)] d(4)] by blast
    have "f \<in> set (bufs e)" using running_dev [OF run e(1)] e(3) by (metis sum.inject(2))
    then have "e = d" using own_buf [OF own e(1) d(1) _ d(2)] e(4) d(4) by simp
    then show ?thesis using e(2) by simp
  qed
  moreover have "hidden_back ?g d" if d: "d \<in> set ?l" for d
  proof -
    obtain f b where fb: "front_of d = Inr f" "back_buf d = Inr b" "b \<in> set (bufs d)" "buf_fb f \<noteq> buf_fb b" using running_dev [OF run d] by metis
    have "buffer_id ci \<noteq> buf_fb b" if shown: "crtc_conf ?g (flip_crtc d) = Some ci" for ci
    proof
      assume id: "buffer_id ci = buf_fb b"
      obtain e f' where e: "e \<in> set ?l" "flip_crtc d = flip_crtc e" "front_of e = Inr f'" "buffer_id ci = buf_fb f'"
        using front [OF shown buf_in_all [OF d fb(3)] id] by blast
      have "distinct (map flip_crtc ?l)" using run by (simp add: running_def devs_hold_def)
      then have "e = d" using d e(1,2) by (auto simp: distinct_map dest: inj_onD)
      then show False using e(3,4) fb(1,4) id by simp
    qed
    then show ?thesis using fb(2) by (simp add: hidden_back_def)
  qed
  ultimately show ?thesis by (auto simp: clear_def)
qed

subsection \<open>Drawing with \<open>drmModeSetCrtc\<close>\<close>

text \<open>One device of the list, drawn anew.\<close>

definition kept :: "gpu \<Rightarrow> gpu \<Rightarrow> bool" where
  "kept g g' = (\<forall>h. on_screen g h \<longrightarrow> maps g' h = maps g h)"

lemma fill_clear:
  assumes "running c res g0 l g" and "d \<in> set l" and "back_buf d = Inr b" and "filled b v g g'" and "owns g' (all_bufs l)"
  shows "running c res g0 l g'" "crtc_conf g' = crtc_conf g" "fbs g' = fbs g"
    "clear l sch g \<Longrightarrow> sch (flip_crtc d) = None \<Longrightarrow> kept g g'"
proof -
  obtain m where m: "g' = g\<lparr>maps := (maps g)(buf_handle b := Some m)\<rparr>" using assms(4) by (auto simp: filled_def)
  show "running c res g0 l g'" using running_card [OF assms(1,5)] by (simp add: m)
  show "crtc_conf g' = crtc_conf g" "fbs g' = fbs g" by (simp_all add: m)
  assume "clear l sch g" "sch (flip_crtc d) = None"
  then have "\<not> on_screen g (buf_handle b)" using back_unseen [OF assms(1) _ assms(2) _ assms(3)] by blast
  then show "kept g g'" by (auto simp: kept_def m)
qed

lemma running_crtcs: "running c res g0 l g \<Longrightarrow> distinct (map flip_crtc l)"
  by (simp add: running_def devs_hold_def)

lemma flipped_back:
  assumes "running c res g0 l g" and "d \<in> set l"
  shows "back_buf (d\<lparr>front_buf := front_buf d XOR 1\<rparr>) = front_of d"
    "back_buf (d\<lparr>front_buf := front_buf d XOR 1, pflip_pending := p\<rparr>) = front_of d"
  using assms by (auto simp: front_of_def back_buf_def running_def)

lemma list_all2_middle: "keeps_dev d d' \<Longrightarrow> list_all2 keeps_dev (xs @ d # ds) (xs @ d' # ds)"
  by (intro list_all2_appendI list_all2_refl) (simp_all add: list_all2_refl)

text \<open>The buffer has been shown: it is the front buffer now.\<close>

lemma swapped_clear:
  assumes "running c res g0 (xs @ d # ds) g" and "back_buf d = Inr b"
  shows "running c res g0 (xs @ d\<lparr>front_buf := front_buf d XOR 1\<rparr> # ds) (shown_on d b g)"
    "clear (xs @ d # ds) sch g \<Longrightarrow> clear (xs @ d\<lparr>front_buf := front_buf d XOR 1\<rparr> # ds) sch (shown_on d b g)"
proof -
  let ?d = "d\<lparr>front_buf := front_buf d XOR 1\<rparr>" and ?l = "xs @ d # ds"
  have d: "d \<in> set ?l" by simp
  have "running c res g0 ?l (shown_on d b g)"
    using assms(1) by (rule running_card) (use running_owns [OF assms(1)] in \<open>auto simp: shown_on_def owns_def\<close>)
  then show "running c res g0 (xs @ ?d # ds) (shown_on d b g)"
    by (rule running_keeps) (intro list_all2_middle flip_front(3) [OF assms(1) d])
  assume cl: "clear ?l sch g"
  obtain f where f: "front_of d = Inr f" "b \<in> set (bufs d)" "buf_fb f \<noteq> buf_fb b"
    using running_dev [OF assms(1) d] assms(2) by (metis sum.inject(2))
  have new: "flip_crtc d \<notin> flip_crtc ` set (xs @ ds)" using running_crtcs [OF assms(1)] by auto
  show "clear (xs @ ?d # ds) sch (shown_on d b g)"
  proof (rule clear_show [OF assms(1) cl d f(2)])
    show "crtc_conf (shown_on d b g) = (crtc_conf g)(flip_crtc d := Some
       \<lparr>cr_id = flip_crtc d, buffer_id = buf_fb b, cr_x = 0, cr_y = 0, cr_mode = flip_mode d\<rparr>)" by (simp add: shown_on_def)
  next
    fix e' assume "e' \<in> set (xs @ ?d # ds)"
    then show "\<exists>e \<in> set ?l. bufs e' = bufs e \<and> flip_crtc e' = flip_crtc e \<and> (flip_crtc e \<noteq> flip_crtc d \<longrightarrow> front_buf e' = front_buf e)" by auto
  next
    fix e' assume "e' \<in> set (xs @ ?d # ds)" "flip_crtc e' = flip_crtc d"
    then have "e' \<notin> set (xs @ ds)" using new by (metis image_eqI)
    then have "e' = ?d" using \<open>e' \<in> set (xs @ ?d # ds)\<close> by auto
    then show "hidden_buf e' b" using flipped_back(1) [OF assms(1) d] f by (simp add: hidden_buf_def)
  qed simp_all
qed

definition shows_filled :: "u32 \<Rightarrow> flip_dev \<Rightarrow> gpu \<Rightarrow> bool" where
  "shows_filled v d g =
     (\<exists>b ci. front_of d = Inr b \<and> painted v g (as_dev b) \<and> crtc_conf g (flip_crtc d) = Some ci \<and> buffer_id ci = buf_fb b)"

text \<open>Swapping touches the CRTCs and the back buffers of the devices.\<close>

definition swap_only :: "flip_dev list \<Rightarrow> gpu \<Rightarrow> gpu \<Rightarrow> bool" where
  "swap_only ds g g' =
     (fbs g' = fbs g \<and> (\<forall>x. x \<notin> flip_crtc ` set ds \<longrightarrow> crtc_conf g' x = crtc_conf g x) \<and>
      (\<forall>h. (\<forall>d \<in> set ds. \<forall>b. back_buf d = Inr b \<longrightarrow> buf_handle b \<noteq> h) \<longrightarrow> maps g' h = maps g h))"

lemma swap_only_trans: "swap_only [d] g g1 \<Longrightarrow> swap_only ds g1 g2 \<Longrightarrow> swap_only (d # ds) g g2"
  by (simp add: swap_only_def)

definition set_works :: "card \<Rightarrow> bool" where
  "set_works c = (\<forall>g ci ks. \<exists>conf. set_of c g ci ks = Inr conf)"

lemma show_buf_works:
  assumes "set_works c"
  shows "show_buf c d b s \<noteq> Inr (Inl e, s')"
proof -
  obtain conf where "set_of c (crtcs_view s) \<lparr>cr_id = flip_crtc d, buffer_id = buf_fb b, cr_x = 0, cr_y = 0, cr_mode = flip_mode d\<rparr> [flip_conn d] = Inr conf"
    using assms unfolding set_works_def by blast
  then show ?thesis by (simp add: show_buf_def on_card_def set_crtc_def crtcs_view_def)
qed

lemma swap_dev_runs:
  assumes "running c res g0 (xs @ d # ds) (card_state s)"
  shows "\<exists>d' g. swap_dev c v d s = Inr (d', s\<lparr>card_state := g\<rparr>) \<and> running c res g0 (xs @ d' # ds) g \<and>
    (clear (xs @ d # ds) Map.empty (card_state s) \<longrightarrow> clear (xs @ d' # ds) Map.empty g) \<and>
    swap_only [d] (card_state s) g \<and> (set_works c \<longrightarrow> shows_filled v d' g)"
proof -
  let ?l = "xs @ d # ds"
  have d: "d \<in> set ?l" by simp
  obtain b where b: "back_buf d = Inr b" "b \<in> set (bufs d)" using running_dev [OF assms d] by metis
  obtain g1 where g1: "fill_buf b v s = Inr ((), s\<lparr>card_state := g1\<rparr>)" "filled b v (card_state s) g1" "owns g1 (all_bufs ?l)"
    using fill_buf_runs [OF running_owns [OF assms] buf_in_all [OF d b(2)]] by blast
  have only: "sets_only c (flip_crtc d)" using assms by (simp add: running_def)
  note run1 = fill_clear [OF assms d b(1) g1(2,3)]
  have cl1: "clear ?l sch (card_state s) \<Longrightarrow> clear ?l sch g1" for sch using clear_cong [OF run1(2)] by simp
  let ?s = "s\<lparr>card_state := g1\<rparr>"
  have e: "swap_dev c v d s = bindS (show_buf c d b) (\<lambda>r. case r of
       Inl e \<Rightarrow>
         bindS (on_card (say ''cannot flip CRTC for connector %u (%d): %s\<newline>'' ([AInt (flip_conn d)] @ errno_args c e))) (\<lambda>_. returnS d)
     | Inr _ \<Rightarrow> returnS (d\<lparr>front_buf := front_buf d XOR 1\<rparr>)) ?s"
    by (simp only: swap_dev_def b(1) liftS_simps bindS_returnS bindS_def [of "fill_buf b v"] g1(1) bindE_simps prod.case)
  show ?thesis
  proof (cases "\<exists>e. show_buf c d b ?s = Inr (Inl e, ?s)")
    case True
    then obtain e where f: "show_buf c d b ?s = Inr (Inl e, ?s)" by blast
    have fmt: "formats ''cannot flip CRTC for connector %u (%d): %s\<newline>'' ([AInt (flip_conn d)] @ errno_args c e)"
      by (simp add: formats_def errno_args_def fmt_eval)
    obtain s1 where s1: "on_card (say ''cannot flip CRTC for connector %u (%d): %s\<newline>'' ([AInt (flip_conn d)] @ errno_args c e)) ?s = Inr ((), s1)"
      "hushed ?s s1" using say_hushed [OF fmt] by blast
    obtain t where t: "s1 = s\<lparr>card_state := g1\<lparr>merr := t\<rparr>\<rparr>" using s1(2) by (auto simp: hushed_def)
    have "swap_dev c v d s = Inr (d, s\<lparr>card_state := g1\<lparr>merr := t\<rparr>\<rparr>)"
      unfolding e bindS_Inr [where m = "show_buf c d b", OF f] sum.case using s1(1) by (simp add: bindS_def t returnS_def)
    moreover have "running c res g0 ?l (g1\<lparr>merr := t\<rparr>)" using running_silent [OF _ run1(1)] by (auto simp: silent_def)
    moreover have "clear ?l Map.empty (card_state s) \<longrightarrow> clear ?l Map.empty (g1\<lparr>merr := t\<rparr>)"
      using cl1 clear_cong [of "g1\<lparr>merr := t\<rparr>" g1] by simp
    moreover have "swap_only [d] (card_state s) (g1\<lparr>merr := t\<rparr>)" using g1(2) b(1) by (auto simp: swap_only_def filled_def)
    moreover have "\<not> set_works c" using show_buf_works f by blast
    ultimately show ?thesis by blast
  next
    case False
    then have f: "show_buf c d b ?s = Inr (Inr (), ?s\<lparr>card_state := shown_on d b (card_state ?s)\<rparr>)" using show_buf_cases [OF only] by blast
    let ?d = "d\<lparr>front_buf := front_buf d XOR 1\<rparr>"
    have "swap_dev c v d s = Inr (?d, s\<lparr>card_state := shown_on d b g1\<rparr>)"
      unfolding e bindS_Inr [where m = "show_buf c d b", OF f] sum.case by (simp add: returnS_def)
    moreover note swapped_clear [OF run1(1) b(1)]
    moreover have "swap_only [d] (card_state s) (shown_on d b g1)" using g1(2) b(1) by (auto simp: swap_only_def filled_def shown_on_def)
    moreover have "shows_filled v ?d (shown_on d b g1)"
      using flip_front(2) [OF assms d] b(1) g1(2) by (simp add: shows_filled_def shown_on_def filled_def painted_def) blast
    ultimately show ?thesis using cl1 by blast
  qed
qed

text \<open>A device that has been swapped is not touched by the rest of the pass.\<close>

lemma shows_filled_on:
  assumes "running c res g0 (xs @ d # ds) g" and "shows_filled v d g" and "swap_only ds g g'"
  shows "shows_filled v d g'"
proof -
  let ?l = "xs @ d # ds"
  obtain b ci where b: "front_of d = Inr b" "painted v g (as_dev b)" "crtc_conf g (flip_crtc d) = Some ci" "buffer_id ci = buf_fb b"
    using assms(2) by (auto simp: shows_filled_def)
  have own: "owns g (all_bufs ?l)" "distinct (map flip_crtc ?l)" using running_owns [OF assms(1)] running_crtcs [OF assms(1)] .
  have bd: "b \<in> set (bufs d)" using running_dev [OF assms(1), of d] b(1) by (metis in_set_conv_decomp sum.inject(2))
  have "buf_handle b' \<noteq> buf_handle b" if e: "e \<in> set ds" "back_buf e = Inr b'" for e b'
  proof
    assume h: "buf_handle b' = buf_handle b"
    have b': "b' \<in> set (bufs e)" using running_dev [OF assms(1), of e] e by (metis in_set_conv_decomp Un_iff list.set_intros(2) set_append sum.inject(2))
    have "b' = b" using owns_inj [OF own(1)] buf_in_all [of e ?l b'] buf_in_all [of d ?l b] e(1) b' bd h by simp
    then have "e = d" using own_buf [of ?l e d b' b] own(1) e(1) b' bd by (simp add: owns_def)
    then show False using e(1) own(2) by auto
  qed
  then have "maps g' (buf_handle b) = maps g (buf_handle b)" using assms(3) unfolding swap_only_def by blast
  moreover have "crtc_conf g' (flip_crtc d) = Some ci" using assms(3) b(3) own(2) by (auto simp: swap_only_def)
  ultimately show ?thesis using b by (auto simp: shows_filled_def painted_def)
qed

lemma swap_devs_runs:
  "running c res g0 (xs @ ds) (card_state s) \<Longrightarrow>
   \<exists>ds' g. swap_devs c v ds s = Inr (ds', s\<lparr>card_state := g\<rparr>) \<and> running c res g0 (xs @ ds') g \<and>
     (clear (xs @ ds) Map.empty (card_state s) \<longrightarrow> clear (xs @ ds') Map.empty g) \<and>
     swap_only ds (card_state s) g \<and> (set_works c \<longrightarrow> (\<forall>d \<in> set ds'. shows_filled v d g))"
proof (induction ds arbitrary: xs s)
  case Nil
  then show ?case by (intro exI [of _ "[]"] exI [of _ "card_state s"]) (simp add: returnS_def swap_only_def)
next
  case (Cons d ds)
  obtain d' g where 1: "swap_dev c v d s = Inr (d', s\<lparr>card_state := g\<rparr>)" "running c res g0 (xs @ d' # ds) g"
    "clear (xs @ d # ds) Map.empty (card_state s) \<longrightarrow> clear (xs @ d' # ds) Map.empty g"
    "swap_only [d] (card_state s) g" "set_works c \<longrightarrow> shows_filled v d' g"
    using swap_dev_runs [OF Cons.prems] by blast
  obtain ds' g' where 2: "swap_devs c v ds (s\<lparr>card_state := g\<rparr>) = Inr (ds', s\<lparr>card_state := g'\<rparr>)"
    "running c res g0 ((xs @ [d']) @ ds') g'" "clear ((xs @ [d']) @ ds) Map.empty g \<longrightarrow> clear ((xs @ [d']) @ ds') Map.empty g'"
    "swap_only ds g g'" "set_works c \<longrightarrow> (\<forall>d \<in> set ds'. shows_filled v d g')"
    using Cons.IH [of "xs @ [d']" "s\<lparr>card_state := g\<rparr>"] 1(2) by auto
  have "swap_devs c v (d # ds) s = Inr (d' # ds', s\<lparr>card_state := g'\<rparr>)" using 1(1) 2(1) by (simp add: bindS_def returnS_def)
  moreover have "set_works c \<longrightarrow> (\<forall>d \<in> set (d' # ds'). shows_filled v d g')" using shows_filled_on [OF 1(2) _ 2(4)] 1(5) 2(5) by auto
  ultimately show ?case using 1(3) 2(2,3) swap_only_trans [OF 1(4) 2(4)] by auto
qed

text \<open>A pass over all devices leaves what is on the screen as it is.\<close>

lemma swap_only_kept:
  assumes "running c res g0 l g" and "clear l Map.empty g" and "swap_only l g g'"
  shows "kept g g'"
proof -
  have "maps g' h = maps g h" if h: "on_screen g h" for h
  proof -
    have "buf_handle b \<noteq> h" if "d \<in> set l" "back_buf d = Inr b" for d b
      using back_unseen [OF assms(1,2) that(1) refl that(2)] h by auto
    then show ?thesis using assms(3) by (simp add: swap_only_def)
  qed
  then show ?thesis by (simp add: kept_def)
qed

lemma color_runs: "\<exists>x. on_card (next_color c up cur md) s = Inr (x, s\<lparr>card_state := (card_state s)\<lparr>rands := rands (card_state s) + 1\<rparr>\<rparr>)"
  by (simp add: on_card_def next_color_def Let_def)

lemma rand_runs: "\<exists>x. on_card (rand_byte c) s = Inr (x, s\<lparr>card_state := (card_state s)\<lparr>rands := rands (card_state s) + 1\<rparr>\<rparr>)"
  by (simp add: on_card_def rand_byte_def)

text \<open>Three colours, and nothing but the number of random numbers is different.\<close>

lemma three_colors:
  obtains r' g' b' n where "\<And>k. bindS (on_card (next_color c ru r 20)) (\<lambda>r. bindS (on_card (next_color c gu g 10)) (\<lambda>g.
     bindS (on_card (next_color c bu b 5)) (\<lambda>b. k r g b))) s = k r' g' b' (s\<lparr>card_state := (card_state s)\<lparr>rands := n\<rparr>\<rparr>)"
  by (simp add: bindS_def on_card_def next_color_def Let_def)

lemma swap_rounds_runs:
  "running c res g0 (flip_list s) (card_state s) \<Longrightarrow>
   \<exists>l g. swap_rounds c n r gr b s = Inr ((), s\<lparr>card_state := g, flip_list := l\<rparr>) \<and> running c res g0 l g \<and>
     (clear (flip_list s) Map.empty (card_state s) \<longrightarrow> clear l Map.empty g)"
proof (induction n arbitrary: r gr b s)
  case 0
  then show ?case by (intro exI [of _ "flip_list s"] exI [of _ "card_state s"]) (simp add: returnS_def)
next
  case (Suc n)
  obtain r1 g1 b1 m where c: "\<And>k :: byte \<times> bool \<Rightarrow> byte \<times> bool \<Rightarrow> byte \<times> bool \<Rightarrow> unit fm. bindS (on_card (next_color c (snd r) (fst r) 20)) (\<lambda>r. bindS (on_card (next_color c (snd gr) (fst gr) 10)) (\<lambda>g.
     bindS (on_card (next_color c (snd b) (fst b) 5)) (\<lambda>b. k r g b))) s = k r1 g1 b1 (s\<lparr>card_state := (card_state s)\<lparr>rands := m\<rparr>\<rparr>)"
    by (rule three_colors [where s = s]) blast
  let ?s = "s\<lparr>card_state := (card_state s)\<lparr>rands := m\<rparr>\<rparr>"
  obtain ds g where d: "swap_devs c (color_word (fst r1) (fst g1) (fst b1)) (flip_list s) ?s = Inr (ds, ?s\<lparr>card_state := g\<rparr>)"
    "running c res g0 ds g" "clear (flip_list s) Map.empty (card_state ?s) \<longrightarrow> clear ds Map.empty g"
    using swap_devs_runs [of c res g0 "[]" "flip_list s" ?s "color_word (fst r1) (fst g1) (fst b1)"] running_rands [OF Suc.prems] by auto
  let ?s2 = "s\<lparr>card_state := g, flip_list := ds\<rparr>"
  have e: "swap_rounds c (Suc n) r gr b s = swap_rounds c n r1 g1 b1 ?s2"
    unfolding swap_rounds.simps c by (simp add: bindS_def d(1) fupd_def)
  obtain l g' where l: "swap_rounds c n r1 g1 b1 ?s2 = Inr ((), ?s2\<lparr>card_state := g', flip_list := l\<rparr>)" "running c res g0 l g'"
    "clear ds Map.empty g \<longrightarrow> clear l Map.empty g'" using Suc.IH [of ?s2 r1 g1 b1] d(2) by auto
  have "clear (flip_list s) Map.empty (card_state s) \<longrightarrow> clear l Map.empty g'"
    using d(3) l(3) clear_cong [of "card_state ?s" "card_state s"] by simp
  then show ?case using e l(1,2) by auto
qed

lemma double_draw_runs:
  assumes "running c res g0 (flip_list s) (card_state s)"
  shows "\<exists>l g. double_draw c s = Inr ((), s\<lparr>card_state := g, flip_list := l\<rparr>) \<and> running c res g0 l g \<and>
     (clear (flip_list s) Map.empty (card_state s) \<longrightarrow> clear l Map.empty g)"
proof -
  obtain x y z m where "double_draw c s = swap_rounds c 50 x y z (s\<lparr>card_state := (card_state s)\<lparr>rands := m\<rparr>\<rparr>)"
    by (simp add: double_draw_def bindS_def on_card_def rand_byte_def)
  then show ?thesis
    using swap_rounds_runs [of c res g0 "s\<lparr>card_state := (card_state s)\<lparr>rands := m\<rparr>\<rparr>" 50 x y z] running_rands [OF assms]
    by (auto simp: clear_def hidden_back_def)
qed

subsection \<open>Cleaning up\<close>

lemma give_back:
  assumes "all_restorable c res g0" and "running c res g0 (d # l) (card_state s)"
  obtains ci g1 g2 where "flip_saved d = Some ci" "\<And>ks. on_card (set_crtc c ci ks) s = Inr (Inr (), s\<lparr>card_state := g1\<rparr>)"
    "free_dev d (s\<lparr>card_state := g1\<rparr>) = Inr ((), s\<lparr>card_state := g2, taken := None\<rparr>)" "running c res g0 l g2"
proof -
  obtain ci where ci: "flip_saved d = Some ci" "crtc_conf g0 (flip_crtc d) = Some ci"
    "\<And>g ks. set_of c g ci ks = Inr ((crtc_conf g)(flip_crtc d := Some ci))"
    using running_restorable [OF assms list.set_intros(1)] by blast
  define g1 where "g1 = (card_state s)\<lparr>crtc_conf := (crtc_conf (card_state s))(flip_crtc d := Some ci)\<rparr>"
  have 1: "on_card (set_crtc c ci ks) s = Inr (Inr (), s\<lparr>card_state := g1\<rparr>)" for ks
    by (simp add: on_card_def set_crtc_def ci(3) crtcs_view_def g1_def)
  have "devs_hold c res (d # l) (card_state (s\<lparr>card_state := g1\<rparr>))"
    using assms(2) by (simp add: g1_def running_def devs_hold_def owns_def)
  from free_dev_runs [OF this ci(1)] obtain g2 where 2: "free_dev d (s\<lparr>card_state := g1\<rparr>) = Inr ((), s\<lparr>card_state := g2, taken := None\<rparr>)"
    "devs_hold c res l g2" "objs g2 = objs g1 - 1" "fds g2 = fds g1" "crtc_conf g2 = crtc_conf g1" by auto
  have "running c res g0 l g2" using assms(2) 2(2-5) ci(2) by (auto simp: running_def g1_def)
  then show thesis using that ci(1) 1 2(1) by blast
qed

lemma double_cleanup_runs:
  assumes "all_restorable c res g0"
  shows "running c res g0 ds (card_state s) \<Longrightarrow> flip_list s = ds \<Longrightarrow> taken s = None \<Longrightarrow>
    \<exists>g. double_cleanup_loop c ds s = Inr ((), s\<lparr>card_state := g, flip_list := []\<rparr>) \<and> running c res g0 [] g"
proof (induction ds arbitrary: s)
  case Nil
  then show ?case by (intro exI [of _ "card_state s"]) (simp add: returnS_def)
next
  case (Cons d ds)
  let ?s = "s\<lparr>taken := Some d, flip_list := ds\<rparr>"
  obtain ci g1 g2 where b: "flip_saved d = Some ci" "\<And>ks. on_card (set_crtc c ci ks) ?s = Inr (Inr (), ?s\<lparr>card_state := g1\<rparr>)"
    "free_dev d (?s\<lparr>card_state := g1\<rparr>) = Inr ((), ?s\<lparr>card_state := g2, taken := None\<rparr>)" "running c res g0 ds g2"
    using give_back [OF assms, of d ds ?s] Cons.prems(1) by auto
  let ?s2 = "s\<lparr>card_state := g2, flip_list := ds\<rparr>"
  have "?s\<lparr>card_state := g2, taken := None\<rparr> = ?s2" using Cons.prems(3) by simp
  then have "double_cleanup_loop c (d # ds) s = double_cleanup_loop c ds ?s2"
    using b(1-3) by (simp add: take_dev_def count_simps bindS_def [of "on_card m" for m] bindS_def [of "free_dev d"])
  then show ?case using Cons.IH [of ?s2] b(4) Cons.prems(3) by auto
qed

interpretation double: flip_program "\<lambda>c _. double_draw c" "\<lambda>c _. double_cleanup c" "\<lambda>_ :: unit. True"
  "\<lambda>_ s. scheduled s = Map.empty \<and> flip_queue s = []"
proof (unfold_locales, goal_cases)
  case (1 w c res g0 s)
  then show ?case using double_draw_runs [of c res g0 s] by (auto simp: ready_def)
next
  case (2 w c res g0 s)
  then show ?case using double_cleanup_runs [of c res g0 "flip_list s" s] by (auto simp: double_cleanup_def)
qed

end
