(* ===== verification/VSyncSpec.thy ===== *)
theory VSyncSpec
  imports VSync FlipScreen
begin

unbundle bit_operations_syntax

text \<open>
  The page flips of \<open>modeset-vsync.c\<close>: for every device whose flip is on its way the kernel has either the
  flip or its event, for the others neither; and the buffers that are drawn into are on no screen.
\<close>

subsection \<open>Flips and devices\<close>

definition flip_state :: "u32 list \<Rightarrow> (u32 \<Rightarrow> u32 option) \<Rightarrow> flip_dev \<Rightarrow> bool" where
  "flip_state q sch d =
     (let x = flip_crtc d in
      if pflip_pending d then
        (if x \<in> set q then sch x = None else \<exists>f. front_of d = Inr f \<and> sch x = Some (buf_fb f))
      else x \<notin> set q \<and> sch x = None)"

definition flips_ok :: "u32 list \<Rightarrow> (u32 \<Rightarrow> u32 option) \<Rightarrow> flip_dev list \<Rightarrow> bool" where
  "flips_ok q sch l =
     (distinct q \<and> (\<forall>x. x \<in> set q \<or> sch x \<noteq> None \<longrightarrow> x \<in> flip_crtc ` set l) \<and> (\<forall>d \<in> set l. flip_state q sch d))"

definition flying :: "card \<Rightarrow> resources \<Rightarrow> gpu \<Rightarrow> flip_gpu \<Rightarrow> bool" where
  "flying c res g0 s = (running c res g0 (live s) (card_state s) \<and> flips_ok (flip_queue s) (scheduled s) (live s))"

text \<open>
  What an event does to the device that is being cleaned up, and the number of the others; and no flip is asked for while the
  last one of the CRTC is on its way.
\<close>

definition evolves :: "u32 list \<Rightarrow> flip_gpu \<Rightarrow> flip_gpu \<Rightarrow> bool" where
  "evolves xs s s' =
     (length (flip_list s') = length (flip_list s) \<and> busy_calls s' = busy_calls s \<and> (taken s = None \<longrightarrow> taken s' = None) \<and>
      (\<forall>d. taken s = Some d \<longrightarrow> (\<exists>d'. taken s' = Some d' \<and> keeps_dev d d' \<and>
         (cleanup d \<longrightarrow> pflip_pending d' = (pflip_pending d \<and> flip_crtc d \<notin> set xs)))))"

lemma evolves_refl: "evolves [] s s"
  by (simp add: evolves_def)

lemma evolves_trans:
  assumes "evolves xs s1 s2" and "evolves ys s2 s3"
  shows "evolves (xs @ ys) s1 s3"
proof -
  have "\<exists>d3. taken s3 = Some d3 \<and> keeps_dev d d3 \<and> (cleanup d \<longrightarrow> pflip_pending d3 = (pflip_pending d \<and> flip_crtc d \<notin> set (xs @ ys)))"
    if d: "taken s1 = Some d" for d
  proof -
    obtain d2 where d2: "taken s2 = Some d2" "keeps_dev d d2" "cleanup d \<longrightarrow> pflip_pending d2 = (pflip_pending d \<and> flip_crtc d \<notin> set xs)"
      using assms(1) d by (auto simp: evolves_def)
    obtain d3 where d3: "taken s3 = Some d3" "keeps_dev d2 d3" "cleanup d2 \<longrightarrow> pflip_pending d3 = (pflip_pending d2 \<and> flip_crtc d2 \<notin> set ys)"
      using assms(2) d2(1) by (auto simp: evolves_def)
    have "cleanup d2 = cleanup d" "flip_crtc d2 = flip_crtc d" using d2(2) by (simp_all add: keeps_dev_def)
    then show ?thesis using d2(3) d3 keeps_trans [OF d2(2) d3(2)] by auto
  qed
  then show ?thesis using assms by (auto simp: evolves_def)
qed

text \<open>Storing a device.\<close>

definition stored :: "flip_dev \<Rightarrow> flip_gpu \<Rightarrow> flip_gpu" where
  "stored d s = s\<lparr>taken := map_option (store_in d) (taken s), flip_list := map (store_in d) (flip_list s)\<rparr>"

lemma put_dev_runs: "put_dev d s = Inr ((), stored d s)"
  by (simp add: put_dev_def fupd_def stored_def)

lemma stored_simps [simp]:
  "live (stored d s) = map (store_in d) (live s)" "card_state (stored d s) = card_state s" "scheduled (stored d s) = scheduled s"
  "flip_queue (stored d s) = flip_queue s" "ticks (stored d s) = ticks s" "busy_calls (stored d s) = busy_calls s"
  by (simp_all add: stored_def live_def split: option.splits)

lemma get_dev_runs:
  assumes "distinct (map flip_crtc (live s))" and "d \<in> set (live s)"
  shows "get_dev (flip_crtc d) s = Inr (d, s)"
proof -
  have "find (\<lambda>e. flip_crtc e = flip_crtc d) l = Some d" if "distinct (map flip_crtc l)" "d \<in> set l" for l
    using that by (induction l) (auto simp: image_iff)
  then show ?thesis using assms by (simp add: get_dev_def)
qed

lemma stored_in:
  assumes "distinct (map flip_crtc l)" and "d \<in> set l" and "flip_crtc d' = flip_crtc d" and "e \<in> set l"
  shows "store_in d' e = (if e = d then d' else e)"
  using assms by (auto simp: store_in_def distinct_map dest: inj_onD)

lemma stored_all2:
  assumes "distinct (map flip_crtc l)" and "d \<in> set l" and "keeps_dev d d'"
  shows "list_all2 keeps_dev l (map (store_in d') l)"
proof -
  have "flip_crtc d' = flip_crtc d" using assms(3) by (simp add: keeps_dev_def)
  from stored_in [OF assms(1,2) this] assms(3) show ?thesis
    by (simp add: list_all2_map2 list_all2_same)
qed

lemma stored_evolves:
  assumes "distinct (map flip_crtc (live s))" and "d \<in> set (live s)" and "keeps_dev d d'" and "cleanup d \<Longrightarrow> \<not> pflip_pending d'"
  shows "evolves [flip_crtc d] s (stored d' s)"
proof -
  have x: "flip_crtc d' = flip_crtc d" using assms(3) by (simp add: keeps_dev_def)
  have "\<exists>e'. taken (stored d' s) = Some e' \<and> keeps_dev e e' \<and> (cleanup e \<longrightarrow> pflip_pending e' = (pflip_pending e \<and> flip_crtc e \<notin> set [flip_crtc d]))"
    if t: "taken s = Some e" for e
  proof -
    have e: "e \<in> set (live s)" using t by (simp add: live_def)
    have "store_in d' e = (if e = d then d' else e)" using stored_in [OF assms(1,2) x e] .
    moreover have "flip_crtc e \<noteq> flip_crtc d" if "e \<noteq> d"
      using that e assms(1,2) by (auto simp: distinct_map dest: inj_onD)
    ultimately show ?thesis using t assms(3,4) by (auto simp: stored_def)
  qed
  then show ?thesis by (auto simp: evolves_def stored_def)
qed

subsection \<open>Drawing one device\<close>

lemma clear_keep:
  assumes "clear l sch g" and "crtc_conf g' = crtc_conf g"
    and "\<And>e'. e' \<in> set l' \<Longrightarrow> \<exists>e \<in> set l. bufs e' = bufs e \<and> flip_crtc e' = flip_crtc e \<and>
           (sch' (flip_crtc e) = None \<longrightarrow> sch (flip_crtc e) = None \<and> front_buf e' = front_buf e)"
  shows "clear l' sch' g'"
proof -
  have "x = flip_crtc e'" if "e' \<in> set l'" "b \<in> set (bufs e')" "crtc_conf g x = Some ci" "buffer_id ci = buf_fb b" for e' b x ci
    using assms(3) [OF that(1)] assms(1) that(2-4) by (auto simp: clear_def)
  moreover have "hidden_back g e'" if e': "e' \<in> set l'" "sch' (flip_crtc e') = None" for e'
  proof -
    obtain e where e: "e \<in> set l" "bufs e' = bufs e" "flip_crtc e' = flip_crtc e" "sch (flip_crtc e) = None" "front_buf e' = front_buf e"
      using assms(3) [OF e'(1)] e'(2) by metis
    then have "hidden_back g e" using assms(1) by (simp add: clear_def)
    then show ?thesis using e by (simp add: hidden_back_def back_buf_def)
  qed
  ultimately show ?thesis by (simp add: clear_def assms(2) hidden_back_def)
qed

lemma page_flip_cases:
  assumes "scheduled s x = None"
  shows "(\<exists>e. page_flip w x f s = Inr (Inl e, s)) \<or> page_flip w x f s = Inr (Inr (), s\<lparr>scheduled := (scheduled s)(x := Some f)\<rparr>)"
  using assms by (cases "flip_of w s x f") (simp_all add: page_flip_def)

lemma morph_runs: "\<exists>r g b n. morph_dev c d s = Inr (d\<lparr>red := r, green := g, blue := b\<rparr>, s\<lparr>card_state := (card_state s)\<lparr>rands := n\<rparr>\<rparr>)"
proof -
  obtain r where 1: "on_card (next_color c (snd (red d)) (fst (red d)) 20) s = Inr (r, s\<lparr>card_state := (card_state s)\<lparr>rands := rands (card_state s) + 1\<rparr>\<rparr>)"
    using color_runs by blast
  let ?s1 = "s\<lparr>card_state := (card_state s)\<lparr>rands := rands (card_state s) + 1\<rparr>\<rparr>"
  obtain g where 2: "on_card (next_color c (snd (green d)) (fst (green d)) 10) ?s1 =
      Inr (g, ?s1\<lparr>card_state := (card_state ?s1)\<lparr>rands := rands (card_state ?s1) + 1\<rparr>\<rparr>)" using color_runs by blast
  let ?s2 = "?s1\<lparr>card_state := (card_state ?s1)\<lparr>rands := rands (card_state ?s1) + 1\<rparr>\<rparr>"
  obtain b where 3: "on_card (next_color c (snd (blue d)) (fst (blue d)) 5) ?s2 =
      Inr (b, ?s2\<lparr>card_state := (card_state ?s2)\<lparr>rands := rands (card_state ?s2) + 1\<rparr>\<rparr>)" using color_runs by blast
  have "morph_dev c d s = Inr (d\<lparr>red := r, green := g, blue := b\<rparr>, s\<lparr>card_state := (card_state s)\<lparr>rands := rands (card_state s) + 3\<rparr>\<rparr>)"
    using 2 3 by (simp add: morph_dev_def bindS_def 1 returnS_def numeral_3_eq_3)
  then show ?thesis by blast
qed

definition drawn_to :: "flip_gpu \<Rightarrow> flip_dev \<Rightarrow> flip_dev \<Rightarrow> (u32 \<Rightarrow> u32 option) \<Rightarrow> bool" where
  "drawn_to s d d' sch =
     (keeps_dev d d' \<and>
      (sch = scheduled s \<and> pflip_pending d' = pflip_pending d \<and> front_buf d' = front_buf d \<or>
       pflip_pending d' \<and> (\<exists>f. front_of d' = Inr f \<and> sch = (scheduled s)(flip_crtc d := Some (buf_fb f)))))"

definition repainted :: "card \<Rightarrow> resources \<Rightarrow> gpu \<Rightarrow> flip_dev list \<Rightarrow> (u32 \<Rightarrow> u32 option) \<Rightarrow> gpu \<Rightarrow> gpu \<Rightarrow> bool" where
  "repainted c res g0 l sch g g' =
     (running c res g0 l g' \<and> crtc_conf g' = crtc_conf g \<and> fbs g' = fbs g \<and> (clear l sch g \<longrightarrow> kept g g'))"

lemma repainted_silent:
  assumes "repainted c res g0 l sch g g'"
  shows "repainted c res g0 l sch g (g'\<lparr>merr := t\<rparr>)"
proof -
  have "silent g' (g'\<lparr>merr := t\<rparr>)" unfolding silent_def by blast
  then show ?thesis using assms running_silent by (auto simp: repainted_def kept_def)
qed

lemma repainted_rands:
  assumes "repainted c res g0 l sch (g\<lparr>rands := n\<rparr>) g'"
  shows "repainted c res g0 l sch g g'"
  using assms clear_cong [of "g\<lparr>rands := n\<rparr>" g l sch] by (simp add: repainted_def kept_def on_screen_def)

lemma draw_dev_runs:
  assumes "running c res g0 l (card_state s)" and "d0 \<in> set l" and "bufs d = bufs d0" and "front_buf d = front_buf d0"
    and "flip_crtc d = flip_crtc d0" and "scheduled s (flip_crtc d) = None"
  shows "\<exists>d' g sch. modeset_draw_dev c w d s = Inr (d', s\<lparr>card_state := g, scheduled := sch\<rparr>) \<and> drawn_to s d d' sch \<and>
    repainted c res g0 l (scheduled s) (card_state s) g"
proof -
  obtain r gr b n where m: "morph_dev c d s = Inr (d\<lparr>red := r, green := gr, blue := b\<rparr>, s\<lparr>card_state := (card_state s)\<lparr>rands := n\<rparr>\<rparr>)"
    using morph_runs by blast
  let ?d = "d\<lparr>red := r, green := gr, blue := b\<rparr>" and ?s = "s\<lparr>card_state := (card_state s)\<lparr>rands := n\<rparr>\<rparr>"
  have run: "running c res g0 l (card_state ?s)" using running_rands [OF assms(1)] by simp
  obtain bb where bb: "back_buf d0 = Inr bb" "bb \<in> set (bufs d0)" using running_dev [OF run assms(2)] by metis
  have bk: "back_buf ?d = Inr bb" using bb(1) assms(3,4) by (simp add: back_buf_def)
  obtain g1 where g1: "fill_buf bb (dev_color ?d) ?s = Inr ((), ?s\<lparr>card_state := g1\<rparr>)" "filled bb (dev_color ?d) (card_state ?s) g1" "owns g1 (all_bufs l)"
    using fill_buf_runs [OF running_owns [OF run] buf_in_all [OF assms(2) bb(2)]] by blast
  have rep: "repainted c res g0 l (scheduled s) (card_state s) g1"
  proof (rule repainted_rands [where n = n])
    note k = fill_clear [OF run assms(2) bb(1) g1(2,3)]
    show "repainted c res g0 l (scheduled s) ((card_state s)\<lparr>rands := n\<rparr>) g1"
      using k(1-3) k(4) [of "scheduled s"] assms(5,6) by (simp add: repainted_def)
  qed
  let ?s1 = "s\<lparr>card_state := g1\<rparr>"
  have fx: "flip_crtc ?d = flip_crtc d" "?s\<lparr>card_state := g1\<rparr> = ?s1" by simp_all
  have e: "modeset_draw_dev c w d s = bindS (page_flip w (flip_crtc d) (buf_fb bb)) (\<lambda>r. case r of
       Inl e \<Rightarrow>
         bindS (on_card (say ''cannot flip CRTC for connector %u (%d): %s\<newline>'' ([AInt (flip_conn ?d)] @ errno_args c e))) (\<lambda>_. returnS ?d)
     | Inr _ \<Rightarrow> returnS (?d\<lparr>front_buf := front_buf ?d XOR 1, pflip_pending := True\<rparr>)) ?s1"
    by (simp only: modeset_draw_dev_def bindS_def [of "morph_dev c d"] m bk bindS_def [of "fill_buf bb v" for v] g1(1) fx
      bindE_simps prod.case liftS_simps bindS_returnS)
  have f0: "front_buf d0 \<in> {0, 1}" using assms(1,2) by (simp add: running_def)
  show ?thesis
  proof (cases "\<exists>e. page_flip w (flip_crtc d) (buf_fb bb) ?s1 = Inr (Inl e, ?s1)")
    case True
    then obtain e where f: "page_flip w (flip_crtc d) (buf_fb bb) ?s1 = Inr (Inl e, ?s1)" by blast
    let ?m = "on_card (say ''cannot flip CRTC for connector %u (%d): %s\<newline>'' ([AInt (flip_conn ?d)] @ errno_args c e))"
    have fmt: "formats ''cannot flip CRTC for connector %u (%d): %s\<newline>'' ([AInt (flip_conn ?d)] @ errno_args c e)"
      by (simp add: formats_def errno_args_def fmt_eval)
    obtain s2 where s2: "?m ?s1 = Inr ((), s2)" "hushed ?s1 s2" using say_hushed [OF fmt] by blast
    obtain t where t: "s2 = s\<lparr>card_state := g1\<lparr>merr := t\<rparr>\<rparr>" using s2(2) by (auto simp: hushed_def)
    have "modeset_draw_dev c w d s = Inr (?d, s\<lparr>card_state := g1\<lparr>merr := t\<rparr>, scheduled := scheduled s\<rparr>)"
      unfolding e bindS_Inr [where m = "page_flip w (flip_crtc d) (buf_fb bb)", OF f] sum.case bindS_Inr [where m = "?m", OF s2(1)]
      by (simp add: t returnS_def)
    moreover have "drawn_to s d ?d (scheduled s)" by (simp add: drawn_to_def keeps_dev_def)
    ultimately show ?thesis using repainted_silent [OF rep] by blast
  next
    case False
    then have f: "page_flip w (flip_crtc d) (buf_fb bb) ?s1 = Inr (Inr (), ?s1\<lparr>scheduled := (scheduled s)(flip_crtc d := Some (buf_fb bb))\<rparr>)"
      using page_flip_cases [of ?s1 "flip_crtc d" w "buf_fb bb"] assms(6) by auto
    let ?d' = "?d\<lparr>front_buf := front_buf ?d XOR 1, pflip_pending := True\<rparr>"
    have "modeset_draw_dev c w d s = Inr (?d', s\<lparr>card_state := g1, scheduled := (scheduled s)(flip_crtc d := Some (buf_fb bb))\<rparr>)"
      unfolding e bindS_Inr [where m = "page_flip w (flip_crtc d) (buf_fb bb)", OF f] sum.case by (simp add: returnS_def)
    moreover have "front_of ?d' = Inr bb" using bk f0 assms(4) by (auto simp: front_of_def back_buf_def)
    then have "drawn_to s d ?d' ((scheduled s)(flip_crtc d := Some (buf_fb bb)))"
      using f0 assms(4) by (auto simp: drawn_to_def keeps_dev_def)
    ultimately show ?thesis using rep by blast
  qed
qed

subsection \<open>One event\<close>

lemma flips_replace:
  assumes "flips_ok (x # q) sch l" and "distinct (map flip_crtc l)" and "d \<in> set l" and "flip_crtc d = x" and "flip_crtc d' = x"
    and "sch' = sch \<and> \<not> pflip_pending d' \<or> pflip_pending d' \<and> (\<exists>f. front_of d' = Inr f \<and> sch' = sch(x := Some (buf_fb f)))"
  shows "flips_ok q sch' (map (store_in d') l)"
proof -
  have q: "x \<notin> set q" "distinct q" using assms(1) by (auto simp: flips_ok_def)
  have "flip_state (x # q) sch d" using assms(1,3) by (simp add: flips_ok_def)
  then have sx: "sch x = None" using assms(4) by (auto simp: flip_state_def Let_def split: if_splits)
  have "flip_state q sch' (store_in d' e)" if e: "e \<in> set l" for e
  proof (cases "e = d")
    case True
    then show ?thesis using stored_in [OF assms(2,3) _ e] assms(4-6) q(1) sx by (auto simp: flip_state_def Let_def)
  next
    case False
    then have "flip_crtc e \<noteq> x" using e assms(2-4) by (auto simp: distinct_map dest: inj_onD)
    moreover have "flip_state (x # q) sch e" using assms(1) e by (simp add: flips_ok_def)
    ultimately have "flip_state q sch e" "sch' (flip_crtc e) = sch (flip_crtc e)" using assms(6) by (auto simp: flip_state_def Let_def split: if_splits)
    then show ?thesis using False stored_in [OF assms(2,3) _ e] assms(4,5) by (simp add: flip_state_def Let_def)
  qed
  moreover have crtcs: "map flip_crtc (map (store_in d') l) = map flip_crtc l" using assms(4,5) by (simp add: store_in_def)
  then have "flip_crtc ` set (map (store_in d') l) = flip_crtc ` set l" by (metis list.set_map)
  moreover have "y \<in> flip_crtc ` set l" if "y \<in> set q \<or> sch' y \<noteq> None" for y
    using that assms(1,3,4,6) by (cases "y = x") (auto simp: flips_ok_def)
  ultimately show ?thesis using q(2) by (auto simp: flips_ok_def)
qed

definition step_ok :: "card \<Rightarrow> resources \<Rightarrow> gpu \<Rightarrow> flip_gpu \<Rightarrow> flip_gpu \<Rightarrow> bool" where
  "step_ok c res g0 s s' =
     (running c res g0 (live s') (card_state s') \<and> crtc_conf (card_state s') = crtc_conf (card_state s) \<and>
      fbs (card_state s') = fbs (card_state s) \<and> flip_queue s' = flip_queue s \<and> ticks s' = ticks s \<and>
      (clear (live s) (scheduled s) (card_state s) \<longrightarrow>
         clear (live s') (scheduled s') (card_state s') \<and> kept (card_state s) (card_state s')))"

lemma step_ok_refl: "running c res g0 (live s) (card_state s) \<Longrightarrow> step_ok c res g0 s s"
  by (simp add: step_ok_def kept_def)

lemma step_ok_trans: "step_ok c res g0 s1 s2 \<Longrightarrow> step_ok c res g0 s2 s3 \<Longrightarrow> step_ok c res g0 s1 s3"
  by (auto simp: step_ok_def kept_def on_screen_def)

text \<open>The device d of the state s, which is drawn or not, becomes d'.\<close>

lemma stored_step:
  assumes "running c res g0 (live s) (card_state s)" and "d \<in> set (live s)" and "scheduled s (flip_crtc d) = None"
    and "repainted c res g0 (live s) (scheduled s) (card_state s) g" and "keeps_dev d d'"
    and "sch = scheduled s \<and> front_buf d' = front_buf d \<or> (\<exists>f. sch = (scheduled s)(flip_crtc d := Some f))"
  shows "step_ok c res g0 s (stored d' (s\<lparr>card_state := g, scheduled := sch\<rparr>))"
proof -
  have dist: "distinct (map flip_crtc (live s))" using running_crtcs [OF assms(1)] .
  have l: "live (s\<lparr>card_state := g, scheduled := sch\<rparr>) = live s" by (simp add: live_def)
  have rep: "running c res g0 (live s) g" "crtc_conf g = crtc_conf (card_state s)" "fbs g = fbs (card_state s)"
    "clear (live s) (scheduled s) (card_state s) \<Longrightarrow> kept (card_state s) g" using assms(4) by (simp_all add: repainted_def)
  have x: "flip_crtc d' = flip_crtc d" using assms(5) by (simp add: keeps_dev_def)
  have "running c res g0 (map (store_in d') (live s)) g" using running_keeps [OF rep(1) stored_all2 [OF dist assms(2,5)]] .
  moreover have "clear (map (store_in d') (live s)) sch g" if "clear (live s) (scheduled s) (card_state s)"
  proof (rule clear_keep [OF that rep(2)])
    fix e' assume "e' \<in> set (map (store_in d') (live s))"
    then obtain e where e: "e \<in> set (live s)" "e' = store_in d' e" by auto
    have "bufs e' = bufs e \<and> flip_crtc e' = flip_crtc e \<and>
           (sch (flip_crtc e) = None \<longrightarrow> scheduled s (flip_crtc e) = None \<and> front_buf e' = front_buf e)"
      using stored_in [OF dist assms(2) x e(1)] e assms(3,5,6) by (cases "e = d") (auto simp: keeps_dev_def split: if_splits)
    then show "\<exists>e \<in> set (live s). bufs e' = bufs e \<and> flip_crtc e' = flip_crtc e \<and>
           (sch (flip_crtc e) = None \<longrightarrow> scheduled s (flip_crtc e) = None \<and> front_buf e' = front_buf e)" using e(1) by (rule bexI)
  qed
  ultimately show ?thesis using rep by (auto simp: step_ok_def l)
qed

lemma event_runs:
  assumes "running c res g0 (live s) (card_state s)" and "flips_ok (x # q) (scheduled s) (live s)"
  shows "\<exists>s'. modeset_page_flip_event c w x s = Inr ((), s') \<and> step_ok c res g0 s s' \<and> flips_ok q (scheduled s') (live s') \<and> evolves [x] s s'"
proof -
  have dist: "distinct (map flip_crtc (live s))" using running_crtcs [OF assms(1)] .
  obtain d where d: "d \<in> set (live s)" "flip_crtc d = x" using assms(2) by (auto simp: flips_ok_def)
  have "flip_state (x # q) (scheduled s) d" using assms(2) d(1) by (simp add: flips_ok_def)
  then have st: "scheduled s (flip_crtc d) = None" using d(2) by (auto simp: flip_state_def Let_def split: if_splits)
  have get: "get_dev x s = Inr (d, s)" using get_dev_runs [OF dist d(1)] d(2) by simp
  let ?d = "d\<lparr>pflip_pending := False\<rparr>"
  show ?thesis
  proof (cases "cleanup d")
    case True
    have "modeset_page_flip_event c w x s = Inr ((), stored ?d s)"
      using True by (simp add: modeset_page_flip_event_def bindS_def get put_dev_runs)
    moreover have "repainted c res g0 (live s) (scheduled s) (card_state s) (card_state s)" using assms(1) by (simp add: repainted_def kept_def)
    from stored_step [OF assms(1) d(1) st this, of ?d "scheduled s"] have "step_ok c res g0 s (stored ?d s)" by (simp add: keeps_dev_def)
    moreover have "flips_ok q (scheduled (stored ?d s)) (live (stored ?d s))"
      using flips_replace [OF assms(2) dist d, where d' = ?d and sch' = "scheduled s"] d(2) by simp
    moreover have "evolves [x] s (stored ?d s)" using stored_evolves [OF dist d(1), of ?d] d(2) by (simp add: keeps_dev_def)
    ultimately show ?thesis by blast
  next
    case False
    obtain d' g sch where r: "modeset_draw_dev c w ?d s = Inr (d', s\<lparr>card_state := g, scheduled := sch\<rparr>)" "drawn_to s ?d d' sch"
      "repainted c res g0 (live s) (scheduled s) (card_state s) g"
      using draw_dev_runs [OF assms(1) d(1), of ?d w] st by auto
    let ?s = "s\<lparr>card_state := g, scheduled := sch\<rparr>"
    have k: "keeps_dev d d'" using r(2) by (simp add: drawn_to_def keeps_dev_def)
    have l: "live ?s = live s" by (simp add: live_def)
    have "modeset_page_flip_event c w x s = Inr ((), stored d' ?s)"
      using False by (simp add: modeset_page_flip_event_def bindS_def get put_dev_runs r(1))
    moreover have "step_ok c res g0 s (stored d' ?s)"
      using r(2) by (intro stored_step [OF assms(1) d(1) st r(3) k]) (auto simp: drawn_to_def)
    moreover have "flips_ok q (scheduled (stored d' ?s)) (live (stored d' ?s))"
      using flips_replace [OF assms(2) dist d, where d' = d' and sch' = sch] r(2) k d(2) by (auto simp: l drawn_to_def keeps_dev_def)
    moreover have "evolves [x] s (stored d' ?s)"
    proof -
      have "evolves [x] s (stored d' s)" using stored_evolves [OF dist d(1) k] False d(2) by simp
      then show ?thesis by (simp add: evolves_def stored_def)
    qed
    ultimately show ?thesis by blast
  qed
qed

lemma dispatch_runs:
  "running c res g0 (live s) (card_state s) \<Longrightarrow> flips_ok (xs @ q) (scheduled s) (live s) \<Longrightarrow>
   \<exists>s'. dispatch c w xs s = Inr ((), s') \<and> step_ok c res g0 s s' \<and> flips_ok q (scheduled s') (live s') \<and> evolves xs s s'"
proof (induction xs arbitrary: s)
  case Nil
  then show ?case by (simp add: returnS_def step_ok_refl evolves_refl)
next
  case (Cons x xs)
  obtain s1 where 1: "modeset_page_flip_event c w x s = Inr ((), s1)" "step_ok c res g0 s s1"
    "flips_ok (xs @ q) (scheduled s1) (live s1)" "evolves [x] s s1" using event_runs [OF Cons.prems(1), of x "xs @ q" w] Cons.prems(2) by auto
  have "running c res g0 (live s1) (card_state s1)" using 1(2) by (simp add: step_ok_def)
  then obtain s2 where 2: "dispatch c w xs s1 = Inr ((), s2)" "step_ok c res g0 s1 s2" "flips_ok q (scheduled s2) (live s2)" "evolves xs s1 s2"
    using Cons.IH [OF _ 1(3)] by blast
  have "dispatch c w (x # xs) s = Inr ((), s2)" using 1(1) 2(1) by (simp add: bindS_def)
  then show ?case using step_ok_trans [OF 1(2) 2(2)] 2(3) evolves_trans [OF 1(4) 2(4)] by auto
qed

subsection \<open>Vertical blanks\<close>

text \<open>What a vertical blank leaves as it is, with the events that it adds.\<close>

definition blanked :: "u32 list \<Rightarrow> flip_gpu \<Rightarrow> flip_gpu \<Rightarrow> bool" where
  "blanked new s s' =
     (taken s' = taken s \<and> flip_list s' = flip_list s \<and> ticks s' = ticks s \<and> busy_calls s' = busy_calls s \<and>
      flip_queue s' = flip_queue s @ new \<and>
      maps (card_state s') = maps (card_state s) \<and> fbs (card_state s') = fbs (card_state s))"

lemma blanked_trans: "blanked n1 s1 s2 \<Longrightarrow> blanked n2 s2 s3 \<Longrightarrow> blanked (n1 @ n2) s1 s3"
  by (simp add: blanked_def)

lemma live_cong: "taken s' = taken s \<Longrightarrow> flip_list s' = flip_list s \<Longrightarrow> live s' = live s"
  by (simp add: live_def)

lemma flips_blank:
  assumes "flips_ok q sch l" and "distinct (map flip_crtc l)" and "sch x = Some f"
  shows "flips_ok (q @ [x]) (sch(x := None)) l" "\<exists>d \<in> set l. flip_crtc d = x \<and> (\<exists>b. front_of d = Inr b \<and> f = buf_fb b)"
proof -
  obtain d where d: "d \<in> set l" "flip_crtc d = x" using assms(1,3) by (auto simp: flips_ok_def)
  have "flip_state q sch d" using assms(1) d(1) by (simp add: flips_ok_def)
  then have st: "pflip_pending d" "x \<notin> set q" "\<exists>b. front_of d = Inr b \<and> f = buf_fb b"
    using d(2) assms(3) by (auto simp: flip_state_def Let_def split: if_splits)
  have "flip_state (q @ [x]) (sch(x := None)) e" if e: "e \<in> set l" for e
  proof (cases "flip_crtc e = x")
    case True
    then have "e = d" using e d assms(2) by (auto simp: distinct_map dest: inj_onD)
    then show ?thesis using st(1) d(2) by (simp add: flip_state_def Let_def)
  next
    case False
    have "flip_state q sch e" using assms(1) e by (simp add: flips_ok_def)
    then show ?thesis using False by (simp add: flip_state_def Let_def)
  qed
  then show "flips_ok (q @ [x]) (sch(x := None)) l" using assms(1) st(2) d by (auto simp: flips_ok_def)
  show "\<exists>d \<in> set l. flip_crtc d = x \<and> (\<exists>b. front_of d = Inr b \<and> f = buf_fb b)" using d st(3) by blast
qed

lemma vblank_runs:
  assumes "flying c res g0 s"
  shows "\<exists>new. flying c res g0 (vblank x s) \<and> blanked new s (vblank x s) \<and> (scheduled s x \<noteq> None \<longrightarrow> x \<in> set new) \<and>
    (\<forall>y. y \<noteq> x \<longrightarrow> scheduled (vblank x s) y = scheduled s y) \<and>
    (clear (live s) (scheduled s) (card_state s) \<longrightarrow> clear (live s) (scheduled (vblank x s)) (card_state (vblank x s)))"
proof (cases "scheduled s x")
  case None
  then show ?thesis using assms by (intro exI [of _ "[]"]) (simp add: vblank_def blanked_def)
next
  case (Some f)
  let ?l = "live s" and ?g = "card_state s" and ?s = "vblank x s"
  have run: "running c res g0 ?l ?g" and ok: "flips_ok (flip_queue s) (scheduled s) ?l" using assms by (simp_all add: flying_def)
  have dist: "distinct (map flip_crtc ?l)" using running_crtcs [OF run] .
  note fl = flips_blank [OF ok dist Some]
  obtain d b where d: "d \<in> set ?l" "flip_crtc d = x" "front_of d = Inr b" "f = buf_fb b" using fl(2) by blast
  let ?conf = "map_option (\<lambda>ci. ci\<lparr>buffer_id := f\<rparr>) (crtc_conf ?g x)"
  have s: "card_state ?s = ?g\<lparr>crtc_conf := (crtc_conf ?g)(x := ?conf)\<rparr>" "scheduled ?s = (scheduled s)(x := None)"
    "flip_queue ?s = flip_queue s @ [x]" "taken ?s = taken s" "flip_list ?s = flip_list s" "ticks ?s = ticks s" "busy_calls ?s = busy_calls s"
    by (simp_all add: vblank_def Some)
  have l: "live ?s = ?l" by (rule live_cong) (simp_all add: s)
  have "running c res g0 ?l (card_state ?s)"
    using run by (rule running_card) (use running_owns [OF run] d in \<open>auto simp: s owns_def\<close>)
  then have "flying c res g0 ?s" using fl(1) by (simp add: flying_def s l)
  moreover have "clear ?l (scheduled ?s) (card_state ?s)" if "clear ?l (scheduled s) ?g"
  proof -
    obtain b' where b': "back_buf d = Inr b'" "b \<in> set (bufs d)" "buf_fb b \<noteq> buf_fb b'" using running_dev [OF run d(1)] d(3) by (metis sum.inject(2))
    show ?thesis
    proof (rule clear_show [OF run that d(1) b'(2)])
      show "crtc_conf (card_state ?s) = (crtc_conf ?g)(flip_crtc d := ?conf)" using d(2) by (simp add: s)
    next
      fix e' assume "e' \<in> set ?l" "flip_crtc e' = flip_crtc d"
      then have "e' = d" using d(1) dist by (auto simp: distinct_map dest: inj_onD)
      then show "hidden_buf e' b" using b' by (simp add: hidden_buf_def)
    qed (use d in \<open>auto simp: s\<close>)
  qed
  ultimately show ?thesis by (intro exI [of _ "[x]"]) (simp add: blanked_def s)
qed

lemma vblanks_run:
  "flying c res g0 s \<Longrightarrow>
   \<exists>new. flying c res g0 (fold vblank xs s) \<and> blanked new s (fold vblank xs s) \<and> (\<forall>x \<in> set xs. scheduled s x \<noteq> None \<longrightarrow> x \<in> set new) \<and>
    (clear (live s) (scheduled s) (card_state s) \<longrightarrow> clear (live s) (scheduled (fold vblank xs s)) (card_state (fold vblank xs s)))"
proof (induction xs arbitrary: s)
  case Nil
  then show ?case by (simp add: blanked_def)
next
  case (Cons x xs)
  obtain n1 where 1: "flying c res g0 (vblank x s)" "blanked n1 s (vblank x s)" "scheduled s x \<noteq> None \<longrightarrow> x \<in> set n1"
    "\<forall>y. y \<noteq> x \<longrightarrow> scheduled (vblank x s) y = scheduled s y"
    "clear (live s) (scheduled s) (card_state s) \<longrightarrow> clear (live s) (scheduled (vblank x s)) (card_state (vblank x s))"
    using vblank_runs [OF Cons.prems, of x] by blast
  have l: "live (vblank x s) = live s" using 1(2) by (intro live_cong) (simp_all add: blanked_def)
  obtain n2 where 2: "flying c res g0 (fold vblank xs (vblank x s))" "blanked n2 (vblank x s) (fold vblank xs (vblank x s))"
    "\<forall>y \<in> set xs. scheduled (vblank x s) y \<noteq> None \<longrightarrow> y \<in> set n2"
    "clear (live s) (scheduled (vblank x s)) (card_state (vblank x s)) \<longrightarrow>
       clear (live s) (scheduled (fold vblank xs (vblank x s))) (card_state (fold vblank xs (vblank x s)))"
    using Cons.IH [OF 1(1)] unfolding l by blast
  have "y \<in> set (n1 @ n2)" if "y \<in> set (x # xs)" "scheduled s y \<noteq> None" for y
    using that 1(3,4) 2(3) by (cases "y = x") auto
  then show ?case using 1(5) 2(1,4) blanked_trans [OF 1(2) 2(2)] by auto
qed

subsection \<open>\<open>drmHandleEvent\<close>\<close>

definition handled :: "world \<Rightarrow> nat \<Rightarrow> u32 list \<Rightarrow> u32 list \<Rightarrow> flip_gpu \<Rightarrow> flip_gpu \<Rightarrow> bool" where
  "handled w n xs new s s' =
     (ticks s' = Suc n \<and> evolves xs s s' \<and> xs @ flip_queue s' = flip_queue s @ new \<and>
      (\<forall>x \<in> set (vblank_of w n). scheduled s x \<noteq> None \<longrightarrow> x \<in> set new) \<and>
      (\<forall>k. read_of w n = Inr k \<longrightarrow> xs = take k (flip_queue s @ new)) \<and>
      (clear (live s) (scheduled s) (card_state s) \<longrightarrow> clear (live s') (scheduled s') (card_state s') \<and>
         (\<forall>h. on_screen (card_state s') h \<longrightarrow> maps (card_state s') h = maps (card_state s) h)))"

lemma flying_queue: "flying c res g0 (s\<lparr>ticks := n\<rparr>) = flying c res g0 s"
  by (simp add: flying_def live_def)

lemma handle_runs:
  assumes "flying c res g0 s"
  shows "\<exists>s' xs new. drmHandleEvent c w s = Inr (case read_of w (ticks s) of Inl _ \<Rightarrow> - 1 | Inr _ \<Rightarrow> 0, s') \<and>
    flying c res g0 s' \<and> handled w (ticks s) xs new s s'"
proof -
  let ?n = "ticks s" and ?s0 = "s\<lparr>ticks := ticks s + 1\<rparr>"
  define s1 where "s1 = fold vblank (vblank_of w ?n) ?s0"
  have l0: "live ?s0 = live s" by (simp add: live_def)
  have "flying c res g0 ?s0" using assms by (simp only: flying_queue)
  from vblanks_run [OF this, of "vblank_of w ?n"] obtain new where 1: "flying c res g0 s1" "blanked new ?s0 s1"
    "\<forall>x \<in> set (vblank_of w ?n). scheduled s x \<noteq> None \<longrightarrow> x \<in> set new"
    "clear (live s) (scheduled s) (card_state s) \<longrightarrow> clear (live s) (scheduled s1) (card_state s1)"
    unfolding l0 s1_def [symmetric] by auto
  have l1: "live s1 = live s" using 1(2) by (intro live_cong) (simp_all add: blanked_def)
  have e: "drmHandleEvent c w s = (case read_of w ?n of
       Inl e \<Rightarrow> returnS (- 1)
     | Inr k \<Rightarrow>
         bindS (\<lambda>s. Inr (take k (flip_queue s), s\<lparr>flip_queue := drop k (flip_queue s)\<rparr>)) (\<lambda>xs.
         bindS (dispatch c w xs) (\<lambda>_. returnS 0))) s1"
    by (simp add: drmHandleEvent_def bindS_def [of next_tick] next_tick_def count_simps s1_def)
  have keep: "\<forall>h. on_screen (card_state s1) h \<longrightarrow> maps (card_state s1) h = maps (card_state s) h" using 1(2) by (simp add: blanked_def)
  show ?thesis
  proof (cases "read_of w ?n")
    case (Inl err)
    have "evolves [] s s1" using 1(2) by (simp add: evolves_def blanked_def)
    then have "handled w ?n [] new s s1" using 1(2-4) keep Inl by (simp add: handled_def blanked_def l1)
    then show ?thesis using e Inl 1(1) by (simp add: returnS_def) blast
  next
    case (Inr k)
    let ?xs = "take k (flip_queue s1)" and ?s2 = "s1\<lparr>flip_queue := drop k (flip_queue s1)\<rparr>"
    have l2: "live ?s2 = live s1" by (simp add: live_def)
    have "running c res g0 (live ?s2) (card_state ?s2)" "flips_ok (?xs @ drop k (flip_queue s1)) (scheduled ?s2) (live ?s2)"
      using 1(1) by (simp_all add: flying_def l2)
    then obtain s3 where 3: "dispatch c w ?xs ?s2 = Inr ((), s3)" "step_ok c res g0 ?s2 s3"
      "flips_ok (drop k (flip_queue s1)) (scheduled s3) (live s3)" "evolves ?xs ?s2 s3" using dispatch_runs by blast
    have q: "flip_queue s1 = flip_queue s @ new" using 1(2) by (simp add: blanked_def)
    have fly: "flying c res g0 s3" using 3(2,3) by (simp add: flying_def step_ok_def)
    have st: "clear (live s1) (scheduled s1) (card_state s1) \<longrightarrow> clear (live s3) (scheduled s3) (card_state s3) \<and> kept (card_state s1) (card_state s3)"
      "crtc_conf (card_state s3) = crtc_conf (card_state s1)" "fbs (card_state s3) = fbs (card_state s1)"
      using 3(2) unfolding step_ok_def l2 by simp_all
    have "evolves ?xs s s3" using 3(4) 1(2) by (simp add: evolves_def blanked_def)
    moreover have "clear (live s) (scheduled s) (card_state s) \<longrightarrow> clear (live s3) (scheduled s3) (card_state s3) \<and>
         (\<forall>h. on_screen (card_state s3) h \<longrightarrow> maps (card_state s3) h = maps (card_state s) h)"
      using 1(2,4) st by (auto simp: l1 blanked_def kept_def on_screen_def)
    moreover have "flip_queue s3 = drop k (flip_queue s1)" "ticks s3 = Suc ?n" using 3(2) 1(2) by (simp_all add: step_ok_def blanked_def)
    moreover from this(1) have "?xs @ flip_queue s3 = flip_queue s @ new" "?xs = take k (flip_queue s @ new)"
      using q by (simp_all only: append_take_drop_id)
    ultimately have "handled w ?n ?xs new s s3" unfolding handled_def using 1(3) Inr by (simp only: sum.inject simp_thms)
    moreover have "drmHandleEvent c w s = Inr (0, s3)"
      unfolding e Inr sum.case by (simp add: bindS_def 3(1) returnS_def)
    ultimately show ?thesis using fly Inr by auto
  qed
qed

end
