(* ===== verification/VSyncRun.thy ===== *)
theory VSyncRun
  imports VSyncSpec FlipWait
begin

unbundle bit_operations_syntax

text \<open>
  The loops of \<open>modeset-vsync.c\<close> and its whole run: drawing ends when the clock does, cleaning up waits until the
  last flip is done and leaves the card as it was. It does not when a read fails: then a device is freed
  whose flip is on its way, and its event is for a device that is no more.
\<close>

subsection \<open>The first frames\<close>

lemma flips_draw:
  assumes "flips_ok q sch (xs @ d # ds)" and "distinct (map flip_crtc (xs @ d # ds))" and "\<not> pflip_pending d" and "flip_crtc d' = flip_crtc d"
    and "sch' = sch \<and> \<not> pflip_pending d' \<or> pflip_pending d' \<and> (\<exists>f. front_of d' = Inr f \<and> sch' = sch(flip_crtc d := Some (buf_fb f)))"
  shows "flips_ok q sch' (xs @ d' # ds)"
proof -
  have d: "flip_crtc d \<notin> set q" "sch (flip_crtc d) = None" using assms(1,3) by (auto simp: flips_ok_def flip_state_def Let_def)
  have "flip_state q sch' e" if e: "e \<in> set xs \<union> set ds" for e
  proof -
    have "flip_crtc e \<noteq> flip_crtc d" using e assms(2) by (auto simp: image_iff)
    then have "sch' (flip_crtc e) = sch (flip_crtc e)" using assms(5) by auto
    then show ?thesis using e assms(1) by (auto simp: flips_ok_def flip_state_def Let_def)
  qed
  moreover have "flip_state q sch' d'" using assms(4,5) d by (auto simp: flip_state_def Let_def)
  moreover have "y \<in> flip_crtc ` set (xs @ d' # ds)" if "y \<in> set q \<or> sch' y \<noteq> None" for y
  proof (cases "y = flip_crtc d")
    case False
    then have "y \<in> set q \<or> sch y \<noteq> None" using that assms(5) by auto
    then have "y \<in> flip_crtc ` set (xs @ d # ds)" using assms(1) by (auto simp: flips_ok_def)
    then show ?thesis using False by auto
  qed (simp add: assms(4))
  ultimately show ?thesis using assms(1) by (auto simp: flips_ok_def)
qed

lemma first_frames_run:
  "running c res g0 (xs @ ds) (card_state s) \<Longrightarrow> flips_ok q (scheduled s) (xs @ ds) \<Longrightarrow> \<forall>d \<in> set ds. \<not> pflip_pending d \<Longrightarrow>
   \<exists>ds' g sch. first_frames c w ds s = Inr (ds', s\<lparr>card_state := g, scheduled := sch\<rparr>) \<and> running c res g0 (xs @ ds') g \<and>
     flips_ok q sch (xs @ ds') \<and> crtc_conf g = crtc_conf (card_state s) \<and> fbs g = fbs (card_state s) \<and>
     (clear (xs @ ds) (scheduled s) (card_state s) \<longrightarrow> clear (xs @ ds') sch g \<and> kept (card_state s) g)"
proof (induction ds arbitrary: xs s)
  case Nil
  then show ?case
    by (intro exI [of _ "[]"] exI [of _ "card_state s"] exI [of _ "scheduled s"]) (simp add: returnS_def kept_def)
next
  case (Cons d ds)
  have rnd: "\<exists>x. on_card (rand_byte c) t = Inr (x, t\<lparr>card_state := (card_state t)\<lparr>rands := rands (card_state t) + 1\<rparr>\<rparr>)" for t by (rule rand_runs)
  obtain r gr b where col: "first_frames c w (d # ds) s =
      bindS (modeset_draw_dev c w (d\<lparr>red := (r, True), green := (gr, True), blue := (b, True)\<rparr>)) (\<lambda>d.
        bindS (first_frames c w ds) (\<lambda>ds. returnS (d # ds))) (s\<lparr>card_state := (card_state s)\<lparr>rands := rands (card_state s) + 3\<rparr>\<rparr>)"
    by (simp add: bindS_def [of "on_card (rand_byte c)"] on_card_def rand_byte_def numeral_3_eq_3)
  let ?d = "d\<lparr>red := (r, True), green := (gr, True), blue := (b, True)\<rparr>"
  let ?s = "s\<lparr>card_state := (card_state s)\<lparr>rands := rands (card_state s) + 3\<rparr>\<rparr>"
  let ?l = "xs @ d # ds"
  have run: "running c res g0 ?l (card_state ?s)" using running_rands [OF Cons.prems(1)] by simp
  have dist: "distinct (map flip_crtc ?l)" using running_crtcs [OF run] .
  have np: "\<not> pflip_pending d" using Cons.prems(3) by simp
  have st: "scheduled s (flip_crtc d) = None" using Cons.prems(2) np by (simp add: flips_ok_def flip_state_def Let_def)
  obtain d' g sch where 1: "modeset_draw_dev c w ?d ?s = Inr (d', ?s\<lparr>card_state := g, scheduled := sch\<rparr>)" "drawn_to ?s ?d d' sch"
    "repainted c res g0 ?l (scheduled ?s) (card_state ?s) g"
    using draw_dev_runs [OF run, of d ?d w] st by auto
  have k: "keeps_dev d d'" using 1(2) by (simp add: drawn_to_def keeps_dev_def)
  then have x: "flip_crtc d' = flip_crtc d" "bufs d' = bufs d" by (simp_all add: keeps_dev_def)
  have rep: "repainted c res g0 ?l (scheduled s) (card_state s) g" using repainted_rands [where g = "card_state s" and n = "rands (card_state s) + 3"] 1(3) by simp
  have run': "running c res g0 (xs @ d' # ds) g"
    using rep running_keeps [OF _ list_all2_middle [OF k]] by (auto simp: repainted_def)
  have ok': "flips_ok q sch (xs @ d' # ds)"
    using 1(2) np by (intro flips_draw [OF Cons.prems(2) dist np x(1)]) (auto simp: drawn_to_def)
  have cl: "clear (xs @ d' # ds) sch g \<and> kept (card_state s) g" if c: "clear ?l (scheduled s) (card_state s)"
  proof
    show "kept (card_state s) g" using rep c by (simp add: repainted_def)
    have conf: "crtc_conf g = crtc_conf (card_state s)" using rep by (simp add: repainted_def)
    show "clear (xs @ d' # ds) sch g"
    proof (rule clear_keep [OF c conf])
      fix e' assume e': "e' \<in> set (xs @ d' # ds)"
      define e where "e = (if e' \<in> set xs \<union> set ds then e' else d)"
      have "flip_crtc e' \<noteq> flip_crtc d" if "e' \<in> set xs \<union> set ds" using that dist by (auto simp: image_iff)
      then have "bufs e' = bufs e \<and> flip_crtc e' = flip_crtc e \<and>
           (sch (flip_crtc e) = None \<longrightarrow> scheduled s (flip_crtc e) = None \<and> front_buf e' = front_buf e)"
        using 1(2) st e' x by (auto simp: e_def drawn_to_def split: if_splits)
      moreover have "e \<in> set ?l" using e' by (auto simp: e_def)
      ultimately show "\<exists>e \<in> set ?l. bufs e' = bufs e \<and> flip_crtc e' = flip_crtc e \<and>
           (sch (flip_crtc e) = None \<longrightarrow> scheduled s (flip_crtc e) = None \<and> front_buf e' = front_buf e)" by (rule bexI)
    qed
  qed
  let ?s1 = "?s\<lparr>card_state := g, scheduled := sch\<rparr>"
  obtain ds' g' sch' where 2: "first_frames c w ds ?s1 = Inr (ds', ?s1\<lparr>card_state := g', scheduled := sch'\<rparr>)" "running c res g0 ((xs @ [d']) @ ds') g'"
     "flips_ok q sch' ((xs @ [d']) @ ds')" "crtc_conf g' = crtc_conf g" "fbs g' = fbs g"
     "clear ((xs @ [d']) @ ds) sch g \<longrightarrow> clear ((xs @ [d']) @ ds') sch' g' \<and> kept g g'"
    using Cons.IH [of "xs @ [d']" ?s1] run' ok' Cons.prems(3) by auto
  have "first_frames c w (d # ds) s = Inr (d' # ds', s\<lparr>card_state := g', scheduled := sch'\<rparr>)"
    unfolding col using 1(1) 2(1) by (simp add: bindS_def returnS_def)
  moreover have "crtc_conf g = crtc_conf (card_state s)" "fbs g = fbs (card_state s)" using rep by (simp_all add: repainted_def)
  moreover have "kept (card_state s) g'" if "kept (card_state s) g" "kept g g'"
    using that \<open>crtc_conf g = crtc_conf (card_state s)\<close> \<open>fbs g = fbs (card_state s)\<close> by (auto simp: kept_def on_screen_def)
  ultimately show ?case using 2(2-6) cl by auto
qed

subsection \<open>The loop that draws\<close>

definition flying_on :: "card \<Rightarrow> resources \<Rightarrow> gpu \<Rightarrow> flip_gpu \<Rightarrow> bool" where
  "flying_on c res g0 s = (flying c res g0 s \<and> taken s = None)"

lemma flying_on_handle:
  assumes "flying_on c res g0 s"
  shows "\<exists>r s'. drmHandleEvent c w s = Inr (r, s') \<and> flying_on c res g0 s' \<and> ticks s' = Suc (ticks s)"
  using handle_runs [of c res g0 s w] assms by (fastforce simp: flying_on_def handled_def evolves_def)

lemma running_merr: "running c res g0 l g \<Longrightarrow> running c res g0 l (g\<lparr>merr := t\<rparr>)"
  by (rule running_silent [of g]) (auto simp: silent_def)

lemma flying_on_hushed: "hushed s s' \<Longrightarrow> flying_on c res g0 s \<Longrightarrow> flying_on c res g0 s' \<and> ticks s' = ticks s"
  using running_merr by (auto simp: hushed_def flying_on_def flying_def live_def)

lemma flying_on_tick: "flying_on c res g0 (s\<lparr>ticks := n\<rparr>) = flying_on c res g0 s"
  by (simp add: flying_on_def flying_queue)

lemma wait_round_runs:
  assumes "flying_on c res g0 s"
  shows "\<exists>b s'. wait_round c w s = Inr (b, s') \<and> flying_on c res g0 s' \<and> ticks s < ticks s'"
proof -
  let ?s = "s\<lparr>ticks := ticks s + 1\<rparr>"
  have f: "flying_on c res g0 ?s" using assms by (simp only: flying_on_tick)
  have e: "wait_round c w s = (case select_of w (ticks s) of
       Inl e \<Rightarrow> bindS (on_card (say ''select() failed with %d: %s\<newline>'' (errno_args c e))) (\<lambda>_. returnS False)
     | Inr (input, readable) \<Rightarrow>
         if input then bindS (on_card (say ''exit due to user-input\<newline>'' [])) (\<lambda>_. returnS False)
         else if readable then bindS (drmHandleEvent c w) (\<lambda>_. returnS True)
         else returnS True) ?s"
    by (simp add: wait_round_def bindS_def [of next_tick] next_tick_def)
  have fmt: "formats ''select() failed with %d: %s\<newline>'' (errno_args c e)" "formats ''exit due to user-input\<newline>'' []" for e
    by (simp_all add: formats_def errno_args_def fmt_eval)
  have msg: "\<exists>s'. bindS (on_card (say t a)) (\<lambda>_. returnS False) ?s = Inr (False, s') \<and> flying_on c res g0 s' \<and> ticks s < ticks s'"
    if ok: "formats t a" for t a
  proof -
    obtain s1 where s1: "on_card (say t a) ?s = Inr ((), s1)" "hushed ?s s1" using say_hushed [OF ok] by blast
    then show ?thesis using flying_on_hushed [OF s1(2) f] by (intro exI [of _ s1]) (simp add: bindS_def returnS_def)
  qed
  obtain r s1 where "drmHandleEvent c w ?s = Inr (r, s1)" "flying_on c res g0 s1" "ticks s1 = Suc (ticks ?s)"
    using flying_on_handle [OF f] by blast
  then have h: "\<exists>b s'. bindS (drmHandleEvent c w) (\<lambda>_. returnS True) ?s = Inr (b, s') \<and> flying_on c res g0 s' \<and> ticks s < ticks s'"
    by (intro exI [of _ True] exI [of _ s1]) (simp add: bindS_def returnS_def)
  show ?thesis
  proof (cases "select_of w (ticks s)")
    case (Inl err)
    show ?thesis unfolding e Inl sum.case using msg [OF fmt(1) [of err]] by blast
  next
    case (Inr p)
    obtain input readable where p: "p = (input, readable)" by (cases p)
    show ?thesis unfolding e Inr p sum.case prod.case using msg [OF fmt(2)] h f
      by (cases input; cases readable) (simp_all only: if_True if_False simp_thms, auto simp: returnS_def)
  qed
qed

lemma vsync_loop_round:
  assumes "flying_on c res g0 s"
  shows "\<exists>s'. flying_on c res g0 s' \<and> (vsync_loop c w start s = Some (Inr ((), s')) \<or>
    time_of w (ticks s) < start + 5 \<and> ticks s < ticks s' \<and> vsync_loop c w start s = vsync_loop c w start s')"
proof -
  let ?s = "s\<lparr>ticks := ticks s + 1\<rparr>"
  have f: "flying_on c res g0 ?s" using assms by (simp only: flying_on_tick)
  have e: "draw_round c w start s = (if time_of w (ticks s) < start + 5 then wait_round c w else returnS False) ?s"
    by (simp add: draw_round_def time_call_def bindS_assoc bindS_def [of next_tick] next_tick_def)
  show ?thesis
  proof (cases "time_of w (ticks s) < start + 5")
    case False
    then show ?thesis using e f by (intro exI [of _ ?s]) (subst vsync_loop.simps, simp add: returnS_def)
  next
    case True
    obtain b s1 where r: "wait_round c w ?s = Inr (b, s1)" "flying_on c res g0 s1" "ticks ?s < ticks s1" using wait_round_runs [OF f] by blast
    have "vsync_loop c w start s = (if b then vsync_loop c w start s1 else Some (Inr ((), s1)))"
      using e True r(1) by (subst vsync_loop.simps) simp
    then show ?thesis using True r(2,3) by (cases b) auto
  qed
qed

interpretation vsync_timed: timed_loop w start "vsync_loop c w start" "\<lambda>s. Some (Inr ((), s))" "flying_on c res g0" ticks for w start c res g0
  using vsync_loop_round by unfold_locales

lemma vsync_draw_runs:
  assumes "clock_runs w" and "ready c res g0 s"
  shows "\<exists>s'. vsync_draw c w s = Inr ((), s') \<and> flying_on c res g0 s'"
proof -
  let ?s = "s\<lparr>ticks := ticks s + 1\<rparr>" and ?start = "time_of w (ticks s)"
  have r: "running c res g0 (flip_list s) (card_state s)" "taken s = None" "scheduled s = Map.empty" "flip_queue s = []"
    "\<forall>d \<in> set (flip_list s). \<not> pflip_pending d" using assms(2) by (auto simp: ready_def fresh_dev_def)
  have "flips_ok [] (scheduled s) (flip_list s)" using r(3,5) by (simp add: flips_ok_def flip_state_def Let_def)
  then obtain ds g sch where 1: "first_frames c w (flip_list s) ?s = Inr (ds, ?s\<lparr>card_state := g, scheduled := sch\<rparr>)"
    "running c res g0 ds g" "flips_ok [] sch ds"
    using first_frames_run [of c res g0 "[]" "flip_list s" ?s "[]" w] r by auto
  let ?s1 = "?s\<lparr>card_state := g, scheduled := sch, flip_list := ds\<rparr>"
  have "flying_on c res g0 ?s1" using 1(2,3) r(2,4) by (simp add: flying_on_def flying_def live_def)
  then obtain s' where 2: "vsync_loop c w ?start ?s1 = Some (Inr ((), s'))" "flying_on c res g0 s'"
    using vsync_timed.ends [OF assms(1)] by blast
  have "vsync_draw c w s = run_loop (vsync_loop c w ?start) ?s1"
    by (simp add: vsync_draw_def time_call_def bindS_assoc bindS_def [of next_tick] next_tick_def bindS_def [of "\<lambda>s. first_frames c w (f s) s" for f]
      1(1) [simplified] count_simps)
  then show ?thesis using 2 by (simp add: run_loop_def)
qed

subsection \<open>Waiting for a flip\<close>

text \<open>A device that waits; the number of devices on the list is the same at the end.\<close>

definition waits :: "card \<Rightarrow> resources \<Rightarrow> gpu \<Rightarrow> flip_gpu \<Rightarrow> flip_dev \<Rightarrow> bool" where
  "waits c res g0 s d = (flying c res g0 s \<and> taken s = Some d \<and> cleanup d)"

text \<open>One round: the event was among those that were read, or the device goes on waiting.\<close>

lemma flip_wait_round:
  assumes "serves w" and "waits c res g0 s d" and "pflip_pending d"
  obtains s' d' xs new k where "flip_wait c w s = flip_wait c w s'" "waits c res g0 s' d'" "flip_crtc d' = flip_crtc d"
    "pflip_pending d' = (flip_crtc d \<notin> set xs)" "xs @ flip_queue s' = flip_queue s @ new" "xs = take k (flip_queue s @ new)" "0 < k"
    "flip_crtc d \<in> set (vblank_of w (ticks s)) \<Longrightarrow> scheduled s (flip_crtc d) \<noteq> None \<Longrightarrow> flip_crtc d \<in> set new"
    "ticks s' = Suc (ticks s)" "length (flip_list s') = length (flip_list s)"
proof -
  obtain k where k: "read_of w (ticks s) = Inr k" "0 < k" using assms(1) unfolding serves_def by blast
  have s: "flying c res g0 s" "taken s = Some d" "cleanup d" using assms(2) by (simp_all add: waits_def)
  obtain s' xs new where h: "drmHandleEvent c w s = Inr (0, s')" "flying c res g0 s'" "handled w (ticks s) xs new s s'"
    using handle_runs [OF s(1), of w] k(1) by auto
  obtain d' where d': "taken s' = Some d'" "keeps_dev d d'" "pflip_pending d' = (pflip_pending d \<and> flip_crtc d \<notin> set xs)"
    using h(3) s(2,3) unfolding handled_def evolves_def by blast
  have "flip_wait c w s = flip_wait c w s'" using s(2) assms(3) h(1) by (subst flip_wait.simps) (simp add: taken_dev_def)
  moreover have "waits c res g0 s' d'" using h(2) d'(1,2) s(3) by (simp add: waits_def keeps_dev_def)
  moreover have "flip_crtc d' = flip_crtc d" using d'(2) by (simp add: keeps_dev_def)
  moreover have "pflip_pending d' = (flip_crtc d \<notin> set xs)" using d'(3) assms(3) by simp
  moreover have "xs @ flip_queue s' = flip_queue s @ new" "ticks s' = Suc (ticks s)" "length (flip_list s') = length (flip_list s)"
    "\<forall>x \<in> set (vblank_of w (ticks s)). scheduled s x \<noteq> None \<longrightarrow> x \<in> set new" "\<forall>k. read_of w (ticks s) = Inr k \<longrightarrow> xs = take k (flip_queue s @ new)"
    using h(3) unfolding handled_def evolves_def by blast+
  moreover from this(5) have "xs = take k (flip_queue s @ new)" using k(1) by blast
  ultimately show thesis using that k(2) by blast
qed

text \<open>The device that is cleaned up, by its CRTC, and the number of the others.\<close>

definition waits_for :: "card \<Rightarrow> resources \<Rightarrow> gpu \<Rightarrow> u32 \<Rightarrow> nat \<Rightarrow> flip_gpu \<Rightarrow> bool" where
  "waits_for c res g0 x n s = (\<exists>d. waits c res g0 s d \<and> flip_crtc d = x \<and> length (flip_list s) = n)"

definition taken_pending :: "flip_gpu \<Rightarrow> bool" where
  "taken_pending s = (\<exists>d. taken s = Some d \<and> pflip_pending d)"

interpretation vsync_waits: flip_waits w x "flip_wait c w" "waits_for c res g0 x n" taken_pending flip_queue "\<lambda>s. scheduled s x \<noteq> None" ticks
  for w x c res g0 n
proof unfold_locales
  fix s assume "waits_for c res g0 x n s" "taken_pending s"
  then show "scheduled s x \<noteq> None \<or> x \<in> set (flip_queue s)"
    by (auto simp: waits_for_def taken_pending_def waits_def flying_def flips_ok_def flip_state_def live_def Let_def split: if_splits)
next
  fix s assume a: "serves w" "waits_for c res g0 x n s" "taken_pending s"
  then obtain d where d: "waits c res g0 s d" "flip_crtc d = x" "length (flip_list s) = n" "pflip_pending d"
    by (auto simp: waits_for_def taken_pending_def waits_def)
  obtain s' d' xs new k where r: "flip_wait c w s = flip_wait c w s'" "waits c res g0 s' d'" "flip_crtc d' = flip_crtc d"
    "pflip_pending d' = (flip_crtc d \<notin> set xs)" "xs @ flip_queue s' = flip_queue s @ new" "xs = take k (flip_queue s @ new)" "0 < k"
    "flip_crtc d \<in> set (vblank_of w (ticks s)) \<Longrightarrow> scheduled s (flip_crtc d) \<noteq> None \<Longrightarrow> flip_crtc d \<in> set new"
    "ticks s' = Suc (ticks s)" "length (flip_list s') = length (flip_list s)" using flip_wait_round [OF a(1) d(1,4)] by blast
  have "waits_for c res g0 x n s'" using r(2,3,10) d(2,3) by (auto simp: waits_for_def)
  moreover have "taken_pending s' = (x \<notin> set xs)" using r(2,4) d(2) by (auto simp: taken_pending_def waits_def)
  ultimately show "\<exists>s' xs new k. flip_wait c w s = flip_wait c w s' \<and> waits_for c res g0 x n s' \<and> ticks s' = Suc (ticks s) \<and>
      taken_pending s' = (x \<notin> set xs) \<and> 0 < k \<and> xs @ flip_queue s' = flip_queue s @ new \<and> xs = take k (flip_queue s @ new) \<and>
      (x \<in> set (vblank_of w (ticks s)) \<longrightarrow> scheduled s x \<noteq> None \<longrightarrow> x \<in> set new)"
    using r(1,5-9) d(2) by blast
qed

lemma flip_wait_ends:
  assumes "serves w" and "waits c res g0 s d"
  shows "\<exists>s' d'. flip_wait c w s = Some (Inr ((), s')) \<and> waits c res g0 s' d' \<and> \<not> pflip_pending d' \<and> length (flip_list s') = length (flip_list s)"
proof -
  have "waits_for c res g0 (flip_crtc d) (length (flip_list s)) s" using assms(2) by (auto simp: waits_for_def)
  from vsync_waits.ends [OF assms(1) this] obtain s' where s': "flip_wait c w s = flip_wait c w s'"
    "waits_for c res g0 (flip_crtc d) (length (flip_list s)) s'" "\<not> taken_pending s'" by blast
  obtain d' where d': "waits c res g0 s' d'" "length (flip_list s') = length (flip_list s)" using s'(2) by (auto simp: waits_for_def)
  then have "taken s' = Some d'" "\<not> pflip_pending d'" using s'(3) by (auto simp: waits_def taken_pending_def)
  moreover from this have "flip_wait c w s' = Some (Inr ((), s'))" by (subst flip_wait.simps) (simp add: taken_dev_def)
  ultimately show ?thesis using s'(1) d' by auto
qed

subsection \<open>Cleaning up\<close>

lemma clean_dev_runs:
  assumes "serves w" and "all_restorable c res g0" and "flying_on c res g0 s" and "flip_list s = d # ds"
  shows "\<exists>s'. clean_dev c w d ds s = Inr ((), s') \<and> flying_on c res g0 s' \<and> length (flip_list s') = length ds"
proof -
  let ?d = "d\<lparr>cleanup := True\<rparr>"
  let ?s = "s\<lparr>taken := Some ?d, flip_list := ds\<rparr>"
  have s: "running c res g0 (d # ds) (card_state s)" "flips_ok (flip_queue s) (scheduled s) (d # ds)"
    using assms(3,4) by (auto simp: flying_on_def flying_def live_def)
  have "running c res g0 (?d # ds) (card_state s)" using s(1) by (simp add: running_def devs_hold_def all_bufs_def dev_ok_def)
  moreover have "flips_ok (flip_queue s) (scheduled s) (?d # ds)" using s(2) by (auto simp: flips_ok_def flip_state_def front_of_def Let_def split: if_splits)
  ultimately have f: "flying c res g0 ?s" by (simp add: flying_def live_def)
  have fmt: "formats ''wait for pending page-flip to complete...\<newline>'' []" by (simp add: formats_def fmt_eval)
  obtain s1 where s1: "on_card (say ''wait for pending page-flip to complete...\<newline>'' []) ?s = Inr ((), s1)" "hushed ?s s1"
    using say_hushed [OF fmt] by blast
  have "waits c res g0 s1 ?d" using s1(2) f running_merr by (auto simp: hushed_def waits_def flying_def live_def)
  from flip_wait_ends [OF assms(1) this] obtain s2 d' where w: "flip_wait c w s1 = Some (Inr ((), s2))" "waits c res g0 s2 d'" "\<not> pflip_pending d'"
    "length (flip_list s2) = length (flip_list s1)" by blast
  have l: "live s2 = d' # flip_list s2" "taken s2 = Some d'" using w(2) by (simp_all add: waits_def live_def)
  have run2: "running c res g0 (d' # flip_list s2) (card_state s2)" using w(2) l(1) by (simp add: waits_def flying_def)
  obtain ci g1 g2 where b: "flip_saved d' = Some ci" "\<And>ks. on_card (set_crtc c ci ks) s2 = Inr (Inr (), s2\<lparr>card_state := g1\<rparr>)"
    "free_dev d' (s2\<lparr>card_state := g1\<rparr>) = Inr ((), s2\<lparr>card_state := g2, taken := None\<rparr>)" "running c res g0 (flip_list s2) g2"
    using give_back [OF assms(2) run2] by blast
  let ?s' = "s2\<lparr>card_state := g2, taken := None\<rparr>"
  have "flips_ok (flip_queue s2) (scheduled s2) (d' # flip_list s2)" using w(2) l(1) by (simp add: waits_def flying_def)
  then have "flips_ok (flip_queue s2) (scheduled s2) (flip_list s2)" using w(3) by (auto simp: flips_ok_def flip_state_def Let_def)
  then have "flying_on c res g0 ?s'" using b(4) by (simp add: flying_on_def flying_def live_def)
  moreover have "length (flip_list ?s') = length ds" using w(4) s1(2) by (auto simp: hushed_def)
  moreover have "clean_dev c w d ds s = Inr ((), ?s')"
    by (simp add: clean_dev_def take_dev_def count_simps bindS_def [of "on_card m" for m] s1(1) bindS_def [of "run_loop m" for m] run_loop_def w(1)
      bindS_def [of taken_dev] taken_dev_def l(2) w(3) b(1)) (simp add: bindS_def b(2,3) returnS_def)
  ultimately show ?thesis by blast
qed

lemma clean_rounds_run:
  assumes "serves w" and "all_restorable c res g0"
  shows "flying_on c res g0 s \<Longrightarrow> length (flip_list s) = n \<Longrightarrow> \<exists>s'. clean_rounds c w n s = Inr ((), s') \<and> flying_on c res g0 s' \<and> flip_list s' = []"
proof (induction n arbitrary: s)
  case 0
  then show ?case by (simp add: returnS_def)
next
  case (Suc n)
  then obtain d ds where l: "flip_list s = d # ds" "length ds = n" by (cases "flip_list s") auto
  obtain s1 where 1: "clean_dev c w d ds s = Inr ((), s1)" "flying_on c res g0 s1" "length (flip_list s1) = n"
    using clean_dev_runs [OF assms Suc.prems(1) l(1)] l(2) by auto
  show ?case using Suc.IH [OF 1(2,3)] 1(1) l(1) by (simp add: bindS_def)
qed

lemma vsync_cleanup_runs:
  assumes "serves w" and "all_restorable c res g0" and "flying_on c res g0 s"
  shows "\<exists>s'. vsync_cleanup c w s = Inr ((), s') \<and> flying_on c res g0 s' \<and> flip_list s' = []"
  using clean_rounds_run [OF assms refl] by (simp add: vsync_cleanup_def)

lemma flying_on_none: "flying_on c res g0 s \<Longrightarrow> flip_list s = [] \<Longrightarrow> scheduled s = Map.empty \<and> flip_queue s = [] \<and> running c res g0 [] (card_state s)"
proof -
  assume a: "flying_on c res g0 s" "flip_list s = []"
  then have r: "running c res g0 [] (card_state s)" "flips_ok (flip_queue s) (scheduled s) []"
    by (auto simp: flying_on_def flying_def live_def)
  then have "flip_queue s = []" by (cases "flip_queue s") (auto simp: flips_ok_def)
  then show ?thesis using r by (auto simp: flips_ok_def)
qed

interpretation vsync: flip_program vsync_draw vsync_cleanup world_fair "\<lambda>_ s. flips_ok (flip_queue s) (scheduled s) (flip_list s)"
proof (unfold_locales, goal_cases)
  case (1 w c res g0 s)
  then show ?case using vsync_draw_runs [of w c res g0 s] by (auto simp: world_fair_def flying_on_def flying_def live_def)
next
  case (2 w c res g0 s)
  then have "flying_on c res g0 s" by (simp add: flying_on_def flying_def live_def)
  then obtain s' where s': "vsync_cleanup c w s = Inr ((), s')" "flying_on c res g0 s'" "flip_list s' = []"
    using vsync_cleanup_runs [of w c res g0 s] 2(1,2) by (auto simp: world_fair_def)
  show ?case using s' flying_on_none [OF s'(2,3)] by (auto simp: flying_on_def)
qed

end
