(* ===== verification/VSyncMain.thy ===== *)
theory VSyncMain
  imports VSyncRun
begin

unbundle bit_operations_syntax

text \<open>
  The properties of \<open>modeset-double-buffered.c\<close> and \<open>modeset-vsync.c\<close>: what is on the screen is never
  drawn into, the card is left as it was, and what a failed read does while cleaning up.
\<close>

subsection \<open>From the start of main\<close>

text \<open>What \<open>main\<close> of both programs does between opening the card and drawing.\<close>

definition flip_start :: "card \<Rightarrow> unit fm" where
  "flip_start c =
     bindS (flip_prepare c) (\<lambda>_. bindS (\<lambda>s. flip_set_loop c (flip_list s) s) (\<lambda>ds. fupd (\<lambda>s. s\<lparr>flip_list := ds\<rparr>)))"

text \<open>A card that the programs can start on.\<close>

definition startable :: "card \<Rightarrow> resources \<Rightarrow> flip_gpu \<Rightarrow> bool" where
  "startable c res s =
     (card_ok c \<and> res_of c = Inr res \<and> length (crtcs res) \<le> 32 \<and> flip_idle s \<and> all_restorable c res (card_state s))"

lemma listed_sets:
  assumes "listed c res s" and "all_restorable c res (card_state s)"
  shows "\<exists>g. flip_set_loop c (flip_list s) s = Inr (map (saved_as (card_state s)) (flip_list s), s\<lparr>card_state := g\<rparr>) \<and>
    crtcs_set (length (flip_list s)) (flip_list s) (card_state s) g"
proof (rule flip_set_loop_runs)
  show "distinct (map flip_crtc (flip_list s))" using assms(1) by (simp add: listed_def devs_hold_def)
  show "\<forall>d \<in> set (flip_list s). (\<exists>b. buf_at (bufs d) (unat (front_buf d)) = Inr b) \<and>
      (\<exists>ci. crtc_conf (card_state s) (flip_crtc d) = Some ci) \<and> sets_only c (flip_crtc d)" using listed_settable [OF assms] by blast
qed

lemma flip_start_runs:
  assumes "startable c res s"
  obtains g0 s1 where "flip_start c s = Inr ((), s1)" "ready c res g0 s1" "crtc_conf g0 = crtc_conf (card_state s)"
proof -
  have a: "card_ok c" "res_of c = Inr res" "length (crtcs res) \<le> 32" "flip_idle s" "all_restorable c res (card_state s)"
    using assms by (simp_all add: startable_def)
  obtain s1 where 1: "flip_prepare c s = Inr (0, s1)" "listed c res s1" "same_world s s1" using flip_prepare_runs [OF a(1-4)] by blast
  have k: "taken s1 = None" "scheduled s1 = Map.empty" "flip_queue s1 = []" "objs (card_state s1) = 0" "crtc_conf (card_state s1) = crtc_conf (card_state s)"
    using 1(3) a(4) by (simp_all add: same_world_def same_rest_def flip_idle_def Let_def)
  have r1: "all_restorable c res (card_state s1)" using a(5) k(5) by (simp add: all_restorable_def)
  from listed_sets [OF 1(2) r1] obtain g where
    2: "flip_set_loop c (flip_list s1) s1 = Inr (map (saved_as (card_state s1)) (flip_list s1), s1\<lparr>card_state := g\<rparr>)"
    "crtcs_set (length (flip_list s1)) (flip_list s1) (card_state s1) g" by blast
  have "flip_start c s = Inr ((), s1\<lparr>card_state := g, flip_list := map (saved_as (card_state s1)) (flip_list s1)\<rparr>)"
    by (simp add: flip_start_def bindS_def 1(1) 2(1) fupd_def)
  then show thesis using that ready_set [OF 1(2) 2(2) k(1-4)] listed_settable [OF 1(2) r1] k(5) by blast
qed

lemma startable_ready:
  assumes "startable c res s" and "unseen_fbs c (card_state s)" and "flip_start c s = Inr ((), s1)"
  obtains g0 where "ready c res g0 s1" "\<And>sch. clear (flip_list s1) sch (card_state s1)"
proof -
  obtain g0 where r: "ready c res g0 s1" "crtc_conf g0 = crtc_conf (card_state s)" using flip_start_runs [OF assms(1)] assms(3) by auto
  have "unseen_fbs c g0" using assms(2) r(2) by (simp add: unseen_fbs_def)
  then show thesis using that r(1) ready_clear [OF r(1)] by blast
qed

subsection \<open>The states of a run\<close>



text \<open>
  The states of \<open>modeset-vsync.c\<close> from its first frames to the end of \<open>modeset_draw\<close>: a vertical blank may come at any time.
\<close>

inductive frames :: "card \<Rightarrow> world \<Rightarrow> flip_gpu \<Rightarrow> flip_gpu \<Rightarrow> bool" for c w s0 where
  first: "first_frames c w (flip_list s0) s0 = Inr (ds, s) \<Longrightarrow> frames c w s0 (s\<lparr>flip_list := ds\<rparr>)"
| blank: "frames c w s0 s \<Longrightarrow> frames c w s0 (vblank x s)"
| handle: "frames c w s0 s \<Longrightarrow> drmHandleEvent c w s = Inr (r, s') \<Longrightarrow> frames c w s0 s'"
| quiet: "frames c w s0 s \<Longrightarrow> frames c w s0 (s\<lparr>ticks := n, card_state := (card_state s)\<lparr>merr := t\<rparr>\<rparr>)"

lemma ready_first:
  assumes "ready c res g0 s"
  obtains ds g sch where "first_frames c w (flip_list s) s = Inr (ds, s\<lparr>card_state := g, scheduled := sch\<rparr>)" "running c res g0 ds g"
    "flips_ok [] sch ds" "clear (flip_list s) Map.empty (card_state s) \<Longrightarrow> clear ds sch g \<and> kept (card_state s) g"
proof -
  have r: "running c res g0 (flip_list s) (card_state s)" "scheduled s = Map.empty" "\<forall>d \<in> set (flip_list s). \<not> pflip_pending d"
    using assms by (auto simp: ready_def fresh_dev_def)
  have "flips_ok [] (scheduled s) (flip_list s)" using r(2,3) by (simp add: flips_ok_def flip_state_def Let_def)
  then show thesis using first_frames_run [of c res g0 "[]" "flip_list s" s "[]" w] r that by auto
qed

definition frame_ok :: "card \<Rightarrow> resources \<Rightarrow> gpu \<Rightarrow> nat \<Rightarrow> flip_gpu \<Rightarrow> bool" where
  "frame_ok c res g0 n s = (flying_on c res g0 s \<and> clear (flip_list s) (scheduled s) (card_state s) \<and> busy_calls s = n)"

lemma frames_ok:
  assumes "frames c w s0 s" and "ready c res g0 s0" and "clear (flip_list s0) Map.empty (card_state s0)"
  shows "frame_ok c res g0 (busy_calls s0) s"
  using assms
proof induction
  case (first ds s)
  obtain ds' g sch where r: "first_frames c w (flip_list s0) s0 = Inr (ds', s0\<lparr>card_state := g, scheduled := sch\<rparr>)" "running c res g0 ds' g"
    "flips_ok [] sch ds'" "clear (flip_list s0) Map.empty (card_state s0) \<Longrightarrow> clear ds' sch g \<and> kept (card_state s0) g"
    using ready_first [OF first(2), of w] by blast
  have "ds' = ds" "s = s0\<lparr>card_state := g, scheduled := sch\<rparr>" using r(1) first(1) by simp_all
  then have "s = s0\<lparr>card_state := g, scheduled := sch\<rparr>" "running c res g0 ds g" "flips_ok [] sch ds" "clear ds sch g" using r(2-4) first(3) by simp_all
  moreover have "taken s0 = None" "flip_queue s0 = []" using first(2) by (simp_all add: ready_def)
  ultimately show ?case by (simp add: frame_ok_def flying_on_def flying_def live_def)
next
  case (blank s x)
  then have s: "flying c res g0 s" "taken s = None" "live s = flip_list s" "clear (flip_list s) (scheduled s) (card_state s)"
    "busy_calls s = busy_calls s0" by (simp_all add: frame_ok_def flying_on_def live_def)
  obtain new where "flying c res g0 (vblank x s)" "blanked new s (vblank x s)"
    "clear (flip_list s) (scheduled (vblank x s)) (card_state (vblank x s))" using vblank_runs [OF s(1), of x] s(3,4) by auto
  then show ?case using s(2,5) by (simp add: frame_ok_def flying_on_def blanked_def)
next
  case (handle s r s')
  then have s: "flying c res g0 s" "taken s = None" "live s = flip_list s" "clear (live s) (scheduled s) (card_state s)"
    "busy_calls s = busy_calls s0" by (simp_all add: frame_ok_def flying_on_def live_def)
  obtain xs new where h: "flying c res g0 s'" "handled w (ticks s) xs new s s'" using handle_runs [OF s(1), of w] handle(2) by auto
  have "taken s' = None" "busy_calls s' = busy_calls s0" using h(2) s(2,5) by (simp_all add: handled_def evolves_def)
  moreover from this(1) have "live s' = flip_list s'" by (simp add: live_def)
  ultimately show ?case using h s(4) by (simp add: frame_ok_def flying_on_def handled_def)
next
  case (quiet s t n)
  let ?s = "s\<lparr>card_state := (card_state s)\<lparr>merr := t\<rparr>\<rparr>"
  have "hushed s ?s" by (auto simp: hushed_def)
  then have "flying_on c res g0 ?s" using flying_on_hushed quiet by (simp add: frame_ok_def)
  then have "flying_on c res g0 (?s\<lparr>ticks := n\<rparr>)" by (simp only: flying_on_tick)
  moreover have "?s\<lparr>ticks := n\<rparr> = s\<lparr>ticks := n, card_state := (card_state s)\<lparr>merr := t\<rparr>\<rparr>" by simp
  ultimately show ?case using quiet clear_cong [of "(card_state s)\<lparr>merr := t\<rparr>" "card_state s"] by (simp add: frame_ok_def)
qed

text \<open>The rounds of the loop go through these states.\<close>

lemma frames_tick: "frames c w s0 s \<Longrightarrow> frames c w s0 (s\<lparr>ticks := n\<rparr>)"
proof -
  assume "frames c w s0 s"
  from frames.quiet [OF this, where n = n and t = "merr (card_state s)"] show "frames c w s0 (s\<lparr>ticks := n\<rparr>)" by simp
qed

lemma frames_hushed: "hushed s s' \<Longrightarrow> frames c w s0 s \<Longrightarrow> frames c w s0 s'"
proof -
  assume "hushed s s'" "frames c w s0 s"
  then obtain t where "s' = s\<lparr>card_state := (card_state s)\<lparr>merr := t\<rparr>\<rparr>" by (auto simp: hushed_def)
  with frames.quiet [OF \<open>frames c w s0 s\<close>, where n = "ticks s" and t = t] show "frames c w s0 s'" by simp
qed

lemma frames_round:
  assumes "draw_round c w t s = Inr (b, s')" and "frames c w s0 s"
  shows "frames c w s0 s'"
proof -
  have say: "frames c w s0 s'" if h: "bindS (on_card (say m a)) (\<lambda>_. returnS x) u = Inr (b, s')" "formats m a" "frames c w s0 u" for m a u and x :: bool
  proof -
    obtain u' where u': "on_card (say m a) u = Inr ((), u')" "hushed u u'" using say_hushed [OF h(2)] by blast
    have "s' = u'" using h(1) by (simp add: bindS_def u'(1) returnS_def)
    then show ?thesis using frames_hushed [OF u'(2) h(3)] by simp
  qed
  have fmt: "formats ''select() failed with %d: %s\<newline>'' (errno_args c e)" "formats ''exit due to user-input\<newline>'' []" for e
    by (simp_all add: formats_def errno_args_def fmt_eval)
  let ?s1 = "s\<lparr>ticks := ticks s + 1\<rparr>" and ?s2 = "s\<lparr>ticks := ticks s + 2\<rparr>"
  have f: "frames c w s0 ?s1" "frames c w s0 ?s2" using assms(2) by (simp_all add: frames_tick)
  show ?thesis
  proof (cases "time_of w (ticks s) < t + 5")
    case False
    then have "s' = ?s1" using assms(1) by (simp add: draw_round_def time_call_def bindS_assoc bindS_def [of next_tick] next_tick_def returnS_def)
    then show ?thesis using f(1) by simp
  next
    case True
    have e: "(case select_of w (ticks s + 1) of
       Inl e \<Rightarrow> bindS (on_card (say ''select() failed with %d: %s\<newline>'' (errno_args c e))) (\<lambda>_. returnS False)
     | Inr (input, readable) \<Rightarrow>
         if input then bindS (on_card (say ''exit due to user-input\<newline>'' [])) (\<lambda>_. returnS False)
         else if readable then bindS (drmHandleEvent c w) (\<lambda>_. returnS True)
         else returnS True) ?s2 = Inr (b, s')"
      using assms(1) True by (simp add: draw_round_def time_call_def wait_round_def bindS_assoc bindS_def [of next_tick] next_tick_def)
    show ?thesis
    proof (cases "select_of w (ticks s + 1)")
      case (Inl err)
      show ?thesis using e unfolding Inl sum.case by (rule say [OF _ fmt(1) f(2)])
    next
      case (Inr p)
      obtain input readable where p: "p = (input, readable)" by (cases p)
      have h: "frames c w s0 s'" if "bindS (drmHandleEvent c w) (\<lambda>_. returnS True) ?s2 = Inr (b, s')"
        using that frames.handle [OF f(2)] by (auto simp: bindS_def bindE_eq_Inr returnS_def split: prod.splits)
      show ?thesis using e unfolding Inr p sum.case prod.case
        by (cases input; cases readable) (simp_all only: if_True if_False simp_thms say [OF _ fmt(2) f(2)] h, use f(2) in \<open>auto simp: returnS_def\<close>)
    qed
  qed
qed

subsection \<open>A card and a world\<close>

definition flip_card :: card where
  "flip_card = demo_card\<lparr>dumb_of := (\<lambda>g w h. if w = 3 \<and> h = 2 \<and> 1 \<notin> handles g then Inr (1, 16, 32)
       else if w = 3 \<and> h = 2 \<and> 2 \<notin> handles g then Inr (2, 16, 32) else Inl 12),
     fb_of := (\<lambda>g bo. if fbs g 50 = None then Inr 50 else if fbs g 51 = None then Inr 51 else Inl 12)\<rparr>"

definition idle_flips :: flip_gpu where
  "idle_flips = \<lparr>card_state = demo_gpu [], flip_list = [], taken = None, scheduled = Map.empty, flip_queue = [], ticks = 0, busy_calls = 0\<rparr>"

definition demo_world :: world where
  "demo_world = \<lparr>flip_of = (\<lambda>s x f. Inr ()), time_of = (\<lambda>n. int n), select_of = (\<lambda>n. Inr (False, True)),
     vblank_of = (\<lambda>n. [word_of_nat n]), read_of = (\<lambda>n. Inr 1)\<rparr>"


lemma flip_card_usable: "usable flip_card demo_res co x = usable demo_card demo_res co x"
  by (simp add: usable_def bound_crtc_def flip_card_def)

lemma flip_card_restorable: "restorable flip_card conf x = restorable demo_card conf x"
  by (simp add: restorable_def sets_only_def flip_card_def)

lemma demo_startable: "startable flip_card demo_res idle_flips"
proof -
  have "card_ok flip_card" by (simp add: card_ok_def flip_card_def demo_card_def)
  moreover have "res_of flip_card = Inr demo_res" by (simp add: flip_card_def demo_card_def)
  moreover have "flip_idle idle_flips" by (simp add: flip_idle_def idle_flips_def demo_gpu_def)
  moreover have "all_restorable flip_card demo_res (card_state idle_flips)"
    using demo_restorable by (simp add: all_restorable_def flip_card_usable flip_card_restorable idle_flips_def demo_gpu_def)
  ultimately show ?thesis using demo_res_ok(2) by (simp add: startable_def)
qed

lemma demo_unseen: "unseen_fbs flip_card (card_state idle_flips)"
  by (auto simp: unseen_fbs_def flip_card_def demo_card_def idle_flips_def demo_gpu_def demo_crtc_def split: if_splits)

text \<open>One device is found on this card.\<close>

lemma demo_starts:
  obtains s1 where "flip_start flip_card idle_flips = Inr ((), s1)" "length (flip_list s1) = 1"
proof -
  obtain g0 s1 where s1: "flip_start flip_card idle_flips = Inr ((), s1)" using flip_start_runs [OF demo_startable] by blast
  have "(case flip_start flip_card idle_flips of Inr (u, s) \<Rightarrow> length (flip_list s) | Inl e \<Rightarrow> 0) = 1" by code_simp
  then show thesis using that s1 by simp
qed

subsection \<open>The properties\<close>

text \<open>
  C28: Whenever \<open>modeset-vsync.c\<close> handles events while it draws, no buffer that is on a screen
  is written: the call returns, and every buffer that is on a screen then has the contents that it had before,
  however vertical blanks and reads interleave; the first frames
  write none either; and a flip is only asked for when none is on its way: from the first frames on
  \<open>drmModePageFlip\<close> is never called for a CRTC whose last flip has not been done.
\<close>

theorem vsync_no_tearing:
  assumes "startable c res s" and "unseen_fbs c (card_state s)" and "flip_start c s = Inr ((), s1)" and "frames c w s1 s2"
  shows "(\<exists>ds s0. first_frames c w (flip_list s1) s1 = Inr (ds, s0) \<and> kept (card_state s1) (card_state s0) \<and> busy_calls s0 = busy_calls s1) \<and>
    (\<exists>r s'. drmHandleEvent c w s2 = Inr (r, s') \<and> (\<forall>h. on_screen (card_state s') h \<longrightarrow> maps (card_state s') h = maps (card_state s2) h) \<and>
       busy_calls s' = busy_calls s1) \<and>
    busy_calls s2 = busy_calls s1 \<and>
    (\<forall>d \<in> set (flip_list s2). \<not> pflip_pending d \<longrightarrow> scheduled s2 (flip_crtc d) = None) \<and>
    (\<forall>t b s'. draw_round c w t s2 = Inr (b, s') \<longrightarrow> frames c w s1 s')"
proof (intro conjI allI impI)
  obtain g0 where r: "ready c res g0 s1" "\<And>sch. clear (flip_list s1) sch (card_state s1)" using startable_ready [OF assms(1-3)] by blast
  obtain ds g sch where "first_frames c w (flip_list s1) s1 = Inr (ds, s1\<lparr>card_state := g, scheduled := sch\<rparr>)" "kept (card_state s1) g"
    using ready_first [OF r(1)] r(2) by metis
  then show "\<exists>ds s0. first_frames c w (flip_list s1) s1 = Inr (ds, s0) \<and> kept (card_state s1) (card_state s0) \<and> busy_calls s0 = busy_calls s1"
    by force
  have "frame_ok c res g0 (busy_calls s1) s2" using frames_ok [OF assms(4) r] .
  then have f: "flying c res g0 s2" "live s2 = flip_list s2" "clear (live s2) (scheduled s2) (card_state s2)" "busy_calls s2 = busy_calls s1"
    by (simp_all add: frame_ok_def flying_on_def live_def)
  obtain r s' xs new where "drmHandleEvent c w s2 = Inr (r, s')" "handled w (ticks s2) xs new s2 s'" using handle_runs [OF f(1), of w] by blast
  then show "\<exists>r s'. drmHandleEvent c w s2 = Inr (r, s') \<and> (\<forall>h. on_screen (card_state s') h \<longrightarrow> maps (card_state s') h = maps (card_state s2) h) \<and>
       busy_calls s' = busy_calls s1"
    using f(3,4) by (auto simp: handled_def evolves_def)
  show "busy_calls s2 = busy_calls s1" using f(4) .
  show "\<forall>d \<in> set (flip_list s2). \<not> pflip_pending d \<longrightarrow> scheduled s2 (flip_crtc d) = None"
    using f(1,2) by (auto simp: flying_def flips_ok_def flip_state_def Let_def)
  show "frames c w s1 s'" if "draw_round c w t s2 = Inr (b, s')" for t b s' using frames_round [OF that assms(4)] .
qed

theorem vsync_no_tearing_witness:
  "\<exists>s1 s2 r s'. flip_start flip_card idle_flips = Inr ((), s1) \<and> flip_list s1 \<noteq> [] \<and> frames flip_card demo_world s1 s2 \<and>
     drmHandleEvent flip_card demo_world s2 = Inr (r, s') \<and>
     (\<forall>h. on_screen (card_state s') h \<longrightarrow> maps (card_state s') h = maps (card_state s2) h) \<and> busy_calls s' = busy_calls s1"
proof -
  obtain s1 where s1: "flip_start flip_card idle_flips = Inr ((), s1)" "length (flip_list s1) = 1" by (rule demo_starts)
  obtain g0 where "ready flip_card demo_res g0 s1" using flip_start_runs [OF demo_startable] s1(1) by auto
  then obtain ds g sch where "first_frames flip_card demo_world (flip_list s1) s1 = Inr (ds, s1\<lparr>card_state := g, scheduled := sch\<rparr>)"
    by (rule ready_first)
  from frames.first [OF this] obtain s2 where "frames flip_card demo_world s1 s2" by blast
  moreover have "flip_list s1 \<noteq> []" using s1(2) by auto
  ultimately show ?thesis using vsync_no_tearing [OF demo_startable demo_unseen s1(1)] s1(1) by blast
qed





text \<open>
  A run of \<open>modeset-double-buffered.c\<close> ends with status 0 and leaves the card as it was: every CRTC has its old
  configuration, and no buffer, framebuffer, mapping, object, device or descriptor is left, whatever fails in between.
\<close>

theorem double_main_restores:
  assumes "startable c res s" and "\<forall>node. open_of c node = Inr ()" and "dumb_cap c = Some cap" and "cap \<noteq> 0"
  shows "\<exists>s'. double_main c argv s = Inr (0, s') \<and> flip_idle s' \<and> fds (card_state s') = fds (card_state s) \<and>
    crtc_conf (card_state s') = crtc_conf (card_state s)"
  using assms unfolding double_main_def startable_def by (intro double.main_restores) auto

theorem double_main_restores_witness:
  "\<exists>s'. double_main flip_card [''modeset''] idle_flips = Inr (0, s') \<and> flip_idle s' \<and> crtc_conf (card_state s') = demo_crtc"
proof -
  have "\<forall>node. open_of flip_card node = Inr ()" "dumb_cap flip_card = Some 1" "crtc_conf (card_state idle_flips) = demo_crtc"
    by (simp_all add: flip_card_def demo_card_def idle_flips_def demo_gpu_def)
  then show ?thesis using double_main_restores [OF demo_startable, of 1 "[''modeset'']"] by auto
qed

subsection \<open>A read that fails\<close>

lemma wait_read_fails:
  assumes "taken s = Some d" and "pflip_pending d" and "read_of w (ticks s) = Inl e" and "vblank_of w (ticks s) = []"
  shows "flip_wait c w s = Some (Inr ((), s\<lparr>ticks := ticks s + 1\<rparr>))"
  using assms by (subst flip_wait.simps)
    (simp add: taken_dev_def drmHandleEvent_def bindS_def [of next_tick] next_tick_def count_simps returnS_def)

text \<open>
  C31: When the read fails for which \<open>modeset_cleanup\<close> waits, the device is freed, with both its buffers, while its flip is still on its way:
  the CRTC is not put back, and the event of the flip, when it comes, is handled for a device that has been freed.
\<close>

theorem vsync_read_error:
  assumes "flip_list s = d # ds" and "pflip_pending d" and "read_of w (ticks s) = Inl e" and "vblank_of w (ticks s) = []"
    and "scheduled s (flip_crtc d) = Some f" and "distinct (map flip_crtc (d # ds))" and "bufs d = [b0, b1]"
  shows "\<exists>s'. clean_dev c w d ds s = Inr ((), s') \<and> flip_list s' = ds \<and> scheduled s' (flip_crtc d) = Some f \<and>
    crtc_conf (card_state s') = crtc_conf (card_state s) \<and>
    (\<forall>b \<in> {b0, b1}. maps (card_state s') (buf_handle b) = None \<and> fbs (card_state s') (buf_fb b) = None) \<and>
    modeset_page_flip_event c w (flip_crtc d) (vblank (flip_crtc d) s') = Inl UseAfterFree"
proof -
  let ?d = "d\<lparr>cleanup := True\<rparr>"
  let ?s = "s\<lparr>taken := Some ?d, flip_list := ds\<rparr>"
  have fmt: "formats ''wait for pending page-flip to complete...\<newline>'' []" by (simp add: formats_def fmt_eval)
  obtain s1 where s1: "on_card (say ''wait for pending page-flip to complete...\<newline>'' []) ?s = Inr ((), s1)" "hushed ?s s1"
    using say_hushed [OF fmt] by blast
  obtain t where t: "s1 = ?s\<lparr>card_state := (card_state s)\<lparr>merr := t\<rparr>\<rparr>" using s1(2) by (auto simp: hushed_def)
  let ?s2 = "s1\<lparr>ticks := ticks s + 1\<rparr>"
  have w: "run_loop (flip_wait c w) s1 = Inr ((), ?s2)"
    using wait_read_fails [of s1 ?d w e c] assms(2-4) by (simp add: run_loop_def t)
  have "clean_dev c w d ds s = free_dev ?d ?s2"
    using assms(2) by (simp add: clean_dev_def take_dev_def count_simps bindS_def [of "on_card m" for m] s1(1)
      bindS_def [of "run_loop (flip_wait c w)"] w) (simp add: t bindS_def taken_dev_def returnS_def)
  moreover obtain g where g: "free_dev ?d ?s2 = Inr ((), ?s2\<lparr>card_state := g, taken := None\<rparr>)" "crtc_conf g = crtc_conf (card_state s)"
    "\<forall>b \<in> {b0, b1}. maps g (buf_handle b) = None \<and> fbs g (buf_fb b) = None"
    using assms(7) by (cases "flip_saved d") (auto simp: t free_dev_def count_simps buf_at_def bindS_def destroy_fb_runs fupd_def without_def
      returnS_def card_counts [simplified])
  moreover have "modeset_page_flip_event c w (flip_crtc d) (vblank (flip_crtc d) (?s2\<lparr>card_state := g, taken := None\<rparr>)) = Inl UseAfterFree"
  proof -
    have "find (\<lambda>e. flip_crtc e = flip_crtc d) ds = None" using assms(6) by (auto simp: find_None_iff image_iff)
    then show ?thesis using assms(5) by (simp add: modeset_page_flip_event_def bindS_def get_dev_def vblank_def t live_def)
  qed
  ultimately show ?thesis using assms(5) by (intro exI [of _ "?s2\<lparr>card_state := g, taken := None\<rparr>"]) (simp add: t)
qed

text \<open>Two devices, the first with its flip on its way.\<close>

definition flip_buf :: "u32 \<Rightarrow> modeset_buf" where
  "flip_buf h = \<lparr>buf_width = 3, buf_height = 2, buf_stride = 16, buf_size = 32, buf_handle = h, buf_fb = 50 + h\<rparr>"

definition flip_demo :: "u32 \<Rightarrow> u32 \<Rightarrow> flip_dev" where
  "flip_demo x h = zero_flip_dev\<lparr>front_buf := 1, bufs := [flip_buf h, flip_buf (h + 1)], flip_crtc := x, pflip_pending := True,
     flip_saved := demo_crtc x\<rparr>"

theorem vsync_read_error_witness:
  "\<exists>s'. clean_dev flip_card (demo_world\<lparr>vblank_of := \<lambda>n. [], read_of := \<lambda>n. Inl 4\<rparr>) (flip_demo 40 1) [flip_demo 41 3]
     (idle_flips\<lparr>flip_list := [flip_demo 40 1, flip_demo 41 3], scheduled := [40 \<mapsto> 52, 41 \<mapsto> 54]\<rparr>) = Inr ((), s') \<and>
     modeset_page_flip_event flip_card (demo_world\<lparr>vblank_of := \<lambda>n. [], read_of := \<lambda>n. Inl 4\<rparr>) 40 (vblank 40 s') = Inl UseAfterFree"
  using vsync_read_error [of "idle_flips\<lparr>flip_list := [flip_demo 40 1, flip_demo 41 3], scheduled := [40 \<mapsto> 52, 41 \<mapsto> 54]\<rparr>"
      "flip_demo 40 1" "[flip_demo 41 3]" "demo_world\<lparr>vblank_of := \<lambda>n. [], read_of := \<lambda>n. Inl 4\<rparr>" 4 52 "flip_buf 1" "flip_buf 2" flip_card]
  by (auto simp: flip_demo_def)

end
