(* ===== verification/KmsProps.thy ===== *)
theory KmsProps
  imports KmsMain VSyncMain
begin

unbundle bit_operations_syntax

text \<open>
  The properties of \<open>modeset-atomic.c\<close>: what an output is in every state of a run, which plane it gets, what is put into a request, that the
  first redraw is drawn into what is on the screen, and that a run gives everything back.
\<close>

subsection \<open>The states of a run\<close>

text \<open>
  The states from the modeset to the end of \<open>modeset_draw\<close>: vertical blanks come at any time, and events are read.
\<close>

inductive kms_states :: "card \<Rightarrow> kms_card \<Rightarrow> world \<Rightarrow> kms \<Rightarrow> kms \<Rightarrow> bool" for c k w s0 where
  modeset: "perform_modeset c k s0 = Inr (ret, s) \<Longrightarrow> kms_states c k w s0 s"
| blank: "kms_states c k w s0 s \<Longrightarrow> kms_states c k w s0 (kms_vblank x s)"
| handle: "kms_states c k w s0 s \<Longrightarrow> kms_handle_event c k w s = Inr (r, s') \<Longrightarrow> kms_states c k w s0 s'"
| tick: "kms_states c k w s0 s \<Longrightarrow> kms_states c k w s0 (s\<lparr>kms_ticks := n\<rparr>)"

text \<open>States after a successful \<open>modeset_prepare\<close>.\<close>

lemma prepared:
  assumes "kms_startable c k s" and "kms_prepare c k s = Inr (0, s1)"
  shows "kms_ok k" "list_ok k 0 s1" "output_list s1 \<noteq> []" "commits s1 = Map.empty" "crtc_events s1 = []" "reqs s1 = 0"
proof -
  show "kms_ok k" using assms(1) by (simp add: kms_startable_def)
  obtain ret s' where "kms_prepare c k s = Inr (ret, s')" "same_kernel s s'"
    "if output_list s' = [] then ret = - 1 \<and> list_ok k 1 s' else ret = 0 \<and> list_ok k 0 s'" using startable_prepares [OF assms(1)] by blast
  then have "same_kernel s s1" "output_list s1 \<noteq> [] \<and> list_ok k 0 s1" using assms(2) by (auto split: if_splits)
  then show "list_ok k 0 s1" "output_list s1 \<noteq> []" "commits s1 = Map.empty" "crtc_events s1 = []" "reqs s1 = 0"
    using assms(1) by (simp_all add: same_kernel_def kms_startable_def kms_idle_def Let_def)
qed

lemma states_on:
  assumes "kms_states c k w s1 s2" and "kms_startable c k s" and "kms_prepare c k s = Inr (0, s1)"
  shows "kms_runs k 0 [] s2 \<and> crtc_ids (output_list s2) = crtc_ids (output_list s1)"
  using assms
proof induction
  case (modeset ret s2)
  note p = prepared [OF modeset(2,3)]
  obtain ret' s' where r: "perform_modeset c k s1 = Inr (ret', s')" "list_ok k 0 s'" "kms_complete k \<longrightarrow> reqs s' = reqs s1"
    "if ret' = 0 then shown_first k s1 s' else same_but_colors s1 s'" using perform_modeset_runs [OF p(1-5), of c] by blast
  have "s' = s2" using modeset(1) r(1) by simp
  then have a: "list_all2 recolors (output_list s1) (output_list s2)" "commits s2 = Map.empty" "distinct (crtc_events s2)" "list_ok k 0 s2" "reqs_freed k s2"
    using r(2-4) p(4-6) by (auto simp: shown_first_def same_but_colors_def reqs_freed_def split: if_splits)
  then show ?case using list_ok_on [OF a(4,2,3,5)] all2_keeps(1) [OF all2_recolors(1) [OF a(1)]] by (simp add: kms_on_def)
next
  case (blank s x)
  obtain new where "kms_runs k 0 [] (kms_vblank x s)" "kms_blanked new s (kms_vblank x s)"
    using kms_vblank_runs [of k 0 s x] blank.IH [OF blank.prems] by blast
  then show ?case using blank.IH [OF blank.prems] by (simp add: kms_blanked_def)
next
  case (handle s2 r s')
  obtain xs new where "kms_runs k 0 [] s'" "kms_handled w xs new s2 s'"
    using kms_handle_runs [OF prepared(1) [OF handle.prems], of 0 s2 c w] handle(2) handle.IH [OF handle.prems] by auto
  then show ?case using handle.IH [OF handle.prems] all2_keeps(1) by (auto simp: kms_handled_def)
next
  case (tick s n)
  then show ?case by (simp add: kms_runs_tick)
qed

subsection \<open>What a request sets\<close>

definition target :: "u32 \<times> u32 \<times> u64 \<Rightarrow> u32 \<times> u32" where
  "target x = (case x of (ob, p, v) \<Rightarrow> (ob, p))"

lemma apply_request_other: "(ob, p) \<notin> target ` set req \<Longrightarrow> apply_request req vs ob p = vs ob p"
proof (induction req arbitrary: vs)
  case (Cons x req)
  obtain ob' p' v where x: "x = (ob', p', v)" by (cases x) auto
  have "apply_request (x # req) vs ob p = apply_setting x vs ob p" using Cons by (simp add: apply_request_def)
  then show ?case using Cons.prems by (simp add: x apply_setting_def target_def)
qed (simp add: apply_request_def)

lemma apply_request_sets:
  "distinct (map target req) \<Longrightarrow> (ob, p, v) \<in> set req \<Longrightarrow> apply_request req vs ob p = Some v"
proof (induction req arbitrary: vs)
  case (Cons x req)
  show ?case
  proof (cases "x = (ob, p, v)")
    case True
    have "apply_request (x # req) vs ob p = apply_setting x vs ob p"
      using apply_request_other [of ob p req "apply_setting x vs"] Cons.prems(1) True by (simp add: apply_request_def target_def)
    then show ?thesis by (simp add: True apply_setting_def)
  next
    case False
    then show ?thesis using Cons by (simp add: apply_request_def)
  qed
qed simp

text \<open>The framebuffer that the plane of an output shows.\<close>

definition shown_fb :: "kms \<Rightarrow> kms_output \<Rightarrow> u64 option" where
  "shown_fb s d = prop_vals s (obj_id (out_plane d)) (pid (out_plane d) ''FB_ID'')"

lemma request_fb: "d \<in> set l \<Longrightarrow> (obj_id (out_plane d), pid (out_plane d) ''FB_ID'', ucast (buf_fb (next_buf d))) \<in> set (all_request l)"
  by (auto simp: all_request_def out_request_def settings_def entry_def)

lemma first_shown:
  assumes "shown_first k s s'" and "distinct (map target (all_request (output_list s)))" and "d' \<in> set (output_list s')"
  shows "shown_fb s' d' = Some (ucast (buf_fb (next_buf d')))"
proof -
  have a: "list_all2 recolors (output_list s) (output_list s')" "prop_vals s' = apply_request (all_request (output_list s)) (prop_vals s)"
    using assms(1) by (simp_all add: shown_first_def)
  obtain d where d: "d \<in> set (output_list s)" "recolors d d'" using assms(3) a(1) by (metis in_set_conv_nth list_all2_conv_all_nth)
  show ?thesis unfolding shown_fb_def a(2) recolors_keeps(3,4) [OF d(2)] by (rule apply_request_sets [OF assms(2) request_fb [OF d(1)]])
qed

text \<open>
  The thirteen settings of an output, by their objects, the names of their properties on the card and their values: the size of the
  source is in 16.16 fixed point, and the framebuffer is the one of the buffer that is not in front.
\<close>

definition card_prop :: "kms_card \<Rightarrow> object_type \<Rightarrow> u32 \<Rightarrow> string \<Rightarrow> u32" where
  "card_prop k ty x name =
     (case props_of k x ty of
        Inl _ \<Rightarrow> 0
      | Inr ps \<Rightarrow>
          (case find (\<lambda>i. prop_name i = name) (List.map_filter (\<lambda>(p, v). prop_of k p) ps) of None \<Rightarrow> 0 | Some i \<Rightarrow> prop_id i))"

definition wanted :: "kms_card \<Rightarrow> kms_output \<Rightarrow> request" where
  "wanted k d =
     (let x = obj_id (out_crtc d); w = uint (hdisplay (out_mode d)); h = uint (vdisplay (out_mode d));
          shown = buf_fb (out_bufs d ! (if out_front d = 0 then 1 else 0));
          on_conn = (\<lambda>name v. (obj_id (out_conn d), card_prop k OBJECT_CONNECTOR (obj_id (out_conn d)) name, word_of_int v));
          on_crtc = (\<lambda>name v. (x, card_prop k OBJECT_CRTC x name, word_of_int v));
          on_plane = (\<lambda>name v. (obj_id (out_plane d), card_prop k OBJECT_PLANE (obj_id (out_plane d)) name, word_of_int v))
      in
      [on_conn ''CRTC_ID'' (uint x), on_crtc ''MODE_ID'' (uint (mode_blob_id d)), on_crtc ''ACTIVE'' 1,
       on_plane ''FB_ID'' (uint shown), on_plane ''CRTC_ID'' (uint x),
       on_plane ''SRC_X'' 0, on_plane ''SRC_Y'' 0, on_plane ''SRC_W'' (65536 * w), on_plane ''SRC_H'' (65536 * h),
       on_plane ''CRTC_X'' 0, on_plane ''CRTC_Y'' 0, on_plane ''CRTC_W'' w, on_plane ''CRTC_H'' h])"

text \<open>A setting that the card has a property for, and takes into the request.\<close>

definition takes_setting :: "kms_card \<Rightarrow> request \<Rightarrow> u32 \<times> u32 \<times> u64 \<Rightarrow> bool" where
  "takes_setting k req x = (fst (snd x) \<noteq> 0 \<and> add_of k req x = Inr ())"

lemma setting_taken: "setting_fails k req x = (\<not> takes_setting k req (entry x))"
proof -
  have "(\<exists>e. r = Inl e) = (r \<noteq> Inr ())" for r :: "int + unit" by (cases r) auto
  then show ?thesis by (auto simp: setting_fails_def takes_setting_def entry_def split: prod.split)
qed

lemma pid_card:
  assumes "kms_ok k" and "obj_ok k ty ob"
  shows "pid ob name = card_prop k ty (obj_id ob) name"
proof -
  obtain ps where ps: "props_of k (obj_id ob) ty = Inr ps" "props_info ob = map (\<lambda>(p, v). prop_of k p) ps" using assms(2) by (auto simp: obj_ok_def)
  have "\<forall>(p, v) \<in> set ps. prop_of k p \<noteq> None" using kms_okD(1) [OF assms(1) ps(1)] by blast
  moreover have "\<forall>(p, v) \<in> set qs. prop_of k p \<noteq> None \<Longrightarrow> find_prop (map (\<lambda>(p, v). prop_of k p) qs) name =
      Inr (case find (\<lambda>i. prop_name i = name) (List.map_filter (\<lambda>(p, v). prop_of k p) qs) of None \<Rightarrow> 0 | Some i \<Rightarrow> prop_id i)" for qs
    by (induction qs) (auto simp: List.map_filter_simps)
  ultimately have "find_prop (props_info ob) name =
      Inr (case find (\<lambda>i. prop_name i = name) (List.map_filter (\<lambda>(p, v). prop_of k p) ps) of None \<Rightarrow> 0 | Some i \<Rightarrow> prop_id i)"
    unfolding ps(2) by blast
  then show ?thesis by (simp add: pid_def card_prop_def ps(1))
qed

lemma shifted_size: "(ucast (push_bit 16 (ucast x :: u32)) :: u64) = word_of_int (65536 * uint (x :: 16 word))"
proof -
  have "uint x < 65536" using uint_lt2p [of x] by simp
  moreover from this have "uint (ucast x :: u32) = uint x" by (simp add: unsigned_ucast_eq take_bit_int_eq_self)
  ultimately have "uint (ucast x * 65536 :: u32) = 65536 * uint x" by (simp add: uint_word_ariths(3))
  then have "uint (ucast (push_bit 16 (ucast x :: u32)) :: u64) = 65536 * uint x"
    using \<open>uint x < 65536\<close> by (simp add: push_bit_eq_mult unsigned_ucast_eq take_bit_int_eq_self)
  then show ?thesis by (metis word_of_int_uint)
qed

lemma wanted_settings:
  assumes "kms_ok k" and "out_ok k d"
  shows "map entry (settings d (next_buf d)) = wanted k d"
proof -
  obtain b0 b1 where b: "out_bufs d = [b0, b1]" "out_front d = 0 \<and> out_back d = Inr b1 \<or> out_front d = 1 \<and> out_back d = Inr b0"
    using out_ok_bufs [OF assms(2)] by blast
  have fb: "buf_fb (out_bufs d ! (if out_front d = 0 then 1 else 0)) = buf_fb (next_buf d)" using b by (auto simp: next_buf_def)
  have ob: "obj_ok k OBJECT_CONNECTOR (out_conn d)" "obj_ok k OBJECT_CRTC (out_crtc d)" "obj_ok k OBJECT_PLANE (out_plane d)"
    using assms(2) by (simp_all add: out_ok_def objects_ok_def)
  have size: "buf_width (next_buf d) = ucast (hdisplay (out_mode d))" "buf_height (next_buf d) = ucast (vdisplay (out_mode d))"
    using assms(2) ok_back(3) [OF assms(2)] by (simp_all add: out_ok_def sized_def)
  have ids: "(ucast x :: u64) = word_of_int (uint x)" for x :: u32 by (rule ucast_eq)
  have once: "(ucast (ucast x :: u32) :: u64) = word_of_int (uint x)" for x :: "16 word"
  proof -
    have "uint (ucast x :: u32) = uint x" using uint_lt2p [of x] by (simp add: unsigned_ucast_eq take_bit_int_eq_self)
    then show ?thesis unfolding ids by simp
  qed
  have "(0 :: u64) = word_of_int 0" "(1 :: u64) = word_of_int 1" by simp_all
  then show ?thesis unfolding settings_def wanted_def Let_def fb size shifted_size once
    by (simp only: list.map entry_def prod.case pid_card [OF assms(1) ob(1)] pid_card [OF assms(1) ob(2)] pid_card [OF assms(1) ob(3)] ids)
qed

text \<open>The redraw for an event of an output.\<close>

lemma event_redraws:
  assumes "kms_ok k" and "list_ok k n s" and "d \<in> set (output_list s)"
  shows "\<exists>s'. kms_page_flip_event c k (obj_id (out_crtc d)) s = Inr ((), s') \<and> recolored (next_buf d) (gpu_state s) (gpu_state s')"
proof -
  let ?l = "output_list s" and ?d = "d\<lparr>out_pending := False\<rparr>"
  have h: "kms_holds k n ?l s" and fresh: "\<not> out_cleanup d" using assms(2,3) by (simp_all add: list_ok_def fresh_out_def)
  have ok: "out_ok k d" "owns (gpu_state s) (all_out_bufs ?l)" "distinct (crtc_ids ?l)" using h assms(3) by (simp_all add: kms_holds_def)
  have b: "next_buf d \<in> set (all_out_bufs ?l)" using ok_back(3) [OF ok(1)] assms(3) by (auto simp: all_out_bufs_def)
  have "objects_ok k ?d" "out_back ?d = Inr (next_buf d)" using ok_back(1,2) [OF ok(1)] by (simp_all add: objects_ok_def out_back_def)
  from draw_out_runs [OF assms(1) this ok(2) b] obtain d' s1 where r: "draw_out c k ?d s = Inr (d', s1)" "redraws ?d (next_buf d) (all_out_bufs ?l) s d' s1"
    by blast
  have "kms_page_flip_event c k (obj_id (out_crtc d)) s = Inr ((), s1\<lparr>output_list := put_output d' (output_list s1)\<rparr>)"
    using fresh by (simp add: kms_page_flip_event_def bindS_def [of "\<lambda>s. Inr (f s, s)" for f] find_output [OF ok(3) assms(3)]
      bindS_def [of "draw_out a b d" for a b d] r(1) kupd_def)
  then show ?thesis using redraws_state(7) [OF r(2)] by auto
qed

subsection \<open>A card\<close>

text \<open>A connector, two CRTCs and two primary planes, the first for the first CRTC and the second for the other.\<close>

definition demo_props :: "(u32 \<times> string) list" where
  "demo_props =
     [(1, ''CRTC_ID''), (2, ''MODE_ID''), (3, ''ACTIVE''), (4, ''FB_ID''), (5, ''SRC_X''), (6, ''SRC_Y''), (7, ''SRC_W''), (8, ''SRC_H''),
      (9, ''CRTC_X''), (10, ''CRTC_Y''), (11, ''CRTC_W''), (12, ''CRTC_H''), (13, ''type'')]"

definition kms_demo :: kms_card where
  "kms_demo = \<lparr>client_cap_of = (\<lambda>_. 0), vblank_cap = Some 1, planes_of = Inr [70, 71],
     plane_of = (\<lambda>p. if p = 70 then Inr 1 else if p = 71 then Inr 2 else Inl 2),
     props_of = (\<lambda>x ty.
       if x = 7 \<and> ty = OBJECT_CONNECTOR then Inr [(1, 0)]
       else if (x = 40 \<or> x = 41) \<and> ty = OBJECT_CRTC then Inr [(2, 0), (3, 0)]
       else if (x = 70 \<or> x = 71) \<and> ty = OBJECT_PLANE then
         Inr [(13, 1), (1, 0), (4, 0), (5, 0), (6, 0), (7, 0), (8, 0), (9, 0), (10, 0), (11, 0), (12, 0)]
       else Inl 2),
     prop_of = (\<lambda>p. map_option (\<lambda>t. \<lparr>prop_id = p, prop_name = t\<rparr>) (map_of demo_props p)),
     blob_of = (\<lambda>s m. if 90 \<in> blobs s then Inl 12 else Inr 90), add_of = (\<lambda>_ _. Inr ()), commit_of = (\<lambda>_ _ _. Inr ()),
     stale_errno = (\<lambda>_. 0)\<rparr>"

definition idle_kms :: kms where
  "idle_kms = \<lparr>gpu_state = demo_gpu [], output_list = [], prop_vals = (\<lambda>_ _. None), commits = Map.empty, crtc_events = [], blobs = {},
     reqs = 0, mallocs = 0, kms_ticks = 0, kms_out = []\<rparr>"

lemma kms_demo_ok: "kms_ok kms_demo"
  by (auto simp: kms_ok_def kms_demo_def demo_props_def split: if_splits)

lemma kms_demo_startable: "kms_startable flip_card kms_demo idle_kms"
proof -
  have "card_ok flip_card" "length (crtcs demo_res) \<le> 32" using demo_startable by (simp_all add: startable_def)
  moreover have "res_of flip_card = Inr demo_res" by (simp add: flip_card_def demo_card_def)
  moreover have "kms_idle idle_kms" by (simp add: kms_idle_def idle_kms_def demo_gpu_def)
  ultimately show ?thesis using kms_demo_ok by (simp add: kms_startable_def)
qed


lemma kms_demo_adds: "add_of kms_demo req x = Inr ()"
  by (simp add: kms_demo_def)


lemma kms_demo_prepares:
  "case kms_prepare flip_card kms_demo idle_kms of Inl _ \<Rightarrow> False
   | Inr (ret, s1) \<Rightarrow> ret = 0 \<and> length (output_list s1) = 1 \<and> distinct (map target (all_request (output_list s1))) \<and>
       (case prepare_all kms_demo (output_list s1) [] None (s1\<lparr>reqs := Suc (reqs s1)\<rparr>) of Inl _ \<Rightarrow> False | Inr ((r, req), _) \<Rightarrow> r = Some 0)"
  by code_simp

lemma kms_demo_wanted:
  "case kms_prepare flip_card kms_demo idle_kms of Inl _ \<Rightarrow> False
   | Inr (ret, s1) \<Rightarrow> map (wanted kms_demo) (output_list s1) =
       [[(7, 1, 40), (40, 2, 90), (40, 3, 1), (70, 4, 51), (70, 1, 40), (70, 5, 0), (70, 6, 0), (70, 7, 196608),
         (70, 8, 131072), (70, 9, 0), (70, 10, 0), (70, 11, 3), (70, 12, 2)]]"
  by code_simp

lemma perform_succeeds:
  assumes "perform_modeset c k s = Inr (ret, s')" and "\<forall>s flags req. commit_of k s flags req = Inr ()"
    and "prepare_all k (output_list s) [] None (s\<lparr>reqs := Suc (reqs s)\<rparr>) = Inr ((Some 0, req), s1)"
  shows "ret = 0"
proof -
  have commit: "\<exists>s''. atomic_commit k flags req s = Inr (Inr (), s'')" if "ATOMIC_NONBLOCK \<notin> set flags" for flags req s
    using that assms(2) by (simp add: atomic_commit_def)
  obtain s2 where s2: "atomic_commit k [TEST_ONLY, ALLOW_MODESET] req s1 = Inr (Inr (), s2)" using commit [of "[TEST_ONLY, ALLOW_MODESET]" req s1] by auto
  have "perform_modeset c k s = modeset_commit c k req s2"
    by (simp add: perform_modeset_def alloc_req_def bindS_def [of "\<lambda>s. prepare_all k (output_list s) [] None s"] assms(3) 
      bindS_def [of "atomic_commit a b f" for a b f] s2)
  moreover obtain ds s3 where f: "first_paint c (output_list s2) s2 = Inr (ds, s3)"
    using calculation assms(1) by (cases "first_paint c (output_list s2) s2") (auto simp: modeset_commit_def bindS_def [of "\<lambda>s. first_paint c (output_list s) s"])
  moreover obtain s4 where "atomic_commit k [ALLOW_MODESET, PAGE_FLIP_EVENT] req (s3\<lparr>output_list := ds\<rparr>) = Inr (Inr (), s4)"
    using commit [of "[ALLOW_MODESET, PAGE_FLIP_EVENT]" req "s3\<lparr>output_list := ds\<rparr>"] by auto
  ultimately show ?thesis using assms(1)
    by (simp add: modeset_commit_def bindS_def [of "\<lambda>s. first_paint c (output_list s) s"] bindS_def [of "atomic_commit a b f" for a b f] free_req_def returnS_def
      bindS_def [of "\<lambda>s. Inr ((), s)"])
qed

lemma kms_demo_starts:
  obtains s1 s2 d where "kms_prepare flip_card kms_demo idle_kms = Inr (0, s1)" "perform_modeset flip_card kms_demo s1 = Inr (0, s2)"
    "distinct (map target (all_request (output_list s1)))" "d \<in> set (output_list s2)" "length (output_list s1) = 1"
proof -
  obtain s1 s0 req where s1: "kms_prepare flip_card kms_demo idle_kms = Inr (0, s1)" "length (output_list s1) = 1"
    "distinct (map target (all_request (output_list s1)))"
    "prepare_all kms_demo (output_list s1) [] None (s1\<lparr>reqs := Suc (reqs s1)\<rparr>) = Inr ((Some 0, req), s0)"
  proof -
    obtain s1 where s1: "kms_prepare flip_card kms_demo idle_kms = Inr (0, s1)" "length (output_list s1) = 1"
      "distinct (map target (all_request (output_list s1)))"
      "case prepare_all kms_demo (output_list s1) [] None (s1\<lparr>reqs := Suc (reqs s1)\<rparr>) of Inl _ \<Rightarrow> False | Inr ((r, req), _) \<Rightarrow> r = Some 0"
      using kms_demo_prepares by (cases "kms_prepare flip_card kms_demo idle_kms") auto
    then show thesis using that by (cases "prepare_all kms_demo (output_list s1) [] None (s1\<lparr>reqs := Suc (reqs s1)\<rparr>)") auto
  qed
  note p = prepared [OF kms_demo_startable s1(1)]
  obtain ret s2 where 2: "perform_modeset flip_card kms_demo s1 = Inr (ret, s2)" "if ret = 0 then shown_first kms_demo s1 s2 else same_but_colors s1 s2"
    using perform_modeset_runs [OF p(1-5), of flip_card] by blast
  have r: "ret = 0" by (rule perform_succeeds [OF 2(1) _ s1(4)]) (simp add: kms_demo_def)
  then have "length (output_list s2) = 1" using 2(2) s1(2) by (auto simp: shown_first_def dest: list_all2_lengthD)
  then obtain d where "d \<in> set (output_list s2)" by (cases "output_list s2") auto
  then show thesis using that s1(1-3) 2(1) r by blast
qed

text \<open>A card whose encoder is bound to the second CRTC.\<close>

definition second_card :: card where
  "second_card = flip_card\<lparr>enc_of := \<lambda>e. Inr \<lparr>crtc_id = 41, possible_crtcs = 3\<rparr>\<rparr>"

subsection \<open>The properties\<close>

text \<open>
  C32: The list of outputs is well typed in every state of a run: after \<open>modeset_prepare\<close> has succeeded, in
  every state from the modeset on, whatever vertical blanks, reads and commits do, each output has two buffers of the size
  of its mode, a front index 0 or 1, its three objects and a CRTC that no other output has, the buffers, blobs and objects that are allocated are just those
  of the outputs, and flags, commits and events agree; and the next read is handled without an undefined step.
\<close>

theorem kms_list_typed:
  assumes "kms_startable c k s" and "kms_prepare c k s = Inr (0, s1)" and "kms_states c k w s1 s2"
  shows "(\<forall>d \<in> set (output_list s2). out_ok k d) \<and> kms_holds k 0 (output_list s2) s2 \<and>
    kms_flight (crtc_events s2) (commits s2) (output_list s2) \<and> crtc_ids (output_list s2) = crtc_ids (output_list s1) \<and>
    (\<exists>r s3. kms_handle_event c k w s2 = Inr (r, s3) \<and> kms_states c k w s1 s3)"
proof -
  have r: "kms_runs k 0 [] s2" "crtc_ids (output_list s2) = crtc_ids (output_list s1)" using states_on [OF assms(3,1,2)] by simp_all
  obtain ret s3 where "kms_handle_event c k w s2 = Inr (ret, s3)" using kms_handle_runs [OF prepared(1) [OF assms(1,2)] r(1)] by blast
  then have "\<exists>r s3. kms_handle_event c k w s2 = Inr (r, s3) \<and> kms_states c k w s1 s3" using kms_states.handle [OF assms(3)] by blast
  then show ?thesis using r by (simp add: kms_runs_def kms_holds_def)
qed

theorem kms_list_typed_witness:
  "\<exists>s1 s2. kms_prepare flip_card kms_demo idle_kms = Inr (0, s1) \<and> kms_states flip_card kms_demo demo_world s1 s2 \<and> output_list s2 \<noteq> [] \<and>
     (\<forall>d \<in> set (output_list s2). out_ok kms_demo d)"
proof -
  obtain s1 s2 d where s: "kms_prepare flip_card kms_demo idle_kms = Inr (0, s1)" "perform_modeset flip_card kms_demo s1 = Inr (0, s2)"
    "d \<in> set (output_list s2)" by (rule kms_demo_starts)
  have "output_list s2 \<noteq> []" using s(3) by auto
  then show ?thesis using kms_list_typed [OF kms_demo_startable s(1) kms_states.modeset [OF s(2)]] s(1) kms_states.modeset [OF s(2)] by blast
qed

text \<open>
  C33: \<open>modeset_atomic_prepare_commit\<close> adds to a request, in this order: the CRTC to the connector; the blob of the mode and ACTIVE 1 to
  the CRTC; and to the plane the framebuffer that is not in front, the CRTC, a source that starts at 0, 0 with the size of the mode times 65536
  and a place on the CRTC that starts at 0, 0 with the size of the mode, each with the identifier that the card has for the name of the
  property. It returns 0 exactly if all thirteen could be added, and -1 at the first that could not, with just the ones before it added.
\<close>

theorem kms_request_settings:
  assumes "kms_ok k" and "out_ok k d"
  shows "\<exists>ret n s'. prepare_commit k d req s = Inr ((ret, req @ take n (wanted k d)), s') \<and> muted s s' \<and> n \<le> 13 \<and>
    (\<forall>m < n. takes_setting k (req @ take m (wanted k d)) (wanted k d ! m)) \<and>
    (if n = 13 then ret = 0 else ret = - 1 \<and> \<not> takes_setting k (req @ take n (wanted k d)) (wanted k d ! n))"
proof -
  note b = ok_back [OF assms(2)]
  obtain ret n s' where r: "prepare_commit k d req s = Inr ((ret, req @ take n (out_request d (next_buf d))), s')" "muted s s'" "n \<le> 13"
    "\<forall>m < n. \<not> setting_fails k (req @ take m (out_request d (next_buf d))) (settings d (next_buf d) ! m)"
    "if n = 13 then ret = 0 else ret = - 1 \<and> setting_fails k (req @ take n (out_request d (next_buf d))) (settings d (next_buf d) ! n)"
    using prepare_commit_runs [OF assms(1) b(1,2)] by blast
  have w: "out_request d (next_buf d) = wanted k d" using wanted_settings [OF assms] by (simp add: out_request_def)
  have at: "entry (settings d (next_buf d) ! m) = wanted k d ! m" if "m < 13" for m
    using that unfolding wanted_settings [OF assms, symmetric] by (simp add: length_settings)
  have "takes_setting k (req @ take m (wanted k d)) (wanted k d ! m)" if "m < n" for m
  proof -
    have "takes_setting k (req @ take m (wanted k d)) (entry (settings d (next_buf d) ! m))" using that r(4) unfolding w setting_taken by blast
    then show ?thesis using at [of m] that r(3) by simp
  qed
  moreover have "if n = 13 then ret = 0 else ret = - 1 \<and> \<not> takes_setting k (req @ take n (wanted k d)) (wanted k d ! n)"
    using r(3,5) at [of n] unfolding w setting_taken by (simp split: if_splits)
  ultimately show ?thesis using r(1-3) unfolding w by blast
qed

theorem kms_request_settings_witness:
  "\<exists>s1 d s'. kms_prepare flip_card kms_demo idle_kms = Inr (0, s1) \<and> d \<in> set (output_list s1) \<and>
     prepare_commit kms_demo d [] s1 = Inr ((0, wanted kms_demo d), s') \<and> (40, 3, 1) \<in> set (wanted kms_demo d) \<and> (70, 7, 196608) \<in> set (wanted kms_demo d)"
proof -
  obtain s1 s2 d2 where s: "kms_prepare flip_card kms_demo idle_kms = Inr (0, s1)" "length (output_list s1) = 1" by (rule kms_demo_starts)
  then obtain d where d: "output_list s1 = [d]" by (auto simp: length_Suc_conv)
  have "out_ok kms_demo d" using prepared(2) [OF kms_demo_startable s(1)] d by (simp add: list_ok_def kms_holds_def)
  from kms_request_settings [OF kms_demo_ok this, of "[]" s1] obtain ret n s' where
    r: "prepare_commit kms_demo d [] s1 = Inr ((ret, [] @ take n (wanted kms_demo d)), s')" "n \<le> 13"
    "if n = 13 then ret = 0 else ret = - 1 \<and> \<not> takes_setting kms_demo ([] @ take n (wanted kms_demo d)) (wanted kms_demo d ! n)" by blast
  have w: "wanted kms_demo d = [(7, 1, 40), (40, 2, 90), (40, 3, 1), (70, 4, 51), (70, 1, 40), (70, 5, 0), (70, 6, 0), (70, 7, 196608),
      (70, 8, 131072), (70, 9, 0), (70, 10, 0), (70, 11, 3), (70, 12, 2)]"
    using kms_demo_wanted by (simp add: s(1) d)
  have "\<forall>x \<in> set (wanted kms_demo d). fst (snd x) \<noteq> 0" unfolding w by simp
  moreover have "length (wanted kms_demo d) = 13" unfolding w by simp
  ultimately have "takes_setting kms_demo req (wanted kms_demo d ! n)" if "n < 13" for req n using that nth_mem
    by (metis takes_setting_def kms_demo_adds)
  then have "n = 13" using r(2,3) by (cases "n = 13") auto
  then show ?thesis using r s(1) d by (intro exI [of _ s1] exI [of _ d] exI [of _ s']) (simp add: w)
qed

text \<open>
  C34: The plane of an output is the first primary one that works with the CRTC that has the number \<open>crtc_index\<close>. For a
  CRTC that was found among those that an encoder of the connector can drive it is the number of the CRTC; but for
  the CRTC that the connector is bound to, which is taken first, it is 0, whatever its place is.
\<close>

theorem kms_plane_index:
  assumes "kms_ok k" and "length (crtcs res) \<le> 32" and "crtc_index d = 0"
    and "kms_find_crtc c res co d s = Inr ((0, d1), s1)" and "kms_find_plane c k d1 s1 = Inr ((0, d2), s2)"
  shows "(\<exists>ps. planes_of k = Inr ps \<and> find (good_plane k (crtc_index d1)) ps = Some (obj_id (out_plane d2))) \<and>
    out_crtc d2 = out_crtc d1 \<and> obj_id (out_crtc d1) \<notin> out_crtcs (output_list s) \<and>
    (bound_crtc c co = Some (obj_id (out_crtc d1)) \<or> drives c res co (obj_id (out_crtc d1)) (unat (crtc_index d1))) \<and>
    (\<forall>x. bound_crtc c co = Some x \<and> x \<notin> out_crtcs (output_list s) \<longrightarrow> obj_id (out_crtc d1) = x \<and> crtc_index d1 = 0)"
proof -
  have f: "finds_crtc c res co d d1" "obj_id (out_crtc d1) \<notin> out_crtcs (output_list s)"
    using kms_find_crtc_runs [OF assms(2), of c co d s] assms(4) by auto
  have i: "crtc_index d1 < 32" using finds_crtc_fields(1) [OF f(1)] assms(3) by simp
  have "\<exists>ps. planes_of k = Inr ps \<and> find (good_plane k (crtc_index d1)) ps = Some (obj_id (out_plane d2)) \<and> out_crtc d2 = out_crtc d1"
    using kms_find_plane_runs [OF assms(1) i, of c s1] assms(5) by (auto simp: ENOENT_def EINVAL_def split: sum.splits option.splits)
  moreover have "bound_crtc c co = Some (obj_id (out_crtc d1)) \<or> drives c res co (obj_id (out_crtc d1)) (unat (crtc_index d1))"
    using f(1) by (auto simp: finds_crtc_def set_crtc_id_def unat_of_nat take_bit_nat_eq_self)
  moreover have "obj_id (out_crtc d1) = x \<and> crtc_index d1 = 0" if "bound_crtc c co = Some x \<and> x \<notin> out_crtcs (output_list s)" for x
    using that assms(3,4) by (auto simp: kms_find_crtc_def bindS_def kms_current_crtc_runs returnS_def set_crtc_id_def)
  ultimately show ?thesis using f(2) by blast
qed

theorem kms_plane_index_witness:
  "\<exists>d1 s1 d2 s2. kms_find_crtc second_card demo_res (demo_connector 7) zero_output idle_kms = Inr ((0, d1), s1) \<and>
     kms_find_plane second_card kms_demo d1 s1 = Inr ((0, d2), s2) \<and> obj_id (out_crtc d2) = 41 \<and> crtcs demo_res ! 1 = 41 \<and>
     \<not> good_plane kms_demo 1 (obj_id (out_plane d2))"
proof -
  let ?c = second_card and ?d = "set_crtc_id 41 zero_output"
  have b: "bound_crtc ?c (demo_connector 7) = Some 41" by (simp add: bound_crtc_def demo_connector_def second_card_def)
  have 1: "kms_find_crtc ?c demo_res (demo_connector 7) zero_output idle_kms = Inr ((0, ?d), idle_kms)"
    by (simp add: kms_find_crtc_def bindS_def kms_current_crtc_runs b returnS_def idle_kms_def out_crtcs_def)
  have i: "crtc_index ?d = 0" "crtc_index zero_output = 0" by (simp_all add: zero_output_def set_crtc_id_def)
  have g: "find (good_plane kms_demo 0) [70, 71] = Some 70" "\<not> good_plane kms_demo 1 70" by code_simp+
  have p: "planes_of kms_demo = Inr [70, 71]" by (simp add: kms_demo_def)
  obtain d2 s2 where 2: "kms_find_plane ?c kms_demo ?d idle_kms = Inr ((0, d2), s2)"
    using kms_find_plane_runs [OF kms_demo_ok, of ?d ?c idle_kms] i(1) g(1) p by auto
  have "length (crtcs demo_res) \<le> 32" by (simp add: demo_res_def)
  from kms_plane_index [OF kms_demo_ok this i(2) 1 2] have k: "\<exists>ps. planes_of kms_demo = Inr ps \<and> find (good_plane kms_demo 0) ps = Some (obj_id (out_plane d2))"
    "out_crtc d2 = out_crtc ?d" unfolding i(1) by blast+
  have "find (good_plane kms_demo 0) [70, 71] = Some (obj_id (out_plane d2))" using k(1) unfolding p by blast
  then have "obj_id (out_plane d2) = 70" "obj_id (out_crtc d2) = 41" using g(1) k(2) by (simp_all only: option.inject) (simp add: set_crtc_id_def)
  then show ?thesis using 1 2 g(2) by (auto simp: demo_res_def)
qed

text \<open>
  C35: After the first modeset every output shows a painted buffer, and the handler of the first event paints the very
  buffer that is shown: \<open>modeset_perform_modeset\<close> does not exchange the two buffers.
\<close>

theorem kms_first_redraw_visible:
  assumes "kms_startable c k s" and "kms_prepare c k s = Inr (0, s1)" and "perform_modeset c k s1 = Inr (0, s2)"
    and "distinct (map target (all_request (output_list s1)))" and "d \<in> set (output_list s2)"
  shows "obj_id (out_crtc d) \<in> set (crtc_events s2) \<and> \<not> out_pending d \<and>
    shown_fb s2 d = Some (ucast (buf_fb (next_buf d))) \<and> (\<exists>v. painted v (gpu_state s2) (as_dev (next_buf d))) \<and>
    (\<exists>s3. kms_page_flip_event c k (obj_id (out_crtc d)) s2 = Inr ((), s3) \<and> recolored (next_buf d) (gpu_state s2) (gpu_state s3))"
proof -
  note p = prepared [OF assms(1,2)]
  have f: "shown_first k s1 s2" "list_ok k 0 s2" using perform_modeset_runs [OF p(1-5), of c] assms(3) by auto
  then have a: "list_all2 recolors (output_list s1) (output_list s2)" "set (crtc_events s2) = set (crtc_ids (output_list s1))"
    by (simp_all add: shown_first_def)
  have "obj_id (out_crtc d) \<in> set (crtc_ids (output_list s2))" using assms(5) by simp
  then have "obj_id (out_crtc d) \<in> set (crtc_events s2)" unfolding a(2) all2_keeps(1) [OF all2_recolors(1) [OF a(1)]] .
  moreover have "\<not> out_pending d" using f(2) assms(5) by (simp add: list_ok_def fresh_out_def)
  moreover have "\<exists>v. painted v (gpu_state s2) (as_dev (next_buf d))" using f(1) assms(5) by (simp add: shown_first_def)
  ultimately show ?thesis using first_shown [OF f(1) assms(4,5)] event_redraws [OF p(1) f(2) assms(5)] by blast
qed

theorem kms_first_redraw_visible_witness:
  "\<exists>s1 s2 s3 d. kms_prepare flip_card kms_demo idle_kms = Inr (0, s1) \<and> perform_modeset flip_card kms_demo s1 = Inr (0, s2) \<and>
     d \<in> set (output_list s2) \<and> shown_fb s2 d = Some (ucast (buf_fb (next_buf d))) \<and>
     kms_page_flip_event flip_card kms_demo (obj_id (out_crtc d)) s2 = Inr ((), s3) \<and> recolored (next_buf d) (gpu_state s2) (gpu_state s3)"
proof -
  obtain s1 s2 d where s: "kms_prepare flip_card kms_demo idle_kms = Inr (0, s1)" "perform_modeset flip_card kms_demo s1 = Inr (0, s2)"
    "distinct (map target (all_request (output_list s1)))" "d \<in> set (output_list s2)" by (rule kms_demo_starts)
  show ?thesis using kms_first_redraw_visible [OF kms_demo_startable s] s by blast
qed



text \<open>A redraw whose preparing fails leaves its request.\<close>

lemma request_leaks:
  assumes "kms_ok k" and "out_ok k d" and "owns (gpu_state s) bs" and "next_buf d \<in> set bs" and "pid (out_conn d) ''CRTC_ID'' = 0"
  shows "\<exists>d' s'. draw_out c k d s = Inr (d', s') \<and> reqs s' = Suc (reqs s)"
proof -
  obtain r gr bl g where p: "paint c d s = Inr (d\<lparr>out_red := r, out_green := gr, out_blue := bl\<rparr>, s\<lparr>gpu_state := g\<rparr>)"
    using paint_runs [OF assms(3) ok_back(2) [OF assms(2)] assms(4)] by blast
  let ?d = "d\<lparr>out_red := r, out_green := gr, out_blue := bl\<rparr>" and ?s = "s\<lparr>gpu_state := g, reqs := Suc (reqs s)\<rparr>"
  have d: "objects_ok k ?d" "out_back ?d = Inr (next_buf d)" using ok_back(1,2) [OF assms(2)] by (simp_all add: objects_ok_def out_back_def)
  obtain ret n s1 where 1: "prepare_commit k ?d [] ?s = Inr ((ret, [] @ take n (out_request ?d (next_buf d))), s1)" "muted ?s s1" "n \<le> 13"
    "\<forall>m < n. \<not> setting_fails k ([] @ take m (out_request ?d (next_buf d))) (settings ?d (next_buf d) ! m)"
    "if n = 13 then ret = 0 else ret = - 1 \<and> setting_fails k ([] @ take n (out_request ?d (next_buf d))) (settings ?d (next_buf d) ! n)"
    using prepare_commit_runs [OF assms(1) d] by blast
  have "setting_fails k req (settings ?d (next_buf d) ! 0)" for req using assms(5) by (simp add: settings_def setting_fails_def)
  then have "n = 0" using 1(4) by blast
  then have "ret = - 1" using 1(5) by simp
  moreover obtain s2 where s2: "warn ''prepare atomic commit failed, %d\<newline>'' [AInt (word_of_int (stale_errno k s1))] s1 = Inr ((), s2)" "muted s1 s2"
    using warn_muted [OF kms_formats(14)] by blast
  ultimately have "draw_out c k d s = Inr (?d, s2)"
    by (simp add: draw_out_def bindS_Inr [where m = "paint c d", OF p] alloc_req_def bindS_Inr [where m = "prepare_commit a b f" for a b f, OF 1(1)])
      (simp add: bindS_def s2(1) returnS_def)
  then show ?thesis using muted_keeps(7) [OF 1(2)] muted_keeps(7) [OF s2(2)] by simp
qed

end
