(* ===== verification/Modes.thy ===== *)
theory Modes
  imports Modeset CLib
begin

text \<open>
  The variants of \<open>modeset.c\<close>: \<open>modeset13.c\<close>, where the number of the mode is an argument of the program and
  three nested areas are painted; \<open>modeset_list_mode.c\<close>, which prints the modes and ends; and \<open>cairo/modeset13_cairo.c\<close>, which is
  the first but for the painting. All other functions are, line by line, those of \<open>modeset.c\<close>.
\<close>

subsection \<open>A mode by its number\<close>

text \<open>\<open>conn->modes[mode_index]\<close>\<close>

definition nth_mode :: "connector \<Rightarrow> int \<Rightarrow> mode_info res" where
  "nth_mode co i = (if 0 \<le> i then buf_at (modes co) (nat i) else Inl OutOfBounds)"

definition setup13 :: "int \<Rightarrow> setup_fun" where
  "setup13 i c res co d =
     (if \<not> connected co then
        bindS (say ''ignoring unused connector %u\<newline>'' [AInt (connector_id co)]) (\<lambda>_. returnS (- ENOENT, d))
      else if modes co = [] then
        bindS (say ''no valid mode for connector %u\<newline>'' [AInt (connector_id co)]) (\<lambda>_. returnS (- EFAULT, d))
      else
        bindS (say ''select mode index %d\<newline>'' [AInt (word_of_int i)]) (\<lambda>_.
        bindS (liftS (nth_mode co i)) (\<lambda>m. setup_mode c res co d m)))"

subsection \<open>Three areas\<close>

text \<open>
  The loops from \<open>a\<close> to \<open>height - a\<close> and \<open>width - a\<close>, whose bounds are computed in 32 bits without a sign, with the
  number of rows left.
\<close>

primrec area_rows :: "modeset_dev \<Rightarrow> u32 \<Rightarrow> u32 \<Rightarrow> nat \<Rightarrow> nat \<Rightarrow> unit mm" where
  "area_rows d v a j 0 = returnS ()"
| "area_rows d v a j (Suc n) =
     bindS (draw_row d v j (unat a) (unat (width d - a) - unat a)) (\<lambda>_. area_rows d v a (Suc j) n)"

primrec area_devs :: "u32 \<Rightarrow> u32 \<Rightarrow> modeset_dev list \<Rightarrow> unit mm" where
  "area_devs v a [] = returnS ()"
| "area_devs v a (d # ds) =
     bindS (area_rows d v a (unat a) (unat (height d - a) - unat a)) (\<lambda>_. area_devs v a ds)"

definition draw_area :: "u32 \<Rightarrow> u32 \<Rightarrow> unit mm" where
  "draw_area v a g = area_devs v a (modeset_list g) g"

definition modeset_draw2 :: "card \<Rightarrow> unit mm" where
  "modeset_draw2 c =
     bindS (draw_area (color_word 0xff 0 0) 0) (\<lambda>_.
     bindS (draw_area (color_word 0 0xff 0) 100) (\<lambda>_.
     draw_area (color_word 0 0 0xff) 200))"

text \<open>\<open>main\<close> sets \<open>mode_index\<close> from its argument.\<close>

definition mode_index :: "string list \<Rightarrow> int" where
  "mode_index argv = (if 1 < length argv then atoi (argv ! 1) else 13)"

definition modes13_main :: "card \<Rightarrow> string list \<Rightarrow> int mm" where
  "modes13_main c argv = main_with (setup13 (mode_index argv)) modeset_draw2 c ''/dev/dri/card0''"

subsection \<open>Printing the modes\<close>

primrec list_modes :: "mode_info list \<Rightarrow> nat \<Rightarrow> unit mm" where
  "list_modes [] i = returnS ()"
| "list_modes (m # ms) i =
     bindS (say ''[%d] width * height: %d * %d name=%s\<newline>''
       [AInt (word_of_nat i), AInt (ucast (hdisplay m)), AInt (ucast (vdisplay m)), AStr (mode_name m)]) (\<lambda>_.
     list_modes ms (Suc i))"

definition setup_list :: setup_fun where
  "setup_list c res co d =
     (if \<not> connected co then
        bindS (say ''ignoring unused connector %u\<newline>'' [AInt (connector_id co)]) (\<lambda>_. returnS (- ENOENT, d))
      else if modes co = [] then
        bindS (say ''no valid mode for connector %u\<newline>'' [AInt (connector_id co)]) (\<lambda>_. returnS (- EFAULT, d))
      else bindS (list_modes (modes co) 0) (\<lambda>_. returnS (0, d)))"

text \<open>The program returns from \<open>main\<close> as soon as it has prepared its devices.\<close>

definition list_main :: "card \<Rightarrow> string list \<Rightarrow> int mm" where
  "list_main c argv =
     (let node = if 1 < length argv then argv ! 1 else ''/dev/dri/card0'' in
      bindS (say (''using card '' @ QUOTE @ ''%s'' @ QUOTE @ ''\<newline>'') [AStr node]) (\<lambda>_.
      bindS (modeset_open c node) (\<lambda>ret.
      if ret \<noteq> 0 then modeset_report c ret
      else
        bindS (prepare_with setup_list c) (\<lambda>ret.
        if ret \<noteq> 0 then bindS (upd (\<lambda>g. g\<lparr>fds := fds g - 1\<rparr>)) (\<lambda>_. modeset_report c ret)
        else returnS 0))))"

subsection \<open>A line by cairo\<close>

text \<open>
  What cairo makes of the bytes of a buffer is a parameter, by the width, the height and the stride. Only the first device of the list is painted,
  and there has to be one.
\<close>

definition draw_cairo :: "(u32 \<Rightarrow> u32 \<Rightarrow> u32 \<Rightarrow> byte list \<Rightarrow> byte list) \<Rightarrow> card \<Rightarrow> unit mm" where
  "draw_cairo stroke c g =
     (case modeset_list g of
        [] \<Rightarrow> Inl NullDeref
      | d # _ \<Rightarrow>
          bindE (deref (maps g (handle d))) (\<lambda>b.
          Inr ((), g\<lparr>maps := (maps g)(handle d := Some (stroke (width d) (height d) (stride d) b))\<rparr>)))"

definition cairo_main :: "(u32 \<Rightarrow> u32 \<Rightarrow> u32 \<Rightarrow> byte list \<Rightarrow> byte list) \<Rightarrow> card \<Rightarrow> string list \<Rightarrow> int mm" where
  "cairo_main stroke c argv = main_with (setup13 (mode_index argv)) (draw_cairo stroke) c ''/dev/dri/card0''"

end
