(* ===== verification/ModesRun.thy ===== *)
theory ModesRun
  imports ModesetRun Modes
begin

unbundle bit_operations_syntax

text \<open>
  The variants of \<open>modeset.c\<close>: what the three areas look like, when painting them leaves the buffer, that a run with a large enough mode
  gives everything back, and what the program that prints the modes leaves.
\<close>

subsection \<open>One area\<close>

definition inside :: "nat \<Rightarrow> modeset_dev \<Rightarrow> nat \<Rightarrow> nat \<Rightarrow> bool" where
  "inside a d r k = (a \<le> r \<and> r < unat (height d) - a \<and> a \<le> k \<and> k < unat (width d) - a)"

lemma bytes_kept:
  assumes "p + 4 \<le> length b" and "length b' = length b" and "\<forall>i. i < x \<or> y \<le> i \<longrightarrow> b' ! i = b ! i" and "p + 4 \<le> x \<or> y \<le> p"
  shows "bslice p 4 b' = bslice p 4 b"
proof (rule bslice_cong [OF assms(1,2)])
  show "\<forall>i. p \<le> i \<and> i < p + 4 \<longrightarrow> b' ! i = b ! i" using assms(3,4) by auto
qed

lemma pos_apart:
  assumes "fits d" and "k < unat (width d)" and "e \<le> unat (width d)" and "r \<noteq> j \<or> k < s \<or> e \<le> k"
  shows "pos d r k + 4 \<le> pos d j s \<or> pos d j e \<le> pos d r k"
proof -
  have w: "4 * unat (width d) \<le> unat (stride d)" using assms(1) by (simp add: fits_def)
  consider "r < j" | "j < r" | "r = j" by linarith
  then show ?thesis
  proof cases
    case 1
    then have "unat (stride d) * Suc r \<le> unat (stride d) * j" by (intro mult_le_mono) simp_all
    then show ?thesis using w assms(2) by (simp add: pos_def)
  next
    case 2
    then have "unat (stride d) * Suc j \<le> unat (stride d) * r" by (intro mult_le_mono) simp_all
    then show ?thesis using w assms(3) by (simp add: pos_def)
  next
    case 3
    then show ?thesis using assms(4) by (auto simp: pos_def)
  qed
qed

lemma area_rows_runs:
  assumes "fits d" and "unat a + (unat (width d - a) - unat a) \<le> unat (width d)"
  shows "j + n \<le> unat (height d) \<Longrightarrow> maps g (handle d) = Some b \<Longrightarrow> length b = unat (dev_size d) \<Longrightarrow>
    \<exists>b'. area_rows d v a j n g = Inr ((), g\<lparr>maps := (maps g)(handle d := Some b')\<rparr>) \<and> length b' = length b \<and>
      (\<forall>r < unat (height d). \<forall>k < unat (width d). bslice (pos d r k) 4 b' =
         (if j \<le> r \<and> r < j + n \<and> unat a \<le> k \<and> k < unat a + (unat (width d - a) - unat a) then le_bytes 4 (unat v) else bslice (pos d r k) 4 b))"
proof (induction n arbitrary: j g b)
  case 0
  then show ?case by (intro exI [of _ b]) (simp only: area_rows.simps returnS_apply remap, auto)
next
  case (Suc n)
  let ?s = "unat a" and ?n = "unat (width d - a) - unat a"
  have j: "j < unat (height d)" using Suc.prems by simp
  obtain b1 where b1: "draw_row d v j ?s ?n g = Inr ((), g\<lparr>maps := (maps g)(handle d := Some b1)\<rparr>)" "length b1 = length b"
    "\<forall>k. ?s \<le> k \<and> k < ?s + ?n \<longrightarrow> bslice (pos d j k) 4 b1 = le_bytes 4 (unat v)"
    "\<forall>p. p < pos d j ?s \<or> pos d j (?s + ?n) \<le> p \<longrightarrow> b1 ! p = b ! p"
    using draw_row_runs [OF assms(1) j assms(2) Suc.prems(2,3)] by blast
  let ?g = "g\<lparr>maps := (maps g)(handle d := Some b1)\<rparr>"
  have pre: "Suc j + n \<le> unat (height d)" "maps ?g (handle d) = Some b1" "length b1 = unat (dev_size d)"
    using Suc.prems b1(2) by simp_all
  obtain b' where b': "area_rows d v a (Suc j) n ?g = Inr ((), ?g\<lparr>maps := (maps ?g)(handle d := Some b')\<rparr>)" "length b' = length b1"
    "\<forall>r < unat (height d). \<forall>k < unat (width d). bslice (pos d r k) 4 b' =
         (if Suc j \<le> r \<and> r < Suc j + n \<and> ?s \<le> k \<and> k < ?s + ?n then le_bytes 4 (unat v) else bslice (pos d r k) 4 b1)"
    using Suc.IH [OF pre] by blast
  have row: "bslice (pos d r k) 4 b1 = (if r = j \<and> ?s \<le> k \<and> k < ?s + ?n then le_bytes 4 (unat v) else bslice (pos d r k) 4 b)"
    if rk: "r < unat (height d)" "k < unat (width d)" for r k
  proof (cases "r = j \<and> ?s \<le> k \<and> k < ?s + ?n")
    case False
    then have "r \<noteq> j \<or> k < ?s \<or> ?s + ?n \<le> k" by linarith
    from pos_apart [OF assms(1) rk(2) assms(2) this] have "bslice (pos d r k) 4 b1 = bslice (pos d r k) 4 b"
      using pos_inside(1) [OF assms(1) rk] Suc.prems(3) b1(2,4) by (intro bytes_kept [of _ b b1 "pos d j ?s" "pos d j (?s + ?n)"]) simp_all
    then show ?thesis by (simp only: if_not_P [OF False])
  qed (use b1(3) in auto)
  have "bslice (pos d r k) 4 b' =
      (if j \<le> r \<and> r < j + Suc n \<and> ?s \<le> k \<and> k < ?s + ?n then le_bytes 4 (unat v) else bslice (pos d r k) 4 b)"
    if rk: "r < unat (height d)" "k < unat (width d)" for r k
    using b'(3) rk row [OF rk] by (cases "r = j") auto
  moreover have "area_rows d v a j (Suc n) g = Inr ((), g\<lparr>maps := (maps g)(handle d := Some b')\<rparr>)"
    using b'(1) by (simp add: bindS_def b1(1))
  moreover have "length b' = length b" using b'(2) b1(2) by simp
  ultimately show ?case by blast
qed

text \<open>The bytes of a pixel.\<close>

definition pixel :: "gpu \<Rightarrow> modeset_dev \<Rightarrow> nat \<Rightarrow> nat \<Rightarrow> byte list" where
  "pixel g d r k = (case maps g (handle d) of None \<Rightarrow> [] | Some b \<Rightarrow> bslice (pos d r k) 4 b)"

lemma unat_sub_margin: "a \<le> x \<Longrightarrow> unat (x - a) = unat x - unat (a :: u32)"
  by (simp add: unat_sub word_le_nat_alt)

lemma area_devs_runs:
  assumes "\<forall>d \<in> set ds. fits d \<and> a \<le> width d \<and> a \<le> height d \<and> (\<exists>b. maps g (handle d) = Some b \<and> length b = unat (dev_size d))"
    and "distinct (map handle ds)"
  shows "\<exists>g'. area_devs v a ds g = Inr ((), g') \<and> redrawn g g' \<and> (\<forall>h. h \<notin> handle ` set ds \<longrightarrow> maps g' h = maps g h) \<and>
    (\<forall>d \<in> set ds. \<forall>r < unat (height d). \<forall>k < unat (width d). pixel g' d r k = (if inside (unat a) d r k then le_bytes 4 (unat v) else pixel g d r k))"
  using assms
proof (induction ds arbitrary: g)
  case Nil
  then show ?case by (simp add: returnS_def redrawn_refl)
next
  case (Cons d ds)
  obtain b where b: "fits d" "a \<le> width d" "a \<le> height d" "maps g (handle d) = Some b" "length b = unat (dev_size d)" using Cons.prems(1) by auto
  have sz: "unat (width d - a) = unat (width d) - unat a" "unat (height d - a) = unat (height d) - unat a" "unat a \<le> unat (width d)" "unat a \<le> unat (height d)"
    using b(2,3) unat_sub_margin by (simp_all add: word_le_nat_alt)
  have p: "unat a + (unat (width d - a) - unat a) \<le> unat (width d)" "unat a + (unat (height d - a) - unat a) \<le> unat (height d)"
    unfolding sz(1,2) using sz(3,4) by linarith+
  obtain b' where b': "area_rows d v a (unat a) (unat (height d - a) - unat a) g = Inr ((), g\<lparr>maps := (maps g)(handle d := Some b')\<rparr>)" "length b' = length b"
    "\<forall>r < unat (height d). \<forall>k < unat (width d). bslice (pos d r k) 4 b' =
         (if unat a \<le> r \<and> r < unat a + (unat (height d - a) - unat a) \<and> unat a \<le> k \<and> k < unat a + (unat (width d - a) - unat a)
          then le_bytes 4 (unat v) else bslice (pos d r k) 4 b)"
    using area_rows_runs [OF b(1) p b(4,5), of v] by blast
  define g1 where "g1 = g\<lparr>maps := (maps g)(handle d := Some b')\<rparr>"
  have "g1 = g\<lparr>maps := (maps g)(handle d := Some b'), rands := rands g\<rparr>" by (simp add: g1_def)
  then have "\<exists>m n. g1 = g\<lparr>maps := m, rands := n\<rparr>" by blast
  moreover have "\<forall>h. map_option length (maps g1 h) = map_option length (maps g h)" using b'(2) b(4) by (simp add: g1_def)
  ultimately have 1: "redrawn g g1" unfolding redrawn_def by blast
  have new: "handle d \<notin> handle ` set ds" using Cons.prems(2) by simp
  have same: "maps g1 (handle x) = maps g (handle x)" if "x \<in> set ds" for x
  proof -
    have "handle x \<noteq> handle d" using that new by (metis image_eqI)
    then show ?thesis by (simp add: g1_def)
  qed
  then obtain g' where g': "area_devs v a ds g1 = Inr ((), g')" "redrawn g1 g'" "\<forall>h. h \<notin> handle ` set ds \<longrightarrow> maps g' h = maps g1 h"
    "\<forall>d \<in> set ds. \<forall>r < unat (height d). \<forall>k < unat (width d). pixel g' d r k = (if inside (unat a) d r k then le_bytes 4 (unat v) else pixel g1 d r k)"
    using Cons.IH [of g1] Cons.prems by auto
  have "pixel g' d r k = (if inside (unat a) d r k then le_bytes 4 (unat v) else pixel g d r k)"
    if "r < unat (height d)" "k < unat (width d)" for r k
  proof -
    have "(unat a \<le> r \<and> r < unat a + (unat (height d - a) - unat a) \<and> unat a \<le> k \<and> k < unat a + (unat (width d - a) - unat a)) = inside (unat a) d r k"
      using sz by (auto simp: inside_def)
    then show ?thesis using b'(3) that g'(3) new b(4) by (simp add: pixel_def g1_def)
  qed
  moreover have "area_devs v a (d # ds) g = Inr ((), g')" using b'(1) g'(1) by (simp add: bindS_def g1_def)
  moreover have "\<forall>h. h \<notin> handle ` set (d # ds) \<longrightarrow> maps g' h = maps g h" using g'(3) by (simp add: g1_def)
  moreover have "\<forall>x \<in> set ds. \<forall>r k. pixel g1 x r k = pixel g x r k" using same by (simp add: pixel_def)
  ultimately show ?case using g'(4) redrawn_trans [OF 1 g'(2)] by auto
qed

lemma draw_area_runs:
  assumes "devs_ok c res g" and "\<forall>d \<in> set (modeset_list g). a \<le> width d \<and> a \<le> height d"
  shows "\<exists>g'. draw_area v a g = Inr ((), g') \<and> redrawn g g' \<and>
    (\<forall>d \<in> set (modeset_list g). \<forall>r < unat (height d). \<forall>k < unat (width d).
       pixel g' d r k = (if inside (unat a) d r k then le_bytes 4 (unat v) else pixel g d r k))"
proof -
  have "\<forall>d \<in> set (modeset_list g). fits d \<and> a \<le> width d \<and> a \<le> height d \<and> (\<exists>b. maps g (handle d) = Some b \<and> length b = unat (dev_size d))"
    and "distinct (map handle (modeset_list g))"
    using assms by (auto simp: devs_ok_def Let_def set_up_def)
  from area_devs_runs [OF this, of v] show ?thesis unfolding draw_area_def by blast
qed

subsection \<open>Three areas\<close>

text \<open>The colour of a pixel: red, inside 100 pixels green, inside 200 blue.\<close>

definition area_color :: "modeset_dev \<Rightarrow> nat \<Rightarrow> nat \<Rightarrow> u32" where
  "area_color d r k =
     (if inside 200 d r k then color_word 0 0 0xff else if inside 100 d r k then color_word 0 0xff 0 else color_word 0xff 0 0)"

definition roomy :: "gpu \<Rightarrow> bool" where
  "roomy g = (\<forall>d \<in> set (modeset_list g). 200 \<le> width d \<and> 200 \<le> height d)"

lemma draw2_runs:
  assumes "devs_ok c res g" and "roomy g"
  shows "\<exists>g'. modeset_draw2 c' g = Inr ((), g') \<and> redrawn g g' \<and>
    (\<forall>d \<in> set (modeset_list g). \<forall>r < unat (height d). \<forall>k < unat (width d). pixel g' d r k = le_bytes 4 (unat (area_color d r k)))"
proof -
  have big: "a \<le> width d \<and> a \<le> height d" if "a \<in> {0, 100, 200}" "d \<in> set (modeset_list g)" for a d
  proof -
    have "a \<le> 200" using that(1) by auto
    then show ?thesis using that(2) assms(2) order_trans [of a 200] by (auto simp: roomy_def)
  qed
  obtain g1 where 1: "draw_area (color_word 0xff 0 0) 0 g = Inr ((), g1)" "redrawn g g1"
    "\<forall>d \<in> set (modeset_list g). \<forall>r < unat (height d). \<forall>k < unat (width d).
       pixel g1 d r k = (if inside (unat (0 :: u32)) d r k then le_bytes 4 (unat (color_word 0xff 0 0)) else pixel g d r k)"
    using draw_area_runs [OF assms(1), of 0 "color_word 0xff 0 0"] big [of 0] by blast
  note l1 = redrawn_keeps(1) [OF 1(2)] and ok1 = redrawn_keeps(3) [OF 1(2) assms(1)]
  obtain g2 where 2: "draw_area (color_word 0 0xff 0) 100 g1 = Inr ((), g2)" "redrawn g1 g2"
    "\<forall>d \<in> set (modeset_list g1). \<forall>r < unat (height d). \<forall>k < unat (width d).
       pixel g2 d r k = (if inside (unat (100 :: u32)) d r k then le_bytes 4 (unat (color_word 0 0xff 0)) else pixel g1 d r k)"
    using draw_area_runs [OF ok1, of 100 "color_word 0 0xff 0"] big [of 100] l1 by auto
  note l2 = redrawn_keeps(1) [OF 2(2)] and ok2 = redrawn_keeps(3) [OF 2(2) ok1]
  obtain g3 where 3: "draw_area (color_word 0 0 0xff) 200 g2 = Inr ((), g3)" "redrawn g2 g3"
    "\<forall>d \<in> set (modeset_list g2). \<forall>r < unat (height d). \<forall>k < unat (width d).
       pixel g3 d r k = (if inside (unat (200 :: u32)) d r k then le_bytes 4 (unat (color_word 0 0 0xff)) else pixel g2 d r k)"
    using draw_area_runs [OF ok2, of 200 "color_word 0 0 0xff"] big [of 200] l1 l2 by auto
  have "pixel g3 d r k = le_bytes 4 (unat (area_color d r k))"
    if d: "d \<in> set (modeset_list g)" "r < unat (height d)" "k < unat (width d)" for d r k
  proof -
    have "pixel g1 d r k = le_bytes 4 (unat (color_word 0xff 0 0))" using 1(3) d by (simp add: inside_def)
    moreover have "pixel g2 d r k = (if inside 100 d r k then le_bytes 4 (unat (color_word 0 0xff 0)) else pixel g1 d r k)"
      using 2(3) d by (simp add: l1)
    moreover have "pixel g3 d r k = (if inside 200 d r k then le_bytes 4 (unat (color_word 0 0 0xff)) else pixel g2 d r k)"
      using 3(3) d by (simp add: l1 l2)
    ultimately show ?thesis by (simp add: area_color_def)
  qed
  moreover have "modeset_draw2 c' g = Inr ((), g3)" by (simp only: modeset_draw2_def bindS_def 1(1) 2(1) 3(1) bindE_simps prod.case)
  ultimately show ?thesis using redrawn_trans [OF redrawn_trans [OF 1(2) 2(2)] 3(2)] by blast
qed

subsection \<open>A run with a mode by its number\<close>

definition later_modes :: "int \<Rightarrow> connector \<Rightarrow> connector" where
  "later_modes i co = co\<lparr>modes := drop (nat i) (modes co)\<rparr>"

text \<open>A card all of whose monitors have a mode with the number, of at least 200 times 200 pixels.\<close>

definition has_mode :: "int \<Rightarrow> connector \<Rightarrow> bool" where
  "has_mode i co = (0 \<le> i \<and> (\<exists>m. nat i < length (modes co) \<and> m = modes co ! nat i \<and> 200 \<le> hdisplay m \<and> 200 \<le> vdisplay m))"

definition fine13 :: "int \<Rightarrow> card \<Rightarrow> resources \<Rightarrow> bool" where
  "fine13 i c res = (small_card c res \<and> (\<forall>k co. conn_of c k = Inr co \<and> connected co \<and> modes co \<noteq> [] \<longrightarrow> has_mode i co))"

lemma setup_result_viewed: "setup_result (viewed view c) res co d g r = setup_result c res co d g r"
  by (simp add: setup_result_def set_up_def)

lemma setup_result_silent: "silent g g1 \<Longrightarrow> setup_result c res co d g1 r \<Longrightarrow> setup_result c res co d g r"
  unfolding setup_result_def using silent_trans [of g g1] silent_list [of g g1] gets_buffer_silent [of g g1] by auto metis

lemma later_fields:
  "connector_id (later_modes i co) = connector_id co" "encoders (later_modes i co) = encoders co" "connected (later_modes i co) = connected co"
  "encoder_id (later_modes i co) = encoder_id co" "modes (later_modes i co) = drop (nat i) (modes co)"
  by (simp_all add: later_modes_def)

lemma setup_mode_later: "setup_mode c res (later_modes i co) d m = setup_mode c res co d m"
  unfolding setup_mode_def modeset_find_crtc_def current_crtc_def later_fields ..

lemma setup13_spec:
  assumes "fine13 i c res" and "conn_of c k = Inr co"
  shows "setup_result (viewed (later_modes i) c) res (later_modes i co) d g (setup13 i c res co d g)"
proof -
  have c: "card_ok c" "length (crtcs res) \<le> 32" using assms(1) by (simp_all add: fine13_def small_card_def)
  note spec = setup_dev_spec [OF c, of "later_modes i co" d]
  show ?thesis
  proof (cases "connected co \<and> modes co \<noteq> []")
    case False
    then have "setup13 i c res co d = modeset_setup_dev c res (later_modes i co) d"
      by (auto simp: setup13_def modeset_setup_dev_def later_fields)
    then show ?thesis using spec [of g] by (simp add: setup_result_viewed)
  next
    case True
    then have m: "0 \<le> i" "nat i < length (modes co)" using assms unfolding fine13_def has_mode_def by blast+
    have f: "formats ''select mode index %d\<newline>'' [AInt (word_of_int i)]" by (simp add: formats_def fmt_eval)
    obtain g1 where g1: "say ''select mode index %d\<newline>'' [AInt (word_of_int i)] g = Inr ((), g1)" "silent g g1" using say_silent [OF f] by blast
    have "modeset_setup_dev c res (later_modes i co) d = setup_mode c res co d (modes co ! nat i)"
      using True m(2) by (simp add: modeset_setup_dev_def later_fields setup_mode_later Cons_nth_drop_Suc [symmetric])
    moreover have "setup13 i c res co d g = setup_mode c res co d (modes co ! nat i) g1"
      using True m by (simp add: setup13_def bindS_def g1(1) liftS_def nth_mode_def buf_at_def)
    ultimately show ?thesis using setup_result_silent [OF g1(2) spec] by (simp add: setup_result_viewed)
  qed
qed

lemma unat_wide: "unat (ucast (x :: u16) :: u32) = unat x"
proof -
  have "unat x < 2 ^ LENGTH(16)" by (rule unsigned_less)
  then have "unat x < 65536" by simp
  then show ?thesis by (simp add: unsigned_ucast_eq take_bit_nat_eq_self)
qed

lemma fine_roomy:
  assumes "fine13 i c res" and "devs_ok (viewed (later_modes i) c) res g"
  shows "roomy g"
proof -
  have "200 \<le> width d \<and> 200 \<le> height d" if d: "d \<in> set (modeset_list g)" for d
  proof -
    obtain k co' where k: "conn_of (viewed (later_modes i) c) k = Inr co'" "set_up (viewed (later_modes i) c) res co' d"
      using assms(2) d by (fastforce simp: devs_ok_def Let_def)
    obtain co where co: "conn_of c k = Inr co" "co' = later_modes i co" using k(1) by (cases "conn_of c k") (auto simp: viewed_def)
    obtain m ms where m: "drop (nat i) (modes co) = m # ms" "width d = ucast (hdisplay m)" "height d = ucast (vdisplay m)" "connected co"
      using k(2) by (auto simp: co(2) set_up_def later_modes_def)
    have "modes co \<noteq> []" using m(1) by auto
    then have h: "has_mode i co" using assms(1) co(1) m(4) by (simp add: fine13_def)
    then have "m = modes co ! nat i" using m(1) by (metis has_mode_def hd_drop_conv_nth list.sel(1))
    then have "200 \<le> hdisplay m" "200 \<le> vdisplay m" using h by (auto simp: has_mode_def)
    then show ?thesis unfolding m(2,3) word_le_nat_alt by (simp add: unat_wide)
  qed
  then show ?thesis by (simp add: roomy_def)
qed

interpretation modes13: mode_program "setup13 i" "later_modes i" "fine13 i" modeset_draw2 for i
proof (unfold_locales, goal_cases)
  case (1 c res k co d g)
  then show ?case by (rule setup13_spec)
next
  case (2 co)
  show ?case by (simp add: later_modes_def)
next
  case (3 c res g)
  then show ?case using draw2_runs [OF 3(3) fine_roomy [OF 3(1,3)], of c] by blast
qed

subsection \<open>Too small a screen\<close>

lemma unat_below_100:
  assumes "unat x < 100"
  shows "unat (x - 100 :: u32) = Suc (unat x + 4294967195)"
proof -
  have m: "(- 100 :: u32) = 4294967196" by simp
  have "unat (x - 100) = unat (x + 4294967196)" unfolding m [symmetric] by simp
  also have "\<dots> = (unat x + unat (4294967196 :: u32)) mod 2 ^ LENGTH(32)" by (rule unat_word_ariths(1))
  finally show ?thesis using assms by simp
qed

lemma small_overflow:
  assumes "devs_ok c res g" and "modeset_list g = d # ds" and "unat (height d) < 100" and "200 < unat (width d)"
    and "unat (dev_size d) = unat (stride d) * unat (height d)" and "unat (stride d) * 100 + 400 < 2 ^ 32"
  shows "modeset_draw2 c' g = Inl BufferOverflow"
proof -
  obtain g1 where 1: "draw_area (color_word 0xff 0 0) 0 g = Inr ((), g1)" "redrawn g g1"
    using draw_area_runs [OF assms(1), of 0 "color_word 0xff 0 0"] by auto
  have l1: "modeset_list g1 = d # ds" using redrawn_keeps(1) [OF 1(2)] assms(2) by simp
  obtain b where b: "maps g1 (handle d) = Some b" "length b = unat (dev_size d)" "fits d"
    using redrawn_keeps(3) [OF 1(2) assms(1)] l1 by (auto simp: devs_ok_def Let_def set_up_def)
  obtain n where n: "unat (height d - 100) - 100 = Suc n"
    using unat_below_100 [OF assms(3)] that [of "unat (height d) + 4294967095"] by simp
  obtain m where m: "unat (width d - 100) - 100 = Suc m"
    using assms(4) unat_sub_margin [of 100 "width d"] that [of "unat (width d) - 201"] by (simp add: word_le_nat_alt)
  have h: "unat (100 :: u32) = 100" by simp
  have pix: "put_pixel (handle d) (stride d * word_of_nat 100 + word_of_nat 100 * 4) v g1 = Inl BufferOverflow" for v
  proof -
    have small: "unat (word_of_nat n :: u32) = n" if "n < 2 ^ 32" for n using that by (simp add: unat_of_nat take_bit_nat_eq_self)
    have "stride d * word_of_nat 100 + word_of_nat 100 * 4 = word_of_nat (unat (stride d) * 100 + 400)" by simp
    then have off: "unat (stride d * word_of_nat 100 + word_of_nat 100 * 4) = unat (stride d) * 100 + 400"
      using small [OF assms(6)] by simp
    have "unat (stride d) * unat (height d) \<le> unat (stride d) * 100" using assms(3) by (intro mult_le_mono) simp_all
    then have "length b < unat (stride d * word_of_nat 100 + word_of_nat 100 * 4) + 4" unfolding off using b(2) assms(5) by linarith
    then show ?thesis unfolding put_pixel_def b(1) option.case by (simp only: if_True)
  qed
  have "draw_area v 100 g1 = Inl BufferOverflow" for v
    unfolding draw_area_def l1 area_devs.simps n area_rows.simps m h draw_row.simps bindS_def pix by simp
  then show ?thesis by (simp only: modeset_draw2_def bindS_def 1(1) bindE_simps prod.case)
qed

end
