(* ===== verification/ModesList.thy ===== *)
theory ModesList
  imports ModesRun
begin

unbundle bit_operations_syntax

text \<open>
  What \<open>modeset_list_mode.c\<close> prints and leaves, and the properties of the variants of \<open>modeset.c\<close>.
\<close>

subsection \<open>What is printed\<close>

definition printed :: "string \<Rightarrow> carg list \<Rightarrow> string" where
  "printed fmt args = (case vsprintf fmt args of Inl _ \<Rightarrow> [] | Inr t \<Rightarrow> t)"

lemma say_printed: "formats fmt args \<Longrightarrow> say fmt args g = Inr ((), g\<lparr>merr := merr g @ printed fmt args\<rparr>)"
  by (auto simp: formats_def say_def bindS_def upd_def liftS_def printed_def)

definition mode_line :: "nat \<Rightarrow> mode_info \<Rightarrow> string" where
  "mode_line i m = printed ''[%d] width * height: %d * %d name=%s\<newline>''
     [AInt (word_of_nat i), AInt (ucast (hdisplay m)), AInt (ucast (vdisplay m)), AStr (mode_name m)]"

lemma list_modes_runs:
  "list_modes ms i g = Inr ((), g\<lparr>merr := merr g @ concat (map (\<lambda>(i, m). mode_line i m) (enumerate i ms))\<rparr>)"
proof (induction ms arbitrary: i g)
  case Nil
  then show ?case by (simp add: returnS_def)
next
  case (Cons m ms)
  have f: "formats ''[%d] width * height: %d * %d name=%s\<newline>'' [AInt a, AInt b, AInt d, AStr t]" for a b d t
    by (simp add: formats_def fmt_eval)
  show ?case by (simp add: bindS_def say_printed [OF f] Cons.IH mode_line_def)
qed

text \<open>What is printed for one connector, by its place and its identifier.\<close>

definition connector_text :: "card \<Rightarrow> nat \<Rightarrow> u32 \<Rightarrow> string" where
  "connector_text c i k =
     (case conn_of c k of
        Inl e \<Rightarrow> printed ''cannot retrieve DRM connector %u:%u (%d): %s\<newline>'' ([AInt (word_of_nat i), AInt k] @ errno_args c e)
      | Inr co \<Rightarrow>
          if \<not> connected co then printed ''ignoring unused connector %u\<newline>'' [AInt (connector_id co)]
          else if modes co = [] then
            printed ''no valid mode for connector %u\<newline>'' [AInt (connector_id co)] @
            printed ''cannot setup device for connector %u:%u (%d): %s\<newline>'' ([AInt (word_of_nat i), AInt k] @ errno_args c EFAULT)
          else concat (map (\<lambda>(i, m). mode_line i m) (enumerate 0 (modes co))))"

text \<open>The device of a connector that has modes: nothing of it is set but the connector.\<close>

definition bare_dev :: "card \<Rightarrow> u32 \<Rightarrow> modeset_dev list" where
  "bare_dev c k =
     (case conn_of c k of
        Inl _ \<Rightarrow> []
      | Inr co \<Rightarrow> if connected co \<and> modes co \<noteq> [] then [zero_dev\<lparr>conn := connector_id co\<rparr>] else [])"

lemma list_connector_step:
  "connector_loop setup_list c res (k # ks) i g = connector_loop setup_list c res ks (Suc i)
     (g\<lparr>merr := merr g @ connector_text c i k, devs := devs g + length (bare_dev c k), modeset_list := bare_dev c k @ modeset_list g\<rparr>)"
proof (cases "conn_of c k")
  case (Inl e)
  then show ?thesis by (simp add: bindS_def say_printed [OF modeset_formats(12), simplified] connector_text_def bare_dev_def)
next
  case (Inr co)
  have swap: "g\<lparr>devs := n, merr := t\<rparr> = g\<lparr>merr := t, devs := n\<rparr>" for n t by simp
  show ?thesis
  proof (cases "connected co")
    case False
    then show ?thesis
      by (simp add: Inr bindS_def upd_def setup_list_def say_printed [OF modeset_formats(7)] returnS_def ENOENT_def connector_text_def bare_dev_def)
  next
    case True
    then show ?thesis
      by (cases "modes co = []") (simp_all add: Inr bindS_def upd_def setup_list_def say_printed [OF modeset_formats(8)] list_modes_runs returnS_def
        ENOENT_def EFAULT_def say_printed [OF modeset_formats(13), simplified] connector_text_def bare_dev_def swap)
  qed
qed

lemma list_loop_runs:
  "connector_loop setup_list c res ks i g = Inr ((),
     g\<lparr>merr := merr g @ concat (map (\<lambda>(i, k). connector_text c i k) (enumerate i ks)), devs := devs g + length (concat (map (bare_dev c) ks)),
       modeset_list := concat (map (bare_dev c) (rev ks)) @ modeset_list g\<rparr>)"
proof (induction ks arbitrary: i g)
  case Nil
  then show ?case by (simp add: returnS_def)
next
  case (Cons k ks)
  show ?case unfolding list_connector_step Cons.IH by simp
qed

lemma list_main_runs:
  assumes "res_of c = Inr res" and "\<forall>node. open_of c node = Inr ()" and "dumb_cap c = Some cap" and "cap \<noteq> 0"
  shows "list_main c argv g = Inr (0,
    g\<lparr>merr := merr g @ printed (''using card '' @ QUOTE @ ''%s'' @ QUOTE @ ''\<newline>'') [AStr (if 1 < length argv then argv ! 1 else ''/dev/dri/card0'')] @
          concat (map (\<lambda>(i, k). connector_text c i k) (enumerate 0 (connectors res))),
      fds := Suc (fds g), devs := devs g + length (concat (map (bare_dev c) (connectors res))),
      modeset_list := concat (map (bare_dev c) (rev (connectors res))) @ modeset_list g\<rparr>)"
proof -
  obtain node where node: "node = (if 1 < length argv then argv ! 1 else ''/dev/dri/card0'')" by simp
  have o: "modeset_open c node g = Inr (0, g\<lparr>fds := fds g + 1\<rparr>)" for g
    using assms(2-4) by (simp add: modeset_open_def bindS_def upd_def returnS_def)
  have p: "prepare_with setup_list c g = Inr (0, g\<lparr>merr := merr g @ concat (map (\<lambda>(i, k). connector_text c i k) (enumerate 0 (connectors res))),
      devs := devs g + length (concat (map (bare_dev c) (connectors res))), modeset_list := concat (map (bare_dev c) (rev (connectors res))) @ modeset_list g\<rparr>)" for g
    by (simp add: prepare_with_def assms(1) bindS_def upd_def list_loop_runs returnS_def)
  show ?thesis unfolding list_main_def node [symmetric] Let_def
    by (simp only: bindS_def say_printed [OF modeset_formats(18)] bindE_simps prod.case o simp_thms if_False p returnS_def) simp
qed

subsection \<open>Cards with larger modes\<close>

definition large_mode :: mode_info where "large_mode = \<lparr>hdisplay = 640, vdisplay = 480, mode_name = ''640x480''\<rparr>"

text \<open>A card whose monitor has a mode of 3 times 2 pixels and one of 640 times 480.\<close>

definition large_card :: card where
  "large_card = demo_card\<lparr>conn_of := (\<lambda>k. Inr ((demo_connector k)\<lparr>modes := [demo_mode, large_mode]\<rparr>)),
     dumb_of := (\<lambda>g w h. if w = 640 \<and> h = 480 \<and> 1 \<notin> handles g then Inr (1, 2560, 1228800) else Inl 12)\<rparr>"

text \<open>A device with a screen of a width and a height, with no bytes between the rows.\<close>

definition flat_dev :: "u16 \<Rightarrow> u16 \<Rightarrow> modeset_dev" where
  "flat_dev w h = demo_dev\<lparr>width := ucast w, height := ucast h, stride := 4 * ucast w, dev_size := 4 * ucast w * ucast h,
     dev_mode := \<lparr>hdisplay = w, vdisplay = h, mode_name = []\<rparr>\<rparr>"

definition flat_card :: "u16 \<Rightarrow> u16 \<Rightarrow> card" where
  "flat_card w h = demo_card\<lparr>conn_of := \<lambda>k. Inr ((demo_connector k)\<lparr>modes := [\<lparr>hdisplay = w, vdisplay = h, mode_name = []\<rparr>]\<rparr>)\<rparr>"

lemma flat_ok:
  assumes "fits (flat_dev w h)"
  shows "devs_ok (flat_card w h) demo_res (demo_gpu [flat_dev w h])"
proof -
  define co where "co = (demo_connector 7)\<lparr>modes := [\<lparr>hdisplay = w, vdisplay = h, mode_name = []\<rparr>]\<rparr>"
  have "set_up (flat_card w h) demo_res co (flat_dev w h)"
    using assms by (simp add: co_def set_up_def usable_def bound_crtc_def flat_card_def demo_card_def demo_connector_def flat_dev_def demo_dev_def)
  moreover have "conn_of (flat_card w h) 7 = Inr co" by (simp add: co_def flat_card_def)
  moreover have "conn (flat_dev w h) = connector_id co" by (simp add: co_def flat_dev_def demo_dev_def demo_connector_def)
  moreover have "(7 :: u32) \<in> set (connectors demo_res)" by (simp add: demo_res_def)
  ultimately have "\<exists>k \<in> set (connectors demo_res). \<exists>co. conn_of (flat_card w h) k = Inr co \<and> conn (flat_dev w h) = connector_id co \<and>
      set_up (flat_card w h) demo_res co (flat_dev w h)" by blast
  then show ?thesis unfolding devs_ok_def Let_def by (simp add: demo_gpu_def)
qed



subsection \<open>The properties\<close>

text \<open>
  C37: On screens of at least 200 times 200 pixels \<open>modeset_draw2\<close> of \<open>modeset13.c\<close> stays inside the mappings and leaves three areas: blue where a pixel is
  200 pixels or more away from every edge, green where it is 100 or more, and red elsewhere; nothing but the contents of the
  mappings has changed.
\<close>

theorem modes13_areas:
  assumes "devs_ok c res g" and "\<forall>d \<in> set (modeset_list g). 200 \<le> width d \<and> 200 \<le> height d"
  shows "\<exists>g'. modeset_draw2 c g = Inr ((), g') \<and> redrawn g g' \<and>
    (\<forall>d \<in> set (modeset_list g). \<forall>r < unat (height d). \<forall>k < unat (width d). pixel g' d r k = le_bytes 4 (unat (area_color d r k)))"
  using draw2_runs [OF assms(1), of c] assms(2) by (simp add: roomy_def)

theorem modes13_areas_witness:
  "\<exists>g'. modeset_draw2 (flat_card 640 480) (demo_gpu [flat_dev 640 480]) = Inr ((), g') \<and>
     pixel g' (flat_dev 640 480) 100 300 = le_bytes 4 0x0000ff00"
proof -
  have "fits (flat_dev 640 480)" by (simp add: fits_def flat_dev_def)
  from modes13_areas [OF flat_ok [OF this]] obtain g' where g': "modeset_draw2 (flat_card 640 480) (demo_gpu [flat_dev 640 480]) = Inr ((), g')"
    "\<forall>r < 480. \<forall>k < 640. pixel g' (flat_dev 640 480) r k = le_bytes 4 (unat (area_color (flat_dev 640 480) r k))"
    by (auto simp: demo_gpu_def flat_dev_def)
  have "area_color (flat_dev 640 480) 100 300 = 0x0000ff00" by (simp add: area_color_def inside_def flat_dev_def color_word_def)
  then show ?thesis using g' by auto
qed

text \<open>
  C38: On a screen with fewer than 100 rows \<open>modeset_draw2\<close> writes past the end of the mapping: \<open>height - 100\<close> is computed without a sign, so that
  the loop for the second area starts at row 100.
\<close>

theorem modes13_small_overflow:
  assumes "devs_ok c res g" and "modeset_list g = d # ds" and "unat (height d) < 100" and "200 < unat (width d)"
    and "unat (dev_size d) = unat (stride d) * unat (height d)" and "unat (stride d) * 100 + 400 < 2 ^ 32"
  shows "modeset_draw2 c' g = Inl BufferOverflow"
  using assms by (rule small_overflow)

theorem modes13_small_overflow_witness:
  "modeset_draw2 (flat_card 320 64) (demo_gpu [flat_dev 320 64]) = Inl BufferOverflow"
proof -
  have "fits (flat_dev 320 64)" by (simp add: fits_def flat_dev_def)
  note ok = flat_ok [OF this]
  have "modeset_list (demo_gpu [flat_dev 320 64]) = [flat_dev 320 64]" by (simp add: demo_gpu_def)
  from modes13_small_overflow [OF ok this] show ?thesis by (simp add: flat_dev_def)
qed



text \<open>With a number that a monitor has no mode for, setting up its device reads outside of the modes; cairo needs a device.\<close>

lemma setup13_outside:
  assumes "connected co" and "modes co \<noteq> []" and "i < 0 \<or> length (modes co) \<le> nat i"
  shows "setup13 i c res co d g = Inl OutOfBounds"
proof -
  have f: "formats ''select mode index %d\<newline>'' [AInt (word_of_int i)]" by (simp add: formats_def fmt_eval)
  show ?thesis using assms by (auto simp: setup13_def bindS_def say_printed [OF f] nth_mode_def buf_at_def liftS_def)
qed

lemma cairo_without_device: "modeset_list g = [] \<Longrightarrow> draw_cairo stroke c g = Inl NullDeref"
  by (simp add: draw_cairo_def)

text \<open>
  C40: \<open>modeset_list_mode.c\<close> prints, for every connector in its order, all modes with their number, size and name, or why there are none, and
  ends with status 0; it leaves the card open and one device, of which only the connector is set, for every connector that has
  modes.
\<close>

theorem list_main_prints:
  assumes "res_of c = Inr res" and "\<forall>node. open_of c node = Inr ()" and "dumb_cap c = Some cap" and "cap \<noteq> 0"
  shows "list_main c argv g = Inr (0,
    g\<lparr>merr := merr g @ printed (''using card '' @ QUOTE @ ''%s'' @ QUOTE @ ''\<newline>'') [AStr (if 1 < length argv then argv ! 1 else ''/dev/dri/card0'')] @
          concat (map (\<lambda>(i, k). connector_text c i k) (enumerate 0 (connectors res))),
      fds := Suc (fds g), devs := devs g + length (concat (map (bare_dev c) (connectors res))),
      modeset_list := concat (map (bare_dev c) (rev (connectors res))) @ modeset_list g\<rparr>)"
  by (rule list_main_runs [OF assms])

theorem list_main_prints_witness:
  "\<exists>g'. list_main large_card [''modeset''] (demo_gpu []) = Inr (0, g') \<and> fds g' = 1 \<and> devs g' = 1 \<and> modeset_list g' = [zero_dev\<lparr>conn := 7\<rparr>]"
proof -
  have "res_of large_card = Inr demo_res" "\<forall>node. open_of large_card node = Inr ()" "dumb_cap large_card = Some 1"
    by (simp_all add: large_card_def demo_card_def)
  moreover have "bare_dev large_card 7 = [zero_dev\<lparr>conn := 7\<rparr>]" "bare_dev large_card 8 = []"
    by (simp_all add: bare_dev_def large_card_def demo_connector_def)
  ultimately show ?thesis using list_main_prints [of large_card demo_res 1 "[''modeset'']" "demo_gpu []"] by (simp add: demo_res_def demo_gpu_def)
qed

end
