(* ===== verification/Smp.thy ===== *)
theory Smp
  imports Posix
begin

unbundle bit_operations_syntax

text \<open>
  \<open>perftools/c/x86_asm/smp/smp-imps.c\<close>: find the tables of the Intel MultiProcessor
  specification in memory and start the other processors of the machine.

  The state is the memory, a function from 32-bit addresses to bytes, the history of what the
  code did with the hardware, and the global variables. The hardware is a function from the
  history to the value that the next volatile load, port read or test gives: every
  deterministic machine is one. The macros that the file asks its user to define
  (\<open>CMOS_READ_BYTE\<close>, \<open>UDELAY\<close>, \<open>TEST_BOOTED\<close>, \<open>READ_MSR_LO\<close>, \<open>KERNEL_PRINT\<close>) are entries of
  the history, \<open>PHYS_TO_VIRTUAL\<close> is the parameter \<open>virt\<close>. Structures are read at their
  addresses, field by field, as the code does; the addresses of the static \<open>defconfig\<close> and
  of the local variable \<open>p\<close> of \<open>imps_force\<close> are parameters, and so is the code between
  \<open>patch_code_start\<close> and \<open>patch_code_end\<close>.
\<close>

subsection \<open>The machine\<close>

datatype io =
    Out u32 u32          \<comment> \<open>volatile store of a value at an address\<close>
  | In u32               \<comment> \<open>volatile load\<close>
  | CmosOut byte byte
  | CmosIn byte
  | Delay nat            \<comment> \<open>microseconds\<close>
  | Booted u32           \<comment> \<open>\<open>TEST_BOOTED\<close>\<close>
  | Msr u32              \<comment> \<open>\<open>READ_MSR_LO\<close>\<close>
  | Print string

record board =
  answer :: "io list \<Rightarrow> io \<Rightarrow> u32"   \<comment> \<open>what a read gives after a history\<close>
  virt :: "u32 \<Rightarrow> u32"
  is_ram :: "u32 \<Rightarrow> bool"             \<comment> \<open>a volatile store there changes memory\<close>
  defconfig :: u32
  frame :: u32
  patch_code :: "byte list"

record smp =
  ram :: "u32 \<Rightarrow> byte"
  history :: "io list"
  imps_enabled :: bool
  imps_num_cpus :: nat
  imps_lapic_addr :: u32
  imps_cpu_apic_map :: "byte list"
  imps_apic_cpu_map :: "byte list"

type_synonym 'a mp = "('a, smp) st"

definition set_bytes :: "u32 \<Rightarrow> byte list \<Rightarrow> (u32 \<Rightarrow> byte) \<Rightarrow> u32 \<Rightarrow> byte" where
  "set_bytes a bs m x = (if unat (x - a) < length bs then bs ! unat (x - a) else m x)"

definition get_bytes :: "(u32 \<Rightarrow> byte) \<Rightarrow> u32 \<Rightarrow> nat \<Rightarrow> byte list" where
  "get_bytes m a n = map (\<lambda>i. m (a + word_of_nat i)) [0..<n]"

definition ld16 :: "(u32 \<Rightarrow> byte) \<Rightarrow> u32 \<Rightarrow> u16" where
  "ld16 m a = word_of_nat (le_val (get_bytes m a 2))"

definition ld32 :: "(u32 \<Rightarrow> byte) \<Rightarrow> u32 \<Rightarrow> u32" where
  "ld32 m a = word_of_nat (le_val (get_bytes m a 4))"

definition bytes32 :: "u32 \<Rightarrow> byte list" where "bytes32 v = le_bytes 4 (unat v)"

text \<open>The primitive steps.\<close>

definition look :: "((u32 \<Rightarrow> byte) \<Rightarrow> 'a) \<Rightarrow> 'a mp" where "look f s = Inr (f (ram s), s)"

definition put_mem :: "u32 \<Rightarrow> byte list \<Rightarrow> unit mp" where
  "put_mem a bs s = Inr ((), s\<lparr>ram := set_bytes a bs (ram s)\<rparr>)"

definition event :: "io \<Rightarrow> unit mp" where "event x s = Inr ((), s\<lparr>history := history s @ [x]\<rparr>)"

definition ask :: "board \<Rightarrow> io \<Rightarrow> u32 mp" where
  "ask b x s = Inr (answer b (history s) x, s\<lparr>history := history s @ [x]\<rparr>)"

definition IMPS_WRITE :: "board \<Rightarrow> u32 \<Rightarrow> u32 \<Rightarrow> unit mp" where
  "IMPS_WRITE b a v s =
     Inr ((), s\<lparr>history := history s @ [Out a v],
                ram := (\<lambda>x. if is_ram b x then set_bytes a (bytes32 v) (ram s) x else ram s x)\<rparr>)"

definition IMPS_READ :: "board \<Rightarrow> u32 \<Rightarrow> u32 mp" where "IMPS_READ b a = ask b (In a)"

definition IMPS_LAPIC_READ :: "board \<Rightarrow> u32 \<Rightarrow> u32 mp" where
  "IMPS_LAPIC_READ b x s = IMPS_READ b (imps_lapic_addr s + x) s"

definition IMPS_LAPIC_WRITE :: "board \<Rightarrow> u32 \<Rightarrow> u32 \<Rightarrow> unit mp" where
  "IMPS_LAPIC_WRITE b x v s = IMPS_WRITE b (imps_lapic_addr s + x) v s"

definition KERNEL_PRINT :: "string \<Rightarrow> carg list \<Rightarrow> unit mp" where
  "KERNEL_PRINT fmt args = bindS (liftS (vsprintf fmt args)) (\<lambda>t. event (Print t))"

abbreviation (input) ABYTE :: "byte \<Rightarrow> carg" where "ABYTE x \<equiv> AInt (ucast x)"

text \<open>Assignment to an element of an array of bytes.\<close>

definition set_elem :: "byte list \<Rightarrow> nat \<Rightarrow> byte \<Rightarrow> byte list res" where
  "set_elem xs i x = (if i < length xs then Inr (xs[i := x]) else Inl BufferOverflow)"

definition set_cpu_apic :: "nat \<Rightarrow> byte \<Rightarrow> unit mp" where
  "set_cpu_apic i x s = bindE (set_elem (imps_cpu_apic_map s) i x) (\<lambda>m. Inr ((), s\<lparr>imps_cpu_apic_map := m\<rparr>))"

definition set_apic_cpu :: "nat \<Rightarrow> byte \<Rightarrow> unit mp" where
  "set_apic_cpu i x s = bindE (set_elem (imps_apic_cpu_map s) i x) (\<lambda>m. Inr ((), s\<lparr>imps_apic_cpu_map := m\<rparr>))"

subsection \<open>Constants of \<open>apic.h\<close> and \<open>smp-imps.h\<close>\<close>

definition APIC_BCAST_ID :: nat where "APIC_BCAST_ID = 0xFF"
definition IMPS_MAX_CPUS :: nat where "IMPS_MAX_CPUS = APIC_BCAST_ID"
definition APIC_VERSION :: "u32 \<Rightarrow> u32" where "APIC_VERSION x = x AND 0xFF"
definition APIC_ID :: "u32 \<Rightarrow> u32" where "APIC_ID x = drop_bit 24 x"
definition APIC_VER_NEW :: byte where "APIC_VER_NEW = 0x10"
definition IOAPIC_RW :: u32 where "IOAPIC_RW = 0x10"
definition IOAPIC_ID :: u32 where "IOAPIC_ID = 0"
definition IOAPIC_VER :: u32 where "IOAPIC_VER = 1"
definition LAPIC_ID :: u32 where "LAPIC_ID = 0x20"
definition LAPIC_SPIV :: u32 where "LAPIC_SPIV = 0xF0"
definition LAPIC_SPIV_ENABLE_APIC :: u32 where "LAPIC_SPIV_ENABLE_APIC = 0x100"
definition LAPIC_ESR :: u32 where "LAPIC_ESR = 0x280"
definition LAPIC_ICR :: u32 where "LAPIC_ICR = 0x300"
definition LAPIC_ICR_TM_LEVEL :: u32 where "LAPIC_ICR_TM_LEVEL = 0x8000"
definition LAPIC_ICR_LEVELASSERT :: u32 where "LAPIC_ICR_LEVELASSERT = 0x4000"
definition LAPIC_ICR_STATUS_PEND :: u32 where "LAPIC_ICR_STATUS_PEND = 0x1000"
definition LAPIC_ICR_DM_INIT :: u32 where "LAPIC_ICR_DM_INIT = 0x500"
definition LAPIC_ICR_DM_SIPI :: u32 where "LAPIC_ICR_DM_SIPI = 0x600"

definition IMPS_FPS_SIGNATURE :: u32 where "IMPS_FPS_SIGNATURE = 0x5F504D5F"
definition IMPS_FPS_IMCRP_BIT :: byte where "IMPS_FPS_IMCRP_BIT = 0x80"
definition IMPS_FPS_DEFAULT_MAX :: byte where "IMPS_FPS_DEFAULT_MAX = 7"
definition IMPS_CTH_SIGNATURE :: u32 where "IMPS_CTH_SIGNATURE = 0x504D4350"
definition IMPS_FLAG_ENABLED :: byte where "IMPS_FLAG_ENABLED = 1"
definition IMPS_CPUFLAG_BOOT :: byte where "IMPS_CPUFLAG_BOOT = 2"
definition IMPS_BCT_PROCESSOR :: byte where "IMPS_BCT_PROCESSOR = 0"
definition IMPS_BCT_BUS :: byte where "IMPS_BCT_BUS = 1"
definition IMPS_BCT_IOAPIC :: byte where "IMPS_BCT_IOAPIC = 2"
definition IMPS_BCT_IO_INTERRUPT :: byte where "IMPS_BCT_IO_INTERRUPT = 3"
definition IMPS_BCT_LOCAL_INTERRUPT :: byte where "IMPS_BCT_LOCAL_INTERRUPT = 4"
definition IMPS_INT_INT :: byte where "IMPS_INT_INT = 0"
definition IMPS_INT_NMI :: byte where "IMPS_INT_NMI = 1"
definition IMPS_INT_EXTINT :: byte where "IMPS_INT_EXTINT = 3"

definition EBDA_SEG_ADDR :: u32 where "EBDA_SEG_ADDR = 0x40E"
definition BIOS_RESET_VECTOR :: u32 where "BIOS_RESET_VECTOR = 0x467"
definition LAPIC_ADDR_DEFAULT :: u32 where "LAPIC_ADDR_DEFAULT = 0xFEE00000"
definition IOAPIC_ADDR_DEFAULT :: u32 where "IOAPIC_ADDR_DEFAULT = 0xFEC00000"
definition CMOS_RESET_CODE :: byte where "CMOS_RESET_CODE = 0xF"
definition CMOS_RESET_JUMP :: byte where "CMOS_RESET_JUMP = 0xa"
definition CMOS_BASE_MEMORY :: byte where "CMOS_BASE_MEMORY = 0x15"
definition DEF_ENTRIES :: nat where "DEF_ENTRIES = 23"

lemmas smp_consts =
  APIC_BCAST_ID_def IMPS_MAX_CPUS_def APIC_VERSION_def APIC_ID_def APIC_VER_NEW_def IOAPIC_RW_def IOAPIC_ID_def
  IOAPIC_VER_def LAPIC_ID_def LAPIC_SPIV_def LAPIC_SPIV_ENABLE_APIC_def LAPIC_ESR_def LAPIC_ICR_def
  LAPIC_ICR_TM_LEVEL_def LAPIC_ICR_LEVELASSERT_def LAPIC_ICR_STATUS_PEND_def LAPIC_ICR_DM_INIT_def
  LAPIC_ICR_DM_SIPI_def IMPS_FPS_SIGNATURE_def IMPS_FPS_IMCRP_BIT_def IMPS_FPS_DEFAULT_MAX_def
  IMPS_CTH_SIGNATURE_def IMPS_FLAG_ENABLED_def IMPS_CPUFLAG_BOOT_def IMPS_BCT_PROCESSOR_def IMPS_BCT_BUS_def
  IMPS_BCT_IOAPIC_def IMPS_BCT_IO_INTERRUPT_def IMPS_BCT_LOCAL_INTERRUPT_def IMPS_INT_INT_def IMPS_INT_NMI_def
  IMPS_INT_EXTINT_def EBDA_SEG_ADDR_def BIOS_RESET_VECTOR_def LAPIC_ADDR_DEFAULT_def IOAPIC_ADDR_DEFAULT_def
  CMOS_RESET_CODE_def CMOS_RESET_JUMP_def CMOS_BASE_MEMORY_def DEF_ENTRIES_def

subsection \<open>Fields of the structures\<close>

text \<open>\<open>struct imps_fps\<close>\<close>

definition fps_sig :: "u32 \<Rightarrow> u32 mp" where "fps_sig p = look (\<lambda>m. ld32 m p)"
definition fps_cth_ptr :: "u32 \<Rightarrow> u32 mp" where "fps_cth_ptr p = look (\<lambda>m. ld32 m (p + 4))"
definition fps_spec_rev :: "u32 \<Rightarrow> byte mp" where "fps_spec_rev p = look (\<lambda>m. m (p + 9))"
definition fps_feature :: "u32 \<Rightarrow> nat \<Rightarrow> byte mp" where
  "fps_feature p i = look (\<lambda>m. m (p + 11 + word_of_nat i))"

text \<open>\<open>struct imps_cth\<close>, of 44 bytes\<close>

definition cth_sig :: "u32 \<Rightarrow> u32 mp" where "cth_sig p = look (\<lambda>m. ld32 m p)"
definition cth_base_length :: "u32 \<Rightarrow> u16 mp" where "cth_base_length p = look (\<lambda>m. ld16 m (p + 4))"
definition cth_spec_rev :: "u32 \<Rightarrow> byte mp" where "cth_spec_rev p = look (\<lambda>m. m (p + 6))"
definition cth_oem_id :: "u32 \<Rightarrow> byte list mp" where "cth_oem_id p = look (\<lambda>m. get_bytes m (p + 8) 8)"
definition cth_prod_id :: "u32 \<Rightarrow> byte list mp" where "cth_prod_id p = look (\<lambda>m. get_bytes m (p + 16) 12)"
definition cth_entry_count :: "u32 \<Rightarrow> u16 mp" where "cth_entry_count p = look (\<lambda>m. ld16 m (p + 34))"
definition cth_lapic_addr :: "u32 \<Rightarrow> u32 mp" where "cth_lapic_addr p = look (\<lambda>m. ld32 m (p + 36))"
definition cth_extended_length :: "u32 \<Rightarrow> u16 mp" where "cth_extended_length p = look (\<lambda>m. ld16 m (p + 40))"
definition cth_extended_checksum :: "u32 \<Rightarrow> byte mp" where "cth_extended_checksum p = look (\<lambda>m. m (p + 42))"
definition sizeof_cth :: u32 where "sizeof_cth = 44"

text \<open>\<open>struct imps_processor\<close>, \<open>imps_bus\<close> and \<open>imps_ioapic\<close>\<close>

definition proc_apic_id :: "u32 \<Rightarrow> byte mp" where "proc_apic_id p = look (\<lambda>m. m (p + 1))"
definition proc_apic_ver :: "u32 \<Rightarrow> byte mp" where "proc_apic_ver p = look (\<lambda>m. m (p + 2))"
definition proc_flags :: "u32 \<Rightarrow> byte mp" where "proc_flags p = look (\<lambda>m. m (p + 3))"
definition bus_id :: "u32 \<Rightarrow> byte mp" where "bus_id p = look (\<lambda>m. m (p + 1))"
definition bus_type :: "u32 \<Rightarrow> byte list mp" where "bus_type p = look (\<lambda>m. get_bytes m (p + 2) 6)"
definition ioapic_id :: "u32 \<Rightarrow> byte mp" where "ioapic_id p = look (\<lambda>m. m (p + 1))"
definition ioapic_ver :: "u32 \<Rightarrow> byte mp" where "ioapic_ver p = look (\<lambda>m. m (p + 2))"
definition ioapic_flags :: "u32 \<Rightarrow> byte mp" where "ioapic_flags p = look (\<lambda>m. m (p + 3))"
definition ioapic_addr :: "u32 \<Rightarrow> u32 mp" where "ioapic_addr p = look (\<lambda>m. ld32 m (p + 4))"

text \<open>A structure as the bytes that the compiler lays out.\<close>

definition processor_bytes :: "byte \<Rightarrow> byte \<Rightarrow> byte \<Rightarrow> byte \<Rightarrow> byte list" where
  "processor_bytes ty ident ver flags = [ty, ident, ver, flags] @ replicate 16 0"

definition bus_bytes :: "byte \<Rightarrow> byte \<Rightarrow> string \<Rightarrow> byte list" where
  "bus_bytes ty ident name = [ty, ident] @ map of_char name"

definition interrupt_bytes :: "byte \<Rightarrow> byte \<Rightarrow> byte \<Rightarrow> byte \<Rightarrow> byte list" where
  "interrupt_bytes ty int_type irq intin = [ty, int_type, 0, 0, 0, irq, 0xFF, intin]"

definition defconfig_bytes :: "byte list" where
  "defconfig_bytes =
     processor_bytes IMPS_BCT_PROCESSOR 0 0 0 @ processor_bytes IMPS_BCT_PROCESSOR 1 0 0
     @ bus_bytes IMPS_BCT_BUS 0 ''EISA  '' @ bus_bytes 255 1 ''PCI   ''
     @ [IMPS_BCT_IOAPIC, 0, 0, IMPS_FLAG_ENABLED] @ bytes32 IOAPIC_ADDR_DEFAULT
     @ interrupt_bytes IMPS_BCT_IO_INTERRUPT IMPS_INT_EXTINT 0 0
     @ interrupt_bytes IMPS_BCT_IO_INTERRUPT IMPS_INT_INT 1 1
     @ interrupt_bytes IMPS_BCT_IO_INTERRUPT IMPS_INT_INT 0 2
     @ concat (map (\<lambda>i. interrupt_bytes IMPS_BCT_IO_INTERRUPT IMPS_INT_INT i i) [3, 4, 5, 6, 7, 8, 9, 10, 11, 12, 13, 14, 15])
     @ interrupt_bytes IMPS_BCT_LOCAL_INTERRUPT IMPS_INT_EXTINT 15 0
     @ interrupt_bytes IMPS_BCT_LOCAL_INTERRUPT IMPS_INT_NMI 15 1"

text \<open>The state when the code is entered for the first time, over the memory of the machine.\<close>

definition smp_start :: "board \<Rightarrow> (u32 \<Rightarrow> byte) \<Rightarrow> u32 \<Rightarrow> smp" where
  "smp_start b m dummy =
     \<lparr>ram = set_bytes (defconfig b) defconfig_bytes m, history = [], imps_enabled = False, imps_num_cpus = 1,
      imps_lapic_addr = dummy - LAPIC_ID, imps_cpu_apic_map = replicate IMPS_MAX_CPUS 0,
      imps_apic_cpu_map = replicate IMPS_MAX_CPUS 0\<rparr>"

end
