(* ===== verification/SmpProbe.thy ===== *)
theory SmpProbe
  imports Smp
begin

unbundle bit_operations_syntax

text \<open>
  The functions of \<open>smp-imps.c\<close>, over the machine of the theory Smp. A pointer is an address;
  an assignment to an element of one of the arrays outside its bounds is a fault.
\<close>

subsection \<open>Checksum and interprocessor interrupts\<close>

fun checksum_loop :: "(u32 \<Rightarrow> byte) \<Rightarrow> u32 \<Rightarrow> nat \<Rightarrow> u32 \<Rightarrow> u32" where
  "checksum_loop m start 0 acc = acc"
| "checksum_loop m start (Suc n) acc = checksum_loop m (start + 1) n (acc + ucast (m start))"

definition get_checksum :: "(u32 \<Rightarrow> byte) \<Rightarrow> u32 \<Rightarrow> nat \<Rightarrow> u32" where
  "get_checksum m start n = checksum_loop m start n 0 AND 0xFF"

text \<open>The loop that waits for the interrupt to be sent; its result is the last value of \<open>to\<close>.\<close>

function ipi_wait :: "board \<Rightarrow> nat \<Rightarrow> nat mp" where
  "ipi_wait b n =
     bindS (event (Delay 100)) (\<lambda>_.
     bindS (IMPS_LAPIC_READ b LAPIC_ICR) (\<lambda>v.
     if v AND LAPIC_ICR_STATUS_PEND = 0 then returnS n
     else if n < 1000 then ipi_wait b (n + 1) else returnS (n + 1)))"
  by pat_completeness auto
termination by (relation "measure (\<lambda>(b, n). 1000 - n)") auto

declare ipi_wait.simps [simp del]

definition send_ipi :: "board \<Rightarrow> u32 \<Rightarrow> u32 \<Rightarrow> bool mp" where
  "send_ipi b dst v =
     bindS (IMPS_LAPIC_WRITE b (LAPIC_ICR + 0x10) (push_bit 24 dst)) (\<lambda>_.
     bindS (IMPS_LAPIC_WRITE b LAPIC_ICR v) (\<lambda>_.
     bindS (ipi_wait b 0) (\<lambda>n. returnS (n < 1000))))"

subsection \<open>Starting a processor\<close>

definition bootaddr :: u32 where "bootaddr = (512 - 64) * 1024"

function boot_wait :: "board \<Rightarrow> nat \<Rightarrow> nat mp" where
  "boot_wait b n =
     bindS (ask b (Booted bootaddr)) (\<lambda>r.
     if r \<noteq> 0 then returnS n
     else if n < 100 then bindS (event (Delay 10000)) (\<lambda>_. boot_wait b (n + 1)) else returnS (n + 1))"
  by pat_completeness auto
termination by (relation "measure (\<lambda>(b, n). 100 - n)") auto

declare boot_wait.simps [simp del]

text \<open>Clear the error register of the APIC.\<close>

definition clear_esr :: "board \<Rightarrow> unit mp" where
  "clear_esr b =
     bindS (IMPS_LAPIC_WRITE b LAPIC_ESR 0) (\<lambda>_. bindS (IMPS_LAPIC_READ b LAPIC_ESR) (\<lambda>_. returnS ()))"

definition set_reset_vector :: "board \<Rightarrow> byte \<Rightarrow> u32 \<Rightarrow> unit mp" where
  "set_reset_vector b code v =
     bindS (event (CmosOut CMOS_RESET_CODE code)) (\<lambda>_. IMPS_WRITE b (virt b BIOS_RESET_VECTOR) v)"

definition init_ipis :: "board \<Rightarrow> u32 \<Rightarrow> unit mp" where
  "init_ipis b apicid =
     bindS (send_ipi b apicid (LAPIC_ICR_TM_LEVEL OR LAPIC_ICR_LEVELASSERT OR LAPIC_ICR_DM_INIT)) (\<lambda>_.
     bindS (event (Delay 10000)) (\<lambda>_.
     bindS (send_ipi b apicid (LAPIC_ICR_TM_LEVEL OR LAPIC_ICR_DM_INIT)) (\<lambda>_.
     event (Delay 10000))))"

primrec startup_loop :: "board \<Rightarrow> u32 \<Rightarrow> nat \<Rightarrow> unit mp" where
  "startup_loop b apicid 0 = returnS ()"
| "startup_loop b apicid (Suc n) =
     bindS (send_ipi b apicid (LAPIC_ICR_DM_SIPI OR (drop_bit 12 bootaddr AND 0xFF))) (\<lambda>_.
     bindS (event (Delay 1000)) (\<lambda>_. startup_loop b apicid n))"

definition boot_report :: "nat \<Rightarrow> bool mp" where
  "boot_report n =
     (if 100 \<le> n then bindS (KERNEL_PRINT ''CPU Not Responding, DISABLED'' []) (\<lambda>_. returnS False)
      else bindS (\<lambda>s. KERNEL_PRINT ''#%d  Application Processor (AP)'' [AInt (word_of_nat (imps_num_cpus s))] s) (\<lambda>_. returnS True))"

definition boot_cpu :: "board \<Rightarrow> u32 \<Rightarrow> bool mp" where
  "boot_cpu b p =
     bindS (proc_apic_id p) (\<lambda>i.
     let apicid = ucast i in
     bindS (put_mem bootaddr (patch_code b)) (\<lambda>_.
     bindS (set_reset_vector b CMOS_RESET_JUMP (push_bit 12 (bootaddr AND 0xFF000))) (\<lambda>_.
     bindS (clear_esr b) (\<lambda>_.
     bindS (init_ipis b apicid) (\<lambda>_.
     bindS (proc_apic_ver p) (\<lambda>ver.
     bindS (if APIC_VER_NEW \<le> ver then startup_loop b apicid 2 else returnS ()) (\<lambda>_.
     bindS (boot_wait b 0) (\<lambda>n.
     bindS (boot_report n) (\<lambda>success.
     bindS (clear_esr b) (\<lambda>_.
     bindS (set_reset_vector b 0 0) (\<lambda>_.
     bindS (KERNEL_PRINT ''\<newline>'' []) (\<lambda>_. returnS success))))))))))))"

subsection \<open>The entries of the table\<close>

definition record_cpu :: "byte \<Rightarrow> unit mp" where
  "record_cpu i =
     bindS (\<lambda>s. set_cpu_apic (imps_num_cpus s) i s) (\<lambda>_.
     bindS (\<lambda>s. set_apic_cpu (unat i) (word_of_nat (imps_num_cpus s)) s) (\<lambda>_ s.
     Inr ((), s\<lparr>imps_num_cpus := imps_num_cpus s + 1\<rparr>)))"

definition add_processor :: "board \<Rightarrow> u32 \<Rightarrow> unit mp" where
  "add_processor b p =
     bindS (proc_apic_id p) (\<lambda>apicid.
     bindS (proc_apic_ver p) (\<lambda>ver.
     bindS (KERNEL_PRINT ''  Processor [APIC id %d ver %d]:  '' [ABYTE apicid, ABYTE ver]) (\<lambda>_.
     bindS (proc_flags p) (\<lambda>flags.
     if flags AND IMPS_FLAG_ENABLED = 0 then KERNEL_PRINT ''DISABLED\<newline>'' []
     else if flags AND IMPS_CPUFLAG_BOOT \<noteq> 0 then KERNEL_PRINT ''#0  BootStrap Processor (BSP)\<newline>'' []
     else bindS (boot_cpu b p) (\<lambda>ok. if ok then record_cpu apicid else returnS ())))))"

text \<open>The characters of an array before the first NUL.\<close>

definition c_text :: "byte list \<Rightarrow> string" where
  "c_text bs = map char_of_byte (takeWhile (\<lambda>x. x \<noteq> 0) bs)"

definition add_bus :: "u32 \<Rightarrow> unit mp" where
  "add_bus p =
     bindS (bus_type p) (\<lambda>str. bindS (bus_id p) (\<lambda>i.
     KERNEL_PRINT ''  Bus id %d is %s\<newline>'' [ABYTE i, AStr (c_text str)]))"

definition add_ioapic :: "u32 \<Rightarrow> unit mp" where
  "add_ioapic p =
     bindS (ioapic_id p) (\<lambda>i. bindS (ioapic_ver p) (\<lambda>ver. bindS (ioapic_addr p) (\<lambda>addr.
     bindS (KERNEL_PRINT ''  I/O APIC id %d ver %d, address: 0x%x  '' [ABYTE i, ABYTE ver, AInt addr]) (\<lambda>_.
     bindS (ioapic_flags p) (\<lambda>flags.
     if flags AND IMPS_FLAG_ENABLED = 0 then KERNEL_PRINT ''DISABLED\<newline>'' [] else KERNEL_PRINT ''\<newline>'' [])))))"

primrec imps_read_config_table :: "board \<Rightarrow> u32 \<Rightarrow> nat \<Rightarrow> unit mp" where
  "imps_read_config_table b start 0 = returnS ()"
| "imps_read_config_table b start (Suc count) =
     bindS (look (\<lambda>m. m start)) (\<lambda>ty.
     if ty = IMPS_BCT_PROCESSOR then
       bindS (add_processor b start) (\<lambda>_. imps_read_config_table b (start + 12 + 8) count)
     else if ty = IMPS_BCT_BUS then bindS (add_bus start) (\<lambda>_. imps_read_config_table b (start + 8) count)
     else if ty = IMPS_BCT_IOAPIC then bindS (add_ioapic start) (\<lambda>_. imps_read_config_table b (start + 8) count)
     else imps_read_config_table b (start + 8) count)"

subsection \<open>Checking the tables\<close>

text \<open>A message and the result 1.\<close>

definition bad :: "string \<Rightarrow> carg list \<Rightarrow> bool mp" where
  "bad fmt args = bindS (KERNEL_PRINT fmt args) (\<lambda>_. returnS True)"

definition bad_extended :: "u32 \<Rightarrow> bool mp" where
  "bad_extended p =
     bindS (cth_extended_length p) (\<lambda>ext.
     if ext = 0 then returnS False
     else
       bindS (cth_base_length p) (\<lambda>len.
       bindS (look (\<lambda>m. get_checksum m (p + ucast len) (unat ext))) (\<lambda>c.
       bindS (cth_extended_checksum p) (\<lambda>x.
       let total = (c + ucast x) AND 0xFF in
       if total \<noteq> 0 then bad ''    Bad Extended MP Config Table checksum 0x%x\<newline>'' [AInt total] else returnS False))))"

definition bad_table :: "u32 \<Rightarrow> u32 \<Rightarrow> u32 \<Rightarrow> bool mp" where
  "bad_table fps cth p =
     bindS (cth_base_length p) (\<lambda>len.
     bindS (look (\<lambda>m. get_checksum m p (unat len))) (\<lambda>c.
     bindS (cth_sig p) (\<lambda>sig.
     if sig \<noteq> IMPS_CTH_SIGNATURE \<or> c \<noteq> 0 then
       bad ''    Bad MP Config Table sig 0x%x and/or checksum 0x%x\<newline>'' [AInt cth, AInt c]
     else
       bindS (cth_spec_rev p) (\<lambda>rev. bindS (fps_spec_rev fps) (\<lambda>frev.
       if rev \<noteq> frev then bad ''    Bad MP Config Table sub-revision # %d\<newline>'' [ABYTE rev]
       else bad_extended p)))))"

definition imps_bad_bios :: "board \<Rightarrow> u32 \<Rightarrow> bool mp" where
  "imps_bad_bios b fps =
     bindS (fps_cth_ptr fps) (\<lambda>cth.
     bindS (fps_feature fps 0) (\<lambda>f0.
     if IMPS_FPS_DEFAULT_MAX < f0 then bad ''    Invalid MP System Configuration type %d\<newline>'' [ABYTE f0]
     else if cth \<noteq> 0 then bad_table fps cth (virt b cth)
     else if f0 = 0 then bad ''    Missing configuration information\<newline>'' []
     else returnS False))"

subsection \<open>Reading the tables\<close>

text \<open>The part common to \<open>imps_read_bios\<close> and \<open>imps_force\<close>: the processor that runs the code.\<close>

definition setup_primary :: "board \<Rightarrow> u32 mp" where
  "setup_primary b =
     bindS (IMPS_LAPIC_READ b LAPIC_SPIV) (\<lambda>v.
     bindS (IMPS_LAPIC_WRITE b LAPIC_SPIV (v OR LAPIC_SPIV_ENABLE_APIC)) (\<lambda>_.
     bindS (IMPS_LAPIC_READ b LAPIC_ID) (\<lambda>w.
     let apicid = APIC_ID w in
     bindS (set_cpu_apic 0 (ucast apicid)) (\<lambda>_.
     bindS (set_apic_cpu (unat apicid) 0) (\<lambda>_. returnS apicid)))))"

text \<open>Offsets in \<open>defconfig\<close>: two processors, two buses, the I/O APIC, the interrupts.\<close>

definition def_proc :: "board \<Rightarrow> nat \<Rightarrow> u32" where "def_proc b i = defconfig b + 20 * word_of_nat i"
definition def_bus :: "board \<Rightarrow> nat \<Rightarrow> u32" where "def_bus b i = defconfig b + 40 + 8 * word_of_nat i"
definition def_ioapic :: "board \<Rightarrow> u32" where "def_ioapic b = defconfig b + 56"
definition def_intin :: "board \<Rightarrow> nat \<Rightarrow> u32" where "def_intin b i = defconfig b + 64 + 8 * word_of_nat i"

definition def_read_ioapic :: "board \<Rightarrow> unit mp" where
  "def_read_ioapic b =
     bindS (IMPS_WRITE b IOAPIC_ADDR_DEFAULT IOAPIC_ID) (\<lambda>_.
     bindS (IMPS_READ b (IOAPIC_ADDR_DEFAULT + IOAPIC_RW)) (\<lambda>v.
     bindS (put_mem (def_ioapic b + 1) [ucast (APIC_ID v)]) (\<lambda>_.
     bindS (IMPS_WRITE b IOAPIC_ADDR_DEFAULT IOAPIC_VER) (\<lambda>_.
     bindS (IMPS_READ b (IOAPIC_ADDR_DEFAULT + IOAPIC_RW)) (\<lambda>w.
     put_mem (def_ioapic b + 2) [ucast (APIC_VERSION w)])))))"

definition def_processors :: "board \<Rightarrow> u32 \<Rightarrow> unit mp" where
  "def_processors b apicid =
     (if 2 \<le> unat apicid then liftS (Inl BufferOverflow)
      else
        bindS (put_mem (def_proc b (unat apicid) + 3) [IMPS_FLAG_ENABLED OR IMPS_CPUFLAG_BOOT]) (\<lambda>_.
        bindS (put_mem (def_proc b (if apicid = 0 then 1 else 0) + 3) [IMPS_FLAG_ENABLED]) (\<lambda>_ s.
        Inr ((), s\<lparr>imps_num_cpus := 2\<rparr>))))"

definition put_if :: "bool \<Rightarrow> u32 \<Rightarrow> byte list \<Rightarrow> unit mp" where
  "put_if c a bs = (if c then put_mem a bs else returnS ())"

definition def_variant :: "board \<Rightarrow> byte \<Rightarrow> unit mp" where
  "def_variant b f0 =
     bindS (put_if (f0 = 1 \<or> f0 = 5) (def_bus b 0 + 2) (map of_char ''ISA   '')) (\<lambda>_.
     bindS (put_if (f0 = 4 \<or> f0 = 7) (def_bus b 0 + 2) (map of_char ''MCA   '')) (\<lambda>_.
     bindS (put_if (4 < f0) (def_proc b 0 + 2) [0x10]) (\<lambda>_.
     bindS (put_if (4 < f0) (def_proc b 1 + 2) [0x10]) (\<lambda>_.
     bindS (put_if (4 < f0) (def_bus b 1) [IMPS_BCT_BUS]) (\<lambda>_.
     bindS (put_if (f0 = 2) (def_intin b 2) [255]) (\<lambda>_.
     bindS (put_if (f0 = 2) (def_intin b 13) [255]) (\<lambda>_.
     put_if (f0 = 7) (def_intin b 0) [255])))))))"

text \<open>Where the table starts and how many entries it has: the given one, or the default one.\<close>

definition given_table :: "u32 \<Rightarrow> (u32 \<times> nat) mp" where
  "given_table p =
     bindS (cth_oem_id p) (\<lambda>oem. bindS (cth_prod_id p) (\<lambda>prod.
     bindS (KERNEL_PRINT ''  OEM id: %s  Product id: %s\<newline>'' [AStr (c_text oem), AStr (c_text prod)]) (\<lambda>_.
     bindS (cth_entry_count p) (\<lambda>n. returnS (p + sizeof_cth, unat n)))))"

definition default_table :: "board \<Rightarrow> u32 \<Rightarrow> u32 \<Rightarrow> (u32 \<times> nat) mp" where
  "default_table b fps apicid =
     bindS (def_read_ioapic b) (\<lambda>_.
     bindS (def_processors b apicid) (\<lambda>_.
     bindS (fps_feature fps 0) (\<lambda>f0.
     bindS (def_variant b f0) (\<lambda>_. returnS (defconfig b, DEF_ENTRIES)))))"

text \<open>The address of the local APIC: from the table or the default one.\<close>

definition find_lapic :: "u32 \<Rightarrow> u32 \<Rightarrow> unit mp" where
  "find_lapic fps p =
     bindS (fps_cth_ptr fps) (\<lambda>cth.
     bindS (if cth \<noteq> 0 then cth_lapic_addr p else returnS LAPIC_ADDR_DEFAULT) (\<lambda>a s.
     Inr ((), s\<lparr>imps_lapic_addr := a\<rparr>)))"

definition imps_mode :: "byte \<Rightarrow> string" where
  "imps_mode f1 = (if f1 AND IMPS_FPS_IMCRP_BIT \<noteq> 0 then ''IMCR and PIC'' else ''Virtual Wire'')"

definition DQ :: string where "DQ = [CHR 0x22]"

definition print_mode :: "u32 \<Rightarrow> unit mp" where
  "print_mode fps =
     bindS (fps_feature fps 1) (\<lambda>f1 s.
     KERNEL_PRINT (''    APIC config: '' @ DQ @ ''%s mode'' @ DQ @ ''    Local APIC address: 0x%x\<newline>'')
       [AStr (imps_mode f1), AInt (imps_lapic_addr s)] s)"

definition map_lapic :: "board \<Rightarrow> unit mp" where
  "map_lapic b s = Inr ((), s\<lparr>imps_lapic_addr := virt b (imps_lapic_addr s)\<rparr>)"

text \<open>The table is read once the local APIC is known to be where it says.\<close>

definition read_tables :: "board \<Rightarrow> u32 \<Rightarrow> u32 \<Rightarrow> unit mp" where
  "read_tables b fps p =
     bindS (map_lapic b) (\<lambda>_.
     bindS (setup_primary b) (\<lambda>apicid.
     bindS (fps_cth_ptr fps) (\<lambda>cth.
     bindS (if cth \<noteq> 0 then given_table p else default_table b fps apicid) (\<lambda>(start, count).
     bindS (imps_read_config_table b start count) (\<lambda>_ s. Inr ((), s\<lparr>imps_enabled := True\<rparr>))))))"

definition imps_read_bios :: "board \<Rightarrow> u32 \<Rightarrow> unit mp" where
  "imps_read_bios b fps =
     bindS (fps_cth_ptr fps) (\<lambda>cth.
     let p = virt b cth in
     bindS (fps_spec_rev fps) (\<lambda>rev.
     bindS (KERNEL_PRINT ''Intel MultiProcessor Spec 1.%d BIOS support detected\<newline>'' [ABYTE rev]) (\<lambda>_.
     bindS (imps_bad_bios b fps) (\<lambda>wrong.
     if wrong then KERNEL_PRINT ''    Disabling MPS support\<newline>'' []
     else
       bindS (find_lapic fps p) (\<lambda>_.
       bindS (print_mode fps) (\<lambda>_.
       bindS (ask b (Msr 0x1b)) (\<lambda>msr s.
       if imps_lapic_addr s \<noteq> msr AND 0xFFFFF000 then
         KERNEL_PRINT ''Inconsistent Local APIC address, Disabling SMP support\<newline>'' [] s
       else read_tables b fps p s)))))))"

subsection \<open>Looking for the floating pointer structure\<close>

text \<open>The test of \<open>imps_scan\<close>; the checksum is taken at the physical address.\<close>

definition is_fps :: "board \<Rightarrow> (u32 \<Rightarrow> byte) \<Rightarrow> u32 \<Rightarrow> bool" where
  "is_fps b m start =
     (let p = virt b start in
      ld32 m p = IMPS_FPS_SIGNATURE \<and> m (p + 8) = 1 \<and> (m (p + 9) = 1 \<or> m (p + 9) = 4)
      \<and> get_checksum m start 16 = 0)"

partial_function (option) scan_loop :: "board \<Rightarrow> (u32 \<Rightarrow> byte) \<Rightarrow> u32 \<Rightarrow> u32 \<Rightarrow> u32 option option" where
  "scan_loop b m start len =
     (if len = 0 then Some None
      else if is_fps b m start then Some (Some start)
      else scan_loop b m (start + 16) (len - 16))"

definition imps_scan :: "board \<Rightarrow> u32 \<Rightarrow> u32 \<Rightarrow> bool mp" where
  "imps_scan b start len =
     bindS (KERNEL_PRINT ''Scanning from 0x%x for %d bytes\<newline>'' [AInt start, AInt len]) (\<lambda>_ s.
     (case scan_loop b (ram s) start len of
        None \<Rightarrow> Inl NoReturn
      | Some None \<Rightarrow> Inr (False, s)
      | Some (Some a) \<Rightarrow>
          bindS (KERNEL_PRINT ''Found MP Floating Structure Pointer at %x\<newline>'' [AInt a]) (\<lambda>_.
          bindS (imps_read_bios b (virt b a)) (\<lambda>_. returnS True)) s))"

subsection \<open>The entry points\<close>

primrec force_loop :: "board \<Rightarrow> u32 \<Rightarrow> nat \<Rightarrow> nat \<Rightarrow> unit mp" where
  "force_loop b apicid i 0 = returnS ()"
| "force_loop b apicid i (Suc n) =
     bindS (put_mem (frame b + 3)
              [if unat apicid = i then IMPS_FLAG_ENABLED OR IMPS_CPUFLAG_BOOT else IMPS_FLAG_ENABLED]) (\<lambda>_.
     bindS (put_mem (frame b + 1) [word_of_nat i]) (\<lambda>_.
     bindS (add_processor b (frame b)) (\<lambda>_. force_loop b apicid (Suc i) n)))"

definition imps_force :: "board \<Rightarrow> int \<Rightarrow> nat mp" where
  "imps_force b ncpus =
     bindS (KERNEL_PRINT (''Intel MultiProcessor '' @ DQ @ ''Force'' @ DQ @ '' Support\<newline>'') []) (\<lambda>_.
     bindS (ask b (Msr 0x1b)) (\<lambda>msr.
     bindS (\<lambda>s. Inr ((), s\<lparr>imps_lapic_addr := msr AND 0xFFFFF000\<rparr>)) (\<lambda>_.
     bindS (map_lapic b) (\<lambda>_.
     bindS (setup_primary b) (\<lambda>apicid.
     bindS (put_mem (frame b) [0]) (\<lambda>_.
     bindS (put_mem (frame b + 2) [0x10]) (\<lambda>_.
     bindS (put_mem (frame b + 4) (replicate 8 0)) (\<lambda>_.
     bindS (force_loop b apicid 0 (nat ncpus)) (\<lambda>_ s. Inr (imps_num_cpus s, s))))))))))"

text \<open>The size of the lower memory, from two bytes of the CMOS (the high one first).\<close>

definition read_mem_lower :: "board \<Rightarrow> u32 mp" where
  "read_mem_lower b =
     bindS (ask b (CmosIn (CMOS_BASE_MEMORY + 1))) (\<lambda>hi.
     bindS (ask b (CmosIn CMOS_BASE_MEMORY)) (\<lambda>lo.
     returnS (push_bit 10 (push_bit 8 (hi AND 0xFF) OR (lo AND 0xFF)))))"

definition check_ebda :: "board \<Rightarrow> u32 \<Rightarrow> u32 \<Rightarrow> u32 mp" where
  "check_ebda b ebda mem_lower =
     look (\<lambda>m. if mem_lower - 1024 < ebda \<or> mem_lower < ebda + ucast (m (virt b ebda)) * 1024 then 0 else ebda)"

text \<open>The scans, up to the first that finds the structure.\<close>

definition scan_places :: "board \<Rightarrow> u32 \<Rightarrow> u32 \<Rightarrow> bool mp" where
  "scan_places b ebda mem_lower =
     bindS (if ebda \<noteq> 0 then imps_scan b ebda 1024 else imps_scan b (mem_lower - 1024) 1024) (\<lambda>found.
     if found then returnS True else imps_scan b 0xF0000 0x10000)"

definition imps_probe :: "board \<Rightarrow> nat mp" where
  "imps_probe b =
     bindS (look (\<lambda>m. push_bit 4 (ucast (ld16 m (virt b EBDA_SEG_ADDR))))) (\<lambda>ebda.
     bindS (read_mem_lower b) (\<lambda>mem_lower.
     bindS (\<lambda>s. Inr ((), s\<lparr>imps_enabled := False, imps_num_cpus := 1\<rparr>)) (\<lambda>_.
     if mem_lower < 512 * 1024 \<or> 640 * 1024 < mem_lower then returnS 0
     else
       bindS (check_ebda b ebda mem_lower) (\<lambda>ebda'.
       bindS (scan_places b ebda' mem_lower) (\<lambda>found s.
       Inr (if found \<and> imps_enabled s then imps_num_cpus s else 0, s))))))"

end
