(* ===== verification/SmpSpec.thy ===== *)
theory SmpSpec
  imports SmpProbe "HOL-Library.Sublist"
begin

unbundle bit_operations_syntax

text \<open>
  What the functions of \<open>smp-imps.c\<close> do. Starting a processor is \<open>quiet\<close>: it always returns,
  leaves the global variables alone and writes only the memory of the boot code, the BIOS
  reset vector and the registers of the local APIC. Over this frame the walk of the table,
  the checks and the scan are proved against their specifications on the bytes in memory.
\<close>

subsection \<open>Messages\<close>

lemma KERNEL_PRINT_ok:
  "vsprintf fmt args = Inr t \<Longrightarrow> KERNEL_PRINT fmt args s = Inr ((), s\<lparr>history := history s @ [Print t]\<rparr>)"
  by (simp add: KERNEL_PRINT_def event_def bindS_def liftS_def)

definition printable :: "string \<Rightarrow> carg list \<Rightarrow> bool" where
  "printable fmt args = (\<exists>t. vsprintf fmt args = Inr t)"

lemma printable_plain [simp]: "CHR ''%'' \<notin> set fmt \<Longrightarrow> printable fmt args"
  by (simp add: printable_def fmt_plain)

lemma smp_formats [simp]:
  "printable ''#%d  Application Processor (AP)'' [AInt w]"
  "printable ''  Processor [APIC id %d ver %d]:  '' [AInt w, AInt v]"
  "printable ''  Bus id %d is %s\<newline>'' [AInt w, AStr t]"
  "printable ''  I/O APIC id %d ver %d, address: 0x%x  '' [AInt w, AInt v, AInt u]"
  "printable ''    Bad Extended MP Config Table checksum 0x%x\<newline>'' [AInt w]"
  "printable ''    Bad MP Config Table sig 0x%x and/or checksum 0x%x\<newline>'' [AInt w, AInt v]"
  "printable ''    Bad MP Config Table sub-revision # %d\<newline>'' [AInt w]"
  "printable ''    Invalid MP System Configuration type %d\<newline>'' [AInt w]"
  "printable ''  OEM id: %s  Product id: %s\<newline>'' [AStr t, AStr t']"
  "printable ''Intel MultiProcessor Spec 1.%d BIOS support detected\<newline>'' [AInt w]"
  "printable ''Scanning from 0x%x for %d bytes\<newline>'' [AInt w, AInt v]"
  "printable ''Found MP Floating Structure Pointer at %x\<newline>'' [AInt w]"
  by (simp_all add: printable_def fmt_eval)

lemma mode_format [simp]:
  "printable (''    APIC config: '' @ DQ @ ''%s mode'' @ DQ @ ''    Local APIC address: 0x%x\<newline>'') [AStr t, AInt w]"
  "printable (''Intel MultiProcessor '' @ DQ @ ''Force'' @ DQ @ '' Support\<newline>'') []"
  by (simp_all add: printable_def fmt_eval DQ_def)


subsection \<open>What a step may change\<close>

text \<open>What of the history is visible to the hardware as a command.\<close>

fun is_output :: "io \<Rightarrow> bool" where
  "is_output (Out a v) = True"
| "is_output (CmosOut a v) = True"
| "is_output _ = False"

definition outputs :: "smp \<Rightarrow> io list" where "outputs s = filter is_output (history s)"

text \<open>
  \<open>tells\<close>: only the history grows, and by no output. \<open>quiet\<close>: the history grows, and memory
  that booting may write changes.
\<close>

definition tells :: "smp \<Rightarrow> smp \<Rightarrow> bool" where
  "tells s s' = (\<exists>h. filter is_output h = [] \<and> s' = s\<lparr>history := history s @ h\<rparr>)"

definition touched :: "board \<Rightarrow> u32 \<Rightarrow> u32 \<Rightarrow> bool" where
  "touched b lapic x =
     (unat (x - bootaddr) < length (patch_code b)
      \<or> is_ram b x \<and> (unat (x - virt b BIOS_RESET_VECTOR) < 4
           \<or> (\<exists>r \<in> {LAPIC_ESR, LAPIC_ICR, LAPIC_ICR + 0x10, LAPIC_SPIV}. unat (x - (lapic + r)) < 4)))"

definition quiet :: "board \<Rightarrow> smp \<Rightarrow> smp \<Rightarrow> bool" where
  "quiet b s s' =
     ((\<exists>h m. s' = s\<lparr>history := history s @ h, ram := m\<rparr>)
      \<and> (\<forall>x. \<not> touched b (imps_lapic_addr s) x \<longrightarrow> ram s' x = ram s x))"

lemma tells_refl [simp]: "tells s s"
  by (auto simp: tells_def intro: exI [of _ "[]"])

lemma tells_trans: "tells s t \<Longrightarrow> tells t u \<Longrightarrow> tells s u"
  unfolding tells_def by (elim exE conjE, rule_tac x = "h @ ha" in exI) simp

lemma tells_outputs: "tells s t \<Longrightarrow> outputs t = outputs s"
  by (auto simp: tells_def outputs_def)

lemma quiet_globals:
  assumes "quiet b s s'"
  shows "imps_enabled s' = imps_enabled s" "imps_num_cpus s' = imps_num_cpus s"
    "imps_lapic_addr s' = imps_lapic_addr s" "imps_cpu_apic_map s' = imps_cpu_apic_map s"
    "imps_apic_cpu_map s' = imps_apic_cpu_map s"
  using assms by (auto simp: quiet_def)

lemma quiet_ram: "quiet b s s' \<Longrightarrow> \<not> touched b (imps_lapic_addr s) x \<Longrightarrow> ram s' x = ram s x"
  by (simp add: quiet_def)

lemma quiet_history: "quiet b s (s\<lparr>history := history s @ h\<rparr>)"
  by (cases s) (auto simp: quiet_def)

lemma tells_quiet: "tells s s' \<Longrightarrow> quiet b s s'"
  by (cases s) (auto simp: tells_def quiet_def)

lemma tells_ram: "tells s s' \<Longrightarrow> ram s' = ram s"
  by (auto simp: tells_def)

lemma quiet_trans:
  assumes "quiet b s t" "quiet b t u"
  shows "quiet b s u"
proof -
  obtain h m where "t = s\<lparr>history := history s @ h, ram := m\<rparr>" using assms(1) by (auto simp: quiet_def)
  moreover obtain h' m' where "u = t\<lparr>history := history t @ h', ram := m'\<rparr>" using assms(2) by (auto simp: quiet_def)
  ultimately have "u = s\<lparr>history := history s @ (h @ h'), ram := m'\<rparr>" by simp
  then show ?thesis using quiet_ram [OF assms(1)] quiet_ram [OF assms(2)] quiet_globals(3) [OF assms(1)]
    unfolding quiet_def by metis
qed

text \<open>Computations that always return and are quiet, or only tell.\<close>

definition quiets :: "board \<Rightarrow> 'a mp \<Rightarrow> bool" where
  "quiets b m = (\<forall>s. \<exists>x s'. m s = Inr (x, s') \<and> quiet b s s')"

lemma quietsE:
  assumes "quiets b m"
  obtains x s' where "m s = Inr (x, s')" "quiet b s s'"
  using assms unfolding quiets_def by blast

lemma quiets_bind: "quiets b m \<Longrightarrow> (\<And>x. quiets b (f x)) \<Longrightarrow> quiets b (bindS m f)"
  unfolding quiets_def by (metis bindS_Inr quiet_trans)

lemma quiets_return: "quiets b (returnS x)"
  by (auto simp: quiets_def returnS_def tells_quiet)

lemma quiets_event: "quiets b (event x)"
  by (simp add: quiets_def event_def quiet_history)

lemma quiets_ask: "quiets b (ask b' x)"
  by (simp add: quiets_def ask_def quiet_history)

lemma quiets_look: "quiets b (look f)"
  by (auto simp: quiets_def look_def intro!: tells_quiet)

lemma quiets_state: "(\<And>s. quiets b (f s)) \<Longrightarrow> quiets b (\<lambda>s. f s s)"
  by (auto simp: quiets_def)

lemma print_tells: "printable fmt args \<Longrightarrow> \<exists>s'. KERNEL_PRINT fmt args s = Inr ((), s') \<and> tells s s'"
  by (force simp: printable_def tells_def KERNEL_PRINT_ok)

lemma quiets_print: "printable fmt args \<Longrightarrow> quiets b (KERNEL_PRINT fmt args)"
  unfolding quiets_def using print_tells tells_quiet by blast

lemma quiets_patch: "quiets b (put_mem bootaddr (patch_code b))"
  by (auto simp: quiets_def put_mem_def quiet_def touched_def set_bytes_def intro!: exI [of _ "[]"])

lemma length_bytes32 [simp]: "length (bytes32 v) = 4"
  by (simp add: bytes32_def)

lemma quiet_write:
  assumes "\<And>x. is_ram b x \<Longrightarrow> unat (x - a) < 4 \<Longrightarrow> touched b (imps_lapic_addr s) x"
  shows "\<exists>s'. IMPS_WRITE b a v s = Inr ((), s') \<and> quiet b s s'"
  using assms by (auto simp: IMPS_WRITE_def quiet_def set_bytes_def)

lemma quiets_vector: "quiets b (IMPS_WRITE b (virt b BIOS_RESET_VECTOR) v)"
  unfolding quiets_def by (intro allI exI [of _ "()"] quiet_write) (auto simp: touched_def)

lemma quiets_lapic_write: "r \<in> {LAPIC_ESR, LAPIC_ICR, LAPIC_ICR + 0x10, LAPIC_SPIV} \<Longrightarrow> quiets b (IMPS_LAPIC_WRITE b r v)"
  unfolding quiets_def IMPS_LAPIC_WRITE_def by (intro allI exI [of _ "()"] quiet_write) (auto simp: touched_def)

lemma quiets_lapic_read: "quiets b (IMPS_LAPIC_READ b r)"
  unfolding IMPS_LAPIC_READ_def IMPS_READ_def by (rule quiets_state) (rule quiets_ask)

lemmas quiets_intros =
  quiets_bind quiets_return quiets_event quiets_ask quiets_look quiets_print quiets_patch quiets_vector
  quiets_lapic_write quiets_lapic_read

subsection \<open>Booting is quiet\<close>

lemma quiets_ipi_wait: "quiets b (ipi_wait b n)"
proof (induction "1000 - n" arbitrary: n)
  case 0
  then show ?case by (subst ipi_wait.simps) (auto intro!: quiets_intros)
next
  case (Suc k)
  then have "quiets b (ipi_wait b (n + 1))" by (intro Suc.hyps(1)) linarith
  then show ?case by (subst ipi_wait.simps) (auto intro!: quiets_intros)
qed

lemma quiets_send_ipi: "quiets b (send_ipi b dst v)"
  unfolding send_ipi_def by (auto intro!: quiets_intros quiets_ipi_wait)

lemma quiets_boot_wait: "quiets b (boot_wait b n)"
proof (induction "100 - n" arbitrary: n)
  case 0
  then show ?case by (subst boot_wait.simps) (auto intro!: quiets_intros)
next
  case (Suc k)
  then have "quiets b (boot_wait b (n + 1))" by (intro Suc.hyps(1)) linarith
  then show ?case by (subst boot_wait.simps) (auto intro!: quiets_intros)
qed

lemma quiets_startup: "quiets b (startup_loop b i n)"
  by (induction n) (auto intro!: quiets_intros quiets_send_ipi)

lemma quiets_clear_esr: "quiets b (clear_esr b)"
  unfolding clear_esr_def by (auto intro!: quiets_intros)

lemma quiets_reset_vector: "quiets b (set_reset_vector b c v)"
  unfolding set_reset_vector_def by (auto intro!: quiets_intros)

lemma quiets_init_ipis: "quiets b (init_ipis b i)"
  unfolding init_ipis_def by (auto intro!: quiets_intros quiets_send_ipi)

lemma quiets_boot_report: "quiets b (boot_report n)"
  unfolding boot_report_def
  by (auto intro!: quiets_intros quiets_state [of b "\<lambda>s. KERNEL_PRINT ''#%d  Application Processor (AP)'' [AInt (word_of_nat (imps_num_cpus s))]"])

lemmas quiets_parts = quiets_send_ipi quiets_boot_wait quiets_startup quiets_clear_esr quiets_reset_vector quiets_init_ipis quiets_boot_report

lemma quiets_boot_cpu: "quiets b (boot_cpu b p)"
  unfolding boot_cpu_def proc_apic_id_def proc_apic_ver_def Let_def
  by (intro quiets_intros quiets_parts) (auto intro: quiets_intros quiets_parts)


subsection \<open>Checksums\<close>

lemma word_of_nat_ucast: "(word_of_nat (unat (x :: byte)) :: u32) = ucast x"
  by (rule of_nat_unat)

lemma checksum_loop_eq:
  "checksum_loop m a n acc = acc + word_of_nat (\<Sum>x \<leftarrow> get_bytes m a n. unat x)"
proof (induction n arbitrary: a acc)
  case (Suc n)
  have "get_bytes m a (Suc n) = m a # get_bytes m (a + 1) n"
    unfolding get_bytes_def by (subst upt_conv_Cons) (simp_all add: map_Suc_upt [symmetric] comp_def algebra_simps del: upt_Suc)
  then show ?case using Suc by (simp add: word_of_nat_ucast algebra_simps)
qed (simp add: get_bytes_def)

lemma low_byte: "(word_of_nat k :: u32) AND 0xFF = word_of_nat (k mod 256)"
proof -
  have "(word_of_nat k :: u32) AND mask 8 = take_bit 8 (word_of_nat k)" by (simp add: take_bit_eq_mask)
  also have "\<dots> = word_of_nat (take_bit 8 k)" by (simp add: take_bit_of_nat)
  finally show ?thesis by (simp add: mask_eq_exp_minus_1 take_bit_eq_mod)
qed

lemma low_byte_zero: "(word_of_nat k :: u32) AND 0xFF = 0 \<longleftrightarrow> k mod 256 = 0"
  by (simp add: low_byte word_of_nat_eq_0_iff) (auto dest!: nat_dvd_not_less)

definition bytes_sum :: "(u32 \<Rightarrow> byte) \<Rightarrow> u32 \<Rightarrow> nat \<Rightarrow> nat" where
  "bytes_sum m a n = (\<Sum>x \<leftarrow> get_bytes m a n. unat x)"

lemma get_checksum_sum: "get_checksum m a n = word_of_nat (bytes_sum m a n mod 256)"
  by (simp add: get_checksum_def checksum_loop_eq low_byte bytes_sum_def)

lemma get_checksum_zero: "get_checksum m a n = 0 \<longleftrightarrow> bytes_sum m a n mod 256 = 0"
  using low_byte_zero [of "bytes_sum m a n"] by (simp add: get_checksum_sum low_byte)

lemma get_checksum_plus:
  "(get_checksum m a n + ucast (x :: byte)) AND 0xFF = 0 \<longleftrightarrow> (bytes_sum m a n + unat x) mod 256 = 0"
proof -
  have "get_checksum m a n + ucast x = word_of_nat (bytes_sum m a n mod 256 + unat x)"
    by (simp add: get_checksum_sum word_of_nat_ucast)
  then show ?thesis by (simp only: low_byte_zero mod_add_left_eq)
qed

subsection \<open>Which tables are accepted\<close>

text \<open>
  The requirements of the MultiProcessor specification that the code checks: a known
  configuration type, and either a default configuration or a table with the right
  signature, checksum and revision and a right checksum of its extended part, if any.
\<close>

definition mp_table_valid :: "(u32 \<Rightarrow> byte) \<Rightarrow> u32 \<Rightarrow> u32 \<Rightarrow> bool" where
  "mp_table_valid m fps p =
     (let len = ld16 m (p + 4); ext = unat (ld16 m (p + 40)) in
      ld32 m p = IMPS_CTH_SIGNATURE \<and> bytes_sum m p (unat len) mod 256 = 0 \<and> m (p + 6) = m (fps + 9)
      \<and> (ext = 0 \<or> (bytes_sum m (p + ucast len) ext + unat (m (p + 42))) mod 256 = 0))"

definition mp_valid :: "board \<Rightarrow> (u32 \<Rightarrow> byte) \<Rightarrow> u32 \<Rightarrow> bool" where
  "mp_valid b m fps =
     (m (fps + 11) \<le> IMPS_FPS_DEFAULT_MAX
      \<and> (if ld32 m (fps + 4) = 0 then m (fps + 11) \<noteq> 0 else mp_table_valid m fps (virt b (ld32 m (fps + 4)))))"

lemma bad_tells: "printable fmt args \<Longrightarrow> \<exists>s'. bad fmt args s = Inr (True, s') \<and> tells s s'"
  using print_tells [of fmt args s] by (auto simp: bad_def bindS_Inr returnS_def)

lemma look_bind: "bindS (look f) g s = g (f (ram s)) s"
  by (simp add: bindS_def look_def)

lemmas field_defs =
  fps_sig_def fps_cth_ptr_def fps_spec_rev_def fps_feature_def cth_sig_def cth_base_length_def cth_spec_rev_def
  cth_oem_id_def cth_prod_id_def cth_entry_count_def cth_lapic_addr_def cth_extended_length_def cth_extended_checksum_def
  proc_apic_id_def proc_apic_ver_def proc_flags_def bus_id_def bus_type_def ioapic_id_def ioapic_ver_def
  ioapic_flags_def ioapic_addr_def

lemma bad_extended_tells:
  "\<exists>s'. bad_extended p s = Inr (\<not> (unat (ld16 (ram s) (p + 40)) = 0
      \<or> (bytes_sum (ram s) (p + ucast (ld16 (ram s) (p + 4))) (unat (ld16 (ram s) (p + 40))) + unat (ram s (p + 42))) mod 256 = 0), s')
    \<and> tells s s'"
  unfolding bad_extended_def field_defs look_bind Let_def if_distrib [of "\<lambda>f. f s"] get_checksum_plus
  using bad_tells [OF smp_formats(5)] by (auto simp: returnS_def unat_eq_0)

lemma bad_table_tells:
  "\<exists>s'. bad_table fps cth p s = Inr (\<not> mp_table_valid (ram s) fps p, s') \<and> tells s s'"
  unfolding bad_table_def field_defs look_bind if_distrib [of "\<lambda>f. f s"] mp_table_valid_def Let_def get_checksum_zero
  using bad_tells [OF smp_formats(6)] bad_tells [OF smp_formats(7)] bad_extended_tells [of p s] by auto

lemma bad_bios_tells:
  "\<exists>s'. imps_bad_bios b fps s = Inr (\<not> mp_valid b (ram s) fps, s') \<and> tells s s'"
  unfolding imps_bad_bios_def field_defs look_bind if_distrib [of "\<lambda>f. f s"] mp_valid_def
  using bad_tells [OF smp_formats(8)] bad_tells [OF printable_plain] bad_table_tells
  by (auto simp: returnS_def not_le)


subsection \<open>The scan\<close>

definition scan_places_of :: "u32 \<Rightarrow> nat \<Rightarrow> u32 list" where
  "scan_places_of start n = map (\<lambda>i. start + 16 * word_of_nat i) [0..<n]"

lemma scan_places_of_Suc: "scan_places_of start (Suc n) = start # scan_places_of (start + 16) n"
  unfolding scan_places_of_def
  by (subst upt_conv_Cons) (simp_all add: map_Suc_upt [symmetric] comp_def algebra_simps del: upt_Suc)

lemma scan_loop_find:
  "16 * n < 2 ^ 32 \<Longrightarrow> scan_loop b m start (word_of_nat (16 * n)) = Some (find (is_fps b m) (scan_places_of start n))"
proof (induction n arbitrary: start)
  case 0
  then show ?case by (subst scan_loop.simps) (simp add: scan_places_of_def)
next
  case (Suc n)
  have u: "unat (word_of_nat (16 * Suc n) :: u32) = 16 * Suc n"
    unfolding unat_of_nat using Suc.prems by (intro mod_less) simp
  have "unat (word_of_nat (16 * Suc n) :: u32) \<noteq> 0" unfolding u by simp
  then have "(word_of_nat (16 * Suc n) :: u32) \<noteq> 0" by (metis unsigned_0)
  moreover have "(word_of_nat (16 * Suc n) :: u32) - 16 = word_of_nat (16 * n)" by simp
  moreover have "16 * n < 2 ^ 32" using Suc.prems by simp
  ultimately show ?case by (subst scan_loop.simps) (simp only: scan_places_of_Suc find.simps Suc.IH if_False if_distrib [of Some])
qed

definition fps_ahead :: "board \<Rightarrow> (u32 \<Rightarrow> byte) \<Rightarrow> u32 \<Rightarrow> bool" where
  "fps_ahead b m start = (\<exists>k. is_fps b m (start + 16 * word_of_nat k))"

lemma fps_ahead_step: "is_fps b m start \<or> fps_ahead b m (start + 16) \<Longrightarrow> fps_ahead b m start"
  unfolding fps_ahead_def
proof (elim disjE exE)
  assume "is_fps b m start"
  then show "\<exists>k. is_fps b m (start + 16 * word_of_nat k)" by (intro exI [of _ 0]) simp
next
  fix k
  assume "is_fps b m (start + 16 + 16 * word_of_nat k)"
  then show "\<exists>k. is_fps b m (start + 16 * word_of_nat k)" by (intro exI [of _ "Suc k"]) (simp add: algebra_simps)
qed

lemma low_bits_step: "take_bit 4 (len - 16 :: u32) = take_bit 4 len"
proof -
  obtain i where i: "len = word_of_int i" by (metis word_of_int_uint)
  have "take_bit 4 (len - 16) = take_bit 4 (word_of_int (i - 16))" by (simp add: i)
  also have "\<dots> = take_bit 4 len" by (simp only: i take_bit_of_int) (simp add: take_bit_eq_mod)
  finally show ?thesis .
qed

lemma scan_loop_finds:
  assumes "scan_loop b m start len = Some r" "take_bit 4 len \<noteq> 0"
  shows "fps_ahead b m start"
proof -
  have "take_bit 4 len \<noteq> 0 \<longrightarrow> fps_ahead b m start"
  proof (rule scan_loop.raw_induct [where P = "\<lambda>b m start len r. take_bit 4 len \<noteq> 0 \<longrightarrow> fps_ahead b m start", OF _ assms(1)], intro impI)
    fix f b m start len r
    assume f: "\<And>b m start len r. f b m start len = Some r \<Longrightarrow> take_bit 4 len \<noteq> 0 \<longrightarrow> fps_ahead b m start"
      and r: "(if len = 0 then Some None else if is_fps b m start then Some (Some start) else f b m (start + 16) (len - 16)) = Some r"
      and len: "take_bit 4 len \<noteq> (0 :: u32)"
    have "len \<noteq> 0" using len by auto
    with r have "is_fps b m start \<or> f b m (start + 16) (len - 16) = Some r" by (auto split: if_splits)
    with f [of b m "start + 16" "len - 16" r] len show "fps_ahead b m start"
      by (metis fps_ahead_step low_bits_step)
  qed
  with assms(2) show ?thesis by blast
qed

end
