(* ===== verification/SmpBoot.thy ===== *)
theory SmpBoot
  imports SmpSpec
begin

unbundle bit_operations_syntax

text \<open>
  Starting processors: what \<open>boot_cpu\<close> sends to the hardware and when it succeeds, and the
  walk of the configuration table against its abstract reading as a list of entries.
\<close>

subsection \<open>The protocol\<close>

text \<open>A computation that sends a list of outputs, given the address of the local APIC.\<close>

definition emits :: "'a mp \<Rightarrow> (u32 \<Rightarrow> io list) \<Rightarrow> bool" where
  "emits m os =
     (\<forall>s x s'. m s = Inr (x, s') \<longrightarrow>
        outputs s' = outputs s @ os (imps_lapic_addr s) \<and> imps_lapic_addr s' = imps_lapic_addr s)"

lemma bindS_InrE:
  assumes "bindS m f s = Inr r"
  obtains x t where "m s = Inr (x, t)" "f x t = Inr r"
  using assms by (auto simp: bindS_def bindE_eq_Inr)

lemma emitsD:
  assumes "emits m os" "m s = Inr (x, s')"
  shows "outputs s' = outputs s @ os (imps_lapic_addr s)" "imps_lapic_addr s' = imps_lapic_addr s"
  using assms unfolding emits_def by blast+

lemma emits_bind:
  assumes "emits m os" "\<And>x. emits (f x) os'"
  shows "emits (bindS m f) (\<lambda>l. os l @ os' l)"
  unfolding emits_def
proof (intro allI impI)
  fix s y s'
  assume "bindS m f s = Inr (y, s')"
  then obtain x t where "m s = Inr (x, t)" "f x t = Inr (y, s')" by (rule bindS_InrE)
  with assms show "outputs s' = outputs s @ (os (imps_lapic_addr s) @ os' (imps_lapic_addr s)) \<and> imps_lapic_addr s' = imps_lapic_addr s"
    unfolding emits_def by (metis append_assoc)
qed

lemma emits_silent:
  "emits (returnS x) (\<lambda>_. [])" "emits (look f) (\<lambda>_. [])" "emits (put_mem a bs) (\<lambda>_. [])"
  "emits (event (Delay n)) (\<lambda>_. [])" "emits (event (Print t)) (\<lambda>_. [])" "emits (ask b (Booted a)) (\<lambda>_. [])"
  "emits (IMPS_LAPIC_READ b r) (\<lambda>_. [])"
  by (auto simp: emits_def returnS_def look_def put_mem_def event_def ask_def outputs_def IMPS_LAPIC_READ_def IMPS_READ_def)

lemma emits_print: "emits (KERNEL_PRINT fmt args) (\<lambda>_. [])"
  by (auto simp: emits_def KERNEL_PRINT_def bindS_def liftS_def event_def outputs_def bindE_eq_Inr)

lemma emits_out:
  "emits (event (CmosOut c v)) (\<lambda>_. [CmosOut c v])"
  "emits (IMPS_WRITE b a w) (\<lambda>_. [Out a w])"
  "emits (IMPS_LAPIC_WRITE b r w) (\<lambda>l. [Out (l + r) w])"
  by (auto simp: emits_def event_def outputs_def IMPS_WRITE_def IMPS_LAPIC_WRITE_def)

text \<open>Loops that only poll.\<close>

lemma emits_poll:
  assumes "emits m (\<lambda>_. [])" "\<And>x. emits (f x) (\<lambda>_. [])"
  shows "emits (bindS m f) (\<lambda>_. [])"
  using emits_bind [OF assms] by simp

lemma emits_ipi_wait: "emits (ipi_wait b n) (\<lambda>_. [])"
proof (induction "1000 - n" arbitrary: n)
  case 0
  then show ?case by (subst ipi_wait.simps) (auto intro!: emits_poll emits_silent)
next
  case (Suc k)
  then have "emits (ipi_wait b (n + 1)) (\<lambda>_. [])" by (intro Suc.hyps(1)) linarith
  then show ?case by (subst ipi_wait.simps) (auto intro!: emits_poll emits_silent)
qed

lemma emits_boot_wait: "emits (boot_wait b n) (\<lambda>_. [])"
proof (induction "100 - n" arbitrary: n)
  case 0
  then show ?case by (subst boot_wait.simps) (auto intro!: emits_poll emits_silent)
next
  case (Suc k)
  then have "emits (boot_wait b (n + 1)) (\<lambda>_. [])" by (intro Suc.hyps(1)) linarith
  then show ?case by (subst boot_wait.simps) (auto intro!: emits_poll emits_silent)
qed

lemma emits_boot_report: "emits (boot_report n) (\<lambda>_. [])"
proof -
  have "emits (\<lambda>s. KERNEL_PRINT (fmt :: string) (args s) s) (\<lambda>_. [])" for fmt args
    using emits_print [of fmt] unfolding emits_def by blast
  then show ?thesis unfolding boot_report_def by (auto intro!: emits_poll emits_print emits_silent)
qed

text \<open>What one interrupt looks like to the local APIC.\<close>

definition ipi :: "u32 \<Rightarrow> u32 \<Rightarrow> u32 \<Rightarrow> io list" where
  "ipi apicid v l = [Out (l + 0x310) (push_bit 24 apicid), Out (l + 0x300) v]"

lemma emits_send_ipi: "emits (send_ipi b apicid v) (ipi apicid v)"
proof -
  have "emits (send_ipi b apicid v) (\<lambda>l. [Out (l + (LAPIC_ICR + 0x10)) (push_bit 24 apicid)] @ [Out (l + LAPIC_ICR) v] @ [])"
    unfolding send_ipi_def by (intro emits_bind emits_out emits_poll emits_ipi_wait emits_silent)
  then show ?thesis by (simp add: ipi_def [abs_def] LAPIC_ICR_def)
qed


lemma emits_reset_vector: "emits (set_reset_vector b c v) (\<lambda>_. [CmosOut 0xF c, Out (virt b 0x467) v])"
proof -
  have "emits (set_reset_vector b c v) (\<lambda>_. [CmosOut CMOS_RESET_CODE c] @ [Out (virt b BIOS_RESET_VECTOR) v])"
    unfolding set_reset_vector_def by (intro emits_bind emits_out)
  then show ?thesis by (simp add: smp_consts)
qed

lemma emits_clear_esr: "emits (clear_esr b) (\<lambda>l. [Out (l + 0x280) 0])"
proof -
  have "emits (clear_esr b) (\<lambda>l. [Out (l + LAPIC_ESR) 0] @ [])"
    unfolding clear_esr_def by (intro emits_bind emits_out emits_poll emits_silent)
  then show ?thesis by (simp add: LAPIC_ESR_def)
qed

lemma emits_init_ipis: "emits (init_ipis b i) (\<lambda>l. ipi i 0xC500 l @ ipi i 0x8500 l)"
proof -
  have "emits (init_ipis b i) (\<lambda>l. ipi i (LAPIC_ICR_TM_LEVEL OR LAPIC_ICR_LEVELASSERT OR LAPIC_ICR_DM_INIT) l
      @ [] @ ipi i (LAPIC_ICR_TM_LEVEL OR LAPIC_ICR_DM_INIT) l @ [])"
    unfolding init_ipis_def by (intro emits_bind emits_send_ipi emits_silent)
  then show ?thesis by (simp add: smp_consts)
qed

lemma emits_startup: "emits (startup_loop b i 2) (\<lambda>l. ipi i 0x670 l @ ipi i 0x670 l)"
proof -
  let ?sipi = "LAPIC_ICR_DM_SIPI OR (drop_bit 12 bootaddr AND 0xFF)"
  have "emits (startup_loop b i (Suc (Suc 0))) (\<lambda>l. ipi i ?sipi l @ [] @ ipi i ?sipi l @ [] @ [])"
    unfolding startup_loop.simps by (intro emits_bind emits_send_ipi emits_silent)
  moreover have "?sipi = 0x670" by (simp add: LAPIC_ICR_DM_SIPI_def bootaddr_def)
  ultimately show ?thesis by (simp only: numeral_2_eq_2 append_Nil append_Nil2)
qed

text \<open>The sequence of the MultiProcessor specification, between setting and clearing the reset vector.\<close>

definition boot_protocol :: "board \<Rightarrow> u32 \<Rightarrow> byte \<Rightarrow> u32 \<Rightarrow> io list" where
  "boot_protocol b i ver l =
     [CmosOut 0xF 0xA, Out (virt b 0x467) 0x70000000, Out (l + 0x280) 0]
     @ ipi i 0xC500 l @ ipi i 0x8500 l
     @ (if 0x10 \<le> ver then ipi i 0x670 l @ ipi i 0x670 l else [])
     @ [Out (l + 0x280) 0, CmosOut 0xF 0, Out (virt b 0x467) 0]"

text \<open>\<open>boot_cpu\<close> in three parts: up to the version, the startup interrupts, and the end.\<close>

definition boot_init :: "board \<Rightarrow> u32 \<Rightarrow> unit mp" where
  "boot_init b i =
     bindS (put_mem bootaddr (patch_code b)) (\<lambda>_.
     bindS (set_reset_vector b CMOS_RESET_JUMP (push_bit 12 (bootaddr AND 0xFF000))) (\<lambda>_.
     bindS (clear_esr b) (\<lambda>_. init_ipis b i)))"

definition boot_start :: "board \<Rightarrow> u32 \<Rightarrow> byte \<Rightarrow> unit mp" where
  "boot_start b i ver = (if APIC_VER_NEW \<le> ver then startup_loop b i 2 else returnS ())"

definition boot_end :: "board \<Rightarrow> bool mp" where
  "boot_end b =
     bindS (boot_wait b 0) (\<lambda>n.
     bindS (boot_report n) (\<lambda>success.
     bindS (clear_esr b) (\<lambda>_.
     bindS (set_reset_vector b 0 0) (\<lambda>_.
     bindS (KERNEL_PRINT ''\<newline>'' []) (\<lambda>_. returnS success)))))"

lemma boot_cpu_parts:
  "boot_cpu b p s =
     bindS (boot_init b (ucast (ram s (p + 1)))) (\<lambda>_.
     bindS (proc_apic_ver p) (\<lambda>ver. bindS (boot_start b (ucast (ram s (p + 1))) ver) (\<lambda>_. boot_end b))) s"
  by (simp add: boot_cpu_def boot_init_def boot_start_def boot_end_def bindS_assoc proc_apic_id_def look_bind Let_def)

lemma quiets_boot_init: "quiets b (boot_init b i)"
  unfolding boot_init_def by (intro quiets_intros quiets_parts)

lemma emits_boot_init:
  "emits (boot_init b i) (\<lambda>l. [CmosOut 0xF 0xA, Out (virt b 0x467) 0x70000000, Out (l + 0x280) 0] @ ipi i 0xC500 l @ ipi i 0x8500 l)"
proof -
  have "emits (boot_init b i) (\<lambda>l. [] @ [CmosOut 0xF CMOS_RESET_JUMP, Out (virt b 0x467) (push_bit 12 (bootaddr AND 0xFF000))]
      @ [Out (l + 0x280) 0] @ ipi i 0xC500 l @ ipi i 0x8500 l)"
    unfolding boot_init_def
    by (intro emits_bind emits_silent(3) emits_reset_vector emits_clear_esr emits_init_ipis)
  then show ?thesis by (simp add: CMOS_RESET_JUMP_def bootaddr_def)
qed

lemma emits_boot_start:
  "emits (boot_start b i ver) (\<lambda>l. if 0x10 \<le> ver then ipi i 0x670 l @ ipi i 0x670 l else [])"
  by (cases "0x10 \<le> ver") (simp_all add: boot_start_def APIC_VER_NEW_def emits_startup emits_silent)

lemma emits_boot_end:
  "emits (boot_end b) (\<lambda>l. [Out (l + 0x280) 0, CmosOut 0xF 0, Out (virt b 0x467) 0])"
proof -
  have "emits (boot_end b) (\<lambda>l. [] @ [] @ [Out (l + 0x280) 0] @ [CmosOut 0xF 0, Out (virt b 0x467) 0] @ [] @ [])"
    unfolding boot_end_def
    by (intro emits_bind emits_boot_wait emits_boot_report emits_clear_esr emits_reset_vector emits_print emits_silent(1))
  then show ?thesis by simp
qed

lemma boot_cpu_emits:
  assumes run: "boot_cpu b p s = Inr (x, s')" and ver: "\<not> touched b (imps_lapic_addr s) (p + 2)"
  shows "outputs s' = outputs s @ boot_protocol b (ucast (ram s (p + 1))) (ram s (p + 2)) (imps_lapic_addr s)"
proof -
  let ?i = "ucast (ram s (p + 1)) :: u32"
  obtain s1 where s1: "boot_init b ?i s = Inr ((), s1)" "quiet b s s1"
    using quietsE [OF quiets_boot_init] by (metis old.unit.exhaust)
  then have v: "ram s1 (p + 2) = ram s (p + 2)" using ver quiet_ram by blast
  have "bindS (boot_start b ?i (ram s (p + 2))) (\<lambda>_. boot_end b) s1 = Inr (x, s')"
    using run s1(1) v by (simp add: boot_cpu_parts bindS_Inr proc_apic_ver_def look_bind)
  then obtain u s2 where "boot_start b ?i (ram s (p + 2)) s1 = Inr (u, s2)" "boot_end b s2 = Inr (x, s')"
    by (rule bindS_InrE)
  with s1(1) emitsD [OF emits_boot_init] emitsD [OF emits_boot_start] emitsD [OF emits_boot_end]
  show ?thesis by (simp add: boot_protocol_def)
qed

subsection \<open>When a processor counts as started\<close>

text \<open>
  It does if one of the first hundred tests succeeds. \<open>all_answer\<close> and \<open>none_answer\<close> are
  the two extremes of hardware.
\<close>

definition all_answer :: "board \<Rightarrow> bool" where "all_answer b = (\<forall>h. answer b h (Booted bootaddr) \<noteq> 0)"
definition none_answer :: "board \<Rightarrow> bool" where "none_answer b = (\<forall>h. answer b h (Booted bootaddr) = 0)"

lemma boot_wait_all: "all_answer b \<Longrightarrow> boot_wait b n s = Inr (m, s') \<Longrightarrow> m = n"
  by (subst (asm) boot_wait.simps) (auto simp: all_answer_def bindS_def ask_def returnS_def)

lemma boot_wait_none: "none_answer b \<Longrightarrow> boot_wait b n s = Inr (m, s') \<Longrightarrow> 100 < m"
proof (induction "100 - n" arbitrary: n s)
  case 0
  then show ?case by (subst (asm) boot_wait.simps) (auto simp: none_answer_def bindS_def ask_def returnS_def)
next
  case (Suc k)
  then have n: "n < 100" "k = 100 - (n + 1)" by simp_all
  from Suc.prems obtain t where "boot_wait b (n + 1) t = Inr (m, s')"
    by (subst (asm) boot_wait.simps) (auto simp: n none_answer_def bindS_def ask_def event_def)
  then show ?case using Suc.hyps(1) n(2) Suc.prems(1) by blast
qed

lemma boot_report_result: "boot_report n s = Inr (x, s') \<Longrightarrow> x = (n < 100)"
  by (auto simp: boot_report_def returnS_def elim!: bindS_InrE split: if_splits)

lemma boot_cpu_result:
  assumes "boot_cpu b p s = Inr (x, s')"
  shows "(all_answer b \<longrightarrow> x) \<and> (none_answer b \<longrightarrow> \<not> x)"
proof -
  obtain t where "boot_end b t = Inr (x, s')"
    using assms unfolding boot_cpu_parts by (elim bindS_InrE) blast
  then obtain n t1 t2 where w: "boot_wait b 0 t = Inr (n, t1)" and r: "boot_report n t1 = Inr (x, t2)"
    unfolding boot_end_def by (elim bindS_InrE) (simp only: returnS_def sum.inject prod.inject)
  have "x = (n < 100)" using r by (rule boot_report_result)
  with w show ?thesis using boot_wait_all [of b 0 t n t1] boot_wait_none [of b 0 t n t1] by auto
qed

end
