(* ===== verification/SmpTable.thy ===== *)
theory SmpTable
  imports SmpBoot
begin

unbundle bit_operations_syntax

text \<open>
  The walk of the configuration table, against the table read as a list of entries: which
  processors are started, in which order, and what the maps between processor numbers and
  APIC identifiers say afterwards.
\<close>

subsection \<open>The table as a list of entries\<close>

datatype mp_entry =
    Processor byte byte byte          \<comment> \<open>APIC identifier, version, flags\<close>
  | Bus byte "byte list"
  | IoApic byte byte byte u32
  | OtherEntry byte

definition entry_at :: "(u32 \<Rightarrow> byte) \<Rightarrow> u32 \<Rightarrow> mp_entry" where
  "entry_at m a =
     (if m a = 0 then Processor (m (a + 1)) (m (a + 2)) (m (a + 3))
      else if m a = 1 then Bus (m (a + 1)) (get_bytes m (a + 2) 6)
      else if m a = 2 then IoApic (m (a + 1)) (m (a + 2)) (m (a + 3)) (ld32 m (a + 4))
      else OtherEntry (m a))"

fun entry_len :: "mp_entry \<Rightarrow> nat" where
  "entry_len (Processor _ _ _) = 20"
| "entry_len _ = 8"

fun mp_table :: "(u32 \<Rightarrow> byte) \<Rightarrow> u32 \<Rightarrow> nat \<Rightarrow> mp_entry list" where
  "mp_table m a 0 = []"
| "mp_table m a (Suc n) = (let e = entry_at m a in e # mp_table m (a + word_of_nat (entry_len e)) n)"

definition table_len :: "mp_entry list \<Rightarrow> nat" where "table_len es = (\<Sum>e \<leftarrow> es. entry_len e)"

text \<open>The processors to be started: those that are enabled and not the one that booted.\<close>

fun application_cpus :: "mp_entry list \<Rightarrow> byte list" where
  "application_cpus [] = []"
| "application_cpus (Processor i ver flags # es) =
     (if flags AND 1 \<noteq> 0 \<and> flags AND 2 = 0 then i # application_cpus es else application_cpus es)"
| "application_cpus (_ # es) = application_cpus es"

subsection \<open>Numbering processors\<close>

text \<open>Number of processors, identifier of each number, number of each identifier.\<close>

type_synonym cpus = "nat \<times> byte list \<times> byte list"

definition cpus_of :: "smp \<Rightarrow> cpus" where
  "cpus_of s = (imps_num_cpus s, imps_cpu_apic_map s, imps_apic_cpu_map s)"

fun number_cpu :: "byte \<Rightarrow> cpus \<Rightarrow> cpus" where
  "number_cpu i (n, c, a) = (Suc n, c[n := i], a[unat i := word_of_nat n])"

definition room :: "nat \<Rightarrow> smp \<Rightarrow> bool" where
  "room k s = (imps_num_cpus s + k \<le> 255 \<and> length (imps_cpu_apic_map s) = 255 \<and> length (imps_apic_cpu_map s) = 255)"

lemma unat_below_255: "(i :: byte) \<noteq> 255 \<Longrightarrow> unat i < 255"
proof -
  assume "i \<noteq> 255"
  then have "unat i \<noteq> 255" by (metis of_nat_numeral of_nat_unat ucast_id)
  then show ?thesis using unat_byte_bound [of i] by linarith
qed

lemma record_cpu_room:
  assumes "room (Suc k) s" "i \<noteq> 255"
  shows "\<exists>s'. record_cpu i s = Inr ((), s') \<and> cpus_of s' = number_cpu i (cpus_of s) \<and> room k s'
    \<and> history s' = history s \<and> ram s' = ram s \<and> imps_enabled s' = imps_enabled s \<and> imps_lapic_addr s' = imps_lapic_addr s"
proof -
  have "unat i < 255" using assms(2) by (rule unat_below_255)
  then show ?thesis using assms
    by (simp add: record_cpu_def bindS_def set_cpu_apic_def set_apic_cpu_def set_elem_def room_def cpus_of_def)
qed

text \<open>What the walk of the table may change besides the maps: the history and memory that booting writes.\<close>

definition advances :: "board \<Rightarrow> smp \<Rightarrow> smp \<Rightarrow> bool" where
  "advances b s s' =
     (imps_enabled s' = imps_enabled s \<and> imps_lapic_addr s' = imps_lapic_addr s
      \<and> (\<forall>x. \<not> touched b (imps_lapic_addr s) x \<longrightarrow> ram s' x = ram s x))"

lemma advances_trans: "advances b s t \<Longrightarrow> advances b t u \<Longrightarrow> advances b s u"
  by (simp add: advances_def)

lemma quiet_advances: "quiet b s s' \<Longrightarrow> advances b s s' \<and> cpus_of s' = cpus_of s \<and> (room k s' \<longleftrightarrow> room k s)"
  by (simp add: advances_def cpus_of_def room_def quiet_globals quiet_ram)

text \<open>
  An operation on the table starts some of the processors \<open>ids\<close>, all of them or none when
  the hardware answers always or never.
\<close>

definition starts :: "board \<Rightarrow> unit mp \<Rightarrow> byte list \<Rightarrow> nat \<Rightarrow> smp \<Rightarrow> bool" where
  "starts b m ids k s =
     (\<exists>done s'. m s = Inr ((), s') \<and> advances b s s' \<and> subseq done ids
        \<and> cpus_of s' = fold number_cpu done (cpus_of s) \<and> room k s'
        \<and> (all_answer b \<longrightarrow> done = ids) \<and> (none_answer b \<longrightarrow> done = []))"

lemma starts_bind:
  assumes "starts b m ids (length ids' + k) s"
    and "\<And>s'. advances b s s' \<Longrightarrow> room (length ids' + k) s' \<Longrightarrow> starts b m' ids' k s'"
  shows "starts b (bindS m (\<lambda>_. m')) (ids @ ids') k s"
proof -
  obtain d1 s1 where 1: "m s = Inr ((), s1)" "advances b s s1" "subseq d1 ids" "cpus_of s1 = fold number_cpu d1 (cpus_of s)"
    "room (length ids' + k) s1" "all_answer b \<longrightarrow> d1 = ids" "none_answer b \<longrightarrow> d1 = []"
    using assms(1) unfolding starts_def by blast
  obtain d2 s2 where 2: "m' s1 = Inr ((), s2)" "advances b s1 s2" "subseq d2 ids'" "cpus_of s2 = fold number_cpu d2 (cpus_of s1)"
    "room k s2" "all_answer b \<longrightarrow> d2 = ids'" "none_answer b \<longrightarrow> d2 = []"
    using assms(2) [OF 1(2,5)] unfolding starts_def by blast
  have "advances b s s2" using 1(2) 2(2) by (rule advances_trans)
  moreover have "bindS m (\<lambda>_. m') s = Inr ((), s2)" using 1(1) 2(1) by (simp add: bindS_Inr)
  moreover have "subseq (d1 @ d2) (ids @ ids')" using 1(3) 2(3) by (rule list_emb_append_mono)
  moreover have "cpus_of s2 = fold number_cpu (d1 @ d2) (cpus_of s)" using 1(4) 2(4) by simp
  moreover have "all_answer b \<longrightarrow> d1 @ d2 = ids @ ids'" "none_answer b \<longrightarrow> d1 @ d2 = []" using 1(6,7) 2(6,7) by auto
  ultimately show ?thesis using 2(5) unfolding starts_def by blast
qed

lemma starts_quiet:
  assumes "quiets b m" "room k s"
  shows "starts b m [] k s"
proof -
  obtain x s' where "m s = Inr (x, s')" "quiet b s s'" using assms(1) by (rule quietsE)
  with quiet_advances [of b s s' k] assms(2) show ?thesis
    unfolding starts_def by (intro exI [of _ "[]"] exI [of _ s']) simp
qed

lemma room_less: "room k s \<Longrightarrow> j \<le> k \<Longrightarrow> room j s"
  by (simp add: room_def)

lemma starts_boot:
  assumes "room (Suc k) s" "i \<noteq> 255"
  shows "starts b (bindS (boot_cpu b p) (\<lambda>ok. if ok then record_cpu i else returnS ())) [i] k s"
proof -
  obtain x s1 where 1: "boot_cpu b p s = Inr (x, s1)" "quiet b s s1"
    using quietsE [OF quiets_boot_cpu] by blast
  note q = quiet_advances [OF 1(2)] and ans = boot_cpu_result [OF 1(1)]
  have room: "room (Suc k) s1" using q assms(1) by blast
  show ?thesis
  proof (cases x)
    case False
    have "bindS (boot_cpu b p) (\<lambda>ok. if ok then record_cpu i else returnS ()) s = Inr ((), s1)"
      using 1(1) False by (simp add: bindS_Inr returnS_def)
    then show ?thesis using q ans room_less [OF room, of k] False
      unfolding starts_def by (intro exI [of _ "[]"] exI [of _ s1]) simp
  next
    case True
    obtain s2 where 2: "record_cpu i s1 = Inr ((), s2)" "cpus_of s2 = number_cpu i (cpus_of s1)" "room k s2"
      "ram s2 = ram s1" "imps_enabled s2 = imps_enabled s1" "imps_lapic_addr s2 = imps_lapic_addr s1"
      using record_cpu_room [OF room assms(2)] by blast
    have "bindS (boot_cpu b p) (\<lambda>ok. if ok then record_cpu i else returnS ()) s = Inr ((), s2)"
      using 1(1) 2(1) True by (simp add: bindS_Inr)
    moreover have "advances b s s2" using q 2(4-6) by (simp add: advances_def)
    ultimately show ?thesis using q ans 2(2,3) True
      unfolding starts_def by (intro exI [of _ "[i]"] exI [of _ s2]) simp
  qed
qed

text \<open>The three kinds of entries.\<close>

lemma quiets_add_bus: "quiets b (add_bus p)"
  unfolding add_bus_def bus_type_def bus_id_def by (intro quiets_intros smp_formats)

lemma quiets_add_ioapic: "quiets b (add_ioapic p)"
  unfolding add_ioapic_def field_defs by (intro quiets_intros smp_formats) (auto intro!: quiets_print)

text \<open>Messages before an operation.\<close>

lemma tells_same:
  assumes "tells s t"
  shows "ram t = ram s" "imps_lapic_addr t = imps_lapic_addr s" "imps_enabled t = imps_enabled s"
    "cpus_of t = cpus_of s" "room k t = room k s"
  using assms by (auto simp: tells_def cpus_of_def room_def)

lemma starts_tells:
  assumes "tells s t" "m' s = m t" "starts b m ids k t"
  shows "starts b m' ids k s"
proof -
  have "advances b t u \<longleftrightarrow> advances b s u" for u
    by (simp only: advances_def tells_same(1-3) [OF assms(1)])
  then show ?thesis using assms(2,3) by (simp only: starts_def tells_same(4) [OF assms(1)])
qed

lemma add_processor_flags:
  "\<exists>t. tells s t \<and> add_processor b p s =
     (if ram s (p + 3) AND 1 = 0 then KERNEL_PRINT ''DISABLED\<newline>'' []
      else if ram s (p + 3) AND 2 \<noteq> 0 then KERNEL_PRINT ''#0  BootStrap Processor (BSP)\<newline>'' []
      else bindS (boot_cpu b p) (\<lambda>ok. if ok then record_cpu (ram s (p + 1)) else returnS ())) t"
proof -
  obtain t where t: "KERNEL_PRINT ''  Processor [APIC id %d ver %d]:  '' [ABYTE (ram s (p + 1)), ABYTE (ram s (p + 2))] s = Inr ((), t)"
    "tells s t" using print_tells [OF smp_formats(2)] by blast
  then show ?thesis using tells_ram [OF t(2)]
    by (intro exI [of _ t])
      (simp only: add_processor_def field_defs look_bind bindS_Inr IMPS_FLAG_ENABLED_def IMPS_CPUFLAG_BOOT_def simp_thms)
qed

lemma starts_add_processor:
  assumes "room (length (application_cpus [Processor (ram s (p + 1)) ver (ram s (p + 3))]) + k) s"
    and "255 \<notin> set (application_cpus [Processor (ram s (p + 1)) ver (ram s (p + 3))])"
  shows "starts b (add_processor b p) (application_cpus [Processor (ram s (p + 1)) ver (ram s (p + 3))]) k s"
proof -
  let ?m = "if ram s (p + 3) AND 1 = 0 then KERNEL_PRINT ''DISABLED\<newline>'' []
      else if ram s (p + 3) AND 2 \<noteq> 0 then KERNEL_PRINT ''#0  BootStrap Processor (BSP)\<newline>'' []
      else bindS (boot_cpu b p) (\<lambda>ok. if ok then record_cpu (ram s (p + 1)) else returnS ())"
  obtain t where t: "tells s t" "add_processor b p s = ?m t"
    using add_processor_flags by blast
  have "starts b ?m (application_cpus [Processor (ram s (p + 1)) ver (ram s (p + 3))]) k t"
  proof (cases "ram s (p + 3) AND 1 \<noteq> 0 \<and> ram s (p + 3) AND 2 = 0")
    case True
    then have "room (Suc k) t" "ram s (p + 1) \<noteq> 255"
      using assms by (simp_all only: tells_same(5) [OF t(1)] application_cpus.simps if_True simp_thms) simp_all
    from starts_boot [OF this, of b p] show ?thesis using True by simp
  next
    case False
    have "room k s" by (rule room_less [OF assms(1)]) (rule le_add2)
    then have "room k t" by (simp only: tells_same(5) [OF t(1)])
    moreover have "quiets b (KERNEL_PRINT ''DISABLED\<newline>'' [])" "quiets b (KERNEL_PRINT ''#0  BootStrap Processor (BSP)\<newline>'' [])"
      by (intro quiets_print printable_plain; simp)+
    ultimately have "starts b (KERNEL_PRINT ''DISABLED\<newline>'' []) [] k t"
      "starts b (KERNEL_PRINT ''#0  BootStrap Processor (BSP)\<newline>'' []) [] k t" by (simp_all only: starts_quiet)
    then have "starts b ?m [] k t" using False by (simp only: if_False if_True split: if_split) blast
    then show ?thesis using False by (simp only: application_cpus.simps if_False)
  qed
  with t show ?thesis by (rule starts_tells)
qed


subsection \<open>The walk\<close>

definition table_safe :: "board \<Rightarrow> u32 \<Rightarrow> u32 \<Rightarrow> mp_entry list \<Rightarrow> bool" where
  "table_safe b lapic a es = (\<forall>i < table_len es. \<not> touched b lapic (a + word_of_nat i))"

lemma entry_len_bounds: "8 \<le> entry_len e" "0 < entry_len e"
  by (cases e; simp)+

lemma application_cpus_append: "application_cpus (es @ fs) = application_cpus es @ application_cpus fs"
  by (induction es rule: application_cpus.induct) auto

lemma table_safe_Cons:
  assumes "table_safe b lapic a (e # es)"
  shows "i < entry_len e \<Longrightarrow> \<not> touched b lapic (a + word_of_nat i)"
    and "table_safe b lapic (a + word_of_nat (entry_len e)) es"
proof -
  show "i < entry_len e \<Longrightarrow> \<not> touched b lapic (a + word_of_nat i)"
    using assms by (simp add: table_safe_def table_len_def)
  show "table_safe b lapic (a + word_of_nat (entry_len e)) es"
    unfolding table_safe_def
  proof (intro allI impI)
    fix i assume "i < table_len es"
    then have "entry_len e + i < table_len (e # es)" by (simp add: table_len_def)
    then have "\<not> touched b lapic (a + word_of_nat (entry_len e + i))"
      using assms unfolding table_safe_def by blast
    then show "\<not> touched b lapic (a + word_of_nat (entry_len e) + word_of_nat i)" by (simp add: add.assoc)
  qed
qed

text \<open>Memory that agrees on the bytes of a table holds the same table.\<close>

lemma get_bytes_cong: "(\<And>i. i < n \<Longrightarrow> m (a + word_of_nat i) = m' (a + word_of_nat i)) \<Longrightarrow> get_bytes m a n = get_bytes m' a n"
  by (simp add: get_bytes_def)

lemma entry_at_cong:
  assumes "\<And>i. i < entry_len (entry_at m a) \<Longrightarrow> m' (a + word_of_nat i) = m (a + word_of_nat i)"
  shows "entry_at m' a = entry_at m a"
proof -
  have 8: "m' (a + word_of_nat i) = m (a + word_of_nat i)" if "i < 8" for i
    using that entry_len_bounds(1) [of "entry_at m a"] by (intro assms) linarith
  have b: "m' a = m a" "m' (a + 1) = m (a + 1)" "m' (a + 2) = m (a + 2)" "m' (a + 3) = m (a + 3)"
    using 8 [of 0] 8 [of 1] 8 [of 2] 8 [of 3] by simp_all
  have "get_bytes m' (a + 2) 6 = get_bytes m (a + 2) 6"
    using 8 [of "2 + i" for i] by (intro get_bytes_cong) (simp add: add.assoc)
  moreover have "get_bytes m' (a + 4) 4 = get_bytes m (a + 4) 4"
    using 8 [of "4 + i" for i] by (intro get_bytes_cong) (simp add: add.assoc)
  ultimately show ?thesis by (simp add: entry_at_def b ld32_def)
qed

lemma mp_table_cong:
  "(\<And>i. i < table_len (mp_table m a n) \<Longrightarrow> m' (a + word_of_nat i) = m (a + word_of_nat i)) \<Longrightarrow> mp_table m' a n = mp_table m a n"
proof (induction n arbitrary: a)
  case (Suc n)
  let ?e = "entry_at m a"
  have "entry_at m' a = ?e" using Suc.prems by (intro entry_at_cong) (simp add: Let_def table_len_def)
  moreover have "mp_table m' (a + word_of_nat (entry_len ?e)) n = mp_table m (a + word_of_nat (entry_len ?e)) n"
  proof (rule Suc.IH)
    fix i assume "i < table_len (mp_table m (a + word_of_nat (entry_len ?e)) n)"
    then have "entry_len ?e + i < table_len (mp_table m a (Suc n))" by (simp add: table_len_def Let_def)
    from Suc.prems [OF this] show "m' (a + word_of_nat (entry_len ?e) + word_of_nat i) = m (a + word_of_nat (entry_len ?e) + word_of_nat i)"
      by (simp add: add.assoc)
  qed
  ultimately show ?case by (simp add: Let_def)
qed simp

lemma table_after:
  assumes "advances b s s'" "table_safe b (imps_lapic_addr s) a (mp_table (ram s) a n)"
  shows "mp_table (ram s') a n = mp_table (ram s) a n"
  using assms by (intro mp_table_cong) (simp add: advances_def table_safe_def)

text \<open>One entry is handled as its reading says.\<close>

lemma config_table_step:
  "\<exists>m. imps_read_config_table b a (Suc n) s =
       bindS m (\<lambda>_. imps_read_config_table b (a + word_of_nat (entry_len (entry_at (ram s) a))) n) s
     \<and> (room (length (application_cpus [entry_at (ram s) a]) + k) s \<longrightarrow> 255 \<notin> set (application_cpus [entry_at (ram s) a])
        \<longrightarrow> starts b m (application_cpus [entry_at (ram s) a]) k s)"
proof -
  consider "ram s a = 0" | "ram s a = 1" | "ram s a = 2" | "ram s a \<noteq> 0" "ram s a \<noteq> 1" "ram s a \<noteq> 2" by blast
  then show ?thesis
  proof cases
    case 1
    then show ?thesis using starts_add_processor [of s a "ram s (a + 2)" k b]
      by (intro exI [of _ "add_processor b a"]) (simp add: look_bind entry_at_def smp_consts add.commute [of 20])
  next
    case 2
    then show ?thesis using starts_quiet [OF quiets_add_bus]
      by (intro exI [of _ "add_bus a"]) (simp add: look_bind entry_at_def smp_consts)
  next
    case 3
    then show ?thesis using starts_quiet [OF quiets_add_ioapic]
      by (intro exI [of _ "add_ioapic a"]) (simp add: look_bind entry_at_def smp_consts)
  next
    case 4
    then show ?thesis using starts_quiet [OF quiets_return]
      by (intro exI [of _ "returnS ()"]) (simp add: look_bind entry_at_def smp_consts)
  qed
qed

lemma config_table_starts:
  assumes "table_safe b (imps_lapic_addr s) a (mp_table (ram s) a n)"
    and "room (length (application_cpus (mp_table (ram s) a n)) + k) s"
    and "255 \<notin> set (application_cpus (mp_table (ram s) a n))"
  shows "starts b (imps_read_config_table b a n) (application_cpus (mp_table (ram s) a n)) k s"
  using assms
proof (induction n arbitrary: a s)
  case 0
  then show ?case by (simp add: starts_quiet quiets_return)
next
  case (Suc n)
  let ?e = "entry_at (ram s) a"
  let ?a = "a + word_of_nat (entry_len ?e)"
  let ?es = "mp_table (ram s) ?a n"
  have es: "mp_table (ram s) a (Suc n) = [?e] @ ?es" by (simp add: Let_def)
  note safe = table_safe_Cons [OF Suc.prems(1) [unfolded es append.simps]]
  have ids: "application_cpus (mp_table (ram s) a (Suc n)) = application_cpus [?e] @ application_cpus ?es"
    by (simp only: es application_cpus_append)
  obtain m where m: "imps_read_config_table b a (Suc n) s = bindS m (\<lambda>_. imps_read_config_table b ?a n) s"
    "starts b m (application_cpus [?e]) (length (application_cpus ?es) + k) s"
    using config_table_step [of b a n s "length (application_cpus ?es) + k"] Suc.prems(2,3) unfolding ids
    by (auto simp: add.assoc)
  have "starts b (imps_read_config_table b ?a n) (application_cpus ?es) k s'"
    if adv: "advances b s s'" and room: "room (length (application_cpus ?es) + k) s'" for s'
  proof -
    have t: "mp_table (ram s') ?a n = ?es" by (rule table_after [OF adv safe(2)])
    have "imps_lapic_addr s' = imps_lapic_addr s" using adv by (simp add: advances_def)
    then show ?thesis using Suc.IH [of s' ?a] safe(2) room Suc.prems(3) unfolding t ids by simp
  qed
  from starts_bind [OF m(2) this] show ?case
    unfolding ids starts_def m(1) .
qed

end
