(* ===== verification/SmpMain.thy ===== *)
theory SmpMain
  imports SmpTable
begin

unbundle bit_operations_syntax

text \<open>
  The properties of \<open>smp-imps.c\<close>: the protocol of starting a processor, the scan, the check
  of the tables, the walk of a table, and the whole of \<open>imps_probe\<close>.
\<close>

subsection \<open>Numbers and identifiers\<close>

text \<open>The two maps are inverse to each other on the numbers given so far.\<close>

definition numbered :: "smp \<Rightarrow> byte list \<Rightarrow> bool" where
  "numbered s ids =
     (imps_num_cpus s = length ids \<and> take (length ids) (imps_cpu_apic_map s) = ids
      \<and> (\<forall>k < length ids. imps_apic_cpu_map s ! unat (ids ! k) = word_of_nat k))"

definition numbering :: "cpus \<Rightarrow> byte list \<Rightarrow> bool" where
  "numbering c ids =
     (case c of (n, cm, am) \<Rightarrow> n = length ids \<and> take n cm = ids \<and> (\<forall>k < n. am ! unat (ids ! k) = word_of_nat k))"

lemma numbered_cpus: "numbered s ids \<longleftrightarrow> numbering (cpus_of s) ids"
  by (auto simp: numbered_def numbering_def cpus_of_def)

lemma numbering_step:
  assumes "numbering (n, cm, am) ids" "i \<notin> set ids" "n < length cm" "unat i < length am"
  shows "numbering (number_cpu i (n, cm, am)) (ids @ [i])"
proof -
  have n: "n = length ids" and t: "take n cm = ids" and k: "\<And>k. k < n \<Longrightarrow> am ! unat (ids ! k) = word_of_nat k"
    using assms(1) by (auto simp: numbering_def)
  have "take (Suc n) (cm[n := i]) = ids @ [i]" using assms(3) t by (simp add: take_Suc_conv_app_nth)
  moreover have "am[unat i := word_of_nat n] ! unat ((ids @ [i]) ! k) = word_of_nat k" if "k < Suc n" for k
  proof (cases "k = n")
    case True
    then show ?thesis using assms(4) n by simp
  next
    case False
    then have "k < n" using that by simp
    then have "unat (ids ! k) \<noteq> unat i" using assms(2) n by (metis nth_mem unsigned_word_eqI)
    then show ?thesis using \<open>k < n\<close> k n by (simp add: nth_append)
  qed
  ultimately show ?thesis by (simp add: numbering_def n)
qed

lemma numbering_fold:
  assumes "numbering (n, cm, am) ids" "distinct (ids @ js)" "n + length js \<le> length cm" "length am = 255" "255 \<notin> set js"
  shows "numbering (fold number_cpu js (n, cm, am)) (ids @ js)"
  using assms
proof (induction js arbitrary: n cm am ids)
  case (Cons i js)
  have "unat i < length am" using Cons.prems(4,5) unat_below_255 [of i] by auto
  then have "numbering (Suc n, cm[n := i], am[unat i := word_of_nat n]) (ids @ [i])"
    using numbering_step [OF Cons.prems(1), of i] Cons.prems(2,3) by simp
  from Cons.IH [OF this] Cons.prems(2-5) show ?case by simp
qed simp


subsection \<open>A machine\<close>

text \<open>
  Two processors, the structure in the extended BIOS data area, the table in the BIOS; the
  processor that runs has the identifier 0, the other one, 4, answers.
\<close>

definition demo_fps :: "byte list" where
  "demo_fps = [0x5F, 0x4D, 0x50, 0x5F, 0, 0, 0xF, 0, 1, 4, 0x91, 0, 0, 0, 0, 0]"

definition demo_cth :: "byte list" where
  "demo_cth =
     [0x50, 0x43, 0x4D, 0x50, 92, 0, 4, 0x08] @ replicate 8 65 @ replicate 12 66 @ replicate 6 0
     @ [3, 0, 0, 0, 0xE0, 0xFE, 0, 0, 0, 0] @ processor_bytes 0 0 0x11 3 @ processor_bytes 0 4 0x11 1
     @ bus_bytes 1 0 ''PCI   ''"

definition demo_ram :: "u32 \<Rightarrow> byte" where
  "demo_ram = set_bytes 0x40E [0xC0, 0x9F] (set_bytes 0x9FC00 (1 # replicate 15 0 @ demo_fps)
     (set_bytes 0xF0000 demo_cth (\<lambda>_. 0)))"

fun demo_answer :: "io \<Rightarrow> u32" where
  "demo_answer (CmosIn r) = (if r = 0x16 then 2 else if r = 0x15 then 0x80 else 0)"
| "demo_answer (Booted a) = 1"
| "demo_answer (Msr r) = 0xFEE00900"
| "demo_answer _ = 0"

definition demo_board :: board where
  "demo_board = \<lparr>answer = (\<lambda>h. demo_answer), virt = (\<lambda>a. a), is_ram = (\<lambda>a. a < 0xA0000), defconfig = 0x20000,
     frame = 0x30000, patch_code = [0xEA]\<rparr>"

definition demo_smp :: smp where "demo_smp = smp_start demo_board demo_ram 0x1000"


lemmas demo_defs =
  demo_smp_def demo_board_def smp_start_def demo_ram_def demo_fps_def demo_cth_def defconfig_bytes_def
  processor_bytes_def bus_bytes_def interrupt_bytes_def bytes32_def

lemma demo_board_fields [simp]:
  "virt demo_board a = a" "is_ram demo_board a = (a < 0xA0000)" "answer demo_board h x = demo_answer x"
  "patch_code demo_board = [0xEA]" "frame demo_board = 0x30000" "defconfig demo_board = 0x20000"
  by (simp_all add: demo_board_def)

lemma demo_smp_fields [simp]:
  "imps_num_cpus demo_smp = 1" "imps_cpu_apic_map demo_smp = replicate 255 0" "imps_apic_cpu_map demo_smp = replicate 255 0"
  "imps_lapic_addr demo_smp = 0xFE0" "history demo_smp = []" "imps_enabled demo_smp = False"
  by (simp_all add: demo_smp_def smp_start_def smp_consts)

lemma length_defconfig: "length defconfig_bytes = 208"
  by (simp add: defconfig_bytes_def processor_bytes_def bus_bytes_def interrupt_bytes_def)

text \<open>Memory that holds a list of bytes at an address.\<close>

definition holds :: "(u32 \<Rightarrow> byte) \<Rightarrow> u32 \<Rightarrow> byte list \<Rightarrow> bool" where
  "holds m a bs = (\<forall>i < length bs. m (a + word_of_nat i) = bs ! i)"

lemma holds_set:
  assumes "length bs < 2 ^ 32"
  shows "holds (set_bytes a bs m) a bs"
  unfolding holds_def
proof (intro allI impI)
  fix i assume "i < length bs"
  then have "unat (word_of_nat i :: u32) = i" unfolding unat_of_nat using assms by (intro mod_less) simp
  with \<open>i < length bs\<close> show "set_bytes a bs m (a + word_of_nat i) = bs ! i" by (simp add: set_bytes_def)
qed

lemma holds_apart:
  assumes "holds m a bs" "length bs' \<le> unat (a - a')" "unat (a - a') + length bs \<le> 2 ^ 32"
  shows "holds (set_bytes a' bs' m) a bs"
  unfolding holds_def
proof (intro allI impI)
  fix i assume i: "i < length bs"
  have "a + word_of_nat i - a' = word_of_nat (unat (a - a') + i)" by simp
  moreover have "unat (word_of_nat (unat (a - a') + i) :: u32) = unat (a - a') + i"
    unfolding unat_of_nat using assms(3) i by (intro mod_less) simp
  ultimately have "unat (a + word_of_nat i - a') = unat (a - a') + i" by metis
  then show "set_bytes a' bs' m (a + word_of_nat i) = bs ! i" using assms(1,2) i by (simp add: set_bytes_def holds_def)
qed

lemma get_bytes_holds: "holds m a bs \<Longrightarrow> k + n \<le> length bs \<Longrightarrow> get_bytes m (a + word_of_nat k) n = take n (drop k bs)"
  by (rule nth_equalityI) (simp_all add: get_bytes_def holds_def add.assoc of_nat_add [symmetric] del: of_nat_add)

lemma demo_fps_at: "holds (ram demo_smp) 0x9FC00 (1 # replicate 15 0 @ demo_fps)"
  unfolding demo_smp_def smp_start_def smp.simps demo_ram_def demo_board_fields
  by (intro holds_apart holds_set) (simp_all add: demo_fps_def length_defconfig)

lemma length_demo_cth: "length demo_cth = 92"
  by (simp add: demo_cth_def processor_bytes_def bus_bytes_def)

lemma demo_cth_at: "holds (ram demo_smp) 0xF0000 demo_cth"
  unfolding demo_smp_def smp_start_def smp.simps demo_ram_def demo_board_fields
  by (intro holds_apart holds_set) (simp_all add: demo_fps_def length_defconfig length_demo_cth)

lemma demo_rom: "unat (x - 0xF0000) < 92 \<Longrightarrow> ram demo_smp x = demo_cth ! unat (x - 0xF0000)"
  using demo_cth_at by (auto simp: holds_def length_demo_cth dest!: spec [of _ "unat (x - 0xF0000)"])

lemma demo_ebda: "unat (x - 0x9FC00) < 32 \<Longrightarrow> ram demo_smp x = (1 # replicate 15 0 @ demo_fps) ! unat (x - 0x9FC00)"
  using demo_fps_at by (auto simp: holds_def demo_fps_def dest!: spec [of _ "unat (x - 0x9FC00)"])

lemma demo_cth_list:
  "demo_cth = [0x50, 0x43, 0x4D, 0x50, 92, 0, 4, 0x08, 65, 65, 65, 65, 65, 65, 65, 65, 66, 66, 66, 66, 66, 66, 66, 66, 66, 66, 66, 66,
     0, 0, 0, 0, 0, 0, 3, 0, 0, 0, 0xE0, 0xFE, 0, 0, 0, 0, 0, 0, 0x11, 3, 0, 0, 0, 0, 0, 0, 0, 0, 0, 0, 0, 0, 0, 0, 0, 0,
     0, 4, 0x11, 1, 0, 0, 0, 0, 0, 0, 0, 0, 0, 0, 0, 0, 0, 0, 0, 0, 1, 0, 80, 67, 73, 32, 32, 32]"
  by (simp add: demo_cth_def processor_bytes_def bus_bytes_def numeral_eq_Suc)

lemma demo_table: "mp_table (ram demo_smp) (0xF0000 + 44) 3 =
    [Processor 0 0x11 3, Processor 4 0x11 1, Bus 0 [80, 67, 73, 32, 32, 32]]"
proof -
  have "get_bytes (ram demo_smp) 0xF0056 6 = [80, 67, 73, 32, 32, 32]"
    using get_bytes_holds [OF demo_cth_at, of 86 6] by (simp add: length_demo_cth) (simp add: demo_cth_list)
  then show ?thesis by (simp add: numeral_3_eq_3 entry_at_def Let_def demo_rom) (simp add: demo_cth_list)
qed

subsection \<open>Starting a processor\<close>

text \<open>
  C24: \<open>boot_cpu\<close> always returns and sends the hardware exactly the sequence of the
  specification: the reset vector points to the copied code while the processor gets INIT,
  its de-assertion and, from version 0x10 on, two startup interrupts, and is cleared at the end.
  The call succeeds on hardware that answers, fails on hardware that never does, and
  changes no global variable and no memory but the area of the boot code, the vector and the registers.
\<close>

theorem boot_cpu_protocol:
  assumes "\<not> touched b (imps_lapic_addr s) (p + 2)"
  shows "\<exists>x s'. boot_cpu b p s = Inr (x, s') \<and> quiet b s s'
    \<and> outputs s' = outputs s @ boot_protocol b (ucast (ram s (p + 1))) (ram s (p + 2)) (imps_lapic_addr s)
    \<and> (all_answer b \<longrightarrow> x) \<and> (none_answer b \<longrightarrow> \<not> x)"
proof -
  obtain x s' where "boot_cpu b p s = Inr (x, s')" "quiet b s s'" using quietsE [OF quiets_boot_cpu] by blast
  then show ?thesis using boot_cpu_emits [OF _ assms] boot_cpu_result by blast
qed

lemma demo_untouched: "0xA0000 \<le> a \<Longrightarrow> \<not> touched demo_board l a"
proof -
  assume a: "0xA0000 \<le> a"
  have "\<not> unat (a - 0x70000) < 1" using a by (simp add: word_le_nat_alt unat_eq_0) auto
  moreover have "\<not> a < 0xA0000" using a by simp
  ultimately show ?thesis by (simp add: touched_def bootaddr_def)
qed

theorem boot_cpu_protocol_witness:
  "\<exists>x s'. boot_cpu demo_board (0xF0000 + 64) demo_smp = Inr (x, s') \<and> quiet demo_board demo_smp s'
    \<and> outputs s' = outputs demo_smp
        @ boot_protocol demo_board (ucast (ram demo_smp (0xF0000 + 64 + 1))) (ram demo_smp (0xF0000 + 64 + 2)) (imps_lapic_addr demo_smp)
    \<and> (all_answer demo_board \<longrightarrow> x) \<and> (none_answer demo_board \<longrightarrow> \<not> x)"
  by (rule boot_cpu_protocol) (rule demo_untouched, simp)

subsection \<open>Which tables are accepted\<close>

text \<open>
  C25: \<open>imps_bad_bios\<close> refuses exactly the configurations that are not valid: an unknown
  type, a missing configuration, a table with a wrong signature, checksum, revision or
  checksum of its extended part. It does nothing but print a message.
\<close>

theorem imps_bad_bios_valid:
  "\<exists>s'. imps_bad_bios b fps s = Inr (\<not> mp_valid b (ram s) fps, s') \<and> tells s s'"
  by (rule bad_bios_tells)

subsection \<open>The scan\<close>

lemma imps_scan_print:
  "\<exists>s'. tells s s' \<and> imps_scan b start len s =
     (case scan_loop b (ram s) start len of
        None \<Rightarrow> Inl NoReturn
      | Some None \<Rightarrow> Inr (False, s')
      | Some (Some a) \<Rightarrow> bindS (KERNEL_PRINT ''Found MP Floating Structure Pointer at %x\<newline>'' [AInt a]) (\<lambda>_.
          bindS (imps_read_bios b (virt b a)) (\<lambda>_. returnS True)) s')"
proof -
  obtain s' where "KERNEL_PRINT ''Scanning from 0x%x for %d bytes\<newline>'' [AInt start, AInt len] s = Inr ((), s')" "tells s s'"
    using print_tells [OF smp_formats(11)] by blast
  then show ?thesis using tells_ram
    by (intro exI [of _ s']) (auto simp: imps_scan_def bindS_Inr split: option.splits)
qed

lemma imps_scan_result:
  assumes "16 * n < 2 ^ 32"
  shows "\<exists>s'. tells s s' \<and> imps_scan b start (word_of_nat (16 * n)) s =
     (case find (is_fps b (ram s)) (scan_places_of start n) of
        None \<Rightarrow> Inr (False, s')
      | Some a \<Rightarrow> bindS (imps_read_bios b (virt b a)) (\<lambda>_. returnS True) s')"
proof -
  obtain s1 where s1: "tells s s1" "imps_scan b start (word_of_nat (16 * n)) s =
     (case find (is_fps b (ram s)) (scan_places_of start n) of
        None \<Rightarrow> Inr (False, s1)
      | Some a \<Rightarrow> bindS (KERNEL_PRINT ''Found MP Floating Structure Pointer at %x\<newline>'' [AInt a]) (\<lambda>_.
          bindS (imps_read_bios b (virt b a)) (\<lambda>_. returnS True)) s1)"
    using imps_scan_print [of s b start "word_of_nat (16 * n)"] unfolding scan_loop_find [OF assms] option.case by blast
  show ?thesis
  proof (cases "find (is_fps b (ram s)) (scan_places_of start n)")
    case None
    then show ?thesis using s1 by auto
  next
    case (Some a)
    obtain s2 where s2: "KERNEL_PRINT ''Found MP Floating Structure Pointer at %x\<newline>'' [AInt a] s1 = Inr ((), s2)" "tells s1 s2"
      using print_tells [OF smp_formats(12)] by blast
    then show ?thesis using s1 Some tells_trans [OF s1(1) s2(2)] by (auto simp: bindS_Inr)
  qed
qed

text \<open>
  C26: for a length that is a multiple of 16, the scan ends and reads the BIOS tables at the
  first address, in steps of 16, that holds the structure; the number of steps is the
  length divided by 16. For another length the unsigned counter never becomes zero: without
  a structure ahead the scan does not end.
\<close>

theorem imps_scan_first:
  "(\<forall>n < 2 ^ 28. \<exists>s'. tells s s' \<and> imps_scan b start (word_of_nat (16 * n)) s =
     (case find (is_fps b (ram s)) (scan_places_of start n) of
        None \<Rightarrow> Inr (False, s')
      | Some a \<Rightarrow> bindS (imps_read_bios b (virt b a)) (\<lambda>_. returnS True) s'))
   \<and> (take_bit 4 len \<noteq> 0 \<and> \<not> fps_ahead b (ram s) start \<longrightarrow> imps_scan b start len s = Inl NoReturn)"
proof (intro conjI allI impI)
  fix n :: nat assume "n < 2 ^ 28"
  then show "\<exists>s'. tells s s' \<and> imps_scan b start (word_of_nat (16 * n)) s =
     (case find (is_fps b (ram s)) (scan_places_of start n) of
        None \<Rightarrow> Inr (False, s')
      | Some a \<Rightarrow> bindS (imps_read_bios b (virt b a)) (\<lambda>_. returnS True) s')"
    by (intro imps_scan_result) simp
next
  assume "take_bit 4 len \<noteq> 0 \<and> \<not> fps_ahead b (ram s) start"
  then have "scan_loop b (ram s) start len = None" using scan_loop_finds [of b "ram s" start len] by (cases "scan_loop b (ram s) start len") auto
  then show "imps_scan b start len s = Inl NoReturn" using imps_scan_print [of s b start len] by auto
qed


subsection \<open>The walk of the table\<close>

text \<open>\<open>outcome b ids aps done s'\<close>: the processors \<open>done\<close> out of \<open>aps\<close> were started after \<open>ids\<close>.\<close>

definition outcome :: "board \<Rightarrow> byte list \<Rightarrow> byte list \<Rightarrow> byte list \<Rightarrow> smp \<Rightarrow> bool" where
  "outcome b ids aps js s' =
     (subseq js aps \<and> numbered s' (ids @ js) \<and> (all_answer b \<longrightarrow> js = aps) \<and> (none_answer b \<longrightarrow> js = []))"

lemma starts_outcome:
  assumes "starts b m aps 0 s" "numbered s ids" "distinct (ids @ aps)" "255 \<notin> set aps"
    and "room (length aps) s"
  shows "\<exists>js s'. m s = Inr ((), s') \<and> advances b s s' \<and> outcome b ids aps js s'"
proof -
  obtain js s' where st: "m s = Inr ((), s')" "advances b s s'" "subseq js aps"
    "cpus_of s' = fold number_cpu js (cpus_of s)" "all_answer b \<longrightarrow> js = aps" "none_answer b \<longrightarrow> js = []"
    using assms(1) unfolding starts_def by blast
  have sub: "length js \<le> length aps" "set js \<subseteq> set aps" "distinct js"
    using list_emb_length [OF st(3)] st(3) assms(3) by (auto simp: subseq_conv_nths dest: in_set_nthsD)
  have n: "numbering (imps_num_cpus s, imps_cpu_apic_map s, imps_apic_cpu_map s) ids"
    using assms(2) unfolding numbered_cpus cpus_of_def .
  have "numbering (fold number_cpu js (imps_num_cpus s, imps_cpu_apic_map s, imps_apic_cpu_map s)) (ids @ js)"
  proof (rule numbering_fold [OF n])
    show "distinct (ids @ js)" using assms(3) sub by auto
    show "imps_num_cpus s + length js \<le> length (imps_cpu_apic_map s)" using assms(5) sub(1) by (auto simp: room_def)
    show "length (imps_apic_cpu_map s) = 255" using assms(5) by (simp add: room_def)
    show "255 \<notin> set js" using assms(4) sub(2) by blast
  qed
  then have "numbered s' (ids @ js)" unfolding numbered_cpus st(4) by (simp add: cpus_of_def)
  then show ?thesis using st by (auto simp: outcome_def)
qed

text \<open>
  C23: the walk of a table that booting does not overwrite, with distinct identifiers and room
  in the maps, always returns. It starts processors of the table in their order, only those
  that are enabled and not the boot processor, gives them the next numbers, and keeps the two maps
  inverse to each other: all of them on hardware where each answers, none where none does.
\<close>

theorem imps_read_config_table_starts:
  assumes "table_safe b (imps_lapic_addr s) a (mp_table (ram s) a n)"
    and "numbered s ids" "distinct (ids @ application_cpus (mp_table (ram s) a n))"
    and "255 \<notin> set (application_cpus (mp_table (ram s) a n))" "room (length (application_cpus (mp_table (ram s) a n))) s"
  shows "\<exists>js s'. imps_read_config_table b a n s = Inr ((), s') \<and> advances b s s'
    \<and> outcome b ids (application_cpus (mp_table (ram s) a n)) js s'"
  using assms by (intro starts_outcome config_table_starts) simp_all

lemma demo_safe: "table_safe demo_board l (0xF0000 + 44) (mp_table (ram demo_smp) (0xF0000 + 44) 3)"
  unfolding table_safe_def demo_table
proof (intro allI impI)
  fix i assume "i < table_len [Processor 0 0x11 3, Processor 4 0x11 1, Bus 0 [80, 67, 73, 32, 32, 32]]"
  then have "i < 48" by (simp add: table_len_def)
  then have "unat (0xF002C + word_of_nat i :: u32) = 0xF002C + i"
    by (subst unat_word_ariths(1)) (simp add: unat_of_nat)
  then have "(0xA0000 :: u32) \<le> 0xF002C + word_of_nat i" by (simp add: word_le_nat_alt)
  then show "\<not> touched demo_board l (0xF0000 + 44 + word_of_nat i)" by (intro demo_untouched) simp
qed

theorem imps_read_config_table_starts_witness:
  "\<exists>js s'. imps_read_config_table demo_board (0xF0000 + 44) 3 demo_smp = Inr ((), s') \<and> advances demo_board demo_smp s'
    \<and> outcome demo_board [0] (application_cpus (mp_table (ram demo_smp) (0xF0000 + 44) 3)) js s'"
  by (rule imps_read_config_table_starts [OF demo_safe])
    (unfold demo_table, simp_all add: numbered_def room_def)

end
