(* ===== verification/SmpRun.thy ===== *)
theory SmpRun
  imports SmpMain
begin

unbundle bit_operations_syntax

text \<open>
  \<open>imps_probe\<close> as a whole: where it looks, when it leaves the hardware alone, which processors
  it starts from a table, and what it does with a default configuration.
\<close>

subsection \<open>Reading the tables: the decision\<close>

lemma bindS_if: "bindS (if c then m else m') f = (if c then bindS m f else bindS m' f)"
  by simp

definition lapic_of :: "board \<Rightarrow> (u32 \<Rightarrow> byte) \<Rightarrow> u32 \<Rightarrow> u32" where
  "lapic_of b m fps =
     (let cth = ld32 m (fps + 4) in if cth \<noteq> 0 then ld32 m (virt b cth + 36) else LAPIC_ADDR_DEFAULT)"

text \<open>The first part of \<open>imps_read_bios\<close>: is the table to be read?\<close>

definition admit :: "board \<Rightarrow> u32 \<Rightarrow> u32 \<Rightarrow> bool mp" where
  "admit b fps p =
     bindS (fps_spec_rev fps) (\<lambda>rev.
     bindS (KERNEL_PRINT ''Intel MultiProcessor Spec 1.%d BIOS support detected\<newline>'' [ABYTE rev]) (\<lambda>_.
     bindS (imps_bad_bios b fps) (\<lambda>wrong.
     if wrong then bindS (KERNEL_PRINT ''    Disabling MPS support\<newline>'' []) (\<lambda>_. returnS False)
     else
       bindS (find_lapic fps p) (\<lambda>_.
       bindS (print_mode fps) (\<lambda>_.
       bindS (ask b (Msr 0x1b)) (\<lambda>msr s.
       if imps_lapic_addr s \<noteq> msr AND 0xFFFFF000 then
         bindS (KERNEL_PRINT ''Inconsistent Local APIC address, Disabling SMP support\<newline>'' []) (\<lambda>_. returnS False) s
       else Inr (True, s)))))))"

lemma bindS_return_unit: "bindS m (\<lambda>_. returnS ()) = m" "bindS m returnS = m"
  by (rule ext) (auto simp: bindS_def returnS_def bindE_def split: sum.splits)

lemma read_bios_admit:
  "imps_read_bios b fps s =
     bindS (admit b fps (virt b (ld32 (ram s) (fps + 4))))
       (\<lambda>ok. if ok then read_tables b fps (virt b (ld32 (ram s) (fps + 4))) else returnS ()) s"
proof -
  let ?p = "virt b (ld32 (ram s) (fps + 4))"
  have last: "bindS (\<lambda>s. if imps_lapic_addr s \<noteq> msr AND 0xFFFFF000 then
        bindS (KERNEL_PRINT ''Inconsistent Local APIC address, Disabling SMP support\<newline>'' []) (\<lambda>_. returnS False) s
      else Inr (True, s)) (\<lambda>ok. if ok then read_tables b fps ?p else returnS ())
    = (\<lambda>s. if imps_lapic_addr s \<noteq> msr AND 0xFFFFF000 then
        KERNEL_PRINT ''Inconsistent Local APIC address, Disabling SMP support\<newline>'' [] s
      else read_tables b fps ?p s)" for msr
    by (rule ext) (auto simp: bindS_def [of "\<lambda>s. if _ s then _ s else _ s"] bindS_def returnS_def bindE_def split: sum.splits)
  show ?thesis
    by (simp add: imps_read_bios_def admit_def bindS_assoc bindS_if last bindS_return_unit fps_cth_ptr_def look_bind Let_def cong: if_cong)
qed


definition msr_is :: "board \<Rightarrow> u32 \<Rightarrow> bool" where "msr_is b v = (\<forall>h. answer b h (Msr 0x1b) = v)"

text \<open>What holds after messages and after the address of the local APIC is set.\<close>

definition prelude :: "smp \<Rightarrow> smp \<Rightarrow> bool" where
  "prelude s s' =
     (outputs s' = outputs s \<and> ram s' = ram s \<and> cpus_of s' = cpus_of s \<and> imps_enabled s' = imps_enabled s)"

lemma prelude_trans: "prelude s t \<Longrightarrow> prelude t u \<Longrightarrow> prelude s u"
  by (simp add: prelude_def)

lemma tells_prelude: "tells s s' \<Longrightarrow> prelude s s' \<and> imps_lapic_addr s' = imps_lapic_addr s"
  by (simp add: prelude_def tells_same tells_outputs)

lemma print_prelude:
  "printable fmt args \<Longrightarrow> \<exists>s'. KERNEL_PRINT fmt args s = Inr ((), s') \<and> prelude s s' \<and> imps_lapic_addr s' = imps_lapic_addr s"
  using print_tells tells_prelude by blast

lemma bad_bios_prelude:
  "\<exists>s'. imps_bad_bios b fps s = Inr (\<not> mp_valid b (ram s) fps, s') \<and> prelude s s'"
  using bad_bios_tells tells_prelude by blast

lemma find_lapic_at:
  "find_lapic fps (virt b (ld32 (ram s) (fps + 4))) s = Inr ((), s\<lparr>imps_lapic_addr := lapic_of b (ram s) fps\<rparr>)"
  by (simp add: find_lapic_def fps_cth_ptr_def cth_lapic_addr_def look_bind lapic_of_def Let_def bindS_def look_def returnS_def)

text \<open>The table is read when it is valid and the local APIC is where the processor says.\<close>

definition admitted :: "board \<Rightarrow> (u32 \<Rightarrow> byte) \<Rightarrow> u32 \<Rightarrow> u32 \<Rightarrow> bool" where
  "admitted b m fps msr = (mp_valid b m fps \<and> lapic_of b m fps = msr AND 0xFFFFF000)"

lemma admit_result:
  assumes "msr_is b v"
  shows "\<exists>s'. admit b fps (virt b (ld32 (ram s) (fps + 4))) s = Inr (admitted b (ram s) fps v, s') \<and> prelude s s'
    \<and> (admitted b (ram s) fps v \<longrightarrow> imps_lapic_addr s' = lapic_of b (ram s) fps)"
proof -
  let ?p = "virt b (ld32 (ram s) (fps + 4))"
  obtain s1 where s1: "KERNEL_PRINT ''Intel MultiProcessor Spec 1.%d BIOS support detected\<newline>'' [ABYTE (ram s (fps + 9))] s = Inr ((), s1)"
    "prelude s s1" using print_prelude [OF smp_formats(10)] by blast
  have ram1: "ram s1 = ram s" using s1(2) by (simp add: prelude_def)
  obtain s2 where s2: "imps_bad_bios b fps s1 = Inr (\<not> mp_valid b (ram s) fps, s2)" "prelude s1 s2"
    using bad_bios_prelude [of b fps s1] ram1 by auto
  have pre2: "prelude s s2" using s1(2) s2(2) by (rule prelude_trans)
  show ?thesis
  proof (cases "mp_valid b (ram s) fps")
    case False
    obtain s3 where "KERNEL_PRINT ''    Disabling MPS support\<newline>'' [] s2 = Inr ((), s3)" "prelude s2 s3"
      using print_prelude [OF printable_plain, of "''    Disabling MPS support\<newline>''"] by auto
    then show ?thesis using s1(1) s2(1) False prelude_trans [OF pre2]
      by (auto simp: admit_def fps_spec_rev_def look_bind bindS_Inr admitted_def returnS_def)
  next
    case True
    have ok: "imps_bad_bios b fps s1 = Inr (False, s2)" using s2(1) True by simp
    have ram2: "ram s2 = ram s" using pre2 by (simp add: prelude_def)
    define s3 where "s3 = s2\<lparr>imps_lapic_addr := lapic_of b (ram s) fps\<rparr>"
    have fl: "find_lapic fps ?p s2 = Inr ((), s3)" using find_lapic_at [of fps b s2] by (simp add: ram2 s3_def)
    have pre3: "prelude s s3" using pre2 by (simp add: prelude_def s3_def outputs_def cpus_of_def)
    obtain s4 where s4: "print_mode fps s3 = Inr ((), s4)" "prelude s3 s4" "imps_lapic_addr s4 = imps_lapic_addr s3"
      using print_prelude [OF mode_format(1), of "imps_mode (ram s3 (fps + 11 + 1))" "imps_lapic_addr s3" s3]
      by (auto simp: print_mode_def fps_feature_def look_bind)
    define s5 where "s5 = s4\<lparr>history := history s4 @ [Msr 0x1b]\<rparr>"
    have ask: "ask b (Msr 0x1b) s4 = Inr (v, s5)" using assms by (simp add: ask_def msr_is_def s5_def)
    have pre5: "prelude s s5" using prelude_trans [OF pre3 s4(2)] by (simp add: prelude_def s5_def outputs_def cpus_of_def)
    have lapic: "imps_lapic_addr s5 = lapic_of b (ram s) fps" by (simp add: s5_def s4(3) s3_def)
    have m: "admit b fps ?p s = (if lapic_of b (ram s) fps \<noteq> v AND 0xFFFFF000 then
        bindS (KERNEL_PRINT ''Inconsistent Local APIC address, Disabling SMP support\<newline>'' []) (\<lambda>_. returnS False) s5
      else Inr (True, s5))"
      by (simp add: admit_def fps_spec_rev_def look_bind bindS_Inr bindS_def [of "imps_bad_bios b fps"] s1(1) ok fl s4(1) ask lapic)
    show ?thesis
    proof (cases "lapic_of b (ram s) fps = v AND 0xFFFFF000")
      case eq: True
      then show ?thesis using m True pre5 lapic by (auto simp: admitted_def)
    next
      case False
      obtain s6 where "KERNEL_PRINT ''Inconsistent Local APIC address, Disabling SMP support\<newline>'' [] s5 = Inr ((), s6)" "prelude s5 s6"
        using print_prelude [OF printable_plain, of "''Inconsistent Local APIC address, Disabling SMP support\<newline>''"] by auto
      then show ?thesis using m False prelude_trans [OF pre5] by (auto simp: admitted_def bindS_Inr returnS_def)
    qed
  qed
qed


subsection \<open>Reading a given table\<close>

text \<open>The local APIC gives the same identification whenever it is asked.\<close>

definition id_is :: "board \<Rightarrow> u32 \<Rightarrow> byte \<Rightarrow> bool" where
  "id_is b lapic i = (\<forall>h. APIC_ID (answer b h (In (lapic + LAPIC_ID))) = ucast i)"

lemma quiet_run: "quiets b m \<Longrightarrow> \<exists>x s'. m s = Inr (x, s') \<and> quiet b s s'"
  by (simp add: quiets_def)

lemma setup_primary_result:
  assumes "id_is b (imps_lapic_addr s) i" "i \<noteq> 255" "imps_num_cpus s = n" "room k s"
  shows "\<exists>s'. setup_primary b s = Inr (ucast i, s') \<and> advances b s s'
    \<and> cpus_of s' = (n, (imps_cpu_apic_map s)[0 := i], (imps_apic_cpu_map s)[unat i := 0])"
proof -
  obtain v s1 where s1: "IMPS_LAPIC_READ b LAPIC_SPIV s = Inr (v, s1)" "quiet b s s1"
    using quiet_run [OF quiets_lapic_read] by blast
  obtain u s2 where s2: "IMPS_LAPIC_WRITE b LAPIC_SPIV (v OR LAPIC_SPIV_ENABLE_APIC) s1 = Inr (u, s2)" "quiet b s1 s2"
    using quiet_run [OF quiets_lapic_write [of LAPIC_SPIV b "v OR LAPIC_SPIV_ENABLE_APIC"]] by blast
  have q2: "quiet b s s2" using s1(2) s2(2) by (rule quiet_trans)
  obtain w s3 where s3: "IMPS_LAPIC_READ b LAPIC_ID s2 = Inr (w, s3)" "quiet b s2 s3" "w = answer b (history s2) (In (imps_lapic_addr s2 + LAPIC_ID))"
    using quiet_run [OF quiets_lapic_read [of b LAPIC_ID], of s2] by (auto simp: IMPS_LAPIC_READ_def IMPS_READ_def ask_def)
  have q: "quiet b s s3" using q2 s3(2) by (rule quiet_trans)
  have w: "APIC_ID w = ucast i" using assms(1) quiet_globals(3) [OF q2] by (simp add: s3(3) id_is_def)
  have i: "unat i < 255" using assms(2) by (rule unat_below_255)
  have u: "unat (ucast i :: u32) = unat i" by (simp add: unsigned_ucast_eq take_bit_nat_eq_self unat_byte_bound [THEN less_trans])
  then have "ucast (ucast i :: u32) = i" by (metis of_nat_unat ucast_id)
  moreover have "imps_cpu_apic_map s \<noteq> []" using assms(4) by (auto simp: room_def)
  ultimately show ?thesis
    using i u quiet_globals [OF q] quiet_ram [OF q] assms(3,4)
    by (simp add: setup_primary_def bindS_def s1(1) s2(1) s3(1) w Let_def set_cpu_apic_def set_apic_cpu_def set_elem_def
        room_def returnS_def advances_def cpus_of_def)
qed

lemma given_table_tells:
  "\<exists>s'. given_table p s = Inr ((p + 44, unat (ld16 (ram s) (p + 34))), s') \<and> tells s s'"
proof -
  obtain s' where s': "KERNEL_PRINT ''  OEM id: %s  Product id: %s\<newline>''
      [AStr (c_text (get_bytes (ram s) (p + 8) 8)), AStr (c_text (get_bytes (ram s) (p + 16) 12))] s = Inr ((), s')" "tells s s'"
    using print_tells [OF smp_formats(9)] by blast
  then show ?thesis using tells_ram [OF s'(2)]
    by (intro exI [of _ s']) (simp add: given_table_def field_defs look_bind bindS_Inr sizeof_cth_def returnS_def)
qed

lemma ld_after:
  assumes "advances b s s'" "\<And>i. i < 4 \<Longrightarrow> \<not> touched b (imps_lapic_addr s) (a + word_of_nat i)"
  shows "ld32 (ram s') a = ld32 (ram s) a"
proof -
  have "get_bytes (ram s') a 4 = get_bytes (ram s) a 4"
    using assms by (intro get_bytes_cong) (simp add: advances_def)
  then show ?thesis by (simp add: ld32_def)
qed

lemma ld16_after:
  assumes "advances b s s'" "\<And>i. i < 2 \<Longrightarrow> \<not> touched b (imps_lapic_addr s) (a + word_of_nat i)"
  shows "ld16 (ram s') a = ld16 (ram s) a"
proof -
  have "get_bytes (ram s') a 2 = get_bytes (ram s) a 2"
    using assms by (intro get_bytes_cong) (simp add: advances_def)
  then show ?thesis by (simp add: ld16_def)
qed

text \<open>The parts of the structures that are read after the first write to the hardware.\<close>

definition tables_safe :: "board \<Rightarrow> u32 \<Rightarrow> u32 \<Rightarrow> u32 \<Rightarrow> mp_entry list \<Rightarrow> bool" where
  "tables_safe b lapic fps p es =
     ((\<forall>i < 4. \<not> touched b lapic (fps + 4 + word_of_nat i)) \<and> (\<forall>i < 2. \<not> touched b lapic (p + 34 + word_of_nat i))
      \<and> table_safe b lapic (p + 44) es)"


text \<open>The whole of \<open>read_tables\<close> for a given table, from the state with the address of the APIC set.\<close>

lemma read_tables_given:
  fixes p :: u32
  defines "es \<equiv> \<lambda>s :: smp. mp_table (ram s) (p + 44) (unat (ld16 (ram s) (p + 34)))"
  assumes start: "room (length (application_cpus (es s))) s" "imps_num_cpus s = 1"
    and cth: "ld32 (ram s) (fps + 4) \<noteq> 0"
    and safe: "tables_safe b (virt b (imps_lapic_addr s)) fps p (es s)"
    and ident: "id_is b (virt b (imps_lapic_addr s)) i" "distinct (i # application_cpus (es s))" "255 \<notin> set (i # application_cpus (es s))"
  shows "\<exists>js s'. read_tables b fps p s = Inr ((), s') \<and> imps_enabled s' \<and> outcome b [i] (application_cpus (es s)) js s'"
proof -
  define s0 where "s0 = s\<lparr>imps_lapic_addr := virt b (imps_lapic_addr s)\<rparr>"
  have i: "i \<noteq> 255" using ident(3) by auto
  have room0: "room n s0 = room n s" for n by (simp add: room_def s0_def)
  obtain s1 where s1: "setup_primary b s0 = Inr (ucast i, s1)" "advances b s0 s1"
    "cpus_of s1 = (1, (imps_cpu_apic_map s)[0 := i], (imps_apic_cpu_map s)[unat i := 0])"
    using setup_primary_result [of b s0 i 1 "length (application_cpus (es s))"] ident(1) i start room0 by (auto simp: s0_def)
  have room1: "room n s1 = room n s" for n using s1(3) start by (auto simp: room_def cpus_of_def)
  have fps1: "ld32 (ram s1) (fps + 4) = ld32 (ram s) (fps + 4)" "ld16 (ram s1) (p + 34) = ld16 (ram s) (p + 34)"
    using ld_after [OF s1(2), of "fps + 4"] ld16_after [OF s1(2), of "p + 34"] safe by (simp_all add: s0_def tables_safe_def)
  have es0: "es s0 = es s" by (simp add: es_def s0_def)
  have es1: "es s1 = es s"
    using table_after [OF s1(2)] safe unfolding es_def fps1(2) by (simp add: s0_def tables_safe_def)
  obtain s2 where s2: "given_table p s1 = Inr ((p + 44, unat (ld16 (ram s) (p + 34))), s2)" "tells s1 s2"
    using given_table_tells [of p s1] fps1(2) by auto
  note same = tells_same [OF s2(2)]
  have lapic: "imps_lapic_addr s2 = virt b (imps_lapic_addr s)" using same(2) s1(2) by (simp add: advances_def s0_def)
  have es2: "mp_table (ram s2) (p + 44) (unat (ld16 (ram s) (p + 34))) = es s"
    using es1 fps1(2) same(1) by (simp add: es_def)
  have num: "numbered s2 [i]"
    unfolding numbered_cpus same(4) s1(3) using start i unat_below_255 [OF i]
    by (auto simp: numbering_def room_def take_Suc_conv_app_nth)
  obtain js s3 where s3: "imps_read_config_table b (p + 44) (unat (ld16 (ram s) (p + 34))) s2 = Inr ((), s3)"
    "outcome b [i] (application_cpus (es s)) js s3"
    using starts_outcome [OF config_table_starts [of b s2 "p + 44" "unat (ld16 (ram s) (p + 34))" 0] num]
      safe ident(2,3) start room1 same(5) unfolding es2 lapic by (auto simp: tables_safe_def)
  define s4 where "s4 = s3\<lparr>imps_enabled := True\<rparr>"
  have "outcome b [i] (application_cpus (es s)) js s4" using s3(2) by (simp add: outcome_def numbered_def s4_def)
  moreover have "read_tables b fps p s = Inr ((), s4)"
    using cth by (simp add: read_tables_def map_lapic_def bindS_def s0_def [symmetric] s1(1) fps_cth_ptr_def look_def fps1(1)
        s2(1) s3(1) s4_def)
  ultimately show ?thesis by (auto simp: s4_def)
qed


subsection \<open>Where the probe looks\<close>

definition mem_lower_of :: "board \<Rightarrow> smp \<Rightarrow> u32" where
  "mem_lower_of b s =
     push_bit 10 (push_bit 8 (answer b (history s) (CmosIn 0x16) AND 0xFF)
       OR (answer b (history s @ [CmosIn 0x16]) (CmosIn 0x15) AND 0xFF))"

text \<open>The extended BIOS data area, unless its segment or its size is beyond the lower memory.\<close>

definition ebda_of :: "board \<Rightarrow> smp \<Rightarrow> u32" where
  "ebda_of b s =
     (let e = push_bit 4 (ucast (ld16 (ram s) (virt b 0x40E))); l = mem_lower_of b s in
      if l - 1024 < e \<or> l < e + ucast (ram s (virt b e)) * 1024 then 0 else e)"

definition places :: "board \<Rightarrow> smp \<Rightarrow> u32 list" where
  "places b s =
     scan_places_of (if ebda_of b s \<noteq> 0 then ebda_of b s else mem_lower_of b s - 1024) 64
     @ scan_places_of 0xF0000 4096"

definition sane_memory :: "board \<Rightarrow> smp \<Rightarrow> bool" where
  "sane_memory b s = (512 * 1024 \<le> mem_lower_of b s \<and> mem_lower_of b s \<le> 640 * 1024)"

lemma find_append: "find P (xs @ ys) = (case find P xs of None \<Rightarrow> find P ys | Some x \<Rightarrow> Some x)"
  by (induction xs) auto

lemma find_SomeD: "find P xs = Some x \<Longrightarrow> P x \<and> x \<in> set xs"
  by (auto simp: find_Some_iff)

text \<open>What the probe does once the places are searched, from a state that the messages lead to.\<close>

definition probe_after :: "board \<Rightarrow> u32 option \<Rightarrow> smp \<Rightarrow> (nat \<times> smp) res" where
  "probe_after b found =
     (case found of
        None \<Rightarrow> returnS 0
      | Some a \<Rightarrow> bindS (imps_read_bios b (virt b a)) (\<lambda>_ s. Inr (if imps_enabled s then imps_num_cpus s else 0, s)))"

lemma scan_then:
  assumes "16 * n < 2 ^ 32"
  shows "\<exists>s'. tells s s' \<and> bindS (imps_scan b start (word_of_nat (16 * n))) f s =
     (case find (is_fps b (ram s)) (scan_places_of start n) of
        None \<Rightarrow> f False s'
      | Some a \<Rightarrow> bindS (imps_read_bios b (virt b a)) (\<lambda>_. f True) s')"
proof -
  obtain s' where "tells s s'" "imps_scan b start (word_of_nat (16 * n)) s =
     (case find (is_fps b (ram s)) (scan_places_of start n) of
        None \<Rightarrow> Inr (False, s')
      | Some a \<Rightarrow> bindS (imps_read_bios b (virt b a)) (\<lambda>_. returnS True) s')"
    using imps_scan_result [OF assms] by blast
  moreover have "bindE (bindS (imps_read_bios b (virt b a)) (\<lambda>_. returnS True) s') (\<lambda>(x, s'). f x s')
      = bindS (imps_read_bios b (virt b a)) (\<lambda>_. f True) s'" for a
    using bindS_assoc [of "imps_read_bios b (virt b a)" "\<lambda>_. returnS True" f] by (simp add: bindS_def [of "bindS _ _"] fun_eq_iff)
  ultimately show ?thesis by (intro exI [of _ s']) (auto simp: bindS_def [of "imps_scan _ _ _"] split: option.splits)
qed

lemma scan_places_find:
  assumes "start = (if ebda \<noteq> 0 then ebda else mem_lower - 1024)"
  shows "\<exists>s'. tells s s' \<and>
     bindS (scan_places b ebda mem_lower) (\<lambda>found s. Inr (if found \<and> imps_enabled s then imps_num_cpus s else 0, s)) s
     = probe_after b (find (is_fps b (ram s)) (scan_places_of start 64 @ scan_places_of 0xF0000 4096)) s'"
proof -
  let ?f = "\<lambda>found s. Inr (if found \<and> imps_enabled s then imps_num_cpus s else 0, s) :: (nat \<times> smp) res"
  let ?g = "\<lambda>found. bindS (if found then returnS True else imps_scan b 0xF0000 0x10000) ?f"
  have m: "bindS (scan_places b ebda mem_lower) ?f = bindS (imps_scan b start (word_of_nat (16 * 64))) ?g"
    by (simp add: scan_places_def bindS_assoc assms)
  obtain s1 where s1: "tells s s1" "bindS (imps_scan b start (word_of_nat (16 * 64))) ?g s =
     (case find (is_fps b (ram s)) (scan_places_of start 64) of
        None \<Rightarrow> ?g False s1 | Some a \<Rightarrow> bindS (imps_read_bios b (virt b a)) (\<lambda>_. ?g True) s1)"
    using scan_then [where n = 64 and s = s and b = b and start = start and f = ?g] by auto
  obtain s2 where s2: "tells s1 s2" "bindS (imps_scan b 0xF0000 (word_of_nat (16 * 4096))) ?f s1 =
     (case find (is_fps b (ram s)) (scan_places_of 0xF0000 4096) of
        None \<Rightarrow> ?f False s2 | Some a \<Rightarrow> bindS (imps_read_bios b (virt b a)) (\<lambda>_. ?f True) s2)"
    using scan_then [where n = 4096 and s = s1 and b = b and start = "0xF0000" and f = ?f] tells_ram [OF s1(1)] by auto
  show ?thesis
  proof (cases "find (is_fps b (ram s)) (scan_places_of start 64)")
    case None
    then show ?thesis using s1 s2 tells_trans [OF s1(1) s2(1)]
      by (intro exI [of _ s2]) (auto simp: m find_append probe_after_def returnS_def split: option.splits)
  next
    case (Some a)
    then show ?thesis using s1 by (intro exI [of _ s1]) (simp add: m find_append probe_after_def)
  qed
qed

lemma bindS_upd: "bindS (\<lambda>s. Inr (x, f s)) g s = g x (f s)"
  by (simp add: bindS_def)

text \<open>The state after the memory size is read and the counters are reset.\<close>

definition probe_start :: "smp \<Rightarrow> smp" where
  "probe_start s = s\<lparr>history := history s @ [CmosIn 0x16] @ [CmosIn 0x15], imps_enabled := False, imps_num_cpus := 1\<rparr>"

lemma probe_start_ram: "ram (probe_start s) = ram s"
  by (simp add: probe_start_def)

lemma imps_probe_eq:
  "imps_probe b s =
     (if sane_memory b s then
        bindS (scan_places b (ebda_of b s) (mem_lower_of b s)) (\<lambda>found s. Inr (if found \<and> imps_enabled s then imps_num_cpus s else 0, s))
          (probe_start s)
      else Inr (0, probe_start s))"
proof -
  have r: "read_mem_lower b s = Inr (mem_lower_of b s, s\<lparr>history := history s @ [CmosIn 0x16] @ [CmosIn 0x15]\<rparr>)"
    by (simp add: read_mem_lower_def ask_def bindS_def returnS_def mem_lower_of_def CMOS_BASE_MEMORY_def)
  let ?e = "push_bit 4 (ucast (ld16 (ram s) (virt b 0x40E)))"
  let ?scan = "\<lambda>e. bindS (scan_places b e (mem_lower_of b s)) (\<lambda>found s. Inr (if found \<and> imps_enabled s then imps_num_cpus s else 0, s))"
  have "imps_probe b s =
     (if mem_lower_of b s < 512 * 1024 \<or> 640 * 1024 < mem_lower_of b s then returnS 0
      else bindS (check_ebda b ?e (mem_lower_of b s)) ?scan) (probe_start s)"
    by (simp only: imps_probe_def look_bind bindS_Inr [of "read_mem_lower b", OF r] bindS_upd EBDA_SEG_ADDR_def)
      (simp add: probe_start_def)
  moreover have "bindS (check_ebda b ?e (mem_lower_of b s)) ?scan (probe_start s) = ?scan (ebda_of b s) (probe_start s)"
    by (simp only: check_ebda_def look_bind ebda_of_def Let_def probe_start_ram)
  ultimately show ?thesis by (auto simp: sane_memory_def returnS_def not_le not_less)
qed


lemma probe_start_outputs: "outputs (probe_start s) = outputs s"
  by (simp add: probe_start_def outputs_def)

lemma imps_probe_find:
  assumes "sane_memory b s"
  shows "\<exists>s'. tells (probe_start s) s' \<and> imps_probe b s = probe_after b (find (is_fps b (ram s)) (places b s)) s'"
  using scan_places_find [of _ "ebda_of b s" "mem_lower_of b s" "probe_start s" b] assms
  by (simp add: imps_probe_eq places_def probe_start_ram)

lemma read_bios_refused:
  assumes "msr_is b v" "\<not> admitted b (ram s) fps v"
  shows "\<exists>s'. imps_read_bios b fps s = Inr ((), s') \<and> prelude s s'"
proof -
  obtain s' where "admit b fps (virt b (ld32 (ram s) (fps + 4))) s = Inr (admitted b (ram s) fps v, s')" "prelude s s'"
    using admit_result [OF assms(1)] by blast
  then show ?thesis using assms(2) by (simp add: read_bios_admit bindS_def returnS_def)
qed

text \<open>
  C22: if the size of the lower memory is not reasonable, or the structure is at none of the
  searched places, or its tables are not valid or disagree with the processor on the address of the local
  APIC, then \<open>imps_probe\<close> returns 0, has sent nothing to the hardware and written no memory.
\<close>

theorem imps_probe_untouched:
  assumes "msr_is b v"
    and "sane_memory b s \<longrightarrow> (\<forall>a. find (is_fps b (ram s)) (places b s) = Some a \<longrightarrow> \<not> admitted b (ram s) (virt b a) v)"
  shows "\<exists>s'. imps_probe b s = Inr (0, s') \<and> outputs s' = outputs s \<and> ram s' = ram s \<and> imps_num_cpus s' = 1 \<and> \<not> imps_enabled s'"
proof (cases "sane_memory b s")
  case False
  then show ?thesis by (simp add: imps_probe_eq probe_start_outputs) (simp add: probe_start_def)
next
  case True
  then obtain s1 where s1: "tells (probe_start s) s1" "imps_probe b s = probe_after b (find (is_fps b (ram s)) (places b s)) s1"
    using imps_probe_find by blast
  have p1: "prelude (probe_start s) s1" using tells_prelude [OF s1(1)] by simp
  obtain s2 where s2: "imps_probe b s = Inr (0, s2)" "prelude (probe_start s) s2"
  proof (cases "find (is_fps b (ram s)) (places b s)")
    case None
    then show ?thesis using s1 p1 that by (simp add: probe_after_def returnS_def)
  next
    case (Some a)
    have "ram s1 = ram s" using p1 by (simp add: prelude_def probe_start_ram)
    then obtain s2 where s2: "imps_read_bios b (virt b a) s1 = Inr ((), s2)" "prelude s1 s2"
      using read_bios_refused [OF assms(1), of s1 "virt b a"] assms(2) True Some by auto
    have "prelude (probe_start s) s2" using p1 s2(2) by (rule prelude_trans)
    moreover from this have "\<not> imps_enabled s2" by (simp add: prelude_def probe_start_def)
    ultimately show ?thesis using that [of s2] s1(2) s2(1) Some by (simp add: probe_after_def bindS_def)
  qed
  then show ?thesis by (auto simp: prelude_def probe_start_outputs probe_start_ram cpus_of_def) (simp_all add: probe_start_def)
qed

text \<open>
  C21: on a machine with reasonable memory, where the first structure found is valid, points
  to a table that booting does not overwrite, and agrees with the processor on the address of the local APIC,
  \<open>imps_probe\<close> returns one more than the number of processors it started; they are enabled
  processors of the table in its order, all of them if each answers, and the two maps are inverse
  to each other on the identifier of the boot processor followed by theirs.
\<close>

theorem imps_probe_starts:
  fixes b :: board and s :: smp and a :: u32
  defines "fps \<equiv> virt b a"
  defines "p \<equiv> virt b (ld32 (ram s) (fps + 4))"
  defines "lapic \<equiv> virt b (ld32 (ram s) (p + 36))"
  defines "es \<equiv> mp_table (ram s) (p + 44) (unat (ld16 (ram s) (p + 34)))"
  assumes "sane_memory b s" "find (is_fps b (ram s)) (places b s) = Some a"
    and "ld32 (ram s) (fps + 4) \<noteq> 0" "msr_is b v" "admitted b (ram s) fps v" "id_is b lapic i"
    and "tables_safe b lapic fps p es"
    and "distinct (i # application_cpus es)" "255 \<notin> set (i # application_cpus es)" "length (application_cpus es) \<le> 254"
    and "length (imps_cpu_apic_map s) = 255" "length (imps_apic_cpu_map s) = 255"
  shows "\<exists>js s'. imps_probe b s = Inr (1 + length js, s') \<and> imps_enabled s' \<and> outcome b [i] (application_cpus es) js s'"
proof -
  obtain s1 where s1: "tells (probe_start s) s1" "imps_probe b s = probe_after b (Some a) s1"
    using imps_probe_find [OF assms(5)] assms(6) by auto
  have ram1: "ram s1 = ram s" using tells_same(1) [OF s1(1)] by (simp add: probe_start_ram)
  obtain s2 where s2: "admit b fps p s1 = Inr (True, s2)" "prelude s1 s2" "imps_lapic_addr s2 = lapic_of b (ram s) fps"
    using admit_result [OF assms(8), of fps s1] assms(9) ram1 by (auto simp: p_def)
  have ram2: "ram s2 = ram s" using s2(2) ram1 by (simp add: prelude_def)
  have l2: "virt b (imps_lapic_addr s2) = lapic" using assms(7) s2(3) by (simp add: lapic_of_def lapic_def p_def Let_def)
  have "cpus_of s2 = (1, imps_cpu_apic_map s, imps_apic_cpu_map s)"
    using s2(2) tells_same(4) [OF s1(1)] by (simp add: prelude_def cpus_of_def probe_start_def)
  then have "imps_num_cpus s2 = 1" "room (length (application_cpus es)) s2" using assms(14-16) by (auto simp: cpus_of_def room_def)
  then obtain js s3 where s3: "read_tables b fps p s2 = Inr ((), s3)" "imps_enabled s3" "outcome b [i] (application_cpus es) js s3"
    using read_tables_given [where p = p and s = s2 and fps = fps and b = b and i = i] assms(7,10-13) unfolding ram2 l2 es_def [symmetric] by blast
  have "imps_read_bios b fps s1 = Inr ((), s3)"
    using s2(1) s3(1) unfolding read_bios_admit ram1 p_def [symmetric] by (simp add: bindS_def)
  moreover have "imps_num_cpus s3 = 1 + length js" using s3(3) by (simp add: outcome_def numbered_def)
  ultimately have "imps_probe b s = Inr (1 + length js, s3)"
    using s1(2) s3(2) by (simp add: probe_after_def fps_def [symmetric] bindS_def)
  with s3(2,3) show ?thesis by blast
qed


subsection \<open>On the machine of the examples\<close>

text \<open>The same board with the local APIC somewhere else.\<close>

definition demo_moved :: board where
  "demo_moved = demo_board\<lparr>answer := (\<lambda>h x. case x of Msr r \<Rightarrow> 0 | _ \<Rightarrow> demo_answer x)\<rparr>"

lemma demo_moved_fields [simp]:
  "virt demo_moved a = a" "answer demo_moved h (CmosIn r) = demo_answer (CmosIn r)" "answer demo_moved h (Msr q) = 0"
  by (simp_all add: demo_moved_def demo_board_def)

lemma demo_fps_list:
  "1 # replicate 15 0 @ demo_fps =
     [1, 0, 0, 0, 0, 0, 0, 0, 0, 0, 0, 0, 0, 0, 0, 0, 0x5F, 0x4D, 0x50, 0x5F, 0, 0, 0xF, 0, 1, 4, 0x91, 0, 0, 0, 0, 0]"
  by (simp add: demo_fps_def numeral_eq_Suc)

lemma demo_lower: "mem_lower_of demo_board demo_smp = 0xA0000" "mem_lower_of demo_moved demo_smp = 0xA0000"
  by (simp_all add: mem_lower_of_def)

lemma demo_segment: "ld16 (ram demo_smp) 0x40E = 0x9FC0"
proof -
  have "holds (ram demo_smp) 0x40E [0xC0, 0x9F]"
    unfolding demo_smp_def smp_start_def smp.simps demo_ram_def demo_board_fields
    by (intro holds_apart holds_set) (simp_all add: length_defconfig)
  from get_bytes_holds [OF this, of 0 2] show ?thesis by (simp add: ld16_def)
qed

lemma demo_ebda_at: "ebda_of demo_board demo_smp = 0x9FC00" "ebda_of demo_moved demo_smp = 0x9FC00"
  by (simp_all add: ebda_of_def demo_lower demo_segment Let_def demo_ebda demo_fps_list)

lemma demo_fps_word: "ld32 (ram demo_smp) 0x9FC00 = 1" "ld32 (ram demo_smp) 0x9FC10 = 0x5F504D5F" "ld32 (ram demo_smp) 0x9FC14 = 0xF0000"
  using get_bytes_holds [OF demo_fps_at, of 0 4] get_bytes_holds [OF demo_fps_at, of 16 4] get_bytes_holds [OF demo_fps_at, of 20 4]
  by (simp_all add: ld32_def demo_fps_list del: append_Cons) 

lemma demo_first:
  assumes "\<And>x. virt b x = x"
  shows "find (is_fps b (ram demo_smp)) (scan_places_of 0x9FC00 64) = Some 0x9FC10"
proof -
  have "get_checksum (ram demo_smp) 0x9FC10 16 = 0"
    using get_bytes_holds [OF demo_fps_at, of 16 16] by (simp add: get_checksum_zero bytes_sum_def demo_fps_list)
  then have "is_fps b (ram demo_smp) 0x9FC10"
    by (simp add: is_fps_def assms demo_fps_word demo_ebda demo_fps_list IMPS_FPS_SIGNATURE_def)
  moreover have "\<not> is_fps b (ram demo_smp) 0x9FC00"
    by (simp add: is_fps_def assms demo_fps_word IMPS_FPS_SIGNATURE_def)
  moreover have "scan_places_of 0x9FC00 64 = 0x9FC00 # 0x9FC10 # scan_places_of 0x9FC20 62"
    using scan_places_of_Suc [of "0x9FC00" 63] scan_places_of_Suc [of "0x9FC10" 62] by simp
  ultimately show ?thesis by simp
qed

lemma demo_found:
  assumes "\<And>x. virt b x = x" "ebda_of b demo_smp = 0x9FC00"
  shows "find (is_fps b (ram demo_smp)) (places b demo_smp) = Some 0x9FC10"
  by (simp add: places_def assms(2) find_append demo_first [OF assms(1)])

lemma demo_cth_words:
  "ld32 (ram demo_smp) 0xF0024 = 0xFEE00000" "ld16 (ram demo_smp) 0xF0022 = 3" "ld16 (ram demo_smp) 0xF0004 = 92"
  "ld16 (ram demo_smp) 0xF0028 = 0" "ld32 (ram demo_smp) 0xF0000 = 0x504D4350"
  using get_bytes_holds [OF demo_cth_at, of 36 4] get_bytes_holds [OF demo_cth_at, of 34 2] get_bytes_holds [OF demo_cth_at, of 4 2]
    get_bytes_holds [OF demo_cth_at, of 40 2] get_bytes_holds [OF demo_cth_at, of 0 4]
  by (simp_all add: ld32_def ld16_def demo_cth_list)

lemma demo_valid: "mp_valid demo_board (ram demo_smp) 0x9FC10"
proof -
  have "bytes_sum (ram demo_smp) 0xF0000 92 mod 256 = 0"
    using get_bytes_holds [OF demo_cth_at, of 0 92] by (simp add: bytes_sum_def length_demo_cth) (simp add: demo_cth_list)
  then show ?thesis
    by (simp add: mp_valid_def mp_table_valid_def demo_fps_word demo_cth_words demo_ebda [unfolded demo_fps_list] demo_rom Let_def smp_consts)
      (simp add: demo_cth_list)
qed


lemma demo_lapic: "lapic_of b (ram demo_smp) 0x9FC10 = 0xFEE00000" if "\<And>x. virt b x = x"
  by (simp add: lapic_of_def demo_fps_word demo_cth_words that)

theorem imps_probe_untouched_witness:
  "\<exists>s'. imps_probe demo_moved demo_smp = Inr (0, s') \<and> outputs s' = outputs demo_smp \<and> ram s' = ram demo_smp
     \<and> imps_num_cpus s' = 1 \<and> \<not> imps_enabled s'"
proof (rule imps_probe_untouched)
  show "msr_is demo_moved 0" by (simp add: msr_is_def)
  show "sane_memory demo_moved demo_smp \<longrightarrow>
      (\<forall>a. find (is_fps demo_moved (ram demo_smp)) (places demo_moved demo_smp) = Some a
           \<longrightarrow> \<not> admitted demo_moved (ram demo_smp) (virt demo_moved a) 0)"
    by (simp add: demo_found demo_ebda_at admitted_def demo_lapic)
qed

lemma demo_tables_safe: "tables_safe demo_board 0xFEE00000 0x9FC10 0xF0000 (mp_table (ram demo_smp) (0xF0000 + 44) 3)"
proof -
  have "\<not> touched demo_board 0xFEE00000 x" if "x \<in> {0x9FC14, 0x9FC15, 0x9FC16, 0x9FC17}" for x
    using that by (auto simp: touched_def bootaddr_def smp_consts)
  moreover have "(0x9FC14 :: u32) + word_of_nat i \<in> {0x9FC14, 0x9FC15, 0x9FC16, 0x9FC17}" if "i < 4" for i
  proof -
    have "i = 0 \<or> i = 1 \<or> i = 2 \<or> i = 3" using that by linarith
    then show ?thesis by auto
  qed
  moreover have "\<not> touched demo_board 0xFEE00000 (0xF0022 + word_of_nat i)" if "i < 2" for i
  proof -
    have "i = 0 \<or> i = 1" using that by linarith
    then show ?thesis by (intro demo_untouched) auto
  qed
  ultimately show ?thesis using demo_safe [of "0xFEE00000"] by (simp add: tables_safe_def)
qed

theorem imps_probe_starts_witness:
  "\<exists>js s'. imps_probe demo_board demo_smp = Inr (1 + length js, s') \<and> imps_enabled s'
     \<and> outcome demo_board [0] (application_cpus (mp_table (ram demo_smp) (0xF0000 + 44) 3)) js s'"
proof -
  have "sane_memory demo_board demo_smp" by (simp add: sane_memory_def demo_lower)
  moreover have "find (is_fps demo_board (ram demo_smp)) (places demo_board demo_smp) = Some 0x9FC10"
    by (rule demo_found) (simp_all add: demo_ebda_at)
  moreover have "msr_is demo_board 0xFEE00900" by (simp add: msr_is_def)
  moreover have "admitted demo_board (ram demo_smp) 0x9FC10 0xFEE00900" by (simp add: admitted_def demo_valid demo_lapic)
  moreover have "id_is demo_board 0xFEE00000 0" by (simp add: id_is_def APIC_ID_def)
  ultimately show ?thesis
    using imps_probe_starts [of demo_board demo_smp "0x9FC10" "0xFEE00900" 0] demo_tables_safe
    by (simp add: demo_fps_word demo_cth_words demo_table [simplified])
qed


lemma blank_no_fps: "\<not> fps_ahead b (\<lambda>_. 0) a"
  by (simp add: fps_ahead_def is_fps_def ld32_def get_bytes_def upt_rec IMPS_FPS_SIGNATURE_def)

theorem imps_scan_first_witness:
  "(\<exists>s'. tells demo_smp s' \<and> imps_scan demo_board 0x9FC00 1024 demo_smp =
      bindS (imps_read_bios demo_board 0x9FC10) (\<lambda>_. returnS True) s')
   \<and> imps_scan demo_board 0xF0000 8 (demo_smp\<lparr>ram := \<lambda>_. 0\<rparr>) = Inl NoReturn"
proof
  have "find (is_fps demo_board (ram demo_smp)) (scan_places_of 0x9FC00 64) = Some 0x9FC10"
    using demo_first [of demo_board] by simp
  then show "\<exists>s'. tells demo_smp s' \<and> imps_scan demo_board 0x9FC00 1024 demo_smp =
      bindS (imps_read_bios demo_board 0x9FC10) (\<lambda>_. returnS True) s'"
    using imps_scan_first [of demo_smp demo_board "0x9FC00" 0] by (auto dest!: spec [of _ 64])
  show "imps_scan demo_board 0xF0000 8 (demo_smp\<lparr>ram := \<lambda>_. 0\<rparr>) = Inl NoReturn"
    using imps_scan_first [of "demo_smp\<lparr>ram := \<lambda>_. 0\<rparr>" demo_board "0xF0000" 8] by (simp add: blank_no_fps)
qed

end
