(* ===== verification/SmpDefault.thy ===== *)
theory SmpDefault
  imports SmpRun
begin

unbundle bit_operations_syntax

text \<open>
  The default configurations of \<open>smp-imps.c\<close>: without a table in the BIOS, \<open>imps_read_bios\<close>
  completes the static table \<open>defconfig\<close> of two processors and reads that. It sets the number of processors
  to two before the walk, and the walk counts the second processor again.
\<close>

subsection \<open>The static table in memory\<close>

lemma set_bytes_off:
  "set_bytes (d + c) bs m (d + e) = (if unat (e - c) < length bs then bs ! unat (e - c) else m (d + e))"
  by (simp add: set_bytes_def)

text \<open>The entries of the table, as far as the walk starts processors: two processors, then 21 others.\<close>

lemma others_no_cpu:
  "(\<And>j. j < n \<Longrightarrow> m (a + 8 * word_of_nat j) \<noteq> 0) \<Longrightarrow> application_cpus (mp_table m a n) = [] \<and> table_len (mp_table m a n) = 8 * n"
proof (induction n arbitrary: a)
  case (Suc n)
  have nz: "m a \<noteq> 0" using Suc.prems [of 0] by simp
  then have e: "entry_len (entry_at m a) = 8" "application_cpus (entry_at m a # es) = application_cpus es" for es
    by (auto simp: entry_at_def)
  have "m (a + 8 + 8 * word_of_nat j) \<noteq> 0" if "j < n" for j
    using Suc.prems [of "Suc j"] that by (simp add: algebra_simps)
  then show ?case using Suc.IH [of "a + 8"] e by (simp add: Let_def table_len_def)
qed (simp add: table_len_def)

definition def_ready :: "board \<Rightarrow> (u32 \<Rightarrow> byte) \<Rightarrow> byte \<Rightarrow> bool" where
  "def_ready b m i =
     (let d = defconfig b in
      m d = 0 \<and> m (d + 1) = 0 \<and> m (d + 3) = (if i = 0 then 3 else 1)
      \<and> m (d + 20) = 0 \<and> m (d + 21) = 1 \<and> m (d + 23) = (if i = 0 then 1 else 3)
      \<and> (\<forall>j < 21. m (d + 40 + 8 * word_of_nat j) \<noteq> 0))"

lemma def_table:
  assumes "def_ready b m i"
  shows "application_cpus (mp_table m (defconfig b) DEF_ENTRIES) = [if i = 0 then 1 else 0]"
    and "table_len (mp_table m (defconfig b) DEF_ENTRIES) = 208"
proof -
  let ?d = "defconfig b"
  have o: "application_cpus (mp_table m (?d + 40) 21) = []" "table_len (mp_table m (?d + 40) 21) = 168"
    using others_no_cpu [of 21 m "?d + 40"] assms by (simp_all add: def_ready_def Let_def)
  have k: "(20 :: u32) + 1 = 21" "(20 :: u32) + 2 = 22" "(20 :: u32) + 3 = 23" by simp_all
  have p: "entry_at m ?d = Processor 0 (m (?d + 2)) (if i = 0 then 3 else 1)"
    "entry_at m (?d + 20) = Processor 1 (m (?d + 22)) (if i = 0 then 1 else 3)"
    using assms by (simp_all only: entry_at_def def_ready_def Let_def add.assoc k simp_thms if_True)
  have e: "entry_len (entry_at m ?d) = 20" "entry_len (entry_at m (?d + 20)) = 20" by (simp_all add: p)
  have n: "DEF_ENTRIES = Suc (Suc 21)" by (simp add: DEF_ENTRIES_def)
  have t: "mp_table m ?d DEF_ENTRIES = entry_at m ?d # entry_at m (?d + 20) # mp_table m (?d + 40) 21"
    by (simp only: n mp_table.simps Let_def e of_nat_numeral add.assoc) simp
  show "application_cpus (mp_table m ?d DEF_ENTRIES) = [if i = 0 then 1 else 0]" "table_len (mp_table m ?d DEF_ENTRIES) = 208"
    using o unfolding t p by (simp_all add: table_len_def)
qed


subsection \<open>Completing the table\<close>

text \<open>What \<open>default_table\<close> leaves in memory, from the two values read from the I/O APIC.\<close>

definition set_if :: "bool \<Rightarrow> u32 \<Rightarrow> byte list \<Rightarrow> (u32 \<Rightarrow> byte) \<Rightarrow> u32 \<Rightarrow> byte" where
  "set_if c a bs m = (if c then set_bytes a bs m else m)"

definition def_mem :: "u32 \<Rightarrow> byte \<Rightarrow> byte \<Rightarrow> byte \<Rightarrow> byte \<Rightarrow> (u32 \<Rightarrow> byte) \<Rightarrow> u32 \<Rightarrow> byte" where
  "def_mem d i f0 x y m =
     set_if (f0 = 7) (d + 64) [255] (set_if (f0 = 2) (d + 168) [255] (set_if (f0 = 2) (d + 80) [255]
     (set_if (4 < f0) (d + 48) [1] (set_if (4 < f0) (d + 22) [0x10] (set_if (4 < f0) (d + 2) [0x10]
     (set_if (f0 = 4 \<or> f0 = 7) (d + 42) (map of_char ''MCA   '') (set_if (f0 = 1 \<or> f0 = 5) (d + 42) (map of_char ''ISA   '')
     (set_bytes (d + (if i = 0 then 23 else 3)) [1] (set_bytes (d + (if i = 0 then 3 else 23)) [3]
     (set_bytes (d + 58) [y] (set_bytes (d + 57) [x] m)))))))))))"

lemma set_if_off: "set_if c (d + k) bs m (d + e) = (if c \<and> unat (e - k) < length bs then bs ! unat (e - k) else m (d + e))"
  by (simp add: set_if_def set_bytes_off)

lemma set_off_base: "set_bytes (d + c) bs m d = (if unat (0 - c) < length bs then bs ! unat (0 - c) else m d)"
  "set_if b (d + c) bs m d = (if b \<and> unat (0 - c) < length bs then bs ! unat (0 - c) else m d)"
  using set_bytes_off [of d c bs m 0] set_if_off [of b d c bs m 0] by simp_all

lemma holds_nth: "holds m d bs \<Longrightarrow> k < length bs \<Longrightarrow> m (d + word_of_nat k) = bs ! k"
  by (simp add: holds_def)

lemma bytes32_ioapic: "bytes32 IOAPIC_ADDR_DEFAULT = [0, 0, 0xC0, 0xFE]"
proof -
  have "(4 :: nat) = Suc (Suc (Suc (Suc 0)))" by simp
  then have "bytes32 IOAPIC_ADDR_DEFAULT = le_bytes (Suc (Suc (Suc (Suc 0)))) (unat IOAPIC_ADDR_DEFAULT)"
    unfolding bytes32_def by (rule arg_cong)
  then show ?thesis by (simp add: IOAPIC_ADDR_DEFAULT_def)
qed

lemma replicate_16: "replicate 16 (0 :: byte) = [0, 0, 0, 0, 0, 0, 0, 0, 0, 0, 0, 0, 0, 0, 0, 0]"
  by (simp add: numeral_eq_Suc)

lemma defconfig_types:
  "defconfig_bytes ! 0 = 0" "defconfig_bytes ! Suc 0 = 0" "defconfig_bytes ! 20 = 0" "defconfig_bytes ! 21 = 1"
  "j < 21 \<Longrightarrow> defconfig_bytes ! (40 + 8 * j) \<noteq> 0"
proof -
  show "defconfig_bytes ! 0 = 0" "defconfig_bytes ! Suc 0 = 0" "defconfig_bytes ! 20 = 0" "defconfig_bytes ! 21 = 1"
    by (simp_all add: defconfig_bytes_def processor_bytes_def replicate_16 IMPS_BCT_PROCESSOR_def)
  have "\<forall>j \<in> set [0..<21]. defconfig_bytes ! (40 + 8 * j) \<noteq> 0"
    unfolding defconfig_bytes_def processor_bytes_def bus_bytes_def interrupt_bytes_def replicate_16 bytes32_ioapic
    by (simp add: upt_rec IMPS_BCT_BUS_def IMPS_BCT_IOAPIC_def IMPS_BCT_IO_INTERRUPT_def IMPS_BCT_LOCAL_INTERRUPT_def)
  then show "j < 21 \<Longrightarrow> defconfig_bytes ! (40 + 8 * j) \<noteq> 0" by simp
qed


lemma unat_minus_1: "unat (- 1 :: u32) \<noteq> 0"
  by (simp add: unat_eq_0)

text \<open>The offsets of the types of the entries that are not processors.\<close>

definition type_offsets :: "u32 list" where
  "type_offsets = [40, 48, 56, 64, 72, 80, 88, 96, 104, 112, 120, 128, 136, 144, 152, 160, 168, 176, 184, 192, 200]"

lemma type_offsets_nth: "j < 21 \<Longrightarrow> 40 + 8 * word_of_nat j \<in> set type_offsets"
proof -
  assume "j < 21"
  moreover have "\<forall>j \<in> set [0..<21]. (40 + 8 * word_of_nat j :: u32) \<in> set type_offsets"
    by (simp add: upt_rec type_offsets_def)
  ultimately show ?thesis by simp
qed

lemma type_offsets_orig:
  assumes "holds m d defconfig_bytes" "e \<in> set type_offsets"
  shows "m (d + e) \<noteq> 0"
proof -
  have "\<forall>e \<in> set type_offsets. \<exists>j < 21. e = word_of_nat (40 + 8 * j)"
    unfolding type_offsets_def
    by (simp, intro conjI) (rule exI [of _ 0] exI [of _ 1] exI [of _ 2] exI [of _ 3] exI [of _ 4] exI [of _ 5] exI [of _ 6]
      exI [of _ 7] exI [of _ 8] exI [of _ 9] exI [of _ 10] exI [of _ 11] exI [of _ 12] exI [of _ 13] exI [of _ 14]
      exI [of _ 15] exI [of _ 16] exI [of _ 17] exI [of _ 18] exI [of _ 19] exI [of _ 20]; simp; fail)+
  with assms(2) obtain j where "j < 21" "e = word_of_nat (40 + 8 * j)" by blast
  with holds_nth [OF assms(1), of "40 + 8 * j"] defconfig_types(5) show ?thesis by (simp add: length_defconfig)
qed

lemma def_mem_types:
  assumes "\<And>e. e \<in> set type_offsets \<Longrightarrow> m (d + e) \<noteq> 0" "e \<in> set type_offsets"
  shows "def_mem d i f0 x y m (d + e) \<noteq> 0"
proof -
  have "\<forall>e \<in> set type_offsets. m (d + e) \<noteq> 0 \<longrightarrow> def_mem d i f0 x y m (d + e) \<noteq> 0"
    using unat_minus_1 by (simp add: type_offsets_def def_mem_def set_if_off set_bytes_off)
  with assms show ?thesis by blast
qed

lemma def_mem_ready:
  assumes "holds m (defconfig b) defconfig_bytes" "i = 0 \<or> i = 1"
  shows "def_ready b (def_mem (defconfig b) i f0 x y m) i"
proof -
  let ?d = "defconfig b" and ?m = "def_mem (defconfig b) i f0 x y m"
  have at: "m (?d + word_of_nat k) = defconfig_bytes ! k" if "k < 208" for k
    using holds_nth [OF assms(1)] that by (simp add: length_defconfig)
  have "m (?d + 0) = 0" "m (?d + 1) = 0" "m (?d + 20) = 0" "m (?d + 21) = 1"
    using at [of 0] at [of 1] at [of 20] at [of 21] by (simp_all add: defconfig_types)
  then have "?m (?d + 0) = 0" "?m (?d + 1) = 0" "?m (?d + 20) = 0" "?m (?d + 21) = 1"
    "?m (?d + 3) = (if i = 0 then 3 else 1)" "?m (?d + 23) = (if i = 0 then 1 else 3)"
    using unat_minus_1 by (simp_all only: def_mem_def set_if_off set_bytes_off) (simp_all add: assms)
  moreover have "?m (?d + 40 + 8 * word_of_nat j) \<noteq> 0" if j: "j < 21" for j
    using def_mem_types [of m ?d, OF type_offsets_orig [OF assms(1)] type_offsets_nth [OF j]] by (simp add: add.assoc)
  ultimately show ?thesis by (simp add: def_ready_def Let_def)
qed


subsection \<open>The run\<close>

lemma def_addrs:
  "def_ioapic b + 1 = defconfig b + 57" "def_ioapic b + 2 = defconfig b + 58"
  "def_proc b 0 + 3 = defconfig b + 3" "def_proc b (Suc 0) + 3 = defconfig b + 23"
  "def_proc b 0 + 2 = defconfig b + 2" "def_proc b (Suc 0) + 2 = defconfig b + 22"
  "def_bus b 0 + 2 = defconfig b + 42" "def_bus b (Suc 0) = defconfig b + 48"
  "def_intin b 0 = defconfig b + 64" "def_intin b 2 = defconfig b + 80" "def_intin b 13 = defconfig b + 168"
  by (simp_all add: def_ioapic_def def_proc_def def_bus_def def_intin_def)

lemma write_device:
  assumes "\<And>x. is_ram b x \<Longrightarrow> \<not> unat (x - a) < 4"
  shows "IMPS_WRITE b a v s = Inr ((), s\<lparr>history := history s @ [Out a v]\<rparr>)"
proof -
  have "(\<lambda>x. if is_ram b x then set_bytes a (bytes32 v) (ram s) x else ram s x) = ram s"
    using assms by (auto simp: set_bytes_def fun_eq_iff)
  then show ?thesis by (simp only: IMPS_WRITE_def) (cases s, simp)
qed

lemma put_if_mem: "put_if c a bs s = Inr ((), s\<lparr>ram := set_if c a bs (ram s)\<rparr>)"
  by (cases s) (simp add: put_if_def put_mem_def set_if_def returnS_def)

text \<open>The I/O APIC is not memory, and the structure is not in the static table.\<close>

definition def_layout :: "board \<Rightarrow> u32 \<Rightarrow> bool" where
  "def_layout b fps =
     ((\<forall>x. is_ram b x \<longrightarrow> 4 \<le> unat (x - IOAPIC_ADDR_DEFAULT)) \<and> 208 \<le> unat (fps + 11 - defconfig b))"

lemma def_read_ioapic_run:
  assumes "def_layout b fps"
  shows "\<exists>h x y. def_read_ioapic b s =
    Inr ((), s\<lparr>history := h, ram := set_bytes (defconfig b + 58) [y] (set_bytes (defconfig b + 57) [x] (ram s))\<rparr>)"
proof -
  have w: "IMPS_WRITE b IOAPIC_ADDR_DEFAULT v t = Inr ((), t\<lparr>history := history t @ [Out IOAPIC_ADDR_DEFAULT v]\<rparr>)" for v t
    using assms by (intro write_device) (auto simp: def_layout_def not_less)
  show ?thesis
    by (simp add: def_read_ioapic_def bindS_def w IMPS_READ_def ask_def put_mem_def def_addrs) (rule exI, rule exI, rule exI, rule refl)
qed

lemma set_bytes_out:
  assumes "208 \<le> unat (a - d)" "k + length bs \<le> 208"
  shows "set_bytes (d + word_of_nat k) bs m a = m a"
proof -
  have "\<not> unat (a - (d + word_of_nat k)) < length bs"
  proof
    assume lt: "unat (a - (d + word_of_nat k)) < length bs"
    have "a - d = word_of_nat (k + unat (a - (d + word_of_nat k)))" by simp
    then have "unat (a - d) \<le> k + unat (a - (d + word_of_nat k))" by (metis unat_of_nat mod_less_eq_dividend)
    with lt assms show False by simp
  qed
  then show ?thesis by (simp add: set_bytes_def)
qed

lemma default_table_run:
  assumes "def_layout b fps" "i = 0 \<or> i = 1"
  shows "\<exists>h x y. default_table b fps (ucast i) s = Inr ((defconfig b, DEF_ENTRIES),
    s\<lparr>history := h, ram := def_mem (defconfig b) i (ram s (fps + 11)) x y (ram s), imps_num_cpus := 2\<rparr>)"
proof -
  obtain h x y where r: "def_read_ioapic b s =
      Inr ((), s\<lparr>history := h, ram := set_bytes (defconfig b + 58) [y] (set_bytes (defconfig b + 57) [x] (ram s))\<rparr>)"
    using def_read_ioapic_run [OF assms(1)] by blast
  define s1 where "s1 = s\<lparr>history := h, ram := set_bytes (defconfig b + (if i = 0 then 23 else 3)) [1]
      (set_bytes (defconfig b + (if i = 0 then 3 else 23)) [3]
      (set_bytes (defconfig b + 58) [y] (set_bytes (defconfig b + 57) [x] (ram s)))), imps_num_cpus := 2\<rparr>"
  have p: "def_processors b (ucast i) (s\<lparr>history := h, ram := set_bytes (defconfig b + 58) [y] (set_bytes (defconfig b + 57) [x] (ram s))\<rparr>)
      = Inr ((), s1)"
    using assms(2)
    by (auto simp: def_processors_def bindS_def put_mem_def def_addrs s1_def IMPS_FLAG_ENABLED_def IMPS_CPUFLAG_BOOT_def)
  have far: "208 \<le> unat (fps + 11 - defconfig b)" using assms(1) by (simp add: def_layout_def)
  have "ram s1 (fps + 11) = ram s (fps + 11)"
    using set_bytes_out [OF far, of 3] set_bytes_out [OF far, of 23] set_bytes_out [OF far, of 57] set_bytes_out [OF far, of 58]
    by (simp add: s1_def)
  then have f: "fps_feature fps 0 s1 = Inr (ram s (fps + 11), s1)" by (simp add: fps_feature_def look_def)
  have "def_variant b f0 s1 = Inr ((), s1\<lparr>ram := def_mem (defconfig b) i f0 x y (ram s)\<rparr>)" for f0
    by (simp add: def_variant_def bindS_def put_if_mem def_mem_def s1_def def_addrs IMPS_BCT_BUS_def)
  then have "default_table b fps (ucast i) s = Inr ((defconfig b, DEF_ENTRIES), s1\<lparr>ram := def_mem (defconfig b) i (ram s (fps + 11)) x y (ram s)\<rparr>)"
    by (simp add: default_table_def bindS_def r p f returnS_def)
  then show ?thesis unfolding s1_def by (intro exI [of _ h] exI [of _ x] exI [of _ y]) simp
qed


text \<open>Nothing of the static table is overwritten by booting.\<close>

definition def_safe :: "board \<Rightarrow> u32 \<Rightarrow> u32 \<Rightarrow> bool" where
  "def_safe b lapic fps =
     ((\<forall>k < 208. \<not> touched b lapic (defconfig b + word_of_nat k)) \<and> (\<forall>k < 4. \<not> touched b lapic (fps + 4 + word_of_nat k)))"

lemma def_walk:
  assumes "def_ready b (ram s) i" "\<forall>k < 208. \<not> touched b (imps_lapic_addr s) (defconfig b + word_of_nat k)" "room 1 s"
  shows "starts b (imps_read_config_table b (defconfig b) DEF_ENTRIES) [if i = 0 then 1 else 0] 0 s"
  using config_table_starts [of b s "defconfig b" DEF_ENTRIES 0] assms def_table [OF assms(1)]
  by (simp add: table_safe_def)

lemma read_tables_default:
  assumes cth: "ld32 (ram s) (fps + 4) = 0" and static: "holds (ram s) (defconfig b) defconfig_bytes"
    and layout: "def_layout b fps" "def_safe b (virt b (imps_lapic_addr s)) fps"
    and ident: "id_is b (virt b (imps_lapic_addr s)) i" "i = 0 \<or> i = 1"
    and start: "imps_num_cpus s = 1" "length (imps_cpu_apic_map s) = 255" "length (imps_apic_cpu_map s) = 255"
  shows "\<exists>js s'. read_tables b fps p s = Inr ((), s') \<and> imps_enabled s' \<and> subseq js [if i = 0 then 1 else 0]
    \<and> (all_answer b \<longrightarrow> js = [if i = 0 then 1 else 0]) \<and> (none_answer b \<longrightarrow> js = [])
    \<and> cpus_of s' = fold number_cpu js (2, (imps_cpu_apic_map s)[0 := i], (imps_apic_cpu_map s)[unat i := 0])"
proof -
  let ?l = "virt b (imps_lapic_addr s)"
  define s0 where "s0 = s\<lparr>imps_lapic_addr := ?l\<rparr>"
  have s0: "ram s0 = ram s" "imps_lapic_addr s0 = ?l" "room 1 s0" "imps_num_cpus s0 = 1"
    "imps_cpu_apic_map s0 = imps_cpu_apic_map s" "imps_apic_cpu_map s0 = imps_apic_cpu_map s"
    using start by (simp_all add: s0_def room_def)
  have i: "i \<noteq> 255" using ident(2) by auto
  obtain s1 where s1: "setup_primary b s0 = Inr (ucast i, s1)" "advances b s0 s1"
    "cpus_of s1 = (1, (imps_cpu_apic_map s)[0 := i], (imps_apic_cpu_map s)[unat i := 0])"
    using setup_primary_result [of b s0 i 1 1] ident(1) i s0 by auto
  have adv: "ram s1 x = ram s x" if "\<not> touched b ?l x" for x using s1(2) that s0 by (simp add: advances_def)
  have l1: "imps_lapic_addr s1 = ?l" using s1(2) s0 by (simp add: advances_def)
  have cth1: "ld32 (ram s1) (fps + 4) = 0"
    using ld_after [OF s1(2), of "fps + 4"] layout(2) cth s0 by (simp add: def_safe_def)
  have static1: "holds (ram s1) (defconfig b) defconfig_bytes"
    using static adv layout(2) by (simp add: holds_def length_defconfig def_safe_def)
  obtain h x y where dt: "default_table b fps (ucast i) s1 = Inr ((defconfig b, DEF_ENTRIES),
      s1\<lparr>history := h, ram := def_mem (defconfig b) i (ram s1 (fps + 11)) x y (ram s1), imps_num_cpus := 2\<rparr>)"
    using default_table_run [OF layout(1) ident(2)] by blast
  define s2 where "s2 = s1\<lparr>history := h, ram := def_mem (defconfig b) i (ram s1 (fps + 11)) x y (ram s1), imps_num_cpus := 2\<rparr>"
  have c2: "cpus_of s2 = (2, (imps_cpu_apic_map s)[0 := i], (imps_apic_cpu_map s)[unat i := 0])" "room 1 s2"
    using s1(3) start by (auto simp: cpus_of_def s2_def room_def)
  have "starts b (imps_read_config_table b (defconfig b) DEF_ENTRIES) [if i = 0 then 1 else 0] 0 s2"
    using def_mem_ready [OF static1 ident(2)] layout(2) c2(2) l1 by (intro def_walk) (simp_all add: s2_def def_safe_def)
  then obtain js s3 where s3: "imps_read_config_table b (defconfig b) DEF_ENTRIES s2 = Inr ((), s3)" "subseq js [if i = 0 then 1 else 0]"
    "cpus_of s3 = fold number_cpu js (cpus_of s2)"
    "all_answer b \<longrightarrow> js = [if i = 0 then 1 else 0]" "none_answer b \<longrightarrow> js = []"
    unfolding starts_def by blast
  define s4 where "s4 = s3\<lparr>imps_enabled := True\<rparr>"
  have "read_tables b fps p s = Inr ((), s4)"
    by (simp add: read_tables_def map_lapic_def bindS_def s0_def [symmetric] s1(1) fps_cth_ptr_def look_def cth1
        dt s2_def [symmetric] s3(1) s4_def)
  moreover have "cpus_of s4 = fold number_cpu js (2, (imps_cpu_apic_map s)[0 := i], (imps_apic_cpu_map s)[unat i := 0])"
    using s3(3) c2(1) by (simp add: cpus_of_def s4_def)
  ultimately show ?thesis using s3(2,4,5) by (auto simp: s4_def)
qed

text \<open>
  C27: in a default configuration, which has two processors, \<open>imps_read_bios\<close> counts one too
  many: three when the second processor answers, whose identifier is then number 2 while number 1 was never
  assigned, and two when it does not.
\<close>

theorem imps_read_bios_default:
  assumes "ld32 (ram s) (fps + 4) = 0" "msr_is b v" "admitted b (ram s) fps v"
    and "holds (ram s) (defconfig b) defconfig_bytes"
    and "def_layout b fps" "def_safe b (virt b LAPIC_ADDR_DEFAULT) fps"
    and "id_is b (virt b LAPIC_ADDR_DEFAULT) i" "i = 0 \<or> i = 1"
    and "imps_num_cpus s = 1" "length (imps_cpu_apic_map s) = 255" "length (imps_apic_cpu_map s) = 255"
  shows "\<exists>s'. imps_read_bios b fps s = Inr ((), s') \<and> imps_enabled s' \<and> imps_cpu_apic_map s' ! 0 = i
    \<and> imps_cpu_apic_map s' ! 1 = imps_cpu_apic_map s ! 1
    \<and> (all_answer b \<longrightarrow> imps_num_cpus s' = 3 \<and> imps_cpu_apic_map s' ! 2 = 1 - i \<and> imps_apic_cpu_map s' ! unat (1 - i) = 2)
    \<and> (none_answer b \<longrightarrow> imps_num_cpus s' = 2)"
proof -
  obtain s1 where s1: "admit b fps (virt b (ld32 (ram s) (fps + 4))) s = Inr (True, s1)" "prelude s s1"
    "imps_lapic_addr s1 = LAPIC_ADDR_DEFAULT"
    using admit_result [OF assms(2), of fps s] assms(1,3) by (auto simp: lapic_of_def)
  have r: "ram s1 = ram s" "cpus_of s1 = cpus_of s" using s1(2) by (simp_all add: prelude_def)
  obtain js s2 where s2: "read_tables b fps (virt b (ld32 (ram s) (fps + 4))) s1 = Inr ((), s2)" "imps_enabled s2"
    "subseq js [if i = 0 then 1 else 0]" "all_answer b \<longrightarrow> js = [if i = 0 then 1 else 0]" "none_answer b \<longrightarrow> js = []"
    "cpus_of s2 = fold number_cpu js (2, (imps_cpu_apic_map s)[0 := i], (imps_apic_cpu_map s)[unat i := 0])"
    using read_tables_default [of s1 fps b i "virt b (ld32 (ram s) (fps + 4))"] assms r s1(3) by (auto simp: cpus_of_def)
  have other: "(if i = 0 then 1 else 0) = 1 - i" using assms(8) by auto
  have js: "js = [] \<or> js = [1 - i]" using s2(3) unfolding other by (cases js) (auto split: if_splits)
  have "imps_read_bios b fps s = Inr ((), s2)" using s1(1) s2(1) unfolding read_bios_admit by (simp add: bindS_def)
  moreover have "imps_cpu_apic_map s2 ! 0 = i \<and> imps_cpu_apic_map s2 ! 1 = imps_cpu_apic_map s ! 1"
    using js s2(6) assms(10) by (auto simp: cpus_of_def)
  moreover have "imps_num_cpus s2 = 2 + length js" using js s2(6) by (auto simp: cpus_of_def)
  moreover have "imps_cpu_apic_map s2 ! 2 = 1 - i \<and> imps_apic_cpu_map s2 ! unat (1 - i) = 2" if "js = [1 - i]"
    using that s2(6) assms(8,10,11) by (auto simp: cpus_of_def)
  ultimately show ?thesis using s2(2,4,5) unfolding other by auto
qed


subsection \<open>A machine without a table\<close>

definition default_fps :: "byte list" where
  "default_fps = [0x5F, 0x4D, 0x50, 0x5F, 0, 0, 0, 0, 1, 4, 0x9F, 1, 0, 0, 0, 0]"

definition default_smp :: smp where
  "default_smp = smp_start demo_board (set_bytes 0x9FC10 default_fps (\<lambda>_. 0)) 0x1000"

lemma default_smp_fields [simp]:
  "imps_num_cpus default_smp = 1" "imps_cpu_apic_map default_smp = replicate 255 0" "imps_apic_cpu_map default_smp = replicate 255 0"
  by (simp_all add: default_smp_def smp_start_def smp_consts)

lemma default_static: "holds (ram default_smp) 0x20000 defconfig_bytes"
  unfolding default_smp_def smp_start_def smp.simps demo_board_fields by (intro holds_set) (simp add: length_defconfig)

lemma default_fps_at: "holds (ram default_smp) 0x9FC10 default_fps"
  unfolding default_smp_def smp_start_def smp.simps demo_board_fields
  by (intro holds_apart holds_set) (simp_all add: length_defconfig default_fps_def)

lemma default_words: "ld32 (ram default_smp) 0x9FC14 = 0" "ram default_smp 0x9FC1B = 1"
  using get_bytes_holds [OF default_fps_at, of 4 4] holds_nth [OF default_fps_at, of 11]
  by (simp_all add: ld32_def default_fps_def)

lemma near: "unat (x - c) < 4 \<Longrightarrow> x \<in> {c, c + 1, c + 2, c + 3}"
  for x c :: u32
proof -
  assume "unat (x - c) < 4"
  moreover have "x = c + word_of_nat (unat (x - c))" by simp
  ultimately obtain r where "x = c + word_of_nat r" "r < 4" by metis
  moreover from \<open>r < 4\<close> have "r = 0 \<or> r = 1 \<or> r = 2 \<or> r = 3" by linarith
  ultimately show ?thesis by auto
qed

lemma demo_low_untouched:
  assumes "0x1000 \<le> x" "x < 0xA0000" "x \<noteq> 0x70000"
  shows "\<not> touched demo_board 0xFEE00000 x"
proof
  assume "touched demo_board 0xFEE00000 x"
  then have "x = 0x70000 \<or> x \<in> {0x467, 0x468, 0x469, 0x46A} \<or> x \<in> {0xFEE00280, 0xFEE00281, 0xFEE00282, 0xFEE00283}
      \<or> x \<in> {0xFEE00300, 0xFEE00301, 0xFEE00302, 0xFEE00303} \<or> x \<in> {0xFEE00310, 0xFEE00311, 0xFEE00312, 0xFEE00313}
      \<or> x \<in> {0xFEE000F0, 0xFEE000F1, 0xFEE000F2, 0xFEE000F3}"
    using near [of x "0x467"] near [of x "0xFEE00280"] near [of x "0xFEE00300"] near [of x "0xFEE00310"] near [of x "0xFEE000F0"]
    by (auto simp: touched_def bootaddr_def smp_consts unat_eq_0)
  with assms show False by auto
qed

lemma low_word: "k < 208 \<Longrightarrow> (0x1000 :: u32) \<le> 0x20000 + word_of_nat k \<and> 0x20000 + word_of_nat k < (0x70000 :: u32)"
proof -
  assume "k < 208"
  have "0x20000 + word_of_nat k = (word_of_nat (0x20000 + k) :: u32)" by simp
  also have "unat \<dots> = 0x20000 + k" unfolding unat_of_nat using \<open>k < 208\<close> by (intro mod_less) simp
  finally have "unat (0x20000 + word_of_nat k :: u32) = 0x20000 + k" .
  with \<open>k < 208\<close> show ?thesis by (simp add: word_le_nat_alt word_less_nat_alt)
qed

lemma default_safe: "def_safe demo_board 0xFEE00000 0x9FC10"
proof -
  have "\<not> touched demo_board 0xFEE00000 (0x20000 + word_of_nat k)" if "k < 208" for k
    using low_word [OF that] less_trans [of "0x20000 + word_of_nat k :: u32" "0x70000" "0xA0000"]
    by (intro demo_low_untouched) auto
  moreover have "\<not> touched demo_board 0xFEE00000 (0x9FC14 + word_of_nat k)" if "k < 4" for k
  proof -
    have "k = 0 \<or> k = 1 \<or> k = 2 \<or> k = 3" using that by linarith
    then show ?thesis by (elim disjE) (simp_all add: demo_low_untouched)
  qed
  ultimately show ?thesis by (simp add: def_safe_def)
qed

lemma default_layout: "def_layout demo_board 0x9FC10"
proof -
  have "4 \<le> unat (x - 0xFEC00000)" if "x < 0xA0000" for x :: u32
  proof (rule ccontr)
    assume "\<not> 4 \<le> unat (x - 0xFEC00000)"
    then have "x \<in> {0xFEC00000, 0xFEC00001, 0xFEC00002, 0xFEC00003}" using near [of x "0xFEC00000"] by auto
    with that show False by auto
  qed
  then show ?thesis by (simp add: def_layout_def IOAPIC_ADDR_DEFAULT_def)
qed

theorem imps_read_bios_default_witness:
  "\<exists>s'. imps_read_bios demo_board 0x9FC10 default_smp = Inr ((), s') \<and> imps_enabled s' \<and> imps_num_cpus s' = 3
    \<and> imps_cpu_apic_map s' ! 1 = 0 \<and> imps_cpu_apic_map s' ! 2 = 1"
proof -
  have "admitted demo_board (ram default_smp) 0x9FC10 0xFEE00900"
    by (simp add: admitted_def mp_valid_def lapic_of_def default_words smp_consts)
  moreover have "id_is demo_board 0xFEE00000 0" by (simp add: id_is_def APIC_ID_def)
  moreover have "all_answer demo_board" by (simp add: all_answer_def)
  moreover have "msr_is demo_board 0xFEE00900" by (simp add: msr_is_def)
  ultimately show ?thesis
    using imps_read_bios_default [of default_smp "0x9FC10" demo_board "0xFEE00900" 0]
      default_static default_layout default_safe default_words
    by (auto simp: LAPIC_ADDR_DEFAULT_def)
qed

end
