(* ===== verification/Spec2Isabelle.thy ===== *)
theory Spec2Isabelle
  imports ElfDumpSym RecordTool Mmapcat ThreadRuns ScsiLog WordDump BitPack Chat Looper DemoModule IoQueue KmsProps ModesList SmpDefault
begin

text \<open>
  A verification development of the C programs of this repository (\<open>src/perftools\<close>).
  The repository is a collection of independent programs: inspection of ELF files, small
  file tools, thread and socket demonstrations, kernel modules. What they share is C, its
  library and Linux, and that is what the first theories of the development model; each
  program has a theory of its own on top of them.

  \<^bold>\<open>The machine and the library\<close>

  \<^item> \<open>CBase\<close>: the data model (32-bit \<open>int\<close>, 64-bit \<open>long\<close>, little endian), the
    type \<open>fault\<close> of undefined behaviours, results as \<open>fault + 'a\<close> with their bind, guarded
    reads of buffers, integers and strings in byte buffers.
  \<^item> \<open>CFormat\<close>: an interpreter of the format strings of \<open>printf\<close>, so that the models quote
    the format strings of the sources; \<open>CLib\<close>: \<open>strtoul\<close> and \<open>atoi\<close>.
  \<^item> \<open>Posix\<close>: files, descriptors, output streams and the heap as one state record, the
    state monad with faults, and the system calls.

  Rewrite rules are collected in \<open>fmt_simps\<close>, \<open>res_simps\<close> and \<open>sm_simps\<close>.

  \<^bold>\<open>ELF files\<close> (\<open>linux/elf\<close>)

  \<^item> \<open>BinaryDump\<close>, \<open>DumpLayout\<close>, \<open>DumpLines\<close>, \<open>BinText\<close> model \<open>binary_dump.c\<close>: the
    four dump functions and the static text buffer. Shown: a dump can be parsed back, its
    layout row by row, and the buffer as an instance of the locale \<open>text_buffer\<close>.
  \<^item> \<open>ElfNames\<close> models the tables of names of \<open>elf.c\<close>, \<open>elfstring.c\<close> and \<open>elfile.h\<close>.
  \<^item> \<open>ElfLayout\<close> has the structures of the format; \<open>ElfView\<close> the abstract view of a file,
    which is the specification of both programs; \<open>ElfReader\<close> the locale \<open>file_reader\<close>, the
    contract of the two functions called \<open>elf_file_read\<close>; \<open>ElfSample\<close> builds files that
    satisfy the hypotheses.
  \<^item> \<open>ElfDig\<close> models \<open>elfdig.c\<close> (\<open>struct elf_obj\<close> is the record \<open>elf_obj\<close>, whose fields
    may be unwritten); \<open>ElfDigSpec\<close> and \<open>ElfDigMain\<close> show that each operation agrees with the
    view, and what the program prints, leaks and fails on.
  \<^item> \<open>ElfDump\<close> models \<open>elf.c\<close> (its globals are the record \<open>elf_globals\<close>); \<open>ElfDumpSpec\<close>,
    \<open>ElfDumpMain\<close> and \<open>ElfDumpSym\<close> show the same of it, up to the whole output of \<open>elf -r\<close>.

  \<^bold>\<open>Files and devices\<close>

  \<^item> \<open>IoTools\<close>, \<open>FileStore\<close>, \<open>FileTools\<close>, \<open>RecordTool\<close>: the programs of \<open>io/pread\<close> and
    \<open>io/read_write_tool\<close> and \<open>io/t.c\<close>. The locale \<open>file_store\<close> (what is put at a position is
    got there) is interpreted on \<open>pread\<close>/\<open>pwrite\<close> and on \<open>lseek\<close> with \<open>read\<close>/\<open>write\<close>.
  \<^item> \<open>Mmapcat\<close>: \<open>io/mmap/mmapcat.c\<close>; \<open>IoQueue\<close>: \<open>io/aio/io_queue.c\<close>, whose requests in
    flight are a multiset, from which the event loop loses just those that are refused when they are submitted again (an event
    carries the result of that call).
  \<^item> \<open>ScsiLog\<close>: \<open>linux/scsi_tool/scsi_log_ctl.c\<close>; \<open>WordDump\<close>: \<open>c/hexdump.c\<close>;
    \<open>BitPack\<close>: \<open>security/encrypt.c\<close>.

  \<^bold>\<open>Concurrency and the kernel\<close>

  \<^item> \<open>Threads\<close>, \<open>ThreadRuns\<close>: \<open>c/thread/mutex.c\<close>, \<open>spin.c\<close> and \<open>tid.c\<close> as one step relation
    \<open>tstep\<close>; the locale \<open>lock\<close> is interpreted on the mutex and on the spin lock. Mutual
    exclusion, the final count and termination follow from it; without a lock updates are lost.
  \<^item> \<open>Chat\<close>: \<open>net/socket/client.c\<close> and \<open>server.c\<close>.
  \<^item> \<open>Looper\<close>: the device of \<open>modules/helloworld\<close>; \<open>DemoModule\<close>: \<open>modules/mydemo/mydemo.c\<close>
    with the step relation \<open>dstep\<close> of the loaded module.

  \<^bold>\<open>Graphics\<close> (\<open>X/drm-howto\<close>)

  \<^item> \<open>Modeset\<close> models \<open>modeset.c\<close>: the card is the record \<open>card\<close> of what the calls of libdrm
    and of the kernel return, a parameter; the state \<open>gpu\<close> holds the list of devices and what is
    allocated. \<open>ModesetSpec\<close> shows what the search for a CRTC and the set-up guarantee,
    \<open>ModesetRun\<close> what is drawn and that a run leaves the card as it was. Setting up the devices and the whole run are
    shown in the locales \<open>device_setup\<close> and \<open>mode_program\<close>, by contracts of the functions in which the programs differ; the hypotheses on the
    card are \<open>card_ok\<close> and \<open>restorable\<close>, and \<open>demo_card\<close> satisfies them. \<open>drmModeSetCrtc\<close> may
    fail and may change any CRTC (\<open>set_of\<close>, which also gets the connectors); \<open>restorable\<close> says of a CRTC that its configuration
    can be read and set again, and that setting it changes no other one (\<open>sets_only\<close>).
  \<^item> \<open>Modes\<close> models the variants \<open>modeset13.c\<close>, \<open>modeset_list_mode.c\<close> and \<open>cairo/modeset13_cairo.c\<close>;
    \<open>ModesRun\<close> interprets the locales on the first and shows what its three areas look like and when painting them leaves the
    buffer, \<open>ModesList\<close> what the second prints and leaves, with the properties.
  \<^item> \<open>Flip\<close> models what \<open>modeset-double-buffered.c\<close> and \<open>modeset-vsync.c\<close> have in common (the
    devices with two buffers, on the state \<open>flip_gpu\<close> around \<open>gpu\<close>; the functions that are
    those of \<open>modeset.c\<close> are lifted by \<open>on_card\<close>) and the rest of the first; \<open>VSync\<close> the page flips, the
    events and the cleaning up of the second.
  \<^item> \<open>FlipSpec\<close> and \<open>FlipRun\<close> show what preparing guarantees and, in the locale \<open>flip_program\<close>, that a
    program whose drawing and cleaning up keep their contracts leaves the card as it was;
    \<open>FlipScreen\<close> and \<open>VSyncRun\<close> interpret it on the two programs. \<open>FlipWait\<close> has the locales \<open>timed_loop\<close> (handling
    events for five seconds) and \<open>flip_waits\<close> (waiting for the flip of what is cleaned up), which are interpreted on the loops of
    \<open>modeset-vsync.c\<close> and of \<open>modeset-atomic.c\<close>. \<open>FlipScreen\<close> also says when nothing
    that is shown or is about to be shown is drawn into (\<open>clear\<close>), and \<open>VSyncSpec\<close> how the flag
    \<open>pflip_pending\<close>, the flips under way and the events that are not read go together (\<open>flying\<close>).
  \<^item> \<open>VSyncMain\<close> has the relations \<open>passes\<close> and \<open>frames\<close> of the states the two programs go through and
    the properties: no drawing on the screen, restoring, ending, and what a failed read does. The field \<open>busy_calls\<close>
    of the state counts the page flips that were asked for too early: there are none.
  \<^item> \<open>Kms\<close> models \<open>modeset-atomic.c\<close>: the state \<open>kms\<close> is \<open>gpu\<close> with the list of outputs and, of the kernel, the values of
    the properties, the commits that wait for a vertical blank, the events and the blobs; the record \<open>kms_card\<close> has what the
    calls for atomic commits return, and \<open>kms_ok\<close> what is documented of them.
  \<^item> \<open>KmsSpec\<close> shows which CRTC and which plane an output gets, \<open>KmsHold\<close> that an output is set up
    (\<open>out_ok\<close>) or leaves nothing, and that after \<open>modeset_prepare\<close> the outputs hold just what is allocated (\<open>kms_holds\<close>);
    \<open>KmsReq\<close> what is put into a request, \<open>KmsRun\<close> what a redraw does and how flags, commits and events go
    together (\<open>kms_flight\<close>), \<open>KmsLoop\<close> the two loops, \<open>KmsFirst\<close> the first modeset, \<open>KmsMain\<close> drawing, cleaning up and \<open>main\<close>.
    \<open>KmsProps\<close> has the relation \<open>kms_states\<close> of the states of a run and the properties, with the settings of an output written
    out as numbers (\<open>wanted\<close>). A request whose preparing fails is not freed; \<open>kms_complete\<close> says of a card that none fails.

  \<^bold>\<open>Starting processors\<close> (\<open>c/x86_asm/smp\<close>)

  \<^item> \<open>Smp\<close> has the machine of \<open>smp-imps.c\<close> (memory as a function from addresses to bytes, hardware
    that answers from the history of what it was sent, the globals) and the constants and fields
    of \<open>apic.h\<close> and \<open>smp-imps.h\<close>; \<open>SmpProbe\<close> has its functions.
  \<^item> \<open>SmpSpec\<close> shows the frame of booting (\<open>quiet\<close>), the checksums, which tables are accepted
    and the scan; \<open>SmpBoot\<close> what is sent to start a processor; \<open>SmpTable\<close> the walk of the table
    against its reading as a list of entries; \<open>SmpMain\<close> and \<open>SmpRun\<close> the properties, up to
    the whole of \<open>imps_probe\<close>, on the example \<open>demo_board\<close>; \<open>SmpDefault\<close> the default
    configurations.

  \<^bold>\<open>Parameters.\<close> The results of calls whose outcome the program does not determine are
  arguments of the models: what \<open>getopt\<close> returns, the results of socket calls, of libaio, of libdrm and
  of the kernel's registration functions (\<open>card\<close> and \<open>kms_card\<close> for graphics), the clock, \<open>setkey\<close>/\<open>encrypt\<close>, what cairo draws, the page size. For page flips
  the record \<open>world\<close> says which calls succeed, what \<open>time\<close> and \<open>select\<close> return, when vertical blanks come and
  how many events a read returns; that a flip is busy until the next blank, is then
  shown and reported once with its device is what the comments of \<open>modeset-vsync.c\<close> say of the kernel. An atomic
  commit takes all settings of its request or none, at the next blank when it does not block; the same events follow.

  \<^bold>\<open>Bounds.\<close> Loops over counters are structural recursions on the number of rounds, which
  the code bounds. Fuel is used for the endless loops of the chat programs (the rounds of a
  conversation; any number that is at least the number of lines gives the same result) and
  for the record loop of \<open>t.c\<close> (one round more than there are records is enough, which is
  proved; without it the result is the fault \<open>NoReturn\<close>). The counting loop of the looper device and the scan of \<open>imps_scan\<close> are
  \<open>partial_function\<close>s; the first is proved to end for every count, the second for every multiple
  of 16 bytes, and not to end for other lengths unless it finds the structure. The two loops of
  \<open>modeset-vsync.c\<close> and of \<open>modeset-atomic.c\<close> that wait are \<open>partial_function\<close>s as well, proved to end when the clock goes on, every
  CRTC has vertical blanks again and again, and reads return events (\<open>world_fair\<close>); their loop over the global list runs as many rounds as
  there are devices.

  \<^bold>\<open>Not modelled.\<close> \<open>X/gc*.c\<close> and \<open>xim_example.c\<close> (sequences of Xlib calls),
  \<open>c/x86_asm/cpuid.c\<close> (inline assembly), \<open>modules/8139.c\<close> (the file is damaged:
  several functions are cut in the middle of a line), \<open>modules/kprobe\<close>,
  \<open>net/genetlink\<close>, \<open>net/netlink\<close>, \<open>lib/glib\<close>, \<open>linux/inject\<close>, and the programs
  of a few lines that show one feature of the compiler or of a library. Of \<open>mydemo.c\<close> the
  tables that register the netlink family, of \<open>tid.c\<close> the three delay loops and of
  \<open>io_queue.c\<close> the clock are left out: they have no effect on the state.
\<close>

end
